(* ===== verification/Skiff_Prelude.thy ===== *)
theory Skiff_Prelude
  imports Main "HOL-Library.Char_ord" "HOL-Library.List_Lexorder"
begin

text \<open>
  Shared foundations of the development: Rust's fixed-width integers with the checked,
  saturating and wrapping operations the sources call, decimal formatting of counters,
  \<open>BTreeMap\<close> as a strictly ordered association list behind the interface
  \<open>ordered_map\<close>, stable sorting, and the collections of rewrite rules used by the
  component theories.
\<close>

section \<open>Rule collections\<close>

named_theorems machine_simps "machine integer operations of the Rust standard library"

section \<open>Machine integers\<close>

text \<open>
  \<open>i64\<close> values are \<open>int\<close>, \<open>u64\<close> and \<open>usize\<close> values are \<open>nat\<close>;
  every operation that can leave the range is one of the functions below, which say what
  Rust does there.
\<close>

type_synonym i64 = int
type_synonym u64 = nat
type_synonym usize = nat
type_synonym timestamp = int

definition i64_max :: i64 where
  "i64_max = 9223372036854775807"

definition i64_min :: i64 where
  "i64_min = - 9223372036854775808"

definition u64_max :: u64 where
  "u64_max = 18446744073709551615"

definition in_i64 :: "int \<Rightarrow> bool" where
  "in_i64 x \<longleftrightarrow> i64_min \<le> x \<and> x \<le> i64_max"

definition checked_add_i64 :: "i64 \<Rightarrow> i64 \<Rightarrow> i64 option" where
  "checked_add_i64 a b = (if in_i64 (a + b) then Some (a + b) else None)"

definition clamp_i64 :: "int \<Rightarrow> i64" where
  "clamp_i64 x = (if x < i64_min then i64_min else if i64_max < x then i64_max else x)"

definition saturating_add_i64 :: "i64 \<Rightarrow> i64 \<Rightarrow> i64" where
  "saturating_add_i64 a b = clamp_i64 (a + b)"

definition saturating_mul_i64 :: "i64 \<Rightarrow> i64 \<Rightarrow> i64" where
  "saturating_mul_i64 a b = clamp_i64 (a * b)"

text \<open>The plain operators wrap around in a release build (no \<open>overflow-checks\<close> profile).\<close>

definition wrap_i64 :: "int \<Rightarrow> i64" where
  "wrap_i64 x = (x + 9223372036854775808) mod 18446744073709551616 - 9223372036854775808"

definition inc_u64 :: "u64 \<Rightarrow> u64" where
  "inc_u64 n = (n + 1) mod 18446744073709551616"

definition checked_add_u64 :: "u64 \<Rightarrow> u64 \<Rightarrow> u64 option" where
  "checked_add_u64 a b = (if a + b \<le> u64_max then Some (a + b) else None)"

definition saturating_add_u64 :: "u64 \<Rightarrow> u64 \<Rightarrow> u64" where
  "saturating_add_u64 a b = min (a + b) u64_max"

definition checked_sub_u64 :: "u64 \<Rightarrow> u64 \<Rightarrow> u64 option" where
  "checked_sub_u64 a b = (if b \<le> a then Some (a - b) else None)"

text \<open>\<open>i64::try_from(_).unwrap_or(i64::MAX)\<close> on an unsigned millisecond count.\<close>

definition millis_to_i64 :: "nat \<Rightarrow> i64" where
  "millis_to_i64 n = (if int n \<le> i64_max then int n else i64_max)"

lemmas machine_defs [machine_simps] =
  i64_max_def i64_min_def u64_max_def in_i64_def checked_add_i64_def clamp_i64_def
  saturating_add_i64_def saturating_mul_i64_def wrap_i64_def inc_u64_def checked_add_u64_def
  saturating_add_u64_def checked_sub_u64_def millis_to_i64_def

lemma checked_add_i64_SomeD: "checked_add_i64 a b = Some c \<Longrightarrow> c = a + b \<and> in_i64 c"
  by (auto simp: checked_add_i64_def split: if_splits)

lemma checked_add_u64_SomeD: "checked_add_u64 a b = Some c \<Longrightarrow> c = a + b \<and> c \<le> u64_max"
  by (auto simp: checked_add_u64_def split: if_splits)

lemma checked_sub_u64_SomeD: "checked_sub_u64 a b = Some c \<Longrightarrow> b \<le> a \<and> c = a - b"
  by (auto simp: checked_sub_u64_def split: if_splits)

lemma inc_u64_eq [simp]: "n < u64_max \<Longrightarrow> inc_u64 n = Suc n"
  by (simp add: inc_u64_def u64_max_def)

lemma inc_u64_bound: "inc_u64 n \<le> u64_max"
  by (simp add: inc_u64_def u64_max_def Suc_leI less_Suc_eq_le[symmetric])

lemma wrap_i64_id: "in_i64 x \<Longrightarrow> wrap_i64 x = x"
  by (simp add: machine_simps)

lemma clamp_i64_id: "in_i64 x \<Longrightarrow> clamp_i64 x = x"
  by (auto simp: machine_simps)

lemma clamp_i64_in_range [simp]: "in_i64 (clamp_i64 x)"
  by (auto simp: machine_simps)

lemma clamp_i64_mono: "x \<le> y \<Longrightarrow> clamp_i64 x \<le> clamp_i64 y"
  by (auto simp: machine_simps)

lemma clamp_i64_nonneg: "0 \<le> x \<Longrightarrow> clamp_i64 x = min x i64_max"
  by (auto simp: machine_simps)

lemma millis_to_i64_bounds: "0 \<le> millis_to_i64 n \<and> millis_to_i64 n \<le> i64_max"
  by (auto simp: machine_simps)

section \<open>Decimal formatting of counters\<close>

text \<open>\<open>format!("attempt-{}", n)\<close> and its relatives print an unsigned counter in decimal.\<close>

definition digit_char :: "nat \<Rightarrow> char" where
  "digit_char d = char_of (48 + d)"

fun show_nat :: "nat \<Rightarrow> string" where
  "show_nat n = (if n < 10 then [digit_char n] else show_nat (n div 10) @ [digit_char (n mod 10)])"

declare show_nat.simps [simp del]

definition read_digits :: "string \<Rightarrow> nat" where
  "read_digits cs = foldl (\<lambda>a c. 10 * a + (of_char c - 48)) 0 cs"

lemma of_char_digit_char [simp]: "d < 10 \<Longrightarrow> of_char (digit_char d) = 48 + d"
  by (simp add: digit_char_def)

lemma read_digits_snoc: "read_digits (cs @ [c]) = 10 * read_digits cs + (of_char c - 48)"
  by (simp add: read_digits_def)

lemma read_show_nat: "read_digits (show_nat n) = n"
proof (induction n rule: show_nat.induct)
  case (1 n)
  show ?case
  proof (cases "n < 10")
    case True
    then show ?thesis
      by (simp add: show_nat.simps [of n] read_digits_def)
  next
    case False
    then have "read_digits (show_nat n) = 10 * (n div 10) + n mod 10"
      using 1 by (simp add: show_nat.simps [of n] read_digits_snoc)
    then show ?thesis by simp
  qed
qed

lemma show_nat_inject [simp]: "show_nat m = show_nat n \<longleftrightarrow> m = n"
  by (metis read_show_nat)

section \<open>BTreeMap\<close>

text \<open>
  A \<open>BTreeMap\<close> is the list of its entries in key order: iteration (\<open>values\<close>,
  \<open>iter\<close>, \<open>keys\<close>) reads the list.
\<close>

type_synonym ('k, 'v) btree = "('k \<times> 'v) list"

definition bt_get :: "('k, 'v) btree \<Rightarrow> 'k \<Rightarrow> 'v option" where
  "bt_get m k = map_of m k"

fun bt_insert :: "'k::linorder \<Rightarrow> 'v \<Rightarrow> ('k, 'v) btree \<Rightarrow> ('k, 'v) btree" where
  "bt_insert k v [] = [(k, v)]"
| "bt_insert k v ((k', v') # m) =
     (if k < k' then (k, v) # (k', v') # m
      else if k = k' then (k, v) # m
      else (k', v') # bt_insert k v m)"

definition bt_remove :: "'k \<Rightarrow> ('k, 'v) btree \<Rightarrow> ('k, 'v) btree" where
  "bt_remove k m = filter (\<lambda>e. fst e \<noteq> k) m"

definition bt_values :: "('k, 'v) btree \<Rightarrow> 'v list" where
  "bt_values m = map snd m"

definition bt_keys :: "('k, 'v) btree \<Rightarrow> 'k list" where
  "bt_keys m = map fst m"

definition bt_ok :: "('k::linorder, 'v) btree \<Rightarrow> bool" where
  "bt_ok m \<longleftrightarrow> sorted_wrt (<) (map fst m)"

definition bt_map_values :: "('v \<Rightarrow> 'v) \<Rightarrow> ('k, 'v) btree \<Rightarrow> ('k, 'v) btree" where
  "bt_map_values f m = map (\<lambda>(k, v). (k, f v)) m"

text \<open>The laws a client of an ordered map relies on.\<close>

locale ordered_map =
  fixes empty :: "'m"
    and get :: "'m \<Rightarrow> 'k::linorder \<Rightarrow> 'v option"
    and ins :: "'k \<Rightarrow> 'v \<Rightarrow> 'm \<Rightarrow> 'm"
    and del :: "'k \<Rightarrow> 'm \<Rightarrow> 'm"
    and keys :: "'m \<Rightarrow> 'k list"
    and vals :: "'m \<Rightarrow> 'v list"
    and ok :: "'m \<Rightarrow> bool"
  assumes ok_empty: "ok empty"
    and ok_ins: "ok m \<Longrightarrow> ok (ins k v m)"
    and ok_del: "ok m \<Longrightarrow> ok (del k m)"
    and get_empty: "get empty k = None"
    and get_ins: "ok m \<Longrightarrow> get (ins k v m) k' = (if k' = k then Some v else get m k')"
    and get_del: "ok m \<Longrightarrow> get (del k m) k' = (if k' = k then None else get m k')"
    and keys_sorted: "ok m \<Longrightarrow> sorted_wrt (<) (keys m)"
    and set_keys: "ok m \<Longrightarrow> set (keys m) = {k. get m k \<noteq> None}"
    and values_eq: "ok m \<Longrightarrow> vals m = map (\<lambda>k. the (get m k)) (keys m)"
begin

lemma distinct_keys: "ok m \<Longrightarrow> distinct (keys m)"
  using keys_sorted strict_sorted_iff by blast

lemma in_values_iff: "ok m \<Longrightarrow> v \<in> set (vals m) \<longleftrightarrow> (\<exists>k. get m k = Some v)"
  by (force simp: values_eq set_keys image_iff)

lemma values_of_get: "ok m \<Longrightarrow> get m k = Some v \<Longrightarrow> v \<in> set (vals m)"
  by (auto simp: in_values_iff)

lemma finite_dom: "ok m \<Longrightarrow> finite {k. get m k \<noteq> None}"
  by (metis List.finite_set set_keys)

lemma all_entries_ins:
  "ok m \<Longrightarrow> (\<And>k v. get m k = Some v \<Longrightarrow> P k v) \<Longrightarrow> P k0 v0 \<Longrightarrow>
   get (ins k0 v0 m) k = Some v \<Longrightarrow> P k v"
  by (auto simp: get_ins split: if_splits)

end

lemma bt_insert_keys: "set (map fst (bt_insert k v m)) = insert k (set (map fst m))"
  by (induction k v m rule: bt_insert.induct) auto

lemma bt_ok_Nil [simp]: "bt_ok []"
  by (simp add: bt_ok_def)

lemma bt_get_Nil [simp]: "bt_get [] k = None"
  by (simp add: bt_get_def)

lemma bt_ok_Cons: "bt_ok (e # m) \<longleftrightarrow> bt_ok m \<and> (\<forall>k \<in> set (map fst m). fst e < k)"
  by (auto simp: bt_ok_def)

lemma bt_ok_insert: "bt_ok m \<Longrightarrow> bt_ok (bt_insert k v m)"
proof (induction k v m rule: bt_insert.induct)
  case (2 k v k' v' m)
  then show ?case
    using bt_insert_keys [of k v m] by (fastforce simp: bt_ok_Cons)
qed (simp add: bt_ok_def)

lemma bt_ok_remove: "bt_ok m \<Longrightarrow> bt_ok (bt_remove k m)"
  by (auto simp: bt_ok_def bt_remove_def sorted_wrt_map sorted_wrt_filter)

lemma bt_get_insert: "bt_ok m \<Longrightarrow> bt_get (bt_insert k v m) k' = (if k' = k then Some v else bt_get m k')"
  by (induction k v m rule: bt_insert.induct) (auto simp: bt_get_def bt_ok_Cons)

lemma bt_get_remove: "bt_get (bt_remove k m) k' = (if k' = k then None else bt_get m k')"
  by (induction m) (auto simp: bt_get_def bt_remove_def)

lemma bt_dom: "set (bt_keys m) = {k. bt_get m k \<noteq> None}"
  by (auto simp: bt_keys_def bt_get_def map_of_eq_None_iff)

lemma bt_values_map: "bt_ok m \<Longrightarrow> bt_values m = map (\<lambda>k. the (bt_get m k)) (bt_keys m)"
  by (induction m) (auto simp: bt_values_def bt_keys_def bt_get_def bt_ok_Cons)

interpretation bt: ordered_map "[]" bt_get bt_insert bt_remove bt_keys bt_values bt_ok
proof (unfold_locales, goal_cases)
  case (7 m)
  then show ?case by (simp add: bt_ok_def bt_keys_def)
next
  case (9 m)
  then show ?case by (rule bt_values_map)
qed (auto simp: bt_ok_insert bt_ok_remove bt_get_insert bt_get_remove bt_dom)

lemma bt_ok_map_values [simp]: "bt_ok (bt_map_values f m) \<longleftrightarrow> bt_ok m"
  by (simp add: bt_ok_def bt_map_values_def split_def comp_def)

lemma bt_get_map_values: "bt_get (bt_map_values f m) k = map_option f (bt_get m k)"
  by (induction m) (auto simp: bt_get_def bt_map_values_def)

lemma bt_values_map_values: "bt_values (bt_map_values f m) = map f (bt_values m)"
  by (simp add: bt_values_def bt_map_values_def split_def comp_def)

lemma bt_get_in_set: "bt_get m k = Some v \<Longrightarrow> (k, v) \<in> set m"
  by (simp add: bt_get_def map_of_SomeD)

section \<open>Stable sorting and truncation\<close>

text \<open>
  \<open>sort_by_key\<close> followed by \<open>truncate\<close>, the shape of every bounded scan: the result
  is ordered, comes from the input, keeps every element when the bound does not bite, and
  otherwise drops only elements with keys at least as large as every kept one.
\<close>

definition sorted_batch :: "('a \<Rightarrow> 'b::linorder) \<Rightarrow> nat \<Rightarrow> 'a list \<Rightarrow> 'a list" where
  "sorted_batch f n xs = take n (sort_key f xs)"

lemma sorted_batch_sorted: "sorted (map f (sorted_batch f n xs))"
  by (simp add: sorted_batch_def take_map [symmetric] sorted_wrt_take)

lemma sorted_batch_subset: "set (sorted_batch f n xs) \<subseteq> set xs"
  using set_take_subset [of n "sort_key f xs"] by (simp add: sorted_batch_def)

lemma sorted_batch_distinct: "distinct (map g xs) \<Longrightarrow> distinct (map g (sorted_batch f n xs))"
  by (simp add: sorted_batch_def take_map [symmetric] distinct_map)

lemma sorted_batch_length: "length (sorted_batch f n xs) = min n (length xs)"
  by (simp add: sorted_batch_def min.commute)

lemma sorted_batch_complete: "length xs \<le> n \<Longrightarrow> set (sorted_batch f n xs) = set xs"
  by (simp add: sorted_batch_def)

lemma sorted_batch_least:
  assumes "x \<in> set (sorted_batch f n xs)" and "y \<in> set xs" and "y \<notin> set (sorted_batch f n xs)"
  shows "f x \<le> f y"
proof -
  let ?s = "sort_key f xs"
  have split: "?s = take n ?s @ drop n ?s" by simp
  have y: "y \<in> set (drop n ?s)"
    using assms(2,3) set_sort [of f xs] by (metis Un_iff set_append sorted_batch_def split)
  have "sorted (map f (take n ?s @ drop n ?s))" by simp
  then have "\<forall>a \<in> set (take n ?s). \<forall>b \<in> set (drop n ?s). f a \<le> f b"
    unfolding map_append sorted_append by auto
  then show ?thesis using assms(1) y by (auto simp: sorted_batch_def)
qed

section \<open>Identities issued once\<close>

text \<open>
  Several components hand out identities (leases, claim tokens, eviction requests) and rely on
  an identity that is no longer held never coming back. The interface: identities are issued
  monotonically, held identities were issued, and a step makes a holder only by issuing.
\<close>

locale fresh_ids =
  fixes step :: "'s \<Rightarrow> 's \<Rightarrow> bool"
    and inv :: "'s \<Rightarrow> bool"
    and issued :: "'s \<Rightarrow> 'i set"
    and held :: "'s \<Rightarrow> 'k \<Rightarrow> 'i \<Rightarrow> bool"
  assumes step_inv: "inv s \<Longrightarrow> step s s' \<Longrightarrow> inv s'"
    and step_issued: "inv s \<Longrightarrow> step s s' \<Longrightarrow> issued s \<subseteq> issued s'"
    and step_held: "inv s \<Longrightarrow> step s s' \<Longrightarrow> held s' k i \<Longrightarrow> held s k i \<or> i \<notin> issued s"
begin

lemma steps_inv: "step\<^sup>*\<^sup>* s s' \<Longrightarrow> inv s \<Longrightarrow> inv s'"
  by (induction rule: rtranclp_induct) (auto intro: step_inv)

lemma steps_issued: "step\<^sup>*\<^sup>* s s' \<Longrightarrow> inv s \<Longrightarrow> issued s \<subseteq> issued s'"
proof (induction rule: rtranclp_induct)
  case (step t u)
  then show ?case using step_issued steps_inv by blast
qed simp

lemma never_returns:
  "step\<^sup>*\<^sup>* s s' \<Longrightarrow> inv s \<Longrightarrow> i \<in> issued s \<Longrightarrow> \<not> held s k i \<Longrightarrow> \<not> held s' k i"
proof (induction rule: rtranclp_induct)
  case (step t u)
  then have "inv t" "i \<in> issued t" "\<not> held t k i" using steps_inv steps_issued by blast+
  with step.hyps(2) show ?case using step_held by blast
qed simp

end

section \<open>Errors as sums\<close>

text \<open>
  \<open>Result<T, E>\<close> is \<open>'e + 't\<close> with \<open>Inl\<close> the error. A computation that may panic
  (\<open>expect\<close>, \<open>unwrap\<close>) is an \<open>option\<close> whose \<open>None\<close> is the panic.
\<close>

lemma sum_case_Inr_eq [simp]:
  "(case x of Inl e \<Rightarrow> Inl (f e) | Inr y \<Rightarrow> Inr (g y)) = Inr z \<longleftrightarrow> (\<exists>y. x = Inr y \<and> z = g y)"
  by (auto split: sum.splits)

end
