(* ===== verification/Task_Model.thy ===== *)
theory Task_Model
  imports Skiff_Prelude "HOL-Library.Word"
begin

text \<open>
  The durable task record of \<open>task-control/src/model.rs\<close>, the store errors of
  \<open>error.rs\<close> and the inputs and outcomes of the \<open>TaskStore\<close> port in
  \<open>store.rs\<close>. Identities are the strings the newtypes wrap. Two payload types stay
  type parameters because the store only compares them: \<open>'p\<close> is the artifact-form
  expected type plan and \<open>'j\<close> the JSON value of its runtime form.
\<close>

section \<open>Identities and time\<close>

type_synonym task_id = string
type_synonym attempt_id = string
type_synonym lease_id = string
type_synonym service_owner = string
type_synonym recoverable_payload = "8 word list"

definition checked_add_millis :: "timestamp \<Rightarrow> i64 \<Rightarrow> timestamp option" where
  "checked_add_millis t millis = checked_add_i64 t millis"

section \<open>State, lease and terminal\<close>

datatype task_state =
    Scheduled | Ready | Leased | Succeeded | Failed | PlatformFailed | Canceled

fun is_terminal :: "task_state \<Rightarrow> bool" where
  "is_terminal Succeeded = True"
| "is_terminal Failed = True"
| "is_terminal PlatformFailed = True"
| "is_terminal Canceled = True"
| "is_terminal _ = False"

fun task_state_as_str :: "task_state \<Rightarrow> string" where
  "task_state_as_str Scheduled = ''scheduled''"
| "task_state_as_str Ready = ''ready''"
| "task_state_as_str Leased = ''leased''"
| "task_state_as_str Succeeded = ''succeeded''"
| "task_state_as_str Failed = ''failed''"
| "task_state_as_str PlatformFailed = ''platformFailed''"
| "task_state_as_str Canceled = ''canceled''"

record task_lease =
  tl_lease_id :: lease_id
  tl_attempt_id :: attempt_id
  tl_owner :: string
  tl_expiry :: timestamp

datatype task_outcome =
    OutSucceeded
  | OutTargetFailed string
  | OutPlatformFailed string
  | OutCanceled

fun terminal_state :: "task_outcome \<Rightarrow> task_state" where
  "terminal_state OutSucceeded = Succeeded"
| "terminal_state (OutTargetFailed e) = Failed"
| "terminal_state (OutPlatformFailed r) = PlatformFailed"
| "terminal_state OutCanceled = Canceled"

record task_terminal =
  tt_settled_at :: timestamp
  tt_outcome :: task_outcome

definition task_terminal_state :: "task_terminal \<Rightarrow> task_state" where
  "task_terminal_state t = terminal_state (tt_outcome t)"

definition same_outcome :: "task_terminal \<Rightarrow> task_terminal \<Rightarrow> bool" where
  "same_outcome a b \<longleftrightarrow> tt_outcome a = tt_outcome b"

section \<open>Execution image, target and record\<close>

record task_trace_context =
  trace_id :: string
  span_id :: "string option"

record service_deployment_ref =
  sdr_service_id :: string
  sdr_contract_version :: string
  sdr_deployment_revision :: string
  sdr_deployment_artifact_identity :: string

record task_execution_image_ref =
  target_profile :: string
  package_version :: string
  deployment :: service_deployment_ref

record ('p, 'j) actor_activation_snapshot =
  snap_key :: recoverable_payload
  snap_create_input :: recoverable_payload
  snap_expected_type_plan :: 'p
  snap_expected_type_plan_runtime :: "'j option"

datatype actor_declaration_owner_unit = UnitService | UnitPackage u64

datatype actor_declaration_owner_file = LoadedFileIndex u64 | FileIrIdentity string

record actor_declaration_owner =
  ado_unit :: actor_declaration_owner_unit
  ado_file :: actor_declaration_owner_file
  ado_actor_symbol :: string

record actor_routing_ref =
  arr_service_id :: string
  arr_actor_abi_identity :: string

datatype ('p, 'j) detached_call_target =
    TargetFunction string
  | TargetActorMethod actor_routing_ref "('p, 'j) actor_activation_snapshot" string string
      actor_declaration_owner

record task_test_case_authority =
  test_case_capability :: string
  parent_request_id :: string
  origin_runtime_id :: string
  origin_connection_generation :: u64

record ('p, 'j) task_record =
  tr_task_id :: task_id
  tr_owner :: service_owner
  tr_execution :: task_execution_image_ref
  tr_target :: "('p, 'j) detached_call_target"
  tr_payload :: recoverable_payload
  tr_due_at :: timestamp
  tr_state :: task_state
  tr_attempt_generation :: u64
  tr_active_lease :: "task_lease option"
  tr_terminal :: "task_terminal option"
  tr_trace :: task_trace_context
  tr_created_at :: timestamp
  tr_retry_not_before :: "timestamp option"
  tr_test_case :: "task_test_case_authority option"

definition validate_create :: "('p, 'j) task_record \<Rightarrow> string + unit" where
  "validate_create r =
     (if tr_state r \<noteq> Scheduled then
        Inl (''task '' @ tr_task_id r @ '' must be created in scheduled state, found ''
             @ task_state_as_str (tr_state r))
      else if tr_attempt_generation r \<noteq> 0 then
        Inl (''task '' @ tr_task_id r @ '' must start with attempt generation 0'')
      else if tr_active_lease r \<noteq> None then
        Inl (''task '' @ tr_task_id r @ '' cannot be created with an active lease'')
      else if tr_terminal r \<noteq> None then
        Inl (''task '' @ tr_task_id r @ '' cannot be created with a terminal'')
      else if tr_created_at r < 0 \<or> tr_due_at r < 0 then
        Inl (''task '' @ tr_task_id r @ '' timestamps must be non-negative epoch millis'')
      else Inr ())"

section \<open>Public status and cancellation kinds\<close>

datatype task_status_kind =
    StatusScheduled | StatusReady | StatusRunning | StatusSucceeded | StatusFailed
  | StatusPlatformFailed | StatusCanceled | StatusExpired

fun status_kind_of_state :: "task_state \<Rightarrow> task_status_kind" where
  "status_kind_of_state Scheduled = StatusScheduled"
| "status_kind_of_state Ready = StatusReady"
| "status_kind_of_state Leased = StatusRunning"
| "status_kind_of_state Succeeded = StatusSucceeded"
| "status_kind_of_state Failed = StatusFailed"
| "status_kind_of_state PlatformFailed = StatusPlatformFailed"
| "status_kind_of_state Canceled = StatusCanceled"

definition status_kind :: "('p, 'j) task_record \<Rightarrow> task_status_kind" where
  "status_kind r = status_kind_of_state (tr_state r)"

datatype task_cancel_result_kind =
    CancelCanceled | CancelAlreadyStarted | CancelAlreadyTerminal | CancelExpired

datatype platform_error_class = Permanent | Transient

fun platform_terminal_outcome :: "platform_error_class \<Rightarrow> string \<Rightarrow> task_outcome option" where
  "platform_terminal_outcome Permanent reason = Some (OutPlatformFailed reason)"
| "platform_terminal_outcome Transient reason = None"

section \<open>Store errors\<close>

datatype task_store_error =
    DuplicateTaskId task_id string
  | CasMismatch task_id string
  | InvalidRecord task_id string
  | TaskNotFound task_id
  | TransientFailure string
  | StoreClosed

fun is_retryable :: "task_store_error \<Rightarrow> bool" where
  "is_retryable (TransientFailure m) = True"
| "is_retryable _ = False"

datatype task_store_error_class =
    ClassDuplicateTaskId | ClassCasMismatch | ClassInvalidRecord | ClassNotFound
  | ClassTransient | ClassClosed

fun error_class :: "task_store_error \<Rightarrow> task_store_error_class" where
  "error_class (DuplicateTaskId t m) = ClassDuplicateTaskId"
| "error_class (CasMismatch t m) = ClassCasMismatch"
| "error_class (InvalidRecord t m) = ClassInvalidRecord"
| "error_class (TaskNotFound t) = ClassNotFound"
| "error_class (TransientFailure m) = ClassTransient"
| "error_class StoreClosed = ClassClosed"

definition invalid_record :: "task_id \<Rightarrow> string \<Rightarrow> task_store_error" where
  "invalid_record tid message = InvalidRecord tid message"

section \<open>Inputs and outcomes of the TaskStore port\<close>

record claim_input =
  ci_task_id :: task_id
  ci_owner :: string
  ci_lease_expiry :: timestamp
  ci_image_activatable :: bool

record renew_input =
  ri_task_id :: task_id
  ri_lease_id :: lease_id
  ri_new_expiry :: timestamp

record settle_input =
  si_task_id :: task_id
  si_lease_id :: lease_id
  si_terminal :: task_terminal

record lease_recovery_input =
  lri_task_id :: task_id
  lri_retry_not_before :: timestamp

record release_input =
  rli_task_id :: task_id
  rli_lease_id :: lease_id
  rli_retry_not_before :: timestamp

record status_input =
  sti_task_id :: task_id
  sti_retention :: i64

record backlog_observation =
  bo_scheduled :: usize
  bo_ready :: usize
  bo_leased :: usize
  bo_oldest_due_at :: "timestamp option"
  bo_terminal_count :: usize
  bo_oldest_terminal_at :: "timestamp option"
  bo_observed_at :: "timestamp option"

datatype claim_rejection =
    ClaimNotReady | ClaimNotDue | ClaimNotActivatable | ClaimAlreadyLeased | ClaimTerminal
  | ClaimNotFound | ClaimInvalidLeaseExpiry

datatype ('p, 'j) claim_outcome =
    Claimed "('p, 'j) task_record" | ClaimRejected claim_rejection

datatype renew_rejection =
    RenewStaleLease | RenewExpiredLease | RenewInvalidExpiry | RenewNotLeased | RenewTerminal
  | RenewNotFound

datatype ('p, 'j) renew_outcome =
    Renewed "('p, 'j) task_record" | RenewRejected renew_rejection

datatype ('p, 'j) settle_outcome =
    Settled "('p, 'j) task_record" | AlreadySettled "('p, 'j) task_record"
  | SettleConflict "('p, 'j) task_record"
  | SettleStaleLease | SettleExpiredLease | SettleNotLeased | SettleNotFound

datatype ('p, 'j) settle_transition =
    TransSettled "('p, 'j) task_record" | TransAlreadySettled | TransConflict
  | TransStaleLease | TransExpiredLease | TransNotLeased

datatype ('p, 'j) lease_recovery_outcome =
    Recovered "('p, 'j) task_record" | RecoveryNotExpired | RecoveryNotLeased
  | RecoveryTerminal | RecoveryNotFound

datatype ('p, 'j) release_outcome =
    Released "('p, 'j) task_record" | ReleaseStaleLease | ReleaseExpiredLease
  | ReleaseNotLeased | ReleaseTerminal | ReleaseNotFound

datatype cancel_rejection = CancelRejAlreadyStarted | CancelRejAlreadyTerminal

datatype recovery_rejection = RecRejNotExpired | RecRejNotLeased | RecRejTerminal

datatype release_rejection =
    RelRejStaleLease | RelRejExpiredLease | RelRejNotLeased | RelRejTerminal

section \<open>Well-formed records\<close>

text \<open>
  What the reducer's \<open>expect\<close> calls rely on: exactly a leased record carries a lease,
  exactly a terminal record carries a terminal, and the terminal agrees with the state.
\<close>

definition task_wf :: "('p, 'j) task_record \<Rightarrow> bool" where
  "task_wf r \<longleftrightarrow>
     (tr_state r = Leased \<longleftrightarrow> tr_active_lease r \<noteq> None) \<and>
     (case tr_terminal r of
        None \<Rightarrow> \<not> is_terminal (tr_state r)
      | Some t \<Rightarrow> task_terminal_state t = tr_state r)"

lemma is_terminal_terminal_state [simp]: "is_terminal (terminal_state out)"
  by (cases out) auto

lemma terminal_state_neq [simp]:
  shows "terminal_state out \<noteq> Scheduled" and "terminal_state out \<noteq> Ready"
    and "terminal_state out \<noteq> Leased"
  by (cases out; simp)+

lemma is_terminal_task_terminal_state [simp]: "is_terminal (task_terminal_state t)"
  by (simp add: task_terminal_state_def)

lemma is_terminal_iff:
  "is_terminal s \<longleftrightarrow> s \<noteq> Scheduled \<and> s \<noteq> Ready \<and> s \<noteq> Leased"
  by (cases s) auto

lemma task_wf_leasedD: "task_wf r \<Longrightarrow> tr_state r = Leased \<Longrightarrow> \<exists>l. tr_active_lease r = Some l"
  by (auto simp: task_wf_def)

lemma task_wf_terminalD:
  "task_wf r \<Longrightarrow> is_terminal (tr_state r) \<Longrightarrow>
   \<exists>t. tr_terminal r = Some t \<and> task_terminal_state t = tr_state r"
  by (cases "tr_terminal r") (simp_all add: task_wf_def)

lemma task_wf_no_terminal:
  assumes "task_wf r" and "\<not> is_terminal (tr_state r)"
  shows "tr_terminal r = None"
proof (cases "tr_terminal r")
  case (Some t)
  with assms(1) have "tr_state r = task_terminal_state t" by (simp add: task_wf_def)
  with assms(2) show ?thesis by simp
qed

lemma validate_create_ok:
  "validate_create r = Inr () \<longleftrightarrow>
     tr_state r = Scheduled \<and> tr_attempt_generation r = 0 \<and> tr_active_lease r = None \<and>
     tr_terminal r = None \<and> 0 \<le> tr_created_at r \<and> 0 \<le> tr_due_at r"
  by (auto simp: validate_create_def)

lemma validate_create_wf: "validate_create r = Inr () \<Longrightarrow> task_wf r"
  by (simp add: validate_create_ok task_wf_def)

lemma task_state_as_str_inj: "task_state_as_str a = task_state_as_str b \<longleftrightarrow> a = b"
  by (cases a; cases b) auto

end
