(* ===== verification/Task_Backoff.thy ===== *)
theory Task_Backoff
  imports Task_Model
begin

text \<open>
  The platform pacing of retries: jitter sources and the exponential backoff policy of
  \<open>task-control/src/scheduler/backoff.rs\<close>, and the bounded retry of transient store
  failures of \<open>task-control/src/retry.rs\<close>. The contract of the \<open>Jitter\<close> trait is the
  locale \<open>jitter\<close>, interpreted for both sources of the code.
\<close>

section \<open>Jitter\<close>

locale jitter =
  fixes next_jitter :: "'s \<Rightarrow> i64 \<Rightarrow> i64 \<times> 's"
  assumes no_span: "span \<le> 0 \<Longrightarrow> fst (next_jitter j span) = 0"
    and in_span: "0 < span \<Longrightarrow> 0 \<le> fst (next_jitter j span) \<and> fst (next_jitter j span) < span"
begin

lemma jitter_nonneg: "0 \<le> fst (next_jitter j span)"
  using no_span in_span by (cases "0 < span") auto

lemma jitter_le: "fst (next_jitter j span) \<le> max 0 (span - 1)"
  using no_span [of span j] in_span [of span j] by (cases "0 < span") auto

end

definition fixed_next_millis :: "i64 \<Rightarrow> i64 \<Rightarrow> i64 \<times> i64" where
  "fixed_next_millis v span = (if span \<le> 0 then 0 else max 0 (min v (span - 1)), v)"

definition lcg_next_millis :: "64 word \<Rightarrow> i64 \<Rightarrow> i64 \<times> 64 word" where
  "lcg_next_millis state span =
     (if span \<le> 0 then (0, state)
      else let state' = state * 6364136223846793005 + 1442695040888963407
           in (int (unat state' mod nat span), state'))"

datatype jitter_source = FixedJitter i64 | LcgJitter "64 word"

fun next_millis :: "jitter_source \<Rightarrow> i64 \<Rightarrow> i64 \<times> jitter_source" where
  "next_millis (FixedJitter v) span = map_prod id FixedJitter (fixed_next_millis v span)"
| "next_millis (LcgJitter st) span = map_prod id LcgJitter (lcg_next_millis st span)"




section \<open>Backoff policy\<close>

record retry_backoff_policy =
  bp_base :: i64
  bp_max :: i64
  bp_jitter_span :: i64
  bp_jitter :: jitter_source

definition with_jitter ::
  "i64 \<Rightarrow> i64 \<Rightarrow> i64 \<Rightarrow> jitter_source \<Rightarrow> string + retry_backoff_policy" where
  "with_jitter base mx span j =
     (if base \<le> 0 then Inl ''backoff base must be positive''
      else if mx < base then Inl ''backoff max must be >= base''
      else if span < 0 then Inl ''backoff jitter span must be non-negative''
      else Inr \<lparr>bp_base = base, bp_max = mx, bp_jitter_span = span, bp_jitter = j\<rparr>)"

definition default_backoff :: "string + retry_backoff_policy" where
  "default_backoff = with_jitter 100 30000 100 (LcgJitter 0x9E3779B97F4A7C15)"

definition capped_millis :: "retry_backoff_policy \<Rightarrow> u64 \<Rightarrow> i64" where
  "capped_millis p generation =
     (let exponent = min (generation - 1) 62;
          doubled = saturating_mul_i64 (bp_base p) (2 ^ exponent)
      in min doubled (bp_max p))"

definition delay_millis :: "retry_backoff_policy \<Rightarrow> u64 \<Rightarrow> i64 \<times> retry_backoff_policy" where
  "delay_millis p generation =
     (let (jit, j') = next_millis (bp_jitter p) (bp_jitter_span p)
      in (saturating_add_i64 (capped_millis p generation) jit, p\<lparr>bp_jitter := j'\<rparr>))"

definition backoff_ok :: "retry_backoff_policy \<Rightarrow> bool" where
  "backoff_ok p \<longleftrightarrow> 0 < bp_base p \<and> bp_base p \<le> bp_max p \<and> bp_max p \<le> i64_max \<and>
     0 \<le> bp_jitter_span p \<and> bp_jitter_span p \<le> i64_max"


lemma delay_millis_keeps:
  assumes "delay_millis p g = (d, p')"
  shows "bp_base p' = bp_base p" and "bp_max p' = bp_max p" and "bp_jitter_span p' = bp_jitter_span p"
    and "backoff_ok p' = backoff_ok p"
  using assms by (auto simp: delay_millis_def backoff_ok_def split: prod.splits)










section \<open>Retry of transient failures\<close>

text \<open>
  \<open>Duration\<close> is a number of nanoseconds. The operation, the clock and the sleep act on an
  environment \<open>'w\<close>: whatever they do, the loop ends.
\<close>

definition duration_max :: nat where
  "duration_max = u64_max * 1000000000 + 999999999"

record task_retry_policy =
  rp_max_attempts :: nat
  rp_base_delay :: nat
  rp_max_delay :: nat
  rp_total_deadline :: nat

definition default_retry_policy :: task_retry_policy where
  "default_retry_policy = \<lparr>rp_max_attempts = 4, rp_base_delay = 25000000,
     rp_max_delay = 500000000, rp_total_deadline = 5000000000\<rparr>"

record task_retry_outcome =
  ro_attempts :: nat
  ro_retried :: nat

function retry_loop ::
  "task_retry_policy \<Rightarrow> ('w \<Rightarrow> i64 \<times> 'w) \<Rightarrow> (nat \<Rightarrow> 'w \<Rightarrow> 'w) \<Rightarrow> ('w \<Rightarrow> (task_store_error + 'a) \<times> 'w) \<Rightarrow>
   i64 \<Rightarrow> nat \<Rightarrow> nat \<Rightarrow> nat \<Rightarrow> 'w \<Rightarrow> (task_store_error + 'a) \<times> task_retry_outcome \<times> 'w" where
  "retry_loop pol clk slp op deadline attempts retried backoff w =
     (let attempts' = attempts + 1;
          (res, w1) = op w
      in case res of
           Inr v \<Rightarrow> (Inr v, \<lparr>ro_attempts = attempts', ro_retried = retried\<rparr>, w1)
         | Inl e \<Rightarrow>
             (if is_retryable e then
                (if attempts' \<ge> rp_max_attempts pol then
                   (Inl e, \<lparr>ro_attempts = attempts', ro_retried = retried\<rparr>, w1)
                 else
                   let (now, w2) = clk w1 in
                   if now \<ge> deadline then (Inl e, \<lparr>ro_attempts = attempts', ro_retried = retried\<rparr>, w2)
                   else retry_loop pol clk slp op deadline attempts' (retried + 1)
                          (min (min (backoff * 2) duration_max) (rp_max_delay pol)) (slp backoff w2))
              else (Inl e, \<lparr>ro_attempts = attempts', ro_retried = retried\<rparr>, w1)))"
  by pat_completeness auto
termination
  by (relation "measure (\<lambda>(pol, _, _, _, _, attempts, _). rp_max_attempts pol - attempts)") auto

declare retry_loop.simps [simp del]

definition retry_run ::
  "task_retry_policy \<Rightarrow> ('w \<Rightarrow> i64 \<times> 'w) \<Rightarrow> (nat \<Rightarrow> 'w \<Rightarrow> 'w) \<Rightarrow> ('w \<Rightarrow> (task_store_error + 'a) \<times> 'w) \<Rightarrow>
   'w \<Rightarrow> (task_store_error + 'a) \<times> task_retry_outcome \<times> 'w" where
  "retry_run pol clk slp op w =
     (let (started, w1) = clk w;
          deadline = wrap_i64 (started + millis_to_i64 (rp_total_deadline pol div 1000000))
      in retry_loop pol clk slp op deadline 0 0 (rp_base_delay pol) w1)"

lemma retry_loop_bounds:
  assumes "retry_loop pol clk slp op deadline a b d w = (res, ro, w')"
  shows "a < ro_attempts ro \<and> ro_attempts ro \<le> max (Suc a) (rp_max_attempts pol) \<and>
         ro_retried ro + a + 1 = ro_attempts ro + b \<and>
         (\<exists>w0 w1. op w0 = (res, w1)) \<and>
         (\<forall>e. res = Inl e \<longrightarrow> is_retryable e \<longrightarrow> ro_attempts ro < rp_max_attempts pol \<longrightarrow>
            (\<exists>w1 now. clk w1 = (now, w') \<and> deadline \<le> now))"
  using assms
proof (induction pol clk slp op deadline a b d w rule: retry_loop.induct)
  case (1 pol clk slp op deadline a b d w)
  obtain r w1 where op: "op w = (r, w1)" by fastforce
  obtain now w2 where clk: "clk w1 = (now, w2)" by fastforce
  consider v where "r = Inr v" | e where "r = Inl e" "\<not> is_retryable e"
    | e where "r = Inl e" "is_retryable e" "rp_max_attempts pol \<le> Suc a"
    | e where "r = Inl e" "is_retryable e" "\<not> rp_max_attempts pol \<le> Suc a" "deadline \<le> now"
    | e where "r = Inl e" "is_retryable e" "\<not> rp_max_attempts pol \<le> Suc a" "\<not> deadline \<le> now"
    by (cases r) blast+
  then show ?case
  proof cases
    case 5
    have "retry_loop pol clk slp op deadline (a + 1) (b + 1)
        (min (min (d * 2) duration_max) (rp_max_delay pol)) (slp d w2) = (res, ro, w')"
      using 1(2) 5 op clk by (subst (asm) retry_loop.simps) simp
    from 1(1) [OF refl op [symmetric] refl 5(1,2) _ clk [symmetric] refl _ this] 5
    show ?thesis by auto
  next
    case 4
    with 1(2) op clk show ?thesis by (subst (asm) retry_loop.simps) auto
  qed (use 1(2) op in \<open>subst (asm) retry_loop.simps, fastforce\<close>)+
qed

text \<open>Retrying always ends, whatever the store, the clock and the sleep do: at most
  \<open>max_attempts\<close> attempts (one when the limit is zero) with one retry less than attempts; the
  answer is one the operation gave; and a transient failure is only given up before the
  attempts are used when a clock reading reached the deadline.\<close>

theorem retry_run_bounded:
  assumes "retry_run pol clk slp op w = (res, ro, w')"
  shows "1 \<le> ro_attempts ro \<and> ro_attempts ro \<le> max 1 (rp_max_attempts pol) \<and>
         ro_retried ro + 1 = ro_attempts ro \<and> (\<exists>w0 w1. op w0 = (res, w1)) \<and>
         (\<forall>e. res = Inl e \<longrightarrow> is_retryable e \<longrightarrow> ro_attempts ro < rp_max_attempts pol \<longrightarrow>
            (\<exists>w1 now. clk w1 = (now, w') \<and>
               wrap_i64 (fst (clk w) + millis_to_i64 (rp_total_deadline pol div 1000000)) \<le> now))"
proof -
  obtain st w1 where c: "clk w = (st, w1)" by fastforce
  from assms c have "retry_loop pol clk slp op
      (wrap_i64 (st + millis_to_i64 (rp_total_deadline pol div 1000000))) 0 0 (rp_base_delay pol) w1
      = (res, ro, w')" by (simp add: retry_run_def)
  from retry_loop_bounds [OF this] c show ?thesis by auto
qed

theorem retry_run_bounded_witness:
  "ro_attempts (fst (snd (retry_run default_retry_policy (\<lambda>w. (5, w)) (\<lambda>_ w. w)
     (\<lambda>w. (Inl (TransientFailure ''down'') :: task_store_error + unit, Suc w)) (0::nat)))) \<le> 4"
proof -
  obtain res ro w' where r: "retry_run default_retry_policy (\<lambda>w. (5, w)) (\<lambda>_ w. w)
      (\<lambda>w. (Inl (TransientFailure ''down'') :: task_store_error + unit, Suc w)) (0::nat) = (res, ro, w')"
    by (metis prod_cases3)
  from retry_run_bounded [OF r] show ?thesis
    by (simp only: r) (simp add: default_retry_policy_def)
qed

text \<open>A deadline near the top of the 64-bit range wraps around: with the clock at its last
  second, the default policy computes a deadline in the distant past and gives up on a
  transient failure after a single attempt.\<close>

theorem retry_deadline_wraps:
  "retry_run default_retry_policy (\<lambda>w. (9223372036854775000, w)) (\<lambda>_ w. w)
     (\<lambda>w. (Inl (TransientFailure m) :: task_store_error + unit, Suc w)) (0::nat)
   = (Inl (TransientFailure m), \<lparr>ro_attempts = 1, ro_retried = 0\<rparr>, 1)"
  by (simp add: retry_run_def retry_loop.simps default_retry_policy_def wrap_i64_def millis_to_i64_def
      i64_max_def Let_def)

end
