(* ===== verification/Task_Reducer.thy ===== *)
theory Task_Reducer
  imports Task_Model
begin

text \<open>
  The pure task state machine of \<open>task-control/src/reducer.rs\<close>: one definition per
  transition, in source order. A transition whose source calls \<open>expect\<close> returns an
  \<open>option\<close> with \<open>None\<close> for the panic; the lemmas show that well-formed records never
  panic, stay well-formed, and move only along the documented edges.
\<close>

section \<open>Transitions\<close>

definition merge_retry_not_before :: "timestamp option \<Rightarrow> timestamp \<Rightarrow> timestamp option" where
  "merge_retry_not_before existing nxt =
     Some (case existing of
             Some current \<Rightarrow> if current > nxt then current else nxt
           | None \<Rightarrow> nxt)"

definition advance_due :: "('p, 'j) task_record \<Rightarrow> timestamp \<Rightarrow> ('p, 'j) task_record option" where
  "advance_due r now =
     (if tr_state r = Scheduled \<and> tr_due_at r \<le> now then Some (r\<lparr>tr_state := Ready\<rparr>) else None)"

definition claim ::
  "('p, 'j) task_record \<Rightarrow> claim_input \<Rightarrow> timestamp \<Rightarrow> attempt_id \<Rightarrow> lease_id \<Rightarrow>
   claim_rejection + ('p, 'j) task_record" where
  "claim r inp now aid lid =
     (case tr_state r of
        Scheduled \<Rightarrow> Inl ClaimNotReady
      | Ready \<Rightarrow>
          (if tr_due_at r > now then Inl ClaimNotDue
           else if \<not> ci_image_activatable inp then Inl ClaimNotActivatable
           else if ci_lease_expiry inp \<le> now then Inl ClaimInvalidLeaseExpiry
           else Inr (r\<lparr>tr_state := Leased,
                       tr_attempt_generation := inc_u64 (tr_attempt_generation r),
                       tr_active_lease := Some \<lparr>tl_lease_id = lid, tl_attempt_id = aid,
                         tl_owner = ci_owner inp, tl_expiry = ci_lease_expiry inp\<rparr>,
                       tr_terminal := None\<rparr>))
      | Leased \<Rightarrow> Inl ClaimAlreadyLeased
      | _ \<Rightarrow> Inl ClaimTerminal)"

definition renew ::
  "('p, 'j) task_record \<Rightarrow> renew_input \<Rightarrow> timestamp \<Rightarrow>
   (renew_rejection + ('p, 'j) task_record) option" where
  "renew r inp now =
     (case tr_state r of
        Leased \<Rightarrow>
          (case tr_active_lease r of
             None \<Rightarrow> None
           | Some lease \<Rightarrow> Some (
               if tl_lease_id lease \<noteq> ri_lease_id inp then Inl RenewStaleLease
               else if tl_expiry lease \<le> now then Inl RenewExpiredLease
               else if ri_new_expiry inp \<le> now then Inl RenewInvalidExpiry
               else Inr (r\<lparr>tr_active_lease := Some (lease\<lparr>tl_expiry := ri_new_expiry inp\<rparr>)\<rparr>)))
      | Scheduled \<Rightarrow> Some (Inl RenewNotLeased)
      | Ready \<Rightarrow> Some (Inl RenewNotLeased)
      | _ \<Rightarrow> Some (Inl RenewTerminal))"

definition settle ::
  "('p, 'j) task_record \<Rightarrow> settle_input \<Rightarrow> timestamp \<Rightarrow> ('p, 'j) settle_transition option" where
  "settle r inp now =
     (case tr_state r of
        Leased \<Rightarrow>
          (case tr_active_lease r of
             None \<Rightarrow> None
           | Some lease \<Rightarrow> Some (
               if tl_lease_id lease \<noteq> si_lease_id inp then TransStaleLease
               else if tl_expiry lease \<le> now then TransExpiredLease
               else case tr_terminal r of
                 Some existing \<Rightarrow>
                   (if same_outcome existing (si_terminal inp) then TransAlreadySettled
                    else TransConflict)
               | None \<Rightarrow> TransSettled (r\<lparr>tr_state := task_terminal_state (si_terminal inp),
                   tr_active_lease := None, tr_terminal := Some (si_terminal inp)\<rparr>)))
      | Scheduled \<Rightarrow> Some TransNotLeased
      | Ready \<Rightarrow> Some TransNotLeased
      | _ \<Rightarrow>
          (case tr_terminal r of
             None \<Rightarrow> None
           | Some existing \<Rightarrow> Some (
               if same_outcome existing (si_terminal inp) then TransAlreadySettled
               else TransConflict)))"

definition cancel ::
  "('p, 'j) task_record \<Rightarrow> timestamp \<Rightarrow> cancel_rejection + ('p, 'j) task_record" where
  "cancel r now =
     (case tr_state r of
        Scheduled \<Rightarrow> Inr (r\<lparr>tr_state := Canceled, tr_active_lease := None,
          tr_terminal := Some \<lparr>tt_settled_at = now, tt_outcome = OutCanceled\<rparr>\<rparr>)
      | Ready \<Rightarrow> Inr (r\<lparr>tr_state := Canceled, tr_active_lease := None,
          tr_terminal := Some \<lparr>tt_settled_at = now, tt_outcome = OutCanceled\<rparr>\<rparr>)
      | Leased \<Rightarrow> Inl CancelRejAlreadyStarted
      | _ \<Rightarrow> Inl CancelRejAlreadyTerminal)"

definition recover_expired_lease ::
  "('p, 'j) task_record \<Rightarrow> timestamp \<Rightarrow> timestamp \<Rightarrow>
   (recovery_rejection + ('p, 'j) task_record) option" where
  "recover_expired_lease r now retry =
     (case tr_state r of
        Leased \<Rightarrow>
          (case tr_active_lease r of
             None \<Rightarrow> None
           | Some lease \<Rightarrow> Some (
               if tl_expiry lease > now then Inl RecRejNotExpired
               else Inr (r\<lparr>tr_state := Ready, tr_active_lease := None,
                 tr_retry_not_before := merge_retry_not_before (tr_retry_not_before r) retry\<rparr>)))
      | Scheduled \<Rightarrow> Some (Inl RecRejNotLeased)
      | Ready \<Rightarrow> Some (Inl RecRejNotLeased)
      | _ \<Rightarrow> Some (Inl RecRejTerminal))"

definition release ::
  "('p, 'j) task_record \<Rightarrow> release_input \<Rightarrow> timestamp \<Rightarrow>
   (release_rejection + ('p, 'j) task_record) option" where
  "release r inp now =
     (case tr_state r of
        Leased \<Rightarrow>
          (case tr_active_lease r of
             None \<Rightarrow> None
           | Some lease \<Rightarrow> Some (
               if tl_lease_id lease \<noteq> rli_lease_id inp then Inl RelRejStaleLease
               else if tl_expiry lease \<le> now then Inl RelRejExpiredLease
               else Inr (r\<lparr>tr_state := Ready, tr_active_lease := None,
                 tr_retry_not_before :=
                   merge_retry_not_before (tr_retry_not_before r) (rli_retry_not_before inp)\<rparr>)))
      | Scheduled \<Rightarrow> Some (Inl RelRejNotLeased)
      | Ready \<Rightarrow> Some (Inl RelRejNotLeased)
      | _ \<Rightarrow> Some (Inl RelRejTerminal))"

section \<open>The lifecycle as a step relation\<close>

text \<open>
  The documented edges of a durable task, without the guards that decide when an edge is
  taken: due, claim, heartbeat, settlement, before-start cancellation and return to ready.
\<close>

inductive task_step :: "('p, 'j) task_record \<Rightarrow> ('p, 'j) task_record \<Rightarrow> bool" where
  step_due: "tr_state r = Scheduled \<Longrightarrow> task_step r (r\<lparr>tr_state := Ready\<rparr>)"
| step_claim: "tr_state r = Ready \<Longrightarrow>
    task_step r (r\<lparr>tr_state := Leased, tr_attempt_generation := inc_u64 (tr_attempt_generation r),
      tr_active_lease := Some l, tr_terminal := None\<rparr>)"
| step_renew: "tr_state r = Leased \<Longrightarrow> tr_active_lease r = Some l \<Longrightarrow>
    task_step r (r\<lparr>tr_active_lease := Some (l\<lparr>tl_expiry := e\<rparr>)\<rparr>)"
| step_settle: "tr_state r = Leased \<Longrightarrow> tr_terminal r = None \<Longrightarrow>
    task_step r (r\<lparr>tr_state := task_terminal_state t, tr_active_lease := None,
      tr_terminal := Some t\<rparr>)"
| step_cancel: "tr_state r = Scheduled \<or> tr_state r = Ready \<Longrightarrow>
    task_step r (r\<lparr>tr_state := Canceled, tr_active_lease := None,
      tr_terminal := Some \<lparr>tt_settled_at = n, tt_outcome = OutCanceled\<rparr>\<rparr>)"
| step_back: "tr_state r = Leased \<Longrightarrow>
    task_step r (r\<lparr>tr_state := Ready, tr_active_lease := None,
      tr_retry_not_before := merge_retry_not_before (tr_retry_not_before r) n\<rparr>)"

inductive_cases task_stepE: "task_step r r'"

text \<open>Fields fixed at submission.\<close>

definition same_submission :: "('p, 'j) task_record \<Rightarrow> ('p, 'j) task_record \<Rightarrow> bool" where
  "same_submission r r' \<longleftrightarrow>
     tr_task_id r' = tr_task_id r \<and> tr_owner r' = tr_owner r \<and>
     tr_execution r' = tr_execution r \<and> tr_target r' = tr_target r \<and>
     tr_payload r' = tr_payload r \<and> tr_due_at r' = tr_due_at r \<and>
     tr_trace r' = tr_trace r \<and> tr_created_at r' = tr_created_at r \<and>
     tr_test_case r' = tr_test_case r"

definition retry_le :: "timestamp option \<Rightarrow> timestamp option \<Rightarrow> bool" where
  "retry_le a b \<longleftrightarrow> (case a of None \<Rightarrow> True | Some x \<Rightarrow> (\<exists>y. b = Some y \<and> x \<le> y))"

lemma same_submission_refl [simp]: "same_submission r r"
  by (simp add: same_submission_def)

lemma same_submission_trans:
  "same_submission a b \<Longrightarrow> same_submission b c \<Longrightarrow> same_submission a c"
  by (simp add: same_submission_def)

lemma retry_le_refl [simp]: "retry_le a a"
  by (simp add: retry_le_def split: option.split)

lemma retry_le_trans: "retry_le a b \<Longrightarrow> retry_le b c \<Longrightarrow> retry_le a c"
  by (force simp: retry_le_def split: option.splits)

lemma retry_le_merge [simp]: "retry_le a (merge_retry_not_before a n)"
  by (simp add: retry_le_def merge_retry_not_before_def split: option.split)

lemma merge_retry_not_before_ge: "\<exists>y. merge_retry_not_before a n = Some y \<and> n \<le> y"
  by (simp add: merge_retry_not_before_def split: option.split)

lemma task_step_wf: "task_step r r' \<Longrightarrow> task_wf r \<Longrightarrow> task_wf r'"
  by (induction rule: task_step.induct)
     (auto simp: task_wf_def task_terminal_state_def is_terminal_iff split: option.splits)

lemma task_step_submission: "task_step r r' \<Longrightarrow> same_submission r r'"
  by (induction rule: task_step.induct) (simp_all add: same_submission_def)

lemma task_step_not_terminal: "task_step r r' \<Longrightarrow> \<not> is_terminal (tr_state r)"
  by (induction rule: task_step.induct) (auto simp: is_terminal_iff)

lemma task_step_retry: "task_step r r' \<Longrightarrow> retry_le (tr_retry_not_before r) (tr_retry_not_before r')"
  by (induction rule: task_step.induct) simp_all

lemma task_step_generation:
  "task_step r r' \<Longrightarrow>
   tr_attempt_generation r' =
     (if tr_state r = Ready \<and> tr_state r' = Leased then inc_u64 (tr_attempt_generation r)
      else tr_attempt_generation r)"
  by (induction rule: task_step.induct) auto

lemma task_step_lease:
  "task_step r r' \<Longrightarrow> task_wf r \<Longrightarrow> tr_active_lease r' = Some l' \<Longrightarrow>
   tr_state r = Ready \<or> (\<exists>l. tr_active_lease r = Some l \<and> tl_lease_id l' = tl_lease_id l)"
  by (induction rule: task_step.induct) (auto simp: task_wf_def)

lemmas task_step_facts =
  task_step_wf task_step_submission task_step_not_terminal task_step_retry task_step_generation

section \<open>The transitions refine the lifecycle\<close>

lemma advance_due_step: "advance_due r now = Some r' \<Longrightarrow> task_step r r'"
  by (auto simp: advance_due_def intro: task_step.intros split: if_splits)

lemma claim_step: "claim r inp now aid lid = Inr r' \<Longrightarrow> task_step r r'"
  by (auto simp: claim_def intro: step_claim split: task_state.splits if_splits)

lemma renew_step: "renew r inp now = Some (Inr r') \<Longrightarrow> task_step r r'"
  by (auto simp: renew_def intro: step_renew split: task_state.splits option.splits if_splits)

lemma settle_step: "settle r inp now = Some (TransSettled r') \<Longrightarrow> task_step r r'"
  by (auto simp: settle_def intro: step_settle split: task_state.splits option.splits if_splits)

lemma cancel_step: "cancel r now = Inr r' \<Longrightarrow> task_step r r'"
  by (auto simp: cancel_def intro: step_cancel split: task_state.splits)

lemma recover_step: "recover_expired_lease r now n = Some (Inr r') \<Longrightarrow> task_step r r'"
  by (auto simp: recover_expired_lease_def intro: step_back
      split: task_state.splits option.splits if_splits)

lemma release_step: "release r inp now = Some (Inr r') \<Longrightarrow> task_step r r'"
  by (auto simp: release_def intro: step_back split: task_state.splits option.splits if_splits)

lemmas reducer_steps =
  advance_due_step claim_step renew_step settle_step cancel_step recover_step release_step

text \<open>What a successful fenced transition must have presented.\<close>

lemma claim_Inr_iff:
  "claim r inp now aid lid = Inr r' \<longleftrightarrow>
     tr_state r = Ready \<and> tr_due_at r \<le> now \<and> ci_image_activatable inp \<and>
     now < ci_lease_expiry inp \<and>
     r' = r\<lparr>tr_state := Leased, tr_attempt_generation := inc_u64 (tr_attempt_generation r),
            tr_active_lease := Some \<lparr>tl_lease_id = lid, tl_attempt_id = aid,
              tl_owner = ci_owner inp, tl_expiry = ci_lease_expiry inp\<rparr>, tr_terminal := None\<rparr>"
  by (auto simp: claim_def split: task_state.splits)

lemma settle_TransSettledD:
  "settle r inp now = Some (TransSettled r') \<Longrightarrow>
   \<exists>l. tr_state r = Leased \<and> tr_active_lease r = Some l \<and> tl_lease_id l = si_lease_id inp \<and>
       now < tl_expiry l \<and> tr_terminal r = None \<and>
       r' = r\<lparr>tr_state := task_terminal_state (si_terminal inp), tr_active_lease := None,
              tr_terminal := Some (si_terminal inp)\<rparr>"
  by (auto simp: settle_def split: task_state.splits option.splits if_splits)

lemma renew_InrD:
  "renew r inp now = Some (Inr r') \<Longrightarrow>
   \<exists>l. tr_state r = Leased \<and> tr_active_lease r = Some l \<and> tl_lease_id l = ri_lease_id inp \<and>
       now < tl_expiry l \<and> now < ri_new_expiry inp \<and>
       r' = r\<lparr>tr_active_lease := Some (l\<lparr>tl_expiry := ri_new_expiry inp\<rparr>)\<rparr>"
  by (auto simp: renew_def split: task_state.splits option.splits if_splits)

lemma release_InrD:
  "release r inp now = Some (Inr r') \<Longrightarrow>
   \<exists>l. tr_state r = Leased \<and> tr_active_lease r = Some l \<and> tl_lease_id l = rli_lease_id inp \<and>
       now < tl_expiry l"
  by (auto simp: release_def split: task_state.splits option.splits if_splits)

lemma recover_InrD:
  "recover_expired_lease r now n = Some (Inr r') \<Longrightarrow>
   \<exists>l. tr_state r = Leased \<and> tr_active_lease r = Some l \<and> tl_expiry l \<le> now"
  by (auto simp: recover_expired_lease_def split: task_state.splits option.splits if_splits)

section \<open>Properties\<close>

lemma renew_no_panic: "task_wf r \<Longrightarrow> renew r inp now \<noteq> None"
  by (auto simp: renew_def task_wf_def split: task_state.splits option.splits)

lemma settle_no_panic: "task_wf r \<Longrightarrow> settle r inp now \<noteq> None"
  by (auto simp: settle_def task_wf_def split: task_state.splits option.splits)

lemma recover_no_panic: "task_wf r \<Longrightarrow> recover_expired_lease r now n \<noteq> None"
  by (auto simp: recover_expired_lease_def task_wf_def split: task_state.splits option.splits)

lemma release_no_panic: "task_wf r \<Longrightarrow> release r inp now \<noteq> None"
  by (auto simp: release_def task_wf_def split: task_state.splits option.splits)

lemmas reducer_no_panic = renew_no_panic settle_no_panic recover_no_panic release_no_panic

end
