(* ===== verification/Task_Store_Spec.thy ===== *)
theory Task_Store_Spec
  imports Task_Reducer
begin

text \<open>
  The contract of the \<open>TaskStore\<close> port (\<open>task-control/src/store.rs\<close>) as its clients use
  it, independent of an adapter: records stay well-formed, each atomic store step moves a
  record along at most one edge of the lifecycle, and records are never lost. The second
  interface adds lease fencing. The lemmas lift both to runs of any length.
\<close>

locale task_store_contract =
  fixes lookup :: "'s \<Rightarrow> task_id \<Rightarrow> ('p, 'j) task_record option"
    and step :: "'s \<Rightarrow> 's \<Rightarrow> bool"
    and inv :: "'s \<Rightarrow> bool"
  assumes inv_step: "inv s \<Longrightarrow> step s s' \<Longrightarrow> inv s'"
    and inv_wf: "inv s \<Longrightarrow> lookup s k = Some r \<Longrightarrow> task_wf r"
    and inv_key: "inv s \<Longrightarrow> lookup s k = Some r \<Longrightarrow> tr_task_id r = k"
    and evolves: "inv s \<Longrightarrow> step s s' \<Longrightarrow> lookup s k = Some r \<Longrightarrow>
      \<exists>r'. lookup s' k = Some r' \<and> (r' = r \<or> task_step r r')"
begin

lemma run_inv: "step\<^sup>*\<^sup>* s s' \<Longrightarrow> inv s \<Longrightarrow> inv s'"
  by (induction rule: rtranclp_induct) (auto intro: inv_step)

lemma run_evolves:
  "step\<^sup>*\<^sup>* s s' \<Longrightarrow> inv s \<Longrightarrow> lookup s k = Some r \<Longrightarrow>
   \<exists>r'. lookup s' k = Some r' \<and> task_step\<^sup>*\<^sup>* r r'"
proof (induction rule: rtranclp_induct)
  case base
  then show ?case by auto
next
  case (step t u)
  then obtain r' where r': "lookup t k = Some r'" "task_step\<^sup>*\<^sup>* r r'" by auto
  from step have "inv t" using run_inv by blast
  with r'(1) step.hyps(2) obtain r'' where "lookup u k = Some r''" "r'' = r' \<or> task_step r' r''"
    using evolves by blast
  with r'(2) show ?case by (meson rtranclp.rtrancl_into_rtrancl)
qed

lemma run_terminal:
  assumes "step\<^sup>*\<^sup>* s s'" and "inv s" and "lookup s k = Some r" and "is_terminal (tr_state r)"
  shows "lookup s' k = Some r"
proof -
  obtain r' where "lookup s' k = Some r'" and "task_step\<^sup>*\<^sup>* r r'"
    using run_evolves assms(1-3) by blast
  moreover from this(2) assms(4) have "r' = r"
    by (induction rule: converse_rtranclp_induct) (auto dest: task_step_not_terminal)
  ultimately show ?thesis by simp
qed

lemma run_submission:
  assumes "step\<^sup>*\<^sup>* s s'" and "inv s" and "lookup s k = Some r" and "lookup s' k = Some r'"
  shows "same_submission r r'" and "retry_le (tr_retry_not_before r) (tr_retry_not_before r')"
proof -
  from run_evolves [OF assms(1-3)] assms(4) have "task_step\<^sup>*\<^sup>* r r'" by auto
  then have "same_submission r r' \<and> retry_le (tr_retry_not_before r) (tr_retry_not_before r')"
  proof (induction rule: rtranclp_induct)
    case (step a b)
    then show ?case
      by (meson same_submission_trans retry_le_trans task_step_submission task_step_retry)
  qed simp
  then show "same_submission r r'"
    and "retry_le (tr_retry_not_before r) (tr_retry_not_before r')" by auto
qed

end

locale task_store_fencing = task_store_contract lookup step inv
  for lookup :: "'s \<Rightarrow> task_id \<Rightarrow> ('p, 'j) task_record option"
    and step :: "'s \<Rightarrow> 's \<Rightarrow> bool"
    and inv :: "'s \<Rightarrow> bool" +
  fixes issued :: "'s \<Rightarrow> lease_id set"
  assumes issued_mono: "inv s \<Longrightarrow> step s s' \<Longrightarrow> issued s \<subseteq> issued s'"
    and current_issued:
      "inv s \<Longrightarrow> lookup s k = Some r \<Longrightarrow> tr_active_lease r = Some l \<Longrightarrow> tl_lease_id l \<in> issued s"
    and unshared:
      "inv s \<Longrightarrow> lookup s k = Some r \<Longrightarrow> lookup s k' = Some r' \<Longrightarrow>
       tr_active_lease r = Some l \<Longrightarrow> tr_active_lease r' = Some l' \<Longrightarrow>
       tl_lease_id l = tl_lease_id l' \<Longrightarrow> k = k'"
    and claim_fresh:
      "inv s \<Longrightarrow> step s s' \<Longrightarrow> lookup s' k = Some r' \<Longrightarrow> tr_active_lease r' = Some l' \<Longrightarrow>
       tl_lease_id l' \<notin> issued s \<or>
       (\<exists>r l. lookup s k = Some r \<and> tr_active_lease r = Some l \<and> tl_lease_id l = tl_lease_id l')"
begin

definition holds :: "'s \<Rightarrow> task_id \<Rightarrow> lease_id \<Rightarrow> bool" where
  "holds s k lid \<longleftrightarrow>
     (\<exists>r l. lookup s k = Some r \<and> tr_active_lease r = Some l \<and> tl_lease_id l = lid)"

end

sublocale task_store_fencing \<subseteq> leases: fresh_ids step inv issued holds
proof (unfold_locales, goal_cases)
  case (3 s s' k i)
  then show ?case using claim_fresh unfolding holds_def by blast
qed (auto intro: inv_step dest: issued_mono)

end
