(* ===== verification/Task_Memory_Store.thy ===== *)
theory Task_Memory_Store
  imports Task_Store_Spec
begin

text \<open>
  \<open>MemoryTaskStore\<close> of \<open>task-control/src/memory.rs\<close>. Every operation of the source
  first runs \<open>gate\<close> under the lock and then its body under the lock again, so an
  operation is \<open>gated\<close> applied to its body and the step relation \<open>mem_step\<close> takes
  gates and bodies as separate atomic steps: it covers every interleaving of concurrent
  callers. The injected clock is an arbitrary sequence of readings (\<open>ms_clock\<close>, indexed by
  the number of reads so far), so rollback and jumps are included.
\<close>

section \<open>State\<close>

record ('p, 'j) memory_state =
  ms_records :: "(task_id, ('p, 'j) task_record) btree"
  ms_next_attempt :: u64
  ms_next_lease :: u64
  ms_transient_failures :: u64
  ms_closed :: bool
  ms_clock :: "nat \<Rightarrow> i64"
  ms_reads :: nat

type_synonym ('p, 'j, 'a) mem_io =
  "('p, 'j) memory_state \<Rightarrow> ((task_store_error + 'a) \<times> ('p, 'j) memory_state) option"

definition mem_with_clock :: "(nat \<Rightarrow> i64) \<Rightarrow> ('p, 'j) memory_state" where
  "mem_with_clock clk = \<lparr>ms_records = [], ms_next_attempt = 0, ms_next_lease = 0,
     ms_transient_failures = 0, ms_closed = False, ms_clock = clk, ms_reads = 0\<rparr>"

definition fail_next_transient :: "u64 \<Rightarrow> ('p, 'j) memory_state \<Rightarrow> ('p, 'j) memory_state" where
  "fail_next_transient n s = s\<lparr>ms_transient_failures := n\<rparr>"

definition mem_records :: "('p, 'j) memory_state \<Rightarrow> ('p, 'j) task_record list" where
  "mem_records s = bt_values (ms_records s)"

definition gate :: "('p, 'j) memory_state \<Rightarrow> (task_store_error + unit) \<times> ('p, 'j) memory_state" where
  "gate s =
     (if ms_closed s then (Inl StoreClosed, s)
      else if ms_transient_failures s > 0 then
        (Inl (TransientFailure ''injected transient task store failure''),
         s\<lparr>ms_transient_failures := ms_transient_failures s - 1\<rparr>)
      else (Inr (), s))"

definition read_clock :: "('p, 'j) memory_state \<Rightarrow> timestamp \<times> ('p, 'j) memory_state" where
  "read_clock s = (ms_clock s (ms_reads s), s\<lparr>ms_reads := Suc (ms_reads s)\<rparr>)"

definition gated :: "('p, 'j, 'a) mem_io \<Rightarrow> ('p, 'j, 'a) mem_io" where
  "gated body s =
     (case gate s of (Inl e, s') \<Rightarrow> Some (Inl e, s') | (Inr _, s') \<Rightarrow> body s')"

abbreviation put_record ::
  "task_id \<Rightarrow> ('p, 'j) task_record \<Rightarrow> ('p, 'j) memory_state \<Rightarrow> ('p, 'j) memory_state" where
  "put_record tid r s \<equiv> s\<lparr>ms_records := bt_insert tid r (ms_records s)\<rparr>"

abbreviation lookup_record ::
  "('p, 'j) memory_state \<Rightarrow> task_id \<Rightarrow> ('p, 'j) task_record option" where
  "lookup_record s tid \<equiv> bt_get (ms_records s) tid"

section \<open>Operation bodies\<close>

definition mem_now_body :: "('p, 'j, timestamp) mem_io" where
  "mem_now_body s = (let (now, s1) = read_clock s in Some (Inr now, s1))"

definition mem_create_body :: "('p, 'j) task_record \<Rightarrow> ('p, 'j, ('p, 'j) task_record) mem_io" where
  "mem_create_body r s =
     (case validate_create r of
        Inl message \<Rightarrow> Some (Inl (invalid_record (tr_task_id r) message), s)
      | Inr _ \<Rightarrow>
          (case lookup_record s (tr_task_id r) of
             Some existing \<Rightarrow>
               (if existing = r then Some (Inr existing, s)
                else Some (Inl (DuplicateTaskId (tr_task_id r)
                       ''same TaskId with a different canonical record''), s))
           | None \<Rightarrow> Some (Inr r, put_record (tr_task_id r) r s)))"

definition mem_claim_body :: "claim_input \<Rightarrow> ('p, 'j, ('p, 'j) claim_outcome) mem_io" where
  "mem_claim_body inp s =
     (case lookup_record s (ci_task_id inp) of
        None \<Rightarrow> Some (Inr (ClaimRejected ClaimNotFound), s)
      | Some r \<Rightarrow>
          (let (now, s1) = read_clock s;
               aid = ''attempt-'' @ show_nat (ms_next_attempt s1);
               lid = ''lease-'' @ show_nat (ms_next_lease s1);
               s2 = s1\<lparr>ms_next_attempt := inc_u64 (ms_next_attempt s1),
                       ms_next_lease := inc_u64 (ms_next_lease s1)\<rparr>
           in case claim r inp now aid lid of
                Inr nxt \<Rightarrow> Some (Inr (Claimed nxt), put_record (ci_task_id inp) nxt s2)
              | Inl rejection \<Rightarrow> Some (Inr (ClaimRejected rejection), s2)))"

definition mem_renew_body :: "renew_input \<Rightarrow> ('p, 'j, ('p, 'j) renew_outcome) mem_io" where
  "mem_renew_body inp s =
     (case lookup_record s (ri_task_id inp) of
        None \<Rightarrow> Some (Inr (RenewRejected RenewNotFound), s)
      | Some r \<Rightarrow>
          (let (now, s1) = read_clock s
           in case renew r inp now of
                None \<Rightarrow> None
              | Some (Inr nxt) \<Rightarrow> Some (Inr (Renewed nxt), put_record (ri_task_id inp) nxt s1)
              | Some (Inl rejection) \<Rightarrow> Some (Inr (RenewRejected rejection), s1)))"

definition mem_settle_body :: "settle_input \<Rightarrow> ('p, 'j, ('p, 'j) settle_outcome) mem_io" where
  "mem_settle_body inp s =
     (case lookup_record s (si_task_id inp) of
        None \<Rightarrow> Some (Inr SettleNotFound, s)
      | Some r \<Rightarrow>
          (let (now, s1) = read_clock s
           in case settle r inp now of
                None \<Rightarrow> None
              | Some t \<Rightarrow> Some (case t of
                    TransSettled nxt \<Rightarrow> (Inr (Settled nxt), put_record (si_task_id inp) nxt s1)
                  | TransAlreadySettled \<Rightarrow> (Inr (AlreadySettled r), s1)
                  | TransConflict \<Rightarrow> (Inr (SettleConflict r), s1)
                  | TransStaleLease \<Rightarrow> (Inr SettleStaleLease, s1)
                  | TransExpiredLease \<Rightarrow> (Inr SettleExpiredLease, s1)
                  | TransNotLeased \<Rightarrow> (Inr SettleNotLeased, s1))))"

definition mem_cancel_body :: "task_id \<Rightarrow> ('p, 'j, task_cancel_result_kind) mem_io" where
  "mem_cancel_body tid s =
     (case lookup_record s tid of
        None \<Rightarrow> Some (Inr CancelExpired, s)
      | Some r \<Rightarrow>
          (let (now, s1) = read_clock s
           in case cancel r now of
                Inr nxt \<Rightarrow> Some (Inr CancelCanceled, put_record tid nxt s1)
              | Inl CancelRejAlreadyStarted \<Rightarrow> Some (Inr CancelAlreadyStarted, s1)
              | Inl CancelRejAlreadyTerminal \<Rightarrow> Some (Inr CancelAlreadyTerminal, s1)))"

definition mem_recover_body ::
  "lease_recovery_input \<Rightarrow> ('p, 'j, ('p, 'j) lease_recovery_outcome) mem_io" where
  "mem_recover_body inp s =
     (case lookup_record s (lri_task_id inp) of
        None \<Rightarrow> Some (Inr RecoveryNotFound, s)
      | Some r \<Rightarrow>
          (let (now, s1) = read_clock s
           in case recover_expired_lease r now (lri_retry_not_before inp) of
                None \<Rightarrow> None
              | Some (Inr nxt) \<Rightarrow> Some (Inr (Recovered nxt), put_record (lri_task_id inp) nxt s1)
              | Some (Inl RecRejNotExpired) \<Rightarrow> Some (Inr RecoveryNotExpired, s1)
              | Some (Inl RecRejNotLeased) \<Rightarrow> Some (Inr RecoveryNotLeased, s1)
              | Some (Inl RecRejTerminal) \<Rightarrow> Some (Inr RecoveryTerminal, s1)))"

definition mem_release_body :: "release_input \<Rightarrow> ('p, 'j, ('p, 'j) release_outcome) mem_io" where
  "mem_release_body inp s =
     (case lookup_record s (rli_task_id inp) of
        None \<Rightarrow> Some (Inr ReleaseNotFound, s)
      | Some r \<Rightarrow>
          (let (now, s1) = read_clock s
           in case release r inp now of
                None \<Rightarrow> None
              | Some (Inr nxt) \<Rightarrow> Some (Inr (Released nxt), put_record (rli_task_id inp) nxt s1)
              | Some (Inl RelRejStaleLease) \<Rightarrow> Some (Inr ReleaseStaleLease, s1)
              | Some (Inl RelRejExpiredLease) \<Rightarrow> Some (Inr ReleaseExpiredLease, s1)
              | Some (Inl RelRejNotLeased) \<Rightarrow> Some (Inr ReleaseNotLeased, s1)
              | Some (Inl RelRejTerminal) \<Rightarrow> Some (Inr ReleaseTerminal, s1)))"

definition advance_visible :: "timestamp \<Rightarrow> ('p, 'j) task_record \<Rightarrow> ('p, 'j) task_record" where
  "advance_visible now r = (case advance_due r now of Some advanced \<Rightarrow> advanced | None \<Rightarrow> r)"

definition mem_scan_due_body :: "usize \<Rightarrow> ('p, 'j, ('p, 'j) task_record list) mem_io" where
  "mem_scan_due_body limit s =
     (let (now, s1) = read_clock s;
          recs = bt_map_values (advance_visible now) (ms_records s1);
          due = filter (\<lambda>r. tr_state r = Ready \<and> tr_due_at r \<le> now) (bt_values recs)
      in Some (Inr (sorted_batch tr_due_at limit due), s1\<lparr>ms_records := recs\<rparr>))"

definition lease_expired_at :: "timestamp \<Rightarrow> ('p, 'j) task_record \<Rightarrow> bool" where
  "lease_expired_at now r \<longleftrightarrow>
     tr_state r = Leased \<and> (case tr_active_lease r of None \<Rightarrow> False | Some l \<Rightarrow> tl_expiry l \<le> now)"

definition lease_expiry_or_zero :: "('p, 'j) task_record \<Rightarrow> timestamp" where
  "lease_expiry_or_zero r = (case tr_active_lease r of None \<Rightarrow> 0 | Some l \<Rightarrow> tl_expiry l)"

definition mem_scan_expired_leases_body ::
  "usize \<Rightarrow> ('p, 'j, ('p, 'j) task_record list) mem_io" where
  "mem_scan_expired_leases_body limit s =
     (let (now, s1) = read_clock s
      in Some (Inr (sorted_batch lease_expiry_or_zero limit
                 (filter (lease_expired_at now) (bt_values (ms_records s1)))), s1))"

definition mem_status_body :: "status_input \<Rightarrow> ('p, 'j, task_status_kind) mem_io" where
  "mem_status_body inp s =
     (case lookup_record s (sti_task_id inp) of
        None \<Rightarrow> Some (Inr StatusExpired, s)
      | Some r \<Rightarrow>
          (case checked_add_millis (tr_created_at r) (sti_retention inp) of
             None \<Rightarrow> Some (Inr (status_kind r), s)
           | Some expires \<Rightarrow>
               (let (now, s1) = read_clock s
                in if now \<ge> expires then Some (Inr StatusExpired, s1)
                   else Some (Inr (status_kind r), s1))))"

definition older :: "timestamp option \<Rightarrow> timestamp \<Rightarrow> timestamp" where
  "older current candidate =
     (case current of Some c \<Rightarrow> min c candidate | None \<Rightarrow> candidate)"

definition observe_record :: "('p, 'j) task_record \<Rightarrow> backlog_observation \<Rightarrow> backlog_observation" where
  "observe_record r ob =
     (case tr_state r of
        Scheduled \<Rightarrow> ob\<lparr>bo_scheduled := Suc (bo_scheduled ob),
          bo_oldest_due_at := Some (older (bo_oldest_due_at ob) (tr_due_at r))\<rparr>
      | Ready \<Rightarrow> ob\<lparr>bo_ready := Suc (bo_ready ob),
          bo_oldest_due_at := Some (older (bo_oldest_due_at ob) (tr_due_at r))\<rparr>
      | Leased \<Rightarrow> ob\<lparr>bo_leased := Suc (bo_leased ob)\<rparr>
      | _ \<Rightarrow>
          (let ob1 = ob\<lparr>bo_terminal_count := Suc (bo_terminal_count ob)\<rparr>
           in case tr_terminal r of
                Some t \<Rightarrow> ob1\<lparr>bo_oldest_terminal_at :=
                  Some (older (bo_oldest_terminal_at ob1) (tt_settled_at t))\<rparr>
              | None \<Rightarrow> ob1))"

definition mem_observe_backlog_body :: "('p, 'j, backlog_observation) mem_io" where
  "mem_observe_backlog_body s =
     (let (now, s1) = read_clock s
      in Some (Inr (fold observe_record (bt_values (ms_records s1))
           \<lparr>bo_scheduled = 0, bo_ready = 0, bo_leased = 0, bo_oldest_due_at = None,
             bo_terminal_count = 0, bo_oldest_terminal_at = None, bo_observed_at = Some now\<rparr>), s1))"

definition mem_close :: "('p, 'j) memory_state \<Rightarrow> ('p, 'j) memory_state" where
  "mem_close s = s\<lparr>ms_closed := True\<rparr>"

section \<open>Operations\<close>

definition mem_now :: "('p, 'j, timestamp) mem_io" where
  "mem_now = gated mem_now_body"

definition mem_create :: "('p, 'j) task_record \<Rightarrow> ('p, 'j, ('p, 'j) task_record) mem_io" where
  "mem_create r = gated (mem_create_body r)"

definition mem_claim :: "claim_input \<Rightarrow> ('p, 'j, ('p, 'j) claim_outcome) mem_io" where
  "mem_claim inp = gated (mem_claim_body inp)"

definition mem_renew :: "renew_input \<Rightarrow> ('p, 'j, ('p, 'j) renew_outcome) mem_io" where
  "mem_renew inp = gated (mem_renew_body inp)"

definition mem_settle :: "settle_input \<Rightarrow> ('p, 'j, ('p, 'j) settle_outcome) mem_io" where
  "mem_settle inp = gated (mem_settle_body inp)"

definition mem_cancel :: "task_id \<Rightarrow> ('p, 'j, task_cancel_result_kind) mem_io" where
  "mem_cancel tid = gated (mem_cancel_body tid)"

definition mem_recover :: "lease_recovery_input \<Rightarrow> ('p, 'j, ('p, 'j) lease_recovery_outcome) mem_io" where
  "mem_recover inp = gated (mem_recover_body inp)"

definition mem_release :: "release_input \<Rightarrow> ('p, 'j, ('p, 'j) release_outcome) mem_io" where
  "mem_release inp = gated (mem_release_body inp)"

definition mem_scan_due :: "usize \<Rightarrow> ('p, 'j, ('p, 'j) task_record list) mem_io" where
  "mem_scan_due limit = gated (mem_scan_due_body limit)"

definition mem_scan_expired_leases :: "usize \<Rightarrow> ('p, 'j, ('p, 'j) task_record list) mem_io" where
  "mem_scan_expired_leases limit = gated (mem_scan_expired_leases_body limit)"

definition mem_status :: "status_input \<Rightarrow> ('p, 'j, task_status_kind) mem_io" where
  "mem_status inp = gated (mem_status_body inp)"

definition mem_observe_backlog :: "('p, 'j, backlog_observation) mem_io" where
  "mem_observe_backlog = gated mem_observe_backlog_body"

lemmas mem_ops_def =
  mem_now_def mem_create_def mem_claim_def mem_renew_def mem_settle_def mem_cancel_def
  mem_recover_def mem_release_def mem_scan_due_def mem_scan_expired_leases_def mem_status_def
  mem_observe_backlog_def

section \<open>Atomic steps\<close>

datatype ('p, 'j) store_op =
    OpGate | OpFailNextTransient u64 | OpNow | OpCreate "('p, 'j) task_record"
  | OpClaim claim_input | OpRenew renew_input | OpSettle settle_input | OpCancel task_id
  | OpRecover lease_recovery_input | OpRelease release_input | OpScanDue usize
  | OpScanExpired usize | OpStatus status_input | OpObserve | OpClose

fun mem_body :: "('p, 'j) store_op \<Rightarrow> ('p, 'j) memory_state \<Rightarrow> ('p, 'j) memory_state option" where
  "mem_body OpGate s = Some (snd (gate s))"
| "mem_body (OpFailNextTransient n) s = Some (fail_next_transient n s)"
| "mem_body OpNow s = map_option snd (mem_now_body s)"
| "mem_body (OpCreate r) s = map_option snd (mem_create_body r s)"
| "mem_body (OpClaim i) s = map_option snd (mem_claim_body i s)"
| "mem_body (OpRenew i) s = map_option snd (mem_renew_body i s)"
| "mem_body (OpSettle i) s = map_option snd (mem_settle_body i s)"
| "mem_body (OpCancel t) s = map_option snd (mem_cancel_body t s)"
| "mem_body (OpRecover i) s = map_option snd (mem_recover_body i s)"
| "mem_body (OpRelease i) s = map_option snd (mem_release_body i s)"
| "mem_body (OpScanDue n) s = map_option snd (mem_scan_due_body n s)"
| "mem_body (OpScanExpired n) s = map_option snd (mem_scan_expired_leases_body n s)"
| "mem_body (OpStatus i) s = map_option snd (mem_status_body i s)"
| "mem_body OpObserve s = map_option snd (mem_observe_backlog_body s)"
| "mem_body OpClose s = Some (mem_close s)"

inductive mem_step :: "('p, 'j) memory_state \<Rightarrow> ('p, 'j) memory_state \<Rightarrow> bool" where
  "mem_body op s = Some s' \<Longrightarrow> mem_step s s'"

inductive_simps mem_step_iff: "mem_step s s'"

definition mem_inv :: "('p, 'j) memory_state \<Rightarrow> bool" where
  "mem_inv s \<longleftrightarrow>
     bt_ok (ms_records s) \<and>
     (\<forall>k r. lookup_record s k = Some r \<longrightarrow> task_wf r \<and> tr_task_id r = k)"

text \<open>What any body can do to the records.\<close>

inductive records_effect ::
  "(task_id, ('p, 'j) task_record) btree \<Rightarrow> (task_id, ('p, 'j) task_record) btree \<Rightarrow> bool" where
  eff_same: "records_effect m m"
| eff_move: "bt_get m k = Some r \<Longrightarrow> task_step r r' \<Longrightarrow> records_effect m (bt_insert k r' m)"
| eff_new: "bt_get m (tr_task_id r) = None \<Longrightarrow> validate_create r = Inr () \<Longrightarrow>
    records_effect m (bt_insert (tr_task_id r) r m)"
| eff_due: "records_effect m (bt_map_values (advance_visible now) m)"

lemma advance_visible_cases: "advance_visible now r = r \<or> task_step r (advance_visible now r)"
  by (auto simp: advance_visible_def split: option.split dest: advance_due_step)

lemma records_effect_ok: "records_effect m m' \<Longrightarrow> bt_ok m \<Longrightarrow> bt_ok m'"
  by (induction rule: records_effect.induct) (auto intro: bt.ok_ins)

lemma records_effect_evolves:
  "records_effect m m' \<Longrightarrow> bt_ok m \<Longrightarrow> bt_get m k = Some r \<Longrightarrow>
   \<exists>r'. bt_get m' k = Some r' \<and> (r' = r \<or> task_step r r')"
proof (induction rule: records_effect.induct)
  case (eff_due m now)
  then show ?case using advance_visible_cases by (auto simp: bt_get_map_values)
qed (auto simp: bt.get_ins)

lemma records_effect_origin:
  "records_effect m m' \<Longrightarrow> bt_ok m \<Longrightarrow> bt_get m' k = Some r' \<Longrightarrow>
   (\<exists>r. bt_get m k = Some r \<and> (r' = r \<or> task_step r r')) \<or>
   (validate_create r' = Inr () \<and> tr_task_id r' = k \<and> bt_get m k = None)"
proof (induction rule: records_effect.induct)
  case (eff_due m now)
  then show ?case using advance_visible_cases by (auto simp: bt_get_map_values)
qed (auto simp: bt.get_ins split: if_splits)

lemmas mem_body_defs =
  mem_now_body_def mem_create_body_def mem_claim_body_def mem_renew_body_def
  mem_settle_body_def mem_cancel_body_def mem_recover_body_def mem_release_body_def
  mem_scan_due_body_def mem_scan_expired_leases_body_def mem_status_body_def
  mem_observe_backlog_body_def gate_def read_clock_def fail_next_transient_def mem_close_def


lemma create_effect:
  "mem_create_body r s = Some (x, s') \<Longrightarrow> records_effect (ms_records s) (ms_records s')"
  by (auto simp: mem_create_body_def intro: eff_same eff_new
      split: sum.splits option.splits if_splits)

lemma claim_effect:
  "mem_claim_body i s = Some (x, s') \<Longrightarrow> records_effect (ms_records s) (ms_records s')"
  by (auto simp: mem_claim_body_def read_clock_def Let_def intro: eff_same eff_move dest!: claim_step
      split: sum.splits option.splits)

lemma renew_effect:
  "mem_renew_body i s = Some (x, s') \<Longrightarrow> records_effect (ms_records s) (ms_records s')"
  by (auto simp: mem_renew_body_def read_clock_def intro: eff_same eff_move dest!: renew_step
      split: sum.splits option.splits)

lemma settle_effect:
  "mem_settle_body i s = Some (x, s') \<Longrightarrow> records_effect (ms_records s) (ms_records s')"
  by (auto simp: mem_settle_body_def read_clock_def intro: eff_same eff_move dest!: settle_step
      split: settle_transition.splits option.splits)

lemma cancel_effect:
  "mem_cancel_body i s = Some (x, s') \<Longrightarrow> records_effect (ms_records s) (ms_records s')"
  by (auto simp: mem_cancel_body_def read_clock_def intro: eff_same eff_move dest!: cancel_step
      split: sum.splits option.splits cancel_rejection.splits)

lemma recover_effect:
  "mem_recover_body i s = Some (x, s') \<Longrightarrow> records_effect (ms_records s) (ms_records s')"
  by (auto simp: mem_recover_body_def read_clock_def intro: eff_same eff_move dest!: recover_step
      split: sum.splits option.splits recovery_rejection.splits)

lemma release_effect:
  "mem_release_body i s = Some (x, s') \<Longrightarrow> records_effect (ms_records s) (ms_records s')"
  by (auto simp: mem_release_body_def read_clock_def intro: eff_same eff_move dest!: release_step
      split: sum.splits option.splits release_rejection.splits)

lemma scan_due_effect:
  "mem_scan_due_body n s = Some (x, s') \<Longrightarrow> records_effect (ms_records s) (ms_records s')"
  by (auto simp: mem_scan_due_body_def read_clock_def Let_def intro: eff_due)

lemma reading_effect:
  shows "mem_now_body s = Some (y, s') \<Longrightarrow> records_effect (ms_records s) (ms_records s')"
    and "mem_status_body i s = Some (z, s') \<Longrightarrow> records_effect (ms_records s) (ms_records s')"
    and "mem_scan_expired_leases_body n s = Some (w, s') \<Longrightarrow>
           records_effect (ms_records s) (ms_records s')"
    and "mem_observe_backlog_body s = Some (v, s') \<Longrightarrow>
           records_effect (ms_records s) (ms_records s')"
    and "records_effect (ms_records s) (ms_records (snd (gate s)))"
    and "records_effect (ms_records s) (ms_records (fail_next_transient k s))"
    and "records_effect (ms_records s) (ms_records (mem_close s))"
  by (auto simp: mem_now_body_def mem_status_body_def mem_scan_expired_leases_body_def
      mem_observe_backlog_body_def read_clock_def Let_def gate_def fail_next_transient_def
      mem_close_def intro: eff_same split: option.splits if_splits)

lemmas body_effects =
  create_effect claim_effect renew_effect settle_effect cancel_effect recover_effect
  release_effect scan_due_effect reading_effect

lemma mem_body_effect: "mem_body op s = Some s' \<Longrightarrow> records_effect (ms_records s) (ms_records s')"
  by (cases op) (auto intro: body_effects)

lemma records_effect_entries:
  assumes "records_effect m m'" and "bt_ok m"
    and "\<And>k r. bt_get m k = Some r \<Longrightarrow> task_wf r \<and> tr_task_id r = k"
    and "bt_get m' k = Some r'"
  shows "task_wf r' \<and> tr_task_id r' = k"
  using records_effect_origin [OF assms(1,2,4)] assms(3)
  by (metis same_submission_def task_step_submission task_step_wf validate_create_wf)

lemma mem_inv_body: "mem_inv s \<Longrightarrow> mem_body op s = Some s' \<Longrightarrow> mem_inv s'"
  using records_effect_ok records_effect_entries mem_body_effect
  unfolding mem_inv_def by meson

lemma mem_inv_init: "mem_inv (mem_with_clock clk)"
  by (simp add: mem_inv_def mem_with_clock_def)

lemma mem_body_no_panic: "mem_inv s \<Longrightarrow> mem_body op s \<noteq> None"
proof (cases op)
  case (OpRenew i)
  then show "mem_inv s \<Longrightarrow> ?thesis"
    by (auto simp: mem_inv_def mem_renew_body_def read_clock_def
        dest!: renew_no_panic split: option.splits sum.splits)
next
  case (OpSettle i)
  then show "mem_inv s \<Longrightarrow> ?thesis"
    by (auto simp: mem_inv_def mem_settle_body_def read_clock_def
        dest!: settle_no_panic split: option.splits)
next
  case (OpRecover i)
  then show "mem_inv s \<Longrightarrow> ?thesis"
    by (auto simp: mem_inv_def mem_recover_body_def read_clock_def
        dest!: recover_no_panic split: option.splits sum.splits recovery_rejection.splits)
next
  case (OpRelease i)
  then show "mem_inv s \<Longrightarrow> ?thesis"
    by (auto simp: mem_inv_def mem_release_body_def read_clock_def
        dest!: release_no_panic split: option.splits sum.splits release_rejection.splits)
qed (auto simp: mem_body_defs Let_def split: option.splits sum.splits cancel_rejection.splits)

interpretation memstore: task_store_contract lookup_record mem_step mem_inv
proof (unfold_locales, goal_cases)
  case (1 s s')
  then show ?case by (auto simp: mem_step_iff intro: mem_inv_body)
next
  case (4 s s' k r)
  then show ?case
    by (auto simp: mem_step_iff mem_inv_def dest!: mem_body_effect intro: records_effect_evolves)
qed (auto simp: mem_inv_def)

section \<open>Lease identities\<close>

text \<open>
  Lease identities are printed from a counter, so within the first \<open>2^64 - 1\<close> claims no
  identity is issued twice; \<open>fresh_step\<close> is the step relation up to that bound.
\<close>

definition lease_name :: "u64 \<Rightarrow> lease_id" where
  "lease_name n = ''lease-'' @ show_nat n"

definition leases_issued :: "('p, 'j) memory_state \<Rightarrow> lease_id set" where
  "leases_issued s = lease_name ` {..<ms_next_lease s}"

definition mem_inv_fresh :: "('p, 'j) memory_state \<Rightarrow> bool" where
  "mem_inv_fresh s \<longleftrightarrow> mem_inv s \<and>
     (\<forall>k r l. lookup_record s k = Some r \<longrightarrow> tr_active_lease r = Some l \<longrightarrow>
        tl_lease_id l \<in> leases_issued s \<and>
        (\<forall>k' r' l'. lookup_record s k' = Some r' \<longrightarrow> tr_active_lease r' = Some l' \<longrightarrow>
           tl_lease_id l = tl_lease_id l' \<longrightarrow> k = k'))"

inductive fresh_step :: "('p, 'j) memory_state \<Rightarrow> ('p, 'j) memory_state \<Rightarrow> bool" where
  "mem_body op s = Some s' \<Longrightarrow> ms_next_lease s < u64_max \<Longrightarrow> fresh_step s s'"

inductive_simps fresh_step_iff: "fresh_step s s'"

definition lease_kept :: "('p, 'j) task_record \<Rightarrow> ('p, 'j) task_record \<Rightarrow> bool" where
  "lease_kept r r' \<longleftrightarrow>
     (\<forall>l'. tr_active_lease r' = Some l' \<longrightarrow>
        (\<exists>l. tr_active_lease r = Some l \<and> tl_lease_id l = tl_lease_id l'))"

definition leases_kept ::
  "(task_id, ('p, 'j) task_record) btree \<Rightarrow> (task_id, ('p, 'j) task_record) btree \<Rightarrow> bool" where
  "leases_kept m m' \<longleftrightarrow>
     (\<forall>k r' l'. bt_get m' k = Some r' \<longrightarrow> tr_active_lease r' = Some l' \<longrightarrow>
        (\<exists>r l. bt_get m k = Some r \<and> tr_active_lease r = Some l \<and> tl_lease_id l = tl_lease_id l'))"

lemma lease_name_inject [simp]: "lease_name m = lease_name n \<longleftrightarrow> m = n"
  by (simp add: lease_name_def)

lemma leases_kept_refl [simp]: "leases_kept m m"
  by (auto simp: leases_kept_def)

lemma leases_kept_insert:
  "bt_ok m \<Longrightarrow> bt_get m k = Some r \<Longrightarrow> lease_kept r r' \<Longrightarrow> leases_kept m (bt_insert k r' m)"
  by (auto simp: leases_kept_def lease_kept_def bt.get_ins)

lemma leases_kept_new:
  "bt_ok m \<Longrightarrow> validate_create r = Inr () \<Longrightarrow> leases_kept m (bt_insert k r m)"
  by (auto simp: leases_kept_def validate_create_ok bt.get_ins)

lemma leases_kept_due: "leases_kept m (bt_map_values (advance_visible now) m)"
  by (auto simp: leases_kept_def bt_get_map_values advance_visible_def advance_due_def)

lemma lease_kept_reducer:
  shows "renew r ri now = Some (Inr r') \<Longrightarrow> lease_kept r r'"
    and "settle r si now = Some (TransSettled r') \<Longrightarrow> lease_kept r r'"
    and "cancel r now = Inr r' \<Longrightarrow> lease_kept r r'"
    and "recover_expired_lease r now n = Some (Inr r') \<Longrightarrow> lease_kept r r'"
    and "release r li now = Some (Inr r') \<Longrightarrow> lease_kept r r'"
  by (auto simp: lease_kept_def renew_def settle_def cancel_def recover_expired_lease_def
      release_def split: task_state.splits option.splits if_splits)

lemma non_claim_leases:
  assumes "bt_ok (ms_records s)" and "mem_body op s = Some s'" and "\<And>i. op \<noteq> OpClaim i"
  shows "leases_kept (ms_records s) (ms_records s') \<and> ms_next_lease s' = ms_next_lease s"
proof (cases op)
  case (OpCreate r)
  with assms show ?thesis
    by (auto simp: mem_create_body_def intro: leases_kept_new split: sum.splits option.splits if_splits)
next
  case (OpRenew i)
  with assms show ?thesis
    by (auto simp: mem_renew_body_def read_clock_def intro: leases_kept_insert dest!: lease_kept_reducer
        split: sum.splits option.splits)
next
  case (OpSettle i)
  with assms show ?thesis
    by (auto simp: mem_settle_body_def read_clock_def intro: leases_kept_insert dest!: lease_kept_reducer
        split: settle_transition.splits option.splits)
next
  case (OpCancel i)
  with assms show ?thesis
    by (auto simp: mem_cancel_body_def read_clock_def intro: leases_kept_insert dest!: lease_kept_reducer
        split: sum.splits option.splits cancel_rejection.splits)
next
  case (OpRecover i)
  with assms show ?thesis
    by (auto simp: mem_recover_body_def read_clock_def intro: leases_kept_insert dest!: lease_kept_reducer
        split: sum.splits option.splits recovery_rejection.splits)
next
  case (OpRelease i)
  with assms show ?thesis
    by (auto simp: mem_release_body_def read_clock_def intro: leases_kept_insert dest!: lease_kept_reducer
        split: sum.splits option.splits release_rejection.splits)
next
  case (OpScanDue n)
  with assms show ?thesis
    by (auto simp: mem_scan_due_body_def read_clock_def Let_def leases_kept_due)
qed (use assms in \<open>auto simp: mem_body_defs Let_def split: option.splits if_splits\<close>)

lemma claim_leases:
  assumes "mem_body (OpClaim i) s = Some s'"
  shows "(ms_records s' = ms_records s \<and>
            (ms_next_lease s' = ms_next_lease s \<or> ms_next_lease s' = inc_u64 (ms_next_lease s))) \<or>
         (\<exists>k r l. ms_records s' = bt_insert k r (ms_records s) \<and> tr_active_lease r = Some l \<and>
            tl_lease_id l = lease_name (ms_next_lease s) \<and>
            ms_next_lease s' = inc_u64 (ms_next_lease s))"
proof (cases "lookup_record s (ci_task_id i)")
  case (Some r)
  let ?c = "claim r i (ms_clock s (ms_reads s)) (''attempt-'' @ show_nat (ms_next_attempt s))
     (lease_name (ms_next_lease s))"
  show ?thesis
  proof (cases ?c)
    case (Inl rej)
    with Some assms show ?thesis
      by (auto simp: mem_claim_body_def read_clock_def Let_def lease_name_def)
  next
    case (Inr r')
    then obtain l where "tr_active_lease r' = Some l" "tl_lease_id l = lease_name (ms_next_lease s)"
      by (auto simp: claim_Inr_iff)
    with Inr Some assms show ?thesis
      by (auto simp: mem_claim_body_def read_clock_def Let_def lease_name_def)
  qed
qed (use assms in \<open>auto simp: mem_claim_body_def\<close>)

lemma body_lease_cases:
  assumes "bt_ok (ms_records s)" and "mem_body op s = Some s'" and "ms_next_lease s < u64_max"
  shows "(leases_kept (ms_records s) (ms_records s') \<and>
            ms_next_lease s \<le> ms_next_lease s') \<or>
         (\<exists>k r l. ms_records s' = bt_insert k r (ms_records s) \<and> tr_active_lease r = Some l \<and>
            tl_lease_id l = lease_name (ms_next_lease s) \<and>
            ms_next_lease s' = Suc (ms_next_lease s))"
proof (cases "\<exists>i. op = OpClaim i")
  case True
  with assms claim_leases [of _ s s'] show ?thesis by fastforce
next
  case False
  with non_claim_leases [of s op s'] assms show ?thesis by auto
qed

lemma fresh_step_lease:
  assumes "mem_inv_fresh s" and "fresh_step s s'" and "lookup_record s' k = Some r'"
    and "tr_active_lease r' = Some l'"
  shows "(\<exists>r l. lookup_record s k = Some r \<and> tr_active_lease r = Some l \<and>
            tl_lease_id l = tl_lease_id l') \<or>
         (tl_lease_id l' = lease_name (ms_next_lease s) \<and>
          ms_next_lease s' = Suc (ms_next_lease s) \<and>
          (\<forall>j. j \<noteq> k \<longrightarrow> lookup_record s' j = lookup_record s j))"
proof -
  obtain op where op: "mem_body op s = Some s'" "ms_next_lease s < u64_max"
    using assms(2) by (auto simp: fresh_step_iff)
  have ok: "bt_ok (ms_records s)" using assms(1) by (simp add: mem_inv_fresh_def mem_inv_def)
  from body_lease_cases [OF ok op] show ?thesis
  proof (elim disjE exE conjE)
    assume "leases_kept (ms_records s) (ms_records s')"
    with assms(3,4) show ?thesis unfolding leases_kept_def by blast
  next
    fix k0 r l
    assume new: "ms_records s' = bt_insert k0 r (ms_records s)" "tr_active_lease r = Some l"
      "tl_lease_id l = lease_name (ms_next_lease s)" "ms_next_lease s' = Suc (ms_next_lease s)"
    show ?thesis
    proof (cases "k = k0")
      case True
      with new assms(3,4) ok show ?thesis by (simp add: bt.get_ins)
    next
      case False
      with new(1) assms(3,4) ok show ?thesis by (simp add: bt.get_ins)
    qed
  qed
qed

lemma leases_issued_mono: "bt_ok (ms_records s) \<Longrightarrow> fresh_step s s' \<Longrightarrow> leases_issued s \<subseteq> leases_issued s'"
  using body_lease_cases [of s _ s'] by (force simp: fresh_step_iff leases_issued_def)

lemma lease_name_issued [simp]: "lease_name n \<in> leases_issued s \<longleftrightarrow> n < ms_next_lease s"
  by (auto simp: leases_issued_def)

lemma mem_inv_freshD:
  assumes "mem_inv_fresh s"
  shows "mem_inv s" and "bt_ok (ms_records s)"
    and "lookup_record s k = Some r \<Longrightarrow> tr_active_lease r = Some l \<Longrightarrow>
           tl_lease_id l \<in> leases_issued s"
    and "lookup_record s k = Some r \<Longrightarrow> tr_active_lease r = Some l \<Longrightarrow>
         lookup_record s k' = Some r' \<Longrightarrow> tr_active_lease r' = Some l' \<Longrightarrow>
         tl_lease_id l = tl_lease_id l' \<Longrightarrow> k = k'"
  using assms unfolding mem_inv_fresh_def mem_inv_def by blast+

lemma fresh_step_issued:
  assumes "mem_inv_fresh s" and "fresh_step s s'" and "lookup_record s' k = Some r'"
    and "tr_active_lease r' = Some l'"
  shows "tl_lease_id l' \<in> leases_issued s'"
  using fresh_step_lease [OF assms]
proof (elim disjE exE conjE)
  fix r l
  assume "lookup_record s k = Some r" "tr_active_lease r = Some l" "tl_lease_id l = tl_lease_id l'"
  then show ?thesis
    using mem_inv_freshD(3) [OF assms(1), of k r l]
      leases_issued_mono [OF mem_inv_freshD(2) [OF assms(1)] assms(2)] by auto
qed simp

lemma fresh_step_unshared:
  assumes s: "mem_inv_fresh s" "fresh_step s s'"
    and a: "lookup_record s' k = Some r" "tr_active_lease r = Some l"
    and b: "lookup_record s' k' = Some r'" "tr_active_lease r' = Some l'"
    and same: "tl_lease_id l = tl_lease_id l'"
  shows "k = k'"
proof (rule ccontr)
  assume neq: "k \<noteq> k'"
  have new: "lease_name (ms_next_lease s) \<noteq> tl_lease_id m"
    if "lookup_record s j = Some q" "tr_active_lease q = Some m" for j q m
    using mem_inv_freshD(3) [OF s(1) that] lease_name_issued [of "ms_next_lease s" s] by force
  from fresh_step_lease [OF s a] fresh_step_lease [OF s b] neq same show False
  proof (elim disjE exE conjE)
    fix q m q' m'
    assume "lookup_record s k = Some q" "tr_active_lease q = Some m" "tl_lease_id m = tl_lease_id l"
      "lookup_record s k' = Some q'" "tr_active_lease q' = Some m'" "tl_lease_id m' = tl_lease_id l'"
    with mem_inv_freshD(4) [OF s(1)] same neq show False by metis
  qed (use a b neq new same in metis)+
qed

lemma mem_inv_fresh_step: "mem_inv_fresh s \<Longrightarrow> fresh_step s s' \<Longrightarrow> mem_inv_fresh s'"
  unfolding mem_inv_fresh_def [of s']
  by (intro conjI allI impI)
     (blast intro: mem_inv_body mem_inv_freshD(1) elim: fresh_step.cases,
      blast intro: fresh_step_issued, blast intro: fresh_step_unshared)

lemma mem_inv_fresh_init: "mem_inv_fresh (mem_with_clock clk)"
  by (simp add: mem_inv_fresh_def mem_inv_init) (simp add: mem_with_clock_def)

interpretation memfence: task_store_fencing lookup_record fresh_step mem_inv_fresh leases_issued
proof (unfold_locales, goal_cases)
  case (1 s s')
  then show ?case by (rule mem_inv_fresh_step)
next
  case (2 s k r)
  then show ?case by (auto dest: mem_inv_freshD(1) memstore.inv_wf)
next
  case (3 s k r)
  then show ?case by (auto dest: mem_inv_freshD(1) memstore.inv_key)
next
  case (4 s s' k r)
  then show ?case
    using memstore.evolves [OF mem_inv_freshD(1)] by (meson fresh_step.cases mem_step.intros)
next
  case (5 s s')
  then show ?case using leases_issued_mono mem_inv_freshD(2) by blast
next
  case (6 s k r l)
  then show ?case by (rule mem_inv_freshD(3))
next
  case (7 s k r k' r' l l')
  then show ?case by (blast dest: mem_inv_freshD(4))
next
  case (8 s s' k r' l')
  then show ?case using fresh_step_lease [of s s' k r' l'] by auto
qed

end
