(* ===== verification/Task_Store_Properties.thy ===== *)
theory Task_Store_Properties
  imports Task_Memory_Store
begin

text \<open>
  Correctness of the task store over runs of any length and any interleaving of its atomic
  steps: the statements the port's documentation promises, with the concrete run of a
  sample task that shows their hypotheses hold together.
\<close>

section \<open>A sample run\<close>

definition demo_task :: "(unit, unit) task_record" where
  "demo_task = \<lparr>tr_task_id = ''t'', tr_owner = ''svc'',
     tr_execution = \<lparr>target_profile = ''default'', package_version = ''1'',
       deployment = \<lparr>sdr_service_id = ''svc'', sdr_contract_version = ''1'',
         sdr_deployment_revision = ''r'', sdr_deployment_artifact_identity = ''a''\<rparr>\<rparr>,
     tr_target = TargetFunction ''f'', tr_payload = [1, 2], tr_due_at = 5, tr_state = Scheduled,
     tr_attempt_generation = 0, tr_active_lease = None, tr_terminal = None,
     tr_trace = \<lparr>trace_id = ''x'', span_id = None\<rparr>, tr_created_at = 0,
     tr_retry_not_before = None, tr_test_case = None\<rparr>"

definition demo_claim :: claim_input where
  "demo_claim = \<lparr>ci_task_id = ''t'', ci_owner = ''w'', ci_lease_expiry = 20, ci_image_activatable = True\<rparr>"

definition demo_settle :: settle_input where
  "demo_settle = \<lparr>si_task_id = ''t'', si_lease_id = ''lease-0'',
     si_terminal = \<lparr>tt_settled_at = 12, tt_outcome = OutSucceeded\<rparr>\<rparr>"

definition demo_release :: release_input where
  "demo_release = \<lparr>rli_task_id = ''t'', rli_lease_id = ''lease-0'', rli_retry_not_before = 40\<rparr>"

definition demo_init :: "(unit, unit) memory_state" where
  "demo_init = mem_with_clock (\<lambda>_. 10)"

definition demo_created :: "(unit, unit) memory_state" where
  "demo_created = the (mem_body (OpCreate demo_task) demo_init)"

definition demo_ready :: "(unit, unit) memory_state" where
  "demo_ready = the (mem_body (OpScanDue 4) demo_created)"

definition demo_leased :: "(unit, unit) memory_state" where
  "demo_leased = the (mem_body (OpClaim demo_claim) demo_ready)"

definition demo_settled :: "(unit, unit) memory_state" where
  "demo_settled = the (mem_body (OpSettle demo_settle) demo_leased)"

definition demo_released :: "(unit, unit) memory_state" where
  "demo_released = the (mem_body (OpRelease demo_release) demo_leased)"

lemmas demo_defs = demo_init_def demo_created_def demo_ready_def demo_leased_def
  demo_settled_def demo_released_def demo_task_def demo_claim_def demo_settle_def demo_release_def

lemma mem_inv_fresh_run:
  "fresh_step\<^sup>*\<^sup>* (mem_with_clock clk) s \<Longrightarrow> mem_inv_fresh s"
  using memfence.run_inv mem_inv_fresh_init by blast

lemma mem_inv_run: "mem_step\<^sup>*\<^sup>* (mem_with_clock clk) s \<Longrightarrow> mem_inv s"
  using memstore.run_inv mem_inv_init by blast

lemma step_the: "mem_inv s \<Longrightarrow> mem_step s (the (mem_body op s))"
  using mem_body_no_panic [of s op] by (auto intro: mem_step.intros)

lemma fresh_the: "mem_inv s \<Longrightarrow> ms_next_lease s < u64_max \<Longrightarrow> fresh_step s (the (mem_body op s))"
  using mem_body_no_panic [of s op] by (auto intro: fresh_step.intros)

lemma demo_run:
  shows "mem_step\<^sup>*\<^sup>* demo_init demo_leased" and "mem_step\<^sup>*\<^sup>* demo_leased demo_settled"
    and "mem_step\<^sup>*\<^sup>* demo_init demo_settled"
proof -
  have inv0: "mem_inv demo_init" by (simp add: demo_init_def mem_inv_init)
  have 1: "mem_step demo_init demo_created"
    unfolding demo_created_def by (rule step_the [OF inv0])
  have inv1: "mem_inv demo_created" using inv0 1 by (rule memstore.inv_step)
  have 2: "mem_step demo_created demo_ready"
    unfolding demo_ready_def by (rule step_the [OF inv1])
  have inv2: "mem_inv demo_ready" using inv1 2 by (rule memstore.inv_step)
  have 3: "mem_step demo_ready demo_leased"
    unfolding demo_leased_def by (rule step_the [OF inv2])
  have inv3: "mem_inv demo_leased" using inv2 3 by (rule memstore.inv_step)
  have 4: "mem_step demo_leased demo_settled"
    unfolding demo_settled_def by (rule step_the [OF inv3])
  show a: "mem_step\<^sup>*\<^sup>* demo_init demo_leased" using 1 2 3 by (meson r_into_rtranclp rtranclp_trans)
  show "mem_step\<^sup>*\<^sup>* demo_leased demo_settled" using 4 by blast
  with a show "mem_step\<^sup>*\<^sup>* demo_init demo_settled" by simp
qed

lemma show_nat_0: "show_nat 0 = ''0''"
  by code_simp

lemmas store_eval = show_nat_0
 
  mem_body_defs validate_create_def bt_get_def bt_map_values_def bt_values_def advance_visible_def
  advance_due_def claim_def settle_def release_def merge_retry_not_before_def mem_with_clock_def
  task_terminal_state_def same_outcome_def sorted_batch_def

lemma demo_lookup:
  shows "ms_records demo_ready = [(''t'', demo_task\<lparr>tr_state := Ready\<rparr>)]"
    and "ms_records demo_leased = [(''t'', demo_task\<lparr>tr_state := Leased, tr_attempt_generation := 1,
           tr_active_lease := Some \<lparr>tl_lease_id = ''lease-0'', tl_attempt_id = ''attempt-0'',
             tl_owner = ''w'', tl_expiry = 20\<rparr>\<rparr>)]"
    and "ms_records demo_settled = [(''t'', demo_task\<lparr>tr_state := Succeeded, tr_attempt_generation := 1,
           tr_terminal := Some \<lparr>tt_settled_at = 12, tt_outcome = OutSucceeded\<rparr>\<rparr>)]"
    and "ms_records demo_released = [(''t'', demo_task\<lparr>tr_attempt_generation := 1, tr_state := Ready,
           tr_retry_not_before := Some 40\<rparr>)]"
    and "ms_next_lease demo_leased = 1"
  by (simp_all add: demo_defs store_eval Let_def inc_u64_def)

section \<open>Properties\<close>

text \<open>C1: Whatever sequence of operations callers run against a new store, interleaved in any way
  and under any clock, every stored record is well-formed and no operation ever panics.\<close>

theorem memory_store_safe:
  assumes "mem_step\<^sup>*\<^sup>* (mem_with_clock clk) s"
  shows "mem_inv s \<and> (\<exists>s'. mem_body op s = Some s' \<and> mem_inv s')"
  using mem_inv_run [OF assms] mem_body_no_panic mem_inv_body by (metis not_None_eq)

theorem memory_store_safe_witness:
  "mem_inv demo_leased \<and> (\<exists>s'. mem_body (OpSettle demo_settle) demo_leased = Some s' \<and> mem_inv s')"
  using memory_store_safe [of "\<lambda>_. 10" demo_leased "OpSettle demo_settle"] demo_run(1)
  by (simp add: demo_init_def)

text \<open>C5: A settled or canceled task is final: no later run of the store, of any length, changes its
  record in any way.\<close>

theorem memory_terminal_forever:
  assumes "mem_step\<^sup>*\<^sup>* (mem_with_clock clk) s" and "mem_step\<^sup>*\<^sup>* s s'"
    and "lookup_record s k = Some r" and "is_terminal (tr_state r)"
  shows "lookup_record s' k = Some r"
  using memstore.run_terminal [OF assms(2) mem_inv_run [OF assms(1)] assms(3,4)] .

theorem memory_terminal_forever_witness:
  "\<exists>r. is_terminal (tr_state r) \<and> lookup_record demo_settled ''t'' = Some r \<and>
     lookup_record (the (mem_body (OpCancel ''t'') demo_settled)) ''t'' = Some r"
  using memory_terminal_forever [of "\<lambda>_. 10" demo_settled "the (mem_body (OpCancel ''t'') demo_settled)" "''t''"]
    demo_run(3) step_the [OF mem_inv_run, of "\<lambda>_. 10" demo_settled "OpCancel ''t''"]
  by (fastforce simp: demo_init_def demo_lookup bt_get_def)

text \<open>C6: A stored task is never lost; between any two points of a run its record moves along edges
  of the lifecycle only, its submission never changes and its retry floor never decreases.\<close>

theorem memory_refines_lifecycle:
  assumes "mem_step\<^sup>*\<^sup>* (mem_with_clock clk) s" and "mem_step\<^sup>*\<^sup>* s s'"
    and "lookup_record s k = Some r"
  shows "\<exists>r'. lookup_record s' k = Some r' \<and> task_step\<^sup>*\<^sup>* r r' \<and> same_submission r r' \<and>
    retry_le (tr_retry_not_before r) (tr_retry_not_before r')"
proof -
  have inv: "mem_inv s" using mem_inv_run [OF assms(1)] .
  obtain r' where r': "lookup_record s' k = Some r'" "task_step\<^sup>*\<^sup>* r r'"
    using memstore.run_evolves [OF assms(2) inv assms(3)] by blast
  then show ?thesis using memstore.run_submission [OF assms(2) inv assms(3) r'(1)] by blast
qed

theorem memory_refines_lifecycle_witness:
  "\<exists>r r'. lookup_record demo_leased ''t'' = Some r \<and> lookup_record demo_settled ''t'' = Some r' \<and>
     task_step\<^sup>*\<^sup>* r r'"
  using memory_refines_lifecycle [of "\<lambda>_. 10" demo_leased demo_settled "''t''"] demo_run(1,2)
  by (fastforce simp: demo_init_def demo_lookup bt_get_def)

lemma stale_lease_refused:
  assumes "mem_inv s"
    and "\<forall>r l. lookup_record s k = Some r \<longrightarrow> tr_active_lease r = Some l \<longrightarrow> tl_lease_id l \<noteq> lid"
  shows "si_task_id si = k \<Longrightarrow> si_lease_id si = lid \<Longrightarrow>
      \<exists>res s'. mem_settle_body si s = Some (res, s') \<and> ms_records s' = ms_records s \<and>
        (\<forall>r. res \<noteq> Inr (Settled r))"
    and "ri_task_id ri = k \<Longrightarrow> ri_lease_id ri = lid \<Longrightarrow>
      \<exists>res s'. mem_renew_body ri s = Some (res, s') \<and> ms_records s' = ms_records s \<and>
        (\<forall>r. res \<noteq> Inr (Renewed r))"
    and "rli_task_id li = k \<Longrightarrow> rli_lease_id li = lid \<Longrightarrow>
      \<exists>res s'. mem_release_body li s = Some (res, s') \<and> ms_records s' = ms_records s \<and>
        (\<forall>r. res \<noteq> Inr (Released r))"
proof -
  assume si: "si_task_id si = k" "si_lease_id si = lid"
  obtain s' where "mem_body (OpSettle si) s = Some s'" using mem_body_no_panic [OF assms(1)] by blast
  with assms(2) si
  show "\<exists>res s'. mem_settle_body si s = Some (res, s') \<and> ms_records s' = ms_records s \<and>
        (\<forall>r. res \<noteq> Inr (Settled r))"
    by (fastforce simp: mem_settle_body_def read_clock_def dest!: settle_TransSettledD
        split: option.splits settle_transition.splits)
next
  assume ri: "ri_task_id ri = k" "ri_lease_id ri = lid"
  obtain s' where "mem_body (OpRenew ri) s = Some s'" using mem_body_no_panic [OF assms(1)] by blast
  with assms(2) ri
  show "\<exists>res s'. mem_renew_body ri s = Some (res, s') \<and> ms_records s' = ms_records s \<and>
        (\<forall>r. res \<noteq> Inr (Renewed r))"
    by (fastforce simp: mem_renew_body_def read_clock_def dest!: renew_InrD
        split: option.splits sum.splits)
next
  assume li: "rli_task_id li = k" "rli_lease_id li = lid"
  obtain s' where "mem_body (OpRelease li) s = Some s'" using mem_body_no_panic [OF assms(1)] by blast
  with assms(2) li
  show "\<exists>res s'. mem_release_body li s = Some (res, s') \<and> ms_records s' = ms_records s \<and>
        (\<forall>r. res \<noteq> Inr (Released r))"
    by (fastforce simp: mem_release_body_def read_clock_def dest!: release_InrD
        split: option.splits sum.splits release_rejection.splits)
qed

text \<open>C2: Lease fencing. A lease that was issued and that its task no longer holds stays dead for the
  rest of the run: settling, renewing or releasing with it returns, changes no record and never
  succeeds.\<close>

theorem memory_stale_lease_fenced:
  assumes "fresh_step\<^sup>*\<^sup>* (mem_with_clock clk) s" and "fresh_step\<^sup>*\<^sup>* s s'"
    and "lid \<in> leases_issued s"
    and "\<forall>r l. lookup_record s k = Some r \<longrightarrow> tr_active_lease r = Some l \<longrightarrow> tl_lease_id l \<noteq> lid"
    and "si_task_id si = k" and "si_lease_id si = lid"
    and "ri_task_id ri = k" and "ri_lease_id ri = lid"
    and "rli_task_id li = k" and "rli_lease_id li = lid"
  shows "(\<exists>res s''. mem_settle_body si s' = Some (res, s'') \<and> ms_records s'' = ms_records s' \<and>
            (\<forall>r. res \<noteq> Inr (Settled r))) \<and>
         (\<exists>res s''. mem_renew_body ri s' = Some (res, s'') \<and> ms_records s'' = ms_records s' \<and>
            (\<forall>r. res \<noteq> Inr (Renewed r))) \<and>
         (\<exists>res s''. mem_release_body li s' = Some (res, s'') \<and> ms_records s'' = ms_records s' \<and>
            (\<forall>r. res \<noteq> Inr (Released r)))"
proof -
  have s: "mem_inv_fresh s" using mem_inv_fresh_run [OF assms(1)] .
  have s': "mem_inv s'" using memfence.run_inv [OF assms(2) s] by (rule mem_inv_freshD(1))
  have "\<not> memfence.holds s' k lid"
    using memfence.leases.never_returns [OF assms(2) s assms(3)] assms(4)
    by (auto simp: memfence.holds_def)
  then have dead: "\<forall>r l. lookup_record s' k = Some r \<longrightarrow> tr_active_lease r = Some l \<longrightarrow> tl_lease_id l \<noteq> lid"
    by (auto simp: memfence.holds_def)
  show ?thesis using stale_lease_refused [OF s' dead] assms(5-10) by blast
qed

lemma demo_fresh_run: "fresh_step\<^sup>*\<^sup>* demo_init demo_released"
proof -
  have small: "ms_next_lease demo_init < u64_max" "ms_next_lease demo_created < u64_max"
    "ms_next_lease demo_ready < u64_max" "ms_next_lease demo_leased < u64_max"
    by (simp_all add: demo_defs store_eval Let_def inc_u64_def u64_max_def)
  have inv: "mem_inv_fresh demo_init" by (simp add: demo_init_def mem_inv_fresh_init)
  have 1: "fresh_step demo_init demo_created"
    unfolding demo_created_def by (rule fresh_the [OF mem_inv_freshD(1) [OF inv] small(1)])
  have inv: "mem_inv_fresh demo_created" using inv 1 by (rule mem_inv_fresh_step)
  have 2: "fresh_step demo_created demo_ready"
    unfolding demo_ready_def by (rule fresh_the [OF mem_inv_freshD(1) [OF inv] small(2)])
  have inv: "mem_inv_fresh demo_ready" using inv 2 by (rule mem_inv_fresh_step)
  have 3: "fresh_step demo_ready demo_leased"
    unfolding demo_leased_def by (rule fresh_the [OF mem_inv_freshD(1) [OF inv] small(3)])
  have inv: "mem_inv_fresh demo_leased" using inv 3 by (rule mem_inv_fresh_step)
  have "fresh_step demo_leased demo_released"
    unfolding demo_released_def by (rule fresh_the [OF mem_inv_freshD(1) [OF inv] small(4)])
  with 1 2 3 show ?thesis by (meson r_into_rtranclp rtranclp_trans)
qed

theorem memory_stale_lease_fenced_witness:
  "\<exists>res s''. mem_settle_body demo_settle demo_released = Some (res, s'') \<and>
     ms_records s'' = ms_records demo_released \<and> (\<forall>r. res \<noteq> Inr (Settled r))"
  using memory_stale_lease_fenced [of "\<lambda>_. 10" demo_released demo_released "lease_name 0" "''t''" demo_settle
      "\<lparr>ri_task_id = ''t'', ri_lease_id = ''lease-0'', ri_new_expiry = 50\<rparr>" demo_release] demo_fresh_run
  by (simp add: demo_lookup(4) demo_defs store_eval Let_def inc_u64_def lease_name_def leases_issued_def)

text \<open>For a leased task and one clock reading, the holder's settlement and the recovery of the
  lease exclude each other and one of them is always possible.\<close>

theorem settle_xor_recover:
  assumes "task_wf r" and "tr_active_lease r = Some l" and "si_lease_id inp = tl_lease_id l"
  shows "(\<exists>r'. settle r inp now = Some (TransSettled r')) \<longleftrightarrow>
         \<not> (\<exists>r'. recover_expired_lease r now n = Some (Inr r'))"
proof -
  have leased: "tr_state r = Leased" using assms(1,2) by (auto simp: task_wf_def)
  then have "tr_terminal r = None" using task_wf_no_terminal [OF assms(1)] by simp
  with leased assms(2,3) show ?thesis by (auto simp: settle_def recover_expired_lease_def)
qed

theorem settle_xor_recover_witness:
  "\<exists>r. lookup_record demo_leased ''t'' = Some r \<and>
     ((\<exists>r'. settle r demo_settle 10 = Some (TransSettled r')) \<longleftrightarrow>
      \<not> (\<exists>r'. recover_expired_lease r 10 30 = Some (Inr r')))"
  using settle_xor_recover [of "the (lookup_record demo_leased ''t'')"
      "\<lparr>tl_lease_id = ''lease-0'', tl_attempt_id = ''attempt-0'', tl_owner = ''w'', tl_expiry = 20\<rparr>"
      demo_settle 10 30]
  by (simp add: demo_lookup bt_get_def demo_settle_def task_wf_def demo_task_def)

lemma settle_terminal_record:
  assumes "tr_terminal r = Some t" and "is_terminal (tr_state r)"
  shows "settle r j now =
    Some (if same_outcome t (si_terminal j) then TransAlreadySettled else TransConflict)"
  using assms by (cases "tr_state r") (simp_all add: settle_def)

lemma mem_settle_terminal:
  assumes "lookup_record s (si_task_id j) = Some r" and "tr_terminal r = Some t"
    and "is_terminal (tr_state r)"
  shows "\<exists>s'. mem_settle_body j s = Some (Inr (if same_outcome t (si_terminal j) then AlreadySettled r
           else SettleConflict r), s') \<and> ms_records s' = ms_records s"
  using assms by (simp add: mem_settle_body_def read_clock_def settle_terminal_record)

lemma mem_settle_SettledD:
  assumes "mem_settle_body i s = Some (Inr (Settled r), s')" and "bt_ok (ms_records s)"
  shows "lookup_record s' (si_task_id i) = Some r \<and> tr_terminal r = Some (si_terminal i) \<and>
         is_terminal (tr_state r)"
  using assms
  by (auto simp: mem_settle_body_def read_clock_def bt.get_ins dest!: settle_TransSettledD
      split: option.splits settle_transition.splits)

text \<open>Settlement is idempotent and first-wins. After a successful settlement, at any later point
  of the run and whatever lease the caller presents, settling again with the same outcome
  reports the record already settled, with another outcome reports a conflict, and neither
  changes a record.\<close>

theorem memory_settle_idempotent:
  assumes "mem_step\<^sup>*\<^sup>* (mem_with_clock clk) s"
    and "mem_settle_body i s = Some (Inr (Settled r), s1)" and "mem_step\<^sup>*\<^sup>* s1 s2"
    and "si_task_id j = si_task_id i"
  shows "\<exists>s3. mem_settle_body j s2 =
      Some (Inr (if tt_outcome (si_terminal j) = tt_outcome (si_terminal i) then AlreadySettled r
                 else SettleConflict r), s3) \<and> ms_records s3 = ms_records s2"
proof -
  have inv: "mem_inv s" using mem_inv_run [OF assms(1)] .
  have step: "mem_step s s1" using assms(2) by (auto intro: mem_step.intros [of "OpSettle i"])
  have inv1: "mem_inv s1" using inv step by (rule memstore.inv_step)
  have r: "lookup_record s1 (si_task_id i) = Some r" "tr_terminal r = Some (si_terminal i)"
    "is_terminal (tr_state r)"
    using mem_settle_SettledD [OF assms(2)] inv by (auto simp: mem_inv_def)
  have "lookup_record s2 (si_task_id j) = Some r"
    using memstore.run_terminal [OF assms(3) inv1 r(1,3)] assms(4) by simp
  from mem_settle_terminal [OF this r(2,3)] show ?thesis
    by (auto simp: same_outcome_def)
qed

theorem memory_settle_idempotent_witness:
  "\<exists>r s3. mem_settle_body demo_settle demo_settled = Some (Inr (AlreadySettled r), s3) \<and>
     ms_records s3 = ms_records demo_settled"
proof -
  have "\<exists>r. mem_settle_body demo_settle demo_leased = Some (Inr (Settled r), demo_settled)"
    by (simp add: demo_defs store_eval Let_def inc_u64_def)
  then show ?thesis
    using memory_settle_idempotent [of "\<lambda>_. 10" demo_leased demo_settle _ demo_settled demo_settled demo_settle]
      demo_run(1) unfolding demo_init_def by auto
qed

text \<open>Creating the same record twice in a row returns the stored record and stores it once; a
  different record under the same identity is refused and stores nothing.\<close>

theorem memory_create_idempotent:
  assumes "mem_step\<^sup>*\<^sup>* (mem_with_clock clk) s" and "mem_create_body r s = Some (Inr q, s')"
    and "validate_create r2 = Inr ()" and "tr_task_id r2 = tr_task_id r"
  shows "q = r \<and> lookup_record s' (tr_task_id r) = Some r \<and>
         mem_create_body r2 s' = Some (if r2 = r then Inr r
           else Inl (DuplicateTaskId (tr_task_id r) ''same TaskId with a different canonical record''), s')"
proof -
  have ok: "bt_ok (ms_records s)" using mem_inv_run [OF assms(1)] by (simp add: mem_inv_def)
  have "q = r \<and> lookup_record s' (tr_task_id r) = Some r"
  proof (cases "lookup_record s (tr_task_id r)")
    case None
    with assms(2) ok show ?thesis
      by (cases "validate_create r") (simp_all add: mem_create_body_def, auto simp: bt.get_ins)
  next
    case (Some e)
    with assms(2) show ?thesis
      by (cases "validate_create r"; cases "e = r") (simp_all add: mem_create_body_def)
  qed
  with assms(3,4) show ?thesis by (simp add: mem_create_body_def)
qed

theorem memory_create_idempotent_witness:
  "mem_create_body demo_task demo_created = Some (Inr demo_task, demo_created)"
proof -
  have "mem_create_body demo_task demo_init = Some (Inr demo_task, demo_created)"
    by (simp add: demo_defs store_eval)
  then show ?thesis
    using memory_create_idempotent [of "\<lambda>_. 10" demo_init demo_task demo_task demo_created demo_task]
    by (simp add: demo_init_def validate_create_def demo_task_def)
qed

text \<open>A retry of a create whose answer was lost is not idempotent any more once the task has
  moved: as soon as the store holds the task in any later lifecycle state, the exact record
  that created it is refused as a duplicate with a different canonical record.\<close>

theorem memory_create_retry_refused:
  assumes "mem_step\<^sup>*\<^sup>* (mem_with_clock clk) s" and "mem_create_body r s = Some (Inr q, s1)"
    and "mem_step\<^sup>*\<^sup>* s1 s2" and "lookup_record s2 (tr_task_id r) = Some r'" and "tr_state r' \<noteq> Scheduled"
  shows "mem_create_body r s2 = Some (Inl (DuplicateTaskId (tr_task_id r)
           ''same TaskId with a different canonical record''), s2)"
proof -
  have "validate_create r = Inr ()"
    using assms(2) by (auto simp: mem_create_body_def split: sum.splits)
  moreover from this have "r' \<noteq> r" using assms(5) by (auto simp: validate_create_ok)
  ultimately show ?thesis using assms(4) by (simp add: mem_create_body_def)
qed

theorem memory_create_retry_refused_witness:
  "mem_create_body demo_task demo_ready = Some (Inl (DuplicateTaskId ''t''
     ''same TaskId with a different canonical record''), demo_ready)"
proof -
  have c: "mem_create_body demo_task demo_init = Some (Inr demo_task, demo_created)"
    by (simp add: demo_defs store_eval)
  have "mem_step demo_created demo_ready"
    unfolding demo_ready_def using c
    by (intro step_the) (auto intro!: mem_inv_body [OF mem_inv_init, of "OpCreate demo_task"] simp: demo_init_def)
  then have "mem_step\<^sup>*\<^sup>* demo_created demo_ready" by (rule r_into_rtranclp)
  with c show ?thesis
    using memory_create_retry_refused [of "\<lambda>_. 10" demo_init demo_task demo_task demo_created demo_ready
        "demo_task\<lparr>tr_state := Ready\<rparr>"]
    by (simp add: demo_init_def demo_lookup bt_get_def demo_task_def)
qed

section \<open>Scans and observation\<close>

lemma advance_visible_scheduled: "tr_state (advance_visible now r) = Scheduled \<Longrightarrow> now < tr_due_at (advance_visible now r)"
  by (auto simp: advance_visible_def advance_due_def split: if_splits)

text \<open>One due scan at clock reading \<open>now\<close> leaves no due task merely scheduled and returns a batch
  ordered by due time of stored ready and due tasks, no longer than the limit; a due ready task
  is missing from the batch only if the batch is full of tasks due no later.\<close>

theorem memory_scan_due_spec:
  assumes "mem_inv s" and "mem_scan_due_body limit s = Some (Inr batch, s')"
    and "now = ms_clock s (ms_reads s)"
  shows "sorted (map tr_due_at batch) \<and> length batch \<le> limit \<and>
    (\<forall>r \<in> set batch. tr_state r = Ready \<and> tr_due_at r \<le> now \<and> lookup_record s' (tr_task_id r) = Some r) \<and>
    (\<forall>k r. lookup_record s' k = Some r \<longrightarrow> tr_due_at r \<le> now \<longrightarrow> tr_state r \<noteq> Scheduled) \<and>
    (\<forall>k r. lookup_record s' k = Some r \<longrightarrow> tr_due_at r \<le> now \<longrightarrow> tr_state r = Ready \<longrightarrow>
       r \<in> set batch \<or> length batch = limit \<and> (\<forall>q \<in> set batch. tr_due_at q \<le> tr_due_at r))"
proof -
  define due where "due = filter (\<lambda>r. tr_state r = Ready \<and> tr_due_at r \<le> now) (bt_values (ms_records s'))"
  have recs: "ms_records s' = bt_map_values (advance_visible now) (ms_records s)"
    and batch: "batch = sorted_batch tr_due_at limit due"
    using assms(2,3) by (auto simp: mem_scan_due_body_def read_clock_def Let_def due_def)
  have ok: "bt_ok (ms_records s)" and ok': "bt_ok (ms_records s')"
    using assms(1) by (simp_all add: mem_inv_def recs)
  have inv': "mem_inv s'" using mem_inv_body [OF assms(1), of "OpScanDue limit"] assms(2) by simp
  have sub: "\<forall>r \<in> set batch. tr_state r = Ready \<and> tr_due_at r \<le> now \<and> lookup_record s' (tr_task_id r) = Some r"
  proof
    fix r assume "r \<in> set batch"
    then have r: "r \<in> set due" using sorted_batch_subset [of tr_due_at limit due] by (auto simp: batch)
    then obtain k where "lookup_record s' k = Some r"
      using bt.in_values_iff [OF ok'] by (auto simp: due_def)
    with inv' r show "tr_state r = Ready \<and> tr_due_at r \<le> now \<and> lookup_record s' (tr_task_id r) = Some r"
      by (auto simp: due_def mem_inv_def)
  qed
  have full: "r \<in> set batch \<or> length batch = limit \<and> (\<forall>q \<in> set batch. tr_due_at q \<le> tr_due_at r)"
    if "lookup_record s' k = Some r" "tr_due_at r \<le> now" "tr_state r = Ready" for k r
  proof -
    have "r \<in> set due" using that bt.values_of_get [OF ok'] by (auto simp: due_def)
    then show ?thesis unfolding batch
      using sorted_batch_complete [of due limit tr_due_at] sorted_batch_least [of _ tr_due_at limit due r]
        sorted_batch_length [of tr_due_at limit due] by (cases "length due \<le> limit") (auto simp: min_def)
  qed
  have "tr_state r \<noteq> Scheduled" if "lookup_record s' k = Some r" "tr_due_at r \<le> now" for k r
    using that advance_visible_scheduled [of now] by (force simp: recs bt_get_map_values)
  with sub full show ?thesis
    using sorted_batch_sorted [of tr_due_at limit due] sorted_batch_length [of tr_due_at limit due]
    unfolding batch by (auto simp: min_def split: if_splits)
qed

theorem memory_scan_due_spec_witness:
  "\<exists>batch s'. mem_scan_due_body 4 demo_created = Some (Inr batch, s') \<and> batch \<noteq> [] \<and>
     (\<forall>r \<in> set batch. tr_state r = Ready \<and> tr_due_at r \<le> 10 \<and> lookup_record s' (tr_task_id r) = Some r)"
proof -
  have "mem_inv demo_created"
    by (auto intro!: mem_inv_body [OF mem_inv_init, of "OpCreate demo_task"] simp: demo_defs store_eval)
  moreover have "\<exists>s'. mem_scan_due_body 4 demo_created = Some (Inr [demo_task\<lparr>tr_state := Ready\<rparr>], s')"
    by (simp add: demo_defs store_eval Let_def)
  moreover have "ms_clock demo_created (ms_reads demo_created) = 10"
    by (simp add: demo_defs store_eval)
  ultimately show ?thesis
    using memory_scan_due_spec [of demo_created 4 "[demo_task\<lparr>tr_state := Ready\<rparr>]" _ 10] by fastforce
qed

definition pending :: "('p, 'j) task_record \<Rightarrow> bool" where
  "pending r \<longleftrightarrow> tr_state r = Scheduled \<or> tr_state r = Ready"

definition oldest :: "timestamp option \<Rightarrow> timestamp list \<Rightarrow> timestamp option" where
  "oldest o0 ts = fold (\<lambda>t o1. Some (older o1 t)) ts o0"

definition terminal_times :: "('p, 'j) task_record list \<Rightarrow> timestamp list" where
  "terminal_times rs = [tt_settled_at t. r \<leftarrow> rs, is_terminal (tr_state r),
     t \<leftarrow> (case tr_terminal r of None \<Rightarrow> [] | Some t \<Rightarrow> [t])]"

lemma oldest_Some: "oldest (Some x) ts = Some (Min (insert x (set ts)))"
proof (induction ts arbitrary: x)
  case (Cons t ts)
  have "Min (insert (min x t) (set ts)) = Min (insert x (insert t (set ts)))"
    by (cases "set ts = {}") (auto simp: min.assoc)
  with Cons show ?case by (simp add: oldest_def older_def)
qed (simp add: oldest_def)

lemma oldest_None: "oldest None ts = (if ts = [] then None else Some (Min (set ts)))"
proof (cases ts)
  case (Cons t us)
  then have "oldest None ts = oldest (Some t) us" by (simp add: oldest_def older_def)
  with Cons show ?thesis by (simp add: oldest_Some)
qed (simp add: oldest_def)

lemma fold_observe:
  shows "bo_scheduled (fold observe_record rs ob) = bo_scheduled ob + length (filter (\<lambda>r. tr_state r = Scheduled) rs)"
    and "bo_ready (fold observe_record rs ob) = bo_ready ob + length (filter (\<lambda>r. tr_state r = Ready) rs)"
    and "bo_leased (fold observe_record rs ob) = bo_leased ob + length (filter (\<lambda>r. tr_state r = Leased) rs)"
    and "bo_terminal_count (fold observe_record rs ob) =
           bo_terminal_count ob + length (filter (\<lambda>r. is_terminal (tr_state r)) rs)"
    and "bo_oldest_due_at (fold observe_record rs ob) =
           oldest (bo_oldest_due_at ob) (map tr_due_at (filter pending rs))"
    and "bo_oldest_terminal_at (fold observe_record rs ob) =
           oldest (bo_oldest_terminal_at ob) (terminal_times rs)"
  by (induction rs arbitrary: ob)
     (auto simp: observe_record_def pending_def oldest_def terminal_times_def Let_def
        split: task_state.split option.split)

text \<open>A backlog observation counts every stored task exactly once, in the class of its state,
  and reports the earliest due time of the tasks still waiting and the earliest settlement time
  of the settled ones.\<close>

theorem memory_observe_backlog_exact:
  "\<exists>ob s'. mem_observe_backlog_body s = Some (Inr ob, s') \<and> ms_records s' = ms_records s \<and>
     bo_scheduled ob = length (filter (\<lambda>r. tr_state r = Scheduled) (mem_records s)) \<and>
     bo_ready ob = length (filter (\<lambda>r. tr_state r = Ready) (mem_records s)) \<and>
     bo_leased ob = length (filter (\<lambda>r. tr_state r = Leased) (mem_records s)) \<and>
     bo_scheduled ob + bo_ready ob + bo_leased ob + bo_terminal_count ob = length (mem_records s) \<and>
     bo_oldest_due_at ob = (let ts = map tr_due_at (filter pending (mem_records s))
        in if ts = [] then None else Some (Min (set ts))) \<and>
     bo_oldest_terminal_at ob = (let ts = terminal_times (mem_records s)
        in if ts = [] then None else Some (Min (set ts))) \<and>
     bo_observed_at ob = Some (ms_clock s (ms_reads s))"
proof -
  have total: "length (filter (\<lambda>r. tr_state r = Scheduled) rs) + length (filter (\<lambda>r. tr_state r = Ready) rs) +
      length (filter (\<lambda>r. tr_state r = Leased) rs) + length (filter (\<lambda>r. is_terminal (tr_state r)) rs) = length rs"
    for rs :: "('a, 'b) task_record list"
    by (induction rs) (auto simp: is_terminal_iff)
  have at: "bo_observed_at (fold observe_record rs ob) = bo_observed_at ob" for rs ob
    by (induction rs arbitrary: ob) (auto simp: observe_record_def Let_def split: task_state.split option.split)
  show ?thesis
    using total [of "mem_records s"]
    by (simp add: mem_observe_backlog_body_def read_clock_def fold_observe oldest_None Let_def at mem_records_def)
qed

end
