(* ===== verification/Task_Scheduler.thy ===== *)
theory Task_Scheduler
  imports Task_Backoff Task_Store_Properties
begin

text \<open>
  The scheduler of \<open>task-control/src/scheduler/mod.rs\<close>: due scan with claim and admission,
  lease-expiry recovery and renewal of accepted leases. The \<open>Arc<dyn TaskStore>\<close> is a record
  of operations on an abstract store state, so one model covers every adapter and, because an
  operation may stand for any number of store steps, every interference of other replicas
  between two calls. The admission seam is a function of an environment \<open>'w\<close>; the read-only
  observer is the log \<open>sch_events\<close> of its calls. Pacing (sleeping, waking) has no effect on the
  store and is not modelled beyond the wake counter.
\<close>

section \<open>Ports\<close>

datatype admission_decision =
    Accepted | RejectedProvable string | Uncertain string | PermanentFailure string

type_synonym ('s, 'a) store_call = "'s \<Rightarrow> ((task_store_error + 'a) \<times> 's) option"

record ('s, 'p, 'j) task_store_ops =
  so_now :: "('s, timestamp) store_call"
  so_claim :: "claim_input \<Rightarrow> ('s, ('p, 'j) claim_outcome) store_call"
  so_renew :: "renew_input \<Rightarrow> ('s, ('p, 'j) renew_outcome) store_call"
  so_settle :: "settle_input \<Rightarrow> ('s, ('p, 'j) settle_outcome) store_call"
  so_recover :: "lease_recovery_input \<Rightarrow> ('s, ('p, 'j) lease_recovery_outcome) store_call"
  so_release :: "release_input \<Rightarrow> ('s, ('p, 'j) release_outcome) store_call"
  so_scan_due :: "usize \<Rightarrow> ('s, ('p, 'j) task_record list) store_call"
  so_scan_expired :: "usize \<Rightarrow> ('s, ('p, 'j) task_record list) store_call"

datatype ('p, 'j) observation =
    OnDueReady "('p, 'j) task_record" timestamp
  | OnClaim "('p, 'j) task_record" timestamp
  | OnClaimDuplicate task_id claim_rejection
  | OnRenewed task_id lease_id timestamp
  | OnRenewLost task_id lease_id renew_rejection
  | OnRecover task_id lease_id
  | OnRelease task_id lease_id timestamp

section \<open>Configuration\<close>

record scheduler_config =
  cfg_scheduler_id :: string
  cfg_scan_interval :: nat
  cfg_min_cycle_interval :: nat
  cfg_batch_limit :: usize
  cfg_lease_duration :: i64
  cfg_image_activatable :: bool

definition default_config :: scheduler_config where
  "default_config = \<lparr>cfg_scheduler_id = ''scheduler'', cfg_scan_interval = 1000000000,
     cfg_min_cycle_interval = 10000000, cfg_batch_limit = 128, cfg_lease_duration = 60000,
     cfg_image_activatable = True\<rparr>"

definition scan_interval_ms :: "scheduler_config \<Rightarrow> i64" where
  "scan_interval_ms cfg = millis_to_i64 (cfg_scan_interval cfg div 1000000)"

definition validate_config :: "scheduler_config \<Rightarrow> string + unit" where
  "validate_config cfg =
     (if cfg_scheduler_id cfg = [] then Inl ''scheduler id must not be empty''
      else if cfg_scan_interval cfg = 0 then Inl ''scan interval must be positive''
      else if cfg_min_cycle_interval cfg = 0 then Inl ''min cycle interval must be positive''
      else if cfg_batch_limit cfg = 0 then Inl ''batch limit must be positive''
      else if cfg_lease_duration cfg < wrap_i64 (2 * scan_interval_ms cfg) then
        Inl ''lease_duration must be at least twice scan_interval so loop renewals keep accepted leases alive''
      else Inr ())"

section \<open>State\<close>

record ('s, 'w, 'p, 'j) scheduler =
  sch_store :: 's
  sch_admission :: 'w
  sch_config :: scheduler_config
  sch_backoff :: retry_backoff_policy
  sch_active :: "(task_id, task_lease) btree"
  sch_events :: "('p, 'j) observation list"
  sch_wake :: u64

definition with_observer ::
  "'s \<Rightarrow> 'w \<Rightarrow> scheduler_config \<Rightarrow> retry_backoff_policy \<Rightarrow> ('s, 'w, 'p, 'j) scheduler option" where
  "with_observer st adm cfg pol =
     (case validate_config cfg of
        Inl _ \<Rightarrow> None
      | Inr _ \<Rightarrow> Some \<lparr>sch_store = st, sch_admission = adm, sch_config = cfg, sch_backoff = pol,
                       sch_active = [], sch_events = [], sch_wake = 0\<rparr>)"

definition wake :: "('s, 'w, 'p, 'j) scheduler \<Rightarrow> ('s, 'w, 'p, 'j) scheduler" where
  "wake sc = sc\<lparr>sch_wake := saturating_add_u64 (sch_wake sc) 1\<rparr>"

definition active_lease_count :: "('s, 'w, 'p, 'j) scheduler \<Rightarrow> usize" where
  "active_lease_count sc = length (sch_active sc)"

definition observe :: "('p, 'j) observation \<Rightarrow> ('s, 'w, 'p, 'j) scheduler \<Rightarrow> ('s, 'w, 'p, 'j) scheduler" where
  "observe ev sc = sc\<lparr>sch_events := sch_events sc @ [ev]\<rparr>"

definition on_store ::
  "('s, 'a) store_call \<Rightarrow> ('s, 'w, 'p, 'j) scheduler \<Rightarrow>
   ((task_store_error + 'a) \<times> ('s, 'w, 'p, 'j) scheduler) option" where
  "on_store f sc = map_option (map_prod id (\<lambda>s. sc\<lparr>sch_store := s\<rparr>)) (f (sch_store sc))"

definition next_delay ::
  "u64 \<Rightarrow> ('s, 'w, 'p, 'j) scheduler \<Rightarrow> i64 \<times> ('s, 'w, 'p, 'j) scheduler" where
  "next_delay generation sc =
     map_prod id (\<lambda>p. sc\<lparr>sch_backoff := p\<rparr>) (delay_millis (sch_backoff sc) generation)"

text \<open>A \<open>for\<close> loop whose body may panic.\<close>

fun for_each :: "('a \<Rightarrow> 's \<Rightarrow> 's option) \<Rightarrow> 'a list \<Rightarrow> 's \<Rightarrow> 's option" where
  "for_each f [] s = Some s"
| "for_each f (x # xs) s = (case f x s of None \<Rightarrow> None | Some s' \<Rightarrow> for_each f xs s')"

section \<open>Operations\<close>

definition remove_active_lease_if ::
  "task_id \<Rightarrow> lease_id \<Rightarrow> ('s, 'w, 'p, 'j) scheduler \<Rightarrow> ('s, 'w, 'p, 'j) scheduler" where
  "remove_active_lease_if tid lid sc =
     (case bt_get (sch_active sc) tid of
        Some lease \<Rightarrow>
          (if tl_lease_id lease = lid then sc\<lparr>sch_active := bt_remove tid (sch_active sc)\<rparr> else sc)
      | None \<Rightarrow> sc)"

definition forget_active_lease ::
  "task_id \<Rightarrow> lease_id \<Rightarrow> ('s, 'w, 'p, 'j) scheduler \<Rightarrow> ('s, 'w, 'p, 'j) scheduler" where
  "forget_active_lease tid lid sc = remove_active_lease_if tid lid sc"

definition handle_decision ::
  "('s, 'p, 'j) task_store_ops \<Rightarrow> ('p, 'j) task_record \<Rightarrow> admission_decision \<Rightarrow> timestamp \<Rightarrow>
   ('s, 'w, 'p, 'j) scheduler \<Rightarrow> ('s, 'w, 'p, 'j) scheduler option" where
  "handle_decision ops r decision now sc =
     (case decision of
        Accepted \<Rightarrow>
          (case tr_active_lease r of
             Some lease \<Rightarrow> Some (sc\<lparr>sch_active := bt_insert (tr_task_id r) lease (sch_active sc)\<rparr>)
           | None \<Rightarrow> Some sc)
      | RejectedProvable _ \<Rightarrow>
          (case tr_active_lease r of
             None \<Rightarrow> Some sc
           | Some lease \<Rightarrow>
               (let (d, sc1) = next_delay (tr_attempt_generation r) sc in
                case checked_add_millis now d of
                  None \<Rightarrow> Some sc1
                | Some retry \<Rightarrow>
                    (case on_store (so_release ops \<lparr>rli_task_id = tr_task_id r,
                             rli_lease_id = tl_lease_id lease, rli_retry_not_before = retry\<rparr>) sc1 of
                       None \<Rightarrow> None
                     | Some (res, sc2) \<Rightarrow>
                         Some (remove_active_lease_if (tr_task_id r) (tl_lease_id lease)
                           (case res of
                              Inr (Released _) \<Rightarrow>
                                observe (OnRelease (tr_task_id r) (tl_lease_id lease) retry) sc2
                            | _ \<Rightarrow> sc2)))))
      | Uncertain _ \<Rightarrow> Some sc
      | PermanentFailure reason \<Rightarrow>
          (case tr_active_lease r of
             None \<Rightarrow> Some sc
           | Some lease \<Rightarrow>
               (case on_store (so_settle ops \<lparr>si_task_id = tr_task_id r, si_lease_id = tl_lease_id lease,
                        si_terminal = \<lparr>tt_settled_at = now, tt_outcome = OutPlatformFailed reason\<rparr>\<rparr>) sc of
                  None \<Rightarrow> None
                | Some (_, sc1) \<Rightarrow> Some (remove_active_lease_if (tr_task_id r) (tl_lease_id lease) sc1))))"

definition scan_record ::
  "('s, 'p, 'j) task_store_ops \<Rightarrow> ('w \<Rightarrow> ('p, 'j) task_record \<Rightarrow> admission_decision \<times> 'w) \<Rightarrow> timestamp \<Rightarrow>
   ('p, 'j) task_record \<Rightarrow> ('s, 'w, 'p, 'j) scheduler \<Rightarrow> ('s, 'w, 'p, 'j) scheduler option" where
  "scan_record ops admit now r sc =
     (if tr_state r \<noteq> Ready then Some sc
      else let sc0 = observe (OnDueReady r now) sc in
        if (case tr_retry_not_before r of None \<Rightarrow> False | Some nb \<Rightarrow> nb > now) then Some sc0
        else if \<not> cfg_image_activatable (sch_config sc0) then Some sc0
        else case checked_add_millis now (cfg_lease_duration (sch_config sc0)) of
          None \<Rightarrow> Some sc0
        | Some lease_expiry \<Rightarrow>
            (case on_store (so_claim ops \<lparr>ci_task_id = tr_task_id r,
                     ci_owner = cfg_scheduler_id (sch_config sc0), ci_lease_expiry = lease_expiry,
                     ci_image_activatable = cfg_image_activatable (sch_config sc0)\<rparr>) sc0 of
               None \<Rightarrow> None
             | Some (Inl _, sc1) \<Rightarrow> Some sc1
             | Some (Inr (ClaimRejected reason), sc1) \<Rightarrow>
                 Some (observe (OnClaimDuplicate (tr_task_id r) reason) sc1)
             | Some (Inr (Claimed r'), sc1) \<Rightarrow>
                 (let sc2 = observe (OnClaim r' now) sc1;
                      (decision, w') = admit (sch_admission sc2) r'
                  in handle_decision ops r' decision now (sc2\<lparr>sch_admission := w'\<rparr>))))"

definition scan_once ::
  "('s, 'p, 'j) task_store_ops \<Rightarrow> ('w \<Rightarrow> ('p, 'j) task_record \<Rightarrow> admission_decision \<times> 'w) \<Rightarrow>
   ('s, 'w, 'p, 'j) scheduler \<Rightarrow> (bool \<times> ('s, 'w, 'p, 'j) scheduler) option" where
  "scan_once ops admit sc =
     (case on_store (so_now ops) sc of
        None \<Rightarrow> None
      | Some (Inl _, sc1) \<Rightarrow> Some (False, sc1)
      | Some (Inr now, sc1) \<Rightarrow>
          (case on_store (so_scan_due ops (cfg_batch_limit (sch_config sc1))) sc1 of
             None \<Rightarrow> None
           | Some (Inl _, sc2) \<Rightarrow> Some (False, sc2)
           | Some (Inr rs, sc2) \<Rightarrow>
               map_option (Pair (length rs \<ge> cfg_batch_limit (sch_config sc2)))
                 (for_each (scan_record ops admit now) rs sc2)))"

definition recover_record ::
  "('s, 'p, 'j) task_store_ops \<Rightarrow> timestamp \<Rightarrow> ('p, 'j) task_record \<Rightarrow> ('s, 'w, 'p, 'j) scheduler \<Rightarrow>
   ('s, 'w, 'p, 'j) scheduler option" where
  "recover_record ops now r sc =
     (if tr_state r \<noteq> Leased then Some sc
      else case tr_active_lease r of
        None \<Rightarrow> Some sc
      | Some lease \<Rightarrow>
          (let (d, sc1) = next_delay (tr_attempt_generation r) sc in
           case checked_add_millis now d of
             None \<Rightarrow> Some sc1
           | Some retry \<Rightarrow>
               (case on_store (so_recover ops \<lparr>lri_task_id = tr_task_id r, lri_retry_not_before = retry\<rparr>) sc1 of
                  None \<Rightarrow> None
                | Some (Inr (Recovered _), sc2) \<Rightarrow>
                    Some (remove_active_lease_if (tr_task_id r) (tl_lease_id lease)
                      (observe (OnRecover (tr_task_id r) (tl_lease_id lease)) sc2))
                | Some (_, sc2) \<Rightarrow> Some sc2)))"

definition recover_once ::
  "('s, 'p, 'j) task_store_ops \<Rightarrow> ('s, 'w, 'p, 'j) scheduler \<Rightarrow> ('s, 'w, 'p, 'j) scheduler option" where
  "recover_once ops sc =
     (case on_store (so_now ops) sc of
        None \<Rightarrow> None
      | Some (Inl _, sc1) \<Rightarrow> Some sc1
      | Some (Inr now, sc1) \<Rightarrow>
          (case on_store (so_scan_expired ops (cfg_batch_limit (sch_config sc1))) sc1 of
             None \<Rightarrow> None
           | Some (Inl _, sc2) \<Rightarrow> Some sc2
           | Some (Inr rs, sc2) \<Rightarrow> for_each (recover_record ops now) rs sc2))"

fun lease_lost :: "renew_rejection \<Rightarrow> bool" where
  "lease_lost RenewInvalidExpiry = False"
| "lease_lost _ = True"

definition renew_lease ::
  "('s, 'p, 'j) task_store_ops \<Rightarrow> timestamp \<Rightarrow> task_id \<times> task_lease \<Rightarrow> ('s, 'w, 'p, 'j) scheduler \<Rightarrow>
   ('s, 'w, 'p, 'j) scheduler option" where
  "renew_lease ops new_expiry entry sc =
     (let (tid, lease) = entry in
      case on_store (so_renew ops \<lparr>ri_task_id = tid, ri_lease_id = tl_lease_id lease,
               ri_new_expiry = new_expiry\<rparr>) sc of
        None \<Rightarrow> None
      | Some (Inr (Renewed r), sc1) \<Rightarrow>
          (let sc2 = observe (OnRenewed tid (tl_lease_id lease)
                 (case tr_active_lease r of Some nxt \<Rightarrow> tl_expiry nxt | None \<Rightarrow> new_expiry)) sc1 in
           case tr_active_lease r of
             None \<Rightarrow> Some sc2
           | Some nxt \<Rightarrow>
               (case bt_get (sch_active sc2) tid of
                  Some current \<Rightarrow>
                    (if tl_lease_id current = tl_lease_id lease
                     then Some (sc2\<lparr>sch_active := bt_insert tid nxt (sch_active sc2)\<rparr>) else Some sc2)
                | None \<Rightarrow> Some sc2))
      | Some (Inr (RenewRejected rejection), sc1) \<Rightarrow>
          (if lease_lost rejection
           then Some (remove_active_lease_if tid (tl_lease_id lease)
                  (observe (OnRenewLost tid (tl_lease_id lease) rejection) sc1))
           else Some sc1)
      | Some (Inl _, sc1) \<Rightarrow> Some sc1)"

text \<open>
  The tracked leases are a \<open>HashMap\<close>, whose iteration order is unspecified; the argument
  \<open>order\<close> is the order this iteration takes.
\<close>

definition renew_active_leases ::
  "('s, 'p, 'j) task_store_ops \<Rightarrow> ((task_id, task_lease) btree \<Rightarrow> (task_id \<times> task_lease) list) \<Rightarrow>
   ('s, 'w, 'p, 'j) scheduler \<Rightarrow> ('s, 'w, 'p, 'j) scheduler option" where
  "renew_active_leases ops order sc =
     (case on_store (so_now ops) sc of
        None \<Rightarrow> None
      | Some (Inl _, sc1) \<Rightarrow> Some sc1
      | Some (Inr now, sc1) \<Rightarrow>
          (case checked_add_millis now (cfg_lease_duration (sch_config sc1)) of
             None \<Rightarrow> Some sc1
           | Some new_expiry \<Rightarrow> for_each (renew_lease ops new_expiry) (order (sch_active sc1)) sc1))"

definition run_cycle ::
  "('s, 'p, 'j) task_store_ops \<Rightarrow> ((task_id, task_lease) btree \<Rightarrow> (task_id \<times> task_lease) list) \<Rightarrow>
   ('w \<Rightarrow> ('p, 'j) task_record \<Rightarrow> admission_decision \<times> 'w) \<Rightarrow>
   ('s, 'w, 'p, 'j) scheduler \<Rightarrow> (bool \<times> ('s, 'w, 'p, 'j) scheduler) option" where
  "run_cycle ops order admit sc =
     (case recover_once ops sc of
        None \<Rightarrow> None
      | Some sc1 \<Rightarrow>
          (case renew_active_leases ops order sc1 of
             None \<Rightarrow> None
           | Some sc2 \<Rightarrow> scan_once ops admit sc2))"

section \<open>Any store behind the port\<close>

text \<open>
  What the scheduler relies on: in a state satisfying the invariant every call returns, and
  what it did to the store is a sequence of store steps.
\<close>

definition call_ok :: "('s \<Rightarrow> bool) \<Rightarrow> ('s \<Rightarrow> 's \<Rightarrow> bool) \<Rightarrow> ('s, 'a) store_call \<Rightarrow> bool" where
  "call_ok I step f \<longleftrightarrow> (\<forall>s. I s \<longrightarrow> (\<exists>res s'. f s = Some (res, s') \<and> step\<^sup>*\<^sup>* s s'))"

lemma for_each_run:
  assumes "\<And>x s. P s \<Longrightarrow> \<exists>s'. f x s = Some s' \<and> R s s'"
    and "\<And>s s'. P s \<Longrightarrow> R s s' \<Longrightarrow> P s'" and "\<And>s. R s s" and "\<And>a b c. R a b \<Longrightarrow> R b c \<Longrightarrow> R a c"
  shows "P s \<Longrightarrow> \<exists>s'. for_each f xs s = Some s' \<and> R s s'"
proof (induction xs arbitrary: s)
  case (Cons x xs)
  obtain s1 where s1: "f x s = Some s1" "R s s1" using assms(1) [OF Cons.prems] by blast
  then obtain s2 where "for_each f xs s1 = Some s2" "R s1 s2"
    using Cons.IH [OF assms(2) [OF Cons.prems s1(2)]] by blast
  then show ?case using s1 assms(4) by auto
qed (simp add: assms(3))

locale scheduled_store = task_store_contract lookup step inv
  for lookup :: "'s \<Rightarrow> task_id \<Rightarrow> ('p, 'j) task_record option"
    and step :: "'s \<Rightarrow> 's \<Rightarrow> bool"
    and inv :: "'s \<Rightarrow> bool" +
  fixes ops :: "('s, 'p, 'j) task_store_ops"
  assumes now_ok: "call_ok inv step (so_now ops)"
    and claim_ok: "call_ok inv step (so_claim ops ci)"
    and renew_ok: "call_ok inv step (so_renew ops ri)"
    and settle_ok: "call_ok inv step (so_settle ops si)"
    and recover_ok: "call_ok inv step (so_recover ops lri)"
    and release_ok: "call_ok inv step (so_release ops rli)"
    and scan_due_ok: "call_ok inv step (so_scan_due ops n)"
    and scan_expired_ok: "call_ok inv step (so_scan_expired ops n)"
begin

definition moved :: "('s, 'w, 'p, 'j) scheduler \<Rightarrow> ('s, 'w, 'p, 'j) scheduler \<Rightarrow> bool" where
  "moved sc sc' \<longleftrightarrow> step\<^sup>*\<^sup>* (sch_store sc) (sch_store sc')"

lemma moved_refl: "moved sc sc"
  by (simp add: moved_def)

lemma moved_trans: "moved a b \<Longrightarrow> moved b c \<Longrightarrow> moved a c"
  by (auto simp: moved_def)

lemma moved_inv: "moved sc sc' \<Longrightarrow> inv (sch_store sc) \<Longrightarrow> inv (sch_store sc')"
  using run_inv by (auto simp: moved_def)

lemma moved_observe [simp]: "moved sc (observe ev sc') \<longleftrightarrow> moved sc sc'"
  by (simp add: moved_def observe_def)

lemma moved_remove [simp]: "moved sc (remove_active_lease_if t l sc') \<longleftrightarrow> moved sc sc'"
  by (simp add: moved_def remove_active_lease_if_def split: option.split)

lemma on_store_ok:
  "call_ok inv step f \<Longrightarrow> inv (sch_store sc) \<Longrightarrow> \<exists>res sc'. on_store f sc = Some (res, sc') \<and> moved sc sc'"
  by (fastforce simp: call_ok_def on_store_def moved_def)

lemma next_delay_moved: "next_delay g sc = (d, sc1) \<Longrightarrow> moved sc sc1"
  by (cases "delay_millis (sch_backoff sc) g") (auto simp: next_delay_def moved_def)

lemma moved_fields [simp]:
  shows "moved sc (sc'\<lparr>sch_active := a\<rparr>) \<longleftrightarrow> moved sc sc'"
    and "moved sc (sc'\<lparr>sch_admission := w\<rparr>) \<longleftrightarrow> moved sc sc'"
  by (simp_all add: moved_def)

lemma release_attempt_ok:
  assumes "inv (sch_store sc)" and "tr_active_lease r = Some lease"
  shows "\<exists>sc'. handle_decision ops r (RejectedProvable reason) now sc = Some sc' \<and> moved sc sc'"
proof -
  obtain d sc1 where d: "next_delay (tr_attempt_generation r) sc = (d, sc1)" by fastforce
  show ?thesis
  proof (cases "checked_add_millis now d")
    case None
    then show ?thesis using next_delay_moved [OF d] by (simp add: handle_decision_def assms(2) d)
  next
    case (Some retry)
    obtain res sc2 where "on_store (so_release ops \<lparr>rli_task_id = tr_task_id r,
        rli_lease_id = tl_lease_id lease, rli_retry_not_before = retry\<rparr>) sc1 = Some (res, sc2)"
      "moved sc1 sc2"
      using on_store_ok [OF release_ok moved_inv [OF next_delay_moved [OF d] assms(1)]] by blast
    then show ?thesis using moved_trans [OF next_delay_moved [OF d]]
      by (simp add: handle_decision_def assms(2) d Some split: sum.split release_outcome.split)
  qed
qed

lemma handle_decision_ok:
  assumes "inv (sch_store sc)"
  shows "\<exists>sc'. handle_decision ops r decision now sc = Some sc' \<and> moved sc sc'"
proof (cases "tr_active_lease r")
  case None
  then show ?thesis by (cases decision) (auto simp: handle_decision_def moved_refl)
next
  case (Some lease)
  show ?thesis
  proof (cases decision)
    case (RejectedProvable reason)
    then show ?thesis using release_attempt_ok [OF assms Some] by simp
  next
    case (PermanentFailure reason)
    obtain res sc1 where "on_store (so_settle ops \<lparr>si_task_id = tr_task_id r,
        si_lease_id = tl_lease_id lease,
        si_terminal = \<lparr>tt_settled_at = now, tt_outcome = OutPlatformFailed reason\<rparr>\<rparr>) sc = Some (res, sc1)"
      "moved sc sc1" using on_store_ok [OF settle_ok assms] by blast
    then show ?thesis by (simp add: handle_decision_def Some PermanentFailure)
  qed (auto simp: handle_decision_def Some moved_refl)
qed

lemma scan_record_ok:
  assumes "inv (sch_store sc)"
  shows "\<exists>sc'. scan_record ops admit now r sc = Some sc' \<and> moved sc sc'"
proof -
  define sc0 where "sc0 = observe (OnDueReady r now) sc"
  have m0: "moved sc sc0" by (simp add: sc0_def moved_refl)
  show ?thesis
  proof (cases "checked_add_millis now (cfg_lease_duration (sch_config sc0))")
    case None
    then show ?thesis using m0 by (auto simp: scan_record_def sc0_def [symmetric] Let_def moved_refl)
  next
    case (Some e)
    obtain res sc1 where c: "on_store (so_claim ops \<lparr>ci_task_id = tr_task_id r,
        ci_owner = cfg_scheduler_id (sch_config sc0), ci_lease_expiry = e,
        ci_image_activatable = cfg_image_activatable (sch_config sc0)\<rparr>) sc0 = Some (res, sc1)"
      and m: "moved sc sc1"
      using on_store_ok [OF claim_ok moved_inv [OF m0 assms]] moved_trans [OF m0] by blast
    show ?thesis
    proof (cases "\<exists>r'. res = Inr (Claimed r')")
      case True
      then obtain r' where res: "res = Inr (Claimed r')" by blast
      obtain dec w' where a: "admit (sch_admission (observe (OnClaim r' now) sc1)) r' = (dec, w')" by fastforce
      define sc2 where "sc2 = (observe (OnClaim r' now) sc1)\<lparr>sch_admission := w'\<rparr>"
      have m2: "moved sc sc2" using m by (simp add: sc2_def)
      have "\<exists>sc3. handle_decision ops r' dec now sc2 = Some sc3 \<and> moved sc sc3"
        using handle_decision_ok [OF moved_inv [OF m2 assms]] moved_trans [OF m2] by blast
      then show ?thesis using m0 c Some
        by (auto simp: scan_record_def sc0_def [symmetric] Let_def moved_refl res a sc2_def)
    next
      case False
      then show ?thesis using m0 m c Some
        by (cases res) (auto simp: scan_record_def sc0_def [symmetric] Let_def moved_refl
            split: claim_outcome.split)
    qed
  qed
qed

lemma recover_record_ok:
  assumes "inv (sch_store sc)"
  shows "\<exists>sc'. recover_record ops now r sc = Some sc' \<and> moved sc sc'"
proof (cases "tr_state r = Leased \<and> (\<exists>lease. tr_active_lease r = Some lease)")
  case True
  then obtain lease where lease: "tr_state r = Leased" "tr_active_lease r = Some lease" by blast
  obtain d sc1 where d: "next_delay (tr_attempt_generation r) sc = (d, sc1)" by fastforce
  note m1 = next_delay_moved [OF d]
  show ?thesis
  proof (cases "checked_add_millis now d")
    case None
    then show ?thesis using m1 by (simp add: recover_record_def lease d)
  next
    case (Some retry)
    obtain res sc2 where "on_store (so_recover ops \<lparr>lri_task_id = tr_task_id r,
        lri_retry_not_before = retry\<rparr>) sc1 = Some (res, sc2)" "moved sc1 sc2"
      using on_store_ok [OF recover_ok moved_inv [OF m1 assms]] by blast
    then show ?thesis using moved_trans [OF m1]
      by (simp add: recover_record_def lease d Some split: sum.split lease_recovery_outcome.split)
  qed
qed (auto simp: recover_record_def moved_refl split: option.split)

lemma renew_lease_ok:
  assumes "inv (sch_store sc)"
  shows "\<exists>sc'. renew_lease ops e entry sc = Some sc' \<and> moved sc sc'"
proof -
  obtain tid lease where entry: "entry = (tid, lease)" by fastforce
  obtain res sc1 where "on_store (so_renew ops \<lparr>ri_task_id = tid, ri_lease_id = tl_lease_id lease,
      ri_new_expiry = e\<rparr>) sc = Some (res, sc1)" "moved sc sc1"
    using on_store_ok [OF renew_ok assms] by blast
  then show ?thesis
    by (simp add: renew_lease_def entry Let_def split: sum.split renew_outcome.split option.split)
qed

lemmas loop_ok = for_each_run [where P = "\<lambda>sc. inv (sch_store sc)" and R = moved]

lemma scan_loop_ok: "inv (sch_store sc) \<Longrightarrow> \<exists>sc'. for_each (scan_record ops admit now) rs sc = Some sc' \<and> moved sc sc'"
  by (rule loop_ok) (auto intro: scan_record_ok moved_inv moved_refl moved_trans)

lemma recover_loop_ok: "inv (sch_store sc) \<Longrightarrow> \<exists>sc'. for_each (recover_record ops now) rs sc = Some sc' \<and> moved sc sc'"
  by (rule loop_ok) (auto intro: recover_record_ok moved_inv moved_refl moved_trans)

lemma renew_loop_ok: "inv (sch_store sc) \<Longrightarrow> \<exists>sc'. for_each (renew_lease ops e) rs sc = Some sc' \<and> moved sc sc'"
  by (rule loop_ok) (auto intro: renew_lease_ok moved_inv moved_refl moved_trans)

lemma recover_once_ok:
  assumes "inv (sch_store sc)"
  shows "\<exists>sc'. recover_once ops sc = Some sc' \<and> moved sc sc'"
proof -
  obtain n sc1 where 1: "on_store (so_now ops) sc = Some (n, sc1)" "moved sc sc1"
    using on_store_ok [OF now_ok assms] by blast
  obtain b sc2 where 2: "on_store (so_scan_expired ops (cfg_batch_limit (sch_config sc1))) sc1 = Some (b, sc2)"
    "moved sc sc2" using on_store_ok [OF scan_expired_ok moved_inv [OF 1(2) assms]] moved_trans [OF 1(2)] by blast
  have "\<exists>sc'. for_each (recover_record ops now) rs sc2 = Some sc' \<and> moved sc sc'" for now rs
    using recover_loop_ok [OF moved_inv [OF 2(2) assms]] moved_trans [OF 2(2)] by blast
  with 1 2 show ?thesis by (simp add: recover_once_def split: sum.split)
qed

lemma renew_active_leases_ok:
  assumes "inv (sch_store sc)"
  shows "\<exists>sc'. renew_active_leases ops order sc = Some sc' \<and> moved sc sc'"
proof -
  obtain n sc1 where 1: "on_store (so_now ops) sc = Some (n, sc1)" "moved sc sc1"
    using on_store_ok [OF now_ok assms] by blast
  have "\<exists>sc'. for_each (renew_lease ops e) rs sc1 = Some sc' \<and> moved sc sc'" for e rs
    using renew_loop_ok [OF moved_inv [OF 1(2) assms]] moved_trans [OF 1(2)] by blast
  with 1 show ?thesis by (simp add: renew_active_leases_def split: sum.split option.split)
qed

lemma scan_once_ok:
  assumes "inv (sch_store sc)"
  shows "\<exists>more sc'. scan_once ops admit sc = Some (more, sc') \<and> moved sc sc'"
proof -
  obtain n sc1 where 1: "on_store (so_now ops) sc = Some (n, sc1)" "moved sc sc1"
    using on_store_ok [OF now_ok assms] by blast
  obtain b sc2 where 2: "on_store (so_scan_due ops (cfg_batch_limit (sch_config sc1))) sc1 = Some (b, sc2)"
    "moved sc sc2" using on_store_ok [OF scan_due_ok moved_inv [OF 1(2) assms]] moved_trans [OF 1(2)] by blast
  have loop: "\<exists>sc'. for_each (scan_record ops admit now) rs sc2 = Some sc' \<and> moved sc sc'" for now rs
    using scan_loop_ok [OF moved_inv [OF 2(2) assms]] moved_trans [OF 2(2)] by blast
  show ?thesis
    using 1 2 loop by (cases n; cases b) (fastforce simp: scan_once_def)+
qed

lemma run_cycle_ok:
  assumes "inv (sch_store sc)"
  shows "\<exists>more sc'. run_cycle ops order admit sc = Some (more, sc') \<and> step\<^sup>*\<^sup>* (sch_store sc) (sch_store sc')"
proof -
  obtain sc1 where 1: "recover_once ops sc = Some sc1" "moved sc sc1"
    using recover_once_ok [OF assms] by blast
  obtain sc2 where 2: "renew_active_leases ops order sc1 = Some sc2" "moved sc sc2"
    using renew_active_leases_ok [OF moved_inv [OF 1(2) assms]] moved_trans [OF 1(2)] by blast
  obtain more sc3 where "scan_once ops admit sc2 = Some (more, sc3)" "moved sc sc3"
    using scan_once_ok [OF moved_inv [OF 2(2) assms]] moved_trans [OF 2(2)] by blast
  with 1 2 show ?thesis by (auto simp: run_cycle_def moved_def)
qed

end

section \<open>The memory store under interference\<close>

text \<open>
  \<open>mem_ops\<close> is the memory store behind the port. \<open>contended_ops\<close> is the same store shared
  with other replicas and callers: before each call of this scheduler the next entry of a script
  of arbitrary atomic steps runs on it.
\<close>

definition mem_ops :: "(('p, 'j) memory_state, 'p, 'j) task_store_ops" where
  "mem_ops = \<lparr>so_now = mem_now, so_claim = mem_claim, so_renew = mem_renew, so_settle = mem_settle,
     so_recover = mem_recover, so_release = mem_release, so_scan_due = mem_scan_due,
     so_scan_expired = mem_scan_expired_leases\<rparr>"

type_synonym ('p, 'j) contended = "('p, 'j) memory_state \<times> ('p, 'j) store_op list list"

definition contend ::
  "(('p, 'j) memory_state, 'a) store_call \<Rightarrow> (('p, 'j) contended, 'a) store_call" where
  "contend f = (\<lambda>(s, script).
     case for_each mem_body (case script of [] \<Rightarrow> [] | ops # rest \<Rightarrow> ops) s of
       None \<Rightarrow> None
     | Some s1 \<Rightarrow> map_option (map_prod id (\<lambda>s2. (s2, tl script))) (f s1))"

definition contended_ops :: "(('p, 'j) contended, 'p, 'j) task_store_ops" where
  "contended_ops = \<lparr>so_now = contend mem_now, so_claim = (\<lambda>i. contend (mem_claim i)),
     so_renew = (\<lambda>i. contend (mem_renew i)), so_settle = (\<lambda>i. contend (mem_settle i)),
     so_recover = (\<lambda>i. contend (mem_recover i)), so_release = (\<lambda>i. contend (mem_release i)),
     so_scan_due = (\<lambda>n. contend (mem_scan_due n)),
     so_scan_expired = (\<lambda>n. contend (mem_scan_expired_leases n))\<rparr>"

definition contended_step :: "('p, 'j) contended \<Rightarrow> ('p, 'j) contended \<Rightarrow> bool" where
  "contended_step a b \<longleftrightarrow> mem_step (fst a) (fst b) \<or> fst a = fst b"

lemma contended_run:
  "mem_step\<^sup>*\<^sup>* s s' \<Longrightarrow> contended_step\<^sup>*\<^sup>* (s, x) (s', y)"
proof (induction arbitrary: x rule: converse_rtranclp_induct)
  case (step a b)
  then have "contended_step (a, x) (b, x)" by (simp add: contended_step_def)
  with step.IH show ?case by (meson converse_rtranclp_into_rtranclp)
qed (auto simp: contended_step_def)

lemma contended_run_mem: "contended_step\<^sup>*\<^sup>* a b \<Longrightarrow> mem_step\<^sup>*\<^sup>* (fst a) (fst b)"
proof (induction rule: rtranclp_induct)
  case (step b c)
  then show ?case by (metis contended_step_def rtranclp.rtrancl_into_rtrancl)
qed simp

lemma gated_ok:
  assumes "\<And>s. mem_inv s \<Longrightarrow> \<exists>res s'. body s = Some (res, s') \<and> mem_step s s'"
  shows "call_ok mem_inv mem_step (gated body)"
  unfolding call_ok_def
proof (intro allI impI)
  fix s :: "('a, 'b) memory_state" assume inv: "mem_inv s"
  obtain g s1 where g: "gate s = (g, s1)" by fastforce
  then have step: "mem_step s s1" using mem_step.intros [of OpGate s s1] by simp
  then have "mem_inv s1" using inv memstore.inv_step by blast
  then obtain res s2 where "body s1 = Some (res, s2)" "mem_step s1 s2" using assms by blast
  with step g show "\<exists>res s'. gated body s = Some (res, s') \<and> mem_step\<^sup>*\<^sup>* s s'"
    by (cases g) (auto simp: gated_def intro: converse_rtranclp_into_rtranclp)
qed

lemma body_ok:
  assumes "\<And>s. mem_body op s = map_option snd (body s)" and "mem_inv s"
  shows "\<exists>res s'. body s = Some (res, s') \<and> mem_step s s'"
proof -
  obtain s' where s': "mem_body op s = Some s'" using mem_body_no_panic [OF assms(2)] by blast
  then show ?thesis using assms(1) mem_step.intros [OF s'] by fastforce
qed

lemma mem_ops_ok:
  shows "call_ok mem_inv mem_step (so_now mem_ops)"
    and "call_ok mem_inv mem_step (so_claim mem_ops ci)"
    and "call_ok mem_inv mem_step (so_renew mem_ops ri)"
    and "call_ok mem_inv mem_step (so_settle mem_ops si)"
    and "call_ok mem_inv mem_step (so_recover mem_ops lri)"
    and "call_ok mem_inv mem_step (so_release mem_ops rli)"
    and "call_ok mem_inv mem_step (so_scan_due mem_ops n)"
    and "call_ok mem_inv mem_step (so_scan_expired mem_ops n)"
  unfolding mem_ops_def task_store_ops.simps mem_ops_def mem_now_def mem_claim_def mem_renew_def
    mem_settle_def mem_recover_def mem_release_def mem_scan_due_def mem_scan_expired_leases_def
  by (rule gated_ok, erule body_ok [rotated], rule mem_body.simps)+

interpretation quiet: scheduled_store lookup_record mem_step mem_inv mem_ops
  by unfold_locales (rule mem_ops_ok)+

lemma for_each_mem_body: "mem_inv s \<Longrightarrow> \<exists>s'. for_each mem_body xs s = Some s' \<and> mem_step\<^sup>*\<^sup>* s s'"
  by (rule for_each_run [where P = mem_inv])
     (use mem_body_no_panic mem_step.intros memstore.run_inv in \<open>fastforce+\<close>)

lemma contend_ok:
  fixes f :: "(('p, 'j) memory_state, 'a) store_call"
  assumes "call_ok mem_inv mem_step f"
  shows "call_ok (\<lambda>c. mem_inv (fst c)) contended_step (contend f)"
  unfolding call_ok_def
proof (intro allI impI)
  fix c :: "('p, 'j) contended" assume inv: "mem_inv (fst c)"
  obtain s script where c: "c = (s, script)" by fastforce
  obtain s1 where s1: "for_each mem_body (case script of [] \<Rightarrow> [] | ops # rest \<Rightarrow> ops) s = Some s1"
    "mem_step\<^sup>*\<^sup>* s s1" using for_each_mem_body inv c by fastforce
  then have "mem_inv s1" using memstore.run_inv inv c by fastforce
  then obtain res s2 where s2: "f s1 = Some (res, s2)" "mem_step\<^sup>*\<^sup>* s1 s2"
    using assms unfolding call_ok_def by blast
  have "contended_step\<^sup>*\<^sup>* (s, script) (s2, tl script)"
    using s1(2) s2(2) by (intro contended_run) (rule rtranclp_trans)
  with s1(1) s2(1) show "\<exists>res c'. contend f c = Some (res, c') \<and> contended_step\<^sup>*\<^sup>* c c'"
    by (auto simp: contend_def c)
qed

interpretation contended: scheduled_store "\<lambda>c. lookup_record (fst c)" contended_step
  "\<lambda>c. mem_inv (fst c)" contended_ops
proof (unfold_locales, goal_cases)
  case (1 s s')
  then show ?case using memstore.inv_step by (auto simp: contended_step_def)
next
  case (2 s k r)
  then show ?case by (rule memstore.inv_wf)
next
  case (3 s k r)
  then show ?case by (rule memstore.inv_key)
next
  case (4 s s' k r)
  then show ?case using memstore.evolves by (auto simp: contended_step_def)
qed (simp_all add: contended_ops_def contend_ok mem_ops_ok [unfolded mem_ops_def task_store_ops.simps])

end
