(* ===== verification/Task_Scheduler_Properties.thy ===== *)
theory Task_Scheduler_Properties
  imports Task_Scheduler
begin

text \<open>
  What a scheduler replica does to the store: it carries out what the admission seam decides on each
  task it claims; it paces attempts by the durable retry floor as long as it is alone,
  and loses that guarantee to interference because the claim itself does not check the floor.
\<close>

section \<open>Effects of the memory operations on other tasks\<close>

definition only_task :: "task_id \<Rightarrow> ('p, 'j) memory_state \<Rightarrow> ('p, 'j) memory_state \<Rightarrow> bool" where
  "only_task k s s' \<longleftrightarrow> bt_ok (ms_records s') \<and> (\<forall>j. j \<noteq> k \<longrightarrow> lookup_record s' j = lookup_record s j)"

lemma only_task_trans: "only_task k a b \<Longrightarrow> only_task k b c \<Longrightarrow> only_task k a c"
  by (simp add: only_task_def)

lemma gate_records [simp]: "ms_records (snd (gate s)) = ms_records s"
  by (simp add: gate_def)

lemma gated_only:
  assumes "gated body s = Some (res, s')" and "bt_ok (ms_records s)"
    and "\<And>t res t'. bt_ok (ms_records t) \<Longrightarrow> body t = Some (res, t') \<Longrightarrow> only_task k t t'"
  shows "only_task k s s'"
proof -
  obtain g t where g: "gate s = (g, t)" by fastforce
  then have t: "ms_records t = ms_records s" by (metis gate_records snd_conv)
  show ?thesis
  proof (cases g)
    case (Inl e)
    with assms(1,2) g t show ?thesis by (auto simp: gated_def only_task_def)
  next
    case (Inr u)
    with assms g t have "only_task k t s'" by (auto simp: gated_def)
    with t show ?thesis by (simp add: only_task_def)
  qed
qed

lemma only_task_insert:
  "bt_ok (ms_records s) \<Longrightarrow> ms_records s' = bt_insert k r (ms_records s) \<Longrightarrow> only_task k s s'"
  by (simp add: only_task_def bt.ok_ins bt.get_ins)

lemma only_task_same:
  "bt_ok (ms_records s) \<Longrightarrow> ms_records s' = ms_records s \<Longrightarrow> only_task k s s'"
  by (simp add: only_task_def)

lemma mem_claim_only:
  assumes "mem_claim i s = Some (res, s')" and "bt_ok (ms_records s)"
  shows "only_task (ci_task_id i) s s'"
  using assms unfolding mem_claim_def
  by (rule gated_only)
     (auto simp: mem_claim_body_def read_clock_def Let_def intro: only_task_insert only_task_same
        split: option.splits sum.splits)

lemma mem_settle_only:
  assumes "mem_settle i s = Some (res, s')" and "bt_ok (ms_records s)"
  shows "only_task (si_task_id i) s s'"
  using assms unfolding mem_settle_def
  by (rule gated_only)
     (auto simp: mem_settle_body_def read_clock_def intro: only_task_insert only_task_same
        split: option.splits settle_transition.splits)

lemma mem_release_only:
  assumes "mem_release i s = Some (res, s')" and "bt_ok (ms_records s)"
  shows "only_task (rli_task_id i) s s'"
  using assms unfolding mem_release_def
  by (rule gated_only)
     (auto simp: mem_release_body_def read_clock_def intro: only_task_insert only_task_same
        split: option.splits sum.splits release_rejection.splits)

lemma mem_claim_ClaimedD:
  assumes "mem_claim i s = Some (Inr (Claimed r'), s')"
  shows "\<exists>r. lookup_record s (ci_task_id i) = Some r \<and> tr_retry_not_before r' = tr_retry_not_before r \<and>
     tr_task_id r' = tr_task_id r"
proof -
  obtain g t where g: "gate s = (g, t)" by fastforce
  then have t: "ms_records t = ms_records s" by (metis gate_records snd_conv)
  show ?thesis using assms g t
    by (auto simp: mem_claim_def gated_def mem_claim_body_def read_clock_def Let_def claim_Inr_iff
        split: sum.splits option.splits)
qed

section \<open>Claims respect the retry floor\<close>

definition claims_paced :: "timestamp \<Rightarrow> ('p, 'j) observation list \<Rightarrow> bool" where
  "claims_paced now evs \<longleftrightarrow>
     (\<forall>r. OnClaim r now \<in> set evs \<longrightarrow>
        (case tr_retry_not_before r of None \<Rightarrow> True | Some nb \<Rightarrow> nb \<le> now))"

definition claim_events :: "('p, 'j) observation list \<Rightarrow> ('p, 'j) observation list" where
  "claim_events evs = [e. e \<leftarrow> evs, (case e of OnClaim _ _ \<Rightarrow> True | _ \<Rightarrow> False)]"

lemma on_store_mem:
  "on_store f sc = Some (res, sc') \<longleftrightarrow> (\<exists>s'. f (sch_store sc) = Some (res, s') \<and> sc' = sc\<lparr>sch_store := s'\<rparr>)"
  by (auto simp: on_store_def)

lemma remove_active_fields [simp]:
  "sch_store (remove_active_lease_if t l sc) = sch_store sc"
  "sch_events (remove_active_lease_if t l sc) = sch_events sc"
  by (simp_all add: remove_active_lease_if_def split: option.split)

lemma observe_fields [simp]:
  "sch_store (observe ev sc) = sch_store sc"
  "sch_events (observe ev sc) = sch_events sc @ [ev]"
  "sch_config (observe ev sc) = sch_config sc"
  by (simp_all add: observe_def)

lemma next_delay_fields:
  assumes "next_delay g sc = (d, sc1)"
  shows "sch_store sc1 = sch_store sc" and "sch_events sc1 = sch_events sc"
  using assms by (cases "delay_millis (sch_backoff sc) g"; auto simp: next_delay_def)+

lemma remove_active_admission [simp]: "sch_admission (remove_active_lease_if t l sc) = sch_admission sc"
  by (simp add: remove_active_lease_if_def split: option.split)

lemma handle_decision_admission:
  assumes "handle_decision ops r decision now sc = Some sc'"
  shows "sch_admission sc' = sch_admission sc"
proof -
  obtain d sc1 where d: "next_delay (tr_attempt_generation r) sc = (d, sc1)" by fastforce
  then have "sch_admission sc1 = sch_admission sc"
    by (cases "delay_millis (sch_backoff sc) (tr_attempt_generation r)") (auto simp: next_delay_def)
  then show ?thesis using assms d
    by (cases decision)
      (auto simp: handle_decision_def on_store_mem observe_def split: option.splits sum.splits release_outcome.splits)
qed

lemma handle_decision_effect:
  assumes "handle_decision mem_ops r decision now sc = Some sc'" and "bt_ok (ms_records (sch_store sc))"
  shows "only_task (tr_task_id r) (sch_store sc) (sch_store sc') \<and>
         claim_events (sch_events sc') = claim_events (sch_events sc)"
proof (cases decision)
  case (RejectedProvable reason)
  obtain d sc1 where d: "next_delay (tr_attempt_generation r) sc = (d, sc1)" by fastforce
  note f = next_delay_fields [OF d]
  show ?thesis
    using assms RejectedProvable d f mem_release_only [of _ "sch_store sc"]
    by (fastforce simp: handle_decision_def mem_ops_def on_store_mem claim_events_def intro: only_task_same
        split: option.splits sum.splits release_outcome.splits)
next
  case (PermanentFailure reason)
  with assms mem_settle_only [of _ "sch_store sc"] show ?thesis
    by (fastforce simp: handle_decision_def mem_ops_def on_store_mem intro: only_task_same split: option.splits)
qed (use assms in \<open>auto simp: handle_decision_def intro: only_task_same split: option.splits\<close>)

lemma claims_paced_claim_events: "claims_paced now evs \<longleftrightarrow> claims_paced now (claim_events evs)"
  by (auto simp: claims_paced_def claim_events_def)

lemma claims_paced_snoc:
  "claims_paced now (evs @ [e]) \<longleftrightarrow> claims_paced now evs \<and>
     (case e of OnClaim r n \<Rightarrow> n = now \<longrightarrow> (case tr_retry_not_before r of None \<Rightarrow> True | Some nb \<Rightarrow> nb \<le> now)
      | _ \<Rightarrow> True)"
  by (auto simp: claims_paced_def split: observation.splits option.splits)

lemma scan_record_effect:
  assumes run: "scan_record mem_ops admit now r sc = Some sc'"
    and ok: "bt_ok (ms_records (sch_store sc))"
    and cur: "lookup_record (sch_store sc) (tr_task_id r) = Some r"
    and paced: "claims_paced now (sch_events sc)"
  shows "only_task (tr_task_id r) (sch_store sc) (sch_store sc') \<and> claims_paced now (sch_events sc')"
proof -
  define sc0 where "sc0 = observe (OnDueReady r now) sc"
  have s0: "sch_store sc0 = sch_store sc" "claims_paced now (sch_events sc0)"
    using paced by (simp_all add: sc0_def claims_paced_snoc)
  let ?claims = "tr_state r = Ready \<and> (case tr_retry_not_before r of None \<Rightarrow> True | Some nb \<Rightarrow> nb \<le> now) \<and>
     cfg_image_activatable (sch_config sc0) \<and>
     checked_add_millis now (cfg_lease_duration (sch_config sc0)) \<noteq> None"
  show ?thesis
  proof (cases ?claims)
    case False
    then have "sc' = sc \<or> sc' = sc0"
      using run by (auto simp: scan_record_def sc0_def [symmetric] Let_def split: option.splits if_splits)
    then show ?thesis using paced s0 only_task_same [OF ok] by auto
  next
    case True
    then obtain e where e: "checked_add_millis now (cfg_lease_duration (sch_config sc0)) = Some e" by auto
    define i where "i = \<lparr>ci_task_id = tr_task_id r, ci_owner = cfg_scheduler_id (sch_config sc0),
      ci_lease_expiry = e, ci_image_activatable = True\<rparr>"
    have guard: "(case tr_retry_not_before r of None \<Rightarrow> False | Some nb \<Rightarrow> nb > now) = False"
      using True by (auto split: option.splits)
    have run': "(case on_store (mem_claim i) sc0 of
               None \<Rightarrow> None
             | Some (Inl _, sc1) \<Rightarrow> Some sc1
             | Some (Inr (ClaimRejected reason), sc1) \<Rightarrow>
                 Some (observe (OnClaimDuplicate (tr_task_id r) reason) sc1)
             | Some (Inr (Claimed r'), sc1) \<Rightarrow>
                 (let sc2 = observe (OnClaim r' now) sc1;
                      (decision, w') = admit (sch_admission sc2) r'
                  in handle_decision mem_ops r' decision now (sc2\<lparr>sch_admission := w'\<rparr>))) = Some sc'"
      using run True e guard
      unfolding scan_record_def sc0_def [symmetric] i_def by (simp add: Let_def mem_ops_def)
    then obtain res s1 where c: "mem_claim i (sch_store sc) = Some (res, s1)"
      using s0(1) by (cases "mem_claim i (sch_store sc)") (auto simp: on_store_def)
    have only1: "only_task (tr_task_id r) (sch_store sc) s1"
      using mem_claim_only [OF c ok] by (simp add: i_def)
    have st: "on_store (mem_claim i) sc0 = Some (res, sc0\<lparr>sch_store := s1\<rparr>)"
      using c s0(1) by (simp add: on_store_def)
    show ?thesis
    proof (cases "\<exists>r'. res = Inr (Claimed r')")
      case True
      then obtain r' where res: "res = Inr (Claimed r')" by blast
      have r': "tr_task_id r' = tr_task_id r" "tr_retry_not_before r' = tr_retry_not_before r"
        using mem_claim_ClaimedD [OF c [unfolded res]] cur by (auto simp: i_def)
      define sc2 where "sc2 = observe (OnClaim r' now) (sc0\<lparr>sch_store := s1\<rparr>)"
      obtain dec w' where a: "admit (sch_admission sc2) r' = (dec, w')" by fastforce
      have h: "handle_decision mem_ops r' dec now (sc2\<lparr>sch_admission := w'\<rparr>) = Some sc'"
        using run' st res a by (simp add: sc2_def Let_def)
      have "bt_ok (ms_records (sch_store (sc2\<lparr>sch_admission := w'\<rparr>)))"
        using only1 by (simp add: sc2_def only_task_def)
      from handle_decision_effect [OF h this]
      have "only_task (tr_task_id r) s1 (sch_store sc')"
        "claim_events (sch_events sc') = claim_events (sch_events sc2)"
        using r' by (auto simp: sc2_def)
      moreover have "claims_paced now (sch_events sc2)"
        using s0(2) r' \<open>?claims\<close> by (simp add: sc2_def claims_paced_snoc)
      ultimately show ?thesis
        using only_task_trans [OF only1] claims_paced_claim_events by metis
    next
      case False
      then have "sch_store sc' = s1 \<and> claims_paced now (sch_events sc')"
        using run' st s0(2) by (cases res) (auto simp: claims_paced_snoc split: claim_outcome.splits)
      with only1 show ?thesis by simp
    qed
  qed
qed

lemma scan_loop_effect:
  "for_each (scan_record mem_ops admit now) rs sc = Some sc' \<Longrightarrow> bt_ok (ms_records (sch_store sc)) \<Longrightarrow>
   \<forall>r \<in> set rs. lookup_record (sch_store sc) (tr_task_id r) = Some r \<Longrightarrow> distinct (map tr_task_id rs) \<Longrightarrow>
   claims_paced now (sch_events sc) \<Longrightarrow> claims_paced now (sch_events sc')"
proof (induction rs arbitrary: sc)
  case (Cons r rs)
  then obtain sc1 where sc1: "scan_record mem_ops admit now r sc = Some sc1"
    "for_each (scan_record mem_ops admit now) rs sc1 = Some sc'" by (auto split: option.splits)
  have e: "only_task (tr_task_id r) (sch_store sc) (sch_store sc1)" "claims_paced now (sch_events sc1)"
    using scan_record_effect [OF sc1(1)] Cons.prems by auto
  have "\<forall>q \<in> set rs. lookup_record (sch_store sc1) (tr_task_id q) = Some q"
  proof
    fix q assume q: "q \<in> set rs"
    with Cons.prems(4) have "tr_task_id q \<noteq> tr_task_id r" by (metis distinct.simps(2) image_eqI list.map(2) list.set_map)
    with e(1) q Cons.prems(3) show "lookup_record (sch_store sc1) (tr_task_id q) = Some q"
      unfolding only_task_def by (metis list.set_intros(2))
  qed
  with Cons.IH [OF sc1(2)] e Cons.prems(4) show ?case by (simp add: only_task_def)
qed simp

lemma mem_scan_due_batch:
  assumes "mem_scan_due n s = Some (Inr rs, s')" and "mem_inv s"
  shows "mem_inv s' \<and> (\<forall>r \<in> set rs. lookup_record s' (tr_task_id r) = Some r) \<and> distinct (map tr_task_id rs)"
proof -
  obtain g t where g: "gate s = (g, t)" by fastforce
  then have inv: "mem_inv t" using mem_inv_body [OF assms(2), of OpGate] by simp
  have b: "mem_scan_due_body n t = Some (Inr rs, s')"
    using assms(1) g by (auto simp: mem_scan_due_def gated_def split: sum.splits)
  have inv': "mem_inv s'" using mem_inv_body [OF inv, of "OpScanDue n"] b by simp
  define now where "now = ms_clock t (ms_reads t)"
  define due where "due = filter (\<lambda>r. tr_state r = Ready \<and> tr_due_at r \<le> now) (bt_values (ms_records s'))"
  have rs: "rs = sorted_batch tr_due_at n due"
    using b by (auto simp: mem_scan_due_body_def read_clock_def Let_def due_def now_def)
  have ok: "bt_ok (ms_records s')" and ids: "\<And>k r. lookup_record s' k = Some r \<Longrightarrow> tr_task_id r = k"
    using inv' by (auto simp: mem_inv_def)
  have "map tr_task_id (bt_values (ms_records s')) = bt_keys (ms_records s')"
    using bt.values_eq [OF ok] bt.set_keys [OF ok] ids by (auto simp: intro!: map_idI)
  then have "distinct (map tr_task_id due)"
    using bt.distinct_keys [OF ok] by (simp add: due_def distinct_map_filter)
  then have "distinct (map tr_task_id rs)" unfolding rs by (rule sorted_batch_distinct)
  moreover have "lookup_record s' (tr_task_id r) = Some r" if "r \<in> set rs" for r
  proof -
    have "r \<in> set (bt_values (ms_records s'))"
      using that sorted_batch_subset [of tr_due_at n due] by (auto simp: rs due_def)
    then show ?thesis using bt.in_values_iff [OF ok] ids by auto
  qed
  ultimately show ?thesis using inv' by blast
qed

section \<open>Properties\<close>

text \<open>A store that answers: it is open and no injected failure is due. The record of a claim taken in it.\<close>

definition answering :: "('p, 'j) memory_state \<Rightarrow> bool" where
  "answering s \<longleftrightarrow> \<not> ms_closed s \<and> ms_transient_failures s = 0"

definition claimed_record ::
  "('p, 'j) memory_state \<Rightarrow> string \<Rightarrow> timestamp \<Rightarrow> ('p, 'j) task_record \<Rightarrow> ('p, 'j) task_record" where
  "claimed_record s owner expiry r =
     r\<lparr>tr_state := Leased, tr_attempt_generation := inc_u64 (tr_attempt_generation r),
       tr_active_lease := Some \<lparr>tl_lease_id = ''lease-'' @ show_nat (ms_next_lease s),
         tl_attempt_id = ''attempt-'' @ show_nat (ms_next_attempt s), tl_owner = owner, tl_expiry = expiry\<rparr>,
       tr_terminal := None\<rparr>"

definition claimed_state ::
  "('p, 'j) memory_state \<Rightarrow> string \<Rightarrow> timestamp \<Rightarrow> ('p, 'j) task_record \<Rightarrow> ('p, 'j) memory_state" where
  "claimed_state s owner expiry r =
     put_record (tr_task_id r) (claimed_record s owner expiry r)
       (s\<lparr>ms_reads := Suc (ms_reads s), ms_next_attempt := inc_u64 (ms_next_attempt s), ms_next_lease := inc_u64 (ms_next_lease s)\<rparr>)"

lemma gated_answering: "answering s \<Longrightarrow> gated body s = body s"
  by (simp add: answering_def gated_def gate_def)

lemma answering_claimed [simp]: "answering (claimed_state s owner e r) = answering s"
  by (simp add: answering_def claimed_state_def)

lemma claimed_fields [simp]:
  "tr_task_id (claimed_record s owner e r) = tr_task_id r" "tr_state (claimed_record s owner e r) = Leased"
  "tr_terminal (claimed_record s owner e r) = None" "tr_retry_not_before (claimed_record s owner e r) = tr_retry_not_before r"
  "tl_expiry (the (tr_active_lease (claimed_record s owner e r))) = e" "tr_active_lease (claimed_record s owner e r) \<noteq> None"
  by (simp_all add: claimed_record_def)

lemma mem_claim_answers:
  assumes "answering s" "lookup_record s (tr_task_id r) = Some r" "tr_state r = Ready" "tr_due_at r \<le> ms_clock s (ms_reads s)"
    "ms_clock s (ms_reads s) < ci_lease_expiry i" "ci_image_activatable i" "ci_task_id i = tr_task_id r"
  shows "mem_claim i s = Some (Inr (Claimed (claimed_record s (ci_owner i) (ci_lease_expiry i) r)), claimed_state s (ci_owner i) (ci_lease_expiry i) r)"
proof -
  have "claim r i (ms_clock s (ms_reads s)) (''attempt-'' @ show_nat (ms_next_attempt s)) (''lease-'' @ show_nat (ms_next_lease s)) =
      Inr (claimed_record s (ci_owner i) (ci_lease_expiry i) r)"
    using assms by (simp add: claim_Inr_iff claimed_record_def)
  then show ?thesis
    using assms by (simp add: mem_claim_def gated_answering mem_claim_body_def read_clock_def Let_def claimed_state_def)
qed

text \<open>A fenced call with the lease of a record, in a store that answers, before the lease expires.\<close>

lemma mem_release_answers:
  assumes "answering s" "lookup_record s t = Some q" "tr_state q = Leased" "tr_active_lease q = Some l"
    "ms_clock s (ms_reads s) < tl_expiry l"
  shows "\<exists>s'. mem_release \<lparr>rli_task_id = t, rli_lease_id = tl_lease_id l, rli_retry_not_before = n\<rparr> s =
      Some (Inr (Released (q\<lparr>tr_state := Ready, tr_active_lease := None,
        tr_retry_not_before := merge_retry_not_before (tr_retry_not_before q) n\<rparr>)), s') \<and>
    ms_records s' = bt_insert t (q\<lparr>tr_state := Ready, tr_active_lease := None,
        tr_retry_not_before := merge_retry_not_before (tr_retry_not_before q) n\<rparr>) (ms_records s)"
  using assms by (simp add: mem_release_def gated_answering mem_release_body_def read_clock_def release_def)

lemma mem_settle_answers:
  assumes "answering s" "lookup_record s t = Some q" "tr_state q = Leased" "tr_active_lease q = Some l" "tr_terminal q = None"
    "ms_clock s (ms_reads s) < tl_expiry l"
  shows "\<exists>res s'. mem_settle \<lparr>si_task_id = t, si_lease_id = tl_lease_id l, si_terminal = out\<rparr> s = Some (Inr res, s') \<and>
    ms_records s' = bt_insert t (q\<lparr>tr_state := task_terminal_state out, tr_active_lease := None, tr_terminal := Some out\<rparr>) (ms_records s)"
  using assms by (simp add: mem_settle_def gated_answering mem_settle_body_def read_clock_def settle_def)

text \<open>What becomes of the claimed task and of the scheduler's own table, for each decision of the admission seam.\<close>

definition decision_carried_out ::
  "timestamp \<Rightarrow> i64 \<Rightarrow> ('p, 'j) task_record \<Rightarrow> (task_id, task_lease) btree \<Rightarrow> admission_decision \<Rightarrow>
   ('p, 'j) task_record option \<Rightarrow> (task_id, task_lease) btree \<Rightarrow> bool" where
  "decision_carried_out now delay claimed active decision stored active' \<longleftrightarrow>
     (let untracked = (\<forall>l. bt_get active' (tr_task_id claimed) = Some l \<longrightarrow>
            tl_lease_id l \<noteq> tl_lease_id (the (tr_active_lease claimed)))
      in case decision of
           Accepted \<Rightarrow> stored = Some claimed \<and> bt_get active' (tr_task_id claimed) = tr_active_lease claimed
         | Uncertain _ \<Rightarrow> stored = Some claimed \<and> active' = active
         | RejectedProvable _ \<Rightarrow>
             (case checked_add_millis now delay of
                None \<Rightarrow> stored = Some claimed \<and> active' = active
              | Some retry \<Rightarrow>
                  stored = Some (claimed\<lparr>tr_state := Ready, tr_active_lease := None,
                    tr_retry_not_before := merge_retry_not_before (tr_retry_not_before claimed) retry\<rparr>) \<and> untracked)
         | PermanentFailure reason \<Rightarrow>
             stored = Some (claimed\<lparr>tr_state := PlatformFailed, tr_active_lease := None,
               tr_terminal := Some \<lparr>tt_settled_at = now, tt_outcome = OutPlatformFailed reason\<rparr>\<rparr>) \<and> untracked)"

lemma remove_active_untracked:
  "bt_ok (sch_active sc) \<Longrightarrow> bt_get (sch_active (remove_active_lease_if t l sc)) t = Some lease \<Longrightarrow> tl_lease_id lease \<noteq> l"
  by (auto simp: remove_active_lease_if_def bt.get_del split: option.splits if_splits)

lemma decision_carried_out:
  assumes "answering (sch_store sc)" "bt_ok (ms_records (sch_store sc))" "bt_ok (sch_active sc)"
    "lookup_record (sch_store sc) (tr_task_id q) = Some q" "tr_state q = Leased" "tr_active_lease q = Some l" "tr_terminal q = None"
    "ms_clock (sch_store sc) (ms_reads (sch_store sc)) < tl_expiry l"
  shows "\<exists>sc'. handle_decision mem_ops q decision now sc = Some sc' \<and>
    decision_carried_out now (fst (delay_millis (sch_backoff sc) (tr_attempt_generation q))) q (sch_active sc) decision
      (lookup_record (sch_store sc') (tr_task_id q)) (sch_active sc')"
proof (cases decision)
  case Accepted
  then show ?thesis using assms by (simp add: handle_decision_def decision_carried_out_def Let_def bt.get_ins)
next
  case (Uncertain why)
  then show ?thesis using assms by (simp add: handle_decision_def decision_carried_out_def Let_def)
next
  case (PermanentFailure why)
  obtain res s' where settled: "mem_settle \<lparr>si_task_id = tr_task_id q, si_lease_id = tl_lease_id l,
        si_terminal = \<lparr>tt_settled_at = now, tt_outcome = OutPlatformFailed why\<rparr>\<rparr> (sch_store sc) = Some (Inr res, s')"
      "ms_records s' = bt_insert (tr_task_id q) (q\<lparr>tr_state := PlatformFailed, tr_active_lease := None,
        tr_terminal := Some \<lparr>tt_settled_at = now, tt_outcome = OutPlatformFailed why\<rparr>\<rparr>) (ms_records (sch_store sc))"
    using mem_settle_answers [OF assms(1,4-8), of "\<lparr>tt_settled_at = now, tt_outcome = OutPlatformFailed why\<rparr>"]
    by (auto simp: task_terminal_state_def)
  have "bt_ok (sch_active (sc\<lparr>sch_store := s'\<rparr>))" using assms(3) by simp
  from remove_active_untracked [OF this] settled show ?thesis
    using PermanentFailure assms(2,6)
    by (simp add: handle_decision_def mem_ops_def on_store_def decision_carried_out_def Let_def bt.get_ins)
next
  case (RejectedProvable why)
  obtain d sc1 where d: "next_delay (tr_attempt_generation q) sc = (d, sc1)" by fastforce
  have sc1: "sch_store sc1 = sch_store sc" "sch_active sc1 = sch_active sc" "d = fst (delay_millis (sch_backoff sc) (tr_attempt_generation q))"
    using d by (cases "delay_millis (sch_backoff sc) (tr_attempt_generation q)"; auto simp: next_delay_def)+
  show ?thesis
  proof (cases "checked_add_millis now d")
    case None
    then show ?thesis using RejectedProvable d sc1 assms(4,6) by (simp add: handle_decision_def decision_carried_out_def Let_def)
  next
    case (Some retry)
    obtain s' where released: "mem_release \<lparr>rli_task_id = tr_task_id q, rli_lease_id = tl_lease_id l, rli_retry_not_before = retry\<rparr> (sch_store sc) =
          Some (Inr (Released (q\<lparr>tr_state := Ready, tr_active_lease := None,
            tr_retry_not_before := merge_retry_not_before (tr_retry_not_before q) retry\<rparr>)), s')"
        "ms_records s' = bt_insert (tr_task_id q) (q\<lparr>tr_state := Ready, tr_active_lease := None,
            tr_retry_not_before := merge_retry_not_before (tr_retry_not_before q) retry\<rparr>) (ms_records (sch_store sc))"
      using mem_release_answers [OF assms(1,4-6,8)] by blast
    let ?sc2 = "observe (OnRelease (tr_task_id q) (tl_lease_id l) retry) (sc1\<lparr>sch_store := s'\<rparr>)"
    have "bt_ok (sch_active ?sc2)" using assms(3) sc1(2) by (simp add: observe_def)
    from remove_active_untracked [OF this] released show ?thesis
      using RejectedProvable d sc1 Some assms(2,6)
      by (simp add: handle_decision_def mem_ops_def on_store_def decision_carried_out_def Let_def bt.get_ins)
  qed
qed

text \<open>C12: The scheduler carries out what the admission seam decides. For a ready, due task whose retry floor has
  passed, on a memory store that answers and while the clock stays before the lease's expiry, the scan claims
  the task for this scheduler with the configured lease and asks the seam once. An accepted attempt stays leased and is
  tracked for renewal; an uncertain one stays leased and untracked; a provably rejected one goes back to ready
  without a lease, with a retry floor at least the backoff delay after the scan (or stays leased when that
  time is not representable); a permanent failure is terminal with the reason given, and in the last two cases
  the lease is no longer tracked. No other task changes.\<close>

theorem scan_carries_out_decision:
  assumes "answering (sch_store sc)" "bt_ok (ms_records (sch_store sc))" "bt_ok (sch_active sc)"
    "lookup_record (sch_store sc) (tr_task_id r) = Some r" "tr_state r = Ready"
    "case tr_retry_not_before r of None \<Rightarrow> True | Some floor \<Rightarrow> floor \<le> now"
    "cfg_image_activatable (sch_config sc)" "checked_add_millis now (cfg_lease_duration (sch_config sc)) = Some expiry"
    "tr_due_at r \<le> ms_clock (sch_store sc) (ms_reads (sch_store sc))"
    "ms_clock (sch_store sc) (ms_reads (sch_store sc)) < expiry" "ms_clock (sch_store sc) (Suc (ms_reads (sch_store sc))) < expiry"
    "claimed = claimed_record (sch_store sc) (cfg_scheduler_id (sch_config sc)) expiry r"
    "admit (sch_admission sc) claimed = (decision, w)"
  shows "\<exists>sc'. scan_record mem_ops admit now r sc = Some sc' \<and> sch_admission sc' = w \<and>
    (\<forall>k. k \<noteq> tr_task_id r \<longrightarrow> lookup_record (sch_store sc') k = lookup_record (sch_store sc) k) \<and>
    decision_carried_out now (fst (delay_millis (sch_backoff sc) (tr_attempt_generation claimed))) claimed (sch_active sc) decision
      (lookup_record (sch_store sc') (tr_task_id r)) (sch_active sc')"
proof -
  let ?s = "sch_store sc" and ?id = "cfg_scheduler_id (sch_config sc)"
  define sc0 where "sc0 = observe (OnDueReady r now) sc"
  define sc2 where "sc2 = (observe (OnClaim claimed now) (sc0\<lparr>sch_store := claimed_state ?s ?id expiry r\<rparr>))\<lparr>sch_admission := w\<rparr>"
  obtain l where l: "tr_active_lease claimed = Some l" "tl_expiry l = expiry"
    using assms(12) by (simp add: claimed_record_def)
  have st: "sch_store sc2 = claimed_state ?s ?id expiry r" "sch_active sc2 = sch_active sc" "sch_backoff sc2 = sch_backoff sc"
      "sch_admission sc2 = w"
    by (simp_all add: sc2_def sc0_def observe_def)
  have recs: "ms_records (sch_store sc2) = bt_insert (tr_task_id r) claimed (ms_records ?s)"
    by (simp add: st claimed_state_def assms(12))
  have claim: "mem_claim \<lparr>ci_task_id = tr_task_id r, ci_owner = ?id, ci_lease_expiry = expiry, ci_image_activatable = True\<rparr> ?s =
      Some (Inr (Claimed claimed), claimed_state ?s ?id expiry r)"
    using mem_claim_answers [OF assms(1,4,5,9), of "\<lparr>ci_task_id = tr_task_id r, ci_owner = ?id, ci_lease_expiry = expiry, ci_image_activatable = True\<rparr>"]
      assms(10,12) by simp
  have floor: "\<not> (case tr_retry_not_before r of None \<Rightarrow> False | Some nb \<Rightarrow> now < nb)" using assms(6) by (auto split: option.splits)
  have run: "scan_record mem_ops admit now r sc = handle_decision mem_ops claimed decision now sc2"
    using assms(5,7,8,13) claim floor
    by (simp add: scan_record_def mem_ops_def on_store_def sc2_def sc0_def observe_def Let_def)
  have "\<exists>sc'. handle_decision mem_ops claimed decision now sc2 = Some sc' \<and>
      decision_carried_out now (fst (delay_millis (sch_backoff sc2) (tr_attempt_generation claimed))) claimed (sch_active sc2) decision
        (lookup_record (sch_store sc') (tr_task_id claimed)) (sch_active sc')"
    by (rule decision_carried_out [OF _ _ _ _ _ l(1)])
      (use assms(1-4,11,12) l recs st in \<open>simp_all add: bt.ok_ins bt.get_ins claimed_state_def answering_def\<close>)
  then obtain sc' where sc': "handle_decision mem_ops claimed decision now sc2 = Some sc'"
      "decision_carried_out now (fst (delay_millis (sch_backoff sc) (tr_attempt_generation claimed))) claimed (sch_active sc) decision
        (lookup_record (sch_store sc') (tr_task_id r)) (sch_active sc')"
    using st assms(12) by auto
  have "only_task (tr_task_id r) (sch_store sc2) (sch_store sc')"
    using handle_decision_effect [OF sc'(1)] recs assms(2,12) by (simp add: bt.ok_ins)
  then have others: "\<forall>k. k \<noteq> tr_task_id r \<longrightarrow> lookup_record (sch_store sc') k = lookup_record ?s k"
    using recs assms(2) by (simp add: only_task_def bt.get_ins)
  show ?thesis using run sc' others handle_decision_admission [OF sc'(1)] st(4) by auto
qed

text \<open>A whole cycle returns and leaves terminal tasks alone, whatever other replicas do between its calls.\<close>

lemma cycle_under_interference:
  assumes "mem_inv (fst (sch_store sc))"
  shows "\<exists>more sc'. run_cycle contended_ops order admit sc = Some (more, sc') \<and>
     mem_step\<^sup>*\<^sup>* (fst (sch_store sc)) (fst (sch_store sc')) \<and> mem_inv (fst (sch_store sc')) \<and>
     (\<forall>k r. lookup_record (fst (sch_store sc)) k = Some r \<longrightarrow> is_terminal (tr_state r) \<longrightarrow>
        lookup_record (fst (sch_store sc')) k = Some r)"
proof -
  obtain more sc' where c: "run_cycle contended_ops order admit sc = Some (more, sc')"
    "contended_step\<^sup>*\<^sup>* (sch_store sc) (sch_store sc')"
    using contended.run_cycle_ok [OF assms] by blast
  have run: "mem_step\<^sup>*\<^sup>* (fst (sch_store sc)) (fst (sch_store sc'))"
    using contended_run_mem [OF c(2)] .
  then show ?thesis
    using c(1) memstore.run_inv [OF run assms] memstore.run_terminal [OF run assms] by blast
qed

text \<open>A scheduler that is alone on the store never claims a task before its retry floor: every
  task whose claim it reports in a due scan has a floor no later than the scan's clock.\<close>

theorem scan_respects_backoff:
  assumes "mem_inv (sch_store sc)" and "on_store mem_now sc = Some (Inr now, sc1)"
    and "claims_paced now (sch_events sc)" and "scan_once mem_ops admit sc = Some (again, sc')"
  shows "claims_paced now (sch_events sc')"
proof -
  have inv1: "mem_inv (sch_store sc1)" and ev1: "sch_events sc1 = sch_events sc"
    using quiet.moved_inv assms(1) quiet.on_store_ok [OF quiet.now_ok assms(1)] assms(2)
    by (auto simp: mem_ops_def on_store_mem)
  obtain b s2 where b: "mem_scan_due (cfg_batch_limit (sch_config sc1)) (sch_store sc1) = Some (b, s2)"
    using assms(2,4) by (cases "mem_scan_due (cfg_batch_limit (sch_config sc1)) (sch_store sc1)")
      (auto simp: scan_once_def mem_ops_def on_store_def split: option.splits)
  then have st: "on_store (mem_scan_due (cfg_batch_limit (sch_config sc1))) sc1 = Some (b, sc1\<lparr>sch_store := s2\<rparr>)"
    by (simp add: on_store_def)
  show ?thesis
  proof (cases b)
    case (Inl e)
    with assms(2,3,4) st ev1 show ?thesis by (auto simp: scan_once_def mem_ops_def)
  next
    case (Inr rs)
    then have "for_each (scan_record mem_ops admit now) rs (sc1\<lparr>sch_store := s2\<rparr>) = Some sc'"
      using assms(2,4) st by (auto simp: scan_once_def mem_ops_def)
    from scan_loop_effect [OF this] mem_scan_due_batch [OF b [unfolded Inr] inv1] assms(3) ev1
    show ?thesis by (simp add: mem_inv_def)
  qed
qed

section \<open>Concrete replicas\<close>

definition demo_sched :: "'s \<Rightarrow> ('s, unit, unit, unit) scheduler" where
  "demo_sched s = \<lparr>sch_store = s, sch_admission = (), sch_config = default_config,
     sch_backoff = \<lparr>bp_base = 100, bp_max = 30000, bp_jitter_span = 100, bp_jitter = FixedJitter 7\<rparr>,
     sch_active = [], sch_events = [], sch_wake = 0\<rparr>"

definition demo_admit :: "unit \<Rightarrow> (unit, unit) task_record \<Rightarrow> admission_decision \<times> unit" where
  "demo_admit w r = (Accepted, w)"

definition demo_deny :: "unit \<Rightarrow> (unit, unit) task_record \<Rightarrow> admission_decision \<times> unit" where
  "demo_deny w r = (PermanentFailure ''image gone'', w)"

theorem scan_carries_out_decision_witness:
  "\<exists>sc'. scan_record mem_ops demo_deny 10 (demo_task\<lparr>tr_state := Ready\<rparr>) (demo_sched demo_ready) = Some sc' \<and>
     map_option tr_state (lookup_record (sch_store sc') ''t'') = Some PlatformFailed"
proof -
  let ?sc = "demo_sched demo_ready" and ?r = "demo_task\<lparr>tr_state := Ready\<rparr>"
  have store: "answering (sch_store ?sc)" "bt_ok (ms_records (sch_store ?sc))" "bt_ok (sch_active ?sc)"
    "lookup_record (sch_store ?sc) (tr_task_id ?r) = Some ?r" "tr_state ?r = Ready"
    "case tr_retry_not_before ?r of None \<Rightarrow> True | Some floor \<Rightarrow> floor \<le> 10" "cfg_image_activatable (sch_config ?sc)"
    "checked_add_millis 10 (cfg_lease_duration (sch_config ?sc)) = Some 60010"
    "tr_due_at ?r \<le> ms_clock (sch_store ?sc) (ms_reads (sch_store ?sc))"
    "ms_clock (sch_store ?sc) (ms_reads (sch_store ?sc)) < 60010" "ms_clock (sch_store ?sc) (Suc (ms_reads (sch_store ?sc))) < 60010"
    by (simp_all add: demo_sched_def default_config_def answering_def demo_defs store_eval Let_def demo_task_def bt_get_def bt_ok_def
        checked_add_millis_def checked_add_i64_def in_i64_def i64_max_def i64_min_def)
  show ?thesis
    using scan_carries_out_decision [OF store refl, of demo_deny "PermanentFailure ''image gone''" "()"]
    by (auto simp: demo_deny_def decision_carried_out_def demo_task_def)
qed
theorem scan_respects_backoff_witness:
  "\<exists>again sc'. scan_once mem_ops demo_admit (demo_sched demo_released) = Some (again, sc') \<and>
     claims_paced 10 (sch_events sc')"
proof -
  have inv: "mem_inv (sch_store (demo_sched demo_released))"
    using mem_inv_fresh_run [of "\<lambda>_. 10" demo_released] demo_fresh_run
    by (simp add: demo_sched_def demo_init_def mem_inv_freshD(1))
  obtain again sc' where s: "scan_once mem_ops demo_admit (demo_sched demo_released) = Some (again, sc')"
    using quiet.scan_once_ok [OF inv] by blast
  have "\<exists>sc1. on_store mem_now (demo_sched demo_released) = Some (Inr 10, sc1)"
    by (simp add: on_store_def mem_now_def gated_def demo_sched_def demo_defs store_eval Let_def inc_u64_def)
  then show ?thesis
    using scan_respects_backoff [OF inv _ _ s, of 10] s by (auto simp: demo_sched_def claims_paced_def)
qed

text \<open>With a second replica the retry floor does not hold: a replica that claims and releases a
  task between this one's scan and its claim leaves the floor at 40, and the claim still
  succeeds at time 10, because the claim itself never looks at the floor.\<close>

theorem backoff_race:
  "\<exists>sc' r. scan_once contended_ops demo_admit
       (demo_sched (demo_ready, [[], [], [OpClaim demo_claim, OpRelease demo_release]])) = Some (False, sc') \<and>
     OnClaim r 10 \<in> set (sch_events sc') \<and> tr_retry_not_before r = Some 40"
  by (simp add: scan_once_def scan_record_def on_store_def contended_ops_def contend_def gated_def
      mem_ops_def mem_now_def mem_scan_due_def mem_claim_def demo_sched_def demo_admit_def default_config_def
      demo_defs store_eval Let_def inc_u64_def observe_def checked_add_millis_def checked_add_i64_def
      in_i64_def i64_max_def i64_min_def handle_decision_def)

lemma scan_loop_skips:
  "\<forall>r \<in> set rs. \<exists>nb. tr_retry_not_before r = Some nb \<and> now < nb \<Longrightarrow>
   \<exists>evs. for_each (scan_record ops admit now) rs sc = Some (sc\<lparr>sch_events := sch_events sc @ evs\<rparr>) \<and>
     claim_events evs = []"
proof (induction rs arbitrary: sc)
  case Nil
  then show ?case by (intro exI [of _ "[]"]) (simp add: claim_events_def)
next
  case (Cons r rs)
  then have "\<exists>nb. tr_retry_not_before r = Some nb \<and> now < nb" by simp
  then have one: "scan_record ops admit now r sc =
      Some (if tr_state r \<noteq> Ready then sc else observe (OnDueReady r now) sc)"
    by (auto simp: scan_record_def Let_def)
  define sc1 where "sc1 = (if tr_state r \<noteq> Ready then sc else observe (OnDueReady r now) sc)"
  from Cons have "\<forall>r \<in> set rs. \<exists>nb. tr_retry_not_before r = Some nb \<and> now < nb" by simp
  from Cons.IH [OF this, of sc1] obtain evs where evs: "for_each (scan_record ops admit now) rs sc1 =
      Some (sc1\<lparr>sch_events := sch_events sc1 @ evs\<rparr>)" "claim_events evs = []" by blast
  let ?evs = "(if tr_state r \<noteq> Ready then [] else [OnDueReady r now]) @ evs"
  have "for_each (scan_record ops admit now) (r # rs) sc = Some (sc\<lparr>sch_events := sch_events sc @ ?evs\<rparr>)"
    using one evs(1) by (simp add: sc1_def observe_def split: if_splits)
  moreover have "claim_events ?evs = []" using evs(2) by (simp add: claim_events_def)
  ultimately show ?case by blast
qed

text \<open>A batch whose tasks are all still in backoff starves everything behind it: the scan claims
  nothing, leaves the store as the scan found it and reports that more work may exist, so the
  main loop repeats the same scan at the minimum cadence while later due tasks are never
  reached.\<close>

theorem backed_off_batch_starves:
  assumes "on_store (so_now ops) sc = Some (Inr now, sc1)"
    and "on_store (so_scan_due ops (cfg_batch_limit (sch_config sc1))) sc1 = Some (Inr rs, sc2)"
    and "cfg_batch_limit (sch_config sc2) \<le> length rs"
    and "\<forall>r \<in> set rs. \<exists>nb. tr_retry_not_before r = Some nb \<and> now < nb"
  shows "\<exists>sc'. scan_once ops admit sc = Some (True, sc') \<and> sch_store sc' = sch_store sc2 \<and>
     sch_active sc' = sch_active sc2 \<and> claim_events (sch_events sc') = claim_events (sch_events sc2)"
proof -
  obtain evs where "for_each (scan_record ops admit now) rs sc2 = Some (sc2\<lparr>sch_events := sch_events sc2 @ evs\<rparr>)"
    "claim_events evs = []" using scan_loop_skips [OF assms(4)] by blast
  then show ?thesis using assms(1-3) by (simp add: scan_once_def claim_events_def)
qed

definition demo_backlog :: "(unit, unit) memory_state" where
  "demo_backlog = (mem_with_clock (\<lambda>_. 10))\<lparr>ms_records :=
     [(''t'', demo_task\<lparr>tr_state := Ready, tr_retry_not_before := Some 40\<rparr>),
      (''u'', demo_task\<lparr>tr_task_id := ''u'', tr_due_at := 6\<rparr>)]\<rparr>"

theorem backed_off_batch_starves_witness:
  "\<exists>sc'. scan_once mem_ops demo_admit ((demo_sched demo_backlog)\<lparr>sch_config := default_config\<lparr>cfg_batch_limit := 1\<rparr>\<rparr>)
       = Some (True, sc') \<and>
     map_option tr_state (lookup_record (sch_store sc') ''u'') = Some Ready"
proof -
  let ?sc = "(demo_sched demo_backlog)\<lparr>sch_config := default_config\<lparr>cfg_batch_limit := 1\<rparr>\<rparr>"
  have "\<exists>sc1 sc2. on_store (so_now mem_ops) ?sc = Some (Inr 10, sc1) \<and> cfg_batch_limit (sch_config sc1) = 1 \<and>
      on_store (so_scan_due mem_ops 1) sc1 = Some (Inr [demo_task\<lparr>tr_state := Ready, tr_retry_not_before := Some 40\<rparr>], sc2) \<and>
      cfg_batch_limit (sch_config sc2) = 1 \<and>
      map_option tr_state (lookup_record (sch_store sc2) ''u'') = Some Ready"
    by (simp add: on_store_def mem_ops_def mem_now_def mem_scan_due_def gated_def demo_sched_def demo_backlog_def
        default_config_def store_eval Let_def demo_task_def)
  then show ?thesis
    using backed_off_batch_starves [of mem_ops ?sc 10 _ "[demo_task\<lparr>tr_state := Ready, tr_retry_not_before := Some 40\<rparr>]"]
    by fastforce
qed

text \<open>The configuration check compares the lease with twice the scan interval in 64-bit
  arithmetic: it is exact while twice the interval fits, and for longer intervals the product
  wraps to a negative number, so leases far shorter than the interval are accepted.\<close>

theorem validate_config_iff:
  "validate_config cfg = Inr () \<longleftrightarrow>
     cfg_scheduler_id cfg \<noteq> [] \<and> 0 < cfg_scan_interval cfg \<and> 0 < cfg_min_cycle_interval cfg \<and>
     0 < cfg_batch_limit cfg \<and>
     (if 2 * scan_interval_ms cfg \<le> i64_max then 2 * scan_interval_ms cfg \<le> cfg_lease_duration cfg
      else 2 * scan_interval_ms cfg - 18446744073709551616 \<le> cfg_lease_duration cfg)"
proof -
  have b: "0 \<le> scan_interval_ms cfg" "scan_interval_ms cfg \<le> i64_max"
    using millis_to_i64_bounds by (auto simp: scan_interval_ms_def)
  have "wrap_i64 (2 * scan_interval_ms cfg) =
      (if 2 * scan_interval_ms cfg \<le> i64_max then 2 * scan_interval_ms cfg
       else 2 * scan_interval_ms cfg - 18446744073709551616)"
  proof (cases "2 * scan_interval_ms cfg \<le> i64_max")
    case True
    then show ?thesis using b by (simp add: wrap_i64_id in_i64_def i64_min_def)
  next
    case False
    then have "(2 * scan_interval_ms cfg + 9223372036854775808) mod 18446744073709551616
        = 2 * scan_interval_ms cfg + 9223372036854775808 - 18446744073709551616"
      using b minus_mod_self2 [of "2 * scan_interval_ms cfg + 9223372036854775808" 18446744073709551616]
      by (simp add: i64_max_def)
    with False show ?thesis by (simp add: wrap_i64_def)
  qed
  then show ?thesis by (auto simp: validate_config_def)
qed

end
