(* ===== verification/Actor_Types.thy ===== *)
theory Actor_Types
  imports Skiff_Prelude "HOL-Library.Product_Lexorder"
begin

text \<open>
  Typed identities, fences and constants of the router's actor lane
  (\<open>router/src/actor/types.rs\<close>) with the wire shapes they are built from
  (\<open>runtime/transport/src/actor_method.rs\<close>, \<open>protocol/actor.rs\<close>). Actor keys are
  ordered as the derived \<open>Ord\<close> of the source orders them, field by field, because the
  registries iterate over \<open>BTreeMap\<close>s of them.
\<close>

section \<open>Defaults\<close>

definition DEFAULT_ACTIVATION_DEADLINE_MS :: u64 where
  "DEFAULT_ACTIVATION_DEADLINE_MS = 30000"

definition DEFAULT_OWNER_LEASE_TTL_MS :: u64 where
  "DEFAULT_OWNER_LEASE_TTL_MS = 30000"

definition DEFAULT_IDLE_TTL_MS :: u64 where
  "DEFAULT_IDLE_TTL_MS = 30000"

definition DEFAULT_ACTOR_PENDING_BUDGET :: usize where
  "DEFAULT_ACTOR_PENDING_BUDGET = 4096"

definition DEFAULT_ACTOR_TOMBSTONE_BUDGET :: usize where
  "DEFAULT_ACTOR_TOMBSTONE_BUDGET = 1024"

definition DEFAULT_EVICTION_RETRY_BOUND :: usize where
  "DEFAULT_EVICTION_RETRY_BOUND = 3"

section \<open>Logical keys and references\<close>

datatype actor_logical_key = ActorLogicalKey
  (ak_service_id: string)
  (ak_actor_type_identity: string)
  (ak_actor_id_type_identity: string)
  (ak_actor_id_encoding_version: string)
  (ak_canonical_actor_id_key_bytes_base64: string)
  (ak_actor_id_hash: string)

fun key_fields :: "actor_logical_key \<Rightarrow> string \<times> string \<times> string \<times> string \<times> string \<times> string" where
  "key_fields (ActorLogicalKey a b c d e f) = (a, b, c, d, e, f)"

lemma key_fields_inject [simp]: "key_fields x = key_fields y \<longleftrightarrow> x = y"
  by (cases x; cases y) auto

instantiation actor_logical_key :: linorder
begin

definition less_eq_actor_logical_key :: "actor_logical_key \<Rightarrow> actor_logical_key \<Rightarrow> bool" where
  "less_eq_actor_logical_key x y \<longleftrightarrow> key_fields x \<le> key_fields y"

definition less_actor_logical_key :: "actor_logical_key \<Rightarrow> actor_logical_key \<Rightarrow> bool" where
  "less_actor_logical_key x y \<longleftrightarrow> key_fields x < key_fields y"

instance
proof (standard, goal_cases)
  case (1 x y)
  show ?case unfolding less_eq_actor_logical_key_def less_actor_logical_key_def by (rule less_le_not_le)
next
  case (5 x y)
  show ?case unfolding less_eq_actor_logical_key_def by (rule linear)
qed (auto simp: less_eq_actor_logical_key_def)

end

record actor_ref =
  ref_service_id :: string
  ref_actor_type_identity :: string
  ref_actor_id_type_identity :: string
  ref_actor_id_encoding_version :: string
  ref_canonical_actor_id_key_bytes_base64 :: string
  ref_actor_id_hash :: string
  ref_epoch :: u64

record actor_key_frame_metadata =
  kf_service_id :: string
  kf_actor_type_identity :: string
  kf_actor_id_type_identity :: string
  kf_actor_id_encoding_version :: string
  kf_canonical_actor_id_key_bytes_base64 :: string
  kf_actor_id_hash :: "string option"

definition key_from_wire :: "actor_key_frame_metadata \<Rightarrow> actor_logical_key" where
  "key_from_wire k = ActorLogicalKey (kf_service_id k) (kf_actor_type_identity k)
     (kf_actor_id_type_identity k) (kf_actor_id_encoding_version k)
     (kf_canonical_actor_id_key_bytes_base64 k)
     (case kf_actor_id_hash k of Some h \<Rightarrow> h | None \<Rightarrow> [])"

definition key_from_actor_ref :: "actor_ref \<Rightarrow> actor_logical_key" where
  "key_from_actor_ref r = ActorLogicalKey (ref_service_id r) (ref_actor_type_identity r)
     (ref_actor_id_type_identity r) (ref_actor_id_encoding_version r)
     (ref_canonical_actor_id_key_bytes_base64 r) (ref_actor_id_hash r)"

definition to_actor_ref :: "actor_logical_key \<Rightarrow> u64 \<Rightarrow> actor_ref" where
  "to_actor_ref k e = \<lparr>ref_service_id = ak_service_id k,
     ref_actor_type_identity = ak_actor_type_identity k,
     ref_actor_id_type_identity = ak_actor_id_type_identity k,
     ref_actor_id_encoding_version = ak_actor_id_encoding_version k,
     ref_canonical_actor_id_key_bytes_base64 = ak_canonical_actor_id_key_bytes_base64 k,
     ref_actor_id_hash = ak_actor_id_hash k, ref_epoch = e\<rparr>"

lemma key_from_to_actor_ref: "key_from_actor_ref (to_actor_ref k e) = k"
  by (cases k) (simp add: key_from_actor_ref_def to_actor_ref_def)

section \<open>Claims and fences\<close>

datatype actor_owner_unit = OwnerService | OwnerPackage u64

datatype actor_owner_file = OwnerLoadedFileIndex u64 | OwnerFileIrIdentity string

record actor_declaration_owner_header =
  dh_unit :: actor_owner_unit
  dh_file :: actor_owner_file
  dh_actor_symbol :: string

type_synonym actor_claim_id = string

definition claim_id_mint :: "u64 \<Rightarrow> actor_claim_id" where
  "claim_id_mint seq = ''actor-claim-'' @ show_nat seq"

text \<open>\<open>LeaseIdMint::mint\<close>: the counter is bumped (with wrap-around) and printed plus one.\<close>

definition lease_id_mint :: "u64 \<Rightarrow> string \<times> u64" where
  "lease_id_mint nxt = (''owner-lease-'' @ show_nat (inc_u64 nxt), inc_u64 nxt)"

record actor_claim_token =
  ct_claim_id :: actor_claim_id
  ct_actor_key :: actor_logical_key
  ct_expected_epoch :: u64
  ct_owner_runtime_id :: string
  ct_build_id :: string

record commit_fence_facts =
  cf_actor_abi_identity :: string
  cf_actor_implementation_identity :: string
  cf_declaration_owner :: actor_declaration_owner_header
  cf_owner_lease_id :: string

record actor_owner_fence =
  of_epoch :: u64
  of_owner_runtime_id :: string
  of_owner_lease_id :: string
  of_build_id :: string
  of_lease_expires_at :: u64
  of_actor_abi_identity :: string
  of_actor_implementation_identity :: string
  of_declaration_owner :: actor_declaration_owner_header

datatype owner_release_reason = Disconnected | Evicted | Upgraded | Shutdown

fun release_reason_as_str :: "owner_release_reason \<Rightarrow> string" where
  "release_reason_as_str Disconnected = ''disconnected''"
| "release_reason_as_str Evicted = ''evicted''"
| "release_reason_as_str Upgraded = ''upgraded''"
| "release_reason_as_str Shutdown = ''shutdown''"

datatype actor_lineage = Ordinary | TestLineage string

fun lineage_from_test_case :: "string option \<Rightarrow> actor_lineage" where
  "lineage_from_test_case (Some capability) = TestLineage capability"
| "lineage_from_test_case None = Ordinary"

lemma claim_id_mint_inject [simp]: "claim_id_mint m = claim_id_mint n \<longleftrightarrow> m = n"
  by (simp add: claim_id_mint_def)

lemma lineage_from_test_case_inj: "lineage_from_test_case a = lineage_from_test_case b \<longleftrightarrow> a = b"
  by (cases a; cases b) auto

end
