(* ===== verification/Actor_Ownership.thy ===== *)
theory Actor_Ownership
  imports Actor_Types
begin

text \<open>
  \<open>ActorOwnershipRegistry\<close> of \<open>router/src/actor/ownership.rs\<close>: the single owner of actor
  ownership truth, with the reserve/commit/abort channel, lease renewal, release, expiry,
  eviction and incarnation changes. Every operation holds the registry's lock for its whole
  body, so it is one atomic step of \<open>own_step\<close>.
\<close>

section \<open>State\<close>

datatype ownership_error =
    NotPresent
  | EpochMismatch u64
  | ClaimConflict "actor_owner_fence option"
  | ReservationInFlight
  | NoReservation
  | FenceMismatch
  | LeaseExpired
  | EvictionMismatch
  | FenceFactsMismatch

record actor_entry =
  ae_epoch :: u64
  ae_actor_abi_identity :: string
  ae_actor_implementation_identity :: string
  ae_declaration_owner :: actor_declaration_owner_header
  ae_create_input :: "nat list"
  ae_owner :: "actor_owner_fence option"
  ae_eviction_request_id :: "string option"
  ae_reservation :: "actor_claim_token option"

record actor_registry_entry =
  re_actor_abi_identity :: string
  re_actor_implementation_identity :: string
  re_declaration_owner :: actor_declaration_owner_header
  re_create_input :: "nat list"

record ownership_counters =
  oc_commits :: u64
  oc_aborts :: u64
  oc_conflicts :: u64
  oc_renewals :: u64
  oc_releases :: u64
  oc_expired :: u64
  oc_epoch_mismatches :: u64
  oc_rejected_commits :: u64
  oc_rejected_aborts :: u64

record ownership =
  ow_entries :: "(actor_logical_key, actor_entry) btree"
  ow_next_claim_seq :: u64
  ow_counters :: ownership_counters

definition own_new :: ownership where
  "own_new = \<lparr>ow_entries = [], ow_next_claim_seq = 0,
     ow_counters = \<lparr>oc_commits = 0, oc_aborts = 0, oc_conflicts = 0, oc_renewals = 0, oc_releases = 0,
       oc_expired = 0, oc_epoch_mismatches = 0, oc_rejected_commits = 0, oc_rejected_aborts = 0\<rparr>\<rparr>"

abbreviation own_entry :: "ownership \<Rightarrow> actor_logical_key \<Rightarrow> actor_entry option" where
  "own_entry s k \<equiv> bt_get (ow_entries s) k"

abbreviation own_put :: "actor_logical_key \<Rightarrow> actor_entry \<Rightarrow> ownership \<Rightarrow> ownership" where
  "own_put k e s \<equiv> s\<lparr>ow_entries := bt_insert k e (ow_entries s)\<rparr>"

definition count_conflict :: "ownership \<Rightarrow> ownership" where
  "count_conflict s = s\<lparr>ow_counters := (ow_counters s)\<lparr>oc_conflicts := inc_u64 (oc_conflicts (ow_counters s))\<rparr>\<rparr>"

definition count_epoch_mismatch :: "ownership \<Rightarrow> ownership" where
  "count_epoch_mismatch s = s\<lparr>ow_counters := (ow_counters s)\<lparr>oc_epoch_mismatches := inc_u64 (oc_epoch_mismatches (ow_counters s))\<rparr>\<rparr>"

definition count_commit :: "ownership \<Rightarrow> ownership" where
  "count_commit s = s\<lparr>ow_counters := (ow_counters s)\<lparr>oc_commits := inc_u64 (oc_commits (ow_counters s))\<rparr>\<rparr>"

definition count_rejected_commit :: "ownership \<Rightarrow> ownership" where
  "count_rejected_commit s = s\<lparr>ow_counters := (ow_counters s)\<lparr>oc_rejected_commits := inc_u64 (oc_rejected_commits (ow_counters s))\<rparr>\<rparr>"

definition count_abort :: "ownership \<Rightarrow> ownership" where
  "count_abort s = s\<lparr>ow_counters := (ow_counters s)\<lparr>oc_aborts := inc_u64 (oc_aborts (ow_counters s))\<rparr>\<rparr>"

definition count_rejected_abort :: "ownership \<Rightarrow> ownership" where
  "count_rejected_abort s = s\<lparr>ow_counters := (ow_counters s)\<lparr>oc_rejected_aborts := inc_u64 (oc_rejected_aborts (ow_counters s))\<rparr>\<rparr>"

definition count_renewal :: "ownership \<Rightarrow> ownership" where
  "count_renewal s = s\<lparr>ow_counters := (ow_counters s)\<lparr>oc_renewals := inc_u64 (oc_renewals (ow_counters s))\<rparr>\<rparr>"

definition count_release :: "ownership \<Rightarrow> ownership" where
  "count_release s = s\<lparr>ow_counters := (ow_counters s)\<lparr>oc_releases := inc_u64 (oc_releases (ow_counters s))\<rparr>\<rparr>"

definition count_expired :: "ownership \<Rightarrow> ownership" where
  "count_expired s = s\<lparr>ow_counters := (ow_counters s)\<lparr>oc_expired := inc_u64 (oc_expired (ow_counters s))\<rparr>\<rparr>"

lemmas own_counts = count_conflict_def count_epoch_mismatch_def count_commit_def
  count_rejected_commit_def count_abort_def count_rejected_abort_def count_renewal_def
  count_release_def count_expired_def

section \<open>Operations\<close>

definition fence_identity_matches :: "actor_owner_fence \<Rightarrow> actor_owner_fence \<Rightarrow> bool" where
  "fence_identity_matches current candidate \<longleftrightarrow>
     of_epoch current = of_epoch candidate \<and>
     of_owner_runtime_id current = of_owner_runtime_id candidate \<and>
     of_owner_lease_id current = of_owner_lease_id candidate \<and>
     of_build_id current = of_build_id candidate \<and>
     of_actor_abi_identity current = of_actor_abi_identity candidate \<and>
     of_actor_implementation_identity current = of_actor_implementation_identity candidate \<and>
     of_declaration_owner current = of_declaration_owner candidate"

definition own_ensure_present ::
  "actor_logical_key \<Rightarrow> string \<Rightarrow> string \<Rightarrow> actor_declaration_owner_header \<Rightarrow> nat list \<Rightarrow>
   ownership \<Rightarrow> u64 \<times> ownership" where
  "own_ensure_present key abi impl decl input s =
     (case own_entry s key of
        Some e \<Rightarrow> (ae_epoch e, s)
      | None \<Rightarrow> (1, own_put key \<lparr>ae_epoch = 1, ae_actor_abi_identity = abi,
            ae_actor_implementation_identity = impl, ae_declaration_owner = decl,
            ae_create_input = input, ae_owner = None, ae_eviction_request_id = None,
            ae_reservation = None\<rparr> s))"

definition own_reserve ::
  "actor_logical_key \<Rightarrow> u64 \<Rightarrow> string \<Rightarrow> string \<Rightarrow> u64 \<Rightarrow> ownership \<Rightarrow>
   (ownership_error + actor_claim_token) \<times> ownership" where
  "own_reserve key expected_epoch runtime build now s =
     (case own_entry s key of
        None \<Rightarrow> (Inl NotPresent, s)
      | Some e \<Rightarrow>
          (if ae_reservation e \<noteq> None then (Inl ReservationInFlight, count_conflict s)
           else if ae_eviction_request_id e \<noteq> None then
             (Inl (ClaimConflict (ae_owner e)), count_conflict s)
           else case (case ae_owner e of Some f \<Rightarrow> if of_lease_expires_at f > now then Some f else None
                                        | None \<Rightarrow> None) of
             Some f \<Rightarrow> (Inl (ClaimConflict (Some f)), count_conflict s)
           | None \<Rightarrow>
               (if expected_epoch \<noteq> ae_epoch e then
                  (Inl (EpochMismatch (ae_epoch e)), count_epoch_mismatch s)
                else
                  let seq = ow_next_claim_seq s;
                      token = \<lparr>ct_claim_id = claim_id_mint seq, ct_actor_key = key,
                        ct_expected_epoch = expected_epoch, ct_owner_runtime_id = runtime,
                        ct_build_id = build\<rparr>
                  in (Inr token, own_put key (e\<lparr>ae_reservation := Some token\<rparr>)
                        (s\<lparr>ow_next_claim_seq := inc_u64 seq\<rparr>)))))"

definition commit_fence ::
  "actor_claim_token \<Rightarrow> commit_fence_facts \<Rightarrow> u64 \<Rightarrow> u64 \<Rightarrow> actor_owner_fence" where
  "commit_fence token facts now ttl = \<lparr>of_epoch = ct_expected_epoch token,
     of_owner_runtime_id = ct_owner_runtime_id token, of_owner_lease_id = cf_owner_lease_id facts,
     of_build_id = ct_build_id token, of_lease_expires_at = saturating_add_u64 now ttl,
     of_actor_abi_identity = cf_actor_abi_identity facts,
     of_actor_implementation_identity = cf_actor_implementation_identity facts,
     of_declaration_owner = cf_declaration_owner facts\<rparr>"

definition own_commit ::
  "actor_claim_token \<Rightarrow> commit_fence_facts \<Rightarrow> u64 \<Rightarrow> u64 \<Rightarrow> ownership \<Rightarrow>
   (ownership_error + actor_owner_fence) \<times> ownership" where
  "own_commit token facts now ttl s =
     (case own_entry s (ct_actor_key token) of
        None \<Rightarrow> (Inl NotPresent, s)
      | Some e \<Rightarrow>
          (case ae_reservation e of
             None \<Rightarrow> (Inl NoReservation, count_rejected_commit s)
           | Some reserved \<Rightarrow>
               (if reserved \<noteq> token then (Inl NoReservation, count_rejected_commit s)
                else if cf_actor_abi_identity facts \<noteq> ae_actor_abi_identity e \<or>
                     cf_actor_implementation_identity facts \<noteq> ae_actor_implementation_identity e \<or>
                     cf_declaration_owner facts \<noteq> ae_declaration_owner e then
                  (Inl FenceFactsMismatch, count_rejected_commit s)
                else let fence = commit_fence token facts now ttl in
                  (Inr fence, count_commit (own_put (ct_actor_key token)
                     (e\<lparr>ae_reservation := None, ae_owner := Some fence\<rparr>) s)))))"

definition own_abort :: "actor_claim_token \<Rightarrow> ownership \<Rightarrow> (ownership_error + unit) \<times> ownership" where
  "own_abort token s =
     (case own_entry s (ct_actor_key token) of
        None \<Rightarrow> (Inl NotPresent, s)
      | Some e \<Rightarrow>
          (if ae_reservation e = Some token then
             (Inr (), count_abort (own_put (ct_actor_key token) (e\<lparr>ae_reservation := None\<rparr>) s))
           else (Inl NoReservation, count_rejected_abort s)))"

definition own_renew ::
  "actor_logical_key \<Rightarrow> actor_owner_fence \<Rightarrow> u64 \<Rightarrow> u64 \<Rightarrow> ownership \<Rightarrow>
   (ownership_error + actor_owner_fence) \<times> ownership" where
  "own_renew key fence ttl now s =
     (case own_entry s key of
        None \<Rightarrow> (Inl NotPresent, s)
      | Some e \<Rightarrow>
          (case ae_owner e of
             None \<Rightarrow> (Inl FenceMismatch, s)
           | Some current \<Rightarrow>
               (if \<not> fence_identity_matches current fence then (Inl FenceMismatch, s)
                else if of_lease_expires_at current \<le> now then (Inl LeaseExpired, s)
                else let renewed = current\<lparr>of_lease_expires_at := saturating_add_u64 now ttl\<rparr> in
                  (Inr renewed, count_renewal (own_put key (e\<lparr>ae_owner := Some renewed\<rparr>) s)))))"

definition own_release ::
  "actor_logical_key \<Rightarrow> actor_owner_fence \<Rightarrow> owner_release_reason \<Rightarrow> ownership \<Rightarrow>
   (ownership_error + unit) \<times> ownership" where
  "own_release key fence reason s =
     (case own_entry s key of
        None \<Rightarrow> (Inl NotPresent, s)
      | Some e \<Rightarrow>
          (case ae_owner e of
             None \<Rightarrow> (Inl FenceMismatch, s)
           | Some current \<Rightarrow>
               (if \<not> fence_identity_matches current fence then (Inl FenceMismatch, s)
                else (Inr (), count_release (own_put key
                  (e\<lparr>ae_owner := None, ae_eviction_request_id := None\<rparr>) s)))))"

definition expire_key ::
  "u64 \<Rightarrow> actor_logical_key \<Rightarrow> (actor_logical_key \<times> actor_owner_fence) list \<times> ownership \<Rightarrow>
   (actor_logical_key \<times> actor_owner_fence) list \<times> ownership" where
  "expire_key now key acc =
     (let (expired, s) = acc in
      case own_entry s key of
        None \<Rightarrow> acc
      | Some e \<Rightarrow>
          (case ae_owner e of
             None \<Rightarrow> acc
           | Some fence \<Rightarrow>
               (if ae_eviction_request_id e \<noteq> None then acc
                else if of_lease_expires_at fence \<le> now then
                  (expired @ [(key, fence)],
                   count_expired (own_put key (e\<lparr>ae_owner := None, ae_eviction_request_id := None\<rparr>) s))
                else acc)))"

definition own_expire ::
  "u64 \<Rightarrow> ownership \<Rightarrow> (actor_logical_key \<times> actor_owner_fence) list \<times> ownership" where
  "own_expire now s = fold (expire_key now) (bt_keys (ow_entries s)) ([], s)"

definition own_current_owner :: "actor_logical_key \<Rightarrow> ownership \<Rightarrow> actor_owner_fence option" where
  "own_current_owner key s = (case own_entry s key of None \<Rightarrow> None | Some e \<Rightarrow> ae_owner e)"

definition own_owned_keys :: "ownership \<Rightarrow> actor_logical_key list" where
  "own_owned_keys s = map fst (filter (\<lambda>(k, e). ae_owner e \<noteq> None) (ow_entries s))"

definition own_entry_epoch :: "actor_logical_key \<Rightarrow> ownership \<Rightarrow> u64 option" where
  "own_entry_epoch key s = map_option ae_epoch (own_entry s key)"

definition own_entry_facts :: "actor_logical_key \<Rightarrow> ownership \<Rightarrow> actor_registry_entry option" where
  "own_entry_facts key s = map_option (\<lambda>e. \<lparr>re_actor_abi_identity = ae_actor_abi_identity e,
     re_actor_implementation_identity = ae_actor_implementation_identity e,
     re_declaration_owner = ae_declaration_owner e, re_create_input = ae_create_input e\<rparr>)
     (own_entry s key)"

definition own_request_eviction ::
  "actor_logical_key \<Rightarrow> string \<Rightarrow> ownership \<Rightarrow> (ownership_error + unit) \<times> ownership" where
  "own_request_eviction key rid s =
     (case own_entry s key of
        None \<Rightarrow> (Inl NotPresent, s)
      | Some e \<Rightarrow>
          (if ae_owner e = None then (Inl FenceMismatch, s)
           else (Inr (), own_put key (e\<lparr>ae_eviction_request_id := Some rid\<rparr>) s)))"

definition own_acknowledge_eviction ::
  "actor_logical_key \<Rightarrow> string \<Rightarrow> ownership \<Rightarrow> (ownership_error + unit) \<times> ownership" where
  "own_acknowledge_eviction key rid s =
     (case own_entry s key of
        None \<Rightarrow> (Inl NotPresent, s)
      | Some e \<Rightarrow>
          (if ae_owner e = None \<or> ae_eviction_request_id e \<noteq> Some rid then (Inl EvictionMismatch, s)
           else (Inr (), own_put key (e\<lparr>ae_owner := None, ae_eviction_request_id := None\<rparr>) s)))"

definition own_advance_incarnation ::
  "actor_logical_key \<Rightarrow> ownership \<Rightarrow> (ownership_error + u64) \<times> ownership" where
  "own_advance_incarnation key s =
     (case own_entry s key of
        None \<Rightarrow> (Inl NotPresent, s)
      | Some e \<Rightarrow> (Inr (inc_u64 (ae_epoch e)),
          own_put key (e\<lparr>ae_epoch := inc_u64 (ae_epoch e), ae_owner := None,
            ae_eviction_request_id := None, ae_reservation := None\<rparr>) s))"

record ownership_health =
  oh_current_fences :: usize
  oh_in_flight_reservations :: usize
  oh_counters :: ownership_counters

definition own_health :: "ownership \<Rightarrow> ownership_health" where
  "own_health s = \<lparr>
     oh_current_fences = length (filter (\<lambda>e. ae_owner e \<noteq> None) (bt_values (ow_entries s))),
     oh_in_flight_reservations = length (filter (\<lambda>e. ae_reservation e \<noteq> None) (bt_values (ow_entries s))),
     oh_counters = ow_counters s\<rparr>"

section \<open>Steps and invariant\<close>

datatype own_op =
    OwnEnsurePresent actor_logical_key string string actor_declaration_owner_header "nat list"
  | OwnReserve actor_logical_key u64 string string u64
  | OwnCommit actor_claim_token commit_fence_facts u64 u64
  | OwnAbort actor_claim_token
  | OwnRenew actor_logical_key actor_owner_fence u64 u64
  | OwnRelease actor_logical_key actor_owner_fence owner_release_reason
  | OwnExpire u64
  | OwnRequestEviction actor_logical_key string
  | OwnAcknowledgeEviction actor_logical_key string
  | OwnAdvanceIncarnation actor_logical_key

fun own_exec :: "own_op \<Rightarrow> ownership \<Rightarrow> ownership" where
  "own_exec (OwnEnsurePresent k a i d inp) s = snd (own_ensure_present k a i d inp s)"
| "own_exec (OwnReserve k ep rt b now) s = snd (own_reserve k ep rt b now s)"
| "own_exec (OwnCommit t f now ttl) s = snd (own_commit t f now ttl s)"
| "own_exec (OwnAbort t) s = snd (own_abort t s)"
| "own_exec (OwnRenew k f ttl now) s = snd (own_renew k f ttl now s)"
| "own_exec (OwnRelease k f r) s = snd (own_release k f r s)"
| "own_exec (OwnExpire now) s = snd (own_expire now s)"
| "own_exec (OwnRequestEviction k x) s = snd (own_request_eviction k x s)"
| "own_exec (OwnAcknowledgeEviction k x) s = snd (own_acknowledge_eviction k x s)"
| "own_exec (OwnAdvanceIncarnation k) s = snd (own_advance_incarnation k s)"

text \<open>Steps up to the point where the claim counter or an incarnation epoch would wrap around.\<close>

definition own_headroom :: "ownership \<Rightarrow> bool" where
  "own_headroom s \<longleftrightarrow> ow_next_claim_seq s < u64_max \<and>
     (\<forall>(k, e) \<in> set (ow_entries s). ae_epoch e < u64_max)"

inductive own_step :: "ownership \<Rightarrow> ownership \<Rightarrow> bool" where
  "own_headroom s \<Longrightarrow> own_step s (own_exec op s)"

inductive_cases own_stepE: "own_step s s'"

definition entry_ok :: "actor_logical_key \<Rightarrow> actor_entry \<Rightarrow> bool" where
  "entry_ok k e \<longleftrightarrow>
     (\<forall>t. ae_reservation e = Some t \<longrightarrow> ct_actor_key t = k \<and> ct_expected_epoch t = ae_epoch e) \<and>
     (\<forall>f. ae_owner e = Some f \<longrightarrow> of_epoch f = ae_epoch e \<and>
        of_actor_abi_identity f = ae_actor_abi_identity e \<and>
        of_actor_implementation_identity f = ae_actor_implementation_identity e \<and>
        of_declaration_owner f = ae_declaration_owner e) \<and>
     (ae_eviction_request_id e \<noteq> None \<longrightarrow> ae_owner e \<noteq> None)"

definition claims_issued :: "ownership \<Rightarrow> actor_claim_id set" where
  "claims_issued s = claim_id_mint ` {..<ow_next_claim_seq s}"

definition claim_held :: "ownership \<Rightarrow> actor_logical_key \<Rightarrow> actor_claim_id \<Rightarrow> bool" where
  "claim_held s k i \<longleftrightarrow>
     (\<exists>e t. own_entry s k = Some e \<and> ae_reservation e = Some t \<and> ct_claim_id t = i)"

definition own_inv :: "ownership \<Rightarrow> bool" where
  "own_inv s \<longleftrightarrow> bt_ok (ow_entries s) \<and>
     (\<forall>k e. own_entry s k = Some e \<longrightarrow> entry_ok k e) \<and>
     (\<forall>k i. claim_held s k i \<longrightarrow> i \<in> claims_issued s) \<and>
     (\<forall>k k' i. claim_held s k i \<longrightarrow> claim_held s k' i \<longrightarrow> k = k')"

lemma own_invD:
  assumes "own_inv s"
  shows "bt_ok (ow_entries s)" and "own_entry s k = Some e \<Longrightarrow> entry_ok k e"
    and "claim_held s k i \<Longrightarrow> i \<in> claims_issued s"
    and "claim_held s k i \<Longrightarrow> claim_held s k' i \<Longrightarrow> k = k'"
  using assms unfolding own_inv_def by blast+

lemma own_inv_new: "own_inv own_new"
  by (simp add: own_inv_def own_new_def claim_held_def)

lemma own_inv_counters: "own_inv (s\<lparr>ow_counters := c\<rparr>) \<longleftrightarrow> own_inv s"
  by (simp add: own_inv_def claim_held_def claims_issued_def)

lemma own_inv_counts [simp]:
  "own_inv (count_conflict s) \<longleftrightarrow> own_inv s" "own_inv (count_epoch_mismatch s) \<longleftrightarrow> own_inv s"
  "own_inv (count_commit s) \<longleftrightarrow> own_inv s" "own_inv (count_rejected_commit s) \<longleftrightarrow> own_inv s"
  "own_inv (count_abort s) \<longleftrightarrow> own_inv s" "own_inv (count_rejected_abort s) \<longleftrightarrow> own_inv s"
  "own_inv (count_renewal s) \<longleftrightarrow> own_inv s" "own_inv (count_release s) \<longleftrightarrow> own_inv s"
  "own_inv (count_expired s) \<longleftrightarrow> own_inv s"
  by (simp_all add: own_counts own_inv_counters)

lemma count_entries [simp]:
  "ow_entries (count_conflict s) = ow_entries s" "ow_entries (count_epoch_mismatch s) = ow_entries s"
  "ow_entries (count_commit s) = ow_entries s" "ow_entries (count_rejected_commit s) = ow_entries s"
  "ow_entries (count_abort s) = ow_entries s" "ow_entries (count_rejected_abort s) = ow_entries s"
  "ow_entries (count_renewal s) = ow_entries s" "ow_entries (count_release s) = ow_entries s"
  "ow_entries (count_expired s) = ow_entries s"
  by (simp_all add: own_counts)

lemma count_seq [simp]:
  "ow_next_claim_seq (count_conflict s) = ow_next_claim_seq s"
  "ow_next_claim_seq (count_epoch_mismatch s) = ow_next_claim_seq s"
  "ow_next_claim_seq (count_commit s) = ow_next_claim_seq s"
  "ow_next_claim_seq (count_rejected_commit s) = ow_next_claim_seq s"
  "ow_next_claim_seq (count_abort s) = ow_next_claim_seq s"
  "ow_next_claim_seq (count_rejected_abort s) = ow_next_claim_seq s"
  "ow_next_claim_seq (count_renewal s) = ow_next_claim_seq s"
  "ow_next_claim_seq (count_release s) = ow_next_claim_seq s"
  "ow_next_claim_seq (count_expired s) = ow_next_claim_seq s"
  by (simp_all add: own_counts)

text \<open>Replacing one entry by one that reserves nothing new.\<close>

lemma claim_held_put:
  assumes "bt_ok (ow_entries s)"
  shows "claim_held (own_put k e s) k' i \<longleftrightarrow>
    (if k' = k then (\<exists>t. ae_reservation e = Some t \<and> ct_claim_id t = i) else claim_held s k' i)"
  using assms by (simp add: claim_held_def bt.get_ins)

lemma own_inv_put:
  assumes "own_inv s" and "entry_ok k e"
    and "ae_reservation e = None \<or> (\<exists>e0. own_entry s k = Some e0 \<and> ae_reservation e = ae_reservation e0)"
  shows "own_inv (own_put k e s)"
proof -
  have ok: "bt_ok (ow_entries s)" using own_invD(1) [OF assms(1)] .
  have held: "claim_held (own_put k e s) k' i \<Longrightarrow> claim_held s k' i" for k' i
    using assms(3) by (auto simp: claim_held_def bt.get_ins [OF ok] split: if_splits)
  have iss: "claims_issued (own_put k e s) = claims_issued s" by (simp add: claims_issued_def)
  show ?thesis unfolding own_inv_def
  proof (intro conjI allI impI)
    show "bt_ok (ow_entries (own_put k e s))" using bt.ok_ins [OF ok] by simp
    fix k' e' assume "own_entry (own_put k e s) k' = Some e'"
    then show "entry_ok k' e'"
      using own_invD(2) [OF assms(1)] assms(2) bt.get_ins [OF ok] by (auto split: if_splits)
  next
    fix k' i assume "claim_held (own_put k e s) k' i"
    then show "i \<in> claims_issued (own_put k e s)" using held own_invD(3) [OF assms(1)] iss by blast
  next
    fix k1 k2 i assume "claim_held (own_put k e s) k1 i" "claim_held (own_put k e s) k2 i"
    then show "k1 = k2" using held own_invD(4) [OF assms(1)] by blast
  qed
qed

lemma own_inv_reserve:
  assumes "own_inv s" and "own_entry s k = Some e"
    and "ct_claim_id t = claim_id_mint (ow_next_claim_seq s)" and "ct_actor_key t = k"
    and "ct_expected_epoch t = ae_epoch e"
  shows "own_inv (own_put k (e\<lparr>ae_reservation := Some t\<rparr>) (s\<lparr>ow_next_claim_seq := Suc (ow_next_claim_seq s)\<rparr>))"
proof -
  let ?s' = "own_put k (e\<lparr>ae_reservation := Some t\<rparr>) (s\<lparr>ow_next_claim_seq := Suc (ow_next_claim_seq s)\<rparr>)"
  have ok: "bt_ok (ow_entries s)" using own_invD(1) [OF assms(1)] .
  have held: "claim_held ?s' k' i \<longleftrightarrow> (if k' = k then i = claim_id_mint (ow_next_claim_seq s) else claim_held s k' i)" for k' i
    using ok assms(3) by (auto simp: claim_held_def bt.get_ins)
  have iss: "claims_issued ?s' = insert (claim_id_mint (ow_next_claim_seq s)) (claims_issued s)"
    by (simp add: claims_issued_def lessThan_Suc)
  have fresh: "claim_id_mint (ow_next_claim_seq s) \<notin> claims_issued s" by (auto simp: claims_issued_def)
  have old: "claim_held s k' i \<Longrightarrow> i \<in> claims_issued s" for k' i using own_invD(3) [OF assms(1)] .
  show ?thesis unfolding own_inv_def
  proof (intro conjI allI impI)
    show "bt_ok (ow_entries ?s')" using bt.ok_ins [OF ok] by simp
    fix k' e' assume "own_entry ?s' k' = Some e'"
    then show "entry_ok k' e'"
      using own_invD(2) [OF assms(1)] assms(2,4,5) bt.get_ins [OF ok]
      by (fastforce simp: entry_ok_def split: if_splits)
  next
    fix k' i assume "claim_held ?s' k' i"
    then show "i \<in> claims_issued ?s'" using held old iss by (auto split: if_splits)
  next
    fix k1 k2 i assume "claim_held ?s' k1 i" "claim_held ?s' k2 i"
    then show "k1 = k2"
      using held [of k1 i] held [of k2 i] old [of k1 i] old [of k2 i] fresh
        own_invD(4) [OF assms(1), of k1 i k2] by (auto split: if_splits)
  qed
qed

text \<open>Expiry, entry by entry.\<close>

definition expire_entry :: "u64 \<Rightarrow> actor_entry \<Rightarrow> actor_entry" where
  "expire_entry now e =
     (case ae_owner e of
        Some f \<Rightarrow>
          (if ae_eviction_request_id e = None \<and> of_lease_expires_at f \<le> now
           then e\<lparr>ae_owner := None, ae_eviction_request_id := None\<rparr> else e)
      | None \<Rightarrow> e)"

definition expired_fence :: "u64 \<Rightarrow> actor_entry \<Rightarrow> actor_owner_fence option" where
  "expired_fence now e =
     (case ae_owner e of
        Some f \<Rightarrow>
          (if ae_eviction_request_id e = None \<and> of_lease_expires_at f \<le> now then Some f else None)
      | None \<Rightarrow> None)"

lemma entry_ok_expire: "entry_ok k e \<Longrightarrow> entry_ok k (expire_entry now e)"
  by (cases "ae_owner e") (auto simp: entry_ok_def expire_entry_def)

lemma expire_key_effect:
  assumes "bt_ok (ow_entries s)" and "expire_key now k (acc, s) = (acc', s')"
  shows "bt_ok (ow_entries s')" and "ow_next_claim_seq s' = ow_next_claim_seq s"
    and "own_entry s' j = (if j = k then map_option (expire_entry now) (own_entry s k) else own_entry s j)"
    and "acc' = acc @ (case own_entry s k of None \<Rightarrow> [] | Some e \<Rightarrow>
           (case expired_fence now e of None \<Rightarrow> [] | Some f \<Rightarrow> [(k, f)]))"
  using assms
  by (auto simp: expire_key_def expire_entry_def expired_fence_def bt.ok_ins bt.get_ins
      split: option.splits if_splits)

lemma fold_expire:
  "bt_ok (ow_entries s) \<Longrightarrow> distinct ks \<Longrightarrow> fold (expire_key now) ks (acc, s) = (acc', s') \<Longrightarrow>
   bt_ok (ow_entries s') \<and> ow_next_claim_seq s' = ow_next_claim_seq s \<and>
   (\<forall>j. own_entry s' j = (if j \<in> set ks then map_option (expire_entry now) (own_entry s j) else own_entry s j)) \<and>
   acc' = acc @ [(k, f). k \<leftarrow> ks, e \<leftarrow> (case own_entry s k of None \<Rightarrow> [] | Some e \<Rightarrow> [e]),
                   f \<leftarrow> (case expired_fence now e of None \<Rightarrow> [] | Some f \<Rightarrow> [f])]"
proof (induction ks arbitrary: s acc)
  case (Cons k ks)
  obtain acc1 s1 where 1: "expire_key now k (acc, s) = (acc1, s1)" by fastforce
  note e = expire_key_effect [OF Cons.prems(1) 1]
  have "fold (expire_key now) ks (acc1, s1) = (acc', s')" using Cons.prems(3) 1 by simp
  from Cons.IH [OF e(1) _ this] Cons.prems(2)
  have ih: "bt_ok (ow_entries s') \<and> ow_next_claim_seq s' = ow_next_claim_seq s1 \<and>
   (\<forall>j. own_entry s' j = (if j \<in> set ks then map_option (expire_entry now) (own_entry s1 j) else own_entry s1 j)) \<and>
   acc' = acc1 @ [(k, f). k \<leftarrow> ks, e \<leftarrow> (case own_entry s1 k of None \<Rightarrow> [] | Some e \<Rightarrow> [e]),
                   f \<leftarrow> (case expired_fence now e of None \<Rightarrow> [] | Some f \<Rightarrow> [f])]" by simp
  have same: "own_entry s1 j = own_entry s j" if "j \<in> set ks" for j
    using that Cons.prems(2) e(3) by auto
  have "[(k, f). k \<leftarrow> ks, e \<leftarrow> (case own_entry s1 k of None \<Rightarrow> [] | Some e \<Rightarrow> [e]),
                   f \<leftarrow> (case expired_fence now e of None \<Rightarrow> [] | Some f \<Rightarrow> [f])]
      = [(k, f). k \<leftarrow> ks, e \<leftarrow> (case own_entry s k of None \<Rightarrow> [] | Some e \<Rightarrow> [e]),
                   f \<leftarrow> (case expired_fence now e of None \<Rightarrow> [] | Some f \<Rightarrow> [f])]"
    using same by (auto intro!: arg_cong [where f = concat] map_cong)
  with ih e Cons.prems(2) same show ?case by (auto split: option.splits)
qed simp

lemma own_expire_effect:
  assumes "bt_ok (ow_entries s)" and "own_expire now s = (expired, s')"
  shows "bt_ok (ow_entries s')" and "ow_next_claim_seq s' = ow_next_claim_seq s"
    and "own_entry s' k = map_option (expire_entry now) (own_entry s k)"
    and "set expired = {(k, f). \<exists>e. own_entry s k = Some e \<and> expired_fence now e = Some f}"
proof -
  note r = fold_expire [OF assms(1) bt.distinct_keys [OF assms(1)] assms(2) [unfolded own_expire_def]]
  note ks = bt.set_keys [OF assms(1)]
  show "bt_ok (ow_entries s')" "ow_next_claim_seq s' = ow_next_claim_seq s" using r by auto
  show "own_entry s' k = map_option (expire_entry now) (own_entry s k)"
    using r ks by (cases "own_entry s k") auto
  show "set expired = {(k, f). \<exists>e. own_entry s k = Some e \<and> expired_fence now e = Some f}"
    using r ks by (auto split: option.splits)
qed

lemma own_inv_expire:
  assumes "own_inv s" and "own_expire now s = (expired, s')"
  shows "own_inv s'"
proof -
  note e = own_expire_effect [OF own_invD(1) [OF assms(1)] assms(2)]
  have held: "claim_held s' k i \<Longrightarrow> claim_held s k i" for k i
    by (auto simp: claim_held_def e(3) expire_entry_def split: option.splits if_splits)
  have iss: "claims_issued s' = claims_issued s" by (simp add: claims_issued_def e(2))
  have ents: "own_entry s' k = Some en \<Longrightarrow> entry_ok k en" for k en
    using own_invD(2) [OF assms(1)] entry_ok_expire by (auto simp: e(3))
  show ?thesis unfolding own_inv_def
    using e(1) ents held iss own_invD(3,4) [OF assms(1)] by blast
qed

lemma entry_ok_updates:
  shows "entry_ok k e \<Longrightarrow> entry_ok k (e\<lparr>ae_reservation := None\<rparr>)"
    and "entry_ok k e \<Longrightarrow> entry_ok k (e\<lparr>ae_owner := None, ae_eviction_request_id := None\<rparr>)"
    and "entry_ok k e \<Longrightarrow> ae_owner e = Some f \<Longrightarrow> entry_ok k (e\<lparr>ae_owner := Some (f\<lparr>of_lease_expires_at := n\<rparr>)\<rparr>)"
    and "entry_ok k e \<Longrightarrow> ae_owner e = Some f \<Longrightarrow> entry_ok k (e\<lparr>ae_eviction_request_id := Some x\<rparr>)"
  by (simp_all add: entry_ok_def)

lemma own_inv_exec:
  assumes "own_inv s" and "ow_next_claim_seq s < u64_max"
  shows "own_inv (own_exec op s)"
  supply ok = own_invD(2) [OF assms(1)]
proof (cases op)
  case (OwnEnsurePresent k a i d inp)
  with assms(1) show ?thesis
    by (auto simp: own_ensure_present_def entry_ok_def intro!: own_inv_put split: option.split)
next
  case (OwnReserve k ep rt b now)
  with assms show ?thesis
    by (auto simp: own_reserve_def Let_def intro!: own_inv_reserve [simplified] split: option.split)
next
  case (OwnCommit t f now ttl)
  have "entry_ok (ct_actor_key t) (e\<lparr>ae_reservation := None, ae_owner := Some (commit_fence t f now ttl)\<rparr>)"
    if "own_entry s (ct_actor_key t) = Some e" "ae_reservation e = Some t"
      "cf_actor_abi_identity f = ae_actor_abi_identity e"
      "cf_actor_implementation_identity f = ae_actor_implementation_identity e"
      "cf_declaration_owner f = ae_declaration_owner e" for e
    using own_invD(2) [OF assms(1) that(1)] that by (auto simp: entry_ok_def commit_fence_def)
  then show ?thesis using OwnCommit assms(1)
    by (auto simp: own_commit_def Let_def intro!: own_inv_put split: option.split)
next
  case (OwnAbort t)
  with assms(1) show ?thesis
    by (auto simp: own_abort_def intro!: own_inv_put entry_ok_updates(1) [OF ok] split: option.split)
next
  case (OwnRenew k f ttl now)
  with assms(1) show ?thesis
    by (auto simp: own_renew_def Let_def intro!: own_inv_put entry_ok_updates(3) [OF ok] split: option.split)
next
  case (OwnRelease k f r)
  with assms(1) show ?thesis
    by (auto simp: own_release_def intro!: own_inv_put entry_ok_updates(2) [OF ok] split: option.split)
next
  case (OwnExpire now)
  then show ?thesis using own_inv_expire [OF assms(1)] by (metis own_exec.simps(7) surjective_pairing)
next
  case (OwnRequestEviction k x)
  with assms(1) show ?thesis
    by (auto simp: own_request_eviction_def intro!: own_inv_put entry_ok_updates(4) [OF ok] split: option.split)
next
  case (OwnAcknowledgeEviction k x)
  with assms(1) show ?thesis
    by (auto simp: own_acknowledge_eviction_def intro!: own_inv_put entry_ok_updates(2) [OF ok] split: option.split)
next
  case (OwnAdvanceIncarnation k)
  with assms(1) show ?thesis
    by (auto simp: own_advance_incarnation_def entry_ok_def intro!: own_inv_put split: option.split)
qed

lemma own_exec_seq:
  assumes "bt_ok (ow_entries s)" and "ow_next_claim_seq s < u64_max"
  shows "ow_next_claim_seq s \<le> ow_next_claim_seq (own_exec op s)"
proof (cases op)
  case (OwnExpire now)
  then show ?thesis
    using own_expire_effect(2) [OF assms(1)] by (metis own_exec.simps(7) order_refl surjective_pairing)
qed (use assms in \<open>auto simp: own_ensure_present_def own_reserve_def own_commit_def own_abort_def
    own_renew_def own_release_def own_request_eviction_def own_acknowledge_eviction_def
    own_advance_incarnation_def Let_def split: option.split\<close>)

lemma own_exec_held:
  assumes "bt_ok (ow_entries s)" and "claim_held (own_exec op s) k i"
  shows "claim_held s k i \<or> i = claim_id_mint (ow_next_claim_seq s)"
proof (cases op)
  case (OwnExpire now)
  obtain x s' where "own_expire now s = (x, s')" by fastforce
  from own_expire_effect(3) [OF assms(1) this] this OwnExpire assms(2) show ?thesis
    by (auto simp: claim_held_def expire_entry_def split: option.splits if_splits)
qed (use assms in \<open>auto simp: own_ensure_present_def own_reserve_def own_commit_def own_abort_def
    own_renew_def own_release_def own_request_eviction_def own_acknowledge_eviction_def
    own_advance_incarnation_def Let_def claim_held_def bt.get_ins split: option.splits if_splits\<close>)

interpretation claims: fresh_ids own_step own_inv claims_issued claim_held
proof (unfold_locales, goal_cases)
  case (1 s s')
  then show ?case by (auto simp: own_headroom_def elim!: own_stepE intro: own_inv_exec)
next
  case (2 s s')
  then obtain op where "s' = own_exec op s" "ow_next_claim_seq s < u64_max"
    by (auto simp: own_headroom_def elim!: own_stepE)
  then have "ow_next_claim_seq s \<le> ow_next_claim_seq s'" using own_exec_seq [OF own_invD(1) [OF 2(1)]] by simp
  then show ?case unfolding claims_issued_def by (intro image_mono) auto
next
  case (3 s s' k i)
  then obtain op where op: "s' = own_exec op s" by (auto elim!: own_stepE)
  have "claim_id_mint (ow_next_claim_seq s) \<notin> claims_issued s" by (auto simp: claims_issued_def)
  then show ?case using own_exec_held [OF own_invD(1) [OF 3(1)]] 3(3) op by blast
qed

lemma own_reachable_inv: "own_step\<^sup>*\<^sup>* own_new s \<Longrightarrow> own_inv s"
  using claims.steps_inv own_inv_new by blast

lemma own_step_epoch:
  assumes "own_inv s" and "own_step s s'" and "own_entry s k = Some e"
  shows "\<exists>e'. own_entry s' k = Some e' \<and> ae_epoch e \<le> ae_epoch e'"
proof -
  obtain op where op: "s' = own_exec op s" "own_headroom s" using assms(2) by (auto elim!: own_stepE)
  note ok = own_invD(1) [OF assms(1)]
  have room: "ae_epoch e < u64_max"
    using op(2) bt_get_in_set [OF assms(3)] by (auto simp: own_headroom_def)
  show ?thesis
  proof (cases op)
    case (OwnExpire now)
    obtain x t where "own_expire now s = (x, t)" by fastforce
    from own_expire_effect(3) [OF ok this] this OwnExpire op assms(3) show ?thesis
      by (auto simp: expire_entry_def split: option.splits)
  qed (use assms(3) room in \<open>auto simp: op own_ensure_present_def own_reserve_def own_commit_def own_abort_def
      own_renew_def own_release_def own_request_eviction_def own_acknowledge_eviction_def
      own_advance_incarnation_def Let_def bt.get_ins [OF ok] split: option.split\<close>)
qed

lemma own_run_epoch:
  "own_step\<^sup>*\<^sup>* s s' \<Longrightarrow> own_inv s \<Longrightarrow> own_entry s k = Some e \<Longrightarrow>
   \<exists>e'. own_entry s' k = Some e' \<and> ae_epoch e \<le> ae_epoch e'"
proof (induction rule: rtranclp_induct)
  case (step t u)
  then show ?case using own_step_epoch claims.steps_inv order_trans by (metis (no_types, lifting))
qed simp

section \<open>Properties\<close>

lemma own_commit_InrD:
  assumes "own_commit t facts now ttl s = (Inr f, s1)"
  shows "\<exists>e. own_entry s (ct_actor_key t) = Some e \<and> ae_reservation e = Some t \<and>
     f = commit_fence t facts now ttl \<and>
     s1 = count_commit (own_put (ct_actor_key t) (e\<lparr>ae_reservation := None, ae_owner := Some f\<rparr>) s)"
  using assms by (auto simp: own_commit_def Let_def split: option.splits if_splits)

lemma own_abort_InrD:
  assumes "own_abort t s = (Inr u, s1)"
  shows "\<exists>e. own_entry s (ct_actor_key t) = Some e \<and> ae_reservation e = Some t \<and>
     s1 = count_abort (own_put (ct_actor_key t) (e\<lparr>ae_reservation := None\<rparr>) s)"
  using assms by (auto simp: own_abort_def split: option.splits if_splits)

lemma unheld_token_refused:
  assumes "\<not> claim_held s (ct_actor_key t) (ct_claim_id t)"
  shows "\<exists>err. fst (own_commit t facts now ttl s) = Inl err \<and>
           ow_entries (snd (own_commit t facts now ttl s)) = ow_entries s"
    and "\<exists>err. fst (own_abort t s) = Inl err \<and> ow_entries (snd (own_abort t s)) = ow_entries s"
  using assms by (auto simp: own_commit_def own_abort_def claim_held_def split: option.split)

text \<open>C15: A claim token works once. After it has been committed or aborted, at every later point of
  any run of the registry both commit and abort refuse it and leave every entry as it is.\<close>

theorem claim_token_single_use:
  assumes "own_step\<^sup>*\<^sup>* own_new s" and "own_headroom s"
    and "own_commit t facts now ttl s = (Inr f, s1) \<or> own_abort t s = (Inr (), s1)"
    and "own_step\<^sup>*\<^sup>* s1 s'"
  shows "(\<exists>err. fst (own_commit t facts' now' ttl' s') = Inl err \<and>
            ow_entries (snd (own_commit t facts' now' ttl' s')) = ow_entries s') \<and>
         (\<exists>err. fst (own_abort t s') = Inl err \<and> ow_entries (snd (own_abort t s')) = ow_entries s')"
proof -
  have inv: "own_inv s" using own_reachable_inv [OF assms(1)] .
  have step: "own_step s s1"
    using assms(2,3) own_step.intros [of s "OwnCommit t facts now ttl"] own_step.intros [of s "OwnAbort t"]
    by auto
  have held: "claim_held s (ct_actor_key t) (ct_claim_id t)"
    and gone: "\<not> claim_held s1 (ct_actor_key t) (ct_claim_id t)"
    using assms(3) own_invD(1) [OF inv]
    by (auto dest!: own_commit_InrD own_abort_InrD simp: claim_held_def bt.get_ins)
  have "ct_claim_id t \<in> claims_issued s1"
    using own_invD(3) [OF inv held] claims.step_issued [OF inv step] by blast
  then have "\<not> claim_held s' (ct_actor_key t) (ct_claim_id t)"
    using claims.never_returns [OF assms(4) claims.step_inv [OF inv step]] gone by blast
  then show ?thesis using unheld_token_refused by blast
qed

text \<open>A reservation is granted exactly when the key is present at the expected epoch with no
  reservation in flight, no eviction pending and no owner whose lease is still running, and a
  refusal changes no entry.\<close>

theorem reserve_granted_iff:
  "((\<exists>t s'. own_reserve key ep rt b now s = (Inr t, s')) \<longleftrightarrow>
     (\<exists>e. own_entry s key = Some e \<and> ae_epoch e = ep \<and> ae_reservation e = None \<and>
        ae_eviction_request_id e = None \<and>
        (case ae_owner e of None \<Rightarrow> True | Some f \<Rightarrow> of_lease_expires_at f \<le> now))) \<and>
   (case own_reserve key ep rt b now s of
      (Inl err, s') \<Rightarrow> ow_entries s' = ow_entries s \<and> ow_next_claim_seq s' = ow_next_claim_seq s
    | (Inr t, s') \<Rightarrow> ct_actor_key t = key \<and> ct_expected_epoch t = ep \<and>
        ct_claim_id t = claim_id_mint (ow_next_claim_seq s))"
  by (auto simp: own_reserve_def Let_def split: option.split)

text \<open>An expiry sweep removes exactly the owners whose lease has run out and that are not waiting
  for an eviction to be acknowledged, reports exactly those, and touches nothing else.\<close>

theorem expire_exact:
  assumes "own_step\<^sup>*\<^sup>* own_new s" and "own_expire now s = (expired, s')"
  shows "(\<forall>k f. (k, f) \<in> set expired \<longleftrightarrow>
            (\<exists>e. own_entry s k = Some e \<and> ae_owner e = Some f \<and> ae_eviction_request_id e = None \<and>
               of_lease_expires_at f \<le> now)) \<and>
         (\<forall>k. own_entry s' k =
            (if k \<in> fst ` set expired then map_option (\<lambda>e. e\<lparr>ae_owner := None\<rparr>) (own_entry s k)
             else own_entry s k))"
proof -
  note e = own_expire_effect [OF own_invD(1) [OF own_reachable_inv [OF assms(1)]] assms(2)]
  have in_set: "(k, f) \<in> set expired \<longleftrightarrow>
      (\<exists>e. own_entry s k = Some e \<and> ae_owner e = Some f \<and> ae_eviction_request_id e = None \<and>
         of_lease_expires_at f \<le> now)" for k f
    by (auto simp: e(4) expired_fence_def split: option.splits if_splits)
  have "own_entry s' k = (if k \<in> fst ` set expired then map_option (\<lambda>e. e\<lparr>ae_owner := None\<rparr>) (own_entry s k)
      else own_entry s k)" for k
  proof (cases "own_entry s k")
    case (Some en)
    have "k \<in> fst ` set expired \<longleftrightarrow> expired_fence now en \<noteq> None"
      using Some by (force simp: e(4))
    then show ?thesis using Some
      by (auto simp: e(3) expire_entry_def expired_fence_def split: option.splits if_splits)
  qed (simp add: e(3))
  with in_set show ?thesis by blast
qed

text \<open>C16: Replacing an incarnation fences the old one out for good: a fence of an earlier epoch can
  neither renew nor release at any later point of the run, and the attempt changes nothing.\<close>

theorem old_incarnation_fenced:
  assumes "own_step\<^sup>*\<^sup>* own_new s" and "own_step\<^sup>*\<^sup>* s s'" and "own_entry s k = Some e"
    and "of_epoch f < ae_epoch e"
  shows "own_renew k f ttl now s' = (Inl FenceMismatch, s') \<and>
         own_release k f reason s' = (Inl FenceMismatch, s')"
proof -
  have inv: "own_inv s" using own_reachable_inv [OF assms(1)] .
  obtain e' where e': "own_entry s' k = Some e'" "ae_epoch e \<le> ae_epoch e'"
    using own_run_epoch [OF assms(2) inv assms(3)] by blast
  have "\<not> fence_identity_matches c f" if "ae_owner e' = Some c" for c
    using own_invD(2) [OF claims.steps_inv [OF assms(2) inv] e'(1)] that e'(2) assms(4)
    by (auto simp: entry_ok_def fence_identity_matches_def)
  with e'(1) show ?thesis by (auto simp: own_renew_def own_release_def split: option.split)
qed

text \<open>
  The operations that may end a pending eviction of the owner \<open>f\<close> of \<open>k\<close>, where \<open>xs\<close> are the request ids
  it was marked with and \<open>r\<close> is the reservation that was out at the first mark.
\<close>

fun ends_eviction ::
  "actor_logical_key \<Rightarrow> string list \<Rightarrow> actor_claim_token option \<Rightarrow> actor_owner_fence \<Rightarrow> own_op \<Rightarrow> bool" where
  "ends_eviction k xs r f (OwnAcknowledgeEviction k' x) \<longleftrightarrow> k' = k \<and> x \<in> set xs"
| "ends_eviction k xs r f (OwnRelease k' f' why) \<longleftrightarrow> k' = k \<and> fence_identity_matches f f'"
| "ends_eviction k xs r f (OwnAdvanceIncarnation k') \<longleftrightarrow> k' = k"
| "ends_eviction k xs r f (OwnCommit t facts now ttl) \<longleftrightarrow> r = Some t"
| "ends_eviction k xs r f _ \<longleftrightarrow> False"

text \<open>The request ids a run marks the key with.\<close>

fun eviction_marks :: "actor_logical_key \<Rightarrow> own_op list \<Rightarrow> string list" where
  "eviction_marks k [] = []"
| "eviction_marks k (OwnRequestEviction k' x # ops) = (if k' = k then x # eviction_marks k ops else eviction_marks k ops)"
| "eviction_marks k (op # ops) = eviction_marks k ops"

definition evicting ::
  "actor_logical_key \<Rightarrow> string list \<Rightarrow> actor_claim_token option \<Rightarrow> actor_owner_fence \<Rightarrow> ownership \<Rightarrow> bool" where
  "evicting k xs r f s \<longleftrightarrow> bt_ok (ow_entries s) \<and>
     (\<exists>e c x. own_entry s k = Some e \<and> ae_owner e = Some c \<and> fence_identity_matches c f \<and>
        ae_eviction_request_id e = Some x \<and> x \<in> set xs \<and> (ae_reservation e = None \<or> ae_reservation e = r))"

lemma fence_identity_refl [simp]: "fence_identity_matches f f"
  by (simp add: fence_identity_matches_def)

lemma fence_identity_sym: "fence_identity_matches a b \<Longrightarrow> fence_identity_matches b a"
  by (simp add: fence_identity_matches_def)

lemma fence_identity_trans:
  "fence_identity_matches a b \<Longrightarrow> fence_identity_matches b c \<Longrightarrow> fence_identity_matches a c"
  by (simp add: fence_identity_matches_def)

lemma fence_identity_expiry [simp]:
  "fence_identity_matches (c\<lparr>of_lease_expires_at := n\<rparr>) f \<longleftrightarrow> fence_identity_matches c f"
  by (simp add: fence_identity_matches_def)

lemma evicting_exec:
  assumes "evicting k xs r f s" and "\<not> ends_eviction k xs r f op" and "set (eviction_marks k [op]) \<subseteq> set xs"
  shows "evicting k xs r f (own_exec op s)"
proof -
  obtain e c x where e: "own_entry s k = Some e" "ae_owner e = Some c" "fence_identity_matches c f"
    "ae_eviction_request_id e = Some x" "x \<in> set xs" "ae_reservation e = None \<or> ae_reservation e = r" and ok: "bt_ok (ow_entries s)"
    using assms(1) by (auto simp: evicting_def)
  show ?thesis
  proof (cases op)
    case (OwnExpire now)
    obtain y t where y: "own_expire now s = (y, t)" by fastforce
    from own_expire_effect [OF ok y] y OwnExpire e show ?thesis
      by (auto simp: evicting_def expire_entry_def)
  next
    case (OwnRelease k' f' why)
    have "\<not> fence_identity_matches c f'" if "k' = k"
      using assms(2) OwnRelease that e(3) fence_identity_trans fence_identity_sym by (metis ends_eviction.simps(2))
    with OwnRelease e ok show ?thesis
      by (auto simp: evicting_def own_release_def bt.get_ins bt.ok_ins split: option.split)
  qed (use e ok assms(2,3) in \<open>auto simp: evicting_def own_ensure_present_def own_reserve_def own_commit_def
      own_abort_def own_renew_def own_request_eviction_def own_acknowledge_eviction_def
      own_advance_incarnation_def Let_def bt.get_ins bt.ok_ins split: option.split\<close>)
qed

lemma eviction_marks_Cons: "eviction_marks k (op # ops) = eviction_marks k [op] @ eviction_marks k ops"
  by (cases op) simp_all

lemma evicting_fold:
  assumes "evicting k xs r f s" and "set (eviction_marks k ops) \<subseteq> set xs" and "\<forall>op \<in> set ops. \<not> ends_eviction k xs r f op"
  shows "evicting k xs r f (fold own_exec ops s)"
  using assms
proof (induction ops arbitrary: s)
  case (Cons op ops)
  then have "set (eviction_marks k [op]) \<subseteq> set xs" "set (eviction_marks k ops) \<subseteq> set xs"
    using eviction_marks_Cons [of k op ops] by auto
  then show ?case using Cons by (auto intro: evicting_exec)
qed simp

text \<open>C13: No second owner while an eviction is unacknowledged. Once the owner of an actor is marked for
  eviction, then through any sequence of registry operations, further marks included, other than the
  acknowledgement of one of the marks, that owner's own release, an incarnation change of the actor, or the
  commit of a reservation that had already been granted before the mark, the same owner stays in place
  whatever its lease clock says, and every reservation of the actor is refused.\<close>

theorem evicting_owner_exclusive:
  assumes "own_step\<^sup>*\<^sup>* own_new s" and "own_entry s k = Some e" and "ae_owner e = Some f"
    and "own_request_eviction k x s = (Inr (), s1)"
    and "\<forall>op \<in> set ops. \<not> ends_eviction k (x # eviction_marks k ops) (ae_reservation e) f op"
  shows "(\<exists>c. own_current_owner k (fold own_exec ops s1) = Some c \<and> fence_identity_matches c f) \<and>
         (\<exists>err. fst (own_reserve k ep rt b now (fold own_exec ops s1)) = Inl err)"
proof -
  have ok: "bt_ok (ow_entries s)" using own_invD(1) [OF own_reachable_inv [OF assms(1)]] .
  have start: "evicting k (x # eviction_marks k ops) (ae_reservation e) f s1"
    using assms(2-4) ok by (auto simp: own_request_eviction_def evicting_def bt.get_ins bt.ok_ins)
  have "evicting k (x # eviction_marks k ops) (ae_reservation e) f (fold own_exec ops s1)"
    by (rule evicting_fold [OF start _ assms(5)]) auto
  then show ?thesis
    by (auto simp: evicting_def own_current_owner_def own_reserve_def)
qed

section \<open>A sample registry\<close>

definition demo_key :: actor_logical_key where
  "demo_key = ActorLogicalKey ''svc'' ''A'' ''Id'' ''v1'' ''AQ'' ''h''"

definition demo_decl :: actor_declaration_owner_header where
  "demo_decl = \<lparr>dh_unit = OwnerService, dh_file = OwnerLoadedFileIndex 0, dh_actor_symbol = ''A''\<rparr>"

definition demo_facts :: "string \<Rightarrow> commit_fence_facts" where
  "demo_facts lease = \<lparr>cf_actor_abi_identity = ''abi'', cf_actor_implementation_identity = ''impl'',
     cf_declaration_owner = demo_decl, cf_owner_lease_id = lease\<rparr>"

definition demo_token :: actor_claim_token where
  "demo_token = \<lparr>ct_claim_id = ''actor-claim-0'', ct_actor_key = demo_key, ct_expected_epoch = 1,
     ct_owner_runtime_id = ''rt-a'', ct_build_id = ''b''\<rparr>"

definition demo_fence :: actor_owner_fence where
  "demo_fence = commit_fence demo_token (demo_facts ''owner-lease-1'') 0 30"

definition demo_present :: ownership where
  "demo_present = own_exec (OwnEnsurePresent demo_key ''abi'' ''impl'' demo_decl []) own_new"

definition demo_reserved :: ownership where
  "demo_reserved = own_exec (OwnReserve demo_key 1 ''rt-a'' ''b'' 0) demo_present"

definition demo_owned :: ownership where
  "demo_owned = own_exec (OwnCommit demo_token (demo_facts ''owner-lease-1'') 0 30) demo_reserved"

definition demo_entry :: actor_entry where
  "demo_entry = \<lparr>ae_epoch = 1, ae_actor_abi_identity = ''abi'', ae_actor_implementation_identity = ''impl'',
     ae_declaration_owner = demo_decl, ae_create_input = [], ae_owner = None,
     ae_eviction_request_id = None, ae_reservation = None\<rparr>"

lemma claim_id_mint_0: "claim_id_mint 0 = ''actor-claim-0''"
  by code_simp

lemma demo_registry:
  shows "ow_entries demo_present = [(demo_key, demo_entry)]"
    and "ow_entries demo_reserved = [(demo_key, demo_entry\<lparr>ae_reservation := Some demo_token\<rparr>)]"
    and "ow_entries demo_owned = [(demo_key, demo_entry\<lparr>ae_owner := Some demo_fence\<rparr>)]"
    and "ow_next_claim_seq demo_present = 0" and "ow_next_claim_seq demo_reserved = 1"
    and "ow_next_claim_seq demo_owned = 1"
proof -
  show p: "ow_entries demo_present = [(demo_key, demo_entry)]" "ow_next_claim_seq demo_present = 0"
    by (simp_all add: demo_present_def own_ensure_present_def own_new_def demo_entry_def)
  show r: "ow_entries demo_reserved = [(demo_key, demo_entry\<lparr>ae_reservation := Some demo_token\<rparr>)]"
    "ow_next_claim_seq demo_reserved = 1"
    by (simp_all add: demo_reserved_def own_reserve_def p bt_get_def demo_entry_def demo_token_def Let_def
        claim_id_mint_0 inc_u64_def)
  show "ow_entries demo_owned = [(demo_key, demo_entry\<lparr>ae_owner := Some demo_fence\<rparr>)]"
    "ow_next_claim_seq demo_owned = 1"
    by (simp_all add: demo_owned_def own_commit_def r bt_get_def demo_entry_def Let_def demo_facts_def
        demo_fence_def) (simp_all add: demo_token_def)
qed

lemma demo_headroom:
  shows "own_headroom own_new" and "own_headroom demo_present" and "own_headroom demo_reserved"
    and "own_headroom demo_owned"
  by (simp_all add: own_headroom_def demo_registry demo_entry_def u64_max_def own_new_def)

lemma demo_registry_run:
  shows "own_step\<^sup>*\<^sup>* own_new demo_reserved" and "own_step\<^sup>*\<^sup>* own_new demo_owned"
proof -
  have "own_step own_new demo_present"
    unfolding demo_present_def by (rule own_step.intros [OF demo_headroom(1)])
  moreover have "own_step demo_present demo_reserved"
    unfolding demo_reserved_def by (rule own_step.intros [OF demo_headroom(2)])
  moreover have "own_step demo_reserved demo_owned"
    unfolding demo_owned_def by (rule own_step.intros [OF demo_headroom(3)])
  ultimately show "own_step\<^sup>*\<^sup>* own_new demo_reserved" "own_step\<^sup>*\<^sup>* own_new demo_owned"
    by (meson r_into_rtranclp rtranclp_trans)+
qed

theorem claim_token_single_use_witness:
  "(\<exists>err. fst (own_commit demo_token (demo_facts ''l2'') 5 30 demo_owned) = Inl err) \<and>
   (\<exists>err. fst (own_abort demo_token demo_owned) = Inl err)"
proof -
  have "own_commit demo_token (demo_facts ''owner-lease-1'') 0 30 demo_reserved = (Inr demo_fence, demo_owned)"
    by (simp add: demo_owned_def own_commit_def demo_registry(2) bt_get_def demo_entry_def Let_def
        demo_facts_def demo_fence_def) (simp add: demo_token_def)
  then show ?thesis
    using claim_token_single_use [OF demo_registry_run(1) demo_headroom(3), of demo_token _ _ _ _ demo_owned demo_owned]
    by blast
qed

theorem expire_exact_witness:
  "(demo_key, demo_fence) \<in> set (fst (own_expire 30 demo_owned))"
proof -
  obtain x s' where x: "own_expire 30 demo_owned = (x, s')" by fastforce
  have "of_lease_expires_at demo_fence = 30"
    by (simp add: demo_fence_def commit_fence_def saturating_add_u64_def u64_max_def)
  then show ?thesis
    using expire_exact [OF demo_registry_run(2) x] x
    by (simp add: demo_registry(3) bt_get_def demo_entry_def)
qed

theorem old_incarnation_fenced_witness:
  "own_renew demo_key (demo_fence\<lparr>of_epoch := 0\<rparr>) 30 5 demo_owned = (Inl FenceMismatch, demo_owned)"
  using old_incarnation_fenced [OF demo_registry_run(2) rtranclp.rtrancl_refl, of demo_key
      "demo_entry\<lparr>ae_owner := Some demo_fence\<rparr>" "demo_fence\<lparr>of_epoch := 0\<rparr>"]
  by (simp add: demo_registry(3) bt_get_def demo_entry_def)

theorem evicting_owner_exclusive_witness:
  "\<exists>err. fst (own_reserve demo_key 1 ''rt-b'' ''b'' 99
     (fold own_exec [OwnExpire 50, OwnRequestEviction demo_key ''evict:2'', OwnAcknowledgeEviction demo_key ''evict:3'']
       (snd (own_request_eviction demo_key ''evict:1'' demo_owned)))) = Inl err"
  using evicting_owner_exclusive [OF demo_registry_run(2), of demo_key
      "demo_entry\<lparr>ae_owner := Some demo_fence\<rparr>" demo_fence "''evict:1''" _
      "[OwnExpire 50, OwnRequestEviction demo_key ''evict:2'', OwnAcknowledgeEviction demo_key ''evict:3'']"]
  by (simp add: demo_registry(3) bt_get_def own_request_eviction_def demo_entry_def)

end
