(* ===== verification/Actor_Lease.thy ===== *)
theory Actor_Lease
  imports Actor_Ownership
begin

text \<open>
  \<open>ActorLeaseExpiryScheduler\<close> of \<open>router/src/actor/lease.rs\<close>: idle clocks, eviction
  requests with bounded retries and lease expiry. The ownership registry it shares with the
  broker is part of the state; the result of the \<open>IdleEvict\<close> port is ignored by the code, so
  the port is the log \<open>ls_sent\<close> of the frames handed to it.
\<close>

section \<open>State\<close>

record lease_options =
  lo_idle_ttl_ms :: u64
  lo_max_eviction_retries :: usize

definition default_lease_options :: lease_options where
  "default_lease_options = \<lparr>lo_idle_ttl_ms = DEFAULT_IDLE_TTL_MS,
     lo_max_eviction_retries = DEFAULT_EVICTION_RETRY_BOUND\<rparr>"

datatype lease_error = LeaseEvictionMismatch

record eviction_state =
  es_eviction_request_id :: string
  es_retries :: usize
  es_exhausted :: bool

record lease_counters =
  lc_sweep_count :: u64
  lc_expired :: u64
  lc_eviction_requests :: u64
  lc_eviction_acked :: u64
  lc_eviction_retries :: u64
  lc_eviction_exhausted :: u64

record idle_evict_frame =
  ie_key :: actor_logical_key
  ie_fence :: actor_owner_fence
  ie_eviction_request_id :: string
  ie_connection :: string

record lease_state =
  ls_registry :: ownership
  ls_idle_since :: "(actor_logical_key, u64) btree"
  ls_connections :: "(actor_logical_key, string) btree"
  ls_evictions :: "(actor_logical_key, eviction_state) btree"
  ls_eviction_seq :: u64
  ls_counters :: lease_counters
  ls_sent :: "idle_evict_frame list"

definition lease_new :: "ownership \<Rightarrow> lease_state" where
  "lease_new reg = \<lparr>ls_registry = reg, ls_idle_since = [], ls_connections = [], ls_evictions = [],
     ls_eviction_seq = 0,
     ls_counters = \<lparr>lc_sweep_count = 0, lc_expired = 0, lc_eviction_requests = 0,
       lc_eviction_acked = 0, lc_eviction_retries = 0, lc_eviction_exhausted = 0\<rparr>,
     ls_sent = []\<rparr>"

definition evict_id :: "u64 \<Rightarrow> string" where
  "evict_id n = ''evict:'' @ show_nat n"

definition send_idle_evict ::
  "actor_logical_key \<Rightarrow> actor_owner_fence \<Rightarrow> string \<Rightarrow> lease_state \<Rightarrow> lease_state" where
  "send_idle_evict key fence rid s =
     s\<lparr>ls_sent := ls_sent s @ [\<lparr>ie_key = key, ie_fence = fence, ie_eviction_request_id = rid,
        ie_connection = (case bt_get (ls_connections s) key of Some c \<Rightarrow> c | None \<Rightarrow> [])\<rparr>]\<rparr>"

section \<open>Operations\<close>

definition mark_live :: "actor_logical_key \<Rightarrow> u64 \<Rightarrow> string \<Rightarrow> lease_state \<Rightarrow> lease_state" where
  "mark_live key now conn s =
     s\<lparr>ls_idle_since := bt_insert key now (ls_idle_since s),
       ls_connections := bt_insert key conn (ls_connections s)\<rparr>"

definition mark_active :: "actor_logical_key \<Rightarrow> u64 \<Rightarrow> lease_state \<Rightarrow> lease_state" where
  "mark_active key now s = s\<lparr>ls_idle_since := bt_insert key now (ls_idle_since s)\<rparr>"

definition retry_eviction ::
  "lease_options \<Rightarrow> actor_logical_key \<Rightarrow> actor_owner_fence \<Rightarrow> eviction_state \<Rightarrow> lease_state \<Rightarrow> lease_state" where
  "retry_eviction opts key fence st s =
     (if es_exhausted st then s
      else if es_retries st \<ge> lo_max_eviction_retries opts then
        s\<lparr>ls_evictions := bt_insert key (st\<lparr>es_exhausted := True\<rparr>) (ls_evictions s),
          ls_counters := (ls_counters s)\<lparr>lc_eviction_exhausted := inc_u64 (lc_eviction_exhausted (ls_counters s))\<rparr>\<rparr>
      else
        let st' = st\<lparr>es_retries := es_retries st + 1\<rparr>;
            s1 = s\<lparr>ls_counters := (ls_counters s)\<lparr>lc_eviction_retries := inc_u64 (lc_eviction_retries (ls_counters s))\<rparr>\<rparr>;
            s2 = send_idle_evict key fence (es_eviction_request_id st) s1
        in s2\<lparr>ls_evictions := bt_insert key st' (ls_evictions s2)\<rparr>)"

definition start_eviction ::
  "actor_logical_key \<Rightarrow> actor_owner_fence \<Rightarrow> lease_state \<Rightarrow> lease_state" where
  "start_eviction key fence s =
     (let seq = inc_u64 (ls_eviction_seq s);
          rid = evict_id seq;
          s1 = s\<lparr>ls_eviction_seq := seq,
                 ls_registry := snd (own_request_eviction key rid (ls_registry s))\<rparr>;
          s2 = send_idle_evict key fence rid s1
      in s2\<lparr>ls_evictions := bt_insert key \<lparr>es_eviction_request_id = rid, es_retries = 0,
              es_exhausted = False\<rparr> (ls_evictions s2),
            ls_counters := (ls_counters s2)\<lparr>lc_eviction_requests := inc_u64 (lc_eviction_requests (ls_counters s2))\<rparr>\<rparr>)"

definition sweep_key :: "lease_options \<Rightarrow> u64 \<Rightarrow> actor_logical_key \<Rightarrow> lease_state \<Rightarrow> lease_state" where
  "sweep_key opts now key s =
     (case own_current_owner key (ls_registry s) of
        None \<Rightarrow> s
      | Some fence \<Rightarrow>
          (let idle_since = (case bt_get (ls_idle_since s) key of Some t \<Rightarrow> t | None \<Rightarrow> now) in
           if now - idle_since < lo_idle_ttl_ms opts then s
           else case bt_get (ls_evictions s) key of
             Some st \<Rightarrow> retry_eviction opts key fence st s
           | None \<Rightarrow> start_eviction key fence s))"

definition forget :: "actor_logical_key \<Rightarrow> lease_state \<Rightarrow> lease_state" where
  "forget key s =
     s\<lparr>ls_idle_since := bt_remove key (ls_idle_since s),
       ls_connections := bt_remove key (ls_connections s),
       ls_evictions := bt_remove key (ls_evictions s)\<rparr>"

definition expire_leases :: "u64 \<Rightarrow> lease_state \<Rightarrow> lease_state" where
  "expire_leases now s =
     (let (expired, reg) = own_expire now (ls_registry s);
          s1 = s\<lparr>ls_registry := reg,
                 ls_counters := (ls_counters s)\<lparr>lc_expired :=
                   (lc_expired (ls_counters s) + length expired) mod 18446744073709551616\<rparr>\<rparr>
      in fold (\<lambda>(key, fence). forget key) expired s1)"

definition sweep :: "lease_options \<Rightarrow> u64 \<Rightarrow> lease_state \<Rightarrow> lease_state" where
  "sweep opts now s =
     (let s1 = s\<lparr>ls_counters := (ls_counters s)\<lparr>lc_sweep_count := inc_u64 (lc_sweep_count (ls_counters s))\<rparr>\<rparr>
      in expire_leases now (fold (sweep_key opts now) (own_owned_keys (ls_registry s1)) s1))"

definition on_eviction_ack ::
  "actor_logical_key \<Rightarrow> string \<Rightarrow> lease_state \<Rightarrow> (lease_error + unit) \<times> lease_state" where
  "on_eviction_ack key rid s =
     (case bt_get (ls_evictions s) key of
        None \<Rightarrow> (Inl LeaseEvictionMismatch, s)
      | Some st \<Rightarrow>
          (if es_eviction_request_id st \<noteq> rid then (Inl LeaseEvictionMismatch, s)
           else case own_acknowledge_eviction key rid (ls_registry s) of
             (Inl _, reg) \<Rightarrow> (Inl LeaseEvictionMismatch, s\<lparr>ls_registry := reg\<rparr>)
           | (Inr _, reg) \<Rightarrow>
               (Inr (), s\<lparr>ls_registry := reg,
                  ls_evictions := bt_remove key (ls_evictions s),
                  ls_idle_since := bt_remove key (ls_idle_since s),
                  ls_connections := bt_remove key (ls_connections s),
                  ls_counters := (ls_counters s)\<lparr>lc_eviction_acked := inc_u64 (lc_eviction_acked (ls_counters s))\<rparr>\<rparr>)))"

definition lease_shutdown :: "lease_state \<Rightarrow> lease_state" where
  "lease_shutdown s = s\<lparr>ls_idle_since := [], ls_connections := [], ls_evictions := []\<rparr>"

record lease_health =
  lh_sweep_count :: u64
  lh_expired :: u64
  lh_idle_candidates :: u64
  lh_eviction_pending :: usize
  lh_eviction_acked :: u64
  lh_eviction_retries :: u64
  lh_eviction_exhausted :: u64

definition health_of_leases :: "lease_state \<Rightarrow> lease_health" where
  "health_of_leases s = \<lparr>lh_sweep_count = lc_sweep_count (ls_counters s),
     lh_expired = lc_expired (ls_counters s),
     lh_idle_candidates = lc_eviction_requests (ls_counters s),
     lh_eviction_pending = length (filter (\<lambda>st. \<not> es_exhausted st) (bt_values (ls_evictions s))),
     lh_eviction_acked = lc_eviction_acked (ls_counters s),
     lh_eviction_retries = lc_eviction_retries (ls_counters s),
     lh_eviction_exhausted = lc_eviction_exhausted (ls_counters s)\<rparr>"

section \<open>Steps\<close>

text \<open>Between the scheduler's own operations the registry may take any of its steps.\<close>

datatype lease_op =
    LeaseMarkLive actor_logical_key u64 string
  | LeaseMarkActive actor_logical_key u64
  | LeaseSweep u64
  | LeaseEvictionAck actor_logical_key string
  | LeaseForget actor_logical_key
  | LeaseShutdown
  | LeaseRegistry own_op

fun lease_exec :: "lease_options \<Rightarrow> lease_op \<Rightarrow> lease_state \<Rightarrow> lease_state" where
  "lease_exec opts (LeaseMarkLive k now c) s = mark_live k now c s"
| "lease_exec opts (LeaseMarkActive k now) s = mark_active k now s"
| "lease_exec opts (LeaseSweep now) s = sweep opts now s"
| "lease_exec opts (LeaseEvictionAck k x) s = snd (on_eviction_ack k x s)"
| "lease_exec opts (LeaseForget k) s = forget k s"
| "lease_exec opts LeaseShutdown s = lease_shutdown s"
| "lease_exec opts (LeaseRegistry op) s = s\<lparr>ls_registry := own_exec op (ls_registry s)\<rparr>"

text \<open>Steps up to the point where the eviction counter would wrap around in a sweep.\<close>

inductive lease_step :: "lease_options \<Rightarrow> lease_state \<Rightarrow> lease_state \<Rightarrow> bool" for opts where
  "ls_eviction_seq s + length (ow_entries (ls_registry s)) \<le> u64_max \<Longrightarrow>
   lease_step opts s (lease_exec opts op s)"

inductive_cases lease_stepE: "lease_step opts s s'"

section \<open>Every eviction request is sent a bounded number of times\<close>

definition sends :: "lease_state \<Rightarrow> string \<Rightarrow> nat" where
  "sends s x = length (filter (\<lambda>m. ie_eviction_request_id m = x) (ls_sent s))"

definition lease_inv :: "lease_options \<Rightarrow> lease_state \<Rightarrow> bool" where
  "lease_inv opts s \<longleftrightarrow> bt_ok (ls_evictions s) \<and>
     (\<forall>k st. bt_get (ls_evictions s) k = Some st \<longrightarrow>
        (\<exists>n \<le> ls_eviction_seq s. es_eviction_request_id st = evict_id n) \<and>
        es_retries st \<le> lo_max_eviction_retries opts \<and>
        sends s (es_eviction_request_id st) = Suc (es_retries st)) \<and>
     (\<forall>k k' st st'. bt_get (ls_evictions s) k = Some st \<longrightarrow> bt_get (ls_evictions s) k' = Some st' \<longrightarrow>
        es_eviction_request_id st = es_eviction_request_id st' \<longrightarrow> k = k') \<and>
     (\<forall>x. sends s x \<le> Suc (lo_max_eviction_retries opts)) \<and>
     (\<forall>n > ls_eviction_seq s. sends s (evict_id n) = 0)"

lemma evict_id_inject [simp]: "evict_id m = evict_id n \<longleftrightarrow> m = n"
  by (simp add: evict_id_def)

lemma sends_send [simp]:
  "sends (send_idle_evict k f x s) y = (if y = x then Suc (sends s y) else sends s y)"
  by (simp add: sends_def send_idle_evict_def)

lemma send_idle_evict_fields [simp]:
  "ls_evictions (send_idle_evict k f x s) = ls_evictions s"
  "ls_eviction_seq (send_idle_evict k f x s) = ls_eviction_seq s"
  "ls_registry (send_idle_evict k f x s) = ls_registry s"
  "ls_counters (send_idle_evict k f x s) = ls_counters s"
  "ls_idle_since (send_idle_evict k f x s) = ls_idle_since s"
  by (simp_all add: send_idle_evict_def)

lemma lease_invD:
  assumes "lease_inv opts s"
  shows "bt_ok (ls_evictions s)"
    and "bt_get (ls_evictions s) k = Some st \<Longrightarrow> \<exists>n \<le> ls_eviction_seq s. es_eviction_request_id st = evict_id n"
    and "bt_get (ls_evictions s) k = Some st \<Longrightarrow> es_retries st \<le> lo_max_eviction_retries opts"
    and "bt_get (ls_evictions s) k = Some st \<Longrightarrow> sends s (es_eviction_request_id st) = Suc (es_retries st)"
    and "bt_get (ls_evictions s) k = Some st \<Longrightarrow> bt_get (ls_evictions s) k' = Some st' \<Longrightarrow>
           es_eviction_request_id st = es_eviction_request_id st' \<Longrightarrow> k = k'"
    and "sends s x \<le> Suc (lo_max_eviction_retries opts)"
    and "ls_eviction_seq s < n \<Longrightarrow> sends s (evict_id n) = 0"
  using assms unfolding lease_inv_def by blast+

lemma lease_inv_sub:
  assumes "lease_inv opts s" and "ls_eviction_seq s' = ls_eviction_seq s" and "ls_sent s' = ls_sent s"
    and "bt_ok (ls_evictions s')"
    and "\<And>k st. bt_get (ls_evictions s') k = Some st \<Longrightarrow> bt_get (ls_evictions s) k = Some st"
  shows "lease_inv opts s'"
proof -
  note i = lease_invD [OF assms(1)] and sub = assms(5)
  have snd: "sends s' = sends s" using assms(3) by (simp add: sends_def fun_eq_iff)
  show ?thesis unfolding lease_inv_def snd assms(2)
  proof (intro conjI allI impI)
    fix k k' st st'
    assume "bt_get (ls_evictions s') k = Some st" "bt_get (ls_evictions s') k' = Some st'"
      "es_eviction_request_id st = es_eviction_request_id st'"
    then show "k = k'" using i(5) sub by blast
  qed (use i sub assms(4) in blast)+
qed

lemma retry_eviction_inv:
  assumes "lease_inv opts s" and "bt_get (ls_evictions s) k = Some st"
  shows "lease_inv opts (retry_eviction opts k f st s)"
proof -
  note i = lease_invD [OF assms(1)]
  obtain n where n: "n \<le> ls_eviction_seq s" "es_eviction_request_id st = evict_id n"
    using i(2) [OF assms(2)] by blast
  let ?s' = "retry_eviction opts k f st s"
  consider "es_exhausted st" | "\<not> es_exhausted st" "lo_max_eviction_retries opts \<le> es_retries st"
    | "\<not> es_exhausted st" "\<not> lo_max_eviction_retries opts \<le> es_retries st" by blast
  then show ?thesis
  proof cases
    case 2
    then have "sends ?s' = sends s" "ls_eviction_seq ?s' = ls_eviction_seq s"
      "ls_evictions ?s' = bt_insert k (st\<lparr>es_exhausted := True\<rparr>) (ls_evictions s)"
      by (simp_all add: retry_eviction_def sends_def fun_eq_iff)
    then show ?thesis unfolding lease_inv_def
      using i assms(2) by (auto simp: bt.ok_ins bt.get_ins)
  next
    case 3
    have s: "sends ?s' y = (if y = evict_id n then Suc (sends s y) else sends s y)"
      "ls_eviction_seq ?s' = ls_eviction_seq s"
      "ls_evictions ?s' = bt_insert k (st\<lparr>es_retries := Suc (es_retries st)\<rparr>) (ls_evictions s)" for y
      using 3 n(2) by (simp_all add: retry_eviction_def Let_def) (simp_all add: sends_def send_idle_evict_def)
    have cnt: "sends s (evict_id n) = Suc (es_retries st)" using i(4) [OF assms(2)] n(2) by simp
    have others: "es_eviction_request_id st' \<noteq> evict_id n" if "bt_get (ls_evictions s) k' = Some st'" "k' \<noteq> k" for k' st'
      using i(5) [OF assms(2) that(1)] that(2) n(2) by auto
    show ?thesis unfolding lease_inv_def s
      using i cnt 3 n assms(2) others by (auto simp: bt.ok_ins bt.get_ins)
  qed (use assms(1) in \<open>simp add: retry_eviction_def\<close>)
qed

lemma start_eviction_inv:
  assumes "lease_inv opts s" and "ls_eviction_seq s < u64_max"
  shows "lease_inv opts (start_eviction k f s)" and "ls_eviction_seq (start_eviction k f s) = Suc (ls_eviction_seq s)"
proof -
  note i = lease_invD [OF assms(1)]
  let ?n = "Suc (ls_eviction_seq s)" and ?s' = "start_eviction k f s"
  have s: "sends ?s' y = (if y = evict_id ?n then Suc (sends s y) else sends s y)"
    "ls_eviction_seq ?s' = ?n"
    "ls_evictions ?s' = bt_insert k \<lparr>es_eviction_request_id = evict_id ?n, es_retries = 0, es_exhausted = False\<rparr>
       (ls_evictions s)" for y
    using assms(2) by (simp_all add: start_eviction_def Let_def) (simp_all add: sends_def send_idle_evict_def)
  have fresh: "sends s (evict_id ?n) = 0" using i(7) by simp
  have others: "es_eviction_request_id st' \<noteq> evict_id ?n" if "bt_get (ls_evictions s) k' = Some st'" for k' st'
    using i(2) [OF that] by fastforce
  show "ls_eviction_seq ?s' = ?n" by (rule s)
  show "lease_inv opts ?s'" unfolding lease_inv_def s
  proof (intro conjI allI impI)
    fix k' st assume "bt_get (bt_insert k \<lparr>es_eviction_request_id = evict_id ?n, es_retries = 0, es_exhausted = False\<rparr>
       (ls_evictions s)) k' = Some st"
    then show "\<exists>n \<le> ?n. es_eviction_request_id st = evict_id n"
      "es_retries st \<le> lo_max_eviction_retries opts"
      "(if es_eviction_request_id st = evict_id ?n then Suc (sends s (es_eviction_request_id st))
        else sends s (es_eviction_request_id st)) = Suc (es_retries st)"
      using i(1-4) fresh others by (fastforce simp: bt.get_ins split: if_splits)+
  next
    fix k1 k2 st1 st2
    assume "bt_get (bt_insert k \<lparr>es_eviction_request_id = evict_id ?n, es_retries = 0, es_exhausted = False\<rparr>
       (ls_evictions s)) k1 = Some st1"
      "bt_get (bt_insert k \<lparr>es_eviction_request_id = evict_id ?n, es_retries = 0, es_exhausted = False\<rparr>
       (ls_evictions s)) k2 = Some st2"
      "es_eviction_request_id st1 = es_eviction_request_id st2"
    then show "k1 = k2"
      using others [of k1 st1] others [of k2 st2] i(5) [of k1 st1 k2 st2]
      by (auto simp: bt.get_ins [OF i(1)] split: if_splits)
  qed (use i fresh in \<open>auto simp: bt.ok_ins\<close>)
qed

lemma sweep_key_inv:
  assumes "lease_inv opts s" and "ls_eviction_seq s < u64_max"
  shows "lease_inv opts (sweep_key opts now k s) \<and> ls_eviction_seq (sweep_key opts now k s) \<le> Suc (ls_eviction_seq s)"
proof -
  have "ls_eviction_seq (retry_eviction opts k f st s) = ls_eviction_seq s" for f st
    by (simp add: retry_eviction_def Let_def)
  then show ?thesis
    using assms retry_eviction_inv [OF assms(1)] start_eviction_inv [OF assms]
    by (auto simp: sweep_key_def Let_def split: option.split)
qed

lemma sweep_keys_inv:
  "lease_inv opts s \<Longrightarrow> ls_eviction_seq s + length ks \<le> u64_max \<Longrightarrow>
   lease_inv opts (fold (sweep_key opts now) ks s)"
proof (induction ks arbitrary: s)
  case (Cons k ks)
  then have "lease_inv opts (sweep_key opts now k s) \<and> ls_eviction_seq (sweep_key opts now k s) \<le> Suc (ls_eviction_seq s)"
    by (intro sweep_key_inv) auto
  then show ?case using Cons by auto
qed simp

lemma forget_inv: "lease_inv opts s \<Longrightarrow> lease_inv opts (forget k s)"
  by (rule lease_inv_sub [of opts s])
     (auto simp: forget_def bt.ok_del bt.get_del lease_invD(1) split: if_splits)

lemma fold_forget_inv: "lease_inv opts s \<Longrightarrow> lease_inv opts (fold (\<lambda>(k, f). forget k) xs s)"
  by (induction xs arbitrary: s) (auto intro: forget_inv)

lemma expire_leases_inv: "lease_inv opts s \<Longrightarrow> lease_inv opts (expire_leases now s)"
  by (auto simp: expire_leases_def split: prod.split intro!: fold_forget_inv lease_inv_sub [of opts s]
      dest: lease_invD(1))

lemma owned_keys_length: "length (own_owned_keys s) \<le> length (ow_entries s)"
  by (simp add: own_owned_keys_def)

lemma lease_inv_step: "lease_inv opts s \<Longrightarrow> lease_step opts s s' \<Longrightarrow> lease_inv opts s'"
proof (elim lease_stepE)
  fix op
  assume inv: "lease_inv opts s" and s': "s' = lease_exec opts op s"
    and room: "ls_eviction_seq s + length (ow_entries (ls_registry s)) \<le> u64_max"
  note sub = lease_inv_sub [OF inv] and ok = lease_invD(1) [OF inv]
  show "lease_inv opts s'"
  proof (cases op)
    case (LeaseSweep now)
    let ?s1 = "s\<lparr>ls_counters := (ls_counters s)\<lparr>lc_sweep_count := inc_u64 (lc_sweep_count (ls_counters s))\<rparr>\<rparr>"
    have "lease_inv opts ?s1" using ok by (intro sub) auto
    moreover have "ls_eviction_seq ?s1 + length (own_owned_keys (ls_registry ?s1)) \<le> u64_max"
      using room owned_keys_length [of "ls_registry s"] by simp
    ultimately show ?thesis
      using LeaseSweep s' by (simp add: sweep_def expire_leases_inv sweep_keys_inv)
  next
    case (LeaseEvictionAck k x)
    show ?thesis unfolding s' LeaseEvictionAck using inv ok
      by (auto simp: on_eviction_ack_def bt.ok_del bt.get_del intro!: sub
          split: option.split sum.split prod.split if_splits)
  next
    case (LeaseForget k)
    with s' forget_inv [OF inv] show ?thesis by simp
  qed (use ok s' in \<open>auto simp: mark_live_def mark_active_def lease_shutdown_def intro!: sub\<close>)
qed

lemma lease_inv_new: "lease_inv opts (lease_new reg)"
  by (simp add: lease_inv_def lease_new_def sends_def)

lemma lease_run_inv: "(lease_step opts)\<^sup>*\<^sup>* (lease_new reg) s \<Longrightarrow> lease_inv opts s"
  by (induction rule: rtranclp_induct) (auto intro: lease_inv_new lease_inv_step)

section \<open>Properties\<close>

text \<open>Whatever sequence of sweeps, acknowledgements, activity marks, disconnects and registry
  operations happens, one eviction request is sent to the owner at most once plus the
  configured number of retries.\<close>

theorem idle_evict_sends_bounded:
  assumes "(lease_step opts)\<^sup>*\<^sup>* (lease_new reg) s"
  shows "length (filter (\<lambda>m. ie_eviction_request_id m = x) (ls_sent s)) \<le> Suc (lo_max_eviction_retries opts)"
  using lease_invD(6) [OF lease_run_inv [OF assms]] by (simp add: sends_def)

text \<open>What a sweep does to one key while it visits the others.\<close>

definition same_at :: "actor_logical_key \<Rightarrow> lease_state \<Rightarrow> lease_state \<Rightarrow> bool" where
  "same_at k s s' \<longleftrightarrow>
     bt_get (ls_evictions s') k = bt_get (ls_evictions s) k \<and> ls_idle_since s' = ls_idle_since s \<and>
     own_entry (ls_registry s') k = own_entry (ls_registry s) k \<and>
     filter (\<lambda>m. ie_key m = k) (ls_sent s') = filter (\<lambda>m. ie_key m = k) (ls_sent s)"

definition maps_ok :: "lease_state \<Rightarrow> bool" where
  "maps_ok s \<longleftrightarrow> bt_ok (ls_evictions s) \<and> bt_ok (ow_entries (ls_registry s))"

lemma same_at_trans: "same_at k a b \<Longrightarrow> same_at k b c \<Longrightarrow> same_at k a c"
  by (simp add: same_at_def)

lemma request_eviction_entry:
  assumes "bt_ok (ow_entries r)"
  shows "bt_ok (ow_entries (snd (own_request_eviction j x r)))"
    and "own_entry (snd (own_request_eviction j x r)) k =
      (if k = j then map_option (\<lambda>e. if ae_owner e = None then e else e\<lparr>ae_eviction_request_id := Some x\<rparr>) (own_entry r j)
       else own_entry r k)"
  using assms by (auto simp: own_request_eviction_def bt.ok_ins bt.get_ins split: option.split)

lemma sweep_key_maps_ok: "maps_ok s \<Longrightarrow> maps_ok (sweep_key opts now j s)"
  by (auto simp: maps_ok_def sweep_key_def retry_eviction_def start_eviction_def Let_def bt.ok_ins
      request_eviction_entry(1) split: option.split)

lemma sweep_key_other:
  assumes "maps_ok s" and "j \<noteq> k"
  shows "same_at k s (sweep_key opts now j s)"
  using assms
  by (auto simp: maps_ok_def same_at_def sweep_key_def retry_eviction_def start_eviction_def Let_def bt.get_ins
      request_eviction_entry(2) send_idle_evict_def split: option.split)

lemma sweep_keys_other:
  "maps_ok s \<Longrightarrow> k \<notin> set ks \<Longrightarrow>
   maps_ok (fold (sweep_key opts now) ks s) \<and> same_at k s (fold (sweep_key opts now) ks s)"
proof (induction ks arbitrary: s)
  case (Cons j ks)
  have 1: "maps_ok (sweep_key opts now j s)" "same_at k s (sweep_key opts now j s)"
    using Cons.prems sweep_key_maps_ok sweep_key_other by auto
  show ?case using Cons.IH [OF 1(1)] Cons.prems(2) same_at_trans [OF 1(2)] by auto
qed (simp add: same_at_def)

lemma fold_forget_other:
  "k \<notin> fst ` set xs \<Longrightarrow> ls_registry (fold (\<lambda>(j, f). forget j) xs s) = ls_registry s \<and>
     ls_sent (fold (\<lambda>(j, f). forget j) xs s) = ls_sent s \<and>
     bt_get (ls_evictions (fold (\<lambda>(j, f). forget j) xs s)) k = bt_get (ls_evictions s) k"
  by (induction xs arbitrary: s) (auto simp: forget_def bt_get_remove)

lemma expire_leases_evicting:
  assumes "own_entry (ls_registry s) k = Some e" and "ae_eviction_request_id e \<noteq> None"
    and "bt_ok (ow_entries (ls_registry s))"
  shows "own_entry (ls_registry (expire_leases now s)) k = Some e \<and>
     bt_get (ls_evictions (expire_leases now s)) k = bt_get (ls_evictions s) k \<and>
     ls_sent (expire_leases now s) = ls_sent s"
proof -
  obtain x r where x: "own_expire now (ls_registry s) = (x, r)" by fastforce
  note eff = own_expire_effect [OF assms(3) x]
  have "expire_entry now e = e" using assms(2) by (auto simp: expire_entry_def split: option.split)
  then have "own_entry r k = Some e" using assms(1) by (simp add: eff(3))
  moreover have "k \<notin> fst ` set x"
    using assms(1,2) by (auto simp: eff(4) expired_fence_def split: option.splits if_splits)
  ultimately show ?thesis
    using fold_forget_other [of k x] by (simp add: expire_leases_def x Let_def)
qed

lemma owned_keys_distinct: "bt_ok (ow_entries s) \<Longrightarrow> distinct (own_owned_keys s)"
  using bt.distinct_keys [of "ow_entries s"] by (simp add: own_owned_keys_def bt_keys_def distinct_map_filter)

lemma owned_keys_in: "own_entry s k = Some e \<Longrightarrow> ae_owner e = Some f \<Longrightarrow> k \<in> set (own_owned_keys s)"
  by (force simp: own_owned_keys_def dest: bt_get_in_set)

text \<open>One sweep acts on each owned key once and leaves evicting owners alone afterwards.\<close>

lemma sweep_at_key:
  assumes "maps_ok s" and "own_entry (ls_registry s) k = Some e" and "ae_owner e = Some f"
  obtains s1 s2 where "same_at k s s1" and "maps_ok s1" and "same_at k (sweep_key opts now k s1) s2"
    and "maps_ok s2" and "sweep opts now s = expire_leases now s2"
proof -
  let ?s0 = "s\<lparr>ls_counters := (ls_counters s)\<lparr>lc_sweep_count := inc_u64 (lc_sweep_count (ls_counters s))\<rparr>\<rparr>"
  let ?ks = "own_owned_keys (ls_registry s)"
  have m0: "maps_ok ?s0" "same_at k s ?s0" using assms(1) by (auto simp: maps_ok_def same_at_def)
  obtain a b where ks: "?ks = a @ k # b" using owned_keys_in [OF assms(2,3)] split_list by metis
  then have nin: "k \<notin> set a" "k \<notin> set b"
    using owned_keys_distinct [of "ls_registry s"] assms(1) by (auto simp: maps_ok_def)
  let ?s1 = "fold (sweep_key opts now) a ?s0"
  let ?s2 = "fold (sweep_key opts now) b (sweep_key opts now k ?s1)"
  have 1: "maps_ok ?s1" "same_at k s ?s1"
    using sweep_keys_other [OF m0(1) nin(1)] same_at_trans [OF m0(2)] by auto
  have 2: "maps_ok ?s2" "same_at k (sweep_key opts now k ?s1) ?s2"
    using sweep_keys_other [OF sweep_key_maps_ok [OF 1(1)] nin(2)] by auto
  have "sweep opts now s = expire_leases now ?s2" by (simp add: sweep_def ks)
  with 1 2 show thesis using that by blast
qed

lemma expire_leases_maps_ok:
  assumes "maps_ok s"
  shows "maps_ok (expire_leases now s)"
proof -
  obtain x r where x: "own_expire now (ls_registry s) = (x, r)" by fastforce
  have "maps_ok (fold (\<lambda>(j, f). forget j) y t)" if "maps_ok t" for y t
    using that by (induction y arbitrary: t) (auto simp: maps_ok_def forget_def bt.ok_del)
  note forgets = this
  show ?thesis unfolding expire_leases_def x Let_def prod.case
    by (rule forgets) (use assms own_expire_effect(1) [OF _ x] in \<open>simp add: maps_ok_def\<close>)
qed

lemma own_exec_ok: "bt_ok (ow_entries r) \<Longrightarrow> bt_ok (ow_entries (own_exec op r))"
proof (cases op)
  case (OwnExpire now)
  assume "bt_ok (ow_entries r)"
  then show ?thesis using OwnExpire own_expire_effect(1) by (metis own_exec.simps(7) surjective_pairing)
qed (auto simp: own_ensure_present_def own_reserve_def own_commit_def own_abort_def own_renew_def
    own_release_def own_request_eviction_def own_acknowledge_eviction_def own_advance_incarnation_def
    Let_def bt.ok_ins split: option.split)

lemma sweep_maps_ok: "maps_ok s \<Longrightarrow> maps_ok (sweep opts now s)"
proof -
  have "maps_ok t \<Longrightarrow> maps_ok (fold (sweep_key opts now) ks t)" for ks t
    by (induction ks arbitrary: t) (auto intro: sweep_key_maps_ok)
  note keys = this
  assume "maps_ok s"
  then show ?thesis unfolding sweep_def Let_def
    by (intro expire_leases_maps_ok keys) (simp add: maps_ok_def)
qed

lemma lease_exec_maps_ok: "maps_ok s \<Longrightarrow> maps_ok (lease_exec opts op s)"
proof (cases op)
  case (LeaseEvictionAck k x)
  assume "maps_ok s"
  moreover from this have "bt_ok (ow_entries (snd (own_acknowledge_eviction k x (ls_registry s))))"
    using own_exec_ok [of "ls_registry s" "OwnAcknowledgeEviction k x"] by (simp add: maps_ok_def)
  ultimately show ?thesis using LeaseEvictionAck
    by (auto simp: on_eviction_ack_def maps_ok_def bt.ok_del split: option.split prod.split sum.split)
next
  case (LeaseSweep now)
  assume "maps_ok s"
  with LeaseSweep show ?thesis by (simp add: sweep_maps_ok)
qed (auto simp: maps_ok_def mark_live_def mark_active_def forget_def lease_shutdown_def
    bt.ok_del own_exec_ok)

lemma lease_run_maps_ok: "(lease_step opts)\<^sup>*\<^sup>* (lease_new own_new) s \<Longrightarrow> maps_ok s"
proof (induction rule: rtranclp_induct)
  case base
  then show ?case by (simp add: maps_ok_def lease_new_def own_new_def)
next
  case (step t u)
  then show ?case by (auto elim!: lease_stepE intro: lease_exec_maps_ok)
qed

definition stuck :: "actor_logical_key \<Rightarrow> actor_entry \<Rightarrow> lease_state \<Rightarrow> bool" where
  "stuck k e s \<longleftrightarrow> maps_ok s \<and> own_entry (ls_registry s) k = Some e \<and>
     ae_owner e \<noteq> None \<and> ae_eviction_request_id e \<noteq> None \<and>
     (\<exists>st. bt_get (ls_evictions s) k = Some st \<and> es_exhausted st)"

lemma sweep_stuck:
  assumes "stuck k e s"
  shows "stuck k e (sweep opts now s) \<and>
    filter (\<lambda>m. ie_key m = k) (ls_sent (sweep opts now s)) = filter (\<lambda>m. ie_key m = k) (ls_sent s)"
proof -
  obtain f st where e: "maps_ok s" "own_entry (ls_registry s) k = Some e" "ae_owner e = Some f"
    "ae_eviction_request_id e \<noteq> None" "bt_get (ls_evictions s) k = Some st" "es_exhausted st"
    using assms by (auto simp: stuck_def)
  obtain s1 s2 where s: "same_at k s s1" "maps_ok s1" "same_at k (sweep_key opts now k s1) s2" "maps_ok s2"
    "sweep opts now s = expire_leases now s2" using sweep_at_key [OF e(1-3)] by metis
  have "sweep_key opts now k s1 = s1"
    using s(1) e by (simp add: same_at_def sweep_key_def own_current_owner_def retry_eviction_def)
  then have s2: "same_at k s s2" using s(1,3) same_at_trans by simp
  then have "own_entry (ls_registry s2) k = Some e" using e(2) by (simp add: same_at_def)
  from expire_leases_evicting [OF this e(4)] s(4,5) s2 e(3-6) expire_leases_maps_ok [OF s(4)]
  show ?thesis by (auto simp: stuck_def same_at_def maps_ok_def)
qed

text \<open>When the eviction retries of an actor are exhausted, its owner is kept and the key stays
  closed: no number of further sweeps, at any times, removes the owner, sends it another frame
  or makes the key reservable, however long its lease has been expired.\<close>

theorem exhausted_eviction_keeps_owner:
  assumes "(lease_step opts)\<^sup>*\<^sup>* (lease_new own_new) s"
    and "own_entry (ls_registry s) k = Some e" and "ae_owner e = Some f"
    and "ae_eviction_request_id e = Some x"
    and "bt_get (ls_evictions s) k = Some st" and "es_exhausted st"
    and "s' = fold (sweep opts) nows s"
  shows "own_current_owner k (ls_registry s') = Some f \<and>
     filter (\<lambda>m. ie_key m = k) (ls_sent s') = filter (\<lambda>m. ie_key m = k) (ls_sent s) \<and>
     (\<exists>err. fst (own_reserve k ep rt b now (ls_registry s')) = Inl err)"
proof -
  have "stuck k e s"
    using assms(2-6) lease_run_maps_ok [OF assms(1)] by (simp add: stuck_def)
  then have "stuck k e (fold (sweep opts) nows s) \<and>
     filter (\<lambda>m. ie_key m = k) (ls_sent (fold (sweep opts) nows s)) = filter (\<lambda>m. ie_key m = k) (ls_sent s)"
  proof (induction nows arbitrary: s)
    case (Cons n nows)
    from sweep_stuck [OF Cons.prems, of opts n] Cons.IH [of "sweep opts n s"] show ?case by simp
  qed simp
  then show ?thesis using assms(3,4,7)
    by (auto simp: stuck_def own_current_owner_def own_reserve_def)
qed

text \<open>The sweep that finds an owner idle asks it to evict itself before anything expires: it sends
  one idle-evict frame, records the request in the registry and keeps the owner even if its
  lease runs out in the same tick, so that no reservation of the key is possible until the
  eviction is acknowledged.\<close>

theorem idle_sweep_requests_eviction_first:
  assumes "(lease_step opts)\<^sup>*\<^sup>* (lease_new own_new) s"
    and "own_entry (ls_registry s) k = Some e" and "ae_owner e = Some f"
    and "bt_get (ls_evictions s) k = None"
    and "bt_get (ls_idle_since s) k = Some t" and "lo_idle_ttl_ms opts \<le> now - t"
    and "s' = sweep opts now s"
  shows "\<exists>x. own_entry (ls_registry s') k = Some (e\<lparr>ae_eviction_request_id := Some x\<rparr>) \<and>
     (\<exists>m. filter (\<lambda>m. ie_key m = k) (ls_sent s') = filter (\<lambda>m. ie_key m = k) (ls_sent s) @ [m] \<and>
        ie_fence m = f \<and> ie_eviction_request_id m = x) \<and>
     (\<exists>err. fst (own_reserve k ep rt b later (ls_registry s')) = Inl err)"
proof -
  note ok = lease_run_maps_ok [OF assms(1)]
  obtain s1 s2 where s: "same_at k s s1" "maps_ok s1" "same_at k (sweep_key opts now k s1) s2" "maps_ok s2"
    "sweep opts now s = expire_leases now s2" using sweep_at_key [OF ok assms(2,3)] by metis
  let ?x = "evict_id (inc_u64 (ls_eviction_seq s1))"
  have start: "sweep_key opts now k s1 = start_eviction k f s1"
    using s(1) assms(2-6) by (simp add: same_at_def sweep_key_def own_current_owner_def)
  have ent: "own_entry (ls_registry s2) k = Some (e\<lparr>ae_eviction_request_id := Some ?x\<rparr>)"
    using s(1-3) start assms(2,3)
    by (simp add: same_at_def start_eviction_def Let_def request_eviction_entry maps_ok_def)
  have snt: "\<exists>m. filter (\<lambda>m. ie_key m = k) (ls_sent s2) = filter (\<lambda>m. ie_key m = k) (ls_sent s) @ [m] \<and>
      ie_fence m = f \<and> ie_eviction_request_id m = ?x"
    using s(1,3) start by (simp add: same_at_def start_eviction_def Let_def send_idle_evict_def)
  have "own_entry (ls_registry s') k = Some (e\<lparr>ae_eviction_request_id := Some ?x\<rparr>) \<and> ls_sent s' = ls_sent s2"
    using expire_leases_evicting [OF ent] s(4,5) assms(7) by (simp add: maps_ok_def)
  then show ?thesis using snt by (auto simp: own_reserve_def)
qed

section \<open>Sample runs\<close>

definition demo_opts :: lease_options where
  "demo_opts = \<lparr>lo_idle_ttl_ms = 30, lo_max_eviction_retries = 0\<rparr>"

definition run_ops :: "lease_op list \<Rightarrow> lease_state" where
  "run_ops ops = fold (lease_exec demo_opts) ops (lease_new own_new)"

definition demo_live_ops :: "lease_op list" where
  "demo_live_ops = [LeaseRegistry (OwnEnsurePresent demo_key ''abi'' ''impl'' demo_decl []),
     LeaseRegistry (OwnReserve demo_key 1 ''rt-a'' ''b'' 0),
     LeaseRegistry (OwnCommit demo_token (demo_facts ''owner-lease-1'') 0 30),
     LeaseMarkLive demo_key 0 ''conn-a'']"

lemma evict_id_1: "evict_id (Suc 0) = ''evict:1''"
  by code_simp

lemma claim_id_mint_1: "claim_id_mint (Suc 0) = ''actor-claim-1''"
  by code_simp

lemmas lease_eval = lease_new_def own_new_def own_ensure_present_def own_reserve_def own_commit_def bt_get_def
  Let_def claim_id_mint_0 claim_id_mint_1 inc_u64_def demo_facts_def demo_token_def demo_key_def commit_fence_def
  saturating_add_u64_def u64_max_def mark_live_def sweep_def expire_leases_def own_owned_keys_def sweep_key_def
  own_current_owner_def start_eviction_def own_request_eviction_def send_idle_evict_def evict_id_1
  own_expire_def expire_key_def bt_keys_def own_counts demo_opts_def retry_eviction_def
  own_acknowledge_eviction_def on_eviction_ack_def bt_remove_def forget_def demo_live_ops_def run_ops_def

lemma run_ops_step:
  assumes "(lease_step demo_opts)\<^sup>*\<^sup>* (lease_new own_new) (run_ops ops)"
    and "ls_eviction_seq (run_ops ops) + length (ow_entries (ls_registry (run_ops ops))) \<le> u64_max"
  shows "(lease_step demo_opts)\<^sup>*\<^sup>* (lease_new own_new) (run_ops (ops @ [op]))"
  using assms lease_step.intros [of "run_ops ops" demo_opts op]
  by (simp add: run_ops_def rtranclp.rtrancl_into_rtrancl)

lemma demo_live_reachable: "(lease_step demo_opts)\<^sup>*\<^sup>* (lease_new own_new) (run_ops demo_live_ops)"
proof -
  have 0: "(lease_step demo_opts)\<^sup>*\<^sup>* (lease_new own_new) (run_ops [])" by (simp add: run_ops_def)
  have 1: "(lease_step demo_opts)\<^sup>*\<^sup>* (lease_new own_new) (run_ops ([] @ [demo_live_ops ! 0]))"
    by (rule run_ops_step [OF 0]) (simp add: lease_eval)
  have 2: "(lease_step demo_opts)\<^sup>*\<^sup>* (lease_new own_new) (run_ops (([] @ [demo_live_ops ! 0]) @ [demo_live_ops ! 1]))"
    by (rule run_ops_step [OF 1]) (simp add: lease_eval)
  have 3: "(lease_step demo_opts)\<^sup>*\<^sup>* (lease_new own_new)
      (run_ops ((([] @ [demo_live_ops ! 0]) @ [demo_live_ops ! 1]) @ [demo_live_ops ! 2]))"
    by (rule run_ops_step [OF 2]) (simp add: lease_eval)
  have "(lease_step demo_opts)\<^sup>*\<^sup>* (lease_new own_new)
      (run_ops (((([] @ [demo_live_ops ! 0]) @ [demo_live_ops ! 1]) @ [demo_live_ops ! 2]) @ [demo_live_ops ! 3]))"
    by (rule run_ops_step [OF 3]) (simp add: lease_eval)
  then show ?thesis by (simp add: demo_live_ops_def)
qed

lemma demo_swept_reachable:
  "(lease_step demo_opts)\<^sup>*\<^sup>* (lease_new own_new) (run_ops ((demo_live_ops @ [LeaseSweep 30]) @ [LeaseSweep 60]))"
  by (rule run_ops_step [OF run_ops_step [OF demo_live_reachable]]) (simp_all add: lease_eval)

theorem idle_evict_sends_bounded_witness:
  "length (filter (\<lambda>m. ie_eviction_request_id m = ''evict:1'')
     (ls_sent (run_ops ((demo_live_ops @ [LeaseSweep 30]) @ [LeaseSweep 60])))) \<le> Suc 0"
  using idle_evict_sends_bounded [OF demo_swept_reachable, of "''evict:1''"] by (simp add: demo_opts_def)

theorem exhausted_eviction_keeps_owner_witness:
  "\<exists>f. own_current_owner demo_key (ls_registry (fold (sweep demo_opts) [1000, 2000]
     (run_ops ((demo_live_ops @ [LeaseSweep 30]) @ [LeaseSweep 60])))) = Some f"
proof -
  let ?s = "run_ops ((demo_live_ops @ [LeaseSweep 30]) @ [LeaseSweep 60])"
  have "\<exists>e f st. own_entry (ls_registry ?s) demo_key = Some e \<and> ae_owner e = Some f \<and>
      ae_eviction_request_id e = Some ''evict:1'' \<and> bt_get (ls_evictions ?s) demo_key = Some st \<and> es_exhausted st"
    by (simp add: lease_eval)
  then show ?thesis
    using exhausted_eviction_keeps_owner [OF demo_swept_reachable] by blast
qed

theorem idle_sweep_requests_eviction_first_witness:
  "\<exists>x err. fst (own_reserve demo_key 1 ''rt-b'' ''b'' 99 (ls_registry (sweep demo_opts 30 (run_ops demo_live_ops)))) = Inl err \<and>
     (\<exists>e. own_entry (ls_registry (sweep demo_opts 30 (run_ops demo_live_ops))) demo_key = Some e \<and>
        ae_eviction_request_id e = Some x)"
proof -
  let ?s = "run_ops demo_live_ops"
  have "\<exists>e f. own_entry (ls_registry ?s) demo_key = Some e \<and> ae_owner e = Some f \<and>
      bt_get (ls_evictions ?s) demo_key = None \<and> bt_get (ls_idle_since ?s) demo_key = Some 0"
    by (simp add: lease_eval)
  then obtain e f where d: "own_entry (ls_registry ?s) demo_key = Some e" "ae_owner e = Some f"
      "bt_get (ls_evictions ?s) demo_key = None" "bt_get (ls_idle_since ?s) demo_key = Some 0" by blast
  show ?thesis
    using idle_sweep_requests_eviction_first [OF demo_live_reachable d, of 30, OF _ refl, of 1 "''rt-b''" "''b''" 99]
    by (auto simp: demo_opts_def)
qed

text \<open>A reservation taken over an expired owner survives a sweep that marks that old owner for
  eviction, and committing it does not clear the mark: the acknowledgement of the old owner's
  eviction then removes the new owner, and the key can be reserved again while the new owner's
  lease is still running.\<close>

theorem stale_eviction_removes_new_owner:
  "let s = run_ops (demo_live_ops @
         [LeaseRegistry (OwnReserve demo_key 1 ''rt-b'' ''b'' 40), LeaseSweep 40,
          LeaseRegistry (OwnCommit (demo_token\<lparr>ct_claim_id := ''actor-claim-1'', ct_owner_runtime_id := ''rt-b''\<rparr>)
            (demo_facts ''owner-lease-2'') 41 30)]);
       s' = snd (on_eviction_ack demo_key ''evict:1'' s)
   in (\<exists>f. own_current_owner demo_key (ls_registry s) = Some f \<and> of_owner_runtime_id f = ''rt-b'' \<and>
         of_lease_expires_at f = 71) \<and>
      fst (on_eviction_ack demo_key ''evict:1'' s) = Inr () \<and>
      own_current_owner demo_key (ls_registry s') = None \<and>
      (\<exists>t. fst (own_reserve demo_key 1 ''rt-c'' ''b'' 42 (ls_registry s')) = Inr t)"
  by (simp add: lease_eval)

end
