(* ===== verification/Actor_Activation.thy ===== *)
theory Actor_Activation
  imports Actor_Ownership
begin

text \<open>
  \<open>ActorActivationRequestBroker\<close> of \<open>router/src/actor/activation.rs\<close>: deduplicated
  get-or-create admission, exact acknowledgement correlation, activation deadlines and
  shutdown, over the shared ownership registry. The \<open>activateInitial\<close> port is an argument of
  each admission, so it may answer differently every time. The broker's own lock is held through each of its
  calls, but the registry has its own lock, which a call takes several times (\<open>get_or_create\<close> looks up the owner
  and the entry, ensures the entry and reserves it): a call is one step here, so registry operations of other
  services between these accesses are outside the model. Waking asynchronous waiters has no
  effect on the state and is not modelled.
\<close>

section \<open>State\<close>

record activation_options =
  ao_activation_deadline_ms :: u64
  ao_lease_ttl_ms :: u64
  ao_max_claims :: usize
  ao_max_tombstones :: usize

definition default_activation_options :: activation_options where
  "default_activation_options = \<lparr>ao_activation_deadline_ms = DEFAULT_ACTIVATION_DEADLINE_MS,
     ao_lease_ttl_ms = DEFAULT_OWNER_LEASE_TTL_MS, ao_max_claims = DEFAULT_ACTOR_PENDING_BUDGET,
     ao_max_tombstones = DEFAULT_ACTOR_TOMBSTONE_BUDGET\<rparr>"

record actor_method_deadline =
  md_timeout_ms :: u64
  md_expires_at :: string

record activate_initial_request =
  ai_request_id :: string
  ai_actor_key :: actor_logical_key
  ai_facts :: commit_fence_facts
  ai_owner_runtime_id :: string
  ai_owner_connection :: string
  ai_build_id :: string
  ai_bootstrap_bytes :: "nat list"
  ai_deadline :: actor_method_deadline
  ai_test_case_capability :: "string option"
  ai_test_case_parent_request_id :: "string option"

record get_or_create_request =
  gc_rpc_id :: string
  gc_actor_key :: actor_logical_key
  gc_actor_abi_identity :: string
  gc_actor_implementation_identity :: string
  gc_declaration_owner :: actor_declaration_owner_header
  gc_bootstrap_bytes :: "nat list"
  gc_owner_runtime_id :: string
  gc_owner_connection :: string
  gc_build_id :: string
  gc_deadline :: "actor_method_deadline option"
  gc_test_case_capability :: "string option"
  gc_test_case_parent_request_id :: "string option"
  gc_now :: u64

datatype get_or_create_outcome =
    GocResolved actor_ref | GocJoined | GocStartedActivation string | GocLineageConflict
  | GocSaturated | GocFailed string

datatype activation_ack_outcome =
    AckCommitted u64 "string list" | AckAborted "string list" | AckCommitRejected "string list"
  | AckLate | AckWrongCorrelation

datatype waiter_outcome = WaiterResolved u64 | WaiterFailed string

fun as_corpus_string :: "waiter_outcome \<Rightarrow> string" where
  "as_corpus_string (WaiterResolved epoch) = ''resolved:'' @ show_nat epoch"
| "as_corpus_string (WaiterFailed code) = ''failed:'' @ code"

record activation_claim =
  ac_token :: actor_claim_token
  ac_facts :: commit_fence_facts
  ac_lineage :: actor_lineage
  ac_owner_connection :: string
  ac_waiters :: "string list"
  ac_deadline_at :: u64

record activation_counters =
  acc_dedup_joins :: u64
  acc_lineage_conflicts :: u64
  acc_commits :: u64
  acc_aborts :: u64
  acc_timeouts :: u64
  acc_late_acks :: u64
  acc_wrong_correlation :: u64
  acc_saturated :: u64

record activation_state =
  at_registry :: ownership
  at_lease_next :: u64
  at_claims :: "(actor_logical_key, activation_claim) btree"
  at_by_request_id :: "(string, actor_logical_key) btree"
  at_tombstones :: "(string, unit) btree"
  at_outcomes :: "(string, waiter_outcome) btree"
  at_counters :: activation_counters

definition activation_new :: "ownership \<Rightarrow> activation_state" where
  "activation_new reg = \<lparr>at_registry = reg, at_lease_next = 0, at_claims = [], at_by_request_id = [],
     at_tombstones = [], at_outcomes = [],
     at_counters = \<lparr>acc_dedup_joins = 0, acc_lineage_conflicts = 0, acc_commits = 0, acc_aborts = 0,
       acc_timeouts = 0, acc_late_acks = 0, acc_wrong_correlation = 0, acc_saturated = 0\<rparr>\<rparr>"

abbreviation bump_counters ::
  "(activation_counters \<Rightarrow> activation_counters) \<Rightarrow> activation_state \<Rightarrow> activation_state" where
  "bump_counters f s \<equiv> s\<lparr>at_counters := f (at_counters s)\<rparr>"

definition set_outcome :: "waiter_outcome \<Rightarrow> string \<Rightarrow> activation_state \<Rightarrow> activation_state" where
  "set_outcome out rpc s = s\<lparr>at_outcomes := bt_insert rpc out (at_outcomes s)\<rparr>"

definition settle_waiters :: "waiter_outcome \<Rightarrow> string list \<Rightarrow> activation_state \<Rightarrow> activation_state" where
  "settle_waiters out waiters s = fold (set_outcome out) waiters s"

section \<open>Operations\<close>

fun ownership_failure_code :: "ownership_error \<Rightarrow> string" where
  "ownership_failure_code (ClaimConflict f) = ''ActorCreateConflict''"
| "ownership_failure_code (EpochMismatch e) = ''IncarnationReplaced''"
| "ownership_failure_code NotPresent = ''NotPresent''"
| "ownership_failure_code ReservationInFlight = ''ActorCreateConflict''"
| "ownership_failure_code _ = ''ActorCreateConflict''"

definition fail_admission :: "string \<Rightarrow> string \<Rightarrow> activation_state \<Rightarrow> get_or_create_outcome \<times> activation_state" where
  "fail_admission rpc code s = (GocFailed code, set_outcome (WaiterFailed code) rpc s)"

definition request_facts :: "get_or_create_request \<Rightarrow> string \<Rightarrow> commit_fence_facts" where
  "request_facts req lease = \<lparr>cf_actor_abi_identity = gc_actor_abi_identity req,
     cf_actor_implementation_identity = gc_actor_implementation_identity req,
     cf_declaration_owner = gc_declaration_owner req, cf_owner_lease_id = lease\<rparr>"

definition control_request ::
  "activation_options \<Rightarrow> get_or_create_request \<Rightarrow> string \<Rightarrow> string \<Rightarrow> activate_initial_request" where
  "control_request opts req rid lease = \<lparr>ai_request_id = rid, ai_actor_key = gc_actor_key req,
     ai_facts = request_facts req lease, ai_owner_runtime_id = gc_owner_runtime_id req,
     ai_owner_connection = gc_owner_connection req, ai_build_id = gc_build_id req,
     ai_bootstrap_bytes = gc_bootstrap_bytes req,
     ai_deadline = (case gc_deadline req of Some d \<Rightarrow> d
       | None \<Rightarrow> \<lparr>md_timeout_ms = ao_activation_deadline_ms opts, md_expires_at = ''activation-deadline''\<rparr>),
     ai_test_case_capability = gc_test_case_capability req,
     ai_test_case_parent_request_id = gc_test_case_parent_request_id req\<rparr>"

text \<open>The part of an admission after the reservation: record the claim, send, roll back on failure.\<close>

definition start_activation ::
  "activation_options \<Rightarrow> (activate_initial_request \<Rightarrow> string + unit) \<Rightarrow> get_or_create_request \<Rightarrow>
   actor_claim_token \<Rightarrow> activation_state \<Rightarrow> get_or_create_outcome \<times> activation_state" where
  "start_activation opts send req token s =
     (let rid = ct_claim_id token;
          (lease, nxt) = lease_id_mint (at_lease_next s);
          claim = \<lparr>ac_token = token, ac_facts = request_facts req lease,
            ac_lineage = lineage_from_test_case (gc_test_case_capability req),
            ac_owner_connection = gc_owner_connection req, ac_waiters = [gc_rpc_id req],
            ac_deadline_at = saturating_add_u64 (gc_now req) (ao_activation_deadline_ms opts)\<rparr>;
          s1 = s\<lparr>at_lease_next := nxt, at_claims := bt_insert (gc_actor_key req) claim (at_claims s),
                 at_by_request_id := bt_insert rid (gc_actor_key req) (at_by_request_id s)\<rparr>
      in case send (control_request opts req rid lease) of
           Inr _ \<Rightarrow> (GocStartedActivation rid, s1)
         | Inl _ \<Rightarrow>
             (let s2 = s1\<lparr>at_claims := bt_remove (gc_actor_key req) (at_claims s1),
                          at_by_request_id := bt_remove rid (at_by_request_id s1),
                          at_tombstones := bt_insert rid () (at_tombstones s1),
                          at_registry := snd (own_abort token (at_registry s1))\<rparr>;
                  s3 = bump_counters (\<lambda>c. c\<lparr>acc_aborts := inc_u64 (acc_aborts c)\<rparr>) s2
              in (GocFailed ''AckRejected'', settle_waiters (WaiterFailed ''AckRejected'') (ac_waiters claim) s3)))"

definition get_or_create ::
  "activation_options \<Rightarrow> (activate_initial_request \<Rightarrow> string + unit) \<Rightarrow> get_or_create_request \<Rightarrow>
   activation_state \<Rightarrow> get_or_create_outcome \<times> activation_state" where
  "get_or_create opts send req s =
     (if length (at_claims s) \<ge> ao_max_claims opts then
        (GocSaturated, bump_counters (\<lambda>c. c\<lparr>acc_saturated := inc_u64 (acc_saturated c)\<rparr>) s)
      else case bt_get (at_claims s) (gc_actor_key req) of
        Some claim \<Rightarrow>
          (if ac_lineage claim \<noteq> lineage_from_test_case (gc_test_case_capability req) then
             (GocLineageConflict, set_outcome (WaiterFailed ''ActorCreateLineageConflict'') (gc_rpc_id req)
               (bump_counters (\<lambda>c. c\<lparr>acc_lineage_conflicts := inc_u64 (acc_lineage_conflicts c)\<rparr>) s))
           else (GocJoined, bump_counters (\<lambda>c. c\<lparr>acc_dedup_joins := inc_u64 (acc_dedup_joins c)\<rparr>)
             (s\<lparr>at_claims := bt_insert (gc_actor_key req)
                  (claim\<lparr>ac_waiters := ac_waiters claim @ [gc_rpc_id req]\<rparr>) (at_claims s)\<rparr>)))
      | None \<Rightarrow>
          (case own_current_owner (gc_actor_key req) (at_registry s) of
             Some fence \<Rightarrow>
               (if of_build_id fence \<noteq> gc_build_id req \<or>
                   of_actor_abi_identity fence \<noteq> gc_actor_abi_identity req \<or>
                   of_actor_implementation_identity fence \<noteq> gc_actor_implementation_identity req \<or>
                   of_declaration_owner fence \<noteq> gc_declaration_owner req
                then fail_admission (gc_rpc_id req) ''ActorVersionRejected'' s
                else (GocResolved (to_actor_ref (gc_actor_key req) (of_epoch fence)),
                      set_outcome (WaiterResolved (of_epoch fence)) (gc_rpc_id req) s))
           | None \<Rightarrow>
               (if (case own_entry_facts (gc_actor_key req) (at_registry s) of
                      Some entry \<Rightarrow> re_actor_abi_identity entry \<noteq> gc_actor_abi_identity req \<or>
                        re_actor_implementation_identity entry \<noteq> gc_actor_implementation_identity req \<or>
                        re_declaration_owner entry \<noteq> gc_declaration_owner req
                    | None \<Rightarrow> False)
                then fail_admission (gc_rpc_id req) ''ActorVersionRejected'' s
                else
                  let (epoch, reg1) = own_ensure_present (gc_actor_key req) (gc_actor_abi_identity req)
                        (gc_actor_implementation_identity req) (gc_declaration_owner req)
                        (gc_bootstrap_bytes req) (at_registry s);
                      (res, reg2) = own_reserve (gc_actor_key req) epoch (gc_owner_runtime_id req)
                        (gc_build_id req) (gc_now req) reg1;
                      s1 = s\<lparr>at_registry := reg2\<rparr>
                  in case res of
                       Inl err \<Rightarrow> fail_admission (gc_rpc_id req) (ownership_failure_code err) s1
                     | Inr token \<Rightarrow> start_activation opts send req token s1)))"

definition drop_claim :: "actor_logical_key \<Rightarrow> string \<Rightarrow> activation_state \<Rightarrow> activation_state" where
  "drop_claim key rid s = s\<lparr>at_claims := bt_remove key (at_claims s),
     at_by_request_id := bt_remove rid (at_by_request_id s),
     at_tombstones := bt_insert rid () (at_tombstones s)\<rparr>"

definition on_activation_ack ::
  "activation_options \<Rightarrow> string \<Rightarrow> string \<Rightarrow> string \<Rightarrow> bool \<Rightarrow> u64 \<Rightarrow> activation_state \<Rightarrow>
   activation_ack_outcome \<times> activation_state" where
  "on_activation_ack opts rid runtime conn accepted now s =
     (let wrong = (AckWrongCorrelation, bump_counters (\<lambda>c. c\<lparr>acc_wrong_correlation := inc_u64 (acc_wrong_correlation c)\<rparr>) s) in
      case bt_get (at_by_request_id s) rid of
        None \<Rightarrow>
          (if bt_get (at_tombstones s) rid \<noteq> None then
             (AckLate, bump_counters (\<lambda>c. c\<lparr>acc_late_acks := inc_u64 (acc_late_acks c)\<rparr>) s)
           else wrong)
      | Some key \<Rightarrow>
          (case bt_get (at_claims s) key of
             None \<Rightarrow> wrong
           | Some claim \<Rightarrow>
               (if ct_owner_runtime_id (ac_token claim) \<noteq> runtime \<or> ac_owner_connection claim \<noteq> conn then wrong
                else let s1 = drop_claim key rid s in
                  if accepted then
                    (case own_commit (ac_token claim) (ac_facts claim) now (ao_lease_ttl_ms opts) (at_registry s1) of
                       (Inr fence, reg) \<Rightarrow>
                         (AckCommitted (of_epoch fence) (ac_waiters claim),
                          settle_waiters (WaiterResolved (of_epoch fence)) (ac_waiters claim)
                            (bump_counters (\<lambda>c. c\<lparr>acc_commits := inc_u64 (acc_commits c)\<rparr>) (s1\<lparr>at_registry := reg\<rparr>)))
                     | (Inl _, reg) \<Rightarrow>
                         (AckCommitRejected (ac_waiters claim),
                          settle_waiters (WaiterFailed ''CommitRejected'') (ac_waiters claim) (s1\<lparr>at_registry := reg\<rparr>)))
                  else
                    (AckAborted (ac_waiters claim),
                     settle_waiters (WaiterFailed ''AckRejected'') (ac_waiters claim)
                       (bump_counters (\<lambda>c. c\<lparr>acc_aborts := inc_u64 (acc_aborts c)\<rparr>)
                          (s1\<lparr>at_registry := snd (own_abort (ac_token claim) (at_registry s1))\<rparr>))))))"

definition on_activation_timeout ::
  "string \<Rightarrow> activation_state \<Rightarrow> string list option \<times> activation_state" where
  "on_activation_timeout rid s =
     (case bt_get (at_by_request_id s) rid of
        None \<Rightarrow> (None, s)
      | Some key \<Rightarrow>
          (case bt_get (at_claims s) key of
             None \<Rightarrow> (None, s)
           | Some claim \<Rightarrow>
               (Some (ac_waiters claim),
                settle_waiters (WaiterFailed ''ActivationTimeout'') (ac_waiters claim)
                  (bump_counters (\<lambda>c. c\<lparr>acc_timeouts := inc_u64 (acc_timeouts c), acc_aborts := inc_u64 (acc_aborts c)\<rparr>)
                     ((drop_claim key rid s)\<lparr>at_registry := snd (own_abort (ac_token claim) (at_registry s))\<rparr>)))))"

definition overdue_requests :: "u64 \<Rightarrow> activation_state \<Rightarrow> string list" where
  "overdue_requests now s =
     map fst (filter (\<lambda>(rid, key). case bt_get (at_claims s) key of
        None \<Rightarrow> False | Some claim \<Rightarrow> ac_deadline_at claim \<le> now) (at_by_request_id s))"

definition expire_deadlines :: "u64 \<Rightarrow> activation_state \<Rightarrow> string list list \<times> activation_state" where
  "expire_deadlines now s =
     fold (\<lambda>rid (outs, t). case on_activation_timeout rid t of
             (Some w, t') \<Rightarrow> (outs @ [w], t') | (None, t') \<Rightarrow> (outs, t'))
       (overdue_requests now s) ([], s)"

definition shutdown_claim ::
  "actor_logical_key \<Rightarrow> string list list \<times> activation_state \<Rightarrow> string list list \<times> activation_state" where
  "shutdown_claim key acc =
     (let (outs, s) = acc in
      case bt_get (at_claims s) key of
        None \<Rightarrow> acc
      | Some claim \<Rightarrow>
          (outs @ [ac_waiters claim],
           settle_waiters (WaiterFailed ''RouterShutdown'') (ac_waiters claim)
             (bump_counters (\<lambda>c. c\<lparr>acc_aborts := inc_u64 (acc_aborts c)\<rparr>)
                (s\<lparr>at_claims := bt_remove key (at_claims s),
                   at_by_request_id := bt_remove (ct_claim_id (ac_token claim)) (at_by_request_id s),
                   at_registry := snd (own_abort (ac_token claim) (at_registry s))\<rparr>))))"

definition activation_shutdown :: "activation_state \<Rightarrow> string list list \<times> activation_state" where
  "activation_shutdown s =
     (let (outs, s1) = fold shutdown_claim (bt_keys (at_claims s)) ([], s)
      in (outs, s1\<lparr>at_tombstones := []\<rparr>))"

definition on_owner_disconnect :: "string \<Rightarrow> string \<Rightarrow> activation_state \<Rightarrow> activation_state" where
  "on_owner_disconnect runtime conn s = s"

definition outcome_for :: "string \<Rightarrow> activation_state \<Rightarrow> string option" where
  "outcome_for rpc s = map_option as_corpus_string (bt_get (at_outcomes s) rpc)"

record activation_health =
  ah_pending_claims :: usize
  ah_pending_waiters :: usize
  ah_counters :: activation_counters
  ah_tombstones :: usize

definition health_of_activation :: "activation_state \<Rightarrow> activation_health" where
  "health_of_activation s = \<lparr>ah_pending_claims = length (at_claims s),
     ah_pending_waiters = sum_list (map (length \<circ> ac_waiters) (bt_values (at_claims s))),
     ah_counters = at_counters s, ah_tombstones = length (at_tombstones s)\<rparr>"

section \<open>Correspondence of claims and request ids\<close>

definition corr_inv :: "activation_state \<Rightarrow> bool" where
  "corr_inv s \<longleftrightarrow> bt_ok (at_claims s) \<and> bt_ok (at_by_request_id s) \<and> bt_ok (at_outcomes s) \<and>
     (\<forall>k c. bt_get (at_claims s) k = Some c \<longrightarrow> bt_get (at_by_request_id s) (ct_claim_id (ac_token c)) = Some k) \<and>
     (\<forall>rid k. bt_get (at_by_request_id s) rid = Some k \<longrightarrow>
        (\<exists>c. bt_get (at_claims s) k = Some c \<and> ct_claim_id (ac_token c) = rid))"

lemma corr_invD:
  assumes "corr_inv s"
  shows "bt_ok (at_claims s)" and "bt_ok (at_by_request_id s)" and "bt_ok (at_outcomes s)"
    and "bt_get (at_claims s) k = Some c \<Longrightarrow> bt_get (at_by_request_id s) (ct_claim_id (ac_token c)) = Some k"
    and "bt_get (at_by_request_id s) rid = Some k \<Longrightarrow> \<exists>c. bt_get (at_claims s) k = Some c \<and> ct_claim_id (ac_token c) = rid"
  using assms unfolding corr_inv_def by blast+

lemma settle_waiters_fields [simp]:
  "at_claims (settle_waiters out ws s) = at_claims s"
  "at_by_request_id (settle_waiters out ws s) = at_by_request_id s"
  "at_tombstones (settle_waiters out ws s) = at_tombstones s"
  "at_registry (settle_waiters out ws s) = at_registry s"
  by (induction ws arbitrary: s; simp add: settle_waiters_def set_outcome_def)+

lemma settle_waiters_ok: "bt_ok (at_outcomes s) \<Longrightarrow> bt_ok (at_outcomes (settle_waiters out ws s))"
  by (induction ws arbitrary: s) (auto simp: settle_waiters_def set_outcome_def bt.ok_ins)

lemma settle_waiters_outcome:
  "bt_ok (at_outcomes s) \<Longrightarrow> bt_get (at_outcomes (settle_waiters out ws s)) w =
     (if w \<in> set ws then Some out else bt_get (at_outcomes s) w)"
  by (induction ws arbitrary: s) (auto simp: settle_waiters_def set_outcome_def bt.ok_ins bt.get_ins)

lemma corr_inv_cong:
  assumes "at_claims s' = at_claims s" and "at_by_request_id s' = at_by_request_id s"
    and "bt_ok (at_outcomes s')"
  shows "corr_inv s \<Longrightarrow> corr_inv s'"
  using assms by (simp add: corr_inv_def)

lemma corr_inv_drop:
  assumes "corr_inv s" and "bt_get (at_by_request_id s) rid = Some key"
  shows "corr_inv (s\<lparr>at_claims := bt_remove key (at_claims s), at_by_request_id := bt_remove rid (at_by_request_id s)\<rparr>)"
proof -
  note c = corr_invD [OF assms(1)]
  obtain cl where cl: "bt_get (at_claims s) key = Some cl" "ct_claim_id (ac_token cl) = rid"
    using c(5) [OF assms(2)] by blast
  have a: "k \<noteq> key \<Longrightarrow> bt_get (at_claims s) k = Some d \<Longrightarrow> ct_claim_id (ac_token d) \<noteq> rid" for k d
    using c(4) assms(2) by fastforce
  have b: "r \<noteq> rid \<Longrightarrow> bt_get (at_by_request_id s) r = Some k \<Longrightarrow> k \<noteq> key" for r k
    using c(5) cl by fastforce
  show ?thesis using c a b by (auto simp: corr_inv_def bt.ok_del bt_get_remove)
qed

lemma corr_inv_put:
  assumes "corr_inv s" and "bt_get (at_claims s) key = None" and "bt_get (at_by_request_id s) rid = None"
    and "ct_claim_id (ac_token cl) = rid"
  shows "corr_inv (s\<lparr>at_claims := bt_insert key cl (at_claims s), at_by_request_id := bt_insert rid key (at_by_request_id s)\<rparr>)"
proof -
  note c = corr_invD [OF assms(1)]
  have a: "bt_get (at_claims s) k = Some d \<Longrightarrow> ct_claim_id (ac_token d) \<noteq> rid" for k d
    using c(4) assms(3) by fastforce
  have b: "bt_get (at_by_request_id s) r = Some k \<Longrightarrow> k \<noteq> key" for r k
    using c(5) assms(2) by fastforce
  show ?thesis using c a b assms(4) by (auto simp: corr_inv_def bt.ok_ins bt.get_ins)
qed

lemma timeout_corr:
  assumes "corr_inv s" and "on_activation_timeout rid s = (res, s')"
  shows "corr_inv s' \<and>
    (\<forall>k. bt_get (at_claims s') k = (if bt_get (at_by_request_id s) rid = Some k then None else bt_get (at_claims s) k)) \<and>
    (\<forall>r. bt_get (at_by_request_id s') r = (if r = rid then None else bt_get (at_by_request_id s) r)) \<and>
    (\<forall>k c w. bt_get (at_by_request_id s) rid = Some k \<longrightarrow> bt_get (at_claims s) k = Some c \<longrightarrow> w \<in> set (ac_waiters c) \<longrightarrow>
       bt_get (at_outcomes s') w = Some (WaiterFailed ''ActivationTimeout''))"
proof (cases "bt_get (at_by_request_id s) rid")
  case None
  with assms show ?thesis by (auto simp: on_activation_timeout_def)
next
  case (Some key)
  obtain c where c: "bt_get (at_claims s) key = Some c" "ct_claim_id (ac_token c) = rid"
    using corr_invD(5) [OF assms(1) Some] by blast
  let ?s1 = "s\<lparr>at_claims := bt_remove key (at_claims s), at_by_request_id := bt_remove rid (at_by_request_id s)\<rparr>"
  have s': "at_claims s' = at_claims ?s1" "at_by_request_id s' = at_by_request_id ?s1" "bt_ok (at_outcomes s')"
    using assms Some c corr_invD(3) [OF assms(1)]
    by (auto simp: on_activation_timeout_def drop_claim_def intro!: settle_waiters_ok)
  have "corr_inv s'" using corr_inv_drop [OF assms(1) Some] by (rule corr_inv_cong [OF s'])
  moreover have "bt_get (at_outcomes s') w = Some (WaiterFailed ''ActivationTimeout'')" if "w \<in> set (ac_waiters c)" for w
    using assms Some c that corr_invD(3) [OF assms(1)]
    by (auto simp: on_activation_timeout_def drop_claim_def settle_waiters_outcome)
  ultimately show ?thesis using s' Some c(1) by (auto simp: bt_get_remove)
qed

section \<open>Steps and invariant\<close>

datatype act_op =
    ActGetOrCreate "activate_initial_request \<Rightarrow> string + unit" get_or_create_request
  | ActAck string string string bool u64
  | ActTimeout string
  | ActExpireDeadlines u64
  | ActOwnerDisconnect string string
  | ActShutdown
  | ActRegistry own_op

fun act_exec :: "activation_options \<Rightarrow> act_op \<Rightarrow> activation_state \<Rightarrow> activation_state" where
  "act_exec opts (ActGetOrCreate send req) s = snd (get_or_create opts send req s)"
| "act_exec opts (ActAck rid rt conn acc now) s = snd (on_activation_ack opts rid rt conn acc now s)"
| "act_exec opts (ActTimeout rid) s = snd (on_activation_timeout rid s)"
| "act_exec opts (ActExpireDeadlines now) s = snd (expire_deadlines now s)"
| "act_exec opts (ActOwnerDisconnect rt conn) s = on_owner_disconnect rt conn s"
| "act_exec opts ActShutdown s = snd (activation_shutdown s)"
| "act_exec opts (ActRegistry op) s = s\<lparr>at_registry := own_exec op (at_registry s)\<rparr>"

inductive act_step :: "activation_options \<Rightarrow> activation_state \<Rightarrow> activation_state \<Rightarrow> bool" for opts where
  "own_headroom (at_registry s) \<Longrightarrow> act_step opts s (act_exec opts op s)"

inductive_cases act_stepE: "act_step opts s s'"

definition act_inv :: "activation_state \<Rightarrow> bool" where
  "act_inv s \<longleftrightarrow> corr_inv s \<and> own_inv (at_registry s) \<and>
     (\<forall>rid k. bt_get (at_by_request_id s) rid = Some k \<longrightarrow> rid \<in> claims_issued (at_registry s))"

text \<open>How the broker's own calls move the registry.\<close>

definition reg_move :: "ownership \<Rightarrow> ownership \<Rightarrow> bool" where
  "reg_move r r' \<longleftrightarrow> (own_inv r \<longrightarrow> own_inv r') \<and> claims_issued r \<subseteq> claims_issued r'"

lemma reg_move_refl [simp]: "reg_move r r"
  by (simp add: reg_move_def)

lemma reg_move_abort: "reg_move r (snd (own_abort t r))"
  using own_inv_put entry_ok_updates(1) [OF own_invD(2)]
  by (auto simp: reg_move_def own_abort_def claims_issued_def split: option.split)

lemma reg_move_exec: "ow_next_claim_seq r < u64_max \<Longrightarrow> own_inv r \<Longrightarrow> reg_move r (own_exec op r)"
  using own_inv_exec [of r op] own_exec_seq [of r op] own_invD(1) [of r]
  by (auto simp: reg_move_def claims_issued_def intro!: imageI)

lemma reg_move_trans: "reg_move a b \<Longrightarrow> reg_move b c \<Longrightarrow> reg_move a c"
  by (auto simp: reg_move_def)

lemma reg_move_commit: "ow_next_claim_seq r < u64_max \<Longrightarrow> own_inv r \<Longrightarrow> reg_move r (snd (own_commit t f now ttl r))"
  using reg_move_exec [of r "OwnCommit t f now ttl"] by simp

lemma own_reserve_InrD:
  assumes "own_reserve k ep rt b now r = (Inr t, r')" and "ow_next_claim_seq r < u64_max"
  shows "ct_claim_id t \<in> claims_issued r'" and "ct_claim_id t \<notin> claims_issued r"
    and "ct_owner_runtime_id t = rt" and "ct_build_id t = b"
proof -
  have "ct_claim_id t = claim_id_mint (ow_next_claim_seq r) \<and> ow_next_claim_seq r' = Suc (ow_next_claim_seq r) \<and>
      ct_owner_runtime_id t = rt \<and> ct_build_id t = b"
    using assms by (auto simp: own_reserve_def Let_def split: option.splits if_splits)
  then show "ct_claim_id t \<in> claims_issued r'" "ct_claim_id t \<notin> claims_issued r"
    "ct_owner_runtime_id t = rt" "ct_build_id t = b"
    by (auto simp: claims_issued_def)
qed

lemma ensure_present_seq: "ow_next_claim_seq (snd (own_ensure_present k a i d inp r)) = ow_next_claim_seq r"
  by (auto simp: own_ensure_present_def split: option.split)

lemma act_invD:
  assumes "act_inv s"
  shows "corr_inv s" and "own_inv (at_registry s)"
    and "bt_get (at_by_request_id s) rid = Some k \<Longrightarrow> rid \<in> claims_issued (at_registry s)"
  using assms unfolding act_inv_def by blast+

text \<open>A step that only removes request ids and moves the registry.\<close>

lemma act_inv_shrink:
  assumes "act_inv s" and "corr_inv s'" and "reg_move (at_registry s) (at_registry s')"
    and "\<And>rid k. bt_get (at_by_request_id s') rid = Some k \<Longrightarrow> bt_get (at_by_request_id s) rid = Some k"
  shows "act_inv s'"
  using assms act_invD [OF assms(1)] unfolding act_inv_def reg_move_def by blast

lemma act_inv_outcome: "act_inv s \<Longrightarrow> act_inv (set_outcome out rpc s)"
  by (auto simp: act_inv_def set_outcome_def corr_inv_def bt.ok_ins)

lemma act_inv_counters: "act_inv (bump_counters f s) \<longleftrightarrow> act_inv s"
  by (simp add: act_inv_def corr_inv_def)

lemma timeout_registry: "reg_move (at_registry s) (at_registry (snd (on_activation_timeout rid s)))"
  by (auto simp: on_activation_timeout_def drop_claim_def reg_move_abort split: option.split)

lemma act_inv_timeout:
  assumes "act_inv s"
  shows "act_inv (snd (on_activation_timeout rid s))"
proof -
  obtain res s' where r: "on_activation_timeout rid s = (res, s')" by fastforce
  note t = timeout_corr [OF act_invD(1) [OF assms] r]
  show ?thesis
    by (rule act_inv_shrink [OF assms]) (use t timeout_registry [of s rid] r in \<open>auto split: if_splits\<close>)
qed

lemma act_inv_ack:
  assumes "act_inv s" and "ow_next_claim_seq (at_registry s) < u64_max"
  shows "act_inv (snd (on_activation_ack opts rid rt conn acc now s))"
proof (cases "\<exists>key c. bt_get (at_by_request_id s) rid = Some key \<and> bt_get (at_claims s) key = Some c \<and>
    ct_owner_runtime_id (ac_token c) = rt \<and> ac_owner_connection c = conn")
  case False
  then have "\<exists>f. snd (on_activation_ack opts rid rt conn acc now s) = bump_counters f s"
    by (auto simp: on_activation_ack_def Let_def split: option.split)
  then show ?thesis using assms(1) act_inv_counters by metis
next
  case True
  then obtain key c where k: "bt_get (at_by_request_id s) rid = Some key" "bt_get (at_claims s) key = Some c"
    "ct_owner_runtime_id (ac_token c) = rt" "ac_owner_connection c = conn" by blast
  let ?s' = "snd (on_activation_ack opts rid rt conn acc now s)"
  let ?s1 = "s\<lparr>at_claims := bt_remove key (at_claims s), at_by_request_id := bt_remove rid (at_by_request_id s)\<rparr>"
  note ok = corr_invD(3) [OF act_invD(1) [OF assms(1)]]
  have s': "at_claims ?s' = at_claims ?s1" "at_by_request_id ?s' = at_by_request_id ?s1" "bt_ok (at_outcomes ?s')"
    using k ok by (auto simp: on_activation_ack_def drop_claim_def Let_def intro!: settle_waiters_ok
        split: sum.split prod.split)
  have "reg_move (at_registry s) (at_registry ?s')"
    using k reg_move_commit [OF assms(2) act_invD(2) [OF assms(1)], of "ac_token c" "ac_facts c" now "ao_lease_ttl_ms opts"] reg_move_abort
    by (auto simp: on_activation_ack_def drop_claim_def Let_def split: sum.split prod.split)
  moreover have "corr_inv ?s'"
    using corr_inv_drop [OF act_invD(1) [OF assms(1)] k(1)] by (rule corr_inv_cong [OF s'])
  ultimately show ?thesis
    by (intro act_inv_shrink [OF assms(1)]) (auto simp: s' bt_get_remove split: if_splits)
qed

lemma start_activation_inv:
  assumes "act_inv s0" and "reg_move (at_registry s0) (at_registry s)"
    and "at_claims s = at_claims s0" and "at_by_request_id s = at_by_request_id s0" and "at_outcomes s = at_outcomes s0"
    and "bt_get (at_claims s) (gc_actor_key req) = None"
    and "ct_claim_id t \<in> claims_issued (at_registry s)" and "ct_claim_id t \<notin> claims_issued (at_registry s0)"
  shows "act_inv (snd (start_activation opts send req t s))"
proof -
  let ?rid = "ct_claim_id t"
  note i = act_invD [OF assms(1)]
  have none: "bt_get (at_by_request_id s) ?rid = None"
    using i(3) assms(4,8) by (metis not_None_eq)
  have corr: "corr_inv s" using corr_inv_cong [of s s0] i(1) assms(3-5) corr_invD(3) by metis
  have reg: "own_inv (at_registry s)" using assms(2) i(2) by (simp add: reg_move_def)
  obtain lease nxt where m: "lease_id_mint (at_lease_next s) = (lease, nxt)" by fastforce
  show ?thesis
  proof (cases "send (control_request opts req ?rid lease)")
    case (Inr u)
    let ?s' = "snd (start_activation opts send req t s)"
    define cl where "cl = \<lparr>ac_token = t, ac_facts = request_facts req lease,
        ac_lineage = lineage_from_test_case (gc_test_case_capability req),
        ac_owner_connection = gc_owner_connection req, ac_waiters = [gc_rpc_id req],
        ac_deadline_at = saturating_add_u64 (gc_now req) (ao_activation_deadline_ms opts)\<rparr>"
    have s': "?s' = s\<lparr>at_lease_next := nxt, at_claims := bt_insert (gc_actor_key req) cl (at_claims s),
        at_by_request_id := bt_insert ?rid (gc_actor_key req) (at_by_request_id s)\<rparr>"
      using Inr by (simp add: start_activation_def Let_def m cl_def)
    have "corr_inv ?s'"
      by (rule corr_inv_cong [OF _ _ _ corr_inv_put [OF corr assms(6) none, of cl]])
         (use corr_invD(3) [OF corr] in \<open>simp_all add: s' cl_def\<close>)
    moreover have "rid \<in> claims_issued (at_registry s)" if "bt_get (at_by_request_id ?s') rid = Some k" for rid k
      using that i(3) assms(2,4,7) corr_invD(2) [OF corr]
      by (auto simp: s' bt.get_ins reg_move_def split: if_splits)
    ultimately show ?thesis using reg by (auto simp: act_inv_def s')
  next
    case (Inl e)
    let ?s' = "snd (start_activation opts send req t s)"
    have same: "bt_get (at_claims ?s') k = bt_get (at_claims s) k"
      "bt_get (at_by_request_id ?s') r = bt_get (at_by_request_id s) r" for k r
      using Inl none assms(6) corr_invD(1,2) [OF corr]
      by (auto simp: start_activation_def Let_def m bt_get_remove bt.get_ins)
    have ok: "bt_ok (at_claims ?s')" "bt_ok (at_by_request_id ?s')" "bt_ok (at_outcomes ?s')"
      using Inl corr_invD(1,2,3) [OF corr]
      by (auto simp: start_activation_def Let_def m bt.ok_del bt.ok_ins intro!: settle_waiters_ok)
    have "corr_inv ?s'" using corr ok same by (simp add: corr_inv_def)
    moreover have "reg_move (at_registry s0) (at_registry ?s')"
      using Inl reg_move_trans [OF assms(2) reg_move_abort] by (simp add: start_activation_def Let_def m)
    ultimately show ?thesis
      by (intro act_inv_shrink [OF assms(1)]) (use same assms(4) in auto)
  qed
qed

lemma act_inv_get_or_create:
  assumes "act_inv s" and "ow_next_claim_seq (at_registry s) < u64_max"
  shows "act_inv (snd (get_or_create opts send req s))"
proof -
  note i = act_invD [OF assms(1)]
  obtain ep r1 where e: "own_ensure_present (gc_actor_key req) (gc_actor_abi_identity req)
      (gc_actor_implementation_identity req) (gc_declaration_owner req) (gc_bootstrap_bytes req)
      (at_registry s) = (ep, r1)" by fastforce
  obtain res r2 where r: "own_reserve (gc_actor_key req) ep (gc_owner_runtime_id req) (gc_build_id req)
      (gc_now req) r1 = (res, r2)" by fastforce
  have seq1: "ow_next_claim_seq r1 = ow_next_claim_seq (at_registry s)"
    using ensure_present_seq [of "gc_actor_key req" _ _ _ _ "at_registry s"] e by (metis snd_conv)
  have m1: "reg_move (at_registry s) r1"
    using reg_move_exec [OF assms(2) i(2), of "OwnEnsurePresent (gc_actor_key req) (gc_actor_abi_identity req)
      (gc_actor_implementation_identity req) (gc_declaration_owner req) (gc_bootstrap_bytes req)"] e by simp
  have m2: "reg_move r1 r2"
    using reg_move_exec [of r1 "OwnReserve (gc_actor_key req) ep (gc_owner_runtime_id req) (gc_build_id req) (gc_now req)"]
      m1 i(2) assms(2) seq1 r by (simp add: reg_move_def)
  note m = reg_move_trans [OF m1 m2]
  have moved: "act_inv (s\<lparr>at_registry := r2\<rparr>)"
    by (rule act_inv_shrink [OF assms(1)]) (use i m in \<open>auto simp: corr_inv_def\<close>)
  have started: "act_inv (snd (start_activation opts send req t (s\<lparr>at_registry := r2\<rparr>)))"
    if "res = Inr t" "bt_get (at_claims s) (gc_actor_key req) = None" for t
  proof (rule start_activation_inv [OF assms(1)])
    have "ct_claim_id t \<in> claims_issued r2" "ct_claim_id t \<notin> claims_issued r1"
      using own_reserve_InrD(1,2) [of _ ep _ _ _ r1 t r2] r that(1) seq1 assms(2) by auto
    then show "ct_claim_id t \<in> claims_issued (at_registry (s\<lparr>at_registry := r2\<rparr>))"
      "ct_claim_id t \<notin> claims_issued (at_registry s)" using m1 by (auto simp: reg_move_def)
  qed (use m that(2) in auto)
  have joined: "act_inv (bump_counters f (s\<lparr>at_claims := bt_insert (gc_actor_key req)
      (claim\<lparr>ac_waiters := ws\<rparr>) (at_claims s)\<rparr>))"
    if "bt_get (at_claims s) (gc_actor_key req) = Some claim" for f claim ws
  proof -
    have "bt_get (at_by_request_id s) rid = Some (gc_actor_key req) \<Longrightarrow> ct_claim_id (ac_token claim) = rid" for rid
      using corr_invD(5) [OF i(1)] that by fastforce
    then show ?thesis using assms(1) that corr_invD [OF i(1)]
      by (auto simp: act_inv_def corr_inv_def bt.ok_ins bt.get_ins)
  qed
  show ?thesis
    using assms(1) moved started joined
    by (auto simp: get_or_create_def Let_def e r fail_admission_def act_inv_outcome act_inv_counters
        split: option.split sum.split)
qed

definition expire_one :: "string \<Rightarrow> string list list \<times> activation_state \<Rightarrow> string list list \<times> activation_state" where
  "expire_one rid acc = (let (outs, t) = acc in case on_activation_timeout rid t of
     (Some w, t') \<Rightarrow> (outs @ [w], t') | (None, t') \<Rightarrow> (outs, t'))"

lemma expire_deadlines_fold: "expire_deadlines now s = fold expire_one (overdue_requests now s) ([], s)"
  by (simp add: expire_deadlines_def expire_one_def [abs_def] Let_def split_def)

lemma expire_one_snd: "snd (expire_one rid acc) = snd (on_activation_timeout rid (snd acc))"
  by (auto simp: expire_one_def split: prod.split option.split)

lemma fold_expire_inv: "act_inv (snd acc) \<Longrightarrow> act_inv (snd (fold expire_one rids acc))"
  by (induction rids arbitrary: acc) (auto simp: expire_one_snd act_inv_timeout)

lemma shutdown_claim_inv:
  assumes "act_inv (snd acc)"
  shows "act_inv (snd (shutdown_claim k acc))"
proof -
  obtain outs s where acc: "acc = (outs, s)" by fastforce
  show ?thesis
  proof (cases "bt_get (at_claims s) k")
    case (Some c)
    note i = act_invD [OF assms [unfolded acc snd_conv]]
    let ?s' = "snd (shutdown_claim k acc)"
    let ?s1 = "s\<lparr>at_claims := bt_remove k (at_claims s),
      at_by_request_id := bt_remove (ct_claim_id (ac_token c)) (at_by_request_id s)\<rparr>"
    have s': "at_claims ?s' = at_claims ?s1" "at_by_request_id ?s' = at_by_request_id ?s1" "bt_ok (at_outcomes ?s')"
      "at_registry ?s' = snd (own_abort (ac_token c) (at_registry s))"
      using Some corr_invD(3) [OF i(1)] by (auto simp: shutdown_claim_def acc intro!: settle_waiters_ok)
    have corr: "corr_inv ?s'"
      using corr_inv_drop [OF i(1) corr_invD(4) [OF i(1) Some]] by (rule corr_inv_cong [OF s'(1-3)])
    show ?thesis
    proof (rule act_inv_shrink [OF assms [unfolded acc snd_conv] corr])
      show "reg_move (at_registry s) (at_registry ?s')" unfolding s'(4) by (rule reg_move_abort)
      fix rid k' assume "bt_get (at_by_request_id ?s') rid = Some k'"
      then show "bt_get (at_by_request_id s) rid = Some k'"
        unfolding s'(2) by (simp add: bt_get_remove split: if_splits)
    qed
  qed (use assms in \<open>simp add: shutdown_claim_def acc\<close>)
qed

lemma fold_shutdown_inv: "act_inv (snd acc) \<Longrightarrow> act_inv (snd (fold shutdown_claim ks acc))"
  by (induction ks arbitrary: acc) (auto simp: shutdown_claim_inv)

lemma act_inv_shutdown: "act_inv s \<Longrightarrow> act_inv (snd (activation_shutdown s))"
  using fold_shutdown_inv [of "([], s)" "bt_keys (at_claims s)"]
  by (simp add: activation_shutdown_def split_def Let_def act_inv_def corr_inv_def)

lemma act_inv_step: "act_inv s \<Longrightarrow> act_step opts s s' \<Longrightarrow> act_inv s'"
proof (elim act_stepE)
  fix op
  assume inv: "act_inv s" and s': "s' = act_exec opts op s" and room: "own_headroom (at_registry s)"
  have seq: "ow_next_claim_seq (at_registry s) < u64_max" using room by (simp add: own_headroom_def)
  show "act_inv s'"
  proof (cases op)
    case (ActRegistry r)
    have "reg_move (at_registry s) (own_exec r (at_registry s))"
      using reg_move_exec [OF seq act_invD(2) [OF inv]] .
    then show ?thesis unfolding s' ActRegistry
      by (intro act_inv_shrink [OF inv]) (use act_invD(1) [OF inv] in \<open>auto simp: corr_inv_def\<close>)
  next
    case (ActExpireDeadlines now)
    then show ?thesis using inv s' fold_expire_inv [of "([], s)"] by (simp add: expire_deadlines_fold)
  qed (use inv s' seq in \<open>auto simp: act_inv_get_or_create act_inv_ack act_inv_timeout act_inv_shutdown on_owner_disconnect_def\<close>)
qed

lemma act_inv_new: "act_inv (activation_new own_new)"
  by (simp add: act_inv_def activation_new_def corr_inv_def own_inv_new)

lemma act_run_inv: "(act_step opts)\<^sup>*\<^sup>* s s' \<Longrightarrow> act_inv s \<Longrightarrow> act_inv s'"
  by (induction rule: rtranclp_induct) (auto intro: act_inv_step)

section \<open>No waiter is lost\<close>

definition waiting :: "string \<Rightarrow> activation_state \<Rightarrow> bool" where
  "waiting rpc s \<longleftrightarrow> (\<exists>k c. bt_get (at_claims s) k = Some c \<and> rpc \<in> set (ac_waiters c))"

definition tracked :: "string \<Rightarrow> activation_state \<Rightarrow> bool" where
  "tracked rpc s \<longleftrightarrow> waiting rpc s \<or> bt_get (at_outcomes s) rpc \<noteq> None"

lemma tracked_settle:
  assumes "bt_ok (at_outcomes s)" and "bt_get (at_claims s) key = Some c"
    and "\<And>k. k \<noteq> key \<Longrightarrow> bt_get (at_claims s') k = bt_get (at_claims s) k"
    and "\<And>w. bt_get (at_outcomes s') w = (if w \<in> set (ac_waiters c) then Some out else bt_get (at_outcomes s) w)"
    and "tracked rpc s"
  shows "tracked rpc s'"
  using assms unfolding tracked_def waiting_def by (metis option.distinct(1) option.inject)

lemma tracked_outcome: "bt_ok (at_outcomes s) \<Longrightarrow> tracked rpc s \<Longrightarrow> tracked rpc (set_outcome out w s)"
  by (auto simp: tracked_def waiting_def set_outcome_def bt.get_ins)

lemma tracked_same:
  "at_claims s' = at_claims s \<Longrightarrow> at_outcomes s' = at_outcomes s \<Longrightarrow> tracked rpc s' = tracked rpc s"
  by (simp add: tracked_def waiting_def)

lemma tracked_timeout:
  assumes "corr_inv s" and "tracked rpc s"
  shows "tracked rpc (snd (on_activation_timeout rid s))"
proof (cases "\<exists>key c. bt_get (at_by_request_id s) rid = Some key \<and> bt_get (at_claims s) key = Some c")
  case True
  then obtain key c where k: "bt_get (at_by_request_id s) rid = Some key" "bt_get (at_claims s) key = Some c" by blast
  show ?thesis
    by (rule tracked_settle [OF corr_invD(3) [OF assms(1)] k(2) _ _ assms(2)])
       (use k corr_invD(3) [OF assms(1)] in \<open>auto simp: on_activation_timeout_def drop_claim_def bt_get_remove
          settle_waiters_outcome\<close>)
next
  case False
  with assms(2) show ?thesis by (auto simp: on_activation_timeout_def split: option.split)
qed

lemma tracked_ack:
  assumes "corr_inv s" and "tracked rpc s"
  shows "tracked rpc (snd (on_activation_ack opts rid rt conn acc now s))"
proof (cases "\<exists>key c. bt_get (at_by_request_id s) rid = Some key \<and> bt_get (at_claims s) key = Some c \<and>
    ct_owner_runtime_id (ac_token c) = rt \<and> ac_owner_connection c = conn")
  case False
  then have "\<exists>f. snd (on_activation_ack opts rid rt conn acc now s) = bump_counters f s"
    by (auto simp: on_activation_ack_def Let_def split: option.split)
  then show ?thesis using assms(2) tracked_same [of "bump_counters _ s" s] by force
next
  case True
  then obtain key c where k: "bt_get (at_by_request_id s) rid = Some key" "bt_get (at_claims s) key = Some c"
    "ct_owner_runtime_id (ac_token c) = rt" "ac_owner_connection c = conn" by blast
  let ?s' = "snd (on_activation_ack opts rid rt conn acc now s)"
  define out where "out = (if acc then
      (case fst (own_commit (ac_token c) (ac_facts c) now (ao_lease_ttl_ms opts) (at_registry s)) of
         Inr f \<Rightarrow> WaiterResolved (of_epoch f) | Inl _ \<Rightarrow> WaiterFailed ''CommitRejected'')
      else WaiterFailed ''AckRejected'')"
  have out: "bt_get (at_outcomes ?s') w = (if w \<in> set (ac_waiters c) then Some out else bt_get (at_outcomes s) w)" for w
    using k corr_invD(3) [OF assms(1)]
    by (auto simp: on_activation_ack_def drop_claim_def Let_def settle_waiters_outcome out_def
        split: sum.splits prod.splits)
  have "bt_get (at_claims ?s') j = bt_get (at_claims s) j" if "j \<noteq> key" for j
    using k that by (auto simp: on_activation_ack_def drop_claim_def Let_def bt_get_remove split: sum.split prod.split)
  from tracked_settle [OF corr_invD(3) [OF assms(1)] k(2) this out assms(2)] show ?thesis .
qed

lemma tracked_shutdown_claim:
  assumes "corr_inv (snd acc)" and "tracked rpc (snd acc)"
  shows "tracked rpc (snd (shutdown_claim k acc))"
proof -
  obtain outs s where acc: "acc = (outs, s)" by fastforce
  note ok = corr_invD(3) [OF assms(1) [unfolded acc snd_conv]]
  show ?thesis
  proof (cases "bt_get (at_claims s) k")
    case (Some c)
    show ?thesis
      by (rule tracked_settle [OF ok Some _ _ assms(2) [unfolded acc snd_conv]])
         (use Some ok in \<open>auto simp: shutdown_claim_def acc bt_get_remove settle_waiters_outcome\<close>)
  qed (use assms(2) in \<open>simp add: shutdown_claim_def acc\<close>)
qed

lemma tracked_get_or_create:
  assumes "corr_inv s" and "tracked rpc s"
  shows "tracked rpc (snd (get_or_create opts send req s))"
proof -
  note ok = corr_invD(1,3) [OF assms(1)]
  have start: "tracked rpc (snd (start_activation opts send req t (s\<lparr>at_registry := r\<rparr>)))"
    if "bt_get (at_claims s) (gc_actor_key req) = None" for t r
  proof -
    let ?s' = "snd (start_activation opts send req t (s\<lparr>at_registry := r\<rparr>))"
    have "bt_get (at_claims ?s') j = bt_get (at_claims s) j" if "j \<noteq> gc_actor_key req" for j
      using ok that by (auto simp: start_activation_def Let_def bt_get_remove bt.get_ins split: sum.split prod.split)
    moreover have "bt_get (at_outcomes s) w \<noteq> None \<Longrightarrow> bt_get (at_outcomes ?s') w \<noteq> None" for w
      using ok by (auto simp: start_activation_def Let_def settle_waiters_outcome split: sum.split prod.split)
    ultimately show ?thesis using assms(2) that unfolding tracked_def waiting_def by (metis option.distinct(1))
  qed
  have join: "tracked rpc (bump_counters f (s\<lparr>at_claims := bt_insert (gc_actor_key req)
      (claim\<lparr>ac_waiters := ac_waiters claim @ ws\<rparr>) (at_claims s)\<rparr>))"
    if "bt_get (at_claims s) (gc_actor_key req) = Some claim" for f claim ws
  proof (cases "bt_get (at_outcomes s) rpc = None")
    case True
    with assms(2) obtain k c where "bt_get (at_claims s) k = Some c" "rpc \<in> set (ac_waiters c)"
      by (auto simp: tracked_def waiting_def)
    then show ?thesis using that ok
      by (cases "k = gc_actor_key req") (auto simp: tracked_def waiting_def bt.get_ins)
  qed (simp add: tracked_def)
  have plain: "tracked rpc (s\<lparr>at_registry := r\<rparr>)" "tracked rpc (bump_counters f s)" for r f
    using assms(2) by (simp_all add: tracked_def waiting_def)
  show ?thesis
    using assms(2) start join plain ok
    by (auto simp: get_or_create_def Let_def fail_admission_def tracked_outcome split: option.split sum.split prod.split)
qed

lemma fold_tracked:
  assumes "\<And>x acc. act_inv (snd acc) \<Longrightarrow> act_inv (snd (f x acc))"
    and "\<And>x acc. act_inv (snd acc) \<Longrightarrow> tracked rpc (snd acc) \<Longrightarrow> tracked rpc (snd (f x acc))"
  shows "act_inv (snd acc) \<Longrightarrow> tracked rpc (snd acc) \<Longrightarrow> tracked rpc (snd (fold f xs acc))"
  by (induction xs arbitrary: acc) (auto simp: assms)

lemma tracked_step:
  assumes "act_inv s" and "act_step opts s s'" and "tracked rpc s"
  shows "tracked rpc s'"
proof -
  obtain op where op: "s' = act_exec opts op s" using assms(2) by (auto elim: act_stepE)
  note corr = act_invD(1) [OF assms(1)]
  show ?thesis
  proof (cases op)
    case (ActExpireDeadlines now)
    have "tracked rpc (snd (fold expire_one (overdue_requests now s) ([], s)))"
      by (rule fold_tracked)
         (use assms in \<open>auto simp: expire_one_snd act_inv_timeout intro: tracked_timeout act_invD(1)\<close>)
    then show ?thesis using op ActExpireDeadlines by (simp add: expire_deadlines_fold)
  next
    case ActShutdown
    have "tracked rpc (snd (fold shutdown_claim (bt_keys (at_claims s)) ([], s)))"
      by (rule fold_tracked)
         (use assms in \<open>auto simp: shutdown_claim_inv intro: tracked_shutdown_claim act_invD(1)\<close>)
    then show ?thesis using op ActShutdown
      by (simp add: activation_shutdown_def split_def Let_def tracked_def waiting_def)
  next
    case (ActRegistry r)
    then show ?thesis using op assms(3) by (simp add: tracked_def waiting_def)
  qed (use op corr assms(3) in \<open>auto simp: on_owner_disconnect_def
      intro: tracked_get_or_create tracked_ack tracked_timeout\<close>)
qed

lemma tracked_run: "(act_step opts)\<^sup>*\<^sup>* s s' \<Longrightarrow> act_inv s \<Longrightarrow> tracked rpc s \<Longrightarrow> tracked rpc s'"
proof (induction rule: rtranclp_induct)
  case (step t u)
  then show ?case using tracked_step act_run_inv by blast
qed simp

lemma admitted_tracked:
  assumes "corr_inv s" and "get_or_create opts send req s = (out, s1)" and "out \<noteq> GocSaturated"
  shows "tracked (gc_rpc_id req) s1"
proof -
  note ok = corr_invD(1,3) [OF assms(1)]
  have start: "tracked (gc_rpc_id req) (snd (start_activation opts send req t (s\<lparr>at_registry := r\<rparr>)))" for t r
    using ok by (auto simp: start_activation_def Let_def tracked_def waiting_def settle_waiters_outcome bt.get_ins
        split: sum.split prod.split)
  have join: "tracked (gc_rpc_id req) (s\<lparr>at_claims := bt_insert (gc_actor_key req)
      (claim\<lparr>ac_waiters := ac_waiters claim @ [gc_rpc_id req]\<rparr>) (at_claims s), at_counters := f\<rparr>)" for f claim
    using ok by (auto simp: tracked_def waiting_def bt.get_ins)
  have own: "tracked (gc_rpc_id req) (set_outcome o1 (gc_rpc_id req) u)" if "bt_ok (at_outcomes u)" for o1 u
    using that by (simp add: tracked_def set_outcome_def bt.get_ins)
  have small: "\<not> length (at_claims s) \<ge> ao_max_claims opts"
    using assms(2,3) by (auto simp: get_or_create_def)
  have "tracked (gc_rpc_id req) (snd (get_or_create opts send req s))"
  proof (cases "bt_get (at_claims s) (gc_actor_key req)")
    case (Some claim)
    then show ?thesis using small by (simp add: get_or_create_def join own ok)
  next
    case None
    then show ?thesis using small
      by (simp add: get_or_create_def Let_def fail_admission_def split_def own ok start split: option.split sum.split)
  qed
  then show ?thesis using assms(2) by simp
qed

section \<open>Acknowledgements\<close>

definition keyed :: "activation_state \<Rightarrow> bool" where
  "keyed s \<longleftrightarrow> (\<forall>k c. bt_get (at_claims s) k = Some c \<longrightarrow> ct_actor_key (ac_token c) = k)"

lemma keyed_cong: "at_claims s' = at_claims s \<Longrightarrow> keyed s \<Longrightarrow> keyed s'"
  by (simp add: keyed_def)

lemma keyed_shrink:
  assumes "\<And>k. bt_get (at_claims s') k = None \<or> bt_get (at_claims s') k = bt_get (at_claims s) k" and "keyed s"
  shows "keyed s'"
  using assms unfolding keyed_def by (metis option.distinct(1))

lemma ack_claims_shrink:
  "bt_get (at_claims (snd (on_activation_ack opts rid rt conn acc now s))) k \<in> {None, bt_get (at_claims s) k}"
  by (auto simp: on_activation_ack_def Let_def drop_claim_def bt_get_remove split: option.split sum.split prod.split)

lemma timeout_claims_shrink:
  "bt_get (at_claims (snd (on_activation_timeout rid s))) k \<in> {None, bt_get (at_claims s) k}"
  by (auto simp: on_activation_timeout_def drop_claim_def bt_get_remove split: option.split)

lemma keyed_fold: "(\<And>x acc. keyed (snd acc) \<Longrightarrow> keyed (snd (f x acc))) \<Longrightarrow> keyed (snd acc) \<Longrightarrow> keyed (snd (fold f xs acc))"
  by (induction xs arbitrary: acc) auto

lemma keyed_timeout: "keyed s \<Longrightarrow> keyed (snd (on_activation_timeout rid s))"
  by (rule keyed_shrink) (use timeout_claims_shrink in auto)

lemma keyed_shutdown_claim: "keyed (snd acc) \<Longrightarrow> keyed (snd (shutdown_claim k acc))"
  by (auto simp: shutdown_claim_def keyed_def bt_get_remove split: prod.split option.split)

lemma reserve_token_key: "own_reserve k e rt b now s = (Inr t, s') \<Longrightarrow> ct_actor_key t = k"
  by (auto simp: own_reserve_def Let_def split: option.splits if_splits)

lemma keyed_get_or_create:
  assumes "bt_ok (at_claims s)" and "keyed s"
  shows "keyed (snd (get_or_create opts send req s))"
proof (cases "bt_get (at_claims s) (gc_actor_key req)")
  case (Some c)
  with assms show ?thesis
    by (simp add: get_or_create_def keyed_def bt.get_ins set_outcome_def)
next
  case None
  have start: "keyed (snd (start_activation opts send req t (s\<lparr>at_registry := r\<rparr>)))"
    if "ct_actor_key t = gc_actor_key req" for t r
    using that assms
    by (auto simp: start_activation_def Let_def keyed_def bt.get_ins bt_get_remove split: sum.split prod.split)
  have other: "keyed (s\<lparr>at_registry := r\<rparr>)" "keyed (set_outcome w x s)" "keyed (set_outcome w x (s\<lparr>at_registry := r\<rparr>))" for r w x
    using assms(2) by (simp_all add: keyed_def set_outcome_def)
  obtain ep r1 where ens: "own_ensure_present (gc_actor_key req) (gc_actor_abi_identity req)
      (gc_actor_implementation_identity req) (gc_declaration_owner req) (gc_bootstrap_bytes req) (at_registry s) = (ep, r1)"
    by fastforce
  obtain res r2 where rv: "own_reserve (gc_actor_key req) ep (gc_owner_runtime_id req) (gc_build_id req)
      (gc_now req) r1 = (res, r2)" by fastforce
  have "keyed (bump_counters f s)" for f using assms(2) by (simp add: keyed_def)
  then have reserved: "keyed (snd (case res of
        Inl err \<Rightarrow> fail_admission (gc_rpc_id req) (ownership_failure_code err) (s\<lparr>at_registry := r2\<rparr>)
      | Inr token \<Rightarrow> start_activation opts send req token (s\<lparr>at_registry := r2\<rparr>)))"
    using reserve_token_key rv by (cases res) (auto simp: fail_admission_def other start)
  have failing: "keyed (snd (fail_admission rpc code s))" for rpc code by (simp add: fail_admission_def other)
  from None \<open>\<And>f. keyed (bump_counters f s)\<close> show ?thesis
    by (simp add: get_or_create_def Let_def ens rv failing other reserved split: option.split)
qed

lemma keyed_step:
  assumes "act_inv s" and "act_step opts s s'" and "keyed s"
  shows "keyed s'"
proof -
  obtain op where op: "s' = act_exec opts op s" using assms(2) by (auto elim: act_stepE)
  show ?thesis
  proof (cases op)
    case (ActAck rid rt conn acc now)
    show ?thesis unfolding op ActAck act_exec.simps
      by (rule keyed_shrink [OF _ assms(3)]) (use ack_claims_shrink in auto)
  next
    case (ActExpireDeadlines now)
    then show ?thesis using op assms(3)
      by (auto simp: expire_deadlines_fold expire_one_snd intro!: keyed_fold keyed_timeout)
  next
    case ActShutdown
    have "keyed (snd (fold shutdown_claim (bt_keys (at_claims s)) ([], s)))"
      by (rule keyed_fold) (use assms(3) keyed_shutdown_claim in auto)
    then show ?thesis using op ActShutdown by (simp add: activation_shutdown_def split_def Let_def keyed_def)
  qed (use op assms(3) keyed_get_or_create [OF corr_invD(1) [OF act_invD(1) [OF assms(1)]] assms(3)]
        in \<open>auto simp: on_owner_disconnect_def keyed_timeout intro: keyed_cong\<close>)
qed

lemma keyed_run: "(act_step opts)\<^sup>*\<^sup>* s s' \<Longrightarrow> act_inv s \<Longrightarrow> keyed s \<Longrightarrow> keyed s'"
proof (induction rule: rtranclp_induct)
  case (step t u)
  then show ?case using keyed_step act_run_inv by blast
qed simp

text \<open>The claim an acknowledgement correlates with: the pending one of its request id, when it names
  the runtime and the connection the activation was sent to.\<close>

definition correlated :: "activation_state \<Rightarrow> string \<Rightarrow> string \<Rightarrow> string \<Rightarrow> activation_claim option" where
  "correlated s rid rt conn =
     (case bt_get (at_by_request_id s) rid of
        None \<Rightarrow> None
      | Some key \<Rightarrow>
          (case bt_get (at_claims s) key of
             None \<Rightarrow> None
           | Some c \<Rightarrow> if ct_owner_runtime_id (ac_token c) = rt \<and> ac_owner_connection c = conn then Some c else None))"

lemma ack_uncorrelated:
  "correlated s rid rt conn = None \<Longrightarrow>
   fst (on_activation_ack opts rid rt conn acc now s) \<in> {AckLate, AckWrongCorrelation} \<and>
   (\<exists>c. snd (on_activation_ack opts rid rt conn acc now s) = s\<lparr>at_counters := c\<rparr>)"
  by (auto simp: correlated_def on_activation_ack_def Let_def split: option.splits if_splits)

lemma own_commit_owner:
  assumes "bt_ok (ow_entries r)" and "own_commit t facts now ttl r = (res, r')"
  shows "case res of
      Inr f \<Rightarrow> f = commit_fence t facts now ttl \<and> own_current_owner (ct_actor_key t) r' = Some f
    | Inl _ \<Rightarrow> own_current_owner k r' = own_current_owner k r"
  using assms
  by (auto simp: own_commit_def own_current_owner_def Let_def bt.get_ins split: option.splits if_splits sum.split)

lemma own_abort_owner:
  "bt_ok (ow_entries r) \<Longrightarrow> own_current_owner k (snd (own_abort t r)) = own_current_owner k r"
  by (auto simp: own_abort_def own_current_owner_def bt.get_ins split: option.split)

section \<open>Properties\<close>

text \<open>C18: Every get-or-create call that is not turned away for saturation is accounted for: from its
  admission on, at every later point of the run, its rpc either waits on an activation in
  flight or has a final outcome.\<close>

theorem waiter_never_lost:
  assumes "(act_step opts)\<^sup>*\<^sup>* (activation_new own_new) s" and "own_headroom (at_registry s)"
    and "get_or_create opts send req s = (out, s1)" and "out \<noteq> GocSaturated"
    and "(act_step opts)\<^sup>*\<^sup>* s1 s'"
  shows "waiting (gc_rpc_id req) s' \<or> outcome_for (gc_rpc_id req) s' \<noteq> None"
proof -
  have inv: "act_inv s" using act_run_inv [OF assms(1) act_inv_new] .
  have step: "act_step opts s s1" using act_step.intros [OF assms(2), of opts "ActGetOrCreate send req"] assms(3) by simp
  have "tracked (gc_rpc_id req) s1" using admitted_tracked [OF act_invD(1) [OF inv] assms(3,4)] .
  then show ?thesis
    using tracked_run [OF assms(5) act_inv_step [OF inv step]] by (auto simp: tracked_def outcome_for_def)
qed

lemma fold_shutdown_claims:
  "bt_get (at_claims (snd (fold shutdown_claim ks acc))) k = (if k \<in> set ks then None else bt_get (at_claims (snd acc)) k)"
proof (induction ks arbitrary: acc)
  case (Cons j ks)
  have "bt_get (at_claims (snd (shutdown_claim j acc))) k = (if k = j then None else bt_get (at_claims (snd acc)) k)"
    by (auto simp: shutdown_claim_def bt_get_remove split: prod.split option.split)
  with Cons show ?case by auto
qed simp

lemma bt_get_all_None: "(\<forall>k. bt_get m k = None) \<longleftrightarrow> m = []"
  by (cases m) (auto simp: bt_get_def)

text \<open>Acknowledgements are correlated exactly. An acknowledgement whose request id is not pending,
  or that comes from another runtime or connection than the one activated, changes nothing but a
  counter. A correlated one removes its claim for good; accepted, it installs exactly the fence the
  reservation stands for (its runtime and lease id) and resolves every waiter to its epoch, or,
  when the registry refuses the commit, leaves every owner alone and fails every waiter; rejected,
  it leaves every owner alone and fails every waiter.\<close>

theorem activation_ack_exact:
  assumes "(act_step opts)\<^sup>*\<^sup>* (activation_new own_new) s"
    and "on_activation_ack opts rid rt conn accepted now s = (out, s')"
  shows "case correlated s rid rt conn of
      None \<Rightarrow> out \<in> {AckLate, AckWrongCorrelation} \<and> (\<exists>c. s' = s\<lparr>at_counters := c\<rparr>)
    | Some c \<Rightarrow>
        bt_get (at_claims s') (ct_actor_key (ac_token c)) = None \<and> bt_get (at_by_request_id s') rid = None \<and>
        (\<exists>answer. (\<forall>w \<in> set (ac_waiters c). bt_get (at_outcomes s') w = Some answer) \<and>
           (if accepted \<and> \<not> isl (fst (own_commit (ac_token c) (ac_facts c) now (ao_lease_ttl_ms opts) (at_registry s)))
            then let f = commit_fence (ac_token c) (ac_facts c) now (ao_lease_ttl_ms opts) in
              out = AckCommitted (of_epoch f) (ac_waiters c) \<and> answer = WaiterResolved (of_epoch f) \<and>
              own_current_owner (ct_actor_key (ac_token c)) (at_registry s') = Some f \<and>
              of_owner_runtime_id f = rt \<and> of_owner_lease_id f = cf_owner_lease_id (ac_facts c)
            else out \<in> {AckCommitRejected (ac_waiters c), AckAborted (ac_waiters c)} \<and>
              (\<exists>code. answer = WaiterFailed code) \<and>
              (\<forall>k. own_current_owner k (at_registry s') = own_current_owner k (at_registry s))))"
proof (cases "correlated s rid rt conn")
  case None
  with ack_uncorrelated [OF this, of opts accepted now] assms(2) show ?thesis by simp
next
  case (Some c)
  have inv: "act_inv s" using act_run_inv [OF assms(1) act_inv_new] .
  have "keyed s" using keyed_run [OF assms(1) act_inv_new] by (simp add: keyed_def activation_new_def)
  then obtain key where key: "bt_get (at_by_request_id s) rid = Some key" "bt_get (at_claims s) key = Some c"
      "ct_owner_runtime_id (ac_token c) = rt" "ac_owner_connection c = conn" "ct_actor_key (ac_token c) = key"
    using Some by (auto simp: correlated_def keyed_def split: option.splits if_splits)
  note ok = corr_invD(3) [OF act_invD(1) [OF inv]]
  note reg = own_invD(1) [OF act_invD(2) [OF inv]]
  obtain res r' where com: "own_commit (ac_token c) (ac_facts c) now (ao_lease_ttl_ms opts) (at_registry s) = (res, r')"
    by fastforce
  note owner = own_commit_owner [OF reg com]
  show ?thesis
  proof (cases "accepted")
    case True
    with assms(2) key com Some owner ok show ?thesis
      by (cases res) (auto simp: on_activation_ack_def Let_def drop_claim_def bt_get_remove settle_waiters_outcome
          commit_fence_def)
  next
    case False
    with assms(2) key Some ok own_abort_owner [OF reg] show ?thesis
      by (auto simp: on_activation_ack_def Let_def drop_claim_def bt_get_remove settle_waiters_outcome)
  qed
qed

text \<open>Shutdown leaves nothing pending: no claim and no correlation entry remains, and every rpc
  that was still waiting has a final outcome.\<close>

theorem shutdown_settles_all:
  assumes "(act_step opts)\<^sup>*\<^sup>* (activation_new own_new) s" and "activation_shutdown s = (outs, s')"
  shows "at_claims s' = [] \<and> at_by_request_id s' = [] \<and> at_tombstones s' = [] \<and>
         (\<forall>rpc. waiting rpc s \<longrightarrow> outcome_for rpc s' \<noteq> None)"
proof -
  have inv: "act_inv s" using act_run_inv [OF assms(1) act_inv_new] .
  note ok = corr_invD(1) [OF act_invD(1) [OF inv]]
  have s': "s' = snd (activation_shutdown s)" using assms(2) by simp
  have inv': "act_inv s'" unfolding s' by (rule act_inv_shutdown [OF inv])
  have "bt_get (at_claims s') k = None" for k
    using bt.set_keys [OF ok]
    by (simp add: s' activation_shutdown_def split_def Let_def fold_shutdown_claims)
  then have claims: "at_claims s' = []" using bt_get_all_None by blast
  then have "bt_get (at_by_request_id s') rid = None" for rid
    using corr_invD(5) [OF act_invD(1) [OF inv'], of rid] by (cases "bt_get (at_by_request_id s') rid") auto
  then have "at_by_request_id s' = []" using bt_get_all_None by blast
  moreover have "outcome_for rpc s' \<noteq> None" if "waiting rpc s" for rpc
  proof -
    have "tracked rpc (snd (fold shutdown_claim (bt_keys (at_claims s)) ([], s)))"
      by (rule fold_tracked)
         (use inv that in \<open>auto simp: shutdown_claim_inv tracked_def [of rpc s]
            intro: tracked_shutdown_claim act_invD(1)\<close>)
    then have "tracked rpc s'" by (simp add: s' activation_shutdown_def split_def Let_def tracked_def waiting_def)
    with claims show ?thesis by (auto simp: tracked_def waiting_def outcome_for_def)
  qed
  ultimately show ?thesis using claims by (simp add: s' activation_shutdown_def split_def Let_def)
qed

lemma fold_expire_claims:
  "corr_inv (snd acc) \<Longrightarrow>
   bt_get (at_claims (snd (fold expire_one rids acc))) k =
     (case bt_get (at_claims (snd acc)) k of
        None \<Rightarrow> None
      | Some c \<Rightarrow> if ct_claim_id (ac_token c) \<in> set rids then None else Some c)"
proof (induction rids arbitrary: acc)
  case (Cons rid rids)
  obtain res s1 where r: "on_activation_timeout rid (snd acc) = (res, s1)" by fastforce
  note t = timeout_corr [OF Cons.prems r]
  have s1: "snd (expire_one rid acc) = s1" by (simp add: expire_one_snd r)
  have here: "bt_get (at_claims s1) k =
      (case bt_get (at_claims (snd acc)) k of None \<Rightarrow> None
       | Some c \<Rightarrow> if ct_claim_id (ac_token c) = rid then None else Some c)"
  proof (cases "bt_get (at_claims (snd acc)) k")
    case (Some c)
    have "bt_get (at_by_request_id (snd acc)) rid = Some k \<longleftrightarrow> ct_claim_id (ac_token c) = rid"
      using corr_invD(4,5) [OF Cons.prems] Some by fastforce
    with t Some show ?thesis by simp
  qed (use t in simp)
  have "corr_inv (snd (expire_one rid acc))" using t s1 by simp
  from Cons.IH [OF this] here s1 show ?case by (auto split: option.split)
qed (simp split: option.split)

lemma overdue_mem:
  "rid \<in> set (overdue_requests now s) \<longleftrightarrow>
     (\<exists>k c. (rid, k) \<in> set (at_by_request_id s) \<and> bt_get (at_claims s) k = Some c \<and> ac_deadline_at c \<le> now)"
proof -
  have "(case x of None \<Rightarrow> False | Some claim \<Rightarrow> ac_deadline_at claim \<le> now) \<longleftrightarrow> (\<exists>c. x = Some c \<and> ac_deadline_at c \<le> now)"
    for x :: "activation_claim option" by (cases x) auto
  then show ?thesis by (simp add: overdue_requests_def image_iff split_def Bex_def)
qed

text \<open>A deadline sweep at \<open>now\<close> removes exactly the activations whose deadline has passed; an
  activation with time left is untouched.\<close>

theorem expire_deadlines_exact:
  assumes "(act_step opts)\<^sup>*\<^sup>* (activation_new own_new) s" and "expire_deadlines now s = (outs, s')"
  shows "bt_get (at_claims s') k =
     (case bt_get (at_claims s) k of
        None \<Rightarrow> None
      | Some c \<Rightarrow> if ac_deadline_at c \<le> now then None else Some c)"
proof -
  have corr: "corr_inv s" using act_invD(1) [OF act_run_inv [OF assms(1) act_inv_new]] .
  have overdue: "ct_claim_id (ac_token c) \<in> set (overdue_requests now s) \<longleftrightarrow> ac_deadline_at c \<le> now"
    if "bt_get (at_claims s) k = Some c" for c
  proof -
    have *: "(ct_claim_id (ac_token c), k) \<in> set (at_by_request_id s)"
      using corr_invD(4) [OF corr that] by (rule bt_get_in_set)
    have "k' = k" if "(ct_claim_id (ac_token c), k') \<in> set (at_by_request_id s)" for k'
      using that * bt.distinct_keys [OF corr_invD(2) [OF corr]]
      by (auto simp: bt_keys_def dest: eq_key_imp_eq_value)
    then show ?thesis using * that unfolding overdue_mem by (metis option.inject)
  qed
  have "s' = snd (fold expire_one (overdue_requests now s) ([], s))"
    unfolding expire_deadlines_fold [of now s, symmetric] assms(2) by simp
  then have "bt_get (at_claims s') k = (case bt_get (at_claims s) k of None \<Rightarrow> None
      | Some c \<Rightarrow> if ct_claim_id (ac_token c) \<in> set (overdue_requests now s) then None else Some c)"
    using fold_expire_claims [of "([], s)" "overdue_requests now s" k] corr by simp
  with overdue show ?thesis by (cases "bt_get (at_claims s) k") simp_all
qed

section \<open>A sample broker\<close>

definition demo_options :: activation_options where
  "demo_options = \<lparr>ao_activation_deadline_ms = 10, ao_lease_ttl_ms = 30, ao_max_claims = 4, ao_max_tombstones = 0\<rparr>"

definition demo_request :: get_or_create_request where
  "demo_request = \<lparr>gc_rpc_id = ''rpc-1'', gc_actor_key = demo_key, gc_actor_abi_identity = ''abi'',
     gc_actor_implementation_identity = ''impl'', gc_declaration_owner = demo_decl, gc_bootstrap_bytes = [],
     gc_owner_runtime_id = ''rt-a'', gc_owner_connection = ''conn-a'', gc_build_id = ''b'', gc_deadline = None,
     gc_test_case_capability = None, gc_test_case_parent_request_id = None, gc_now = 0\<rparr>"

definition demo_claim :: activation_claim where
  "demo_claim = \<lparr>ac_token = demo_token, ac_facts = demo_facts ''owner-lease-1'', ac_lineage = Ordinary,
     ac_owner_connection = ''conn-a'', ac_waiters = [''rpc-1''], ac_deadline_at = 10\<rparr>"

definition demo_started :: activation_state where
  "demo_started = (activation_new own_new)\<lparr>at_registry := demo_reserved, at_lease_next := 1,
     at_claims := [(demo_key, demo_claim)], at_by_request_id := [(''actor-claim-0'', demo_key)]\<rparr>"

lemma lease_id_mint_0: "lease_id_mint 0 = (''owner-lease-1'', 1)"
proof -
  have "''owner-lease-'' @ show_nat 1 = ''owner-lease-1''" by code_simp
  then show ?thesis by (simp add: lease_id_mint_def inc_u64_def)
qed

lemma demo_get_or_create:
  "get_or_create demo_options (\<lambda>_. Inr ()) demo_request (activation_new own_new) =
     (GocStartedActivation ''actor-claim-0'', demo_started)"
proof -
  have p: "own_ensure_present demo_key ''abi'' ''impl'' demo_decl [] own_new = (1, demo_present)"
    by (simp add: demo_present_def own_ensure_present_def own_new_def)
  have r: "own_reserve demo_key 1 ''rt-a'' ''b'' 0 demo_present = (Inr demo_token, demo_reserved)"
    by (simp add: demo_reserved_def own_reserve_def demo_registry bt_get_def demo_entry_def demo_token_def Let_def
        claim_id_mint_0)
  have t: "ct_claim_id demo_token = ''actor-claim-0''" by (simp add: demo_token_def)
  show ?thesis
    by (simp add: get_or_create_def start_activation_def demo_request_def demo_options_def activation_new_def
        own_current_owner_def own_entry_facts_def p [simplified] r [simplified] t lease_id_mint_0 demo_started_def demo_claim_def
        request_facts_def demo_facts_def saturating_add_u64_def u64_max_def bt_get_def Let_def
        split: option.split) (simp_all add: own_new_def)
qed

lemma demo_started_run: "(act_step demo_options)\<^sup>*\<^sup>* (activation_new own_new) demo_started"
proof -
  have "act_step demo_options (activation_new own_new)
      (act_exec demo_options (ActGetOrCreate (\<lambda>_. Inr ()) demo_request) (activation_new own_new))"
    by (rule act_step.intros) (simp add: activation_new_def demo_headroom)
  then show ?thesis by (simp add: demo_get_or_create)
qed

theorem waiter_never_lost_witness: "waiting ''rpc-1'' demo_started"
proof -
  have "outcome_for ''rpc-1'' demo_started = None"
    by (simp add: outcome_for_def demo_started_def activation_new_def)
  then show ?thesis
    using waiter_never_lost [OF rtranclp.rtrancl_refl _ demo_get_or_create _ rtranclp.rtrancl_refl]
    by (simp add: demo_headroom demo_request_def activation_new_def)
qed

lemma demo_ack_correlated: "correlated demo_started ''actor-claim-0'' ''rt-a'' ''conn-a'' = Some demo_claim"
  by (simp add: correlated_def demo_started_def bt_get_def demo_claim_def demo_token_def)

theorem activation_ack_exact_witness:
  "own_current_owner demo_key
     (at_registry (snd (on_activation_ack demo_options ''actor-claim-0'' ''rt-a'' ''conn-a'' True 0 demo_started))) =
   Some demo_fence"
proof -
  have "own_commit demo_token (demo_facts ''owner-lease-1'') 0 30 demo_reserved = (Inr demo_fence, demo_owned)"
    by (simp add: demo_owned_def own_commit_def demo_registry(2) bt_get_def demo_entry_def Let_def
        demo_facts_def demo_fence_def) (simp add: demo_token_def)
  then show ?thesis
    using activation_ack_exact [OF demo_started_run surjective_pairing, of "''actor-claim-0''" "''rt-a''" "''conn-a''" True 0]
    unfolding demo_ack_correlated
    by (simp add: demo_claim_def demo_started_def demo_options_def demo_fence_def Let_def)
       (simp add: demo_token_def)
qed

theorem shutdown_settles_all_witness:
  "at_claims (snd (activation_shutdown demo_started)) = [] \<and>
   outcome_for ''rpc-1'' (snd (activation_shutdown demo_started)) \<noteq> None"
  using shutdown_settles_all [OF demo_started_run surjective_pairing]
  by (auto simp: waiting_def demo_started_def bt_get_def demo_claim_def)

theorem expire_deadlines_exact_witness:
  "bt_get (at_claims (snd (expire_deadlines 9 demo_started))) demo_key = Some demo_claim \<and>
   bt_get (at_claims (snd (expire_deadlines 10 demo_started))) demo_key = None"
  using expire_deadlines_exact [OF demo_started_run surjective_pairing, of 9 demo_key]
    expire_deadlines_exact [OF demo_started_run surjective_pairing, of 10 demo_key]
  by (simp add: demo_started_def bt_get_def) (simp add: demo_claim_def)

text \<open>The configured tombstone bound is not enforced: with \<open>max_tombstones = 0\<close> the broker keeps
  a tombstone for every activation that ends, here after a single timeout.\<close>

theorem tombstones_unbounded:
  "ao_max_tombstones demo_options = 0 \<and>
   at_tombstones (snd (on_activation_timeout ''actor-claim-0'' demo_started)) = [(''actor-claim-0'', ())]"
  by (simp add: demo_options_def on_activation_timeout_def demo_started_def bt_get_def drop_claim_def
      activation_new_def)

end
