(* ===== verification/Actor_Correlation.thy ===== *)
theory Actor_Correlation
  imports Actor_Types
begin

text \<open>
  What the brokers of the actor lane share: a table of pending requests under unique ids, which an
  operation may admit and which end by an answer, a timeout, a disconnect or the shutdown. The
  interface asks for one law, the balance of admissions and ends of every id over one operation;
  every run then ends each admission at most once, and exactly once unless it is still pending.
\<close>

datatype table_event = Admitted string | Ended string

primrec table_run ::
  "('op \<Rightarrow> 's \<Rightarrow> table_event list \<times> 's) \<Rightarrow> 'op list \<Rightarrow> 's \<Rightarrow> table_event list \<times> 's" where
  "table_run exec [] s = ([], s)"
| "table_run exec (op # ops) s =
     (let (evs, s1) = exec op s; (evs', s2) = table_run exec ops s1 in (evs @ evs', s2))"

locale pending_table =
  fixes exec :: "'op \<Rightarrow> 's \<Rightarrow> table_event list \<times> 's"
    and pending :: "'s \<Rightarrow> string \<Rightarrow> bool"
    and ok :: "'s \<Rightarrow> bool"
  assumes exec_ok: "ok s \<Longrightarrow> ok (snd (exec op s))"
    and exec_balance: "ok s \<Longrightarrow>
      count_list (fst (exec op s)) (Admitted i) + of_bool (pending s i) =
      count_list (fst (exec op s)) (Ended i) + of_bool (pending (snd (exec op s)) i)"
begin

lemma run_ok: "ok s \<Longrightarrow> ok (snd (table_run exec ops s))"
proof (induction ops arbitrary: s)
  case (Cons op ops)
  then show ?case using exec_ok [of s op] by (simp add: Let_def split_def)
qed simp

lemma run_balance:
  "ok s \<Longrightarrow> count_list (fst (table_run exec ops s)) (Admitted i) + of_bool (pending s i) =
    count_list (fst (table_run exec ops s)) (Ended i) + of_bool (pending (snd (table_run exec ops s)) i)"
proof (induction ops arbitrary: s)
  case (Cons op ops)
  then show ?case using exec_ok [of s op] exec_balance [of s op i] by (simp add: Let_def split_def) force
qed simp

lemma run_ends_once:
  "ok s \<Longrightarrow> \<not> pending s i \<Longrightarrow>
   count_list (fst (table_run exec ops s)) (Admitted i) =
   count_list (fst (table_run exec ops s)) (Ended i) + of_bool (pending (snd (table_run exec ops s)) i)"
  using run_balance [of s ops i] by simp

end

section \<open>Ordered tables\<close>

lemma bt_keys_get: "k \<in> set (bt_keys m) \<longleftrightarrow> bt_get m k \<noteq> None"
  by (simp add: bt_dom)

lemma bt_remove_length: "bt_ok m \<Longrightarrow> length (bt_remove k m) = length m - of_bool (bt_get m k \<noteq> None)"
proof (induction m)
  case (Cons e m)
  have "fst e = k \<Longrightarrow> k \<notin> fst ` set m" using Cons.prems by (auto simp: bt_ok_Cons)
  then have "fst e = k \<Longrightarrow> filter (\<lambda>e. fst e \<noteq> k) m = m" by (metis (mono_tags, lifting) filter_True image_eqI)
  moreover have "bt_get m k \<noteq> None \<Longrightarrow> length m > 0" by (cases m) auto
  ultimately show ?case using Cons by (cases e) (auto simp: bt_remove_def bt_get_def bt_ok_Cons)
qed (simp add: bt_remove_def)

lemma bt_insert_length: "bt_ok m \<Longrightarrow> bt_get m k = None \<Longrightarrow> length (bt_insert k v m) = Suc (length m)"
  by (induction k v m rule: bt_insert.induct) (auto simp: bt_get_def bt_ok_Cons split: if_splits)

text \<open>The keys of the entries that meet a condition, in order.\<close>

definition bt_select :: "('v \<Rightarrow> bool) \<Rightarrow> ('k, 'v) btree \<Rightarrow> 'k list" where
  "bt_select p m = map fst (filter (\<lambda>(k, v). p v) m)"

lemma bt_select_iff: "bt_ok m \<Longrightarrow> k \<in> set (bt_select p m) \<longleftrightarrow> (\<exists>v. bt_get m k = Some v \<and> p v)"
proof -
  assume "bt_ok m"
  then have "distinct (map fst m)" using bt.distinct_keys [of m] by (simp add: bt_keys_def)
  then show ?thesis by (force simp: bt_select_def bt_get_def map_of_eq_Some_iff image_iff)
qed

lemma bt_select_distinct: "bt_ok m \<Longrightarrow> distinct (bt_select p m)"
proof -
  assume "bt_ok m"
  then have "distinct (map fst m)" using bt.distinct_keys [of m] by (simp add: bt_keys_def)
  then show ?thesis by (simp add: bt_select_def distinct_map_filter)
qed

end
