(* ===== verification/Actor_Control.thy ===== *)
theory Actor_Control
  imports Actor_Correlation
begin

text \<open>
  \<open>ActorOwnerControlBroker\<close> of \<open>router/src/actor/control.rs\<close>: correlation of owner-control requests
  with their acknowledgements, deadlines, owner disconnects and shutdown. The mutex makes every
  operation one step, except the deadline sweep, which collects the overdue ids first and then
  times out each of them on its own.
\<close>

section \<open>State\<close>

definition DEFAULT_CONTROL_ACK_DEADLINE_MS :: u64 where
  "DEFAULT_CONTROL_ACK_DEADLINE_MS = 10000"

record control_broker_options =
  cb_ack_deadline_ms :: u64
  cb_max_pending :: usize
  cb_max_tombstones :: usize

definition default_control_options :: control_broker_options where
  "default_control_options = \<lparr>cb_ack_deadline_ms = DEFAULT_CONTROL_ACK_DEADLINE_MS,
     cb_max_pending = DEFAULT_ACTOR_PENDING_BUDGET, cb_max_tombstones = DEFAULT_ACTOR_TOMBSTONE_BUDGET\<rparr>"

datatype owner_control_operation = MarkUpgrading | Discard | Activate | ActivateInitial | IdleEvict

record owner_control_request =
  oc_request_id :: string
  oc_operation :: owner_control_operation
  oc_runtime_id :: string
  oc_connection :: string
  oc_fence :: actor_owner_fence
  oc_build_id :: string
  oc_deadline_at :: u64

datatype control_error = ControlDuplicate | ControlSaturated

datatype control_ack_outcome = CtlAccepted | CtlRejected | CtlLateAck | CtlWrongCorrelation | CtlUnknown

datatype control_timeout_outcome = TimedOut string | TimeoutUnknown

record pending_control =
  pc_operation :: owner_control_operation
  pc_runtime_id :: string
  pc_connection :: string
  pc_fence :: actor_owner_fence
  pc_build_id :: string
  pc_deadline_at :: u64

record control_counters =
  cc_accepted :: u64
  cc_rejected :: u64
  cc_late_acks :: u64
  cc_timeouts :: u64
  cc_wrong_correlation :: u64
  cc_disconnects :: u64
  cc_saturated :: u64

record control_state =
  cs_pending :: "(string, pending_control) btree"
  cs_tombstones :: "(string, unit) btree"
  cs_outcomes :: "(string, bool) btree"
  cs_counters :: control_counters

definition control_new :: control_state where
  "control_new = \<lparr>cs_pending = [], cs_tombstones = [], cs_outcomes = [],
     cs_counters = \<lparr>cc_accepted = 0, cc_rejected = 0, cc_late_acks = 0, cc_timeouts = 0, cc_wrong_correlation = 0,
       cc_disconnects = 0, cc_saturated = 0\<rparr>\<rparr>"

abbreviation count_control :: "(control_counters \<Rightarrow> control_counters) \<Rightarrow> control_state \<Rightarrow> control_state" where
  "count_control f s \<equiv> s\<lparr>cs_counters := f (cs_counters s)\<rparr>"

abbreviation control_rejected_inc :: "control_counters \<Rightarrow> control_counters" where
  "control_rejected_inc c \<equiv> c\<lparr>cc_rejected := inc_u64 (cc_rejected c)\<rparr>"

section \<open>Operations\<close>

definition send_control ::
  "control_broker_options \<Rightarrow> owner_control_request \<Rightarrow> control_state \<Rightarrow> (control_error + unit) \<times> control_state" where
  "send_control opts req s =
     (if bt_get (cs_pending s) (oc_request_id req) \<noteq> None then (Inl ControlDuplicate, s)
      else if length (cs_pending s) \<ge> cb_max_pending opts then
        (Inl ControlSaturated, count_control (\<lambda>c. c\<lparr>cc_saturated := inc_u64 (cc_saturated c)\<rparr>) s)
      else (Inr (), s\<lparr>cs_pending := bt_insert (oc_request_id req)
        \<lparr>pc_operation = oc_operation req, pc_runtime_id = oc_runtime_id req, pc_connection = oc_connection req,
         pc_fence = oc_fence req, pc_build_id = oc_build_id req, pc_deadline_at = oc_deadline_at req\<rparr> (cs_pending s)\<rparr>))"

definition control_on_ack ::
  "string \<Rightarrow> string \<Rightarrow> owner_control_operation \<Rightarrow> string \<Rightarrow> bool \<Rightarrow> control_state \<Rightarrow> control_ack_outcome \<times> control_state" where
  "control_on_ack runtime_id request_id operation connection accepted s =
     (case bt_get (cs_pending s) request_id of
        None \<Rightarrow>
          (if bt_get (cs_tombstones s) request_id \<noteq> None then
             (CtlLateAck, count_control (\<lambda>c. control_rejected_inc (c\<lparr>cc_late_acks := inc_u64 (cc_late_acks c)\<rparr>)) s)
           else (CtlUnknown,
             count_control (\<lambda>c. control_rejected_inc (c\<lparr>cc_wrong_correlation := inc_u64 (cc_wrong_correlation c)\<rparr>)) s))
      | Some p \<Rightarrow>
          (if pc_runtime_id p \<noteq> runtime_id \<or> pc_operation p \<noteq> operation \<or> pc_connection p \<noteq> connection then
             (CtlWrongCorrelation,
              count_control (\<lambda>c. control_rejected_inc (c\<lparr>cc_wrong_correlation := inc_u64 (cc_wrong_correlation c)\<rparr>)) s)
           else
             (let s1 = s\<lparr>cs_pending := bt_remove request_id (cs_pending s),
                   cs_tombstones := bt_insert request_id () (cs_tombstones s),
                   cs_outcomes := bt_insert request_id accepted (cs_outcomes s)\<rparr>
              in if accepted then
                   (CtlAccepted, count_control (\<lambda>c. c\<lparr>cc_accepted := inc_u64 (cc_accepted c)\<rparr>) s1)
                 else (CtlRejected, count_control control_rejected_inc s1))))"

definition control_timeout :: "string \<Rightarrow> control_state \<Rightarrow> control_timeout_outcome \<times> control_state" where
  "control_timeout request_id s =
     (if bt_get (cs_pending s) request_id \<noteq> None then
        (TimedOut request_id,
         count_control (\<lambda>c. c\<lparr>cc_timeouts := inc_u64 (cc_timeouts c)\<rparr>)
           (s\<lparr>cs_pending := bt_remove request_id (cs_pending s),
              cs_tombstones := bt_insert request_id () (cs_tombstones s),
              cs_outcomes := bt_insert request_id False (cs_outcomes s)\<rparr>))
      else (TimeoutUnknown, s))"

primrec control_timeouts :: "string list \<Rightarrow> control_state \<Rightarrow> control_timeout_outcome list \<times> control_state" where
  "control_timeouts [] s = ([], s)"
| "control_timeouts (i # ids) s =
     (let (out, s1) = control_timeout i s; (outs, s2) = control_timeouts ids s1 in (out # outs, s2))"

definition control_expire_deadlines :: "u64 \<Rightarrow> control_state \<Rightarrow> control_timeout_outcome list \<times> control_state" where
  "control_expire_deadlines now s = control_timeouts (bt_select (\<lambda>p. pc_deadline_at p \<le> now) (cs_pending s)) s"

primrec disconnect_ids :: "string list \<Rightarrow> control_state \<Rightarrow> control_timeout_outcome list \<times> control_state" where
  "disconnect_ids [] s = ([], s)"
| "disconnect_ids (i # ids) s =
     (let (outs, s1) = disconnect_ids ids
        (count_control (\<lambda>c. (control_rejected_inc c)\<lparr>cc_disconnects := inc_u64 (cc_disconnects c)\<rparr>)
          (s\<lparr>cs_pending := bt_remove i (cs_pending s), cs_tombstones := bt_insert i () (cs_tombstones s),
             cs_outcomes := bt_insert i False (cs_outcomes s)\<rparr>))
      in (TimedOut i # outs, s1))"

definition control_on_owner_disconnect ::
  "string \<Rightarrow> string \<Rightarrow> control_state \<Rightarrow> control_timeout_outcome list \<times> control_state" where
  "control_on_owner_disconnect runtime_id connection s =
     disconnect_ids (bt_select (\<lambda>p. pc_runtime_id p = runtime_id \<and> pc_connection p = connection) (cs_pending s)) s"

primrec shutdown_ids :: "string list \<Rightarrow> control_state \<Rightarrow> control_timeout_outcome list \<times> control_state" where
  "shutdown_ids [] s = ([], s)"
| "shutdown_ids (i # ids) s =
     (let (outs, s1) = shutdown_ids ids
        (count_control control_rejected_inc
          (s\<lparr>cs_pending := bt_remove i (cs_pending s), cs_outcomes := bt_insert i False (cs_outcomes s)\<rparr>))
      in (TimedOut i # outs, s1))"

definition control_shutdown :: "control_state \<Rightarrow> control_timeout_outcome list \<times> control_state" where
  "control_shutdown s =
     (let (outs, s1) = shutdown_ids (bt_keys (cs_pending s)) s in (outs, s1\<lparr>cs_tombstones := []\<rparr>))"

definition control_outcome_for :: "string \<Rightarrow> control_state \<Rightarrow> bool option" where
  "control_outcome_for request_id s = bt_get (cs_outcomes s) request_id"

definition pending_snapshot :: "string \<Rightarrow> control_state \<Rightarrow> (actor_owner_fence \<times> string) option" where
  "pending_snapshot request_id s = map_option (\<lambda>p. (pc_fence p, pc_build_id p)) (bt_get (cs_pending s) request_id)"

record control_health =
  ch_pending :: usize
  ch_accepted :: u64
  ch_rejected :: u64
  ch_late_acks :: u64
  ch_timeouts :: u64
  ch_wrong_correlation :: u64
  ch_disconnects :: u64
  ch_saturated :: u64
  ch_tombstones :: usize

definition health_of_control :: "control_state \<Rightarrow> control_health" where
  "health_of_control s = \<lparr>ch_pending = length (cs_pending s), ch_accepted = cc_accepted (cs_counters s),
     ch_rejected = cc_rejected (cs_counters s), ch_late_acks = cc_late_acks (cs_counters s),
     ch_timeouts = cc_timeouts (cs_counters s), ch_wrong_correlation = cc_wrong_correlation (cs_counters s),
     ch_disconnects = cc_disconnects (cs_counters s), ch_saturated = cc_saturated (cs_counters s),
     ch_tombstones = length (cs_tombstones s)\<rparr>"

section \<open>Runs\<close>

text \<open>The operations a router performs in any order; what each reports to its caller is the event.\<close>

datatype control_op =
    CtlSend owner_control_request
  | CtlAck string string owner_control_operation string bool
  | CtlTimeout string
  | CtlExpire u64
  | CtlDisconnect string string
  | CtlShutdown

fun timeout_events :: "control_timeout_outcome list \<Rightarrow> table_event list" where
  "timeout_events [] = []"
| "timeout_events (TimedOut i # outs) = Ended i # timeout_events outs"
| "timeout_events (TimeoutUnknown # outs) = timeout_events outs"

fun control_exec :: "control_broker_options \<Rightarrow> control_op \<Rightarrow> control_state \<Rightarrow> table_event list \<times> control_state" where
  "control_exec opts (CtlSend req) s =
     (let (r, s1) = send_control opts req s in (case r of Inr _ \<Rightarrow> [Admitted (oc_request_id req)] | Inl _ \<Rightarrow> [], s1))"
| "control_exec opts (CtlAck rt i operation conn acc) s =
     (let (r, s1) = control_on_ack rt i operation conn acc s
      in (if r = CtlAccepted \<or> r = CtlRejected then [Ended i] else [], s1))"
| "control_exec opts (CtlTimeout i) s = (let (r, s1) = control_timeout i s in (timeout_events [r], s1))"
| "control_exec opts (CtlExpire now) s = (let (r, s1) = control_expire_deadlines now s in (timeout_events r, s1))"
| "control_exec opts (CtlDisconnect rt conn) s = (let (r, s1) = control_on_owner_disconnect rt conn s in (timeout_events r, s1))"
| "control_exec opts CtlShutdown s = (let (r, s1) = control_shutdown s in (timeout_events r, s1))"

abbreviation control_pending :: "control_state \<Rightarrow> string \<Rightarrow> bool" where
  "control_pending s i \<equiv> bt_get (cs_pending s) i \<noteq> None"

definition control_ok :: "control_broker_options \<Rightarrow> control_state \<Rightarrow> bool" where
  "control_ok opts s \<longleftrightarrow> bt_ok (cs_pending s) \<and> bt_ok (cs_tombstones s) \<and> bt_ok (cs_outcomes s) \<and>
     length (cs_pending s) \<le> cb_max_pending opts"

text \<open>What an operation may do: the events balance the pending table, and outcomes are kept for ended ids.\<close>

definition control_effect :: "control_broker_options \<Rightarrow> control_state \<Rightarrow> table_event list \<Rightarrow> control_state \<Rightarrow> bool" where
  "control_effect opts s evs s' \<longleftrightarrow> control_ok opts s' \<and>
     (\<forall>i. count_list evs (Admitted i) + of_bool (control_pending s i) = count_list evs (Ended i) + of_bool (control_pending s' i)) \<and>
     (\<forall>i. control_outcome_for i s' \<noteq> None \<longleftrightarrow> control_outcome_for i s \<noteq> None \<or> Ended i \<in> set evs)"

lemma effect_refl: "control_ok opts s \<Longrightarrow> control_effect opts s [] s"
  by (simp add: control_effect_def)

lemma effect_trans: "control_effect opts s a s1 \<Longrightarrow> control_effect opts s1 b s2 \<Longrightarrow> control_effect opts s (a @ b) s2"
proof -
  assume a: "control_effect opts s a s1" and b: "control_effect opts s1 b s2"
  have "count_list (a @ b) (Admitted i) + of_bool (control_pending s i) =
      count_list (a @ b) (Ended i) + of_bool (control_pending s2 i)" for i
  proof -
    have "count_list a (Admitted i) + of_bool (control_pending s i) = count_list a (Ended i) + of_bool (control_pending s1 i)"
        "count_list b (Admitted i) + of_bool (control_pending s1 i) = count_list b (Ended i) + of_bool (control_pending s2 i)"
      using a b unfolding control_effect_def by blast+
    then show ?thesis unfolding count_list_append by linarith
  qed
  then show ?thesis using a b by (simp add: control_effect_def)
qed

lemma effect_same:
  assumes "control_ok opts s" "cs_pending s' = cs_pending s" "cs_outcomes s' = cs_outcomes s" "bt_ok (cs_tombstones s')"
  shows "control_effect opts s [] s'"
  using assms by (simp add: control_effect_def control_ok_def control_outcome_for_def)

lemma effect_end:
  assumes "control_ok opts s" "control_pending s i" "cs_pending s' = bt_remove i (cs_pending s)"
    "cs_outcomes s' = bt_insert i b (cs_outcomes s)" "bt_ok (cs_tombstones s')"
  shows "control_effect opts s [Ended i] s'"
  using assms by (auto simp: control_effect_def control_ok_def control_outcome_for_def bt.get_del bt.get_ins bt.ok_del bt.ok_ins
      bt_remove_length)

lemma send_effect: "control_ok opts s \<Longrightarrow> control_effect opts s (fst (control_exec opts (CtlSend req) s)) (snd (control_exec opts (CtlSend req) s))"
  by (auto simp: send_control_def control_effect_def control_ok_def control_outcome_for_def bt.get_ins bt.ok_ins bt_insert_length)

lemma ack_effect:
  "control_ok opts s \<Longrightarrow> control_effect opts s (fst (control_exec opts (CtlAck rt i oper conn acc) s)) (snd (control_exec opts (CtlAck rt i oper conn acc) s))"
proof (cases "bt_get (cs_pending s) i")
  case None
  assume "control_ok opts s"
  with None show ?thesis by (auto simp: control_on_ack_def control_ok_def intro!: effect_same)
next
  case (Some p)
  assume ok: "control_ok opts s"
  then show ?thesis using Some
    by (auto simp: control_on_ack_def Let_def control_ok_def bt.ok_ins intro!: effect_same effect_end [where b = acc])
qed

lemma timeout_effect:
  "control_ok opts s \<Longrightarrow> control_timeout i s = (out, s') \<Longrightarrow> control_effect opts s (timeout_events [out]) s'"
  by (auto simp: control_timeout_def control_ok_def bt.ok_ins intro!: effect_refl effect_end [where b = False] split: if_splits)

lemma effect_ok: "control_effect opts s evs s' \<Longrightarrow> control_ok opts s'"
  by (simp add: control_effect_def)

lemma timeout_events_Cons: "timeout_events (out # outs) = timeout_events [out] @ timeout_events outs"
  by (cases out) auto

lemma timeouts_effect:
  "control_ok opts s \<Longrightarrow> control_timeouts ids s = (outs, s') \<Longrightarrow> control_effect opts s (timeout_events outs) s'"
proof (induction ids arbitrary: s outs)
  case (Cons i ids)
  obtain out s1 outs1 where *: "control_timeout i s = (out, s1)" "control_timeouts ids s1 = (outs1, s')" "outs = out # outs1"
    using Cons.prems(2) by (auto simp: Let_def split_def prod_eq_iff)
  have e: "control_effect opts s (timeout_events [out]) s1" by (rule timeout_effect [OF Cons.prems(1) *(1)])
  from effect_trans [OF e Cons.IH [OF effect_ok [OF e] *(2)]] show ?case using *(3) timeout_events_Cons by metis
qed (simp add: effect_refl)

text \<open>The loops of the disconnect and the shutdown run over distinct pending ids.\<close>

lemma pending_after: "control_ok opts s \<Longrightarrow> cs_pending s1 = bt_remove i (cs_pending s) \<Longrightarrow> j \<noteq> i \<Longrightarrow>
   control_pending s j \<Longrightarrow> control_pending s1 j"
  by (simp add: control_ok_def bt.get_del)

lemma disconnect_effect:
  "control_ok opts s \<Longrightarrow> distinct ids \<Longrightarrow> (\<And>i. i \<in> set ids \<Longrightarrow> control_pending s i) \<Longrightarrow> disconnect_ids ids s = (outs, s') \<Longrightarrow>
   control_effect opts s (timeout_events outs) s'"
proof (induction ids arbitrary: s outs)
  case (Cons i ids)
  let ?s1 = "count_control (\<lambda>c. (control_rejected_inc c)\<lparr>cc_disconnects := inc_u64 (cc_disconnects c)\<rparr>)
      (s\<lparr>cs_pending := bt_remove i (cs_pending s), cs_tombstones := bt_insert i () (cs_tombstones s),
         cs_outcomes := bt_insert i False (cs_outcomes s)\<rparr>)"
  obtain outs1 where *: "disconnect_ids ids ?s1 = (outs1, s')" "outs = TimedOut i # outs1"
    using Cons.prems(4) by (auto simp: Let_def split_def prod_eq_iff)
  have e: "control_effect opts s [Ended i] ?s1"
    using Cons.prems(1,3) by (intro effect_end [where b = False]) (auto simp: control_ok_def bt.ok_ins)
  have "control_pending ?s1 j" if "j \<in> set ids" for j
    using pending_after [OF Cons.prems(1), of ?s1 i j] Cons.prems(2,3) that by auto
  then have "control_effect opts ?s1 (timeout_events outs1) s'" using Cons.IH [OF effect_ok [OF e] _ _ *(1)] Cons.prems(2) by simp
  from effect_trans [OF e this] show ?case using *(2) by simp
qed (simp add: effect_refl)

lemma shutdown_effect:
  "control_ok opts s \<Longrightarrow> distinct ids \<Longrightarrow> (\<And>i. i \<in> set ids \<Longrightarrow> control_pending s i) \<Longrightarrow> shutdown_ids ids s = (outs, s') \<Longrightarrow>
   control_effect opts s (timeout_events outs) s'"
proof (induction ids arbitrary: s outs)
  case (Cons i ids)
  let ?s1 = "count_control control_rejected_inc (s\<lparr>cs_pending := bt_remove i (cs_pending s), cs_outcomes := bt_insert i False (cs_outcomes s)\<rparr>)"
  obtain outs1 where *: "shutdown_ids ids ?s1 = (outs1, s')" "outs = TimedOut i # outs1"
    using Cons.prems(4) by (auto simp: Let_def split_def prod_eq_iff)
  have e: "control_effect opts s [Ended i] ?s1"
    using Cons.prems(1,3) by (intro effect_end [where b = False]) (auto simp: control_ok_def)
  have "control_pending ?s1 j" if "j \<in> set ids" for j
    using pending_after [OF Cons.prems(1), of ?s1 i j] Cons.prems(2,3) that by auto
  then have "control_effect opts ?s1 (timeout_events outs1) s'" using Cons.IH [OF effect_ok [OF e] _ _ *(1)] Cons.prems(2) by simp
  from effect_trans [OF e this] show ?case using *(2) by simp
qed (simp add: effect_refl)

lemma control_exec_effect: "control_ok opts s \<Longrightarrow> control_effect opts s (fst (control_exec opts op s)) (snd (control_exec opts op s))"
proof (cases op)
  case (CtlTimeout i)
  assume "control_ok opts s"
  then show ?thesis using CtlTimeout timeout_effect [of opts s i] by (simp add: split_def Let_def del: timeout_events.simps)
next
  case (CtlExpire now)
  assume "control_ok opts s"
  then show ?thesis using CtlExpire timeouts_effect [of opts s] by (simp add: control_expire_deadlines_def split_def Let_def)
next
  case (CtlDisconnect rt conn)
  assume ok: "control_ok opts s"
  then have pend: "bt_ok (cs_pending s)" by (simp add: control_ok_def)
  let ?ids = "bt_select (\<lambda>p. pc_runtime_id p = rt \<and> pc_connection p = conn) (cs_pending s)"
  obtain outs s1 where d: "disconnect_ids ?ids s = (outs, s1)" by fastforce
  have "control_effect opts s (timeout_events outs) s1"
    by (rule disconnect_effect [OF ok _ _ d]) (auto simp: bt_select_iff [OF pend] bt_select_distinct [OF pend])
  then show ?thesis using CtlDisconnect d by (simp add: control_on_owner_disconnect_def)
next
  case CtlShutdown
  assume ok: "control_ok opts s"
  then have pend: "bt_ok (cs_pending s)" by (simp add: control_ok_def)
  obtain outs s1 where sh: "shutdown_ids (bt_keys (cs_pending s)) s = (outs, s1)" by fastforce
  have e: "control_effect opts s (timeout_events outs) s1"
    by (rule shutdown_effect [OF ok _ _ sh]) (auto simp: bt.distinct_keys [OF pend] bt_keys_get)
  have "control_effect opts s1 [] (s1\<lparr>cs_tombstones := []\<rparr>)" by (rule effect_same [OF effect_ok [OF e]]) auto
  from effect_trans [OF e this] show ?thesis using CtlShutdown sh by (simp add: control_shutdown_def)
qed (use send_effect ack_effect in auto)

interpretation controls: pending_table "control_exec opts" control_pending "control_ok opts" for opts
  using control_exec_effect by unfold_locales (auto simp: control_effect_def)

lemma control_ok_new: "control_ok opts control_new"
  by (simp add: control_ok_def control_new_def)

lemma control_run_effect:
  "control_ok opts s \<Longrightarrow> control_effect opts s (fst (table_run (control_exec opts) ops s)) (snd (table_run (control_exec opts) ops s))"
proof (induction ops arbitrary: s)
  case (Cons op ops)
  note e = control_exec_effect [OF Cons.prems, of op]
  from effect_trans [OF e Cons.IH [OF effect_ok [OF e]]] show ?case by (simp add: Let_def split_def)
qed (simp add: effect_refl)

text \<open>An acknowledgement resolves a request exactly when it carries the request's runtime, operation and
  connection; the recorded outcome is then the answer, and in every other case nothing but the
  counters changes.\<close>

lemma control_ack_exact:
  assumes "control_ok opts s" "control_on_ack rt i oper conn acc s = (out, s')"
  shows "(if \<exists>p. bt_get (cs_pending s) i = Some p \<and> pc_runtime_id p = rt \<and> pc_operation p = oper \<and> pc_connection p = conn
      then out = (if acc then CtlAccepted else CtlRejected) \<and> \<not> control_pending s' i \<and> control_outcome_for i s' = Some acc
      else out \<in> {CtlLateAck, CtlWrongCorrelation, CtlUnknown} \<and> cs_pending s' = cs_pending s \<and> cs_outcomes s' = cs_outcomes s)"
  using assms
  by (auto simp: control_on_ack_def control_outcome_for_def control_ok_def bt.get_del bt.get_ins Let_def split: option.splits if_splits)

section \<open>Properties\<close>

text \<open>C20: Every owner-control request that the broker accepts resolves exactly once: in every run of the
  broker's operations, whatever acknowledgements, timeouts, disconnects and shutdowns arrive in
  whatever order, the number of accepted sends of an id is the number of its reported resolutions,
  plus one while it is pending; an outcome is on record exactly for the ids that were resolved, and
  the pending table never exceeds its limit.\<close>

theorem control_resolves_once:
  "case table_run (control_exec opts) ops control_new of (evs, s) \<Rightarrow>
     count_list evs (Admitted i) = count_list evs (Ended i) + of_bool (bt_get (cs_pending s) i \<noteq> None) \<and>
     (control_outcome_for i s = None \<longleftrightarrow> Ended i \<notin> set evs) \<and>
     length (cs_pending s) \<le> cb_max_pending opts"
proof -
  obtain evs s where run: "table_run (control_exec opts) ops control_new = (evs, s)" by fastforce
  have "control_effect opts control_new evs s" using control_run_effect [OF control_ok_new, of opts ops] run by simp
  then have "control_ok opts s" "control_outcome_for i s \<noteq> None \<longleftrightarrow> Ended i \<in> set evs"
    unfolding control_effect_def by (simp_all add: control_outcome_for_def control_new_def)
  moreover have "count_list evs (Admitted i) = count_list evs (Ended i) + of_bool (bt_get (cs_pending s) i \<noteq> None)"
    using controls.run_ends_once [OF control_ok_new, of i opts ops] run by (simp add: control_new_def)
  ultimately show ?thesis using run by (auto simp: control_ok_def)
qed

end
