(* ===== verification/Actor_Invocation.thy ===== *)
theory Actor_Invocation
  imports Actor_Correlation
begin

text \<open>
  \<open>ActorInvocationRelay\<close> of \<open>router/src/actor/invocation.rs\<close>: admission of actor method invocations and
  their end by the owner's answer, the caller's cancel, a disconnect of either side, the deadline or
  the shutdown. The mutex makes every operation one step, except the deadline sweep, which collects
  the overdue ids first and then ends each of them on its own.
\<close>

section \<open>State\<close>

record invocation_relay_options =
  io_max_concurrency :: usize
  io_max_tombstones :: usize

definition default_relay_options :: invocation_relay_options where
  "default_relay_options = \<lparr>io_max_concurrency = 64, io_max_tombstones = 1024\<rparr>"

text \<open>Of the deadline header the relay reads only the timeout; caller runtime and route authority are not
  kept.\<close>

record actor_invoke_input =
  ii_invocation_id :: string
  ii_caller_connection :: string
  ii_caller_runtime_id :: string
  ii_owner_fence :: actor_owner_fence
  ii_owner_connection :: string
  ii_build_id :: string
  ii_correlation :: string
  ii_deadline_timeout_ms :: "u64 option"
  ii_test_case_capability :: "string option"
  ii_now :: u64

datatype invocation_error = InvocationDuplicate | InvocationSaturated

datatype owner_settle_kind = SettleReturn | SettleError

datatype invocation_terminal_kind = OwnerUnavailable | DeadlineElapsed | CallerDisconnected | RouterShutdown

datatype cancel_reason = CancelledByCaller | CancelDeadlineExceeded

datatype settle_error = AlreadySettled | NotExactOwner | NotCorrelatedCaller

record invocation_settled =
  is_invocation_id :: string
  is_kind :: owner_settle_kind

record invocation_terminal =
  it_invocation_id :: string
  it_kind :: invocation_terminal_kind

record owner_cancel =
  ocl_invocation_id :: string
  ocl_correlation :: string
  ocl_reason :: cancel_reason

record pending_invocation =
  pi_caller_connection :: string
  pi_owner_fence :: actor_owner_fence
  pi_owner_connection :: string
  pi_correlation :: string
  pi_deadline_at :: "u64 option"
  pi_test_case_capability :: "string option"

record invocation_counters =
  ic_settled :: u64
  ic_rejected :: u64
  ic_terminals :: u64
  ic_deadline_cancels :: u64
  ic_saturated :: u64

record relay_state =
  rs_pending :: "(string, pending_invocation) btree"
  rs_tombstones :: "(string, unit) btree"
  rs_counters :: invocation_counters

definition relay_new :: relay_state where
  "relay_new = \<lparr>rs_pending = [], rs_tombstones = [],
     rs_counters = \<lparr>ic_settled = 0, ic_rejected = 0, ic_terminals = 0, ic_deadline_cancels = 0, ic_saturated = 0\<rparr>\<rparr>"

abbreviation count_relay :: "(invocation_counters \<Rightarrow> invocation_counters) \<Rightarrow> relay_state \<Rightarrow> relay_state" where
  "count_relay f s \<equiv> s\<lparr>rs_counters := f (rs_counters s)\<rparr>"

text \<open>The steps \<open>pending.remove(id); tombstones.insert(id)\<close> of every end.\<close>

definition bury :: "string \<Rightarrow> relay_state \<Rightarrow> relay_state" where
  "bury i s = s\<lparr>rs_pending := bt_remove i (rs_pending s), rs_tombstones := bt_insert i () (rs_tombstones s)\<rparr>"

section \<open>Operations\<close>

definition invoke ::
  "invocation_relay_options \<Rightarrow> actor_invoke_input \<Rightarrow> relay_state \<Rightarrow> (invocation_error + unit) \<times> relay_state" where
  "invoke opts inp s =
     (if bt_get (rs_pending s) (ii_invocation_id inp) \<noteq> None then (Inl InvocationDuplicate, s)
      else if length (rs_pending s) \<ge> io_max_concurrency opts then
        (Inl InvocationSaturated, count_relay (\<lambda>c. c\<lparr>ic_saturated := inc_u64 (ic_saturated c)\<rparr>) s)
      else (Inr (), s\<lparr>rs_pending := bt_insert (ii_invocation_id inp)
        \<lparr>pi_caller_connection = ii_caller_connection inp, pi_owner_fence = ii_owner_fence inp,
         pi_owner_connection = ii_owner_connection inp, pi_correlation = ii_correlation inp,
         pi_deadline_at = map_option (\<lambda>t. saturating_add_u64 (ii_now inp) t) (ii_deadline_timeout_ms inp),
         pi_test_case_capability = ii_test_case_capability inp\<rparr> (rs_pending s)\<rparr>))"

definition parent_test_capability :: "string \<Rightarrow> string \<Rightarrow> relay_state \<Rightarrow> string option" where
  "parent_test_capability owner_connection invocation_id s =
     (case bt_get (rs_pending s) invocation_id of
        None \<Rightarrow> None
      | Some p \<Rightarrow> if pi_owner_connection p = owner_connection then pi_test_case_capability p else None)"

definition on_owner_settle ::
  "string \<Rightarrow> actor_owner_fence \<Rightarrow> string \<Rightarrow> owner_settle_kind \<Rightarrow> relay_state \<Rightarrow> (settle_error + invocation_settled) \<times> relay_state" where
  "on_owner_settle invocation_id fence connection kind s =
     (case bt_get (rs_pending s) invocation_id of
        None \<Rightarrow> (Inl AlreadySettled, count_relay (\<lambda>c. c\<lparr>ic_rejected := inc_u64 (ic_rejected c)\<rparr>) s)
      | Some p \<Rightarrow>
          (if pi_owner_fence p \<noteq> fence \<or> pi_owner_connection p \<noteq> connection then
             (Inl NotExactOwner, count_relay (\<lambda>c. c\<lparr>ic_rejected := inc_u64 (ic_rejected c)\<rparr>) s)
           else (Inr \<lparr>is_invocation_id = invocation_id, is_kind = kind\<rparr>,
             count_relay (\<lambda>c. c\<lparr>ic_settled := inc_u64 (ic_settled c)\<rparr>) (bury invocation_id s))))"

definition on_caller_cancel ::
  "string \<Rightarrow> string \<Rightarrow> string \<Rightarrow> relay_state \<Rightarrow> (settle_error + owner_cancel) \<times> relay_state" where
  "on_caller_cancel caller_connection invocation_id correlation s =
     (case bt_get (rs_pending s) invocation_id of
        None \<Rightarrow> (Inl AlreadySettled, count_relay (\<lambda>c. c\<lparr>ic_rejected := inc_u64 (ic_rejected c)\<rparr>) s)
      | Some p \<Rightarrow>
          (if pi_caller_connection p \<noteq> caller_connection \<or> pi_correlation p \<noteq> correlation then
             (Inl NotCorrelatedCaller, count_relay (\<lambda>c. c\<lparr>ic_rejected := inc_u64 (ic_rejected c)\<rparr>) s)
           else (Inr \<lparr>ocl_invocation_id = invocation_id, ocl_correlation = pi_correlation p, ocl_reason = CancelledByCaller\<rparr>,
             count_relay (\<lambda>c. c\<lparr>ic_settled := inc_u64 (ic_settled c)\<rparr>) (bury invocation_id s))))"

primrec terminal_locked ::
  "invocation_terminal_kind \<Rightarrow> string list \<Rightarrow> relay_state \<Rightarrow> invocation_terminal list \<times> relay_state" where
  "terminal_locked kind [] s = ([], s)"
| "terminal_locked kind (i # ids) s =
     (if bt_get (rs_pending s) i \<noteq> None then
        (let (ts, s1) = terminal_locked kind ids
           (count_relay (\<lambda>c. c\<lparr>ic_terminals := inc_u64 (ic_terminals c)\<rparr>) (bury i s))
         in (\<lparr>it_invocation_id = i, it_kind = kind\<rparr> # ts, s1))
      else terminal_locked kind ids s)"

definition relay_on_owner_disconnect ::
  "string \<Rightarrow> string \<Rightarrow> relay_state \<Rightarrow> invocation_terminal list \<times> relay_state" where
  "relay_on_owner_disconnect runtime_id connection s =
     terminal_locked OwnerUnavailable
       (bt_select (\<lambda>p. of_owner_runtime_id (pi_owner_fence p) = runtime_id \<and> pi_owner_connection p = connection) (rs_pending s)) s"

definition on_caller_disconnect ::
  "string \<Rightarrow> relay_state \<Rightarrow> (owner_cancel list \<times> invocation_terminal list) \<times> relay_state" where
  "on_caller_disconnect caller_connection s =
     (let ids = bt_select (\<lambda>p. pi_caller_connection p = caller_connection) (rs_pending s);
          cancels = List.map_filter (\<lambda>i. map_option (\<lambda>p. \<lparr>ocl_invocation_id = i, ocl_correlation = pi_correlation p,
            ocl_reason = CancelledByCaller\<rparr>) (bt_get (rs_pending s) i)) ids;
          (terminals, s1) = terminal_locked CallerDisconnected ids s
      in ((cancels, terminals), s1))"

definition on_deadline :: "string \<Rightarrow> relay_state \<Rightarrow> (owner_cancel \<times> invocation_terminal) option \<times> relay_state" where
  "on_deadline invocation_id s =
     (case bt_get (rs_pending s) invocation_id of
        None \<Rightarrow> (None, s)
      | Some p \<Rightarrow>
          (Some (\<lparr>ocl_invocation_id = invocation_id, ocl_correlation = pi_correlation p, ocl_reason = CancelDeadlineExceeded\<rparr>,
                 \<lparr>it_invocation_id = invocation_id, it_kind = DeadlineElapsed\<rparr>),
           count_relay (\<lambda>c. c\<lparr>ic_terminals := inc_u64 (ic_terminals c), ic_deadline_cancels := inc_u64 (ic_deadline_cancels c)\<rparr>)
             (bury invocation_id s)))"

primrec deadline_ids :: "string list \<Rightarrow> relay_state \<Rightarrow> (owner_cancel \<times> invocation_terminal) list \<times> relay_state" where
  "deadline_ids [] s = ([], s)"
| "deadline_ids (i # ids) s =
     (let (r, s1) = on_deadline i s; (rs, s2) = deadline_ids ids s1
      in (case r of None \<Rightarrow> rs | Some x \<Rightarrow> x # rs, s2))"

definition relay_overdue :: "u64 \<Rightarrow> relay_state \<Rightarrow> string list" where
  "relay_overdue now s = bt_select (\<lambda>p. case pi_deadline_at p of None \<Rightarrow> False | Some d \<Rightarrow> d \<le> now) (rs_pending s)"

definition relay_expire_deadlines :: "u64 \<Rightarrow> relay_state \<Rightarrow> (owner_cancel \<times> invocation_terminal) list \<times> relay_state" where
  "relay_expire_deadlines now s = deadline_ids (relay_overdue now s) s"

definition relay_shutdown :: "relay_state \<Rightarrow> invocation_terminal list \<times> relay_state" where
  "relay_shutdown s =
     (let (ts, s1) = terminal_locked RouterShutdown (bt_keys (rs_pending s)) s in (ts, s1\<lparr>rs_tombstones := []\<rparr>))"

record invocation_health =
  ih_pending :: usize
  ih_capacity :: usize
  ih_settled :: u64
  ih_rejected :: u64
  ih_terminals :: u64
  ih_deadline_cancels :: u64
  ih_saturated :: u64
  ih_tombstones :: usize

definition health_of_relay :: "invocation_relay_options \<Rightarrow> relay_state \<Rightarrow> invocation_health" where
  "health_of_relay opts s = \<lparr>ih_pending = length (rs_pending s), ih_capacity = io_max_concurrency opts,
     ih_settled = ic_settled (rs_counters s), ih_rejected = ic_rejected (rs_counters s),
     ih_terminals = ic_terminals (rs_counters s), ih_deadline_cancels = ic_deadline_cancels (rs_counters s),
     ih_saturated = ic_saturated (rs_counters s), ih_tombstones = length (rs_tombstones s)\<rparr>"

section \<open>Runs\<close>

text \<open>What an operation reports is its event: admissions, and the ends that go to a caller or an owner.\<close>

datatype relay_op =
    RelayInvoke actor_invoke_input
  | RelayOwnerSettle string actor_owner_fence string owner_settle_kind
  | RelayCallerCancel string string string
  | RelayOwnerDisconnect string string
  | RelayCallerDisconnect string
  | RelayDeadline string
  | RelayExpire u64
  | RelayShutdown

abbreviation terminal_events :: "invocation_terminal list \<Rightarrow> table_event list" where
  "terminal_events \<equiv> map (\<lambda>t. Ended (it_invocation_id t))"

fun relay_exec :: "invocation_relay_options \<Rightarrow> relay_op \<Rightarrow> relay_state \<Rightarrow> table_event list \<times> relay_state" where
  "relay_exec opts (RelayInvoke inp) s =
     (let (r, s1) = invoke opts inp s in (case r of Inr _ \<Rightarrow> [Admitted (ii_invocation_id inp)] | Inl _ \<Rightarrow> [], s1))"
| "relay_exec opts (RelayOwnerSettle i fence conn kind) s =
     (let (r, s1) = on_owner_settle i fence conn kind s in (case r of Inr x \<Rightarrow> [Ended (is_invocation_id x)] | Inl _ \<Rightarrow> [], s1))"
| "relay_exec opts (RelayCallerCancel conn i corr) s =
     (let (r, s1) = on_caller_cancel conn i corr s in (case r of Inr x \<Rightarrow> [Ended (ocl_invocation_id x)] | Inl _ \<Rightarrow> [], s1))"
| "relay_exec opts (RelayOwnerDisconnect rt conn) s =
     (let (ts, s1) = relay_on_owner_disconnect rt conn s in (terminal_events ts, s1))"
| "relay_exec opts (RelayCallerDisconnect conn) s =
     (let ((cs, ts), s1) = on_caller_disconnect conn s in (terminal_events ts, s1))"
| "relay_exec opts (RelayDeadline i) s =
     (let (r, s1) = on_deadline i s in (case r of Some (c, t) \<Rightarrow> terminal_events [t] | None \<Rightarrow> [], s1))"
| "relay_exec opts (RelayExpire now) s =
     (let (rs, s1) = relay_expire_deadlines now s in (terminal_events (map snd rs), s1))"
| "relay_exec opts RelayShutdown s = (let (ts, s1) = relay_shutdown s in (terminal_events ts, s1))"

abbreviation relay_pending :: "relay_state \<Rightarrow> string \<Rightarrow> bool" where
  "relay_pending s i \<equiv> bt_get (rs_pending s) i \<noteq> None"

definition relay_ok :: "invocation_relay_options \<Rightarrow> relay_state \<Rightarrow> bool" where
  "relay_ok opts s \<longleftrightarrow> bt_ok (rs_pending s) \<and> bt_ok (rs_tombstones s) \<and> length (rs_pending s) \<le> io_max_concurrency opts"














text \<open>After the loops no id of the list is pending, and the others keep their entries.\<close>

lemma terminal_locked_pending:
  "bt_ok (rs_pending s) \<Longrightarrow> bt_get (rs_pending (snd (terminal_locked kind ids s))) i = (if i \<in> set ids then None else bt_get (rs_pending s) i)"
  by (induction ids arbitrary: s) (auto simp: Let_def split_def bury_def bt.get_del bt.ok_del)

lemma on_deadline_pending:
  "bt_ok (rs_pending s) \<Longrightarrow> bt_ok (rs_pending (snd (on_deadline j s))) \<and>
   bt_get (rs_pending (snd (on_deadline j s))) i = (if i = j then None else bt_get (rs_pending s) i)"
  by (auto simp: on_deadline_def bury_def bt.get_del bt.ok_del split: option.splits)

lemma deadline_ids_pending:
  "bt_ok (rs_pending s) \<Longrightarrow> bt_get (rs_pending (snd (deadline_ids ids s))) i = (if i \<in> set ids then None else bt_get (rs_pending s) i)"
proof (induction ids arbitrary: s)
  case (Cons j ids)
  then show ?case using on_deadline_pending [OF Cons.prems, of j] by (simp add: Let_def split_def)
qed simp

lemma deadline_ids_reports:
  "bt_ok (rs_pending s) \<Longrightarrow> distinct ids \<Longrightarrow> (\<And>i. i \<in> set ids \<Longrightarrow> relay_pending s i) \<Longrightarrow>
   fst (deadline_ids ids s) = map (\<lambda>i. (\<lparr>ocl_invocation_id = i, ocl_correlation = pi_correlation (the (bt_get (rs_pending s) i)),
     ocl_reason = CancelDeadlineExceeded\<rparr>, \<lparr>it_invocation_id = i, it_kind = DeadlineElapsed\<rparr>)) ids"
proof (induction ids arbitrary: s)
  case (Cons j ids)
  obtain p where p: "bt_get (rs_pending s) j = Some p" using Cons.prems(3) by fastforce
  let ?s1 = "snd (on_deadline j s)"
  have get: "bt_ok (rs_pending ?s1)" "bt_get (rs_pending ?s1) i = (if i = j then None else bt_get (rs_pending s) i)" for i
    using on_deadline_pending [OF Cons.prems(1), of j] by auto
  have "relay_pending ?s1 i" if "i \<in> set ids" for i using get(2) [of i] Cons.prems(2,3) that by auto
  then have "fst (deadline_ids ids ?s1) = map (\<lambda>i. (\<lparr>ocl_invocation_id = i, ocl_correlation = pi_correlation (the (bt_get (rs_pending s) i)),
     ocl_reason = CancelDeadlineExceeded\<rparr>, \<lparr>it_invocation_id = i, it_kind = DeadlineElapsed\<rparr>)) ids"
    using Cons.IH [OF get(1)] Cons.prems(2) get(2) by (auto intro!: map_cong)
  then show ?case using p by (simp add: Let_def split_def) (simp add: on_deadline_def)
qed simp



section \<open>Properties\<close>


text \<open>A deadline sweep ends exactly the invocations whose deadline has elapsed: it reports each of them once,
  in the order of the ids, with a cancel for the owner that carries the correlation of the admission,
  and leaves every other entry as it was.\<close>

theorem relay_sweep_exact:
  assumes "relay_ok opts s" "relay_expire_deadlines now s = (rs, s')"
  shows "map (\<lambda>r. it_invocation_id (snd r)) rs = relay_overdue now s \<and>
    (\<forall>i. bt_get (rs_pending s') i =
      (case bt_get (rs_pending s) i of
         Some p \<Rightarrow> (case pi_deadline_at p of Some d \<Rightarrow> if d \<le> now then None else Some p | None \<Rightarrow> Some p)
       | None \<Rightarrow> None)) \<and>
    list_all (\<lambda>(c, t). ocl_reason c = CancelDeadlineExceeded \<and> ocl_invocation_id c = it_invocation_id t \<and>
      map_option pi_correlation (bt_get (rs_pending s) (it_invocation_id t)) = Some (ocl_correlation c)) rs"
proof -
  have ok: "bt_ok (rs_pending s)" using assms(1) by (simp add: relay_ok_def)
  have iff: "i \<in> set (relay_overdue now s) \<longleftrightarrow> (\<exists>p d. bt_get (rs_pending s) i = Some p \<and> pi_deadline_at p = Some d \<and> d \<le> now)" for i
    unfolding relay_overdue_def bt_select_iff [OF ok] by (auto split: option.splits)
  have rs: "rs = map (\<lambda>i. (\<lparr>ocl_invocation_id = i, ocl_correlation = pi_correlation (the (bt_get (rs_pending s) i)),
      ocl_reason = CancelDeadlineExceeded\<rparr>, \<lparr>it_invocation_id = i, it_kind = DeadlineElapsed\<rparr>)) (relay_overdue now s)"
    using deadline_ids_reports [OF ok, of "relay_overdue now s"] assms(2) iff bt_select_distinct [OF ok]
    by (auto simp: relay_expire_deadlines_def relay_overdue_def)
  have pend: "bt_get (rs_pending s') i = (if i \<in> set (relay_overdue now s) then None else bt_get (rs_pending s) i)" for i
    using deadline_ids_pending [OF ok, of "relay_overdue now s" i] assms(2) by (simp add: relay_expire_deadlines_def)
  show ?thesis unfolding rs pend by (auto simp: iff comp_def list.pred_set split: option.splits)
qed

text \<open>The tombstones are written but never read: an invocation id that has already been settled is
  admitted again and settles a second time.\<close>

theorem settled_invocation_readmitted:
  "fst (table_run (relay_exec default_relay_options)
     [RelayInvoke inp, RelayOwnerSettle (ii_invocation_id inp) (ii_owner_fence inp) (ii_owner_connection inp) SettleReturn,
      RelayInvoke inp, RelayOwnerSettle (ii_invocation_id inp) (ii_owner_fence inp) (ii_owner_connection inp) SettleReturn]
     relay_new) =
   [Admitted (ii_invocation_id inp), Ended (ii_invocation_id inp), Admitted (ii_invocation_id inp), Ended (ii_invocation_id inp)]"
  by (simp add: relay_new_def invoke_def on_owner_settle_def bury_def default_relay_options_def bt_get_def bt_remove_def)

end
