(* ===== verification/Actor_Catalog.thy ===== *)
theory Actor_Catalog
  imports Actor_Types
begin

text \<open>
  \<open>ActorMethodCatalogView\<close> of \<open>router/src/actor/catalog.rs\<close> and the owner selection of
  \<open>owner_candidate.rs\<close>. Reading the projection record from disk is an argument of each load (\<open>None\<close> is
  a load error), so every load may see another record; the SHA-256 digest is the argument \<open>sha256\<close>.
\<close>

section \<open>The catalog view\<close>

record routing_actor_ref =
  ar_service_id :: string
  ar_actor_abi_identity :: string

record 'p routing_actor_method =
  arm_actor :: routing_actor_ref
  arm_actor_implementation_identity :: string
  arm_method_identity :: string
  arm_deployment_artifact_identity :: string
  arm_package :: 'p

record catalog_query =
  cq_service_id :: string
  cq_actor_abi_identity :: string
  cq_actor_implementation_identity :: string
  cq_method_identity :: string

type_synonym 'p catalog = "'p routing_actor_method list"

record 'p catalog_view =
  cv_catalog :: "'p catalog option"
  cv_captures :: u64
  cv_hits :: u64
  cv_misses :: u64
  cv_loads :: u64

definition view_new :: "'p catalog_view" where
  "view_new = \<lparr>cv_catalog = None, cv_captures = 0, cv_hits = 0, cv_misses = 0, cv_loads = 0\<rparr>"

definition load_catalog :: "'p catalog option \<Rightarrow> 'p catalog_view \<Rightarrow> 'p catalog option \<times> 'p catalog_view" where
  "load_catalog load v =
     (case load of
        Some c \<Rightarrow> (Some c, v\<lparr>cv_loads := inc_u64 (cv_loads v), cv_catalog := Some c\<rparr>)
      | None \<Rightarrow> (None, v))"

definition view_catalog :: "'p catalog option \<Rightarrow> 'p catalog_view \<Rightarrow> 'p catalog option \<times> 'p catalog_view" where
  "view_catalog load v = (case cv_catalog v of Some c \<Rightarrow> (Some c, v) | None \<Rightarrow> load_catalog load v)"

definition reload_catalog :: "'p catalog option \<Rightarrow> 'p catalog_view \<Rightarrow> 'p catalog option \<times> 'p catalog_view" where
  "reload_catalog load v = load_catalog load (v\<lparr>cv_catalog := None\<rparr>)"

definition matches_key :: "'p routing_actor_method \<Rightarrow> catalog_query \<Rightarrow> bool" where
  "matches_key e q \<longleftrightarrow>
     arm_actor e = \<lparr>ar_service_id = cq_service_id q, ar_actor_abi_identity = cq_actor_abi_identity q\<rparr> \<and>
     arm_actor_implementation_identity e = cq_actor_implementation_identity q \<and>
     arm_method_identity e = cq_method_identity q"

definition method_for_with ::
  "'p catalog option \<Rightarrow> catalog_query \<Rightarrow> 'p catalog_view \<Rightarrow> 'p routing_actor_method option \<times> 'p catalog_view" where
  "method_for_with cat q v =
     (let v1 = v\<lparr>cv_captures := inc_u64 (cv_captures v)\<rparr>
      in case cat of
           None \<Rightarrow> (None, v1\<lparr>cv_misses := inc_u64 (cv_misses v1)\<rparr>)
         | Some c \<Rightarrow>
             (let found = find (\<lambda>e. matches_key e q) c
              in (found, if found \<noteq> None then v1\<lparr>cv_hits := inc_u64 (cv_hits v1)\<rparr> else v1\<lparr>cv_misses := inc_u64 (cv_misses v1)\<rparr>)))"

definition method_for ::
  "'p catalog option \<Rightarrow> 'p catalog option \<Rightarrow> catalog_query \<Rightarrow> 'p catalog_view \<Rightarrow> 'p routing_actor_method option \<times> 'p catalog_view" where
  "method_for load1 load2 q v =
     (let (cat, v1) = view_catalog load1 v; (found, v2) = method_for_with cat q v1
      in case found of
           Some e \<Rightarrow> (Some e, v2)
         | None \<Rightarrow> (let (cat', v3) = reload_catalog load2 v2 in method_for_with cat' q v3))"

definition has_method :: "'p catalog option \<Rightarrow> 'p catalog option \<Rightarrow> catalog_query \<Rightarrow> 'p catalog_view \<Rightarrow> bool \<times> 'p catalog_view" where
  "has_method load1 load2 q v = (let (r, v') = method_for load1 load2 q v in (r \<noteq> None, v'))"

definition deployment_build_id_for_with ::
  "'p catalog option \<Rightarrow> string \<Rightarrow> string \<Rightarrow> string \<Rightarrow> 'p catalog_view \<Rightarrow> string option \<times> 'p catalog_view" where
  "deployment_build_id_for_with cat service abi impl v =
     (let v1 = v\<lparr>cv_captures := inc_u64 (cv_captures v)\<rparr>
      in case cat of
           None \<Rightarrow> (None, v1)
         | Some c \<Rightarrow>
             (let build = map_option arm_deployment_artifact_identity
                (find (\<lambda>e. ar_service_id (arm_actor e) = service \<and> ar_actor_abi_identity (arm_actor e) = abi \<and>
                   arm_actor_implementation_identity e = impl) c)
              in (build, if build \<noteq> None then v1\<lparr>cv_hits := inc_u64 (cv_hits v1)\<rparr> else v1\<lparr>cv_misses := inc_u64 (cv_misses v1)\<rparr>)))"

definition deployment_build_id_for ::
  "'p catalog option \<Rightarrow> 'p catalog option \<Rightarrow> string \<Rightarrow> string \<Rightarrow> string \<Rightarrow> 'p catalog_view \<Rightarrow> string option \<times> 'p catalog_view" where
  "deployment_build_id_for load1 load2 service abi impl v =
     (let (cat, v1) = view_catalog load1 v; (found, v2) = deployment_build_id_for_with cat service abi impl v1
      in case found of
           Some b \<Rightarrow> (Some b, v2)
         | None \<Rightarrow> (let (cat', v3) = reload_catalog load2 v2 in deployment_build_id_for_with cat' service abi impl v3))"

record catalog_health =
  cah_captures :: u64
  cah_hits :: u64
  cah_misses :: u64

definition health_of_catalog :: "'p catalog_view \<Rightarrow> catalog_health" where
  "health_of_catalog v = \<lparr>cah_captures = cv_captures v, cah_hits = cv_hits v, cah_misses = cv_misses v\<rparr>"

section \<open>Owner selection\<close>

definition be_u32 :: "nat list \<Rightarrow> nat" where
  "be_u32 bs = foldl (\<lambda>a b. a * 256 + b) 0 (take 4 bs)"

definition pick_owner_candidate :: "(string \<Rightarrow> nat list) \<Rightarrow> 's list \<Rightarrow> string \<Rightarrow> 's option" where
  "pick_owner_candidate sha256 candidates actor_id_hash =
     (if candidates = [] then None
      else Some (candidates ! (be_u32 (sha256 actor_id_hash) mod length candidates)))"

lemma pick_owner_candidate_member:
  "pick_owner_candidate sha256 candidates h = Some c \<Longrightarrow> c \<in> set candidates"
  by (auto simp: pick_owner_candidate_def split: if_splits)

lemma pick_owner_candidate_total: "pick_owner_candidate sha256 candidates h = None \<longleftrightarrow> candidates = []"
  by (simp add: pick_owner_candidate_def)

section \<open>Properties\<close>

definition catalog_lookup :: "'p catalog option \<Rightarrow> catalog_query \<Rightarrow> 'p routing_actor_method option" where
  "catalog_lookup cat q = (case cat of None \<Rightarrow> None | Some c \<Rightarrow> find (\<lambda>e. matches_key e q) c)"

lemma method_for_with_lookup: "fst (method_for_with cat q v) = catalog_lookup cat q" "cv_catalog (snd (method_for_with cat q v)) = cv_catalog v"
  by (auto simp: method_for_with_def catalog_lookup_def Let_def split: option.splits)

lemma load_catalog_result: "fst (load_catalog load v) = load" "load = Some c \<Longrightarrow> cv_catalog (snd (load_catalog load v)) = Some c"
    "load = None \<Longrightarrow> snd (load_catalog load v) = v"
  by (auto simp: load_catalog_def split: option.splits)

text \<open>A catalog_lookup answers from the cached catalog when that has the method, from the catalog of the first load
  when nothing is cached, and otherwise from the record that the one reload finds; a method of the
  current record is therefore always found, and the view then holds the record the answer came from.\<close>

theorem method_for_spec:
  "fst (method_for load1 load2 q v) =
     (case catalog_lookup (case cv_catalog v of None \<Rightarrow> load1 | Some c \<Rightarrow> Some c) q of Some e \<Rightarrow> Some e | None \<Rightarrow> catalog_lookup load2 q)"
  by (auto simp: method_for_def view_catalog_def reload_catalog_def method_for_with_lookup load_catalog_result Let_def split_def
      split: option.splits)

text \<open>A query for a method that is absent on a view that has loaded nothing yet loads the record twice.\<close>

theorem absent_method_loads_twice:
  "catalog_lookup (Some c) q = None \<Longrightarrow> cv_loads (snd (method_for (Some c) (Some c) q view_new)) = 2"
  by (simp add: method_for_def view_catalog_def reload_catalog_def load_catalog_def method_for_with_def view_new_def catalog_lookup_def
      inc_u64_def u64_max_def)

text \<open>A failed reload drops the catalog that was cached.\<close>

theorem failed_reload_drops_cache:
  "cv_catalog v = Some c \<Longrightarrow> catalog_lookup (Some c) q = None \<Longrightarrow> cv_catalog (snd (method_for load1 None q v)) = None"
  by (simp add: method_for_def view_catalog_def reload_catalog_def load_catalog_def method_for_with_def catalog_lookup_def Let_def)

end
