(* ===== verification/Memory_Ledger.thy ===== *)
theory Memory_Ledger
  imports Skiff_Prelude
begin

text \<open>
  The request memory ledger (\<open>runtime/request/src/memory_ledger.rs\<close>) and the affine lease it
  hands out (\<open>runtime/model/src/memory_ledger.rs\<close>), with the request transaction ledger kept
  in the same file. Each method is one atomic step (the code holds the ledger's mutex). A failed
  \<open>expect\<close>, \<open>debug_assert\<close> or checked subtraction is the result \<open>None\<close>. The handles a program
  still holds are part of the modelled world: Rust's ownership lets a handle be consumed or
  dropped once. The public \<open>release\<close>, which takes an amount and no handle, is a step like the others; what it
  took is kept beside the ledger.
\<close>

section \<open>Handles and state\<close>

type_synonym memory_lease_token = u64

record memory_lease =
  ml_token :: memory_lease_token
  ml_amount :: usize
  ml_released :: bool

record memory_reservation =
  mr_token :: memory_lease_token
  mr_amount :: usize
  mr_consumed :: bool

datatype memory_ledger_error =
    HardCapExceeded usize usize usize usize
  | LedgerTerminal
  | ReleaseUnderflow usize usize
  | LiveAllocationsAtTerminal usize usize
  | DomainSpaceExhausted
  | EpochSpaceExhausted

record memory_ledger_snapshot =
  ss_hard_cap :: usize
  ss_reserved :: usize
  ss_committed :: usize
  ss_peak_reserved :: usize
  ss_peak_committed :: usize
  ss_peak_total :: usize
  ss_terminal :: bool

record ledger_state =
  ls_hard_cap :: usize
  ls_reserved :: usize
  ls_committed :: usize
  ls_peak_reserved :: usize
  ls_peak_committed :: usize
  ls_peak_total :: usize
  ls_terminal :: bool
  ls_next_token :: u64
  ls_next_domain :: u64
  ls_next_epoch :: nat

definition ledger_new :: "usize \<Rightarrow> ledger_state" where
  "ledger_new hard_cap = \<lparr>ls_hard_cap = hard_cap, ls_reserved = 0, ls_committed = 0, ls_peak_reserved = 0,
     ls_peak_committed = 0, ls_peak_total = 0, ls_terminal = False, ls_next_token = 1, ls_next_domain = 1,
     ls_next_epoch = 0\<rparr>"

definition ledger_snapshot :: "ledger_state \<Rightarrow> memory_ledger_snapshot" where
  "ledger_snapshot st = \<lparr>ss_hard_cap = ls_hard_cap st, ss_reserved = ls_reserved st,
     ss_committed = ls_committed st, ss_peak_reserved = ls_peak_reserved st,
     ss_peak_committed = ls_peak_committed st, ss_peak_total = ls_peak_total st, ss_terminal = ls_terminal st\<rparr>"

definition u32_max :: nat where
  "u32_max = 4294967295"

section \<open>Leases over any host\<close>

definition memory_lease_new :: "memory_lease_token \<Rightarrow> usize \<Rightarrow> memory_lease" where
  "memory_lease_new token amount = \<lparr>ml_token = token, ml_amount = amount, ml_released = False\<rparr>"

definition lease_set_amount :: "usize \<Rightarrow> memory_lease \<Rightarrow> memory_lease" where
  "lease_set_amount amount lease = lease\<lparr>ml_amount := amount\<rparr>"

text \<open>\<open>release_inner\<close>, the body of both \<open>release\<close> and \<open>drop\<close>.\<close>

definition lease_release_inner ::
  "(memory_lease_token \<Rightarrow> usize \<Rightarrow> 'h \<Rightarrow> 'h option) \<Rightarrow> memory_lease \<Rightarrow> 'h \<Rightarrow> (memory_lease \<times> 'h) option" where
  "lease_release_inner host lease h =
     (if ml_released lease then Some (lease, h)
      else map_option (Pair (lease\<lparr>ml_released := True\<rparr>)) (host (ml_token lease) (ml_amount lease) h))"

primrec drop_leases ::
  "(memory_lease_token \<Rightarrow> usize \<Rightarrow> 'h \<Rightarrow> 'h option) \<Rightarrow> memory_lease list \<Rightarrow> 'h \<Rightarrow> 'h option" where
  "drop_leases host [] h = Some h"
| "drop_leases host (l # ls) h =
     (case lease_release_inner host l h of None \<Rightarrow> None | Some (_, h') \<Rightarrow> drop_leases host ls h')"

text \<open>The promise of \<open>MemoryLeaseHost\<close>: it keeps the total of the live amounts in its committed
  account and a release of an amount it holds is infallible and exact.\<close>

locale memory_lease_host =
  fixes release :: "memory_lease_token \<Rightarrow> usize \<Rightarrow> 'h \<Rightarrow> 'h option"
    and committed :: "'h \<Rightarrow> usize"
  assumes release_exact:
    "amount \<le> committed h \<Longrightarrow> \<exists>h'. release token amount h = Some h' \<and> committed h' = committed h - amount"
begin

lemma release_once:
  assumes "ml_amount lease \<le> committed h" and "\<not> ml_released lease"
  shows "\<exists>lease' h'. lease_release_inner release lease h = Some (lease', h') \<and>
    committed h' = committed h - ml_amount lease \<and> lease_release_inner release lease' h' = Some (lease', h')"
  using release_exact [OF assms(1), of "ml_token lease"] assms(2) by (auto simp: lease_release_inner_def)

lemma drop_leases_exact:
  "(\<forall>l \<in> set ls. \<not> ml_released l) \<Longrightarrow> sum_list (map ml_amount ls) \<le> committed h \<Longrightarrow>
   \<exists>h'. drop_leases release ls h = Some h' \<and> committed h' = committed h - sum_list (map ml_amount ls)"
proof (induction ls arbitrary: h)
  case (Cons l ls)
  then obtain l' h1 where "lease_release_inner release l h = Some (l', h1)" "committed h1 = committed h - ml_amount l"
    using release_once [of l h] by auto
  with Cons show ?case using Cons.IH [of h1] by fastforce
qed simp

end

section \<open>Ledger operations\<close>

definition ledger_release_lease :: "memory_lease_token \<Rightarrow> usize \<Rightarrow> ledger_state \<Rightarrow> ledger_state option" where
  "ledger_release_lease token amount st =
     (case checked_sub_u64 (ls_committed st) amount of
        None \<Rightarrow> None
      | Some committed \<Rightarrow> Some (st\<lparr>ls_committed := committed\<rparr>))"

definition cap_error :: "ledger_state \<Rightarrow> usize \<Rightarrow> memory_ledger_error" where
  "cap_error st requested = HardCapExceeded (ls_hard_cap st) (ls_reserved st) (ls_committed st) requested"

definition ledger_reserve ::
  "usize \<Rightarrow> ledger_state \<Rightarrow> ((memory_ledger_error + memory_reservation) \<times> ledger_state) option" where
  "ledger_reserve amount st =
     (if ls_terminal st then Some (Inl LedgerTerminal, st)
      else case checked_add_u64 (ls_reserved st) (ls_committed st) of
        None \<Rightarrow> Some (Inl (cap_error st amount), st)
      | Some current_total \<Rightarrow>
          (case checked_add_u64 current_total amount of
             None \<Rightarrow> Some (Inl (cap_error st amount), st)
           | Some tot \<Rightarrow>
               (if tot > ls_hard_cap st then Some (Inl (cap_error st amount), st)
                else case checked_add_u64 (ls_reserved st) amount of
                  None \<Rightarrow> None
                | Some reserved \<Rightarrow>
                    (case checked_add_u64 (ls_next_token st) 1 of
                       None \<Rightarrow> Some (Inl LedgerTerminal, st)
                     | Some next \<Rightarrow>
                         (if ls_next_token st = 0 then None
                          else Some (Inr \<lparr>mr_token = ls_next_token st, mr_amount = amount, mr_consumed = False\<rparr>,
                            st\<lparr>ls_next_token := next, ls_reserved := reserved,
                               ls_peak_reserved := max (ls_peak_reserved st) reserved,
                               ls_peak_total := max (ls_peak_total st) tot\<rparr>))))))"

definition ledger_release :: "usize \<Rightarrow> ledger_state \<Rightarrow> (memory_ledger_error + unit) \<times> ledger_state" where
  "ledger_release amount st =
     (case checked_sub_u64 (ls_committed st) amount of
        None \<Rightarrow> (Inl (ReleaseUnderflow (ls_committed st) amount), st)
      | Some committed \<Rightarrow> (Inr (), st\<lparr>ls_committed := committed\<rparr>))"

definition reservation_commit :: "memory_reservation \<Rightarrow> ledger_state \<Rightarrow> (memory_lease \<times> ledger_state) option" where
  "reservation_commit r st =
     (if mr_consumed r then None
      else case checked_sub_u64 (ls_reserved st) (mr_amount r) of
        None \<Rightarrow> None
      | Some reserved \<Rightarrow>
          (case checked_add_u64 (ls_committed st) (mr_amount r) of
             None \<Rightarrow> None
           | Some committed \<Rightarrow>
               (case checked_add_u64 committed reserved of
                  None \<Rightarrow> None
                | Some tot \<Rightarrow>
                    Some (memory_lease_new (mr_token r) (mr_amount r),
                      st\<lparr>ls_reserved := reserved, ls_committed := committed,
                         ls_peak_committed := max (ls_peak_committed st) committed,
                         ls_peak_total := max (ls_peak_total st) tot\<rparr>))))"

text \<open>\<open>abandon\<close> and the drop of an unconsumed reservation give the hold back in the same way.\<close>

definition reservation_abandon :: "memory_reservation \<Rightarrow> ledger_state \<Rightarrow> ledger_state option" where
  "reservation_abandon r st =
     (if mr_consumed r then None
      else map_option (\<lambda>reserved. st\<lparr>ls_reserved := reserved\<rparr>) (checked_sub_u64 (ls_reserved st) (mr_amount r)))"

definition reservation_drop :: "memory_reservation \<Rightarrow> ledger_state \<Rightarrow> ledger_state option" where
  "reservation_drop r st =
     (if mr_consumed r then Some st
      else map_option (\<lambda>reserved. st\<lparr>ls_reserved := reserved\<rparr>) (checked_sub_u64 (ls_reserved st) (mr_amount r)))"

definition ledger_mint_heap_identity ::
  "ledger_state \<Rightarrow> (memory_ledger_error + u64 \<times> nat) \<times> ledger_state" where
  "ledger_mint_heap_identity st =
     (if ls_terminal st then (Inl LedgerTerminal, st)
      else if ls_next_domain st > u32_max then (Inl DomainSpaceExhausted, st)
      else case checked_add_u64 (ls_next_domain st) 1 of
        None \<Rightarrow> (Inl DomainSpaceExhausted, st)
      | Some next_domain \<Rightarrow>
          (if ls_next_domain st = 0 then (Inl DomainSpaceExhausted, st)
           else let st1 = st\<lparr>ls_next_domain := next_domain\<rparr> in
             if ls_next_epoch st + 1 > u32_max then (Inl EpochSpaceExhausted, st1)
             else (Inr (ls_next_domain st, ls_next_epoch st), st1\<lparr>ls_next_epoch := ls_next_epoch st + 1\<rparr>)))"

text \<open>Minting a child heap takes the ledger's lock three times; \<open>bind_ledger\<close> sequences the calls.\<close>

definition bind_ledger ::
  "(('e + 'a) \<times> ledger_state) option \<Rightarrow> ('a \<Rightarrow> ledger_state \<Rightarrow> (('e + 'b) \<times> ledger_state) option) \<Rightarrow>
   (('e + 'b) \<times> ledger_state) option" where
  "bind_ledger m f =
     (case m of None \<Rightarrow> None | Some (Inl e, st) \<Rightarrow> Some (Inl e, st) | Some (Inr x, st) \<Rightarrow> f x st)"

definition commit_reserved ::
  "memory_reservation \<Rightarrow> ledger_state \<Rightarrow> (('e + memory_lease) \<times> ledger_state) option" where
  "commit_reserved r st = map_option (\<lambda>(lease, st'). (Inr lease, st')) (reservation_commit r st)"

definition ledger_zero_lease :: "ledger_state \<Rightarrow> ((memory_ledger_error + memory_lease) \<times> ledger_state) option" where
  "ledger_zero_lease st = bind_ledger (ledger_reserve 0 st) commit_reserved"

definition ledger_mint_child_heap ::
  "usize \<Rightarrow> ledger_state \<Rightarrow> ((memory_ledger_error + (u64 \<times> nat) \<times> memory_lease) \<times> ledger_state) option" where
  "ledger_mint_child_heap bytes st =
     bind_ledger (Some (ledger_mint_heap_identity st)) (\<lambda>ident st1.
       bind_ledger (ledger_reserve bytes st1) (\<lambda>r st2.
         bind_ledger (commit_reserved r st2) (\<lambda>lease st3. Some (Inr (ident, lease), st3))))"

definition ledger_set_committed_lease_amount ::
  "memory_lease \<Rightarrow> usize \<Rightarrow> ledger_state \<Rightarrow> ((memory_ledger_error + unit) \<times> memory_lease \<times> ledger_state) option" where
  "ledger_set_committed_lease_amount lease amount st =
     (let old = ml_amount lease in
      if ls_terminal st then Some (Inl LedgerTerminal, lease, st)
      else if amount = old then Some (Inr (), lease, st)
      else if amount > old then
        (let requested = amount - old in
         case checked_add_u64 (ls_reserved st) (ls_committed st) of
           None \<Rightarrow> Some (Inl (cap_error st requested), lease, st)
         | Some current_total \<Rightarrow>
             (case checked_add_u64 current_total requested of
                None \<Rightarrow> Some (Inl (cap_error st requested), lease, st)
              | Some tot \<Rightarrow>
                  (if tot > ls_hard_cap st then Some (Inl (cap_error st requested), lease, st)
                   else case checked_add_u64 (ls_committed st) requested of
                     None \<Rightarrow> None
                   | Some committed \<Rightarrow>
                       Some (Inr (), lease_set_amount amount lease,
                         st\<lparr>ls_committed := committed, ls_peak_committed := max (ls_peak_committed st) committed,
                            ls_peak_total := max (ls_peak_total st) tot\<rparr>))))
      else
        (let released = old - amount in
         case checked_sub_u64 (ls_committed st) released of
           None \<Rightarrow> Some (Inl (ReleaseUnderflow (ls_committed st) released), lease, st)
         | Some committed \<Rightarrow> Some (Inr (), lease_set_amount amount lease, st\<lparr>ls_committed := committed\<rparr>)))"

definition ledger_mark_terminal ::
  "ledger_state \<Rightarrow> (memory_ledger_error + memory_ledger_snapshot) \<times> ledger_state" where
  "ledger_mark_terminal st =
     (if ls_reserved st \<noteq> 0 \<or> ls_committed st \<noteq> 0
      then (Inl (LiveAllocationsAtTerminal (ls_reserved st) (ls_committed st)), st)
      else (Inr (ledger_snapshot (st\<lparr>ls_terminal := True\<rparr>)), st\<lparr>ls_terminal := True\<rparr>))"

interpretation ledger_host: memory_lease_host ledger_release_lease ls_committed
  by unfold_locales (auto simp: ledger_release_lease_def checked_sub_u64_def)

section \<open>A request's handles\<close>

text \<open>\<open>lw_direct\<close> records what \<open>release\<close> took from the committed amount without a lease.\<close>

record ledger_world =
  lw_ledger :: ledger_state
  lw_reservations :: "memory_reservation list"
  lw_leases :: "memory_lease list"
  lw_heaps :: "(u64 \<times> nat) list"
  lw_direct :: usize

definition world_new :: "usize \<Rightarrow> ledger_world" where
  "world_new cap = \<lparr>lw_ledger = ledger_new cap, lw_reservations = [], lw_leases = [], lw_heaps = [], lw_direct = 0\<rparr>"

definition remove_nth :: "nat \<Rightarrow> 'a list \<Rightarrow> 'a list" where
  "remove_nth i xs = take i xs @ drop (Suc i) xs"

lemma nth_split:
  assumes "i < length xs"
  obtains as x bs where "xs = as @ x # bs" and "i = length as"
proof -
  have "i = length (take i xs)" using assms by simp
  with that id_take_nth_drop [OF assms] show ?thesis by blast
qed

lemma remove_nth_split [simp]: "remove_nth (length as) (as @ x # bs) = as @ bs"
  by (simp add: remove_nth_def)

datatype ledger_op =
    LedgerReserve usize
  | LedgerRelease usize
  | LedgerCommit nat
  | LedgerAbandon nat
  | LedgerDropReservation nat
  | LedgerDropLease nat
  | LedgerSetAmount nat usize
  | LedgerZeroLease
  | LedgerMintHeap
  | LedgerMintChild usize
  | LedgerMarkTerminal

text \<open>One step of a program on its ledger: an operation with the handles it takes and returns. An
  index selects one of the handles still held; a missing handle is no step.\<close>

fun ledger_exec :: "ledger_op \<Rightarrow> ledger_world \<Rightarrow> ledger_world option" where
  "ledger_exec (LedgerReserve n) w =
     (case ledger_reserve n (lw_ledger w) of
        None \<Rightarrow> None
      | Some (Inl _, st) \<Rightarrow> Some (w\<lparr>lw_ledger := st\<rparr>)
      | Some (Inr r, st) \<Rightarrow> Some (w\<lparr>lw_ledger := st, lw_reservations := lw_reservations w @ [r]\<rparr>))"
| "ledger_exec (LedgerRelease n) w =
     (case ledger_release n (lw_ledger w) of
        (Inl _, st) \<Rightarrow> Some (w\<lparr>lw_ledger := st\<rparr>)
      | (Inr _, st) \<Rightarrow> Some (w\<lparr>lw_ledger := st, lw_direct := lw_direct w + n\<rparr>))"
| "ledger_exec (LedgerCommit i) w =
     (if i < length (lw_reservations w) then
        (case reservation_commit (lw_reservations w ! i) (lw_ledger w) of
           None \<Rightarrow> None
         | Some (lease, st) \<Rightarrow> Some (w\<lparr>lw_ledger := st, lw_reservations := remove_nth i (lw_reservations w),
             lw_leases := lw_leases w @ [lease]\<rparr>))
      else Some w)"
| "ledger_exec (LedgerAbandon i) w =
     (if i < length (lw_reservations w) then
        map_option (\<lambda>st. w\<lparr>lw_ledger := st, lw_reservations := remove_nth i (lw_reservations w)\<rparr>)
          (reservation_abandon (lw_reservations w ! i) (lw_ledger w))
      else Some w)"
| "ledger_exec (LedgerDropReservation i) w =
     (if i < length (lw_reservations w) then
        map_option (\<lambda>st. w\<lparr>lw_ledger := st, lw_reservations := remove_nth i (lw_reservations w)\<rparr>)
          (reservation_drop (lw_reservations w ! i) (lw_ledger w))
      else Some w)"
| "ledger_exec (LedgerDropLease i) w =
     (if i < length (lw_leases w) then
        map_option (\<lambda>(_, st). w\<lparr>lw_ledger := st, lw_leases := remove_nth i (lw_leases w)\<rparr>)
          (lease_release_inner ledger_release_lease (lw_leases w ! i) (lw_ledger w))
      else Some w)"
| "ledger_exec (LedgerSetAmount i n) w =
     (if i < length (lw_leases w) then
        map_option (\<lambda>(_, lease, st). w\<lparr>lw_ledger := st, lw_leases := (lw_leases w)[i := lease]\<rparr>)
          (ledger_set_committed_lease_amount (lw_leases w ! i) n (lw_ledger w))
      else Some w)"
| "ledger_exec LedgerZeroLease w =
     (case ledger_zero_lease (lw_ledger w) of
        None \<Rightarrow> None
      | Some (Inl _, st) \<Rightarrow> Some (w\<lparr>lw_ledger := st\<rparr>)
      | Some (Inr lease, st) \<Rightarrow> Some (w\<lparr>lw_ledger := st, lw_leases := lw_leases w @ [lease]\<rparr>))"
| "ledger_exec LedgerMintHeap w =
     (case ledger_mint_heap_identity (lw_ledger w) of
        (Inl _, st) \<Rightarrow> Some (w\<lparr>lw_ledger := st\<rparr>)
      | (Inr heap, st) \<Rightarrow> Some (w\<lparr>lw_ledger := st, lw_heaps := lw_heaps w @ [heap]\<rparr>))"
| "ledger_exec (LedgerMintChild n) w =
     (case ledger_mint_child_heap n (lw_ledger w) of
        None \<Rightarrow> None
      | Some (Inl _, st) \<Rightarrow> Some (w\<lparr>lw_ledger := st\<rparr>)
      | Some (Inr (heap, lease), st) \<Rightarrow> Some (w\<lparr>lw_heaps := lw_heaps w @ [heap], lw_ledger := st,
          lw_leases := lw_leases w @ [lease]\<rparr>))"
| "ledger_exec LedgerMarkTerminal w = Some (w\<lparr>lw_ledger := snd (ledger_mark_terminal (lw_ledger w))\<rparr>)"

inductive ledger_step :: "ledger_world \<Rightarrow> ledger_world \<Rightarrow> bool" where
  "ledger_exec op w = Some w' \<Longrightarrow> ledger_step w w'"

inductive_cases ledger_stepE: "ledger_step w w'"

section \<open>Exact accounting\<close>

abbreviation reserved_sum :: "ledger_world \<Rightarrow> nat" where
  "reserved_sum w \<equiv> sum_list (map mr_amount (lw_reservations w))"

abbreviation leased_sum :: "ledger_world \<Rightarrow> nat" where
  "leased_sum w \<equiv> sum_list (map ml_amount (lw_leases w))"

abbreviation live_tokens :: "ledger_world \<Rightarrow> memory_lease_token list" where
  "live_tokens w \<equiv> map mr_token (lw_reservations w) @ map ml_token (lw_leases w)"

definition accounts_ok :: "usize \<Rightarrow> ledger_state \<Rightarrow> bool" where
  "accounts_ok cap st \<longleftrightarrow> ls_hard_cap st = cap \<and> cap \<le> u64_max \<and>
     ls_reserved st + ls_committed st \<le> ls_peak_total st \<and> ls_reserved st \<le> ls_peak_reserved st \<and>
     ls_committed st \<le> ls_peak_committed st \<and> ls_peak_reserved st \<le> ls_peak_total st \<and>
     ls_peak_committed st \<le> ls_peak_total st \<and> ls_peak_total st \<le> cap \<and>
     1 \<le> ls_next_token st \<and> ls_next_token st \<le> u64_max \<and>
     ls_next_domain st = ls_next_epoch st + 1 \<and> ls_next_epoch st \<le> u32_max \<and>
     (ls_terminal st \<longrightarrow> ls_reserved st = 0 \<and> ls_committed st = 0)"

definition handles_ok :: "ledger_world \<Rightarrow> bool" where
  "handles_ok w \<longleftrightarrow> ls_reserved (lw_ledger w) = reserved_sum w \<and> ls_committed (lw_ledger w) + lw_direct w = leased_sum w \<and>
     (\<forall>r \<in> set (lw_reservations w). \<not> mr_consumed r \<and> mr_token r < ls_next_token (lw_ledger w)) \<and>
     (\<forall>l \<in> set (lw_leases w). \<not> ml_released l \<and> ml_token l < ls_next_token (lw_ledger w)) \<and>
     distinct (live_tokens w) \<and>
     (\<forall>(d, e) \<in> set (lw_heaps w). d = e + 1 \<and> e < ls_next_epoch (lw_ledger w)) \<and>
     sorted_wrt (<) (map snd (lw_heaps w))"

definition ledger_inv :: "usize \<Rightarrow> ledger_world \<Rightarrow> bool" where
  "ledger_inv cap w \<longleftrightarrow> accounts_ok cap (lw_ledger w) \<and> handles_ok w"

lemma u32_lt_u64: "u32_max < u64_max"
  by (simp add: u32_max_def u64_max_def)

lemma ledger_inv_new: "cap \<le> u64_max \<Longrightarrow> ledger_inv cap (world_new cap)"
  by (simp add: ledger_inv_def accounts_ok_def handles_ok_def world_new_def ledger_new_def u64_max_def)

text \<open>What \<open>reserve\<close> answers in a consistent ledger, without the overflow checks.\<close>

lemma ledger_reserve_eq:
  assumes "accounts_ok cap st"
  shows "ledger_reserve n st =
    (if ls_terminal st \<or> (ls_reserved st + ls_committed st + n \<le> cap \<and> ls_next_token st = u64_max)
     then Some (Inl LedgerTerminal, st)
     else if ls_reserved st + ls_committed st + n > cap then Some (Inl (cap_error st n), st)
     else Some (Inr \<lparr>mr_token = ls_next_token st, mr_amount = n, mr_consumed = False\<rparr>,
       st\<lparr>ls_next_token := ls_next_token st + 1, ls_reserved := ls_reserved st + n,
          ls_peak_reserved := max (ls_peak_reserved st) (ls_reserved st + n),
          ls_peak_total := max (ls_peak_total st) (ls_reserved st + ls_committed st + n)\<rparr>))"
  using assms by (auto simp: ledger_reserve_def checked_add_u64_def accounts_ok_def)

lemma reservation_commit_eq:
  assumes "accounts_ok cap st" and "mr_amount r \<le> ls_reserved st" and "\<not> mr_consumed r"
  shows "reservation_commit r st = Some (memory_lease_new (mr_token r) (mr_amount r),
    st\<lparr>ls_reserved := ls_reserved st - mr_amount r, ls_committed := ls_committed st + mr_amount r,
       ls_peak_committed := max (ls_peak_committed st) (ls_committed st + mr_amount r)\<rparr>)"
  using assms
  by (auto simp: reservation_commit_def checked_add_u64_def checked_sub_u64_def accounts_ok_def max_def)

lemma mint_heap_eq:
  assumes "accounts_ok cap st"
  shows "ledger_mint_heap_identity st =
    (if ls_terminal st then (Inl LedgerTerminal, st)
     else if ls_next_epoch st = u32_max then (Inl DomainSpaceExhausted, st)
     else (Inr (ls_next_epoch st + 1, ls_next_epoch st),
       st\<lparr>ls_next_domain := ls_next_epoch st + 2, ls_next_epoch := ls_next_epoch st + 1\<rparr>))"
  using assms u32_lt_u64 by (auto simp: ledger_mint_heap_identity_def checked_add_u64_def accounts_ok_def Let_def)

lemmas ledger_inv_defs = ledger_inv_def accounts_ok_def handles_ok_def

lemma accounts_reserve:
  assumes "accounts_ok cap st" and "\<not> ls_terminal st" and "ls_next_token st \<noteq> u64_max"
    and "ls_reserved st + ls_committed st + n \<le> cap"
  shows "accounts_ok cap (st\<lparr>ls_next_token := ls_next_token st + 1, ls_reserved := ls_reserved st + n,
      ls_peak_reserved := max (ls_peak_reserved st) (ls_reserved st + n),
      ls_peak_total := max (ls_peak_total st) (ls_reserved st + ls_committed st + n)\<rparr>)"
  using assms by (auto simp: accounts_ok_def)

lemma exec_reserve:
  assumes "ledger_inv cap w"
  shows "\<exists>w'. ledger_exec (LedgerReserve n) w = Some w' \<and> ledger_inv cap w'"
proof -
  have ok: "accounts_ok cap (lw_ledger w)" "handles_ok w" using assms by (simp_all add: ledger_inv_def)
  show ?thesis
  proof (cases "ls_terminal (lw_ledger w) \<or> ls_next_token (lw_ledger w) = u64_max \<or>
      ls_reserved (lw_ledger w) + ls_committed (lw_ledger w) + n > cap")
    case True
    with ok have "\<exists>e. ledger_reserve n (lw_ledger w) = Some (Inl e, lw_ledger w)" by (auto simp: ledger_reserve_eq)
    with assms show ?thesis by auto
  next
    case False
    with accounts_reserve [OF ok(1), of n] ok show ?thesis
      by (auto simp: ledger_reserve_eq [OF ok(1)] ledger_inv_def handles_ok_def)
  qed
qed

lemma exec_commit:
  assumes "ledger_inv cap w"
  shows "\<exists>w'. ledger_exec (LedgerCommit i) w = Some w' \<and> ledger_inv cap w'"
proof (cases "i < length (lw_reservations w)")
  case True
  then obtain as r bs where rs: "lw_reservations w = as @ r # bs" "i = length as" by (rule nth_split)
  have "reservation_commit r (lw_ledger w) = Some (memory_lease_new (mr_token r) (mr_amount r),
      (lw_ledger w)\<lparr>ls_reserved := ls_reserved (lw_ledger w) - mr_amount r,
       ls_committed := ls_committed (lw_ledger w) + mr_amount r,
       ls_peak_committed := max (ls_peak_committed (lw_ledger w)) (ls_committed (lw_ledger w) + mr_amount r)\<rparr>)"
    by (rule reservation_commit_eq [of cap]) (use assms rs in \<open>auto simp: ledger_inv_defs\<close>)
  with assms rs show ?thesis by (auto simp: ledger_inv_defs memory_lease_new_def)
qed (use assms in simp)

lemma exec_give_back:
  assumes "ledger_inv cap w"
  shows "\<exists>w'. ledger_exec (LedgerAbandon i) w = Some w' \<and> ledger_inv cap w'"
    and "\<exists>w'. ledger_exec (LedgerDropReservation i) w = Some w' \<and> ledger_inv cap w'"
proof -
  have "(\<exists>w'. ledger_exec (LedgerAbandon i) w = Some w' \<and> ledger_inv cap w') \<and>
        (\<exists>w'. ledger_exec (LedgerDropReservation i) w = Some w' \<and> ledger_inv cap w')"
  proof (cases "i < length (lw_reservations w)")
    case True
    then obtain as r bs where rs: "lw_reservations w = as @ r # bs" "i = length as" by (rule nth_split)
    with assms show ?thesis
      by (auto simp: ledger_inv_defs reservation_abandon_def reservation_drop_def checked_sub_u64_def)
  qed (use assms in simp)
  then show "\<exists>w'. ledger_exec (LedgerAbandon i) w = Some w' \<and> ledger_inv cap w'"
    and "\<exists>w'. ledger_exec (LedgerDropReservation i) w = Some w' \<and> ledger_inv cap w'" by blast+
qed

lemma exec_release:
  assumes "ledger_inv cap w"
  shows "\<exists>w'. ledger_exec (LedgerRelease n) w = Some w' \<and> ledger_inv cap w'"
proof -
  have ok: "accounts_ok cap (lw_ledger w)" "handles_ok w" using assms by (simp_all add: ledger_inv_def)
  have "accounts_ok cap ((lw_ledger w)\<lparr>ls_committed := ls_committed (lw_ledger w) - n\<rparr>)" if "n \<le> ls_committed (lw_ledger w)"
    using ok(1) that by (simp add: accounts_ok_def) linarith
  moreover have "handles_ok (w\<lparr>lw_ledger := (lw_ledger w)\<lparr>ls_committed := ls_committed (lw_ledger w) - n\<rparr>, lw_direct := lw_direct w + n\<rparr>)"
    if "n \<le> ls_committed (lw_ledger w)" using ok(2) that by (simp add: handles_ok_def)
  ultimately show ?thesis using assms by (simp add: ledger_release_def checked_sub_u64_def ledger_inv_def)
qed

text \<open>A lease can be dropped unless its amount was released directly.\<close>

abbreviation lease_covered :: "nat \<Rightarrow> ledger_world \<Rightarrow> bool" where
  "lease_covered i w \<equiv> i < length (lw_leases w) \<longrightarrow> ml_amount (lw_leases w ! i) \<le> ls_committed (lw_ledger w)"

lemma exec_drop_lease:
  assumes "ledger_inv cap w" and "lease_covered i w"
  shows "\<exists>w'. ledger_exec (LedgerDropLease i) w = Some w' \<and> ledger_inv cap w'"
proof (cases "i < length (lw_leases w)")
  case True
  then obtain as l bs where ls: "lw_leases w = as @ l # bs" "i = length as" by (rule nth_split)
  let ?st = "(lw_ledger w)\<lparr>ls_committed := ls_committed (lw_ledger w) - ml_amount l\<rparr>"
  have le: "ml_amount l \<le> ls_committed (lw_ledger w)" using assms(2) ls by simp
  have ok: "accounts_ok cap (lw_ledger w)" "handles_ok w" using assms by (simp_all add: ledger_inv_def)
  have fresh: "\<not> ml_released l" using ok(2) ls(1) by (simp add: handles_ok_def)
  have "ledger_exec (LedgerDropLease i) w = Some (w\<lparr>lw_ledger := ?st, lw_leases := as @ bs\<rparr>)"
    using ls le fresh by (simp add: lease_release_inner_def ledger_release_lease_def checked_sub_u64_def)
  moreover have "accounts_ok cap ?st" using ok(1) le by (simp add: accounts_ok_def) linarith
  moreover have "handles_ok (w\<lparr>lw_ledger := ?st, lw_leases := as @ bs\<rparr>)" using ok(2) ls(1) le by (simp add: handles_ok_def)
  ultimately show ?thesis by (simp add: ledger_inv_def)
qed (use assms in simp)

lemma lease_uncovered:
  assumes "ledger_inv cap w" and "\<not> lease_covered i w"
  shows "0 < lw_direct w" and "ledger_exec (LedgerDropLease i) w = None"
proof -
  have "i < length (lw_leases w)" using assms(2) by blast
  then obtain as l bs where ls: "lw_leases w = as @ l # bs" "i = length as" by (rule nth_split)
  have lt: "ls_committed (lw_ledger w) < ml_amount l" using assms(2) ls by simp
  have ok: "handles_ok w" using assms by (simp add: ledger_inv_def)
  show "0 < lw_direct w" using ok ls(1) lt by (simp add: handles_ok_def)
  have "\<not> ml_released l" using ok ls(1) by (simp add: handles_ok_def)
  then show "ledger_exec (LedgerDropLease i) w = None"
    using ls lt by (simp add: lease_release_inner_def ledger_release_lease_def checked_sub_u64_def)
qed

lemma set_amount_eq:
  assumes "accounts_ok cap st"
  shows "ledger_set_committed_lease_amount l n st =
    (if ls_terminal st then Some (Inl LedgerTerminal, l, st)
     else if ls_committed st + n < ml_amount l then Some (Inl (ReleaseUnderflow (ls_committed st) (ml_amount l - n)), l, st)
     else if ls_reserved st + ls_committed st + n > cap + ml_amount l
     then Some (Inl (cap_error st (n - ml_amount l)), l, st)
     else Some (Inr (), l\<lparr>ml_amount := n\<rparr>, st\<lparr>ls_committed := ls_committed st + n - ml_amount l,
       ls_peak_committed := max (ls_peak_committed st) (ls_committed st + n - ml_amount l),
       ls_peak_total := max (ls_peak_total st) (ls_reserved st + (ls_committed st + n - ml_amount l))\<rparr>))"
proof -
  have b: "ls_hard_cap st = cap" "cap \<le> u64_max" "ls_reserved st + ls_committed st \<le> cap"
      "ls_committed st \<le> ls_peak_committed st" "ls_reserved st + ls_committed st \<le> ls_peak_total st"
    using assms(1) by (auto simp: accounts_ok_def)
  consider "n = ml_amount l" | "n > ml_amount l" | "n < ml_amount l" by linarith
  then show ?thesis
  proof cases
    case 1
    with b show ?thesis by (simp add: ledger_set_committed_lease_amount_def max_absorb1)
  next
    case 2
    with b show ?thesis
      by (simp add: ledger_set_committed_lease_amount_def Let_def checked_add_u64_def lease_set_amount_def)
         (intro conjI impI; linarith)
  next
    case 3
    with b show ?thesis
      by (simp add: ledger_set_committed_lease_amount_def Let_def checked_sub_u64_def lease_set_amount_def max_absorb1)
         (intro conjI impI; linarith)
  qed
qed

lemma exec_set_amount:
  assumes "ledger_inv cap w"
  shows "\<exists>w'. ledger_exec (LedgerSetAmount i n) w = Some w' \<and> ledger_inv cap w'"
proof (cases "i < length (lw_leases w)")
  case True
  then obtain as l bs where ls: "lw_leases w = as @ l # bs" "i = length as" by (rule nth_split)
  have ok: "accounts_ok cap (lw_ledger w)" "handles_ok w" using assms by (simp_all add: ledger_inv_def)
  let ?c = "ls_committed (lw_ledger w) + n - ml_amount l"
  let ?st = "(lw_ledger w)\<lparr>ls_committed := ?c, ls_peak_committed := max (ls_peak_committed (lw_ledger w)) ?c,
      ls_peak_total := max (ls_peak_total (lw_ledger w)) (ls_reserved (lw_ledger w) + ?c)\<rparr>"
  have "accounts_ok cap ?st" if "\<not> ls_terminal (lw_ledger w)"
      "ls_reserved (lw_ledger w) + ls_committed (lw_ledger w) + n \<le> cap + ml_amount l" "ml_amount l \<le> ls_committed (lw_ledger w) + n"
    using ok(1) that by (auto simp: accounts_ok_def)
  moreover have "handles_ok (w\<lparr>lw_ledger := ?st, lw_leases := as @ l\<lparr>ml_amount := n\<rparr> # bs\<rparr>)" if "ml_amount l \<le> ls_committed (lw_ledger w) + n"
    using ok(2) ls that by (simp add: handles_ok_def) linarith
  moreover have "handles_ok (w\<lparr>lw_leases := as @ l # bs\<rparr>)" using ok(2) ls by (simp add: handles_ok_def)
  ultimately show ?thesis using assms ls
    by (simp add: set_amount_eq [OF ok(1)] ledger_inv_def not_less)
qed (use assms in simp)

lemma reserve_commit_eq:
  assumes "accounts_ok cap st"
  shows "\<exists>st' res. bind_ledger (ledger_reserve n st) commit_reserved = Some (res, st') \<and> accounts_ok cap st' \<and>
     ls_reserved st' = ls_reserved st \<and> ls_next_epoch st' = ls_next_epoch st \<and>
     (case res of
        Inl e \<Rightarrow> st' = st
      | Inr l \<Rightarrow> l = memory_lease_new (ls_next_token st) n \<and> ls_committed st' = ls_committed st + n \<and>
          ls_next_token st' = ls_next_token st + 1)"
proof (cases "ls_terminal st \<or> ls_next_token st = u64_max \<or> ls_reserved st + ls_committed st + n > cap")
  case True
  with assms have "\<exists>e. ledger_reserve n st = Some (Inl e, st)" by (auto simp: ledger_reserve_eq)
  with assms show ?thesis by (auto simp: bind_ledger_def)
next
  case False
  with accounts_reserve [OF assms, of n] assms show ?thesis
    by (auto simp: ledger_reserve_eq [OF assms] bind_ledger_def commit_reserved_def reservation_commit_eq [of cap])
      (auto simp: accounts_ok_def)
qed

lemma handles_new_lease:
  assumes "handles_ok w" and "t = ls_next_token (lw_ledger w)" and "ls_next_token st = t + 1"
    and "ls_reserved st = ls_reserved (lw_ledger w)" and "ls_committed st = ls_committed (lw_ledger w) + n"
    and "ls_next_epoch st = ls_next_epoch (lw_ledger w)"
  shows "handles_ok (w\<lparr>lw_ledger := st, lw_leases := lw_leases w @ [memory_lease_new t n]\<rparr>)"
proof -
  have "\<forall>r \<in> set (lw_reservations w). \<not> mr_consumed r \<and> mr_token r < t"
    and "\<forall>l \<in> set (lw_leases w). \<not> ml_released l \<and> ml_token l < t"
    using assms(1,2) by (simp_all add: handles_ok_def)
  then have "\<forall>r \<in> set (lw_reservations w). \<not> mr_consumed r \<and> mr_token r < Suc t \<and> mr_token r \<noteq> t"
    and "\<forall>l \<in> set (lw_leases w). \<not> ml_released l \<and> ml_token l < Suc t \<and> ml_token l \<noteq> t"
    by fastforce+
  with assms show ?thesis by (auto simp: handles_ok_def memory_lease_new_def)
qed

lemma reserve_commit_world:
  assumes "ledger_inv cap w"
  shows "(\<exists>e. bind_ledger (ledger_reserve n (lw_ledger w)) commit_reserved = Some (Inl e, lw_ledger w)) \<or>
    (\<exists>l st. bind_ledger (ledger_reserve n (lw_ledger w)) commit_reserved = Some (Inr l, st) \<and>
       ledger_inv cap (w\<lparr>lw_ledger := st, lw_leases := lw_leases w @ [l]\<rparr>))"
proof -
  have ok: "accounts_ok cap (lw_ledger w)" "handles_ok w" using assms by (simp_all add: ledger_inv_def)
  obtain res st where r: "bind_ledger (ledger_reserve n (lw_ledger w)) commit_reserved = Some (res, st)"
      "accounts_ok cap st" "ls_reserved st = ls_reserved (lw_ledger w)" "ls_next_epoch st = ls_next_epoch (lw_ledger w)"
      "case res of Inl e \<Rightarrow> st = lw_ledger w
       | Inr l \<Rightarrow> l = memory_lease_new (ls_next_token (lw_ledger w)) n \<and> ls_committed st = ls_committed (lw_ledger w) + n \<and>
          ls_next_token st = ls_next_token (lw_ledger w) + 1"
    using reserve_commit_eq [OF ok(1), of n] by blast
  show ?thesis
  proof (cases res)
    case (Inr l)
    with r handles_new_lease [OF ok(2) refl, of st n] show ?thesis by (simp add: ledger_inv_def)
  qed (use r in simp)
qed

lemma exec_zero_lease:
  assumes "ledger_inv cap w"
  shows "\<exists>w'. ledger_exec LedgerZeroLease w = Some w' \<and> ledger_inv cap w'"
  using reserve_commit_world [OF assms, of 0] assms by (auto simp: ledger_zero_lease_def)

lemma handles_new_heap:
  assumes "handles_ok w" and "ls_next_epoch st = ls_next_epoch (lw_ledger w) + 1"
    and "ls_reserved st = ls_reserved (lw_ledger w)" and "ls_committed st = ls_committed (lw_ledger w)"
    and "ls_next_token st = ls_next_token (lw_ledger w)"
  shows "handles_ok (w\<lparr>lw_ledger := st\<rparr>)"
    and "handles_ok (w\<lparr>lw_ledger := st, lw_heaps := lw_heaps w @ [(ls_next_epoch (lw_ledger w) + 1, ls_next_epoch (lw_ledger w))]\<rparr>)"
  using assms by (fastforce simp: handles_ok_def sorted_wrt_append)+

lemma mint_heap_world:
  assumes "ledger_inv cap w"
  shows "(\<exists>e. ledger_mint_heap_identity (lw_ledger w) = (Inl e, lw_ledger w)) \<or>
    (\<exists>heap st. ledger_mint_heap_identity (lw_ledger w) = (Inr heap, st) \<and> ledger_inv cap (w\<lparr>lw_ledger := st\<rparr>) \<and>
       ledger_inv cap (w\<lparr>lw_ledger := st, lw_heaps := lw_heaps w @ [heap]\<rparr>))"
proof -
  have ok: "accounts_ok cap (lw_ledger w)" "handles_ok w" using assms by (simp_all add: ledger_inv_def)
  let ?st = "(lw_ledger w)\<lparr>ls_next_domain := ls_next_epoch (lw_ledger w) + 2, ls_next_epoch := ls_next_epoch (lw_ledger w) + 1\<rparr>"
  have "accounts_ok cap ?st" if "ls_next_epoch (lw_ledger w) \<noteq> u32_max"
    using ok(1) that by (simp add: accounts_ok_def)
  with handles_new_heap [OF ok(2), of ?st] show ?thesis
    by (auto simp: mint_heap_eq [OF ok(1)] ledger_inv_def)
qed

lemma exec_mint_heap: "ledger_inv cap w \<Longrightarrow> \<exists>w'. ledger_exec LedgerMintHeap w = Some w' \<and> ledger_inv cap w'"
  using mint_heap_world [of cap w] by auto

lemma mint_child_eq:
  "ledger_mint_child_heap n st =
     (case ledger_mint_heap_identity st of
        (Inl e, st1) \<Rightarrow> Some (Inl e, st1)
      | (Inr heap, st1) \<Rightarrow>
          (case bind_ledger (ledger_reserve n st1) commit_reserved of
             None \<Rightarrow> None
           | Some (Inl e, st2) \<Rightarrow> Some (Inl e, st2)
           | Some (Inr lease, st2) \<Rightarrow> Some (Inr (heap, lease), st2)))"
  by (auto simp: ledger_mint_child_heap_def bind_ledger_def split: option.split sum.split prod.split)

lemma exec_mint_child:
  assumes "ledger_inv cap w"
  shows "\<exists>w'. ledger_exec (LedgerMintChild n) w = Some w' \<and> ledger_inv cap w'"
  using mint_heap_world [OF assms]
proof (elim disjE exE conjE)
  fix heap st
  assume m: "ledger_mint_heap_identity (lw_ledger w) = (Inr heap, st)" "ledger_inv cap (w\<lparr>lw_ledger := st\<rparr>)"
    "ledger_inv cap (w\<lparr>lw_ledger := st, lw_heaps := lw_heaps w @ [heap]\<rparr>)"
  from reserve_commit_world [OF m(3), of n] m show ?thesis
    by (cases heap) (auto simp: mint_child_eq)
qed (use assms in \<open>auto simp: mint_child_eq\<close>)

lemma exec_terminal: "ledger_inv cap w \<Longrightarrow> \<exists>w'. ledger_exec LedgerMarkTerminal w = Some w' \<and> ledger_inv cap w'"
  by (auto simp: ledger_mark_terminal_def ledger_inv_defs)

text \<open>The one operation that can fail is the drop of a lease whose amount was released directly.\<close>

fun drops_uncovered :: "ledger_op \<Rightarrow> ledger_world \<Rightarrow> bool" where
  "drops_uncovered (LedgerDropLease i) w = (\<not> lease_covered i w)"
| "drops_uncovered op w = False"

lemma exec_inv: "ledger_inv cap w \<Longrightarrow> \<not> drops_uncovered op w \<Longrightarrow> \<exists>w'. ledger_exec op w = Some w' \<and> ledger_inv cap w'"
  using exec_reserve exec_release exec_commit exec_give_back exec_drop_lease exec_set_amount exec_zero_lease exec_mint_heap
    exec_mint_child exec_terminal
  by (cases op) (simp_all only: drops_uncovered.simps not_not)

lemma exec_panics:
  assumes "ledger_inv cap w"
  shows "ledger_exec op w = None \<longleftrightarrow> drops_uncovered op w" and "drops_uncovered op w \<Longrightarrow> 0 < lw_direct w"
proof -
  have "ledger_exec op w = None" if "drops_uncovered op w"
    using that lease_uncovered(2) [OF assms] by (cases op) (simp_all only: drops_uncovered.simps)
  then show "ledger_exec op w = None \<longleftrightarrow> drops_uncovered op w" using exec_inv [OF assms, of op] by (metis option.distinct(1))
  show "0 < lw_direct w" if "drops_uncovered op w" using that lease_uncovered(1) [OF assms] by (cases op) auto
qed

lemma ledger_run_inv: "ledger_step\<^sup>*\<^sup>* w w' \<Longrightarrow> ledger_inv cap w \<Longrightarrow> ledger_inv cap w'"
proof (induction rule: rtranclp_induct)
  case (step t u)
  then obtain op where "ledger_exec op t = Some u" by (auto elim: ledger_stepE)
  then show ?case using step exec_inv [of cap t op] exec_panics(1) [of cap t op] by auto
qed simp

section \<open>Properties of the memory ledger\<close>

text \<open>C21: Exact accounting. Whatever a request does with its handles, its ledger's reserved amount is the sum of
  the live reservations, and its committed amount, together with what was taken from it through the direct
  \<open>release\<close>, is the sum of the live leases; reserved and committed together never exceed the hard cap, the three
  peaks are upper bounds within the cap, and no two live handles share a token. No operation overflows or
  panics, but for one: the drop of a live lease whose amount exceeds what is still committed, and this happens
  only after a direct release. Without direct releases the committed amount is exactly the sum of the leases
  and no operation fails.\<close>

theorem ledger_accounts_exact:
  assumes "cap \<le> u64_max" and "ledger_step\<^sup>*\<^sup>* (world_new cap) w"
  shows "(ledger_exec op w = None \<longleftrightarrow>
      (\<exists>i. op = LedgerDropLease i \<and> i < length (lw_leases w) \<and> ls_committed (lw_ledger w) < ml_amount (lw_leases w ! i))) \<and>
    (ledger_exec op w = None \<longrightarrow> 0 < lw_direct w) \<and>
    ls_reserved (lw_ledger w) = sum_list (map mr_amount (lw_reservations w)) \<and>
    ls_committed (lw_ledger w) + lw_direct w = sum_list (map ml_amount (lw_leases w)) \<and>
    ls_reserved (lw_ledger w) \<le> ls_peak_reserved (lw_ledger w) \<and>
    ls_committed (lw_ledger w) \<le> ls_peak_committed (lw_ledger w) \<and>
    ls_reserved (lw_ledger w) + ls_committed (lw_ledger w) \<le> ls_peak_total (lw_ledger w) \<and>
    ls_peak_total (lw_ledger w) \<le> cap \<and>
    distinct (map mr_token (lw_reservations w) @ map ml_token (lw_leases w))"
proof -
  have inv: "ledger_inv cap w" using ledger_run_inv [OF assms(2) ledger_inv_new [OF assms(1)]] .
  have "drops_uncovered op w \<longleftrightarrow>
      (\<exists>i. op = LedgerDropLease i \<and> i < length (lw_leases w) \<and> ls_committed (lw_ledger w) < ml_amount (lw_leases w ! i))"
    by (cases op) auto
  then show ?thesis using exec_panics [OF inv, of op] inv by (auto simp: ledger_inv_defs)
qed

text \<open>Admission is exact. A reservation is granted exactly when the ledger is open, the live
  amounts, less what was released directly, leave room below the hard cap and tokens are left; a refusal
  changes nothing.\<close>

theorem ledger_reserve_iff:
  assumes "cap \<le> u64_max" and "ledger_step\<^sup>*\<^sup>* (world_new cap) w"
    and "ledger_reserve n (lw_ledger w) = Some (res, st)"
  shows "(if \<not> ls_terminal (lw_ledger w) \<and> ls_next_token (lw_ledger w) < u64_max \<and>
             sum_list (map mr_amount (lw_reservations w)) + sum_list (map ml_amount (lw_leases w)) + n \<le> cap + lw_direct w
          then res = Inr \<lparr>mr_token = ls_next_token (lw_ledger w), mr_amount = n, mr_consumed = False\<rparr> \<and>
               ls_reserved st = ls_reserved (lw_ledger w) + n
          else isl res \<and> st = lw_ledger w)"
proof -
  have inv: "ledger_inv cap w" using ledger_run_inv [OF assms(2) ledger_inv_new [OF assms(1)]] .
  then have "accounts_ok cap (lw_ledger w)" by (simp add: ledger_inv_def)
  from ledger_reserve_eq [OF this, of n] inv assms(3) show ?thesis
    by (auto simp: ledger_inv_defs split: if_splits)
qed

lemma terminal_exec:
  assumes "ledger_inv cap w" and "ls_terminal (lw_ledger w)" and "ledger_exec op w = Some w'"
  shows "ls_terminal (lw_ledger w')"
proof (cases op)
  case (LedgerSetAmount i n)
  with assms show ?thesis
    by (auto simp: ledger_set_committed_lease_amount_def Let_def split: if_splits)
qed (use assms in \<open>auto simp: ledger_reserve_def reservation_commit_def reservation_abandon_def reservation_drop_def
      lease_release_inner_def ledger_release_lease_def ledger_zero_lease_def ledger_mint_heap_identity_def
      ledger_release_def ledger_mint_child_heap_def bind_ledger_def ledger_mark_terminal_def split: option.splits if_splits\<close>)

lemma terminal_run: "ledger_step\<^sup>*\<^sup>* w w' \<Longrightarrow> ledger_inv cap w \<Longrightarrow> ls_terminal (lw_ledger w) \<Longrightarrow> ls_terminal (lw_ledger w')"
proof (induction rule: rtranclp_induct)
  case (step t u)
  then obtain op where "ledger_exec op t = Some u" by (auto elim: ledger_stepE)
  then show ?case using step terminal_exec ledger_run_inv by blast
qed simp

text \<open>The terminal mark is the zero point of the request. It is refused, without effect, while any
  live handle holds memory that was not released directly; once it is set, at every later point the accounts stay at zero, every
  reservation and heap identity is refused and no lease can grow.\<close>

theorem ledger_terminal_zero:
  assumes "cap \<le> u64_max" and "ledger_step\<^sup>*\<^sup>* (world_new cap) w"
    and "ledger_mark_terminal (lw_ledger w) = (res, st)" and "ledger_step\<^sup>*\<^sup>* (w\<lparr>lw_ledger := st\<rparr>) w'"
  shows "if sum_list (map mr_amount (lw_reservations w)) = 0 \<and> sum_list (map ml_amount (lw_leases w)) = lw_direct w
    then res = Inr (ledger_snapshot st) \<and> ss_terminal (ledger_snapshot st) \<and>
      ls_reserved (lw_ledger w') = 0 \<and> ls_committed (lw_ledger w') = 0 \<and>
      ledger_reserve n (lw_ledger w') = Some (Inl LedgerTerminal, lw_ledger w') \<and>
      ledger_mint_heap_identity (lw_ledger w') = (Inl LedgerTerminal, lw_ledger w') \<and>
      ledger_set_committed_lease_amount l n (lw_ledger w') = Some (Inl LedgerTerminal, l, lw_ledger w')
    else isl res \<and> st = lw_ledger w"
proof -
  have inv: "ledger_inv cap w" using ledger_run_inv [OF assms(2) ledger_inv_new [OF assms(1)]] .
  then have sums: "ls_reserved (lw_ledger w) = reserved_sum w" "ls_committed (lw_ledger w) + lw_direct w = leased_sum w"
    by (simp_all add: ledger_inv_defs)
  have inv1: "ledger_inv cap (w\<lparr>lw_ledger := st\<rparr>)" using exec_terminal [OF inv] assms(3) by simp
  show ?thesis
  proof (cases "reserved_sum w = 0 \<and> leased_sum w = lw_direct w")
    case True
    then have st: "st = (lw_ledger w)\<lparr>ls_terminal := True\<rparr>" "res = Inr (ledger_snapshot st)"
      using assms(3) sums by (auto simp: ledger_mark_terminal_def)
    have t: "ls_terminal (lw_ledger w')" using terminal_run [OF assms(4) inv1] st by simp
    moreover have "ls_reserved (lw_ledger w') = 0 \<and> ls_committed (lw_ledger w') = 0"
      using ledger_run_inv [OF assms(4) inv1] t by (simp add: ledger_inv_defs)
    ultimately show ?thesis using True st
      by (simp add: ledger_reserve_def ledger_mint_heap_identity_def ledger_set_committed_lease_amount_def
          ledger_snapshot_def)
  next
    case False
    then have "ls_reserved (lw_ledger w) \<noteq> 0 \<or> ls_committed (lw_ledger w) \<noteq> 0" using sums by linarith
    then have "isl res \<and> st = lw_ledger w" using assms(3) by (auto simp: ledger_mark_terminal_def split: if_splits)
    then show ?thesis using False by (simp only: if_False)
  qed
qed

lemma drop_leases_reserved: "drop_leases ledger_release_lease ls st = Some st' \<Longrightarrow> ls_reserved st' = ls_reserved st"
  by (induction ls arbitrary: st)
     (auto simp: lease_release_inner_def ledger_release_lease_def split: option.splits if_splits)

text \<open>Releasing every handle drains the ledger: in any reachable state without live reservations and
  without direct releases,
  dropping the live leases one after the other succeeds and leaves a ledger that can be marked
  terminal.\<close>

theorem ledger_drains:
  assumes "cap \<le> u64_max" and "ledger_step\<^sup>*\<^sup>* (world_new cap) w" and "lw_reservations w = []"
    and "lw_direct w = 0"
  shows "\<exists>st snap. drop_leases ledger_release_lease (lw_leases w) (lw_ledger w) = Some st \<and>
    ls_committed st = 0 \<and> ledger_mark_terminal st = (Inr snap, st\<lparr>ls_terminal := True\<rparr>)"
proof -
  have "handles_ok w" using ledger_run_inv [OF assms(2) ledger_inv_new [OF assms(1)]] by (simp add: ledger_inv_def)
  moreover from this obtain st where
    st: "drop_leases ledger_release_lease (lw_leases w) (lw_ledger w) = Some st" "ls_committed st = 0"
    using ledger_host.drop_leases_exact [of "lw_leases w" "lw_ledger w"] assms(4) by (auto simp: handles_ok_def)
  ultimately show ?thesis using drop_leases_reserved [OF st(1)] assms(3)
    by (simp add: handles_ok_def ledger_mark_terminal_def)
qed

text \<open>Heap identities are never reused within a request: the identities handed out have strictly
  increasing epochs, the domain of an identity is its epoch plus one and fits 32 bits, and minting
  never reports that epochs ran out.\<close>

theorem heap_identities_unique:
  assumes "cap \<le> u64_max" and "ledger_step\<^sup>*\<^sup>* (world_new cap) w"
  shows "sorted_wrt (<) (map snd (lw_heaps w)) \<and> (\<forall>(d, e) \<in> set (lw_heaps w). d = e + 1 \<and> d \<le> u32_max) \<and>
    fst (ledger_mint_heap_identity (lw_ledger w)) \<noteq> Inl EpochSpaceExhausted"
proof -
  have inv: "ledger_inv cap w" using ledger_run_inv [OF assms(2) ledger_inv_new [OF assms(1)]] .
  then have acc: "accounts_ok cap (lw_ledger w)" by (simp add: ledger_inv_def)
  have heaps: "\<forall>(d, e) \<in> set (lw_heaps w). d = e + 1 \<and> e < ls_next_epoch (lw_ledger w)"
      "sorted_wrt (<) (map snd (lw_heaps w))" "ls_next_epoch (lw_ledger w) \<le> u32_max"
    using inv by (simp_all add: ledger_inv_defs)
  have "\<forall>(d, e) \<in> set (lw_heaps w). d = e + 1 \<and> d \<le> u32_max" using heaps(1,3) by fastforce
  with heaps(2) show ?thesis by (simp add: mint_heap_eq [OF acc])
qed

section \<open>Request transactions\<close>

text \<open>
  \<open>RequestTransactionLedger\<close>: one active transaction at a time, whose token runs its cleanup hook
  once. Hooks are labelled by the strings of the log; \<open>tw_begun\<close> records every granted \<open>begin\<close>.
\<close>

datatype transaction_ledger_error = AlreadyActive

record transaction_token =
  tt_cleanup :: "string option"
  tt_finished :: bool

record transaction_world =
  tw_active :: bool
  tw_tokens :: "transaction_token list"
  tw_ran :: "string list"
  tw_begun :: "string list"

definition transaction_new :: transaction_world where
  "transaction_new = \<lparr>tw_active = False, tw_tokens = [], tw_ran = [], tw_begun = []\<rparr>"

definition transaction_begin ::
  "string \<Rightarrow> transaction_world \<Rightarrow> (transaction_ledger_error + transaction_token) \<times> transaction_world" where
  "transaction_begin cleanup w =
     (if tw_active w then (Inl AlreadyActive, w)
      else (Inr \<lparr>tt_cleanup = Some cleanup, tt_finished = False\<rparr>, w\<lparr>tw_active := True\<rparr>))"

definition finish_inner :: "transaction_token \<Rightarrow> transaction_world \<Rightarrow> transaction_token \<times> transaction_world" where
  "finish_inner token w =
     (if tt_finished token then (token, w)
      else (\<lparr>tt_cleanup = None, tt_finished = True\<rparr>,
            w\<lparr>tw_active := False, tw_ran := tw_ran w @ (case tt_cleanup token of Some c \<Rightarrow> [c] | None \<Rightarrow> [])\<rparr>))"

text \<open>\<open>finish\<close> consumes the token: \<open>finish_inner\<close> runs, then the drop runs it again.\<close>

definition transaction_finish :: "transaction_token \<Rightarrow> transaction_world \<Rightarrow> transaction_world" where
  "transaction_finish token w = (let (token1, w1) = finish_inner token w in snd (finish_inner token1 w1))"

definition transaction_drop :: "transaction_token \<Rightarrow> transaction_world \<Rightarrow> transaction_world" where
  "transaction_drop token w = snd (finish_inner token w)"

inductive transaction_step :: "transaction_world \<Rightarrow> transaction_world \<Rightarrow> bool" where
  granted: "transaction_begin c w = (Inr token, w') \<Longrightarrow>
     transaction_step w (w'\<lparr>tw_tokens := tw_tokens w @ [token], tw_begun := tw_begun w @ [c]\<rparr>)"
| refused: "transaction_begin c w = (Inl e, w') \<Longrightarrow> transaction_step w w'"
| finish: "i < length (tw_tokens w) \<Longrightarrow>
     transaction_step w (transaction_finish (tw_tokens w ! i) (w\<lparr>tw_tokens := remove_nth i (tw_tokens w)\<rparr>))"
| drop_token: "i < length (tw_tokens w) \<Longrightarrow>
     transaction_step w (transaction_drop (tw_tokens w ! i) (w\<lparr>tw_tokens := remove_nth i (tw_tokens w)\<rparr>))"

definition transaction_inv :: "transaction_world \<Rightarrow> bool" where
  "transaction_inv w \<longleftrightarrow>
     (case tw_tokens w of
        [] \<Rightarrow> \<not> tw_active w \<and> tw_begun w = tw_ran w
      | [t] \<Rightarrow> tw_active w \<and> \<not> tt_finished t \<and> (\<exists>c. tt_cleanup t = Some c \<and> tw_begun w = tw_ran w @ [c])
      | _ \<Rightarrow> False)"

lemma finish_is_drop: "transaction_finish token w = transaction_drop token w"
  by (simp add: transaction_finish_def transaction_drop_def finish_inner_def)

lemma transaction_inv_cases:
  assumes "transaction_inv w"
  obtains "tw_tokens w = []" "\<not> tw_active w" "tw_begun w = tw_ran w"
    | t c where "tw_tokens w = [t]" "tw_active w" "\<not> tt_finished t" "tt_cleanup t = Some c" "tw_begun w = tw_ran w @ [c]"
  using assms unfolding transaction_inv_def by (auto split: list.splits)

lemma transaction_inv_step: "transaction_step w w' \<Longrightarrow> transaction_inv w \<Longrightarrow> transaction_inv w'"
  by (cases rule: transaction_step.cases; assumption?; erule transaction_inv_cases)
     (auto simp: transaction_inv_def transaction_begin_def finish_is_drop transaction_drop_def finish_inner_def
       remove_nth_def split: if_splits)

text \<open>A request has at most one transaction at a time, and the cleanup hook of every transaction it
  began runs exactly once: the hooks that ran, in order, followed by that of the open transaction,
  if any, are exactly the transactions begun, whether tokens were finished or just dropped.\<close>

theorem transaction_cleanup_once:
  assumes "transaction_step\<^sup>*\<^sup>* transaction_new w"
  shows "length (tw_tokens w) \<le> 1 \<and> tw_active w = (tw_tokens w \<noteq> []) \<and>
    map Some (tw_begun w) = map Some (tw_ran w) @ map tt_cleanup (tw_tokens w)"
proof -
  have "transaction_inv transaction_new" by (simp add: transaction_inv_def transaction_new_def)
  with assms have "transaction_inv w" by (induction rule: rtranclp_induct) (auto intro: transaction_inv_step)
  then show ?thesis by (rule transaction_inv_cases) auto
qed

section \<open>Sample runs\<close>

definition demo_world :: ledger_world where
  "demo_world = \<lparr>lw_ledger = (ledger_new 10)\<lparr>ls_committed := 8, ls_peak_reserved := 8, ls_peak_committed := 8,
     ls_peak_total := 8, ls_next_token := 2\<rparr>, lw_reservations = [], lw_leases = [memory_lease_new 1 8], lw_heaps = [], lw_direct = 0\<rparr>"

lemma demo_world_run: "ledger_step\<^sup>*\<^sup>* (world_new 10) demo_world"
proof -
  obtain w1 where w1: "ledger_exec (LedgerReserve 8) (world_new 10) = Some w1" "ledger_exec (LedgerCommit 0) w1 = Some demo_world"
    by (simp add: world_new_def ledger_new_def ledger_reserve_def checked_add_u64_def checked_sub_u64_def u64_max_def
        reservation_commit_def remove_nth_def memory_lease_new_def demo_world_def)
  then show ?thesis by (meson ledger_step.intros r_into_rtranclp rtranclp_trans)
qed

lemma ten_u64: "10 \<le> u64_max"
  by (simp add: u64_max_def)

definition demo_released :: ledger_world where
  "demo_released = demo_world\<lparr>lw_ledger := (lw_ledger demo_world)\<lparr>ls_committed := 3\<rparr>, lw_direct := 5\<rparr>"

lemma demo_released_run: "ledger_step\<^sup>*\<^sup>* (world_new 10) demo_released"
proof -
  have "ledger_exec (LedgerRelease 5) demo_world = Some demo_released"
    by (simp add: demo_released_def demo_world_def ledger_new_def ledger_release_def checked_sub_u64_def)
  then show ?thesis using demo_world_run by (meson ledger_step.intros rtranclp.rtrancl_into_rtrancl)
qed

theorem ledger_accounts_exact_witness:
  "ledger_exec (LedgerDropLease 0) demo_world \<noteq> None \<and> ls_peak_total (lw_ledger demo_world) \<le> 10 \<and>
   ledger_exec (LedgerDropLease 0) demo_released = None"
proof -
  have "ls_committed (lw_ledger demo_world) = 8" "lw_leases demo_world = [memory_lease_new 1 8]" "ml_amount (memory_lease_new 1 8) = 8"
    "ls_committed (lw_ledger demo_released) = 3" "lw_leases demo_released = [memory_lease_new 1 8]"
    by (simp_all add: demo_world_def demo_released_def memory_lease_new_def)
  then show ?thesis
    using ledger_accounts_exact [OF ten_u64 demo_world_run, of "LedgerDropLease 0"]
      ledger_accounts_exact [OF ten_u64 demo_released_run, of "LedgerDropLease 0"] by (simp del: ledger_exec.simps)
qed

theorem ledger_reserve_iff_witness:
  "ledger_reserve 3 (lw_ledger demo_world) = Some (Inl (HardCapExceeded 10 0 8 3), lw_ledger demo_world) \<and>
   (\<exists>r st. ledger_reserve 2 (lw_ledger demo_world) = Some (Inr r, st))"
proof -
  obtain res st where r: "ledger_reserve 2 (lw_ledger demo_world) = Some (res, st)"
    using demo_world_run by (fastforce simp: demo_world_def ledger_new_def ledger_reserve_def checked_add_u64_def u64_max_def)
  from ledger_reserve_iff [OF ten_u64 demo_world_run r] r show ?thesis
    by (simp add: demo_world_def memory_lease_new_def ledger_new_def u64_max_def)
       (simp add: ledger_reserve_def checked_add_u64_def u64_max_def cap_error_def)
qed

theorem ledger_terminal_zero_witness:
  "isl (fst (ledger_mark_terminal (lw_ledger demo_world)))"
  using ledger_terminal_zero [OF ten_u64 demo_world_run surjective_pairing rtranclp.rtrancl_refl]
  by (simp add: demo_world_def memory_lease_new_def)

theorem ledger_drains_witness:
  "\<exists>st. drop_leases ledger_release_lease (lw_leases demo_world) (lw_ledger demo_world) = Some st \<and> ls_committed st = 0"
  using ledger_drains [OF ten_u64 demo_world_run] by (auto simp: demo_world_def)

theorem heap_identities_unique_witness:
  "fst (ledger_mint_heap_identity (lw_ledger demo_world)) \<noteq> Inl EpochSpaceExhausted"
  using heap_identities_unique [OF ten_u64 demo_world_run] by blast

theorem transaction_cleanup_once_witness:
  "tw_ran (transaction_drop \<lparr>tt_cleanup = Some ''c'', tt_finished = False\<rparr>
     \<lparr>tw_active = True, tw_tokens = [], tw_ran = [], tw_begun = [''c'']\<rparr>) = [''c'']"
proof -
  let ?t = "\<lparr>tt_cleanup = Some ''c'', tt_finished = False\<rparr>"
  let ?w1 = "\<lparr>tw_active = True, tw_tokens = [?t], tw_ran = [], tw_begun = [''c'']\<rparr>"
  have "transaction_step transaction_new ?w1"
    using transaction_step.granted [of "''c''" transaction_new ?t "transaction_new\<lparr>tw_active := True\<rparr>"]
    by (simp add: transaction_begin_def transaction_new_def)
  moreover have "transaction_step ?w1 (transaction_drop ?t (?w1\<lparr>tw_tokens := []\<rparr>))"
    using transaction_step.drop_token [of 0 ?w1] by (simp add: remove_nth_def)
  ultimately have "transaction_step\<^sup>*\<^sup>* transaction_new (transaction_drop ?t (?w1\<lparr>tw_tokens := []\<rparr>))" by simp
  from transaction_cleanup_once [OF this] show ?thesis
    by (simp add: transaction_drop_def finish_inner_def)
qed

text \<open>The public \<open>release\<close> method is not tied to a lease: releasing 8 of the 8 bytes a live lease
  holds lets the ledger be marked terminal under that live lease, and the lease's own release then
  underflows.\<close>

theorem direct_release_breaks_lease:
  "ledger_release 8 (lw_ledger demo_world) = (Inr (), (lw_ledger demo_world)\<lparr>ls_committed := 0\<rparr>) \<and>
   \<not> isl (fst (ledger_mark_terminal ((lw_ledger demo_world)\<lparr>ls_committed := 0\<rparr>))) \<and>
   lease_release_inner ledger_release_lease (memory_lease_new 1 8) ((lw_ledger demo_world)\<lparr>ls_committed := 0\<rparr>) = None"
  by (simp add: ledger_release_def demo_world_def ledger_new_def checked_sub_u64_def ledger_mark_terminal_def
      lease_release_inner_def memory_lease_new_def ledger_release_lease_def)

end
