(* ===== verification/Execution_Budget.thy ===== *)
theory Execution_Budget
  imports Skiff_Prelude
begin

text \<open>
  The request execution budget (\<open>runtime/request/src/execution_budget.rs\<close>) and the port the VM
  dispatch loop calls it through (\<open>runtime/vm/src/budget.rs\<close>). Instants are nanoseconds; every
  operation that reads the trusted clock takes the reading as an argument. Each section of code
  under the budget's mutex is one step; notifying the pending sinks happens in a second critical
  section, so it is a step of its own. Sinks are named by strings and their calls are a log.
  A failed assertion is the result \<open>None\<close>.
\<close>

section \<open>Policy, winners and settlement\<close>

type_synonym instant = nat

definition DEFAULT_INSTRUCTION_LIMIT :: u64 where
  "DEFAULT_INSTRUCTION_LIMIT = 10000000"

definition DEFAULT_POLL_INTERVAL :: u64 where
  "DEFAULT_POLL_INTERVAL = 1024"

record execution_budget_policy =
  bp_hard_raw_limit :: u64
  bp_raw_poll_interval :: u64

definition runtime_default_policy :: execution_budget_policy where
  "runtime_default_policy = \<lparr>bp_hard_raw_limit = DEFAULT_INSTRUCTION_LIMIT, bp_raw_poll_interval = DEFAULT_POLL_INTERVAL\<rparr>"

datatype execution_winner =
    WonSucceeded | WonFailed | WonCancelled | WonDeadlineExceeded | WonInstructionLimitExceeded
  | WonInternalStop | WonAccountingFailure

datatype vm_budget_terminal =
    TermSucceeded | TermFailed | TermCancelled | TermInstructionLimitExceeded | TermDeadlineExceeded
  | TermInternalStop | TermAccountingFailure

datatype vm_budget_closed =
    ClosedDeadlineExceeded | ClosedInstructionLimitExceeded | ClosedAccountingFailure
  | ClosedAlreadySettled vm_budget_terminal

datatype execution_budget_reason = ReasonCancelled | ReasonDeadlineExceeded | ReasonInstructionLimitExceeded

fun vm_terminal :: "execution_winner \<Rightarrow> vm_budget_terminal" where
  "vm_terminal WonSucceeded = TermSucceeded"
| "vm_terminal WonFailed = TermFailed"
| "vm_terminal WonCancelled = TermCancelled"
| "vm_terminal WonDeadlineExceeded = TermDeadlineExceeded"
| "vm_terminal WonInstructionLimitExceeded = TermInstructionLimitExceeded"
| "vm_terminal WonInternalStop = TermInternalStop"
| "vm_terminal WonAccountingFailure = TermAccountingFailure"

fun budget_reason :: "execution_winner \<Rightarrow> execution_budget_reason option" where
  "budget_reason WonCancelled = Some ReasonCancelled"
| "budget_reason WonInternalStop = Some ReasonCancelled"
| "budget_reason WonDeadlineExceeded = Some ReasonDeadlineExceeded"
| "budget_reason WonInstructionLimitExceeded = Some ReasonInstructionLimitExceeded"
| "budget_reason _ = None"

datatype completion_candidate = CandidateSuccess | CandidateFailure

fun candidate_winner :: "completion_candidate \<Rightarrow> execution_winner" where
  "candidate_winner CandidateSuccess = WonSucceeded"
| "candidate_winner CandidateFailure = WonFailed"

record execution_settlement =
  es_winner :: execution_winner
  es_raw_executed_count :: u64
  es_semantic_charge_count :: u64
  es_hard_raw_limit :: u64
  es_poll_count :: u64
  es_started_at :: instant
  es_finished_at :: instant

definition settlement_elapsed :: "execution_settlement \<Rightarrow> nat" where
  "settlement_elapsed s = es_finished_at s - es_started_at s"

datatype settlement_disposition = DispWon execution_settlement | DispAlreadySettled execution_settlement

fun disposition_settlement :: "settlement_disposition \<Rightarrow> execution_settlement" where
  "disposition_settlement (DispWon s) = s"
| "disposition_settlement (DispAlreadySettled s) = s"

datatype vm_adapter_attach_error = AttachAlreadyAttached | AttachAlreadySettled

record execution_budget =
  eb_policy :: execution_budget_policy
  eb_deadline :: "instant option"
  eb_started_at :: instant
  eb_raw_executed_count :: u64
  eb_semantic_charge_count :: u64
  eb_poll_count :: u64
  eb_last_polled_raw_count :: "u64 option"
  eb_vm_adapter_attached :: bool
  eb_settlement :: "execution_settlement option"
  eb_pending_sinks :: "string list"

definition budget_new :: "execution_budget_policy \<Rightarrow> instant option \<Rightarrow> instant \<Rightarrow> execution_budget" where
  "budget_new policy deadline now = \<lparr>eb_policy = policy, eb_deadline = deadline, eb_started_at = now,
     eb_raw_executed_count = 0, eb_semantic_charge_count = 0, eb_poll_count = 0, eb_last_polled_raw_count = None,
     eb_vm_adapter_attached = False, eb_settlement = None, eb_pending_sinks = []\<rparr>"

section \<open>Operations\<close>

definition deadline_is_due :: "execution_budget \<Rightarrow> instant \<Rightarrow> bool" where
  "deadline_is_due b now \<longleftrightarrow> (case eb_deadline b of None \<Rightarrow> False | Some d \<Rightarrow> now \<ge> d)"

definition already_closed :: "execution_settlement \<Rightarrow> vm_budget_closed" where
  "already_closed s = ClosedAlreadySettled (vm_terminal (es_winner s))"

text \<open>The settlement taken over the current counters, and \<open>freeze\<close>, whose debug assertion fails when the
  budget is settled already.\<close>

definition frozen :: "execution_winner \<Rightarrow> instant \<Rightarrow> execution_budget \<Rightarrow> execution_settlement \<times> execution_budget" where
  "frozen winner now b =
     (let s = \<lparr>es_winner = winner, es_raw_executed_count = eb_raw_executed_count b,
            es_semantic_charge_count = eb_semantic_charge_count b, es_hard_raw_limit = bp_hard_raw_limit (eb_policy b),
            es_poll_count = eb_poll_count b, es_started_at = eb_started_at b, es_finished_at = now\<rparr>
      in (s, b\<lparr>eb_settlement := Some s\<rparr>))"

definition freeze :: "execution_winner \<Rightarrow> instant \<Rightarrow> execution_budget \<Rightarrow> (execution_settlement \<times> execution_budget) option" where
  "freeze winner now b = (if eb_settlement b \<noteq> None then None else Some (frozen winner now b))"

definition attach_vm :: "execution_budget \<Rightarrow> (vm_adapter_attach_error + unit) \<times> execution_budget" where
  "attach_vm b =
     (if eb_settlement b \<noteq> None then (Inl AttachAlreadySettled, b)
      else if eb_vm_adapter_attached b then (Inl AttachAlreadyAttached, b)
      else (Inr (), b\<lparr>eb_vm_adapter_attached := True\<rparr>))"

text \<open>The critical section of \<open>settle\<close>, \<open>request_cancel\<close> and \<open>request_internal_stop\<close>; \<open>DispWon\<close> is
  followed by \<open>complete_pending_sinks\<close>.\<close>

definition settle_requested ::
  "execution_winner \<Rightarrow> instant \<Rightarrow> execution_budget \<Rightarrow> (settlement_disposition \<times> execution_budget) option" where
  "settle_requested requested now b =
     (case eb_settlement b of
        Some s \<Rightarrow> Some (DispAlreadySettled s, b)
      | None \<Rightarrow>
          map_option (map_prod DispWon id)
            (freeze (if deadline_is_due b now then WonDeadlineExceeded else requested) now b))"

definition budget_settle ::
  "completion_candidate \<Rightarrow> instant \<Rightarrow> execution_budget \<Rightarrow> (settlement_disposition \<times> execution_budget) option" where
  "budget_settle candidate = settle_requested (candidate_winner candidate)"

definition request_cancel :: "instant \<Rightarrow> execution_budget \<Rightarrow> (settlement_disposition \<times> execution_budget) option" where
  "request_cancel = settle_requested WonCancelled"

definition request_internal_stop :: "instant \<Rightarrow> execution_budget \<Rightarrow> (settlement_disposition \<times> execution_budget) option" where
  "request_internal_stop = settle_requested WonInternalStop"

text \<open>The flag of the next two says whether \<open>complete_pending_sinks\<close> follows.\<close>

definition register_pending_sink ::
  "string \<Rightarrow> instant \<Rightarrow> execution_budget \<Rightarrow> ((execution_winner option \<times> bool) \<times> execution_budget) option" where
  "register_pending_sink sink now b =
     (case eb_settlement b of
        Some s \<Rightarrow> Some ((Some (es_winner s), False), b)
      | None \<Rightarrow>
          (if deadline_is_due b now then
             map_option (\<lambda>(s, b'). ((Some (es_winner s), True), b')) (freeze WonDeadlineExceeded now b)
           else Some ((None, False), b\<lparr>eb_pending_sinks := eb_pending_sinks b @ [sink]\<rparr>)))"

definition pending_terminal_winner ::
  "instant \<Rightarrow> execution_budget \<Rightarrow> ((execution_winner option \<times> bool) \<times> execution_budget) option" where
  "pending_terminal_winner now b =
     (case eb_settlement b of
        Some s \<Rightarrow> Some ((Some (es_winner s), False), b)
      | None \<Rightarrow>
          (if deadline_is_due b now then
             map_option (\<lambda>(s, b'). ((Some (es_winner s), True), b')) (freeze WonDeadlineExceeded now b)
           else Some ((None, False), b)))"

definition complete_pending_sinks ::
  "execution_winner \<Rightarrow> execution_budget \<Rightarrow> (string \<times> execution_winner) list \<times> execution_budget" where
  "complete_pending_sinks winner b = (map (\<lambda>s. (s, winner)) (eb_pending_sinks b), b\<lparr>eb_pending_sinks := []\<rparr>)"

definition poll_locked :: "instant \<Rightarrow> execution_budget \<Rightarrow> ((vm_budget_closed + instant) \<times> execution_budget) option" where
  "poll_locked now b =
     (case eb_settlement b of
        Some s \<Rightarrow> Some (Inl (already_closed s), b)
      | None \<Rightarrow>
          (let next_poll = checked_add_u64 (eb_poll_count b) 1;
               polled = (\<lambda>n. b\<lparr>eb_poll_count := n, eb_last_polled_raw_count := Some (eb_raw_executed_count b)\<rparr>)
           in if deadline_is_due b now then
                map_option (\<lambda>(_, b'). (Inl ClosedDeadlineExceeded, b'))
                  (freeze WonDeadlineExceeded now (case next_poll of Some n \<Rightarrow> polled n | None \<Rightarrow> b))
              else case next_poll of
                None \<Rightarrow> map_option (\<lambda>(_, b'). (Inl ClosedAccountingFailure, b')) (freeze WonAccountingFailure now b)
              | Some n \<Rightarrow> Some (Inr now, polled n)))"

definition freeze_accounting_after_deadline_check ::
  "instant \<Rightarrow> execution_budget \<Rightarrow> (vm_budget_closed \<times> execution_budget) option" where
  "freeze_accounting_after_deadline_check now b =
     (if deadline_is_due b now
      then map_option (\<lambda>(_, b'). (ClosedDeadlineExceeded, b')) (freeze WonDeadlineExceeded now b)
      else map_option (\<lambda>(_, b'). (ClosedAccountingFailure, b')) (freeze WonAccountingFailure now b))"

text \<open>The charge of one raw instruction; \<open>later\<close> is the second clock reading on counter overflow.\<close>

definition charge_raw :: "instant \<Rightarrow> execution_budget \<Rightarrow> ((vm_budget_closed + unit) \<times> execution_budget) option" where
  "charge_raw later b =
     (case checked_add_u64 (eb_raw_executed_count b) 1 of
        None \<Rightarrow> map_option (map_prod Inl id) (freeze_accounting_after_deadline_check later b)
      | Some next_raw \<Rightarrow> Some (Inr (), b\<lparr>eb_raw_executed_count := next_raw\<rparr>))"

definition before_dispatch ::
  "instant \<Rightarrow> instant \<Rightarrow> execution_budget \<Rightarrow> ((vm_budget_closed + unit) \<times> execution_budget) option" where
  "before_dispatch now later b =
     (case eb_settlement b of
        Some s \<Rightarrow> Some (Inl (already_closed s), b)
      | None \<Rightarrow>
          (if eb_raw_executed_count b \<ge> bp_hard_raw_limit (eb_policy b) then
             (case poll_locked now b of
                None \<Rightarrow> None
              | Some (Inl closed, b') \<Rightarrow> Some (Inl closed, b')
              | Some (Inr at, b') \<Rightarrow>
                  (case freeze WonInstructionLimitExceeded at b' of
                     None \<Rightarrow> None
                   | Some (s, b'') \<Rightarrow>
                       if es_raw_executed_count s \<noteq> bp_hard_raw_limit (eb_policy b) then None
                       else Some (Inl ClosedInstructionLimitExceeded, b'')))
           else if eb_raw_executed_count b mod bp_raw_poll_interval (eb_policy b) = 0 \<and>
                   eb_last_polled_raw_count b \<noteq> Some (eb_raw_executed_count b) then
             (case poll_locked now b of
                None \<Rightarrow> None
              | Some (Inl closed, b') \<Rightarrow> Some (Inl closed, b')
              | Some (Inr _, b') \<Rightarrow> charge_raw later b')
           else charge_raw later b))"

definition poll_interrupt :: "instant \<Rightarrow> execution_budget \<Rightarrow> ((vm_budget_closed + unit) \<times> execution_budget) option" where
  "poll_interrupt now b = map_option (map_prod (map_sum id (\<lambda>_. ())) id) (poll_locked now b)"

definition charge_semantic_unit :: "instant \<Rightarrow> execution_budget \<Rightarrow> ((vm_budget_closed + unit) \<times> execution_budget) option" where
  "charge_semantic_unit now b =
     (case eb_settlement b of
        Some s \<Rightarrow> Some (Inl (already_closed s), b)
      | None \<Rightarrow>
          (case checked_add_u64 (eb_semantic_charge_count b) 1 of
             None \<Rightarrow> map_option (map_prod Inl id) (freeze_accounting_after_deadline_check now b)
           | Some n \<Rightarrow> Some (Inr (), b\<lparr>eb_semantic_charge_count := n\<rparr>)))"

record execution_stats =
  st_instruction_count :: u64
  st_budget_limit :: "u64 option"
  st_poll_count :: u64
  st_elapsed_ns :: nat
  st_budget_exceeded :: bool
  st_budget_reason :: "execution_budget_reason option"

text \<open>The elapsed time is kept in nanoseconds; the source prints it as a floating-point number of
  milliseconds.\<close>

definition stats_snapshot :: "instant \<Rightarrow> execution_budget \<Rightarrow> execution_stats" where
  "stats_snapshot now b =
     (let winner = map_option es_winner (eb_settlement b) in
      \<lparr>st_instruction_count = eb_raw_executed_count b, st_budget_limit = Some (bp_hard_raw_limit (eb_policy b)),
       st_poll_count = eb_poll_count b,
       st_elapsed_ns = (case eb_settlement b of Some s \<Rightarrow> es_finished_at s | None \<Rightarrow> now) - eb_started_at b,
       st_budget_exceeded = (winner \<in> {Some WonDeadlineExceeded, Some WonInstructionLimitExceeded}),
       st_budget_reason = (case winner of None \<Rightarrow> None | Some w \<Rightarrow> budget_reason w)\<rparr>)"

section \<open>The dispatch port\<close>

text \<open>A sequence of dispatch attempts, one per clock reading, counting the authorized ones.\<close>

primrec dispatch_all :: "('c \<Rightarrow> 's \<Rightarrow> (('e + unit) \<times> 's) option) \<Rightarrow> 'c list \<Rightarrow> 's \<Rightarrow> (nat \<times> 's) option" where
  "dispatch_all dispatch [] s = Some (0, s)"
| "dispatch_all dispatch (c # cs) s =
     (case dispatch c s of
        None \<Rightarrow> None
      | Some (Inl _, s') \<Rightarrow> dispatch_all dispatch cs s'
      | Some (Inr _, s') \<Rightarrow> map_option (map_prod Suc id) (dispatch_all dispatch cs s'))"

text \<open>The promise of \<open>VmBudget\<close> to the dispatch loop: an attempt never fails abnormally, an authorized
  one is charged exactly once, the charges stay within a fixed limit and a closed budget stays
  closed.\<close>

locale vm_budget_port =
  fixes dispatch :: "'c \<Rightarrow> 's \<Rightarrow> (('e + unit) \<times> 's) option"
    and ok :: "'s \<Rightarrow> bool"
    and executed :: "'s \<Rightarrow> nat"
    and limit :: "'s \<Rightarrow> nat"
    and closed :: "'s \<Rightarrow> bool"
  assumes charge: "ok s \<Longrightarrow> \<exists>r s'. dispatch c s = Some (r, s') \<and> ok s' \<and> limit s' = limit s \<and>
      (case r of Inr _ \<Rightarrow> \<not> closed s \<and> executed s' = Suc (executed s)
       | Inl _ \<Rightarrow> closed s' \<and> executed s' = executed s)"
    and within: "ok s \<Longrightarrow> executed s \<le> limit s"
begin

lemma dispatch_all_exact:
  "ok s \<Longrightarrow> \<exists>n s'. dispatch_all dispatch cs s = Some (n, s') \<and> ok s' \<and> limit s' = limit s \<and>
     executed s' = executed s + n \<and> (closed s \<longrightarrow> n = 0) \<and> (n < length cs \<longrightarrow> closed s' \<or> cs = [])"
proof (induction cs arbitrary: s)
  case (Cons c cs)
  from charge [OF Cons.prems, of c] obtain r s1 where r: "dispatch c s = Some (r, s1)" "ok s1" "limit s1 = limit s"
      "case r of Inr _ \<Rightarrow> \<not> closed s \<and> executed s1 = Suc (executed s) | Inl _ \<Rightarrow> closed s1 \<and> executed s1 = executed s"
    by blast
  from Cons.IH [OF r(2)] obtain n s2 where n: "dispatch_all dispatch cs s1 = Some (n, s2)" "ok s2" "limit s2 = limit s1"
      "executed s2 = executed s1 + n" "closed s1 \<longrightarrow> n = 0" "n < length cs \<longrightarrow> closed s2 \<or> cs = []" by blast
  show ?case
  proof (cases r)
    case (Inl e)
    with r have "closed s1" by simp
    moreover from this n have "closed s2 \<or> cs = []" by (cases cs) auto
    moreover have "cs = [] \<Longrightarrow> s2 = s1" using n(1) by simp
    ultimately show ?thesis using r n Inl by auto
  next
    case (Inr u)
    with r n show ?thesis by auto
  qed
qed simp

lemma dispatches_bounded:
  assumes "ok s"
  shows "\<exists>n s'. dispatch_all dispatch cs s = Some (n, s') \<and> n + executed s \<le> limit s"
  using dispatch_all_exact [OF assms, of cs] within by fastforce

end

section \<open>The budget as a shared object\<close>

text \<open>The completions in flight (a winner selected, its sinks not yet taken), the log of sink calls, the
  accepted registrations and the number of authorized dispatches.\<close>

record budget_world =
  bw_budget :: execution_budget
  bw_completions :: "execution_winner list"
  bw_notified :: "(string \<times> execution_winner) list"
  bw_registered :: "string list"
  bw_dispatched :: nat

definition budget_world_new :: "execution_budget_policy \<Rightarrow> instant option \<Rightarrow> instant \<Rightarrow> budget_world" where
  "budget_world_new policy deadline now = \<lparr>bw_budget = budget_new policy deadline now, bw_completions = [],
     bw_notified = [], bw_registered = [], bw_dispatched = 0\<rparr>"

datatype budget_op =
    BudgetAttach
  | BudgetSettle completion_candidate instant
  | BudgetCancel instant
  | BudgetStop instant
  | BudgetRegister string instant
  | BudgetPending instant
  | BudgetComplete
  | BudgetDispatch instant instant
  | BudgetPoll instant
  | BudgetCharge instant

definition settled_by ::
  "settlement_disposition \<times> execution_budget \<Rightarrow> budget_world \<Rightarrow> budget_world" where
  "settled_by r w =
     (case r of
        (DispWon s, b) \<Rightarrow> w\<lparr>bw_budget := b, bw_completions := bw_completions w @ [es_winner s]\<rparr>
      | (DispAlreadySettled s, b) \<Rightarrow> w\<lparr>bw_budget := b\<rparr>)"

definition pending_by ::
  "(execution_winner option \<times> bool) \<times> execution_budget \<Rightarrow> budget_world \<Rightarrow> budget_world" where
  "pending_by r w =
     (case r of
        ((Some winner, True), b) \<Rightarrow> w\<lparr>bw_budget := b, bw_completions := bw_completions w @ [winner]\<rparr>
      | (_, b) \<Rightarrow> w\<lparr>bw_budget := b\<rparr>)"

fun budget_exec :: "budget_op \<Rightarrow> budget_world \<Rightarrow> budget_world option" where
  "budget_exec BudgetAttach w = Some (w\<lparr>bw_budget := snd (attach_vm (bw_budget w))\<rparr>)"
| "budget_exec (BudgetSettle c now) w = map_option (\<lambda>r. settled_by r w) (budget_settle c now (bw_budget w))"
| "budget_exec (BudgetCancel now) w = map_option (\<lambda>r. settled_by r w) (request_cancel now (bw_budget w))"
| "budget_exec (BudgetStop now) w = map_option (\<lambda>r. settled_by r w) (request_internal_stop now (bw_budget w))"
| "budget_exec (BudgetRegister sink now) w =
     map_option (\<lambda>r.
       let w' = pending_by r w
       in if fst (fst r) = None then w'\<lparr>bw_registered := bw_registered w' @ [sink]\<rparr> else w')
       (register_pending_sink sink now (bw_budget w))"
| "budget_exec (BudgetPending now) w = map_option (\<lambda>r. pending_by r w) (pending_terminal_winner now (bw_budget w))"
| "budget_exec BudgetComplete w =
     (case bw_completions w of
        [] \<Rightarrow> Some w
      | winner # rest \<Rightarrow>
          (let (calls, b) = complete_pending_sinks winner (bw_budget w)
           in Some (w\<lparr>bw_budget := b, bw_completions := rest, bw_notified := bw_notified w @ calls\<rparr>)))"
| "budget_exec (BudgetDispatch now later) w =
     (case before_dispatch now later (bw_budget w) of
        None \<Rightarrow> None
      | Some (Inl _, b) \<Rightarrow> Some (w\<lparr>bw_budget := b\<rparr>)
      | Some (Inr _, b) \<Rightarrow> Some (w\<lparr>bw_budget := b, bw_dispatched := Suc (bw_dispatched w)\<rparr>))"
| "budget_exec (BudgetPoll now) w = map_option (\<lambda>(_, b). w\<lparr>bw_budget := b\<rparr>) (poll_interrupt now (bw_budget w))"
| "budget_exec (BudgetCharge now) w = map_option (\<lambda>(_, b). w\<lparr>bw_budget := b\<rparr>) (charge_semantic_unit now (bw_budget w))"

inductive budget_step :: "budget_world \<Rightarrow> budget_world \<Rightarrow> bool" where
  "budget_exec op w = Some w' \<Longrightarrow> budget_step w w'"

inductive_cases budget_stepE: "budget_step w w'"

section \<open>Counters\<close>

text \<open>A policy holds a 64-bit limit and a \<open>NonZeroU64\<close> interval.\<close>

definition policy_ok :: "execution_budget_policy \<Rightarrow> bool" where
  "policy_ok p \<longleftrightarrow> bp_hard_raw_limit p \<le> u64_max \<and> 0 < bp_raw_poll_interval p"

definition counters_ok :: "execution_budget \<Rightarrow> bool" where
  "counters_ok b \<longleftrightarrow> policy_ok (eb_policy b) \<and> eb_raw_executed_count b \<le> bp_hard_raw_limit (eb_policy b) \<and>
     (\<forall>n. eb_last_polled_raw_count b = Some n \<longrightarrow> n \<le> eb_raw_executed_count b) \<and>
     (\<forall>s. eb_settlement b = Some s \<longrightarrow> es_raw_executed_count s = eb_raw_executed_count b \<and>
        es_semantic_charge_count s = eb_semantic_charge_count b \<and> es_poll_count s = eb_poll_count b \<and>
        (es_winner s = WonInstructionLimitExceeded \<longrightarrow> eb_raw_executed_count b = bp_hard_raw_limit (eb_policy b)))"

lemma frozen_fields [simp]:
  "eb_policy (snd (frozen w t b)) = eb_policy b"
  "eb_deadline (snd (frozen w t b)) = eb_deadline b"
  "eb_raw_executed_count (snd (frozen w t b)) = eb_raw_executed_count b"
  "eb_semantic_charge_count (snd (frozen w t b)) = eb_semantic_charge_count b"
  "eb_poll_count (snd (frozen w t b)) = eb_poll_count b"
  "eb_last_polled_raw_count (snd (frozen w t b)) = eb_last_polled_raw_count b"
  "eb_pending_sinks (snd (frozen w t b)) = eb_pending_sinks b"
  "eb_settlement (snd (frozen w t b)) = Some (fst (frozen w t b))"
  "es_winner (fst (frozen w t b)) = w"
  "es_raw_executed_count (fst (frozen w t b)) = eb_raw_executed_count b"
  "es_semantic_charge_count (fst (frozen w t b)) = eb_semantic_charge_count b"
  "es_poll_count (fst (frozen w t b)) = eb_poll_count b"
  by (simp_all add: frozen_def Let_def)

lemma freeze_open [simp]: "eb_settlement b = None \<Longrightarrow> freeze w t b = Some (frozen w t b)"
  by (simp add: freeze_def)

lemma counters_new: "policy_ok p \<Longrightarrow> counters_ok (budget_new p d t)"
  by (simp add: counters_ok_def budget_new_def)

lemma counters_frozen:
  assumes "counters_ok b" and "w = WonInstructionLimitExceeded \<Longrightarrow> eb_raw_executed_count b = bp_hard_raw_limit (eb_policy b)"
  shows "counters_ok (snd (frozen w t b))"
  using assms by (simp add: counters_ok_def)

lemma deadline_due_cong: "eb_deadline b' = eb_deadline b \<Longrightarrow> deadline_is_due b' t = deadline_is_due b t"
  by (simp add: deadline_is_due_def)

text \<open>What one poll does: it leaves the counters of executed work alone and either records itself or closes
  the budget.\<close>

lemma poll_locked_cases:
  assumes "poll_locked now b = Some (r, b')"
  obtains (settled) s where "eb_settlement b = Some s" "r = Inl (already_closed s)" "b' = b"
    | (due) n where "eb_settlement b = None" "deadline_is_due b now" "r = Inl ClosedDeadlineExceeded"
        "b' = snd (frozen WonDeadlineExceeded now (b\<lparr>eb_poll_count := n, eb_last_polled_raw_count := Some (eb_raw_executed_count b)\<rparr>))
         \<or> b' = snd (frozen WonDeadlineExceeded now b)"
    | (overflow) "eb_settlement b = None" "\<not> deadline_is_due b now" "r = Inl ClosedAccountingFailure"
        "b' = snd (frozen WonAccountingFailure now b)"
    | (polled) n where "eb_settlement b = None" "\<not> deadline_is_due b now" "r = Inr now"
        "b' = b\<lparr>eb_poll_count := n, eb_last_polled_raw_count := Some (eb_raw_executed_count b)\<rparr>"
  using assms by (auto simp: poll_locked_def Let_def split_def split: option.splits if_splits intro: that)

lemma poll_locked_returns: "\<exists>r b'. poll_locked now b = Some (r, b')"
  by (auto simp: poll_locked_def Let_def split_def split: option.splits)

lemma poll_locked_ok:
  assumes "counters_ok b" and "poll_locked now b = Some (r, b')"
  shows "counters_ok b' \<and> eb_raw_executed_count b' = eb_raw_executed_count b \<and> eb_policy b' = eb_policy b \<and>
    eb_deadline b' = eb_deadline b \<and> eb_pending_sinks b' = eb_pending_sinks b \<and>
    (case r of Inr _ \<Rightarrow> eb_settlement b' = None \<and> eb_settlement b = None | Inl _ \<Rightarrow> eb_settlement b' \<noteq> None)"
  using assms(2)
proof (cases rule: poll_locked_cases)
  case settled
  with assms show ?thesis by simp
next
  case (due n)
  have "counters_ok (b\<lparr>eb_poll_count := n, eb_last_polled_raw_count := Some (eb_raw_executed_count b)\<rparr>)"
    using assms(1) due(1) by (simp add: counters_ok_def)
  with due(3,4) assms(1) show ?thesis by (auto intro: counters_frozen)
next
  case overflow
  with assms(1) show ?thesis by (auto intro: counters_frozen)
next
  case (polled n)
  with assms(1) show ?thesis by (simp add: counters_ok_def)
qed

lemma charge_raw_below:
  assumes "counters_ok b" and "eb_raw_executed_count b < bp_hard_raw_limit (eb_policy b)"
  shows "charge_raw t b = Some (Inr (), b\<lparr>eb_raw_executed_count := Suc (eb_raw_executed_count b)\<rparr>)"
  using assms by (auto simp: charge_raw_def checked_add_u64_def counters_ok_def policy_ok_def)

lemma counters_charge:
  assumes "counters_ok b" and "eb_settlement b = None" and "eb_raw_executed_count b < bp_hard_raw_limit (eb_policy b)"
  shows "counters_ok (b\<lparr>eb_raw_executed_count := Suc (eb_raw_executed_count b)\<rparr>)"
  using assms by (auto simp: counters_ok_def)

text \<open>The four ways a dispatch attempt ends in a consistent budget; the overflow branch of the raw counter
  and the assertion on the limit never fire.\<close>

lemma before_dispatch_cases:
  assumes "counters_ok b"
  obtains (settled) s where "eb_settlement b = Some s" "before_dispatch now later b = Some (Inl (already_closed s), b)"
    | (stopped) closed b' where "eb_settlement b = None" "before_dispatch now later b = Some (Inl closed, b')"
        "eb_settlement b' \<noteq> None" "counters_ok b'" "eb_policy b' = eb_policy b" "eb_deadline b' = eb_deadline b"
        "eb_pending_sinks b' = eb_pending_sinks b" "eb_raw_executed_count b' = eb_raw_executed_count b"
    | (granted) b' where "eb_settlement b = None" "before_dispatch now later b = Some (Inr (), b')"
        "eb_settlement b' = None" "counters_ok b'" "eb_policy b' = eb_policy b" "eb_deadline b' = eb_deadline b"
        "eb_pending_sinks b' = eb_pending_sinks b" "eb_raw_executed_count b' = Suc (eb_raw_executed_count b)"
        "eb_raw_executed_count b mod bp_raw_poll_interval (eb_policy b) = 0 \<Longrightarrow>
           eb_last_polled_raw_count b = Some (eb_raw_executed_count b) \<or> \<not> deadline_is_due b now"
        "eb_last_polled_raw_count b' = eb_last_polled_raw_count b \<or>
           eb_last_polled_raw_count b' = Some (eb_raw_executed_count b)"
proof (cases "eb_settlement b")
  case (Some s)
  then show ?thesis using settled by (simp add: before_dispatch_def)
next
  case None
  obtain r b1 where p: "poll_locked now b = Some (r, b1)" using poll_locked_returns by blast
  note ok1 = poll_locked_ok [OF assms p]
  consider (limit) "eb_raw_executed_count b \<ge> bp_hard_raw_limit (eb_policy b)"
    | (poll) "eb_raw_executed_count b < bp_hard_raw_limit (eb_policy b)"
        "eb_raw_executed_count b mod bp_raw_poll_interval (eb_policy b) = 0"
        "eb_last_polled_raw_count b \<noteq> Some (eb_raw_executed_count b)"
    | (plain) "eb_raw_executed_count b < bp_hard_raw_limit (eb_policy b)"
        "\<not> (eb_raw_executed_count b mod bp_raw_poll_interval (eb_policy b) = 0 \<and>
            eb_last_polled_raw_count b \<noteq> Some (eb_raw_executed_count b))"
    by linarith
  then show ?thesis
  proof cases
    case limit
    with assms have eq: "eb_raw_executed_count b = bp_hard_raw_limit (eb_policy b)" by (simp add: counters_ok_def)
    show ?thesis
    proof (cases r)
      case (Inl c)
      show ?thesis by (rule stopped [OF None, of c b1]) (use None limit p Inl ok1 in \<open>simp_all add: before_dispatch_def\<close>)
    next
      case (Inr at)
      show ?thesis
        by (rule stopped [OF None, of ClosedInstructionLimitExceeded "snd (frozen WonInstructionLimitExceeded at b1)"])
           (use None limit p Inr ok1 eq in \<open>simp_all add: before_dispatch_def split_def counters_frozen\<close>)
    qed
  next
    case poll
    show ?thesis
    proof (cases r)
      case (Inl c)
      show ?thesis by (rule stopped [OF None, of c b1]) (use None poll p Inl ok1 in \<open>simp_all add: before_dispatch_def\<close>)
    next
      case (Inr at)
      from p obtain n where n: "b1 = b\<lparr>eb_poll_count := n, eb_last_polled_raw_count := Some (eb_raw_executed_count b)\<rparr>"
          "\<not> deadline_is_due b now"
        by (cases rule: poll_locked_cases) (use Inr in auto)
      have b1: "counters_ok b1" "eb_raw_executed_count b1 = eb_raw_executed_count b" "eb_policy b1 = eb_policy b"
          "eb_deadline b1 = eb_deadline b" "eb_pending_sinks b1 = eb_pending_sinks b" "eb_settlement b1 = None"
          "eb_last_polled_raw_count b1 = Some (eb_raw_executed_count b)"
        using ok1 Inr n(1) by simp_all
      have lt: "eb_raw_executed_count b1 < bp_hard_raw_limit (eb_policy b1)" using b1 poll by simp
      have run: "before_dispatch now later b = charge_raw later b1"
        using None poll p Inr by (simp add: before_dispatch_def)
      let ?b' = "b1\<lparr>eb_raw_executed_count := Suc (eb_raw_executed_count b1)\<rparr>"
      have run': "before_dispatch now later b = Some (Inr (), ?b')" using run charge_raw_below [OF b1(1) lt] by simp
      have ok': "counters_ok ?b'" by (rule counters_charge [OF b1(1,6) lt])
      show ?thesis
        by (rule granted [OF None run' _ ok'])
           (simp_all add: b1(2-7) n(2))
    qed
  next
    case plain
    show ?thesis
      by (rule granted [OF None, of "b\<lparr>eb_raw_executed_count := Suc (eb_raw_executed_count b)\<rparr>"])
         (use None plain assms counters_charge [of b] charge_raw_below [of b] in \<open>auto simp: before_dispatch_def\<close>)
  qed
qed

abbreviation dispatch_at :: "instant \<times> instant \<Rightarrow> execution_budget \<Rightarrow> ((vm_budget_closed + unit) \<times> execution_budget) option" where
  "dispatch_at t b \<equiv> before_dispatch (fst t) (snd t) b"

interpretation port: vm_budget_port dispatch_at counters_ok eb_raw_executed_count
  "\<lambda>b. bp_hard_raw_limit (eb_policy b)" "\<lambda>b. eb_settlement b \<noteq> None"
proof (unfold_locales, goal_cases)
  case (1 b t)
  then show ?case
  proof (cases rule: before_dispatch_cases [of b "fst t" "snd t"])
    case (settled s)
    with 1 show ?thesis by simp
  next
    case (stopped c b')
    then show ?thesis by simp
  next
    case (granted b')
    then show ?thesis by simp
  qed
next
  case (2 b)
  then show ?case by (simp add: counters_ok_def)
qed

section \<open>Invariant of the shared budget\<close>

definition sinks_ok :: "budget_world \<Rightarrow> bool" where
  "sinks_ok w \<longleftrightarrow> bw_registered w = map fst (bw_notified w) @ eb_pending_sinks (bw_budget w) \<and>
     (case eb_settlement (bw_budget w) of
        None \<Rightarrow> bw_completions w = [] \<and> bw_notified w = []
      | Some s \<Rightarrow> length (bw_completions w) \<le> 1 \<and> (\<forall>v \<in> set (bw_completions w). v = es_winner s) \<and>
          (\<forall>(k, v) \<in> set (bw_notified w). v = es_winner s) \<and>
          (bw_notified w = [] \<or> bw_completions w = []))"

definition budget_inv :: "budget_world \<Rightarrow> bool" where
  "budget_inv w \<longleftrightarrow> counters_ok (bw_budget w) \<and> sinks_ok w \<and>
     bw_dispatched w = eb_raw_executed_count (bw_budget w)"

lemma budget_inv_new: "policy_ok p \<Longrightarrow> budget_inv (budget_world_new p d t)"
  using counters_new [of p d t]
  by (simp add: budget_inv_def budget_world_new_def sinks_ok_def) (simp add: budget_new_def)

text \<open>The ways an operation moves the budget: it leaves the settlement and the sinks alone; it closes an
  open budget by the VM, without a completion; it closes it with a completion to follow; it takes
  a registration; or it runs a completion.\<close>

inductive budget_move :: "budget_world \<Rightarrow> budget_world \<Rightarrow> bool" where
  work: "\<lbrakk>counters_ok b; eb_settlement b = eb_settlement (bw_budget w); eb_policy b = eb_policy (bw_budget w);
      eb_pending_sinks b = eb_pending_sinks (bw_budget w);
      eb_settlement b \<noteq> None \<Longrightarrow> b = bw_budget w \<and> n = bw_dispatched w;
      n + eb_raw_executed_count (bw_budget w) = bw_dispatched w + eb_raw_executed_count b\<rbrakk>
     \<Longrightarrow> budget_move w (w\<lparr>bw_budget := b, bw_dispatched := n\<rparr>)"
| vm_close: "\<lbrakk>counters_ok b; eb_settlement (bw_budget w) = None; eb_settlement b \<noteq> None; eb_policy b = eb_policy (bw_budget w);
      eb_pending_sinks b = eb_pending_sinks (bw_budget w);
      eb_raw_executed_count b = eb_raw_executed_count (bw_budget w)\<rbrakk>
     \<Longrightarrow> budget_move w (w\<lparr>bw_budget := b\<rparr>)"
| close: "\<lbrakk>eb_settlement (bw_budget w) = None; v \<noteq> WonInstructionLimitExceeded\<rbrakk>
     \<Longrightarrow> budget_move w (w\<lparr>bw_budget := snd (frozen v t (bw_budget w)), bw_completions := bw_completions w @ [v]\<rparr>)"
| register: "eb_settlement (bw_budget w) = None
     \<Longrightarrow> budget_move w (w\<lparr>bw_budget := (bw_budget w)\<lparr>eb_pending_sinks := eb_pending_sinks (bw_budget w) @ [k]\<rparr>,
           bw_registered := bw_registered w @ [k]\<rparr>)"
| complete: "bw_completions w = v # vs
     \<Longrightarrow> budget_move w (w\<lparr>bw_budget := (bw_budget w)\<lparr>eb_pending_sinks := []\<rparr>, bw_completions := vs,
           bw_notified := bw_notified w @ map (\<lambda>k. (k, v)) (eb_pending_sinks (bw_budget w))\<rparr>)"

lemma counters_sinks: "counters_ok (b\<lparr>eb_pending_sinks := ks\<rparr>) = counters_ok b"
  by (simp add: counters_ok_def)

lemma budget_move_inv:
  assumes "budget_move w w'" and "budget_inv w"
  shows "budget_inv w'"
  using assms
proof (cases rule: budget_move.cases)
  case (work b n)
  with assms(2) show ?thesis
    by (auto simp: budget_inv_def sinks_ok_def split: option.splits)
next
  case (vm_close b)
  with assms(2) show ?thesis by (auto simp: budget_inv_def sinks_ok_def)
next
  case (close v t)
  with assms(2) counters_frozen [of "bw_budget w" v t] show ?thesis by (auto simp: budget_inv_def sinks_ok_def)
next
  case (register k)
  with assms(2) show ?thesis by (auto simp: budget_inv_def sinks_ok_def counters_sinks)
next
  case (complete v vs)
  then obtain s where s: "eb_settlement (bw_budget w) = Some s" "v = es_winner s" "vs = []" "bw_notified w = []"
    using assms(2) by (auto simp: budget_inv_def sinks_ok_def split: option.splits)
  have "counters_ok (bw_budget w\<lparr>eb_pending_sinks := []\<rparr>)" using assms(2) by (simp add: budget_inv_def counters_sinks)
  moreover have "bw_registered w = eb_pending_sinks (bw_budget w)"
    "bw_dispatched w = eb_raw_executed_count (bw_budget w)"
    using assms(2) s(4) by (simp_all add: budget_inv_def sinks_ok_def)
  ultimately show ?thesis unfolding complete(1)
    using s by (simp add: budget_inv_def sinks_ok_def comp_def)
qed

lemma budget_move_refl:
  assumes "budget_inv w"
  shows "budget_move w w"
proof -
  have "counters_ok (bw_budget w)" using assms by (simp add: budget_inv_def)
  then show ?thesis using budget_move.work [of "bw_budget w" w "bw_dispatched w"] by simp
qed

lemma budget_move_work:
  assumes "budget_inv w" and "counters_ok b" and "eb_settlement b = None" and "eb_settlement (bw_budget w) = None"
    and "eb_policy b = eb_policy (bw_budget w)" and "eb_pending_sinks b = eb_pending_sinks (bw_budget w)"
    and "eb_raw_executed_count b = eb_raw_executed_count (bw_budget w)"
  shows "budget_move w (w\<lparr>bw_budget := b\<rparr>)"
  using budget_move.work [of b w "bw_dispatched w"] assms by simp

lemma settled_move:
  assumes "budget_inv w" and "v \<noteq> WonInstructionLimitExceeded"
  shows "\<exists>w'. map_option (\<lambda>r. settled_by r w) (settle_requested v now (bw_budget w)) = Some w' \<and> budget_move w w'"
proof (cases "eb_settlement (bw_budget w)")
  case None
  let ?v = "if deadline_is_due (bw_budget w) now then WonDeadlineExceeded else v"
  have "map_option (\<lambda>r. settled_by r w) (settle_requested v now (bw_budget w)) =
      Some (w\<lparr>bw_budget := snd (frozen ?v now (bw_budget w)), bw_completions := bw_completions w @ [?v]\<rparr>)"
    using None by (simp add: settle_requested_def settled_by_def map_prod_def split_def)
  with None assms(2) budget_move.close [of w ?v now] show ?thesis by auto
next
  case (Some s)
  with assms(1) show ?thesis by (simp add: settle_requested_def settled_by_def budget_move_refl)
qed

lemma pending_move:
  assumes "budget_inv w"
  shows "\<exists>w'. budget_exec (BudgetPending now) w = Some w' \<and> budget_move w w'"
  using assms budget_move.close [of w WonDeadlineExceeded now] budget_move_refl [OF assms]
  by (auto simp: pending_terminal_winner_def pending_by_def split_def Let_def split: option.split)

lemma register_move:
  assumes "budget_inv w"
  shows "\<exists>w'. budget_exec (BudgetRegister k now) w = Some w' \<and> budget_move w w'"
  using assms budget_move.close [of w WonDeadlineExceeded now] budget_move_refl [OF assms(1)] budget_move.register [of w k]
  by (cases "eb_settlement (bw_budget w)") (auto simp: register_pending_sink_def pending_by_def split_def Let_def)

lemma poll_move:
  assumes "budget_inv w"
  shows "\<exists>w'. budget_exec (BudgetPoll now) w = Some w' \<and> budget_move w w'"
proof -
  have ok: "counters_ok (bw_budget w)" using assms by (simp add: budget_inv_def)
  obtain r b where p: "poll_locked now (bw_budget w) = Some (r, b)" using poll_locked_returns by blast
  then have eq: "budget_exec (BudgetPoll now) w = Some (w\<lparr>bw_budget := b\<rparr>)" by (simp add: poll_interrupt_def)
  note f = poll_locked_ok [OF ok p]
  show ?thesis
  proof (cases "eb_settlement (bw_budget w)")
    case (Some s)
    then have "b = bw_budget w" using p by (simp add: poll_locked_def)
    with budget_move_refl [OF assms] eq show ?thesis by (auto simp del: budget_exec.simps)
  next
    case None
    with f eq budget_move_work [OF assms, of b] budget_move.vm_close [of b w] show ?thesis
      by (cases r) auto
  qed
qed

lemma charge_move:
  assumes "budget_inv w"
  shows "\<exists>w'. budget_exec (BudgetCharge now) w = Some w' \<and> budget_move w w'"
proof (cases "eb_settlement (bw_budget w)")
  case (Some s)
  with budget_move_refl [OF assms] show ?thesis by (simp add: charge_semantic_unit_def)
next
  case None
  have ok: "counters_ok (bw_budget w)" using assms by (simp add: budget_inv_def)
  let ?f = "\<lambda>v. snd (frozen v now (bw_budget w))"
  have "budget_move w (w\<lparr>bw_budget := ?f v\<rparr>)" if "v \<noteq> WonInstructionLimitExceeded" for v
    by (rule budget_move.vm_close [OF counters_frozen [OF ok]]) (use None that in simp_all)
  moreover have "budget_move w (w\<lparr>bw_budget := (bw_budget w)\<lparr>eb_semantic_charge_count := n\<rparr>\<rparr>)" for n
    by (rule budget_move_work [OF assms]) (use None ok in \<open>simp_all add: counters_ok_def\<close>)
  ultimately show ?thesis using None
    by (simp add: charge_semantic_unit_def freeze_accounting_after_deadline_check_def split_def split: option.split)
qed

lemma dispatch_move:
  assumes "budget_inv w"
  shows "\<exists>w'. budget_exec (BudgetDispatch now later) w = Some w' \<and> budget_move w w'"
proof -
  have ok: "counters_ok (bw_budget w)" using assms by (simp add: budget_inv_def)
  then show ?thesis
  proof (cases rule: before_dispatch_cases [of "bw_budget w" now later])
    case (settled s)
    with budget_move_refl [OF assms] show ?thesis by simp
  next
    case (stopped c b)
    with budget_move.vm_close [of b w] show ?thesis by simp
  next
    case (granted b)
    with budget_move.work [of b w "Suc (bw_dispatched w)"] show ?thesis by simp
  qed
qed

lemma attach_move:
  assumes "budget_inv w"
  shows "budget_move w (w\<lparr>bw_budget := snd (attach_vm (bw_budget w))\<rparr>)"
proof (cases "eb_settlement (bw_budget w)")
  case None
  have "counters_ok (bw_budget w)" using assms by (simp add: budget_inv_def)
  then have "budget_move w (w\<lparr>bw_budget := (bw_budget w)\<lparr>eb_vm_adapter_attached := True\<rparr>\<rparr>)"
    by (intro budget_move_work [OF assms]) (use None in \<open>simp_all add: counters_ok_def\<close>)
  with budget_move_refl [OF assms] show ?thesis by (simp add: attach_vm_def)
qed (use budget_move_refl [OF assms] in \<open>simp add: attach_vm_def\<close>)

lemma complete_move:
  assumes "budget_inv w" and "budget_exec BudgetComplete w = Some w'"
  shows "budget_move w w'"
  using assms budget_move_refl budget_move.complete [of w]
  by (auto simp: complete_pending_sinks_def split: list.splits)

lemma budget_exec_move:
  assumes "budget_inv w"
  shows "\<exists>w'. budget_exec op w = Some w' \<and> budget_move w w'"
proof (cases op)
  case (BudgetSettle c now)
  have "candidate_winner c \<noteq> WonInstructionLimitExceeded" by (cases c) auto
  with BudgetSettle settled_move [OF assms] show ?thesis by (simp add: budget_settle_def)
next
  case BudgetComplete
  moreover obtain w' where "budget_exec BudgetComplete w = Some w'" by (cases "bw_completions w") (simp_all add: split_def Let_def)
  ultimately show ?thesis using complete_move [OF assms] by blast
qed (use assms settled_move pending_move register_move poll_move charge_move dispatch_move attach_move
      in \<open>auto simp: request_cancel_def request_internal_stop_def simp del: budget_exec.simps(5,6,8,9,10)\<close>)

lemma budget_run_inv: "budget_step\<^sup>*\<^sup>* w w' \<Longrightarrow> budget_inv w \<Longrightarrow> budget_inv w'"
proof (induction rule: rtranclp_induct)
  case (step t u)
  then obtain op where "budget_exec op t = Some u" by (auto elim: budget_stepE)
  then show ?case using step budget_exec_move [of t op] budget_move_inv by (metis option.inject)
qed simp

lemma budget_step_move: "budget_step t u \<Longrightarrow> budget_inv t \<Longrightarrow> budget_move t u"
  using budget_exec_move by (metis budget_stepE option.inject)

definition frozen_as :: "execution_budget \<Rightarrow> execution_budget \<Rightarrow> bool" where
  "frozen_as b b' \<longleftrightarrow> eb_settlement b' = eb_settlement b \<and> eb_raw_executed_count b' = eb_raw_executed_count b \<and>
     eb_semantic_charge_count b' = eb_semantic_charge_count b \<and> eb_poll_count b' = eb_poll_count b"

lemma frozen_as_trans: "frozen_as a b \<Longrightarrow> frozen_as b c \<Longrightarrow> frozen_as a c"
  by (simp add: frozen_as_def)

lemma settled_move_frozen:
  assumes "budget_move w w'" and "eb_settlement (bw_budget w) = Some s"
  shows "frozen_as (bw_budget w) (bw_budget w') \<and> (bw_completions w = [] \<longrightarrow> w' = w)"
  using assms(1)
proof (cases rule: budget_move.cases)
  case (work b n)
  have "eb_settlement b \<noteq> None" using work(3) assms(2) by simp
  from work(6) [OF this] show ?thesis using work(1) by (simp add: frozen_as_def)
qed (use assms(2) in \<open>simp_all add: frozen_as_def\<close>)

lemma settled_run_frozen:
  assumes "budget_step\<^sup>*\<^sup>* w w'" and "budget_inv w" and "eb_settlement (bw_budget w) = Some s"
  shows "frozen_as (bw_budget w) (bw_budget w') \<and> (bw_completions w = [] \<longrightarrow> w' = w)"
  using assms
proof (induction rule: rtranclp_induct)
  case (step t u)
  have t: "frozen_as (bw_budget w) (bw_budget t)" "bw_completions w = [] \<longrightarrow> t = w"
    using step.IH [OF step.prems] by blast+
  have "eb_settlement (bw_budget t) = Some s" using t(1) step.prems(2) by (simp add: frozen_as_def)
  note u = settled_move_frozen [OF budget_step_move [OF step.hyps(2) budget_run_inv [OF step.hyps(1) step.prems(1)]] this]
  show ?case
  proof
    show "frozen_as (bw_budget w) (bw_budget u)" using frozen_as_trans [OF t(1)] u by blast
    show "bw_completions w = [] \<longrightarrow> u = w" using t(2) u by blast
  qed
qed (simp add: frozen_as_def)

section \<open>Latency of the deadline\<close>

definition poll_slack :: "execution_budget \<Rightarrow> nat" where
  "poll_slack b =
     (let i = bp_raw_poll_interval (eb_policy b); raw = eb_raw_executed_count b in
      if raw mod i = 0 then (if eb_last_polled_raw_count b = Some raw then i else 0) else i - raw mod i)"

lemma poll_slack_step:
  assumes "counters_ok b" and "raw = eb_raw_executed_count b"
    and "raw mod bp_raw_poll_interval (eb_policy b) = 0 \<Longrightarrow> eb_last_polled_raw_count b = Some raw"
    and "eb_policy b' = eb_policy b" and "eb_raw_executed_count b' = Suc raw"
    and "eb_last_polled_raw_count b' = eb_last_polled_raw_count b \<or> eb_last_polled_raw_count b' = Some raw"
  shows "Suc (poll_slack b') \<le> poll_slack b"
proof -
  let ?i = "bp_raw_poll_interval (eb_policy b)"
  have i: "0 < ?i" using assms(1) by (simp add: counters_ok_def policy_ok_def)
  have "\<forall>n. eb_last_polled_raw_count b = Some n \<longrightarrow> n \<le> raw" using assms(1,2) by (simp add: counters_ok_def)
  with assms(6) have fresh: "eb_last_polled_raw_count b' \<noteq> Some (Suc raw)" by auto
  have lt: "raw mod ?i < ?i" using i by simp
  show ?thesis
  proof (cases "raw mod ?i = 0")
    case True
    with assms fresh i show ?thesis by (simp add: poll_slack_def Let_def mod_Suc)
  next
    case False
    with assms(2,4,5) fresh lt show ?thesis
      by (simp add: poll_slack_def Let_def mod_Suc) (intro conjI impI; linarith)
  qed
qed

lemma due_dispatches_slack:
  "counters_ok b \<Longrightarrow> eb_deadline b = Some d \<Longrightarrow> (\<forall>t \<in> set ts. d \<le> fst t) \<Longrightarrow>
   dispatch_all dispatch_at ts b = Some (n, b') \<Longrightarrow> n \<le> poll_slack b"
proof (induction ts arbitrary: b n)
  case (Cons t ts)
  have due: "deadline_is_due b (fst t)" using Cons.prems by (simp add: deadline_is_due_def)
  from Cons.prems(1) show ?case
  proof (cases rule: before_dispatch_cases [of b "fst t" "snd t"])
    case (settled s)
    then have "dispatch_all dispatch_at ts b = Some (n, b')" using Cons.prems(4) by simp
    with port.dispatch_all_exact [OF Cons.prems(1), of ts] settled(1) show ?thesis by auto
  next
    case (stopped c b1)
    then have "dispatch_all dispatch_at ts b1 = Some (n, b')" using Cons.prems(4) by simp
    with port.dispatch_all_exact [OF stopped(4), of ts] stopped(3) show ?thesis by auto
  next
    case (granted b1)
    then obtain m where m: "dispatch_all dispatch_at ts b1 = Some (m, b')" "n = Suc m"
      using Cons.prems(4) by auto
    have "m \<le> poll_slack b1"
      by (rule Cons.IH [OF granted(4) _ _ m(1)]) (use granted(6) Cons.prems in auto)
    moreover have "Suc (poll_slack b1) \<le> poll_slack b"
    proof (rule poll_slack_step [OF Cons.prems(1) refl _ granted(5,8,10)])
      assume "eb_raw_executed_count b mod bp_raw_poll_interval (eb_policy b) = 0"
      from granted(9) [OF this] due show "eb_last_polled_raw_count b = Some (eb_raw_executed_count b)" by simp
    qed
    ultimately show ?thesis using m(2) by simp
  qed
qed simp

lemma poll_slack_le: "counters_ok b \<Longrightarrow> poll_slack b \<le> bp_raw_poll_interval (eb_policy b)"
  by (simp add: poll_slack_def Let_def)

section \<open>Properties\<close>

text \<open>C22: A request has one winner. Once the budget is settled, at every later point the settlement and all
  counters are unchanged, every later settle or cancel reports that settlement as already made,
  every pending completion is told its winner and every dispatch attempt of the VM is refused with
  it.\<close>

theorem budget_single_winner:
  assumes "policy_ok p" and "budget_step\<^sup>*\<^sup>* (budget_world_new p d t) w"
    and "eb_settlement (bw_budget w) = Some s" and "budget_step\<^sup>*\<^sup>* w w'"
  shows "eb_settlement (bw_budget w') = Some s \<and>
    eb_raw_executed_count (bw_budget w') = es_raw_executed_count s \<and>
    eb_semantic_charge_count (bw_budget w') = es_semantic_charge_count s \<and> eb_poll_count (bw_budget w') = es_poll_count s \<and>
    settle_requested v now (bw_budget w') = Some (DispAlreadySettled s, bw_budget w') \<and>
    pending_terminal_winner now (bw_budget w') = Some ((Some (es_winner s), False), bw_budget w') \<and>
    register_pending_sink k now (bw_budget w') = Some ((Some (es_winner s), False), bw_budget w') \<and>
    before_dispatch now later (bw_budget w') =
      Some (Inl (ClosedAlreadySettled (vm_terminal (es_winner s))), bw_budget w')"
proof -
  have inv: "budget_inv w" using budget_run_inv [OF assms(2) budget_inv_new [OF assms(1)]] .
  note f = settled_run_frozen [OF assms(4) inv assms(3)]
  have st: "eb_settlement (bw_budget w') = Some s" using f assms(3) by (simp add: frozen_as_def)
  have "counters_ok (bw_budget w')" using budget_run_inv [OF assms(4) inv] by (simp add: budget_inv_def)
  with st have "eb_raw_executed_count (bw_budget w') = es_raw_executed_count s"
    "eb_semantic_charge_count (bw_budget w') = es_semantic_charge_count s" "eb_poll_count (bw_budget w') = es_poll_count s"
    by (simp_all add: counters_ok_def)
  with st show ?thesis
    by (simp add: settle_requested_def pending_terminal_winner_def register_pending_sink_def before_dispatch_def
        already_closed_def)
qed

text \<open>C23: The instruction limit is exact. However operations interleave, none panics (no assertion that a budget is
  frozen only once, or at the limit, can fail), the number of dispatches
  ever authorized is the raw counter and never exceeds the hard limit, any further sequence of
  attempts authorizes at most what is left of the limit, and a budget closed for the limit was
  closed at exactly the limit.\<close>

theorem budget_instruction_limit:
  assumes "policy_ok p" and "budget_step\<^sup>*\<^sup>* (budget_world_new p d t) w"
  shows "budget_exec op w \<noteq> None \<and> bw_dispatched w = eb_raw_executed_count (bw_budget w) \<and>
    (\<exists>n b. dispatch_all dispatch_at ts (bw_budget w) = Some (n, b) \<and>
       bw_dispatched w + n \<le> bp_hard_raw_limit (eb_policy (bw_budget w))) \<and>
    (\<forall>s. eb_settlement (bw_budget w) = Some s \<longrightarrow> es_winner s = WonInstructionLimitExceeded \<longrightarrow>
       es_raw_executed_count s = bp_hard_raw_limit (eb_policy (bw_budget w)))"
proof -
  have inv: "budget_inv w" using budget_run_inv [OF assms(2) budget_inv_new [OF assms(1)]] .
  then have ok: "counters_ok (bw_budget w)" and n: "bw_dispatched w = eb_raw_executed_count (bw_budget w)"
    by (simp_all add: budget_inv_def)
  have "budget_exec op w \<noteq> None" using budget_exec_move [OF inv, of op] by auto
  moreover have "\<exists>n b. dispatch_all dispatch_at ts (bw_budget w) = Some (n, b) \<and>
      bw_dispatched w + n \<le> bp_hard_raw_limit (eb_policy (bw_budget w))"
    using port.dispatches_bounded [OF ok, of ts] n by (auto simp: add.commute)
  moreover have "\<forall>s. eb_settlement (bw_budget w) = Some s \<longrightarrow> es_winner s = WonInstructionLimitExceeded \<longrightarrow>
      es_raw_executed_count s = bp_hard_raw_limit (eb_policy (bw_budget w))"
    using ok unfolding counters_ok_def by metis
  ultimately show ?thesis using n by blast
qed

text \<open>C24: A due deadline is seen within one poll interval: from any reachable state, once every clock reading
  is at or past the deadline, at most one interval's worth of further dispatches is authorized.\<close>

theorem deadline_within_one_interval:
  assumes "policy_ok p" and "budget_step\<^sup>*\<^sup>* (budget_world_new p d t) w"
    and "eb_deadline (bw_budget w) = Some due" and "\<forall>reading \<in> set ts. due \<le> fst reading"
    and "dispatch_all dispatch_at ts (bw_budget w) = Some (n, b)"
  shows "n \<le> bp_raw_poll_interval (eb_policy (bw_budget w))"
proof -
  have "counters_ok (bw_budget w)"
    using budget_run_inv [OF assms(2) budget_inv_new [OF assms(1)]] by (simp add: budget_inv_def)
  then show ?thesis using due_dispatches_slack [OF _ assms(3-5)] poll_slack_le by fastforce
qed

text \<open>Sink calls. Every sink call carries the winner, and every accepted registration is called at most
  once: the registrations are, in order, those already called followed by those still pending.
  When the winner was selected by a settle, a cancel, a stop or a registration that found the
  deadline due, the completion that follows calls all the pending ones.\<close>

theorem sinks_called_once:
  assumes "policy_ok p" and "budget_step\<^sup>*\<^sup>* (budget_world_new p d t) w"
  shows "bw_registered w = map fst (bw_notified w) @ eb_pending_sinks (bw_budget w) \<and>
    (\<forall>(k, v) \<in> set (bw_notified w). map_option es_winner (eb_settlement (bw_budget w)) = Some v) \<and>
    (bw_completions w \<noteq> [] \<longrightarrow>
       (\<exists>w'. budget_exec BudgetComplete w = Some w' \<and> eb_pending_sinks (bw_budget w') = [] \<and>
          map fst (bw_notified w') = bw_registered w'))"
proof -
  have ok: "sinks_ok w" using budget_run_inv [OF assms(2) budget_inv_new [OF assms(1)]] by (simp add: budget_inv_def)
  then have reg: "bw_registered w = map fst (bw_notified w) @ eb_pending_sinks (bw_budget w)" by (simp add: sinks_ok_def)
  have "\<forall>(k, v) \<in> set (bw_notified w). map_option es_winner (eb_settlement (bw_budget w)) = Some v"
    using ok by (cases "eb_settlement (bw_budget w)") (auto simp: sinks_ok_def)
  moreover have "\<exists>w'. budget_exec BudgetComplete w = Some w' \<and> eb_pending_sinks (bw_budget w') = [] \<and>
      map fst (bw_notified w') = bw_registered w'" if "bw_completions w \<noteq> []"
    using that reg by (cases "bw_completions w") (auto simp: complete_pending_sinks_def comp_def)
  ultimately show ?thesis using reg by blast
qed

text \<open>Sinks are lost when the VM closes the budget: if the winner was selected by a dispatch, a poll or a
  charge, no completion is in flight, and then no operation ever changes anything again, so the
  sinks registered at that point are never called.\<close>

theorem vm_closed_sinks_lost:
  assumes "policy_ok p" and "budget_step\<^sup>*\<^sup>* (budget_world_new p d t) w"
    and "eb_settlement (bw_budget w) = None"
    and "op = BudgetPoll now \<or> op = BudgetDispatch now later \<or> op = BudgetCharge now"
    and "budget_exec op w = Some w1" and "eb_settlement (bw_budget w1) \<noteq> None" and "budget_step\<^sup>*\<^sup>* w1 w'"
  shows "w' = w1 \<and> bw_notified w' = [] \<and> eb_pending_sinks (bw_budget w') = bw_registered w"
proof -
  have inv: "budget_inv w" using budget_run_inv [OF assms(2) budget_inv_new [OF assms(1)]] .
  have inv1: "budget_inv w1" using budget_run_inv [OF _ inv] assms(5) budget_step.intros by blast
  obtain s where s: "eb_settlement (bw_budget w1) = Some s" using assms(6) by blast
  have w: "bw_completions w = []" "bw_notified w = []"
    using inv assms(3) by (simp_all add: budget_inv_def sinks_ok_def)
  have w1: "bw_completions w1 = []" "bw_notified w1 = []" "bw_registered w1 = bw_registered w"
    using assms(4,5) w by (auto split: option.splits sum.splits)
  have "w' = w1" using settled_run_frozen [OF assms(7) inv1 s] w1(1) by simp
  moreover have "bw_registered w1 = map fst (bw_notified w1) @ eb_pending_sinks (bw_budget w1)"
    using inv1 by (simp add: budget_inv_def sinks_ok_def)
  ultimately show ?thesis using w1 by simp
qed

section \<open>Sample runs\<close>

definition demo_policy :: execution_budget_policy where
  "demo_policy = \<lparr>bp_hard_raw_limit = 3, bp_raw_poll_interval = 2\<rparr>"

definition demo_budget :: budget_world where
  "demo_budget = budget_world_new demo_policy (Some 100) 0"

definition demo_parked :: budget_world where
  "demo_parked = the (budget_exec (BudgetRegister ''cell'' 5) demo_budget)"

definition demo_cancelled :: budget_world where
  "demo_cancelled = the (budget_exec (BudgetCancel 6) demo_parked)"

definition demo_expired :: budget_world where
  "demo_expired = the (budget_exec (BudgetPoll 100) demo_parked)"

lemmas demo_defs = demo_policy_def demo_budget_def demo_parked_def demo_cancelled_def demo_expired_def
  budget_world_new_def budget_new_def

lemma demo_policy_ok: "policy_ok demo_policy"
  by (simp add: demo_policy_def policy_ok_def u64_max_def)

lemma budget_exec_step: "budget_inv w \<Longrightarrow> budget_step w (the (budget_exec op w))"
  using budget_exec_move [of w op] by (auto intro: budget_step.intros)

lemma demo_runs:
  shows "budget_step\<^sup>*\<^sup>* (budget_world_new demo_policy (Some 100) 0) demo_parked"
    and "budget_step\<^sup>*\<^sup>* (budget_world_new demo_policy (Some 100) 0) demo_cancelled"
proof -
  note inv = budget_inv_new [OF demo_policy_ok, of "Some 100" 0]
  show parked: "budget_step\<^sup>*\<^sup>* (budget_world_new demo_policy (Some 100) 0) demo_parked"
    unfolding demo_parked_def demo_budget_def by (rule r_into_rtranclp, rule budget_exec_step [OF inv])
  show "budget_step\<^sup>*\<^sup>* (budget_world_new demo_policy (Some 100) 0) demo_cancelled"
    unfolding demo_cancelled_def
    by (rule rtranclp.rtrancl_into_rtrancl [OF parked budget_exec_step [OF budget_run_inv [OF parked inv]]])
qed

lemma demo_cancelled_settled:
  "eb_settlement (bw_budget demo_cancelled) = Some \<lparr>es_winner = WonCancelled, es_raw_executed_count = 0,
     es_semantic_charge_count = 0, es_hard_raw_limit = 3, es_poll_count = 0, es_started_at = 0, es_finished_at = 6\<rparr>"
  by (simp add: demo_defs register_pending_sink_def pending_by_def request_cancel_def settle_requested_def settled_by_def
      freeze_def frozen_def deadline_is_due_def Let_def)

theorem budget_single_winner_witness:
  "before_dispatch 200 200 (bw_budget demo_cancelled) =
     Some (Inl (ClosedAlreadySettled TermCancelled), bw_budget demo_cancelled)"
  using budget_single_winner [OF demo_policy_ok demo_runs(2) demo_cancelled_settled rtranclp.rtrancl_refl, of _ 200 _ 200]
  by simp

theorem budget_instruction_limit_witness:
  "\<exists>n b. dispatch_all dispatch_at (replicate 5 (7, 7)) (bw_budget demo_parked) = Some (n, b) \<and> n \<le> 3"
  using budget_instruction_limit [OF demo_policy_ok demo_runs(1), of BudgetAttach "replicate 5 (7, 7)"]
  by (auto simp: demo_defs register_pending_sink_def pending_by_def deadline_is_due_def Let_def)

theorem deadline_within_one_interval_witness:
  "\<exists>n b. dispatch_all dispatch_at (replicate 5 (100, 100)) (bw_budget demo_parked) = Some (n, b) \<and> n \<le> 2"
proof -
  have ok: "counters_ok (bw_budget demo_parked)"
    using budget_run_inv [OF demo_runs(1) budget_inv_new [OF demo_policy_ok]] by (simp add: budget_inv_def)
  obtain n b where n: "dispatch_all dispatch_at (replicate 5 (100, 100)) (bw_budget demo_parked) = Some (n, b)"
    using port.dispatches_bounded [OF ok] by blast
  have "eb_deadline (bw_budget demo_parked) = Some 100" "bp_raw_poll_interval (eb_policy (bw_budget demo_parked)) = 2"
    by (simp_all add: demo_defs register_pending_sink_def pending_by_def deadline_is_due_def Let_def)
  with deadline_within_one_interval [OF demo_policy_ok demo_runs(1) _ _ n, of 100] n show ?thesis by auto
qed

theorem sinks_called_once_witness:
  "\<exists>w'. budget_exec BudgetComplete demo_cancelled = Some w' \<and> map fst (bw_notified w') = bw_registered w'"
  using sinks_called_once [OF demo_policy_ok demo_runs(2)]
  by (auto simp: demo_defs register_pending_sink_def pending_by_def request_cancel_def settle_requested_def settled_by_def
      freeze_def frozen_def deadline_is_due_def Let_def)

theorem vm_closed_sinks_lost_witness:
  "eb_settlement (bw_budget demo_expired) \<noteq> None \<and> eb_pending_sinks (bw_budget demo_expired) = [''cell'']"
proof -
  have p: "bw_budget demo_parked = (budget_new demo_policy (Some 100) 0)\<lparr>eb_pending_sinks := [''cell'']\<rparr>"
    "bw_registered demo_parked = [''cell'']"
    by (simp_all add: demo_parked_def demo_budget_def budget_world_new_def register_pending_sink_def pending_by_def
        deadline_is_due_def Let_def budget_new_def)
  have e: "eb_settlement (bw_budget demo_expired) \<noteq> None"
    by (simp add: demo_expired_def p poll_interrupt_def poll_locked_def deadline_is_due_def budget_new_def Let_def
        frozen_def checked_add_u64_def u64_max_def)
  have run: "budget_exec (BudgetPoll 100) demo_parked = Some demo_expired"
    using budget_exec_move [OF budget_run_inv [OF demo_runs(1) budget_inv_new [OF demo_policy_ok]], of "BudgetPoll 100"]
    by (auto simp: demo_expired_def simp del: budget_exec.simps)
  have "eb_settlement (bw_budget demo_parked) = None" by (simp add: p budget_new_def)
  from vm_closed_sinks_lost [OF demo_policy_ok demo_runs(1) this _ run e rtranclp.rtrancl_refl, of 100]
  show ?thesis using e p by simp
qed

end
