(* ===== verification/Owner_Inventory.thy ===== *)
theory Owner_Inventory
  imports Skiff_Prelude
begin

text \<open>
  The owner inventory of one request execution (\<open>runtime/scheduler/src/owner_inventory.rs\<close>): six
  counters of live owners, one per domain, with the flag that an owner was ever created, and the
  phase that closes the inventory. A creation is prepared and committed under the inventory lock and
  mints a lease; dropping the lease takes the count back. A panic is the value \<open>None\<close>.
\<close>

section \<open>The inventory\<close>

datatype owner_domain = PendingDomain | ResourceDomain | ChildDomain | ChildHeapDomain | BoundaryDomain | ActorDomain

datatype owner_creation_error_kind = InventoryFrozen | CountOverflow

record owner_creation_error =
  oce_domain :: owner_domain
  oce_kind :: owner_creation_error_kind

record domain_state =
  ds_current :: u64
  ds_ever_created :: bool

definition NEVER_CREATED :: domain_state where
  "NEVER_CREATED = \<lparr>ds_current = 0, ds_ever_created = False\<rparr>"

datatype inventory_phase = PhaseOpen | PhaseFrozen

record inventory_state =
  is_phase :: inventory_phase
  is_pending :: domain_state
  is_resource :: domain_state
  is_child :: domain_state
  is_child_heap :: domain_state
  is_boundary :: domain_state
  is_actor :: domain_state

definition inventory_open :: inventory_state where
  "inventory_open =
     \<lparr>is_phase = PhaseOpen, is_pending = NEVER_CREATED, is_resource = NEVER_CREATED, is_child = NEVER_CREATED,
      is_child_heap = NEVER_CREATED, is_boundary = NEVER_CREATED, is_actor = NEVER_CREATED\<rparr>"

fun domain_of :: "owner_domain \<Rightarrow> inventory_state \<Rightarrow> domain_state" where
  "domain_of PendingDomain i = is_pending i"
| "domain_of ResourceDomain i = is_resource i"
| "domain_of ChildDomain i = is_child i"
| "domain_of ChildHeapDomain i = is_child_heap i"
| "domain_of BoundaryDomain i = is_boundary i"
| "domain_of ActorDomain i = is_actor i"

fun set_domain :: "owner_domain \<Rightarrow> domain_state \<Rightarrow> inventory_state \<Rightarrow> inventory_state" where
  "set_domain PendingDomain d i = i\<lparr>is_pending := d\<rparr>"
| "set_domain ResourceDomain d i = i\<lparr>is_resource := d\<rparr>"
| "set_domain ChildDomain d i = i\<lparr>is_child := d\<rparr>"
| "set_domain ChildHeapDomain d i = i\<lparr>is_child_heap := d\<rparr>"
| "set_domain BoundaryDomain d i = i\<lparr>is_boundary := d\<rparr>"
| "set_domain ActorDomain d i = i\<lparr>is_actor := d\<rparr>"

definition prepare_owner :: "owner_domain \<Rightarrow> inventory_state \<Rightarrow> owner_creation_error option" where
  "prepare_owner d i =
     (if is_phase i = PhaseFrozen then Some \<lparr>oce_domain = d, oce_kind = InventoryFrozen\<rparr>
      else if ds_current (domain_of d i) = u64_max then Some \<lparr>oce_domain = d, oce_kind = CountOverflow\<rparr>
      else None)"

definition commit_owner :: "owner_domain \<Rightarrow> inventory_state \<Rightarrow> inventory_state" where
  "commit_owner d i = set_domain d \<lparr>ds_current = ds_current (domain_of d i) + 1, ds_ever_created = True\<rparr> i"

definition mint_lease :: "owner_domain \<Rightarrow> inventory_state \<Rightarrow> owner_creation_error + inventory_state" where
  "mint_lease d i = (case prepare_owner d i of Some e \<Rightarrow> Inl e | None \<Rightarrow> Inr (commit_owner d i))"

definition drop_lease :: "owner_domain \<Rightarrow> inventory_state \<Rightarrow> inventory_state option" where
  "drop_lease d i =
     (let s = domain_of d i
      in if ds_current s = 0 then None else Some (set_domain d (s\<lparr>ds_current := ds_current s - 1\<rparr>) i))"

record owner_snapshot =
  os_pending :: domain_state
  os_resource :: domain_state
  os_child :: domain_state
  os_child_heap :: domain_state
  os_boundary :: domain_state
  os_actor :: domain_state

definition freeze_inventory :: "inventory_state \<Rightarrow> (owner_snapshot \<times> inventory_state) option" where
  "freeze_inventory i =
     (if is_phase i \<noteq> PhaseOpen then None
      else Some (\<lparr>os_pending = is_pending i, os_resource = is_resource i, os_child = is_child i, os_child_heap = is_child_heap i,
                  os_boundary = is_boundary i, os_actor = is_actor i\<rparr>, i\<lparr>is_phase := PhaseFrozen\<rparr>))"

section \<open>Counted leases\<close>

lemma domain_of_set [simp]: "domain_of d (set_domain d' s i) = (if d = d' then s else domain_of d i)"
  by (cases d; cases d') simp_all

lemma phase_set_domain [simp]: "is_phase (set_domain d s i) = is_phase i"
  by (cases d) simp_all

lemma domain_of_phase [simp]: "domain_of d (i\<lparr>is_phase := p\<rparr>) = domain_of d i"
  by (cases d) simp_all

lemma domain_of_open [simp]: "domain_of d inventory_open = NEVER_CREATED"
  by (cases d) (simp_all add: inventory_open_def)

text \<open>
  The contract of a counter that mints affine leases: minting counts one more and dropping one of the
  counted leases succeeds and counts one less. A holder of leases then never sees a panic, and the
  counter is the number of leases out.
\<close>

locale lease_counter =
  fixes count :: "'s \<Rightarrow> nat"
    and mint :: "'s \<Rightarrow> 'e + 's"
    and drop_one :: "'s \<Rightarrow> 's option"
    and aside :: "'s \<Rightarrow> 's \<Rightarrow> bool"
  assumes mint_count: "mint s = Inr s' \<Longrightarrow> count s' = Suc (count s)"
    and drop_count: "0 < count s \<Longrightarrow> \<exists>s'. drop_one s = Some s' \<and> Suc (count s') = count s"
    and aside_count: "aside s s' \<Longrightarrow> count s' = count s"
begin

text \<open>A run with the number of leases out; only a lease that is out can be dropped.\<close>

inductive lease_run :: "nat \<Rightarrow> 's option \<Rightarrow> nat \<Rightarrow> 's option \<Rightarrow> bool" where
  stay: "lease_run n s n s"
| minted: "lease_run n s k (Some s1) \<Longrightarrow> mint s1 = Inr s2 \<Longrightarrow> lease_run n s (Suc k) (Some s2)"
| refused: "lease_run n s k (Some s1) \<Longrightarrow> mint s1 = Inl e \<Longrightarrow> lease_run n s k (Some s1)"
| dropped: "lease_run n s (Suc k) (Some s1) \<Longrightarrow> lease_run n s k (drop_one s1)"
| other: "lease_run n s k (Some s1) \<Longrightarrow> aside s1 s2 \<Longrightarrow> lease_run n s k (Some s2)"

lemma lease_run_exact:
  assumes "lease_run n s k s'" "s = Some s0" "count s0 = n"
  shows "\<exists>s1. s' = Some s1 \<and> count s1 = k"
  using assms
proof (induction rule: lease_run.induct)
  case (minted n s k s1 s2)
  then show ?case using mint_count by auto
next
  case (dropped n s k s1)
  then show ?case using drop_count [of s1] by auto
next
  case (other n s k s1 s2)
  then show ?case using aside_count by auto
qed auto

end

text \<open>Steps of the other domains and the freeze leave a domain's count alone.\<close>

definition inventory_aside :: "owner_domain \<Rightarrow> inventory_state \<Rightarrow> inventory_state \<Rightarrow> bool" where
  "inventory_aside d i i' \<longleftrightarrow>
     (\<exists>d'. d' \<noteq> d \<and> (mint_lease d' i = Inr i' \<or> drop_lease d' i = Some i')) \<or> (\<exists>snap. freeze_inventory i = Some (snap, i'))"

interpretation owners: lease_counter "\<lambda>i. ds_current (domain_of d i)" "mint_lease d" "drop_lease d" "inventory_aside d" for d
proof
  fix s s'
  assume "mint_lease d s = Inr s'"
  then show "ds_current (domain_of d s') = Suc (ds_current (domain_of d s))"
    by (auto simp: mint_lease_def commit_owner_def split: option.splits)
next
  fix s
  assume "0 < ds_current (domain_of d s)"
  then show "\<exists>s'. drop_lease d s = Some s' \<and> Suc (ds_current (domain_of d s')) = ds_current (domain_of d s)"
    by (simp add: drop_lease_def Let_def)
next
  fix s s'
  assume "inventory_aside d s s'"
  then show "ds_current (domain_of d s') = ds_current (domain_of d s)"
    by (auto simp: inventory_aside_def mint_lease_def commit_owner_def drop_lease_def freeze_inventory_def Let_def
        split: option.splits if_splits)
qed

lemma mint_within: "mint_lease d i = Inr i' \<Longrightarrow> ds_current (domain_of d i) \<le> u64_max \<Longrightarrow> ds_current (domain_of d i') \<le> u64_max"
  by (auto simp: mint_lease_def prepare_owner_def commit_owner_def split: if_splits)

lemma frozen_refuses: "is_phase i = PhaseFrozen \<Longrightarrow> mint_lease d i = Inl \<lparr>oce_domain = d, oce_kind = InventoryFrozen\<rparr>"
  by (simp add: mint_lease_def prepare_owner_def)

end
