(* ===== verification/Request_Pending.thy ===== *)
theory Request_Pending
  imports Owner_Inventory
begin

text \<open>
  The pending registry of the request scheduler (\<open>runtime/scheduler/src/pending.rs\<close>) with the root
  escrow (\<open>root_escrow.rs\<close>). Cells live in a list and are referred to by their position, which stands
  for the shared pointer; the table maps tickets to cells. Calls of the escrow backing
  (\<open>restore_roots\<close>, \<open>drop_roots\<close>) are the entries of a log, calls of \<open>enqueue\<close> entries of a queue. A
  panic is the value \<open>None\<close>. The type variables are the resume token \<open>'r\<close>, the suspended chain \<open>'s\<close>, the
  outcome \<open>'o\<close>, the escrow \<open>'e\<close>, the resource pin \<open>'p\<close> and the queue \<open>'q\<close>.
\<close>

section \<open>Roots\<close>

datatype root_disposition = RootsCancelled | RootsDeadline | RootsInternalStop | RootsPublicationFailed | RootsOwnerAbandoned

datatype root_event = RootsRestored | RootsDropped root_disposition

datatype settlement_source = HostCompletion | Cancellation | DeadlineReached | InternalStop

record ('e, 'p) root_set =
  rs_transferred :: "'e option"
  rs_retained :: "'p option"

type_synonym 'e root_log = "('e \<times> root_event) list"

definition transferred_only :: "'e \<Rightarrow> ('e, 'p) root_set" where
  "transferred_only e = \<lparr>rs_transferred = Some e, rs_retained = None\<rparr>"

definition retaining_resource :: "'e \<Rightarrow> 'p \<Rightarrow> ('e, 'p) root_set" where
  "retaining_resource e p = \<lparr>rs_transferred = Some e, rs_retained = Some p\<rparr>"

fun source_event :: "settlement_source \<Rightarrow> root_event" where
  "source_event HostCompletion = RootsRestored"
| "source_event Cancellation = RootsDropped RootsCancelled"
| "source_event DeadlineReached = RootsDropped RootsDeadline"
| "source_event InternalStop = RootsDropped RootsInternalStop"

definition settle_transferred ::
  "settlement_source \<Rightarrow> ('e, 'p) root_set \<Rightarrow> 'e root_log \<Rightarrow> (('e, 'p) root_set \<times> 'e root_log) option" where
  "settle_transferred source roots log =
     (case rs_transferred roots of
        None \<Rightarrow> None
      | Some e \<Rightarrow> Some (roots\<lparr>rs_transferred := None\<rparr>, log @ [(e, source_event source)]))"

definition discard_transferred :: "root_disposition \<Rightarrow> ('e, 'p) root_set \<Rightarrow> 'e root_log \<Rightarrow> 'e root_log" where
  "discard_transferred d roots log =
     (case rs_transferred roots of None \<Rightarrow> log | Some e \<Rightarrow> log @ [(e, RootsDropped d)])"

text \<open>A root set that goes out of scope: the escrow's own \<open>drop\<close>.\<close>

abbreviation abandon_roots :: "('e, 'p) root_set \<Rightarrow> 'e root_log \<Rightarrow> 'e root_log" where
  "abandon_roots \<equiv> discard_transferred RootsOwnerAbandoned"

section \<open>Cells\<close>

record ('r, 's) pending_draft =
  pd_resume :: 'r
  pd_suspended :: 's

record ('r, 's, 'e, 'p) pending_owner =
  po_ticket :: u64
  po_roots :: "('e, 'p) root_set"
  po_resume :: "'r option"
  po_suspended :: 's
  po_lease :: bool

record 'o pending_settlement =
  se_source :: settlement_source
  se_outcome :: 'o

record ('r, 's, 'o, 'e, 'p) pending_wake =
  pk_owner :: "('r, 's, 'e, 'p) pending_owner"
  pk_settlement :: "'o pending_settlement"

datatype ('r, 's, 'o, 'e, 'p, 'q) cell_state =
    CellOpen "('e, 'p) root_set" bool
  | CellWaiting 'q "('r, 's, 'e, 'p) pending_owner"
  | CellSettled "'o pending_settlement" "('e, 'p) root_set" bool
  | CellClaimed

datatype pending_cell_state = StateOpen | StateWaiting | StateSettled | StateClaimed

record ('r, 's, 'o, 'e, 'p, 'q) pending_cell =
  ce_ticket :: u64
  ce_state :: "('r, 's, 'o, 'e, 'p, 'q) cell_state"

record ('r, 's, 'o, 'e, 'p, 'q) pending_world =
  pw_next :: u64
  pw_inventory :: inventory_state
  pw_cells :: "('r, 's, 'o, 'e, 'p, 'q) pending_cell list"
  pw_table :: "(u64 \<times> nat) list"
  pw_queue :: "('q \<times> ('r, 's, 'o, 'e, 'p) pending_wake) list"
  pw_log :: "'e root_log"

definition world_start :: "('r, 's, 'o, 'e, 'p, 'q) pending_world" where
  "world_start =
     \<lparr>pw_next = 1, pw_inventory = inventory_open, pw_cells = [], pw_table = [], pw_queue = [], pw_log = []\<rparr>"

definition attach_draft ::
  "('r, 's) pending_draft \<Rightarrow> u64 \<Rightarrow> ('e, 'p) root_set \<Rightarrow> bool \<Rightarrow> ('r, 's, 'e, 'p) pending_owner" where
  "attach_draft d ticket roots lease =
     \<lparr>po_ticket = ticket, po_roots = roots, po_resume = Some (pd_resume d), po_suspended = pd_suspended d, po_lease = lease\<rparr>"

definition cell_new :: "u64 \<Rightarrow> ('e, 'p) root_set \<Rightarrow> ('r, 's, 'o, 'e, 'p, 'q) pending_cell" where
  "cell_new ticket roots = \<lparr>ce_ticket = ticket, ce_state = CellOpen roots False\<rparr>"

definition cell_arm :: "('r, 's, 'o, 'e, 'p, 'q) pending_cell \<Rightarrow> ('r, 's, 'o, 'e, 'p, 'q) pending_cell option" where
  "cell_arm c = (case ce_state c of CellOpen roots _ \<Rightarrow> Some (c\<lparr>ce_state := CellOpen roots True\<rparr>) | _ \<Rightarrow> None)"

fun cell_state_name :: "('r, 's, 'o, 'e, 'p, 'q) cell_state \<Rightarrow> pending_cell_state" where
  "cell_state_name (CellOpen _ _) = StateOpen"
| "cell_state_name (CellWaiting _ _) = StateWaiting"
| "cell_state_name (CellSettled _ _ _) = StateSettled"
| "cell_state_name CellClaimed = StateClaimed"

definition set_cell ::
  "nat \<Rightarrow> ('r, 's, 'o, 'e, 'p, 'q) cell_state \<Rightarrow> ('r, 's, 'o, 'e, 'p, 'q) pending_world \<Rightarrow> ('r, 's, 'o, 'e, 'p, 'q) pending_world" where
  "set_cell c st w = w\<lparr>pw_cells := (pw_cells w)[c := (pw_cells w ! c)\<lparr>ce_state := st\<rparr>]\<rparr>"

definition enqueue ::
  "'q \<Rightarrow> ('r, 's, 'o, 'e, 'p) pending_wake \<Rightarrow> ('r, 's, 'o, 'e, 'p, 'q) pending_world \<Rightarrow> ('r, 's, 'o, 'e, 'p, 'q) pending_world" where
  "enqueue q wake w = w\<lparr>pw_queue := pw_queue w @ [(q, wake)]\<rparr>"

definition drop_pending_lease ::
  "bool \<Rightarrow> ('r, 's, 'o, 'e, 'p, 'q) pending_world \<Rightarrow> ('r, 's, 'o, 'e, 'p, 'q) pending_world option" where
  "drop_pending_lease lease w =
     (if lease then map_option (\<lambda>i. w\<lparr>pw_inventory := i\<rparr>) (drop_lease PendingDomain (pw_inventory w)) else Some w)"

definition log_discard ::
  "root_disposition \<Rightarrow> ('e, 'p) root_set \<Rightarrow> ('r, 's, 'o, 'e, 'p, 'q) pending_world \<Rightarrow> ('r, 's, 'o, 'e, 'p, 'q) pending_world" where
  "log_discard d roots w = w\<lparr>pw_log := discard_transferred d roots (pw_log w)\<rparr>"

datatype pending_publication = PubWaiting | PubPrecompletedEnqueued

datatype pending_publication_failure = UnknownOrAlreadyPublishedTicket | CellAlreadyWaiting | CellAlreadyClaimed

datatype 'o settle_disposition = StoredBeforePublication | SettleEnqueued | SettleDuplicate "'o pending_settlement"

definition abandon_before_publication ::
  "nat \<Rightarrow> ('r, 's, 'o, 'e, 'p, 'q) pending_world \<Rightarrow> (bool \<times> ('r, 's, 'o, 'e, 'p, 'q) pending_world) option" where
  "abandon_before_publication c w =
     (case ce_state (pw_cells w ! c) of
        CellOpen roots lease \<Rightarrow>
          map_option (Pair True) (drop_pending_lease lease (log_discard RootsPublicationFailed roots (set_cell c CellClaimed w)))
      | CellSettled _ roots lease \<Rightarrow>
          map_option (Pair True) (drop_pending_lease lease (log_discard RootsPublicationFailed roots (set_cell c CellClaimed w)))
      | CellWaiting _ _ \<Rightarrow> Some (False, w)
      | CellClaimed \<Rightarrow> Some (False, w))"

definition cell_publish ::
  "nat \<Rightarrow> ('r, 's) pending_draft \<Rightarrow> 'q \<Rightarrow> ('r, 's, 'o, 'e, 'p, 'q) pending_world \<Rightarrow>
   (('r, 's) pending_draft \<times> pending_publication_failure + pending_publication) \<times> ('r, 's, 'o, 'e, 'p, 'q) pending_world" where
  "cell_publish c draft queue w =
     (let ticket = ce_ticket (pw_cells w ! c)
      in case ce_state (pw_cells w ! c) of
           CellOpen roots lease \<Rightarrow> (Inr PubWaiting, set_cell c (CellWaiting queue (attach_draft draft ticket roots lease)) w)
         | CellSettled settlement roots lease \<Rightarrow>
             (Inr PubPrecompletedEnqueued,
              enqueue queue \<lparr>pk_owner = attach_draft draft ticket roots lease, pk_settlement = settlement\<rparr> (set_cell c CellClaimed w))
         | CellWaiting _ _ \<Rightarrow> (Inl (draft, CellAlreadyWaiting), w)
         | CellClaimed \<Rightarrow> (Inl (draft, CellAlreadyClaimed), w))"

definition cell_settle ::
  "nat \<Rightarrow> 'o pending_settlement \<Rightarrow> ('r, 's, 'o, 'e, 'p, 'q) pending_world \<Rightarrow>
   'o settle_disposition \<times> ('r, 's, 'o, 'e, 'p, 'q) pending_world" where
  "cell_settle c settlement w =
     (case ce_state (pw_cells w ! c) of
        CellOpen roots lease \<Rightarrow> (StoredBeforePublication, set_cell c (CellSettled settlement roots lease) w)
      | CellWaiting queue owner \<Rightarrow>
          (SettleEnqueued, enqueue queue \<lparr>pk_owner = owner, pk_settlement = settlement\<rparr> (set_cell c CellClaimed w))
      | CellSettled _ _ _ \<Rightarrow> (SettleDuplicate settlement, w)
      | CellClaimed \<Rightarrow> (SettleDuplicate settlement, w))"

section \<open>The registry\<close>

definition remove_exact :: "u64 \<Rightarrow> nat \<Rightarrow> ('r, 's, 'o, 'e, 'p, 'q) pending_world \<Rightarrow> ('r, 's, 'o, 'e, 'p, 'q) pending_world" where
  "remove_exact ticket c w = (if map_of (pw_table w) ticket = Some c then w\<lparr>pw_table := filter (\<lambda>(t, _). t \<noteq> ticket) (pw_table w)\<rparr> else w)"

text \<open>A completion handle: the position of its cell, and whether the registry is still there.\<close>

definition handle_settle ::
  "settlement_source \<Rightarrow> 'o \<Rightarrow> nat \<Rightarrow> bool \<Rightarrow> ('r, 's, 'o, 'e, 'p, 'q) pending_world \<Rightarrow>
   'o settle_disposition \<times> ('r, 's, 'o, 'e, 'p, 'q) pending_world" where
  "handle_settle source out c registry_live w =
     (let (disposition, w1) = cell_settle c \<lparr>se_source = source, se_outcome = out\<rparr> w
      in (disposition,
          case disposition of
            SettleEnqueued \<Rightarrow> if registry_live then remove_exact (ce_ticket (pw_cells w1 ! c)) c w1 else w1
          | _ \<Rightarrow> w1))"

definition complete :: "'o \<Rightarrow> nat \<Rightarrow> bool \<Rightarrow> ('r, 's, 'o, 'e, 'p, 'q) pending_world \<Rightarrow> 'o settle_disposition \<times> ('r, 's, 'o, 'e, 'p, 'q) pending_world" where
  "complete out = handle_settle HostCompletion out"

definition cancel_pending :: "'o \<Rightarrow> nat \<Rightarrow> bool \<Rightarrow> ('r, 's, 'o, 'e, 'p, 'q) pending_world \<Rightarrow> 'o settle_disposition \<times> ('r, 's, 'o, 'e, 'p, 'q) pending_world" where
  "cancel_pending out = handle_settle Cancellation out"

definition deadline_pending :: "'o \<Rightarrow> nat \<Rightarrow> bool \<Rightarrow> ('r, 's, 'o, 'e, 'p, 'q) pending_world \<Rightarrow> 'o settle_disposition \<times> ('r, 's, 'o, 'e, 'p, 'q) pending_world" where
  "deadline_pending out = handle_settle DeadlineReached out"

definition internal_stop :: "'o \<Rightarrow> nat \<Rightarrow> bool \<Rightarrow> ('r, 's, 'o, 'e, 'p, 'q) pending_world \<Rightarrow> 'o settle_disposition \<times> ('r, 's, 'o, 'e, 'p, 'q) pending_world" where
  "internal_stop out = handle_settle InternalStop out"

datatype begin_pending_error = TicketSpaceExhausted | TicketCollision | OwnerCreation owner_creation_error | ResourceOwnerMismatch

definition install_with_guard ::
  "u64 \<Rightarrow> ('e, 'p) root_set \<Rightarrow> ('r, 's, 'o, 'e, 'p, 'q) pending_world \<Rightarrow>
   ((begin_pending_error + nat) \<times> ('r, 's, 'o, 'e, 'p, 'q) pending_world) option" where
  "install_with_guard ticket roots w =
     (if map_of (pw_table w) ticket \<noteq> None then Some (Inl TicketCollision, log_discard RootsPublicationFailed roots w)
      else case cell_arm (cell_new ticket roots) of
        None \<Rightarrow> None
      | Some cell \<Rightarrow>
          Some (Inr (length (pw_cells w)),
            w\<lparr>pw_cells := pw_cells w @ [cell], pw_table := (ticket, length (pw_cells w)) # pw_table w,
              pw_inventory := commit_owner PendingDomain (pw_inventory w)\<rparr>))"

definition begin_with_ticket ::
  "u64 \<Rightarrow> ('e, 'p) root_set \<Rightarrow> ('r, 's, 'o, 'e, 'p, 'q) pending_world \<Rightarrow>
   ((begin_pending_error + nat) \<times> ('r, 's, 'o, 'e, 'p, 'q) pending_world) option" where
  "begin_with_ticket ticket roots w =
     (case prepare_owner PendingDomain (pw_inventory w) of
        Some e \<Rightarrow> Some (Inl (OwnerCreation e), log_discard RootsPublicationFailed roots w)
      | None \<Rightarrow> install_with_guard ticket roots w)"

definition begin_with_roots ::
  "('e, 'p) root_set \<Rightarrow> ('r, 's, 'o, 'e, 'p, 'q) pending_world \<Rightarrow>
   ((begin_pending_error + nat) \<times> ('r, 's, 'o, 'e, 'p, 'q) pending_world) option" where
  "begin_with_roots roots w =
     (case checked_add_u64 (pw_next w) 1 of
        None \<Rightarrow> Some (Inl TicketSpaceExhausted, log_discard RootsPublicationFailed roots w)
      | Some next \<Rightarrow> if pw_next w = 0 then None else begin_with_ticket (pw_next w) roots (w\<lparr>pw_next := next\<rparr>))"

definition begin_pending ::
  "'e \<Rightarrow> ('r, 's, 'o, 'e, 'p, 'q) pending_world \<Rightarrow> ((begin_pending_error + nat) \<times> ('r, 's, 'o, 'e, 'p, 'q) pending_world) option" where
  "begin_pending e w = begin_with_roots (transferred_only e) w"

definition begin_with_resource_roots ::
  "('p \<Rightarrow> bool) \<Rightarrow> 'e \<Rightarrow> 'p \<Rightarrow> ('r, 's, 'o, 'e, 'p, 'q) pending_world \<Rightarrow>
   ((begin_pending_error + nat) \<times> ('r, 's, 'o, 'e, 'p, 'q) pending_world) option" where
  "begin_with_resource_roots same_inventory e pin w =
     (if \<not> same_inventory pin then Some (Inl ResourceOwnerMismatch, log_discard RootsPublicationFailed (transferred_only e) w)
      else begin_with_roots (retaining_resource e pin) w)"

definition publish ::
  "u64 \<Rightarrow> ('r, 's) pending_draft \<Rightarrow> 'q \<Rightarrow> ('r, 's, 'o, 'e, 'p, 'q) pending_world \<Rightarrow>
   (('r, 's) pending_draft \<times> pending_publication_failure + pending_publication) \<times> ('r, 's, 'o, 'e, 'p, 'q) pending_world" where
  "publish ticket draft queue w =
     (case map_of (pw_table w) ticket of
        None \<Rightarrow> (Inl (draft, UnknownOrAlreadyPublishedTicket), w)
      | Some c \<Rightarrow>
          (let (r, w1) = cell_publish c draft queue w
           in (r, case r of Inr PubPrecompletedEnqueued \<Rightarrow> remove_exact ticket c w1 | _ \<Rightarrow> w1)))"

definition abandon ::
  "u64 \<Rightarrow> ('r, 's, 'o, 'e, 'p, 'q) pending_world \<Rightarrow> (bool \<times> ('r, 's, 'o, 'e, 'p, 'q) pending_world) option" where
  "abandon ticket w =
     (case map_of (pw_table w) ticket of
        None \<Rightarrow> Some (False, w)
      | Some c \<Rightarrow>
          (case abandon_before_publication c w of
             None \<Rightarrow> None
           | Some (done, w1) \<Rightarrow> Some (done, if done then remove_exact ticket c w1 else w1)))"

definition publish_operation_or_abandon ::
  "u64 \<Rightarrow> 'r \<Rightarrow> 's \<Rightarrow> 'q \<Rightarrow> ('r, 's, 'o, 'e, 'p, 'q) pending_world \<Rightarrow>
   ((('r, 's) pending_draft \<times> pending_publication_failure + pending_publication) \<times> ('r, 's, 'o, 'e, 'p, 'q) pending_world) option" where
  "publish_operation_or_abandon ticket resume suspended queue w =
     (let (r, w1) = publish ticket \<lparr>pd_resume = resume, pd_suspended = suspended\<rparr> queue w
      in case r of
           Inr p \<Rightarrow> Some (Inr p, w1)
         | Inl e \<Rightarrow> map_option (\<lambda>(_, w2). (Inl e, w2)) (abandon ticket w1))"

definition live_count :: "('r, 's, 'o, 'e, 'p, 'q) pending_world \<Rightarrow> nat" where
  "live_count w = length (pw_table w)"

definition unpublished_count :: "('r, 's, 'o, 'e, 'p, 'q) pending_world \<Rightarrow> nat" where
  "unpublished_count w =
     length (filter (\<lambda>(_, c). cell_state_name (ce_state (pw_cells w ! c)) \<in> {StateOpen, StateSettled}) (pw_table w))"

section \<open>Walking the roots\<close>

text \<open>What a root walk visits, in order: escrows, resource pins, suspended chains and outcomes. The code stops
  at the first error of the visitor; the walk here is the one without errors.\<close>

datatype ('s, 'o, 'e, 'p) visited = VisitEscrow 'e | VisitPin 'p | VisitSuspended 's | VisitOutcome 'o

definition visit_root_set :: "('e, 'p) root_set \<Rightarrow> ('s, 'o, 'e, 'p) visited list" where
  "visit_root_set roots =
     (case rs_transferred roots of None \<Rightarrow> [] | Some e \<Rightarrow> [VisitEscrow e]) @
     (case rs_retained roots of None \<Rightarrow> [] | Some p \<Rightarrow> [VisitPin p])"

definition visit_owner :: "('r, 's, 'e, 'p) pending_owner \<Rightarrow> ('s, 'o, 'e, 'p) visited list" where
  "visit_owner ow = VisitSuspended (po_suspended ow) # visit_root_set (po_roots ow)"

definition visit_settlement :: "'o pending_settlement \<Rightarrow> ('s, 'o, 'e, 'p) visited list" where
  "visit_settlement st = [VisitOutcome (se_outcome st)]"

definition visit_wake :: "('r, 's, 'o, 'e, 'p) pending_wake \<Rightarrow> ('s, 'o, 'e, 'p) visited list" where
  "visit_wake k = visit_owner (pk_owner k) @ visit_settlement (pk_settlement k)"

fun visit_cell :: "('r, 's, 'o, 'e, 'p, 'q) cell_state \<Rightarrow> ('s, 'o, 'e, 'p) visited list" where
  "visit_cell (CellOpen roots _) = visit_root_set roots"
| "visit_cell (CellSettled st roots _) = visit_root_set roots @ visit_settlement st"
| "visit_cell (CellWaiting _ ow) = visit_owner ow"
| "visit_cell CellClaimed = []"

definition visit_registry :: "('r, 's, 'o, 'e, 'p, 'q) pending_world \<Rightarrow> ('s, 'o, 'e, 'p) visited list" where
  "visit_registry w = concat (map (\<lambda>(_, c). visit_cell (ce_state (pw_cells w ! c))) (pw_table w))"

section \<open>Resuming a wake\<close>

record ('r, 's, 'm, 'e, 'p) mapped_guard =
  mg_owner :: "('r, 's, 'e, 'p) pending_owner"
  mg_source :: settlement_source
  mg_outcome :: "'m option"

text \<open>Claiming a wake and mapping its outcome; \<open>f\<close> is the mapper of the scheduler.\<close>

definition map_wake :: "('r \<Rightarrow> 'o \<Rightarrow> 'm) \<Rightarrow> ('r, 's, 'o, 'e, 'p) pending_wake \<Rightarrow> ('r, 's, 'm, 'e, 'p) mapped_guard option" where
  "map_wake f k =
     (case po_resume (pk_owner k) of
        None \<Rightarrow> None
      | Some r \<Rightarrow>
          Some \<lparr>mg_owner = pk_owner k, mg_source = se_source (pk_settlement k), mg_outcome = Some (f r (se_outcome (pk_settlement k)))\<rparr>)"

definition map_wake_with_suspended ::
  "('r \<Rightarrow> 'o \<Rightarrow> 's \<Rightarrow> 'm \<times> 's) \<Rightarrow> ('r, 's, 'o, 'e, 'p) pending_wake \<Rightarrow> ('r, 's, 'm, 'e, 'p) mapped_guard option" where
  "map_wake_with_suspended f k =
     (case po_resume (pk_owner k) of
        None \<Rightarrow> None
      | Some r \<Rightarrow>
          (let (m, s) = f r (se_outcome (pk_settlement k)) (po_suspended (pk_owner k))
           in Some \<lparr>mg_owner = (pk_owner k)\<lparr>po_suspended := s\<rparr>, mg_source = se_source (pk_settlement k), mg_outcome = Some m\<rparr>))"

definition map_suspended :: "('s \<Rightarrow> 't) \<Rightarrow> ('r, 's, 'm, 'e, 'p) mapped_guard \<Rightarrow> ('r, 't, 'm, 'e, 'p) mapped_guard" where
  "map_suspended f g =
     \<lparr>mg_owner = \<lparr>po_ticket = po_ticket (mg_owner g), po_roots = po_roots (mg_owner g), po_resume = po_resume (mg_owner g),
        po_suspended = f (po_suspended (mg_owner g)), po_lease = po_lease (mg_owner g)\<rparr>,
      mg_source = mg_source g, mg_outcome = mg_outcome g\<rparr>"

datatype ('r, 'm, 'x) resume_failure = ResumeTerminal 'x | ResumeRejected 'x 'r 'm

text \<open>\<open>resume\<close> is the synchronous callback with the suspended chain it leaves, \<open>commit\<close> makes the runnable.\<close>

definition resume_and_commit ::
  "('s \<Rightarrow> 'r \<Rightarrow> 'm \<Rightarrow> 's \<times> ('r, 'm, 'x) resume_failure option) \<Rightarrow> ('s \<Rightarrow> 'p option \<Rightarrow> 't) \<Rightarrow>
   ('r, 's, 'm, 'e, 'p) mapped_guard \<Rightarrow> ('r, 's, 'o, 'e, 'p, 'q) pending_world \<Rightarrow>
   (('x \<times> ('r, 's, 'm, 'e, 'p) mapped_guard + 't) \<times> ('r, 's, 'o, 'e, 'p, 'q) pending_world) option" where
  "resume_and_commit resume commit g w =
     (case settle_transferred (mg_source g) (po_roots (mg_owner g)) (pw_log w) of
        None \<Rightarrow> None
      | Some (roots, log) \<Rightarrow>
          (let w1 = w\<lparr>pw_log := log\<rparr>
           in case (po_resume (mg_owner g), mg_outcome g) of
                (Some token, Some out) \<Rightarrow>
                  (let (s, res) = resume (po_suspended (mg_owner g)) token out;
                       ow = (mg_owner g)\<lparr>po_roots := roots, po_resume := None, po_suspended := s\<rparr>;
                       g1 = g\<lparr>mg_owner := ow, mg_outcome := None\<rparr>
                   in case res of
                        Some (ResumeRejected x r o') \<Rightarrow> Some (Inl (x, g1\<lparr>mg_owner := ow\<lparr>po_resume := Some r\<rparr>, mg_outcome := Some o'\<rparr>), w1)
                      | Some (ResumeTerminal x) \<Rightarrow> Some (Inl (x, g1), w1)
                      | None \<Rightarrow>
                          map_option (Pair (Inr (commit s (rs_retained roots))))
                            (drop_pending_lease (po_lease ow)
                              (w1\<lparr>pw_log := abandon_roots (roots\<lparr>rs_retained := None\<rparr>) (pw_log w1)\<rparr>)))
              | _ \<Rightarrow> None))"

text \<open>An owner that goes out of scope drops its roots before its lease; a cell does so with its state.\<close>

definition drop_owner ::
  "('r, 's, 'e, 'p) pending_owner \<Rightarrow> ('r, 's, 'o, 'e, 'p, 'q) pending_world \<Rightarrow> ('r, 's, 'o, 'e, 'p, 'q) pending_world option" where
  "drop_owner ow w = drop_pending_lease (po_lease ow) (log_discard RootsOwnerAbandoned (po_roots ow) w)"

definition drop_cell ::
  "nat \<Rightarrow> ('r, 's, 'o, 'e, 'p, 'q) pending_world \<Rightarrow> ('r, 's, 'o, 'e, 'p, 'q) pending_world option" where
  "drop_cell c w =
     (let w1 = set_cell c CellClaimed w
      in case ce_state (pw_cells w ! c) of
           CellOpen roots lease \<Rightarrow> drop_pending_lease lease (log_discard RootsOwnerAbandoned roots w1)
         | CellSettled _ roots lease \<Rightarrow> drop_pending_lease lease (log_discard RootsOwnerAbandoned roots w1)
         | CellWaiting _ ow \<Rightarrow> drop_owner ow w1
         | CellClaimed \<Rightarrow> Some w)"

end
