(* ===== verification/Request_Pending_Runs.thy ===== *)
theory Request_Pending_Runs
  imports Request_Pending "HOL-Library.Multiset"
begin

text \<open>
  Runs of the pending registry: host threads, the scheduler and other registries act in any order, each
  step under one lock of the code. A run keeps the registry's world, the guards the scheduler has
  claimed from the queue, and whether the registry is still there.
\<close>

section \<open>Steps\<close>

record ('r, 's, 'o, 'e, 'p, 'q) pending_sys =
  sy_world :: "('r, 's, 'o, 'e, 'p, 'q) pending_world"
  sy_guards :: "('r, 's, 'o, 'e, 'p) mapped_guard list"
  sy_live :: bool

definition sys_start :: "('r, 's, 'o, 'e, 'p, 'q) pending_sys" where
  "sys_start = \<lparr>sy_world = world_start, sy_guards = [], sy_live = True\<rparr>"

text \<open>A publication and an abandonment may act on a cell that was looked up earlier. The result of the resume
  callback is part of the step.\<close>

datatype ('r, 's, 'o, 'e, 'p, 'q) pending_op =
    OpBegin 'e
  | OpBeginRetaining bool 'e 'p
  | OpForeignTicket
  | OpPublish nat "('r, 's) pending_draft" 'q
  | OpSettle nat "'o pending_settlement"
  | OpRemove nat
  | OpAbandon nat
  | OpTake nat "'r \<Rightarrow> 'o \<Rightarrow> 'o"
  | OpResume nat 's "('r, 'o, unit) resume_failure option"
  | OpDropWake nat
  | OpDropGuard nat
  | OpDropRegistry
  | OpDropCell nat
  | OpFreeze
  | OpMintOther owner_domain
  | OpDropOther owner_domain

datatype ('o, 'e) pending_event = Handed 'e | Won nat "'o pending_settlement" | Published nat | Queued nat "'o pending_settlement"

definition queued_since ::
  "nat \<Rightarrow> ('r, 's, 'o, 'e, 'p, 'q) pending_world \<Rightarrow> ('r, 's, 'o, 'e, 'p, 'q) pending_world \<Rightarrow> ('o, 'e) pending_event list" where
  "queued_since c w w' = map (\<lambda>(_, k). Queued c (pk_settlement k)) (drop (length (pw_queue w)) (pw_queue w'))"

definition without :: "nat \<Rightarrow> 'a list \<Rightarrow> 'a list" where
  "without i xs = take i xs @ drop (Suc i) xs"

fun pending_step ::
  "('r, 's, 'o, 'e, 'p, 'q) pending_op \<Rightarrow> ('r, 's, 'o, 'e, 'p, 'q) pending_sys \<Rightarrow>
   (('o, 'e) pending_event list \<times> ('r, 's, 'o, 'e, 'p, 'q) pending_sys) option" where
  "pending_step (OpBegin e) s =
     (if sy_live s then map_option (\<lambda>(_, w). ([Handed e], s\<lparr>sy_world := w\<rparr>)) (begin_pending e (sy_world s)) else Some ([], s))"
| "pending_step (OpBeginRetaining same e p) s =
     (if sy_live s then map_option (\<lambda>(_, w). ([Handed e], s\<lparr>sy_world := w\<rparr>)) (begin_with_resource_roots (\<lambda>_. same) e p (sy_world s)) else Some ([], s))"
| "pending_step OpForeignTicket s =
     (let w = sy_world s in Some ([], s\<lparr>sy_world := w\<lparr>pw_next := (if pw_next w < u64_max then pw_next w + 1 else pw_next w)\<rparr>\<rparr>))"
| "pending_step (OpPublish c d q) s =
     (if c < length (pw_cells (sy_world s)) then
        (let (r, w) = cell_publish c d q (sy_world s)
         in Some ((case r of Inr _ \<Rightarrow> [Published c] | Inl _ \<Rightarrow> []) @ queued_since c (sy_world s) w, s\<lparr>sy_world := w\<rparr>))
      else Some ([], s))"
| "pending_step (OpSettle c st) s =
     (if c < length (pw_cells (sy_world s)) then
        (let (d, w) = cell_settle c st (sy_world s)
         in Some ((case d of SettleDuplicate _ \<Rightarrow> [] | _ \<Rightarrow> [Won c st]) @ queued_since c (sy_world s) w, s\<lparr>sy_world := w\<rparr>))
      else Some ([], s))"
| "pending_step (OpRemove c) s =
     (if c < length (pw_cells (sy_world s)) \<and> ce_state (pw_cells (sy_world s) ! c) = CellClaimed
      then Some ([], s\<lparr>sy_world := remove_exact (ce_ticket (pw_cells (sy_world s) ! c)) c (sy_world s)\<rparr>) else Some ([], s))"
| "pending_step (OpAbandon c) s =
     (if c < length (pw_cells (sy_world s))
      then map_option (\<lambda>(_, w). ([], s\<lparr>sy_world := w\<rparr>)) (abandon_before_publication c (sy_world s)) else Some ([], s))"
| "pending_step (OpTake i f) s =
     (if i < length (pw_queue (sy_world s)) then
        map_option (\<lambda>g. ([], s\<lparr>sy_world := (sy_world s)\<lparr>pw_queue := without i (pw_queue (sy_world s))\<rparr>, sy_guards := sy_guards s @ [g]\<rparr>))
          (map_wake f (snd (pw_queue (sy_world s) ! i)))
      else Some ([], s))"
| "pending_step (OpResume i chain res) s =
     (if i < length (sy_guards s) then
        map_option (\<lambda>(r, w). ([], s\<lparr>sy_world := w, sy_guards := without i (sy_guards s) @ (case r of Inl (_, g) \<Rightarrow> [g] | Inr _ \<Rightarrow> [])\<rparr>))
          (resume_and_commit (\<lambda>_ _ _. (chain, res)) (\<lambda>_ _. ()) (sy_guards s ! i) (sy_world s))
      else Some ([], s))"
| "pending_step (OpDropWake i) s =
     (if i < length (pw_queue (sy_world s)) then
        map_option (\<lambda>w. ([], s\<lparr>sy_world := w\<rparr>))
          (drop_owner (pk_owner (snd (pw_queue (sy_world s) ! i))) ((sy_world s)\<lparr>pw_queue := without i (pw_queue (sy_world s))\<rparr>))
      else Some ([], s))"
| "pending_step (OpDropGuard i) s =
     (if i < length (sy_guards s) then
        map_option (\<lambda>w. ([], s\<lparr>sy_world := w, sy_guards := without i (sy_guards s)\<rparr>))
          (drop_owner (mg_owner (sy_guards s ! i)) (sy_world s))
      else Some ([], s))"
| "pending_step OpDropRegistry s = Some ([], s\<lparr>sy_world := (sy_world s)\<lparr>pw_table := []\<rparr>, sy_live := False\<rparr>)"
| "pending_step (OpDropCell c) s =
     (if c < length (pw_cells (sy_world s)) \<and> map_of (pw_table (sy_world s)) (ce_ticket (pw_cells (sy_world s) ! c)) \<noteq> Some c
      then map_option (\<lambda>w. ([], s\<lparr>sy_world := w\<rparr>)) (drop_cell c (sy_world s)) else Some ([], s))"
| "pending_step OpFreeze s =
     (case freeze_inventory (pw_inventory (sy_world s)) of
        Some (_, i) \<Rightarrow> Some ([], s\<lparr>sy_world := (sy_world s)\<lparr>pw_inventory := i\<rparr>\<rparr>)
      | None \<Rightarrow> Some ([], s))"
| "pending_step (OpMintOther d) s =
     (case mint_lease d (pw_inventory (sy_world s)) of
        Inr i \<Rightarrow> if d = PendingDomain then Some ([], s) else Some ([], s\<lparr>sy_world := (sy_world s)\<lparr>pw_inventory := i\<rparr>\<rparr>)
      | Inl _ \<Rightarrow> Some ([], s))"
| "pending_step (OpDropOther d) s =
     (case drop_lease d (pw_inventory (sy_world s)) of
        Some i \<Rightarrow> if d = PendingDomain then Some ([], s) else Some ([], s\<lparr>sy_world := (sy_world s)\<lparr>pw_inventory := i\<rparr>\<rparr>)
      | None \<Rightarrow> Some ([], s))"

primrec pending_run ::
  "('r, 's, 'o, 'e, 'p, 'q) pending_op list \<Rightarrow> ('r, 's, 'o, 'e, 'p, 'q) pending_sys \<Rightarrow>
   (('o, 'e) pending_event list \<times> ('r, 's, 'o, 'e, 'p, 'q) pending_sys) option" where
  "pending_run [] s = Some ([], s)"
| "pending_run (op # ops) s =
     (case pending_step op s of
        None \<Rightarrow> None
      | Some (evs, s1) \<Rightarrow> map_option (\<lambda>(evs', s2). (evs @ evs', s2)) (pending_run ops s1))"

section \<open>Accounts\<close>

text \<open>What a root set and a lease flag count for, summed over everything that holds them.\<close>

fun cell_account :: "(('e, 'p) root_set \<Rightarrow> bool \<Rightarrow> 'a::comm_monoid_add) \<Rightarrow> ('r, 's, 'o, 'e, 'p, 'q) cell_state \<Rightarrow> 'a" where
  "cell_account f (CellOpen roots lease) = f roots lease"
| "cell_account f (CellSettled _ roots lease) = f roots lease"
| "cell_account f (CellWaiting _ ow) = f (po_roots ow) (po_lease ow)"
| "cell_account f CellClaimed = 0"

definition owner_account :: "(('e, 'p) root_set \<Rightarrow> bool \<Rightarrow> 'a) \<Rightarrow> ('r, 's, 'e, 'p) pending_owner \<Rightarrow> 'a" where
  "owner_account f ow = f (po_roots ow) (po_lease ow)"

definition world_account :: "(('e, 'p) root_set \<Rightarrow> bool \<Rightarrow> 'a::comm_monoid_add) \<Rightarrow> ('r, 's, 'o, 'e, 'p, 'q) pending_world \<Rightarrow> 'a" where
  "world_account f w =
     sum_list (map (\<lambda>c. cell_account f (ce_state c)) (pw_cells w)) + sum_list (map (\<lambda>(_, k). owner_account f (pk_owner k)) (pw_queue w))"

definition sys_account :: "(('e, 'p) root_set \<Rightarrow> bool \<Rightarrow> 'a::comm_monoid_add) \<Rightarrow> ('r, 's, 'o, 'e, 'p, 'q) pending_sys \<Rightarrow> 'a" where
  "sys_account f s = world_account f (sy_world s) + sum_list (map (\<lambda>g. owner_account f (mg_owner g)) (sy_guards s))"

definition escrow_of :: "('e, 'p) root_set \<Rightarrow> bool \<Rightarrow> 'e multiset" where
  "escrow_of roots _ = (case rs_transferred roots of None \<Rightarrow> {#} | Some e \<Rightarrow> {#e#})"

definition lease_of :: "('e, 'p) root_set \<Rightarrow> bool \<Rightarrow> nat" where
  "lease_of _ lease = of_bool lease"

abbreviation held_escrows :: "('r, 's, 'o, 'e, 'p, 'q) pending_sys \<Rightarrow> 'e multiset" where
  "held_escrows \<equiv> sys_account escrow_of"

abbreviation leases_out :: "('r, 's, 'o, 'e, 'p, 'q) pending_sys \<Rightarrow> nat" where
  "leases_out \<equiv> sys_account lease_of"

lemma sum_list_without:
  "i < length xs \<Longrightarrow> sum_list (map f xs) = sum_list (map f (without i xs)) + (f (xs ! i) :: 'a::comm_monoid_add)"
  by (subst id_take_nth_drop [of i xs]) (simp_all add: without_def ac_simps)

lemma sum_list_update_account:
  "i < length xs \<Longrightarrow> sum_list (map f (xs[i := y])) + f (xs ! i) = sum_list (map f xs) + (f y :: 'a::comm_monoid_add)"
  by (subst (2) id_take_nth_drop [of i xs]) (simp_all add: upd_conv_take_nth_drop ac_simps)

lemma account_shift: "a' + x = a + (y :: 'a::comm_monoid_add) \<Longrightarrow> a' + b + x = a + b + y"
  by (metis add.assoc add.commute)

lemma set_cell_account:
  "c < length (pw_cells w) \<Longrightarrow>
   world_account f (set_cell c st w) + cell_account f (ce_state (pw_cells w ! c)) = world_account f w + cell_account f st"
  using account_shift [OF sum_list_update_account [of c "pw_cells w" "\<lambda>c. cell_account f (ce_state c)" "(pw_cells w ! c)\<lparr>ce_state := st\<rparr>"]]
  by (simp add: world_account_def set_cell_def)

lemma enqueue_account: "world_account f (enqueue q k w) = world_account f w + owner_account f (pk_owner k)"
  by (simp add: world_account_def enqueue_def ac_simps)

lemma account_irrelevant [simp]:
  "world_account f (w\<lparr>pw_next := x\<rparr>) = world_account f w" "world_account f (w\<lparr>pw_inventory := i\<rparr>) = world_account f w"
  "world_account f (w\<lparr>pw_table := t\<rparr>) = world_account f w" "world_account f (w\<lparr>pw_log := l\<rparr>) = world_account f w"
  by (simp_all add: world_account_def)

section \<open>The books balance\<close>

abbreviation owner_count :: "('r, 's, 'o, 'e, 'p, 'q) pending_world \<Rightarrow> nat" where
  "owner_count w \<equiv> ds_current (domain_of PendingDomain (pw_inventory w))"

abbreviation logged :: "('r, 's, 'o, 'e, 'p, 'q) pending_world \<Rightarrow> 'e multiset" where
  "logged w \<equiv> mset (map fst (pw_log w))"

definition handed :: "('o, 'e) pending_event list \<Rightarrow> 'e list" where
  "handed tr = concat (map (\<lambda>ev. case ev of Handed e \<Rightarrow> [e] | _ \<Rightarrow> []) tr)"

lemma handed_simps [simp]:
  "handed [] = []" "handed (a @ b) = handed a @ handed b" "handed [Handed e] = [e]" "handed [Won c st] = []" "handed [Published c] = []"
  "handed (Won c st # evs) = handed evs" "handed (Published c # evs) = handed evs" "handed (queued_since c w w') = []"
  by (auto simp: handed_def queued_since_def)

text \<open>Every escrow handed over is held or has ended, and the inventory counts the leases held.\<close>

definition books :: "('o, 'e) pending_event list \<Rightarrow> ('r, 's, 'o, 'e, 'p, 'q) pending_sys \<Rightarrow> bool" where
  "books tr s \<longleftrightarrow> held_escrows s + logged (sy_world s) = mset (handed tr) \<and> owner_count (sy_world s) = leases_out s"

definition resumable :: "('r, 's, 'o, 'e, 'p, 'q) pending_sys \<Rightarrow> bool" where
  "resumable s \<longleftrightarrow>
     (\<forall>c \<in> set (pw_cells (sy_world s)). \<forall>q ow. ce_state c = CellWaiting q ow \<longrightarrow> po_resume ow \<noteq> None) \<and>
     (\<forall>k \<in> set (pw_queue (sy_world s)). po_resume (pk_owner (snd k)) \<noteq> None) \<and>
     (\<forall>g \<in> set (sy_guards s). rs_transferred (po_roots (mg_owner g)) \<noteq> None \<longrightarrow> po_resume (mg_owner g) \<noteq> None \<and> mg_outcome g \<noteq> None)"

lemma escrow_simps [simp]:
  "escrow_of (transferred_only e) l = {#e#}" "escrow_of (retaining_resource e p) l = {#e#}"
  "escrow_of (r\<lparr>rs_transferred := None\<rparr>) l = {#}" "lease_of r l = of_bool l"
  by (simp_all add: escrow_of_def transferred_only_def retaining_resource_def lease_of_def)

lemma discard_logged: "mset (map fst (discard_transferred d roots log)) = mset (map fst log) + escrow_of roots l"
  by (simp add: discard_transferred_def escrow_of_def split: option.splits)

lemma release_exact:
  assumes "of_bool lease \<le> owner_count w"
  shows "\<exists>w'. drop_pending_lease lease (log_discard d roots w) = Some w' \<and> owner_count w' + of_bool lease = owner_count w \<and>
    logged w' = logged w + escrow_of roots lease \<and>
    pw_cells w' = pw_cells w \<and> pw_queue w' = pw_queue w \<and> pw_table w' = pw_table w \<and> pw_next w' = pw_next w"
  using assms owners.drop_count [of PendingDomain "pw_inventory w"] discard_logged [of d roots "pw_log w" lease]
  by (cases lease) (auto simp: drop_pending_lease_def log_discard_def)

lemma books_keep:
  assumes "books tr s" "held_escrows s' = held_escrows s" "leases_out s' = leases_out s"
    "logged (sy_world s') = logged (sy_world s)" "owner_count (sy_world s') = owner_count (sy_world s)" "handed evs = []"
  shows "books (tr @ evs) s'"
  using assms by (simp add: books_def)

lemmas books_keep_all = books_keep [where evs = "[]", simplified]

lemma books_release:
  assumes "books tr s" "held_escrows s' + escrow_of roots lease = held_escrows s" "leases_out s' + lease_of roots lease = leases_out s"
    "logged (sy_world s') = logged (sy_world s) + escrow_of roots lease" "owner_count (sy_world s') + of_bool lease = owner_count (sy_world s)"
  shows "books (tr @ []) s'"
  using assms(1,3,4,5) unfolding books_def assms(2) [symmetric] by (auto simp: ac_simps)

lemma books_begin:
  assumes "books tr s" "held_escrows s' = held_escrows s + {#e#}" "leases_out s' = Suc (leases_out s)"
    "logged (sy_world s') = logged (sy_world s)" "owner_count (sy_world s') = Suc (owner_count (sy_world s))"
  shows "books (tr @ [Handed e]) s'"
  using assms by (auto simp: books_def ac_simps)

lemma books_refused:
  assumes "books tr s" "held_escrows s' = held_escrows s" "leases_out s' = leases_out s"
    "logged (sy_world s') = logged (sy_world s) + {#e#}" "owner_count (sy_world s') = owner_count (sy_world s)"
  shows "books (tr @ [Handed e]) s'"
  using assms by (auto simp: books_def ac_simps)

lemma account_world_update: "sys_account f (s\<lparr>sy_world := w\<rparr>) = world_account f w + sum_list (map (\<lambda>g. owner_account f (mg_owner g)) (sy_guards s))"
  by (simp add: sys_account_def)

lemma begin_with_roots_books:
  assumes "books tr s" "1 \<le> pw_next (sy_world s)" "escrow_of roots True = {#e#}"
  shows "\<exists>r w. begin_with_roots roots (sy_world s) = Some (r, w) \<and> books (tr @ [Handed e]) (s\<lparr>sy_world := w\<rparr>)"
proof -
  let ?w = "sy_world s"
  have refused: "books (tr @ [Handed e]) (s\<lparr>sy_world := log_discard d roots (?w\<lparr>pw_next := x\<rparr>)\<rparr>)" for d x
    by (rule books_refused [OF assms(1)])
      (use discard_logged [of d roots "pw_log ?w" True] assms(3) in \<open>simp_all add: log_discard_def sys_account_def\<close>)
  have "?w = ?w\<lparr>pw_next := pw_next ?w\<rparr>" by simp
  then have refused': "books (tr @ [Handed e]) (s\<lparr>sy_world := log_discard d roots ?w\<rparr>)" for d using refused [of d "pw_next ?w"] by simp
  have begun: "books (tr @ [Handed e]) (s\<lparr>sy_world := ?w\<lparr>pw_next := x, pw_cells := pw_cells ?w @ [\<lparr>ce_ticket = t, ce_state = CellOpen roots True\<rparr>],
      pw_table := tab, pw_inventory := commit_owner PendingDomain (pw_inventory ?w)\<rparr>\<rparr>)" for x t tab
    by (rule books_begin [OF assms(1)]) (use assms(3) in \<open>simp_all add: sys_account_def world_account_def commit_owner_def ac_simps\<close>)
  show ?thesis using assms(2) refused refused' begun
    by (auto simp: begin_with_roots_def begin_with_ticket_def install_with_guard_def cell_arm_def cell_new_def split: option.splits)
qed


lemma release_lease_step:
  assumes "books tr s" "\<And>w'. pw_cells w' = pw_cells w \<Longrightarrow> pw_queue w' = pw_queue w \<Longrightarrow> sy_world (upd w') = w'"
    "owner_count w = owner_count (sy_world s)" "logged w = logged (sy_world s)"
    "\<And>w'. pw_cells w' = pw_cells w \<Longrightarrow> pw_queue w' = pw_queue w \<Longrightarrow> held_escrows (upd w') + escrow_of roots lease = held_escrows s"
    "\<And>w'. pw_cells w' = pw_cells w \<Longrightarrow> pw_queue w' = pw_queue w \<Longrightarrow> leases_out (upd w') + lease_of roots lease = leases_out s"
  shows "\<exists>w'. drop_pending_lease lease (log_discard d roots w) = Some w' \<and> books (tr @ []) (upd w')"
proof -
  have "of_bool lease \<le> owner_count w" using assms(1,3) assms(6) [of w] by (simp add: books_def)
  from release_exact [OF this, of d roots] obtain w' where w': "drop_pending_lease lease (log_discard d roots w) = Some w'"
      "owner_count w' + of_bool lease = owner_count w" "logged w' = logged w + escrow_of roots lease"
      "pw_cells w' = pw_cells w" "pw_queue w' = pw_queue w" by blast
  have "books (tr @ []) (upd w')"
    by (rule books_release [OF assms(1), where roots = roots and lease = lease])
      (use assms w' in auto)
  then show ?thesis using w'(1) by blast
qed

lemma claim_account:
  assumes "c < length (pw_cells (sy_world s))" "pw_cells w' = pw_cells (set_cell c CellClaimed (sy_world s))" "pw_queue w' = pw_queue (sy_world s)"
  shows "sys_account f (s\<lparr>sy_world := w'\<rparr>) + cell_account f (ce_state (pw_cells (sy_world s) ! c)) = sys_account f s"
proof -
  have "world_account f w' = world_account f (set_cell c CellClaimed (sy_world s))"
    using assms(2,3) by (simp add: world_account_def set_cell_def)
  then show ?thesis using account_shift [OF set_cell_account [OF assms(1), of f CellClaimed]] by (simp add: sys_account_def)
qed

lemma release_cell:
  fixes s :: "('r, 's, 'o, 'e, 'p, 'q) pending_sys"
  assumes "books tr s" "c < length (pw_cells (sy_world s))"
    "\<And>f :: ('e, 'p) root_set \<Rightarrow> bool \<Rightarrow> 'e multiset. cell_account f (ce_state (pw_cells (sy_world s) ! c)) = f roots lease"
    "\<And>f :: ('e, 'p) root_set \<Rightarrow> bool \<Rightarrow> nat. cell_account f (ce_state (pw_cells (sy_world s) ! c)) = f roots lease"
  shows "\<exists>w'. drop_pending_lease lease (log_discard d roots (set_cell c CellClaimed (sy_world s))) = Some w' \<and>
    books (tr @ []) (s\<lparr>sy_world := w'\<rparr>)"
proof (rule release_lease_step [OF assms(1)])
  fix w' :: "('r, 's, 'o, 'e, 'p, 'q) pending_world"
  assume "pw_cells w' = pw_cells (set_cell c CellClaimed (sy_world s))" "pw_queue w' = pw_queue (set_cell c CellClaimed (sy_world s))"
  then show "held_escrows (s\<lparr>sy_world := w'\<rparr>) + escrow_of roots lease = held_escrows s"
      "leases_out (s\<lparr>sy_world := w'\<rparr>) + lease_of roots lease = leases_out s"
    using claim_account [OF assms(2), of w' escrow_of] claim_account [OF assms(2), of w' lease_of] assms(3,4)
    by (simp_all add: set_cell_def)
qed (simp_all add: set_cell_def)

lemma abandon_books:
  fixes s :: "('r, 's, 'o, 'e, 'p, 'q) pending_sys"
  assumes "books tr s" "c < length (pw_cells (sy_world s))"
  shows "\<exists>b w'. abandon_before_publication c (sy_world s) = Some (b, w') \<and> books (tr @ []) (s\<lparr>sy_world := w'\<rparr>)"
proof (cases "ce_state (pw_cells (sy_world s) ! c)")
  case (CellOpen roots lease)
  then show ?thesis using release_cell [OF assms, of roots lease] by (simp add: abandon_before_publication_def) force
next
  case (CellSettled st roots lease)
  then show ?thesis using release_cell [OF assms, of roots lease] by (simp add: abandon_before_publication_def) force
qed (use assms in \<open>auto simp: abandon_before_publication_def\<close>)

lemma drop_cell_books:
  fixes s :: "('r, 's, 'o, 'e, 'p, 'q) pending_sys"
  assumes "books tr s" "c < length (pw_cells (sy_world s))"
  shows "\<exists>w'. drop_cell c (sy_world s) = Some w' \<and> books (tr @ []) (s\<lparr>sy_world := w'\<rparr>)"
proof (cases "ce_state (pw_cells (sy_world s) ! c)")
  case (CellOpen roots lease)
  then show ?thesis using release_cell [OF assms, of roots lease] by (simp add: drop_cell_def)
next
  case (CellSettled st roots lease)
  then show ?thesis using release_cell [OF assms, of roots lease] by (simp add: drop_cell_def)
next
  case (CellWaiting q ow)
  then show ?thesis using release_cell [OF assms, of "po_roots ow" "po_lease ow"] by (simp add: drop_cell_def drop_owner_def)
qed (use assms in \<open>simp_all add: drop_cell_def\<close>)

lemma cell_publish_account:
  fixes f :: "('e, 'p) root_set \<Rightarrow> bool \<Rightarrow> 'a::cancel_comm_monoid_add"
  assumes "c < length (pw_cells w)"
  shows "world_account f (snd (cell_publish c d q w)) = world_account f w"
proof (cases "ce_state (pw_cells w ! c)")
  case (CellOpen roots lease)
  then show ?thesis using set_cell_account [OF assms, of f "CellWaiting q (attach_draft d (ce_ticket (pw_cells w ! c)) roots lease)"]
    by (simp add: cell_publish_def attach_draft_def)
next
  case (CellSettled st roots lease)
  then show ?thesis using set_cell_account [OF assms, of f CellClaimed]
    by (simp add: cell_publish_def enqueue_account owner_account_def attach_draft_def)
qed (simp_all add: cell_publish_def)

lemma cell_settle_account:
  fixes f :: "('e, 'p) root_set \<Rightarrow> bool \<Rightarrow> 'a::cancel_comm_monoid_add"
  assumes "c < length (pw_cells w)"
  shows "world_account f (snd (cell_settle c st w)) = world_account f w"
proof (cases "ce_state (pw_cells w ! c)")
  case (CellOpen roots lease)
  then show ?thesis using set_cell_account [OF assms, of f "CellSettled st roots lease"] by (simp add: cell_settle_def)
next
  case (CellWaiting q ow)
  then show ?thesis using set_cell_account [OF assms, of f CellClaimed] by (simp add: cell_settle_def enqueue_account owner_account_def)
qed (simp_all add: cell_settle_def)

lemma cell_publish_rest [simp]:
  "pw_inventory (snd (cell_publish c d q w)) = pw_inventory w" "pw_log (snd (cell_publish c d q w)) = pw_log w"
  by (simp_all add: cell_publish_def set_cell_def enqueue_def Let_def split: cell_state.splits)

lemma cell_settle_rest [simp]:
  "pw_inventory (snd (cell_settle c st w)) = pw_inventory w" "pw_log (snd (cell_settle c st w)) = pw_log w"
  by (simp_all add: cell_settle_def set_cell_def enqueue_def split: cell_state.splits)

text \<open>
  One step: the registry does not panic and the books still balance. The one call that panics is a resume of a
  guard whose roots are settled already, which is one that an earlier failed resume handed back.
\<close>

abbreviation spent :: "('r, 's, 'o, 'e, 'p) mapped_guard \<Rightarrow> bool" where
  "spent g \<equiv> rs_transferred (po_roots (mg_owner g)) = None"

fun resumes_spent :: "('r, 's, 'o, 'e, 'p, 'q) pending_op \<Rightarrow> ('r, 's, 'o, 'e, 'p, 'q) pending_sys \<Rightarrow> bool" where
  "resumes_spent (OpResume i chain res) s = (i < length (sy_guards s) \<and> spent (sy_guards s ! i))"
| "resumes_spent op s = False"

definition good_step ::
  "('o, 'e) pending_event list \<Rightarrow> (('o, 'e) pending_event list \<times> ('r, 's, 'o, 'e, 'p, 'q) pending_sys) option \<Rightarrow> bool" where
  "good_step tr r \<longleftrightarrow> (\<exists>evs s'. r = Some (evs, s') \<and> books (tr @ evs) s')"

lemma good_Some [simp]: "good_step tr (Some (evs, s')) \<longleftrightarrow> books (tr @ evs) s'"
  by (simp add: good_step_def)

lemma publish_books: "books tr s \<Longrightarrow> good_step tr (pending_step (OpPublish c d q) s)"
  by (auto simp: sys_account_def cell_publish_account split_def Let_def split: sum.splits intro: books_keep)

lemma settle_books: "books tr s \<Longrightarrow> good_step tr (pending_step (OpSettle c st) s)"
  by (auto simp: sys_account_def cell_settle_account split_def Let_def split: settle_disposition.splits intro: books_keep)

lemma queue_account:
  "i < length (pw_queue w) \<Longrightarrow>
   world_account f w = world_account f (w\<lparr>pw_queue := without i (pw_queue w)\<rparr>) + owner_account f (pk_owner (snd (pw_queue w ! i)))"
  using sum_list_without [of i "pw_queue w" "\<lambda>(_, k). owner_account f (pk_owner k)"] by (simp add: world_account_def split_def ac_simps)

lemma guards_account:
  "i < length (sy_guards s) \<Longrightarrow>
   sys_account f s = sys_account f (s\<lparr>sy_guards := without i (sy_guards s)\<rparr>) + owner_account f (mg_owner (sy_guards s ! i))"
  using sum_list_without [of i "sy_guards s" "\<lambda>g. owner_account f (mg_owner g)"] by (simp add: sys_account_def ac_simps)

lemma queue_resumable:
  "resumable s \<Longrightarrow> i < length (pw_queue (sy_world s)) \<Longrightarrow> \<exists>r. po_resume (pk_owner (snd (pw_queue (sy_world s) ! i))) = Some r"
  using nth_mem [of i "pw_queue (sy_world s)"] by (simp add: resumable_def)

lemma take_books:
  assumes "books tr s" "resumable s"
  shows "good_step tr (pending_step (OpTake i f) s)"
proof (cases "i < length (pw_queue (sy_world s))")
  case True
  obtain r where "po_resume (pk_owner (snd (pw_queue (sy_world s) ! i))) = Some r" using queue_resumable [OF assms(2) True] by blast
  then show ?thesis using True queue_account [OF True, of escrow_of] queue_account [OF True, of lease_of]
    by (auto simp: map_wake_def sys_account_def ac_simps intro!: books_keep_all [OF assms(1)])
qed (use assms in simp)

lemma drop_wake_books:
  fixes s :: "('r, 's, 'o, 'e, 'p, 'q) pending_sys"
  assumes "books tr s"
  shows "good_step tr (pending_step (OpDropWake i) s)"
proof (cases "i < length (pw_queue (sy_world s))")
  case True
  let ?ow = "pk_owner (snd (pw_queue (sy_world s) ! i))" and ?w = "(sy_world s)\<lparr>pw_queue := without i (pw_queue (sy_world s))\<rparr>"
  have "\<exists>w'. drop_pending_lease (po_lease ?ow) (log_discard RootsOwnerAbandoned (po_roots ?ow) ?w) = Some w' \<and> books (tr @ []) (s\<lparr>sy_world := w'\<rparr>)"
  proof (rule release_lease_step [OF assms])
    fix w' :: "('r, 's, 'o, 'e, 'p, 'q) pending_world"
    assume "pw_cells w' = pw_cells ?w" "pw_queue w' = pw_queue ?w"
    then have "world_account f w' = world_account f ?w" for f :: "('e, 'p) root_set \<Rightarrow> bool \<Rightarrow> 'z::comm_monoid_add"
      by (simp add: world_account_def)
    note same = this [of escrow_of] this [of lease_of]
    show "held_escrows (s\<lparr>sy_world := w'\<rparr>) + escrow_of (po_roots ?ow) (po_lease ?ow) = held_escrows s"
        "leases_out (s\<lparr>sy_world := w'\<rparr>) + lease_of (po_roots ?ow) (po_lease ?ow) = leases_out s"
      using same queue_account [OF True, of escrow_of] queue_account [OF True, of lease_of]
      by (simp_all add: sys_account_def owner_account_def ac_simps)
  qed simp_all
  then show ?thesis using True by (auto simp: drop_owner_def)
qed (use assms in simp)

lemma drop_guard_books:
  fixes s :: "('r, 's, 'o, 'e, 'p, 'q) pending_sys"
  assumes "books tr s"
  shows "good_step tr (pending_step (OpDropGuard i) s)"
proof (cases "i < length (sy_guards s)")
  case True
  let ?ow = "mg_owner (sy_guards s ! i)" and ?w = "sy_world s"
  have "\<exists>w'. drop_pending_lease (po_lease ?ow) (log_discard RootsOwnerAbandoned (po_roots ?ow) ?w) = Some w' \<and>
      books (tr @ []) (s\<lparr>sy_world := w', sy_guards := without i (sy_guards s)\<rparr>)"
  proof (rule release_lease_step [OF assms])
    fix w' :: "('r, 's, 'o, 'e, 'p, 'q) pending_world"
    assume "pw_cells w' = pw_cells ?w" "pw_queue w' = pw_queue ?w"
    then have "world_account f w' = world_account f ?w" for f :: "('e, 'p) root_set \<Rightarrow> bool \<Rightarrow> 'z::comm_monoid_add"
      by (simp add: world_account_def)
    note same = this [of escrow_of] this [of lease_of]
    show "held_escrows (s\<lparr>sy_world := w', sy_guards := without i (sy_guards s)\<rparr>) + escrow_of (po_roots ?ow) (po_lease ?ow) = held_escrows s"
        "leases_out (s\<lparr>sy_world := w', sy_guards := without i (sy_guards s)\<rparr>) + lease_of (po_roots ?ow) (po_lease ?ow) = leases_out s"
      using same guards_account [OF True, of escrow_of] guards_account [OF True, of lease_of]
      by (simp_all add: sys_account_def owner_account_def ac_simps)
  qed simp_all
  then show ?thesis using True by (auto simp: drop_owner_def)
qed (use assms in simp)

text \<open>A resume ends the escrow of its guard in every case; on success the lease is given back as well.\<close>

lemma resume_books:
  fixes s :: "('r, 's, 'o, 'e, 'p, 'q) pending_sys"
  assumes "books tr s" "resumable s" "\<not> resumes_spent (OpResume i chain res) s"
  shows "good_step tr (pending_step (OpResume i chain res) s)"
proof (cases "i < length (sy_guards s)")
  case i: True
  then have True: "i < length (sy_guards s) \<and> \<not> spent (sy_guards s ! i)" using assms(3) by simp
  let ?g = "sy_guards s ! i" and ?w = "sy_world s"
  let ?ow = "mg_owner ?g"
  obtain e where e: "rs_transferred (po_roots ?ow) = Some e" using True by auto
  have "?g \<in> set (sy_guards s)" using True by simp
  then obtain token out where tok: "po_resume ?ow = Some token" "mg_outcome ?g = Some out" using assms(2) True by (auto simp: resumable_def)
  define log where "log = pw_log ?w @ [(e, source_event (mg_source ?g))]"
  have settled: "settle_transferred (mg_source ?g) (po_roots ?ow) (pw_log ?w) = Some ((po_roots ?ow)\<lparr>rs_transferred := None\<rparr>, log)"
    using e by (simp add: settle_transferred_def log_def)
  have escrow: "escrow_of (po_roots ?ow) l = {#e#}" for l using e by (simp add: escrow_of_def)
  have failed: "books tr (s\<lparr>sy_world := ?w\<lparr>pw_log := log\<rparr>, sy_guards := without i (sy_guards s) @ [g']\<rparr>)"
    if "po_roots (mg_owner g') = (po_roots ?ow)\<lparr>rs_transferred := None\<rparr>" "po_lease (mg_owner g') = po_lease ?ow" for g'
    using assms(1) guards_account [OF i, of escrow_of] guards_account [OF i, of lease_of] that escrow
    by (simp add: books_def sys_account_def owner_account_def log_def ac_simps)
  show ?thesis
  proof (cases res)
    case None
    let ?rs = "(po_roots ?ow)\<lparr>rs_transferred := None, rs_retained := None\<rparr>"
    have "of_bool (po_lease ?ow) \<le> owner_count (?w\<lparr>pw_log := log\<rparr>)"
      using assms(1) guards_account [OF i, of lease_of] by (simp add: books_def owner_account_def)
    from release_exact [OF this, of RootsOwnerAbandoned ?rs] obtain w' where w':
        "drop_pending_lease (po_lease ?ow) (?w\<lparr>pw_log := log\<rparr>) = Some w'" "owner_count w' + of_bool (po_lease ?ow) = owner_count ?w"
        "logged w' = mset (map fst log)" "pw_cells w' = pw_cells ?w" "pw_queue w' = pw_queue ?w"
      by (auto simp: log_discard_def discard_transferred_def escrow_of_def)
    have "books tr (s\<lparr>sy_world := w', sy_guards := without i (sy_guards s)\<rparr>)"
      using assms(1) guards_account [OF i, of escrow_of] guards_account [OF i, of lease_of] w' escrow
      by (simp add: books_def sys_account_def owner_account_def world_account_def log_def ac_simps)
    then show ?thesis using None True settled tok w'(1)
      by (auto simp: resume_and_commit_def Let_def discard_transferred_def)
  next
    case (Some x)
    then show ?thesis using True settled tok by (cases x) (auto simp: resume_and_commit_def Let_def intro!: failed)
  qed
qed (use assms in auto)

lemma other_domain_count:
  "d \<noteq> PendingDomain \<Longrightarrow> mint_lease d i = Inr i' \<Longrightarrow> ds_current (is_pending i') = ds_current (is_pending i)"
  "d \<noteq> PendingDomain \<Longrightarrow> drop_lease d i = Some i' \<Longrightarrow> ds_current (is_pending i') = ds_current (is_pending i)"
  using owners.aside_count [of PendingDomain i i'] by (auto simp: inventory_aside_def)

lemma step_books:
  fixes s :: "('r, 's, 'o, 'e, 'p, 'q) pending_sys"
  assumes "books tr s" "resumable s" "1 \<le> pw_next (sy_world s)" "\<not> resumes_spent op s"
  shows "good_step tr (pending_step op s)"
proof (cases op)
  case (OpBegin e)
  then show ?thesis using begin_with_roots_books [OF assms(1,3), of "transferred_only e" e] assms(1)
    by (auto simp: begin_pending_def)
next
  case (OpBeginRetaining same e p)
  have "books (tr @ [Handed e]) (s\<lparr>sy_world := log_discard d (transferred_only e) (sy_world s)\<rparr>)" for d
    by (rule books_refused [OF assms(1)]) (simp_all add: sys_account_def log_discard_def discard_transferred_def transferred_only_def)
  then show ?thesis using OpBeginRetaining begin_with_roots_books [OF assms(1,3), of "retaining_resource e p" e] assms(1)
    by (auto simp: begin_with_resource_roots_def)
next
  case (OpAbandon c)
  then show ?thesis using abandon_books [OF assms(1), of c] assms(1) by auto
next
  case (OpDropCell c)
  then show ?thesis using drop_cell_books [OF assms(1), of c] assms(1) by auto
next
  case (OpMintOther d)
  then show ?thesis using assms(1) other_domain_count [of d "pw_inventory (sy_world s)"]
    by (cases "mint_lease d (pw_inventory (sy_world s))")
      (auto simp: sys_account_def intro!: books_keep_all [OF assms(1)])
next
  case (OpDropOther d)
  then show ?thesis using assms(1) other_domain_count [of d "pw_inventory (sy_world s)"]
    by (cases "drop_lease d (pw_inventory (sy_world s))")
      (auto simp: sys_account_def intro!: books_keep_all [OF assms(1)])
next
  case OpFreeze
  then show ?thesis using assms(1)
    by (auto simp: sys_account_def freeze_inventory_def intro!: books_keep_all [OF assms(1)])
next
  case (OpRemove c)
  then show ?thesis using assms(1) by (auto simp: sys_account_def remove_exact_def intro!: books_keep_all [OF assms(1)])
next
  case (OpResume i chain res)
  then show ?thesis using resume_books [OF assms(1,2), of i chain res] assms(4) by (simp del: pending_step.simps)
qed (use assms(1-3) publish_books settle_books take_books drop_wake_books drop_guard_books in
    \<open>auto simp: sys_account_def Let_def simp del: pending_step.simps(4,5,8,9,10,11) intro!: books_keep_all [OF assms(1)]\<close>)

section \<open>Tokens and tickets\<close>

lemma set_without: "x \<in> set (without i xs) \<Longrightarrow> x \<in> set xs"
  by (auto simp: without_def dest: in_set_takeD in_set_dropD)

lemma drop_lease_world: "drop_pending_lease lease w = Some w' \<Longrightarrow> \<exists>i. w' = w\<lparr>pw_inventory := i\<rparr>"
  by (cases w) (auto simp: drop_pending_lease_def split: if_splits)

lemma set_cell_in: "c \<in> set (pw_cells (set_cell i st w)) \<Longrightarrow> c \<in> set (pw_cells w) \<or> ce_state c = st"
  by (auto simp: set_cell_def dest!: set_update_subset_insert [THEN subsetD])

lemma log_discard_world [simp]:
  "pw_cells (log_discard d r w) = pw_cells w" "pw_queue (log_discard d r w) = pw_queue w" "pw_table (log_discard d r w) = pw_table w"
  "pw_next (log_discard d r w) = pw_next w"
  by (simp_all add: log_discard_def)

lemma set_cell_world [simp]:
  "pw_queue (set_cell c st w) = pw_queue w" "pw_table (set_cell c st w) = pw_table w" "pw_next (set_cell c st w) = pw_next w"
  "length (pw_cells (set_cell c st w)) = length (pw_cells w)"
  by (simp_all add: set_cell_def)

lemma enqueue_world [simp]:
  "pw_cells (enqueue q k w) = pw_cells w" "pw_table (enqueue q k w) = pw_table w" "pw_next (enqueue q k w) = pw_next w"
  "pw_queue (enqueue q k w) = pw_queue w @ [(q, k)]"
  by (simp_all add: enqueue_def)

lemma cells_resumable:
  "resumable s \<Longrightarrow> (\<And>c q ow. c \<in> set (pw_cells w) \<Longrightarrow> ce_state c = CellWaiting q ow \<Longrightarrow> po_resume ow = None \<Longrightarrow> c \<in> set (pw_cells (sy_world s))) \<Longrightarrow>
   (\<And>k. k \<in> set (pw_queue w) \<Longrightarrow> po_resume (pk_owner (snd k)) = None \<Longrightarrow> k \<in> set (pw_queue (sy_world s))) \<Longrightarrow> resumable (s\<lparr>sy_world := w\<rparr>)"
  unfolding resumable_def by (simp del: not_None_eq) blast

lemma begin_resumable:
  "begin_with_roots roots (sy_world s) = Some (r, w) \<Longrightarrow> resumable s \<Longrightarrow> resumable (s\<lparr>sy_world := w\<rparr>)"
  by (rule cells_resumable, assumption)
    (auto simp: begin_with_roots_def begin_with_ticket_def install_with_guard_def cell_arm_def cell_new_def split: option.splits if_splits)

lemma abandon_resumable:
  "abandon_before_publication c (sy_world s) = Some (b, w) \<Longrightarrow> resumable s \<Longrightarrow> resumable (s\<lparr>sy_world := w\<rparr>)"
  by (rule cells_resumable, assumption)
    (auto simp: abandon_before_publication_def split: cell_state.splits dest!: drop_lease_world set_cell_in)

lemma drop_cell_resumable: "drop_cell c (sy_world s) = Some w \<Longrightarrow> resumable s \<Longrightarrow> resumable (s\<lparr>sy_world := w\<rparr>)"
  by (rule cells_resumable, assumption)
    (auto simp: drop_cell_def drop_owner_def Let_def split: cell_state.splits dest!: drop_lease_world set_cell_in)

lemma publish_resumable: "cell_publish c d q (sy_world s) = (r, w) \<Longrightarrow> resumable s \<Longrightarrow> resumable (s\<lparr>sy_world := w\<rparr>)"
  by (rule cells_resumable, assumption)
    (auto simp: cell_publish_def attach_draft_def Let_def split: cell_state.splits dest!: set_cell_in)

lemma settle_resumable:
  assumes "cell_settle c st (sy_world s) = (r, w)" "resumable s" "c < length (pw_cells (sy_world s))"
  shows "resumable (s\<lparr>sy_world := w\<rparr>)"
proof -
  have "po_resume ow \<noteq> None" if "ce_state (pw_cells (sy_world s) ! c) = CellWaiting q ow" for q ow
    using assms(2,3) that nth_mem unfolding resumable_def by blast
  then show ?thesis using assms(1) by (intro cells_resumable [OF assms(2)]) (auto simp: cell_settle_def split: cell_state.splits dest!: set_cell_in)
qed

lemma resume_world:
  assumes "resume_and_commit f commit g w = Some (r, w')"
  shows "pw_cells w' = pw_cells w \<and> pw_queue w' = pw_queue w \<and> pw_table w' = pw_table w \<and> pw_next w' = pw_next w \<and>
    (\<forall>x g'. r = Inl (x, g') \<longrightarrow> rs_transferred (po_roots (mg_owner g')) = None)"
  using assms
  by (auto simp: resume_and_commit_def settle_transferred_def Let_def split: option.splits prod.splits resume_failure.splits dest!: drop_lease_world)

lemma resume_step:
  assumes "pending_step (OpResume i chain res) s = Some (evs, s')"
  shows "evs = [] \<and> pw_cells (sy_world s') = pw_cells (sy_world s) \<and> pw_queue (sy_world s') = pw_queue (sy_world s) \<and>
    pw_table (sy_world s') = pw_table (sy_world s) \<and> pw_next (sy_world s') = pw_next (sy_world s) \<and> sy_live s' = sy_live s \<and>
    (\<forall>g \<in> set (sy_guards s'). g \<in> set (sy_guards s) \<or> rs_transferred (po_roots (mg_owner g)) = None)"
proof (cases "i < length (sy_guards s)")
  case True
  then obtain r w' where r: "resume_and_commit (\<lambda>_ _ _. (chain, res)) (\<lambda>_ _. ()) (sy_guards s ! i) (sy_world s) = Some (r, w')"
      and s': "evs = []" "s' = s\<lparr>sy_world := w', sy_guards := without i (sy_guards s) @ (case r of Inl (_, g) \<Rightarrow> [g] | Inr _ \<Rightarrow> [])\<rparr>"
    using assms by auto
  show ?thesis using resume_world [OF r] by (auto simp: s' split: sum.splits dest: set_without)
qed (use assms in auto)

lemma other_steps_world:
  assumes "pending_step op s = Some (evs, s')" "\<And>e. op \<noteq> OpBegin e" "\<And>b e p. op \<noteq> OpBeginRetaining b e p" "\<And>c d q. op \<noteq> OpPublish c d q"
    "\<And>c st. op \<noteq> OpSettle c st" "\<And>c. op \<noteq> OpAbandon c" "\<And>c. op \<noteq> OpDropCell c"
  shows "evs = [] \<and> pw_cells (sy_world s') = pw_cells (sy_world s) \<and> set (pw_queue (sy_world s')) \<subseteq> set (pw_queue (sy_world s)) \<and>
    pw_next (sy_world s) \<le> pw_next (sy_world s')"
proof (cases op)
  case (OpResume i chain res)
  then show ?thesis using resume_step assms(1) by (metis order_refl)
qed (use assms in \<open>auto simp: Let_def remove_exact_def drop_owner_def map_wake_def
      split: if_splits option.splits prod.splits sum.splits dest!: drop_lease_world set_without\<close>)

lemma guards_resumable:
  assumes "resumable s" "pw_cells (sy_world s') = pw_cells (sy_world s)" "set (pw_queue (sy_world s')) \<subseteq> set (pw_queue (sy_world s))"
    "\<And>g. g \<in> set (sy_guards s') \<Longrightarrow> g \<in> set (sy_guards s) \<or> rs_transferred (po_roots (mg_owner g)) = None \<or> po_resume (mg_owner g) \<noteq> None \<and> mg_outcome g \<noteq> None"
  shows "resumable s'"
proof -
  have "po_resume (mg_owner g) \<noteq> None \<and> mg_outcome g \<noteq> None"
    if "g \<in> set (sy_guards s')" "rs_transferred (po_roots (mg_owner g)) \<noteq> None" for g
    using assms(4) [OF that(1)] that(2) assms(1) unfolding resumable_def by blast
  moreover have "po_resume (pk_owner (snd k)) \<noteq> None" if "k \<in> set (pw_queue (sy_world s'))" for k
    using that assms(1,3) unfolding resumable_def by blast
  ultimately show ?thesis using assms(1,2) unfolding resumable_def by simp
qed

lemma other_steps_guards:
  assumes "pending_step op s = Some (evs, s')" "g \<in> set (sy_guards s')"
  shows "g \<in> set (sy_guards s) \<or> rs_transferred (po_roots (mg_owner g)) = None \<or> po_resume (mg_owner g) \<noteq> None \<and> mg_outcome g \<noteq> None"
proof (cases op)
  case (OpResume i chain res)
  then show ?thesis using resume_step assms by metis
qed (use assms in \<open>auto simp: Let_def map_wake_def split: if_splits option.splits prod.splits sum.splits dest!: set_without\<close>)

lemma step_resumable:
  assumes "pending_step op s = Some (evs, s')" "resumable s"
  shows "resumable s'"
proof -
  consider (cells) "(\<exists>e. op = OpBegin e) \<or> (\<exists>b e p. op = OpBeginRetaining b e p) \<or> (\<exists>c d q. op = OpPublish c d q) \<or>
      (\<exists>c st. op = OpSettle c st) \<or> (\<exists>c. op = OpAbandon c) \<or> (\<exists>c. op = OpDropCell c)"
    | (other) "\<And>e. op \<noteq> OpBegin e" "\<And>b e p. op \<noteq> OpBeginRetaining b e p" "\<And>c d q. op \<noteq> OpPublish c d q"
      "\<And>c st. op \<noteq> OpSettle c st" "\<And>c. op \<noteq> OpAbandon c" "\<And>c. op \<noteq> OpDropCell c" by blast
  then show ?thesis
  proof cases
    case cells
    have "resumable (s\<lparr>sy_world := log_discard d r (sy_world s)\<rparr>)" for d r
      by (rule cells_resumable [OF assms(2)]) simp_all
    then show ?thesis using cells assms
      by (auto simp: begin_pending_def begin_with_resource_roots_def split: if_splits option.splits prod.splits
          dest: begin_resumable abandon_resumable drop_cell_resumable publish_resumable settle_resumable)
  next
    case other
    show ?thesis using other_steps_world [OF assms(1) other] other_steps_guards [OF assms(1)] guards_resumable [OF assms(2)] by blast
  qed
qed

section \<open>Guards are spent only by a failed resume\<close>

fun cell_unspent :: "('r, 's, 'o, 'e, 'p, 'q) cell_state \<Rightarrow> bool" where
  "cell_unspent (CellOpen roots _) \<longleftrightarrow> rs_transferred roots \<noteq> None"
| "cell_unspent (CellSettled _ roots _) \<longleftrightarrow> rs_transferred roots \<noteq> None"
| "cell_unspent (CellWaiting _ ow) \<longleftrightarrow> rs_transferred (po_roots ow) \<noteq> None"
| "cell_unspent CellClaimed \<longleftrightarrow> True"

definition world_unspent :: "('r, 's, 'o, 'e, 'p, 'q) pending_world \<Rightarrow> bool" where
  "world_unspent w \<longleftrightarrow>
     (\<forall>c \<in> set (pw_cells w). cell_unspent (ce_state c)) \<and>
     (\<forall>k \<in> set (pw_queue w). rs_transferred (po_roots (pk_owner (snd k))) \<noteq> None)"

definition unspent :: "('r, 's, 'o, 'e, 'p, 'q) pending_sys \<Rightarrow> bool" where
  "unspent s \<longleftrightarrow> world_unspent (sy_world s) \<and> (\<forall>g \<in> set (sy_guards s). \<not> spent g)"

lemma unspent_cells:
  assumes "world_unspent w" "\<And>c. c \<in> set (pw_cells w') \<Longrightarrow> c \<in> set (pw_cells w) \<or> cell_unspent (ce_state c)"
    "\<And>k. k \<in> set (pw_queue w') \<Longrightarrow> k \<in> set (pw_queue w) \<or> rs_transferred (po_roots (pk_owner (snd k))) \<noteq> None"
  shows "world_unspent w'"
  using assms unfolding world_unspent_def by blast

lemma unspent_cell: "world_unspent w \<Longrightarrow> c < length (pw_cells w) \<Longrightarrow> cell_unspent (ce_state (pw_cells w ! c))"
  by (simp add: world_unspent_def)

lemma begin_unspent:
  assumes "world_unspent w" "begin_with_roots roots w = Some (r, w')" "rs_transferred roots \<noteq> None"
  shows "world_unspent w'"
  by (rule unspent_cells [OF assms(1)])
    (use assms(2,3) in \<open>auto simp: begin_with_roots_def begin_with_ticket_def install_with_guard_def cell_arm_def cell_new_def split: option.splits if_splits\<close>)

lemma claim_unspent:
  "world_unspent w \<Longrightarrow> abandon_before_publication c w = Some (b, w') \<Longrightarrow> world_unspent w'"
  "world_unspent w \<Longrightarrow> drop_cell c w = Some w' \<Longrightarrow> world_unspent w'"
  by (erule unspent_cells; auto simp: abandon_before_publication_def drop_cell_def drop_owner_def Let_def
      split: cell_state.splits dest!: drop_lease_world set_cell_in)+

lemma publish_unspent:
  assumes "world_unspent w" "cell_publish c d q w = (r, w')" "c < length (pw_cells w)"
  shows "world_unspent w'"
  by (rule unspent_cells [OF assms(1)])
    (use assms(2) unspent_cell [OF assms(1,3)] in \<open>auto simp: cell_publish_def attach_draft_def Let_def split: cell_state.splits dest!: set_cell_in\<close>)

lemma settle_unspent:
  assumes "world_unspent w" "cell_settle c st w = (r, w')" "c < length (pw_cells w)"
  shows "world_unspent w'"
  by (rule unspent_cells [OF assms(1)])
    (use assms(2) unspent_cell [OF assms(1,3)] in \<open>auto simp: cell_settle_def split: cell_state.splits dest!: set_cell_in\<close>)

lemma unspent_world: "unspent s \<Longrightarrow> world_unspent w \<Longrightarrow> unspent (s\<lparr>sy_world := w\<rparr>)"
  by (simp add: unspent_def)

fun failed_resume :: "('r, 's, 'o, 'e, 'p, 'q) pending_op \<Rightarrow> bool" where
  "failed_resume (OpResume i chain (Some x)) = True"
| "failed_resume op = False"

lemma guards_unspent:
  assumes "pending_step op s = Some (evs, s')" "unspent s" "\<not> failed_resume op" "g \<in> set (sy_guards s')"
  shows "\<not> spent g"
proof (cases op)
  case (OpResume i chain res)
  then have "res = None" using assms(3) by (cases res) simp_all
  then show ?thesis using assms OpResume
    by (auto simp: unspent_def resume_and_commit_def Let_def split: if_splits option.splits prod.splits dest!: set_without)
next
  case (OpTake i f)
  show ?thesis
  proof (cases "i < length (pw_queue (sy_world s))")
    case True
    then have "rs_transferred (po_roots (pk_owner (snd (pw_queue (sy_world s) ! i)))) \<noteq> None"
      using assms(2) unfolding unspent_def world_unspent_def by (meson nth_mem)
    then show ?thesis using assms OpTake True by (auto simp: unspent_def map_wake_def split: option.splits)
  qed (use assms OpTake in \<open>auto simp: unspent_def\<close>)
qed (use assms in \<open>auto simp: unspent_def Let_def split: if_splits option.splits prod.splits sum.splits dest!: set_without\<close>)

lemma step_unspent:
  assumes "pending_step op s = Some (evs, s')" "unspent s" "\<not> failed_resume op"
  shows "unspent s'"
proof -
  have w: "world_unspent (sy_world s)" using assms(2) by (simp add: unspent_def)
  consider (cells) "(\<exists>e. op = OpBegin e) \<or> (\<exists>b e p. op = OpBeginRetaining b e p) \<or> (\<exists>c d q. op = OpPublish c d q) \<or>
      (\<exists>c st. op = OpSettle c st) \<or> (\<exists>c. op = OpAbandon c) \<or> (\<exists>c. op = OpDropCell c)"
    | (other) "\<And>e. op \<noteq> OpBegin e" "\<And>b e p. op \<noteq> OpBeginRetaining b e p" "\<And>c d q. op \<noteq> OpPublish c d q"
      "\<And>c st. op \<noteq> OpSettle c st" "\<And>c. op \<noteq> OpAbandon c" "\<And>c. op \<noteq> OpDropCell c" by blast
  then have "world_unspent (sy_world s')"
  proof cases
    case cells
    have "world_unspent (log_discard d r (sy_world s))" for d r by (rule unspent_cells [OF w]) simp_all
    then show ?thesis using cells assms(1) w
      by (auto simp: begin_pending_def begin_with_resource_roots_def split: if_splits option.splits prod.splits
          dest!: begin_unspent [OF w] claim_unspent [OF w] publish_unspent [OF w] settle_unspent [OF w]
          simp: transferred_only_def retaining_resource_def)
  next
    case other
    show ?thesis using other_steps_world [OF assms(1) other] by (intro unspent_cells [OF w]) auto
  qed
  then show ?thesis using guards_unspent [OF assms] by (simp add: unspent_def)
qed

end
