(* ===== verification/Request_Pending_Properties.thy ===== *)
theory Request_Pending_Properties
  imports Request_Pending_Runs
begin

text \<open>
  What holds of every run of the pending registry: every escrow ends exactly once, the only panic is the
  resume of a guard that a failed resume handed back, the inventory counts the leases, a cell has one
  winner whose wake is not lost, the root walk sees exactly the roots of the unclaimed cells, and whole
  calls leave a ticket only for an operation that is not over.
\<close>

section \<open>Runs keep invariants\<close>

lemma run_invariant:
  assumes "\<And>op tr s evs s'. I tr s \<Longrightarrow> pending_step op s = Some (evs, s') \<Longrightarrow> I (tr @ evs) s'"
    and "I tr s" "pending_run ops s = Some (evs, s')"
  shows "I (tr @ evs) s'"
  using assms(2,3)
proof (induction ops arbitrary: tr s evs)
  case (Cons op ops)
  then obtain evs1 s1 evs2 where step: "pending_step op s = Some (evs1, s1)" "pending_run ops s1 = Some (evs2, s')" "evs = evs1 @ evs2"
    by (auto split: option.splits)
  show ?case using Cons.IH [OF assms(1) [OF Cons.prems(1) step(1)] step(2)] step(3) by simp
qed simp

lemma run_invariant_start:
  assumes "\<And>op tr s evs s'. I tr s \<Longrightarrow> pending_step op s = Some (evs, s') \<Longrightarrow> I (tr @ evs) s'"
    and "I [] sys_start" "pending_run ops sys_start = Some (evs, s')"
  shows "I evs s'"
  using run_invariant [of I "[]" sys_start ops evs s', OF assms] by simp

lemma run_snoc:
  "pending_run (ops @ [op]) s =
     (case pending_run ops s of
        None \<Rightarrow> None
      | Some (tr, s1) \<Rightarrow> map_option (\<lambda>(evs, s2). (tr @ evs, s2)) (pending_step op s1))"
  by (induction ops arbitrary: s) (auto split: option.splits simp: option.map_comp comp_def case_prod_unfold map_option_case)

section \<open>Tickets\<close>

lemma begin_next: "begin_with_roots roots w = Some (r, w') \<Longrightarrow> pw_next w \<le> pw_next w'"
  by (auto simp: begin_with_roots_def begin_with_ticket_def install_with_guard_def checked_add_u64_def split: option.splits if_splits)

lemma cells_next:
  "abandon_before_publication c w = Some (b, w') \<Longrightarrow> pw_next w' = pw_next w \<and> pw_table w' = pw_table w"
  "drop_cell c w = Some w' \<Longrightarrow> pw_next w' = pw_next w \<and> pw_table w' = pw_table w"
  "cell_publish c d q w = (p, w') \<Longrightarrow> pw_next w' = pw_next w \<and> pw_table w' = pw_table w"
  "cell_settle c st w = (t, w') \<Longrightarrow> pw_next w' = pw_next w \<and> pw_table w' = pw_table w"
  by (auto simp: abandon_before_publication_def drop_cell_def drop_owner_def cell_publish_def cell_settle_def Let_def
      split: cell_state.splits dest!: drop_lease_world)

definition balanced :: "('o, 'e) pending_event list \<Rightarrow> ('r, 's, 'o, 'e, 'p, 'q) pending_sys \<Rightarrow> bool" where
  "balanced tr s \<longleftrightarrow> books tr s \<and> resumable s \<and> 1 \<le> pw_next (sy_world s)"

lemma step_next:
  assumes "pending_step op s = Some (evs, s')"
  shows "pw_next (sy_world s) \<le> pw_next (sy_world s')"
proof (cases "(\<exists>e. op = OpBegin e) \<or> (\<exists>b e p. op = OpBeginRetaining b e p) \<or> (\<exists>c d q. op = OpPublish c d q) \<or>
    (\<exists>c st. op = OpSettle c st) \<or> (\<exists>c. op = OpAbandon c) \<or> (\<exists>c. op = OpDropCell c)")
  case True
  then show ?thesis using assms
    by (auto simp: begin_pending_def begin_with_resource_roots_def split: if_splits option.splits prod.splits dest!: cells_next)
      (erule begin_next)+
next
  case False
  then show ?thesis using other_steps_world [OF assms] by blast
qed

lemma step_balanced:
  assumes "balanced tr s" "\<not> resumes_spent op s"
  shows "\<exists>evs s'. pending_step op s = Some (evs, s') \<and> balanced (tr @ evs) s'"
proof -
  obtain evs s' where "pending_step op s = Some (evs, s')" "books (tr @ evs) s'"
    using step_books [of tr s op] assms by (auto simp: balanced_def good_step_def)
  then show ?thesis using assms step_resumable step_next by (fastforce simp: balanced_def)
qed

text \<open>A resume of a spent guard meets the panic of the code.\<close>

lemma spent_panics: "resumes_spent op s \<Longrightarrow> pending_step op s = None"
  by (cases op) (simp_all add: resume_and_commit_def settle_transferred_def)

lemma balanced_start: "balanced [] sys_start"
  by (simp add: balanced_def books_def resumable_def sys_start_def world_start_def sys_account_def world_account_def NEVER_CREATED_def)

lemma unspent_start: "unspent sys_start"
  by (simp add: unspent_def world_unspent_def sys_start_def world_start_def)

lemma run_balanced: "pending_run ops sys_start = Some (tr, s) \<Longrightarrow> balanced tr s"
proof (induction ops arbitrary: tr s rule: rev_induct)
  case (snoc op ops)
  then obtain tr1 s1 evs where s1: "pending_run ops sys_start = Some (tr1, s1)" "pending_step op s1 = Some (evs, s)" "tr = tr1 @ evs"
    by (auto simp: run_snoc split: option.splits)
  then show ?case using step_balanced [OF snoc.IH [OF s1(1)], of op] spent_panics [of op s1] by fastforce
qed (simp add: balanced_start)

lemma run_unspent:
  "pending_run ops sys_start = Some (tr, s) \<Longrightarrow> \<forall>op \<in> set ops. \<not> failed_resume op \<Longrightarrow> unspent s"
proof (induction ops arbitrary: tr s rule: rev_induct)
  case (snoc op ops)
  then obtain tr1 s1 evs where "pending_run ops sys_start = Some (tr1, s1)" "pending_step op s1 = Some (evs, s)"
    by (auto simp: run_snoc split: option.splits)
  then show ?case using snoc step_unspent by (metis UnCI list.set_intros(1) set_append)
qed (simp add: unspent_start)

text \<open>A run that does not return stops at a resume of a spent guard, after an earlier resume had failed.\<close>

lemma run_panics:
  "pending_run ops sys_start = None \<Longrightarrow>
     \<exists>pre op post tr s. ops = pre @ op # post \<and> pending_run pre sys_start = Some (tr, s) \<and> resumes_spent op s \<and>
       (\<exists>x \<in> set pre. failed_resume x)"
proof (induction ops rule: rev_induct)
  case (snoc op ops)
  show ?case
  proof (cases "pending_run ops sys_start")
    case None
    then show ?thesis using snoc.IH by (metis append.assoc append_Cons)
  next
    case (Some p)
    obtain tr s where p: "p = (tr, s)" by (cases p)
    have run: "pending_run ops sys_start = Some (tr, s)" using Some p by simp
    have spent: "resumes_spent op s"
      using snoc.prems step_balanced [OF run_balanced [OF run], of op] run by (auto simp: run_snoc)
    then have "\<not> unspent s" by (cases op) (auto simp: unspent_def dest: nth_mem)
    then have "\<exists>x \<in> set ops. failed_resume x" using run_unspent [OF run] by blast
    then show ?thesis using run spent by blast
  qed
qed simp

text \<open>C7: 
  Every escrow handed to the pending registry ends once, whatever host threads, the scheduler and dropped
  owners do and in whatever order. At each point of a run an escrow is either held by one cell, wake or
  claimed guard, or has ended with one backing call in the log, and the pending count of the inventory is the
  number of leases held; when nothing is held any more, each escrow has ended exactly as often as it was
  handed over and the pending count is zero. The only step at which a run can panic is the resume of a claimed
  guard whose roots are settled already, that is of a guard which an earlier failed resume handed back; a run in
  which no resume fails does not panic. (\<open>bytecode.rs\<close> keeps such a guard in its failure value.)
\<close>

theorem roots_end_once:
  "case pending_run ops sys_start of
     Some (tr, s) \<Rightarrow> held_escrows s + logged (sy_world s) = mset (handed tr) \<and> owner_count (sy_world s) = leases_out s
   | None \<Rightarrow>
       \<exists>pre i chain res post tr s. ops = pre @ OpResume i chain res # post \<and> pending_run pre sys_start = Some (tr, s) \<and>
         i < length (sy_guards s) \<and> rs_transferred (po_roots (mg_owner (sy_guards s ! i))) = None \<and>
         (\<exists>j chain' x. OpResume j chain' (Some x) \<in> set pre)"
proof (cases "pending_run ops sys_start")
  case None
  then obtain pre op post tr s where run: "ops = pre @ op # post" "pending_run pre sys_start = Some (tr, s)" "resumes_spent op s"
      "\<exists>x \<in> set pre. failed_resume x" using run_panics by blast
  obtain i chain res where op: "op = OpResume i chain res" using run(3) by (cases op) auto
  have "\<exists>j chain' y. OpResume j chain' (Some y) \<in> set pre" using run(4) by (metis failed_resume.elims(2))
  then show ?thesis using None run op by (simp; blast)
next
  case (Some p)
  then show ?thesis using run_balanced [of ops "fst p" "snd p"] by (cases p) (simp add: balanced_def books_def)
qed

section \<open>One winner\<close>

text \<open>The settlements a trace records for a cell, how often it was published, and the settlements of its wakes.\<close>

definition wins :: "nat \<Rightarrow> ('o, 'e) pending_event list \<Rightarrow> 'o pending_settlement list" where
  "wins c tr = concat (map (\<lambda>ev. case ev of Won c' st \<Rightarrow> if c' = c then [st] else [] | _ \<Rightarrow> []) tr)"

definition published :: "nat \<Rightarrow> ('o, 'e) pending_event list \<Rightarrow> nat" where
  "published c tr = length (filter (\<lambda>ev. case ev of Published c' \<Rightarrow> c' = c | _ \<Rightarrow> False) tr)"

definition wakes :: "nat \<Rightarrow> ('o, 'e) pending_event list \<Rightarrow> 'o pending_settlement list" where
  "wakes c tr = concat (map (\<lambda>ev. case ev of Queued c' st \<Rightarrow> if c' = c then [st] else [] | _ \<Rightarrow> []) tr)"

lemma story_simps [simp]:
  "wins c [] = []" "published c [] = 0" "wakes c [] = []"
  "wins c (a @ b) = wins c a @ wins c b" "published c (a @ b) = published c a + published c b" "wakes c (a @ b) = wakes c a @ wakes c b"
  "wins c (Handed e # tr) = wins c tr" "published c (Handed e # tr) = published c tr" "wakes c (Handed e # tr) = wakes c tr"
  "wins c (Won c' st # tr) = (if c' = c then [st] else []) @ wins c tr" "published c (Won c' st # tr) = published c tr" "wakes c (Won c' st # tr) = wakes c tr"
  "wins c (Published c' # tr) = wins c tr" "published c (Published c' # tr) = of_bool (c' = c) + published c tr" "wakes c (Published c' # tr) = wakes c tr"
  "wins c (Queued c' st # tr) = wins c tr" "published c (Queued c' st # tr) = published c tr" "wakes c (Queued c' st # tr) = (if c' = c then [st] else []) @ wakes c tr"
  by (simp_all add: wins_def published_def wakes_def)

lemma queued_since_simps [simp]: "queued_since c w w = []" "pw_queue w' = pw_queue w @ [(q, k)] \<Longrightarrow> queued_since c w w' = [Queued c (pk_settlement k)]"
  "pw_queue w' = pw_queue w \<Longrightarrow> queued_since c w w' = []"
  by (simp_all add: queued_since_def)

fun cell_story :: "('r, 's, 'o, 'e, 'p, 'q) cell_state \<Rightarrow> 'o pending_settlement list \<Rightarrow> nat \<Rightarrow> 'o pending_settlement list \<Rightarrow> bool" where
  "cell_story (CellOpen _ _) won n woken = (won = [] \<and> n = 0 \<and> woken = [])"
| "cell_story (CellSettled st _ _) won n woken = (won = [st] \<and> n = 0 \<and> woken = [])"
| "cell_story (CellWaiting _ _) won n woken = (won = [] \<and> n = 1 \<and> woken = [])"
| "cell_story CellClaimed won n woken = (length won = 1 \<and> n = 1 \<and> woken = won \<or> length won + n \<le> 1 \<and> woken = [])"

definition stories :: "('o, 'e) pending_event list \<Rightarrow> ('r, 's, 'o, 'e, 'p, 'q) pending_sys \<Rightarrow> bool" where
  "stories tr s \<longleftrightarrow>
     (\<forall>c. if c < length (pw_cells (sy_world s)) then cell_story (ce_state (pw_cells (sy_world s) ! c)) (wins c tr) (published c tr) (wakes c tr)
          else wins c tr = [] \<and> published c tr = 0 \<and> wakes c tr = [])"

lemma stories_keep:
  "stories tr s \<Longrightarrow> pw_cells (sy_world s') = pw_cells (sy_world s) \<Longrightarrow> (\<And>c. wins c evs = [] \<and> published c evs = 0 \<and> wakes c evs = []) \<Longrightarrow>
   stories (tr @ evs) s'"
  by (simp add: stories_def)

lemma stories_cell:
  assumes "stories tr s" "c < length (pw_cells (sy_world s))" "pw_cells w = pw_cells (set_cell c st (sy_world s))"
    "cell_story st (wins c tr @ wins c evs) (published c tr + published c evs) (wakes c tr @ wakes c evs)"
    "\<And>c'. c' \<noteq> c \<Longrightarrow> wins c' evs = [] \<and> published c' evs = 0 \<and> wakes c' evs = []"
  shows "stories (tr @ evs) (s\<lparr>sy_world := w\<rparr>)"
  unfolding stories_def
proof
  fix c'
  show "if c' < length (pw_cells (sy_world (s\<lparr>sy_world := w\<rparr>)))
     then cell_story (ce_state (pw_cells (sy_world (s\<lparr>sy_world := w\<rparr>)) ! c')) (wins c' (tr @ evs)) (published c' (tr @ evs)) (wakes c' (tr @ evs))
     else wins c' (tr @ evs) = [] \<and> published c' (tr @ evs) = 0 \<and> wakes c' (tr @ evs) = []"
    using assms by (cases "c' = c") (auto simp: stories_def set_cell_def nth_list_update split: if_splits dest: spec [of _ c'])
qed

lemma story_of:
  "stories tr s \<Longrightarrow> c < length (pw_cells (sy_world s)) \<Longrightarrow>
   cell_story (ce_state (pw_cells (sy_world s) ! c)) (wins c tr) (published c tr) (wakes c tr)"
  unfolding stories_def by meson

lemma publish_story:
  assumes "stories tr s" "pending_step (OpPublish c d q) s = Some (evs, s')"
  shows "stories (tr @ evs) s'"
proof (cases "c < length (pw_cells (sy_world s))")
  case True
  show ?thesis using assms story_of [OF assms(1) True] True
    by (cases "ce_state (pw_cells (sy_world s) ! c)")
      (auto simp: cell_publish_def Let_def intro!: stories_cell [OF assms(1) True] split: if_splits)
qed (use assms in auto)

lemma settle_story:
  assumes "stories tr s" "pending_step (OpSettle c st) s = Some (evs, s')"
  shows "stories (tr @ evs) s'"
proof (cases "c < length (pw_cells (sy_world s))")
  case True
  show ?thesis using assms story_of [OF assms(1) True] True
    by (cases "ce_state (pw_cells (sy_world s) ! c)")
      (auto simp: cell_settle_def intro!: stories_cell [OF assms(1) True] split: if_splits)
qed (use assms in auto)

lemma claim_story:
  assumes "stories tr s" "c < length (pw_cells (sy_world s))" "pw_cells w = pw_cells (set_cell c CellClaimed (sy_world s))"
  shows "stories tr (s\<lparr>sy_world := w\<rparr>)"
  using stories_cell [OF assms, of "[]"] story_of [OF assms(1,2)]
  by (cases "ce_state (pw_cells (sy_world s) ! c)") auto

lemma claiming_cells:
  "abandon_before_publication c w = Some (b, w') \<Longrightarrow> pw_cells w' = pw_cells w \<or> pw_cells w' = pw_cells (set_cell c CellClaimed w)"
  "drop_cell c w = Some w' \<Longrightarrow> pw_cells w' = pw_cells w \<or> pw_cells w' = pw_cells (set_cell c CellClaimed w)"
  by (auto simp: abandon_before_publication_def drop_cell_def drop_owner_def Let_def split: cell_state.splits dest!: drop_lease_world)

lemma begin_cells:
  "begin_with_roots roots w = Some (r, w') \<Longrightarrow>
   pw_cells w' = pw_cells w \<and> pw_table w' = pw_table w \<and> (\<exists>x. r = Inl x) \<or>
   pw_cells w' = pw_cells w @ [\<lparr>ce_ticket = pw_next w, ce_state = CellOpen roots True\<rparr>] \<and>
   pw_table w' = (pw_next w, length (pw_cells w)) # pw_table w \<and> pw_next w' = pw_next w + 1 \<and> map_of (pw_table w) (pw_next w) = None"
  by (auto simp: begin_with_roots_def begin_with_ticket_def install_with_guard_def cell_arm_def cell_new_def checked_add_u64_def
      split: option.splits if_splits)

lemma begin_story:
  assumes "stories tr s" "begin_with_roots roots (sy_world s) = Some (r, w)"
  shows "stories (tr @ [Handed e]) (s\<lparr>sy_world := w\<rparr>)"
  using begin_cells [OF assms(2)] assms(1) by (auto simp: stories_def nth_append less_Suc_eq)

lemma step_stories:
  assumes "stories tr s" "pending_step op s = Some (evs, s')"
  shows "stories (tr @ evs) s'"
proof (cases op)
  case (OpBegin e)
  then show ?thesis using assms begin_story by (fastforce simp: begin_pending_def split: if_splits)
next
  case (OpBeginRetaining b e p)
  have "stories (tr @ [Handed e]) (s\<lparr>sy_world := log_discard d rs (sy_world s)\<rparr>)" for d rs
    by (rule stories_keep [OF assms(1)]) simp_all
  then show ?thesis using OpBeginRetaining assms begin_story by (fastforce simp: begin_with_resource_roots_def split: if_splits)
next
  case (OpAbandon c)
  then show ?thesis using assms claim_story [OF assms(1)] stories_keep [OF assms(1), where evs = "[]"]
    by (fastforce split: if_splits dest: claiming_cells)
next
  case (OpDropCell c)
  then show ?thesis using assms claim_story [OF assms(1)] stories_keep [OF assms(1), where evs = "[]"]
    by (fastforce split: if_splits dest: claiming_cells)
qed (use assms publish_story settle_story other_steps_world [OF assms(2)] stories_keep [OF assms(1), of s' "[]"] in auto)

lemma stories_start: "stories [] sys_start"
  by (simp add: stories_def sys_start_def world_start_def)

lemma run_stories: "pending_run ops sys_start = Some (tr, s) \<Longrightarrow> stories tr s"
  by (rule run_invariant_start [where I = stories, OF step_stories stories_start])

text \<open>C8: 
  However completions, cancellations, deadlines and internal stops race with publication and
  abandonment, a cell has at most one winning settlement and is published at most once; when it was
  published, exactly the winning settlement is woken, once, and when it was not, no wake exists.
\<close>

theorem single_winner_single_wake:
  assumes "pending_run ops sys_start = Some (tr, s)"
  shows "length (wins c tr) \<le> 1 \<and> published c tr \<le> 1 \<and> wakes c tr = (if published c tr = 1 then wins c tr else [])"
  using run_stories [OF assms] unfolding stories_def
  by (cases "ce_state (pw_cells (sy_world s) ! c)") (auto split: if_splits dest!: spec [of _ c])

section \<open>The table\<close>

text \<open>Every entry of the table points at the cell of its ticket, and while the registry is there an unclaimed
  cell is in the table.\<close>

definition entries_match :: "('r, 's, 'o, 'e, 'p, 'q) pending_world \<Rightarrow> bool" where
  "entries_match w \<longleftrightarrow>
     (\<forall>t c. (t, c) \<in> set (pw_table w) \<longrightarrow> c < length (pw_cells w) \<and> ce_ticket (pw_cells w ! c) = t \<and> 1 \<le> t \<and> t < pw_next w) \<and>
     distinct (map fst (pw_table w)) \<and> pw_next w \<le> u64_max"

definition unclaimed_listed :: "('r, 's, 'o, 'e, 'p, 'q) pending_world \<Rightarrow> bool" where
  "unclaimed_listed w \<longleftrightarrow>
     (\<forall>c < length (pw_cells w). ce_state (pw_cells w ! c) \<noteq> CellClaimed \<longrightarrow> (ce_ticket (pw_cells w ! c), c) \<in> set (pw_table w))"

definition tabled :: "('o, 'e) pending_event list \<Rightarrow> ('r, 's, 'o, 'e, 'p, 'q) pending_sys \<Rightarrow> bool" where
  "tabled tr s \<longleftrightarrow> entries_match (sy_world s) \<and> (sy_live s \<longrightarrow> unclaimed_listed (sy_world s)) \<and> 1 \<le> pw_next (sy_world s)"

lemma same_tickets:
  assumes "map ce_ticket (pw_cells w') = map ce_ticket (pw_cells w)"
  shows "length (pw_cells w') = length (pw_cells w)" "c < length (pw_cells w) \<Longrightarrow> ce_ticket (pw_cells w' ! c) = ce_ticket (pw_cells w ! c)"
proof -
  show len: "length (pw_cells w') = length (pw_cells w)" using assms map_eq_imp_length_eq by blast
  show "ce_ticket (pw_cells w' ! c) = ce_ticket (pw_cells w ! c)" if "c < length (pw_cells w)" using assms that len by (metis nth_map)
qed

lemma entries_cells:
  assumes "entries_match w" "pw_table w' = pw_table w" "pw_next w' = pw_next w" "map ce_ticket (pw_cells w') = map ce_ticket (pw_cells w)"
  shows "entries_match w'"
  using assms(1) same_tickets [OF assms(4)] unfolding entries_match_def assms(2,3) by metis

lemma listed_cells:
  assumes "unclaimed_listed w" "pw_table w' = pw_table w" "map ce_ticket (pw_cells w') = map ce_ticket (pw_cells w)"
    "\<And>c. c < length (pw_cells w) \<Longrightarrow> ce_state (pw_cells w ! c) = CellClaimed \<Longrightarrow> ce_state (pw_cells w' ! c) = CellClaimed"
  shows "unclaimed_listed w'"
  using assms(1,2,4) same_tickets [OF assms(3)] unfolding unclaimed_listed_def by metis

lemma set_cell_tickets: "map ce_ticket (pw_cells (set_cell c st w)) = map ce_ticket (pw_cells w)"
proof (cases "c < length (pw_cells w)")
  case True
  then have "(map ce_ticket (pw_cells w))[c := ce_ticket (pw_cells w ! c)] = map ce_ticket (pw_cells w)"
    by (metis list_update_id nth_map)
  then show ?thesis by (simp add: set_cell_def map_update)
qed (simp add: set_cell_def list_update_beyond)

lemma tabled_cells:
  assumes "tabled tr s" "pw_table w = pw_table (sy_world s)" "pw_next w = pw_next (sy_world s)"
    "pw_cells w = pw_cells (sy_world s) \<or> (\<exists>c st. ce_state (pw_cells (sy_world s) ! c) \<noteq> CellClaimed \<and> pw_cells w = pw_cells (set_cell c st (sy_world s)))"
  shows "tabled tr' (s\<lparr>sy_world := w\<rparr>)"
proof -
  have tickets: "map ce_ticket (pw_cells w) = map ce_ticket (pw_cells (sy_world s))"
    using assms(4) by (auto simp: set_cell_tickets)
  have claimed: "ce_state (pw_cells w ! c) = CellClaimed" if "c < length (pw_cells (sy_world s))" "ce_state (pw_cells (sy_world s) ! c) = CellClaimed" for c
    using assms(4) that by (auto simp: set_cell_def) (metis nth_list_update_neq)
  show ?thesis using assms(1-3) entries_cells [of "sy_world s" w] listed_cells [of "sy_world s" w] tickets claimed by (auto simp: tabled_def)
qed

lemma begin_tabled:
  assumes "tabled tr s" "begin_with_roots roots (sy_world s) = Some (r, w)"
  shows "tabled tr' (s\<lparr>sy_world := w\<rparr>)"
proof -
  let ?w = "sy_world s"
  have range: "pw_next ?w \<le> pw_next w" "pw_next w \<le> u64_max"
    using begin_next [OF assms(2)] assms unfolding tabled_def entries_match_def
    by (auto simp: begin_with_roots_def begin_with_ticket_def install_with_guard_def checked_add_u64_def split: option.splits if_splits)
  from begin_cells [OF assms(2)] show ?thesis
  proof (elim disjE conjE)
    assume "pw_cells w = pw_cells ?w" "pw_table w = pw_table ?w"
    then show ?thesis using assms(1) range unfolding tabled_def entries_match_def unclaimed_listed_def by fastforce
  next
    assume new: "pw_cells w = pw_cells ?w @ [\<lparr>ce_ticket = pw_next ?w, ce_state = CellOpen roots True\<rparr>]"
      "pw_table w = (pw_next ?w, length (pw_cells ?w)) # pw_table ?w" "pw_next w = pw_next ?w + 1" "map_of (pw_table ?w) (pw_next ?w) = None"
    have "entries_match w" using assms(1) range new unfolding tabled_def entries_match_def
      by (fastforce simp: nth_append map_of_eq_None_iff)
    moreover have "sy_live s \<longrightarrow> unclaimed_listed w" using assms(1) new unfolding tabled_def unclaimed_listed_def
      by (auto simp: nth_append less_Suc_eq)
    ultimately show ?thesis using assms(1) range by (simp add: tabled_def)
  qed
qed

lemma remove_tabled:
  assumes "tabled tr s" "c < length (pw_cells (sy_world s))" "ce_state (pw_cells (sy_world s) ! c) = CellClaimed"
  shows "tabled tr' (s\<lparr>sy_world := remove_exact (ce_ticket (pw_cells (sy_world s) ! c)) c (sy_world s)\<rparr>)"
proof (cases "map_of (pw_table (sy_world s)) (ce_ticket (pw_cells (sy_world s) ! c)) = Some c")
  case True
  let ?w = "sy_world s" and ?t = "ce_ticket (pw_cells (sy_world s) ! c)"
  let ?w' = "?w\<lparr>pw_table := filter (\<lambda>(t, _). t \<noteq> ?t) (pw_table ?w)\<rparr>"
  have d: "distinct (map fst (pw_table ?w))" using assms(1) by (simp add: tabled_def entries_match_def)
  have "entries_match ?w'" using assms(1) d unfolding tabled_def entries_match_def by (auto simp: distinct_map_filter)
  moreover have "c' = c" if "(?t, c') \<in> set (pw_table ?w)" for c' using that d True by (simp add: map_of_eq_Some_iff)
  then have "sy_live s \<longrightarrow> unclaimed_listed ?w'" using assms unfolding tabled_def unclaimed_listed_def by auto metis
  ultimately show ?thesis using True assms(1) by (simp add: tabled_def remove_exact_def)
next
  case False
  then show ?thesis using assms(1) by (simp add: remove_exact_def tabled_def)
qed

lemma cell_steps_update:
  "abandon_before_publication c w = Some (b, w') \<Longrightarrow> pw_cells w' = pw_cells w \<or> (\<exists>st. ce_state (pw_cells w ! c) \<noteq> CellClaimed \<and> pw_cells w' = pw_cells (set_cell c st w))"
  "drop_cell c w = Some w' \<Longrightarrow> pw_cells w' = pw_cells w \<or> (\<exists>st. ce_state (pw_cells w ! c) \<noteq> CellClaimed \<and> pw_cells w' = pw_cells (set_cell c st w))"
  "cell_publish c d q w = (p, w') \<Longrightarrow> pw_cells w' = pw_cells w \<or> (\<exists>st. ce_state (pw_cells w ! c) \<noteq> CellClaimed \<and> pw_cells w' = pw_cells (set_cell c st w))"
  "cell_settle c st w = (t, w') \<Longrightarrow> pw_cells w' = pw_cells w \<or> (\<exists>st. ce_state (pw_cells w ! c) \<noteq> CellClaimed \<and> pw_cells w' = pw_cells (set_cell c st w))"
  by (auto simp: abandon_before_publication_def drop_cell_def drop_owner_def cell_publish_def cell_settle_def Let_def
      split: cell_state.splits dest!: drop_lease_world)

lemma cell_step_tabled:
  assumes "tabled tr s"
  shows "abandon_before_publication c (sy_world s) = Some (b, w) \<Longrightarrow> tabled tr' (s\<lparr>sy_world := w\<rparr>)"
    "drop_cell c (sy_world s) = Some w \<Longrightarrow> tabled tr' (s\<lparr>sy_world := w\<rparr>)"
    "cell_publish c d q (sy_world s) = (p, w) \<Longrightarrow> tabled tr' (s\<lparr>sy_world := w\<rparr>)"
    "cell_settle c st (sy_world s) = (t, w) \<Longrightarrow> tabled tr' (s\<lparr>sy_world := w\<rparr>)"
proof -
  show "tabled tr' (s\<lparr>sy_world := w\<rparr>)" if "abandon_before_publication c (sy_world s) = Some (b, w)"
    using cells_next(1) [OF that] cell_steps_update(1) [OF that] by (intro tabled_cells [OF assms]) auto
  show "tabled tr' (s\<lparr>sy_world := w\<rparr>)" if "drop_cell c (sy_world s) = Some w"
    using cells_next(2) [OF that] cell_steps_update(2) [OF that] by (intro tabled_cells [OF assms]) auto
  show "tabled tr' (s\<lparr>sy_world := w\<rparr>)" if "cell_publish c d q (sy_world s) = (p, w)"
    using cells_next(3) [OF that] cell_steps_update(3) [OF that] by (intro tabled_cells [OF assms]) auto
  show "tabled tr' (s\<lparr>sy_world := w\<rparr>)" if "cell_settle c st (sy_world s) = (t, w)"
    using cells_next(4) [OF that] cell_steps_update(4) [OF that] by (intro tabled_cells [OF assms]) auto
qed

lemma entries_next: "entries_match w \<Longrightarrow> pw_next w \<le> x \<Longrightarrow> x \<le> u64_max \<Longrightarrow> entries_match (w\<lparr>pw_next := x\<rparr>)"
  unfolding entries_match_def by simp (meson less_le_trans)

lemma tabled_keep:
  "tabled tr s \<Longrightarrow> pw_cells (sy_world s') = pw_cells (sy_world s) \<Longrightarrow> pw_table (sy_world s') = pw_table (sy_world s) \<Longrightarrow>
   pw_next (sy_world s') = pw_next (sy_world s) \<Longrightarrow> sy_live s' = sy_live s \<Longrightarrow> tabled tr' s'"
  by (simp add: tabled_def entries_match_def unclaimed_listed_def)

lemma step_tabled:
  assumes "tabled tr s" "pending_step op s = Some (evs, s')"
  shows "tabled (tr @ evs) s'"
proof (cases op)
  case (OpBegin e)
  then show ?thesis using assms begin_tabled [OF assms(1)] tabled_keep [OF assms(1)] by (auto simp: begin_pending_def split: if_splits)
next
  case (OpBeginRetaining b e p)
  then show ?thesis using assms begin_tabled [OF assms(1)] tabled_keep [OF assms(1)]
    by (auto simp: begin_with_resource_roots_def split: if_splits)
next
  case (OpPublish c d q)
  then show ?thesis using assms cell_step_tabled(3) [OF assms(1)] tabled_keep [OF assms(1)] by (auto split: if_splits prod.splits)
next
  case (OpSettle c st)
  then show ?thesis using assms cell_step_tabled(4) [OF assms(1)] tabled_keep [OF assms(1)] by (auto split: if_splits prod.splits)
next
  case (OpAbandon c)
  then show ?thesis using assms cell_step_tabled(1) [OF assms(1)] tabled_keep [OF assms(1)] by (auto split: if_splits)
next
  case (OpDropCell c)
  then show ?thesis using assms cell_step_tabled(2) [OF assms(1)] tabled_keep [OF assms(1)] by (auto split: if_splits)
next
  case (OpRemove c)
  then show ?thesis using assms remove_tabled [OF assms(1)] by (auto split: if_splits)
next
  case (OpResume i chain res)
  then show ?thesis using resume_step assms tabled_keep [OF assms(1)] by metis
next
  case OpDropRegistry
  then show ?thesis using assms by (auto simp: tabled_def entries_match_def)
next
  case OpForeignTicket
  then show ?thesis using assms entries_next [of "sy_world s"] by (auto simp: tabled_def unclaimed_listed_def Let_def)
qed (use assms tabled_keep [OF assms(1)] in
    \<open>auto simp: map_wake_def drop_owner_def split: if_splits option.splits sum.splits dest!: drop_lease_world\<close>)

lemma tabled_start: "tabled [] sys_start"
  by (simp add: tabled_def entries_match_def unclaimed_listed_def sys_start_def world_start_def u64_max_def)

lemma run_tabled: "pending_run ops sys_start = Some (tr, s) \<Longrightarrow> tabled tr s"
  by (rule run_invariant_start [where I = tabled, OF step_tabled tabled_start])

section \<open>The root walk\<close>

lemma table_cells_distinct: "entries_match w \<Longrightarrow> distinct (map snd (pw_table w))"
  unfolding entries_match_def distinct_map by (auto simp: inj_on_def) metis

lemma mset_concat_map: "mset (concat (map f xs)) = sum_list (map (\<lambda>x. mset (f x)) xs)"
  by (induction xs) simp_all

lemma walk_sum:
  assumes "entries_match w" "unclaimed_listed w"
  shows "mset (visit_registry w) = mset (concat (map (\<lambda>c. visit_cell (ce_state c)) (pw_cells w)))"
proof -
  let ?f = "\<lambda>c. mset (visit_cell (ce_state (pw_cells w ! c)))"
  have "mset (visit_registry w) = sum_list (map ?f (map snd (pw_table w)))"
    by (simp add: visit_registry_def mset_concat_map comp_def case_prod_unfold)
  also have "\<dots> = sum ?f (set (map snd (pw_table w)))"
    by (rule sum_list_distinct_conv_sum_set [OF table_cells_distinct [OF assms(1)]])
  also have "\<dots> = sum ?f {..<length (pw_cells w)}"
  proof (rule sum.mono_neutral_left)
    show "set (map snd (pw_table w)) \<subseteq> {..<length (pw_cells w)}" using assms(1) by (auto simp: entries_match_def)
    show "\<forall>c \<in> {..<length (pw_cells w)} - set (map snd (pw_table w)). ?f c = {#}"
      using assms(2) unfolding unclaimed_listed_def by force
  qed simp
  also have "\<dots> = mset (concat (map (\<lambda>c. visit_cell (ce_state c)) (pw_cells w)))"
    by (simp add: mset_concat_map sum_list_sum_nth atLeast0LessThan)
  finally show ?thesis .
qed

text \<open>
  While the registry is there, the root walk of the collector visits exactly what the cells hold, each
  root once: the escrows, pins, suspended chains and stored outcomes of every cell that is not claimed
  yet, whatever calls ran before, also in the window between a claim and the removal of its ticket.
\<close>

theorem root_walk_exact:
  assumes "pending_run ops sys_start = Some (tr, s)" "sy_live s"
  shows "mset (visit_registry (sy_world s)) = mset (concat (map (\<lambda>c. visit_cell (ce_state c)) (pw_cells (sy_world s))))"
  using walk_sum run_tabled [OF assms(1)] assms(2) by (auto simp: tabled_def)

text \<open>C37: 
  The registry's table is well formed after every run: an entry maps a ticket between 1 and the next
  ticket to the cell made with that ticket, no ticket occurs twice, the next ticket fits its 64 bits,
  and while the registry is there every unclaimed cell has its entry. A new operation therefore never
  meets the error \<open>TicketCollision\<close>, and it is refused only when tickets are exhausted or the inventory
  refuses the owner.
\<close>

theorem registry_well_formed:
  assumes "pending_run ops sys_start = Some (tr, s)"
  shows "entries_match (sy_world s) \<and> (sy_live s \<longrightarrow> unclaimed_listed (sy_world s)) \<and>
    (\<forall>e. \<exists>r w. begin_pending e (sy_world s) = Some (r, w) \<and>
       (case r of
          Inr c \<Rightarrow> c = length (pw_cells (sy_world s)) \<and> map_of (pw_table w) (pw_next (sy_world s)) = Some c
        | Inl x \<Rightarrow> x = TicketSpaceExhausted \<and> pw_next (sy_world s) = u64_max \<or>
            (\<exists>oe. x = OwnerCreation oe \<and> prepare_owner PendingDomain (pw_inventory (sy_world s)) = Some oe)))"
proof -
  have t: "tabled tr s" by (rule run_tabled [OF assms])
  then have "map_of (pw_table (sy_world s)) (pw_next (sy_world s)) = None"
    by (force simp: tabled_def entries_match_def map_of_eq_None_iff)
  then show ?thesis using t
    by (auto simp: tabled_def begin_pending_def begin_with_roots_def begin_with_ticket_def install_with_guard_def cell_arm_def cell_new_def
        checked_add_u64_def entries_match_def split: option.splits)
qed

section \<open>Whole calls\<close>

text \<open>Each call of the registry and of its completion handles is one of the runs above: a lookup, a step of the
  cell and, when the cell was claimed by it, the removal of the ticket.\<close>

definition reaches :: "('r, 's, 'o, 'e, 'p, 'q) pending_sys \<Rightarrow> ('r, 's, 'o, 'e, 'p, 'q) pending_sys \<Rightarrow> bool" where
  "reaches s s' \<longleftrightarrow> (\<exists>ops tr. pending_run ops s = Some (tr, s'))"

lemma reaches_refl [simp]: "reaches s s"
  unfolding reaches_def using pending_run.simps(1) by blast

lemma reaches_one: "pending_step op s = Some (evs, s') \<Longrightarrow> reaches s s'"
  unfolding reaches_def by (rule exI [of _ "[op]"]) simp

lemma run_append: "pending_run (ops @ ops') s = Option.bind (pending_run ops s) (\<lambda>(tr, s1). map_option (\<lambda>(tr', s2). (tr @ tr', s2)) (pending_run ops' s1))"
  by (induction ops arbitrary: s) (auto split: option.splits simp: option.map_comp comp_def case_prod_unfold bind_map_option map_option_bind option.map_ident)

lemma reaches_trans: "reaches s s' \<Longrightarrow> reaches s' s'' \<Longrightarrow> reaches s s''"
  unfolding reaches_def using run_append by (metis (no_types, lifting) bind.bind_lunit case_prod_conv option.map(2))

lemma remove_reaches:
  assumes "reaches s (s\<lparr>sy_world := w\<rparr>)" "c < length (pw_cells w)" "ce_state (pw_cells w ! c) = CellClaimed" "ce_ticket (pw_cells w ! c) = t"
  shows "reaches s (s\<lparr>sy_world := remove_exact t c w\<rparr>)"
  by (rule reaches_trans [OF assms(1) reaches_one [of "OpRemove c" _ "[]"]]) (use assms in simp)

lemma publish_reaches:
  assumes "entries_match (sy_world s)"
  shows "reaches s (s\<lparr>sy_world := snd (publish t d q (sy_world s))\<rparr>)"
proof (cases "map_of (pw_table (sy_world s)) t")
  case None
  then show ?thesis by (simp add: publish_def)
next
  case (Some c)
  let ?w = "sy_world s"
  have c: "c < length (pw_cells ?w)" "ce_ticket (pw_cells ?w ! c) = t" using assms map_of_SomeD [OF Some] by (auto simp: entries_match_def)
  obtain r w1 where p: "cell_publish c d q ?w = (r, w1)" by force
  have step: "reaches s (s\<lparr>sy_world := w1\<rparr>)" using p c by (intro reaches_one [of "OpPublish c d q"]) simp
  have "c < length (pw_cells w1)" "ce_ticket (pw_cells w1 ! c) = t" "r = Inr PubPrecompletedEnqueued \<Longrightarrow> ce_state (pw_cells w1 ! c) = CellClaimed"
    using p c by (auto simp: cell_publish_def Let_def set_cell_def split: cell_state.splits)
  then show ?thesis using Some p step remove_reaches [OF step] by (auto simp: publish_def split: sum.splits pending_publication.splits)
qed

lemma settle_reaches:
  assumes "c < length (pw_cells (sy_world s))"
  shows "reaches s (s\<lparr>sy_world := snd (handle_settle src out c (sy_live s) (sy_world s))\<rparr>)"
proof -
  let ?w = "sy_world s" and ?st = "\<lparr>se_source = src, se_outcome = out\<rparr>"
  obtain r w1 where p: "cell_settle c ?st ?w = (r, w1)" by force
  have step: "reaches s (s\<lparr>sy_world := w1\<rparr>)" using p assms by (intro reaches_one [of "OpSettle c ?st"]) simp
  have "c < length (pw_cells w1)" "r = SettleEnqueued \<Longrightarrow> ce_state (pw_cells w1 ! c) = CellClaimed"
    using p assms by (auto simp: cell_settle_def set_cell_def split: cell_state.splits)
  then show ?thesis using p step remove_reaches [OF step] by (auto simp: handle_settle_def split: settle_disposition.splits)
qed

lemma abandon_reaches:
  assumes "entries_match (sy_world s)" "abandon t (sy_world s) = Some (b, w)"
  shows "reaches s (s\<lparr>sy_world := w\<rparr>)"
proof (cases "map_of (pw_table (sy_world s)) t")
  case None
  then have "w = sy_world s" using assms(2) by (simp add: abandon_def)
  then show ?thesis by simp
next
  case (Some c)
  let ?w = "sy_world s"
  have c: "c < length (pw_cells ?w)" "ce_ticket (pw_cells ?w ! c) = t" using assms map_of_SomeD [OF Some] by (auto simp: entries_match_def)
  obtain w1 where p: "abandon_before_publication c ?w = Some (b, w1)" "w = (if b then remove_exact t c w1 else w1)"
    using assms(2) Some by (auto simp: abandon_def split: option.splits)
  have step: "reaches s (s\<lparr>sy_world := w1\<rparr>)" using p c by (intro reaches_one [of "OpAbandon c"]) simp
  have "c < length (pw_cells w1)" "ce_ticket (pw_cells w1 ! c) = t" "b \<Longrightarrow> ce_state (pw_cells w1 ! c) = CellClaimed"
    using p c by (auto simp: abandon_before_publication_def set_cell_def split: cell_state.splits dest!: drop_lease_world)
  then show ?thesis using p(2) step remove_reaches [OF step] by simp
qed

lemma reaches_tabled:
  assumes "reaches s s'" "tabled tr s"
  shows "tabled tr' s'"
proof -
  obtain ops evs where "pending_run ops s = Some (evs, s')" using assms(1) by (auto simp: reaches_def)
  from run_invariant [where I = tabled, OF step_tabled assms(2) this] show ?thesis by (simp add: tabled_def)
qed

subsection \<open>Whole calls\<close>

text \<open>
  The calls of the registry and its completion handles, each with both of its lock sections; the steps that
  are not halves of a call stand for themselves.
\<close>

datatype ('r, 's, 'o, 'e, 'p, 'q) registry_call =
    CallPublish u64 "('r, 's) pending_draft" 'q
  | CallPublishOrAbandon u64 'r 's 'q
  | CallSettle nat settlement_source 'o
  | CallAbandon u64
  | CallStep "('r, 's, 'o, 'e, 'p, 'q) pending_op"

fun half_call :: "('r, 's, 'o, 'e, 'p, 'q) pending_op \<Rightarrow> bool" where
  "half_call (OpPublish _ _ _) = True" | "half_call (OpSettle _ _) = True" | "half_call (OpRemove _) = True"
| "half_call (OpAbandon _) = True" | "half_call _ = False"

fun do_call ::
  "('r, 's, 'o, 'e, 'p, 'q) registry_call \<Rightarrow> ('r, 's, 'o, 'e, 'p, 'q) pending_sys \<Rightarrow> ('r, 's, 'o, 'e, 'p, 'q) pending_sys option" where
  "do_call (CallPublish t d q) s = Some (if sy_live s then s\<lparr>sy_world := snd (publish t d q (sy_world s))\<rparr> else s)"
| "do_call (CallPublishOrAbandon t r chain q) s =
     (if sy_live s then map_option (\<lambda>(_, w). s\<lparr>sy_world := w\<rparr>) (publish_operation_or_abandon t r chain q (sy_world s)) else Some s)"
| "do_call (CallSettle c src out) s =
     Some (if c < length (pw_cells (sy_world s)) then s\<lparr>sy_world := snd (handle_settle src out c (sy_live s) (sy_world s))\<rparr> else s)"
| "do_call (CallAbandon t) s =
     (if sy_live s then map_option (\<lambda>(_, w). s\<lparr>sy_world := w\<rparr>) (abandon t (sy_world s)) else Some s)"
| "do_call (CallStep op) s = (if half_call op then Some s else map_option snd (pending_step op s))"

fun do_calls ::
  "('r, 's, 'o, 'e, 'p, 'q) registry_call list \<Rightarrow> ('r, 's, 'o, 'e, 'p, 'q) pending_sys \<Rightarrow> ('r, 's, 'o, 'e, 'p, 'q) pending_sys option" where
  "do_calls [] s = Some s"
| "do_calls (c # cs) s = Option.bind (do_call c s) (do_calls cs)"

definition listed_unclaimed :: "('r, 's, 'o, 'e, 'p, 'q) pending_world \<Rightarrow> bool" where
  "listed_unclaimed w \<longleftrightarrow> (\<forall>t c. (t, c) \<in> set (pw_table w) \<longrightarrow> ce_state (pw_cells w ! c) \<noteq> CellClaimed)"

lemma entry_ticket: "entries_match w \<Longrightarrow> (t, c) \<in> set (pw_table w) \<Longrightarrow> c < length (pw_cells w) \<and> ce_ticket (pw_cells w ! c) = t"
  unfolding entries_match_def by blast

lemma listed_set_cell:
  assumes "listed_unclaimed w" "pw_cells w' = pw_cells (set_cell c st w)" "pw_table w' = pw_table w"
    "st \<noteq> CellClaimed \<or> (\<forall>t. (t, c) \<notin> set (pw_table w))"
  shows "listed_unclaimed w'"
  unfolding listed_unclaimed_def
proof (intro allI impI)
  fix t c'
  assume m: "(t, c') \<in> set (pw_table w')"
  show "ce_state (pw_cells w' ! c') \<noteq> CellClaimed"
  proof (cases "c' = c \<and> c < length (pw_cells w)")
    case True
    then show ?thesis using assms(2-4) m by (auto simp: set_cell_def)
  next
    case False
    then have "pw_cells w' ! c' = pw_cells w ! c'" using assms(2) by (cases "c' = c") (auto simp: set_cell_def list_update_beyond)
    then show ?thesis using assms(1,3) m by (simp add: listed_unclaimed_def)
  qed
qed

lemma listed_removed:
  assumes "listed_unclaimed w" "entries_match w" "pw_cells w' = pw_cells (set_cell c CellClaimed w)" "pw_table w' = pw_table w"
    "map_of (pw_table w) t = Some c"
  shows "listed_unclaimed (remove_exact t c w')"
  unfolding listed_unclaimed_def
proof (intro allI impI)
  fix t' c'
  assume "(t', c') \<in> set (pw_table (remove_exact t c w'))"
  then have m: "(t', c') \<in> set (pw_table w)" "t' \<noteq> t" using assms(4,5) by (auto simp: remove_exact_def split: if_splits)
  have "c' \<noteq> c" using entry_ticket [OF assms(2) m(1)] entry_ticket [OF assms(2) map_of_SomeD [OF assms(5)]] m(2) by auto
  then show "ce_state (pw_cells (remove_exact t c w') ! c') \<noteq> CellClaimed"
    using assms(1,3) m(1) by (simp add: remove_exact_def set_cell_def listed_unclaimed_def)
qed

lemma listed_same: "listed_unclaimed w \<Longrightarrow> pw_cells w' = pw_cells w \<Longrightarrow> set (pw_table w') \<subseteq> set (pw_table w) \<Longrightarrow> listed_unclaimed w'"
  unfolding listed_unclaimed_def by auto

lemma listed_publish:
  assumes "listed_unclaimed w" "entries_match w"
  shows "listed_unclaimed (snd (publish t d q w))"
proof (cases "map_of (pw_table w) t")
  case (Some c)
  then show ?thesis using assms listed_removed [OF assms _ _ Some] listed_set_cell [OF assms(1), of _ c]
    by (auto simp: publish_def cell_publish_def Let_def split: cell_state.splits)
qed (use assms in \<open>simp add: publish_def\<close>)

lemma listed_settle:
  assumes "listed_unclaimed w" "entries_match w" "c < length (pw_cells w)" "live \<or> pw_table w = []"
  shows "listed_unclaimed (snd (handle_settle src out c live w))"
proof (cases "ce_state (pw_cells w ! c)")
  case (CellWaiting q ow)
  let ?w1 = "snd (cell_settle c \<lparr>se_source = src, se_outcome = out\<rparr> w)" and ?t = "ce_ticket (pw_cells w ! c)"
  have w1: "pw_cells ?w1 = pw_cells (set_cell c CellClaimed w)" "pw_table ?w1 = pw_table w"
    using CellWaiting by (simp_all add: cell_settle_def)
  show ?thesis
  proof (cases "map_of (pw_table w) ?t = Some c")
    case True
    then have live: "live" using assms(4) by auto
    show ?thesis using listed_removed [OF assms(1,2) w1 True] CellWaiting live assms(3)
      by (simp add: handle_settle_def cell_settle_def set_cell_def)
  next
    case False
    have "(t, c) \<notin> set (pw_table w)" for t
      using False entry_ticket [OF assms(2)] assms(2) by (metis entries_match_def map_of_is_SomeI)
    then have "listed_unclaimed ?w1" using listed_set_cell [OF assms(1) w1] by blast
    moreover have "set (pw_table (remove_exact ?t c ?w1)) \<subseteq> set (pw_table ?w1)" "pw_cells (remove_exact ?t c ?w1) = pw_cells ?w1"
      by (auto simp: remove_exact_def)
    ultimately show ?thesis using CellWaiting assms(3) listed_same [of ?w1 "remove_exact ?t c ?w1"]
      by (auto simp: handle_settle_def cell_settle_def set_cell_def)
  qed
qed (use assms listed_set_cell [OF assms(1), of _ c] in \<open>auto simp: handle_settle_def cell_settle_def\<close>)

lemma listed_abandon:
  assumes "listed_unclaimed w" "entries_match w" "abandon t w = Some (b, w')"
  shows "listed_unclaimed w'"
proof (cases "map_of (pw_table w) t")
  case (Some c)
  then show ?thesis using assms(3) listed_removed [OF assms(1,2) _ _ Some] assms(1)
    by (auto simp: abandon_def abandon_before_publication_def split: option.splits cell_state.splits dest!: drop_lease_world)
qed (use assms in \<open>simp add: abandon_def\<close>)

lemma listed_step:
  assumes "tabled tr s" "listed_unclaimed (sy_world s)" "\<not> half_call op" "pending_step op s = Some (evs, s')"
  shows "listed_unclaimed (sy_world s')"
proof -
  let ?w = "sy_world s"
  have e: "entries_match ?w" using assms(1) by (simp add: tabled_def)
  have begun: "listed_unclaimed w'" if "begin_with_roots roots ?w = Some (r, w')" for roots r w'
    using begin_cells [OF that] assms(2) entry_ticket [OF e] listed_same [OF assms(2)]
    by (auto simp: listed_unclaimed_def nth_append)
  have discarded: "listed_unclaimed (log_discard d r ?w)" for d r by (rule listed_same [OF assms(2)]) simp_all
  consider (opened) "(\<exists>e. op = OpBegin e) \<or> (\<exists>b e p. op = OpBeginRetaining b e p)" | (dropped) c where "op = OpDropCell c"
    | (other) "\<And>e. op \<noteq> OpBegin e" "\<And>b e p. op \<noteq> OpBeginRetaining b e p" "\<And>c d q. op \<noteq> OpPublish c d q"
      "\<And>c st. op \<noteq> OpSettle c st" "\<And>c. op \<noteq> OpAbandon c" "\<And>c. op \<noteq> OpDropCell c"
    using assms(3) by (cases op) auto
  then show ?thesis
  proof cases
    case opened
    then show ?thesis using assms(2,4) begun discarded
      by (auto simp: begin_pending_def begin_with_resource_roots_def split: if_splits)
  next
    case dropped
    show ?thesis
    proof (cases "c < length (pw_cells ?w) \<and> map_of (pw_table ?w) (ce_ticket (pw_cells ?w ! c)) \<noteq> Some c")
      case True
      then obtain w' where w': "drop_cell c ?w = Some w'" "s' = s\<lparr>sy_world := w'\<rparr>" using assms(4) dropped by auto
      have "(t, c) \<notin> set (pw_table ?w)" for t
        using True entry_ticket [OF e] e by (metis entries_match_def map_of_is_SomeI)
      moreover have "pw_table w' = pw_table ?w" using cells_next(2) [OF w'(1)] by simp
      moreover have "pw_cells w' = pw_cells ?w \<or> (\<exists>st. pw_cells w' = pw_cells (set_cell c st ?w))"
        using cell_steps_update(2) [OF w'(1)] by blast
      ultimately show ?thesis using listed_same [OF assms(2), of w'] listed_set_cell [OF assms(2), of w' c] w'(2) by auto
    qed (use assms dropped in auto)
  next
    case other
    have "set (pw_table (sy_world s')) \<subseteq> set (pw_table ?w)"
    proof (cases op)
      case (OpResume i chain res)
      then show ?thesis using resume_step assms(4) by (metis order_refl)
    qed (use assms(3,4) other in \<open>auto simp: Let_def drop_owner_def map_wake_def
        split: if_splits option.splits prod.splits sum.splits dest!: drop_lease_world\<close>)
    then show ?thesis using other_steps_world [OF assms(4) other] listed_same [OF assms(2)] by blast
  qed
qed

definition call_inv :: "('r, 's, 'o, 'e, 'p, 'q) pending_sys \<Rightarrow> bool" where
  "call_inv s \<longleftrightarrow> tabled [] s \<and> listed_unclaimed (sy_world s) \<and> (\<not> sy_live s \<longrightarrow> pw_table (sy_world s) = [])"

lemma step_table_gone:
  "pending_step op s = Some (evs, s') \<Longrightarrow> \<not> sy_live s \<longrightarrow> pw_table (sy_world s) = [] \<Longrightarrow> \<not> sy_live s' \<longrightarrow> pw_table (sy_world s') = []"
proof (cases op)
  case (OpResume i chain res)
  then show "pending_step op s = Some (evs, s') \<Longrightarrow> \<not> sy_live s \<longrightarrow> pw_table (sy_world s) = [] \<Longrightarrow> \<not> sy_live s' \<longrightarrow> pw_table (sy_world s') = []"
    using resume_step [of i chain res s evs s'] by (simp del: pending_step.simps)
qed (auto simp: Let_def drop_owner_def map_wake_def remove_exact_def
      split: if_splits option.splits prod.splits sum.splits dest!: drop_lease_world cells_next)

lemma settle_table: "set (pw_table (snd (handle_settle src out c live w))) \<subseteq> set (pw_table w)"
  by (auto simp: handle_settle_def cell_settle_def remove_exact_def split: cell_state.splits if_splits)

lemma call_inv_call:
  assumes "call_inv s" "do_call c s = Some s'"
  shows "call_inv s'"
proof -
  have t: "tabled [] s" and l: "listed_unclaimed (sy_world s)" and e: "entries_match (sy_world s)"
    using assms(1) by (simp_all add: call_inv_def tabled_def)
  note reach = reaches_tabled [OF _ t]
  have live: "call_inv (s\<lparr>sy_world := w\<rparr>)" if "sy_live s" "reaches s (s\<lparr>sy_world := w\<rparr>)" "listed_unclaimed w" for w
    using that reach by (simp add: call_inv_def)
  have published: "call_inv (s\<lparr>sy_world := snd (publish t d q (sy_world s))\<rparr>)" if "sy_live s" for t d q
    by (rule live [OF that publish_reaches [OF e] listed_publish [OF l e]])
  have abandoned: "call_inv (s\<lparr>sy_world := w\<rparr>)" if "sy_live s" "abandon t (sy_world s) = Some (b, w)" for t b w
    by (rule live [OF that(1) abandon_reaches [OF e that(2)] listed_abandon [OF l e that(2)]])
  show ?thesis
  proof (cases c)
    case (CallPublish t d q)
    then show ?thesis using assms published by (auto split: if_splits)
  next
    case (CallPublishOrAbandon t r chain q)
    have same: "snd (publish t d q (sy_world s)) = sy_world s" if "fst (publish t d q (sy_world s)) = Inl x" for d x
      using that by (auto simp: publish_def cell_publish_def Let_def split: option.splits cell_state.splits)
    let ?d = "\<lparr>pd_resume = r, pd_suspended = chain\<rparr>"
    obtain x w1 where p: "publish t ?d q (sy_world s) = (x, w1)" by fastforce
    show ?thesis using assms CallPublishOrAbandon p published [of t ?d q] abandoned [of t] same [of ?d]
      by (cases x) (auto simp: publish_operation_or_abandon_def split: if_splits)
  next
    case (CallSettle x src out)
    show ?thesis
    proof (cases "x < length (pw_cells (sy_world s))")
      case True
      have "sy_live s \<or> pw_table (sy_world s) = []" using assms(1) by (auto simp: call_inv_def)
      then have "listed_unclaimed (snd (handle_settle src out x (sy_live s) (sy_world s)))" by (rule listed_settle [OF l e True])
      moreover have "\<not> sy_live s \<longrightarrow> pw_table (snd (handle_settle src out x (sy_live s) (sy_world s))) = []"
        using settle_table [of src out x "sy_live s" "sy_world s"] assms(1) by (auto simp: call_inv_def)
      ultimately show ?thesis using assms CallSettle True reach [OF settle_reaches [OF True]] by (auto simp: call_inv_def)
    qed (use assms CallSettle in auto)
  next
    case (CallAbandon t)
    then show ?thesis using assms abandoned by (auto split: if_splits)
  next
    case (CallStep op)
    show ?thesis
    proof (cases "half_call op")
      case False
      then obtain evs where step: "pending_step op s = Some (evs, s')" using assms(2) CallStep by auto
      show ?thesis using listed_step [OF t l False step] reach [OF reaches_one [OF step]] step_table_gone [OF step] assms(1)
        by (simp add: call_inv_def)
    qed (use assms CallStep in auto)
  qed
qed

lemma call_inv_calls: "do_calls cs s = Some s' \<Longrightarrow> call_inv s \<Longrightarrow> call_inv s'"
  by (induction cs arbitrary: s) (auto simp: bind_eq_Some_conv dest: call_inv_call)

lemma call_inv_start: "call_inv sys_start"
  using tabled_start by (simp add: call_inv_def listed_unclaimed_def sys_start_def world_start_def)

text \<open>C39: 
  No ticket leaks. After any sequence of whole calls (publish, publish or abandon, abandon, a settlement
  through a completion handle from any source, and every step that is not one half of these), a live registry
  lists exactly the operations that are not over: a ticket is mapped to a cell exactly when the cell was made
  with that ticket and has not been claimed by a wake, a precompleted publication or an abandonment, and the
  live count the registry reports is the number of such cells.
\<close>

theorem calls_leave_no_ticket:
  assumes "do_calls cs sys_start = Some s" "sy_live s"
  shows "(\<forall>t c. map_of (pw_table (sy_world s)) t = Some c \<longleftrightarrow>
      c < length (pw_cells (sy_world s)) \<and> ce_ticket (pw_cells (sy_world s) ! c) = t \<and> ce_state (pw_cells (sy_world s) ! c) \<noteq> CellClaimed) \<and>
    live_count (sy_world s) = length (filter (\<lambda>c. ce_state c \<noteq> CellClaimed) (pw_cells (sy_world s)))"
proof
  let ?w = "sy_world s"
  have inv: "entries_match ?w" "unclaimed_listed ?w" "listed_unclaimed ?w"
    using call_inv_calls [OF assms(1) call_inv_start] assms(2) by (simp_all add: call_inv_def tabled_def)
  have d: "distinct (map fst (pw_table ?w))" using inv(1) by (simp add: entries_match_def)
  have mem: "(t, c) \<in> set (pw_table ?w) \<longleftrightarrow> c < length (pw_cells ?w) \<and> ce_ticket (pw_cells ?w ! c) = t \<and> ce_state (pw_cells ?w ! c) \<noteq> CellClaimed" for t c
    using inv entry_ticket [OF inv(1), of t c] unfolding listed_unclaimed_def unclaimed_listed_def by blast
  then show "\<forall>t c. map_of (pw_table ?w) t = Some c \<longleftrightarrow>
      c < length (pw_cells ?w) \<and> ce_ticket (pw_cells ?w ! c) = t \<and> ce_state (pw_cells ?w ! c) \<noteq> CellClaimed"
    by (simp add: map_of_eq_Some_iff [OF d])
  have "set (map snd (pw_table ?w)) = {c. c < length (pw_cells ?w) \<and> ce_state (pw_cells ?w ! c) \<noteq> CellClaimed}"
    using mem by (force simp: image_iff)
  then show "live_count ?w = length (filter (\<lambda>c. ce_state c \<noteq> CellClaimed) (pw_cells ?w))"
    using distinct_card [OF table_cells_distinct [OF inv(1)]] by (simp add: live_count_def length_filter_conv_card)
qed

section \<open>Witnesses\<close>

lemmas run_eval = sys_start_def world_start_def begin_pending_def begin_with_roots_def begin_with_ticket_def install_with_guard_def
  cell_arm_def cell_new_def checked_add_u64_def u64_max_def transferred_only_def prepare_owner_def commit_owner_def inventory_open_def
  NEVER_CREATED_def cell_publish_def attach_draft_def cell_settle_def set_cell_def enqueue_def remove_exact_def queued_since_def without_def
  map_wake_def resume_and_commit_def settle_transferred_def discard_transferred_def drop_pending_lease_def drop_lease_def
  visit_registry_def visit_root_set_def

text \<open>A completion and a deadline race after publication; the completion wins and the wake is resumed.\<close>

definition race_ops :: "(nat, nat, nat, nat, nat, nat) pending_op list" where
  "race_ops =
     [OpBegin 7, OpPublish 0 \<lparr>pd_resume = 1, pd_suspended = 2\<rparr> 3,
      OpSettle 0 \<lparr>se_source = HostCompletion, se_outcome = 4\<rparr>, OpSettle 0 \<lparr>se_source = DeadlineReached, se_outcome = 5\<rparr>, OpRemove 0,
      OpTake 0 (\<lambda>_ x. x), OpResume 0 9 None]"

lemma race_trace:
  "map_option (\<lambda>(tr, s). (tr, pw_log (sy_world s), sy_live s)) (pending_run race_ops sys_start) =
   Some ([Handed 7, Published 0, Won 0 \<lparr>se_source = HostCompletion, se_outcome = 4\<rparr>, Queued 0 \<lparr>se_source = HostCompletion, se_outcome = 4\<rparr>],
     [(7, RootsRestored)], True)"
  by (simp add: race_ops_def run_eval)

lemma race_runs:
  "\<exists>s. pending_run race_ops sys_start =
     Some ([Handed 7, Published 0, Won 0 \<lparr>se_source = HostCompletion, se_outcome = 4\<rparr>, Queued 0 \<lparr>se_source = HostCompletion, se_outcome = 4\<rparr>], s) \<and>
     pw_log (sy_world s) = [(7, RootsRestored)] \<and> sy_live s"
  using race_trace by (auto simp: map_option_case split: option.splits)

theorem single_winner_single_wake_witness:
  "\<exists>tr s. pending_run race_ops sys_start = Some (tr, s) \<and> length (wins 0 tr) \<le> 1 \<and> published 0 tr \<le> 1 \<and>
     wakes 0 tr = (if published 0 tr = 1 then wins 0 tr else []) \<and> wakes 0 tr = [\<lparr>se_source = HostCompletion, se_outcome = 4\<rparr>]"
proof -
  obtain s where run: "pending_run race_ops sys_start =
      Some ([Handed 7, Published 0, Won 0 \<lparr>se_source = HostCompletion, se_outcome = 4\<rparr>, Queued 0 \<lparr>se_source = HostCompletion, se_outcome = 4\<rparr>], s)"
    using race_runs by blast
  show ?thesis using single_winner_single_wake [OF run, of 0] run by auto
qed

theorem root_walk_exact_witness:
  "\<exists>tr s. pending_run (take 1 race_ops) sys_start = Some (tr, s) \<and> sy_live s \<and>
     mset (visit_registry (sy_world s)) = mset (concat (map (\<lambda>c. visit_cell (ce_state c)) (pw_cells (sy_world s)))) \<and>
     visit_registry (sy_world s) = [VisitEscrow 7]"
proof -
  have "map_option (\<lambda>(tr, s). (visit_registry (sy_world s), sy_live s)) (pending_run (take 1 race_ops) sys_start) = Some ([VisitEscrow 7], True)"
    by (simp add: race_ops_def run_eval)
  then obtain tr s where run: "pending_run (take 1 race_ops) sys_start = Some (tr, s)" "visit_registry (sy_world s) = [VisitEscrow 7]" "sy_live s"
    by (auto simp: map_option_case split: option.splits)
  show ?thesis using root_walk_exact [OF run(1,3)] run by blast
qed

theorem registry_well_formed_witness:
  "\<exists>tr s. pending_run race_ops sys_start = Some (tr, s) \<and> entries_match (sy_world s) \<and> sy_live s \<and> unclaimed_listed (sy_world s)"
proof -
  obtain tr s where run: "pending_run race_ops sys_start = Some (tr, s)" "sy_live s" using race_runs by blast
  show ?thesis using registry_well_formed [OF run(1)] run by blast
qed

text \<open>Two operations, of which one is settled after its publication: one ticket is left.\<close>

definition two_calls :: "(nat, nat, nat, nat, nat, nat) registry_call list" where
  "two_calls =
     [CallStep (OpBegin 7), CallStep (OpBegin 8), CallPublish 1 \<lparr>pd_resume = 1, pd_suspended = 2\<rparr> 3, CallSettle 0 HostCompletion 4]"

theorem calls_leave_no_ticket_witness:
  "\<exists>s. do_calls two_calls sys_start = Some s \<and> sy_live s \<and> map_of (pw_table (sy_world s)) 1 = None \<and> live_count (sy_world s) = 1"
proof -
  have "map_option (\<lambda>s. (pw_cells (sy_world s), sy_live s)) (do_calls two_calls sys_start) =
      Some ([\<lparr>ce_ticket = 1, ce_state = CellClaimed\<rparr>, \<lparr>ce_ticket = 2, ce_state = CellOpen (transferred_only 8) True\<rparr>], True)"
    by (simp add: two_calls_def run_eval publish_def handle_settle_def)
  then obtain s where s: "do_calls two_calls sys_start = Some s" "sy_live s"
      "pw_cells (sy_world s) = [\<lparr>ce_ticket = 1, ce_state = CellClaimed\<rparr>, \<lparr>ce_ticket = 2, ce_state = CellOpen (transferred_only 8) True\<rparr>]"
    by (auto simp: map_option_case split: option.splits)
  note exact = calls_leave_no_ticket [OF s(1,2), unfolded s(3)]
  have "map_of (pw_table (sy_world s)) 1 \<noteq> Some c" for c
    using exact by (auto simp: nth_Cons split: nat.splits)
  then have "map_of (pw_table (sy_world s)) 1 = None" by (cases "map_of (pw_table (sy_world s)) 1") auto
  moreover have "live_count (sy_world s) = 1" using exact by (elim conjE) simp
  ultimately show ?thesis using s by blast
qed

end
