(* ===== verification/Syntax_Lexer.thy ===== *)
theory Syntax_Lexer
  imports Skiff_Prelude
begin

text \<open>
  The lexer of the Skiff language (\<open>syntax/src/lexer.rs\<close>, with the source positions of
  \<open>syntax/src/error.rs\<close> and the duration literals of \<open>syntax/src/ast.rs\<close>). Source text is a list of
  Unicode scalar values; offsets are UTF-8 byte offsets as in the code. The parsing of a decimal
  text into a 64-bit float is the argument \<open>parse_f64\<close>: rounding is not modelled. Error messages
  are a datatype with the values the code formats into its texts.
\<close>

section \<open>Text\<close>

type_synonym uchar = nat
type_synonym ustring = "uchar list"

definition u :: "string \<Rightarrow> ustring" where
  "u s = map of_char s"

definition newline :: uchar where "newline = 10"

text \<open>\<open>char::len_utf8\<close> and \<open>char::is_whitespace\<close> (the Unicode property White\_Space).\<close>

definition utf8_len :: "uchar \<Rightarrow> nat" where
  "utf8_len c = (if c < 128 then 1 else if c < 2048 then 2 else if c < 65536 then 3 else 4)"

definition byte_len :: "ustring \<Rightarrow> nat" where
  "byte_len s = sum_list (map utf8_len s)"

definition is_whitespace :: "uchar \<Rightarrow> bool" where
  "is_whitespace c \<longleftrightarrow> 9 \<le> c \<and> c \<le> 13 \<or> c = 32 \<or> c = 133 \<or> c = 160 \<or> c = 5760 \<or> 8192 \<le> c \<and> c \<le> 8202 \<or>
     c = 8232 \<or> c = 8233 \<or> c = 8239 \<or> c = 8287 \<or> c = 12288"

definition is_ascii_digit :: "uchar \<Rightarrow> bool" where
  "is_ascii_digit c \<longleftrightarrow> 48 \<le> c \<and> c \<le> 57"

definition is_ascii_alphabetic :: "uchar \<Rightarrow> bool" where
  "is_ascii_alphabetic c \<longleftrightarrow> 65 \<le> c \<and> c \<le> 90 \<or> 97 \<le> c \<and> c \<le> 122"

definition is_ident_start :: "uchar \<Rightarrow> bool" where
  "is_ident_start c \<longleftrightarrow> c = 95 \<or> is_ascii_alphabetic c"

definition is_ident_continue :: "uchar \<Rightarrow> bool" where
  "is_ident_continue c \<longleftrightarrow> is_ident_start c \<or> is_ascii_digit c"

section \<open>Positions, durations and tokens\<close>

record source_location =
  sl_line :: usize
  sl_column :: usize
  sl_offset :: usize

record source_span =
  sp_start :: source_location
  sp_end :: source_location

datatype duration_unit = Milliseconds | Seconds | Minutes | Hours | Days

fun milliseconds_multiplier :: "duration_unit \<Rightarrow> u64" where
  "milliseconds_multiplier Milliseconds = 1"
| "milliseconds_multiplier Seconds = 1000"
| "milliseconds_multiplier Minutes = 60000"
| "milliseconds_multiplier Hours = 3600000"
| "milliseconds_multiplier Days = 86400000"

record duration_literal =
  dl_digits :: ustring
  dl_unit :: duration_unit
  dl_span :: source_span

datatype duration_literal_error = InvalidDigits | NotPositive | UnsafeMilliseconds

definition MAX_SAFE_DURATION_MILLISECONDS :: u64 where
  "MAX_SAFE_DURATION_MILLISECONDS = 9007199254740991"

text \<open>\<open>parse::<u64>\<close> of a digit string.\<close>

definition decimal :: "ustring \<Rightarrow> nat" where
  "decimal ds = foldl (\<lambda>n d. 10 * n + (d - 48)) 0 ds"

definition parse_u64 :: "ustring \<Rightarrow> u64 option" where
  "parse_u64 ds = (if ds \<noteq> [] \<and> list_all is_ascii_digit ds \<and> decimal ds \<le> u64_max then Some (decimal ds) else None)"

definition checked_milliseconds_of :: "bool \<Rightarrow> ustring \<Rightarrow> duration_unit \<Rightarrow> duration_literal_error + u64" where
  "checked_milliseconds_of allow_zero digits unit =
     (if digits = [] \<or> \<not> list_all is_ascii_digit digits then Inl InvalidDigits
      else case parse_u64 digits of
        None \<Rightarrow> Inl UnsafeMilliseconds
      | Some amount \<Rightarrow>
          (if \<not> allow_zero \<and> amount = 0 then Inl NotPositive
           else if amount * milliseconds_multiplier unit > u64_max then Inl UnsafeMilliseconds
           else if amount * milliseconds_multiplier unit > MAX_SAFE_DURATION_MILLISECONDS then Inl UnsafeMilliseconds
           else Inr (amount * milliseconds_multiplier unit)))"

definition checked_milliseconds :: "duration_literal \<Rightarrow> duration_literal_error + u64" where
  "checked_milliseconds d = checked_milliseconds_of False (dl_digits d) (dl_unit d)"

definition checked_milliseconds_allow_zero :: "duration_literal \<Rightarrow> duration_literal_error + u64" where
  "checked_milliseconds_allow_zero d = checked_milliseconds_of True (dl_digits d) (dl_unit d)"

datatype 'f token_kind =
    TokIdent ustring
  | TokNumber 'f
  | TokDuration duration_literal
  | TokString ustring
  | TokSymbol ustring
  | TokEof

record 'f token =
  tok_kind :: "'f token_kind"
  tok_span :: source_span

datatype lex_message =
    UnterminatedBlockComment
  | FractionalDuration
  | InvalidDurationUnit ustring
  | BadDuration duration_literal_error
  | InvalidNumberLiteral
  | UnterminatedString
  | UnterminatedEscape
  | UnexpectedCharacter uchar

datatype compile_error = SyntaxError lex_message usize usize

definition syntax_error :: "lex_message \<Rightarrow> source_location \<Rightarrow> compile_error" where
  "syntax_error m l = SyntaxError m (sl_line l) (sl_column l)"

section \<open>The scanner\<close>

record lexer =
  lx_rest :: ustring
  lx_line :: usize
  lx_column :: usize
  lx_offset :: usize

definition lexer_new :: "ustring \<Rightarrow> lexer" where
  "lexer_new source = \<lparr>lx_rest = source, lx_line = 1, lx_column = 1, lx_offset = 0\<rparr>"

definition location :: "lexer \<Rightarrow> source_location" where
  "location l = \<lparr>sl_line = lx_line l, sl_column = lx_column l, sl_offset = lx_offset l\<rparr>"

definition bump :: "lexer \<Rightarrow> lexer" where
  "bump l =
     (case lx_rest l of
        [] \<Rightarrow> l
      | c # cs \<Rightarrow>
          (if c = newline
           then l\<lparr>lx_rest := cs, lx_line := lx_line l + 1, lx_column := 1, lx_offset := lx_offset l + utf8_len c\<rparr>
           else l\<lparr>lx_rest := cs, lx_column := lx_column l + 1, lx_offset := lx_offset l + utf8_len c\<rparr>))"

definition starts_with :: "string \<Rightarrow> lexer \<Rightarrow> bool" where
  "starts_with needle l \<longleftrightarrow> lx_rest l \<noteq> [] \<and> take (length needle) (lx_rest l) = u needle"

lemma bump_rest [simp]: "lx_rest (bump l) = tl (lx_rest l)"
  by (simp add: bump_def split: list.split)

text \<open>The loops \<open>while matches!(peek, p) { text.push(bump) }\<close>.\<close>

function scan_while :: "(uchar \<Rightarrow> bool) \<Rightarrow> lexer \<Rightarrow> ustring \<times> lexer" where
  "scan_while p l =
     (case lx_rest l of
        [] \<Rightarrow> ([], l)
      | c # cs \<Rightarrow> (if p c then (let (text, l') = scan_while p (bump l) in (c # text, l')) else ([], l)))"
  by pat_completeness auto
termination by (relation "measure (\<lambda>(p, l). length (lx_rest l))") auto

declare scan_while.simps [simp del]

text \<open>The body of a line comment: everything up to and including the newline.\<close>

function skip_line_comment :: "lexer \<Rightarrow> lexer" where
  "skip_line_comment l =
     (case lx_rest l of
        [] \<Rightarrow> l
      | c # cs \<Rightarrow> (if c = newline then bump l else skip_line_comment (bump l)))"
  by pat_completeness auto
termination by (relation "measure (\<lambda>l. length (lx_rest l))") auto

declare skip_line_comment.simps [simp del]

function skip_block_comment :: "lexer \<Rightarrow> compile_error + lexer" where
  "skip_block_comment l =
     (if lx_rest l = [] then Inl (syntax_error UnterminatedBlockComment (location l))
      else if starts_with ''*/'' l then Inr (bump (bump l))
      else skip_block_comment (bump l))"
  by pat_completeness auto
termination by (relation "measure (\<lambda>l. length (lx_rest l))") auto

declare skip_block_comment.simps [simp del]

text \<open>Positions after consuming a prefix.\<close>

primrec advance :: "ustring \<Rightarrow> lexer \<Rightarrow> lexer" where
  "advance [] l = l"
| "advance (c # cs) l = advance cs (bump l)"

lemma advance_append [simp]: "advance (xs @ ys) l = advance ys (advance xs l)"
  by (induction xs arbitrary: l) auto

lemma advance_rest [simp]: "lx_rest (advance cs l) = drop (length cs) (lx_rest l)"
  by (induction cs arbitrary: l) (auto simp: drop_Suc)

lemma scan_while_eq: "scan_while p l = (takeWhile p (lx_rest l), advance (takeWhile p (lx_rest l)) l)"
proof (induction p l rule: scan_while.induct)
  case (1 p l)
  then show ?case by (subst scan_while.simps) (auto split: list.split)
qed

lemma skip_line_comment_eq:
  "skip_line_comment l = advance (takeWhile (\<lambda>c. c \<noteq> newline) (lx_rest l) @
     (if newline \<in> set (lx_rest l) then [newline] else [])) l"
proof (induction l rule: skip_line_comment.induct)
  case (1 l)
  then show ?case by (subst skip_line_comment.simps) (auto split: list.split)
qed

lemma skip_line_comment_length: "length (lx_rest (skip_line_comment l)) \<le> length (lx_rest l)"
  by (simp add: skip_line_comment_eq)

lemma skip_block_comment_length: "skip_block_comment l = Inr l' \<Longrightarrow> length (lx_rest l') \<le> length (lx_rest l)"
proof (induction l rule: skip_block_comment.induct)
  case (1 l)
  from 1(2) show ?case
    by (subst (asm) skip_block_comment.simps) (use 1(1) in \<open>auto split: if_splits intro: le_trans\<close>)
qed

section \<open>Tokens\<close>

definition peek_is :: "(uchar \<Rightarrow> bool) \<Rightarrow> lexer \<Rightarrow> bool" where
  "peek_is p l \<longleftrightarrow> (case lx_rest l of [] \<Rightarrow> False | c # _ \<Rightarrow> p c)"

definition span_from :: "lexer \<Rightarrow> lexer \<Rightarrow> source_span" where
  "span_from l l' = \<lparr>sp_start = location l, sp_end = location l'\<rparr>"

definition lex_ident :: "lexer \<Rightarrow> 'f token \<times> lexer" where
  "lex_ident l =
     (let (text, l') = scan_while is_ident_continue l
      in (\<lparr>tok_kind = TokIdent text, tok_span = span_from l l'\<rparr>, l'))"

definition unit_suffix :: "duration_unit \<Rightarrow> string" where
  "unit_suffix unit = (case unit of Milliseconds \<Rightarrow> ''ms'' | Seconds \<Rightarrow> ''s'' | Minutes \<Rightarrow> ''m'' | Hours \<Rightarrow> ''h'' | Days \<Rightarrow> ''d'')"

definition unit_of_suffix :: "ustring \<Rightarrow> duration_unit option" where
  "unit_of_suffix suffix =
     (if suffix = u ''ms'' then Some Milliseconds else if suffix = u ''s'' then Some Seconds
      else if suffix = u ''m'' then Some Minutes else if suffix = u ''h'' then Some Hours
      else if suffix = u ''d'' then Some Days else None)"

definition lex_number :: "(ustring \<Rightarrow> 'f option) \<Rightarrow> lexer \<Rightarrow> compile_error + 'f token \<times> lexer" where
  "lex_number parse_f64 l =
     (let (digits, l1) = scan_while is_ascii_digit l;
          fractional = peek_is (\<lambda>c. c = 46) l1;
          (text, l2) = (if fractional
             then (let (frac, l2) = scan_while is_ascii_digit (bump l1) in (digits @ 46 # frac, l2))
             else (digits, l1))
      in if peek_is is_ident_start l2 then
           (let (suffix, l3) = scan_while is_ident_continue l2
            in if fractional then Inl (syntax_error FractionalDuration (location l))
               else case unit_of_suffix suffix of
                 None \<Rightarrow> Inl (syntax_error (InvalidDurationUnit suffix) (location l))
               | Some unit \<Rightarrow>
                   (let d = \<lparr>dl_digits = digits, dl_unit = unit, dl_span = span_from l l3\<rparr>
                    in case checked_milliseconds_allow_zero d of
                         Inl e \<Rightarrow> Inl (syntax_error (BadDuration e) (location l))
                       | Inr _ \<Rightarrow> Inr (\<lparr>tok_kind = TokDuration d, tok_span = span_from l l3\<rparr>, l3)))
         else case parse_f64 text of
           None \<Rightarrow> Inl (syntax_error InvalidNumberLiteral (location l))
         | Some v \<Rightarrow> Inr (\<lparr>tok_kind = TokNumber v, tok_span = span_from l l2\<rparr>, l2))"

definition unescape :: "uchar \<Rightarrow> uchar" where
  "unescape c = (if c = 110 then 10 else if c = 114 then 13 else if c = 116 then 9 else c)"

function string_body :: "source_location \<Rightarrow> lexer \<Rightarrow> compile_error + ustring \<times> lexer" where
  "string_body start l =
     (case lx_rest l of
        [] \<Rightarrow> Inl (syntax_error UnterminatedString start)
      | c # cs \<Rightarrow>
          (if c = 34 then Inr ([], bump l)
           else if c = 92 then
             (case cs of
                [] \<Rightarrow> Inl (syntax_error UnterminatedEscape start)
              | e # _ \<Rightarrow>
                  (case string_body start (bump (bump l)) of
                     Inl err \<Rightarrow> Inl err
                   | Inr (text, l') \<Rightarrow> Inr (unescape e # text, l')))
           else
             (case string_body start (bump l) of
                Inl err \<Rightarrow> Inl err
              | Inr (text, l') \<Rightarrow> Inr (c # text, l'))))"
  by pat_completeness auto
termination by (relation "measure (\<lambda>(s, l). length (lx_rest l))") auto

declare string_body.simps [simp del]

definition lex_string :: "lexer \<Rightarrow> compile_error + 'f token \<times> lexer" where
  "lex_string l =
     (case string_body (location l) (bump l) of
        Inl e \<Rightarrow> Inl e
      | Inr (text, l') \<Rightarrow> Inr (\<lparr>tok_kind = TokString text, tok_span = span_from l l'\<rparr>, l'))"

definition two_char_symbols :: "string list" where
  "two_char_symbols = [''->'', ''=>'', ''=='', ''!='', ''<='', ''>='', ''&&'', ''||'']"

definition one_char_symbols :: ustring where
  "one_char_symbols = u ''{}()[],.:;+-*/<>=?|!%''"

definition lex_symbol :: "lexer \<Rightarrow> compile_error + 'f token \<times> lexer" where
  "lex_symbol l =
     (case List.find (\<lambda>item. starts_with item l) two_char_symbols of
        Some item \<Rightarrow>
          (let l' = bump (bump l) in Inr (\<lparr>tok_kind = TokSymbol (u item), tok_span = span_from l l'\<rparr>, l'))
      | None \<Rightarrow>
          (let c = hd (lx_rest l); l' = bump l
           in if c \<in> set one_char_symbols then Inr (\<lparr>tok_kind = TokSymbol [c], tok_span = span_from l l'\<rparr>, l')
              else Inl (syntax_error (UnexpectedCharacter c) (location l))))"

function skip_ws_and_comments :: "lexer \<Rightarrow> compile_error + lexer" where
  "skip_ws_and_comments l =
     (let l1 = snd (scan_while is_whitespace l)
      in if starts_with ''//'' l1 then skip_ws_and_comments (skip_line_comment l1)
         else if starts_with ''/*'' l1 then
           (case skip_block_comment (bump (bump l1)) of
              Inl e \<Rightarrow> Inl e
            | Inr l2 \<Rightarrow> skip_ws_and_comments l2)
         else Inr l1)"
  by pat_completeness auto

lemma scan_length: "length (lx_rest (snd (scan_while p l))) \<le> length (lx_rest l)"
  by (simp add: scan_while_eq)

lemma line_comment_length:
  assumes "starts_with ''//'' l"
  shows "length (lx_rest (skip_line_comment l)) < length (lx_rest l)"
proof -
  obtain cs where "lx_rest l = 47 # cs" using assms by (cases "lx_rest l") (auto simp: starts_with_def u_def)
  then show ?thesis by (simp add: skip_line_comment_eq newline_def)
qed

termination skip_ws_and_comments
proof (relation "measure (\<lambda>l. length (lx_rest l))", goal_cases)
  case (2 l l1)
  then show ?case using line_comment_length [of l1] scan_length [of is_whitespace l] by simp
next
  case (3 l l1 l2)
  have "lx_rest l1 \<noteq> []" using 3(3) by (simp add: starts_with_def)
  with skip_block_comment_length [OF 3(4)] scan_length [of is_whitespace l] 3(1) show ?case
    by (cases "lx_rest l1") auto
qed simp

declare skip_ws_and_comments.simps [simp del]

definition next_token :: "(ustring \<Rightarrow> 'f option) \<Rightarrow> lexer \<Rightarrow> compile_error + 'f token \<times> lexer" where
  "next_token parse_f64 l =
     (let c = hd (lx_rest l)
      in if is_ident_start c then Inr (lex_ident l)
         else if is_ascii_digit c then lex_number parse_f64 l
         else if c = 34 then lex_string l
         else lex_symbol l)"

section \<open>What a token is\<close>

text \<open>The value of the raw text between the quotes of a string literal.\<close>

fun unescape_all :: "ustring \<Rightarrow> ustring option" where
  "unescape_all [] = Some []"
| "unescape_all (c # cs) =
     (if c = 34 then None
      else if c = 92 then (case cs of [] \<Rightarrow> None | e # r \<Rightarrow> map_option ((#) (unescape e)) (unescape_all r))
      else map_option ((#) c) (unescape_all cs))"

text \<open>Which source text stands for which token: the reference the scanner is compared with. The span
  inside a duration literal is left open.\<close>

inductive lexeme :: "(ustring \<Rightarrow> 'f option) \<Rightarrow> 'f token_kind \<Rightarrow> ustring \<Rightarrow> bool" for pf where
  ident: "\<lbrakk>is_ident_start c; list_all is_ident_continue cs\<rbrakk> \<Longrightarrow> lexeme pf (TokIdent (c # cs)) (c # cs)"
| integer: "\<lbrakk>ds \<noteq> []; list_all is_ascii_digit ds; pf ds = Some v\<rbrakk> \<Longrightarrow> lexeme pf (TokNumber v) ds"
| fraction: "\<lbrakk>ds \<noteq> []; list_all is_ascii_digit ds; list_all is_ascii_digit fs; pf (ds @ 46 # fs) = Some v\<rbrakk>
     \<Longrightarrow> lexeme pf (TokNumber v) (ds @ 46 # fs)"
| duration: "\<lbrakk>checked_milliseconds_of True ds unit = Inr ms\<rbrakk>
     \<Longrightarrow> lexeme pf (TokDuration \<lparr>dl_digits = ds, dl_unit = unit, dl_span = span\<rparr>) (ds @ u (unit_suffix unit))"
| string: "unescape_all raw = Some text \<Longrightarrow> lexeme pf (TokString text) (34 # raw @ [34])"
| symbol2: "item \<in> set two_char_symbols \<Longrightarrow> lexeme pf (TokSymbol (u item)) (u item)"
| symbol1: "c \<in> set one_char_symbols \<Longrightarrow> lexeme pf (TokSymbol [c]) [c]"

text \<open>One scanning step took the text \<open>t\<close> and left the rest.\<close>

definition took :: "ustring \<Rightarrow> lexer \<Rightarrow> lexer \<Rightarrow> bool" where
  "took t l l' \<longleftrightarrow> lx_rest l = t @ lx_rest l' \<and> l' = advance t l"

lemma took_bump: "lx_rest l = c # cs \<Longrightarrow> took [c] l (bump l)"
  by (simp add: took_def)

lemma took_trans: "took s l l1 \<Longrightarrow> took t l1 l2 \<Longrightarrow> took (s @ t) l l2"
  unfolding took_def by (metis advance_append append_assoc)

lemma took_scan: "scan_while p l = (t, l') \<Longrightarrow> took t l l' \<and> list_all p t \<and> (\<forall>c cs. lx_rest l' = c # cs \<longrightarrow> \<not> p c)"
proof -
  assume "scan_while p l = (t, l')"
  then have t: "t = takeWhile p (lx_rest l)" "l' = advance t l" by (auto simp: scan_while_eq)
  have "lx_rest l' = dropWhile p (lx_rest l)" by (simp add: t dropWhile_eq_drop)
  then show ?thesis
    using t by (auto simp: took_def list_all_iff dest: set_takeWhileD) (metis hd_dropWhile list.distinct(1) list.sel(1))
qed

lemma unit_of_suffix_eq: "unit_of_suffix s = Some unit \<longleftrightarrow> s = u (unit_suffix unit)"
  by (cases unit) (auto simp: unit_of_suffix_def unit_suffix_def u_def)

lemma string_body_took:
  "string_body start l = Inr (v, l') \<Longrightarrow> \<exists>raw. took (raw @ [34]) l l' \<and> unescape_all raw = Some v"
proof (induction start l arbitrary: v rule: string_body.induct)
  case (1 start l)
  obtain c cs where l: "lx_rest l = c # cs" using 1(3) by (subst (asm) string_body.simps) (auto split: list.splits)
  note b = took_bump [OF l]
  consider "c = 34" | "c = 92" | "c \<noteq> 34" "c \<noteq> 92" by blast
  then show ?case
  proof cases
    case 1
    with \<open>string_body start l = Inr (v, l')\<close> l have "v = []" "l' = bump l" by (auto simp: string_body.simps [of start l])
    with b 1 show ?thesis by (intro exI [of _ "[]"]) simp
  next
    case 2
    with 1(3) l obtain e r v' where e: "cs = e # r" "v = unescape e # v'"
        "string_body start (bump (bump l)) = Inr (v', l')"
      by (subst (asm) string_body.simps) (auto split: list.splits sum.splits)
    with 1(1) [OF l _ 2 e(1), of v'] 2 obtain raw where raw: "took (raw @ [34]) (bump (bump l)) l'" "unescape_all raw = Some v'"
      by auto
    have "took [c, e] l (bump (bump l))" using took_trans [OF b took_bump [of "bump l" e r]] l e by simp
    from took_trans [OF this raw(1)] raw(2) 2 e show ?thesis
      by (intro exI [of _ "c # e # raw"]) simp
  next
    case 3
    with 1(3) l obtain v' where e: "v = c # v'" "string_body start (bump l) = Inr (v', l')"
      by (subst (asm) string_body.simps) (auto split: sum.splits)
    with 1(2) [OF l 3, of v'] obtain raw where raw: "took (raw @ [34]) (bump l) l'" "unescape_all raw = Some v'"
      by auto
    from took_trans [OF b raw(1)] raw(2) 3 e show ?thesis
      by (intro exI [of _ "c # raw"]) simp
  qed
qed

definition scanned :: "(ustring \<Rightarrow> 'f option) \<Rightarrow> lexer \<Rightarrow> 'f token \<Rightarrow> lexer \<Rightarrow> bool" where
  "scanned pf l tok l' \<longleftrightarrow>
     (\<exists>t. took t l l' \<and> t \<noteq> [] \<and> lexeme pf (tok_kind tok) t \<and> tok_span tok = span_from l l')"

lemma scan_head:
  assumes "scan_while p l = (t, l')" and "lx_rest l = c # cs" and "p c"
  shows "\<exists>ds. t = c # ds \<and> list_all p ds"
  using assms by (auto simp: scan_while_eq list_all_iff dest: set_takeWhileD)

lemma lex_ident_scanned:
  assumes "lx_rest l = c # cs" and "is_ident_start c" and "lex_ident l = (tok, l')"
  shows "scanned pf l tok l'"
proof -
  obtain t where t: "scan_while is_ident_continue l = (t, l')" "tok = \<lparr>tok_kind = TokIdent t, tok_span = span_from l l'\<rparr>"
    using assms(3) by (auto simp: lex_ident_def split: prod.splits)
  from scan_head [OF t(1) assms(1)] assms(2) obtain ds where "t = c # ds" "list_all is_ident_continue ds"
    by (auto simp: is_ident_continue_def)
  with took_scan [OF t(1)] t(2) assms(2) show ?thesis
    unfolding scanned_def by (intro exI [of _ t]) (auto intro: lexeme.ident)
qed

lemma lex_number_scanned:
  assumes "lx_rest l = c # cs" and "is_ascii_digit c" and "lex_number pf l = Inr (tok, l')"
  shows "scanned pf l tok l'"
proof -
  obtain ds l1 where d: "scan_while is_ascii_digit l = (ds, l1)" by fastforce
  obtain fs l2 where f: "scan_while is_ascii_digit (bump l1) = (fs, l2)" by fastforce
  obtain ss l3 where s: "scan_while is_ident_continue l1 = (ss, l3)" by fastforce
  from scan_head [OF d assms(1,2)] have ds: "ds \<noteq> []" by auto
  note td = took_scan [OF d] and tf = took_scan [OF f] and ts = took_scan [OF s]
  show ?thesis
  proof (cases "peek_is (\<lambda>c. c = 46) l1")
    case True
    then obtain r where r: "lx_rest l1 = 46 # r" by (auto simp: peek_is_def split: list.splits)
    have "\<not> peek_is is_ident_start l2" and v: "\<exists>v. pf (ds @ 46 # fs) = Some v \<and> l' = l2 \<and>
        tok = \<lparr>tok_kind = TokNumber v, tok_span = span_from l l'\<rparr>"
      using assms(3) True by (auto simp: lex_number_def d f Let_def split: prod.splits if_splits option.splits)
    have "took (ds @ 46 # fs) l l2"
      using took_trans [OF _ took_trans [OF took_bump [OF r]], of ds l fs l2] td tf by simp
    with v td tf ds show ?thesis unfolding scanned_def
      by (intro exI [of _ "ds @ 46 # fs"]) (auto intro: lexeme.fraction)
  next
    case False
    show ?thesis
    proof (cases "peek_is is_ident_start l1")
      case True
      with False assms(3) obtain unit ms where unit: "unit_of_suffix ss = Some unit" "l' = l3"
          "tok = \<lparr>tok_kind = TokDuration \<lparr>dl_digits = ds, dl_unit = unit, dl_span = span_from l l3\<rparr>, tok_span = span_from l l3\<rparr>"
          "checked_milliseconds_of True ds unit = Inr ms"
        by (auto simp: lex_number_def d s Let_def checked_milliseconds_allow_zero_def split: option.splits sum.splits)
      have "took (ds @ ss) l l3" using took_trans td ts by blast
      with unit ds show ?thesis unfolding scanned_def
        by (intro exI [of _ "ds @ ss"]) (auto simp: unit_of_suffix_eq intro: lexeme.duration)
    next
      case plain: False
      have "\<exists>v. pf ds = Some v \<and> l' = l1 \<and> tok = \<lparr>tok_kind = TokNumber v, tok_span = span_from l l'\<rparr>"
        using assms(3) False plain by (auto simp: lex_number_def d Let_def split: option.splits)
      with td ds show ?thesis unfolding scanned_def by (intro exI [of _ ds]) (auto intro: lexeme.integer)
    qed
  qed
qed

lemma lex_string_scanned:
  assumes "lx_rest l = 34 # cs" and "lex_string l = Inr (tok, l')"
  shows "scanned pf l tok l'"
proof -
  obtain v where v: "string_body (location l) (bump l) = Inr (v, l')"
      "tok = \<lparr>tok_kind = TokString v, tok_span = span_from l l'\<rparr>"
    using assms(2) by (auto simp: lex_string_def split: sum.splits)
  from string_body_took [OF v(1)] obtain raw where raw: "took (raw @ [34]) (bump l) l'" "unescape_all raw = Some v" by blast
  from took_trans [OF took_bump [OF assms(1)] raw(1)] raw(2) v(2) show ?thesis unfolding scanned_def
    by (intro exI [of _ "34 # raw @ [34]"]) (auto intro: lexeme.string)
qed

lemma two_char_length: "item \<in> set two_char_symbols \<Longrightarrow> length item = 2"
  by (auto simp: two_char_symbols_def)

lemma lex_symbol_scanned:
  assumes "lx_rest l = c # cs" and "lex_symbol l = Inr (tok, l')"
  shows "scanned pf l tok l'"
proof (cases "List.find (\<lambda>item. starts_with item l) two_char_symbols")
  case None
  with assms show ?thesis unfolding scanned_def
    by (intro exI [of _ "[c]"]) (auto simp: lex_symbol_def Let_def took_bump intro: lexeme.symbol1 split: if_splits)
next
  case (Some item)
  then have i: "item \<in> set two_char_symbols" "starts_with item l" by (auto simp: find_Some_iff)
  then obtain d r where cs: "cs = d # r" "u item = [c, d]"
    using assms(1) two_char_length [OF i(1)]
    by (cases cs) (auto simp: starts_with_def u_def numeral_2_eq_2 dest: arg_cong [where f = length])
  have "took [c, d] l (bump (bump l))"
    using took_trans [OF took_bump [OF assms(1)] took_bump [of "bump l" d r]] assms(1) cs by simp
  with Some assms i cs show ?thesis unfolding scanned_def
    by (intro exI [of _ "[c, d]"]) (auto simp: lex_symbol_def Let_def intro: lexeme.symbol2 [of item, unfolded cs(2)])
qed

lemma next_token_scanned:
  assumes "lx_rest l \<noteq> []" and "next_token pf l = Inr (tok, l')"
  shows "scanned pf l tok l'"
proof -
  obtain c cs where l: "lx_rest l = c # cs" using assms(1) by (cases "lx_rest l") auto
  consider "is_ident_start c" | "is_ascii_digit c" "\<not> is_ident_start c" | "c = 34" "\<not> is_ident_start c" "\<not> is_ascii_digit c"
    | "c \<noteq> 34" "\<not> is_ident_start c" "\<not> is_ascii_digit c" by blast
  then show ?thesis
  proof cases
    case 1
    with assms(2) l show ?thesis by (intro lex_ident_scanned [OF l]) (auto simp: next_token_def)
  next
    case 2
    with assms(2) l show ?thesis by (intro lex_number_scanned [OF l]) (auto simp: next_token_def)
  next
    case 3
    with assms(2) l show ?thesis by (intro lex_string_scanned) (auto simp: next_token_def)
  next
    case 4
    with assms(2) l show ?thesis by (intro lex_symbol_scanned [OF l]) (auto simp: next_token_def)
  qed
qed

lemma took_length: "took t l l' \<Longrightarrow> length (lx_rest l) = length t + length (lx_rest l')"
  unfolding took_def by (metis length_append)

lemma scanned_length:
  assumes "scanned pf l tok l'"
  shows "length (lx_rest l') < length (lx_rest l)"
proof -
  obtain t where "took t l l'" "t \<noteq> []" using assms by (auto simp: scanned_def)
  then show ?thesis using took_length [of t l l'] by (cases t) auto
qed

section \<open>The lexer\<close>

function lex_all :: "(ustring \<Rightarrow> 'f option) \<Rightarrow> lexer \<Rightarrow> compile_error + 'f token list" where
  "lex_all pf l =
     (case skip_ws_and_comments l of
        Inl e \<Rightarrow> Inl e
      | Inr l1 \<Rightarrow>
          (if lx_rest l1 = [] then Inr [\<lparr>tok_kind = TokEof, tok_span = span_from l1 l1\<rparr>]
           else case next_token pf l1 of
             Inl e \<Rightarrow> Inl e
           | Inr (tok, l2) \<Rightarrow> (case lex_all pf l2 of Inl e \<Rightarrow> Inl e | Inr toks \<Rightarrow> Inr (tok # toks))))"
  by pat_completeness auto

lemma skip_length: "skip_ws_and_comments l = Inr l' \<Longrightarrow> length (lx_rest l') \<le> length (lx_rest l)"
proof (induction l rule: skip_ws_and_comments.induct)
  case (1 l)
  let ?l1 = "snd (scan_while is_whitespace l)"
  have le: "length (lx_rest ?l1) \<le> length (lx_rest l)" by (rule scan_length)
  consider "starts_with ''//'' ?l1" | "\<not> starts_with ''//'' ?l1" "starts_with ''/*'' ?l1"
    | "\<not> starts_with ''//'' ?l1" "\<not> starts_with ''/*'' ?l1" by blast
  then show ?case
  proof cases
    case a: 1
    with 1(3) have "skip_ws_and_comments (skip_line_comment ?l1) = Inr l'"
      by (subst (asm) skip_ws_and_comments.simps) (simp add: Let_def)
    with 1(1) [OF refl a] line_comment_length [OF a] le show ?thesis by simp
  next
    case a: 2
    with 1(3) obtain l2 where l2: "skip_block_comment (bump (bump ?l1)) = Inr l2" "skip_ws_and_comments l2 = Inr l'"
      by (subst (asm) skip_ws_and_comments.simps) (auto simp: Let_def split: sum.splits)
    with 1(2) [OF refl a] skip_block_comment_length [OF l2(1)] le show ?thesis by fastforce
  next
    case 3
    with 1(3) have "l' = ?l1" by (subst (asm) skip_ws_and_comments.simps) (simp add: Let_def)
    with le show ?thesis by simp
  qed
qed

termination lex_all
proof (relation "measure (\<lambda>(pf, l). length (lx_rest l))", goal_cases)
  case (2 pf l l1 tl tok l2)
  then show ?case using skip_length [of l l1] scanned_length [OF next_token_scanned, of l1 pf tok l2] by fastforce
qed simp

declare lex_all.simps [simp del]

definition lex :: "(ustring \<Rightarrow> 'f option) \<Rightarrow> ustring \<Rightarrow> compile_error + 'f token list" where
  "lex pf source = lex_all pf (lexer_new source)"

section \<open>Between the tokens\<close>

text \<open>No \<open>*/\<close> starts inside the body of a block comment.\<close>

fun no_close :: "ustring \<Rightarrow> bool" where
  "no_close [] \<longleftrightarrow> True"
| "no_close (c # cs) \<longleftrightarrow> take 2 (c # cs @ u ''*/'') \<noteq> u ''*/'' \<and> no_close cs"

inductive trivia :: "ustring \<Rightarrow> bool" where
  none: "trivia []"
| space: "is_whitespace c \<Longrightarrow> trivia g \<Longrightarrow> trivia (c # g)"
| line: "newline \<notin> set body \<Longrightarrow> trivia g \<Longrightarrow> trivia (u ''//'' @ body @ newline # g)"
| block: "no_close body \<Longrightarrow> trivia g \<Longrightarrow> trivia (u ''/*'' @ body @ u ''*/'' @ g)"

text \<open>At the end of the source a line comment need not be closed.\<close>

definition final_trivia :: "ustring \<Rightarrow> bool" where
  "final_trivia g \<longleftrightarrow> trivia g \<or> (\<exists>h body. g = h @ u ''//'' @ body \<and> trivia h \<and> newline \<notin> set body)"

lemma trivia_spaces: "list_all is_whitespace ws \<Longrightarrow> trivia g \<Longrightarrow> trivia (ws @ g)"
  by (induction ws) (auto intro: trivia.space)

lemma trivia_append: "trivia g \<Longrightarrow> trivia h \<Longrightarrow> trivia (g @ h)"
proof (induction rule: trivia.induct)
  case (line body g)
  then show ?case using trivia.line [of body "g @ h"] by simp
next
  case (block body g)
  then show ?case using trivia.block [of body "g @ h"] by simp
qed (auto intro: trivia.space)

lemma final_trivia_prefix: "trivia g \<Longrightarrow> final_trivia h \<Longrightarrow> final_trivia (g @ h)"
  unfolding final_trivia_def using trivia_append by (metis append_assoc)

lemma u_simps [simp]: "u [] = []" "u (c # cs) = of_char c # u cs"
  by (simp_all add: u_def)

lemma skip_block_took:
  "skip_block_comment l = Inr l' \<Longrightarrow> \<exists>body. took (body @ u ''*/'') l l' \<and> no_close body"
proof (induction l rule: skip_block_comment.induct)
  case (1 l)
  from 1(2) obtain c cs where l: "lx_rest l = c # cs" by (subst (asm) skip_block_comment.simps) (cases "lx_rest l"; simp)
  show ?case
  proof (cases "starts_with ''*/'' l")
    case True
    then obtain r where r: "lx_rest l = 42 # 47 # r"
      using l by (cases cs) (auto simp: starts_with_def numeral_2_eq_2)
    have "took [42, 47] l (bump (bump l))"
      using took_trans [OF took_bump [OF r] took_bump [of "bump l" 47 r]] r by simp
    moreover have "l' = bump (bump l)" using 1(2) True l by (subst (asm) skip_block_comment.simps) simp
    ultimately show ?thesis by (intro exI [of _ "[]"]) simp
  next
    case False
    with 1(2) l have "skip_block_comment (bump l) = Inr l'" by (subst (asm) skip_block_comment.simps) simp
    with 1(1) l False obtain body where b: "took (body @ u ''*/'') (bump l) l'" "no_close body" by auto
    from took_trans [OF took_bump [OF l] b(1)] have t: "took (c # body @ u ''*/'') l l'" by simp
    moreover have "take 2 (c # body @ u ''*/'') \<noteq> u ''*/''"
    proof -
      have "lx_rest l = (c # body @ u ''*/'') @ lx_rest l'" using t unfolding took_def by blast
      then have "take 2 (lx_rest l) = take 2 ((c # body @ u ''*/'') @ lx_rest l')" by (rule arg_cong)
      also have "\<dots> = take 2 (c # body @ u ''*/'')" by (cases body) simp_all
      finally have "take 2 (lx_rest l) = take 2 (c # body @ u ''*/'')" .
      with False l show ?thesis by (simp add: starts_with_def)
    qed
    ultimately show ?thesis using b(2) by (intro exI [of _ "c # body"]) simp
  qed
qed

lemma drop_to_newline: "newline \<in> set xs \<Longrightarrow> \<exists>z. dropWhile (\<lambda>c. c \<noteq> newline) xs = newline # z"
  by (induction xs) auto

lemma took_advance: "lx_rest l = t @ r \<Longrightarrow> took t l (advance t l)"
  by (simp add: took_def)

lemma skip_line_took:
  assumes "starts_with ''//'' l"
  obtains (closed) body where "took (u ''//'' @ body @ [newline]) l (skip_line_comment l)" "newline \<notin> set body"
    | (unclosed) body where "took (u ''//'' @ body) l (skip_line_comment l)" "newline \<notin> set body" "lx_rest (skip_line_comment l) = []"
proof -
  obtain r where r: "lx_rest l = 47 # 47 # r"
  proof (cases "lx_rest l")
    case (Cons a as)
    with assms show ?thesis by (cases as) (auto simp: starts_with_def numeral_2_eq_2 intro: that)
  qed (use assms in \<open>simp add: starts_with_def\<close>)
  let ?t = "takeWhile (\<lambda>c. c \<noteq> newline) (lx_rest l)"
  let ?body = "takeWhile (\<lambda>c. c \<noteq> newline) r"
  have t: "?t = u ''//'' @ ?body" by (simp add: r newline_def)
  have nb: "newline \<notin> set ?body" by (auto dest: set_takeWhileD)
  show ?thesis
  proof (cases "newline \<in> set (lx_rest l)")
    case True
    then obtain z where z: "lx_rest l = ?t @ newline # z"
      using drop_to_newline [OF True] by (metis takeWhile_dropWhile_id)
    have "took (?t @ [newline]) l (advance (?t @ [newline]) l)"
      by (rule took_advance [of _ _ z]) (use z in simp)
    then have "took (?t @ [newline]) l (skip_line_comment l)" using True by (simp add: skip_line_comment_eq)
    with t nb closed show ?thesis by simp
  next
    case False
    then have eq: "?t = lx_rest l" by (auto simp: takeWhile_eq_all_conv)
    have sk: "skip_line_comment l = advance ?t l" using False by (simp add: skip_line_comment_eq)
    have "took ?t l (skip_line_comment l)" unfolding sk eq by (simp add: took_def)
    moreover have "lx_rest (skip_line_comment l) = []" unfolding sk eq by simp
    ultimately have "took ?t l (skip_line_comment l)" "lx_rest (skip_line_comment l) = []" by blast+
    with t nb unclosed show ?thesis by simp
  qed
qed

lemma took_nil: "took g l l' \<Longrightarrow> lx_rest l = [] \<Longrightarrow> g = [] \<and> l' = l"
  by (auto simp: took_def)

lemma skip_took:
  "skip_ws_and_comments l = Inr l' \<Longrightarrow>
   \<exists>g. took g l l' \<and> final_trivia g \<and> (lx_rest l' \<noteq> [] \<longrightarrow> trivia g)"
proof (induction l rule: skip_ws_and_comments.induct)
  case (1 l)
  obtain ws l1 where ws: "scan_while is_whitespace l = (ws, l1)" by fastforce
  note tw = took_scan [OF ws]
  then have tr: "trivia ws" using trivia_spaces [of ws "[]"] trivia.none by simp
  have l1: "snd (scan_while is_whitespace l) = l1" by (simp add: ws)
  consider "starts_with ''//'' l1" | "\<not> starts_with ''//'' l1" "starts_with ''/*'' l1"
    | "\<not> starts_with ''//'' l1" "\<not> starts_with ''/*'' l1" by blast
  then show ?case
  proof cases
    case a: 1
    with 1(3) have s: "skip_ws_and_comments (skip_line_comment l1) = Inr l'"
      by (subst (asm) skip_ws_and_comments.simps) (simp add: Let_def l1)
    with 1(1) [OF l1 [symmetric] a] obtain g where g: "took g (skip_line_comment l1) l'" "final_trivia g"
        "lx_rest l' \<noteq> [] \<longrightarrow> trivia g" by blast
    from a show ?thesis
    proof (cases rule: skip_line_took)
      case (closed body)
      have line: "trivia (u ''//'' @ body @ [newline])" using trivia.line [OF closed(2) trivia.none] by simp
      show ?thesis
        using took_trans [OF _ took_trans [OF closed(1) g(1)], of ws l] tw
          final_trivia_prefix [OF trivia_append [OF tr line] g(2)] trivia_append [OF trivia_append [OF tr line]] g(3)
        by (intro exI [of _ "ws @ (u ''//'' @ body @ [newline]) @ g"]) auto
    next
      case (unclosed body)
      have g0: "g = []" "l' = skip_line_comment l1" using took_nil [OF g(1) unclosed(3)] by auto
      have "final_trivia (ws @ u ''//'' @ body)" unfolding final_trivia_def using tr unclosed(2) by blast
      with took_trans [OF _ unclosed(1), of ws l] tw g0 unclosed(3) show ?thesis
        by (intro exI [of _ "ws @ u ''//'' @ body"]) auto
    qed
  next
    case a: 2
    with 1(3) obtain l2 where l2: "skip_block_comment (bump (bump l1)) = Inr l2" "skip_ws_and_comments l2 = Inr l'"
      by (subst (asm) skip_ws_and_comments.simps) (auto simp: Let_def l1 split: sum.splits)
    obtain r where r: "lx_rest l1 = 47 # 42 # r"
    proof (cases "lx_rest l1")
      case (Cons x as)
      with a(2) show ?thesis by (cases as) (auto simp: starts_with_def numeral_2_eq_2 intro: that)
    qed (use a(2) in \<open>simp add: starts_with_def\<close>)
    have open2: "took (u ''/*'') l1 (bump (bump l1))"
      using took_trans [OF took_bump [OF r] took_bump [of "bump l1" 42 r]] r by simp
    from skip_block_took [OF l2(1)] obtain body where b: "took (body @ u ''*/'') (bump (bump l1)) l2" "no_close body" by blast
    from 1(2) [OF l1 [symmetric] a l2(1,2)] obtain g where g: "took g l2 l'" "final_trivia g" "lx_rest l' \<noteq> [] \<longrightarrow> trivia g"
      by blast
    have block: "trivia (u ''/*'' @ body @ u ''*/'')" using trivia.block [OF b(2) trivia.none] by simp
    show ?thesis
      using took_trans [OF _ took_trans [OF took_trans [OF open2 b(1)] g(1)], of ws l] tw
        final_trivia_prefix [OF trivia_append [OF tr block] g(2)] trivia_append [OF trivia_append [OF tr block]] g(3)
      by (intro exI [of _ "ws @ (u ''/*'' @ body @ u ''*/'') @ g"]) auto
  next
    case 3
    with 1(3) have "l' = l1" by (subst (asm) skip_ws_and_comments.simps) (simp add: Let_def l1)
    with tw tr show ?thesis by (intro exI [of _ ws]) (auto simp: final_trivia_def)
  qed
qed

section \<open>Positions\<close>

text \<open>The location after the source prefix \<open>p\<close>: lines and columns count from one, columns count scalar
  values since the last newline, offsets count bytes.\<close>

definition locate :: "ustring \<Rightarrow> source_location" where
  "locate p = \<lparr>sl_line = 1 + count_list p newline, sl_column = 1 + length (takeWhile (\<lambda>c. c \<noteq> newline) (rev p)),
     sl_offset = byte_len p\<rparr>"

lemma locate_bump:
  assumes "location l = locate q" and "lx_rest l = c # cs"
  shows "location (bump l) = locate (q @ [c])"
  using assms by (auto simp: location_def locate_def bump_def byte_len_def count_list_append)

lemma took_ConsD:
  assumes "took (c # t) l l'"
  shows "lx_rest l = c # t @ lx_rest l'" and "took t (bump l) l'"
  using assms unfolding took_def advance.simps by (metis append_Cons, metis append_Cons bump_rest list.sel(3))

lemma locate_took: "location l = locate q \<Longrightarrow> took t l l' \<Longrightarrow> location l' = locate (q @ t)"
proof (induction t arbitrary: l q)
  case (Cons c t)
  note c = took_ConsD [OF Cons.prems(2)]
  from Cons.IH [OF locate_bump [OF Cons.prems(1) c(1)] c(2)] show ?case by simp
qed (simp add: took_def)

text \<open>\<open>toks\<close> is a tokenization of the source text \<open>s\<close> that stands after the prefix \<open>p\<close>.\<close>

inductive tokenizes :: "(ustring \<Rightarrow> 'f option) \<Rightarrow> ustring \<Rightarrow> 'f token list \<Rightarrow> ustring \<Rightarrow> bool" for pf where
  eof: "final_trivia g \<Longrightarrow>
     tokenizes pf p [\<lparr>tok_kind = TokEof, tok_span = \<lparr>sp_start = locate (p @ g), sp_end = locate (p @ g)\<rparr>\<rparr>] g"
| tok: "\<lbrakk>trivia g; lexeme pf k t; t \<noteq> []; tokenizes pf (p @ g @ t) toks s\<rbrakk> \<Longrightarrow>
     tokenizes pf p (\<lparr>tok_kind = k, tok_span = \<lparr>sp_start = locate (p @ g), sp_end = locate (p @ g @ t)\<rparr>\<rparr> # toks)
       (g @ t @ s)"

lemma lex_all_tokenizes:
  "location l = locate p \<Longrightarrow> lex_all pf l = Inr toks \<Longrightarrow> tokenizes pf p toks (lx_rest l)"
proof (induction pf l arbitrary: p toks rule: lex_all.induct)
  case (1 pf l)
  from 1(3) obtain l1 where l1: "skip_ws_and_comments l = Inr l1"
    by (subst (asm) lex_all.simps) (auto split: sum.splits)
  from skip_took [OF l1] obtain g where g: "took g l l1" "final_trivia g" "lx_rest l1 \<noteq> [] \<longrightarrow> trivia g" by blast
  have loc1: "location l1 = locate (p @ g)" by (rule locate_took [OF 1(2) g(1)])
  show ?case
  proof (cases "lx_rest l1 = []")
    case True
    with 1(3) l1 have "toks = [\<lparr>tok_kind = TokEof, tok_span = span_from l1 l1\<rparr>]"
      by (subst (asm) lex_all.simps) simp
    moreover have "lx_rest l = g" using g(1) True by (simp add: took_def)
    ultimately show ?thesis using tokenizes.eof [OF g(2)] loc1 by (simp add: span_from_def)
  next
    case False
    with 1(3) l1 obtain tok l2 rest where t: "next_token pf l1 = Inr (tok, l2)" "lex_all pf l2 = Inr rest" "toks = tok # rest"
      by (subst (asm) lex_all.simps) (auto split: sum.splits)
    from next_token_scanned [OF False t(1)] obtain x where x: "took x l1 l2" "x \<noteq> []" "lexeme pf (tok_kind tok) x"
        "tok_span tok = span_from l1 l2" by (auto simp: scanned_def)
    have loc2: "location l2 = locate (p @ g @ x)" using locate_took [OF loc1 x(1)] by simp
    have "tokenizes pf (p @ g @ x) rest (lx_rest l2)" by (rule 1(1) [OF l1 False t(1) refl loc2 t(2)])
    from tokenizes.tok [OF _ x(3,2) this] g(3) False
    have "tokenizes pf p (\<lparr>tok_kind = tok_kind tok, tok_span = \<lparr>sp_start = locate (p @ g), sp_end = locate (p @ g @ x)\<rparr>\<rparr> # rest)
        (g @ x @ lx_rest l2)" by blast
    moreover have "lx_rest l = g @ x @ lx_rest l2" using g(1) x(1) unfolding took_def by metis
    moreover have "tok = \<lparr>tok_kind = tok_kind tok, tok_span = \<lparr>sp_start = locate (p @ g), sp_end = locate (p @ g @ x)\<rparr>\<rparr>"
      using x(4) loc1 loc2 by (cases tok) (simp add: span_from_def)
    ultimately show ?thesis using t(3) by simp
  qed
qed

section \<open>Lexemes that end where they should are found\<close>

text \<open>The next character does not satisfy \<open>p\<close>.\<close>

definition head_free :: "(uchar \<Rightarrow> bool) \<Rightarrow> ustring \<Rightarrow> bool" where
  "head_free p r \<longleftrightarrow> (case r of [] \<Rightarrow> True | c # _ \<Rightarrow> \<not> p c)"

text \<open>What must not follow the text \<open>t\<close> of a token for the token to end there: a word is not continued by a
  letter or digit, a number by a digit, a letter or its first point, and a one-character symbol does not
  begin a two-character symbol or a comment with the next character. White space always ends a token.\<close>

fun apart :: "'f token_kind \<Rightarrow> ustring \<Rightarrow> ustring \<Rightarrow> bool" where
  "apart (TokIdent _) t r = head_free is_ident_continue r"
| "apart (TokDuration _) t r = head_free is_ident_continue r"
| "apart (TokNumber _) t r = head_free (\<lambda>c. is_ascii_digit c \<or> is_ident_start c \<or> c = 46 \<and> 46 \<notin> set t) r"
| "apart (TokSymbol s) t r =
     head_free (\<lambda>c. length s = 1 \<and> (s @ [c] \<in> u ` set two_char_symbols \<or> s = [47] \<and> (c = 47 \<or> c = 42))) r"
| "apart _ t r = True"

lemma head_free_simps [simp]: "head_free p []" "head_free p (c # r) \<longleftrightarrow> \<not> p c"
  by (simp_all add: head_free_def)

lemma head_free_mono: "head_free p r \<Longrightarrow> (\<And>c. q c \<Longrightarrow> p c) \<Longrightarrow> head_free q r"
  by (cases r) auto

fun erase_span :: "'f token_kind \<Rightarrow> 'f token_kind" where
  "erase_span (TokDuration d) = TokDuration (d\<lparr>dl_span := \<lparr>sp_start = locate [], sp_end = locate []\<rparr>\<rparr>)"
| "erase_span k = k"

lemma space_class:
  assumes "is_whitespace c"
  shows "\<not> is_ident_continue c" and "\<not> is_ascii_digit c" and "\<not> is_ident_start c" and "c \<noteq> 46" and "c \<noteq> 34" and "c \<noteq> 47"
    and "c \<notin> set (u ''->=&|*/'')"
  using assms by (auto simp: is_whitespace_def is_ident_continue_def is_ident_start_def is_ascii_digit_def is_ascii_alphabetic_def)

lemma takeWhile_apart:
  assumes "list_all p t" and "head_free p r"
  shows "takeWhile p (t @ r) = t"
  using assms by (cases r) (auto simp: list_all_iff takeWhile_append)

lemma skip_space: "lx_rest l = c # cs \<Longrightarrow> is_whitespace c \<Longrightarrow> skip_ws_and_comments l = skip_ws_and_comments (bump l)"
  by (subst (1 2) skip_ws_and_comments.simps) (simp add: scan_while_eq)

lemma skip_block_complete:
  "no_close body \<Longrightarrow> lx_rest l = body @ u ''*/'' @ r \<Longrightarrow> skip_block_comment l = Inr (advance (body @ u ''*/'') l)"
proof (induction body arbitrary: l)
  case Nil
  then show ?case by (subst skip_block_comment.simps) (simp add: starts_with_def numeral_2_eq_2)
next
  case (Cons c body)
  have "take 2 (c # body @ u ''*/'' @ r) = take 2 (c # body @ u ''*/'')" by (cases body) simp_all
  then have "\<not> starts_with ''*/'' l" using Cons.prems by (simp add: starts_with_def)
  with Cons show ?case by (subst skip_block_comment.simps) simp
qed

lemma skip_trivia: "trivia g \<Longrightarrow> lx_rest l = g @ r \<Longrightarrow> skip_ws_and_comments l = skip_ws_and_comments (advance g l)"
proof (induction g arbitrary: l rule: trivia.induct)
  case (space c g)
  then show ?case using skip_space [of l c "g @ r"] by simp
next
  case (line body g)
  have w: "takeWhile is_whitespace (lx_rest l) = []" using line.prems by (simp add: is_whitespace_def)
  have s: "starts_with ''//'' l" using line.prems by (simp add: starts_with_def)
  have "skip_ws_and_comments l = skip_ws_and_comments (skip_line_comment l)"
    by (subst skip_ws_and_comments.simps) (simp add: scan_while_eq w s)
  also have "skip_line_comment l = advance (u ''//'' @ body @ [newline]) l"
    using line.prems line.hyps(1) by (auto simp: skip_line_comment_eq newline_def takeWhile_append takeWhile_tail)
  finally show ?case using line.IH [of "advance (u ''//'' @ body @ [newline]) l"] line.prems by simp
next
  case (block body g)
  have w: "takeWhile is_whitespace (lx_rest l) = []" using block.prems by (simp add: is_whitespace_def)
  have s: "\<not> starts_with ''//'' l" "starts_with ''/*'' l" using block.prems by (simp_all add: starts_with_def)
  have b: "skip_block_comment (bump (bump l)) = Inr (advance (body @ u ''*/'') (bump (bump l)))"
    by (rule skip_block_complete [OF block.hyps(1), of _ "g @ r"]) (use block.prems in simp)
  have "skip_ws_and_comments l = skip_ws_and_comments (advance (body @ u ''*/'') (bump (bump l)))"
    by (subst skip_ws_and_comments.simps) (simp add: scan_while_eq w s b)
  then show ?case using block.IH [of "advance (body @ u ''*/'') (bump (bump l))"] block.prems by simp
qed simp

lemma string_body_complete:
  "unescape_all raw = Some v \<Longrightarrow> lx_rest l = raw @ 34 # r \<Longrightarrow> string_body start l = Inr (v, advance (raw @ [34]) l)"
proof (induction raw arbitrary: v l rule: unescape_all.induct)
  case 1
  then show ?case by (subst string_body.simps) simp
next
  case (2 c cs)
  show ?case
  proof (cases "c = 92")
    case True
    with 2(3) obtain e cs' v' where e: "cs = e # cs'" "unescape_all cs' = Some v'" "v = unescape e # v'"
      by (auto split: list.splits)
    have "string_body start (bump (bump l)) = Inr (v', advance (cs' @ [34]) (bump (bump l)))"
      by (rule 2(1)) (use True e 2(4) in simp_all)
    with True e 2(4) show ?thesis by (subst string_body.simps) simp
  next
    case False
    with 2(3) obtain v' where v: "c \<noteq> 34" "unescape_all cs = Some v'" "v = c # v'" by (auto split: if_splits)
    have "string_body start (bump l) = Inr (v', advance (cs @ [34]) (bump l))"
      by (rule 2(2)) (use False v 2(4) in simp_all)
    with False v 2(4) show ?thesis by (subst string_body.simps) simp
  qed
qed

lemma u_inject [simp]: "u a = u b \<longleftrightarrow> a = b"
  unfolding u_def by (rule inj_map_eq_map) (auto simp: inj_def)

lemma digit_not_start: "is_ascii_digit c \<Longrightarrow> \<not> is_ident_start c"
  by (auto simp: is_ascii_digit_def is_ident_start_def is_ascii_alphabetic_def)

lemma peek_apart: "lx_rest l = r \<Longrightarrow> head_free p r \<Longrightarrow> \<not> peek_is p l"
  by (auto simp: peek_is_def split: list.splits)

lemma next_is_number:
  assumes "lx_rest l = ds @ s" and "ds \<noteq> []" and "list_all is_ascii_digit ds"
  shows "next_token pf l = lex_number pf l"
  using assms digit_not_start by (cases ds) (auto simp: next_token_def)

lemma number_complete:
  assumes "lx_rest l = ds @ r" and "ds \<noteq> []" and "list_all is_ascii_digit ds" and "pf ds = Some v"
    and "head_free (\<lambda>c. is_ascii_digit c \<or> is_ident_start c \<or> c = 46) r"
  shows "\<exists>tok. next_token pf l = Inr (tok, advance ds l) \<and> tok_kind tok = TokNumber v"
proof -
  have free: "head_free is_ascii_digit r" "head_free is_ident_start r" "head_free (\<lambda>c. c = 46) r"
    by (rule head_free_mono [OF assms(5)]; simp)+
  have d: "scan_while is_ascii_digit l = (ds, advance ds l)"
    using takeWhile_apart [OF assms(3) free(1)] by (simp add: scan_while_eq assms(1))
  have "\<not> peek_is (\<lambda>c. c = 46) (advance ds l)" "\<not> peek_is is_ident_start (advance ds l)"
    using peek_apart [OF _ free(2), of "advance ds l"] peek_apart [OF _ free(3), of "advance ds l"] assms(1) by simp_all
  with d assms(4) next_is_number [OF assms(1-3), of pf] show ?thesis by (simp add: lex_number_def)
qed

lemma takeWhile_digits: "list_all is_ascii_digit ds \<Longrightarrow> \<not> is_ascii_digit c \<Longrightarrow> takeWhile is_ascii_digit (ds @ c # s) = ds"
  by (induction ds) auto

lemma fraction_complete:
  assumes "lx_rest l = (ds @ 46 # fs) @ r" and "ds \<noteq> []" and "list_all is_ascii_digit ds" and "list_all is_ascii_digit fs"
    and "pf (ds @ 46 # fs) = Some v" and "head_free (\<lambda>c. is_ascii_digit c \<or> is_ident_start c) r"
  shows "\<exists>tok. next_token pf l = Inr (tok, advance (ds @ 46 # fs) l) \<and> tok_kind tok = TokNumber v"
proof -
  let ?l1 = "advance ds l"
  have d: "scan_while is_ascii_digit l = (ds, ?l1)"
    using takeWhile_digits [OF assms(3), of 46 "fs @ r"] by (simp add: scan_while_eq assms(1) is_ascii_digit_def)
  have r1: "lx_rest ?l1 = 46 # fs @ r" using assms(1) by simp
  have free: "head_free is_ascii_digit r" "head_free is_ident_start r" by (rule head_free_mono [OF assms(6)]; simp)+
  have f: "scan_while is_ascii_digit (bump ?l1) = (fs, advance fs (bump ?l1))"
    using takeWhile_apart [OF assms(4) free(1)] r1 by (simp add: scan_while_eq)
  have dot: "peek_is (\<lambda>c. c = 46) ?l1" by (simp add: peek_is_def assms(1))
  have n: "\<not> peek_is is_ident_start (advance fs (bump ?l1))"
    by (rule peek_apart [OF _ free(2)]) (use r1 in simp)
  have "next_token pf l = lex_number pf l"
    by (rule next_is_number [of _ ds "46 # fs @ r"]) (use assms in simp_all)
  with d f dot n assms(5) show ?thesis by (simp add: lex_number_def)
qed

lemma unit_suffix_ident:
  "list_all is_ident_continue (u (unit_suffix unit))" "\<exists>c cs. u (unit_suffix unit) = c # cs \<and> is_ident_start c \<and> \<not> is_ascii_digit c \<and> c \<noteq> 46"
  by (cases unit; simp add: unit_suffix_def is_ident_continue_def is_ident_start_def is_ascii_alphabetic_def is_ascii_digit_def)+

lemma duration_complete:
  assumes "lx_rest l = (ds @ u (unit_suffix unit)) @ r" and "checked_milliseconds_of True ds unit = Inr ms"
    and "head_free is_ident_continue r"
  shows "\<exists>tok span. next_token pf l = Inr (tok, advance (ds @ u (unit_suffix unit)) l) \<and>
    tok_kind tok = TokDuration \<lparr>dl_digits = ds, dl_unit = unit, dl_span = span\<rparr>"
proof -
  have ds: "ds \<noteq> []" "list_all is_ascii_digit ds" using assms(2) by (auto simp: checked_milliseconds_of_def split: if_splits)
  let ?l1 = "advance ds l"
  obtain c cs where c: "u (unit_suffix unit) = c # cs" "is_ident_start c" "\<not> is_ascii_digit c" "c \<noteq> 46"
    using unit_suffix_ident(2) by blast
  have d: "scan_while is_ascii_digit l = (ds, ?l1)"
    using takeWhile_digits [OF ds(2) c(3), of "cs @ r"] by (simp add: scan_while_eq assms(1) c(1))
  have r1: "lx_rest ?l1 = u (unit_suffix unit) @ r" using assms(1) by simp
  have s: "scan_while is_ident_continue ?l1 = (u (unit_suffix unit), advance (u (unit_suffix unit)) ?l1)"
    using takeWhile_apart [OF unit_suffix_ident(1) assms(3), of unit] by (simp add: scan_while_eq assms(1))
  have p: "\<not> peek_is (\<lambda>c. c = 46) ?l1" "peek_is is_ident_start ?l1" using c by (simp_all add: peek_is_def assms(1))
  have un: "unit_of_suffix (u (unit_suffix unit)) = Some unit" by (simp add: unit_of_suffix_eq)
  have "next_token pf l = lex_number pf l"
    by (rule next_is_number [of _ ds "u (unit_suffix unit) @ r"]) (use assms ds in simp_all)
  with d s p un assms(2) show ?thesis
    by (simp add: lex_number_def checked_milliseconds_allow_zero_def Let_def)
qed

lemma symbol_tables:
  "list_all (\<lambda>item. case u item of [c, d] \<Rightarrow> \<not> is_ident_start c \<and> \<not> is_ascii_digit c \<and> c \<noteq> 34 \<and> \<not> is_whitespace d | _ \<Rightarrow> False) two_char_symbols"
  "list_all (\<lambda>c. \<not> is_ident_start c \<and> \<not> is_ascii_digit c \<and> c \<noteq> 34) one_char_symbols"
  by (simp_all add: two_char_symbols_def one_char_symbols_def is_ident_start_def is_ascii_alphabetic_def is_ascii_digit_def
      is_whitespace_def)

lemma symbol_classes:
  "item \<in> set two_char_symbols \<Longrightarrow> \<exists>c d. u item = [c, d] \<and> \<not> is_ident_start c \<and> \<not> is_ascii_digit c \<and> c \<noteq> 34 \<and> \<not> is_whitespace d"
  "c \<in> set one_char_symbols \<Longrightarrow> \<not> is_ident_start c \<and> \<not> is_ascii_digit c \<and> c \<noteq> 34"
proof -
  assume "item \<in> set two_char_symbols"
  with symbol_tables(1) have "case u item of [c, d] \<Rightarrow> \<not> is_ident_start c \<and> \<not> is_ascii_digit c \<and> c \<noteq> 34 \<and> \<not> is_whitespace d | _ \<Rightarrow> False"
    unfolding list_all_iff by blast
  then show "\<exists>c d. u item = [c, d] \<and> \<not> is_ident_start c \<and> \<not> is_ascii_digit c \<and> c \<noteq> 34 \<and> \<not> is_whitespace d"
    by (auto split: list.splits)
next
  assume "c \<in> set one_char_symbols"
  then show "\<not> is_ident_start c \<and> \<not> is_ascii_digit c \<and> c \<noteq> 34"
    by (rule bspec [OF symbol_tables(2) [unfolded list_all_iff]])
qed

lemma find_unique:
  assumes "x \<in> set xs" and "p x" and "\<And>y. y \<in> set xs \<Longrightarrow> p y \<Longrightarrow> y = x"
  shows "List.find p xs = Some x"
proof (cases "List.find p xs")
  case None
  with assms(1,2) show ?thesis by (auto simp: find_None_iff)
next
  case (Some y)
  then have "y \<in> set xs" "p y" by (auto simp: find_Some_iff)
  with assms(3) Some show ?thesis by blast
qed

lemma symbol2_complete:
  assumes "lx_rest l = u item @ r" and "item \<in> set two_char_symbols"
  shows "\<exists>tok. next_token pf l = Inr (tok, advance (u item) l) \<and> tok_kind tok = TokSymbol (u item)"
proof -
  obtain c d where c: "u item = [c, d]" "\<not> is_ident_start c" "\<not> is_ascii_digit c" "c \<noteq> 34"
    using symbol_classes(1) [OF assms(2)] by blast
  have iff: "starts_with x l \<longleftrightarrow> x = item" if "x \<in> set two_char_symbols" for x
    using two_char_length [OF that] assms(1) c(1) u_inject [of x item] by (auto simp: starts_with_def simp del: u_inject)
  have "List.find (\<lambda>x. starts_with x l) two_char_symbols = Some item"
    by (rule find_unique [OF assms(2)]) (use iff assms(2) in auto)
  with c assms(1) show ?thesis by (simp add: next_token_def lex_symbol_def Let_def)
qed

lemma symbol1_complete:
  assumes "lx_rest l = c # r" and "c \<in> set one_char_symbols" and "head_free (\<lambda>d. [c, d] \<in> u ` set two_char_symbols) r"
  shows "\<exists>tok. next_token pf l = Inr (tok, bump l) \<and> tok_kind tok = TokSymbol [c]"
proof -
  have "\<not> starts_with x l" if "x \<in> set two_char_symbols" for x
  proof
    assume start: "starts_with x l"
    have two: "take 2 (c # r) = u x" using start two_char_length [OF that] assms(1) by (simp add: starts_with_def)
    have "length (u x) = 2" using two_char_length [OF that] by (simp add: u_def)
    then obtain d r' where "r = d # r'" using two by (cases r) (auto dest: arg_cong [where f = length])
    then have "[c, d] = u x" using two by simp
    then show False using assms(3) that \<open>r = d # r'\<close> by auto
  qed
  then have "List.find (\<lambda>x. starts_with x l) two_char_symbols = None" by (simp add: find_None_iff)
  with symbol_classes(2) [OF assms(2)] assms show ?thesis by (simp add: next_token_def lex_symbol_def Let_def)
qed

lemma next_token_complete:
  assumes "lexeme pf k t" and "lx_rest l = t @ r" and "apart k t r"
  shows "\<exists>tok. next_token pf l = Inr (tok, advance t l) \<and> erase_span (tok_kind tok) = erase_span k"
  using assms(1)
proof cases
  case (ident c cs)
  have "list_all is_ident_continue (c # cs)" "head_free is_ident_continue r" using ident assms(3) by (simp_all add: is_ident_continue_def)
  from takeWhile_apart [OF this] ident assms(2) show ?thesis
    by (simp add: next_token_def lex_ident_def scan_while_eq)
next
  case (integer v)
  have "46 \<notin> set t" using integer(3) by (auto simp: list_all_iff is_ascii_digit_def)
  then have "head_free (\<lambda>c. is_ascii_digit c \<or> is_ident_start c \<or> c = 46) r" using integer(1) assms(3) by simp
  then show ?thesis using number_complete [OF assms(2)] integer by fastforce
next
  case (fraction ds fs v)
  have "head_free (\<lambda>c. is_ascii_digit c \<or> is_ident_start c) r" using fraction(1,2) assms(3) by simp
  then show ?thesis using fraction_complete [of l ds fs r pf v] fraction assms(2) by fastforce
next
  case (duration ds unit ms span)
  then have "head_free is_ident_continue r" using assms(3) by simp
  then show ?thesis using duration_complete [of l ds unit r ms pf] duration assms(2) by fastforce
next
  case (string raw v)
  have "string_body (location l) (bump l) = Inr (v, advance (raw @ [34]) (bump l))"
    by (rule string_body_complete [OF string(3), of _ r]) (use string(2) assms(2) in simp)
  with string assms(2) show ?thesis
    by (simp add: next_token_def lex_string_def is_ident_start_def is_ascii_alphabetic_def is_ascii_digit_def)
next
  case (symbol2 item)
  then show ?thesis using symbol2_complete [of l item r pf] assms(2) by fastforce
next
  case (symbol1 c)
  then have "head_free (\<lambda>d. [c, d] \<in> u ` set two_char_symbols) r" using assms(3) by (auto intro: head_free_mono)
  then show ?thesis using symbol1_complete [of l c r pf] symbol1 assms(2) by fastforce
qed

lemma lexeme_head: "lexeme pf k t \<Longrightarrow> \<exists>c cs. t = c # cs \<and> \<not> is_whitespace c \<and> (c = 47 \<longrightarrow> cs = [] \<and> k = TokSymbol [47])"
proof (induction rule: lexeme.induct)
  case (ident c cs)
  then show ?case using space_class(3) [of c] by (auto simp: is_ident_start_def is_ascii_alphabetic_def)
next
  case (integer ds v)
  then show ?case using space_class(2) by (cases ds) (auto simp: is_ascii_digit_def)
next
  case (fraction ds fs v)
  then show ?case using space_class(2) by (cases ds) (auto simp: is_ascii_digit_def)
next
  case (duration ds unit ms span)
  then have "ds \<noteq> []" "list_all is_ascii_digit ds" by (auto simp: checked_milliseconds_of_def split: if_splits)
  then show ?case using space_class(2) by (cases ds) (auto simp: is_ascii_digit_def)
next
  case (string raw v)
  then show ?case by (simp add: is_whitespace_def)
next
  case (symbol2 item)
  have "list_all (\<lambda>item. case u item of c # cs \<Rightarrow> \<not> is_whitespace c \<and> c \<noteq> 47 | [] \<Rightarrow> False) two_char_symbols"
    by (simp add: two_char_symbols_def is_whitespace_def)
  from bspec [OF this [unfolded list_all_iff] symbol2] show ?case by (auto split: list.splits)
next
  case (symbol1 c)
  have "list_all (\<lambda>c. \<not> is_whitespace c) one_char_symbols" by (simp add: one_char_symbols_def is_whitespace_def)
  from bspec [OF this [unfolded list_all_iff] symbol1] show ?case by simp
qed

lemma skip_at_lexeme:
  assumes "lexeme pf k t" and "lx_rest l = t @ r" and "apart k t r"
  shows "skip_ws_and_comments l = Inr l"
proof -
  obtain c cs where c: "t = c # cs" "\<not> is_whitespace c" "c = 47 \<longrightarrow> cs = [] \<and> k = TokSymbol [47]" using lexeme_head [OF assms(1)] by blast
  have "\<not> starts_with ''//'' l \<and> \<not> starts_with ''/*'' l"
  proof (cases "c = 47")
    case True
    with c assms(2,3) show ?thesis by (cases r) (auto simp: starts_with_def)
  next
    case False
    with c(1) assms(2) show ?thesis by (simp add: starts_with_def)
  qed
  with c assms(2) show ?thesis by (subst skip_ws_and_comments.simps) (simp add: scan_while_eq)
qed

text \<open>Source text woven from lexemes, each followed by its gap.\<close>

definition weave :: "('f token_kind \<times> ustring \<times> ustring) list \<Rightarrow> ustring" where
  "weave items = concat (map (\<lambda>(k, t, g). t @ g) items)"

text \<open>Gaps may be empty: tokens may touch wherever neither reaches into the next.\<close>

fun spaced :: "(ustring \<Rightarrow> 'f option) \<Rightarrow> ('f token_kind \<times> ustring \<times> ustring) list \<Rightarrow> bool" where
  "spaced pf [] \<longleftrightarrow> True"
| "spaced pf ((k, t, g) # items) \<longleftrightarrow> lexeme pf k t \<and> trivia g \<and> apart k t (g @ weave items) \<and> spaced pf items"

lemma lex_all_weave:
  "spaced pf items \<Longrightarrow> trivia g0 \<Longrightarrow> lx_rest l = g0 @ weave items \<Longrightarrow>
   \<exists>toks. lex_all pf l = Inr toks \<and> map (erase_span \<circ> tok_kind) toks = map (erase_span \<circ> fst) items @ [TokEof]"
proof (induction items arbitrary: l g0)
  case Nil
  then have "skip_ws_and_comments l = skip_ws_and_comments (advance g0 l)" using skip_trivia [of g0 l "[]"] by (simp add: weave_def)
  moreover have "lx_rest (advance g0 l) = []" using Nil by (simp add: weave_def)
  moreover from this have "skip_ws_and_comments (advance g0 l) = Inr (advance g0 l)"
    by (subst skip_ws_and_comments.simps) (simp add: scan_while_eq starts_with_def)
  ultimately show ?case by (subst lex_all.simps) simp
next
  case (Cons item items)
  obtain k t g where item: "item = (k, t, g)" by (cases item)
  have ok: "lexeme pf k t" "trivia g" "apart k t (g @ weave items)" "spaced pf items" using Cons.prems(1) item by simp_all
  let ?l1 = "advance g0 l"
  have r1: "lx_rest ?l1 = t @ g @ weave items" using Cons.prems(3) by (simp add: weave_def item)
  have skip: "skip_ws_and_comments l = Inr ?l1"
    using skip_trivia [OF Cons.prems(2,3)] skip_at_lexeme [OF ok(1) r1 ok(3)] by simp
  obtain tok where tok: "next_token pf ?l1 = Inr (tok, advance t ?l1)" "erase_span (tok_kind tok) = erase_span k"
    using next_token_complete [OF ok(1) r1 ok(3)] by blast
  have "lx_rest ?l1 \<noteq> []" using lexeme_head [OF ok(1)] r1 by auto
  moreover obtain toks where "lex_all pf (advance t ?l1) = Inr toks"
      "map (erase_span \<circ> tok_kind) toks = map (erase_span \<circ> fst) items @ [TokEof]"
  proof -
    have "lx_rest (advance t ?l1) = drop (length t) (lx_rest ?l1)" by (rule advance_rest)
    then have "lx_rest (advance t ?l1) = g @ weave items" by (simp only: r1) simp
    then show ?thesis using Cons.IH [of g "advance t ?l1"] ok(2,4) that by blast
  qed
  ultimately show ?case using skip tok item by (subst lex_all.simps) simp
qed

section \<open>Error positions\<close>

lemma skip_block_error:
  "skip_block_comment l = Inl e \<Longrightarrow> location l = locate p \<Longrightarrow>
   e = syntax_error UnterminatedBlockComment (locate (p @ lx_rest l))"
proof (induction l arbitrary: p rule: skip_block_comment.induct)
  case (1 l)
  show ?case
  proof (cases "lx_rest l")
    case Nil
    with 1(2,3) show ?thesis by (subst (asm) skip_block_comment.simps) simp
  next
    case (Cons c cs)
    with 1(2) have s: "\<not> starts_with ''*/'' l" "skip_block_comment (bump l) = Inl e"
      by (subst (asm) skip_block_comment.simps; simp split: if_splits)+
    from 1(1) [OF _ s locate_bump [OF 1(3) Cons]] Cons show ?thesis by simp
  qed
qed

lemma skip_error:
  "skip_ws_and_comments l = Inl e \<Longrightarrow> location l = locate p \<Longrightarrow>
   e = syntax_error UnterminatedBlockComment (locate (p @ lx_rest l))"
proof (induction l arbitrary: p rule: skip_ws_and_comments.induct)
  case (1 l)
  obtain ws l1 where ws: "scan_while is_whitespace l = (ws, l1)" by fastforce
  have tw: "took ws l l1" using took_scan [OF ws] by blast
  have loc1: "location l1 = locate (p @ ws)" by (rule locate_took [OF 1(4) tw])
  have rest: "lx_rest l = ws @ lx_rest l1" using tw unfolding took_def by blast
  have l1: "snd (scan_while is_whitespace l) = l1" by (simp add: ws)
  have step: "e = syntax_error UnterminatedBlockComment (locate (p @ lx_rest l))"
    if "took t l1 l2" "\<And>q. location l2 = locate q \<Longrightarrow> e = syntax_error UnterminatedBlockComment (locate (q @ lx_rest l2))" for t l2
    using that(2) [OF locate_took [OF loc1 that(1)]] that(1) rest unfolding took_def by (metis append_assoc)
  consider "starts_with ''//'' l1" | "\<not> starts_with ''//'' l1" "starts_with ''/*'' l1"
    | "\<not> starts_with ''//'' l1" "\<not> starts_with ''/*'' l1" by blast
  then show ?case
  proof cases
    case a: 1
    with 1(3) have s: "skip_ws_and_comments (skip_line_comment l1) = Inl e"
      by (subst (asm) skip_ws_and_comments.simps) (simp add: Let_def l1)
    from a obtain t where "took t l1 (skip_line_comment l1)" by (cases rule: skip_line_took) auto
    then show ?thesis by (rule step) (use 1(1) [OF l1 [symmetric] a s] in blast)
  next
    case a: 2
    obtain r where r: "lx_rest l1 = 47 # 42 # r"
    proof (cases "lx_rest l1")
      case (Cons x as)
      with a(2) show ?thesis by (cases as) (auto simp: starts_with_def numeral_2_eq_2 intro: that)
    qed (use a(2) in \<open>simp add: starts_with_def\<close>)
    have open2: "took ([47] @ [42]) l1 (bump (bump l1))"
      using took_trans [OF took_bump [OF r] took_bump [of "bump l1" 42 r]] r by simp
    show ?thesis
    proof (cases "skip_block_comment (bump (bump l1))")
      case (Inl e')
      with 1(3) a have "e' = e" by (subst (asm) skip_ws_and_comments.simps) (simp add: Let_def l1)
      with Inl skip_block_error show ?thesis by (intro step [OF open2]) blast
    next
      case (Inr l2)
      with 1(3) a have s: "skip_ws_and_comments l2 = Inl e" by (subst (asm) skip_ws_and_comments.simps) (simp add: Let_def l1)
      from skip_block_took [OF Inr] obtain body where "took (body @ u ''*/'') (bump (bump l1)) l2" by blast
      from took_trans [OF open2 this] show ?thesis by (rule step) (use 1(2) [OF l1 [symmetric] a Inr s] in blast)
    qed
  next
    case 3
    with 1(3) show ?thesis by (subst (asm) skip_ws_and_comments.simps) (simp add: Let_def l1)
  qed
qed

lemma string_error: "string_body start l = Inl e \<Longrightarrow> \<exists>m. e = syntax_error m start"
proof (induction start l rule: string_body.induct)
  case (1 start l)
  from 1(3) show ?case
    by (subst (asm) string_body.simps) (use 1(1,2) in \<open>auto split: list.splits if_splits sum.splits\<close>)
qed

lemma token_error: "next_token pf l = Inl e \<Longrightarrow> \<exists>m. e = syntax_error m (location l)"
  by (auto simp: next_token_def lex_number_def lex_string_def lex_symbol_def Let_def split: if_splits prod.splits option.splits sum.splits
      dest: string_error)

lemma lex_all_error:
  "lex_all pf l = Inl e \<Longrightarrow> location l = locate p \<Longrightarrow> \<exists>m q s. lx_rest l = q @ s \<and> e = syntax_error m (locate (p @ q))"
proof (induction pf l arbitrary: p rule: lex_all.induct)
  case (1 pf l)
  show ?case
  proof (cases "skip_ws_and_comments l")
    case (Inl e')
    with 1(2) have "e' = e" by (subst (asm) lex_all.simps) simp
    with skip_error [OF Inl 1(3)] show ?thesis by (metis append_Nil2)
  next
    case (Inr l1)
    from skip_took [OF Inr] obtain g where g: "took g l l1" by blast
    have loc1: "location l1 = locate (p @ g)" by (rule locate_took [OF 1(3) g])
    have rest: "lx_rest l = g @ lx_rest l1" using g unfolding took_def by blast
    have ne: "lx_rest l1 \<noteq> []" using 1(2) Inr by (subst (asm) lex_all.simps) auto
    show ?thesis
    proof (cases "next_token pf l1")
      case (Inl e')
      with 1(2) Inr ne have "e' = e" by (subst (asm) lex_all.simps) simp
      with token_error [OF Inl] loc1 rest show ?thesis by auto
    next
      case t: (Inr x)
      obtain tok l2 where x: "x = (tok, l2)" by (cases x)
      with 1(2) Inr ne t have s: "lex_all pf l2 = Inl e" by (subst (asm) lex_all.simps) (auto split: sum.splits)
      obtain y where y: "took y l1 l2" using next_token_scanned [OF ne t [unfolded x]] by (auto simp: scanned_def)
      from 1(1) [OF Inr ne t x [symmetric] s locate_took [OF loc1 y]] obtain m q z where
        "lx_rest l2 = q @ z" "e = syntax_error m (locate (((p @ g) @ y) @ q))" by blast
      moreover have "lx_rest l1 = y @ lx_rest l2" using y unfolding took_def by blast
      ultimately show ?thesis using rest by (intro exI [of _ m] exI [of _ "g @ y @ q"] exI [of _ z]) simp
    qed
  qed
qed

section \<open>Properties\<close>

text \<open>The tokens the lexer returns are a tokenization of the source: the source is, in order, trivia
  (white space and comments) and the text of each token, ending in trivia; every token's text
  stands for its value; and its span is exactly the line, column and byte offsets where that
  text starts and ends.\<close>

theorem lex_tokenizes: "lex pf source = Inr toks \<Longrightarrow> tokenizes pf [] toks source"
  using lex_all_tokenizes [of "lexer_new source" "[]" pf toks]
  by (simp add: lex_def lexer_new_def location_def locate_def byte_len_def)

lemma number_span:
  assumes "lex_number pf l = Inr (tok, l')" and "tok_kind tok = TokDuration d"
  shows "dl_span d = tok_span tok"
  using assms by (auto simp: lex_number_def Let_def split: prod.splits if_splits option.splits sum.splits)

lemma token_span:
  assumes "next_token pf l = Inr (tok, l')" and "tok_kind tok = TokDuration d"
  shows "dl_span d = tok_span tok"
  using assms number_span
  by (auto simp: next_token_def lex_ident_def lex_string_def lex_symbol_def Let_def split: prod.splits if_splits option.splits sum.splits)

lemma lex_all_spans: "lex_all pf l = Inr toks \<Longrightarrow> tok \<in> set toks \<Longrightarrow> tok_kind tok = TokDuration d \<Longrightarrow> dl_span d = tok_span tok"
proof (induction pf l arbitrary: toks rule: lex_all.induct)
  case (1 pf l)
  obtain l1 where l1: "skip_ws_and_comments l = Inr l1" using 1(2) by (subst (asm) lex_all.simps) (auto split: sum.splits)
  show ?case
  proof (cases "lx_rest l1 = []")
    case True
    then show ?thesis using 1(2-4) l1 by (subst (asm) lex_all.simps) auto
  next
    case False
    obtain t l2 rest where t: "next_token pf l1 = Inr (t, l2)" "lex_all pf l2 = Inr rest" "toks = t # rest"
      using 1(2) l1 False by (subst (asm) lex_all.simps) (auto split: sum.splits)
    show ?thesis using 1(1) [OF l1 False t(1) refl t(2)] 1(3,4) t(3) token_span [OF t(1)] by auto
  qed
qed

text \<open>C25: Written tokens are read back: for any texts that stand for tokens, with white space and closed
  comments before, between and after them, the lexer returns exactly those tokens in order. Gaps may be
  empty; the only condition is that no token reaches into what follows it (\<open>apart\<close>): a word is not followed
  by a letter or digit, a number not by a digit, a letter or its first point, a one-character symbol not
  by a character that makes it a two-character symbol or opens a comment. Each token's span is exactly
  where its text stands, and a duration records that span.\<close>

theorem lex_roundtrip:
  assumes "spaced pf items" and "trivia g0"
  shows "\<exists>toks. lex pf (g0 @ weave items) = Inr toks \<and>
    map (erase_span \<circ> tok_kind) toks = map (erase_span \<circ> fst) items @ [TokEof] \<and>
    tokenizes pf [] toks (g0 @ weave items) \<and>
    list_all (\<lambda>tok. case tok_kind tok of TokDuration d \<Rightarrow> dl_span d = tok_span tok | _ \<Rightarrow> True) toks"
proof -
  let ?l = "lexer_new (g0 @ weave items)"
  obtain toks where toks: "lex_all pf ?l = Inr toks" "map (erase_span \<circ> tok_kind) toks = map (erase_span \<circ> fst) items @ [TokEof]"
    using lex_all_weave [OF assms, of ?l] by (auto simp: lexer_new_def)
  have "tokenizes pf [] toks (g0 @ weave items)"
    using lex_all_tokenizes [of ?l "[]" pf toks] toks(1) by (simp add: lexer_new_def location_def locate_def byte_len_def)
  moreover have "list_all (\<lambda>tok. case tok_kind tok of TokDuration d \<Rightarrow> dl_span d = tok_span tok | _ \<Rightarrow> True) toks"
    using lex_all_spans [OF toks(1)] by (auto simp: list_all_iff split: token_kind.splits)
  ultimately show ?thesis using toks by (auto simp: lex_def)
qed

text \<open>A syntax error points into the source: its line and column are those of some prefix of the source
  text.\<close>

theorem lex_error_position:
  assumes "lex pf source = Inl e"
  shows "\<exists>m p s. source = p @ s \<and> e = SyntaxError m (sl_line (locate p)) (sl_column (locate p))"
  using lex_all_error [of pf "lexer_new source" e "[]"] assms
  by (auto simp: lex_def lexer_new_def location_def locate_def byte_len_def syntax_error_def)

lemma duration_exact:
  "checked_milliseconds_of zero ds unit = Inr ms \<longleftrightarrow>
   ds \<noteq> [] \<and> list_all is_ascii_digit ds \<and> ms = decimal ds * milliseconds_multiplier unit \<and>
   ms \<le> MAX_SAFE_DURATION_MILLISECONDS \<and> (zero \<or> 0 < ms)"
proof -
  have m: "1 \<le> milliseconds_multiplier unit" by (cases unit) auto
  have le: "decimal ds \<le> decimal ds * milliseconds_multiplier unit" using m by simp
  have max: "MAX_SAFE_DURATION_MILLISECONDS \<le> u64_max" by (simp add: MAX_SAFE_DURATION_MILLISECONDS_def u64_max_def)
  have "decimal ds \<le> u64_max" if "decimal ds * milliseconds_multiplier unit \<le> MAX_SAFE_DURATION_MILLISECONDS"
    using that le max by linarith
  then show ?thesis using m max by (auto simp: checked_milliseconds_of_def parse_u64_def)
qed

text \<open>A duration literal is accepted with exactly its value: the digits read in base ten times the
  unit, when that is at most the largest safe integer; overflow of 64 bits is never silent, and
  the positive variant refuses zero.\<close>

theorem duration_value:
  "(checked_milliseconds_allow_zero d = Inr ms \<longleftrightarrow>
      dl_digits d \<noteq> [] \<and> list_all is_ascii_digit (dl_digits d) \<and>
      ms = decimal (dl_digits d) * milliseconds_multiplier (dl_unit d) \<and> ms \<le> MAX_SAFE_DURATION_MILLISECONDS) \<and>
   (checked_milliseconds d = Inr ms \<longleftrightarrow> checked_milliseconds_allow_zero d = Inr ms \<and> 0 < ms)"
  by (auto simp: checked_milliseconds_allow_zero_def checked_milliseconds_def duration_exact)

section \<open>Sample sources\<close>

definition demo_float :: "ustring \<Rightarrow> nat option" where
  "demo_float ds = (if ds \<noteq> [] \<and> list_all is_ascii_digit ds then Some (decimal ds) else None)"

text \<open>Tokens that touch, and a line comment between the last three.\<close>

definition demo_items :: "(nat token_kind \<times> ustring \<times> ustring) list" where
  "demo_items = [(TokIdent (u ''x''), u ''x'', []), (TokSymbol (u ''=>''), u ''=>'', []), (TokNumber 42, u ''42'', []),
     (TokSymbol (u '';''), u '';'', u ''//c'' @ [newline]), (TokSymbol (u ''/''), u ''/'', []), (TokIdent (u ''y''), u ''y'', [])]"

lemma demo_items_ok: "spaced demo_float demo_items"
proof -
  have "trivia (u ''//c'' @ [newline])" using trivia.line [OF _ trivia.none, of "u ''c''"] by (simp add: newline_def)
  moreover have "lexeme demo_float (TokIdent [c]) [c]" if "is_ident_start c" for c using lexeme.ident [OF that, of "[]"] by simp
  moreover have "lexeme demo_float (TokSymbol (u ''=>'')) (u ''=>'')"
    by (rule lexeme.symbol2) (simp add: two_char_symbols_def)
  moreover have "lexeme demo_float (TokNumber 42) [52, 50]"
    by (rule lexeme.integer) (simp_all add: demo_float_def is_ascii_digit_def decimal_def)
  moreover have "lexeme demo_float (TokSymbol [c]) [c]" if "c \<in> set one_char_symbols" for c by (rule lexeme.symbol1 [OF that])
  ultimately show ?thesis
    by (simp add: demo_items_def weave_def trivia.none one_char_symbols_def two_char_symbols_def newline_def
        is_ident_start_def is_ident_continue_def is_ascii_alphabetic_def is_ascii_digit_def)
qed

theorem lex_roundtrip_witness:
  "\<exists>toks. lex demo_float (u ''x=>42;//c'' @ [newline] @ u ''/y'') = Inr toks \<and>
     map (erase_span \<circ> tok_kind) toks =
       [TokIdent (u ''x''), TokSymbol (u ''=>''), TokNumber 42, TokSymbol (u '';''), TokSymbol (u ''/''), TokIdent (u ''y''), TokEof]"
  using lex_roundtrip [OF demo_items_ok trivia.none] by (auto simp: demo_items_def weave_def)

lemma lex_weave_demo: "\<exists>toks. lex demo_float (weave demo_items) = Inr toks"
  using lex_all_weave [OF demo_items_ok trivia.none, of "lexer_new (weave demo_items)"] by (auto simp: lex_def lexer_new_def)

theorem lex_tokenizes_witness: "\<exists>toks. lex demo_float (weave demo_items) = Inr toks \<and> tokenizes demo_float [] toks (weave demo_items)"
  using lex_weave_demo lex_tokenizes [of demo_float "weave demo_items"] by blast

theorem lex_error_position_witness:
  "\<exists>m p s. u ''#'' = p @ s \<and> (\<exists>e. lex demo_float (u ''#'') = Inl e \<and>
     e = SyntaxError m (sl_line (locate p)) (sl_column (locate p)))"
proof -
  have s: "skip_ws_and_comments (lexer_new (u ''#'')) = Inr (lexer_new (u ''#''))"
    by (subst skip_ws_and_comments.simps) (simp add: scan_while_eq lexer_new_def is_whitespace_def starts_with_def)
  have "next_token demo_float (lexer_new (u ''#'')) =
      Inl (syntax_error (UnexpectedCharacter 35) (location (lexer_new (u ''#''))))"
    by (simp add: next_token_def lexer_new_def is_ident_start_def is_ascii_alphabetic_def is_ascii_digit_def lex_symbol_def
        two_char_symbols_def starts_with_def one_char_symbols_def)
  with s have "\<exists>e. lex demo_float (u ''#'') = Inl e"
    unfolding lex_def by (subst lex_all.simps) (simp add: lexer_new_def)
  then obtain e where "lex demo_float (u ''#'') = Inl e" ..
  with lex_error_position [OF this] show ?thesis by blast
qed

end
