(* ===== verification/Syntax_Cursor.thy ===== *)
theory Syntax_Cursor
  imports Syntax_Lexer
begin

text \<open>
  The token cursor of the parser (\<open>syntax/src/parser/cursor.rs\<close>). The token vector with its current
  index is kept as the tokens already passed, latest first, and the tokens from the current one on;
  saving and restoring the index is keeping the whole cursor. An index before the first token is the
  failure \<open>ParserPanic\<close>; reading at the current index is always possible because the cursor never
  passes the end token. Error messages are the texts of the code, with the line and column it reports.
\<close>

section \<open>The cursor\<close>

record 'f parser =
  ps_done :: "'f token list"
  ps_rest :: "'f token list"

datatype parse_failure = ParseError string usize usize | ParserPanic | OutOfFuel

definition parser_new :: "'f token list \<Rightarrow> 'f parser" where
  "parser_new toks = \<lparr>ps_done = [], ps_rest = toks\<rparr>"

definition parse_error :: "string \<Rightarrow> source_location \<Rightarrow> parse_failure" where
  "parse_error msg l = ParseError msg (sl_line l) (sl_column l)"

definition parser_peek :: "'f parser \<Rightarrow> 'f token" where
  "parser_peek p = hd (ps_rest p)"

definition is_at_end :: "'f parser \<Rightarrow> bool" where
  "is_at_end p \<longleftrightarrow> tok_kind (parser_peek p) = TokEof"

text \<open>Moving past the current token, and \<open>advance\<close>, which stays at the end token and returns the token
  before the new position.\<close>

definition step_token :: "'f parser \<Rightarrow> 'f parser" where
  "step_token p = p\<lparr>ps_done := parser_peek p # ps_done p, ps_rest := tl (ps_rest p)\<rparr>"

definition previous :: "'f parser \<Rightarrow> parse_failure + 'f token" where
  "previous p = (case ps_done p of [] \<Rightarrow> Inl ParserPanic | t # _ \<Rightarrow> Inr t)"

definition parser_advance :: "'f parser \<Rightarrow> parse_failure + 'f token \<times> 'f parser" where
  "parser_advance p =
     (let p' = (if is_at_end p then p else step_token p)
      in case previous p' of Inl e \<Rightarrow> Inl e | Inr t \<Rightarrow> Inr (t, p'))"

definition check_ident :: "string \<Rightarrow> 'f parser \<Rightarrow> bool" where
  "check_ident expected p \<longleftrightarrow> tok_kind (parser_peek p) = TokIdent (u expected)"

definition check_symbol :: "string \<Rightarrow> 'f parser \<Rightarrow> bool" where
  "check_symbol expected p \<longleftrightarrow> tok_kind (parser_peek p) = TokSymbol (u expected)"

definition check_duration_literal :: "'f parser \<Rightarrow> bool" where
  "check_duration_literal p \<longleftrightarrow> (case tok_kind (parser_peek p) of TokDuration _ \<Rightarrow> True | _ \<Rightarrow> False)"

definition check_function_start :: "'f parser \<Rightarrow> bool" where
  "check_function_start p \<longleftrightarrow>
     check_ident ''function'' p \<or> check_ident ''native'' p \<or> check_ident ''provider'' p \<or> check_ident ''static'' p"

definition check_provider_capability_start :: "'f parser \<Rightarrow> bool" where
  "check_provider_capability_start p \<longleftrightarrow> check_ident ''provider'' p \<and>
     (case tl (ps_rest p) of
        [] \<Rightarrow> False
      | t # _ \<Rightarrow> (case tok_kind t of
          TokIdent v \<Rightarrow> v \<notin> {u ''function'', u ''native'', u ''provider'', u ''static''}
        | _ \<Rightarrow> False))"

definition match_ident :: "string \<Rightarrow> 'f parser \<Rightarrow> bool \<times> 'f parser" where
  "match_ident expected p = (if check_ident expected p then (True, step_token p) else (False, p))"

definition match_symbol :: "string \<Rightarrow> 'f parser \<Rightarrow> bool \<times> 'f parser" where
  "match_symbol expected p = (if check_symbol expected p then (True, step_token p) else (False, p))"

definition match_statement_terminator :: "'f parser \<Rightarrow> bool \<times> 'f parser" where
  "match_statement_terminator p =
     (let (semi, p1) = match_symbol '';'' p in if semi then (True, p1) else match_symbol '','' p1)"

definition expect_ident :: "string \<Rightarrow> 'f parser \<Rightarrow> parse_failure + ustring \<times> 'f parser" where
  "expect_ident msg p =
     (case parser_advance p of
        Inl e \<Rightarrow> Inl e
      | Inr (t, p') \<Rightarrow> (case tok_kind t of
          TokIdent v \<Rightarrow> Inr (v, p') | _ \<Rightarrow> Inl (parse_error msg (sp_start (tok_span t)))))"

definition expect_ident_value :: "string \<Rightarrow> 'f parser \<Rightarrow> parse_failure + 'f token \<times> 'f parser" where
  "expect_ident_value expected p =
     (case parser_advance p of
        Inl e \<Rightarrow> Inl e
      | Inr (t, p') \<Rightarrow>
          (if tok_kind t = TokIdent (u expected) then Inr (t, p')
           else Inl (parse_error (''expected '' @ expected) (sp_start (tok_span t)))))"

definition expect_string :: "string \<Rightarrow> 'f parser \<Rightarrow> parse_failure + ustring \<times> 'f parser" where
  "expect_string msg p =
     (case parser_advance p of
        Inl e \<Rightarrow> Inl e
      | Inr (t, p') \<Rightarrow> (case tok_kind t of
          TokString v \<Rightarrow> Inr (v, p') | _ \<Rightarrow> Inl (parse_error msg (sp_start (tok_span t)))))"

text \<open>\<open>positive\<close> converts a finite, whole and positive number up to the largest \<open>u64\<close>.\<close>

definition expect_positive_integer ::
  "('f \<Rightarrow> u64 option) \<Rightarrow> string \<Rightarrow> 'f parser \<Rightarrow> parse_failure + u64 \<times> 'f parser" where
  "expect_positive_integer positive msg p =
     (case parser_advance p of
        Inl e \<Rightarrow> Inl e
      | Inr (t, p') \<Rightarrow>
          (case (case tok_kind t of TokNumber v \<Rightarrow> positive v | _ \<Rightarrow> None) of
             Some n \<Rightarrow> Inr (n, p')
           | None \<Rightarrow> Inl (parse_error msg (sp_start (tok_span t)))))"

definition expect_symbol :: "string \<Rightarrow> 'f parser \<Rightarrow> parse_failure + 'f parser" where
  "expect_symbol expected p =
     (case parser_advance p of
        Inl e \<Rightarrow> Inl e
      | Inr (t, p') \<Rightarrow>
          (if tok_kind t = TokSymbol (u expected) then Inr p'
           else Inl (parse_error (''expected symbol '' @ expected) (sp_start (tok_span t)))))"

datatype binary_op =
    BinOr | BinAnd | BinEq | BinNe | BinLt | BinLe | BinGt | BinGe | BinAdd | BinSub | BinMul | BinDiv

definition BINARY_OPS :: "(string \<times> binary_op \<times> nat) list" where
  "BINARY_OPS =
     [(''||'', BinOr, 1), (''&&'', BinAnd, 2), (''=='', BinEq, 3), (''!='', BinNe, 3), (''<'', BinLt, 4),
      (''<='', BinLe, 4), (''>'', BinGt, 4), (''>='', BinGe, 4), (''+'', BinAdd, 5), (''-'', BinSub, 5),
      (''*'', BinMul, 6), (''/'', BinDiv, 6)]"

definition peek_binary_op :: "'f parser \<Rightarrow> (binary_op \<times> nat) option" where
  "peek_binary_op p =
     (case tok_kind (parser_peek p) of
        TokSymbol v \<Rightarrow> map_option snd (find (\<lambda>(symbol, _). u symbol = v) BINARY_OPS)
      | _ \<Rightarrow> None)"

definition import_tail_is_terminated :: "'f parser \<Rightarrow> bool" where
  "import_tail_is_terminated p \<longleftrightarrow> is_at_end p \<or> check_symbol '';'' p \<or> check_ident ''export'' p \<or> check_ident ''test'' p \<or>
     check_ident ''import'' p \<or> check_ident ''provider'' p \<or> check_ident ''const'' p \<or> check_ident ''type'' p \<or>
     check_ident ''actor'' p \<or> check_ident ''alias'' p \<or> check_ident ''interface'' p \<or> check_ident ''impl'' p \<or>
     check_ident ''db'' p \<or> check_function_start p"

section \<open>Skipping a block\<close>

text \<open>The loop may run for ever, which is the value \<open>None\<close>.\<close>

partial_function (option) skip_loop ::
  "string \<Rightarrow> nat \<Rightarrow> 'f parser \<Rightarrow> (parse_failure + 'f parser) option" where
  "skip_loop msg depth p =
     (if depth = 0 then Some (Inr p)
      else case parser_advance p of
        Inl e \<Rightarrow> Some (Inl e)
      | Inr (t, p') \<Rightarrow>
          (if tok_kind t = TokSymbol (u ''{'') then skip_loop msg (depth + 1) p'
           else if tok_kind t = TokSymbol (u ''}'') then skip_loop msg (depth - 1) p'
           else if tok_kind t = TokEof then Some (Inl (parse_error msg (sp_start (tok_span t))))
           else skip_loop msg depth p'))"

definition skip_balanced_block :: "string \<Rightarrow> 'f parser \<Rightarrow> (parse_failure + 'f parser) option" where
  "skip_balanced_block msg p =
     (case expect_symbol ''{'' p of Inl e \<Rightarrow> Some (Inl e) | Inr p' \<Rightarrow> skip_loop msg 1 p')"

section \<open>At the end of the tokens\<close>

lemma step_token_fields [simp]:
  "ps_rest p = t # ts \<Longrightarrow> step_token p = \<lparr>ps_done = t # ps_done p, ps_rest = ts\<rparr>"
  by (cases p) (simp add: step_token_def parser_peek_def)

lemma advance_step:
  "ps_rest p = t # ts \<Longrightarrow> tok_kind t \<noteq> TokEof \<Longrightarrow> parser_advance p = Inr (t, \<lparr>ps_done = t # ps_done p, ps_rest = ts\<rparr>)"
  by (simp add: parser_advance_def is_at_end_def parser_peek_def previous_def)

lemma advance_at_end:
  "is_at_end p \<Longrightarrow> ps_done p = t # ts \<Longrightarrow> parser_advance p = Inr (t, p)"
  by (simp add: parser_advance_def previous_def)

text \<open>At the end token \<open>advance\<close> returns the last token again: an expected symbol that equals the last
  one is accepted there although it is missing, as often as it is asked for.\<close>

lemma expect_symbol_at_end:
  "is_at_end p \<Longrightarrow> ps_done p = t # ts \<Longrightarrow> tok_kind t = TokSymbol (u s) \<Longrightarrow> expect_symbol s p = Inr p"
  by (simp add: expect_symbol_def advance_at_end)

lemma expect_ident_at_end:
  "is_at_end p \<Longrightarrow> ps_done p = t # ts \<Longrightarrow> tok_kind t = TokIdent v \<Longrightarrow> expect_ident msg p = Inr (v, p)"
  by (simp add: expect_ident_def advance_at_end)

lemma skip_at_end_close:
  assumes "is_at_end p" "ps_done p = t # ts" "tok_kind t = TokSymbol (u ''}'')"
  shows "skip_loop msg d p = Some (Inr p)"
proof (induction d)
  case 0
  then show ?case by (subst skip_loop.simps) simp
next
  case (Suc d)
  then show ?case using assms by (subst skip_loop.simps) (simp add: advance_at_end)
qed

lemma skip_at_end_never:
  assumes "is_at_end p" "ps_done p = t # ts" "tok_kind t \<noteq> TokSymbol (u ''}'')" "tok_kind t \<noteq> TokEof" "0 < d"
  shows "skip_loop msg d p = None"
proof (cases "skip_loop msg d p")
  case (Some r)
  have "p' = p \<longrightarrow> \<not> 0 < d'" if "skip_loop m d' p' = Some r'" for m d' p' r'
  proof (rule skip_loop.raw_induct [where P = "\<lambda>m d' p' r'. p' = p \<longrightarrow> \<not> 0 < d'", OF _ that], goal_cases)
    case (1 rec m d' p' r')
    show ?case using 1(2) assms by (auto simp: advance_at_end split: if_splits dest!: 1(1))
  qed
  then show ?thesis using Some assms(5) by blast
qed

text \<open>The tokens after the brace that closes \<open>d\<close> open ones.\<close>

fun after_close :: "nat \<Rightarrow> 'f token list \<Rightarrow> 'f token list option" where
  "after_close 0 ts = Some ts"
| "after_close (Suc d) [] = None"
| "after_close (Suc d) (t # ts) =
     (if tok_kind t = TokSymbol (u ''{'') then after_close (Suc (Suc d)) ts
      else if tok_kind t = TokSymbol (u ''}'') then after_close d ts
      else after_close (Suc d) ts)"

lemma after_close_length: "after_close d ts = Some ys \<Longrightarrow> length ys \<le> length ts \<and> ts = take (length ts - length ys) ts @ ys"
proof (induction d ts rule: after_close.induct)
  case (3 d t ts)
  then have "length ys \<le> length ts \<and> ts = take (length ts - length ys) ts @ ys" by (auto split: if_splits)
  then show ?case by (simp add: Suc_diff_le)
qed auto

lemma skip_loop_exact:
  assumes "tok_kind e = TokEof" "list_all (\<lambda>t. tok_kind t \<noteq> TokEof) (xs @ dn)" "dn \<noteq> []"
  shows "skip_loop msg (Suc d) \<lparr>ps_done = dn, ps_rest = xs @ [e]\<rparr> =
    (case after_close (Suc d) xs of
       Some ys \<Rightarrow> Some (Inr \<lparr>ps_done = rev (take (length xs - length ys) xs) @ dn, ps_rest = ys @ [e]\<rparr>)
     | None \<Rightarrow> if tok_kind (hd (rev xs @ dn)) = TokSymbol (u ''}'') then Some (Inr \<lparr>ps_done = rev xs @ dn, ps_rest = [e]\<rparr>) else None)"
  using assms(2,3)
proof (induction xs arbitrary: d dn)
  case Nil
  let ?p = "\<lparr>ps_done = dn, ps_rest = [e]\<rparr>"
  have "is_at_end ?p" using assms(1) by (simp add: is_at_end_def parser_peek_def)
  then show ?case using skip_at_end_close [of ?p "hd dn" "tl dn" msg "Suc d"] skip_at_end_never [of ?p "hd dn" "tl dn" "Suc d" msg] Nil
    by (cases dn) auto
next
  case (Cons x xs)
  let ?p = "\<lparr>ps_done = dn, ps_rest = x # xs @ [e]\<rparr>"
  let ?q = "\<lparr>ps_done = x # dn, ps_rest = xs @ [e]\<rparr>"
  have adv: "parser_advance ?p = Inr (x, ?q)" using advance_step [of ?p x "xs @ [e]"] Cons.prems by simp
  have ih: "skip_loop msg (Suc d') ?q = (case after_close (Suc d') xs of
       Some ys \<Rightarrow> Some (Inr \<lparr>ps_done = rev (take (length xs - length ys) xs) @ x # dn, ps_rest = ys @ [e]\<rparr>)
     | None \<Rightarrow> if tok_kind (hd (rev xs @ x # dn)) = TokSymbol (u ''}'') then Some (Inr \<lparr>ps_done = rev xs @ x # dn, ps_rest = [e]\<rparr>) else None)"
    for d' using Cons.IH [of "x # dn" d'] Cons.prems by simp
  have step: "skip_loop msg (Suc d) ?p =
      (if tok_kind x = TokSymbol (u ''{'') then skip_loop msg (Suc (Suc d)) ?q
       else if tok_kind x = TokSymbol (u ''}'') then skip_loop msg d ?q else skip_loop msg (Suc d) ?q)"
    using adv Cons.prems by (subst skip_loop.simps) simp
  have zero: "skip_loop msg 0 ?q = Some (Inr ?q)" by (subst skip_loop.simps) simp
  have len: "Suc (length xs) - length ys = Suc (length xs - length ys)" if "after_close d' xs = Some ys" for d' ys
    using after_close_length [OF that] by (simp add: Suc_diff_le)
  show ?case
  proof (cases "tok_kind x = TokSymbol (u ''}'') \<and> d = 0")
    case True
    then show ?thesis using adv zero by (subst skip_loop.simps) (simp add: u_def)
  next
    case False
    then have "\<exists>d'. after_close (Suc d) (x # xs) = after_close (Suc d') xs \<and> skip_loop msg (Suc d) ?p = skip_loop msg (Suc d') ?q"
      unfolding step by (cases d) auto
    then obtain d' where d': "after_close (Suc d) (x # xs) = after_close (Suc d') xs"
        "skip_loop msg (Suc d) ?p = skip_loop msg (Suc d') ?q" by blast
    show ?thesis
    proof (cases "after_close (Suc d') xs")
      case None
      then show ?thesis using d' ih [of d'] by (simp del: after_close.simps)
    next
      case (Some ys)
      then show ?thesis using d' ih [of d'] len [OF Some] by (simp del: after_close.simps)
    qed
  qed
qed

section \<open>Properties\<close>

text \<open>Skipping a block ends at the brace that closes it. When the block is not closed before the end of the
  tokens, the skip never returns, except that it succeeds when the very last token happens to be a
  closing brace: the error for an unterminated block is never reported.\<close>

theorem skip_balanced_block_exact:
  assumes "ps_rest p = opening # xs @ [e]" "tok_kind opening = TokSymbol (u ''{'')" "tok_kind e = TokEof"
    "list_all (\<lambda>t. tok_kind t \<noteq> TokEof) (xs @ ps_done p)"
  shows "skip_balanced_block msg p =
    (case after_close 1 xs of
       Some ys \<Rightarrow> Some (Inr \<lparr>ps_done = rev (take (length xs - length ys) xs) @ opening # ps_done p, ps_rest = ys @ [e]\<rparr>)
     | None \<Rightarrow>
         if tok_kind (last (opening # xs)) = TokSymbol (u ''}'')
         then Some (Inr \<lparr>ps_done = rev xs @ opening # ps_done p, ps_rest = [e]\<rparr>) else None)"
proof -
  have "expect_symbol ''{'' p = Inr \<lparr>ps_done = opening # ps_done p, ps_rest = xs @ [e]\<rparr>"
    using advance_step [OF assms(1)] assms(2) by (simp add: expect_symbol_def)
  moreover have "hd (rev xs @ opening # ps_done p) = last (opening # xs)"
    by (cases xs rule: rev_cases) auto
  ultimately show ?thesis
    using skip_loop_exact [OF assms(3), of xs "opening # ps_done p" msg 0] assms(2,4) by (simp add: skip_balanced_block_def)
qed

definition demo_location :: source_location where
  "demo_location = \<lparr>sl_line = 1, sl_column = 1, sl_offset = 0\<rparr>"

definition demo_token :: "nat token_kind \<Rightarrow> nat token" where
  "demo_token k = \<lparr>tok_kind = k, tok_span = \<lparr>sp_start = demo_location, sp_end = demo_location\<rparr>\<rparr>"

theorem skip_balanced_block_exact_witness:
  "skip_balanced_block ''unterminated function body''
     (parser_new (map demo_token [TokSymbol (u ''{''), TokIdent (u ''x''), TokEof])) = None"
  using skip_balanced_block_exact [of "parser_new (map demo_token [TokSymbol (u ''{''), TokIdent (u ''x''), TokEof])"
      "demo_token (TokSymbol (u ''{''))" "[demo_token (TokIdent (u ''x''))]" "demo_token TokEof" "''unterminated function body''"]
  by (simp add: parser_new_def demo_token_def)

end
