(* ===== verification/Syntax_Type_Expr.thy ===== *)
theory Syntax_Type_Expr
  imports Syntax_Lexer
begin

text \<open>
  The text form of Skiff types: the bracket-aware splitters of \<open>syntax/src/type_syntax.rs\<close> and the
  type expressions of \<open>syntax/src/type_expr.rs\<close> with their parser, printer and traversals. The JSON
  string codec the code calls (\<open>serde_json\<close>) is the pair of arguments \<open>dec\<close> and \<open>enc\<close>.
\<close>

section \<open>Trimming\<close>

definition trim_start :: "ustring \<Rightarrow> ustring" where
  "trim_start s = dropWhile is_whitespace s"

definition trim_end :: "ustring \<Rightarrow> ustring" where
  "trim_end s = rev (dropWhile is_whitespace (rev s))"

definition trim :: "ustring \<Rightarrow> ustring" where
  "trim s = trim_end (trim_start s)"

definition strip_prefix :: "ustring \<Rightarrow> ustring \<Rightarrow> ustring option" where
  "strip_prefix p s = (if take (length p) s = p then Some (drop (length p) s) else None)"

definition strip_suffix_char :: "uchar \<Rightarrow> ustring \<Rightarrow> ustring option" where
  "strip_suffix_char c s = (if s \<noteq> [] \<and> last s = c then Some (butlast s) else None)"

section \<open>Bracket scanning\<close>

record scan =
  sc_angle :: nat
  sc_brace :: nat
  sc_paren :: nat
  sc_in_string :: bool
  sc_escaped :: bool

definition scan_start :: scan where
  "scan_start = \<lparr>sc_angle = 0, sc_brace = 0, sc_paren = 0, sc_in_string = False, sc_escaped = False\<rparr>"

text \<open>The arms the loops share: strings with escapes, and depths that saturate at zero.\<close>

definition scan_step :: "uchar \<Rightarrow> scan \<Rightarrow> scan" where
  "scan_step c st =
     (if sc_in_string st then
        (if sc_escaped st then st\<lparr>sc_escaped := False\<rparr>
         else if c = 92 then st\<lparr>sc_escaped := True\<rparr>
         else if c = 34 then st\<lparr>sc_in_string := False\<rparr>
         else st)
      else if c = 34 then st\<lparr>sc_in_string := True\<rparr>
      else if c = 60 then st\<lparr>sc_angle := sc_angle st + 1\<rparr>
      else if c = 62 then st\<lparr>sc_angle := sc_angle st - 1\<rparr>
      else if c = 123 then st\<lparr>sc_brace := sc_brace st + 1\<rparr>
      else if c = 125 then st\<lparr>sc_brace := sc_brace st - 1\<rparr>
      else if c = 40 then st\<lparr>sc_paren := sc_paren st + 1\<rparr>
      else if c = 41 then st\<lparr>sc_paren := sc_paren st - 1\<rparr>
      else st)"

definition scan_top :: "scan \<Rightarrow> bool" where
  "scan_top st \<longleftrightarrow> \<not> sc_in_string st \<and> sc_angle st = 0 \<and> sc_brace st = 0 \<and> sc_paren st = 0"

definition structural :: "uchar \<Rightarrow> bool" where
  "structural c \<longleftrightarrow> c \<in> {34, 60, 62, 123, 125, 40, 41}"

text \<open>\<open>split_top_level\<close>: the delimiter arm comes after the bracket arms.\<close>

definition delim :: "uchar \<Rightarrow> uchar \<Rightarrow> scan \<Rightarrow> bool" where
  "delim d c st \<longleftrightarrow> \<not> structural c \<and> c = d \<and> scan_top st"

primrec split_loop :: "uchar \<Rightarrow> scan \<Rightarrow> ustring \<Rightarrow> ustring \<Rightarrow> ustring list" where
  "split_loop d st part [] = [trim part]"
| "split_loop d st part (c # cs) =
     (if delim d c st then trim part # split_loop d st [] cs
      else split_loop d (scan_step c st) (part @ [c]) cs)"

definition split_top_level :: "ustring \<Rightarrow> uchar \<Rightarrow> ustring list" where
  "split_top_level input d = split_loop d scan_start [] input"

text \<open>The loops that return at the first position an arm with a guard matches: the text before it and the
  text after it.\<close>

primrec find_top :: "(uchar \<Rightarrow> scan \<Rightarrow> bool) \<Rightarrow> scan \<Rightarrow> ustring \<Rightarrow> ustring \<Rightarrow> (ustring \<times> ustring) option" where
  "find_top stop st before [] = None"
| "find_top stop st before (c # cs) =
     (if stop c st then Some (before, cs) else find_top stop (scan_step c st) (before @ [c]) cs)"

definition split_top_level_once :: "ustring \<Rightarrow> uchar \<Rightarrow> (ustring \<times> ustring) option" where
  "split_top_level_once input d =
     map_option (map_prod trim trim) (find_top (delim d) scan_start [] input)"

text \<open>The field splitter does not look at parentheses.\<close>

definition split_record_type_field :: "ustring \<Rightarrow> (ustring \<times> ustring) option" where
  "split_record_type_field field =
     map_option (map_prod trim trim)
       (find_top (\<lambda>c st. c = 58 \<and> \<not> sc_in_string st \<and> sc_angle st = 0 \<and> sc_brace st = 0) scan_start [] field)"

datatype record_type_field_parse_error = NotRecordType | InvalidField ustring

fun collect_fields :: "ustring list \<Rightarrow> record_type_field_parse_error + (ustring \<times> ustring) list" where
  "collect_fields [] = Inr []"
| "collect_fields (f # fs) =
     (case split_record_type_field f of
        None \<Rightarrow> Inl (InvalidField f)
      | Some nt \<Rightarrow> (case collect_fields fs of Inl e \<Rightarrow> Inl e | Inr nts \<Rightarrow> Inr (nt # nts)))"

definition braces_inner :: "ustring \<Rightarrow> ustring option" where
  "braces_inner ty =
     (case strip_prefix [123] (trim ty) of
        None \<Rightarrow> None
      | Some rest \<Rightarrow> map_option trim (strip_suffix_char 125 rest))"

definition parse_record_type_fields :: "ustring \<Rightarrow> record_type_field_parse_error + (ustring \<times> ustring) list" where
  "parse_record_type_fields ty =
     (case braces_inner ty of
        None \<Rightarrow> Inl NotRecordType
      | Some inner \<Rightarrow> if inner = [] then Inr [] else collect_fields (split_top_level inner 44))"

definition record_type_fields :: "ustring \<Rightarrow> (ustring \<times> ustring) list option" where
  "record_type_fields ty = (case parse_record_type_fields ty of Inr fs \<Rightarrow> Some fs | Inl _ \<Rightarrow> None)"

section \<open>Generic applications\<close>

record generic_scan =
  gs_open :: "nat option"
  gs_close :: "nat option"
  gs_angle :: nat
  gs_brace :: nat
  gs_in_string :: bool
  gs_escaped :: bool

definition generic_start :: generic_scan where
  "generic_start = \<lparr>gs_open = None, gs_close = None, gs_angle = 0, gs_brace = 0, gs_in_string = False, gs_escaped = False\<rparr>"

text \<open>One iteration at position \<open>i\<close>; \<open>prev\<close> is the character before, if any.\<close>

definition generic_step :: "nat \<Rightarrow> uchar option \<Rightarrow> uchar \<Rightarrow> generic_scan \<Rightarrow> generic_scan" where
  "generic_step i prev c g =
     (if gs_in_string g then
        (if gs_escaped g then g\<lparr>gs_escaped := False\<rparr>
         else if c = 92 then g\<lparr>gs_escaped := True\<rparr>
         else if c = 34 then g\<lparr>gs_in_string := False\<rparr>
         else g)
      else if c = 62 \<and> prev = Some 45 then g
      else if c = 34 then g\<lparr>gs_in_string := True\<rparr>
      else if c = 123 then g\<lparr>gs_brace := gs_brace g + 1\<rparr>
      else if c = 125 then g\<lparr>gs_brace := gs_brace g - 1\<rparr>
      else if c = 60 \<and> gs_brace g = 0 then
        g\<lparr>gs_open := (if gs_angle g = 0 then (case gs_open g of None \<Rightarrow> Some i | Some x \<Rightarrow> Some x) else gs_open g),
          gs_angle := gs_angle g + 1\<rparr>
      else if c = 62 \<and> gs_brace g = 0 \<and> gs_angle g > 0 then
        g\<lparr>gs_angle := gs_angle g - 1, gs_close := (if gs_angle g = 1 then Some i else gs_close g)\<rparr>
      else g)"

primrec generic_loop :: "nat \<Rightarrow> uchar option \<Rightarrow> ustring \<Rightarrow> generic_scan \<Rightarrow> generic_scan" where
  "generic_loop i prev [] g = g"
| "generic_loop i prev (c # cs) g = generic_loop (Suc i) (Some c) cs (generic_step i prev c g)"

record generic_parts =
  gp_root :: ustring
  gp_inner :: ustring
  gp_args :: "ustring list"

text \<open>Positions count characters; the code's byte positions differ but cut the text at the same places.\<close>

definition generic_parts_of :: "ustring \<Rightarrow> generic_parts option" where
  "generic_parts_of raw =
     (let input = trim raw; g = generic_loop 0 None input generic_start
      in case (gs_open g, gs_close g) of
           (Some op, Some cl) \<Rightarrow>
             (if gs_angle g \<noteq> 0 \<or> cl + 1 \<noteq> length input \<or> cl \<le> op then None
              else let inner = trim (take (cl - (op + 1)) (drop (op + 1) input))
                in Some \<lparr>gp_root = trim (take op input), gp_inner = inner, gp_args = split_top_level inner 44\<rparr>)
         | _ \<Rightarrow> None)"

definition generic_args :: "ustring \<Rightarrow> ustring list option" where
  "generic_args input = map_option gp_args (generic_parts_of input)"

definition generic_inner :: "ustring \<Rightarrow> ustring \<Rightarrow> ustring option" where
  "generic_inner input name =
     (case generic_parts_of input of
        None \<Rightarrow> None
      | Some parts \<Rightarrow> if gp_root parts = name then Some (gp_inner parts) else None)"

definition string_literal :: "(ustring \<Rightarrow> ustring option) \<Rightarrow> ustring \<Rightarrow> ustring option" where
  "string_literal dec raw =
     (let input = trim raw
      in if input \<noteq> [] \<and> hd input = 34 \<and> last input = 34 then dec input else None)"

section \<open>Lengths of the pieces\<close>

lemma trim_end_length: "length (trim_end s) \<le> length s"
  unfolding trim_end_def by (metis length_dropWhile_le length_rev)

lemma trim_start_length: "length (trim_start s) \<le> length s"
  unfolding trim_start_def by (rule length_dropWhile_le)

lemma trim_length: "length (trim s) \<le> length s"
  unfolding trim_def using trim_end_length trim_start_length le_trans by blast

lemma split_loop_lengths:
  "sum_list (map length (split_loop d st part s)) + length (split_loop d st part s) \<le> length part + length s + 1"
proof (induction s arbitrary: st part)
  case Nil
  then show ?case using trim_length [of part] by simp
next
  case (Cons c s)
  show ?case
  proof (cases "delim d c st")
    case True
    then show ?thesis using Cons [of st "[]"] trim_length [of part] by simp
  next
    case False
    then show ?thesis using Cons [of "scan_step c st" "part @ [c]"] by simp
  qed
qed

lemma split_part_le: "x \<in> set (split_top_level s d) \<Longrightarrow> length x \<le> length s"
proof -
  assume x: "x \<in> set (split_top_level s d)"
  then have "length x \<le> sum_list (map length (split_top_level s d))" by (simp add: member_le_sum_list)
  moreover have "1 \<le> length (split_top_level s d)" using x by (cases "split_top_level s d") auto
  moreover have "sum_list (map length (split_top_level s d)) + length (split_top_level s d) \<le> length s + 1"
    using split_loop_lengths [of d scan_start "[]" s] unfolding split_top_level_def by simp
  ultimately show ?thesis by linarith
qed

lemma split_part_less: "x \<in> set (split_top_level s d) \<Longrightarrow> length (split_top_level s d) > 1 \<Longrightarrow> length x < length s"
proof -
  assume x: "x \<in> set (split_top_level s d)" "length (split_top_level s d) > 1"
  have "length x \<le> sum_list (map length (split_top_level s d))" using x(1) by (simp add: member_le_sum_list)
  then show ?thesis using split_loop_lengths [of d scan_start "[]" s] x(2) by (simp add: split_top_level_def)
qed

lemma find_top_length:
  "find_top stop st before s = Some (a, b) \<Longrightarrow> length a + length b + 1 = length before + length s"
proof (induction s arbitrary: st before)
  case (Cons c s)
  show ?case
  proof (cases "stop c st")
    case True
    then have "before = a \<and> s = b" using Cons.prems by simp
    then show ?thesis by simp
  next
    case False
    then have "find_top stop (scan_step c st) (before @ [c]) s = Some (a, b)" using Cons.prems by simp
    from Cons.IH [OF this] show ?thesis by simp
  qed
qed simp

lemma field_length: "split_record_type_field f = Some (n, t) \<Longrightarrow> length t < length f"
proof -
  assume "split_record_type_field f = Some (n, t)"
  then obtain stop a b where "find_top stop scan_start [] f = Some (a, b)" "t = trim b"
    by (auto simp: split_record_type_field_def)
  then show ?thesis using find_top_length [of stop scan_start "[]" f a b] trim_length [of b] by simp
qed

lemma collect_fields_lengths:
  "collect_fields fs = Inr nts \<Longrightarrow> (n, t) \<in> set nts \<Longrightarrow> \<exists>f \<in> set fs. length t < length f"
  by (induction fs arbitrary: nts) (auto split: option.splits sum.splits dest: field_length)

lemma braces_inner_length: "braces_inner ty = Some inner \<Longrightarrow> length inner < length ty"
proof -
  assume "braces_inner ty = Some inner"
  then obtain rest where r: "strip_prefix [123] (trim ty) = Some rest" "rest \<noteq> []" "inner = trim (butlast rest)"
    by (auto simp: braces_inner_def strip_suffix_char_def split: option.splits if_splits)
  then have "length rest < length ty" using trim_length [of ty]
    by (cases "trim ty") (auto simp: strip_prefix_def split: if_splits)
  then show ?thesis using r(3) trim_length [of "butlast rest"] by simp
qed

lemma record_fields_length: "record_type_fields ty = Some fs \<Longrightarrow> (n, t) \<in> set fs \<Longrightarrow> length t < length ty"
proof -
  assume a: "record_type_fields ty = Some fs" "(n, t) \<in> set fs"
  then obtain inner where i: "braces_inner ty = Some inner" "inner \<noteq> []" "collect_fields (split_top_level inner 44) = Inr fs"
    by (auto simp: record_type_fields_def parse_record_type_fields_def split: sum.splits option.splits if_splits)
  from collect_fields_lengths [OF i(3) a(2)] obtain f where "f \<in> set (split_top_level inner 44)" "length t < length f" by blast
  then show ?thesis using split_part_le braces_inner_length [OF i(1)] by fastforce
qed

lemma generic_args_length: "generic_parts_of ty = Some p \<Longrightarrow> x \<in> set (gp_args p) \<Longrightarrow> length x < length ty"
proof -
  assume a: "generic_parts_of ty = Some p" "x \<in> set (gp_args p)"
  then obtain op cl inner where i: "cl + 1 = length (trim ty)" "inner = trim (take (cl - (op + 1)) (drop (op + 1) (trim ty)))"
      "gp_args p = split_top_level inner 44"
    by (auto simp: generic_parts_of_def Let_def split: option.splits if_splits)
  have "length inner \<le> length (trim ty) - 1"
    using trim_length [of "take (cl - (op + 1)) (drop (op + 1) (trim ty))"] i(1,2) by simp
  then show ?thesis using split_part_le [of x inner 44] a(2) i trim_length [of ty] by simp
qed

section \<open>Type expressions\<close>

datatype type_expr =
    EmptyRecord
  | StringLiteral ustring
  | AnyInterface type_expr
  | Named ustring "type_expr list"
  | Nullable type_expr
  | Union "type_expr list"
  | RecordType "(ustring \<times> type_expr) list"
  | FunctionType "(ustring \<times> type_expr) list" type_expr

definition opaque :: "ustring \<Rightarrow> type_expr" where
  "opaque ty = Named ty []"

text \<open>The parameters as texts; the code parses each type where it finds it, which is the same because
  parsing has no effect.\<close>

fun function_param_texts :: "ustring list \<Rightarrow> (ustring \<times> ustring) list option" where
  "function_param_texts [] = Some []"
| "function_param_texts (p # ps) =
     (let param = trim p
      in if param = [] then None
         else case split_top_level_once param 58 of
                None \<Rightarrow> None
              | Some nt \<Rightarrow> map_option (\<lambda>nts. nt # nts) (function_param_texts ps))"

definition function_type_params :: "ustring \<Rightarrow> (ustring \<times> ustring) list option" where
  "function_type_params raw =
     (if trim raw = [] then Some [] else function_param_texts (split_top_level raw 44))"

definition function_type_parts :: "ustring \<Rightarrow> ((ustring \<times> ustring) list \<times> ustring) option" where
  "function_type_parts ty =
     (case strip_prefix (u ''fn('') (trim ty) of
        None \<Rightarrow> None
      | Some tail \<Rightarrow>
          (case find_top (\<lambda>c st. c = 41 \<and> scan_top st) scan_start [] tail of
             None \<Rightarrow> None
           | Some (before, after) \<Rightarrow>
               (case strip_prefix (u ''->'') (trim_start after) of
                  None \<Rightarrow> None
                | Some rest \<Rightarrow>
                    (let return_type = trim rest
                     in if return_type = [] then None
                        else map_option (\<lambda>params. (params, return_type)) (function_type_params (trim before))))))"

lemma once_length: "split_top_level_once s d = Some (n, t) \<Longrightarrow> length t < length s"
proof -
  assume "split_top_level_once s d = Some (n, t)"
  then obtain stop a b where "find_top stop scan_start [] s = Some (a, b)" "t = trim b"
    by (auto simp: split_top_level_once_def)
  then show ?thesis using find_top_length [of stop scan_start "[]" s a b] trim_length [of b] by simp
qed

lemma param_texts_length:
  "function_param_texts ps = Some nts \<Longrightarrow> (n, t) \<in> set nts \<Longrightarrow> \<exists>p \<in> set ps. length t < length p"
proof (induction ps arbitrary: nts)
  case (Cons p ps)
  from Cons.prems(1) obtain nt nts' where *: "split_top_level_once (trim p) 58 = Some nt"
      "function_param_texts ps = Some nts'" "nts = nt # nts'"
    by (auto simp: Let_def split: if_splits option.splits)
  show ?case
  proof (cases "(n, t) = nt")
    case True
    then show ?thesis using once_length * trim_length [of p] by fastforce
  next
    case False
    then show ?thesis using Cons.IH [OF *(2)] Cons.prems(2) *(3) by auto
  qed
qed simp

lemma strip_prefix_length: "strip_prefix p s = Some r \<Longrightarrow> length r \<le> length s - length p \<and> length p \<le> length s"
  by (auto simp: strip_prefix_def split: if_splits) (metis length_take min.absorb_iff1 min.commute nat_le_linear)

lemma function_parts_length:
  assumes "function_type_parts ty = Some (ps, r)"
  shows "length r < length ty" and "(n, t) \<in> set ps \<Longrightarrow> length t < length ty"
proof -
  from assms obtain stop tail before after rest where *:
      "strip_prefix (u ''fn('') (trim ty) = Some tail" "find_top stop scan_start [] tail = Some (before, after)"
      "strip_prefix (u ''->'') (trim_start after) = Some rest" "r = trim rest"
      "function_type_params (trim before) = Some ps"
    by (auto simp: function_type_parts_def Let_def split: option.splits if_splits)
  have tail: "length tail + 3 \<le> length ty"
    using strip_prefix_length [OF *(1)] trim_length [of ty] by (auto simp: u_def)
  have parts: "length before + length after + 1 = length tail" using find_top_length [OF *(2)] by simp
  show "length r < length ty"
    using strip_prefix_length [OF *(3)] *(4) trim_length [of rest] trim_start_length [of after] tail parts by (auto simp: u_def)
  assume nt: "(n, t) \<in> set ps"
  then have "function_param_texts (split_top_level (trim before) 44) = Some ps"
    using *(5) by (auto simp: function_type_params_def split: if_splits)
  from param_texts_length [OF this nt] obtain p where "p \<in> set (split_top_level (trim before) 44)" "length t < length p" by blast
  then show "length t < length ty" using split_part_le trim_length [of before] tail parts by fastforce
qed

lemma strip_suffix_length: "strip_suffix_char c s = Some r \<Longrightarrow> length r < length s"
  by (auto simp: strip_suffix_char_def split: if_splits)

lemma parse_shorter: "length y < length (trim raw) \<Longrightarrow> ((dec, y), dec', raw) \<in> measure (\<lambda>(dec, raw). length raw)"
  using trim_length [of raw] by simp

function parse_type :: "(ustring \<Rightarrow> ustring option) \<Rightarrow> ustring \<Rightarrow> type_expr" where
  "parse_type dec raw =
     (let ty = trim raw
      in if ty = [] then opaque ty
         else if ty = u ''{}'' then EmptyRecord
         else case string_literal dec ty of
           Some v \<Rightarrow> StringLiteral v
         | None \<Rightarrow> (case function_type_parts ty of
             Some (params, return_type) \<Rightarrow>
               FunctionType (map (\<lambda>(n, t). (n, parse_type dec t)) params) (parse_type dec return_type)
           | None \<Rightarrow>
               (let parts = split_top_level ty 124
                in if length parts > 1 then Union (map (\<lambda>part. parse_type dec part) parts)
                   else case strip_suffix_char 63 ty of
                     Some inner \<Rightarrow> Nullable (parse_type dec inner)
                   | None \<Rightarrow> (case strip_prefix (u ''any '') ty of
                       Some interface \<Rightarrow> AnyInterface (parse_type dec (trim interface))
                     | None \<Rightarrow> (case record_type_fields ty of
                         Some fs \<Rightarrow>
                           (if fs = [] then EmptyRecord
                            else RecordType (map (\<lambda>(n, t). (n, parse_type dec t)) fs))
                       | None \<Rightarrow> (case generic_parts_of ty of
                           Some parts \<Rightarrow> Named (gp_root parts) (map (\<lambda>arg. parse_type dec arg) (gp_args parts))
                         | None \<Rightarrow> opaque ty))))))"
  by pat_completeness auto

termination
proof (relation "measure (\<lambda>(dec, raw). length raw)", goal_cases)
  case (2 dec raw ty parts part)
  then show ?case using split_part_less [of part ty 124] by (intro parse_shorter) simp
next
  case (3 dec raw ty parts gp arg)
  then show ?case using generic_args_length [of ty gp arg] by (intro parse_shorter) simp
next
  case (4 dec raw ty parts fs f n t)
  then show ?case using record_fields_length [of ty fs n t] by (intro parse_shorter) simp
next
  case (5 dec raw ty parts interface)
  then show ?case using strip_prefix_length [OF 5(9)] trim_length [of interface]
    by (intro parse_shorter) (auto simp: u_def)
next
  case (6 dec raw ty parts inner)
  then show ?case using strip_suffix_length [of 63 ty inner] by (intro parse_shorter) simp
next
  case (7 dec raw ty pr ps r p n t)
  then show ?case using function_parts_length(2) [of ty ps r n t] by (intro parse_shorter) simp
next
  case (8 dec raw ty pr ps r)
  then show ?case using function_parts_length(1) [of ty ps r] by (intro parse_shorter) simp
qed simp

declare parse_type.simps [simp del]

section \<open>Printing\<close>

fun join :: "'a list \<Rightarrow> 'a list list \<Rightarrow> 'a list" where
  "join sep [] = []"
| "join sep [x] = x"
| "join sep (x # y # zs) = x @ sep @ join sep (y # zs)"

text \<open>The fallback of the string printer: backslashes are doubled, then quotes escaped.\<close>

definition replace_char :: "uchar \<Rightarrow> ustring \<Rightarrow> ustring \<Rightarrow> ustring" where
  "replace_char c r s = concat (map (\<lambda>x. if x = c then r else [x]) s)"

definition escape_string :: "ustring \<Rightarrow> ustring" where
  "escape_string s = [34] @ replace_char 34 [92, 34] (replace_char 92 [92, 92] s) @ [34]"

fun to_type_string :: "(ustring \<Rightarrow> ustring option) \<Rightarrow> type_expr \<Rightarrow> ustring" where
  "to_type_string enc EmptyRecord = u ''{}''"
| "to_type_string enc (StringLiteral v) = (case enc v of Some e \<Rightarrow> e | None \<Rightarrow> escape_string v)"
| "to_type_string enc (AnyInterface t) = u ''any '' @ to_type_string enc t"
| "to_type_string enc (Named n args) =
     (if args = [] then n else n @ u ''<'' @ join (u '', '') (map (\<lambda>a. to_type_string enc a) args) @ u ''>'')"
| "to_type_string enc (Nullable t) = to_type_string enc t @ u ''?''"
| "to_type_string enc (Union ts) = join (u '' | '') (map (\<lambda>t. to_type_string enc t) ts)"
| "to_type_string enc (RecordType fs) =
     u ''{ '' @ join (u '', '') (map (\<lambda>(n, t). n @ u '': '' @ to_type_string enc t) fs) @ u '' }''"
| "to_type_string enc (FunctionType ps r) =
     u ''fn('' @ join (u '', '') (map (\<lambda>(n, t). n @ u '': '' @ to_type_string enc t) ps) @ u '') -> '' @ to_type_string enc r"

section \<open>Traversals\<close>

fun contains_function_type :: "type_expr \<Rightarrow> bool" where
  "contains_function_type (FunctionType ps r) = True"
| "contains_function_type (Named n args) = list_ex (\<lambda>a. contains_function_type a) args"
| "contains_function_type (Union ts) = list_ex (\<lambda>t. contains_function_type t) ts"
| "contains_function_type (AnyInterface t) = contains_function_type t"
| "contains_function_type (Nullable t) = contains_function_type t"
| "contains_function_type (RecordType fs) = list_ex (\<lambda>(n, t). contains_function_type t) fs"
| "contains_function_type EmptyRecord = False"
| "contains_function_type (StringLiteral v) = False"

text \<open>The visitors as the list of their calls, in order.\<close>

fun visit_named :: "type_expr \<Rightarrow> ustring list" where
  "visit_named (Named n args) = n # concat (map (\<lambda>a. visit_named a) args)"
| "visit_named (AnyInterface t) = visit_named t"
| "visit_named (Nullable t) = visit_named t"
| "visit_named (Union ts) = concat (map (\<lambda>t. visit_named t) ts)"
| "visit_named (RecordType fs) = concat (map (\<lambda>(n, t). visit_named t) fs)"
| "visit_named (FunctionType ps r) = concat (map (\<lambda>(n, t). visit_named t) ps) @ visit_named r"
| "visit_named EmptyRecord = []"
| "visit_named (StringLiteral v) = []"

fun visit_named_outside_function_types :: "type_expr \<Rightarrow> ustring list" where
  "visit_named_outside_function_types (Named n args) = n # concat (map (\<lambda>a. visit_named_outside_function_types a) args)"
| "visit_named_outside_function_types (AnyInterface t) = visit_named_outside_function_types t"
| "visit_named_outside_function_types (Nullable t) = visit_named_outside_function_types t"
| "visit_named_outside_function_types (Union ts) = concat (map (\<lambda>t. visit_named_outside_function_types t) ts)"
| "visit_named_outside_function_types (RecordType fs) = concat (map (\<lambda>(n, t). visit_named_outside_function_types t) fs)"
| "visit_named_outside_function_types (FunctionType ps r) = []"
| "visit_named_outside_function_types EmptyRecord = []"
| "visit_named_outside_function_types (StringLiteral v) = []"

fun visit_function_type :: "type_expr \<Rightarrow> type_expr list" where
  "visit_function_type (FunctionType ps r) = [FunctionType ps r]"
| "visit_function_type (Named n args) = concat (map (\<lambda>a. visit_function_type a) args)"
| "visit_function_type (Union ts) = concat (map (\<lambda>t. visit_function_type t) ts)"
| "visit_function_type (AnyInterface t) = visit_function_type t"
| "visit_function_type (Nullable t) = visit_function_type t"
| "visit_function_type (RecordType fs) = concat (map (\<lambda>(n, t). visit_function_type t) fs)"
| "visit_function_type EmptyRecord = []"
| "visit_function_type (StringLiteral v) = []"

text \<open>The map calls a closure that may keep state: the state is threaded through the calls in the order the
  code makes them.\<close>

fun map_named_types :: "(ustring \<Rightarrow> 's \<Rightarrow> ustring \<times> 's) \<Rightarrow> type_expr \<Rightarrow> 's \<Rightarrow> type_expr \<times> 's"
and map_named_list :: "(ustring \<Rightarrow> 's \<Rightarrow> ustring \<times> 's) \<Rightarrow> type_expr list \<Rightarrow> 's \<Rightarrow> type_expr list \<times> 's"
and map_named_fields :: "(ustring \<Rightarrow> 's \<Rightarrow> ustring \<times> 's) \<Rightarrow> (ustring \<times> type_expr) list \<Rightarrow> 's \<Rightarrow> (ustring \<times> type_expr) list \<times> 's" where
  "map_named_types f EmptyRecord s = (EmptyRecord, s)"
| "map_named_types f (StringLiteral v) s = (StringLiteral v, s)"
| "map_named_types f (AnyInterface t) s = (let (t', s') = map_named_types f t s in (AnyInterface t', s'))"
| "map_named_types f (Named n args) s =
     (let (n', s1) = f n s; (args', s2) = map_named_list f args s1 in (Named n' args', s2))"
| "map_named_types f (Nullable t) s = (let (t', s') = map_named_types f t s in (Nullable t', s'))"
| "map_named_types f (Union ts) s = (let (ts', s') = map_named_list f ts s in (Union ts', s'))"
| "map_named_types f (RecordType fs) s = (let (fs', s') = map_named_fields f fs s in (RecordType fs', s'))"
| "map_named_types f (FunctionType ps r) s =
     (let (ps', s1) = map_named_fields f ps s; (r', s2) = map_named_types f r s1 in (FunctionType ps' r', s2))"
| "map_named_list f [] s = ([], s)"
| "map_named_list f (t # ts) s =
     (let (t', s1) = map_named_types f t s; (ts', s2) = map_named_list f ts s1 in (t' # ts', s2))"
| "map_named_fields f [] s = ([], s)"
| "map_named_fields f ((n, t) # fs) s =
     (let (t', s1) = map_named_types f t s; (fs', s2) = map_named_fields f fs s1 in ((n, t') # fs', s2))"

end
