(* ===== verification/Syntax_Type_Roundtrip.thy ===== *)
theory Syntax_Type_Roundtrip
  imports Syntax_Type_Expr
begin

text \<open>
  Printing and parsing of type expressions agree on the types whose text is unambiguous: which types
  these are, how the bracket scanners pass over printed text, and the round trip. The JSON string
  codec is assumed to read back what it writes and to accept nothing but one quoted string.
\<close>

declare u_simps [simp del]

section \<open>Types with an unambiguous text\<close>

definition name_char :: "uchar \<Rightarrow> bool" where
  "name_char c \<longleftrightarrow> \<not> is_whitespace c \<and> \<not> structural c \<and> c \<notin> {44, 45, 58, 63, 124}"

definition name_text :: "ustring \<Rightarrow> bool" where
  "name_text n \<longleftrightarrow> n \<noteq> [] \<and> list_all name_char n"

text \<open>A bar at the top level of the text, a question mark at its end (of a text without such
  a bar), a function at its start.\<close>

fun bar_at_top :: "type_expr \<Rightarrow> bool" where
  "bar_at_top (Union ts) = True"
| "bar_at_top (AnyInterface t) = bar_at_top t"
| "bar_at_top (FunctionType ps r) = bar_at_top r"
| "bar_at_top (Nullable t) = bar_at_top t"
| "bar_at_top _ = False"

fun mark_at_end :: "type_expr \<Rightarrow> bool" where
  "mark_at_end (Nullable t) = True"
| "mark_at_end (AnyInterface t) = mark_at_end t"
| "mark_at_end (FunctionType ps r) = mark_at_end r"
| "mark_at_end _ = False"

fun fn_at_start :: "type_expr \<Rightarrow> bool" where
  "fn_at_start (FunctionType ps r) = True"
| "fn_at_start (Nullable t) = fn_at_start t"
| "fn_at_start (Union (t # ts)) = fn_at_start t"
| "fn_at_start _ = False"

fun unambiguous :: "type_expr \<Rightarrow> bool" where
  "unambiguous EmptyRecord = True"
| "unambiguous (StringLiteral v) = True"
| "unambiguous (AnyInterface t) = (unambiguous t \<and> \<not> bar_at_top t \<and> \<not> mark_at_end t)"
| "unambiguous (Named n args) =
     (name_text n \<and> list_all (\<lambda>a. unambiguous a \<and> \<not> contains_function_type a) args)"
| "unambiguous (Nullable t) = (unambiguous t \<and> \<not> bar_at_top t \<and> \<not> fn_at_start t)"
| "unambiguous (Union ts) =
     (length ts > 1 \<and> list_all (\<lambda>t. unambiguous t \<and> \<not> bar_at_top t) ts \<and> \<not> fn_at_start (Union ts))"
| "unambiguous (RecordType fs) = (fs \<noteq> [] \<and> list_all (\<lambda>(n, t). name_text n \<and> unambiguous t) fs)"
| "unambiguous (FunctionType ps r) = (list_all (\<lambda>(n, t). name_text n \<and> unambiguous t) ps \<and> unambiguous r)"

text \<open>One quoted string: the body leaves the string at no place.\<close>

fun closed_body :: "ustring \<Rightarrow> bool" where
  "closed_body [] = True"
| "closed_body (c # cs) =
     (if c = 34 then False
      else if c = 92 then (case cs of [] \<Rightarrow> False | e # cs' \<Rightarrow> closed_body cs')
      else closed_body cs)"

definition quoted :: "ustring \<Rightarrow> bool" where
  "quoted s \<longleftrightarrow> (\<exists>b. s = 34 # b @ [34] \<and> closed_body b)"

definition json_string_codec :: "(ustring \<Rightarrow> ustring option) \<Rightarrow> (ustring \<Rightarrow> ustring option) \<Rightarrow> bool" where
  "json_string_codec dec enc \<longleftrightarrow>
     (\<forall>v. \<exists>e. enc v = Some e \<and> dec e = Some v \<and> quoted e) \<and> (\<forall>x v. dec x = Some v \<longrightarrow> quoted (trim x))"

section \<open>Trimming of printed text\<close>

definition tidy :: "ustring \<Rightarrow> bool" where
  "tidy s \<longleftrightarrow> s \<noteq> [] \<and> \<not> is_whitespace (hd s) \<and> \<not> is_whitespace (last s)"

lemma drop_spaces: "list_all is_whitespace ws \<Longrightarrow> dropWhile is_whitespace (ws @ s) = dropWhile is_whitespace s"
  by (induction ws) auto

lemma dropWhile_hd: "s \<noteq> [] \<Longrightarrow> \<not> P (hd s) \<Longrightarrow> dropWhile P s = s"
  by (cases s) auto

lemma trim_spaces:
  assumes "list_all is_whitespace a" "tidy s" "list_all is_whitespace b"
  shows "trim (a @ s @ b) = s"
proof -
  have "dropWhile is_whitespace (a @ s @ b) = s @ b"
    using assms by (subst drop_spaces) (auto simp: tidy_def intro: dropWhile_hd)
  moreover have "dropWhile is_whitespace (rev (s @ b)) = rev s"
    using assms drop_spaces [of "rev b" "rev s"] dropWhile_hd [of "rev s" is_whitespace]
    by (auto simp: tidy_def hd_rev list.pred_set)
  ultimately show ?thesis by (simp add: trim_def trim_start_def trim_end_def)
qed

lemma trim_tidy [simp]: "tidy s \<Longrightarrow> trim s = s"
  using trim_spaces [of "[]" s "[]"] by simp

lemma space_char [simp]: "is_whitespace 32"
  by (simp add: is_whitespace_def)

lemma tidy_append: "tidy a \<Longrightarrow> tidy b \<Longrightarrow> tidy (a @ m @ b)"
  by (auto simp: tidy_def)

section \<open>Scanners over printed text\<close>

text \<open>\<open>quiet\<close>: the scan meets no place where the loop stops.\<close>

primrec quiet :: "(uchar \<Rightarrow> scan \<Rightarrow> bool) \<Rightarrow> scan \<Rightarrow> ustring \<Rightarrow> bool" where
  "quiet stop st [] = True"
| "quiet stop st (c # cs) = (\<not> stop c st \<and> quiet stop (scan_step c st) cs)"

lemma quiet_append [simp]: "quiet stop st (a @ b) \<longleftrightarrow> quiet stop st a \<and> quiet stop (fold scan_step a st) b"
  by (induction a arbitrary: st) auto

lemma quiet_mono: "quiet stop st s \<Longrightarrow> (\<And>c st. stop' c st \<Longrightarrow> stop c st) \<Longrightarrow> quiet stop' st s"
  by (induction s arbitrary: st) auto

lemma find_top_quiet:
  "quiet stop st a \<Longrightarrow> find_top stop st before (a @ b) = find_top stop (fold scan_step a st) (before @ a) b"
  by (induction a arbitrary: st before) auto

lemma split_loop_quiet:
  "quiet (delim d) st a \<Longrightarrow> split_loop d st part (a @ b) = split_loop d (fold scan_step a st) (part @ a) b"
  by (induction a arbitrary: st part) auto

text \<open>A piece of text that brings the scan back to where it was, without a stop.\<close>

definition passes :: "(uchar \<Rightarrow> scan \<Rightarrow> bool) \<Rightarrow> scan \<Rightarrow> ustring \<Rightarrow> bool" where
  "passes stop st s \<longleftrightarrow> quiet stop st s \<and> fold scan_step s st = st"

lemma passes_append: "passes stop st a \<Longrightarrow> passes stop st b \<Longrightarrow> passes stop st (a @ b)"
  by (simp add: passes_def)

lemma passes_join:
  "(\<And>x. x \<in> set xs \<Longrightarrow> passes stop st x) \<Longrightarrow> passes stop st sep \<Longrightarrow> passes stop st (join sep xs)"
  by (induction sep xs rule: join.induct) (auto intro!: passes_append simp: passes_def)

lemma split_join:
  assumes "list_all is_whitespace pre" "list_all is_whitespace post" "passes (delim d) st pre"
    "passes (delim d) st post" "delim d d st"
  shows "xs \<noteq> [] \<Longrightarrow> (\<And>x. x \<in> set xs \<Longrightarrow> tidy x \<and> passes (delim d) st x) \<Longrightarrow> list_all is_whitespace part \<Longrightarrow>
     split_loop d st part (join (pre @ [d] @ post) xs) = xs"
proof (induction xs arbitrary: part rule: induct_list012)
  case (2 x)
  then show ?case using split_loop_quiet [of d st x part "[]"] trim_spaces [of part x "[]"] by (simp add: passes_def)
next
  case (3 x y zs)
  have x: "tidy x" "quiet (delim d) st x" "fold scan_step x st = st" using 3(4) by (auto simp: passes_def)
  have "split_loop d st part (join (pre @ [d] @ post) (x # y # zs)) = trim (part @ x @ pre) # split_loop d st [] (post @ join (pre @ [d] @ post) (y # zs))"
    using split_loop_quiet [of d st "x @ pre" part "d # post @ join (pre @ d # post) (y # zs)"] x assms
    by (simp add: passes_def)
  also have "split_loop d st [] (post @ join (pre @ [d] @ post) (y # zs)) = split_loop d st post (join (pre @ [d] @ post) (y # zs))"
    using split_loop_quiet [of d st post "[]"] assms by (simp add: passes_def)
  also have "\<dots> = y # zs" using 3(2) [of post] 3(4) assms(2) by simp
  finally show ?case using trim_spaces [OF 3(5) x(1) assms(1)] by simp
qed simp

definition neutral :: "scan \<Rightarrow> bool" where
  "neutral st \<longleftrightarrow> \<not> sc_in_string st \<and> \<not> sc_escaped st"

text \<open>The places where one of the loops over a whole text may stop; \<open>bars\<close> says whether a bar is one.\<close>

definition stop_char :: "bool \<Rightarrow> uchar \<Rightarrow> scan \<Rightarrow> bool" where
  "stop_char bars c st \<longleftrightarrow> scan_top st \<and> (c = 44 \<or> c = 41 \<or> c = 124 \<and> bars)"

lemma step_plain: "neutral st \<Longrightarrow> \<not> structural c \<Longrightarrow> scan_step c st = st"
  by (auto simp: neutral_def structural_def scan_step_def)

lemma name_passes:
  assumes "list_all name_char n" "neutral st" "\<And>c. name_char c \<Longrightarrow> \<not> stop c st"
  shows "passes stop st n"
  using assms(1)
proof (induction n)
  case (Cons c n)
  then have "scan_step c st = st" using step_plain [OF assms(2)] by (simp add: name_char_def)
  then show ?case using Cons assms(3) [of c] by (simp add: passes_def)
qed (simp add: passes_def)

lemma closed_body_passes:
  "closed_body b \<Longrightarrow> sc_in_string st \<Longrightarrow> \<not> sc_escaped st \<Longrightarrow> (\<And>c s. sc_in_string s \<Longrightarrow> \<not> stop c s) \<Longrightarrow> passes stop st b"
proof (induction b rule: closed_body.induct)
  case (2 c cs)
  show ?case
  proof (cases "c = 92")
    case True
    with 2(3) obtain e cs' where "cs = e # cs'" "closed_body cs'" by (cases cs) auto
    moreover have same: "st\<lparr>sc_escaped := False\<rparr> = st" using 2(5) by (cases st) simp
    ultimately show ?thesis using 2(1) [of e cs'] True 2(4-6) by (simp add: passes_def scan_step_def same)
  next
    case False
    then show ?thesis using 2 by (simp add: passes_def scan_step_def split: if_splits)
  qed
qed (simp add: passes_def)

lemma quoted_passes:
  assumes "quoted e" "neutral st" "\<And>c s. sc_in_string s \<Longrightarrow> \<not> stop c s" "\<not> stop 34 st"
  shows "passes stop st e"
proof -
  obtain b where b: "e = 34 # b @ [34]" "closed_body b" using assms(1) by (auto simp: quoted_def)
  let ?st = "st\<lparr>sc_in_string := True\<rparr>"
  have "passes stop ?st b" using b(2) assms(2,3) by (intro closed_body_passes) (auto simp: neutral_def)
  moreover have "scan_step 34 st = ?st" "scan_step 34 ?st = st"
    using assms(2) by (auto simp: scan_step_def neutral_def)
  ultimately show ?thesis using b(1) assms(3,4) by (simp add: passes_def)
qed

lemma stop_char_string: "sc_in_string s \<Longrightarrow> \<not> stop_char bars c s"
  by (simp add: stop_char_def scan_top_def)

lemma stop_char_name: "name_char c \<Longrightarrow> \<not> stop_char bars c s"
  by (auto simp: stop_char_def name_char_def structural_def)

text \<open>A bracketed text: inside, the scan is not at the top.\<close>

lemma passes_angle:
  assumes "neutral st" "passes stop (st\<lparr>sc_angle := sc_angle st + 1\<rparr>) s"
    "\<And>s. \<not> stop 60 s \<and> \<not> stop 62 s"
  shows "passes stop st (u ''<'' @ s @ u ''>'')"
  using assms by (simp add: passes_def u_def scan_step_def neutral_def)

lemma passes_brace:
  assumes "neutral st" "passes stop (st\<lparr>sc_brace := sc_brace st + 1\<rparr>) s"
    "\<And>s. \<not> stop 123 s \<and> \<not> stop 125 s \<and> \<not> stop 32 s"
  shows "passes stop st (u ''{ '' @ s @ u '' }'')"
  using assms by (simp add: passes_def u_def scan_step_def neutral_def)

lemma passes_paren:
  assumes "neutral st" "passes stop (st\<lparr>sc_paren := sc_paren st + 1\<rparr>) s"
    "\<not> stop 40 st" "\<not> stop 41 (st\<lparr>sc_paren := sc_paren st + 1\<rparr>)"
  shows "passes stop st (u ''('' @ s @ u '')'')"
  using assms by (simp add: passes_def u_def scan_step_def neutral_def)

lemma passes_plain:
  assumes "neutral st" "list_all (\<lambda>c. \<not> structural c \<and> \<not> stop c st) s"
  shows "passes stop st s"
  using assms(2) by (induction s) (auto simp: passes_def step_plain [OF assms(1)])

lemma passes_arrow:
  assumes "neutral st" "sc_angle st = 0" "\<not> stop 32 st" "\<not> stop 45 st" "\<not> stop 62 st"
  shows "passes stop st (u '' -> '')"
proof -
  have "scan_step 62 st = st" using assms(1,2) by (cases st) (simp add: scan_step_def neutral_def)
  then show ?thesis using assms by (simp add: passes_def u_def step_plain structural_def)
qed

abbreviation printed :: "(ustring \<Rightarrow> ustring option) \<Rightarrow> ustring \<times> type_expr \<Rightarrow> ustring" where
  "printed enc p \<equiv> fst p @ u '': '' @ to_type_string enc (snd p)"

lemma to_type_string_fields:
  "(\<lambda>(n, t). n @ u '': '' @ to_type_string enc t) = printed enc"
  by (simp add: fun_eq_iff)

lemma codec_print:
  "json_string_codec dec enc \<Longrightarrow> quoted (to_type_string enc (StringLiteral v)) \<and> dec (to_type_string enc (StringLiteral v)) = Some v"
  unfolding json_string_codec_def by (metis option.simps(5) to_type_string.simps(2))

lemma field_passes:
  assumes "name_text n" "neutral st" "\<And>c. name_char c \<Longrightarrow> \<not> stop c st" "\<not> stop 58 st" "\<not> stop 32 st"
    "passes stop st (to_type_string enc t)"
  shows "passes stop st (printed enc (n, t))"
proof -
  have "passes stop st n" using assms(1,2,3) by (intro name_passes) (auto simp: name_text_def)
  moreover have "passes stop st (u '': '')" using assms(2,4,5)
    by (intro passes_plain) (auto simp: u_def structural_def)
  ultimately show ?thesis using assms(6) by (simp add: passes_append)
qed

lemma fields_pass:
  assumes "list_all (\<lambda>(n, t). name_text n \<and> unambiguous t) fs" "neutral st"
    "\<And>c. name_char c \<Longrightarrow> \<not> stop c st" "\<not> stop 58 st" "\<not> stop 32 st" "\<not> stop 44 st"
    "\<And>n t. (n, t) \<in> set fs \<Longrightarrow> unambiguous t \<Longrightarrow> passes stop st (to_type_string enc t)"
  shows "passes stop st (join (u '', '') (map (printed enc) fs))"
proof (intro passes_join)
  fix x assume "x \<in> set (map (printed enc) fs)"
  then obtain n t where nt: "(n, t) \<in> set fs" "x = printed enc (n, t)" by auto
  then have ok: "name_text n" "unambiguous t" using assms(1) by (auto simp: list.pred_set)
  show "passes stop st x" unfolding nt(2)
    by (rule field_passes [OF ok(1) assms(2,3,4,5) assms(7) [OF nt(1) ok(2)]])
next
  show "passes stop st (u '', '')" using assms(2,5,6)
    by (intro passes_plain) (auto simp: u_def structural_def)
qed

lemma print_passes:
  assumes "json_string_codec dec enc"
  shows "unambiguous t \<Longrightarrow> neutral st \<Longrightarrow> sc_angle st = 0 \<or> \<not> contains_function_type t \<Longrightarrow>
     bars \<longrightarrow> \<not> bar_at_top t \<or> \<not> scan_top st \<Longrightarrow> passes (stop_char bars) st (to_type_string enc t)"
proof (induction t arbitrary: st bars)
  case EmptyRecord
  then show ?case by (simp add: passes_def u_def scan_step_def neutral_def stop_char_def)
next
  case (StringLiteral v)
  show ?case using codec_print [OF assms] StringLiteral(2) stop_char_string
    by (intro quoted_passes) (auto simp: stop_char_def simp del: to_type_string.simps)
next
  case (AnyInterface t)
  have "passes (stop_char bars) st (u ''any '')" using AnyInterface(3)
    by (intro passes_plain) (auto simp: u_def structural_def stop_char_def)
  then show ?case using AnyInterface by (auto intro!: passes_append)
next
  case (Named n args)
  have n: "passes (stop_char bars) st n" using Named(2,3) stop_char_name by (intro name_passes) (auto simp: name_text_def)
  let ?st = "st\<lparr>sc_angle := sc_angle st + 1\<rparr>"
  have st: "neutral ?st" "\<not> scan_top ?st" using Named(3) by (auto simp: neutral_def scan_top_def)
  have "passes (stop_char bars) ?st (join (u '', '') (map (\<lambda>a. to_type_string enc a) args))"
  proof (intro passes_join)
    fix x assume "x \<in> set (map (\<lambda>a. to_type_string enc a) args)"
    then obtain a where "a \<in> set args" "x = to_type_string enc a" by auto
    then show "passes (stop_char bars) ?st x" using Named(1) [of a ?st bars] Named(2) st by (auto simp: list.pred_set)
  next
    show "passes (stop_char bars) ?st (u '', '')" using st
      by (intro passes_plain) (auto simp: u_def structural_def stop_char_def)
  qed
  then have "passes (stop_char bars) st (u ''<'' @ join (u '', '') (map (\<lambda>a. to_type_string enc a) args) @ u ''>'')"
    using Named(3) by (intro passes_angle) (auto simp: stop_char_def)
  with n show ?case by (simp add: passes_append)
next
  case (Nullable t)
  have "passes (stop_char bars) st (u ''?'')" using Nullable(3)
    by (intro passes_plain) (auto simp: u_def structural_def stop_char_def)
  then show ?case using Nullable by (auto intro!: passes_append)
next
  case (Union ts)
  have bars: "bars \<longrightarrow> \<not> scan_top st" using Union(5) by simp
  have "passes (stop_char bars) st (u '' | '')" using Union(3) bars
    by (intro passes_plain) (auto simp: u_def structural_def stop_char_def)
  moreover have "passes (stop_char bars) st (to_type_string enc t)" if "t \<in> set ts" for t
    using Union(1) [OF that, of st bars] Union(2-4) bars that by (auto simp: list.pred_set list_ex_iff)
  ultimately show ?case by (auto intro!: passes_join)
next
  case (RecordType fs)
  let ?st = "st\<lparr>sc_brace := sc_brace st + 1\<rparr>"
  have st: "neutral ?st" "\<not> scan_top ?st" using RecordType(3) by (auto simp: neutral_def scan_top_def)
  have "passes (stop_char bars) ?st (to_type_string enc t)" if "(n, t) \<in> set fs" "unambiguous t" for n t
    using RecordType(1) [OF that(1), of t ?st bars] RecordType(4) that st by (auto simp: list_ex_iff)
  then have "passes (stop_char bars) ?st (join (u '', '') (map (printed enc) fs))"
    using RecordType(2) st stop_char_name by (intro fields_pass) (auto simp: stop_char_def)
  then show ?case unfolding to_type_string.simps to_type_string_fields
    by (rule passes_brace [OF RecordType(3)]) (simp add: stop_char_def)
next
  case (FunctionType ps r)
  let ?st = "st\<lparr>sc_paren := sc_paren st + 1\<rparr>"
  have angle: "sc_angle st = 0" using FunctionType(5) by simp
  have st: "neutral ?st" "\<not> scan_top ?st" using FunctionType(4) by (auto simp: neutral_def scan_top_def)
  have "passes (stop_char bars) ?st (to_type_string enc t)" if "(n, t) \<in> set ps" "unambiguous t" for n t
    using FunctionType(1) [OF that(1), of t ?st bars] that st angle by auto
  then have "passes (stop_char bars) ?st (join (u '', '') (map (printed enc) ps))"
    using FunctionType(3) st stop_char_name by (intro fields_pass) (auto simp: stop_char_def)
  then have paren: "passes (stop_char bars) st (u ''('' @ join (u '', '') (map (printed enc) ps) @ u '')'')"
    using FunctionType(4) by (intro passes_paren) (auto simp: stop_char_def scan_top_def)
  have fn: "passes (stop_char bars) st (u ''fn'')" using FunctionType(4)
    by (intro passes_plain) (auto simp: u_def structural_def stop_char_def)
  have arrow: "passes (stop_char bars) st (u '' -> '')" using FunctionType(4) angle
    by (intro passes_arrow) (auto simp: stop_char_def)
  have ret: "passes (stop_char bars) st (to_type_string enc r)"
    using FunctionType(2) [of st bars] FunctionType(3-6) angle by auto
  have shape: "to_type_string enc (FunctionType ps r) =
      u ''fn'' @ (u ''('' @ join (u '', '') (map (printed enc) ps) @ u '')'') @ u '' -> '' @ to_type_string enc r"
    by (simp add: u_def case_prod_unfold)
  show ?case unfolding shape by (intro passes_append fn arrow ret paren)
qed

section \<open>The shape of printed text\<close>

lemma name_tidy: "name_text n \<Longrightarrow> tidy n"
  by (auto simp: name_text_def tidy_def name_char_def list.pred_set)

lemma join_tidy: "xs \<noteq> [] \<Longrightarrow> (\<And>x. x \<in> set xs \<Longrightarrow> tidy x) \<Longrightarrow> tidy (join sep xs)"
proof (induction sep xs rule: join.induct)
  case (3 sep x y zs)
  then have "tidy x" "tidy (join sep (y # zs))" by auto
  then show ?case by (simp add: tidy_append)
qed auto

lemma tidy_extend: "tidy a \<Longrightarrow> b \<noteq> [] \<Longrightarrow> \<not> is_whitespace (last b) \<Longrightarrow> tidy (a @ b)"
  by (simp add: tidy_def)

lemma tidy_prepend: "tidy b \<Longrightarrow> a \<noteq> [] \<Longrightarrow> \<not> is_whitespace (hd a) \<Longrightarrow> tidy (a @ b)"
  by (simp add: tidy_def)

lemma quoted_tidy: "quoted e \<Longrightarrow> tidy e"
  by (auto simp: quoted_def tidy_def is_whitespace_def)

lemma print_tidy: "json_string_codec dec enc \<Longrightarrow> unambiguous t \<Longrightarrow> tidy (to_type_string enc t)"
proof (induction t)
  case (StringLiteral v)
  then show ?case using codec_print quoted_tidy by blast
next
  case (AnyInterface t)
  then show ?case by (auto simp: tidy_def u_def is_whitespace_def)
next
  case (Named n args)
  have "tidy (n @ (u ''<'' @ join (u '', '') (map (\<lambda>a. to_type_string enc a) args) @ u ''>''))" if "tidy n"
    using that by (rule tidy_extend) (simp_all add: u_def is_whitespace_def)
  then show ?case using Named name_tidy by auto
next
  case (Nullable t)
  then show ?case by (auto intro!: tidy_extend simp: u_def is_whitespace_def)
next
  case (Union ts)
  then show ?case by (auto intro!: join_tidy simp: list.pred_set)
next
  case (FunctionType ps r)
  then have "tidy (to_type_string enc r)" by simp
  from tidy_prepend [OF this, of "u ''fn('' @ join (u '', '') (map (printed enc) ps) @ u '') -> ''"]
  show ?case by (simp add: case_prod_unfold u_def is_whitespace_def)
qed (simp_all add: tidy_def u_def is_whitespace_def)

lemma print_last:
  assumes "json_string_codec dec enc"
  shows "unambiguous t \<Longrightarrow> \<not> bar_at_top t \<Longrightarrow> \<not> mark_at_end t \<Longrightarrow> last (to_type_string enc t) \<noteq> 63"
proof (induction t)
  case (StringLiteral v)
  then show ?case using codec_print [OF assms, of v] by (auto simp: quoted_def)
next
  case (AnyInterface t)
  then show ?case using print_tidy [OF assms, of t] by (auto simp: tidy_def)
next
  case (Named n args)
  then show ?case by (auto simp: u_def name_text_def name_char_def list.pred_set)
next
  case (FunctionType ps r)
  then show ?case using print_tidy [OF assms, of r] by (auto simp: tidy_def)
qed (simp_all add: u_def)

text \<open>A text that begins with a name does not begin with a keyword that ends in another character.\<close>

lemma name_not_prefix:
  assumes "name_text n" "r = [] \<or> hd r \<in> X" "\<not> name_char z" "set (q @ [z]) \<inter> X = {}"
  shows "strip_prefix (q @ [z]) (n @ r) = None"
proof (rule ccontr)
  assume "strip_prefix (q @ [z]) (n @ r) \<noteq> None"
  then have p: "take (length (q @ [z])) (n @ r) = q @ [z]" by (auto simp: strip_prefix_def split: if_splits)
  show False
  proof (cases "length q < length n")
    case True
    then have "(n @ r) ! length q = n ! length q" by (simp add: nth_append)
    moreover have "take (length (q @ [z])) (n @ r) ! length q = (n @ r) ! length q" by (rule nth_take) simp
    then have "(n @ r) ! length q = z" unfolding p by simp
    ultimately have "n ! length q = z" by simp
    then show False using True assms(1,3) by (auto simp: name_text_def list_all_length)
  next
    case False
    have "length (take (length (q @ [z])) (n @ r)) = length (q @ [z])" using p by simp
    then have "r \<noteq> []" using False by auto
    then have "hd r = take (length (q @ [z])) (n @ r) ! length n" using False by (simp add: hd_conv_nth nth_append)
    then have "hd r \<in> set (q @ [z])" unfolding p using False by (metis length_append_singleton less_Suc_eq_le not_less nth_mem)
    then show False using assms(2,4) \<open>r \<noteq> []\<close> by blast
  qed
qed

lemma prefix_hd: "strip_prefix (c # p) s = Some r \<Longrightarrow> s \<noteq> [] \<and> hd s = c"
  by (cases s) (auto simp: strip_prefix_def split: if_splits)

lemma print_not_fn:
  assumes "json_string_codec dec enc"
  shows "unambiguous t \<Longrightarrow> \<not> fn_at_start t \<Longrightarrow> r = [] \<or> hd r \<in> {60, 63, 32} \<Longrightarrow>
     strip_prefix (u ''fn('') (to_type_string enc t @ r) = None"
proof (induction t arbitrary: r)
  case (StringLiteral v)
  have "hd (to_type_string enc (StringLiteral v) @ r) = 34" using codec_print [OF assms, of v] by (auto simp: quoted_def)
  then show ?case using prefix_hd [of 102 "u ''n(''"] by (cases "strip_prefix (u ''fn('') (to_type_string enc (StringLiteral v) @ r)") (auto simp: u_def)
next
  case (Named n args)
  have "strip_prefix ([102, 110] @ [40]) (n @ r') = None" if "r' = [] \<or> hd r' \<in> {60, 63, 32}" for r'
    by (rule name_not_prefix [OF _ that]) (use Named(2) in \<open>auto simp: name_char_def structural_def\<close>)
  from this [of r] this [of "u ''<'' @ join (u '', '') (map (\<lambda>a. to_type_string enc a) args) @ u ''>'' @ r"]
  show ?case using Named(4) by (simp add: u_def)
next
  case (Nullable t)
  then show ?case using Nullable(1) [of "u ''?'' @ r"] by (simp add: u_def)
next
  case (Union ts)
  then obtain t t' ts' where ts: "ts = t # t' # ts'" by (cases ts rule: remdups_adj.cases) auto
  then show ?case
    using Union(1) [of t "u '' | '' @ join (u '' | '') (map (\<lambda>t. to_type_string enc t) (t' # ts')) @ r"] Union(2,3)
    by (simp add: u_def)
qed (auto simp: strip_prefix_def u_def)

text \<open>Inside one quoted string every proper part from the start is still open.\<close>

lemma closed_body_open:
  "closed_body b \<Longrightarrow> sc_in_string st \<Longrightarrow> \<not> sc_escaped st \<Longrightarrow> sc_in_string (fold scan_step (take k b) st)"
proof (induction b arbitrary: k st rule: closed_body.induct)
  case (2 c cs)
  show ?case
  proof (cases k)
    case (Suc j)
    show ?thesis
    proof (cases "c = 92")
      case True
      with 2(3) obtain e cs' where cs: "cs = e # cs'" "closed_body cs'" by (cases cs) auto
      have "sc_in_string (fold scan_step (take i cs') (st\<lparr>sc_escaped := False\<rparr>))" for i
        using 2(1) [of e cs' "st\<lparr>sc_escaped := False\<rparr>" i] True cs 2(4,5) by simp
      moreover have "scan_step c st = st\<lparr>sc_escaped := True\<rparr>"
          "scan_step e (st\<lparr>sc_escaped := True\<rparr>) = st\<lparr>sc_escaped := False\<rparr>"
        using True 2(4,5) by (auto simp: scan_step_def)
      ultimately show ?thesis using cs Suc 2(4) by (cases j) simp_all
    next
      case False
      then show ?thesis using 2(2) [of st j] 2(3-5) Suc by (simp add: scan_step_def split: if_splits)
    qed
  qed (simp add: 2)
qed simp

lemma quoted_open:
  assumes "quoted (a @ c)" "a \<noteq> []" "c \<noteq> []"
  shows "sc_in_string (fold scan_step a scan_start)"
proof -
  obtain b where b: "a @ c = 34 # b @ [34]" "closed_body b" using assms(1) by (auto simp: quoted_def)
  obtain a' where a: "a = 34 # a'" using b(1) assms(2) by (cases a) auto
  have "butlast (a @ c) = 34 # b" using b(1) by simp
  then have "a' @ butlast c = b" using a assms(3) by (simp add: butlast_append)
  then have "a' = take (length a') b" by auto
  then show ?thesis using closed_body_open [OF b(2), of "scan_step 34 scan_start" "length a'"] a
    by (simp add: scan_step_def scan_start_def)
qed

lemma neutral_start [simp]: "neutral scan_start" "sc_angle scan_start = 0" "scan_top scan_start"
  by (simp_all add: neutral_def scan_start_def scan_top_def)

lemma print_run:
  "json_string_codec dec enc \<Longrightarrow> unambiguous t \<Longrightarrow> fold scan_step (to_type_string enc t) scan_start = scan_start"
  using print_passes [of dec enc t scan_start False] by (simp add: passes_def)

lemma print_not_literal:
  assumes "json_string_codec dec enc" "unambiguous t" "\<And>v. t \<noteq> StringLiteral v"
  shows "string_literal dec (to_type_string enc t) = None"
proof -
  have "\<not> quoted (to_type_string enc t)"
  proof
    assume q: "quoted (to_type_string enc t)"
    then have hd: "hd (to_type_string enc t) = 34" by (auto simp: quoted_def)
    have no: False if "unambiguous t'" "to_type_string enc t = to_type_string enc t' @ c" "c \<noteq> []" for t' c
      using quoted_open [of "to_type_string enc t'" c] q that print_run [OF assms(1) that(1)] print_tidy [OF assms(1) that(1)]
      by (simp add: tidy_def neutral_start(1) [unfolded neutral_def])
    show False
    proof (cases t)
      case (Named n args)
      then have "hd n = 34" "name_text n" using hd assms(2) by (auto simp: name_text_def split: if_splits)
      then show False by (cases n) (auto simp: name_text_def name_char_def structural_def)
    next
      case (Nullable t')
      then show False using no [of t' "u ''?''"] assms(2) by (simp add: u_def)
    next
      case (Union ts)
      then obtain t1 t2 ts' where ts: "ts = t1 # t2 # ts'" using assms(2) by (cases ts rule: remdups_adj.cases) auto
      then show False
        using no [of t1 "u '' | '' @ join (u '' | '') (map (\<lambda>t. to_type_string enc t) (t2 # ts'))"] assms(2) Union
        by (simp add: u_def)
    qed (use hd assms(3) in \<open>auto simp: u_def\<close>)
  qed
  then have "dec (to_type_string enc t) = None"
    using assms(1) print_tidy [OF assms(1,2)] unfolding json_string_codec_def by (metis not_None_eq trim_tidy)
  then show ?thesis using print_tidy [OF assms(1,2)] by (simp add: string_literal_def Let_def)
qed

section \<open>Generic applications\<close>

lemma generic_append:
  "generic_loop i prev (a @ b) g =
     generic_loop (i + length a) (if a = [] then prev else Some (last a)) b (generic_loop i prev a g)"
  by (induction a arbitrary: i prev g) auto

definition generic_passes :: "ustring \<Rightarrow> bool" where
  "generic_passes s \<longleftrightarrow> s \<noteq> [] \<and> last s \<noteq> 45 \<and>
     (\<forall>i prev g. \<not> gs_in_string g \<and> \<not> gs_escaped g \<and> gs_angle g > 0 \<longrightarrow> generic_loop i prev s g = g)"

lemma generic_passes_append: "generic_passes a \<Longrightarrow> generic_passes b \<Longrightarrow> generic_passes (a @ b)"
  by (simp add: generic_passes_def generic_append)

lemma generic_passes_join:
  "xs \<noteq> [] \<Longrightarrow> (\<And>x. x \<in> set xs \<Longrightarrow> generic_passes x) \<Longrightarrow> generic_passes sep \<Longrightarrow> generic_passes (join sep xs)"
  by (induction sep xs rule: join.induct) (auto intro!: generic_passes_append)

lemma generic_plain:
  assumes "list_all (\<lambda>c. c \<notin> {34, 60, 62, 123, 125}) s" "\<not> gs_in_string g"
  shows "generic_loop i prev s g = g"
  using assms(1) by (induction s arbitrary: i prev) (use assms(2) in \<open>auto simp: generic_step_def\<close>)

lemma generic_passes_plain: "s \<noteq> [] \<Longrightarrow> list_all (\<lambda>c. c \<notin> {34, 60, 62, 123, 125, 45}) s \<Longrightarrow> generic_passes s"
  unfolding generic_passes_def using generic_plain [of s] by (auto simp: list.pred_set)

lemma generic_passes_name: "name_text n \<Longrightarrow> generic_passes n"
  by (intro generic_passes_plain) (auto simp: name_text_def name_char_def structural_def list.pred_set)

lemma generic_body:
  "closed_body b \<Longrightarrow> gs_in_string g \<Longrightarrow> \<not> gs_escaped g \<Longrightarrow> generic_loop i prev b g = g"
proof (induction b arbitrary: i prev rule: closed_body.induct)
  case (2 c cs)
  show ?case
  proof (cases "c = 92")
    case True
    with 2(3) obtain e cs' where "cs = e # cs'" "closed_body cs'" by (cases cs) auto
    moreover have same: "g\<lparr>gs_escaped := False\<rparr> = g" using 2(5) by (cases g) simp
    ultimately show ?thesis using 2(1) [of e cs'] True 2(4,5) by (simp add: generic_step_def same)
  next
    case False
    then show ?thesis using 2 by (simp add: generic_step_def split: if_splits)
  qed
qed simp

lemma generic_passes_quoted: "quoted e \<Longrightarrow> generic_passes e"
proof -
  assume "quoted e"
  then obtain b where b: "e = 34 # b @ [34]" "closed_body b" by (auto simp: quoted_def)
  have "generic_loop i prev e g = g" if "\<not> gs_in_string g" "\<not> gs_escaped g" for i prev g
  proof -
    let ?g = "g\<lparr>gs_in_string := True\<rparr>"
    have "generic_step i prev 34 g = ?g" "generic_step j prev' 34 ?g = g" for i j prev prev'
      using that by (auto simp: generic_step_def)
    then show ?thesis using b that by (simp add: generic_append generic_body)
  qed
  then show ?thesis using b(1) by (auto simp: generic_passes_def)
qed

lemma generic_passes_angle:
  assumes "generic_passes s"
  shows "generic_passes (u ''<'' @ s @ u ''>'')"
proof -
  have "generic_loop i prev (60 # s @ [62]) g = g" if g: "\<not> gs_in_string g" "\<not> gs_escaped g" "gs_angle g > 0" for i prev g
  proof (cases "gs_brace g = 0")
    case True
    let ?g = "g\<lparr>gs_angle := gs_angle g + 1\<rparr>"
    have "generic_step i prev 60 g = ?g" using g True by (cases g) (simp add: generic_step_def)
    moreover have "generic_loop j prev' s ?g = ?g" for j prev' using assms g by (simp add: generic_passes_def)
    moreover have "generic_step j (Some (last s)) 62 ?g = g" for j
      using assms g True by (cases g) (simp add: generic_step_def generic_passes_def)
    ultimately show ?thesis using assms by (simp add: generic_append generic_passes_def)
  next
    case False
    then have "generic_step j prev' 60 g = g" "generic_step j prev' 62 g = g" for j prev'
      using g by (auto simp: generic_step_def)
    then show ?thesis using assms g by (simp add: generic_append generic_passes_def)
  qed
  then show ?thesis by (simp add: generic_passes_def u_def)
qed

lemma generic_passes_brace:
  assumes "generic_passes s"
  shows "generic_passes (u ''{ '' @ s @ u '' }'')"
proof -
  have "generic_loop i prev (123 # 32 # s @ [32, 125]) g = g" if g: "\<not> gs_in_string g" "\<not> gs_escaped g" "gs_angle g > 0" for i prev g
  proof -
    let ?g = "g\<lparr>gs_brace := gs_brace g + 1\<rparr>"
    have "generic_step j prev' 123 g = ?g" "generic_step j prev' 32 ?g = ?g" "generic_step j prev' 125 ?g = g" for j prev'
      using g by (auto simp: generic_step_def)
    moreover have "generic_loop j prev' s ?g = ?g" for j prev' using assms g by (simp add: generic_passes_def)
    ultimately show ?thesis by (simp add: generic_append)
  qed
  then show ?thesis by (simp add: generic_passes_def u_def)
qed

lemma generic_passes_sep: "generic_passes (u '', '')" "generic_passes (u '' | '')" "generic_passes (u '': '')"
    "generic_passes (u ''any '')" "generic_passes (u ''?'')"
  by (auto intro!: generic_passes_plain simp: u_def)

lemma generic_passes_empty_record: "generic_passes (u ''{}'')"
  by (auto simp: generic_passes_def u_def generic_step_def)

lemma print_generic_passes:
  assumes "json_string_codec dec enc"
  shows "unambiguous t \<Longrightarrow> \<not> contains_function_type t \<Longrightarrow> generic_passes (to_type_string enc t)"
proof (induction t)
  case EmptyRecord
  then show ?case by (simp add: generic_passes_empty_record)
next
  case (StringLiteral v)
  then show ?case using codec_print [OF assms] generic_passes_quoted by blast
next
  case (AnyInterface t)
  then show ?case by (auto intro!: generic_passes_append generic_passes_sep)
next
  case (Named n args)
  then have n: "generic_passes n" by (simp add: generic_passes_name)
  show ?case
  proof (cases "args = []")
    case False
    then have "generic_passes (join (u '', '') (map (\<lambda>a. to_type_string enc a) args))"
      using Named by (intro generic_passes_join generic_passes_sep) (auto simp: list.pred_set)
    then show ?thesis using n False by (auto intro!: generic_passes_append generic_passes_angle)
  qed (simp add: n)
next
  case (Nullable t)
  then show ?case by (auto intro!: generic_passes_append generic_passes_sep)
next
  case (Union ts)
  then show ?case by (auto intro!: generic_passes_join generic_passes_sep simp: list.pred_set list_ex_iff)
next
  case (RecordType fs)
  have "generic_passes (printed enc p)" if "p \<in> set fs" for p
  proof -
    obtain n t where p: "p = (n, t)" by fastforce
    have "name_text n" "unambiguous t" "\<not> contains_function_type t"
      using RecordType(2,3) that p by (auto simp: list.pred_set list_ex_iff)
    then show ?thesis using RecordType(1) [OF that, of t] p
      by (auto intro!: generic_passes_append generic_passes_sep(3) dest: generic_passes_name)
  qed
  then have "generic_passes (join (u '', '') (map (printed enc) fs))"
    using RecordType(2) by (intro generic_passes_join generic_passes_sep) auto
  then show ?case unfolding to_type_string.simps to_type_string_fields by (rule generic_passes_brace)
qed simp

lemma delim_stop: "delim 44 c st \<Longrightarrow> stop_char bars c st" "delim 124 c st \<Longrightarrow> stop_char True c st"
  by (auto simp: delim_def stop_char_def)

lemma passes_mono: "passes stop st s \<Longrightarrow> (\<And>c st. stop' c st \<Longrightarrow> stop c st) \<Longrightarrow> passes stop' st s"
  unfolding passes_def using quiet_mono [of stop st s stop'] by blast

lemma print_passes_comma:
  "json_string_codec dec enc \<Longrightarrow> unambiguous t \<Longrightarrow> passes (delim 44) scan_start (to_type_string enc t)"
  by (rule passes_mono [OF print_passes [of dec enc t scan_start False]]) (auto simp: delim_stop)

lemma split_commas:
  assumes "xs \<noteq> []" "\<And>x. x \<in> set xs \<Longrightarrow> tidy x \<and> passes (delim 44) scan_start x"
  shows "split_top_level (join (u '', '') xs) 44 = xs"
  using split_join [of "[]" "[32]" 44 scan_start xs "[]"] assms
  by (auto simp: split_top_level_def u_def passes_def delim_def structural_def step_plain)

lemma split_bars:
  assumes "xs \<noteq> []" "\<And>x. x \<in> set xs \<Longrightarrow> tidy x \<and> passes (delim 124) scan_start x"
  shows "split_top_level (join (u '' | '') xs) 124 = xs"
  using split_join [of "[32]" "[32]" 124 scan_start xs "[]"] assms
  by (auto simp: split_top_level_def u_def passes_def delim_def structural_def step_plain)

lemma print_one_part:
  assumes "json_string_codec dec enc" "unambiguous t" "\<not> bar_at_top t"
  shows "split_top_level (to_type_string enc t) 124 = [to_type_string enc t]"
proof -
  have "passes (delim 124) scan_start (to_type_string enc t)"
    by (rule passes_mono [OF print_passes [of dec enc t scan_start True]]) (use assms in \<open>auto simp: delim_stop\<close>)
  then show ?thesis using split_bars [of "[to_type_string enc t]"] print_tidy [OF assms(1,2)] by simp
qed

lemma generic_parts_print:
  assumes "json_string_codec dec enc" "unambiguous (Named n args)" "args \<noteq> []"
  shows "generic_parts_of (to_type_string enc (Named n args)) =
    Some \<lparr>gp_root = n, gp_inner = join (u '', '') (map (\<lambda>a. to_type_string enc a) args), gp_args = map (\<lambda>a. to_type_string enc a) args\<rparr>"
proof -
  let ?xs = "map (\<lambda>a. to_type_string enc a) args"
  let ?s = "join (u '', '') ?xs"
  let ?g = "generic_start\<lparr>gs_open := Some (length n), gs_angle := 1\<rparr>"
  have name: "name_text n" using assms(2) by simp
  have n: "generic_loop i prev n generic_start = generic_start" for i prev
    using name by (intro generic_plain) (auto simp: name_text_def name_char_def structural_def list.pred_set generic_start_def)
  have s: "generic_passes ?s" using assms print_generic_passes [OF assms(1)]
    by (intro generic_passes_join generic_passes_sep) (auto simp: list.pred_set)
  have run: "generic_loop i prev ?s ?g = ?g" for i prev
    using s by (simp add: generic_passes_def generic_start_def)
  have whole: "to_type_string enc (Named n args) = n @ [60] @ ?s @ [62]" using assms(3) by (simp add: u_def)
  have "generic_loop 0 None (n @ [60] @ ?s @ [62]) generic_start =
      ?g\<lparr>gs_angle := 0, gs_close := Some (length n + 1 + length ?s)\<rparr>"
  proof -
    have "generic_step (length n) prev 60 generic_start = ?g" for prev by (simp add: generic_step_def generic_start_def)
    moreover have "generic_step i (Some (last ?s)) 62 ?g = ?g\<lparr>gs_angle := 0, gs_close := Some i\<rparr>" for i
      using s by (simp add: generic_step_def generic_start_def generic_passes_def)
    ultimately show ?thesis using n run s by (simp add: generic_append generic_passes_def)
  qed
  moreover have "tidy ?s" using assms(2,3) print_tidy [OF assms(1)] by (intro join_tidy) (auto simp: list.pred_set)
  moreover have "split_top_level ?s 44 = ?xs"
    using assms(2,3) print_passes_comma [OF assms(1)] print_tidy [OF assms(1)]
    by (intro split_commas) (auto simp: list.pred_set)
  moreover have "trim n = n" "trim (n @ [60] @ ?s @ [62]) = n @ [60] @ ?s @ [62]"
    using name_tidy [OF name] print_tidy [OF assms(1,2)] whole by auto
  ultimately show ?thesis unfolding whole by (simp add: generic_parts_of_def Let_def)
qed

section \<open>Fields and parameters\<close>

lemma printed_tidy:
  "json_string_codec dec enc \<Longrightarrow> name_text n \<Longrightarrow> unambiguous t \<Longrightarrow> tidy (printed enc (n, t))"
  using print_tidy [of dec enc t] name_tidy [of n] by (simp add: tidy_append)

lemma field_print:
  assumes "json_string_codec dec enc" "name_text n" "unambiguous t"
  shows "split_record_type_field (printed enc (n, t)) = Some (n, to_type_string enc t)"
    and "split_top_level_once (printed enc (n, t)) 58 = Some (n, to_type_string enc t)"
proof -
  have name: "quiet stop scan_start n \<and> fold scan_step n scan_start = scan_start"
    if "\<And>c. name_char c \<Longrightarrow> \<not> stop c scan_start" for stop
    using name_passes [of n scan_start stop] assms(2) that by (auto simp: name_text_def passes_def)
  have trims: "trim n = n" "trim (32 # to_type_string enc t) = to_type_string enc t"
    using name_tidy [OF assms(2)] trim_spaces [of "[32]" "to_type_string enc t" "[]"] print_tidy [OF assms(1,3)] by auto
  show "split_record_type_field (printed enc (n, t)) = Some (n, to_type_string enc t)"
    using name [of "\<lambda>c st. c = 58 \<and> \<not> sc_in_string st \<and> sc_angle st = 0 \<and> sc_brace st = 0"] trims
    by (simp add: split_record_type_field_def find_top_quiet u_def name_char_def) (simp add: scan_start_def)
  show "split_top_level_once (printed enc (n, t)) 58 = Some (n, to_type_string enc t)"
    using name [of "delim 58"] trims
    by (simp add: split_top_level_once_def find_top_quiet u_def name_char_def delim_def structural_def)
qed

lemma split_printed:
  assumes "json_string_codec dec enc" "fs \<noteq> []" "list_all (\<lambda>(n, t). name_text n \<and> unambiguous t) fs"
  shows "split_top_level (join (u '', '') (map (printed enc) fs)) 44 = map (printed enc) fs"
proof (rule split_commas)
  fix x assume "x \<in> set (map (printed enc) fs)"
  then obtain n t where x: "x = printed enc (n, t)" "name_text n" "unambiguous t"
    using assms(3) by (auto simp: list.pred_set)
  have "passes (delim 44) scan_start (printed enc (n, t))"
    by (rule field_passes) (use x(2) print_passes_comma [OF assms(1) x(3)] in \<open>auto simp: delim_def name_char_def\<close>)
  then show "tidy x \<and> passes (delim 44) scan_start x" using x printed_tidy [OF assms(1)] by simp
qed (simp add: assms(2))

lemma join_printed_tidy:
  assumes "json_string_codec dec enc" "fs \<noteq> []" "list_all (\<lambda>(n, t). name_text n \<and> unambiguous t) fs"
  shows "tidy (join (u '', '') (map (printed enc) fs))"
proof (rule join_tidy)
  fix x assume "x \<in> set (map (printed enc) fs)"
  then show "tidy x" using assms(3) printed_tidy [OF assms(1)] by (auto simp: list.pred_set)
qed (simp add: assms(2))

abbreviation field_texts :: "(ustring \<Rightarrow> ustring option) \<Rightarrow> (ustring \<times> type_expr) list \<Rightarrow> (ustring \<times> ustring) list" where
  "field_texts enc \<equiv> map (\<lambda>(n, t). (n, to_type_string enc t))"

lemma collect_print:
  assumes "json_string_codec dec enc"
  shows "list_all (\<lambda>(n, t). name_text n \<and> unambiguous t) fs \<Longrightarrow> collect_fields (map (printed enc) fs) = Inr (field_texts enc fs)"
proof (induction fs)
  case (Cons p fs)
  obtain n t where "p = (n, t)" by fastforce
  then show ?case using Cons field_print(1) [OF assms, of n t] by simp
qed simp

lemma params_print:
  assumes "json_string_codec dec enc"
  shows "list_all (\<lambda>(n, t). name_text n \<and> unambiguous t) fs \<Longrightarrow> function_param_texts (map (printed enc) fs) = Some (field_texts enc fs)"
proof (induction fs)
  case (Cons p fs)
  obtain n t where p: "p = (n, t)" by fastforce
  then have ok: "name_text n" "unambiguous t" using Cons(2) by auto
  have "trim (printed enc (n, t)) = printed enc (n, t)" "printed enc (n, t) \<noteq> []"
    using printed_tidy [OF assms ok] by (auto simp: tidy_def)
  then show ?case using Cons p field_print(2) [OF assms ok] by (simp add: Let_def)
qed simp

lemma record_print:
  assumes "json_string_codec dec enc" "unambiguous (RecordType fs)"
  shows "record_type_fields (to_type_string enc (RecordType fs)) = Some (field_texts enc fs)"
proof -
  let ?s = "join (u '', '') (map (printed enc) fs)"
  have ok: "fs \<noteq> []" "list_all (\<lambda>(n, t). name_text n \<and> unambiguous t) fs" using assms(2) by auto
  have "to_type_string enc (RecordType fs) = 123 # 32 # ?s @ [32, 125]"
    by (simp add: u_def case_prod_unfold)
  moreover have "trim (to_type_string enc (RecordType fs)) = to_type_string enc (RecordType fs)"
    using print_tidy [OF assms] by (rule trim_tidy)
  moreover have "trim (32 # ?s @ [32]) = ?s" using trim_spaces [of "[32]" ?s "[32]"] join_printed_tidy [OF assms(1) ok] by simp
  ultimately have "braces_inner (to_type_string enc (RecordType fs)) = Some ?s"
    by (simp add: braces_inner_def strip_prefix_def strip_suffix_char_def butlast_append)
  moreover have "?s \<noteq> []" using join_printed_tidy [OF assms(1) ok] by (simp add: tidy_def)
  ultimately show ?thesis
    using split_printed [OF assms(1) ok] collect_print [OF assms(1) ok(2)]
    by (simp add: record_type_fields_def parse_record_type_fields_def)
qed

lemma function_print:
  assumes "json_string_codec dec enc" "unambiguous (FunctionType ps r)"
  shows "function_type_parts (to_type_string enc (FunctionType ps r)) = Some (field_texts enc ps, to_type_string enc r)"
proof -
  let ?s = "join (u '', '') (map (printed enc) ps)"
  let ?r = "to_type_string enc r"
  have ok: "list_all (\<lambda>(n, t). name_text n \<and> unambiguous t) ps" "unambiguous r" using assms(2) by auto
  have shape: "to_type_string enc (FunctionType ps r) = u ''fn('' @ ?s @ 41 # 32 # u ''->'' @ 32 # ?r"
    by (simp add: u_def case_prod_unfold)
  let ?stop = "\<lambda>c st. c = 41 \<and> scan_top st"
  have "passes ?stop scan_start (to_type_string enc t)" if "unambiguous t" for t
    by (rule passes_mono [OF print_passes [of dec enc t scan_start False]]) (use that assms(1) in \<open>auto simp: stop_char_def\<close>)
  then have "passes ?stop scan_start ?s"
    using ok(1) by (intro fields_pass) (auto simp: name_char_def structural_def)
  then have find: "find_top ?stop scan_start [] (?s @ 41 # 32 # u ''->'' @ 32 # ?r) = Some (?s, 32 # u ''->'' @ 32 # ?r)"
    by (simp add: find_top_quiet passes_def)
  have params: "function_type_params (trim ?s) = Some (field_texts enc ps)"
  proof (cases "ps = []")
    case True
    then show ?thesis by (simp add: function_type_params_def trim_def trim_start_def trim_end_def)
  next
    case False
    then show ?thesis using join_printed_tidy [OF assms(1) False ok(1)] split_printed [OF assms(1) False ok(1)]
        params_print [OF assms(1) ok(1)] by (simp add: function_type_params_def) (simp add: tidy_def)
  qed
  have ret: "trim (32 # ?r) = ?r" "?r \<noteq> []"
    using trim_spaces [of "[32]" ?r "[]"] print_tidy [OF assms(1) ok(2)] by (auto simp: tidy_def)
  have "strip_prefix (u ''fn('') (to_type_string enc (FunctionType ps r)) = Some (?s @ 41 # 32 # u ''->'' @ 32 # ?r)"
    unfolding shape by (simp add: strip_prefix_def)
  moreover have "strip_prefix (u ''->'') (trim_start (32 # u ''->'' @ 32 # ?r)) = Some (32 # ?r)"
    by (simp add: strip_prefix_def trim_start_def u_def is_whitespace_def)
  ultimately show ?thesis using find params ret print_tidy [OF assms]
    by (simp add: function_type_parts_def Let_def del: to_type_string.simps)
qed

section \<open>The round trip\<close>

lemma print_no_function:
  assumes "json_string_codec dec enc" "unambiguous t" "\<not> fn_at_start t"
  shows "function_type_parts (to_type_string enc t) = None"
  using print_not_fn [OF assms, of "[]"] print_tidy [OF assms(1,2)] by (simp add: function_type_parts_def)

lemma name_hd: "name_text n \<Longrightarrow> name_char (hd n)"
  by (cases n) (auto simp: name_text_def)

text \<open>The branches of the parser that a printed text does not take.\<close>

lemma parse_not_taken:
  assumes "json_string_codec dec enc" "unambiguous t" "\<not> fn_at_start t" "\<And>v. t \<noteq> StringLiteral v" "t \<noteq> EmptyRecord"
  shows "trim (to_type_string enc t) = to_type_string enc t" "to_type_string enc t \<noteq> []"
    "to_type_string enc t \<noteq> u ''{}''" "string_literal dec (to_type_string enc t) = None"
    "function_type_parts (to_type_string enc t) = None"
proof -
  show "trim (to_type_string enc t) = to_type_string enc t" "to_type_string enc t \<noteq> []"
    using print_tidy [OF assms(1,2)] by (auto simp: tidy_def)
  show "string_literal dec (to_type_string enc t) = None" by (rule print_not_literal [OF assms(1,2,4)])
  show "function_type_parts (to_type_string enc t) = None" by (rule print_no_function [OF assms(1,2,3)])
  show "to_type_string enc t \<noteq> u ''{}''"
  proof (cases t)
    case (Named n args)
    then have "name_char (hd n)" "n \<noteq> []" using assms(2) name_hd by (auto simp: name_text_def)
    then show ?thesis using Named by (cases n) (auto simp: u_def name_char_def structural_def)
  next
    case (Nullable t')
    then show ?thesis by (auto simp: u_def dest: arg_cong [where f = last])
  next
    case (Union ts)
    then obtain t1 t2 ts' where "ts = t1 # t2 # ts'" using assms(2) by (cases ts rule: remdups_adj.cases) auto
    then show ?thesis using Union by (auto simp: u_def dest: arg_cong [where f = length])
  qed (use assms in \<open>auto simp: u_def\<close>)
qed

lemma parse_print_parts:
  "(\<And>n t. (n, t) \<in> set fs \<Longrightarrow> parse_type dec (to_type_string enc t) = t) \<Longrightarrow>
     map ((\<lambda>(n, t). (n, parse_type dec t)) \<circ> (\<lambda>(n, t). (n, to_type_string enc t))) fs = fs"
  by (induction fs) auto

lemma parse_print:
  assumes "json_string_codec dec enc"
  shows "unambiguous t \<Longrightarrow> parse_type dec (to_type_string enc t) = t"
proof (induction t)
  case EmptyRecord
  have "trim (u ''{}'') = u ''{}''" by (rule trim_tidy) (simp add: tidy_def u_def is_whitespace_def)
  then show ?case by (subst parse_type.simps) (simp add: u_def)
next
  case (StringLiteral v)
  let ?s = "to_type_string enc (StringLiteral v)"
  have s: "tidy ?s" "hd ?s = 34" "last ?s = 34" "dec ?s = Some v"
    using codec_print [OF assms, of v] quoted_tidy by (auto simp: quoted_def simp del: to_type_string.simps)
  then have "string_literal dec ?s = Some v" "?s \<noteq> []" "?s \<noteq> u ''{}''"
    by (auto simp: string_literal_def Let_def tidy_def u_def simp del: to_type_string.simps)
  then show ?case using s(1) by (subst parse_type.simps) (simp del: to_type_string.simps)
next
  case (AnyInterface t)
  note no = parse_not_taken [OF assms AnyInterface(2)]
  have t: "unambiguous t" "\<not> bar_at_top t" "\<not> mark_at_end t" using AnyInterface(2) by auto
  have "strip_suffix_char 63 (to_type_string enc (AnyInterface t)) = None"
    using print_last [OF assms AnyInterface(2)] t by (auto simp: strip_suffix_char_def)
  moreover have "strip_prefix (u ''any '') (to_type_string enc (AnyInterface t)) = Some (to_type_string enc t)"
    by (simp add: strip_prefix_def)
  moreover have "trim (to_type_string enc t) = to_type_string enc t" using print_tidy [OF assms t(1)] by simp
  ultimately show ?case
    using AnyInterface(1) no print_one_part [OF assms AnyInterface(2)] t
    by (subst parse_type.simps) (simp add: Let_def del: to_type_string.simps)
next
  case (Named n args)
  note no = parse_not_taken [OF assms Named(2)]
  let ?s = "to_type_string enc (Named n args)"
  have name: "name_text n" using Named(2) by simp
  have suffix: "strip_suffix_char 63 ?s = None"
    using print_last [OF assms Named(2)] by (auto simp: strip_suffix_char_def)
  have hd: "name_char (hd ?s)" using name_hd [OF name] name by (auto simp: name_text_def)
  then have "hd ?s \<noteq> 123" by (auto simp: name_char_def structural_def)
  then have fields: "record_type_fields ?s = None"
    using no(1) prefix_hd [of 123 "[]" ?s] by (cases "strip_prefix [123] ?s")
      (auto simp: record_type_fields_def parse_record_type_fields_def braces_inner_def simp del: to_type_string.simps)
  have "strip_prefix (u ''any'' @ [32]) (n @ r) = None" if "r = [] \<or> hd r \<in> {60}" for r
    by (rule name_not_prefix [OF name that]) (auto simp: u_def name_char_def)
  from this [of "[]"] this [of "u ''<'' @ join (u '', '') (map (\<lambda>a. to_type_string enc a) args) @ u ''>''"]
  have any: "strip_prefix (u ''any '') ?s = None" by (simp add: u_def)
  have args: "map (parse_type dec \<circ> to_type_string enc) args = args"
    using Named by (intro map_idI) (auto simp: list.pred_set)
  show ?case
  proof (cases "args = []")
    case True
    have "generic_loop 0 None n generic_start = generic_start"
      using name by (intro generic_plain) (auto simp: name_text_def name_char_def structural_def list.pred_set generic_start_def)
    then have "generic_parts_of n = None"
      using name_tidy [OF name] by (simp add: generic_parts_of_def Let_def) (simp add: generic_start_def)
    then show ?thesis using True suffix fields any no print_one_part [OF assms Named(2)]
      by (subst parse_type.simps) (simp add: Let_def opaque_def)
  next
    case False
    then show ?thesis using suffix fields any no print_one_part [OF assms Named(2)] args
        generic_parts_print [OF assms Named(2)]
      by (subst parse_type.simps) (simp add: Let_def del: to_type_string.simps)
  qed
next
  case (Nullable t)
  note no = parse_not_taken [OF assms Nullable(2)]
  have "strip_suffix_char 63 (to_type_string enc (Nullable t)) = Some (to_type_string enc t)"
    by (simp add: strip_suffix_char_def u_def)
  then show ?case using Nullable no print_one_part [OF assms Nullable(2)]
    by (subst parse_type.simps) (simp add: Let_def del: to_type_string.simps)
next
  case (Union ts)
  note no = parse_not_taken [OF assms Union(2)]
  let ?xs = "map (\<lambda>t. to_type_string enc t) ts"
  have "passes (delim 124) scan_start (to_type_string enc t)" if "t \<in> set ts" for t
    by (rule passes_mono [OF print_passes [of dec enc t scan_start True]])
      (use assms Union(2) that in \<open>auto simp: delim_stop list.pred_set\<close>)
  then have "split_top_level (join (u '' | '') ?xs) 124 = ?xs"
    using Union(2) print_tidy [OF assms] by (intro split_bars) (auto simp: list.pred_set)
  moreover have "map (parse_type dec \<circ> to_type_string enc) ts = ts"
    using Union by (intro map_idI) (auto simp: list.pred_set)
  ultimately show ?case using no Union(2)
    by (subst parse_type.simps) (simp add: Let_def)
next
  case (RecordType fs)
  note no = parse_not_taken [OF assms RecordType(2)]
  let ?s = "to_type_string enc (RecordType fs)"
  have "strip_suffix_char 63 ?s = None" using print_last [OF assms RecordType(2)] by (auto simp: strip_suffix_char_def)
  moreover have "strip_prefix (u ''any '') ?s = None" by (simp add: strip_prefix_def u_def)
  moreover have "map ((\<lambda>(n, t). (n, parse_type dec t)) \<circ> (\<lambda>(n, t). (n, to_type_string enc t))) fs = fs"
    using RecordType by (intro parse_print_parts) (auto simp: list.pred_set)
  ultimately show ?case using no print_one_part [OF assms RecordType(2)] record_print [OF assms RecordType(2)] RecordType(2)
    by (subst parse_type.simps) (simp add: Let_def del: to_type_string.simps)
next
  case (FunctionType ps r)
  let ?s = "to_type_string enc (FunctionType ps r)"
  have s: "trim ?s = ?s" "?s \<noteq> []" "?s \<noteq> u ''{}''" using print_tidy [OF assms FunctionType(3)] by (auto simp: u_def tidy_def)
  have "string_literal dec ?s = None" by (rule print_not_literal [OF assms FunctionType(3)]) simp
  moreover have "map ((\<lambda>(n, t). (n, parse_type dec t)) \<circ> (\<lambda>(n, t). (n, to_type_string enc t))) ps = ps"
    using FunctionType(1,3) by (intro parse_print_parts) (auto simp: list.pred_set)
  ultimately show ?case using s function_print [OF assms FunctionType(3)] FunctionType(2,3)
    by (subst parse_type.simps) (simp add: Let_def del: to_type_string.simps)
qed

lemma parse_trim: "trim a = trim b \<Longrightarrow> parse_type dec a = parse_type dec b"
  by (simp add: parse_type.simps [of dec a] parse_type.simps [of dec b])

section \<open>A codec\<close>

text \<open>The fallback escaping of the printer, with its inverse, is such a codec.\<close>

fun demo_unescape :: "ustring \<Rightarrow> ustring" where
  "demo_unescape [] = []"
| "demo_unescape [c] = [c]"
| "demo_unescape (c # e # cs) = (if c = 92 then e # demo_unescape cs else c # demo_unescape (e # cs))"

definition demo_enc :: "ustring \<Rightarrow> ustring option" where
  "demo_enc v = Some (escape_string v)"

definition demo_dec :: "ustring \<Rightarrow> ustring option" where
  "demo_dec s =
     (let b = butlast (tl s)
      in if s = 34 # b @ [34] \<and> closed_body b then Some (demo_unescape b) else None)"

lemma escape_body:
  "closed_body (replace_char 34 [92, 34] (replace_char 92 [92, 92] v)) \<and>
   demo_unescape (replace_char 34 [92, 34] (replace_char 92 [92, 92] v)) = v"
proof (induction v)
  case (Cons c v)
  let ?e = "\<lambda>v. replace_char 34 [92, 34] (replace_char 92 [92, 92] v)"
  have step: "?e (c # v) = (if c = 92 then [92, 92] else if c = 34 then [92, 34] else [c]) @ ?e v"
    by (simp add: replace_char_def)
  have "demo_unescape (c # w) = c # demo_unescape w" if "c \<noteq> 92" for w using that by (cases w) auto
  then show ?case using Cons unfolding step by simp
qed (simp add: replace_char_def)

lemma demo_codec: "json_string_codec demo_dec demo_enc"
proof -
  have "quoted (trim x)" if "demo_dec x = Some v" for x v
  proof -
    have "quoted x" using that by (auto simp: demo_dec_def quoted_def Let_def split: if_splits)
    then show ?thesis using quoted_tidy by simp
  qed
  moreover have "\<exists>e. demo_enc v = Some e \<and> demo_dec e = Some v \<and> quoted e" for v
    using escape_body [of v] by (auto simp: demo_enc_def demo_dec_def escape_string_def quoted_def Let_def)
  ultimately show ?thesis by (auto simp: json_string_codec_def)
qed

section \<open>Properties\<close>

text \<open>C29: A type whose printed text is unambiguous is read back from that text, with any white space around
  it, as the same type: for every codec of string literals that reads back what it writes and reads
  nothing but one quoted string.\<close>

theorem type_roundtrip:
  assumes "json_string_codec dec enc" "unambiguous t" "list_all is_whitespace a" "list_all is_whitespace b"
  shows "parse_type dec (a @ to_type_string enc t @ b) = t"
proof -
  have "tidy (to_type_string enc t)" by (rule print_tidy [OF assms(1,2)])
  then have "trim (a @ to_type_string enc t @ b) = trim (to_type_string enc t)"
    using trim_spaces [OF assms(3) _ assms(4)] by simp
  then show ?thesis using parse_trim parse_print [OF assms(1,2)] by metis
qed

definition demo_type :: type_expr where
  "demo_type = FunctionType
     [(u ''f'', FunctionType [] (Nullable (Named (u ''T'') []))),
      (u ''m'', Named (u ''Map'') [Named (u ''string'') [], Union [StringLiteral (u ''a|b''), Nullable (AnyInterface (Named (u ''I'') []))]])]
     (Union [RecordType [(u ''x'', EmptyRecord)], Named (u ''B'') []])"

theorem type_roundtrip_witness:
  "to_type_string demo_enc demo_type =
     u ''fn(f: fn() -> T?, m: Map<string, '' @ [34] @ u ''a|b'' @ [34] @ u '' | any I?>) -> { x: {} } | B'' \<and>
   parse_type demo_dec ([32] @ to_type_string demo_enc demo_type @ [10]) = demo_type"
proof (rule conjI)
  show "to_type_string demo_enc demo_type =
     u ''fn(f: fn() -> T?, m: Map<string, '' @ [34] @ u ''a|b'' @ [34] @ u '' | any I?>) -> { x: {} } | B''"
    by (simp add: demo_type_def demo_enc_def escape_string_def replace_char_def u_def)
  show "parse_type demo_dec ([32] @ to_type_string demo_enc demo_type @ [10]) = demo_type"
    by (rule type_roundtrip [OF demo_codec])
      (simp_all add: demo_type_def u_def name_text_def name_char_def is_whitespace_def structural_def)
qed

text \<open>The arrow of a function type inside angle brackets closes an angle bracket for the splitters: a pair
  of a function type and a union is printed as a text that is read as a union of two names.\<close>

theorem arrow_closes_angle:
  "parse_type dec (to_type_string enc
     (Named (u ''Pair'') [FunctionType [] (Named (u ''A'') []), Union [Named (u ''B'') [], Named (u ''C'') []]])) =
   Union [Named (u ''Pair<fn() -> A, B'') [], Named (u ''C>'') []]"
proof -
  have s: "to_type_string enc (Named (u ''Pair'') [FunctionType [] (Named (u ''A'') []), Union [Named (u ''B'') [], Named (u ''C'') []]]) =
      u ''Pair<fn() -> A, B | C>''" by (simp add: u_def)
  note eval = u_def split_top_level_def scan_start_def scan_step_def delim_def structural_def scan_top_def trim_def
    trim_start_def trim_end_def is_whitespace_def string_literal_def function_type_parts_def strip_prefix_def
    strip_suffix_char_def record_type_fields_def parse_record_type_fields_def braces_inner_def generic_parts_of_def
    generic_start_def generic_step_def opaque_def
  have "parse_type dec (u ''Pair<fn() -> A, B'') = Named (u ''Pair<fn() -> A, B'') []"
    by (subst parse_type.simps) (simp add: eval)
  moreover have "parse_type dec (u ''C>'') = Named (u ''C>'') []"
    by (subst parse_type.simps) (simp add: eval)
  moreover have "split_top_level (u ''Pair<fn() -> A, B | C>'') 124 = [u ''Pair<fn() -> A, B'', u ''C>'']"
    by (simp add: eval)
  moreover have "trim (u ''Pair<fn() -> A, B | C>'') = u ''Pair<fn() -> A, B | C>''"
      "string_literal dec (u ''Pair<fn() -> A, B | C>'') = None"
      "function_type_parts (u ''Pair<fn() -> A, B | C>'') = None" by (simp_all add: eval)
  ultimately show ?thesis unfolding s by (subst parse_type.simps) (simp add: Let_def u_def)
qed

section \<open>Traversals\<close>

text \<open>The state of the renaming closure goes through the names in the order in which the visitor meets
  them, and the renamed type has the results in that order.\<close>

primrec thread :: "(ustring \<Rightarrow> 's \<Rightarrow> ustring \<times> 's) \<Rightarrow> ustring list \<Rightarrow> 's \<Rightarrow> ustring list \<times> 's" where
  "thread f [] s = ([], s)"
| "thread f (n # ns) s = (let (n', s1) = f n s; (ns', s2) = thread f ns s1 in (n' # ns', s2))"

lemma thread_append:
  "thread f (a @ b) s = (let (a', s1) = thread f a s; (b', s2) = thread f b s1 in (a' @ b', s2))"
  by (induction a arbitrary: s) (auto simp: Let_def split: prod.splits)

lemma map_named_threads:
  "map_prod visit_named id (map_named_types f t s) = thread f (visit_named t) s"
  "map_prod (\<lambda>ts. concat (map visit_named ts)) id (map_named_list f ts s) = thread f (concat (map visit_named ts)) s"
  "map_prod (\<lambda>fs. concat (map (\<lambda>(n, t). visit_named t) fs)) id (map_named_fields f fs s) =
     thread f (concat (map (\<lambda>(n, t). visit_named t) fs)) s"
proof (induction f t s and f ts s and f fs s rule: map_named_types_map_named_list_map_named_fields.induct)
qed (auto simp: thread_append Let_def split: prod.splits)

text \<open>Renaming the names of a type calls the renaming function on exactly the names the visitor visits,
  in the same order and with the state of the calls before, and the names of the renamed type are the
  results in that order.\<close>

theorem renaming_visits_names:
  "map_named_types f t s = (t', s') \<Longrightarrow> thread f (visit_named t) s = (visit_named t', s')"
  using map_named_threads(1) [of f t s] by simp

theorem renaming_visits_names_witness:
  "thread (\<lambda>n k. (n @ [k], k + 1)) (visit_named (FunctionType [(u ''p'', Named (u ''A'') [Named (u ''B'') []])] (Named (u ''C'') []))) 48 =
     ([u ''A0'', u ''B1'', u ''C2''], 51)"
proof -
  have "map_named_types (\<lambda>n k. (n @ [k], k + 1)) (FunctionType [(u ''p'', Named (u ''A'') [Named (u ''B'') []])] (Named (u ''C'') [])) 48 =
      (FunctionType [(u ''p'', Named (u ''A0'') [Named (u ''B1'') []])] (Named (u ''C2'') []), 51)"
    by (simp add: u_def)
  from renaming_visits_names [OF this] show ?thesis by simp
qed

end
