(* ===== verification/Syntax_Type_Parser.thy ===== *)
theory Syntax_Type_Parser
  imports Syntax_Cursor Syntax_Type_Roundtrip
begin

text \<open>
  The type grammar of the parser (\<open>syntax/src/parser/type.rs\<close> and \<open>parse_params\<close> of \<open>decl.rs\<close>), which
  turns tokens into the text of a type. Where the code calls \<open>parse_type\<close> again, the functions take the
  parser for the nested type as the argument \<open>pt\<close>; nesting and loops count down \<open>n\<close>, and
  \<open>parse_source_type\<close> starts with one more than the tokens that are left, which is always enough.
\<close>

section \<open>The grammar functions\<close>

definition pbind :: "parse_failure + 'a \<Rightarrow> ('a \<Rightarrow> parse_failure + 'b) \<Rightarrow> parse_failure + 'b" where
  "pbind r f = (case r of Inl e \<Rightarrow> Inl e | Inr x \<Rightarrow> f x)"

lemma pbind_simps [simp]: "pbind (Inl e) f = Inl e" "pbind (Inr x) f = f x"
  by (simp_all add: pbind_def)

definition quote_char :: "uchar \<Rightarrow> ustring" where
  "quote_char c =
     (if c = 34 then [92, 34] else if c = 92 then [92, 92] else if c = 10 then [92, 110]
      else if c = 13 then [92, 114] else if c = 9 then [92, 116] else [c])"

definition quote_string_type :: "ustring \<Rightarrow> ustring" where
  "quote_string_type v = [34] @ concat (map quote_char v) @ [34]"

datatype param_mode = ParamValue | ParamInOut

record param =
  pm_name :: ustring
  pm_mode :: param_mode
  pm_ty :: ustring

type_synonym 'f type_parser = "'f parser \<Rightarrow> parse_failure + ustring \<times> 'f parser"

primrec mark_loop :: "nat \<Rightarrow> ustring \<Rightarrow> 'f type_parser" where
  "mark_loop 0 name p = Inl OutOfFuel"
| "mark_loop (Suc n) name p =
     (let (mark, p1) = match_symbol ''?'' p in if mark then mark_loop n (name @ u ''?'') p1 else Inr (name, p1))"

primrec segment_loop :: "nat \<Rightarrow> ustring \<Rightarrow> 'f type_parser" where
  "segment_loop 0 name p = Inl OutOfFuel"
| "segment_loop (Suc n) name p =
     (let (dot, p1) = match_symbol ''.'' p
      in if dot
         then pbind (expect_ident ''expected qualified type segment'' p1) (\<lambda>(seg, p2). segment_loop n (name @ u ''.'' @ seg) p2)
         else Inr (name, p1))"

primrec type_args_loop :: "'f type_parser \<Rightarrow> nat \<Rightarrow> ustring \<Rightarrow> 'f type_parser" where
  "type_args_loop pt 0 name p = Inl OutOfFuel"
| "type_args_loop pt (Suc n) name p =
     pbind (pt p) (\<lambda>(t, p1).
       let (comma, p2) = match_symbol '','' p1
       in if comma then type_args_loop pt n (name @ t @ u '', '') p2 else Inr (name @ t, p2))"

primrec params_loop :: "'f type_parser \<Rightarrow> nat \<Rightarrow> param list \<Rightarrow> 'f parser \<Rightarrow> parse_failure + param list \<times> 'f parser" where
  "params_loop pt 0 params p = Inl OutOfFuel"
| "params_loop pt (Suc n) params p =
     (let (inout, p1) = match_ident ''inout'' p
      in pbind (expect_ident ''expected parameter name'' p1) (\<lambda>(name, p2).
         pbind (expect_symbol '':'' p2) (\<lambda>p3.
         pbind (pt p3) (\<lambda>(ty, p4).
           let params' = params @ [\<lparr>pm_name = name, pm_mode = (if inout then ParamInOut else ParamValue), pm_ty = ty\<rparr>];
               (comma, p5) = match_symbol '','' p4
           in if comma then params_loop pt n params' p5 else Inr (params', p5)))))"

definition parse_params :: "'f type_parser \<Rightarrow> nat \<Rightarrow> 'f parser \<Rightarrow> parse_failure + param list \<times> 'f parser" where
  "parse_params pt n p = (if check_symbol '')'' p then Inr ([], p) else params_loop pt n [] p)"

definition parse_function_type_name :: "'f type_parser \<Rightarrow> nat \<Rightarrow> 'f type_parser" where
  "parse_function_type_name pt n p =
     pbind (expect_ident_value ''fn'' p) (\<lambda>(_, p1).
     pbind (expect_symbol ''('' p1) (\<lambda>p2.
     pbind (parse_params pt n p2) (\<lambda>(params, p3).
     pbind (expect_symbol '')'' p3) (\<lambda>p4.
     pbind (expect_symbol ''->'' p4) (\<lambda>p5.
     pbind (pt p5) (\<lambda>(return_type, p6).
       Inr (u ''fn('' @ join (u '', '') (map (\<lambda>q. pm_name q @ u '': '' @ pm_ty q) params) @ u '') -> '' @ return_type, p6)))))))"

primrec record_fields_loop ::
  "'f type_parser \<Rightarrow> nat \<Rightarrow> ustring list \<Rightarrow> 'f parser \<Rightarrow> parse_failure + ustring list \<times> 'f parser" where
  "record_fields_loop pt 0 fs p = Inl OutOfFuel"
| "record_fields_loop pt (Suc n) fs p =
     pbind (expect_ident ''expected record field name'' p) (\<lambda>(field, p1).
     pbind (expect_symbol '':'' p1) (\<lambda>p2.
     pbind (pt p2) (\<lambda>(ty, p3).
       let fs' = fs @ [field @ u '': '' @ ty];
           (comma, p4) = match_symbol '','' p3
       in if comma then (if check_symbol ''}'' p4 then Inr (fs', p4) else record_fields_loop pt n fs' p4)
          else Inr (fs', p4))))"

definition parse_record_type_name :: "'f type_parser \<Rightarrow> nat \<Rightarrow> 'f type_parser" where
  "parse_record_type_name pt n p =
     pbind (if check_symbol ''}'' p then Inr ([], p) else record_fields_loop pt n [] p) (\<lambda>(fs, p1).
     pbind (expect_symbol ''}'' p1) (\<lambda>p2.
       Inr (if fs = [] then u ''{}'' else u ''{ '' @ join (u '', '') fs @ u '' }'', p2)))"

text \<open>The primary type after the tests for \<open>any\<close>, \<open>fn\<close> and a brace.\<close>

definition parse_named_type :: "'f type_parser \<Rightarrow> nat \<Rightarrow> 'f type_parser" where
  "parse_named_type pt n p =
     pbind (parser_advance p) (\<lambda>(t, p1).
     pbind (case tok_kind t of
              TokIdent v \<Rightarrow> Inr v
            | TokString v \<Rightarrow> Inr (quote_string_type v)
            | _ \<Rightarrow> Inl (parse_error ''expected type name'' (sp_start (tok_span t)))) (\<lambda>name.
     pbind (let (slash, p2) = match_symbol ''/'' p1
            in if slash
               then pbind (expect_ident ''expected source module after dependency /'' p2)
                 (\<lambda>(seg, p3). Inr (name @ u ''/'' @ seg, p3))
               else Inr (name, p2)) (\<lambda>(name, p2).
     pbind (segment_loop n name p2) (\<lambda>(name, p3).
       let (angle, p4) = match_symbol ''<'' p3
       in if angle
          then pbind (if check_symbol ''>'' p4 then Inr (name @ u ''<'', p4) else type_args_loop pt n (name @ u ''<'') p4)
            (\<lambda>(name, p5). pbind (expect_symbol ''>'' p5) (\<lambda>p6. Inr (name @ u ''>'', p6)))
          else Inr (name, p4)))))"

primrec parse_primary_type :: "'f type_parser \<Rightarrow> nat \<Rightarrow> 'f type_parser" where
  "parse_primary_type pt 0 p = Inl OutOfFuel"
| "parse_primary_type pt (Suc n) p =
     (let (is_any, p1) = match_ident ''any'' p
      in if is_any then pbind (parse_primary_type pt n p1) (\<lambda>(interface, p2). Inr (u ''any '' @ interface, p2))
         else if check_ident ''fn'' p then parse_function_type_name pt n p
         else let (brace, p1) = match_symbol ''{'' p
           in if brace then parse_record_type_name pt n p1 else parse_named_type pt (Suc n) p)"

definition parse_nullable_type :: "'f type_parser \<Rightarrow> nat \<Rightarrow> 'f type_parser" where
  "parse_nullable_type pt n p = pbind (parse_primary_type pt n p) (\<lambda>(name, p1). mark_loop n name p1)"

primrec union_loop :: "'f type_parser \<Rightarrow> nat \<Rightarrow> ustring \<Rightarrow> 'f type_parser" where
  "union_loop pt 0 name p = Inl OutOfFuel"
| "union_loop pt (Suc n) name p =
     (let (bar, p1) = match_symbol ''|'' p
      in if bar then pbind (parse_nullable_type pt n p1) (\<lambda>(rhs, p2). union_loop pt n (name @ u '' | '' @ rhs) p2)
         else Inr (name, p1))"

primrec parse_type_n :: "nat \<Rightarrow> 'f type_parser" where
  "parse_type_n 0 p = Inl OutOfFuel"
| "parse_type_n (Suc n) p =
     pbind (parse_nullable_type (parse_type_n n) (Suc n) p) (\<lambda>(name, p1). union_loop (parse_type_n n) (Suc n) name p1)"

definition parse_source_type :: "'f type_parser" where
  "parse_source_type p = parse_type_n (length (ps_rest p) + 1) p"

text \<open>\<open>parse_generic_args\<close> of \<open>expr.rs\<close>.\<close>

primrec generic_args_loop :: "'f type_parser \<Rightarrow> nat \<Rightarrow> ustring list \<Rightarrow> 'f parser \<Rightarrow> parse_failure + ustring list \<times> 'f parser" where
  "generic_args_loop pt 0 ts p = Inl OutOfFuel"
| "generic_args_loop pt (Suc n) ts p =
     pbind (pt p) (\<lambda>(t, p1).
       let (comma, p2) = match_symbol '','' p1 in if comma then generic_args_loop pt n (ts @ [t]) p2 else Inr (ts @ [t], p2))"

definition parse_generic_args :: "'f parser \<Rightarrow> parse_failure + ustring list \<times> 'f parser" where
  "parse_generic_args p =
     pbind (expect_symbol ''<'' p) (\<lambda>p1.
     pbind (if check_symbol ''>'' p1 then Inr ([], p1) else generic_args_loop parse_source_type (length (ps_rest p1) + 1) [] p1) (\<lambda>(ts, p2).
     pbind (expect_symbol ''>'' p2) (\<lambda>p3. Inr (ts, p3))))"

section \<open>The parser always returns\<close>

text \<open>A cursor that ends in the end token and does not stand at it before any token was passed, and results
  that are an error of the grammar or leave such a cursor with no more tokens than before.\<close>

definition live :: "'f parser \<Rightarrow> bool" where
  "live p \<longleftrightarrow> ps_rest p \<noteq> [] \<and> tok_kind (last (ps_rest p)) = TokEof \<and> (ps_done p \<noteq> [] \<or> \<not> is_at_end p)"

abbreviation left :: "'f parser \<Rightarrow> nat" where
  "left p \<equiv> length (ps_rest p)"

definition fits :: "nat \<Rightarrow> parse_failure + 'a \<times> 'f parser \<Rightarrow> bool" where
  "fits k r \<longleftrightarrow> r \<noteq> Inl OutOfFuel \<and> r \<noteq> Inl ParserPanic \<and> (\<forall>x p. r = Inr (x, p) \<longrightarrow> live p \<and> left p \<le> k)"

lemma fits_Inl [simp]: "fits k (Inl e) \<longleftrightarrow> e \<noteq> OutOfFuel \<and> e \<noteq> ParserPanic"
  by (simp add: fits_def)

lemma fits_Inr [simp]: "fits k (Inr (x, p)) \<longleftrightarrow> live p \<and> left p \<le> k"
  by (auto simp: fits_def)

lemma fits_mono: "fits k r \<Longrightarrow> k \<le> k' \<Longrightarrow> fits k' r"
  by (auto simp: fits_def)

lemma fits_bind:
  assumes "fits k r" "\<And>x p. live p \<Longrightarrow> left p \<le> k \<Longrightarrow> fits k' (f (x, p))"
  shows "fits k' (pbind r f)"
  using assms by (cases r) (auto simp: fits_def)

lemma live_step: "live p \<Longrightarrow> tok_kind (parser_peek p) \<noteq> TokEof \<Longrightarrow> live (step_token p) \<and> left (step_token p) < left p"
  by (cases "ps_rest p") (auto simp: live_def parser_peek_def split: if_splits)

lemma fits_advance: "live p \<Longrightarrow> fits (left p) (parser_advance p)"
proof (cases "is_at_end p")
  case True
  assume "live p"
  then show ?thesis using True by (auto simp: fits_def parser_advance_def previous_def live_def split: list.splits)
next
  case False
  assume "live p"
  moreover have "ps_done (step_token p) = parser_peek p # ps_done p" by (simp add: step_token_def)
  ultimately show ?thesis using False live_step [of p] by (auto simp: fits_def parser_advance_def previous_def is_at_end_def)
qed

lemma fits_expect_ident: "live p \<Longrightarrow> fits (left p) (expect_ident msg p)"
  using fits_advance [of p]
  by (auto simp: expect_ident_def fits_def parse_error_def split: sum.splits prod.splits token_kind.splits)

lemma fits_expect_ident_value: "live p \<Longrightarrow> fits (left p) (expect_ident_value s p)"
  using fits_advance [of p] by (auto simp: expect_ident_value_def fits_def parse_error_def split: sum.splits prod.splits)

lemma fits_bind_symbol:
  assumes "live p" "\<And>q. live q \<Longrightarrow> left q \<le> left p \<Longrightarrow> fits k (f q)"
  shows "fits k (pbind (expect_symbol s p) f)"
proof -
  have "expect_symbol s p \<noteq> Inl OutOfFuel" "expect_symbol s p \<noteq> Inl ParserPanic" "\<And>q. expect_symbol s p = Inr q \<Longrightarrow> live q \<and> left q \<le> left p"
    using fits_advance [OF assms(1)]
    by (auto simp: expect_symbol_def fits_def parse_error_def split: sum.splits prod.splits if_splits)
  then show ?thesis using assms(2) by (cases "expect_symbol s p") auto
qed

text \<open>After a consumed symbol the cursor has fewer tokens left; otherwise it has not moved.\<close>

lemma fits_match_symbol:
  assumes "live p" "\<And>q. live q \<Longrightarrow> left q < left p \<Longrightarrow> fits k (f True q)" "fits k (f False p)"
  shows "fits k (case match_symbol s p of (b, q) \<Rightarrow> f b q)"
  using assms live_step [of p] by (auto simp: match_symbol_def check_symbol_def)

lemma fits_match_ident:
  assumes "live p" "\<And>q. live q \<Longrightarrow> left q < left p \<Longrightarrow> fits k (f True q)" "fits k (f False p)"
  shows "fits k (case match_ident s p of (b, q) \<Rightarrow> f b q)"
  using assms live_step [of p] by (auto simp: match_ident_def check_ident_def)

lemma fits_mark_loop: "live p \<Longrightarrow> left p \<le> n \<Longrightarrow> fits (left p) (mark_loop n name p)"
proof (induction n arbitrary: name p)
  case (Suc n)
  show ?case unfolding mark_loop.simps Let_def
    by (rule fits_match_symbol [OF Suc.prems(1)])
      (use Suc in \<open>auto intro: fits_mono [OF Suc.IH]\<close>)
qed (simp add: live_def)

lemma fits_segment_loop: "live p \<Longrightarrow> left p \<le> n \<Longrightarrow> fits (left p) (segment_loop n name p)"
proof (induction n arbitrary: name p)
  case (Suc n)
  show ?case unfolding segment_loop.simps Let_def
    by (rule fits_match_symbol [OF Suc.prems(1)])
      (use Suc in \<open>auto intro!: fits_bind [OF fits_expect_ident] intro: fits_mono [OF Suc.IH]\<close>)
qed (simp add: live_def)

text \<open>What the grammar functions need of the parser for a nested type: on a cursor with at most \<open>m\<close> tokens
  left it returns and leaves no more tokens than it found.\<close>

locale nested_parser =
  fixes pt :: "'f type_parser" and m :: nat
  assumes nested: "live q \<Longrightarrow> left q \<le> m \<Longrightarrow> fits (left q) (pt q)"
begin

lemma fits_type_args_loop:
  "live p \<Longrightarrow> left p \<le> m \<Longrightarrow> left p \<le> n \<Longrightarrow> fits (left p) (type_args_loop pt n name p)"
proof (induction n arbitrary: name p)
  case (Suc n)
  show ?case unfolding type_args_loop.simps Let_def
    by (rule fits_bind [OF nested])
      (use Suc in \<open>auto intro!: fits_match_symbol fits_mono [OF Suc.IH]\<close>)
qed (simp add: live_def)

lemma fits_params_loop:
  "live p \<Longrightarrow> left p \<le> m \<Longrightarrow> left p \<le> n \<Longrightarrow> fits (left p) (params_loop pt n ps p)"
proof (induction n arbitrary: ps p)
  case (Suc n)
  show ?case unfolding params_loop.simps Let_def
    by (rule fits_match_ident [OF Suc.prems(1)])
      (use Suc.prems in \<open>auto intro!: fits_bind [OF fits_expect_ident] fits_bind_symbol fits_bind [OF nested] fits_match_symbol
         fits_mono [OF Suc.IH]\<close>)
qed (simp add: live_def)

lemma fits_record_fields_loop:
  "live p \<Longrightarrow> left p \<le> m \<Longrightarrow> left p \<le> n \<Longrightarrow> fits (left p) (record_fields_loop pt n fs p)"
proof (induction n arbitrary: fs p)
  case (Suc n)
  show ?case unfolding record_fields_loop.simps Let_def
    by (use Suc.prems in \<open>auto intro!: fits_bind [OF fits_expect_ident] fits_bind_symbol fits_bind [OF nested] fits_match_symbol
         fits_mono [OF Suc.IH]\<close>)
qed (simp add: live_def)

lemma fits_parse_params:
  "live p \<Longrightarrow> left p \<le> m \<Longrightarrow> left p \<le> n \<Longrightarrow> fits (left p) (parse_params pt n p)"
  by (simp add: parse_params_def fits_params_loop)

lemma fits_record_type:
  "live p \<Longrightarrow> left p \<le> m \<Longrightarrow> left p \<le> n \<Longrightarrow> fits (left p) (parse_record_type_name pt n p)"
  unfolding parse_record_type_name_def
  by (rule fits_bind [where k = "left p"]) (auto intro!: fits_record_fields_loop fits_bind_symbol)

lemma fits_function_type:
  assumes "live p" "check_ident ''fn'' p" "left p \<le> Suc m" "left p \<le> Suc n"
  shows "fits (left p) (parse_function_type_name pt n p)"
proof -
  have fn: "expect_ident_value ''fn'' p = Inr (parser_peek p, step_token p)"
    using assms(2) by (simp add: expect_ident_value_def check_ident_def parser_advance_def is_at_end_def previous_def step_token_def)
  have step: "live (step_token p)" "left (step_token p) < left p" using live_step [OF assms(1)] assms(2) by (auto simp: check_ident_def)
  show ?thesis unfolding parse_function_type_name_def fn
    using step assms(3,4)
    by (auto intro!: fits_bind_symbol fits_bind [OF fits_parse_params] fits_bind [OF nested])
qed

lemma fits_named_type:
  assumes "live p" "left p \<le> Suc m" "left p \<le> n"
  shows "fits (left p) (parse_named_type pt n p)"
proof -
  have args: "fits (left p) (case match_symbol ''<'' q of (angle, p4) \<Rightarrow>
      if angle
      then pbind (if check_symbol ''>'' p4 then Inr (name @ u ''<'', p4) else type_args_loop pt n (name @ u ''<'') p4)
        (\<lambda>(name, p5). pbind (expect_symbol ''>'' p5) (\<lambda>p6. Inr (name @ u ''>'', p6)))
      else Inr (name, p4))" if "live q" "left q \<le> left p" for name q
    using that assms(2,3)
    by (auto simp del: u_simps intro!: fits_match_symbol fits_bind_symbol fits_bind [OF fits_type_args_loop])
  have slash: "fits (left p) (case match_symbol ''/'' q of (slash, p2) \<Rightarrow>
      if slash
      then pbind (expect_ident ''expected source module after dependency /'' p2) (\<lambda>(seg, p3). Inr (name @ u ''/'' @ seg, p3))
      else Inr (name, p2))" if "live q" "left q \<le> left p" for name q
    using that by (auto intro!: fits_match_symbol fits_bind [OF fits_expect_ident])
  have rest: "fits (left p) (pbind (case match_symbol ''/'' q of (slash, p2) \<Rightarrow>
      if slash
      then pbind (expect_ident ''expected source module after dependency /'' p2) (\<lambda>(seg, p3). Inr (name @ u ''/'' @ seg, p3))
      else Inr (name, p2)) (\<lambda>(name, p2). pbind (segment_loop n name p2) (\<lambda>(name, p3).
        case match_symbol ''<'' p3 of (angle, p4) \<Rightarrow>
          if angle
          then pbind (if check_symbol ''>'' p4 then Inr (name @ u ''<'', p4) else type_args_loop pt n (name @ u ''<'') p4)
            (\<lambda>(name, p5). pbind (expect_symbol ''>'' p5) (\<lambda>p6. Inr (name @ u ''>'', p6)))
          else Inr (name, p4))))" if "live q" "left q \<le> left p" for name q
    using assms(3)
    by (auto intro!: fits_bind [OF slash [OF that]] fits_bind [OF fits_segment_loop] args simp del: u_simps)
  show ?thesis unfolding parse_named_type_def Let_def
    by (rule fits_bind [OF fits_advance [OF assms(1)]]) (auto simp: parse_error_def simp del: u_simps intro!: rest split: token_kind.splits)
qed

lemma fits_primary_type:
  "live p \<Longrightarrow> left p \<le> Suc m \<Longrightarrow> left p \<le> n \<Longrightarrow> fits (left p) (parse_primary_type pt n p)"
proof (induction n arbitrary: p)
  case (Suc n)
  show ?case unfolding parse_primary_type.simps Let_def
  proof (rule fits_match_ident [OF Suc.prems(1)], goal_cases)
    case (1 q)
    then show ?case using Suc.prems by (auto intro!: fits_bind [OF Suc.IH])
  next
    case 2
    then show ?case using Suc.prems
      by (auto intro!: fits_function_type fits_match_symbol fits_mono [OF fits_record_type] fits_named_type)
  qed
qed (simp add: live_def)

lemma fits_nullable_type:
  "live p \<Longrightarrow> left p \<le> Suc m \<Longrightarrow> left p \<le> n \<Longrightarrow> fits (left p) (parse_nullable_type pt n p)"
  unfolding parse_nullable_type_def
  by (auto intro!: fits_bind [OF fits_primary_type] fits_mono [OF fits_mark_loop])

lemma fits_union_loop:
  "live p \<Longrightarrow> left p \<le> Suc m \<Longrightarrow> left p \<le> n \<Longrightarrow> fits (left p) (union_loop pt n name p)"
proof (induction n arbitrary: name p)
  case (Suc n)
  show ?case unfolding union_loop.simps Let_def
    by (rule fits_match_symbol [OF Suc.prems(1)])
      (use Suc.prems in \<open>auto intro!: fits_bind [OF fits_nullable_type] fits_mono [OF Suc.IH]\<close>)
qed (simp add: live_def)

lemma fits_generic_args_loop:
  "live p \<Longrightarrow> left p \<le> m \<Longrightarrow> left p \<le> n \<Longrightarrow> fits (left p) (generic_args_loop pt n ts p)"
proof (induction n arbitrary: ts p)
  case (Suc n)
  show ?case unfolding generic_args_loop.simps Let_def
    by (rule fits_bind [OF nested])
      (use Suc in \<open>auto intro!: fits_match_symbol fits_mono [OF Suc.IH]\<close>)
qed (simp add: live_def)

end

lemma nested_parse_type: "nested_parser (parse_type_n n) n"
proof (induction n)
  case 0
  show ?case by unfold_locales (simp add: live_def)
next
  case (Suc n)
  note step = nested_parser.fits_nullable_type [OF Suc] nested_parser.fits_union_loop [OF Suc]
  show ?case
    by unfold_locales (auto simp del: union_loop.simps intro!: fits_bind [OF step(1)] fits_mono [OF step(2)])
qed

interpretation types: nested_parser "parse_type_n n" n for n
  by (rule nested_parse_type)

lemma parse_type_fits: "live p \<Longrightarrow> left p \<le> n \<Longrightarrow> fits (left p) (parse_type_n n p)"
  by (rule types.nested)

lemma fits_source_type: "live p \<Longrightarrow> fits (left p) (parse_source_type p)"
  unfolding parse_source_type_def by (rule types.nested) auto

lemma fits_generic_args: "live p \<Longrightarrow> fits (left p) (parse_generic_args p)"
proof -
  assume live: "live p"
  have "nested_parser (parse_source_type :: 'a type_parser) m" for m by unfold_locales (simp add: fits_source_type)
  note args = nested_parser.fits_generic_args_loop [OF this]
  show ?thesis unfolding parse_generic_args_def
    using live by (intro fits_bind_symbol) (auto simp del: generic_args_loop.simps intro!: fits_bind [OF args] fits_bind_symbol)
qed

lemma advance_at_start: "ps_done p = [] \<Longrightarrow> is_at_end p \<Longrightarrow> parser_advance p = Inl ParserPanic"
  by (simp add: parser_advance_def previous_def)

lemma at_end_no_match: "is_at_end p \<Longrightarrow> \<not> check_symbol s p \<and> \<not> check_ident s p"
  by (simp add: is_at_end_def check_symbol_def check_ident_def)

section \<open>Properties\<close>

text \<open>C40: Parsing a type, or generic arguments, always comes to an end, on every token sequence that ends in
  the end token: the result is a type or an error of the grammar, and the cursor after a success still ends
  in the end token and has not gone back (\<open>fits\<close>). The one exception is a cursor that stands at the end
  token before any token was passed: there both panic, because \<open>previous\<close> reads the token before the first.\<close>

theorem type_parser_returns:
  assumes "ps_rest p \<noteq> []" "tok_kind (last (ps_rest p)) = TokEof"
  shows "if ps_done p = [] \<and> is_at_end p then parse_source_type p = Inl ParserPanic \<and> parse_generic_args p = Inl ParserPanic
    else fits (left p) (parse_source_type p) \<and> fits (left p) (parse_generic_args p)"
proof (cases "ps_done p = [] \<and> is_at_end p")
  case True
  then have start: "parser_advance p = Inl ParserPanic" "\<And>s. \<not> check_symbol s p" "\<And>s. \<not> check_ident s p"
    using advance_at_start at_end_no_match by blast+
  have "parse_source_type p = Inl ParserPanic"
    by (simp add: parse_source_type_def parse_nullable_type_def parse_named_type_def match_ident_def match_symbol_def start)
  moreover have "parse_generic_args p = Inl ParserPanic" by (simp add: parse_generic_args_def expect_symbol_def start)
  ultimately show ?thesis using True by simp
next
  case False
  then have "live p" using assms by (auto simp: live_def)
  then show ?thesis unfolding if_not_P [OF False] using fits_source_type fits_generic_args by blast
qed

theorem type_parser_returns_witness:
  "fits 3 (parse_source_type (parser_new (map demo_token [TokIdent (u ''Map''), TokSymbol (u ''<''), TokEof]))) \<and>
   parse_source_type (parser_new (map demo_token [TokEof])) = Inl ParserPanic"
proof (rule conjI)
  let ?p = "parser_new (map demo_token [TokIdent (u ''Map''), TokSymbol (u ''<''), TokEof])"
  have p: "\<not> (ps_done ?p = [] \<and> is_at_end ?p)" "left ?p = 3"
    by (simp_all add: parser_new_def demo_token_def is_at_end_def parser_peek_def)
  show "fits 3 (parse_source_type ?p)"
    using type_parser_returns [of ?p] unfolding if_not_P [OF p(1)] p(2) by (simp add: parser_new_def demo_token_def)
  show "parse_source_type (parser_new (map demo_token [TokEof])) = Inl ParserPanic"
    using type_parser_returns [of "parser_new (map demo_token [TokEof])"]
    by (simp add: parser_new_def demo_token_def is_at_end_def parser_peek_def)
qed

text \<open>A closing bracket that is missing at the end of the tokens is accepted when the last token is the same
  bracket: the unclosed types \<open>A<B<C>\<close> and \<open>{ a: {}\<close> are parsed as the closed ones.\<close>

theorem unclosed_bracket_accepted:
  "map_sum id fst (parse_source_type (parser_new (map demo_token
     [TokIdent (u ''A''), TokSymbol (u ''<''), TokIdent (u ''B''), TokSymbol (u ''<''), TokIdent (u ''C''), TokSymbol (u ''>''), TokEof]))) =
     Inr (u ''A<B<C>>'') \<and>
   map_sum id fst (parse_source_type (parser_new (map demo_token
     [TokSymbol (u ''{''), TokIdent (u ''a''), TokSymbol (u '':''), TokSymbol (u ''{''), TokSymbol (u ''}''), TokEof]))) =
     Inr (u ''{ a: {} }'')"
proof -
  note eval = parse_source_type_def parser_new_def demo_token_def parse_nullable_type_def parse_named_type_def parse_record_type_name_def
    match_symbol_def match_ident_def check_symbol_def check_ident_def parser_peek_def expect_symbol_def expect_ident_def
    parser_advance_def is_at_end_def previous_def
  show ?thesis
    by (intro conjI) (simp_all add: eval numeral_eq_Suc u_def)
qed

end
