(* ===== verification/Syntax_Type_Grammar.thy ===== *)
theory Syntax_Type_Grammar
  imports Syntax_Type_Parser
begin

text \<open>
  The type grammar against type expressions: the tokens of a type expression are parsed to the text
  laid out for it as by the printer of \<open>type_expr.rs\<close>, except that string literals are quoted the parser's way
  (\<open>quote_string_type\<close>). \<open>reads\<close> is the contract of a grammar function on a list
  of token kinds, with rules that follow the shape of the functions.
\<close>

section \<open>The tokens of a type\<close>

text \<open>A name in the source: an identifier, a module after a slash, segments after dots.\<close>

record type_name =
  tn_head :: ustring
  tn_module :: "ustring option"
  tn_segments :: "ustring list"

definition type_name_text :: "type_name \<Rightarrow> ustring" where
  "type_name_text q =
     tn_head q @ (case tn_module q of None \<Rightarrow> [] | Some m \<Rightarrow> u ''/'' @ m) @ concat (map (\<lambda>s. u ''.'' @ s) (tn_segments q))"

abbreviation sym :: "string \<Rightarrow> 'f token_kind" where
  "sym s \<equiv> TokSymbol (u s)"

definition segment_kinds :: "ustring list \<Rightarrow> 'f token_kind list" where
  "segment_kinds segs = concat (map (\<lambda>s. [sym ''.'', TokIdent s]) segs)"

definition type_name_kinds :: "type_name \<Rightarrow> 'f token_kind list" where
  "type_name_kinds q =
     TokIdent (tn_head q) # (case tn_module q of None \<Rightarrow> [] | Some m \<Rightarrow> [sym ''/'', TokIdent m]) @ segment_kinds (tn_segments q)"

text \<open>\<open>name\<close> tells how a name of the type is written.\<close>

fun type_kinds :: "(ustring \<Rightarrow> type_name) \<Rightarrow> type_expr \<Rightarrow> 'f token_kind list" where
  "type_kinds name EmptyRecord = [sym ''{'', sym ''}'']"
| "type_kinds name (StringLiteral v) = [TokString v]"
| "type_kinds name (AnyInterface t) = TokIdent (u ''any'') # type_kinds name t"
| "type_kinds name (Named n args) =
     type_name_kinds (name n) @
     (if args = [] then [] else sym ''<'' # join [sym '',''] (map (\<lambda>a. type_kinds name a) args) @ [sym ''>''])"
| "type_kinds name (Nullable t) = type_kinds name t @ [sym ''?'']"
| "type_kinds name (Union ts) = join [sym ''|''] (map (\<lambda>t. type_kinds name t) ts)"
| "type_kinds name (RecordType fs) =
     sym ''{'' # join [sym '',''] (map (\<lambda>(n, t). TokIdent n # sym '':'' # type_kinds name t) fs) @ [sym ''}'']"
| "type_kinds name (FunctionType ps r) =
     TokIdent (u ''fn'') # sym ''('' # join [sym '',''] (map (\<lambda>(n, t). TokIdent n # sym '':'' # type_kinds name t) ps) @
     sym '')'' # sym ''->'' # type_kinds name r"

text \<open>A function type reaches as far as its return type does; the operand of a mark or of a bar cannot end
  in one, except the last operand of a union. A type that is not a union nor nullable is primary.\<close>

fun open_ended :: "type_expr \<Rightarrow> bool" where
  "open_ended (FunctionType ps r) = True"
| "open_ended (AnyInterface t) = open_ended t"
| "open_ended _ = False"

definition is_primary :: "type_expr \<Rightarrow> bool" where
  "is_primary t \<longleftrightarrow> (case t of Nullable _ \<Rightarrow> False | Union _ \<Rightarrow> False | _ \<Rightarrow> True)"

definition name_written :: "(ustring \<Rightarrow> type_name) \<Rightarrow> ustring \<Rightarrow> bool" where
  "name_written name n \<longleftrightarrow> type_name_text (name n) = n \<and> tn_head (name n) \<notin> {u ''any'', u ''fn''}"

fun writable :: "(ustring \<Rightarrow> type_name) \<Rightarrow> type_expr \<Rightarrow> bool" where
  "writable name EmptyRecord = True"
| "writable name (StringLiteral v) = True"
| "writable name (AnyInterface t) = (writable name t \<and> is_primary t)"
| "writable name (Named n args) = (name_written name n \<and> list_all (\<lambda>a. writable name a) args)"
| "writable name (Nullable t) = (writable name t \<and> \<not> open_ended t \<and> (case t of Union _ \<Rightarrow> False | _ \<Rightarrow> True))"
| "writable name (Union ts) =
     (length ts > 1 \<and> list_all (\<lambda>t. writable name t \<and> (case t of Union _ \<Rightarrow> False | _ \<Rightarrow> True)) ts \<and>
      list_all (\<lambda>t. \<not> open_ended t) (butlast ts))"
| "writable name (RecordType fs) = (fs \<noteq> [] \<and> list_all (\<lambda>(n, t). writable name t) fs)"
| "writable name (FunctionType ps r) = (list_all (\<lambda>(n, t). n \<noteq> u ''inout'' \<and> writable name t) ps \<and> writable name r)"

text \<open>The text the parser builds for a type: laid out as the printer of \<open>type_expr.rs\<close> does, with string
  literals quoted by \<open>quote_string_type\<close> of the parser, which escapes the quote, the backslash, line feed,
  carriage return and tab only and leaves other control characters, which JSON would escape, as they are.\<close>

definition source_text :: "type_expr \<Rightarrow> ustring" where
  "source_text t = to_type_string (\<lambda>v. Some (quote_string_type v)) t"

section \<open>What a grammar function reads\<close>

text \<open>Before a token that is none of the symbols in \<open>avoid\<close>, the function consumes exactly the tokens
  \<open>ks\<close> and returns \<open>x\<close>.\<close>

definition follows :: "string set \<Rightarrow> 'f token list \<Rightarrow> bool" where
  "follows avoid r \<longleftrightarrow> r \<noteq> [] \<and> (\<forall>s \<in> avoid. tok_kind (hd r) \<noteq> sym s)"

definition reads ::
  "string set \<Rightarrow> ('f parser \<Rightarrow> parse_failure + 'a \<times> 'f parser) \<Rightarrow> 'f token_kind list \<Rightarrow> 'a \<Rightarrow> bool" where
  "reads avoid f ks x \<longleftrightarrow>
     (\<forall>dn ts r. map tok_kind ts = ks \<longrightarrow> follows avoid r \<longrightarrow>
        f \<lparr>ps_done = dn, ps_rest = ts @ r\<rparr> = Inr (x, \<lparr>ps_done = rev ts @ dn, ps_rest = r\<rparr>))"

text \<open>The first token of \<open>ks\<close>, or the one that follows, is not the symbol \<open>s\<close>.\<close>

definition first_not :: "string \<Rightarrow> 'f token_kind list \<Rightarrow> string set \<Rightarrow> bool" where
  "first_not s ks avoid \<longleftrightarrow> (case ks of [] \<Rightarrow> s \<in> avoid | k # _ \<Rightarrow> k \<noteq> sym s)"

lemma first_not_simps [simp]:
  "first_not s [] avoid \<longleftrightarrow> s \<in> avoid" "first_not s (k # ks) avoid \<longleftrightarrow> k \<noteq> sym s"
  by (simp_all add: first_not_def)

lemma first_not_check:
  "first_not s ks avoid \<Longrightarrow> map tok_kind ts = ks \<Longrightarrow> follows avoid r \<Longrightarrow> \<not> check_symbol s \<lparr>ps_done = dn, ps_rest = ts @ r\<rparr>"
  by (cases ts) (auto simp: check_symbol_def parser_peek_def follows_def)

lemma reads_cong: "(\<And>p. f p = g p) \<Longrightarrow> reads avoid g ks x \<Longrightarrow> reads avoid f ks x"
  by (simp add: reads_def)

lemma reads_return: "reads avoid (\<lambda>p. Inr (x, p)) [] x"
  by (simp add: reads_def)

lemma reads_mono: "reads avoid f ks x \<Longrightarrow> avoid \<subseteq> avoid' \<Longrightarrow> reads avoid' f ks x"
  unfolding reads_def follows_def by blast

lemma reads_weaken: "reads {} f ks x \<Longrightarrow> reads avoid f ks x"
  by (rule reads_mono) auto

lemma reads_bind:
  fixes f :: "'f parser \<Rightarrow> parse_failure + 'a \<times> 'f parser"
  assumes f: "reads avoid1 f ks1 x" and g: "reads avoid (g x) ks2 y" and first: "\<And>s. s \<in> avoid1 \<Longrightarrow> first_not s ks2 avoid"
  shows "reads avoid (\<lambda>p. pbind (f p) (\<lambda>(x, p). g x p)) (ks1 @ ks2) y"
  unfolding reads_def
proof (intro allI impI)
  fix dn ts r :: "'f token list"
  assume ts: "map tok_kind ts = ks1 @ ks2" and r: "follows avoid r"
  then obtain ts1 ts2 where s: "ts = ts1 @ ts2" "map tok_kind ts1 = ks1" "map tok_kind ts2 = ks2"
    by (auto simp: map_eq_append_conv)
  have "follows avoid1 (ts2 @ r)" using first s(3) r by (cases ts2) (force simp: follows_def)+
  then show "pbind (f \<lparr>ps_done = dn, ps_rest = ts @ r\<rparr>) (\<lambda>(x, p). g x p) = Inr (y, \<lparr>ps_done = rev ts @ dn, ps_rest = r\<rparr>)"
    using f g s r unfolding reads_def by simp
qed

lemma reads_step:
  assumes "\<And>t dn r. tok_kind t = k \<Longrightarrow> f \<lparr>ps_done = dn, ps_rest = t # r\<rparr> = g \<lparr>ps_done = t # dn, ps_rest = r\<rparr>" "reads avoid g ks x"
  shows "reads avoid f (k # ks) x"
  using assms unfolding reads_def by (auto simp: Cons_eq_map_conv)

lemma reads_symbol:
  "reads avoid f ks x \<Longrightarrow> reads avoid (\<lambda>p. pbind (expect_symbol s p) f) (sym s # ks) x"
  by (rule reads_step [where g = f]) (auto simp: expect_symbol_def advance_step)

lemma reads_ident:
  "reads avoid (f v) ks x \<Longrightarrow> reads avoid (\<lambda>p. pbind (expect_ident msg p) (\<lambda>(v, p). f v p)) (TokIdent v # ks) x"
  by (rule reads_step [where g = "f v"]) (auto simp: expect_ident_def advance_step)

lemma reads_symbol_taken:
  "reads avoid (f True) ks x \<Longrightarrow> reads avoid (\<lambda>p. case match_symbol s p of (b, q) \<Rightarrow> f b q) (sym s # ks) x"
  by (rule reads_step [where g = "f True"]) (auto simp: match_symbol_def check_symbol_def parser_peek_def)

lemma reads_symbol_absent:
  "reads avoid (f False) ks x \<Longrightarrow> first_not s ks avoid \<Longrightarrow> reads avoid (\<lambda>p. case match_symbol s p of (b, q) \<Rightarrow> f b q) ks x"
  unfolding reads_def match_symbol_def by (auto dest: first_not_check)

lemma reads_check_absent:
  "reads avoid g ks x \<Longrightarrow> first_not s ks avoid \<Longrightarrow> reads avoid (\<lambda>p. if check_symbol s p then f p else g p) ks x"
  unfolding reads_def by (auto dest: first_not_check)

lemma reads_ident_absent:
  "reads avoid (f False) (k # ks) x \<Longrightarrow> k \<noteq> TokIdent (u s) \<Longrightarrow>
   reads avoid (\<lambda>p. case match_ident s p of (b, q) \<Rightarrow> f b q) (k # ks) x"
  unfolding reads_def match_ident_def by (auto simp: Cons_eq_map_conv check_ident_def parser_peek_def)

section \<open>The loops\<close>

abbreviation primary_avoid :: "string set" where
  "primary_avoid \<equiv> {''.'', ''/'', ''<''}"

abbreviation nullable_avoid :: "string set" where
  "nullable_avoid \<equiv> insert ''?'' primary_avoid"

abbreviation type_avoid :: "string set" where
  "type_avoid \<equiv> insert ''|'' nullable_avoid"

lemma join_Cons: "xs \<noteq> [] \<Longrightarrow> join sep (x # xs) = x @ sep @ join sep xs"
  by (cases xs) auto

text \<open>A type starts with an identifier, a string or a brace.\<close>

lemma type_first:
  "writable name t \<Longrightarrow> \<exists>k ks. type_kinds name t = k # ks \<and> ((\<exists>v. k = TokIdent v) \<or> (\<exists>v. k = TokString v) \<or> k = sym ''{'')"
proof (induction t)
  case (Named n args)
  then show ?case by (simp add: type_name_kinds_def)
next
  case (Nullable t)
  then show ?case by auto
next
  case (Union ts)
  then obtain t t' ts' where "ts = t # t' # ts'" by (cases ts; cases "tl ts") auto
  then show ?case using Union by force
qed auto

lemma type_kinds_nonempty: "writable name t \<Longrightarrow> (type_kinds name t :: 'f token_kind list) \<noteq> []"
  using type_first [where ?'a = 'f, of name t] by auto

lemma first_not_type:
  assumes "writable name t" "s \<noteq> ''{''"
  shows "first_not s (type_kinds name t @ ks :: 'f token_kind list) avoid"
proof -
  obtain k ks' where k: "type_kinds name t = (k :: 'f token_kind) # ks'"
      "(\<exists>v. k = TokIdent v) \<or> (\<exists>v. k = TokString v) \<or> k = sym ''{''" using type_first [OF assms(1)] by blast
  then have "k \<noteq> sym s" using assms(2) by (auto simp del: u_simps)
  then show ?thesis using k(1) by simp
qed

lemma reads_mark_loop:
  "length marks < n \<Longrightarrow> (\<And>k. k \<in> set marks \<Longrightarrow> k = sym ''?'') \<Longrightarrow>
   reads {''?''} (mark_loop n nm) marks (nm @ replicate (length marks) 63)"
proof (induction n arbitrary: nm marks)
  case (Suc n)
  show ?case
  proof (rule reads_cong [OF mark_loop.simps(2) [unfolded Let_def]], cases marks)
    case Nil
    then show "reads {''?''} (\<lambda>p. case match_symbol ''?'' p of (mark, p1) \<Rightarrow> if mark then mark_loop n (nm @ u ''?'') p1 else Inr (nm, p1))
        marks (nm @ replicate (length marks) 63)"
      using reads_return by (intro reads_symbol_absent) auto
  next
    case (Cons k ks)
    then have "k = sym ''?''" using Suc.prems by simp
    then show "reads {''?''} (\<lambda>p. case match_symbol ''?'' p of (mark, p1) \<Rightarrow> if mark then mark_loop n (nm @ u ''?'') p1 else Inr (nm, p1))
        marks (nm @ replicate (length marks) 63)"
      using Suc.IH [of ks "nm @ [63]"] Suc.prems Cons by (simp only:) (rule reads_symbol_taken, simp)
  qed
qed simp

lemma reads_segment_loop:
  "length segs < n \<Longrightarrow> reads {''.''} (segment_loop n nm :: 'f type_parser) (segment_kinds segs) (nm @ concat (map (\<lambda>s. u ''.'' @ s) segs))"
proof (induction segs arbitrary: n nm)
  case Nil
  then obtain n' where n: "n = Suc n'" by (cases n) auto
  show ?case unfolding n
    by (rule reads_cong [OF segment_loop.simps(2) [unfolded Let_def]], rule reads_symbol_absent)
      (auto simp: segment_kinds_def reads_return)
next
  case (Cons s segs)
  then obtain n' where n: "n = Suc n'" "length segs < n'" by (cases n) auto
  have "reads {''.''} (\<lambda>p. pbind (expect_ident ''expected qualified type segment'' p) (\<lambda>(seg, p2 :: 'f parser). segment_loop n' (nm @ u ''.'' @ seg) p2))
      (TokIdent s # segment_kinds segs) (nm @ concat (map (\<lambda>s. u ''.'' @ s) (s # segs)))"
    using Cons.IH [OF n(2), of "nm @ u ''.'' @ s"] by (intro reads_ident) simp
  then show ?case unfolding n(1)
    by (intro reads_cong [OF segment_loop.simps(2) [unfolded Let_def]])
      (simp add: segment_kinds_def, rule reads_symbol_taken [where s = "''.''", simplified], simp)
qed

lemma join_member: "x \<in> set xs \<Longrightarrow> length x \<le> length (join sep xs)"
  by (induction sep xs rule: join.induct) auto

lemma join_length: "(\<And>x. x \<in> set xs \<Longrightarrow> x \<noteq> []) \<Longrightarrow> length xs \<le> length (join sep xs)"
proof (induction sep xs rule: join.induct)
  case (2 sep x)
  then show ?case by (cases x) auto
next
  case (3 sep x y zs)
  then have "length (y # zs) \<le> length (join sep (y # zs))" "1 \<le> length x" by (auto simp: Suc_le_eq)
  then show ?case by simp
qed simp

lemma reads_ident_value:
  "reads avoid f ks x \<Longrightarrow> reads avoid (\<lambda>p. pbind (expect_ident_value s p) (\<lambda>(_, p). f p)) (TokIdent (u s) # ks) x"
  by (rule reads_step [where g = f]) (auto simp: expect_ident_value_def advance_step)

lemma reads_check_taken:
  "reads avoid f (sym s # ks) x \<Longrightarrow> reads avoid (\<lambda>p. if check_symbol s p then f p else g p) (sym s # ks) x"
  unfolding reads_def by (auto simp: Cons_eq_map_conv check_symbol_def parser_peek_def)

text \<open>The branches of the primary type.\<close>

lemma reads_primary_any:
  "reads avoid (parse_primary_type pt n) ks x \<Longrightarrow> reads avoid (parse_primary_type pt (Suc n)) (TokIdent (u ''any'') # ks) (u ''any '' @ x)"
  unfolding reads_def by (auto simp: Cons_eq_map_conv match_ident_def check_ident_def parser_peek_def simp del: u_simps)

lemma reads_primary_fn:
  "reads avoid (parse_function_type_name pt n) (TokIdent (u ''fn'') # ks) x \<Longrightarrow>
   reads avoid (parse_primary_type pt (Suc n)) (TokIdent (u ''fn'') # ks) x"
  unfolding reads_def by (auto simp: Cons_eq_map_conv match_ident_def check_ident_def parser_peek_def simp del: u_simps)

lemma reads_primary_brace:
  "reads avoid (parse_record_type_name pt n) ks x \<Longrightarrow> reads avoid (parse_primary_type pt (Suc n)) (sym ''{'' # ks) x"
  unfolding reads_def
  by (auto simp: Cons_eq_map_conv match_ident_def check_ident_def match_symbol_def check_symbol_def parser_peek_def simp del: u_simps)

lemma reads_primary_named:
  "reads avoid (parse_named_type pt (Suc n)) (k # ks) x \<Longrightarrow> k \<notin> {TokIdent (u ''any''), TokIdent (u ''fn''), sym ''{''} \<Longrightarrow>
   reads avoid (parse_primary_type pt (Suc n)) (k # ks) x"
  unfolding reads_def
  by (auto simp: Cons_eq_map_conv match_ident_def check_ident_def match_symbol_def check_symbol_def parser_peek_def simp del: u_simps)

text \<open>What the grammar functions need of the parser for a nested type: it reads every writable type of at
  most \<open>m\<close> tokens.\<close>

locale nested_reader =
  fixes pt :: "'f type_parser" and name :: "ustring \<Rightarrow> type_name" and m :: nat
  assumes reads_nested: "writable name t \<Longrightarrow> length (type_kinds name t :: 'f token_kind list) \<le> m \<Longrightarrow>
    reads type_avoid pt (type_kinds name t) (source_text t)"
begin

definition nestable :: "type_expr \<Rightarrow> bool" where
  "nestable t \<longleftrightarrow> writable name t \<and> length (type_kinds name t :: 'f token_kind list) \<le> m"

lemma reads_type_args:
  "ts \<noteq> [] \<Longrightarrow> length ts \<le> n \<Longrightarrow> (\<And>t. t \<in> set ts \<Longrightarrow> nestable t) \<Longrightarrow>
   reads (insert '','' type_avoid) (type_args_loop pt n nm) (join [sym '',''] (map (type_kinds name) ts))
     (nm @ join (u '', '') (map source_text ts))"
proof (induction ts arbitrary: n nm)
  case (Cons t ts)
  then obtain n' where n: "n = Suc n'" "length ts \<le> n'" by (cases n) auto
  have t: "reads type_avoid pt (type_kinds name t) (source_text t)"
    using Cons.prems(3) [of t] reads_nested by (simp add: nestable_def)
  let ?f = "\<lambda>p. pbind (pt p) (\<lambda>(t, p1). case match_symbol '','' p1 of (comma, p2) \<Rightarrow>
      if comma then type_args_loop pt n' (nm @ t @ u '', '') p2 else Inr (nm @ t, p2))"
  have "reads (insert '','' type_avoid) ?f (join [sym '',''] (map (type_kinds name) (t # ts))) (nm @ join (u '', '') (map source_text (t # ts)))"
  proof (cases "ts = []")
    case True
    have "reads (insert '','' type_avoid) ?f (type_kinds name t @ []) (nm @ source_text t)"
      by (rule reads_bind [OF t]) (rule reads_symbol_absent, auto simp: reads_return)
    then show ?thesis using True by simp
  next
    case False
    have "reads (insert '','' type_avoid) ?f (type_kinds name t @ sym '','' # join [sym '',''] (map (type_kinds name) ts))
      ((nm @ source_text t @ u '', '') @ join (u '', '') (map source_text ts))"
      by (rule reads_bind [OF t], rule reads_symbol_taken)
        (use Cons.IH [OF False n(2), of "nm @ source_text t @ u '', ''"] Cons.prems(3) in auto)
    then show ?thesis using False by (simp add: join_Cons)
  qed
  then show ?case unfolding n(1) by (rule reads_cong [OF type_args_loop.simps(2) [unfolded Let_def]])
qed simp

definition field_kinds :: "ustring \<times> type_expr \<Rightarrow> 'f token_kind list" where
  "field_kinds q = TokIdent (fst q) # sym '':'' # type_kinds name (snd q)"

definition field_text :: "ustring \<times> type_expr \<Rightarrow> ustring" where
  "field_text q = fst q @ u '': '' @ source_text (snd q)"

lemma first_not_fields: "qs \<noteq> [] \<Longrightarrow> first_not s (join [sym '',''] (map field_kinds qs) @ ks) avoid"
  by (cases qs; cases "tl qs") (auto simp: field_kinds_def)

lemma reads_record_fields:
  "qs \<noteq> [] \<Longrightarrow> length qs \<le> n \<Longrightarrow> (\<And>q. q \<in> set qs \<Longrightarrow> nestable (snd q)) \<Longrightarrow>
   reads (insert '','' type_avoid) (record_fields_loop pt n fs) (join [sym '',''] (map field_kinds qs)) (fs @ map field_text qs)"
proof (induction qs arbitrary: n fs)
  case (Cons q qs)
  then obtain n' where n: "n = Suc n'" "length qs \<le> n'" by (cases n) auto
  have t: "reads type_avoid pt (type_kinds name (snd q)) (source_text (snd q))"
    using Cons.prems(3) [of q] reads_nested by (simp add: nestable_def)
  let ?g = "\<lambda>field (ty, p3). case match_symbol '','' p3 of (comma, p4) \<Rightarrow>
      if comma then if check_symbol ''}'' p4 then Inr (fs @ [field @ u '': '' @ ty], p4)
        else record_fields_loop pt n' (fs @ [field @ u '': '' @ ty]) p4
      else Inr (fs @ [field @ u '': '' @ ty], p4)"
  have "reads (insert '','' type_avoid) (\<lambda>p. pbind (pt p) (?g (fst q)))
     (tl (tl (join [sym '',''] (map field_kinds (q # qs))))) (fs @ map field_text (q # qs))"
  proof (cases "qs = []")
    case True
    have "reads (insert '','' type_avoid) (\<lambda>p. pbind (pt p) (?g (fst q))) (type_kinds name (snd q) @ []) (fs @ [field_text q])"
      by (rule reads_bind [OF t]) (rule reads_symbol_absent, auto simp: reads_return field_text_def)
    then show ?thesis using True by (simp add: field_kinds_def)
  next
    case False
    have "reads (insert '','' type_avoid) (\<lambda>p. pbind (pt p) (?g (fst q)))
        (type_kinds name (snd q) @ sym '','' # join [sym '',''] (map field_kinds qs)) ((fs @ [field_text q]) @ map field_text qs)"
      by (rule reads_bind [OF t], rule reads_symbol_taken)
        (use Cons.IH [OF False n(2), of "fs @ [field_text q]"] Cons.prems(3) first_not_fields [OF False, where ks = "[]"]
          in \<open>auto intro!: reads_check_absent simp: field_text_def [of q]\<close>)
    then show ?thesis using False by (simp add: join_Cons field_kinds_def)
  qed
  note body = reads_ident [where f = "\<lambda>field p1. pbind (expect_symbol '':'' p1) (\<lambda>p2. pbind (pt p2) (?g field))", OF reads_symbol, OF this]
  have "join [sym '',''] (map field_kinds (q # qs)) = TokIdent (fst q) # sym '':'' # tl (tl (join [sym '',''] (map field_kinds (q # qs))))"
    by (cases qs) (simp_all add: field_kinds_def)
  then show ?case unfolding n(1) using body
    by (intro reads_cong [OF record_fields_loop.simps(2) [unfolded Let_def]]) simp
qed simp

definition param_of :: "ustring \<times> type_expr \<Rightarrow> param" where
  "param_of q = \<lparr>pm_name = fst q, pm_mode = ParamValue, pm_ty = source_text (snd q)\<rparr>"

lemma reads_params:
  "qs \<noteq> [] \<Longrightarrow> length qs \<le> n \<Longrightarrow> (\<And>q. q \<in> set qs \<Longrightarrow> nestable (snd q) \<and> fst q \<noteq> u ''inout'') \<Longrightarrow>
   reads (insert '','' type_avoid) (params_loop pt n ps) (join [sym '',''] (map field_kinds qs)) (ps @ map param_of qs)"
proof (induction qs arbitrary: n ps)
  case (Cons q qs)
  then obtain n' where n: "n = Suc n'" "length qs \<le> n'" by (cases n) auto
  have t: "reads type_avoid pt (type_kinds name (snd q)) (source_text (snd q))"
    using Cons.prems(3) [of q] reads_nested by (simp add: nestable_def)
  let ?param = "\<lambda>inout v ty. \<lparr>pm_name = v, pm_mode = (if inout then ParamInOut else ParamValue), pm_ty = ty\<rparr>"
  let ?g = "\<lambda>inout v (ty, p4). case match_symbol '','' p4 of (comma, p5) \<Rightarrow>
      if comma then params_loop pt n' (ps @ [?param inout v ty]) p5 else Inr (ps @ [?param inout v ty], p5)"
  have "reads (insert '','' type_avoid) (\<lambda>p. pbind (pt p) (?g False (fst q)))
     (tl (tl (join [sym '',''] (map field_kinds (q # qs))))) (ps @ map param_of (q # qs))"
  proof (cases "qs = []")
    case True
    have "reads (insert '','' type_avoid) (\<lambda>p. pbind (pt p) (?g False (fst q))) (type_kinds name (snd q) @ []) (ps @ [param_of q])"
      by (rule reads_bind [OF t]) (rule reads_symbol_absent, auto simp: reads_return param_of_def)
    then show ?thesis using True by (simp add: field_kinds_def)
  next
    case False
    have "reads (insert '','' type_avoid) (\<lambda>p. pbind (pt p) (?g False (fst q)))
        (type_kinds name (snd q) @ sym '','' # join [sym '',''] (map field_kinds qs)) ((ps @ [param_of q]) @ map param_of qs)"
      by (rule reads_bind [OF t], rule reads_symbol_taken)
        (use Cons.IH [OF False n(2), of "ps @ [param_of q]"] Cons.prems(3) in \<open>auto simp: param_of_def [of q]\<close>)
    then show ?thesis using False by (simp add: join_Cons field_kinds_def)
  qed
  note body = reads_ident_absent [where s = "''inout''" and
      f = "\<lambda>inout p. pbind (expect_ident ''expected parameter name'' p) (\<lambda>(v, p2). pbind (expect_symbol '':'' p2) (\<lambda>p3. pbind (pt p3) (?g inout v)))",
      OF reads_ident [where f = "\<lambda>v p2. pbind (expect_symbol '':'' p2) (\<lambda>p3. pbind (pt p3) (?g False v))"], OF reads_symbol, OF this]
  have "join [sym '',''] (map field_kinds (q # qs)) = TokIdent (fst q) # sym '':'' # tl (tl (join [sym '',''] (map field_kinds (q # qs))))"
    by (cases qs) (simp_all add: field_kinds_def)
  then show ?case unfolding n(1) using body Cons.prems(3) [of q]
    by (intro reads_cong [OF params_loop.simps(2) [unfolded Let_def]]) (simp del: u_simps)
qed simp

lemma reads_record:
  assumes "length qs \<le> n" "\<And>q. q \<in> set qs \<Longrightarrow> nestable (snd q)"
  shows "reads {} (parse_record_type_name pt n) (join [sym '',''] (map field_kinds qs) @ [sym ''}''])
    (if qs = [] then u ''{}'' else u ''{ '' @ join (u '', '') (map field_text qs) @ u '' }'')"
proof -
  define out where "out = (\<lambda>fs. if fs = [] then u ''{}'' else u ''{ '' @ join (u '', '') fs @ u '' }'')"
  define close where "close = (\<lambda>fs p. pbind (expect_symbol ''}'' p) (\<lambda>p2 :: 'f parser. Inr (out fs, p2)))"
  have close: "reads {} (close fs) [sym ''}''] (out fs)" for fs
    unfolding close_def by (rule reads_symbol) (rule reads_return)
  have "reads {} (\<lambda>p. pbind (if check_symbol ''}'' p then Inr ([], p) else record_fields_loop pt n [] p) (\<lambda>(fs, p1). close fs p1))
     (join [sym '',''] (map field_kinds qs) @ [sym ''}'']) (out (map field_text qs))"
  proof (cases "qs = []")
    case True
    have "reads {} (\<lambda>p. if check_symbol ''}'' p then close [] p else pbind (record_fields_loop pt n [] p) (\<lambda>(fs, p1). close fs p1)) [sym ''}''] (out [])"
      by (rule reads_check_taken [OF close])
    moreover have "(\<lambda>p. pbind (if check_symbol ''}'' p then Inr ([], p) else record_fields_loop pt n [] p) (\<lambda>(fs, p1). close fs p1)) =
        (\<lambda>p. if check_symbol ''}'' p then close [] p else pbind (record_fields_loop pt n [] p) (\<lambda>(fs, p1). close fs p1))"
      by (rule ext) simp
    ultimately show ?thesis using True by simp
  next
    case False
    have "first_not ''}'' (join [sym '',''] (map field_kinds qs)) (insert '','' type_avoid)"
      using first_not_fields [OF False, where ks = "[]"] by simp
    note loop = reads_check_absent [where f = "\<lambda>p. Inr ([], p)", OF reads_record_fields [where fs = "[]", OF False assms, unfolded append_Nil] this]
    show ?thesis
      by (rule reads_bind [OF loop close]) (auto simp: u_def)
  qed
  then show ?thesis
    by (intro reads_cong [OF parse_record_type_name_def]) (simp add: close_def out_def del: u_simps)
qed

lemma reads_function:
  assumes "length qs \<le> n" "\<And>q. q \<in> set qs \<Longrightarrow> nestable (snd q) \<and> fst q \<noteq> u ''inout''" "nestable r"
  shows "reads type_avoid (parse_function_type_name pt n)
    (TokIdent (u ''fn'') # sym ''('' # join [sym '',''] (map field_kinds qs) @ sym '')'' # sym ''->'' # type_kinds name r)
    (u ''fn('' @ join (u '', '') (map field_text qs) @ u '') -> '' @ source_text r)"
proof -
  define out where "out = (\<lambda>(params :: param list) rt. u ''fn('' @ join (u '', '') (map (\<lambda>q. pm_name q @ u '': '' @ pm_ty q) params) @ u '') -> '' @ rt)"
  define tail where "tail = (\<lambda>params p3. pbind (expect_symbol '')'' p3) (\<lambda>p4. pbind (expect_symbol ''->'' p4)
    (\<lambda>p5. pbind (pt p5) (\<lambda>(rt, p6). Inr (out params rt, p6)))))"
  have "reads type_avoid (\<lambda>p5. pbind (pt p5) (\<lambda>(rt, p6). Inr (out params rt, p6))) (type_kinds name r @ []) (out params (source_text r))" for params
    using assms(3) by (intro reads_bind [OF reads_nested reads_return]) (auto simp: nestable_def)
  then have tail: "reads type_avoid (tail params) (sym '')'' # sym ''->'' # type_kinds name r) (out params (source_text r))" for params
    unfolding tail_def by (intro reads_symbol) simp
  have "reads type_avoid (\<lambda>p. pbind (parse_params pt n p) (\<lambda>(params, p3). tail params p3))
    (join [sym '',''] (map field_kinds qs) @ sym '')'' # sym ''->'' # type_kinds name r) (out (map param_of qs) (source_text r))"
  proof (cases "qs = []")
    case True
    have "reads type_avoid (\<lambda>p. if check_symbol '')'' p then tail [] p else pbind (params_loop pt n [] p) (\<lambda>(params, p3). tail params p3))
        (sym '')'' # sym ''->'' # type_kinds name r) (out [] (source_text r))"
      by (rule reads_check_taken [OF tail])
    moreover have "(\<lambda>p. pbind (parse_params pt n p) (\<lambda>(params, p3). tail params p3)) =
       (\<lambda>p. if check_symbol '')'' p then tail [] p else pbind (params_loop pt n [] p) (\<lambda>(params, p3). tail params p3))"
      by (rule ext) (simp add: parse_params_def)
    ultimately show ?thesis using True by simp
  next
    case False
    have "first_not '')'' (join [sym '',''] (map field_kinds qs)) (insert '','' type_avoid)"
      using first_not_fields [OF False, where ks = "[]"] by simp
    note loop = reads_cong [OF parse_params_def reads_check_absent
      [where f = "\<lambda>p. Inr ([], p)", OF reads_params [where ps = "[]", OF False assms(1,2), unfolded append_Nil] this]]
    show ?thesis by (rule reads_bind [OF loop tail]) (auto simp: u_def)
  qed
  note body = reads_ident_value [where s = "''fn''", OF reads_symbol, OF this]
  have "map (\<lambda>q. pm_name q @ u '': '' @ pm_ty q) (map param_of qs) = map field_text qs"
    by (simp add: param_of_def field_text_def)
  then have "out (map param_of qs) (source_text r) = u ''fn('' @ join (u '', '') (map field_text qs) @ u '') -> '' @ source_text r"
    by (simp only: out_def)
  with body show ?thesis
    by (intro reads_cong [OF parse_function_type_name_def]) (simp add: tail_def out_def del: u_simps)
qed

definition arg_kinds :: "type_expr list \<Rightarrow> 'f token_kind list" where
  "arg_kinds args = (if args = [] then [] else sym ''<'' # join [sym '',''] (map (type_kinds name) args) @ [sym ''>''])"

definition arg_text :: "type_expr list \<Rightarrow> ustring" where
  "arg_text args = (if args = [] then [] else u ''<'' @ join (u '', '') (map source_text args) @ u ''>'')"

lemma first_not_args:
  "args \<noteq> [] \<Longrightarrow> (\<And>t. t \<in> set args \<Longrightarrow> nestable t) \<Longrightarrow> s \<noteq> ''{'' \<Longrightarrow>
   first_not s (join [sym '',''] (map (type_kinds name) args)) avoid"
  using first_not_type [of name "hd args" s] first_not_type [of name "hd args" s "[]"]
  by (cases args; cases "tl args") (auto simp: nestable_def)

text \<open>The end of a named type: the arguments in angle brackets.\<close>

lemma reads_args_tail:
  assumes "length args \<le> n" "\<And>t. t \<in> set args \<Longrightarrow> nestable t"
  shows "reads primary_avoid (\<lambda>p3. case match_symbol ''<'' p3 of (angle, p4) \<Rightarrow>
      if angle
      then pbind (if check_symbol ''>'' p4 then Inr (nm @ u ''<'', p4) else type_args_loop pt n (nm @ u ''<'') p4)
        (\<lambda>(nm, p5). pbind (expect_symbol ''>'' p5) (\<lambda>p6. Inr (nm @ u ''>'', p6)))
      else Inr (nm, p4)) (arg_kinds args) (nm @ arg_text args)"
proof (cases "args = []")
  case True
  then show ?thesis by (intro reads_symbol_absent) (simp_all add: arg_kinds_def arg_text_def reads_return)
next
  case False
  have close: "reads primary_avoid (\<lambda>p5. pbind (expect_symbol ''>'' p5) (\<lambda>p6. Inr (x @ u ''>'', p6))) [sym ''>''] (x @ u ''>'')" for x
    by (rule reads_symbol) (rule reads_return)
  have "first_not ''>'' (join [sym '',''] (map (type_kinds name) args)) (insert '','' type_avoid)"
    by (rule first_not_args [OF False assms(2)]) auto
  note loop = reads_check_absent [where f = "\<lambda>p. Inr (nm @ u ''<'', p)", OF reads_type_args [OF False assms] this]
  have "reads primary_avoid (\<lambda>p4. pbind (if check_symbol ''>'' p4 then Inr (nm @ u ''<'', p4) else type_args_loop pt n (nm @ u ''<'') p4)
      (\<lambda>(nm, p5). pbind (expect_symbol ''>'' p5) (\<lambda>p6. Inr (nm @ u ''>'', p6))))
    (join [sym '',''] (map (type_kinds name) args) @ [sym ''>'']) (((nm @ u ''<'') @ join (u '', '') (map source_text args)) @ u ''>'')"
    by (rule reads_bind [OF loop close]) (auto simp: u_def)
  then show ?thesis using False by (auto simp: arg_kinds_def arg_text_def simp del: u_simps intro!: reads_symbol_taken)
qed

definition module_kinds :: "ustring option \<Rightarrow> 'f token_kind list" where
  "module_kinds md = (case md of None \<Rightarrow> [] | Some v \<Rightarrow> [sym ''/'', TokIdent v])"

definition module_text :: "ustring option \<Rightarrow> ustring" where
  "module_text md = (case md of None \<Rightarrow> [] | Some v \<Rightarrow> u ''/'' @ v)"

definition head_text :: "'f token_kind \<Rightarrow> ustring option" where
  "head_text k = (case k of TokIdent v \<Rightarrow> Some v | TokString v \<Rightarrow> Some (quote_string_type v) | _ \<Rightarrow> None)"

lemma reads_slash_part:
  "reads {''/''} (\<lambda>p1. case match_symbol ''/'' p1 of (slash, p2) \<Rightarrow>
      if slash then pbind (expect_ident ''expected source module after dependency /'' p2) (\<lambda>(seg, p3). Inr (nm @ u ''/'' @ seg, p3))
      else Inr (nm, p2)) (module_kinds md) (nm @ module_text md)"
proof (cases md)
  case None
  then show ?thesis by (intro reads_symbol_absent) (simp_all add: module_kinds_def module_text_def reads_return)
next
  case (Some v)
  have "reads {''/''} (\<lambda>p2. pbind (expect_ident ''expected source module after dependency /'' p2) (\<lambda>(seg, p3 :: 'f parser). Inr (nm @ u ''/'' @ seg, p3)))
      [TokIdent v] (nm @ u ''/'' @ v)"
    by (rule reads_ident) (rule reads_return)
  then show ?thesis using Some by (auto simp: module_kinds_def module_text_def simp del: u_simps intro!: reads_symbol_taken)
qed

lemma first_not_arg_kinds: "s \<noteq> ''<'' \<Longrightarrow> s \<in> primary_avoid \<Longrightarrow> first_not s (arg_kinds args) primary_avoid"
  by (auto simp: arg_kinds_def u_def)

lemma first_not_segments: "s = ''/'' \<Longrightarrow> first_not s (segment_kinds segs @ arg_kinds args) primary_avoid"
  by (cases segs) (auto simp: segment_kinds_def arg_kinds_def u_def)

lemma reads_named:
  assumes "head_text k = Some nm" "length segs < n" "length args \<le> n" "\<And>t. t \<in> set args \<Longrightarrow> nestable t"
  shows "reads primary_avoid (parse_named_type pt n) (k # module_kinds md @ segment_kinds segs @ arg_kinds args)
    (nm @ module_text md @ concat (map (\<lambda>s. u ''.'' @ s) segs) @ arg_text args)"
proof -
  define tail where "tail = (\<lambda>nm p3. case match_symbol ''<'' p3 of (angle, p4) \<Rightarrow>
      if angle
      then pbind (if check_symbol ''>'' p4 then Inr (nm @ u ''<'', p4) else type_args_loop pt n (nm @ u ''<'') p4)
        (\<lambda>(nm, p5). pbind (expect_symbol ''>'' p5) (\<lambda>p6. Inr (nm @ u ''>'', p6)))
      else Inr (nm, p4))"
  define slash where "slash = (\<lambda>nm p1. case match_symbol ''/'' p1 of (slash, p2) \<Rightarrow>
      if slash then pbind (expect_ident ''expected source module after dependency /'' p2) (\<lambda>(seg, p3 :: 'f parser). Inr (nm @ u ''/'' @ seg, p3))
      else Inr (nm, p2))"
  have parts: "reads {''/''} (slash nm) (module_kinds md) (nm @ module_text md)" "\<And>x. reads primary_avoid (tail x) (arg_kinds args) (x @ arg_text args)"
    unfolding slash_def tail_def by (rule reads_slash_part, rule reads_args_tail [OF assms(3,4)])
  have "reads primary_avoid (\<lambda>p2. pbind (segment_loop n x p2) (\<lambda>(nm, p3). tail nm p3)) (segment_kinds segs @ arg_kinds args)
      ((x @ concat (map (\<lambda>s. u ''.'' @ s) segs)) @ arg_text args)" for x
    by (rule reads_bind [OF reads_segment_loop [OF assms(2)] parts(2)]) (rule first_not_arg_kinds, auto)
  note segs = reads_bind [where g = "\<lambda>nm p2. pbind (segment_loop n nm p2) (\<lambda>(nm, p3). tail nm p3)", OF parts(1) this]
  have "reads primary_avoid (\<lambda>p1. pbind (slash nm p1) (\<lambda>(nm, p2). pbind (segment_loop n nm p2) (\<lambda>(nm, p3). tail nm p3)))
      (module_kinds md @ segment_kinds segs @ arg_kinds args) (((nm @ module_text md) @ concat (map (\<lambda>s. u ''.'' @ s) segs)) @ arg_text args)"
    by (rule segs) (rule first_not_segments, simp)
  then have "reads primary_avoid (\<lambda>p1. pbind (slash nm p1) (\<lambda>(nm, p2). pbind (segment_loop n nm p2) (\<lambda>(nm, p3). tail nm p3)))
      (module_kinds md @ segment_kinds segs @ arg_kinds args) (nm @ module_text md @ concat (map (\<lambda>s. u ''.'' @ s) segs) @ arg_text args)"
    by (simp only: append_assoc)
  moreover have "parse_named_type pt n \<lparr>ps_done = dn, ps_rest = t # r\<rparr> =
      pbind (slash nm \<lparr>ps_done = t # dn, ps_rest = r\<rparr>) (\<lambda>(nm, p2). pbind (segment_loop n nm p2) (\<lambda>(nm, p3). tail nm p3))"
    if "tok_kind t = k" for t dn r
    using assms(1) that
    by (auto simp: parse_named_type_def Let_def slash_def tail_def advance_step head_text_def simp del: u_simps split: token_kind.splits)
  ultimately show ?thesis by (rule reads_step [rotated])
qed

lemma fields_as_kinds: "map (\<lambda>(n, t). TokIdent n # sym '':'' # type_kinds name t) qs = map field_kinds qs"
  "map (\<lambda>(n, t). n @ u '': '' @ to_type_string (\<lambda>v. Some (quote_string_type v)) t) qs = map field_text qs"
  by (auto simp: field_kinds_def field_text_def source_text_def)

lemma field_lengths:
  assumes "q \<in> set qs"
  shows "length (type_kinds name (snd q) :: 'f token_kind list) + 2 \<le> length (join [sym '',''] (map field_kinds qs))"
proof -
  have "length (field_kinds q) \<le> length (join [sym '',''] (map field_kinds qs))" using assms by (intro join_member) simp
  then show ?thesis by (simp add: field_kinds_def)
qed

lemma fields_length: "length qs \<le> length (join [sym '',''] (map field_kinds qs))"
  using join_length [of "map field_kinds qs" "[sym '','']"] by (auto simp: field_kinds_def)

lemma reads_named_type:
  assumes "writable name (Named v args)" "length (type_kinds name (Named v args) :: 'f token_kind list) \<le> Suc n"
    "length (type_kinds name (Named v args) :: 'f token_kind list) \<le> Suc m"
  shows "reads primary_avoid (parse_primary_type pt (Suc n)) (type_kinds name (Named v args)) (source_text (Named v args))"
proof -
  let ?q = "name v"
  have kinds: "type_kinds name (Named v args) =
      TokIdent (tn_head ?q) # module_kinds (tn_module ?q) @ segment_kinds (tn_segments ?q) @ arg_kinds args"
    by (simp add: type_name_kinds_def module_kinds_def arg_kinds_def)
  have out: "source_text (Named v args) = tn_head ?q @ module_text (tn_module ?q) @ concat (map (\<lambda>s. u ''.'' @ s) (tn_segments ?q)) @ arg_text args"
    using assms(1) by (simp add: source_text_def [abs_def] module_text_def arg_text_def name_written_def type_name_text_def del: u_simps)
  have nonempty: "type_kinds name a \<noteq> ([] :: 'f token_kind list)" if "a \<in> set args" for a
    using assms(1) that by (intro type_kinds_nonempty) (auto simp: list.pred_set)
  have arg_length: "length (type_kinds name a :: 'f token_kind list) + 2 \<le> length (arg_kinds args)" if "a \<in> set args" for a
    using that join_member [of "type_kinds name a :: 'f token_kind list" "map (type_kinds name) args" "[sym '','']"]
    by (auto simp: arg_kinds_def)
  have args_length: "length args \<le> length (arg_kinds args)"
  proof (cases "args = []")
    case False
    have "length (map (type_kinds name) args :: 'f token_kind list list) \<le> length (join [sym '',''] (map (type_kinds name) args :: 'f token_kind list list))"
      by (rule join_length) (use nonempty in auto)
    then show ?thesis using False by (simp add: arg_kinds_def)
  qed simp
  have segs: "length segs \<le> length (segment_kinds segs :: 'f token_kind list)" for segs
    by (induction segs) (auto simp: segment_kinds_def)
  have total: "length (segment_kinds (tn_segments ?q) :: 'f token_kind list) + length (arg_kinds args) \<le> n"
      "length (arg_kinds args) \<le> m" using assms(2,3) unfolding kinds by simp_all
  have "reads primary_avoid (parse_named_type pt (Suc n)) (type_kinds name (Named v args)) (source_text (Named v args))"
    unfolding kinds out
  proof (rule reads_named)
    show "nestable a" if "a \<in> set args" for a
      using that assms(1) total arg_length [OF that] by (auto simp: nestable_def list.pred_set)
  qed (use segs [of "tn_segments ?q"] args_length total in \<open>auto simp: head_text_def\<close>)
  then show ?thesis unfolding kinds
    by (rule reads_primary_named) (use assms(1) in \<open>auto simp: name_written_def simp del: u_simps\<close>)
qed

lemma reads_primary:
  "writable name t \<Longrightarrow> is_primary t \<Longrightarrow> length (type_kinds name t :: 'f token_kind list) \<le> n \<Longrightarrow>
   length (type_kinds name t :: 'f token_kind list) \<le> Suc m \<Longrightarrow>
   reads (if open_ended t then type_avoid else primary_avoid) (parse_primary_type pt n) (type_kinds name t) (source_text t)"
proof (induction t arbitrary: n)
  case EmptyRecord
  then obtain n' where n: "n = Suc n'" by (cases n) auto
  have "reads {} (parse_record_type_name pt n') [sym ''}''] (u ''{}'')" using reads_record [of "[]" n'] by simp
  from reads_weaken [OF reads_primary_brace [OF this]] show ?case unfolding n
    by (simp add: source_text_def del: parse_primary_type.simps)
next
  case (StringLiteral v)
  then obtain n' where n: "n = Suc n'" by (cases n) auto
  have "reads primary_avoid (parse_named_type pt n) [TokString v] (quote_string_type v)"
    using reads_named [of "TokString v" "quote_string_type v" "[]" n "[]" None] n
    by (simp add: head_text_def segment_kinds_def arg_kinds_def module_kinds_def module_text_def arg_text_def)
  then show ?case unfolding n by (auto simp: source_text_def simp del: parse_primary_type.simps intro!: reads_primary_named)
next
  case (AnyInterface t)
  then obtain n' where n: "n = Suc n'" by (cases n) auto
  have "reads (if open_ended t then type_avoid else primary_avoid) (parse_primary_type pt n') (type_kinds name t) (source_text t)"
    using AnyInterface n by (intro AnyInterface.IH) auto
  from reads_primary_any [OF this] show ?case unfolding n by (simp add: source_text_def del: u_simps parse_primary_type.simps)
next
  case (Named v args)
  then obtain n' where n: "n = Suc n'" by (cases n) (auto simp: type_name_kinds_def)
  have "reads primary_avoid (parse_primary_type pt (Suc n')) (type_kinds name (Named v args)) (source_text (Named v args))"
    by (rule reads_named_type [OF Named(2)]) (use Named(4,5) n in blast)+
  then show ?case unfolding n by (simp only: open_ended.simps if_False)
next
  case (RecordType fs)
  then obtain n' where n: "n = Suc n'" by (cases n) auto
  have "length (join [sym '',''] (map field_kinds fs)) + 2 \<le> Suc (min n' m)"
    using RecordType(4,5) n by (simp add: fields_as_kinds del: u_simps)
  then have "reads {} (parse_record_type_name pt n') (join [sym '',''] (map field_kinds fs) @ [sym ''}''])
      (u ''{ '' @ join (u '', '') (map field_text fs) @ u '' }'')"
    using reads_record [of fs n'] fields_length [of fs] field_lengths [of _ fs] RecordType(2)
    by (fastforce simp: nestable_def list.pred_set simp del: u_simps)
  from reads_weaken [OF reads_primary_brace [OF this]] show ?case unfolding n
    by (simp add: source_text_def fields_as_kinds del: u_simps parse_primary_type.simps)
next
  case (FunctionType ps r)
  then obtain n' where n: "n = Suc n'" by (cases n) auto
  have len: "length (join [sym '',''] (map field_kinds ps)) + length (type_kinds name r :: 'f token_kind list) + 4 \<le> Suc (min n' m)"
    using FunctionType(5,6) n by (simp add: fields_as_kinds del: u_simps)
  have "reads type_avoid (parse_function_type_name pt n')
     (TokIdent (u ''fn'') # sym ''('' # join [sym '',''] (map field_kinds ps) @ sym '')'' # sym ''->'' # type_kinds name r)
     (u ''fn('' @ join (u '', '') (map field_text ps) @ u '') -> '' @ source_text r)"
  proof (rule reads_function)
    show "length ps \<le> n'" using fields_length [of ps] len by linarith
    show "nestable r" using FunctionType(3) len by (simp add: nestable_def)
    show "nestable (snd q) \<and> fst q \<noteq> u ''inout''" if "q \<in> set ps" for q
      using field_lengths [OF that] len FunctionType(3) that by (auto simp: nestable_def list.pred_set)
  qed
  from reads_primary_fn [OF this] show ?case unfolding n
    by (simp add: source_text_def [of "FunctionType ps r"] fields_as_kinds source_text_def [of r] del: u_simps parse_primary_type.simps)
qed (auto simp: is_primary_def)

text \<open>Marks after a primary type.\<close>

lemma nullable_shape:
  "writable name t \<Longrightarrow> (case t of Union _ \<Rightarrow> False | _ \<Rightarrow> True) \<Longrightarrow>
   \<exists>q k. writable name q \<and> is_primary q \<and> (k = 0 \<and> t = q \<or> \<not> open_ended q \<and> \<not> open_ended t) \<and>
     (type_kinds name t :: 'f token_kind list) = type_kinds name q @ replicate k (sym ''?'') \<and>
     source_text t = source_text q @ replicate k 63"
proof (induction "size t" arbitrary: t rule: less_induct)
  case less
  show ?case
  proof (cases "is_primary t")
    case True
    then show ?thesis using less.prems by (intro exI [of _ t] exI [of _ 0]) simp
  next
    case False
    then obtain s where t: "t = Nullable s" using less.prems(2) by (cases t) (auto simp: is_primary_def)
    have "writable name s" "case s of Union _ \<Rightarrow> False | _ \<Rightarrow> True" "\<not> open_ended s" "size s < size t" using less.prems t by auto
    then obtain q k where q: "writable name q" "is_primary q" "k = 0 \<and> s = q \<or> \<not> open_ended q"
        "(type_kinds name s :: 'f token_kind list) = type_kinds name q @ replicate k (sym ''?'')" "source_text s = source_text q @ replicate k 63"
      using less.hyps [of s] by blast
    have "(type_kinds name t :: 'f token_kind list) = type_kinds name q @ replicate (Suc k) (sym ''?'')"
        "source_text t = source_text q @ replicate (Suc k) 63"
      using q(4,5) unfolding t by (simp_all add: source_text_def replicate_append_same [symmetric])
    then show ?thesis using q \<open>\<not> open_ended s\<close> t by (intro exI [of _ q] exI [of _ "Suc k"]) auto
  qed
qed

lemma reads_nullable:
  assumes "writable name t" "case t of Union _ \<Rightarrow> False | _ \<Rightarrow> True" "length (type_kinds name t :: 'f token_kind list) \<le> n"
    "length (type_kinds name t :: 'f token_kind list) \<le> Suc m"
  shows "reads (if open_ended t then type_avoid else nullable_avoid) (parse_nullable_type pt n) (type_kinds name t) (source_text t)"
proof -
  obtain q k where q: "writable name q" "is_primary q" "k = 0 \<and> t = q \<or> \<not> open_ended q \<and> \<not> open_ended t"
      "(type_kinds name t :: 'f token_kind list) = type_kinds name q @ replicate k (sym ''?'')" "source_text t = source_text q @ replicate k 63"
    using nullable_shape [OF assms(1,2)] by blast
  have p: "reads (if open_ended q then type_avoid else primary_avoid) (parse_primary_type pt n) (type_kinds name q) (source_text q)"
    by (rule reads_primary [OF q(1,2)]) (use assms(3,4) q(4) in auto)
  have "length (type_kinds name q :: 'f token_kind list) > 0" using type_kinds_nonempty [OF q(1)] by blast
  then have "k < n" using assms(3) unfolding q(4) length_append length_replicate by linarith
  then have "reads {''?''} (mark_loop n (source_text q)) (replicate k (sym ''?'')) (source_text q @ replicate k 63)"
    using reads_mark_loop [of "replicate k (sym ''?'')" n "source_text q"] by simp
  then have marks: "reads (if open_ended t then type_avoid else nullable_avoid) (mark_loop n (source_text q)) (replicate k (sym ''?'')) (source_text q @ replicate k 63)"
    by (rule reads_mono) auto
  show ?thesis unfolding q(4,5)
    by (rule reads_cong [OF parse_nullable_type_def], rule reads_bind [where g = "mark_loop n", OF p marks])
      (use q(3) in \<open>cases k; auto simp: u_def split: if_splits\<close>)
qed

lemma reads_union_loop:
  "list_all (\<lambda>t. writable name t \<and> (case t of Union _ \<Rightarrow> False | _ \<Rightarrow> True)) ts \<Longrightarrow> list_all (\<lambda>t. \<not> open_ended t) (butlast ts) \<Longrightarrow>
   length (concat (map (\<lambda>t. sym ''|'' # type_kinds name t) ts) :: 'f token_kind list) < n \<Longrightarrow>
   length (concat (map (\<lambda>t. sym ''|'' # type_kinds name t) ts) :: 'f token_kind list) \<le> Suc m \<Longrightarrow>
   reads type_avoid (union_loop pt n nm) (concat (map (\<lambda>t. sym ''|'' # type_kinds name t) ts)) (nm @ concat (map (\<lambda>t. u '' | '' @ source_text t) ts))"
proof (induction ts arbitrary: n nm)
  case Nil
  then obtain n' where n: "n = Suc n'" by (cases n) auto
  show ?case unfolding n
    by (rule reads_cong [OF union_loop.simps(2) [unfolded Let_def]], rule reads_symbol_absent) (simp_all add: reads_return)
next
  case (Cons t ts)
  then obtain n' where n: "n = Suc n'" by (cases n) auto
  let ?rest = "concat (map (\<lambda>t. sym ''|'' # type_kinds name t) ts) :: 'f token_kind list"
  have t: "reads (if open_ended t then type_avoid else nullable_avoid) (parse_nullable_type pt n') (type_kinds name t) (source_text t)"
    by (rule reads_nullable) (use Cons.prems n in auto)
  have "reads type_avoid (union_loop pt n' (nm @ u '' | '' @ source_text t)) ?rest
      ((nm @ u '' | '' @ source_text t) @ concat (map (\<lambda>t. u '' | '' @ source_text t) ts))"
    by (rule Cons.IH) (use Cons.prems n in \<open>auto split: if_splits\<close>)
  note loop = reads_bind [where g = "\<lambda>rhs p2. union_loop pt n' (nm @ u '' | '' @ rhs) p2", OF t this]
  have "first_not s ?rest type_avoid" if "s \<in> (if open_ended t then type_avoid else nullable_avoid)" for s
    using that Cons.prems(2) by (cases ts) (auto simp: u_def split: if_splits)
  from reads_symbol_taken [where s = "''|''" and f = "\<lambda>bar p1. if bar then pbind (parse_nullable_type pt n' p1)
      (\<lambda>(rhs, p2). union_loop pt n' (nm @ u '' | '' @ rhs) p2) else Inr (nm, p1)", unfolded if_True, OF loop [OF this]]
  show ?case unfolding n
    by (intro reads_cong [OF union_loop.simps(2) [unfolded Let_def]]) simp
qed

lemma join_bars: "join sep (x # xs) = x @ concat (map (\<lambda>y. sep @ y) xs)"
  by (induction xs arbitrary: x) auto

lemma reads_type:
  assumes "writable name t" "length (type_kinds name t :: 'f token_kind list) \<le> n" "length (type_kinds name t :: 'f token_kind list) \<le> Suc m"
  shows "reads type_avoid (\<lambda>p. pbind (parse_nullable_type pt n p) (\<lambda>(nm, p1). union_loop pt n nm p1)) (type_kinds name t) (source_text t)"
proof -
  define ops where "ops = (case t of Union ts \<Rightarrow> ts | _ \<Rightarrow> [t])"
  obtain t1 ts where ops: "ops = t1 # ts" using assms(1) by (cases ops) (auto simp: ops_def split: type_expr.splits)
  note single = ops assms(1) ops_def
  have kinds: "(type_kinds name t :: 'f token_kind list) = type_kinds name t1 @ concat (map (\<lambda>t. sym ''|'' # type_kinds name t) ts)"
    using single by (cases t) (auto simp: join_bars comp_def)
  have out: "source_text t = source_text t1 @ concat (map (\<lambda>t. u '' | '' @ source_text t) ts)"
    using single by (cases t) (auto simp: source_text_def join_bars comp_def simp del: u_simps)
  have wf: "list_all (\<lambda>t. writable name t \<and> (case t of Union _ \<Rightarrow> False | _ \<Rightarrow> True)) (t1 # ts)"
    "list_all (\<lambda>t. \<not> open_ended t) (butlast (t1 # ts))"
    using single by (cases t; auto)+
  have t1: "reads (if open_ended t1 then type_avoid else nullable_avoid) (parse_nullable_type pt n) (type_kinds name t1) (source_text t1)"
    by (rule reads_nullable) (use wf assms(2,3) kinds in auto)
  have "length (type_kinds name t1 :: 'f token_kind list) > 0" using type_kinds_nonempty [of name t1] wf(1) by simp
  then have len: "length (concat (map (\<lambda>t. sym ''|'' # type_kinds name t) ts) :: 'f token_kind list) < n"
      "length (concat (map (\<lambda>t. sym ''|'' # type_kinds name t) ts) :: 'f token_kind list) \<le> Suc m"
    using assms(2,3) unfolding kinds length_append by linarith+
  have loop: "reads type_avoid (union_loop pt n (source_text t1)) (concat (map (\<lambda>t. sym ''|'' # type_kinds name t) ts))
      (source_text t1 @ concat (map (\<lambda>t. u '' | '' @ source_text t) ts))"
    by (rule reads_union_loop [OF _ _ len]) (use wf in \<open>auto split: if_splits\<close>)
  show ?thesis unfolding kinds out
    by (rule reads_bind [where g = "union_loop pt n", OF t1 loop]) (use wf(2) in \<open>cases ts; auto simp: u_def split: if_splits\<close>)
qed

end

lemma nested_reader_parse_type: "nested_reader (parse_type_n n) name n"
proof (induction n)
  case 0
  show ?case by unfold_locales (use type_kinds_nonempty in force)
next
  case (Suc n)
  show ?case
    by unfold_locales (rule reads_cong [OF parse_type_n.simps(2)], rule nested_reader.reads_type [OF Suc], auto)
qed

interpretation type_readers: nested_reader "parse_type_n n" name n for n name
  by (rule nested_reader_parse_type)

section \<open>From source text to the text of a type\<close>

lemma join_set: "x \<in> set (join sep xs) \<Longrightarrow> x \<in> set sep \<or> (\<exists>y \<in> set xs. x \<in> set y)"
  by (induction sep xs rule: join.induct) auto

lemma no_duration: "k \<in> set (type_kinds name t) \<Longrightarrow> k \<noteq> TokDuration d"
  by (induction name t rule: type_kinds.induct)
    (auto simp: type_name_kinds_def segment_kinds_def split: if_splits option.splits dest!: join_set, blast+)

lemma erase_span_plain: "(\<And>d. k \<noteq> TokDuration d) \<Longrightarrow> erase_span k' = erase_span k \<longleftrightarrow> k' = k"
  by (cases k; cases k') auto

lemma erase_span_list:
  "(\<And>k d. k \<in> set ks \<Longrightarrow> k \<noteq> TokDuration d) \<Longrightarrow> map (erase_span \<circ> tok_kind) toks = map erase_span ks @ [TokEof] \<Longrightarrow>
   map tok_kind toks = ks @ [TokEof]"
proof (induction ks arbitrary: toks)
  case Nil
  then obtain t where "toks = [t]" "erase_span (tok_kind t) = erase_span TokEof" by auto
  then show ?case using erase_span_plain [of TokEof "tok_kind t"] by simp
next
  case (Cons k ks)
  from Cons.prems(2) obtain t ts where toks: "toks = t # ts" "erase_span (tok_kind t) = erase_span k"
      "map (erase_span \<circ> tok_kind) ts = map erase_span ks @ [TokEof]" by (cases toks) (auto simp: comp_def)
  have "tok_kind t = k" using erase_span_plain [of k "tok_kind t"] Cons.prems(1) [of k] toks(2) by simp
  moreover have "map tok_kind ts = ks @ [TokEof]" by (rule Cons.IH [OF Cons.prems(1) toks(3)]) simp
  ultimately show ?case using toks(1) by simp
qed

text \<open>C27: A type written as tokens, with or without white space and comments between them (no token may
  reach into the next, \<open>spaced\<close>), is lexed and parsed to exactly its text, up to the end of the tokens: names
  with their module and segments, generic arguments, records, functions, interfaces, marks and unions.
  The text quotes string literals the way the parser does (\<open>quote_string_type\<close>). The type is one the grammar can
  express: the names have a spelling, unions have no union as operand, an operand of a mark or bar is not a
  function type, and no parameter of a function type is called \<open>inout\<close>.\<close>

theorem written_type_parsed:
  fixes pf :: "ustring \<Rightarrow> 'f option"
  assumes "writable name t" "map fst items = type_kinds name t" "trivia g0"
    "spaced pf items"
  shows "\<exists>toks p. lex pf (g0 @ weave items) = Inr toks \<and> parse_source_type (parser_new toks) = Inr (source_text t, p) \<and> is_at_end p"
proof -
  have "\<exists>toks. lex_all pf (lexer_new (g0 @ weave items)) = Inr toks \<and>
      map (erase_span \<circ> tok_kind) toks = map (erase_span \<circ> fst) items @ [TokEof]"
    by (rule lex_all_weave [OF assms(4,3)]) (simp add: lexer_new_def)
  then obtain toks where toks: "lex pf (g0 @ weave items) = Inr toks" "map (erase_span \<circ> tok_kind) toks = map erase_span (map fst items) @ [TokEof]"
    by (auto simp: lex_def)
  have "map tok_kind toks = type_kinds name t @ [TokEof]"
    using erase_span_list [OF no_duration toks(2) [unfolded assms(2)]] .
  then obtain ts e where ts: "toks = ts @ [e]" "map tok_kind ts = type_kinds name t" "tok_kind e = TokEof"
    by (auto simp: map_eq_append_conv)
  have "reads type_avoid (parse_type_n (length toks + 1) :: 'f type_parser) (type_kinds name t) (source_text t)"
    by (rule type_readers.reads_nested [OF assms(1)]) (use ts(1) arg_cong [OF ts(2), of length] in simp)
  then have "parse_source_type (parser_new toks) = Inr (source_text t, \<lparr>ps_done = rev ts, ps_rest = [e]\<rparr>)"
    using ts by (simp add: reads_def parse_source_type_def parser_new_def follows_def del: parse_type_n.simps)
  moreover have "is_at_end \<lparr>ps_done = rev ts, ps_rest = [e]\<rparr>" using ts(3) by (simp add: is_at_end_def parser_peek_def)
  ultimately show ?thesis using toks(1) by blast
qed

text \<open>Two closing brackets in a row are two tokens.\<close>

definition demo_written :: "(nat token_kind \<times> ustring \<times> ustring) list" where
  "demo_written = [(TokIdent (u ''M''), u ''M'', []), (sym ''<'', u ''<'', []), (TokIdent (u ''N''), u ''N'', []), (sym ''<'', u ''<'', []),
     (TokIdent (u ''A''), u ''A'', []), (sym ''?'', u ''?'', []), (sym ''>'', u ''>'', []), (sym ''>'', u ''>'', [])]"

theorem written_type_parsed_witness:
  "\<exists>toks p. lex demo_float (u ''M<N<A?>>'') = Inr toks \<and> parse_source_type (parser_new toks) = Inr (u ''M<N<A?>>'', p) \<and> is_at_end p"
proof -
  let ?name = "\<lambda>v. \<lparr>tn_head = v, tn_module = None, tn_segments = []\<rparr>"
  let ?t = "Named (u ''M'') [Named (u ''N'') [Nullable (Named (u ''A'') [])]]"
  have ident: "lexeme demo_float (TokIdent [c]) [c]" if "is_ident_start c" for c using lexeme.ident [OF that, of "[]"] by simp
  have symbol: "lexeme demo_float (TokSymbol [c]) [c]" if "c \<in> set one_char_symbols" for c by (rule lexeme.symbol1 [OF that])
  have "spaced demo_float demo_written"
    using ident symbol
    by (simp add: demo_written_def weave_def trivia.none two_char_symbols_def is_ident_start_def is_ident_continue_def is_ascii_alphabetic_def
        is_ascii_digit_def one_char_symbols_def)
  from written_type_parsed [of ?name ?t demo_written "[]" demo_float, OF _ _ trivia.none this]
  show ?thesis
    by (simp add: name_written_def type_name_text_def demo_written_def weave_def type_name_kinds_def segment_kinds_def source_text_def)
qed

end
