(* ===== verification/Bytecode_Opcodes.thy ===== *)
theory Bytecode_Opcodes
  imports Skiff_Prelude
begin

text \<open>
  The instruction set of the bytecode (\<open>artifact-model/src/bytecode/opcodes\<close>): the vocabulary of operand,
  stack, control, pending, failure, source and region contracts (\<open>model.rs\<close>, \<open>typed.rs\<close>, \<open>statement.rs\<close>), the
  table of the 64 instructions (\<open>table.rs\<close>) in the order of the source, and the lookups. The names of the
  catchable platform errors, an enumeration generated at build time, are strings. A panic is \<open>None\<close>.
\<close>

section \<open>Operands\<close>

datatype operand_kind =
    KindImmediate | KindBranch | KindSlot | KindPool | KindTable | KindReloc

datatype (plugins only: code) operand_role =
    RoleSourceSlot | RoleDestinationSlot | RoleSlot | RoleBranchTarget | RoleSwitchTable | RoleRegion
  | RoleActiveRegion | RoleLocalTarget | RoleServiceTarget | RoleActorTarget | RoleInterfaceTarget
  | RoleCallbackTarget | RoleHostTarget | RoleIntrinsicTarget | RoleArgCount | RoleInputCount | RoleResultCount
  | RoleSelectorCount | RoleFailureKind | RoleCaptureCount | RoleFieldCount | RoleMethodOrdinal | RoleFieldOrdinal
  | RoleConstantRef | RoleTypeRef | RoleElementTypeRef | RoleKeyTypeRef | RoleValueTypeRef | RoleShapeRef
  | RoleWritablePathRef | RoleCaptureLayoutRef | RoleResumeRef | RoleCallLoanLayout

datatype (plugins only: code) relocation_kind =
    RelocLocalExecutableRef | RelocPackageCallableRef | RelocServiceOperationRef | RelocActorMethodRef
  | RelocInterfaceRequirementRef | RelocLocalInterfaceRef | RelocRemoteInterfaceRef | RelocSyntheticCallbackRef
  | RelocTaskSubmitRef | RelocHostEffectRef | RelocIntrinsicRef | RelocTypeRef | RelocShapeRef
  | RelocFrozenConstantRef

datatype (plugins only: code) linked_operand_kind =
    LinkedImmediate | LinkedInstruction | LinkedFrameSlot | LinkedSwitchTable | LinkedActiveRegion
  | LinkedCallLoanLayout | LinkedFunction | LinkedServiceOperation | LinkedActorMethod | LinkedInterfaceTable
  | LinkedSyntheticCallback | LinkedHostEffectAdapter | LinkedIntrinsic | LinkedConstant | LinkedType | LinkedShape
  | LinkedWritablePath | LinkedCallbackCaptureLayout | LinkedResumeSite

datatype pool_category =
    PoolConstants | PoolTypes | PoolShapes | PoolEffects | PoolResume | PoolCallbackCapture | PoolWritablePaths

datatype table_category =
    TableExceptionRegions | TableActiveRegions | TableSwitchTables | TableCallLoanLayouts

definition role_operand_kind :: "operand_role \<Rightarrow> operand_kind" where
  "role_operand_kind x =
     (case x of
        RoleSourceSlot \<Rightarrow> KindSlot | RoleDestinationSlot \<Rightarrow> KindSlot | RoleSlot \<Rightarrow> KindSlot
      | RoleBranchTarget \<Rightarrow> KindBranch | RoleSwitchTable \<Rightarrow> KindTable | RoleRegion \<Rightarrow> KindTable
      | RoleActiveRegion \<Rightarrow> KindTable | RoleCallLoanLayout \<Rightarrow> KindTable
      | RoleLocalTarget \<Rightarrow> KindReloc | RoleServiceTarget \<Rightarrow> KindReloc
      | RoleActorTarget \<Rightarrow> KindReloc | RoleInterfaceTarget \<Rightarrow> KindReloc
      | RoleCallbackTarget \<Rightarrow> KindReloc | RoleHostTarget \<Rightarrow> KindReloc
      | RoleIntrinsicTarget \<Rightarrow> KindReloc | RoleArgCount \<Rightarrow> KindImmediate
      | RoleInputCount \<Rightarrow> KindImmediate | RoleResultCount \<Rightarrow> KindImmediate
      | RoleSelectorCount \<Rightarrow> KindImmediate | RoleFailureKind \<Rightarrow> KindImmediate
      | RoleCaptureCount \<Rightarrow> KindImmediate | RoleFieldCount \<Rightarrow> KindImmediate
      | RoleMethodOrdinal \<Rightarrow> KindImmediate | RoleFieldOrdinal \<Rightarrow> KindImmediate
      | RoleConstantRef \<Rightarrow> KindPool | RoleTypeRef \<Rightarrow> KindPool | RoleElementTypeRef \<Rightarrow> KindPool
      | RoleKeyTypeRef \<Rightarrow> KindPool | RoleValueTypeRef \<Rightarrow> KindPool | RoleShapeRef \<Rightarrow> KindPool
      | RoleWritablePathRef \<Rightarrow> KindPool | RoleCaptureLayoutRef \<Rightarrow> KindPool
      | RoleResumeRef \<Rightarrow> KindPool)"

definition role_pool_category :: "operand_role \<Rightarrow> pool_category option" where
  "role_pool_category x =
     (case x of
        RoleConstantRef \<Rightarrow> Some PoolConstants | RoleTypeRef \<Rightarrow> Some PoolTypes
      | RoleElementTypeRef \<Rightarrow> Some PoolTypes | RoleKeyTypeRef \<Rightarrow> Some PoolTypes
      | RoleValueTypeRef \<Rightarrow> Some PoolTypes | RoleShapeRef \<Rightarrow> Some PoolShapes
      | RoleWritablePathRef \<Rightarrow> Some PoolWritablePaths | RoleCaptureLayoutRef \<Rightarrow> Some PoolCallbackCapture
      | RoleResumeRef \<Rightarrow> Some PoolResume | _ \<Rightarrow> None)"

definition role_table_category :: "operand_role \<Rightarrow> table_category option" where
  "role_table_category x =
     (case x of
        RoleSwitchTable \<Rightarrow> Some TableSwitchTables | RoleRegion \<Rightarrow> Some TableExceptionRegions
      | RoleActiveRegion \<Rightarrow> Some TableActiveRegions | RoleCallLoanLayout \<Rightarrow> Some TableCallLoanLayouts
      | _ \<Rightarrow> None)"

definition linked_kind_operand_kind :: "linked_operand_kind \<Rightarrow> operand_kind" where
  "linked_kind_operand_kind x =
     (case x of
        LinkedImmediate \<Rightarrow> KindImmediate | LinkedInstruction \<Rightarrow> KindBranch
      | LinkedFrameSlot \<Rightarrow> KindSlot | LinkedSwitchTable \<Rightarrow> KindTable
      | LinkedActiveRegion \<Rightarrow> KindTable | LinkedCallLoanLayout \<Rightarrow> KindTable
      | LinkedFunction \<Rightarrow> KindReloc | LinkedServiceOperation \<Rightarrow> KindReloc
      | LinkedActorMethod \<Rightarrow> KindReloc | LinkedInterfaceTable \<Rightarrow> KindReloc
      | LinkedSyntheticCallback \<Rightarrow> KindReloc | LinkedHostEffectAdapter \<Rightarrow> KindReloc
      | LinkedIntrinsic \<Rightarrow> KindReloc | LinkedConstant \<Rightarrow> KindPool | LinkedType \<Rightarrow> KindPool
      | LinkedShape \<Rightarrow> KindPool | LinkedWritablePath \<Rightarrow> KindPool
      | LinkedCallbackCaptureLayout \<Rightarrow> KindPool | LinkedResumeSite \<Rightarrow> KindPool)"

definition linked_pool_category :: "linked_operand_kind \<Rightarrow> pool_category option" where
  "linked_pool_category x =
     (case x of
        LinkedConstant \<Rightarrow> Some PoolConstants | LinkedType \<Rightarrow> Some PoolTypes
      | LinkedShape \<Rightarrow> Some PoolShapes | LinkedWritablePath \<Rightarrow> Some PoolWritablePaths
      | LinkedCallbackCaptureLayout \<Rightarrow> Some PoolCallbackCapture | LinkedResumeSite \<Rightarrow> Some PoolResume
      | _ \<Rightarrow> None)"

definition linked_table_category :: "linked_operand_kind \<Rightarrow> table_category option" where
  "linked_table_category x =
     (case x of
        LinkedSwitchTable \<Rightarrow> Some TableSwitchTables | LinkedActiveRegion \<Rightarrow> Some TableActiveRegions
      | LinkedCallLoanLayout \<Rightarrow> Some TableCallLoanLayouts | _ \<Rightarrow> None)"

datatype operand_spec =
  OperandSpec (os_kind: operand_kind) (os_role: operand_role) (os_linked_kind: linked_operand_kind) (os_relocations: "relocation_kind list")

text \<open>The assertions of \<open>OperandSpec::new\<close>, evaluated when the table is compiled.\<close>

definition operand_spec_asserts :: "operand_spec \<Rightarrow> bool" where
  "operand_spec_asserts s \<longleftrightarrow>
     os_kind s = linked_kind_operand_kind (os_linked_kind s) \<and> os_kind s = role_operand_kind (os_role s) \<and>
     (os_kind s = KindReloc \<or> os_relocations s = []) \<and> (os_kind s \<noteq> KindReloc \<or> os_relocations s \<noteq> [])"

section \<open>Contracts\<close>

datatype arity =
    ArityFixed nat | ArityDeclared operand_role | ArityFunctionResultCount

datatype (plugins only: code) value_source =
    ValAnyStackValue | ValBool | ValNumber | ValCollectionIndex | ValTaggedValue | ValConstant operand_role
  | ValSlot operand_role | ValStackInput nat | ValTargetParameters operand_role
  | ValInOutCallInputs operand_role operand_role | ValTargetResults operand_role | ValFunctionResults
  | ValInterfaceReceiver operand_role | ValInterfaceCarrier operand_role | ValCallbackCaptures operand_role
  | ValCallbackClosure operand_role | ValShapeFields operand_role | ValShapeValue operand_role
  | ValShapeField operand_role operand_role | ValWritablePathSelectors operand_role
  | ValWritablePathLeaf operand_role | ValRepresentationPayload operand_role | ValRepresentationValue operand_role
  | ValArrayBuilder operand_role | ValArrayValue | ValArrayFromBuilder nat | ValArrayElement nat
  | ValArrayElementFromSlot operand_role | ValMapBuilder operand_role operand_role | ValMapValue
  | ValMapFromBuilder nat | ValMapKey nat | ValMapElement nat | ValMapKeyFromSlot operand_role
  | ValMapElementFromSlot operand_role | ValStreamItem operand_role | ValFunctionStreamItem
  | ValExceptionPayload operand_role | ValExceptionEnvelope operand_role | ValComparablePair

definition value_operand :: "value_source \<Rightarrow> operand_role option" where
  "value_operand x =
     (case x of
        ValConstant r \<Rightarrow> Some r | ValSlot r \<Rightarrow> Some r | ValTargetParameters r \<Rightarrow> Some r
      | ValTargetResults r \<Rightarrow> Some r | ValInterfaceReceiver r \<Rightarrow> Some r
      | ValInterfaceCarrier r \<Rightarrow> Some r | ValCallbackCaptures r \<Rightarrow> Some r
      | ValCallbackClosure r \<Rightarrow> Some r | ValShapeFields r \<Rightarrow> Some r | ValShapeValue r \<Rightarrow> Some r
      | ValWritablePathSelectors r \<Rightarrow> Some r | ValWritablePathLeaf r \<Rightarrow> Some r
      | ValRepresentationPayload r \<Rightarrow> Some r | ValRepresentationValue r \<Rightarrow> Some r
      | ValArrayBuilder r \<Rightarrow> Some r | ValArrayElementFromSlot r \<Rightarrow> Some r
      | ValMapKeyFromSlot r \<Rightarrow> Some r | ValMapElementFromSlot r \<Rightarrow> Some r
      | ValStreamItem r \<Rightarrow> Some r | ValExceptionPayload r \<Rightarrow> Some r
      | ValExceptionEnvelope r \<Rightarrow> Some r | ValInOutCallInputs r _ \<Rightarrow> Some r
      | ValShapeField r _ \<Rightarrow> Some r | ValMapBuilder r _ \<Rightarrow> Some r | _ \<Rightarrow> None)"

definition value_secondary_operand :: "value_source \<Rightarrow> operand_role option" where
  "value_secondary_operand x =
     (case x of
        ValInOutCallInputs _ r \<Rightarrow> Some r | ValShapeField _ r \<Rightarrow> Some r | ValMapBuilder _ r \<Rightarrow> Some r
      | _ \<Rightarrow> None)"

definition value_input_group :: "value_source \<Rightarrow> nat option" where
  "value_input_group x =
     (case x of
        ValStackInput n \<Rightarrow> Some n | ValArrayFromBuilder n \<Rightarrow> Some n | ValArrayElement n \<Rightarrow> Some n
      | ValMapFromBuilder n \<Rightarrow> Some n | ValMapKey n \<Rightarrow> Some n | ValMapElement n \<Rightarrow> Some n
      | _ \<Rightarrow> None)"

datatype stack_group = StackGroup (sg_arity: arity) (sg_value: value_source)

datatype slot_action =
    SlotRead | SlotReadShare | SlotTake | SlotWrite | SlotDrop | SlotMutate

datatype slot_effect = SlotEffect (se_operand: operand_role) (se_action: slot_action) (se_value: value_source)

datatype slot_contract = SlotsNone | SlotsEffects "slot_effect list" | SlotsInOutCallLoans operand_role operand_role

datatype branch_when =
    WhenTrue | WhenFalse

datatype control_contract =
    ControlFallthrough | ControlJump operand_role | ControlBranch operand_role branch_when
  | ControlSwitch operand_role | ControlReturn | ControlTailCall | ControlRaise | ControlRethrow

datatype pending_mode =
    ModeServiceBoundary | ModeActorBoundary | ModeInterfaceBoundary | ModeCallbackBoundary | ModeHostEffect
  | ModeStreamRead | ModeStreamBackpressure

datatype pending_contract =
    PendingNever | PendingTransitiveTarget operand_role | PendingNoPendingTarget operand_role operand_role
  | PendingActualWithResume operand_role pending_mode

datatype failure_kind =
    FailAssertion | FailBudgetStop | FailScalarNonFinite | FailDivideByZero | FailCollectionIndexOutOfBounds
  | FailCollectionMissingKey | FailWritablePathIntermediateMissingKey | FailMapEntryIndexOutOfBounds
  | FailWritablePathTypeInvariant | FailWritablePathCowInvariant

datatype failure_trigger =
    OnAssertionFalse | OnBudgetExceeded | OnNonFiniteResult | OnZeroDivisorIncludingNegativeZero | OnIndexOutOfBounds
  | OnMissingKey | OnIntermediateMissingKey | OnInternalTypeInvariant | OnInternalCowInvariant

datatype failure_disposition =
    FailsCatchable string | FailsUncatchableTerminal | FailsInvariantTerminal

datatype failure_contract = FailureContract (fc_kind: failure_kind) (fc_trigger: failure_trigger) (fc_disposition: failure_disposition)

definition failure_catchable :: "failure_kind \<Rightarrow> failure_trigger \<Rightarrow> string \<Rightarrow> failure_contract" where
  "failure_catchable k t key = FailureContract k t (FailsCatchable key)"

definition failure_terminal :: "failure_kind \<Rightarrow> failure_trigger \<Rightarrow> failure_contract" where
  "failure_terminal k t = FailureContract k t FailsUncatchableTerminal"

definition failure_invariant :: "failure_kind \<Rightarrow> failure_trigger \<Rightarrow> failure_contract" where
  "failure_invariant k t = FailureContract k t FailsInvariantTerminal"

datatype timeout_attribution =
    AttributeActiveRegionSite

datatype checkpoint_contract =
    CheckpointNone | CheckpointBudget failure_disposition timeout_attribution

datatype exception_behavior =
    ExcNone | ExcPropagateTarget operand_role | ExcRaiseAtCurrentSite | ExcThrowValue operand_role
  | ExcPreserveOriginal operand_role

datatype exception_contract = ExceptionContract (ec_behavior: exception_behavior) (ec_failures: "failure_contract list")

datatype source_use =
    UseAssertion | UseCallSite | UseEffectSite | UseStreamSite | UseThrowOrigin | UseGeneratedFailure
  | UseInstructionFailure

datatype source_origin_constraint =
    OriginSourceOrSynthetic | OriginSyntheticOnly

datatype source_contract =
    SourceNone | SourceRequired source_use source_origin_constraint | SourcePreserveOriginal
  | SourceActiveRegion operand_role

fun requires_source_map :: "source_contract \<Rightarrow> bool" where
  "requires_source_map (SourceRequired _ _) = True"
| "requires_source_map _ = False"

datatype region_effect =
    RegionNotApplicable | RegionPreserve | RegionEnter operand_role | RegionLeave operand_role | RegionExitFunction
  | RegionTailReplace | RegionUnwind

datatype region_contract = RegionContract (rc_normal: region_effect) (rc_raised: region_effect)

datatype (plugins only: code) capability_requirement =
    CapShareableValue | CapMovableValue | CapDroppableValue | CapNominalTag | CapExactLocalTarget | CapInOutLoan
  | CapNoPendingTarget | CapTailEligible | CapLocalInterfaceTable | CapRemoteInterfaceTable | CapCallbackCapture
  | CapCallbackInvocation | CapVerifiedShape | CapAffineFieldTake | CapVerifiedWritablePath | CapRepresentationType
  | CapArrayBuilderToken | CapMapBuilderToken | CapCanonicalMapSnapshot | CapWritablePathFinalMapUpsert
  | CapInternalGenerated | CapStreamConsumer | CapStreamProducer | CapTrustedHostAdapter | CapTrustedIntrinsic

datatype statement_charge_kind =
    ChargeFunctionEntry | ChargeStatement | ChargeExpression | ChargeLocalCall | ChargeTailHop | ChargeLoopCheck
  | ChargeGeneratedChunk

datatype statement_attribution_class = ClassStatement | ClassExpression | ClassGenerated

datatype statement_contract = StmtNone | StmtRequiredEvent statement_charge_kind statement_attribution_class

fun default_statement_charge_kind_for_attribution :: "statement_attribution_class \<Rightarrow> statement_charge_kind" where
  "default_statement_charge_kind_for_attribution ClassStatement = ChargeStatement"
| "default_statement_charge_kind_for_attribution ClassExpression = ChargeExpression"
| "default_statement_charge_kind_for_attribution ClassGenerated = ChargeGeneratedChunk"

section \<open>The table\<close>

datatype (plugins only: code) opcode =
    OpcConst | OpcCopySlot | OpcMoveSlot | OpcStoreSlot | OpcDrop | OpcDup | OpcLoadSlot | OpcTakeSlot
  | OpcPop | OpcJump | OpcJumpIfTrue | OpcJumpIfFalse | OpcSwitchTag | OpcBudgetCheckpoint | OpcTrap | OpcCallLocal
  | OpcTailCallLocal | OpcCallService | OpcCallActor | OpcCallInterface | OpcReturn | OpcCallLocalInOut
  | OpcInterfaceBoxLocal | OpcInterfaceBoxRemote | OpcMakeCallback | OpcInvokeCallback | OpcNewRecord
  | OpcGetDenseField | OpcSetWritablePath | OpcRepresentationWrap | OpcTakeDenseField | OpcNewArrayBuilder
  | OpcArrayBuilderPush | OpcFreezeArray | OpcArrayGet | OpcArrayPushOwned | OpcNewMapBuilder | OpcMapBuilderPut
  | OpcFreezeMap | OpcMapGet | OpcMapPutOwned | OpcArrayLen | OpcMapLen | OpcMapEntryAt | OpcStreamNext
  | OpcEmitStream | OpcThrow | OpcRethrow | OpcEnterRegion | OpcLeaveRegion | OpcInvokeHost | OpcInvokeIntrinsic
  | OpcNot | OpcNegate | OpcAdd | OpcSubtract | OpcMultiply | OpcDivide | OpcEqual | OpcNotEqual | OpcLessThan
  | OpcLessOrEqual | OpcGreaterThan | OpcGreaterOrEqual

record opcode_contract =
  oc_kind :: opcode
  oc_opcode :: nat
  oc_mnemonic :: string
  oc_operands :: "operand_spec list"
  oc_stack_in :: "stack_group list"
  oc_stack_out :: "stack_group list"
  oc_slots :: slot_contract
  oc_control :: control_contract
  oc_pending :: pending_contract
  oc_checkpoint :: checkpoint_contract
  oc_exception :: exception_contract
  oc_statement :: statement_contract
  oc_source :: source_contract
  oc_region :: region_contract
  oc_capabilities :: "capability_requirement list"

definition slot_rows :: "opcode_contract list" where
  "slot_rows =
 [
  \<lparr>oc_kind = OpcConst, oc_opcode = 0, oc_mnemonic = ''const'',
    oc_operands = [OperandSpec KindPool RoleConstantRef LinkedConstant []],
    oc_stack_in = [], oc_stack_out = [StackGroup (ArityFixed 1) (ValConstant RoleConstantRef)],
    oc_slots = SlotsNone,
    oc_control = ControlFallthrough, oc_pending = PendingNever, oc_checkpoint = CheckpointNone,
    oc_exception = ExceptionContract ExcNone [],
    oc_statement = StmtNone, oc_source = SourceNone,
    oc_region = RegionContract RegionPreserve RegionNotApplicable, oc_capabilities = []\<rparr>,
  \<lparr>oc_kind = OpcCopySlot, oc_opcode = 1, oc_mnemonic = ''copy_slot'',
    oc_operands = [OperandSpec KindSlot RoleSourceSlot LinkedFrameSlot [], OperandSpec KindSlot RoleDestinationSlot LinkedFrameSlot []],
    oc_stack_in = [], oc_stack_out = [],
    oc_slots = SlotsEffects [SlotEffect RoleSourceSlot SlotReadShare (ValSlot RoleSourceSlot), SlotEffect RoleDestinationSlot SlotWrite (ValSlot RoleSourceSlot)],
    oc_control = ControlFallthrough, oc_pending = PendingNever, oc_checkpoint = CheckpointNone,
    oc_exception = ExceptionContract ExcNone [],
    oc_statement = StmtNone, oc_source = SourceNone,
    oc_region = RegionContract RegionPreserve RegionNotApplicable, oc_capabilities = [CapShareableValue]\<rparr>,
  \<lparr>oc_kind = OpcMoveSlot, oc_opcode = 2, oc_mnemonic = ''move_slot'',
    oc_operands = [OperandSpec KindSlot RoleSourceSlot LinkedFrameSlot [], OperandSpec KindSlot RoleDestinationSlot LinkedFrameSlot []],
    oc_stack_in = [], oc_stack_out = [],
    oc_slots = SlotsEffects [SlotEffect RoleSourceSlot SlotTake (ValSlot RoleSourceSlot), SlotEffect RoleDestinationSlot SlotWrite (ValSlot RoleSourceSlot)],
    oc_control = ControlFallthrough, oc_pending = PendingNever, oc_checkpoint = CheckpointNone,
    oc_exception = ExceptionContract ExcNone [],
    oc_statement = StmtNone, oc_source = SourceNone,
    oc_region = RegionContract RegionPreserve RegionNotApplicable, oc_capabilities = [CapMovableValue]\<rparr>,
  \<lparr>oc_kind = OpcStoreSlot, oc_opcode = 3, oc_mnemonic = ''store_slot'',
    oc_operands = [OperandSpec KindSlot RoleDestinationSlot LinkedFrameSlot []],
    oc_stack_in = [StackGroup (ArityFixed 1) ValAnyStackValue], oc_stack_out = [],
    oc_slots = SlotsEffects [SlotEffect RoleDestinationSlot SlotWrite (ValStackInput 0)],
    oc_control = ControlFallthrough, oc_pending = PendingNever, oc_checkpoint = CheckpointNone,
    oc_exception = ExceptionContract ExcNone [],
    oc_statement = StmtNone, oc_source = SourceNone,
    oc_region = RegionContract RegionPreserve RegionNotApplicable, oc_capabilities = [CapMovableValue]\<rparr>,
  \<lparr>oc_kind = OpcDrop, oc_opcode = 4, oc_mnemonic = ''drop'',
    oc_operands = [OperandSpec KindSlot RoleSlot LinkedFrameSlot []],
    oc_stack_in = [], oc_stack_out = [],
    oc_slots = SlotsEffects [SlotEffect RoleSlot SlotDrop (ValSlot RoleSlot)],
    oc_control = ControlFallthrough, oc_pending = PendingNever, oc_checkpoint = CheckpointNone,
    oc_exception = ExceptionContract ExcNone [],
    oc_statement = StmtNone, oc_source = SourceNone,
    oc_region = RegionContract RegionPreserve RegionNotApplicable, oc_capabilities = [CapDroppableValue]\<rparr>,
  \<lparr>oc_kind = OpcDup, oc_opcode = 5, oc_mnemonic = ''dup'',
    oc_operands = [],
    oc_stack_in = [StackGroup (ArityFixed 1) ValAnyStackValue], oc_stack_out = [StackGroup (ArityFixed 2) (ValStackInput 0)],
    oc_slots = SlotsNone,
    oc_control = ControlFallthrough, oc_pending = PendingNever, oc_checkpoint = CheckpointNone,
    oc_exception = ExceptionContract ExcNone [],
    oc_statement = StmtNone, oc_source = SourceNone,
    oc_region = RegionContract RegionPreserve RegionNotApplicable, oc_capabilities = [CapShareableValue]\<rparr>,
  \<lparr>oc_kind = OpcLoadSlot, oc_opcode = 6, oc_mnemonic = ''load_slot'',
    oc_operands = [OperandSpec KindSlot RoleSourceSlot LinkedFrameSlot []],
    oc_stack_in = [], oc_stack_out = [StackGroup (ArityFixed 1) (ValSlot RoleSourceSlot)],
    oc_slots = SlotsEffects [SlotEffect RoleSourceSlot SlotReadShare (ValSlot RoleSourceSlot)],
    oc_control = ControlFallthrough, oc_pending = PendingNever, oc_checkpoint = CheckpointNone,
    oc_exception = ExceptionContract ExcNone [],
    oc_statement = StmtNone, oc_source = SourceNone,
    oc_region = RegionContract RegionPreserve RegionNotApplicable, oc_capabilities = [CapShareableValue]\<rparr>,
  \<lparr>oc_kind = OpcTakeSlot, oc_opcode = 7, oc_mnemonic = ''take_slot'',
    oc_operands = [OperandSpec KindSlot RoleSourceSlot LinkedFrameSlot []],
    oc_stack_in = [], oc_stack_out = [StackGroup (ArityFixed 1) (ValSlot RoleSourceSlot)],
    oc_slots = SlotsEffects [SlotEffect RoleSourceSlot SlotTake (ValSlot RoleSourceSlot)],
    oc_control = ControlFallthrough, oc_pending = PendingNever, oc_checkpoint = CheckpointNone,
    oc_exception = ExceptionContract ExcNone [],
    oc_statement = StmtNone, oc_source = SourceNone,
    oc_region = RegionContract RegionPreserve RegionNotApplicable, oc_capabilities = [CapMovableValue]\<rparr>,
  \<lparr>oc_kind = OpcPop, oc_opcode = 8, oc_mnemonic = ''pop'',
    oc_operands = [],
    oc_stack_in = [StackGroup (ArityFixed 1) ValAnyStackValue], oc_stack_out = [],
    oc_slots = SlotsNone,
    oc_control = ControlFallthrough, oc_pending = PendingNever, oc_checkpoint = CheckpointNone,
    oc_exception = ExceptionContract ExcNone [],
    oc_statement = StmtNone, oc_source = SourceNone,
    oc_region = RegionContract RegionPreserve RegionNotApplicable, oc_capabilities = [CapDroppableValue]\<rparr> ]"

definition flow_rows :: "opcode_contract list" where
  "flow_rows =
 [
  \<lparr>oc_kind = OpcJump, oc_opcode = 16, oc_mnemonic = ''jump'',
    oc_operands = [OperandSpec KindBranch RoleBranchTarget LinkedInstruction []],
    oc_stack_in = [], oc_stack_out = [],
    oc_slots = SlotsNone,
    oc_control = ControlJump RoleBranchTarget, oc_pending = PendingNever, oc_checkpoint = CheckpointNone,
    oc_exception = ExceptionContract ExcNone [],
    oc_statement = StmtNone, oc_source = SourceNone,
    oc_region = RegionContract RegionPreserve RegionNotApplicable, oc_capabilities = []\<rparr>,
  \<lparr>oc_kind = OpcJumpIfTrue, oc_opcode = 17, oc_mnemonic = ''jump_if_true'',
    oc_operands = [OperandSpec KindBranch RoleBranchTarget LinkedInstruction []],
    oc_stack_in = [StackGroup (ArityFixed 1) ValBool], oc_stack_out = [],
    oc_slots = SlotsNone,
    oc_control = ControlBranch RoleBranchTarget WhenTrue, oc_pending = PendingNever, oc_checkpoint = CheckpointNone,
    oc_exception = ExceptionContract ExcNone [],
    oc_statement = StmtNone, oc_source = SourceNone,
    oc_region = RegionContract RegionPreserve RegionNotApplicable, oc_capabilities = []\<rparr>,
  \<lparr>oc_kind = OpcJumpIfFalse, oc_opcode = 18, oc_mnemonic = ''jump_if_false'',
    oc_operands = [OperandSpec KindBranch RoleBranchTarget LinkedInstruction []],
    oc_stack_in = [StackGroup (ArityFixed 1) ValBool], oc_stack_out = [],
    oc_slots = SlotsNone,
    oc_control = ControlBranch RoleBranchTarget WhenFalse, oc_pending = PendingNever, oc_checkpoint = CheckpointNone,
    oc_exception = ExceptionContract ExcNone [],
    oc_statement = StmtNone, oc_source = SourceNone,
    oc_region = RegionContract RegionPreserve RegionNotApplicable, oc_capabilities = []\<rparr>,
  \<lparr>oc_kind = OpcSwitchTag, oc_opcode = 19, oc_mnemonic = ''switch_tag'',
    oc_operands = [OperandSpec KindTable RoleSwitchTable LinkedSwitchTable []],
    oc_stack_in = [StackGroup (ArityFixed 1) ValTaggedValue], oc_stack_out = [],
    oc_slots = SlotsNone,
    oc_control = ControlSwitch RoleSwitchTable, oc_pending = PendingNever, oc_checkpoint = CheckpointNone,
    oc_exception = ExceptionContract ExcNone [],
    oc_statement = StmtNone, oc_source = SourceNone,
    oc_region = RegionContract RegionPreserve RegionNotApplicable, oc_capabilities = [CapNominalTag]\<rparr>,
  \<lparr>oc_kind = OpcBudgetCheckpoint, oc_opcode = 20, oc_mnemonic = ''budget_checkpoint'',
    oc_operands = [],
    oc_stack_in = [], oc_stack_out = [],
    oc_slots = SlotsNone,
    oc_control = ControlFallthrough, oc_pending = PendingNever, oc_checkpoint = CheckpointBudget FailsUncatchableTerminal AttributeActiveRegionSite,
    oc_exception = ExceptionContract ExcNone [failure_terminal FailBudgetStop OnBudgetExceeded],
    oc_statement = StmtRequiredEvent ChargeLoopCheck ClassGenerated, oc_source = SourceRequired UseGeneratedFailure OriginSyntheticOnly,
    oc_region = RegionContract RegionPreserve RegionUnwind, oc_capabilities = []\<rparr>,
  \<lparr>oc_kind = OpcTrap, oc_opcode = 21, oc_mnemonic = ''trap'',
    oc_operands = [OperandSpec KindImmediate RoleFailureKind LinkedImmediate []],
    oc_stack_in = [StackGroup (ArityFixed 1) ValBool], oc_stack_out = [],
    oc_slots = SlotsNone,
    oc_control = ControlFallthrough, oc_pending = PendingNever, oc_checkpoint = CheckpointNone,
    oc_exception = ExceptionContract ExcNone [failure_terminal FailAssertion OnAssertionFalse],
    oc_statement = StmtNone, oc_source = SourceRequired UseAssertion OriginSourceOrSynthetic,
    oc_region = RegionContract RegionPreserve RegionUnwind, oc_capabilities = []\<rparr> ]"

definition call_rows :: "opcode_contract list" where
  "call_rows =
 [
  \<lparr>oc_kind = OpcCallLocal, oc_opcode = 32, oc_mnemonic = ''call_local'',
    oc_operands = [OperandSpec KindReloc RoleLocalTarget LinkedFunction [RelocLocalExecutableRef, RelocPackageCallableRef], OperandSpec KindImmediate RoleArgCount LinkedImmediate [], OperandSpec KindImmediate RoleResultCount LinkedImmediate []],
    oc_stack_in = [StackGroup (ArityDeclared RoleArgCount) (ValTargetParameters RoleLocalTarget)], oc_stack_out = [StackGroup (ArityDeclared RoleResultCount) (ValTargetResults RoleLocalTarget)],
    oc_slots = SlotsNone,
    oc_control = ControlFallthrough, oc_pending = PendingTransitiveTarget RoleLocalTarget, oc_checkpoint = CheckpointNone,
    oc_exception = ExceptionContract (ExcPropagateTarget RoleLocalTarget) [],
    oc_statement = StmtRequiredEvent ChargeLocalCall ClassExpression, oc_source = SourceRequired UseCallSite OriginSourceOrSynthetic,
    oc_region = RegionContract RegionPreserve RegionUnwind, oc_capabilities = [CapExactLocalTarget]\<rparr>,
  \<lparr>oc_kind = OpcTailCallLocal, oc_opcode = 33, oc_mnemonic = ''tail_call_local'',
    oc_operands = [OperandSpec KindReloc RoleLocalTarget LinkedFunction [RelocLocalExecutableRef, RelocPackageCallableRef], OperandSpec KindImmediate RoleArgCount LinkedImmediate []],
    oc_stack_in = [StackGroup (ArityDeclared RoleArgCount) (ValTargetParameters RoleLocalTarget)], oc_stack_out = [],
    oc_slots = SlotsNone,
    oc_control = ControlTailCall, oc_pending = PendingTransitiveTarget RoleLocalTarget, oc_checkpoint = CheckpointNone,
    oc_exception = ExceptionContract (ExcPropagateTarget RoleLocalTarget) [],
    oc_statement = StmtRequiredEvent ChargeTailHop ClassExpression, oc_source = SourceRequired UseCallSite OriginSourceOrSynthetic,
    oc_region = RegionContract RegionTailReplace RegionUnwind, oc_capabilities = [CapExactLocalTarget, CapTailEligible]\<rparr>,
  \<lparr>oc_kind = OpcCallService, oc_opcode = 34, oc_mnemonic = ''call_service'',
    oc_operands = [OperandSpec KindReloc RoleServiceTarget LinkedServiceOperation [RelocServiceOperationRef], OperandSpec KindImmediate RoleArgCount LinkedImmediate [], OperandSpec KindImmediate RoleResultCount LinkedImmediate [], OperandSpec KindPool RoleResumeRef LinkedResumeSite []],
    oc_stack_in = [StackGroup (ArityDeclared RoleArgCount) (ValTargetParameters RoleServiceTarget)], oc_stack_out = [StackGroup (ArityDeclared RoleResultCount) (ValTargetResults RoleServiceTarget)],
    oc_slots = SlotsNone,
    oc_control = ControlFallthrough, oc_pending = PendingActualWithResume RoleResumeRef ModeServiceBoundary, oc_checkpoint = CheckpointNone,
    oc_exception = ExceptionContract ExcRaiseAtCurrentSite [],
    oc_statement = StmtNone, oc_source = SourceRequired UseCallSite OriginSourceOrSynthetic,
    oc_region = RegionContract RegionPreserve RegionUnwind, oc_capabilities = []\<rparr>,
  \<lparr>oc_kind = OpcCallActor, oc_opcode = 35, oc_mnemonic = ''call_actor'',
    oc_operands = [OperandSpec KindReloc RoleActorTarget LinkedActorMethod [RelocActorMethodRef], OperandSpec KindImmediate RoleArgCount LinkedImmediate [], OperandSpec KindImmediate RoleResultCount LinkedImmediate [], OperandSpec KindPool RoleResumeRef LinkedResumeSite []],
    oc_stack_in = [StackGroup (ArityDeclared RoleArgCount) (ValTargetParameters RoleActorTarget)], oc_stack_out = [StackGroup (ArityDeclared RoleResultCount) (ValTargetResults RoleActorTarget)],
    oc_slots = SlotsNone,
    oc_control = ControlFallthrough, oc_pending = PendingActualWithResume RoleResumeRef ModeActorBoundary, oc_checkpoint = CheckpointNone,
    oc_exception = ExceptionContract ExcRaiseAtCurrentSite [],
    oc_statement = StmtNone, oc_source = SourceRequired UseCallSite OriginSourceOrSynthetic,
    oc_region = RegionContract RegionPreserve RegionUnwind, oc_capabilities = []\<rparr>,
  \<lparr>oc_kind = OpcCallInterface, oc_opcode = 36, oc_mnemonic = ''call_interface'',
    oc_operands = [OperandSpec KindReloc RoleInterfaceTarget LinkedInterfaceTable [RelocInterfaceRequirementRef, RelocRemoteInterfaceRef], OperandSpec KindImmediate RoleMethodOrdinal LinkedImmediate [], OperandSpec KindImmediate RoleArgCount LinkedImmediate [], OperandSpec KindImmediate RoleResultCount LinkedImmediate [], OperandSpec KindPool RoleResumeRef LinkedResumeSite []],
    oc_stack_in = [StackGroup (ArityFixed 1) (ValInterfaceCarrier RoleInterfaceTarget), StackGroup (ArityDeclared RoleArgCount) (ValTargetParameters RoleInterfaceTarget)], oc_stack_out = [StackGroup (ArityDeclared RoleResultCount) (ValTargetResults RoleInterfaceTarget)],
    oc_slots = SlotsNone,
    oc_control = ControlFallthrough, oc_pending = PendingActualWithResume RoleResumeRef ModeInterfaceBoundary, oc_checkpoint = CheckpointNone,
    oc_exception = ExceptionContract ExcRaiseAtCurrentSite [],
    oc_statement = StmtNone, oc_source = SourceRequired UseCallSite OriginSourceOrSynthetic,
    oc_region = RegionContract RegionPreserve RegionUnwind, oc_capabilities = []\<rparr>,
  \<lparr>oc_kind = OpcReturn, oc_opcode = 37, oc_mnemonic = ''return'',
    oc_operands = [],
    oc_stack_in = [StackGroup ArityFunctionResultCount ValFunctionResults], oc_stack_out = [],
    oc_slots = SlotsNone,
    oc_control = ControlReturn, oc_pending = PendingNever, oc_checkpoint = CheckpointNone,
    oc_exception = ExceptionContract ExcNone [],
    oc_statement = StmtNone, oc_source = SourceNone,
    oc_region = RegionContract RegionExitFunction RegionNotApplicable, oc_capabilities = []\<rparr>,
  \<lparr>oc_kind = OpcCallLocalInOut, oc_opcode = 38, oc_mnemonic = ''call_local_inout'',
    oc_operands = [OperandSpec KindReloc RoleLocalTarget LinkedFunction [RelocLocalExecutableRef, RelocPackageCallableRef], OperandSpec KindImmediate RoleInputCount LinkedImmediate [], OperandSpec KindImmediate RoleResultCount LinkedImmediate [], OperandSpec KindTable RoleCallLoanLayout LinkedCallLoanLayout []],
    oc_stack_in = [StackGroup (ArityDeclared RoleInputCount) (ValInOutCallInputs RoleLocalTarget RoleCallLoanLayout)], oc_stack_out = [StackGroup (ArityDeclared RoleResultCount) (ValTargetResults RoleLocalTarget)],
    oc_slots = SlotsInOutCallLoans RoleLocalTarget RoleCallLoanLayout,
    oc_control = ControlFallthrough, oc_pending = PendingNoPendingTarget RoleLocalTarget RoleCallLoanLayout, oc_checkpoint = CheckpointNone,
    oc_exception = ExceptionContract (ExcPropagateTarget RoleLocalTarget) [],
    oc_statement = StmtRequiredEvent ChargeLocalCall ClassExpression, oc_source = SourceRequired UseCallSite OriginSourceOrSynthetic,
    oc_region = RegionContract RegionPreserve RegionUnwind, oc_capabilities = [CapExactLocalTarget, CapInOutLoan, CapNoPendingTarget]\<rparr> ]"

definition callback_rows :: "opcode_contract list" where
  "callback_rows =
 [
  \<lparr>oc_kind = OpcInterfaceBoxLocal, oc_opcode = 48, oc_mnemonic = ''interface_box_local'',
    oc_operands = [OperandSpec KindReloc RoleInterfaceTarget LinkedInterfaceTable [RelocLocalInterfaceRef]],
    oc_stack_in = [StackGroup (ArityFixed 1) (ValInterfaceReceiver RoleInterfaceTarget)], oc_stack_out = [StackGroup (ArityFixed 1) (ValInterfaceCarrier RoleInterfaceTarget)],
    oc_slots = SlotsNone,
    oc_control = ControlFallthrough, oc_pending = PendingNever, oc_checkpoint = CheckpointNone,
    oc_exception = ExceptionContract ExcNone [],
    oc_statement = StmtNone, oc_source = SourceNone,
    oc_region = RegionContract RegionPreserve RegionNotApplicable, oc_capabilities = [CapLocalInterfaceTable]\<rparr>,
  \<lparr>oc_kind = OpcInterfaceBoxRemote, oc_opcode = 49, oc_mnemonic = ''interface_box_remote'',
    oc_operands = [OperandSpec KindReloc RoleInterfaceTarget LinkedInterfaceTable [RelocRemoteInterfaceRef]],
    oc_stack_in = [], oc_stack_out = [StackGroup (ArityFixed 1) (ValInterfaceCarrier RoleInterfaceTarget)],
    oc_slots = SlotsNone,
    oc_control = ControlFallthrough, oc_pending = PendingNever, oc_checkpoint = CheckpointNone,
    oc_exception = ExceptionContract ExcNone [],
    oc_statement = StmtNone, oc_source = SourceNone,
    oc_region = RegionContract RegionPreserve RegionNotApplicable, oc_capabilities = [CapRemoteInterfaceTable]\<rparr>,
  \<lparr>oc_kind = OpcMakeCallback, oc_opcode = 50, oc_mnemonic = ''make_callback'',
    oc_operands = [OperandSpec KindReloc RoleCallbackTarget LinkedSyntheticCallback [RelocSyntheticCallbackRef], OperandSpec KindPool RoleCaptureLayoutRef LinkedCallbackCaptureLayout [], OperandSpec KindImmediate RoleCaptureCount LinkedImmediate []],
    oc_stack_in = [StackGroup (ArityDeclared RoleCaptureCount) (ValCallbackCaptures RoleCaptureLayoutRef)], oc_stack_out = [StackGroup (ArityFixed 1) (ValCallbackClosure RoleCallbackTarget)],
    oc_slots = SlotsNone,
    oc_control = ControlFallthrough, oc_pending = PendingNever, oc_checkpoint = CheckpointNone,
    oc_exception = ExceptionContract ExcNone [],
    oc_statement = StmtNone, oc_source = SourceNone,
    oc_region = RegionContract RegionPreserve RegionNotApplicable, oc_capabilities = [CapCallbackCapture]\<rparr>,
  \<lparr>oc_kind = OpcInvokeCallback, oc_opcode = 51, oc_mnemonic = ''invoke_callback'',
    oc_operands = [OperandSpec KindReloc RoleInterfaceTarget LinkedInterfaceTable [RelocInterfaceRequirementRef], OperandSpec KindImmediate RoleMethodOrdinal LinkedImmediate [], OperandSpec KindImmediate RoleArgCount LinkedImmediate [], OperandSpec KindImmediate RoleResultCount LinkedImmediate [], OperandSpec KindPool RoleResumeRef LinkedResumeSite []],
    oc_stack_in = [StackGroup (ArityFixed 1) (ValInterfaceCarrier RoleInterfaceTarget), StackGroup (ArityDeclared RoleArgCount) (ValTargetParameters RoleInterfaceTarget)], oc_stack_out = [StackGroup (ArityDeclared RoleResultCount) (ValTargetResults RoleInterfaceTarget)],
    oc_slots = SlotsNone,
    oc_control = ControlFallthrough, oc_pending = PendingActualWithResume RoleResumeRef ModeCallbackBoundary, oc_checkpoint = CheckpointNone,
    oc_exception = ExceptionContract ExcRaiseAtCurrentSite [],
    oc_statement = StmtNone, oc_source = SourceRequired UseCallSite OriginSourceOrSynthetic,
    oc_region = RegionContract RegionPreserve RegionUnwind, oc_capabilities = [CapCallbackInvocation]\<rparr> ]"

definition record_rows :: "opcode_contract list" where
  "record_rows =
 [
  \<lparr>oc_kind = OpcNewRecord, oc_opcode = 64, oc_mnemonic = ''new_record'',
    oc_operands = [OperandSpec KindPool RoleShapeRef LinkedShape [], OperandSpec KindImmediate RoleFieldCount LinkedImmediate []],
    oc_stack_in = [StackGroup (ArityDeclared RoleFieldCount) (ValShapeFields RoleShapeRef)], oc_stack_out = [StackGroup (ArityFixed 1) (ValShapeValue RoleShapeRef)],
    oc_slots = SlotsNone,
    oc_control = ControlFallthrough, oc_pending = PendingNever, oc_checkpoint = CheckpointNone,
    oc_exception = ExceptionContract ExcNone [],
    oc_statement = StmtNone, oc_source = SourceNone,
    oc_region = RegionContract RegionPreserve RegionNotApplicable, oc_capabilities = [CapVerifiedShape]\<rparr>,
  \<lparr>oc_kind = OpcGetDenseField, oc_opcode = 65, oc_mnemonic = ''get_dense_field'',
    oc_operands = [OperandSpec KindPool RoleShapeRef LinkedShape [], OperandSpec KindImmediate RoleFieldOrdinal LinkedImmediate []],
    oc_stack_in = [StackGroup (ArityFixed 1) (ValShapeValue RoleShapeRef)], oc_stack_out = [StackGroup (ArityFixed 1) (ValShapeField RoleShapeRef RoleFieldOrdinal)],
    oc_slots = SlotsNone,
    oc_control = ControlFallthrough, oc_pending = PendingNever, oc_checkpoint = CheckpointNone,
    oc_exception = ExceptionContract ExcNone [],
    oc_statement = StmtNone, oc_source = SourceNone,
    oc_region = RegionContract RegionPreserve RegionNotApplicable, oc_capabilities = [CapVerifiedShape]\<rparr>,
  \<lparr>oc_kind = OpcSetWritablePath, oc_opcode = 66, oc_mnemonic = ''set_writable_path'',
    oc_operands = [OperandSpec KindSlot RoleSlot LinkedFrameSlot [], OperandSpec KindPool RoleWritablePathRef LinkedWritablePath [], OperandSpec KindImmediate RoleSelectorCount LinkedImmediate []],
    oc_stack_in = [StackGroup (ArityDeclared RoleSelectorCount) (ValWritablePathSelectors RoleWritablePathRef), StackGroup (ArityFixed 1) (ValWritablePathLeaf RoleWritablePathRef)], oc_stack_out = [],
    oc_slots = SlotsEffects [SlotEffect RoleSlot SlotMutate (ValSlot RoleSlot)],
    oc_control = ControlFallthrough, oc_pending = PendingNever, oc_checkpoint = CheckpointNone,
    oc_exception = ExceptionContract ExcNone [failure_catchable FailCollectionIndexOutOfBounds OnIndexOutOfBounds ''StdCollectionArrayIndexOutOfBoundsError'', failure_catchable FailWritablePathIntermediateMissingKey OnIntermediateMissingKey ''StdCollectionMapKeyNotFoundError'', failure_invariant FailWritablePathTypeInvariant OnInternalTypeInvariant, failure_invariant FailWritablePathCowInvariant OnInternalCowInvariant],
    oc_statement = StmtNone, oc_source = SourceRequired UseInstructionFailure OriginSourceOrSynthetic,
    oc_region = RegionContract RegionPreserve RegionUnwind, oc_capabilities = [CapVerifiedWritablePath, CapWritablePathFinalMapUpsert]\<rparr>,
  \<lparr>oc_kind = OpcRepresentationWrap, oc_opcode = 67, oc_mnemonic = ''representation_wrap'',
    oc_operands = [OperandSpec KindPool RoleTypeRef LinkedType []],
    oc_stack_in = [StackGroup (ArityFixed 1) (ValRepresentationPayload RoleTypeRef)], oc_stack_out = [StackGroup (ArityFixed 1) (ValRepresentationValue RoleTypeRef)],
    oc_slots = SlotsNone,
    oc_control = ControlFallthrough, oc_pending = PendingNever, oc_checkpoint = CheckpointNone,
    oc_exception = ExceptionContract ExcNone [],
    oc_statement = StmtNone, oc_source = SourceNone,
    oc_region = RegionContract RegionPreserve RegionNotApplicable, oc_capabilities = [CapRepresentationType]\<rparr>,
  \<lparr>oc_kind = OpcTakeDenseField, oc_opcode = 68, oc_mnemonic = ''take_dense_field'',
    oc_operands = [OperandSpec KindPool RoleShapeRef LinkedShape [], OperandSpec KindImmediate RoleFieldOrdinal LinkedImmediate []],
    oc_stack_in = [StackGroup (ArityFixed 1) (ValShapeValue RoleShapeRef)], oc_stack_out = [StackGroup (ArityFixed 1) (ValShapeField RoleShapeRef RoleFieldOrdinal)],
    oc_slots = SlotsNone,
    oc_control = ControlFallthrough, oc_pending = PendingNever, oc_checkpoint = CheckpointNone,
    oc_exception = ExceptionContract ExcNone [],
    oc_statement = StmtNone, oc_source = SourceNone,
    oc_region = RegionContract RegionPreserve RegionNotApplicable, oc_capabilities = [CapVerifiedShape, CapAffineFieldTake]\<rparr> ]"

definition array_rows :: "opcode_contract list" where
  "array_rows =
 [
  \<lparr>oc_kind = OpcNewArrayBuilder, oc_opcode = 80, oc_mnemonic = ''new_array_builder'',
    oc_operands = [OperandSpec KindPool RoleElementTypeRef LinkedType []],
    oc_stack_in = [], oc_stack_out = [StackGroup (ArityFixed 1) (ValArrayBuilder RoleElementTypeRef)],
    oc_slots = SlotsNone,
    oc_control = ControlFallthrough, oc_pending = PendingNever, oc_checkpoint = CheckpointNone,
    oc_exception = ExceptionContract ExcNone [],
    oc_statement = StmtNone, oc_source = SourceNone,
    oc_region = RegionContract RegionPreserve RegionNotApplicable, oc_capabilities = [CapArrayBuilderToken]\<rparr>,
  \<lparr>oc_kind = OpcArrayBuilderPush, oc_opcode = 81, oc_mnemonic = ''array_builder_push'',
    oc_operands = [],
    oc_stack_in = [StackGroup (ArityFixed 1) ValAnyStackValue, StackGroup (ArityFixed 1) (ValArrayElement 0)], oc_stack_out = [StackGroup (ArityFixed 1) (ValStackInput 0)],
    oc_slots = SlotsNone,
    oc_control = ControlFallthrough, oc_pending = PendingNever, oc_checkpoint = CheckpointNone,
    oc_exception = ExceptionContract ExcNone [],
    oc_statement = StmtNone, oc_source = SourceNone,
    oc_region = RegionContract RegionPreserve RegionNotApplicable, oc_capabilities = [CapArrayBuilderToken]\<rparr>,
  \<lparr>oc_kind = OpcFreezeArray, oc_opcode = 82, oc_mnemonic = ''freeze_array'',
    oc_operands = [],
    oc_stack_in = [StackGroup (ArityFixed 1) ValAnyStackValue], oc_stack_out = [StackGroup (ArityFixed 1) (ValArrayFromBuilder 0)],
    oc_slots = SlotsNone,
    oc_control = ControlFallthrough, oc_pending = PendingNever, oc_checkpoint = CheckpointNone,
    oc_exception = ExceptionContract ExcNone [],
    oc_statement = StmtNone, oc_source = SourceNone,
    oc_region = RegionContract RegionPreserve RegionNotApplicable, oc_capabilities = [CapArrayBuilderToken]\<rparr>,
  \<lparr>oc_kind = OpcArrayGet, oc_opcode = 83, oc_mnemonic = ''array_get'',
    oc_operands = [],
    oc_stack_in = [StackGroup (ArityFixed 1) ValArrayValue, StackGroup (ArityFixed 1) ValCollectionIndex], oc_stack_out = [StackGroup (ArityFixed 1) (ValArrayElement 0)],
    oc_slots = SlotsNone,
    oc_control = ControlFallthrough, oc_pending = PendingNever, oc_checkpoint = CheckpointNone,
    oc_exception = ExceptionContract ExcNone [failure_catchable FailCollectionIndexOutOfBounds OnIndexOutOfBounds ''StdCollectionArrayIndexOutOfBoundsError''],
    oc_statement = StmtNone, oc_source = SourceRequired UseInstructionFailure OriginSourceOrSynthetic,
    oc_region = RegionContract RegionPreserve RegionUnwind, oc_capabilities = []\<rparr>,
  \<lparr>oc_kind = OpcArrayPushOwned, oc_opcode = 84, oc_mnemonic = ''array_push_owned'',
    oc_operands = [OperandSpec KindSlot RoleSlot LinkedFrameSlot []],
    oc_stack_in = [StackGroup (ArityFixed 1) (ValArrayElementFromSlot RoleSlot)], oc_stack_out = [],
    oc_slots = SlotsEffects [SlotEffect RoleSlot SlotMutate (ValSlot RoleSlot)],
    oc_control = ControlFallthrough, oc_pending = PendingNever, oc_checkpoint = CheckpointNone,
    oc_exception = ExceptionContract ExcNone [],
    oc_statement = StmtNone, oc_source = SourceNone,
    oc_region = RegionContract RegionPreserve RegionNotApplicable, oc_capabilities = []\<rparr> ]"

definition map_rows :: "opcode_contract list" where
  "map_rows =
 [
  \<lparr>oc_kind = OpcNewMapBuilder, oc_opcode = 85, oc_mnemonic = ''new_map_builder'',
    oc_operands = [OperandSpec KindPool RoleKeyTypeRef LinkedType [], OperandSpec KindPool RoleValueTypeRef LinkedType []],
    oc_stack_in = [], oc_stack_out = [StackGroup (ArityFixed 1) (ValMapBuilder RoleKeyTypeRef RoleValueTypeRef)],
    oc_slots = SlotsNone,
    oc_control = ControlFallthrough, oc_pending = PendingNever, oc_checkpoint = CheckpointNone,
    oc_exception = ExceptionContract ExcNone [],
    oc_statement = StmtNone, oc_source = SourceNone,
    oc_region = RegionContract RegionPreserve RegionNotApplicable, oc_capabilities = [CapMapBuilderToken]\<rparr>,
  \<lparr>oc_kind = OpcMapBuilderPut, oc_opcode = 86, oc_mnemonic = ''map_builder_put'',
    oc_operands = [],
    oc_stack_in = [StackGroup (ArityFixed 1) ValAnyStackValue, StackGroup (ArityFixed 1) (ValMapKey 0), StackGroup (ArityFixed 1) (ValMapElement 0)], oc_stack_out = [StackGroup (ArityFixed 1) (ValStackInput 0)],
    oc_slots = SlotsNone,
    oc_control = ControlFallthrough, oc_pending = PendingNever, oc_checkpoint = CheckpointNone,
    oc_exception = ExceptionContract ExcNone [],
    oc_statement = StmtNone, oc_source = SourceNone,
    oc_region = RegionContract RegionPreserve RegionNotApplicable, oc_capabilities = [CapMapBuilderToken]\<rparr>,
  \<lparr>oc_kind = OpcFreezeMap, oc_opcode = 87, oc_mnemonic = ''freeze_map'',
    oc_operands = [],
    oc_stack_in = [StackGroup (ArityFixed 1) ValAnyStackValue], oc_stack_out = [StackGroup (ArityFixed 1) (ValMapFromBuilder 0)],
    oc_slots = SlotsNone,
    oc_control = ControlFallthrough, oc_pending = PendingNever, oc_checkpoint = CheckpointNone,
    oc_exception = ExceptionContract ExcNone [],
    oc_statement = StmtNone, oc_source = SourceNone,
    oc_region = RegionContract RegionPreserve RegionNotApplicable, oc_capabilities = [CapMapBuilderToken]\<rparr>,
  \<lparr>oc_kind = OpcMapGet, oc_opcode = 88, oc_mnemonic = ''map_get'',
    oc_operands = [],
    oc_stack_in = [StackGroup (ArityFixed 1) ValMapValue, StackGroup (ArityFixed 1) (ValMapKey 0)], oc_stack_out = [StackGroup (ArityFixed 1) (ValMapElement 0)],
    oc_slots = SlotsNone,
    oc_control = ControlFallthrough, oc_pending = PendingNever, oc_checkpoint = CheckpointNone,
    oc_exception = ExceptionContract ExcNone [failure_catchable FailCollectionMissingKey OnMissingKey ''StdCollectionMapKeyNotFoundError''],
    oc_statement = StmtNone, oc_source = SourceRequired UseInstructionFailure OriginSourceOrSynthetic,
    oc_region = RegionContract RegionPreserve RegionUnwind, oc_capabilities = []\<rparr>,
  \<lparr>oc_kind = OpcMapPutOwned, oc_opcode = 89, oc_mnemonic = ''map_put_owned'',
    oc_operands = [OperandSpec KindSlot RoleSlot LinkedFrameSlot []],
    oc_stack_in = [StackGroup (ArityFixed 1) (ValMapKeyFromSlot RoleSlot), StackGroup (ArityFixed 1) (ValMapElementFromSlot RoleSlot)], oc_stack_out = [],
    oc_slots = SlotsEffects [SlotEffect RoleSlot SlotMutate (ValSlot RoleSlot)],
    oc_control = ControlFallthrough, oc_pending = PendingNever, oc_checkpoint = CheckpointNone,
    oc_exception = ExceptionContract ExcNone [],
    oc_statement = StmtNone, oc_source = SourceNone,
    oc_region = RegionContract RegionPreserve RegionNotApplicable, oc_capabilities = []\<rparr>,
  \<lparr>oc_kind = OpcArrayLen, oc_opcode = 90, oc_mnemonic = ''array_len'',
    oc_operands = [],
    oc_stack_in = [StackGroup (ArityFixed 1) ValArrayValue], oc_stack_out = [StackGroup (ArityFixed 1) ValNumber],
    oc_slots = SlotsNone,
    oc_control = ControlFallthrough, oc_pending = PendingNever, oc_checkpoint = CheckpointNone,
    oc_exception = ExceptionContract ExcNone [],
    oc_statement = StmtNone, oc_source = SourceNone,
    oc_region = RegionContract RegionPreserve RegionNotApplicable, oc_capabilities = []\<rparr>,
  \<lparr>oc_kind = OpcMapLen, oc_opcode = 91, oc_mnemonic = ''map_len'',
    oc_operands = [],
    oc_stack_in = [StackGroup (ArityFixed 1) ValMapValue], oc_stack_out = [StackGroup (ArityFixed 1) ValNumber],
    oc_slots = SlotsNone,
    oc_control = ControlFallthrough, oc_pending = PendingNever, oc_checkpoint = CheckpointNone,
    oc_exception = ExceptionContract ExcNone [],
    oc_statement = StmtNone, oc_source = SourceNone,
    oc_region = RegionContract RegionPreserve RegionNotApplicable, oc_capabilities = []\<rparr>,
  \<lparr>oc_kind = OpcMapEntryAt, oc_opcode = 92, oc_mnemonic = ''map_entry_at'',
    oc_operands = [],
    oc_stack_in = [StackGroup (ArityFixed 1) ValMapValue, StackGroup (ArityFixed 1) ValCollectionIndex], oc_stack_out = [StackGroup (ArityFixed 1) (ValMapKey 0), StackGroup (ArityFixed 1) (ValMapElement 0)],
    oc_slots = SlotsNone,
    oc_control = ControlFallthrough, oc_pending = PendingNever, oc_checkpoint = CheckpointNone,
    oc_exception = ExceptionContract ExcNone [failure_terminal FailMapEntryIndexOutOfBounds OnIndexOutOfBounds],
    oc_statement = StmtNone, oc_source = SourceRequired UseGeneratedFailure OriginSyntheticOnly,
    oc_region = RegionContract RegionPreserve RegionUnwind, oc_capabilities = [CapInternalGenerated, CapCanonicalMapSnapshot]\<rparr> ]"

definition stream_rows :: "opcode_contract list" where
  "stream_rows =
 [
  \<lparr>oc_kind = OpcStreamNext, oc_opcode = 96, oc_mnemonic = ''stream_next'',
    oc_operands = [OperandSpec KindSlot RoleSlot LinkedFrameSlot [], OperandSpec KindPool RoleResumeRef LinkedResumeSite []],
    oc_stack_in = [], oc_stack_out = [StackGroup (ArityFixed 1) (ValStreamItem RoleSlot)],
    oc_slots = SlotsEffects [SlotEffect RoleSlot SlotMutate (ValSlot RoleSlot)],
    oc_control = ControlFallthrough, oc_pending = PendingActualWithResume RoleResumeRef ModeStreamRead, oc_checkpoint = CheckpointNone,
    oc_exception = ExceptionContract ExcRaiseAtCurrentSite [],
    oc_statement = StmtNone, oc_source = SourceRequired UseStreamSite OriginSourceOrSynthetic,
    oc_region = RegionContract RegionPreserve RegionUnwind, oc_capabilities = [CapStreamConsumer]\<rparr>,
  \<lparr>oc_kind = OpcEmitStream, oc_opcode = 97, oc_mnemonic = ''emit_stream'',
    oc_operands = [OperandSpec KindPool RoleResumeRef LinkedResumeSite []],
    oc_stack_in = [StackGroup (ArityFixed 1) ValFunctionStreamItem], oc_stack_out = [],
    oc_slots = SlotsNone,
    oc_control = ControlFallthrough, oc_pending = PendingActualWithResume RoleResumeRef ModeStreamBackpressure, oc_checkpoint = CheckpointNone,
    oc_exception = ExceptionContract ExcRaiseAtCurrentSite [],
    oc_statement = StmtNone, oc_source = SourceRequired UseStreamSite OriginSourceOrSynthetic,
    oc_region = RegionContract RegionPreserve RegionUnwind, oc_capabilities = [CapStreamProducer]\<rparr> ]"

definition raise_rows :: "opcode_contract list" where
  "raise_rows =
 [
  \<lparr>oc_kind = OpcThrow, oc_opcode = 112, oc_mnemonic = ''throw'',
    oc_operands = [OperandSpec KindPool RoleTypeRef LinkedType []],
    oc_stack_in = [StackGroup (ArityFixed 1) (ValExceptionPayload RoleTypeRef)], oc_stack_out = [],
    oc_slots = SlotsNone,
    oc_control = ControlRaise, oc_pending = PendingNever, oc_checkpoint = CheckpointNone,
    oc_exception = ExceptionContract (ExcThrowValue RoleTypeRef) [],
    oc_statement = StmtNone, oc_source = SourceRequired UseThrowOrigin OriginSourceOrSynthetic,
    oc_region = RegionContract RegionNotApplicable RegionUnwind, oc_capabilities = []\<rparr>,
  \<lparr>oc_kind = OpcRethrow, oc_opcode = 113, oc_mnemonic = ''rethrow'',
    oc_operands = [OperandSpec KindSlot RoleSourceSlot LinkedFrameSlot []],
    oc_stack_in = [], oc_stack_out = [],
    oc_slots = SlotsEffects [SlotEffect RoleSourceSlot SlotRead (ValExceptionEnvelope RoleSourceSlot)],
    oc_control = ControlRethrow, oc_pending = PendingNever, oc_checkpoint = CheckpointNone,
    oc_exception = ExceptionContract (ExcPreserveOriginal RoleSourceSlot) [],
    oc_statement = StmtNone, oc_source = SourcePreserveOriginal,
    oc_region = RegionContract RegionNotApplicable RegionUnwind, oc_capabilities = []\<rparr>,
  \<lparr>oc_kind = OpcEnterRegion, oc_opcode = 114, oc_mnemonic = ''enter_region'',
    oc_operands = [OperandSpec KindTable RoleActiveRegion LinkedActiveRegion []],
    oc_stack_in = [], oc_stack_out = [],
    oc_slots = SlotsNone,
    oc_control = ControlFallthrough, oc_pending = PendingNever, oc_checkpoint = CheckpointNone,
    oc_exception = ExceptionContract ExcNone [],
    oc_statement = StmtNone, oc_source = SourceActiveRegion RoleActiveRegion,
    oc_region = RegionContract (RegionEnter RoleActiveRegion) RegionNotApplicable, oc_capabilities = []\<rparr>,
  \<lparr>oc_kind = OpcLeaveRegion, oc_opcode = 115, oc_mnemonic = ''leave_region'',
    oc_operands = [OperandSpec KindTable RoleActiveRegion LinkedActiveRegion []],
    oc_stack_in = [], oc_stack_out = [],
    oc_slots = SlotsNone,
    oc_control = ControlFallthrough, oc_pending = PendingNever, oc_checkpoint = CheckpointNone,
    oc_exception = ExceptionContract ExcNone [],
    oc_statement = StmtNone, oc_source = SourceActiveRegion RoleActiveRegion,
    oc_region = RegionContract (RegionLeave RoleActiveRegion) RegionNotApplicable, oc_capabilities = []\<rparr> ]"

definition host_rows :: "opcode_contract list" where
  "host_rows =
 [
  \<lparr>oc_kind = OpcInvokeHost, oc_opcode = 128, oc_mnemonic = ''invoke_host'',
    oc_operands = [OperandSpec KindReloc RoleHostTarget LinkedHostEffectAdapter [RelocHostEffectRef], OperandSpec KindImmediate RoleArgCount LinkedImmediate [], OperandSpec KindImmediate RoleResultCount LinkedImmediate [], OperandSpec KindPool RoleResumeRef LinkedResumeSite []],
    oc_stack_in = [StackGroup (ArityDeclared RoleArgCount) (ValTargetParameters RoleHostTarget)], oc_stack_out = [StackGroup (ArityDeclared RoleResultCount) (ValTargetResults RoleHostTarget)],
    oc_slots = SlotsNone,
    oc_control = ControlFallthrough, oc_pending = PendingActualWithResume RoleResumeRef ModeHostEffect, oc_checkpoint = CheckpointNone,
    oc_exception = ExceptionContract ExcRaiseAtCurrentSite [],
    oc_statement = StmtNone, oc_source = SourceRequired UseEffectSite OriginSourceOrSynthetic,
    oc_region = RegionContract RegionPreserve RegionUnwind, oc_capabilities = [CapTrustedHostAdapter]\<rparr>,
  \<lparr>oc_kind = OpcInvokeIntrinsic, oc_opcode = 129, oc_mnemonic = ''invoke_intrinsic'',
    oc_operands = [OperandSpec KindReloc RoleIntrinsicTarget LinkedIntrinsic [RelocIntrinsicRef, RelocTaskSubmitRef], OperandSpec KindImmediate RoleArgCount LinkedImmediate [], OperandSpec KindImmediate RoleResultCount LinkedImmediate []],
    oc_stack_in = [StackGroup (ArityDeclared RoleArgCount) (ValTargetParameters RoleIntrinsicTarget)], oc_stack_out = [StackGroup (ArityDeclared RoleResultCount) (ValTargetResults RoleIntrinsicTarget)],
    oc_slots = SlotsNone,
    oc_control = ControlFallthrough, oc_pending = PendingNever, oc_checkpoint = CheckpointNone,
    oc_exception = ExceptionContract ExcRaiseAtCurrentSite [],
    oc_statement = StmtNone, oc_source = SourceRequired UseEffectSite OriginSourceOrSynthetic,
    oc_region = RegionContract RegionPreserve RegionUnwind, oc_capabilities = [CapTrustedIntrinsic]\<rparr> ]"

definition arithmetic_rows :: "opcode_contract list" where
  "arithmetic_rows =
 [
  \<lparr>oc_kind = OpcNot, oc_opcode = 144, oc_mnemonic = ''not'',
    oc_operands = [],
    oc_stack_in = [StackGroup (ArityFixed 1) ValBool], oc_stack_out = [StackGroup (ArityFixed 1) ValBool],
    oc_slots = SlotsNone,
    oc_control = ControlFallthrough, oc_pending = PendingNever, oc_checkpoint = CheckpointNone,
    oc_exception = ExceptionContract ExcNone [],
    oc_statement = StmtNone, oc_source = SourceNone,
    oc_region = RegionContract RegionPreserve RegionNotApplicable, oc_capabilities = []\<rparr>,
  \<lparr>oc_kind = OpcNegate, oc_opcode = 145, oc_mnemonic = ''negate'',
    oc_operands = [],
    oc_stack_in = [StackGroup (ArityFixed 1) ValNumber], oc_stack_out = [StackGroup (ArityFixed 1) ValNumber],
    oc_slots = SlotsNone,
    oc_control = ControlFallthrough, oc_pending = PendingNever, oc_checkpoint = CheckpointNone,
    oc_exception = ExceptionContract ExcNone [failure_terminal FailScalarNonFinite OnNonFiniteResult],
    oc_statement = StmtNone, oc_source = SourceRequired UseGeneratedFailure OriginSourceOrSynthetic,
    oc_region = RegionContract RegionPreserve RegionUnwind, oc_capabilities = []\<rparr>,
  \<lparr>oc_kind = OpcAdd, oc_opcode = 146, oc_mnemonic = ''add'',
    oc_operands = [],
    oc_stack_in = [StackGroup (ArityFixed 2) ValNumber], oc_stack_out = [StackGroup (ArityFixed 1) ValNumber],
    oc_slots = SlotsNone,
    oc_control = ControlFallthrough, oc_pending = PendingNever, oc_checkpoint = CheckpointNone,
    oc_exception = ExceptionContract ExcNone [failure_terminal FailScalarNonFinite OnNonFiniteResult],
    oc_statement = StmtNone, oc_source = SourceRequired UseGeneratedFailure OriginSourceOrSynthetic,
    oc_region = RegionContract RegionPreserve RegionUnwind, oc_capabilities = []\<rparr>,
  \<lparr>oc_kind = OpcSubtract, oc_opcode = 147, oc_mnemonic = ''subtract'',
    oc_operands = [],
    oc_stack_in = [StackGroup (ArityFixed 2) ValNumber], oc_stack_out = [StackGroup (ArityFixed 1) ValNumber],
    oc_slots = SlotsNone,
    oc_control = ControlFallthrough, oc_pending = PendingNever, oc_checkpoint = CheckpointNone,
    oc_exception = ExceptionContract ExcNone [failure_terminal FailScalarNonFinite OnNonFiniteResult],
    oc_statement = StmtNone, oc_source = SourceRequired UseGeneratedFailure OriginSourceOrSynthetic,
    oc_region = RegionContract RegionPreserve RegionUnwind, oc_capabilities = []\<rparr>,
  \<lparr>oc_kind = OpcMultiply, oc_opcode = 148, oc_mnemonic = ''multiply'',
    oc_operands = [],
    oc_stack_in = [StackGroup (ArityFixed 2) ValNumber], oc_stack_out = [StackGroup (ArityFixed 1) ValNumber],
    oc_slots = SlotsNone,
    oc_control = ControlFallthrough, oc_pending = PendingNever, oc_checkpoint = CheckpointNone,
    oc_exception = ExceptionContract ExcNone [failure_terminal FailScalarNonFinite OnNonFiniteResult],
    oc_statement = StmtNone, oc_source = SourceRequired UseGeneratedFailure OriginSourceOrSynthetic,
    oc_region = RegionContract RegionPreserve RegionUnwind, oc_capabilities = []\<rparr>,
  \<lparr>oc_kind = OpcDivide, oc_opcode = 149, oc_mnemonic = ''divide'',
    oc_operands = [],
    oc_stack_in = [StackGroup (ArityFixed 2) ValNumber], oc_stack_out = [StackGroup (ArityFixed 1) ValNumber],
    oc_slots = SlotsNone,
    oc_control = ControlFallthrough, oc_pending = PendingNever, oc_checkpoint = CheckpointNone,
    oc_exception = ExceptionContract ExcNone [failure_terminal FailDivideByZero OnZeroDivisorIncludingNegativeZero, failure_terminal FailScalarNonFinite OnNonFiniteResult],
    oc_statement = StmtNone, oc_source = SourceRequired UseGeneratedFailure OriginSourceOrSynthetic,
    oc_region = RegionContract RegionPreserve RegionUnwind, oc_capabilities = []\<rparr> ]"

definition comparison_rows :: "opcode_contract list" where
  "comparison_rows =
 [
  \<lparr>oc_kind = OpcEqual, oc_opcode = 150, oc_mnemonic = ''equal'',
    oc_operands = [],
    oc_stack_in = [StackGroup (ArityFixed 2) ValComparablePair], oc_stack_out = [StackGroup (ArityFixed 1) ValBool],
    oc_slots = SlotsNone,
    oc_control = ControlFallthrough, oc_pending = PendingNever, oc_checkpoint = CheckpointNone,
    oc_exception = ExceptionContract ExcNone [],
    oc_statement = StmtNone, oc_source = SourceNone,
    oc_region = RegionContract RegionPreserve RegionNotApplicable, oc_capabilities = []\<rparr>,
  \<lparr>oc_kind = OpcNotEqual, oc_opcode = 151, oc_mnemonic = ''not_equal'',
    oc_operands = [],
    oc_stack_in = [StackGroup (ArityFixed 2) ValComparablePair], oc_stack_out = [StackGroup (ArityFixed 1) ValBool],
    oc_slots = SlotsNone,
    oc_control = ControlFallthrough, oc_pending = PendingNever, oc_checkpoint = CheckpointNone,
    oc_exception = ExceptionContract ExcNone [],
    oc_statement = StmtNone, oc_source = SourceNone,
    oc_region = RegionContract RegionPreserve RegionNotApplicable, oc_capabilities = []\<rparr>,
  \<lparr>oc_kind = OpcLessThan, oc_opcode = 152, oc_mnemonic = ''less_than'',
    oc_operands = [],
    oc_stack_in = [StackGroup (ArityFixed 2) ValNumber], oc_stack_out = [StackGroup (ArityFixed 1) ValBool],
    oc_slots = SlotsNone,
    oc_control = ControlFallthrough, oc_pending = PendingNever, oc_checkpoint = CheckpointNone,
    oc_exception = ExceptionContract ExcNone [],
    oc_statement = StmtNone, oc_source = SourceNone,
    oc_region = RegionContract RegionPreserve RegionNotApplicable, oc_capabilities = []\<rparr>,
  \<lparr>oc_kind = OpcLessOrEqual, oc_opcode = 153, oc_mnemonic = ''less_or_equal'',
    oc_operands = [],
    oc_stack_in = [StackGroup (ArityFixed 2) ValNumber], oc_stack_out = [StackGroup (ArityFixed 1) ValBool],
    oc_slots = SlotsNone,
    oc_control = ControlFallthrough, oc_pending = PendingNever, oc_checkpoint = CheckpointNone,
    oc_exception = ExceptionContract ExcNone [],
    oc_statement = StmtNone, oc_source = SourceNone,
    oc_region = RegionContract RegionPreserve RegionNotApplicable, oc_capabilities = []\<rparr>,
  \<lparr>oc_kind = OpcGreaterThan, oc_opcode = 154, oc_mnemonic = ''greater_than'',
    oc_operands = [],
    oc_stack_in = [StackGroup (ArityFixed 2) ValNumber], oc_stack_out = [StackGroup (ArityFixed 1) ValBool],
    oc_slots = SlotsNone,
    oc_control = ControlFallthrough, oc_pending = PendingNever, oc_checkpoint = CheckpointNone,
    oc_exception = ExceptionContract ExcNone [],
    oc_statement = StmtNone, oc_source = SourceNone,
    oc_region = RegionContract RegionPreserve RegionNotApplicable, oc_capabilities = []\<rparr>,
  \<lparr>oc_kind = OpcGreaterOrEqual, oc_opcode = 155, oc_mnemonic = ''greater_or_equal'',
    oc_operands = [],
    oc_stack_in = [StackGroup (ArityFixed 2) ValNumber], oc_stack_out = [StackGroup (ArityFixed 1) ValBool],
    oc_slots = SlotsNone,
    oc_control = ControlFallthrough, oc_pending = PendingNever, oc_checkpoint = CheckpointNone,
    oc_exception = ExceptionContract ExcNone [],
    oc_statement = StmtNone, oc_source = SourceNone,
    oc_region = RegionContract RegionPreserve RegionNotApplicable, oc_capabilities = []\<rparr> ]"

definition OPCODE_CONTRACTS :: "opcode_contract list" where
  "OPCODE_CONTRACTS = slot_rows @ flow_rows @ call_rows @ callback_rows @ record_rows @ array_rows @ map_rows @ stream_rows @
     raise_rows @ host_rows @ arithmetic_rows @ comparison_rows"

record opcode_descriptor =
  od_kind :: opcode
  od_opcode :: nat
  od_mnemonic :: string
  od_operand_layout :: "operand_kind list"
  od_operand_roles :: "operand_role list"
  od_stack_in :: "arity list"
  od_stack_out :: "arity list"
  od_allowed_relocations :: "relocation_kind list"

definition descriptor_of :: "opcode_contract \<Rightarrow> opcode_descriptor" where
  "descriptor_of c =
     \<lparr>od_kind = oc_kind c, od_opcode = oc_opcode c, od_mnemonic = oc_mnemonic c, od_operand_layout = map os_kind (oc_operands c),
      od_operand_roles = map os_role (oc_operands c), od_stack_in = map sg_arity (oc_stack_in c), od_stack_out = map sg_arity (oc_stack_out c),
      od_allowed_relocations = concat (map os_relocations (oc_operands c))\<rparr>"

definition OPCODE_TABLE :: "opcode_descriptor list" where
  "OPCODE_TABLE = map descriptor_of OPCODE_CONTRACTS"

section \<open>Lookups\<close>

definition opcode_contract_for :: "nat \<Rightarrow> opcode_contract option" where
  "opcode_contract_for value = find (\<lambda>c. oc_opcode c = value) OPCODE_CONTRACTS"

definition contract_for_opcode :: "opcode \<Rightarrow> opcode_contract option" where
  "contract_for_opcode kind = find (\<lambda>c. oc_kind c = kind) OPCODE_CONTRACTS"

definition opcode_for :: "nat \<Rightarrow> opcode_descriptor option" where
  "opcode_for value = find (\<lambda>d. od_opcode d = value) OPCODE_TABLE"

definition opcode_kind :: "nat \<Rightarrow> opcode option" where
  "opcode_kind encoded = map_option oc_kind (opcode_contract_for encoded)"

definition descriptor_for_opcode :: "opcode \<Rightarrow> opcode_descriptor option" where
  "descriptor_for_opcode kind = find (\<lambda>d. od_kind d = kind) OPCODE_TABLE"

definition pool_operand_category :: "nat \<Rightarrow> nat \<Rightarrow> pool_category option" where
  "pool_operand_category opc position =
     (case opcode_contract_for opc of
        None \<Rightarrow> None
      | Some c \<Rightarrow> if position \<ge> length (oc_operands c) then None else linked_pool_category (os_linked_kind (oc_operands c ! position)))"

definition table_operand_category :: "nat \<Rightarrow> nat \<Rightarrow> table_category option" where
  "table_operand_category opc position =
     (case opcode_contract_for opc of
        None \<Rightarrow> None
      | Some c \<Rightarrow> if position \<ge> length (oc_operands c) then None else linked_table_category (os_linked_kind (oc_operands c ! position)))"

definition operand_word_count :: "opcode_descriptor \<Rightarrow> nat" where
  "operand_word_count d = length (od_operand_layout d)"

definition instruction_word_count :: "opcode_descriptor \<Rightarrow> nat" where
  "instruction_word_count d = operand_word_count d + 1"

text \<open>The first position of a role.\<close>

fun position_of :: "'a \<Rightarrow> 'a list \<Rightarrow> nat option" where
  "position_of x [] = None"
| "position_of x (y # ys) = (if x = y then Some 0 else map_option Suc (position_of x ys))"

definition operand_position :: "opcode_descriptor \<Rightarrow> operand_role \<Rightarrow> nat option" where
  "operand_position d role = position_of role (od_operand_roles d)"

definition operand_word :: "opcode_descriptor \<Rightarrow> operand_role \<Rightarrow> nat list \<Rightarrow> nat option" where
  "operand_word d role words =
     (case operand_position d role of None \<Rightarrow> None | Some p \<Rightarrow> if p < length words then Some (words ! p) else None)"

section \<open>Consistency\<close>

text \<open>The operand roles a contract refers to.\<close>

fun arity_roles :: "arity \<Rightarrow> operand_role list" where
  "arity_roles (ArityDeclared r) = [r]"
| "arity_roles _ = []"

definition value_roles :: "value_source \<Rightarrow> operand_role list" where
  "value_roles v = (case value_operand v of None \<Rightarrow> [] | Some r \<Rightarrow> [r]) @ (case value_secondary_operand v of None \<Rightarrow> [] | Some r \<Rightarrow> [r])"

fun slots_roles :: "slot_contract \<Rightarrow> operand_role list" where
  "slots_roles SlotsNone = []"
| "slots_roles (SlotsEffects es) = concat (map (\<lambda>e. se_operand e # value_roles (se_value e)) es)"
| "slots_roles (SlotsInOutCallLoans t l) = [t, l]"

fun control_roles :: "control_contract \<Rightarrow> operand_role list" where
  "control_roles (ControlJump r) = [r]"
| "control_roles (ControlBranch r _) = [r]"
| "control_roles (ControlSwitch r) = [r]"
| "control_roles _ = []"

fun pending_roles :: "pending_contract \<Rightarrow> operand_role list" where
  "pending_roles PendingNever = []"
| "pending_roles (PendingTransitiveTarget r) = [r]"
| "pending_roles (PendingNoPendingTarget r l) = [r, l]"
| "pending_roles (PendingActualWithResume r _) = [r]"

fun exception_roles :: "exception_behavior \<Rightarrow> operand_role list" where
  "exception_roles (ExcPropagateTarget r) = [r]"
| "exception_roles (ExcThrowValue r) = [r]"
| "exception_roles (ExcPreserveOriginal r) = [r]"
| "exception_roles _ = []"

fun region_roles :: "region_effect \<Rightarrow> operand_role list" where
  "region_roles (RegionEnter r) = [r]"
| "region_roles (RegionLeave r) = [r]"
| "region_roles _ = []"

definition contract_roles :: "opcode_contract \<Rightarrow> operand_role list" where
  "contract_roles c =
     concat (map (\<lambda>g. arity_roles (sg_arity g) @ value_roles (sg_value g)) (oc_stack_in c @ oc_stack_out c)) @
     slots_roles (oc_slots c) @ control_roles (oc_control c) @ pending_roles (oc_pending c) @
     exception_roles (ec_behavior (oc_exception c)) @ region_roles (rc_normal (oc_region c)) @ region_roles (rc_raised (oc_region c))"

definition input_groups :: "opcode_contract \<Rightarrow> nat list" where
  "input_groups c = concat (map (\<lambda>g. case value_input_group (sg_value g) of None \<Rightarrow> [] | Some n \<Rightarrow> [n]) (oc_stack_in c @ oc_stack_out c)) @
     (case oc_slots c of SlotsEffects es \<Rightarrow> concat (map (\<lambda>e. case value_input_group (se_value e) of None \<Rightarrow> [] | Some n \<Rightarrow> [n]) es) | _ \<Rightarrow> [])"

definition may_raise :: "opcode_contract \<Rightarrow> bool" where
  "may_raise c \<longleftrightarrow> ec_behavior (oc_exception c) \<noteq> ExcNone \<or> ec_failures (oc_exception c) \<noteq> []"

definition contract_ok :: "opcode_contract \<Rightarrow> bool" where
  "contract_ok c \<longleftrightarrow>
     list_all operand_spec_asserts (oc_operands c) \<and> distinct (map os_role (oc_operands c)) \<and>
     length (filter (\<lambda>s. os_kind s = KindReloc) (oc_operands c)) \<le> 1 \<and>
     list_all (\<lambda>s. role_pool_category (os_role s) = linked_pool_category (os_linked_kind s) \<and>
       role_table_category (os_role s) = linked_table_category (os_linked_kind s)) (oc_operands c) \<and>
     list_all (\<lambda>r. r \<in> set (map os_role (oc_operands c))) (contract_roles c) \<and>
     list_all (\<lambda>n. n < length (oc_stack_in c)) (input_groups c) \<and>
     may_raise c = (rc_raised (oc_region c) = RegionUnwind) \<and>
     (may_raise c \<longrightarrow> requires_source_map (oc_source c) \<or> oc_source c = SourcePreserveOriginal) \<and>
     (RoleResumeRef \<in> set (map os_role (oc_operands c)) \<longleftrightarrow>
       (case oc_pending c of PendingActualWithResume r _ \<Rightarrow> r = RoleResumeRef | _ \<Rightarrow> False))"

lemma all_contracts_ok: "list_all contract_ok OPCODE_CONTRACTS"
  by code_simp

lemma table_kinds:
  "map oc_kind OPCODE_CONTRACTS =
     [OpcConst, OpcCopySlot, OpcMoveSlot, OpcStoreSlot, OpcDrop, OpcDup, OpcLoadSlot, OpcTakeSlot, OpcPop, OpcJump, OpcJumpIfTrue, OpcJumpIfFalse,
      OpcSwitchTag, OpcBudgetCheckpoint, OpcTrap, OpcCallLocal, OpcTailCallLocal, OpcCallService, OpcCallActor, OpcCallInterface, OpcReturn,
      OpcCallLocalInOut, OpcInterfaceBoxLocal, OpcInterfaceBoxRemote, OpcMakeCallback, OpcInvokeCallback, OpcNewRecord, OpcGetDenseField,
      OpcSetWritablePath, OpcRepresentationWrap, OpcTakeDenseField, OpcNewArrayBuilder, OpcArrayBuilderPush, OpcFreezeArray, OpcArrayGet,
      OpcArrayPushOwned, OpcNewMapBuilder, OpcMapBuilderPut, OpcFreezeMap, OpcMapGet, OpcMapPutOwned, OpcArrayLen, OpcMapLen, OpcMapEntryAt,
      OpcStreamNext, OpcEmitStream, OpcThrow, OpcRethrow, OpcEnterRegion, OpcLeaveRegion, OpcInvokeHost, OpcInvokeIntrinsic, OpcNot, OpcNegate,
      OpcAdd, OpcSubtract, OpcMultiply, OpcDivide, OpcEqual, OpcNotEqual, OpcLessThan, OpcLessOrEqual, OpcGreaterThan, OpcGreaterOrEqual]"
  by (simp add: OPCODE_CONTRACTS_def slot_rows_def flow_rows_def call_rows_def callback_rows_def record_rows_def array_rows_def map_rows_def
      stream_rows_def raise_rows_def host_rows_def arithmetic_rows_def comparison_rows_def)

lemma kind_in_table: "k \<in> oc_kind ` set OPCODE_CONTRACTS"
proof -
  have "k \<in> set (map oc_kind OPCODE_CONTRACTS)" unfolding table_kinds by (cases k) simp_all
  then show ?thesis by simp
qed

lemma table_distinct: "distinct (map oc_opcode OPCODE_CONTRACTS)" "distinct (map oc_kind OPCODE_CONTRACTS)" "list_all (\<lambda>c. oc_opcode c < 255) OPCODE_CONTRACTS"
  by code_simp+

lemma find_by_key:
  assumes "distinct (map f xs)" "x \<in> set xs"
  shows "find (\<lambda>y. f y = f x) xs = Some x"
  using assms by (induction xs) (auto simp: rev_image_eqI)

lemma find_map: "find P (map f xs) = map_option f (find (P \<circ> f) xs)"
  by (induction xs) simp_all

lemma opcode_for_contract: "opcode_for v = map_option descriptor_of (opcode_contract_for v)"
  by (simp add: opcode_for_def opcode_contract_for_def OPCODE_TABLE_def find_map comp_def descriptor_of_def)

lemma opcode_for_row: "c \<in> set OPCODE_CONTRACTS \<Longrightarrow> opcode_for (oc_opcode c) = Some (descriptor_of c)"
  using find_by_key [OF table_distinct(1)] by (simp add: opcode_for_contract opcode_contract_for_def)

lemma opcode_forD:
  assumes "opcode_for v = Some d"
  obtains c where "c \<in> set OPCODE_CONTRACTS" "d = descriptor_of c" "oc_opcode c = v" "contract_for_opcode (od_kind d) = Some c" "opcode_contract_for v = Some c"
proof -
  obtain c where c: "opcode_contract_for v = Some c" "d = descriptor_of c" using assms by (auto simp: opcode_for_contract)
  then have "c \<in> set OPCODE_CONTRACTS" "oc_opcode c = v" by (auto simp: opcode_contract_for_def find_Some_iff)
  moreover have "contract_for_opcode (oc_kind c) = Some c"
    using find_by_key [OF table_distinct(2) \<open>c \<in> set OPCODE_CONTRACTS\<close>] by (simp add: contract_for_opcode_def)
  ultimately show ?thesis using that c by (simp add: descriptor_of_def)
qed

lemma row_ok: "c \<in> set OPCODE_CONTRACTS \<Longrightarrow> contract_ok c"
  using all_contracts_ok by (simp add: list_all_iff)

text \<open>
  The instruction table is consistent. Every instruction has exactly one row, no two share an encoding
  and none is encoded as the reserved value 255, so looking up a kind never panics and the descriptor
  view agrees with the contract view. In every row the compile-time assertions on operands hold, the
  operand roles are distinct with at most one relocation operand, the roles and input groups that the
  stack, slot, control, pending, exception and region contracts mention exist, and an instruction that
  can raise unwinds its regions and has a source obligation. Exactly the instructions with a resume
  operand can actually pend.
\<close>

theorem opcode_table_consistent:
  "list_all contract_ok OPCODE_CONTRACTS \<and> distinct (map oc_opcode OPCODE_CONTRACTS) \<and> list_all (\<lambda>c. oc_opcode c < 255) OPCODE_CONTRACTS \<and>
   (\<forall>k. \<exists>c. contract_for_opcode k = Some c \<and> oc_kind c = k \<and> descriptor_for_opcode k = Some (descriptor_of c) \<and>
      opcode_contract_for (oc_opcode c) = Some c \<and> opcode_for (oc_opcode c) = Some (descriptor_of c))"
proof (intro conjI allI)
  fix k
  obtain c where c: "c \<in> set OPCODE_CONTRACTS" "oc_kind c = k" using kind_in_table [of k] by blast
  have "contract_for_opcode k = Some c" using find_by_key [OF table_distinct(2) c(1)] c(2) by (simp add: contract_for_opcode_def)
  moreover from this have "descriptor_for_opcode k = Some (descriptor_of c)"
    by (simp add: descriptor_for_opcode_def OPCODE_TABLE_def find_map comp_def descriptor_of_def contract_for_opcode_def)
  moreover have "opcode_contract_for (oc_opcode c) = Some c" using find_by_key [OF table_distinct(1) c(1)] by (simp add: opcode_contract_for_def)
  ultimately show "\<exists>c. contract_for_opcode k = Some c \<and> oc_kind c = k \<and> descriptor_for_opcode k = Some (descriptor_of c) \<and>
      opcode_contract_for (oc_opcode c) = Some c \<and> opcode_for (oc_opcode c) = Some (descriptor_of c)"
    using c opcode_for_row by blast
qed (use all_contracts_ok table_distinct in simp_all)

end
