(* ===== verification/Bytecode_Codec.thy ===== *)
theory Bytecode_Codec
  imports Bytecode_Opcodes
begin

text \<open>
  The word encoding of functions: the bounded decoder (\<open>decode.rs\<close>) and the assembler (\<open>encode.rs\<close>) of
  \<open>artifact-model/src/bytecode\<close>. A code word and a program counter are natural numbers below \<open>2 ^ 32\<close>;
  \<open>words.len() as u32\<close> is the length modulo \<open>2 ^ 32\<close>.
\<close>

section \<open>Decoding\<close>

definition MAX_WORDS_PER_FUNCTION :: nat where
  "MAX_WORDS_PER_FUNCTION = 1000000"

definition u32_size :: nat where
  "u32_size = 2 ^ 32"

definition checked_add_u32 :: "nat \<Rightarrow> nat \<Rightarrow> nat option" where
  "checked_add_u32 a b = (if a + b < u32_size then Some (a + b) else None)"

definition checked_sub_u32 :: "nat \<Rightarrow> nat \<Rightarrow> nat option" where
  "checked_sub_u32 a b = (if b \<le> a then Some (a - b) else None)"

lemma instruction_extent: "Option.bind (checked_add_u32 pc 1) (\<lambda>v. checked_add_u32 v n) = Some fin \<Longrightarrow> fin = Suc (pc + n)"
  by (auto simp: checked_add_u32_def split: if_splits)

datatype bytecode_decode_error =
    UnknownOpcode nat nat
  | TruncatedInstruction nat nat nat
  | DecodeArithmeticOverflow
  | LimitExceeded nat nat

record decoded_instruction =
  di_pc :: nat
  di_descriptor :: opcode_descriptor
  di_operand_words :: "nat list"

record decoded_function =
  df_instructions :: "decoded_instruction list"
  df_header_pcs :: "nat list"

function decode_loop ::
  "nat list \<Rightarrow> nat \<Rightarrow> decoded_instruction list \<Rightarrow> nat list \<Rightarrow> bytecode_decode_error + decoded_function" where
  "decode_loop ws pc instrs pcs =
     (if pc < length ws mod u32_size then
        (case if ws ! pc \<le> 255 then opcode_for (ws ! pc) else None of
           None \<Rightarrow> Inl (UnknownOpcode pc (ws ! pc))
         | Some d \<Rightarrow>
             (case Option.bind (checked_add_u32 pc 1) (\<lambda>v. checked_add_u32 v (operand_word_count d)) of
                None \<Rightarrow> Inl DecodeArithmeticOverflow
              | Some fin \<Rightarrow>
                  if fin > length ws mod u32_size then
                    Inl (TruncatedInstruction pc (instruction_word_count d) (length ws mod u32_size - pc))
                  else
                    (let instrs' = instrs @ [\<lparr>di_pc = pc, di_descriptor = d, di_operand_words = take (fin - Suc pc) (drop (Suc pc) ws)\<rparr>]
                     in if length instrs' > MAX_WORDS_PER_FUNCTION then Inl (LimitExceeded (length instrs') MAX_WORDS_PER_FUNCTION)
                        else decode_loop ws fin instrs' (pcs @ [pc]))))
      else Inr \<lparr>df_instructions = instrs, df_header_pcs = pcs\<rparr>)"
  by pat_completeness auto
termination
proof (relation "measure (\<lambda>(ws, pc, _, _). length ws - pc)", goal_cases)
  case (2 ws pc instrs pcs d fin x)
  then have "fin = Suc (pc + operand_word_count d)" using instruction_extent by blast
  moreover have "pc < length ws" by (rule less_le_trans [OF 2(1) mod_less_eq_dividend])
  ultimately show ?case by simp
qed simp

declare decode_loop.simps [simp del]

definition decode_function :: "nat list \<Rightarrow> bytecode_decode_error + decoded_function" where
  "decode_function ws = decode_loop ws 0 [] []"

text \<open>\<open>delta_word as i32\<close>, then a checked addition or subtraction.\<close>

definition decode_branch_target :: "nat \<Rightarrow> nat \<Rightarrow> nat \<Rightarrow> nat option" where
  "decode_branch_target pc count delta_word =
     (case Option.bind (checked_add_u32 pc 1) (\<lambda>v. checked_add_u32 v count) of
        None \<Rightarrow> None
      | Some base \<Rightarrow>
          if delta_word < 2 ^ 31 then checked_add_u32 base delta_word else checked_sub_u32 base (u32_size - delta_word))"

section \<open>Assembling\<close>

datatype encode_error = EncodeUnknownOpcode nat | OperandCountMismatch nat nat nat | AssembleOverflow

record encoded_instruction =
  ei_opcode :: nat
  ei_operands :: "nat list"

definition encode_instruction :: "nat \<Rightarrow> nat list \<Rightarrow> encode_error + nat list" where
  "encode_instruction opc operands =
     (case opcode_for opc of
        None \<Rightarrow> Inl (EncodeUnknownOpcode opc)
      | Some d \<Rightarrow>
          if length operands \<noteq> operand_word_count d then Inl (OperandCountMismatch opc (operand_word_count d) (length operands))
          else Inr (opc # operands))"

fun assemble_total :: "nat \<Rightarrow> encoded_instruction list \<Rightarrow> encode_error + nat" where
  "assemble_total n [] = Inr n"
| "assemble_total n (i # is) =
     (case opcode_for (ei_opcode i) of
        None \<Rightarrow> Inl (EncodeUnknownOpcode (ei_opcode i))
      | Some d \<Rightarrow>
          (case checked_add_u32 n (instruction_word_count d) of
             None \<Rightarrow> Inl AssembleOverflow
           | Some n' \<Rightarrow> assemble_total n' is))"

fun assemble_words :: "encoded_instruction list \<Rightarrow> encode_error + nat list" where
  "assemble_words [] = Inr []"
| "assemble_words (i # is) =
     (case encode_instruction (ei_opcode i) (ei_operands i) of
        Inl e \<Rightarrow> Inl e
      | Inr ws \<Rightarrow> (case assemble_words is of Inl e \<Rightarrow> Inl e | Inr rest \<Rightarrow> Inr (ws @ rest)))"

definition assemble_function :: "encoded_instruction list \<Rightarrow> encode_error + nat list" where
  "assemble_function is = (case assemble_total 0 is of Inl e \<Rightarrow> Inl e | Inr _ \<Rightarrow> assemble_words is)"

section \<open>The layout of a function\<close>

text \<open>The instructions that tile a word list from a program counter on.\<close>

fun tiles :: "nat \<Rightarrow> nat list \<Rightarrow> decoded_instruction list \<Rightarrow> bool" where
  "tiles pc ws [] \<longleftrightarrow> ws = []"
| "tiles pc ws (i # is) \<longleftrightarrow>
     (\<exists>w rest. ws = w # rest \<and> opcode_for w = Some (di_descriptor i) \<and> di_pc i = pc \<and>
        operand_word_count (di_descriptor i) \<le> length rest \<and> di_operand_words i = take (operand_word_count (di_descriptor i)) rest \<and>
        tiles (pc + instruction_word_count (di_descriptor i)) (drop (operand_word_count (di_descriptor i)) rest) is)"

lemma opcode_for_range: "opcode_for w = Some d \<Longrightarrow> w < 255 \<and> od_opcode d = w"
  using table_distinct(3) by (auto simp: list_all_iff descriptor_of_def elim!: opcode_forD)

lemma tiles_Nil [simp]: "tiles pc [] is \<longleftrightarrow> is = []"
  by (cases "is") auto

lemma tiles_append:
  "tiles pc ws is \<Longrightarrow> tiles (pc + length ws) ws' is' \<Longrightarrow> tiles pc (ws @ ws') (is @ is')"
proof (induction "is" arbitrary: pc ws)
  case (Cons i "is")
  then obtain w rest where "ws = w # rest" by auto
  then show ?case using Cons.IH [of "pc + instruction_word_count (di_descriptor i)" "drop (operand_word_count (di_descriptor i)) rest"] Cons.prems
    by (auto simp: instruction_word_count_def algebra_simps)
qed simp

lemma take_instruction: "Suc pc + n \<le> length ws \<Longrightarrow> take (Suc pc + n) ws = take pc ws @ (ws ! pc # take n (drop (Suc pc) ws))"
  by (subst take_add) (simp add: take_Suc_conv_app_nth)

lemma decode_loop_sound:
  assumes "decode_loop ws pc instrs pcs = Inr df" "length ws < u32_size" "pc \<le> length ws"
    "tiles 0 (take pc ws) instrs" "pcs = map di_pc instrs" "length instrs \<le> MAX_WORDS_PER_FUNCTION"
  shows "tiles 0 ws (df_instructions df) \<and> df_header_pcs df = map di_pc (df_instructions df) \<and> length (df_instructions df) \<le> MAX_WORDS_PER_FUNCTION"
  using assms
proof (induction ws pc instrs pcs rule: decode_loop.induct)
  case (1 ws pc instrs pcs)
  show ?case
  proof (cases "pc < length ws")
    case False
    then show ?thesis using 1 by (subst (asm) decode_loop.simps) auto
  next
    case True
    obtain d fin where step: "opcode_for (ws ! pc) = Some d" "fin = Suc pc + operand_word_count d" "fin \<le> length ws"
        "decode_loop ws fin (instrs @ [\<lparr>di_pc = pc, di_descriptor = d, di_operand_words = take (fin - Suc pc) (drop (Suc pc) ws)\<rparr>]) (pcs @ [pc]) = Inr df"
        "length instrs < MAX_WORDS_PER_FUNCTION" "ws ! pc \<le> 255" "Option.bind (checked_add_u32 pc 1) (\<lambda>v. checked_add_u32 v (operand_word_count d)) = Some fin"
      using 1(2,3) True
      by (subst (asm) decode_loop.simps) (auto simp: Let_def checked_add_u32_def split: if_splits option.splits)
    let ?i = "\<lparr>di_pc = pc, di_descriptor = d, di_operand_words = take (fin - Suc pc) (drop (Suc pc) ws)\<rparr>"
    have "take fin ws = take pc ws @ (ws ! pc # take (operand_word_count d) (drop (Suc pc) ws))"
      using step(2,3) take_instruction [of pc "operand_word_count d" ws] by simp
    moreover have "tiles (0 + length (take pc ws)) (ws ! pc # take (operand_word_count d) (drop (Suc pc) ws)) [?i]"
      using step(1,2,3) True by simp
    ultimately have "tiles 0 (take fin ws) (instrs @ [?i])" using tiles_append [OF 1(5)] by simp
    then show ?thesis using 1(1) [of d fin, OF _ _ step(7) _ refl] step 1(3,6,7) True by simp
  qed
qed

lemma decode_loop_complete:
  assumes "tiles 0 (take pc ws) instrs" "tiles pc (drop pc ws) is" "length ws < u32_size" "pc \<le> length ws"
    "length instrs + length is \<le> MAX_WORDS_PER_FUNCTION" "pcs = map di_pc instrs"
  shows "decode_loop ws pc instrs pcs = Inr \<lparr>df_instructions = instrs @ is, df_header_pcs = map di_pc (instrs @ is)\<rparr>"
  using assms
proof (induction "is" arbitrary: pc instrs pcs)
  case Nil
  then show ?case by (subst decode_loop.simps) simp
next
  case (Cons i "is")
  let ?n = "operand_word_count (di_descriptor i)"
  have pc: "pc < length ws" using Cons.prems(2) by (cases "pc < length ws") auto
  then have drop: "drop pc ws = ws ! pc # drop (Suc pc) ws" by (simp add: Cons_nth_drop_Suc)
  have i: "opcode_for (ws ! pc) = Some (di_descriptor i)" "di_pc i = pc" "?n \<le> length (drop (Suc pc) ws)"
      "di_operand_words i = take ?n (drop (Suc pc) ws)" "tiles (pc + instruction_word_count (di_descriptor i)) (drop ?n (drop (Suc pc) ws)) is"
    using Cons.prems(2) unfolding drop by auto
  have fin: "Suc (pc + ?n) \<le> length ws" using i(3) pc by simp
  have "take (Suc (pc + ?n)) ws = take pc ws @ (ws ! pc # take ?n (drop (Suc pc) ws))"
    using fin take_instruction [of pc ?n ws] by simp
  moreover have "tiles (0 + length (take pc ws)) (ws ! pc # take ?n (drop (Suc pc) ws)) [i]" using i pc by simp
  ultimately have laid: "tiles 0 (take (Suc (pc + ?n)) ws) (instrs @ [i])" using tiles_append [OF Cons.prems(1)] by simp
  have rest: "tiles (Suc (pc + ?n)) (drop (Suc (pc + ?n)) ws) is" using i(5) by (simp add: instruction_word_count_def add.commute)
  have same: "\<lparr>di_pc = pc, di_descriptor = di_descriptor i, di_operand_words = take ?n (drop (Suc pc) ws)\<rparr> = i" using i by (cases i) simp
  have "decode_loop ws pc instrs pcs = decode_loop ws (Suc (pc + ?n)) (instrs @ [i]) (pcs @ [pc])"
    using pc i fin Cons.prems(3,5) opcode_for_range [OF i(1)]
    by (subst decode_loop.simps) (simp add: checked_add_u32_def Let_def same)
  then show ?case using Cons.IH [OF laid rest Cons.prems(3) fin] Cons.prems(5,6) i(2) by simp
qed

lemma decode_function_iff:
  assumes "length ws < u32_size"
  shows "decode_function ws = Inr df \<longleftrightarrow>
    tiles 0 ws (df_instructions df) \<and> df_header_pcs df = map di_pc (df_instructions df) \<and> length (df_instructions df) \<le> MAX_WORDS_PER_FUNCTION"
  using decode_loop_sound [of ws 0 "[]" "[]" df] decode_loop_complete [of 0 ws "[]" "df_instructions df" "[]"] assms
  by (cases df) (auto simp: decode_function_def)

section \<open>Round trips\<close>

definition instruction_code :: "decoded_instruction \<Rightarrow> encoded_instruction" where
  "instruction_code i = \<lparr>ei_opcode = od_opcode (di_descriptor i), ei_operands = di_operand_words i\<rparr>"

lemma instruction_code_simps [simp]:
  "ei_opcode (instruction_code i) = od_opcode (di_descriptor i)" "ei_operands (instruction_code i) = di_operand_words i"
  by (simp_all add: instruction_code_def)

lemma assemble_total_exact:
  "assemble_words is = Inr ws \<Longrightarrow>
   assemble_total n is = (if n + length ws < u32_size \<or> is = [] then Inr (n + length ws) else Inl AssembleOverflow)"
proof (induction "is" arbitrary: n ws)
  case (Cons i "is")
  then obtain d rest where i: "opcode_for (ei_opcode i) = Some d" "length (ei_operands i) = operand_word_count d"
      "assemble_words is = Inr rest" "ws = ei_opcode i # ei_operands i @ rest"
    by (auto simp: encode_instruction_def split: option.splits if_splits sum.splits)
  have empty: "is = [] \<Longrightarrow> rest = []" using i(3) by auto
  show ?case using i(1,2,4) Cons.IH [OF i(3)] empty
    by (auto simp: checked_add_u32_def instruction_word_count_def)
qed simp

lemma assemble_tiles:
  "assemble_words is = Inr ws \<Longrightarrow> \<exists>ds. tiles pc ws ds \<and> map instruction_code ds = is"
proof (induction "is" arbitrary: pc ws)
  case (Cons i "is")
  then obtain d rest where i: "opcode_for (ei_opcode i) = Some d" "length (ei_operands i) = operand_word_count d"
      "assemble_words is = Inr rest" "ws = ei_opcode i # ei_operands i @ rest"
    by (auto simp: encode_instruction_def split: option.splits if_splits sum.splits)
  obtain ds where ds: "tiles (pc + instruction_word_count d) rest ds" "map instruction_code ds = is" using Cons.IH [OF i(3)] by blast
  let ?i = "\<lparr>di_pc = pc, di_descriptor = d, di_operand_words = ei_operands i\<rparr>"
  have "tiles pc ws (?i # ds)" using i(1,2,4) ds(1) by simp
  moreover have "map instruction_code (?i # ds) = i # is"
    using ds(2) opcode_for_range [OF i(1)] by (cases i) (simp add: instruction_code_def)
  ultimately show ?case by (intro exI [of _ "?i # ds"] conjI)
qed simp

lemma tiles_assemble: "tiles pc ws ds \<Longrightarrow> assemble_words (map instruction_code ds) = Inr ws"
proof (induction ds arbitrary: pc ws)
  case (Cons i ds)
  then obtain w rest where i: "ws = w # rest" "opcode_for w = Some (di_descriptor i)" "operand_word_count (di_descriptor i) \<le> length rest"
      "di_operand_words i = take (operand_word_count (di_descriptor i)) rest"
      "assemble_words (map instruction_code ds) = Inr (drop (operand_word_count (di_descriptor i)) rest)" by auto
  then show ?case using opcode_for_range [OF i(2)] by (simp add: encode_instruction_def)
qed simp

text \<open>C36: 
  Assembling and decoding are inverse to each other: the words assembled from instructions decode to
  exactly those instructions, in order and at consecutive program counters, and decoding any words
  gives instructions that assemble back to the same words, so no two word lists have the same
  instructions and no operand word can be read as a header.
\<close>

theorem assemble_decode_roundtrip:
  "(assemble_function is = Inr ws \<and> length is \<le> MAX_WORDS_PER_FUNCTION \<longrightarrow>
      (\<exists>df. decode_function ws = Inr df \<and> map instruction_code (df_instructions df) = is \<and> df_header_pcs df = map di_pc (df_instructions df))) \<and>
   (length ws < u32_size \<and> decode_function ws = Inr df \<longrightarrow> assemble_function (map instruction_code (df_instructions df)) = Inr ws)"
proof (intro conjI impI)
  assume a: "assemble_function is = Inr ws \<and> length is \<le> MAX_WORDS_PER_FUNCTION"
  then have words: "assemble_words is = Inr ws" by (auto simp: assemble_function_def split: sum.splits)
  then have len: "length ws < u32_size"
    using a assemble_total_exact [of "is" ws 0] by (auto simp: assemble_function_def u32_size_def split: if_splits sum.splits)
  obtain ds where ds: "tiles 0 ws ds" "map instruction_code ds = is" using assemble_tiles [OF words] by blast
  then have "decode_function ws = Inr \<lparr>df_instructions = ds, df_header_pcs = map di_pc ds\<rparr>"
    using a decode_function_iff [OF len] by auto
  then show "\<exists>df. decode_function ws = Inr df \<and> map instruction_code (df_instructions df) = is \<and> df_header_pcs df = map di_pc (df_instructions df)"
    using ds(2) by simp
next
  assume a: "length ws < u32_size \<and> decode_function ws = Inr df"
  then have words: "assemble_words (map instruction_code (df_instructions df)) = Inr ws" using decode_function_iff tiles_assemble by blast
  then show "assemble_function (map instruction_code (df_instructions df)) = Inr ws"
    using a assemble_total_exact [OF words, of 0] by (simp add: assemble_function_def)
qed

section \<open>Positions\<close>

lemma tiles_positions:
  "tiles pc ws ds \<Longrightarrow> sorted_wrt (<) (map di_pc ds) \<and> (\<forall>i \<in> set ds. pc \<le> di_pc i \<and> di_pc i + instruction_word_count (di_descriptor i) \<le> pc + length ws)"
proof (induction ds arbitrary: pc ws)
  case (Cons i ds)
  then obtain w rest where i: "ws = w # rest" "operand_word_count (di_descriptor i) \<le> length rest" "di_pc i = pc"
      "tiles (pc + instruction_word_count (di_descriptor i)) (drop (operand_word_count (di_descriptor i)) rest) ds" by auto
  then show ?case using Cons.IH [OF i(4)] by (auto simp: instruction_word_count_def)
qed simp

text \<open>The end of an instruction is the header of the next one or the end of the words.\<close>

lemma tiles_next:
  "tiles pc ws ds \<Longrightarrow> i \<in> set ds \<Longrightarrow>
   di_pc i + instruction_word_count (di_descriptor i) \<in> di_pc ` set ds \<or> di_pc i + instruction_word_count (di_descriptor i) = pc + length ws"
proof (induction ds arbitrary: pc ws)
  case (Cons j ds)
  then obtain w rest where j: "ws = w # rest" "operand_word_count (di_descriptor j) \<le> length rest" "di_pc j = pc"
      "tiles (pc + instruction_word_count (di_descriptor j)) (drop (operand_word_count (di_descriptor j)) rest) ds" by auto
  show ?case
  proof (cases "i = j")
    case True
    then show ?thesis using j by (cases ds) (auto simp: instruction_word_count_def)
  next
    case False
    then show ?thesis using Cons.IH [OF j(4)] Cons.prems(2) j by (auto simp: instruction_word_count_def)
  qed
qed simp

lemma tiles_words: "tiles pc ws ds \<Longrightarrow> i \<in> set ds \<Longrightarrow> length (di_operand_words i) = operand_word_count (di_descriptor i) \<and> (\<exists>w. opcode_for w = Some (di_descriptor i))"
proof (induction ds arbitrary: pc ws)
  case (Cons j ds)
  then show ?case by (cases "i = j") (auto simp: min_def)
qed simp

lemma branch_target_exact:
  assumes "delta < u32_size"
  shows "decode_branch_target pc n delta = Some t \<longleftrightarrow>
    pc + 1 + n < u32_size \<and> t < u32_size \<and>
    int t = int pc + 1 + int n + (if delta < 2 ^ 31 then int delta else int delta - 2 ^ 32)"
proof (cases "pc + 1 + n < u32_size")
  case True
  then have base: "Option.bind (checked_add_u32 pc 1) (\<lambda>v. checked_add_u32 v n) = Some (pc + 1 + n)" by (simp add: checked_add_u32_def)
  show ?thesis using True assms unfolding decode_branch_target_def base by (auto simp: checked_add_u32_def checked_sub_u32_def u32_size_def)
next
  case False
  then have "Option.bind (checked_add_u32 pc 1) (\<lambda>v. checked_add_u32 v n) = None" by (auto simp: checked_add_u32_def)
  then show ?thesis using False by (simp add: decode_branch_target_def)
qed

end
