(* ===== verification/Bytecode_Function.thy ===== *)
theory Bytecode_Function
  imports Bytecode_Codec
begin

text \<open>
  The relocatable functions and pools of a bytecode image (\<open>artifact-model/src/bytecode/dto.rs\<close>), as far
  as the structural checks of functions read them. Type variables stand for what these checks only
  compare or hand on: nominal references \<open>'n\<close> and the identities of privileged composites \<open>'c\<close>. Error
  messages are left out; an error keeps its category and program counter.
\<close>

section \<open>Checks\<close>

datatype validation_error =
    HeaderError
  | LimitsError string nat nat
  | ArithmeticError
  | DecodeError bytecode_decode_error
  | OperandError nat
  | TargetError nat
  | TableError
  | ConstantGraphError

text \<open>The outcome of a check: passed, an error, or a panic (an index out of range).\<close>

datatype check = Checked | Rejected validation_error | Panicked

fun and_then :: "check \<Rightarrow> check \<Rightarrow> check" where
  "and_then Checked c = c"
| "and_then (Rejected e) c = Rejected e"
| "and_then Panicked c = Panicked"

definition reject_if :: "bool \<Rightarrow> validation_error \<Rightarrow> check" where
  "reject_if b e = (if b then Rejected e else Checked)"

fun each :: "('a \<Rightarrow> check) \<Rightarrow> 'a list \<Rightarrow> check" where
  "each f [] = Checked"
| "each f (x # xs) = and_then (f x) (each f xs)"

definition indexed :: "'a list \<Rightarrow> (nat \<times> 'a) list" where
  "indexed xs = zip [0..<length xs] xs"

definition get :: "'a list \<Rightarrow> nat \<Rightarrow> 'a option" where
  "get xs i = (if i < length xs then Some (xs ! i) else None)"

text \<open>Rust's \<open>xs[i]\<close>, and a sequence of checks with early return.\<close>

definition index_or_panic :: "'a list \<Rightarrow> nat \<Rightarrow> ('a \<Rightarrow> check) \<Rightarrow> check" where
  "index_or_panic xs i f = (case get xs i of None \<Rightarrow> Panicked | Some x \<Rightarrow> f x)"

definition checks :: "check list \<Rightarrow> check" where
  "checks cs = each id cs"

lemma and_then_Checked [simp]: "and_then c d = Checked \<longleftrightarrow> c = Checked \<and> d = Checked"
  by (cases c) simp_all

lemma and_then_right [simp]: "and_then c Checked = c"
  by (cases c) simp_all

lemma and_then_Panicked: "and_then c d = Panicked \<longleftrightarrow> c = Panicked \<or> c = Checked \<and> d = Panicked"
  by (cases c) simp_all

lemma reject_if_simps [simp]: "reject_if b e = Checked \<longleftrightarrow> \<not> b" "reject_if b e \<noteq> Panicked"
  by (simp_all add: reject_if_def)

lemma each_Checked [simp]: "each f xs = Checked \<longleftrightarrow> (\<forall>x \<in> set xs. f x = Checked)"
  by (induction xs) simp_all

lemma each_Panicked: "each f xs = Panicked \<Longrightarrow> \<exists>x \<in> set xs. f x = Panicked"
  by (induction xs) (auto simp: and_then_Panicked)

lemma set_indexed: "(i, x) \<in> set (indexed xs) \<longleftrightarrow> i < length xs \<and> x = xs ! i"
  by (force simp: indexed_def set_zip)

lemma ball_indexed: "(\<forall>x \<in> set (indexed xs). P x) \<longleftrightarrow> (\<forall>n < length xs. P (n, xs ! n))"
  by (auto simp: set_indexed)

lemma get_Some [simp]: "get xs i = Some x \<longleftrightarrow> i < length xs \<and> x = xs ! i"
  by (auto simp: get_def)

lemma get_None [simp]: "get xs i = None \<longleftrightarrow> length xs \<le> i"
  by (auto simp: get_def)

lemma index_or_panic_Checked [simp]: "index_or_panic xs i f = Checked \<longleftrightarrow> i < length xs \<and> f (xs ! i) = Checked"
  by (simp add: index_or_panic_def get_def)

lemma index_or_panic_Panicked: "index_or_panic xs i f = Panicked \<longleftrightarrow> (i < length xs \<longrightarrow> f (xs ! i) = Panicked)"
  by (simp add: index_or_panic_def get_def)

lemma checks_simps [simp]: "checks [] = Checked" "checks (c # cs) = and_then c (checks cs)"
  by (simp_all add: checks_def)

text \<open>How a check can panic: one of its parts does, after those before it passed.\<close>

lemmas panic_simps = and_then_Panicked index_or_panic_Panicked

section \<open>Limits\<close>

definition MAX_RELOCATIONS_PER_FUNCTION :: nat where "MAX_RELOCATIONS_PER_FUNCTION = 100000"
definition MAX_TABLE_ENTRIES :: nat where "MAX_TABLE_ENTRIES = 1000000"
definition MAX_SLOTS_PER_FRAME :: nat where "MAX_SLOTS_PER_FRAME = 65536"
definition MAX_OPERAND_DEPTH :: nat where "MAX_OPERAND_DEPTH = 65536"
definition MAX_ARITY :: nat where "MAX_ARITY = 256"
definition MAX_RESULTS_PER_CALL :: nat where "MAX_RESULTS_PER_CALL = 1"
definition MAX_SWITCH_TABLE_TARGETS :: nat where "MAX_SWITCH_TABLE_TARGETS = 65536"
definition MAX_TYPE_PARAMETERS :: nat where "MAX_TYPE_PARAMETERS = 64"
definition MAX_NESTING_DEPTH :: nat where "MAX_NESTING_DEPTH = 64"

section \<open>Types\<close>

datatype 'n type_ref_ir =
    TyBuiltin string "'n type_ref_ir list"
  | TyLocalType 'n
  | TyPublicationType 'n
  | TyServiceSymbol 'n
  | TyPackageSymbol 'n
  | TyPackageSchema 'n
  | TyAppliedNominal 'n "'n type_ref_ir list"
  | TyDbObjectSymbol 'n
  | TyRecord "(string \<times> 'n type_ref_ir) list"
  | TyUnion "'n type_ref_ir list"
  | TyNullable "'n type_ref_ir"
  | TyLiteral 'n
  | TyTypeParam string
  | TyAnyInterface 'n "'n type_ref_ir list"
  | TyFunction "(string \<times> 'n type_ref_ir) list" "'n type_ref_ir"

section \<open>Transfer plans\<close>

datatype value_drop_plan = DropTrivial | DropSnapshotRelease | DropRecursiveShape nat | DropNativeAdapter string

datatype resource_drop_plan = ResourceTableRelease | ResourceRecursiveShape nat | ResourceNativeAdapter string

datatype 'n value_transfer_plan =
    SnapshotShare value_drop_plan
  | MoveOnly value_drop_plan
  | AffineResource resource_drop_plan
  | ExplicitCloneLease string resource_drop_plan
  | FromType "'n type_ref_ir"

section \<open>Pools\<close>

record ('n, 'c) shape_declaration =
  sh_type_ref :: nat
  sh_plan :: "'n value_transfer_plan"
  sh_privileged :: "'c option"
  sh_fields :: "(string \<times> nat \<times> 'n value_transfer_plan) list"

datatype writable_path_segment = SegDenseField nat nat | SegArrayIndex nat nat | SegMapKey nat nat nat

fun selector_ordinal :: "writable_path_segment \<Rightarrow> nat option" where
  "selector_ordinal (SegDenseField _ _) = None"
| "selector_ordinal (SegArrayIndex n _) = Some n"
| "selector_ordinal (SegMapKey n _ _) = Some n"

record writable_path_declaration =
  wp_root_type_ref :: nat
  wp_leaf_type_ref :: nat
  wp_segments :: "writable_path_segment list"

definition selector_count :: "writable_path_declaration \<Rightarrow> nat" where
  "selector_count p =
     (case List.map_filter selector_ordinal (wp_segments p) of
        [] \<Rightarrow> 0
      | n # ns \<Rightarrow> min (foldl max n ns + 1) (u32_size - 1))"

record 'n resume_descriptor =
  rd_function_key :: string
  rd_site_pc :: nat
  rd_resume_pc :: nat
  rd_end_resume_pc :: "nat option"
  rd_expected_stack_height :: nat
  rd_result_type_refs :: "nat list"
  rd_result_plans :: "'n value_transfer_plan list"
  rd_emit_stream_item_shape_ref :: "nat option"

record 'n callback_capture_layout =
  cl_function_key :: string
  cl_captures :: "(nat \<times> nat \<times> 'n value_transfer_plan) list"

datatype ('n, 'c) pool_entry =
    EntryConstant nat "'n value_transfer_plan"
  | EntryType "'n type_ref_ir" "'n value_transfer_plan"
  | EntryShape "('n, 'c) shape_declaration"
  | EntryHostEffect
  | EntryResume "'n resume_descriptor"
  | EntryCallbackCapture "'n callback_capture_layout"
  | EntryWritablePath writable_path_declaration

fun entry_category :: "('n, 'c) pool_entry \<Rightarrow> pool_category" where
  "entry_category (EntryConstant _ _) = PoolConstants"
| "entry_category (EntryType _ _) = PoolTypes"
| "entry_category (EntryShape _) = PoolShapes"
| "entry_category EntryHostEffect = PoolEffects"
| "entry_category (EntryResume _) = PoolResume"
| "entry_category (EntryCallbackCapture _) = PoolCallbackCapture"
| "entry_category (EntryWritablePath _) = PoolWritablePaths"

record ('n, 'c) bytecode_pools =
  bp_constants :: "('n, 'c) pool_entry list"
  bp_types :: "('n, 'c) pool_entry list"
  bp_shapes :: "('n, 'c) pool_entry list"
  bp_effects :: "('n, 'c) pool_entry list"
  bp_resume :: "('n, 'c) pool_entry list"
  bp_callback_capture :: "('n, 'c) pool_entry list"
  bp_writable_paths :: "('n, 'c) pool_entry list"

fun pool_entries :: "('n, 'c) bytecode_pools \<Rightarrow> pool_category \<Rightarrow> ('n, 'c) pool_entry list" where
  "pool_entries p PoolConstants = bp_constants p"
| "pool_entries p PoolTypes = bp_types p"
| "pool_entries p PoolShapes = bp_shapes p"
| "pool_entries p PoolEffects = bp_effects p"
| "pool_entries p PoolResume = bp_resume p"
| "pool_entries p PoolCallbackCapture = bp_callback_capture p"
| "pool_entries p PoolWritablePaths = bp_writable_paths p"

definition pool_entry_at :: "('n, 'c) bytecode_pools \<Rightarrow> pool_category \<Rightarrow> nat \<Rightarrow> ('n, 'c) pool_entry option" where
  "pool_entry_at p cat i = get (pool_entries p cat) i"

definition pool_len :: "('n, 'c) bytecode_pools \<Rightarrow> pool_category \<Rightarrow> nat" where
  "pool_len p cat = length (pool_entries p cat)"

section \<open>Functions\<close>

record 'n bytecode_specialization =
  spec_type_arguments :: "'n type_ref_ir list"
  spec_concrete_receiver :: "'n type_ref_ir option"

text \<open>
  A relocation with the facts the function checks read: target keys, specializations, the parameter and
  result counts of a signature, whether an intrinsic has pending effects and a database operation.
\<close>

datatype 'n bytecode_relocation =
    RelLocalExecutable string "'n bytecode_specialization"
  | RelPackageCallable "'n bytecode_specialization"
  | RelServiceOperation
  | RelActorMethod
  | RelInterfaceRequirement
  | RelLocalInterface "string list"
  | RelRemoteInterface
  | RelSyntheticCallback string
  | RelTaskSubmit
  | RelHostEffect nat nat
  | RelIntrinsic nat nat bool bool
  | RelType
  | RelShape nat
  | RelFrozenConstant nat

fun relocation_kind_of :: "'n bytecode_relocation \<Rightarrow> relocation_kind" where
  "relocation_kind_of (RelLocalExecutable _ _) = RelocLocalExecutableRef"
| "relocation_kind_of (RelPackageCallable _) = RelocPackageCallableRef"
| "relocation_kind_of RelServiceOperation = RelocServiceOperationRef"
| "relocation_kind_of RelActorMethod = RelocActorMethodRef"
| "relocation_kind_of RelInterfaceRequirement = RelocInterfaceRequirementRef"
| "relocation_kind_of (RelLocalInterface _) = RelocLocalInterfaceRef"
| "relocation_kind_of RelRemoteInterface = RelocRemoteInterfaceRef"
| "relocation_kind_of (RelSyntheticCallback _) = RelocSyntheticCallbackRef"
| "relocation_kind_of RelTaskSubmit = RelocTaskSubmitRef"
| "relocation_kind_of (RelHostEffect _ _) = RelocHostEffectRef"
| "relocation_kind_of (RelIntrinsic _ _ _ _) = RelocIntrinsicRef"
| "relocation_kind_of RelType = RelocTypeRef"
| "relocation_kind_of (RelShape _) = RelocShapeRef"
| "relocation_kind_of (RelFrozenConstant _) = RelocFrozenConstantRef"

fun specialization :: "'n bytecode_relocation \<Rightarrow> 'n bytecode_specialization option" where
  "specialization (RelLocalExecutable _ sp) = Some sp"
| "specialization (RelPackageCallable sp) = Some sp"
| "specialization _ = None"

record 'n parameter_slot =
  ps_slot :: nat
  ps_plan :: "'n value_transfer_plan"
  ps_dense_record_shape_ref :: "nat option"

record 'n frame_layout =
  fr_slot_count :: nat
  fr_slot_type_refs :: "nat list"
  fr_parameter_slots :: "'n parameter_slot list"
  fr_writable_local_slots :: "nat list"
  fr_result_count :: nat
  fr_result_type_refs :: "nat list"
  fr_result_plans :: "'n value_transfer_plan list"
  fr_stream_result_type_ref :: "nat option"
  fr_slot_plans :: "'n value_transfer_plan list"

record call_loan_binding =
  cb_parameter_ordinal :: nat
  cb_root_slot :: nat
  cb_writable_path_ref :: nat

datatype catch_matcher = CatchType nat | CatchAll

record exception_region =
  er_start_pc :: nat
  er_end_pc :: nat
  er_handler_pc :: nat
  er_handler_stack_height :: nat
  er_catch_matchers :: "catch_matcher list"
  er_catch_slot :: nat
  er_catch_slot_type_ref :: nat
  er_cleanup_depth :: nat

text \<open>A source site: a span of the source, or one of the compiler.\<close>

datatype source_site = SiteSource | SiteSynthetic

record active_region =
  ar_start_pc :: nat
  ar_end_pc :: nat
  ar_duration_ms :: nat

record switch_table =
  sw_cases :: "(nat \<times> nat) list"
  sw_default_pc :: nat

datatype statement_attribution_id = AttrStatement nat nat | AttrExpression nat nat | AttrGenerated nat

fun attribution_class :: "statement_attribution_id \<Rightarrow> statement_attribution_class" where
  "attribution_class (AttrStatement _ _) = ClassStatement"
| "attribution_class (AttrExpression _ _) = ClassExpression"
| "attribution_class (AttrGenerated _) = ClassGenerated"

record statement_entry =
  st_pc :: nat
  st_sequence_ordinal :: nat
  st_attribution_id :: statement_attribution_id
  st_site :: source_site

record source_map_entry =
  sm_start_pc :: nat
  sm_end_pc :: nat
  sm_site :: source_site

record 'n bytecode_function =
  bf_function_key :: string
  bf_type_parameters :: "string list"
  bf_words :: "nat list"
  bf_relocations :: "'n bytecode_relocation list"
  bf_call_loan_layouts :: "call_loan_binding list list"
  bf_frame_layout :: "'n frame_layout"
  bf_max_operand_depth :: nat
  bf_effect_summary_ref :: string
  bf_exception_regions :: "exception_region list"
  bf_active_regions :: "active_region list"
  bf_switch_tables :: "switch_table list"
  bf_statement_entries :: "statement_entry list"
  bf_source_map :: "source_map_entry list"

record debug_binding =
  db_function_key :: string
  db_pc :: nat
  db_slot :: nat

text \<open>The functions of an image in the order of their keys, its pools and the bindings of its debug table.\<close>

record ('n, 'c) bytecode_image =
  bi_functions :: "(string \<times> 'n bytecode_function) list"
  bi_pools :: "('n, 'c) bytecode_pools"
  bi_debug_table :: "debug_binding list option"

section \<open>Nesting of types\<close>

definition type_children :: "'n type_ref_ir \<Rightarrow> 'n type_ref_ir list" where
  "type_children t =
     (case t of
        TyBuiltin _ args \<Rightarrow> args
      | TyAppliedNominal _ args \<Rightarrow> args
      | TyRecord fs \<Rightarrow> map snd fs
      | TyUnion items \<Rightarrow> items
      | TyNullable inner \<Rightarrow> [inner]
      | TyAnyInterface _ args \<Rightarrow> args
      | TyFunction ps r \<Rightarrow> map snd ps @ [r]
      | _ \<Rightarrow> [])"

lemma size_list_snd: "sum_list (map size (map snd fs)) \<le> size_list (size_prod (\<lambda>_. 0) size) fs"
  by (induction fs) auto

lemma size_list_self: "sum_list (map size ts) \<le> size_list size ts"
  by (induction ts) auto

lemma type_children_smaller: "sum_list (map size (type_children t)) < size t"
  by (cases t) (simp_all add: type_children_def size_list_self size_list_snd le_imp_less_Suc del: map_map)

lemma child_smaller: "c \<in> set (type_children t) \<Longrightarrow> size c < size t"
  using member_le_sum_list [of "size c" "map size (type_children t)"] type_children_smaller [of t] by simp

text \<open>The explicit stack of the depth walk: the last pushed child is popped first.\<close>

function nesting_walk :: "('n type_ref_ir \<times> nat) list \<Rightarrow> nat \<Rightarrow> nat" where
  "nesting_walk [] deepest = deepest"
| "nesting_walk ((t, depth) # stack) deepest =
     nesting_walk (rev (map (\<lambda>c. (c, min (depth + 1) (u32_size - 1))) (type_children t)) @ stack) (max deepest depth)"
  by pat_completeness auto
termination
  by (relation "measure (\<lambda>(stack, _). sum_list (map (size \<circ> fst) stack))")
    (auto simp: rev_map [symmetric] comp_def sum_list_rev type_children_smaller)

definition type_ref_nesting_depth :: "'n type_ref_ir \<Rightarrow> nat" where
  "type_ref_nesting_depth t = nesting_walk [(t, 1)] 1"

text \<open>The depth of a type, read off its structure.\<close>

function type_depth :: "'n type_ref_ir \<Rightarrow> nat" where
  "type_depth t = Suc (foldr (\<lambda>c. max (type_depth c)) (type_children t) 0)"
  by pat_completeness auto
termination
  by (relation "measure size") (auto dest: child_smaller)

declare type_depth.simps [simp del]

lemma foldr_max_le: "foldr (\<lambda>c. max (f c)) cs 0 \<le> (b::nat) \<longleftrightarrow> (\<forall>c \<in> set cs. f c \<le> b)"
  by (induction cs) auto

lemma type_depth_le: "type_depth t \<le> b \<longleftrightarrow> 0 < b \<and> (\<forall>c \<in> set (type_children t). type_depth c < b)"
  by (subst type_depth.simps) (cases b; simp add: foldr_max_le less_Suc_eq_le)

lemma type_depth_pos [simp]: "0 < type_depth t"
  by (subst type_depth.simps) simp

lemma capped_children:
  assumes "d \<le> m"
  shows "d \<le> b \<and> (\<forall>c \<in> set (type_children t). min (min (Suc d) m + type_depth c - 1) m \<le> b) \<longleftrightarrow> min (d + type_depth t - 1) m \<le> b"
proof (cases "m \<le> b")
  case True
  then show ?thesis using assms by auto
next
  case False
  have capped: "min (min (Suc d) m + type_depth c - 1) m \<le> b \<longleftrightarrow> d + type_depth c \<le> b" for c
    using False assms gr0_implies_Suc [OF type_depth_pos [of c]] by (auto simp: min_def)
  have "min (d + type_depth t - 1) m \<le> b \<longleftrightarrow> type_depth t \<le> Suc b - d \<and> d \<le> b"
    using False assms gr0_implies_Suc [OF type_depth_pos [of t]] by (auto simp: min_def)
  then show ?thesis unfolding capped type_depth_le by (auto simp: less_diff_conv less_Suc_eq_le add.commute)
qed

lemma nesting_walk_le:
  "\<forall>(t, d) \<in> set stack. d \<le> u32_size - 1 \<Longrightarrow>
   nesting_walk stack deepest \<le> b \<longleftrightarrow> deepest \<le> b \<and> (\<forall>(t, d) \<in> set stack. min (d + type_depth t - 1) (u32_size - 1) \<le> b)"
proof (induction stack deepest rule: nesting_walk.induct)
  case (2 t d stack deepest)
  have d: "d \<le> u32_size - 1" and rest: "\<forall>(t, d) \<in> set stack. d \<le> u32_size - 1" using "2.prems" by auto
  have pushed: "\<forall>(c, e) \<in> set (rev (map (\<lambda>c. (c, min (d + 1) (u32_size - 1))) (type_children t)) @ stack). e \<le> u32_size - 1"
    using rest by auto
  show ?case
    unfolding nesting_walk.simps "2.IH" [OF pushed] using capped_children [OF d, of b t] by auto
qed simp

text \<open>
  The depth walk with its explicit stack and saturating counter computes the nesting depth of a type,
  capped at the largest 32-bit number.
\<close>

theorem nesting_depth_exact: "type_ref_nesting_depth t = min (type_depth t) (u32_size - 1)"
proof (rule antisym)
  have b: "type_ref_nesting_depth t \<le> b \<longleftrightarrow> 1 \<le> b \<and> min (type_depth t) (u32_size - 1) \<le> b" for b
    unfolding type_ref_nesting_depth_def using nesting_walk_le [of "[(t, 1)]" 1 b] by (simp add: u32_size_def)
  show "min (type_depth t) (u32_size - 1) \<le> type_ref_nesting_depth t" using b by blast
  show "type_ref_nesting_depth t \<le> min (type_depth t) (u32_size - 1)" unfolding b using type_depth_pos [of t] by (simp add: u32_size_def Suc_le_eq)
qed

end
