(* ===== verification/Bytecode_Tables.thy ===== *)
theory Bytecode_Tables
  imports Bytecode_Function
begin

text \<open>
  The checks of a function's tables (\<open>artifact-model/src/bytecode/validate/control_flow\<close>): exception regions, active
  regions, statement entries (\<open>statement_attribution/model.rs\<close>), source map and switch tables. The decoder's
  header list is strictly ascending, so its binary search is membership. A cursor into a list is the
  rest of the list, the stack of open regions keeps their ends, the innermost first.
\<close>

section \<open>Regions\<close>

definition validate_type_pool_ref :: "('n, 'c) bytecode_pools \<Rightarrow> nat \<Rightarrow> check" where
  "validate_type_pool_ref pools t =
     (case get (bp_types pools) t of
        None \<Rightarrow> Rejected HeaderError
      | Some entry \<Rightarrow> reject_if (entry_category entry \<noteq> PoolTypes) HeaderError)"

definition words_len :: "'n bytecode_function \<Rightarrow> nat" where
  "words_len f = length (bf_words f) mod u32_size"

fun pop_closed :: "nat \<Rightarrow> nat list \<Rightarrow> nat list" where
  "pop_closed start [] = []"
| "pop_closed start (fin # open_ends) = (if fin \<le> start then pop_closed start open_ends else fin # open_ends)"

definition out_of_order :: "(nat \<times> nat) option \<Rightarrow> nat \<Rightarrow> nat \<Rightarrow> bool" where
  "out_of_order prev start fin =
     (case prev of None \<Rightarrow> False | Some (ps, pe) \<Rightarrow> start < ps \<or> start = ps \<and> fin \<ge> pe)"

definition crosses_parent :: "nat list \<Rightarrow> nat \<Rightarrow> bool" where
  "crosses_parent open_ends fin = (case open_ends of [] \<Rightarrow> False | parent # _ \<Rightarrow> fin > parent)"

fun catch_matchers_loop :: "('n, 'c) bytecode_pools \<Rightarrow> bool \<Rightarrow> nat option \<Rightarrow> catch_matcher list \<Rightarrow> check" where
  "catch_matchers_loop pools catch_all_only prev [] = Checked"
| "catch_matchers_loop pools catch_all_only prev (CatchType t # ms) =
     checks
       [reject_if (case prev of None \<Rightarrow> False | Some p \<Rightarrow> p \<ge> t) TableError,
        reject_if (t \<ge> length (bp_types pools)) HeaderError,
        index_or_panic (bp_types pools) t (\<lambda>entry. reject_if (entry_category entry \<noteq> PoolTypes) TableError),
        catch_matchers_loop pools catch_all_only (Some t) ms]"
| "catch_matchers_loop pools catch_all_only prev (CatchAll # ms) =
     and_then (reject_if (\<not> catch_all_only) TableError) (catch_matchers_loop pools catch_all_only prev ms)"

definition exception_region_checks ::
  "'n bytecode_function \<Rightarrow> nat list \<Rightarrow> ('n, 'c) bytecode_pools \<Rightarrow> (nat \<times> nat) option \<Rightarrow> nat list \<Rightarrow> exception_region \<Rightarrow> check" where
  "exception_region_checks f headers pools prev open_ends r =
     checks
       [reject_if (er_start_pc r \<ge> er_end_pc r) TableError,
        reject_if (er_start_pc r \<notin> set headers) TableError,
        reject_if (er_handler_pc r \<notin> set headers) TableError,
        reject_if (er_end_pc r \<noteq> words_len f \<and> er_end_pc r \<notin> set headers) TableError,
        reject_if (er_start_pc r \<le> er_handler_pc r \<and> er_handler_pc r < er_end_pc r) TableError,
        reject_if (out_of_order prev (er_start_pc r) (er_end_pc r)) TableError,
        reject_if (crosses_parent open_ends (er_end_pc r)) TableError,
        reject_if (er_catch_slot r \<ge> fr_slot_count (bf_frame_layout f)) TableError,
        validate_type_pool_ref pools (er_catch_slot_type_ref r),
        reject_if (get (fr_slot_type_refs (bf_frame_layout f)) (er_catch_slot r) \<noteq> Some (er_catch_slot_type_ref r)) TableError,
        reject_if (er_handler_stack_height r > MAX_OPERAND_DEPTH)
          (LimitsError ''MAX_OPERAND_DEPTH'' (er_handler_stack_height r) MAX_OPERAND_DEPTH),
        reject_if (er_handler_stack_height r > bf_max_operand_depth f) TableError,
        reject_if (er_cleanup_depth r > MAX_OPERAND_DEPTH) (LimitsError ''MAX_OPERAND_DEPTH'' (er_cleanup_depth r) MAX_OPERAND_DEPTH),
        reject_if (er_catch_matchers r = []) TableError,
        catch_matchers_loop pools (er_catch_matchers r = [CatchAll]) None (er_catch_matchers r)]"

fun exception_regions_loop ::
  "'n bytecode_function \<Rightarrow> nat list \<Rightarrow> ('n, 'c) bytecode_pools \<Rightarrow> (nat \<times> nat) option \<Rightarrow> nat list \<Rightarrow> exception_region list \<Rightarrow> check" where
  "exception_regions_loop f headers pools prev open_ends [] = Checked"
| "exception_regions_loop f headers pools prev open_ends (r # rs) =
     (let open_ends' = pop_closed (er_start_pc r) open_ends
      in and_then (exception_region_checks f headers pools prev open_ends' r)
           (exception_regions_loop f headers pools (Some (er_start_pc r, er_end_pc r)) (er_end_pc r # open_ends') rs))"

definition validate_exception_regions :: "'n bytecode_function \<Rightarrow> nat list \<Rightarrow> ('n, 'c) bytecode_pools \<Rightarrow> check" where
  "validate_exception_regions f headers pools = exception_regions_loop f headers pools None [] (bf_exception_regions f)"

text \<open>The counts of the enter and leave instructions of each active region.\<close>

definition saturating_inc :: "nat \<Rightarrow> nat" where
  "saturating_inc n = min (n + 1) (u32_size - 1)"

fun region_counts :: "decoded_instruction list \<Rightarrow> nat list \<Rightarrow> nat list \<Rightarrow> check + nat list \<times> nat list" where
  "region_counts [] enters leaves = Inr (enters, leaves)"
| "region_counts (i # is) enters leaves =
     (case operand_word (di_descriptor i) RoleActiveRegion (di_operand_words i) of
        None \<Rightarrow> region_counts is enters leaves
      | Some n \<Rightarrow>
          if od_kind (di_descriptor i) = OpcEnterRegion then
            (if n < length enters then region_counts is (enters[n := saturating_inc (enters ! n)]) leaves else Inl Panicked)
          else if od_kind (di_descriptor i) = OpcLeaveRegion then
            (if n < length leaves then region_counts is enters (leaves[n := saturating_inc (leaves ! n)]) else Inl Panicked)
          else Inl (Rejected (OperandError (di_pc i))))"

definition active_region_checks ::
  "'n bytecode_function \<Rightarrow> nat list \<Rightarrow> nat list \<Rightarrow> nat list \<Rightarrow> (nat \<times> nat) option \<Rightarrow> nat list \<Rightarrow> nat \<times> active_region \<Rightarrow> check" where
  "active_region_checks f headers enters leaves prev open_ends ir =
     (case ir of (n, r) \<Rightarrow>
        checks
          [reject_if (ar_start_pc r \<ge> ar_end_pc r) TableError,
           reject_if (ar_start_pc r \<notin> set headers \<or> (ar_end_pc r \<noteq> words_len f \<and> ar_end_pc r \<notin> set headers)) TableError,
           reject_if (out_of_order prev (ar_start_pc r) (ar_end_pc r)) TableError,
           reject_if (crosses_parent open_ends (ar_end_pc r)) TableError,
           reject_if (ar_duration_ms r = 0) TableError,
           index_or_panic enters n (\<lambda>c. if c \<noteq> 1 then Rejected TableError else index_or_panic leaves n (\<lambda>c. reject_if (c \<noteq> 1) TableError))])"

fun active_regions_loop ::
  "'n bytecode_function \<Rightarrow> nat list \<Rightarrow> nat list \<Rightarrow> nat list \<Rightarrow> (nat \<times> nat) option \<Rightarrow> nat list \<Rightarrow> (nat \<times> active_region) list \<Rightarrow> check" where
  "active_regions_loop f headers enters leaves prev open_ends [] = Checked"
| "active_regions_loop f headers enters leaves prev open_ends ((n, r) # rs) =
     (let open_ends' = pop_closed (ar_start_pc r) open_ends
      in and_then (active_region_checks f headers enters leaves prev open_ends' (n, r))
           (active_regions_loop f headers enters leaves (Some (ar_start_pc r, ar_end_pc r)) (ar_end_pc r # open_ends') rs))"

definition validate_active_regions :: "'n bytecode_function \<Rightarrow> decoded_function \<Rightarrow> check" where
  "validate_active_regions f d =
     (case region_counts (df_instructions d) (replicate (length (bf_active_regions f)) 0) (replicate (length (bf_active_regions f)) 0) of
        Inl c \<Rightarrow> c
      | Inr (enters, leaves) \<Rightarrow> active_regions_loop f (df_header_pcs d) enters leaves None [] (indexed (bf_active_regions f)))"

section \<open>Statement entries\<close>

type_synonym occurrences = "(nat \<times> nat \<times> nat) list"

text \<open>The row of a source index: how often it occurs and its largest ordinal.\<close>

fun record_occurrence :: "occurrences \<Rightarrow> nat \<Rightarrow> nat \<Rightarrow> occurrences" where
  "record_occurrence [] source ord = [(source, 1, ord)]"
| "record_occurrence ((s, count, maximum) # rows) source ord =
     (if s = source then (s, count + 1, max maximum ord) # rows else (s, count, maximum) # record_occurrence rows source ord)"

definition validate_dense_occurrences :: "occurrences \<Rightarrow> check" where
  "validate_dense_occurrences rows = each (\<lambda>(s, count, maximum). reject_if (maximum + 1 \<noteq> count) TableError) rows"

record canonical_state =
  cs_identities :: "statement_attribution_id list"
  cs_statements :: occurrences
  cs_expressions :: occurrences
  cs_generated :: "nat \<times> nat"
  cs_previous_pc :: "nat option"
  cs_expected_sequence :: nat

definition canonical_start :: canonical_state where
  "canonical_start = \<lparr>cs_identities = [], cs_statements = [], cs_expressions = [], cs_generated = (0, 0), cs_previous_pc = None, cs_expected_sequence = 0\<rparr>"

definition canonical_count :: "canonical_state \<Rightarrow> statement_attribution_id \<Rightarrow> canonical_state" where
  "canonical_count s a =
     (case a of
        AttrStatement n ord \<Rightarrow> s\<lparr>cs_statements := record_occurrence (cs_statements s) n ord\<rparr>
      | AttrExpression n ord \<Rightarrow> s\<lparr>cs_expressions := record_occurrence (cs_expressions s) n ord\<rparr>
      | AttrGenerated ord \<Rightarrow> s\<lparr>cs_generated := (fst (cs_generated s) + 1, max (snd (cs_generated s)) ord)\<rparr>)"

definition sequence_wrong :: "canonical_state \<Rightarrow> statement_entry \<Rightarrow> bool" where
  "sequence_wrong s e =
     (case cs_previous_pc s of
        None \<Rightarrow> st_sequence_ordinal e \<noteq> 0
      | Some previous \<Rightarrow>
          if st_pc e < previous then True
          else if st_pc e = previous then st_sequence_ordinal e \<noteq> cs_expected_sequence s
          else st_sequence_ordinal e \<noteq> 0)"

fun canonical_loop :: "canonical_state \<Rightarrow> statement_entry list \<Rightarrow> check" where
  "canonical_loop s [] =
     checks
       [validate_dense_occurrences (cs_statements s),
        validate_dense_occurrences (cs_expressions s),
        reject_if (fst (cs_generated s) > 0 \<and> snd (cs_generated s) + 1 \<noteq> fst (cs_generated s)) TableError]"
| "canonical_loop s (e # es) =
     checks
       [reject_if (sequence_wrong s e) TableError,
        reject_if (st_attribution_id e \<in> set (cs_identities s)) TableError,
        reject_if (attribution_class (st_attribution_id e) = ClassGenerated \<and> st_site e \<noteq> SiteSynthetic) TableError,
        (case checked_add_u32 (st_sequence_ordinal e) 1 of
           None \<Rightarrow> Rejected TableError
         | Some next \<Rightarrow>
             canonical_loop
               ((canonical_count s (st_attribution_id e))
                \<lparr>cs_identities := st_attribution_id e # cs_identities s, cs_previous_pc := Some (st_pc e), cs_expected_sequence := next\<rparr>) es)]"

definition validate_statement_entries_canonical :: "statement_entry list \<Rightarrow> check" where
  "validate_statement_entries_canonical es = canonical_loop canonical_start es"

definition validate_opcode_requirement :: "decoded_instruction \<Rightarrow> statement_entry list \<Rightarrow> check" where
  "validate_opcode_requirement i es =
     (case contract_for_opcode (od_kind (di_descriptor i)) of
        None \<Rightarrow> Panicked
      | Some c \<Rightarrow>
          (case oc_statement c of
             StmtNone \<Rightarrow> Checked
           | StmtRequiredEvent charge_kind attribution \<Rightarrow>
               reject_if (length (filter (\<lambda>e. attribution_class (st_attribution_id e) = attribution) es) \<noteq> 1) TableError))"

fun statement_merge :: "decoded_instruction list \<Rightarrow> statement_entry list \<Rightarrow> check" where
  "statement_merge [] es = reject_if (es \<noteq> []) TableError"
| "statement_merge (i # is) es =
     checks
       [reject_if (case es of [] \<Rightarrow> False | e # _ \<Rightarrow> st_pc e < di_pc i) TableError,
        validate_opcode_requirement i (takeWhile (\<lambda>e. st_pc e = di_pc i) es),
        statement_merge is (dropWhile (\<lambda>e. st_pc e = di_pc i) es)]"

definition validate_statement_entries :: "'n bytecode_function \<Rightarrow> decoded_instruction list \<Rightarrow> check" where
  "validate_statement_entries f is =
     and_then (validate_statement_entries_canonical (bf_statement_entries f)) (statement_merge is (bf_statement_entries f))"

section \<open>Source map and switch tables\<close>

fun source_map_loop :: "nat \<Rightarrow> nat list \<Rightarrow> nat option \<Rightarrow> source_map_entry list \<Rightarrow> check" where
  "source_map_loop word_count headers prev [] = Checked"
| "source_map_loop word_count headers prev (e # es) =
     checks
       [reject_if (sm_start_pc e \<ge> sm_end_pc e) TableError,
        reject_if (sm_end_pc e > word_count) TableError,
        reject_if (sm_start_pc e \<notin> set headers \<or> (sm_end_pc e \<noteq> word_count \<and> sm_end_pc e \<notin> set headers)) TableError,
        reject_if (case prev of None \<Rightarrow> False | Some previous_end \<Rightarrow> previous_end > sm_start_pc e) TableError,
        source_map_loop word_count headers (Some (sm_end_pc e)) es]"

text \<open>The cursor of \<open>SourceMapCoverageCursor\<close> after a lookup, and the entry it finds.\<close>

fun advance_cursor :: "source_map_entry list \<Rightarrow> nat \<Rightarrow> source_map_entry list" where
  "advance_cursor [] pc = []"
| "advance_cursor (e # es) pc = (if sm_end_pc e \<le> pc then advance_cursor es pc else e # es)"

definition covers :: "nat \<Rightarrow> source_map_entry \<Rightarrow> bool" where
  "covers pc e \<longleftrightarrow> sm_start_pc e \<le> pc \<and> pc < sm_end_pc e"

definition covering_entry :: "source_map_entry list \<Rightarrow> nat \<Rightarrow> source_map_entry option" where
  "covering_entry cursor pc = (case advance_cursor cursor pc of [] \<Rightarrow> None | e # _ \<Rightarrow> if covers pc e then Some e else None)"

fun source_coverage_loop :: "source_map_entry list \<Rightarrow> decoded_instruction list \<Rightarrow> check" where
  "source_coverage_loop cursor [] = Checked"
| "source_coverage_loop cursor (i # is) =
     (case contract_for_opcode (od_kind (di_descriptor i)) of
        None \<Rightarrow> Panicked
      | Some c \<Rightarrow>
          (case oc_source c of
             SourceRequired use origin \<Rightarrow>
               (case covering_entry cursor (di_pc i) of
                  None \<Rightarrow> Rejected TableError
                | Some e \<Rightarrow>
                    and_then (reject_if (origin = OriginSyntheticOnly \<and> sm_site e \<noteq> SiteSynthetic) TableError)
                      (source_coverage_loop (advance_cursor cursor (di_pc i)) is))
           | _ \<Rightarrow> source_coverage_loop cursor is))"

definition validate_source_map :: "'n bytecode_function \<Rightarrow> decoded_function \<Rightarrow> check" where
  "validate_source_map f d =
     and_then (source_map_loop (words_len f) (df_header_pcs d) None (bf_source_map f))
       (source_coverage_loop (bf_source_map f) (df_instructions d))"

fun switch_cases_loop :: "('n, 'c) bytecode_pools \<Rightarrow> nat list \<Rightarrow> nat option \<Rightarrow> (nat \<times> nat) list \<Rightarrow> check" where
  "switch_cases_loop pools headers prev [] = Checked"
| "switch_cases_loop pools headers prev ((tag, target) # cases) =
     checks
       [validate_type_pool_ref pools tag,
        reject_if (case prev of None \<Rightarrow> False | Some p \<Rightarrow> p \<ge> tag) TableError,
        reject_if (target \<notin> set headers) TableError,
        switch_cases_loop pools headers (Some tag) cases]"

definition validate_switch_tables :: "'n bytecode_function \<Rightarrow> nat list \<Rightarrow> ('n, 'c) bytecode_pools \<Rightarrow> check" where
  "validate_switch_tables f headers pools =
     each (\<lambda>t. and_then (reject_if (sw_default_pc t \<notin> set headers) TableError) (switch_cases_loop pools headers None (sw_cases t)))
       (bf_switch_tables f)"

definition validate_tables :: "'n bytecode_function \<Rightarrow> decoded_function \<Rightarrow> ('n, 'c) bytecode_pools \<Rightarrow> check" where
  "validate_tables f d pools =
     checks
       [validate_exception_regions f (df_header_pcs d) pools,
        validate_active_regions f d,
        validate_statement_entries f (df_instructions d),
        validate_source_map f d,
        validate_switch_tables f (df_header_pcs d) pools]"

section \<open>Nesting\<close>

text \<open>Two ranges in canonical order, the second inside the first or after it.\<close>

definition region_before :: "nat \<times> nat \<Rightarrow> nat \<times> nat \<Rightarrow> bool" where
  "region_before a b \<longleftrightarrow> (fst a < fst b \<or> fst a = fst b \<and> snd b < snd a) \<and> (snd a \<le> fst b \<or> snd b \<le> snd a)"

definition well_nested :: "(nat \<times> nat) list \<Rightarrow> bool" where
  "well_nested rs \<longleftrightarrow> (\<forall>r \<in> set rs. fst r < snd r) \<and> sorted_wrt region_before rs"

fun nested_from :: "(nat \<times> nat) option \<Rightarrow> nat list \<Rightarrow> (nat \<times> nat) list \<Rightarrow> bool" where
  "nested_from prev open_ends [] \<longleftrightarrow> True"
| "nested_from prev open_ends ((s, e) # rs) \<longleftrightarrow>
     s < e \<and> \<not> out_of_order prev s e \<and> \<not> crosses_parent (pop_closed s open_ends) e \<and> nested_from (Some (s, e)) (e # pop_closed s open_ends) rs"

definition open_ends_of :: "(nat \<times> nat) list \<Rightarrow> nat list \<Rightarrow> bool" where
  "open_ends_of seen open_ends \<longleftrightarrow>
     sorted open_ends \<and> set open_ends \<subseteq> snd ` set seen \<and> (\<forall>a \<in> set seen. snd a \<in> set open_ends \<or> snd a \<le> fst (last seen))"

lemma pop_closed_filter: "sorted open_ends \<Longrightarrow> pop_closed s open_ends = filter (\<lambda>x. s < x) open_ends"
  by (induction open_ends) (auto intro!: filter_True [symmetric])

lemma crosses_parent_sorted: "sorted open_ends \<Longrightarrow> crosses_parent open_ends e \<longleftrightarrow> (\<exists>x \<in> set open_ends. x < e)"
  by (cases open_ends) (auto simp: crosses_parent_def)

definition last_of :: "'a list \<Rightarrow> 'a option" where
  "last_of xs = (if xs = [] then None else Some (last xs))"

lemma before_last:
  assumes "sorted_wrt region_before seen" "a \<in> set seen"
  shows "a = last seen \<or> region_before a (last seen)"
  using assms by (induction seen rule: rev_induct) (auto simp: sorted_wrt_append)

lemma next_region:
  assumes seen: "sorted_wrt region_before seen" and ends: "open_ends_of seen open_ends"
  shows "\<not> out_of_order (last_of seen) s e \<and> \<not> crosses_parent (pop_closed s open_ends) e \<longleftrightarrow> (\<forall>a \<in> set seen. region_before a (s, e))"
proof -
  have popped: "crosses_parent (pop_closed s open_ends) e \<longleftrightarrow> (\<exists>x \<in> set open_ends. s < x \<and> x < e)"
    using ends by (auto simp: open_ends_of_def pop_closed_filter crosses_parent_sorted sorted_wrt_filter)
  show ?thesis
  proof (intro iffI ballI conjI)
    fix a assume new: "\<not> out_of_order (last_of seen) s e \<and> \<not> crosses_parent (pop_closed s open_ends) e" and a: "a \<in> set seen"
    then have "seen \<noteq> []" by auto
    then have order: "fst (last seen) < s \<or> fst (last seen) = s \<and> e < snd (last seen)"
      using new by (auto simp: out_of_order_def last_of_def not_le split: prod.splits)
    have "a = last seen \<or> region_before a (last seen)" by (rule before_last [OF seen a])
    then have "fst a < s \<or> fst a = s \<and> e < snd a" using order by (auto simp: region_before_def)
    moreover have "snd a \<in> set open_ends \<or> snd a \<le> fst (last seen)" using ends a by (auto simp: open_ends_of_def)
    then have "snd a \<le> s \<or> e \<le> snd a" using new order popped by (auto simp: not_less)
    ultimately show "region_before a (s, e)" by (simp add: region_before_def)
  next
    assume all: "\<forall>a \<in> set seen. region_before a (s, e)"
    then have "seen \<noteq> [] \<Longrightarrow> region_before (last seen) (s, e)" by simp
    then show "\<not> out_of_order (last_of seen) s e"
      by (cases "last seen") (auto simp: out_of_order_def last_of_def region_before_def)
    have "set open_ends \<subseteq> snd ` set seen" using ends by (simp add: open_ends_of_def)
    then show "\<not> crosses_parent (pop_closed s open_ends) e" using all popped by (fastforce simp: region_before_def)
  qed
qed

lemma open_ends_next:
  assumes "open_ends_of seen open_ends" "\<forall>a \<in> set seen. region_before a (s, e)"
  shows "open_ends_of (seen @ [(s, e)]) (e # pop_closed s open_ends)"
proof -
  have pop: "pop_closed s open_ends = filter (\<lambda>x. s < x) open_ends" using assms(1) by (simp add: open_ends_of_def pop_closed_filter)
  have inner: "\<forall>x \<in> set open_ends. s < x \<longrightarrow> e \<le> x" using assms by (fastforce simp: open_ends_of_def region_before_def)
  have outer: "snd a \<in> set open_ends \<or> snd a \<le> s" if "a \<in> set seen" for a
  proof -
    have "region_before (last seen) (s, e)" using that assms(2) by (cases seen) auto
    then show ?thesis using that assms(1) by (fastforce simp: open_ends_of_def region_before_def)
  qed
  show ?thesis unfolding open_ends_of_def pop using assms(1) inner outer
    by (auto simp: open_ends_of_def sorted_wrt_filter not_less)
qed

lemma nested_from_iff:
  assumes "sorted_wrt region_before seen" "open_ends_of seen open_ends"
  shows "nested_from (last_of seen) open_ends rs \<longleftrightarrow> (\<forall>r \<in> set rs. fst r < snd r) \<and> sorted_wrt region_before (seen @ rs)"
  using assms
proof (induction rs arbitrary: seen open_ends)
  case (Cons r rs)
  obtain s e where r: "r = (s, e)" by (cases r)
  show ?case
  proof (cases "\<forall>a \<in> set seen. region_before a (s, e)")
    case True
    have "sorted_wrt region_before (seen @ [(s, e)])" using Cons.prems(1) True by (simp add: sorted_wrt_append)
    from Cons.IH [OF this open_ends_next [OF Cons.prems(2) True]] show ?thesis
      using next_region [OF Cons.prems, of s e] True by (auto simp: r last_of_def)
  next
    case False
    then show ?thesis using next_region [OF Cons.prems, of s e] by (auto simp: r sorted_wrt_append)
  qed
qed simp

lemma nested_from_well_nested: "nested_from None [] rs \<longleftrightarrow> well_nested rs"
  using nested_from_iff [of "[]" "[]" rs] by (simp add: last_of_def open_ends_of_def well_nested_def)

section \<open>Accepted regions\<close>

definition matchers_ok :: "('n, 'c) bytecode_pools \<Rightarrow> catch_matcher list \<Rightarrow> bool" where
  "matchers_ok pools ms \<longleftrightarrow>
     ms = [CatchAll] \<or>
     (\<exists>ts. ts \<noteq> [] \<and> ms = map CatchType ts \<and> sorted_wrt (<) ts \<and> (\<forall>t \<in> set ts. t < length (bp_types pools) \<and> entry_category (bp_types pools ! t) = PoolTypes))"

definition boundary :: "'n bytecode_function \<Rightarrow> nat list \<Rightarrow> nat \<Rightarrow> bool" where
  "boundary f headers pc \<longleftrightarrow> pc = words_len f \<or> pc \<in> set headers"

definition exception_region_ok :: "'n bytecode_function \<Rightarrow> nat list \<Rightarrow> ('n, 'c) bytecode_pools \<Rightarrow> exception_region \<Rightarrow> bool" where
  "exception_region_ok f headers pools r \<longleftrightarrow>
     er_start_pc r \<in> set headers \<and> boundary f headers (er_end_pc r) \<and>
     er_handler_pc r \<in> set headers \<and> er_handler_pc r \<notin> {er_start_pc r ..< er_end_pc r} \<and>
     er_catch_slot r < fr_slot_count (bf_frame_layout f) \<and>
     get (fr_slot_type_refs (bf_frame_layout f)) (er_catch_slot r) = Some (er_catch_slot_type_ref r) \<and>
     er_catch_slot_type_ref r < length (bp_types pools) \<and> entry_category (bp_types pools ! er_catch_slot_type_ref r) = PoolTypes \<and>
     er_handler_stack_height r \<le> min MAX_OPERAND_DEPTH (bf_max_operand_depth f) \<and> er_cleanup_depth r \<le> MAX_OPERAND_DEPTH \<and>
     matchers_ok pools (er_catch_matchers r)"

definition region_range :: "exception_region \<Rightarrow> nat \<times> nat" where
  "region_range r = (er_start_pc r, er_end_pc r)"

definition active_range :: "active_region \<Rightarrow> nat \<times> nat" where
  "active_range r = (ar_start_pc r, ar_end_pc r)"

lemma type_pool_ref_Checked [simp]:
  "validate_type_pool_ref pools t = Checked \<longleftrightarrow> t < length (bp_types pools) \<and> entry_category (bp_types pools ! t) = PoolTypes"
  by (auto simp: validate_type_pool_ref_def get_def)

lemma typed_matchers_Checked:
  "catch_matchers_loop pools False prev ms = Checked \<longleftrightarrow>
   (\<exists>ts. ms = map CatchType ts \<and> sorted_wrt (<) (case prev of None \<Rightarrow> ts | Some p \<Rightarrow> p # ts) \<and>
      (\<forall>t \<in> set ts. t < length (bp_types pools) \<and> entry_category (bp_types pools ! t) = PoolTypes))"
proof (induction pools False prev ms rule: catch_matchers_loop.induct)
  case (2 pools prev t ms)
  show ?case
  proof
    assume "catch_matchers_loop pools False prev (CatchType t # ms) = Checked"
    then obtain ts where ts: "ms = map CatchType ts" "sorted_wrt (<) (t # ts)" "\<forall>t \<in> set ts. t < length (bp_types pools) \<and> entry_category (bp_types pools ! t) = PoolTypes"
        and t: "t < length (bp_types pools)" "entry_category (bp_types pools ! t) = PoolTypes" "case prev of None \<Rightarrow> True | Some p \<Rightarrow> p < t"
      using 2 by (auto split: option.splits)
    then show "\<exists>ts. CatchType t # ms = map CatchType ts \<and> sorted_wrt (<) (case prev of None \<Rightarrow> ts | Some p \<Rightarrow> p # ts) \<and>
      (\<forall>t \<in> set ts. t < length (bp_types pools) \<and> entry_category (bp_types pools ! t) = PoolTypes)"
      by (intro exI [of _ "t # ts"]) (auto split: option.splits dest: less_trans)
  next
    assume "\<exists>ts. CatchType t # ms = map CatchType ts \<and> sorted_wrt (<) (case prev of None \<Rightarrow> ts | Some p \<Rightarrow> p # ts) \<and>
      (\<forall>t \<in> set ts. t < length (bp_types pools) \<and> entry_category (bp_types pools ! t) = PoolTypes)"
    then obtain ts where ts: "ms = map CatchType ts" "sorted_wrt (<) (case prev of None \<Rightarrow> t # ts | Some p \<Rightarrow> p # t # ts)"
        "\<forall>t \<in> set (t # ts). t < length (bp_types pools) \<and> entry_category (bp_types pools ! t) = PoolTypes" by (auto simp: Cons_eq_map_conv)
    then have "catch_matchers_loop pools False (Some t) ms = Checked" unfolding 2 by (intro exI [of _ ts]) (auto split: option.splits)
    then show "catch_matchers_loop pools False prev (CatchType t # ms) = Checked" using ts(2,3) by (auto split: option.splits)
  qed
qed (auto split: option.splits)

lemma matchers_Checked:
  "catch_matchers_loop pools (ms = [CatchAll]) None ms = Checked \<and> ms \<noteq> [] \<longleftrightarrow> matchers_ok pools ms"
proof (cases "ms = [CatchAll]")
  case True
  then show ?thesis by (simp add: matchers_ok_def)
next
  case False
  then show ?thesis using typed_matchers_Checked [of pools None ms] by (auto simp: matchers_ok_def)
qed

lemma exception_region_Checked:
  "exception_region_checks f headers pools prev open_ends r = Checked \<longleftrightarrow>
   er_start_pc r < er_end_pc r \<and> \<not> out_of_order prev (er_start_pc r) (er_end_pc r) \<and> \<not> crosses_parent open_ends (er_end_pc r) \<and>
   exception_region_ok f headers pools r"
  unfolding exception_region_checks_def exception_region_ok_def matchers_Checked [symmetric] boundary_def by (auto simp: not_le not_less)

lemma exception_regions_Checked:
  "exception_regions_loop f headers pools prev open_ends rs = Checked \<longleftrightarrow>
   nested_from prev open_ends (map region_range rs) \<and> (\<forall>r \<in> set rs. exception_region_ok f headers pools r)"
  by (induction rs arbitrary: prev open_ends) (auto simp: Let_def exception_region_Checked region_range_def)

text \<open>C38: 
  The one-pass check of exception regions with its stack of open regions accepts exactly the tables in
  canonical order whose ranges are pairwise disjoint or nested, whose bounds and handlers are
  instruction boundaries with the handler outside its range, and whose catch slots, stack heights and
  matchers are well formed.
\<close>

theorem exception_regions_exact:
  "validate_exception_regions f headers pools = Checked \<longleftrightarrow>
   well_nested (map region_range (bf_exception_regions f)) \<and> (\<forall>r \<in> set (bf_exception_regions f). exception_region_ok f headers pools r)"
  unfolding validate_exception_regions_def exception_regions_Checked nested_from_well_nested by (rule refl)

text \<open>How often an instruction names an active region.\<close>

definition region_uses :: "opcode \<Rightarrow> nat \<Rightarrow> decoded_instruction list \<Rightarrow> nat" where
  "region_uses k n is =
     length (filter (\<lambda>i. od_kind (di_descriptor i) = k \<and> operand_word (di_descriptor i) RoleActiveRegion (di_operand_words i) = Some n) is)"

definition region_operands_ok :: "nat \<Rightarrow> decoded_instruction list \<Rightarrow> bool" where
  "region_operands_ok m is \<longleftrightarrow>
     (\<forall>i \<in> set is. \<forall>n. operand_word (di_descriptor i) RoleActiveRegion (di_operand_words i) = Some n \<longrightarrow>
        od_kind (di_descriptor i) \<in> {OpcEnterRegion, OpcLeaveRegion} \<and> n < m)"

definition active_region_ok :: "'n bytecode_function \<Rightarrow> nat list \<Rightarrow> active_region \<Rightarrow> bool" where
  "active_region_ok f headers r \<longleftrightarrow> ar_start_pc r \<in> set headers \<and> boundary f headers (ar_end_pc r) \<and> 0 < ar_duration_ms r"

lemma region_uses_simps [simp]:
  "region_uses k n [] = 0"
  "region_uses k n (i # is) =
     region_uses k n is + (if od_kind (di_descriptor i) = k \<and> operand_word (di_descriptor i) RoleActiveRegion (di_operand_words i) = Some n then 1 else 0)"
  by (simp_all add: region_uses_def)

definition capped :: "nat \<Rightarrow> nat" where
  "capped n = min n (u32_size - 1)"

lemma capped_same: "capped a = capped b \<Longrightarrow> a = 1 \<longleftrightarrow> b = 1"
  by (auto simp: capped_def u32_size_def min_def split: if_splits)

lemma saturating_capped: "capped (n + saturating_inc m) = capped (Suc (n + m))"
  by (simp add: capped_def saturating_inc_def)

lemma region_counts_some:
  "region_counts is enters leaves \<noteq> Inl c \<or> c \<noteq> Checked"
  by (induction "is" enters leaves rule: region_counts.induct) (auto split: option.splits)

lemma region_counts_Inr:
  assumes "length enters = m" "length leaves = m"
  shows "(\<exists>r. region_counts is enters leaves = Inr r) \<longleftrightarrow> region_operands_ok m is"
  using assms
  by (induction "is" enters leaves rule: region_counts.induct) (auto simp: region_operands_ok_def split: option.splits)

lemma region_counts_exact:
  assumes "region_counts is enters leaves = Inr (enters', leaves')"
  shows "length enters' = length enters \<and> length leaves' = length leaves \<and>
    (\<forall>n < length enters. capped (enters' ! n) = capped (region_uses OpcEnterRegion n is + enters ! n)) \<and>
    (\<forall>n < length leaves. capped (leaves' ! n) = capped (region_uses OpcLeaveRegion n is + leaves ! n))"
  using assms
proof (induction "is" enters leaves rule: region_counts.induct)
  case (2 i "is" enters leaves)
  show ?case
  proof (cases "operand_word (di_descriptor i) RoleActiveRegion (di_operand_words i)")
    case None
    then show ?thesis using 2 by simp
  next
    case (Some n)
    show ?thesis
    proof (cases "od_kind (di_descriptor i) = OpcEnterRegion")
      case True
      then show ?thesis using 2 Some by (auto split: if_splits simp: nth_list_update saturating_capped)
    next
      case False
      then show ?thesis using 2 Some by (auto split: if_splits simp: nth_list_update saturating_capped)
    qed
  qed
qed simp

lemma active_region_Checked:
  "active_region_checks f headers enters leaves prev open_ends (n, r) = Checked \<longleftrightarrow>
   ar_start_pc r < ar_end_pc r \<and> \<not> out_of_order prev (ar_start_pc r) (ar_end_pc r) \<and> \<not> crosses_parent open_ends (ar_end_pc r) \<and>
   active_region_ok f headers r \<and> n < length enters \<and> enters ! n = 1 \<and> n < length leaves \<and> leaves ! n = 1"
  by (auto simp: active_region_checks_def active_region_ok_def boundary_def not_le split: if_splits)

lemma active_regions_Checked:
  "active_regions_loop f headers enters leaves prev open_ends rs = Checked \<longleftrightarrow>
   nested_from prev open_ends (map (active_range \<circ> snd) rs) \<and>
   (\<forall>(n, r) \<in> set rs. active_region_ok f headers r \<and> n < length enters \<and> enters ! n = 1 \<and> n < length leaves \<and> leaves ! n = 1)"
  by (induction rs arbitrary: prev open_ends) (auto simp: Let_def active_region_Checked active_range_def)

lemma map_snd_indexed: "map (f \<circ> snd) (indexed xs) = map f xs"
  by (simp add: indexed_def flip: map_map)

text \<open>
  The check of active regions accepts exactly the tables in canonical order with disjoint or nested
  ranges on instruction boundaries and positive durations, in which every region is entered by exactly
  one instruction and left by exactly one, and no instruction names a region that is not there.
\<close>

theorem active_regions_exact:
  "validate_active_regions f d = Checked \<longleftrightarrow>
   region_operands_ok (length (bf_active_regions f)) (df_instructions d) \<and> well_nested (map active_range (bf_active_regions f)) \<and>
   (\<forall>n < length (bf_active_regions f). active_region_ok f (df_header_pcs d) (bf_active_regions f ! n) \<and>
      region_uses OpcEnterRegion n (df_instructions d) = 1 \<and> region_uses OpcLeaveRegion n (df_instructions d) = 1)"
proof -
  let ?m = "length (bf_active_regions f)" and ?is = "df_instructions d"
  let ?z = "replicate ?m (0::nat)"
  show ?thesis
  proof (cases "region_counts ?is ?z ?z")
    case (Inl c)
    then show ?thesis using region_counts_Inr [of ?z ?m ?z ?is] region_counts_some [of ?is ?z ?z c] by (auto simp: validate_active_regions_def)
  next
    case (Inr r)
    obtain enters leaves where r: "r = (enters, leaves)" by (cases r)
    have ok: "region_operands_ok ?m ?is" using region_counts_Inr [of ?z ?m ?z ?is] Inr by simp
    have counts: "length enters = ?m" "length leaves = ?m"
        "n < ?m \<Longrightarrow> enters ! n = 1 \<longleftrightarrow> region_uses OpcEnterRegion n ?is = 1" "n < ?m \<Longrightarrow> leaves ! n = 1 \<longleftrightarrow> region_uses OpcLeaveRegion n ?is = 1" for n
      using region_counts_exact [OF Inr [unfolded r]] capped_same [of "enters ! n"] capped_same [of "leaves ! n"] by auto
    show ?thesis using ok counts
      by (auto simp: validate_active_regions_def Inr r active_regions_Checked map_snd_indexed nested_from_well_nested ball_indexed)
  qed
qed

section \<open>Accepted source maps and switch tables\<close>

definition source_entry_ok :: "'n bytecode_function \<Rightarrow> nat list \<Rightarrow> source_map_entry \<Rightarrow> bool" where
  "source_entry_ok f headers e \<longleftrightarrow>
     sm_start_pc e < sm_end_pc e \<and> sm_end_pc e \<le> words_len f \<and> sm_start_pc e \<in> set headers \<and> boundary f headers (sm_end_pc e)"

definition entries_apart :: "source_map_entry list \<Rightarrow> bool" where
  "entries_apart es \<longleftrightarrow> (\<forall>e \<in> set es. sm_start_pc e < sm_end_pc e) \<and> sorted_wrt (\<lambda>a b. sm_end_pc a \<le> sm_start_pc b) es"

text \<open>An instruction that needs a source site has exactly one entry over it, a synthetic one where that is required.\<close>

definition source_covered :: "source_map_entry list \<Rightarrow> decoded_instruction \<Rightarrow> bool" where
  "source_covered es i \<longleftrightarrow>
     (\<forall>c use origin. contract_for_opcode (od_kind (di_descriptor i)) = Some c \<and> oc_source c = SourceRequired use origin \<longrightarrow>
        (\<exists>e. filter (covers (di_pc i)) es = [e] \<and> (origin = OriginSyntheticOnly \<longrightarrow> sm_site e = SiteSynthetic)))"

lemma source_map_Checked:
  "source_map_loop (words_len f) headers prev es = Checked \<longleftrightarrow>
   (\<forall>e \<in> set es. source_entry_ok f headers e) \<and> sorted_wrt (\<lambda>a b. sm_end_pc a \<le> sm_start_pc b) es \<and>
   (\<forall>p. prev = Some p \<longrightarrow> (\<forall>e \<in> set es. p \<le> sm_start_pc e))"
proof (induction es arbitrary: prev)
  case (Cons e es)
  have "source_map_loop (words_len f) headers prev (e # es) = Checked \<longleftrightarrow>
    source_entry_ok f headers e \<and> (\<forall>p. prev = Some p \<longrightarrow> p \<le> sm_start_pc e) \<and> source_map_loop (words_len f) headers (Some (sm_end_pc e)) es = Checked"
    by (auto simp: source_entry_ok_def boundary_def not_le not_less split: option.splits)
  note step = this
  show ?case
  proof (cases "source_entry_ok f headers e")
    case True
    then have trans: "p \<le> sm_start_pc e \<Longrightarrow> sm_end_pc e \<le> sm_start_pc x \<Longrightarrow> p \<le> sm_start_pc x" for p x by (simp add: source_entry_ok_def)
    show ?thesis unfolding step Cons.IH using True by (auto intro: trans)
  next
    case False
    then show ?thesis unfolding step by auto
  qed
qed simp

lemma covering_exact:
  "entries_apart es \<Longrightarrow> covering_entry es pc = Some e \<longleftrightarrow> filter (covers pc) es = [e]"
proof (induction es)
  case (Cons x es)
  have apart: "entries_apart es" using Cons.prems by (simp add: entries_apart_def)
  show ?case
  proof (cases "sm_end_pc x \<le> pc")
    case True
    then show ?thesis using Cons.IH [OF apart] by (simp add: covering_entry_def covers_def)
  next
    case False
    then have "filter (covers pc) es = []" using Cons.prems by (fastforce simp: entries_apart_def covers_def filter_empty_conv)
    then show ?thesis using False by (simp add: covering_entry_def)
  qed
qed (simp add: covering_entry_def)

lemma advance_later:
  "pc \<le> pc' \<Longrightarrow> filter (covers pc') (advance_cursor es pc) = filter (covers pc') es"
  by (induction es) (auto simp: covers_def)

lemma advance_apart: "entries_apart es \<Longrightarrow> entries_apart (advance_cursor es pc)"
  by (induction es) (auto simp: entries_apart_def)

lemma covered_later: "pc \<le> di_pc i \<Longrightarrow> source_covered (advance_cursor es pc) i \<longleftrightarrow> source_covered es i"
  by (simp add: source_covered_def advance_later)

lemma contract_total: "\<exists>c. contract_for_opcode k = Some c"
proof -
  obtain c where c: "c \<in> set OPCODE_CONTRACTS" "oc_kind c = k" using kind_in_table [of k] by blast
  then show ?thesis using find_by_key [OF table_distinct(2) c(1)] by (simp add: contract_for_opcode_def)
qed

lemma source_coverage_Checked:
  assumes "entries_apart es" "sorted (map di_pc is)"
  shows "source_coverage_loop es is = Checked \<longleftrightarrow> (\<forall>i \<in> set is. source_covered es i)"
  using assms
proof (induction "is" arbitrary: es)
  case (Cons i "is")
  obtain c where c: "contract_for_opcode (od_kind (di_descriptor i)) = Some c" using contract_total by blast
  show ?case
  proof (cases "\<exists>use origin. oc_source c = SourceRequired use origin")
    case False
    then have "source_covered es i" using c by (simp add: source_covered_def)
    moreover have "source_coverage_loop es (i # is) = source_coverage_loop es is" using c False by (auto split: source_contract.splits)
    ultimately show ?thesis using Cons by simp
  next
    case True
    then obtain use origin where origin: "oc_source c = SourceRequired use origin" by blast
    have later: "\<forall>j \<in> set is. source_covered (advance_cursor es (di_pc i)) j \<longleftrightarrow> source_covered es j"
      using Cons.prems(2) by (simp add: covered_later)
    have rest: "source_coverage_loop (advance_cursor es (di_pc i)) is = Checked \<longleftrightarrow> (\<forall>j \<in> set is. source_covered es j)"
      using Cons.IH [OF advance_apart [OF Cons.prems(1)]] Cons.prems(2) later by simp
    have "source_covered es i \<longleftrightarrow> (\<exists>e. covering_entry es (di_pc i) = Some e \<and> (origin = OriginSyntheticOnly \<longrightarrow> sm_site e = SiteSynthetic))"
      unfolding source_covered_def covering_exact [OF Cons.prems(1)] using c origin by auto
    then show ?thesis using c origin rest by (cases "covering_entry es (di_pc i)") auto
  qed
qed simp

lemma decoded_layout:
  assumes "decode_function ws = Inr d" "length ws < u32_size"
  shows "tiles 0 ws (df_instructions d)" "df_header_pcs d = map di_pc (df_instructions d)" "sorted_wrt (<) (map di_pc (df_instructions d))"
    "sorted (map di_pc (df_instructions d))"
proof -
  show layout: "tiles 0 ws (df_instructions d)" "df_header_pcs d = map di_pc (df_instructions d)" using decode_function_iff assms by blast+
  show strict: "sorted_wrt (<) (map di_pc (df_instructions d))" using tiles_positions [OF layout(1)] by blast
  show "sorted (map di_pc (df_instructions d))" by (rule sorted_wrt_mono_rel [OF _ strict]) simp
qed

text \<open>
  The source map check, with a cursor that only moves forward, accepts exactly the maps whose entries lie
  on instruction boundaries one after the other and in which every decoded instruction that needs a
  source site is covered by exactly one entry, a synthetic one where its contract says so.
\<close>

theorem source_map_exact:
  assumes "decode_function (bf_words f) = Inr d" "length (bf_words f) < u32_size"
  shows "validate_source_map f d = Checked \<longleftrightarrow>
    (\<forall>e \<in> set (bf_source_map f). source_entry_ok f (df_header_pcs d) e) \<and>
    sorted_wrt (\<lambda>a b. sm_end_pc a \<le> sm_start_pc b) (bf_source_map f) \<and>
    (\<forall>i \<in> set (df_instructions d). source_covered (bf_source_map f) i)"
proof (cases "(\<forall>e \<in> set (bf_source_map f). source_entry_ok f (df_header_pcs d) e) \<and> sorted_wrt (\<lambda>a b. sm_end_pc a \<le> sm_start_pc b) (bf_source_map f)")
  case True
  then have "entries_apart (bf_source_map f)" by (auto simp: entries_apart_def source_entry_ok_def)
  from source_coverage_Checked [OF this decoded_layout(4) [OF assms]] show ?thesis
    using True by (simp add: validate_source_map_def source_map_Checked)
next
  case False
  then show ?thesis by (auto simp: validate_source_map_def source_map_Checked)
qed

lemma switch_cases_Checked:
  "switch_cases_loop pools headers prev cases = Checked \<longleftrightarrow>
   (\<forall>(tag, target) \<in> set cases. tag < length (bp_types pools) \<and> entry_category (bp_types pools ! tag) = PoolTypes \<and> target \<in> set headers) \<and>
   sorted_wrt (<) (map fst cases) \<and> (\<forall>p. prev = Some p \<longrightarrow> (\<forall>c \<in> set cases. p < fst c))"
proof (induction cases arbitrary: prev)
  case (Cons c cases)
  obtain tag target where c: "c = (tag, target)" by (cases c)
  have "switch_cases_loop pools headers prev (c # cases) = Checked \<longleftrightarrow>
    tag < length (bp_types pools) \<and> entry_category (bp_types pools ! tag) = PoolTypes \<and> target \<in> set headers \<and>
    (\<forall>p. prev = Some p \<longrightarrow> p < tag) \<and> switch_cases_loop pools headers (Some tag) cases = Checked"
    by (auto simp: c not_le split: option.splits)
  then show ?case unfolding Cons.IH by (auto simp: c)
qed simp

section \<open>Accepted statement entries\<close>

text \<open>An entry that continues those before it: later or equal counter, the next ordinal at its counter, a new identity.\<close>

definition entry_fits :: "statement_entry list \<Rightarrow> statement_entry \<Rightarrow> bool" where
  "entry_fits seen e \<longleftrightarrow>
     (\<forall>x \<in> set seen. st_pc x \<le> st_pc e) \<and> st_sequence_ordinal e = length (filter (\<lambda>x. st_pc x = st_pc e) seen) \<and>
     st_attribution_id e \<notin> st_attribution_id ` set seen \<and>
     (attribution_class (st_attribution_id e) = ClassGenerated \<longrightarrow> st_site e = SiteSynthetic)"

fun all_fit :: "statement_entry list \<Rightarrow> statement_entry list \<Rightarrow> bool" where
  "all_fit seen [] \<longleftrightarrow> True"
| "all_fit seen (e # es) \<longleftrightarrow> entry_fits seen e \<and> all_fit (seen @ [e]) es"

text \<open>The ordinals of one source index, an initial segment of the numbers.\<close>

definition ordinals :: "(nat \<Rightarrow> statement_attribution_id) \<Rightarrow> statement_entry list \<Rightarrow> nat set" where
  "ordinals k es = {ord. k ord \<in> st_attribution_id ` set es}"

definition dense :: "nat set \<Rightarrow> bool" where
  "dense A \<longleftrightarrow> (\<exists>m. A = {..<m})"

definition canonical_entries :: "statement_entry list \<Rightarrow> bool" where
  "canonical_entries es \<longleftrightarrow>
     all_fit [] es \<and> (\<forall>n. dense (ordinals (AttrStatement n) es)) \<and> (\<forall>n. dense (ordinals (AttrExpression n) es)) \<and> dense (ordinals AttrGenerated es)"

lemma dense_card:
  assumes "finite A" "A \<noteq> {}"
  shows "dense A \<longleftrightarrow> Max A + 1 = card A"
proof
  assume "dense A"
  then obtain m where A: "A = {..<m}" by (auto simp: dense_def)
  then have "0 < m" using assms by auto
  then have "Max A = m - 1" unfolding A by (intro Max_eqI) auto
  then show "Max A + 1 = card A" using A \<open>0 < m\<close> by simp
next
  assume "Max A + 1 = card A"
  moreover have "A \<subseteq> {..<Max A + 1}" using assms by (auto simp: less_Suc_eq_le)
  ultimately have "A = {..<Max A + 1}" by (intro card_subset_eq) auto
  then show "dense A" unfolding dense_def by blast
qed

lemma dense_empty [simp]: "dense {}"
  unfolding dense_def by (rule exI [of _ 0]) simp

lemma ordinals_finite: "inj k \<Longrightarrow> finite (ordinals k es)"
  unfolding ordinals_def by (rule finite_subset [OF _ finite_vimageI [of "st_attribution_id ` set es" k]]) auto

lemma ordinals_add: "inj k \<Longrightarrow> st_attribution_id e = k ord \<Longrightarrow> ordinals k (seen @ [e]) = insert ord (ordinals k seen)"
  by (auto simp: ordinals_def dest: injD)

lemma ordinals_other: "(\<And>ord. st_attribution_id e \<noteq> k ord) \<Longrightarrow> ordinals k (seen @ [e]) = ordinals k seen"
  by (auto simp: ordinals_def) metis

lemma attr_inj [simp]: "inj (AttrStatement n)" "inj (AttrExpression n)" "inj AttrGenerated"
  by (auto intro: injI)

definition tally :: "nat set \<Rightarrow> (nat \<times> nat) option" where
  "tally A = (if A = {} then None else Some (card A, Max A))"

definition tallied :: "(nat \<Rightarrow> nat \<Rightarrow> statement_attribution_id) \<Rightarrow> statement_entry list \<Rightarrow> occurrences \<Rightarrow> bool" where
  "tallied k seen rows \<longleftrightarrow> distinct (map fst rows) \<and> (\<forall>n. map_of rows n = tally (ordinals (k n) seen))"

lemma record_occurrence_keys: "fst ` set (record_occurrence rows n ord) = insert n (fst ` set rows)"
  by (induction rows n ord rule: record_occurrence.induct) auto

lemma record_occurrence_distinct: "distinct (map fst rows) \<Longrightarrow> distinct (map fst (record_occurrence rows n ord))"
  by (induction rows n ord rule: record_occurrence.induct) (auto simp: record_occurrence_keys)

lemma record_occurrence_lookup:
  "map_of (record_occurrence rows n ord) =
   (map_of rows)(n \<mapsto> (case map_of rows n of None \<Rightarrow> (1, ord) | Some (count, maximum) \<Rightarrow> (count + 1, max maximum ord)))"
  by (induction rows n ord rule: record_occurrence.induct) (auto simp: fun_eq_iff)

lemma tally_insert:
  "finite A \<Longrightarrow> ord \<notin> A \<Longrightarrow> tally (insert ord A) = Some (case tally A of None \<Rightarrow> (1, ord) | Some (count, maximum) \<Rightarrow> (count + 1, max maximum ord))"
  by (auto simp: tally_def max.commute)

lemma tallied_add:
  assumes "tallied k seen rows" "st_attribution_id e = k n ord" "st_attribution_id e \<notin> st_attribution_id ` set seen"
    "\<And>n. inj (k n)" "\<And>a b c d. k a b = k c d \<Longrightarrow> a = c"
  shows "tallied k (seen @ [e]) (record_occurrence rows n ord)"
proof -
  have other: "ordinals (k m) (seen @ [e]) = ordinals (k m) seen" if "m \<noteq> n" for m
    using that assms(2,5) by (intro ordinals_other) metis
  have new: "ord \<notin> ordinals (k n) seen" using assms(2,3) by (simp add: ordinals_def)
  have "map_of (record_occurrence rows n ord) m = tally (ordinals (k m) (seen @ [e]))" for m
    using assms(1) other tally_insert [OF ordinals_finite [OF assms(4)] new]
    by (cases "m = n") (auto simp: record_occurrence_lookup tallied_def ordinals_add [OF assms(4,2)])
  then show ?thesis using assms(1) by (simp add: tallied_def record_occurrence_distinct)
qed

lemma tallied_other:
  assumes "tallied k seen rows" "\<And>n ord. st_attribution_id e \<noteq> k n ord"
  shows "tallied k (seen @ [e]) rows"
  using assms by (simp add: tallied_def ordinals_other)

lemma tallied_dense:
  assumes "tallied k seen rows" "\<And>n. inj (k n)"
  shows "validate_dense_occurrences rows = Checked \<longleftrightarrow> (\<forall>n. dense (ordinals (k n) seen))"
proof -
  have "distinct (map fst rows)" using assms(1) by (simp add: tallied_def)
  then have "validate_dense_occurrences rows = Checked \<longleftrightarrow> (\<forall>n c m. map_of rows n = Some (c, m) \<longrightarrow> m + 1 = c)"
    by (auto simp: validate_dense_occurrences_def map_of_eq_Some_iff split: prod.splits)
  also have "\<dots> \<longleftrightarrow> (\<forall>n. dense (ordinals (k n) seen))"
  proof (rule arg_cong [where f = All], rule ext)
    fix n
    show "(\<forall>c m. map_of rows n = Some (c, m) \<longrightarrow> m + 1 = c) \<longleftrightarrow> dense (ordinals (k n) seen)"
      using assms(1) dense_card [OF ordinals_finite [OF assms(2)], of n seen]
      by (cases "ordinals (k n) seen = {}") (auto simp: tallied_def tally_def)
  qed
  finally show ?thesis .
qed

text \<open>The state of the canonical pass after the entries seen.\<close>

definition canon_inv :: "statement_entry list \<Rightarrow> canonical_state \<Rightarrow> bool" where
  "canon_inv seen s \<longleftrightarrow>
     set (cs_identities s) = st_attribution_id ` set seen \<and> tallied AttrStatement seen (cs_statements s) \<and>
     tallied AttrExpression seen (cs_expressions s) \<and>
     cs_generated s = (card (ordinals AttrGenerated seen), Max (insert 0 (ordinals AttrGenerated seen))) \<and>
     cs_previous_pc s = map_option st_pc (last_of seen) \<and>
     (seen \<noteq> [] \<longrightarrow> cs_expected_sequence s = length (filter (\<lambda>x. st_pc x = st_pc (last seen)) seen)) \<and>
     sorted (map st_pc seen)"

lemma sequence_exact:
  assumes "canon_inv seen s"
  shows "\<not> sequence_wrong s e \<longleftrightarrow>
    (\<forall>x \<in> set seen. st_pc x \<le> st_pc e) \<and> st_sequence_ordinal e = length (filter (\<lambda>x. st_pc x = st_pc e) seen)"
proof (cases "seen = []")
  case True
  then show ?thesis using assms by (auto simp: sequence_wrong_def canon_inv_def last_of_def)
next
  case False
  have last: "\<forall>x \<in> set seen. st_pc x \<le> st_pc (last seen)"
    using assms False by (cases seen rule: rev_cases) (auto simp: canon_inv_def sorted_append)
  consider "st_pc e < st_pc (last seen)" | "st_pc e = st_pc (last seen)" | "st_pc (last seen) < st_pc e" by linarith
  then show ?thesis
  proof cases
    case 1
    then have "\<not> (\<forall>x \<in> set seen. st_pc x \<le> st_pc e)" using False last_in_set not_le by blast
    then show ?thesis using assms False 1 by (auto simp: sequence_wrong_def canon_inv_def last_of_def)
  next
    case 2
    then show ?thesis using assms False last by (auto simp: sequence_wrong_def canon_inv_def last_of_def)
  next
    case 3
    then have "filter (\<lambda>x. st_pc x = st_pc e) seen = []" using last by (fastforce simp: filter_empty_conv)
    then show ?thesis using assms False last 3 by (auto simp: sequence_wrong_def canon_inv_def last_of_def intro: order_trans less_imp_le)
  qed
qed

lemma canonical_count_simps [simp]:
  "cs_previous_pc (canonical_count s a) = cs_previous_pc s" "cs_identities (canonical_count s a) = cs_identities s"
  by (simp_all add: canonical_count_def split: statement_attribution_id.splits)

lemma canonical_count_tallies:
  assumes "canon_inv seen s" "st_attribution_id e \<notin> st_attribution_id ` set seen"
  shows "tallied AttrStatement (seen @ [e]) (cs_statements (canonical_count s (st_attribution_id e)))"
    "tallied AttrExpression (seen @ [e]) (cs_expressions (canonical_count s (st_attribution_id e)))"
    "cs_generated (canonical_count s (st_attribution_id e)) =
       (card (ordinals AttrGenerated (seen @ [e])), Max (insert 0 (ordinals AttrGenerated (seen @ [e]))))"
proof -
  have inv: "tallied AttrStatement seen (cs_statements s)" "tallied AttrExpression seen (cs_expressions s)"
      "cs_generated s = (card (ordinals AttrGenerated seen), Max (insert 0 (ordinals AttrGenerated seen)))"
    using assms(1) by (auto simp: canon_inv_def)
  have fin: "finite (ordinals AttrGenerated seen)" by (simp add: ordinals_finite)
  show "tallied AttrStatement (seen @ [e]) (cs_statements (canonical_count s (st_attribution_id e)))"
    by (cases "st_attribution_id e") (auto simp: canonical_count_def intro!: tallied_add [OF inv(1) _ assms(2)] tallied_other [OF inv(1)])
  show "tallied AttrExpression (seen @ [e]) (cs_expressions (canonical_count s (st_attribution_id e)))"
    by (cases "st_attribution_id e") (auto simp: canonical_count_def intro!: tallied_add [OF inv(2) _ assms(2)] tallied_other [OF inv(2)])
  show "cs_generated (canonical_count s (st_attribution_id e)) =
       (card (ordinals AttrGenerated (seen @ [e])), Max (insert 0 (ordinals AttrGenerated (seen @ [e]))))"
  proof (cases "st_attribution_id e")
    case (AttrGenerated ord)
    have "ord \<notin> ordinals AttrGenerated seen" using AttrGenerated assms(2) by (simp add: ordinals_def)
    then show ?thesis using fin inv(3)
      by (simp add: AttrGenerated canonical_count_def ordinals_add [OF attr_inj(3) AttrGenerated] insert_commute [of 0] max.commute)
  qed (simp_all add: canonical_count_def inv(3) ordinals_other)
qed

lemma canon_inv_next:
  assumes "canon_inv seen s" "entry_fits seen e"
  shows "canon_inv (seen @ [e]) ((canonical_count s (st_attribution_id e))
    \<lparr>cs_identities := st_attribution_id e # cs_identities s, cs_previous_pc := Some (st_pc e), cs_expected_sequence := Suc (st_sequence_ordinal e)\<rparr>)"
  using assms canonical_count_tallies [OF assms(1)]
  by (auto simp: canon_inv_def entry_fits_def last_of_def sorted_append)

lemma canonical_loop_Checked:
  assumes "canon_inv seen s" "length (seen @ es) < u32_size"
  shows "canonical_loop s es = Checked \<longleftrightarrow>
    all_fit seen es \<and> (\<forall>n. dense (ordinals (AttrStatement n) (seen @ es))) \<and> (\<forall>n. dense (ordinals (AttrExpression n) (seen @ es))) \<and>
    dense (ordinals AttrGenerated (seen @ es))"
  using assms
proof (induction es arbitrary: seen s)
  case Nil
  let ?G = "ordinals AttrGenerated seen"
  have inv: "tallied AttrStatement seen (cs_statements s)" "tallied AttrExpression seen (cs_expressions s)" "cs_generated s = (card ?G, Max (insert 0 ?G))"
    using Nil(1) by (auto simp: canon_inv_def)
  have fin: "finite ?G" by (simp add: ordinals_finite)
  have "dense ?G \<longleftrightarrow> (0 < card ?G \<longrightarrow> Max (insert 0 ?G) + 1 = card ?G)"
    using dense_card [OF fin] fin by (cases "?G = {}") (auto simp: card_gt_0_iff)
  then show ?case by (auto simp: tallied_dense [OF inv(1)] tallied_dense [OF inv(2)] inv(3))
next
  case (Cons e es)
  let ?s = "(canonical_count s (st_attribution_id e))
    \<lparr>cs_identities := st_attribution_id e # cs_identities s, cs_previous_pc := Some (st_pc e), cs_expected_sequence := Suc (st_sequence_ordinal e)\<rparr>"
  have ids: "set (cs_identities s) = st_attribution_id ` set seen" using Cons.prems(1) by (simp add: canon_inv_def)
  have fits: "\<not> sequence_wrong s e \<and> st_attribution_id e \<notin> set (cs_identities s) \<and>
      \<not> (attribution_class (st_attribution_id e) = ClassGenerated \<and> st_site e \<noteq> SiteSynthetic) \<longleftrightarrow> entry_fits seen e"
    unfolding sequence_exact [OF Cons.prems(1)] ids entry_fits_def by auto
  show ?case
  proof (cases "entry_fits seen e")
    case False
    then have "canonical_loop s (e # es) \<noteq> Checked" using fits by auto
    then show ?thesis using False by simp
  next
    case True
    have "st_sequence_ordinal e \<le> length seen" using True by (simp add: entry_fits_def)
    then have "st_sequence_ordinal e + 1 < u32_size" using Cons.prems(2) by simp
    then have "canonical_loop s (e # es) = canonical_loop ?s es" using True fits by (auto simp: checked_add_u32_def reject_if_def)
    then show ?thesis using Cons.IH [OF canon_inv_next [OF Cons.prems(1) True]] Cons.prems(2) True by simp
  qed
qed

lemma canonical_Checked:
  "length es < u32_size \<Longrightarrow> validate_statement_entries_canonical es = Checked \<longleftrightarrow> canonical_entries es"
  using canonical_loop_Checked [of "[]" canonical_start es]
  by (simp add: validate_statement_entries_canonical_def canonical_entries_def canon_inv_def canonical_start_def last_of_def tallied_def ordinals_def tally_def)

lemma all_fit_sorted: "all_fit seen es \<Longrightarrow> sorted (map st_pc seen) \<Longrightarrow> sorted (map st_pc (seen @ es))"
  by (induction seen es rule: all_fit.induct) (auto simp: sorted_append entry_fits_def)

definition requirement_met :: "decoded_instruction \<Rightarrow> statement_entry list \<Rightarrow> bool" where
  "requirement_met i es \<longleftrightarrow>
     (\<forall>c charge_kind attribution. contract_for_opcode (od_kind (di_descriptor i)) = Some c \<and> oc_statement c = StmtRequiredEvent charge_kind attribution \<longrightarrow>
        length (filter (\<lambda>e. st_pc e = di_pc i \<and> attribution_class (st_attribution_id e) = attribution) es) = 1)"

lemma opcode_requirement_Checked:
  "validate_opcode_requirement i (filter (\<lambda>e. st_pc e = di_pc i) es) = Checked \<longleftrightarrow> requirement_met i es"
  using contract_total [of "od_kind (di_descriptor i)"]
  by (auto simp: validate_opcode_requirement_def requirement_met_def conj_commute split: statement_contract.splits)

lemma sorted_prefix:
  assumes "sorted (map st_pc es)" "\<forall>e \<in> set es. pc \<le> st_pc e"
  shows "takeWhile (\<lambda>e. st_pc e = pc) es = filter (\<lambda>e. st_pc e = pc) es" "dropWhile (\<lambda>e. st_pc e = pc) es = filter (\<lambda>e. st_pc e \<noteq> pc) es"
proof -
  have "takeWhile (\<lambda>e. st_pc e = pc) es = filter (\<lambda>e. st_pc e = pc) es \<and> dropWhile (\<lambda>e. st_pc e = pc) es = filter (\<lambda>e. st_pc e \<noteq> pc) es"
    using assms
  proof (induction es)
    case (Cons e es)
    show ?case
    proof (cases "st_pc e = pc")
      case True
      then show ?thesis using Cons by simp
    next
      case False
      then have "\<forall>x \<in> set (e # es). st_pc x \<noteq> pc" using Cons.prems by fastforce
      then show ?thesis using False by (auto simp: filter_empty_conv intro!: filter_True [symmetric])
    qed
  qed simp
  then show "takeWhile (\<lambda>e. st_pc e = pc) es = filter (\<lambda>e. st_pc e = pc) es" "dropWhile (\<lambda>e. st_pc e = pc) es = filter (\<lambda>e. st_pc e \<noteq> pc) es" by auto
qed

lemma statement_merge_Checked:
  assumes "sorted (map st_pc es)" "sorted_wrt (<) (map di_pc is)"
  shows "statement_merge is es = Checked \<longleftrightarrow> (\<forall>e \<in> set es. st_pc e \<in> di_pc ` set is) \<and> (\<forall>i \<in> set is. requirement_met i es)"
  using assms
proof (induction "is" arbitrary: es)
  case Nil
  then show ?case by (cases es) auto
next
  case (Cons i "is")
  have first: "(case es of [] \<Rightarrow> False | e # _ \<Rightarrow> st_pc e < di_pc i) \<longleftrightarrow> \<not> (\<forall>e \<in> set es. di_pc i \<le> st_pc e)"
    using Cons.prems(1) by (cases es) (auto simp: not_le intro: order_trans)
  show ?case
  proof (cases "\<forall>e \<in> set es. di_pc i \<le> st_pc e")
    case False
    then have "\<exists>e \<in> set es. st_pc e \<notin> di_pc ` set (i # is)" using Cons.prems(2) by (fastforce simp: not_le)
    then show ?thesis using first False by auto
  next
    case True
    let ?es = "filter (\<lambda>e. st_pc e \<noteq> di_pc i) es"
    have split: "takeWhile (\<lambda>e. st_pc e = di_pc i) es = filter (\<lambda>e. st_pc e = di_pc i) es" "dropWhile (\<lambda>e. st_pc e = di_pc i) es = ?es"
      using sorted_prefix [OF Cons.prems(1) True] by auto
    have same: "requirement_met j ?es = requirement_met j es" if "j \<in> set is" for j
    proof -
      have "di_pc j \<noteq> di_pc i" using Cons.prems(2) that by auto
      then have "filter (\<lambda>e. st_pc e = di_pc j \<and> Q e) ?es = filter (\<lambda>e. st_pc e = di_pc j \<and> Q e) es" for Q
        unfolding filter_filter by (intro filter_cong) auto
      then show ?thesis unfolding requirement_met_def by simp
    qed
    have "statement_merge (i # is) es = Checked \<longleftrightarrow> requirement_met i es \<and> statement_merge is ?es = Checked"
      using first True by (simp add: split opcode_requirement_Checked)
    also have "\<dots> \<longleftrightarrow> requirement_met i es \<and> (\<forall>e \<in> set ?es. st_pc e \<in> di_pc ` set is) \<and> (\<forall>j \<in> set is. requirement_met j es)"
      using Cons.IH [of ?es] Cons.prems same by (simp add: sorted_filter)
    also have "(\<forall>e \<in> set ?es. st_pc e \<in> di_pc ` set is) \<longleftrightarrow> (\<forall>e \<in> set es. st_pc e \<in> di_pc ` set (i # is))" by auto
    finally show ?thesis by auto
  qed
qed

text \<open>
  The statement entries a function may carry are exactly the canonical ones that hang on its code: entries
  ascend by program counter with consecutive ordinals at each counter, identities are unique and the
  occurrence ordinals of every statement, every expression and of the generated events have no gap, a
  generated event has a synthetic site, every entry sits on an instruction header, and every instruction
  whose contract asks for an event of a class has exactly one of that class.
\<close>

theorem statement_entries_exact:
  assumes "decode_function (bf_words f) = Inr d" "length (bf_words f) < u32_size" "length (bf_statement_entries f) < u32_size"
  shows "validate_statement_entries f (df_instructions d) = Checked \<longleftrightarrow>
    canonical_entries (bf_statement_entries f) \<and> (\<forall>e \<in> set (bf_statement_entries f). st_pc e \<in> set (df_header_pcs d)) \<and>
    (\<forall>i \<in> set (df_instructions d). requirement_met i (bf_statement_entries f))"
proof (cases "canonical_entries (bf_statement_entries f)")
  case True
  then have "sorted (map st_pc (bf_statement_entries f))" using all_fit_sorted [of "[]"] by (simp add: canonical_entries_def)
  from statement_merge_Checked [OF this decoded_layout(3) [OF assms(1,2)]] show ?thesis
    using True by (simp add: validate_statement_entries_def canonical_Checked [OF assms(3)] decoded_layout(2) [OF assms(1,2)])
next
  case False
  then show ?thesis by (simp add: validate_statement_entries_def canonical_Checked [OF assms(3)])
qed

end
