(* ===== verification/Bytecode_Validate.thy ===== *)
theory Bytecode_Validate
  imports Bytecode_Tables
begin

text \<open>
  The structural validation of functions (\<open>artifact-model/src/bytecode/validate.rs\<close>, \<open>validate/plans.rs\<close>,
  \<open>validate/loans.rs\<close>, \<open>validate/instructions.rs\<close>, \<open>validate/control_flow.rs\<close>): limits and frame, operands and
  instruction contracts, targets, tables, then the resume sites and debug bindings of the image. The
  pinned lifecycle registry (adapters, privileged fields) and the checks of a relocation's own facts
  (\<open>validate_relocation_facts\<close>) are parameters. Sums of list lengths below the limits do not reach the bounds
  of 64 bits and are natural numbers.
\<close>

section \<open>Transfer plans\<close>

datatype adapter_role = AdapterCloneLease | AdapterValueDrop | AdapterResourceDrop

datatype field_access = AccessSnapshotShare | AccessAffineTake

record ('n, 'c) validation_env =
  ve_adapter :: "string \<Rightarrow> adapter_role option"
  ve_composite :: "'c \<Rightarrow> field_access list option"
  ve_relocation_facts :: "nat \<Rightarrow> 'n bytecode_relocation \<Rightarrow> ('n, 'c) bytecode_pools \<Rightarrow> check"

definition validate_adapter_key :: "string \<Rightarrow> check" where
  "validate_adapter_key key = reject_if (key = []) HeaderError"

definition validate_lifecycle_adapter_key :: "('n, 'c) validation_env \<Rightarrow> string \<Rightarrow> adapter_role \<Rightarrow> check" where
  "validate_lifecycle_adapter_key env key expected =
     and_then (validate_adapter_key key)
       (case ve_adapter env key of None \<Rightarrow> Rejected HeaderError | Some role \<Rightarrow> reject_if (role \<noteq> expected) HeaderError)"

definition validate_recursive_shape_ref :: "('n, 'c) bytecode_pools \<Rightarrow> nat option \<Rightarrow> nat \<Rightarrow> check" where
  "validate_recursive_shape_ref pools enclosing shape_ref =
     (case get (bp_shapes pools) shape_ref of
        None \<Rightarrow> Rejected HeaderError
      | Some entry \<Rightarrow>
          checks
            [reject_if (entry_category entry \<noteq> PoolShapes) HeaderError,
             reject_if (case enclosing of None \<Rightarrow> False | Some parent \<Rightarrow> shape_ref \<ge> parent) HeaderError])"

fun validate_value_drop_plan :: "('n, 'c) validation_env \<Rightarrow> ('n, 'c) bytecode_pools \<Rightarrow> nat option \<Rightarrow> value_drop_plan \<Rightarrow> check" where
  "validate_value_drop_plan env pools enclosing DropTrivial = Checked"
| "validate_value_drop_plan env pools enclosing DropSnapshotRelease = Checked"
| "validate_value_drop_plan env pools enclosing (DropRecursiveShape s) = validate_recursive_shape_ref pools enclosing s"
| "validate_value_drop_plan env pools enclosing (DropNativeAdapter key) = validate_lifecycle_adapter_key env key AdapterValueDrop"

fun validate_resource_drop_plan :: "('n, 'c) validation_env \<Rightarrow> ('n, 'c) bytecode_pools \<Rightarrow> nat option \<Rightarrow> resource_drop_plan \<Rightarrow> check" where
  "validate_resource_drop_plan env pools enclosing ResourceTableRelease = Checked"
| "validate_resource_drop_plan env pools enclosing (ResourceRecursiveShape s) = validate_recursive_shape_ref pools enclosing s"
| "validate_resource_drop_plan env pools enclosing (ResourceNativeAdapter key) = validate_lifecycle_adapter_key env key AdapterResourceDrop"

definition require_privileged_shape :: "('n, 'c) bytecode_pools \<Rightarrow> nat \<Rightarrow> check" where
  "require_privileged_shape pools s =
     (case get (bp_shapes pools) s of
        Some (EntryShape shape) \<Rightarrow> reject_if (sh_privileged shape = None) HeaderError
      | _ \<Rightarrow> Rejected HeaderError)"

definition validate_inline_type_depth :: "'n type_ref_ir \<Rightarrow> check" where
  "validate_inline_type_depth t =
     reject_if (type_ref_nesting_depth t > MAX_NESTING_DEPTH) (LimitsError ''MAX_NESTING_DEPTH'' (type_ref_nesting_depth t) MAX_NESTING_DEPTH)"

fun validate_transfer_plan :: "('n, 'c) validation_env \<Rightarrow> ('n, 'c) bytecode_pools \<Rightarrow> nat option \<Rightarrow> 'n value_transfer_plan \<Rightarrow> check" where
  "validate_transfer_plan env pools enclosing (SnapshotShare d) =
     and_then (reject_if (case d of DropRecursiveShape _ \<Rightarrow> True | _ \<Rightarrow> False) HeaderError) (validate_value_drop_plan env pools enclosing d)"
| "validate_transfer_plan env pools enclosing (MoveOnly d) =
     and_then (validate_value_drop_plan env pools enclosing d)
       (case d of DropRecursiveShape s \<Rightarrow> require_privileged_shape pools s | _ \<Rightarrow> Checked)"
| "validate_transfer_plan env pools enclosing (AffineResource d) = validate_resource_drop_plan env pools enclosing d"
| "validate_transfer_plan env pools enclosing (ExplicitCloneLease key d) =
     and_then (validate_resource_drop_plan env pools enclosing d) (validate_lifecycle_adapter_key env key AdapterCloneLease)"
| "validate_transfer_plan env pools enclosing (FromType t) = validate_inline_type_depth t"

section \<open>Limits and frame\<close>

definition over_limit :: "string \<Rightarrow> nat \<Rightarrow> nat \<Rightarrow> check" where
  "over_limit name actual maximum = reject_if (actual > maximum) (LimitsError name actual maximum)"

definition frame_refs_checks :: "('n, 'c) bytecode_pools \<Rightarrow> bool \<Rightarrow> nat list \<Rightarrow> nat \<Rightarrow> check" where
  "frame_refs_checks pools streams_forbidden refs expected =
     and_then (reject_if (length refs \<noteq> expected) TableError)
       (each (\<lambda>t. case get (bp_types pools) t of
            None \<Rightarrow> Rejected TableError
          | Some entry \<Rightarrow>
              checks
                [reject_if (entry_category entry \<noteq> PoolTypes) TableError,
                 reject_if (streams_forbidden \<and> (case entry of EntryType (TyBuiltin name _) _ \<Rightarrow> name = ''Stream'' | _ \<Rightarrow> False)) TableError]) refs)"

definition validate_frame_type_refs :: "'n frame_layout \<Rightarrow> ('n, 'c) bytecode_pools \<Rightarrow> check" where
  "validate_frame_type_refs fr pools =
     checks
       [frame_refs_checks pools False (fr_slot_type_refs fr) (fr_slot_count fr),
        frame_refs_checks pools (fr_stream_result_type_ref fr = None) (fr_result_type_refs fr) (fr_result_count fr),
        (case fr_stream_result_type_ref fr of
           None \<Rightarrow> Checked
         | Some t \<Rightarrow>
             (case get (bp_types pools) t of
                None \<Rightarrow> Rejected TableError
              | Some entry \<Rightarrow> reject_if (entry_category entry \<noteq> PoolTypes) TableError))]"

fun writable_slots_loop :: "'n frame_layout \<Rightarrow> nat option \<Rightarrow> nat list \<Rightarrow> check" where
  "writable_slots_loop fr prev [] = Checked"
| "writable_slots_loop fr prev (slot # slots) =
     checks
       [reject_if (slot \<ge> fr_slot_count fr) TableError,
        reject_if (case prev of None \<Rightarrow> False | Some p \<Rightarrow> p \<ge> slot) TableError,
        reject_if (slot \<in> set (map ps_slot (fr_parameter_slots fr))) TableError,
        writable_slots_loop fr (Some slot) slots]"

fun loans_loop :: "'n frame_layout \<Rightarrow> ('n, 'c) bytecode_pools \<Rightarrow> nat option \<Rightarrow> call_loan_binding list \<Rightarrow> check" where
  "loans_loop fr pools prev [] = Checked"
| "loans_loop fr pools prev (loan # loans) =
     checks
       [reject_if (cb_parameter_ordinal loan \<ge> MAX_ARITY) (LimitsError ''MAX_ARITY'' (cb_parameter_ordinal loan + 1) MAX_ARITY),
        reject_if (case prev of None \<Rightarrow> False | Some p \<Rightarrow> p \<ge> cb_parameter_ordinal loan) TableError,
        reject_if (cb_root_slot loan \<notin> set (fr_writable_local_slots fr)) TableError,
        (case get (bp_writable_paths pools) (cb_writable_path_ref loan) of
           Some (EntryWritablePath path) \<Rightarrow>
             (case get (fr_slot_type_refs fr) (cb_root_slot loan) of
                None \<Rightarrow> Rejected HeaderError
              | Some root \<Rightarrow> reject_if (root \<noteq> wp_root_type_ref path) TableError)
         | _ \<Rightarrow> Rejected HeaderError),
        loans_loop fr pools (Some (cb_parameter_ordinal loan)) loans]"

fun loan_layouts_loop :: "'n frame_layout \<Rightarrow> ('n, 'c) bytecode_pools \<Rightarrow> nat \<Rightarrow> call_loan_binding list list \<Rightarrow> check" where
  "loan_layouts_loop fr pools total_loans [] = Checked"
| "loan_layouts_loop fr pools total_loans (loans # layouts) =
     checks
       [reject_if (loans = []) TableError,
        over_limit ''MAX_ARITY'' (length loans) MAX_ARITY,
        over_limit ''MAX_TABLE_ENTRIES'' (total_loans + length loans) MAX_TABLE_ENTRIES,
        loans_loop fr pools None loans,
        loan_layouts_loop fr pools (total_loans + length loans) layouts]"

definition validate_writable_locals_and_loans :: "'n bytecode_function \<Rightarrow> ('n, 'c) bytecode_pools \<Rightarrow> check" where
  "validate_writable_locals_and_loans f pools =
     checks
       [over_limit ''MAX_SLOTS_PER_FRAME'' (length (fr_writable_local_slots (bf_frame_layout f))) MAX_SLOTS_PER_FRAME,
        writable_slots_loop (bf_frame_layout f) None (fr_writable_local_slots (bf_frame_layout f)),
        loan_layouts_loop (bf_frame_layout f) pools 0 (bf_call_loan_layouts f)]"

fun type_parameters_loop :: "string list \<Rightarrow> string list \<Rightarrow> check" where
  "type_parameters_loop declared [] = Checked"
| "type_parameters_loop declared (p # ps) =
     checks [reject_if (p = []) TableError, reject_if (p \<in> set declared) TableError, type_parameters_loop (p # declared) ps]"

definition relocation_checks :: "('n, 'c) validation_env \<Rightarrow> ('n, 'c) bytecode_pools \<Rightarrow> nat \<times> 'n bytecode_relocation \<Rightarrow> check" where
  "relocation_checks env pools nr =
     and_then (ve_relocation_facts env (fst nr) (snd nr) pools)
       (case specialization (snd nr) of
          None \<Rightarrow> Checked
        | Some sp \<Rightarrow>
            checks
              [over_limit ''MAX_TYPE_PARAMETERS'' (length (spec_type_arguments sp)) MAX_TYPE_PARAMETERS,
               each validate_inline_type_depth (spec_type_arguments sp),
               (case spec_concrete_receiver sp of None \<Rightarrow> Checked | Some receiver \<Rightarrow> validate_inline_type_depth receiver)])"

fun parameter_slots_loop :: "('n, 'c) validation_env \<Rightarrow> 'n frame_layout \<Rightarrow> ('n, 'c) bytecode_pools \<Rightarrow> nat list \<Rightarrow> 'n parameter_slot list \<Rightarrow> check" where
  "parameter_slots_loop env fr pools seen [] = Checked"
| "parameter_slots_loop env fr pools seen (p # ps) =
     checks
       [reject_if (ps_slot p \<ge> fr_slot_count fr) TableError,
        reject_if (ps_slot p \<in> set seen) TableError,
        validate_transfer_plan env pools None (ps_plan p),
        index_or_panic (fr_slot_plans fr) (ps_slot p) (\<lambda>plan. reject_if (plan \<noteq> ps_plan p) TableError),
        (case ps_dense_record_shape_ref p of
           None \<Rightarrow> Checked
         | Some s \<Rightarrow> (case get (bp_shapes pools) s of Some (EntryShape _) \<Rightarrow> Checked | _ \<Rightarrow> Rejected HeaderError)),
        parameter_slots_loop env fr pools (ps_slot p # seen) ps]"

definition validate_function_limits :: "('n, 'c) validation_env \<Rightarrow> 'n bytecode_function \<Rightarrow> ('n, 'c) bytecode_pools \<Rightarrow> check" where
  "validate_function_limits env f pools =
     (let fr = bf_frame_layout f in
      checks
        [over_limit ''MAX_WORDS_PER_FUNCTION'' (length (bf_words f)) MAX_WORDS_PER_FUNCTION,
         over_limit ''MAX_RELOCATIONS_PER_FUNCTION'' (length (bf_relocations f)) MAX_RELOCATIONS_PER_FUNCTION,
         each (\<lambda>count. over_limit ''MAX_TABLE_ENTRIES'' count MAX_TABLE_ENTRIES)
           [length (bf_exception_regions f), length (bf_active_regions f), length (bf_switch_tables f), length (bf_statement_entries f),
            length (bf_source_map f), length (bf_call_loan_layouts f)],
         reject_if (bf_effect_summary_ref f = []) TableError,
         over_limit ''MAX_TYPE_PARAMETERS'' (length (bf_type_parameters f)) MAX_TYPE_PARAMETERS,
         type_parameters_loop [] (bf_type_parameters f),
         each (relocation_checks env pools) (indexed (bf_relocations f)),
         over_limit ''MAX_SLOTS_PER_FRAME'' (fr_slot_count fr) MAX_SLOTS_PER_FRAME,
         over_limit ''MAX_SLOTS_PER_FRAME'' (length (fr_parameter_slots fr)) MAX_SLOTS_PER_FRAME,
         over_limit ''MAX_RESULTS_PER_CALL'' (fr_result_count fr) MAX_RESULTS_PER_CALL,
         reject_if (fr_stream_result_type_ref fr \<noteq> None \<and> fr_result_count fr \<noteq> 0) TableError,
         validate_frame_type_refs fr pools,
         reject_if (length (fr_slot_plans fr) \<noteq> fr_slot_count fr) TableError,
         reject_if (length (fr_result_plans fr) \<noteq> fr_result_count fr) TableError,
         each (validate_transfer_plan env pools None) (fr_slot_plans fr),
         each (validate_transfer_plan env pools None) (fr_result_plans fr),
         parameter_slots_loop env fr pools [] (fr_parameter_slots fr),
         validate_writable_locals_and_loans f pools,
         over_limit ''MAX_OPERAND_DEPTH'' (bf_max_operand_depth f) MAX_OPERAND_DEPTH,
         each (\<lambda>t. over_limit ''MAX_SWITCH_TABLE_TARGETS'' (length (sw_cases t)) MAX_SWITCH_TABLE_TARGETS) (bf_switch_tables f)])"

section \<open>Operands\<close>

definition trap_failure_kind :: "nat \<Rightarrow> failure_kind option" where
  "trap_failure_kind encoded = (if encoded = 0 then Some FailAssertion else None)"

definition bad_operand :: "decoded_instruction \<Rightarrow> check" where
  "bad_operand i = Rejected (OperandError (di_pc i))"

definition word_of :: "decoded_instruction \<Rightarrow> operand_role \<Rightarrow> nat option" where
  "word_of i role = operand_word (di_descriptor i) role (di_operand_words i)"

definition with_word :: "decoded_instruction \<Rightarrow> operand_role \<Rightarrow> (nat \<Rightarrow> check) \<Rightarrow> check" where
  "with_word i role k = (case word_of i role of None \<Rightarrow> bad_operand i | Some w \<Rightarrow> k w)"

definition reject_operand :: "decoded_instruction \<Rightarrow> bool \<Rightarrow> check" where
  "reject_operand i b = reject_if b (OperandError (di_pc i))"

fun table_len :: "'n bytecode_function \<Rightarrow> table_category \<Rightarrow> nat" where
  "table_len f TableExceptionRegions = length (bf_exception_regions f)"
| "table_len f TableSwitchTables = length (bf_switch_tables f)"
| "table_len f TableActiveRegions = length (bf_active_regions f)"
| "table_len f TableCallLoanLayouts = length (bf_call_loan_layouts f)"

definition relocation_operand_checks :: "'n bytecode_function \<Rightarrow> ('n, 'c) bytecode_image \<Rightarrow> decoded_instruction \<Rightarrow> nat \<Rightarrow> check" where
  "relocation_operand_checks f img i word =
     and_then (reject_operand i (word \<ge> length (bf_relocations f)))
       (index_or_panic (bf_relocations f) word
          (\<lambda>relocation.
             checks
               [reject_operand i (relocation_kind_of relocation \<notin> set (od_allowed_relocations (di_descriptor i))),
                (case relocation of
                   RelLocalExecutable target_key sp \<Rightarrow>
                     (case map_of (bi_functions img) target_key of
                        None \<Rightarrow> bad_operand i
                      | Some target \<Rightarrow> reject_operand i (length (spec_type_arguments sp) \<noteq> length (bf_type_parameters target)))
                 | RelHostEffect parameters results \<Rightarrow>
                     with_word i RoleArgCount (\<lambda>arguments. and_then (reject_operand i (arguments \<noteq> parameters))
                       (with_word i RoleResultCount (\<lambda>count. reject_operand i (count \<noteq> results))))
                 | _ \<Rightarrow> Checked)]))"

definition operand_checks :: "'n bytecode_function \<Rightarrow> ('n, 'c) bytecode_image \<Rightarrow> decoded_instruction \<Rightarrow> nat \<times> operand_kind \<Rightarrow> check" where
  "operand_checks f img i pk =
     (case pk of (position, kind) \<Rightarrow>
        index_or_panic (di_operand_words i) position
          (\<lambda>word. index_or_panic (od_operand_roles (di_descriptor i)) position
             (\<lambda>role.
                (case kind of
                   KindImmediate \<Rightarrow>
                     if role = RoleFailureKind then reject_operand i (trap_failure_kind word = None)
                     else reject_operand i (word > (if role = RoleResultCount then MAX_RESULTS_PER_CALL else MAX_ARITY))
                 | KindSlot \<Rightarrow> reject_operand i (word \<ge> fr_slot_count (bf_frame_layout f))
                 | KindPool \<Rightarrow>
                     (case pool_operand_category (od_opcode (di_descriptor i)) position of
                        None \<Rightarrow> bad_operand i
                      | Some category \<Rightarrow>
                          and_then (reject_operand i (word \<ge> pool_len (bi_pools img) category))
                            (case pool_entry_at (bi_pools img) category word of
                               None \<Rightarrow> bad_operand i
                             | Some entry \<Rightarrow> reject_operand i (entry_category entry \<noteq> category)))
                 | KindTable \<Rightarrow>
                     (case table_operand_category (od_opcode (di_descriptor i)) position of
                        None \<Rightarrow> bad_operand i
                      | Some category \<Rightarrow> reject_operand i (word \<ge> table_len f category))
                 | KindReloc \<Rightarrow> relocation_operand_checks f img i word
                 | KindBranch \<Rightarrow> Checked))))"

definition privileged_field_access :: "('n, 'c) validation_env \<Rightarrow> ('n, 'c) shape_declaration \<Rightarrow> nat \<Rightarrow> field_access option" where
  "privileged_field_access env shape field =
     (case sh_privileged shape of
        None \<Rightarrow> None
      | Some identity \<Rightarrow> Option.bind (ve_composite env identity) (\<lambda>accesses. get accesses field))"

fun loan_selectors :: "('n, 'c) bytecode_pools \<Rightarrow> decoded_instruction \<Rightarrow> nat \<Rightarrow> call_loan_binding list \<Rightarrow> check + nat" where
  "loan_selectors pools i total_selectors [] = Inr total_selectors"
| "loan_selectors pools i total_selectors (loan # loans) =
     (case get (bp_writable_paths pools) (cb_writable_path_ref loan) of
        Some (EntryWritablePath path) \<Rightarrow> loan_selectors pools i (total_selectors + selector_count path) loans
      | _ \<Rightarrow> Inl (bad_operand i))"

definition in_out_call_checks :: "'n bytecode_function \<Rightarrow> ('n, 'c) bytecode_pools \<Rightarrow> decoded_instruction \<Rightarrow> check" where
  "in_out_call_checks f pools i =
     with_word i RoleInputCount (\<lambda>input_count.
     with_word i RoleCallLoanLayout (\<lambda>layout_index.
       (case get (bf_call_loan_layouts f) layout_index of
          None \<Rightarrow> bad_operand i
        | Some loans \<Rightarrow>
            (case loan_selectors pools i 0 loans of
               Inl c \<Rightarrow> c
             | Inr selectors \<Rightarrow>
                 and_then (over_limit ''MAX_ARITY'' selectors MAX_ARITY) (reject_operand i (input_count < selectors))))))"

definition with_shape :: "('n, 'c) bytecode_pools \<Rightarrow> decoded_instruction \<Rightarrow> nat \<Rightarrow> (('n, 'c) shape_declaration \<Rightarrow> check) \<Rightarrow> check" where
  "with_shape pools i s k = (case get (bp_shapes pools) s of Some (EntryShape shape) \<Rightarrow> k shape | _ \<Rightarrow> bad_operand i)"

definition new_record_checks :: "('n, 'c) bytecode_pools \<Rightarrow> decoded_instruction \<Rightarrow> check" where
  "new_record_checks pools i =
     with_word i RoleShapeRef (\<lambda>shape_index.
     with_word i RoleFieldCount (\<lambda>field_count.
     with_shape pools i shape_index (\<lambda>shape.
       checks [reject_operand i (field_count \<noteq> length (sh_fields shape)), reject_operand i (sh_privileged shape \<noteq> None)])))"

definition dense_field_checks :: "('n, 'c) validation_env \<Rightarrow> ('n, 'c) bytecode_pools \<Rightarrow> decoded_instruction \<Rightarrow> check" where
  "dense_field_checks env pools i =
     with_word i RoleShapeRef (\<lambda>shape_index.
     with_word i RoleFieldOrdinal (\<lambda>field.
     with_shape pools i shape_index (\<lambda>shape.
       and_then (reject_operand i (field \<ge> length (sh_fields shape)))
         (if od_kind (di_descriptor i) = OpcGetDenseField then reject_operand i (privileged_field_access env shape field = Some AccessAffineTake)
          else reject_operand i (privileged_field_access env shape field \<noteq> Some AccessAffineTake)))))"

definition set_path_checks :: "'n bytecode_function \<Rightarrow> ('n, 'c) bytecode_pools \<Rightarrow> decoded_instruction \<Rightarrow> check" where
  "set_path_checks f pools i =
     with_word i RoleSlot (\<lambda>root_slot.
     with_word i RoleWritablePathRef (\<lambda>path_index.
     with_word i RoleSelectorCount (\<lambda>selectors.
       (case get (bp_writable_paths pools) path_index of
          Some (EntryWritablePath path) \<Rightarrow>
            and_then
              (index_or_panic (fr_slot_type_refs (bf_frame_layout f)) root_slot (\<lambda>root. reject_operand i (root \<noteq> wp_root_type_ref path)))
              (reject_operand i (selectors \<noteq> selector_count path))
        | _ \<Rightarrow> bad_operand i))))"

definition make_callback_checks :: "'n bytecode_function \<Rightarrow> ('n, 'c) bytecode_pools \<Rightarrow> decoded_instruction \<Rightarrow> check" where
  "make_callback_checks f pools i =
     with_word i RoleCallbackTarget (\<lambda>relocation_index.
     with_word i RoleCaptureLayoutRef (\<lambda>layout_index.
     with_word i RoleCaptureCount (\<lambda>capture_count.
       (case get (bf_relocations f) relocation_index of
          Some (RelSyntheticCallback target_key) \<Rightarrow>
            (case get (bp_callback_capture pools) layout_index of
               Some (EntryCallbackCapture layout) \<Rightarrow>
                 reject_operand i (cl_function_key layout \<noteq> target_key \<or> length (cl_captures layout) \<noteq> capture_count)
             | _ \<Rightarrow> bad_operand i)
        | _ \<Rightarrow> bad_operand i))))"

definition box_local_checks :: "'n bytecode_function \<Rightarrow> ('n, 'c) bytecode_image \<Rightarrow> decoded_instruction \<Rightarrow> check" where
  "box_local_checks f img i =
     with_word i RoleInterfaceTarget (\<lambda>relocation_index.
       (case get (bf_relocations f) relocation_index of
          Some (RelLocalInterface methods) \<Rightarrow> each (\<lambda>key. reject_operand i (map_of (bi_functions img) key = None)) methods
        | _ \<Rightarrow> bad_operand i))"

definition intrinsic_checks :: "'n bytecode_function \<Rightarrow> decoded_instruction \<Rightarrow> check" where
  "intrinsic_checks f i =
     with_word i RoleIntrinsicTarget (\<lambda>relocation_index.
     with_word i RoleArgCount (\<lambda>argument_count.
     with_word i RoleResultCount (\<lambda>count.
       (case get (bf_relocations f) relocation_index of
          Some (RelIntrinsic parameters results _ _) \<Rightarrow> reject_operand i (argument_count \<noteq> parameters \<or> count \<noteq> results)
        | Some RelTaskSubmit \<Rightarrow> Checked
        | _ \<Rightarrow> bad_operand i))))"

definition validate_instruction_contract ::
  "('n, 'c) validation_env \<Rightarrow> 'n bytecode_function \<Rightarrow> ('n, 'c) bytecode_image \<Rightarrow> decoded_instruction \<Rightarrow> check" where
  "validate_instruction_contract env f img i =
     (case od_kind (di_descriptor i) of
        OpcCallLocalInOut \<Rightarrow> in_out_call_checks f (bi_pools img) i
      | OpcNewRecord \<Rightarrow> new_record_checks (bi_pools img) i
      | OpcGetDenseField \<Rightarrow> dense_field_checks env (bi_pools img) i
      | OpcTakeDenseField \<Rightarrow> dense_field_checks env (bi_pools img) i
      | OpcSetWritablePath \<Rightarrow> set_path_checks f (bi_pools img) i
      | OpcMakeCallback \<Rightarrow> make_callback_checks f (bi_pools img) i
      | OpcInterfaceBoxLocal \<Rightarrow> box_local_checks f img i
      | OpcInvokeIntrinsic \<Rightarrow> intrinsic_checks f i
      | _ \<Rightarrow> Checked)"

definition validate_operands ::
  "('n, 'c) validation_env \<Rightarrow> 'n bytecode_function \<Rightarrow> ('n, 'c) bytecode_image \<Rightarrow> decoded_instruction list \<Rightarrow> check" where
  "validate_operands env f img is =
     each (\<lambda>i. and_then (each (operand_checks f img i) (indexed (od_operand_layout (di_descriptor i)))) (validate_instruction_contract env f img i)) is"

section \<open>Targets\<close>

definition branch_checks :: "nat list \<Rightarrow> decoded_instruction \<Rightarrow> nat \<times> operand_kind \<Rightarrow> check" where
  "branch_checks headers i pk =
     (if snd pk \<noteq> KindBranch then Checked
      else index_or_panic (di_operand_words i) (fst pk)
        (\<lambda>word. case decode_branch_target (di_pc i) (operand_word_count (di_descriptor i)) word of
             None \<Rightarrow> Rejected ArithmeticError
           | Some target \<Rightarrow> reject_if (target \<notin> set headers) (TargetError (di_pc i))))"

definition region_membership_checks :: "'n bytecode_function \<Rightarrow> decoded_instruction \<Rightarrow> check" where
  "region_membership_checks f i =
     (case word_of i RoleActiveRegion of
        None \<Rightarrow> Checked
      | Some n \<Rightarrow>
          index_or_panic (bf_active_regions f) n
            (\<lambda>region. case checked_add_u32 (di_pc i) (instruction_word_count (di_descriptor i)) of
                 None \<Rightarrow> Rejected ArithmeticError
               | Some next_pc \<Rightarrow>
                   reject_if
                     (\<not> (if od_kind (di_descriptor i) = OpcEnterRegion then di_pc i = ar_start_pc region
                         else if od_kind (di_descriptor i) = OpcLeaveRegion then next_pc = ar_end_pc region
                         else False)) (TargetError (di_pc i))))"

definition validate_targets :: "'n bytecode_function \<Rightarrow> decoded_function \<Rightarrow> check" where
  "validate_targets f d =
     each (\<lambda>i. and_then (each (branch_checks (df_header_pcs d) i) (indexed (od_operand_layout (di_descriptor i)))) (region_membership_checks f i))
       (df_instructions d)"

section \<open>Functions\<close>

text \<open>The result of a validation: a check that did not pass, or the value it yields.\<close>

definition checked_then :: "check \<Rightarrow> (unit \<Rightarrow> check + 'a) \<Rightarrow> check + 'a" where
  "checked_then c k = (case c of Checked \<Rightarrow> k () | _ \<Rightarrow> Inl c)"

definition result_then :: "check + 'a \<Rightarrow> ('a \<Rightarrow> check + 'b) \<Rightarrow> check + 'b" where
  "result_then r k = (case r of Inl c \<Rightarrow> Inl c | Inr x \<Rightarrow> k x)"

datatype intrinsic_resume_contract = IntrinsicNever | IntrinsicPending nat | IntrinsicUnavailable

fun collect_intrinsic_contracts :: "(nat \<times> 'n bytecode_relocation) list \<Rightarrow> check + (nat \<times> intrinsic_resume_contract) list" where
  "collect_intrinsic_contracts [] = Inr []"
| "collect_intrinsic_contracts ((n, RelIntrinsic _ _ may_pending db_operation) # rs) =
     (if may_pending \<and> \<not> db_operation then Inl (Rejected TableError)
      else if n \<ge> u32_size then Inl (Rejected ArithmeticError)
      else (case collect_intrinsic_contracts rs of
              Inl c \<Rightarrow> Inl c
            | Inr contracts \<Rightarrow> Inr ((n, if db_operation then IntrinsicUnavailable else IntrinsicNever) # contracts)))"
| "collect_intrinsic_contracts (_ # rs) = collect_intrinsic_contracts rs"

definition derive_function_stream_item ::
  "('n, 'c) validation_env \<Rightarrow> 'n bytecode_function \<Rightarrow> ('n, 'c) bytecode_pools \<Rightarrow> check + 'n type_ref_ir option" where
  "derive_function_stream_item env f pools =
     (case fr_stream_result_type_ref (bf_frame_layout f) of
        None \<Rightarrow> Inr None
      | Some t \<Rightarrow>
          (case get (bp_types pools) t of
             Some (EntryType (TyBuiltin name args) _) \<Rightarrow>
               if name \<noteq> ''Stream'' then Inl (Rejected TableError)
               else (case args of
                       [item] \<Rightarrow> checked_then (validate_transfer_plan env pools None (FromType item)) (\<lambda>_. Inr (Some item))
                     | _ \<Rightarrow> Inl (Rejected TableError))
           | _ \<Rightarrow> Inl (Rejected TableError)))"

record 'n validated_function =
  vf_function :: "'n bytecode_function"
  vf_instructions :: "decoded_instruction list"
  vf_header_pcs :: "nat list"
  vf_intrinsic_contracts :: "(nat \<times> intrinsic_resume_contract) list"
  vf_stream_item :: "'n type_ref_ir option"

definition validate_function ::
  "('n, 'c) validation_env \<Rightarrow> ('n, 'c) bytecode_image \<Rightarrow> string \<Rightarrow> 'n bytecode_function \<Rightarrow> check + 'n validated_function" where
  "validate_function env img key f =
     checked_then (and_then (reject_if (key \<noteq> bf_function_key f) TableError) (validate_function_limits env f (bi_pools img))) (\<lambda>_.
       (case decode_function (bf_words f) of
          Inl e \<Rightarrow> Inl (Rejected (DecodeError e))
        | Inr d \<Rightarrow>
            checked_then
              (checks [validate_operands env f img (df_instructions d), validate_targets f d, validate_tables f d (bi_pools img)]) (\<lambda>_.
            result_then (collect_intrinsic_contracts (indexed (bf_relocations f))) (\<lambda>contracts.
            result_then (derive_function_stream_item env f (bi_pools img)) (\<lambda>item.
              Inr \<lparr>vf_function = f, vf_instructions = df_instructions d, vf_header_pcs = df_header_pcs d, vf_intrinsic_contracts = contracts,
                   vf_stream_item = item\<rparr>)))))"

fun validate_functions ::
  "('n, 'c) validation_env \<Rightarrow> ('n, 'c) bytecode_image \<Rightarrow> (string \<times> 'n bytecode_function) list \<Rightarrow> check + 'n validated_function list" where
  "validate_functions env img [] = Inr []"
| "validate_functions env img ((key, f) # fs) =
     result_then (validate_function env img key f) (\<lambda>v. result_then (validate_functions env img fs) (\<lambda>vs. Inr (v # vs)))"

section \<open>Resume sites and debug bindings\<close>

fun resolve_arity :: "decoded_instruction \<Rightarrow> nat \<Rightarrow> arity \<Rightarrow> check + nat" where
  "resolve_arity i results (ArityFixed n) = Inr n"
| "resolve_arity i results (ArityDeclared role) = (case word_of i role of None \<Rightarrow> Inl (Rejected HeaderError) | Some w \<Rightarrow> Inr w)"
| "resolve_arity i results ArityFunctionResultCount = Inr results"

fun resolve_stack_effect_arity :: "arity list \<Rightarrow> decoded_instruction \<Rightarrow> nat \<Rightarrow> nat \<Rightarrow> check + nat" where
  "resolve_stack_effect_arity [] i results acc = Inr acc"
| "resolve_stack_effect_arity (a # as) i results acc =
     result_then (resolve_arity i results a) (\<lambda>n.
       (case checked_add_u32 acc n of
          None \<Rightarrow> Inl (Rejected ArithmeticError)
        | Some acc' \<Rightarrow> resolve_stack_effect_arity as i results acc'))"

record validated_resume_site =
  rs_function_key :: string
  rs_descriptor_index :: nat
  rs_site_pc :: nat
  rs_resume_pc :: nat
  rs_end_resume_pc :: "nat option"
  rs_expected_stack_height :: nat
  rs_result_type_refs :: "nat list"
  rs_emit_stream_item_shape_ref :: "nat option"

definition end_resume_checks :: "nat list \<Rightarrow> opcode \<Rightarrow> nat \<Rightarrow> nat \<Rightarrow> nat option \<Rightarrow> check" where
  "end_resume_checks headers kind pc resume_pc end_resume_pc =
     (case end_resume_pc of
        Some end_pc \<Rightarrow>
          if kind = OpcStreamNext then checks [reject_if (end_pc = resume_pc) (TargetError pc), reject_if (end_pc \<notin> set headers) (TargetError pc)]
          else Rejected (TargetError pc)
      | None \<Rightarrow> reject_if (kind = OpcStreamNext) (TargetError pc))"

definition resume_arity_checks :: "'n validated_function \<Rightarrow> decoded_instruction \<Rightarrow> 'n resume_descriptor \<Rightarrow> check" where
  "resume_arity_checks v i r =
     (case resolve_stack_effect_arity (od_stack_out (di_descriptor i)) i (fr_result_count (bf_frame_layout (vf_function v))) 0 of
        Inl c \<Rightarrow> c
      | Inr result_arity \<Rightarrow>
          and_then (reject_if (result_arity \<noteq> length (rd_result_type_refs r)) (TargetError (di_pc i)))
            (case checked_add_u32 (rd_expected_stack_height r) result_arity of
               None \<Rightarrow> Rejected ArithmeticError
             | Some height \<Rightarrow> reject_if (height > bf_max_operand_depth (vf_function v)) (TargetError (di_pc i))))"

definition emit_stream_checks :: "'n validated_function \<Rightarrow> decoded_instruction \<Rightarrow> 'n resume_descriptor \<Rightarrow> check" where
  "emit_stream_checks v i r =
     checks
       [reject_if (od_kind (di_descriptor i) = OpcEmitStream \<and> vf_stream_item v = None) (TargetError (di_pc i)),
        reject_if ((od_kind (di_descriptor i) = OpcEmitStream) \<noteq> (rd_emit_stream_item_shape_ref r \<noteq> None)) (TargetError (di_pc i))]"

definition resume_site_at :: "'n validated_function \<Rightarrow> decoded_instruction \<Rightarrow> nat \<Rightarrow> 'n resume_descriptor \<Rightarrow> check + validated_resume_site" where
  "resume_site_at v i n r =
     (case checked_add_u32 (di_pc i) (instruction_word_count (di_descriptor i)) of
        None \<Rightarrow> Inl (Rejected ArithmeticError)
      | Some resume_pc \<Rightarrow>
          checked_then
            (checks
               [reject_if
                  (rd_function_key r \<noteq> bf_function_key (vf_function v) \<or> rd_site_pc r \<noteq> di_pc i \<or> rd_resume_pc r \<noteq> resume_pc \<or>
                   resume_pc \<notin> set (vf_header_pcs v)) (TargetError (di_pc i)),
                end_resume_checks (vf_header_pcs v) (od_kind (di_descriptor i)) (di_pc i) resume_pc (rd_end_resume_pc r),
                resume_arity_checks v i r,
                emit_stream_checks v i r])
            (\<lambda>_. Inr \<lparr>rs_function_key = bf_function_key (vf_function v), rs_descriptor_index = n, rs_site_pc = di_pc i, rs_resume_pc = resume_pc,
                      rs_end_resume_pc = rd_end_resume_pc r, rs_expected_stack_height = rd_expected_stack_height r,
                      rs_result_type_refs = rd_result_type_refs r, rs_emit_stream_item_shape_ref = rd_emit_stream_item_shape_ref r\<rparr>))"

text \<open>The two nested loops over functions and instructions, as one loop over the pairs in their order.\<close>

fun resume_sites_loop ::
  "('n, 'c) bytecode_pools \<Rightarrow> nat list \<Rightarrow> ('n validated_function \<times> decoded_instruction) list \<Rightarrow> check + nat list \<times> validated_resume_site list" where
  "resume_sites_loop pools counts [] = Inr (counts, [])"
| "resume_sites_loop pools counts ((v, i) # rest) =
     (case word_of i RoleResumeRef of
        None \<Rightarrow> resume_sites_loop pools counts rest
      | Some n \<Rightarrow>
          (case get (bp_resume pools) n of
             Some (EntryResume r) \<Rightarrow>
               if n < length counts then
                 result_then (resume_site_at v i n r) (\<lambda>site.
                 result_then (resume_sites_loop pools (counts[n := saturating_inc (counts ! n)]) rest) (\<lambda>(counts', sites). Inr (counts', site # sites)))
               else Inl Panicked
           | _ \<Rightarrow> Inl (Rejected (TargetError (di_pc i)))))"

definition site_pairs :: "'n validated_function list \<Rightarrow> ('n validated_function \<times> decoded_instruction) list" where
  "site_pairs fs = concat (map (\<lambda>v. map (Pair v) (vf_instructions v)) fs)"

definition validate_resume_sites :: "('n, 'c) bytecode_image \<Rightarrow> 'n validated_function list \<Rightarrow> check + validated_resume_site list" where
  "validate_resume_sites img fs =
     result_then (resume_sites_loop (bi_pools img) (replicate (length (bp_resume (bi_pools img))) 0) (site_pairs fs)) (\<lambda>(counts, sites).
       checked_then (each (\<lambda>count. reject_if (count \<noteq> 1) HeaderError) counts) (\<lambda>_. Inr sites))"

definition validate_debug_binding :: "'n validated_function list \<Rightarrow> debug_binding \<Rightarrow> check" where
  "validate_debug_binding fs b =
     (case find (\<lambda>v. bf_function_key (vf_function v) = db_function_key b) fs of
        None \<Rightarrow> Rejected HeaderError
      | Some v \<Rightarrow>
          checks
            [reject_if (db_pc b \<notin> set (vf_header_pcs v)) HeaderError,
             reject_if (db_slot b \<ge> fr_slot_count (bf_frame_layout (vf_function v))) HeaderError])"

definition validate_debug_bindings :: "('n, 'c) bytecode_image \<Rightarrow> 'n validated_function list \<Rightarrow> check" where
  "validate_debug_bindings img fs = (case bi_debug_table img of None \<Rightarrow> Checked | Some bs \<Rightarrow> each (validate_debug_binding fs) bs)"

text \<open>The function part of \<open>structurally_validate\<close>: functions, resume sites, debug bindings.\<close>

definition validate_code :: "('n, 'c) validation_env \<Rightarrow> ('n, 'c) bytecode_image \<Rightarrow> check + 'n validated_function list \<times> validated_resume_site list" where
  "validate_code env img =
     result_then (validate_functions env img (bi_functions img)) (\<lambda>fs.
     result_then (validate_resume_sites img fs) (\<lambda>sites.
       checked_then (validate_debug_bindings img fs) (\<lambda>_. Inr (fs, sites))))"

section \<open>Operands of decoded instructions\<close>

text \<open>An instruction as the decoder yields it: a row of the table with as many words as operands.\<close>

definition well_decoded :: "decoded_instruction \<Rightarrow> bool" where
  "well_decoded i \<longleftrightarrow>
     (\<exists>w. opcode_for w = Some (di_descriptor i)) \<and> length (di_operand_words i) = operand_word_count (di_descriptor i)"

lemma decoded_well:
  "decode_function ws = Inr d \<Longrightarrow> length ws < u32_size \<Longrightarrow> i \<in> set (df_instructions d) \<Longrightarrow> well_decoded i"
  using tiles_words [OF decoded_layout(1)] by (auto simp: well_decoded_def)

lemma position_of_Some: "position_of x xs = Some p \<Longrightarrow> p < length xs \<and> xs ! p = x"
  by (induction xs arbitrary: p) (auto split: if_splits)

lemma position_of_member: "x \<in> set xs \<Longrightarrow> \<exists>p. position_of x xs = Some p"
  by (induction xs) auto

lemma word_of_position:
  assumes "well_decoded i" "word_of i role = Some w"
  obtains p where "p < length (od_operand_layout (di_descriptor i))" "od_operand_layout (di_descriptor i) ! p = role_operand_kind role"
    "od_operand_roles (di_descriptor i) ! p = role" "di_operand_words i ! p = w" "p < length (di_operand_words i)" "p < length (od_operand_roles (di_descriptor i))"
    "pool_operand_category (od_opcode (di_descriptor i)) p = role_pool_category role"
    "table_operand_category (od_opcode (di_descriptor i)) p = role_table_category role"
proof -
  obtain v where v: "opcode_for v = Some (di_descriptor i)" using assms(1) by (auto simp: well_decoded_def)
  then obtain c where c: "c \<in> set OPCODE_CONTRACTS" "di_descriptor i = descriptor_of c" "opcode_contract_for v = Some c" "oc_opcode c = v"
    by (elim opcode_forD)
  obtain p where p: "position_of role (od_operand_roles (di_descriptor i)) = Some p" "p < length (di_operand_words i)" "di_operand_words i ! p = w"
    using assms(2) by (auto simp: word_of_def operand_word_def operand_position_def split: option.splits if_splits)
  have at: "p < length (oc_operands c)" "os_role (oc_operands c ! p) = role"
    using position_of_Some [OF p(1)] by (auto simp: c(2) descriptor_of_def)
  have spec: "operand_spec_asserts (oc_operands c ! p)" "role_pool_category role = linked_pool_category (os_linked_kind (oc_operands c ! p))"
      "role_table_category role = linked_table_category (os_linked_kind (oc_operands c ! p))"
    using row_ok [OF c(1)] at by (auto simp: contract_ok_def list_all_length)
  have kind: "os_kind (oc_operands c ! p) = role_operand_kind role" using spec(1) at(2) unfolding operand_spec_asserts_def by metis
  show ?thesis
    using that [of p] p at kind spec(2,3) c(3,4)
    by (simp add: c(2) descriptor_of_def pool_operand_category_def table_operand_category_def)
qed

lemma operand_lengths:
  "well_decoded i \<Longrightarrow> length (di_operand_words i) = length (od_operand_layout (di_descriptor i)) \<and>
   length (od_operand_roles (di_descriptor i)) = length (od_operand_layout (di_descriptor i))"
  by (auto simp: well_decoded_def operand_word_count_def descriptor_of_def elim!: opcode_forD)

definition operands_pass :: "'n bytecode_function \<Rightarrow> ('n, 'c) bytecode_image \<Rightarrow> decoded_instruction \<Rightarrow> bool" where
  "operands_pass f img i \<longleftrightarrow>
     well_decoded i \<and> (\<forall>p < length (od_operand_layout (di_descriptor i)). operand_checks f img i (p, od_operand_layout (di_descriptor i) ! p) = Checked)"

lemma operands_Checked:
  assumes "validate_operands env f img is = Checked" "i \<in> set is" "well_decoded i"
  shows "operands_pass f img i"
  using assms by (simp add: validate_operands_def ball_indexed operands_pass_def)

lemma operands_passD:
  "operands_pass f img i \<Longrightarrow> p < length (od_operand_layout (di_descriptor i)) \<Longrightarrow> operand_checks f img i (p, od_operand_layout (di_descriptor i) ! p) = Checked"
  by (simp add: operands_pass_def)

lemma reject_operand_simps [simp]: "reject_operand i b = Checked \<longleftrightarrow> \<not> b" "reject_operand i b \<noteq> Panicked" "bad_operand i \<noteq> Checked" "bad_operand i \<noteq> Panicked"
  by (simp_all add: reject_operand_def bad_operand_def)

text \<open>What the operand check guarantees of a word, by the kind of its role.\<close>

lemma slot_word_bounded:
  assumes "operands_pass f img i" "word_of i role = Some w" "role_operand_kind role = KindSlot"
  shows "w < fr_slot_count (bf_frame_layout f)"
proof -
  obtain p where p: "p < length (od_operand_layout (di_descriptor i))" "od_operand_layout (di_descriptor i) ! p = KindSlot" "di_operand_words i ! p = w"
    using word_of_position [OF _ assms(2)] assms(1,3) unfolding operands_pass_def by metis
  show ?thesis using operands_passD [OF assms(1) p(1)] p(2,3) by (simp add: operand_checks_def not_le)
qed

lemma table_word_bounded:
  assumes "operands_pass f img i" "word_of i role = Some w"
    "role_operand_kind role = KindTable" "role_table_category role = Some category"
  shows "w < table_len f category"
proof -
  obtain p where p: "p < length (od_operand_layout (di_descriptor i))" "od_operand_layout (di_descriptor i) ! p = KindTable" "di_operand_words i ! p = w"
      "table_operand_category (od_opcode (di_descriptor i)) p = Some category"
    using word_of_position [OF _ assms(2)] assms(1,3,4) unfolding operands_pass_def by metis
  show ?thesis using operands_passD [OF assms(1) p(1)] p(2,3,4) by (simp add: operand_checks_def not_le)
qed

lemma pool_word_bounded:
  assumes "operands_pass f img i" "word_of i role = Some w"
    "role_operand_kind role = KindPool" "role_pool_category role = Some category"
  shows "w < pool_len (bi_pools img) category \<and> entry_category (pool_entries (bi_pools img) category ! w) = category"
proof -
  obtain p where p: "p < length (od_operand_layout (di_descriptor i))" "od_operand_layout (di_descriptor i) ! p = KindPool" "di_operand_words i ! p = w"
      "pool_operand_category (od_opcode (di_descriptor i)) p = Some category"
    using word_of_position [OF _ assms(2)] assms(1,3,4) unfolding operands_pass_def by metis
  show ?thesis using operands_passD [OF assms(1) p(1)] p(2,3,4)
    by (auto simp: operand_checks_def not_le pool_entry_at_def pool_len_def get_def split: option.splits if_splits)
qed

lemma relocation_word_bounded:
  assumes "operands_pass f img i" "word_of i role = Some w" "role_operand_kind role = KindReloc"
  shows "w < length (bf_relocations f) \<and> relocation_kind_of (bf_relocations f ! w) \<in> set (od_allowed_relocations (di_descriptor i))"
proof -
  obtain p where p: "p < length (od_operand_layout (di_descriptor i))" "od_operand_layout (di_descriptor i) ! p = KindReloc" "di_operand_words i ! p = w"
    using word_of_position [OF _ assms(2)] assms(1,3) unfolding operands_pass_def by metis
  show ?thesis using operands_passD [OF assms(1) p(1)] p(2,3) by (simp add: operand_checks_def relocation_operand_checks_def not_le)
qed

section \<open>No panics\<close>

lemma no_panic_simps [simp]:
  "over_limit name actual maximum \<noteq> Panicked" "validate_adapter_key key \<noteq> Panicked" "validate_inline_type_depth t \<noteq> Panicked"
  "validate_type_pool_ref pools n \<noteq> Panicked"
  by (simp_all add: over_limit_def validate_adapter_key_def validate_inline_type_depth_def validate_type_pool_ref_def split: option.splits)

lemma lifecycle_no_panic [simp]: "validate_lifecycle_adapter_key env key role \<noteq> Panicked"
  by (auto simp: validate_lifecycle_adapter_key_def and_then_Panicked split: option.splits)

lemma recursive_shape_no_panic [simp]: "validate_recursive_shape_ref pools enclosing s \<noteq> Panicked" "require_privileged_shape pools s \<noteq> Panicked"
  by (auto simp: validate_recursive_shape_ref_def require_privileged_shape_def and_then_Panicked split: option.splits pool_entry.splits)

lemma drop_plans_no_panic [simp]:
  "validate_value_drop_plan env pools enclosing vd \<noteq> Panicked" "validate_resource_drop_plan env pools enclosing rd \<noteq> Panicked"
  by (cases vd; simp) (cases rd; simp)

lemma transfer_plan_no_panic [simp]: "validate_transfer_plan env pools enclosing plan \<noteq> Panicked"
  by (cases plan) (auto simp: and_then_Panicked split: value_drop_plan.splits)

lemma frame_refs_no_panic [simp]: "frame_refs_checks pools b refs n \<noteq> Panicked" "validate_frame_type_refs fr pools \<noteq> Panicked"
proof -
  show refs: "frame_refs_checks pools b refs n \<noteq> Panicked" for b refs n
    by (auto simp: frame_refs_checks_def and_then_Panicked dest!: each_Panicked split: option.splits)
  show "validate_frame_type_refs fr pools \<noteq> Panicked"
    by (auto simp: validate_frame_type_refs_def and_then_Panicked refs split: option.splits)
qed

lemma slots_no_panic [simp]: "writable_slots_loop fr prev slots \<noteq> Panicked" "type_parameters_loop declared ps \<noteq> Panicked"
  by (induction fr prev slots rule: writable_slots_loop.induct) (auto simp: and_then_Panicked,
    induction declared ps rule: type_parameters_loop.induct, auto simp: and_then_Panicked)

lemma loans_no_panic [simp]: "loans_loop fr pools prev loans \<noteq> Panicked"
  by (induction fr pools prev loans rule: loans_loop.induct) (auto simp: and_then_Panicked split: option.splits pool_entry.splits)

lemma layouts_no_panic [simp]: "loan_layouts_loop fr pools n layouts \<noteq> Panicked"
  by (induction fr pools n layouts rule: loan_layouts_loop.induct) (auto simp: and_then_Panicked)

lemma loan_checks_no_panic [simp]: "validate_writable_locals_and_loans f pools \<noteq> Panicked"
  by (simp add: validate_writable_locals_and_loans_def and_then_Panicked)

lemma parameters_no_panic:
  "length (fr_slot_plans fr) = fr_slot_count fr \<Longrightarrow> parameter_slots_loop env fr pools seen ps \<noteq> Panicked"
  by (induction env fr pools seen ps rule: parameter_slots_loop.induct)
    (auto simp: panic_simps split: option.splits pool_entry.splits)

text \<open>The check of a relocation's own facts panics on a relocation of the function.\<close>

definition relocation_panics :: "('n, 'c) validation_env \<Rightarrow> ('n, 'c) bytecode_pools \<Rightarrow> 'n bytecode_function \<Rightarrow> bool" where
  "relocation_panics env pools f \<longleftrightarrow>
     (\<exists>n<length (bf_relocations f). ve_relocation_facts env n (bf_relocations f ! n) pools = Panicked)"

lemma limits_no_panic:
  assumes "\<not> relocation_panics env pools f"
  shows "validate_function_limits env f pools \<noteq> Panicked"
proof -
  have "ve_relocation_facts env n r pools \<noteq> Panicked" if "(n, r) \<in> set (indexed (bf_relocations f))" for n r
    using assms that by (auto simp: relocation_panics_def set_indexed)
  then show ?thesis
    by (auto simp: validate_function_limits_def Let_def and_then_Panicked parameters_no_panic relocation_checks_def dest!: each_Panicked split: option.splits)
qed

lemma limits_Checked:
  assumes "validate_function_limits env f pools = Checked"
  shows "length (bf_words f) < u32_size" "length (fr_slot_type_refs (bf_frame_layout f)) = fr_slot_count (bf_frame_layout f)"
    "length (bf_statement_entries f) < u32_size"
  using assms by (auto simp: validate_function_limits_def Let_def over_limit_def validate_frame_type_refs_def frame_refs_checks_def
      MAX_WORDS_PER_FUNCTION_def MAX_TABLE_ENTRIES_def u32_size_def)

lemma with_word_Panicked: "with_word i role k = Panicked \<longleftrightarrow> (\<exists>w. word_of i role = Some w \<and> k w = Panicked)"
  by (auto simp: with_word_def split: option.splits)

lemma relocation_operand_no_panic [simp]: "relocation_operand_checks f img i word \<noteq> Panicked"
  by (auto simp: relocation_operand_checks_def panic_simps with_word_Panicked split: option.splits bytecode_relocation.splits)

lemma operand_no_panic:
  "well_decoded i \<Longrightarrow> p < length (od_operand_layout (di_descriptor i)) \<Longrightarrow> operand_checks f img i (p, k) \<noteq> Panicked"
  by (auto simp: operand_checks_def panic_simps operand_lengths split: operand_kind.splits option.splits)

lemma loan_selectors_no_panic: "loan_selectors pools i n loans \<noteq> Inl Panicked"
  by (induction pools i n loans rule: loan_selectors.induct) (auto split: option.splits pool_entry.splits)

lemma contract_no_panic:
  assumes "operands_pass f img i" "length (fr_slot_type_refs (bf_frame_layout f)) = fr_slot_count (bf_frame_layout f)"
  shows "validate_instruction_contract env f img i \<noteq> Panicked"
proof -
  have "set_path_checks f (bi_pools img) i \<noteq> Panicked"
    using slot_word_bounded [OF assms(1), of RoleSlot] assms(2)
    by (auto simp: set_path_checks_def with_word_Panicked panic_simps role_operand_kind_def split: option.splits pool_entry.splits)
  moreover have "in_out_call_checks f (bi_pools img) i \<noteq> Panicked"
    using loan_selectors_no_panic [of "bi_pools img" i 0]
    by (auto simp: in_out_call_checks_def with_word_Panicked panic_simps split: option.splits sum.splits)
  moreover have "new_record_checks (bi_pools img) i \<noteq> Panicked" "dense_field_checks env (bi_pools img) i \<noteq> Panicked"
    by (auto simp: new_record_checks_def dense_field_checks_def with_shape_def with_word_Panicked panic_simps split: option.splits pool_entry.splits if_splits)
  moreover have "make_callback_checks f (bi_pools img) i \<noteq> Panicked" "intrinsic_checks f i \<noteq> Panicked"
    by (auto simp: make_callback_checks_def intrinsic_checks_def with_word_Panicked split: option.splits pool_entry.splits bytecode_relocation.splits)
  moreover have "box_local_checks f img i \<noteq> Panicked"
    by (auto simp: box_local_checks_def with_word_Panicked split: option.splits bytecode_relocation.splits dest!: each_Panicked)
  ultimately show ?thesis by (auto simp: validate_instruction_contract_def split: opcode.splits)
qed

lemma operands_no_panic:
  assumes "\<forall>i \<in> set is. well_decoded i" "length (fr_slot_type_refs (bf_frame_layout f)) = fr_slot_count (bf_frame_layout f)"
  shows "validate_operands env f img is \<noteq> Panicked"
proof
  assume "validate_operands env f img is = Panicked"
  then obtain i where i: "i \<in> set is"
      "and_then (each (operand_checks f img i) (indexed (od_operand_layout (di_descriptor i)))) (validate_instruction_contract env f img i) = Panicked"
    unfolding validate_operands_def by (auto dest!: each_Panicked)
  have "each (operand_checks f img i) (indexed (od_operand_layout (di_descriptor i))) \<noteq> Panicked"
    using assms(1) i(1) operand_no_panic by (force simp: set_indexed dest!: each_Panicked)
  moreover have "operands_pass f img i" if "each (operand_checks f img i) (indexed (od_operand_layout (di_descriptor i))) = Checked"
    using that assms(1) i(1) by (simp add: operands_pass_def ball_indexed)
  ultimately show False using i(2) contract_no_panic [OF _ assms(2)] by (auto simp: and_then_Panicked)
qed

lemma targets_no_panic:
  assumes "\<forall>i \<in> set (df_instructions d). operands_pass f img i"
  shows "validate_targets f d \<noteq> Panicked"
proof
  assume "validate_targets f d = Panicked"
  from each_Panicked [OF this [unfolded validate_targets_def]] obtain i where i: "i \<in> set (df_instructions d)"
      "each (branch_checks (df_header_pcs d) i) (indexed (od_operand_layout (di_descriptor i))) = Panicked \<or> region_membership_checks f i = Panicked"
    unfolding and_then_Panicked by blast
  have pass: "operands_pass f img i" using assms i(1) by blast
  have "each (branch_checks (df_header_pcs d) i) (indexed (od_operand_layout (di_descriptor i))) \<noteq> Panicked"
    using pass operand_lengths [of i]
    by (auto simp: operands_pass_def branch_checks_def set_indexed panic_simps split: option.splits if_splits dest!: each_Panicked)
  moreover have "region_membership_checks f i \<noteq> Panicked"
    using table_word_bounded [OF pass, of RoleActiveRegion]
    by (auto simp: region_membership_checks_def panic_simps role_operand_kind_def role_table_category_def split: option.splits)
  ultimately show False using i(2) by blast
qed

lemma region_counts_no_panic:
  assumes "\<forall>i \<in> set is. \<forall>n. word_of i RoleActiveRegion = Some n \<longrightarrow> n < m" "length enters = m" "length leaves = m"
  shows "region_counts is enters leaves \<noteq> Inl Panicked"
  using assms
  by (induction "is" enters leaves rule: region_counts.induct) (auto simp: word_of_def split: option.splits if_splits)

lemma matchers_no_panic: "catch_matchers_loop pools b prev ms \<noteq> Panicked"
  by (induction pools b prev ms rule: catch_matchers_loop.induct) (auto simp: panic_simps)

lemma exception_regions_no_panic: "exception_regions_loop f headers pools prev open_ends rs \<noteq> Panicked"
  by (induction f headers pools prev open_ends rs rule: exception_regions_loop.induct)
    (auto simp: Let_def and_then_Panicked exception_region_checks_def matchers_no_panic)

lemma active_regions_no_panic:
  "\<forall>(n, r) \<in> set rs. n < length enters \<and> n < length leaves \<Longrightarrow> active_regions_loop f headers enters leaves prev open_ends rs \<noteq> Panicked"
  by (induction f headers enters leaves prev open_ends rs rule: active_regions_loop.induct)
    (auto simp: Let_def panic_simps active_region_checks_def)

lemma canonical_no_panic: "canonical_loop s es \<noteq> Panicked"
  by (induction s es rule: canonical_loop.induct)
    (auto simp: and_then_Panicked validate_dense_occurrences_def dest!: each_Panicked split: option.splits)

lemma requirement_no_panic [simp]: "validate_opcode_requirement i es \<noteq> Panicked"
  using contract_total [of "od_kind (di_descriptor i)"] by (auto simp: validate_opcode_requirement_def split: option.splits statement_contract.splits)

lemma merge_no_panic [simp]: "statement_merge is es \<noteq> Panicked"
  by (induction "is" es rule: statement_merge.induct) (auto simp: and_then_Panicked)

lemma source_map_no_panic: "source_map_loop n headers prev es \<noteq> Panicked" "source_coverage_loop cursor is \<noteq> Panicked"
proof -
  show "source_map_loop n headers prev es \<noteq> Panicked"
    by (induction n headers prev es rule: source_map_loop.induct) (auto simp: and_then_Panicked)
  show "source_coverage_loop cursor is \<noteq> Panicked"
  proof (induction cursor "is" rule: source_coverage_loop.induct)
    case (2 cursor i "is")
    obtain c where "contract_for_opcode (od_kind (di_descriptor i)) = Some c" using contract_total by blast
    then show ?case using 2 by (auto simp: and_then_Panicked split: source_contract.splits option.splits)
  qed simp
qed

lemma switch_no_panic: "switch_cases_loop pools headers prev cases \<noteq> Panicked"
  by (induction pools headers prev cases rule: switch_cases_loop.induct) (auto simp: and_then_Panicked)

lemma tables_no_panic:
  assumes "\<forall>i \<in> set (df_instructions d). operands_pass f img i"
  shows "validate_tables f d pools \<noteq> Panicked"
proof -
  let ?m = "length (bf_active_regions f)"
  let ?z = "replicate ?m (0::nat)"
  have words: "\<forall>i \<in> set (df_instructions d). \<forall>n. word_of i RoleActiveRegion = Some n \<longrightarrow> n < ?m"
    using assms table_word_bounded [of f img _ RoleActiveRegion] by (force simp: role_operand_kind_def role_table_category_def)
  have active: "validate_active_regions f d \<noteq> Panicked"
  proof (cases "region_counts (df_instructions d) ?z ?z")
    case (Inl c)
    then show ?thesis using region_counts_no_panic [OF words, of ?z ?z] by (simp add: validate_active_regions_def)
  next
    case (Inr r)
    obtain enters leaves where r: "r = (enters, leaves)" by (cases r)
    have "length enters = ?m" "length leaves = ?m" using region_counts_exact [OF Inr [unfolded r]] by auto
    then show ?thesis by (simp add: validate_active_regions_def Inr r active_regions_no_panic ball_indexed)
  qed
  have switch: "validate_switch_tables f headers pools \<noteq> Panicked" for headers
    by (auto simp: validate_switch_tables_def and_then_Panicked switch_no_panic dest!: each_Panicked)
  show ?thesis using active switch
    by (auto simp: validate_tables_def and_then_Panicked validate_exception_regions_def exception_regions_no_panic validate_source_map_def
        source_map_no_panic validate_statement_entries_def validate_statement_entries_canonical_def canonical_no_panic)
qed

end
