(* ===== verification/Bytecode_Flow.thy ===== *)
theory Bytecode_Flow
  imports Bytecode_Validate "HOL-Library.Code_Target_Nat"
begin

text \<open>
  What the structural validation guarantees of accepted functions and images: validation ends with a
  view or an error (a panic can come only from the relocation check that is a parameter), control never leaves the instruction headers, and suspension sites and resume
  descriptors correspond one to one.
\<close>

section \<open>Outcomes\<close>

lemma checked_then_Inr [simp]: "checked_then c k = Inr x \<longleftrightarrow> c = Checked \<and> k () = Inr x"
  by (cases c) (simp_all add: checked_then_def)

lemma result_then_Inr [simp]: "result_then r k = Inr x \<longleftrightarrow> (\<exists>y. r = Inr y \<and> k y = Inr x)"
  by (cases r) (simp_all add: result_then_def)

lemma checked_then_Inl: "checked_then c k = Inl e \<longleftrightarrow> c = Checked \<and> k () = Inl e \<or> c \<noteq> Checked \<and> c = e"
  by (cases c) (auto simp: checked_then_def)

lemma result_then_Inl: "result_then r k = Inl e \<longleftrightarrow> r = Inl e \<or> (\<exists>y. r = Inr y \<and> k y = Inl e)"
  by (cases r) (simp_all add: result_then_def)

text \<open>A result that is a value or a proper error.\<close>

definition sound_result :: "check + 'a \<Rightarrow> bool" where
  "sound_result r \<longleftrightarrow> (\<forall>c. r = Inl c \<longrightarrow> (\<exists>e. c = Rejected e))"

lemma sound_checked: "c \<noteq> Panicked \<Longrightarrow> (c = Checked \<Longrightarrow> sound_result (k ())) \<Longrightarrow> sound_result (checked_then c k)"
  by (cases c) (auto simp: sound_result_def checked_then_Inl)

lemma sound_result: "sound_result r \<Longrightarrow> (\<And>x. r = Inr x \<Longrightarrow> sound_result (k x)) \<Longrightarrow> sound_result (result_then r k)"
  by (auto simp: sound_result_def result_then_Inl)

lemma sound_simps [simp]: "sound_result (Inr x)" "sound_result (Inl (Rejected e))"
  by (simp_all add: sound_result_def)

lemma intrinsics_sound: "sound_result (collect_intrinsic_contracts rs)"
  by (induction rs rule: collect_intrinsic_contracts.induct) (auto simp: sound_result_def split: sum.splits)

lemma stream_item_sound: "sound_result (derive_function_stream_item env f pools)"
  by (auto simp: derive_function_stream_item_def intro!: sound_checked split: option.splits pool_entry.splits type_ref_ir.splits list.splits)

lemma function_sound:
  assumes "\<not> relocation_panics env (bi_pools img) f"
  shows "sound_result (validate_function env img key f)"
proof (cases "validate_function_limits env f (bi_pools img) = Checked")
  case False
  then show ?thesis using limits_no_panic [OF assms] unfolding validate_function_def
    by (intro sound_checked) (auto simp: and_then_Panicked)
next
  case True
  note limits = limits_Checked [OF True]
  show ?thesis
  proof (cases "decode_function (bf_words f)")
    case (Inl e)
    then show ?thesis using True unfolding validate_function_def by (intro sound_checked) (auto simp: and_then_Panicked)
  next
    case (Inr d)
    have well: "\<forall>i \<in> set (df_instructions d). well_decoded i" using decoded_well [OF Inr limits(1)] by blast
    have operands: "validate_operands env f img (df_instructions d) \<noteq> Panicked" by (rule operands_no_panic [OF well limits(2)])
    have pass: "\<forall>i \<in> set (df_instructions d). operands_pass f img i" if "validate_operands env f img (df_instructions d) = Checked"
      using operands_Checked [OF that] well by blast
    have "validate_targets f d \<noteq> Panicked" "validate_tables f d (bi_pools img) \<noteq> Panicked"
      if "validate_operands env f img (df_instructions d) = Checked"
      by (rule targets_no_panic [OF pass [OF that]], rule tables_no_panic [OF pass [OF that]])
    then have "checks [validate_operands env f img (df_instructions d), validate_targets f d, validate_tables f d (bi_pools img)] \<noteq> Panicked"
      using operands by (auto simp: and_then_Panicked)
    then show ?thesis using True unfolding validate_function_def Inr
      by (auto simp: and_then_Panicked intro!: sound_checked sound_result intrinsics_sound stream_item_sound)
  qed
qed

lemma functions_sound:
  "(\<forall>(key, f) \<in> set fs. \<not> relocation_panics env (bi_pools img) f) \<Longrightarrow> sound_result (validate_functions env img fs)"
proof (induction fs)
  case (Cons kf fs)
  then show ?case using function_sound [of env img "snd kf" "fst kf"] by (cases kf) (auto intro!: sound_result)
qed simp

lemma arity_sound: "sound_result (resolve_stack_effect_arity as i results acc)"
proof (induction as i results acc rule: resolve_stack_effect_arity.induct)
  case (2 a as i results acc)
  have "sound_result (resolve_arity i results a)" by (cases a) (auto split: option.splits)
  then show ?case using 2 by (auto intro!: sound_result split: option.splits)
qed simp

lemma resume_site_sound: "sound_result (resume_site_at v i n r)"
proof -
  have "resume_arity_checks v i r \<noteq> Panicked"
    using arity_sound [of "od_stack_out (di_descriptor i)" i "fr_result_count (bf_frame_layout (vf_function v))" 0]
    by (auto simp: resume_arity_checks_def sound_result_def and_then_Panicked split: sum.splits option.splits)
  moreover have "end_resume_checks headers k pc resume_pc end_pc \<noteq> Panicked" "emit_stream_checks v i r \<noteq> Panicked" for headers k pc resume_pc end_pc
    by (auto simp: end_resume_checks_def emit_stream_checks_def and_then_Panicked split: option.splits)
  ultimately show ?thesis by (auto simp: resume_site_at_def and_then_Panicked intro!: sound_checked split: option.splits)
qed

lemma resume_loop_sound: "length counts = length (bp_resume pools) \<Longrightarrow> sound_result (resume_sites_loop pools counts ps)"
proof (induction ps arbitrary: counts)
  case (Cons p ps)
  then show ?case
    by (cases p) (auto simp: get_def intro!: sound_result resume_site_sound split: option.splits pool_entry.splits)
qed simp

lemma resume_sites_sound: "sound_result (validate_resume_sites img fs)"
  unfolding validate_resume_sites_def
  by (intro sound_result resume_loop_sound) (auto intro!: sound_checked dest!: each_Panicked)

text \<open>C11: 
  Validating the functions, resume sites and debug bindings of an image ends with the validated view or with
  an error, whatever the image holds: no index of this code is out of range and no lookup of it fails. The one
  way it can panic is inside the check of a relocation's own facts (\<open>validate_relocation_facts\<close>, a parameter
  of the model), called on a relocation of a function of the image.
\<close>

theorem validation_no_panic:
  "case validate_code env img of
     Inr view \<Rightarrow> True
   | Inl (Rejected e) \<Rightarrow> True
   | Inl _ \<Rightarrow>
       \<exists>key f n. (key, f) \<in> set (bi_functions img) \<and> n < length (bf_relocations f) \<and>
         ve_relocation_facts env n (bf_relocations f ! n) (bi_pools img) = Panicked"
proof (cases "\<forall>(key, f) \<in> set (bi_functions img). \<not> relocation_panics env (bi_pools img) f")
  case True
  have debug: "validate_debug_bindings img fs \<noteq> Panicked" for fs :: "'a validated_function list"
    by (auto simp: validate_debug_bindings_def validate_debug_binding_def and_then_Panicked dest!: each_Panicked split: option.splits)
  have "sound_result (validate_code env img)" unfolding validate_code_def
    by (intro sound_result functions_sound [OF True] resume_sites_sound sound_checked debug) simp
  then show ?thesis by (auto simp: sound_result_def split: sum.split check.split)
next
  case False
  then have panics: "\<exists>key f n. (key, f) \<in> set (bi_functions img) \<and> n < length (bf_relocations f) \<and>
      ve_relocation_facts env n (bf_relocations f ! n) (bi_pools img) = Panicked"
    unfolding relocation_panics_def by blast
  then show ?thesis by (auto split: sum.split check.split)
qed

section \<open>Accepted functions\<close>

lemma function_accepted:
  assumes "validate_function env img key f = Inr v"
  obtains d where "decode_function (bf_words f) = Inr d" "length (bf_words f) < u32_size" "vf_function v = f" "bf_function_key f = key"
    "vf_instructions v = df_instructions d" "vf_header_pcs v = df_header_pcs d" "validate_function_limits env f (bi_pools img) = Checked"
    "\<forall>i \<in> set (vf_instructions v). well_decoded i \<and> operands_pass f img i" "validate_targets f d = Checked"
    "validate_tables f d (bi_pools img) = Checked"
proof -
  obtain d where d: "decode_function (bf_words f) = Inr d" "validate_function_limits env f (bi_pools img) = Checked" "bf_function_key f = key"
      "validate_operands env f img (df_instructions d) = Checked" "validate_targets f d = Checked" "validate_tables f d (bi_pools img) = Checked"
      "vf_function v = f" "vf_instructions v = df_instructions d" "vf_header_pcs v = df_header_pcs d"
    using assms by (auto simp: validate_function_def split: sum.splits)
  have len: "length (bf_words f) < u32_size" by (rule limits_Checked [OF d(2)])
  have "\<forall>i \<in> set (vf_instructions v). well_decoded i \<and> operands_pass f img i"
    using operands_Checked [OF d(4)] decoded_well [OF d(1) len] d(8) by auto
  then show ?thesis using that d len by blast
qed

definition next_pc :: "decoded_instruction \<Rightarrow> nat" where
  "next_pc i = di_pc i + instruction_word_count (di_descriptor i)"

text \<open>The target of a branch operand, the successors of an instruction by its control contract, and the handlers over it.\<close>

definition branch_targets :: "decoded_instruction \<Rightarrow> operand_role \<Rightarrow> nat list" where
  "branch_targets i role =
     (case word_of i role of
        None \<Rightarrow> []
      | Some w \<Rightarrow> (case decode_branch_target (di_pc i) (operand_word_count (di_descriptor i)) w of None \<Rightarrow> [] | Some t \<Rightarrow> [t]))"

definition switch_targets :: "'n bytecode_function \<Rightarrow> decoded_instruction \<Rightarrow> operand_role \<Rightarrow> nat list" where
  "switch_targets f i role =
     (case word_of i role of
        None \<Rightarrow> []
      | Some n \<Rightarrow> (case get (bf_switch_tables f) n of None \<Rightarrow> [] | Some t \<Rightarrow> sw_default_pc t # map snd (sw_cases t)))"

definition contract_of :: "decoded_instruction \<Rightarrow> opcode_contract" where
  "contract_of i = the (contract_for_opcode (od_kind (di_descriptor i)))"

definition successors :: "'n bytecode_function \<Rightarrow> decoded_instruction \<Rightarrow> nat list" where
  "successors f i =
     (case oc_control (contract_of i) of
        ControlFallthrough \<Rightarrow> [next_pc i]
      | ControlJump role \<Rightarrow> branch_targets i role
      | ControlBranch role _ \<Rightarrow> next_pc i # branch_targets i role
      | ControlSwitch role \<Rightarrow> switch_targets f i role
      | _ \<Rightarrow> [])"

definition handlers :: "'n bytecode_function \<Rightarrow> decoded_instruction \<Rightarrow> nat list" where
  "handlers f i =
     (if may_raise (contract_of i)
      then map er_handler_pc (filter (\<lambda>r. er_start_pc r \<le> di_pc i \<and> di_pc i < er_end_pc r) (bf_exception_regions f)) else [])"

lemma contract_of_row:
  assumes "well_decoded i"
  obtains c where "c \<in> set OPCODE_CONTRACTS" "contract_of i = c" "di_descriptor i = descriptor_of c"
    "contract_for_opcode (od_kind (di_descriptor i)) = Some c"
proof -
  obtain w where "opcode_for w = Some (di_descriptor i)" using assms by (auto simp: well_decoded_def)
  then show ?thesis using that by (elim opcode_forD) (auto simp: contract_of_def)
qed

text \<open>An operand whose role a contract mentions is there.\<close>

lemma word_of_role:
  assumes "well_decoded i" "role \<in> set (contract_roles (contract_of i))"
  obtains w where "word_of i role = Some w"
proof -
  obtain c where c: "c \<in> set OPCODE_CONTRACTS" "contract_of i = c" "di_descriptor i = descriptor_of c" by (rule contract_of_row [OF assms(1)])
  have "list_all (\<lambda>r. r \<in> set (map os_role (oc_operands c))) (contract_roles c)" using row_ok [OF c(1)] unfolding contract_ok_def by (elim conjE)
  then have "role \<in> set (map os_role (oc_operands c))" using assms(2) unfolding c(2) list_all_iff by blast
  then have "role \<in> set (od_operand_roles (di_descriptor i))" unfolding c(3) by (simp add: descriptor_of_def)
  from position_of_member [OF this] obtain p where p: "position_of role (od_operand_roles (di_descriptor i)) = Some p" by (elim exE)
  moreover have "p < length (di_operand_words i)" using position_of_Some [OF p] operand_lengths [OF assms(1)] by simp
  ultimately show ?thesis using that by (simp add: word_of_def operand_word_def operand_position_def)
qed

text \<open>The roles the control contracts use: branch operands and switch tables.\<close>

lemma control_role_kinds:
  "list_all (\<lambda>c. case oc_control c of
      ControlJump r \<Rightarrow> role_operand_kind r = KindBranch
    | ControlBranch r _ \<Rightarrow> role_operand_kind r = KindBranch
    | ControlSwitch r \<Rightarrow> role_table_category r = Some TableSwitchTables \<and> role_operand_kind r = KindTable
    | _ \<Rightarrow> True) OPCODE_CONTRACTS"
  by code_simp

lemma branch_target_header:
  assumes "validate_targets f d = Checked" "i \<in> set (df_instructions d)" "well_decoded i" "word_of i role = Some w" "role_operand_kind role = KindBranch"
  shows "\<exists>t. branch_targets i role = [t] \<and> t \<in> set (df_header_pcs d)"
proof -
  obtain p where p: "p < length (od_operand_layout (di_descriptor i))" "od_operand_layout (di_descriptor i) ! p = KindBranch" "di_operand_words i ! p = w"
    using word_of_position [OF assms(3,4)] assms(5) by metis
  have "branch_checks (df_header_pcs d) i (p, KindBranch) = Checked"
    using assms(1,2) p(1) unfolding p(2) [symmetric] by (simp add: validate_targets_def ball_indexed)
  then show ?thesis using p(3) assms(4) by (auto simp: branch_checks_def branch_targets_def split: option.splits)
qed

lemma switch_target_header:
  assumes "validate_switch_tables f headers pools = Checked" "operands_pass f img i" "word_of i role = Some n"
    "role_operand_kind role = KindTable" "role_table_category role = Some TableSwitchTables"
  shows "switch_targets f i role \<noteq> [] \<and> set (switch_targets f i role) \<subseteq> set headers"
proof -
  have n: "n < length (bf_switch_tables f)" using table_word_bounded [OF assms(2-5)] by simp
  then have "sw_default_pc (bf_switch_tables f ! n) \<in> set headers" "switch_cases_loop pools headers None (sw_cases (bf_switch_tables f ! n)) = Checked"
    using assms(1) by (auto simp: validate_switch_tables_def)
  then show ?thesis using n assms(3) by (auto simp: switch_targets_def get_def switch_cases_Checked)
qed

lemma control_roles_subset: "set (control_roles (oc_control c)) \<subseteq> set (contract_roles c)"
  by (auto simp: contract_roles_def)

text \<open>Where an accepted instruction can continue.\<close>

lemma instruction_flow:
  assumes v: "validate_function env img key f = Inr v" and i: "i \<in> set (vf_instructions v)"
  shows "set (successors f i) \<subseteq> insert (next_pc i) (set (vf_header_pcs v))" "set (handlers f i) \<subseteq> set (vf_header_pcs v)"
    "next_pc i \<in> set (vf_header_pcs v) \<or> next_pc i = length (bf_words f)"
    "control_roles (oc_control (contract_of i)) \<noteq> [] \<Longrightarrow> \<exists>t \<in> set (successors f i). t \<in> set (vf_header_pcs v)"
proof -
  obtain d where d: "decode_function (bf_words f) = Inr d" "length (bf_words f) < u32_size" "vf_instructions v = df_instructions d"
      "vf_header_pcs v = df_header_pcs d" "\<forall>i \<in> set (vf_instructions v). well_decoded i \<and> operands_pass f img i" "validate_targets f d = Checked"
      "validate_tables f d (bi_pools img) = Checked"
    by (rule function_accepted [OF v])
  have well: "well_decoded i" and pass: "operands_pass f img i" using d(5) i by auto
  note layout = decoded_layout [OF d(1,2)]
  show "next_pc i \<in> set (vf_header_pcs v) \<or> next_pc i = length (bf_words f)"
    using tiles_next [OF layout(1)] i by (simp add: next_pc_def d(3,4) layout(2))
  have tables: "validate_exception_regions f (df_header_pcs d) (bi_pools img) = Checked" "validate_switch_tables f (df_header_pcs d) (bi_pools img) = Checked"
    using d(7) by (auto simp: validate_tables_def)
  then show "set (handlers f i) \<subseteq> set (vf_header_pcs v)"
    by (auto simp: handlers_def d(4) validate_exception_regions_def exception_regions_Checked exception_region_ok_def)
  obtain c where c: "c \<in> set OPCODE_CONTRACTS" "contract_of i = c" by (rule contract_of_row [OF well])
  have kinds: "case oc_control c of ControlJump r \<Rightarrow> role_operand_kind r = KindBranch | ControlBranch r _ \<Rightarrow> role_operand_kind r = KindBranch
      | ControlSwitch r \<Rightarrow> role_table_category r = Some TableSwitchTables \<and> role_operand_kind r = KindTable | _ \<Rightarrow> True"
    using control_role_kinds c(1) unfolding list_all_iff by blast
  have word: "\<exists>w. word_of i r = Some w" if "r \<in> set (control_roles (oc_control c))" for r
  proof -
    have "r \<in> set (contract_roles (contract_of i))" using that control_roles_subset c(2) by blast
    then show ?thesis by (elim word_of_role [OF well]) blast
  qed
  have i': "i \<in> set (df_instructions d)" using i d(3) by simp
  have branch: "\<exists>t. branch_targets i r = [t] \<and> t \<in> set (df_header_pcs d)"
    if "r \<in> set (control_roles (oc_control c))" "role_operand_kind r = KindBranch" for r
    using word [OF that(1)] branch_target_header [OF d(6) i' well _ that(2)] by blast
  have switch: "switch_targets f i r \<noteq> [] \<and> set (switch_targets f i r) \<subseteq> set (df_header_pcs d)"
    if "r \<in> set (control_roles (oc_control c))" "role_operand_kind r = KindTable" "role_table_category r = Some TableSwitchTables" for r
    using word [OF that(1)] switch_target_header [OF tables(2) pass _ that(2,3)] by blast
  show "set (successors f i) \<subseteq> insert (next_pc i) (set (vf_header_pcs v))"
    using kinds branch switch by (cases "oc_control c") (fastforce simp: successors_def c(2) d(4))+
  show "\<exists>t \<in> set (successors f i). t \<in> set (vf_header_pcs v)" if "control_roles (oc_control (contract_of i)) \<noteq> []"
  proof (cases "oc_control c")
    case (ControlJump r)
    then show ?thesis using kinds branch [of r] by (auto simp: successors_def c(2) d(4))
  next
    case (ControlBranch r w)
    then show ?thesis using kinds branch [of r] by (auto simp: successors_def c(2) d(4))
  next
    case (ControlSwitch r)
    then show ?thesis using kinds switch [of r] by (cases "switch_targets f i r") (auto simp: successors_def c(2) d(4))
  qed (use that c(2) in auto)
qed

section \<open>Resume sites\<close>

text \<open>A suspension site of an instruction: its descriptor is bound to it, and it resumes at a header.\<close>

definition site_of :: "('n, 'c) bytecode_pools \<Rightarrow> 'n validated_function \<Rightarrow> decoded_instruction \<Rightarrow> validated_resume_site \<Rightarrow> bool" where
  "site_of pools v i s \<longleftrightarrow>
     word_of i RoleResumeRef = Some (rs_descriptor_index s) \<and> rs_descriptor_index s < length (bp_resume pools) \<and>
     (\<exists>r. bp_resume pools ! rs_descriptor_index s = EntryResume r \<and> rd_function_key r = rs_function_key s \<and> rd_site_pc r = rs_site_pc s \<and>
        rd_resume_pc r = rs_resume_pc s \<and> rd_end_resume_pc r = rs_end_resume_pc s \<and> rd_expected_stack_height r = rs_expected_stack_height s \<and>
        rd_result_type_refs r = rs_result_type_refs s) \<and>
     rs_function_key s = bf_function_key (vf_function v) \<and> rs_site_pc s = di_pc i \<and> rs_resume_pc s = next_pc i \<and>
     rs_resume_pc s \<in> set (vf_header_pcs v) \<and>
     (rs_end_resume_pc s \<noteq> None \<longleftrightarrow> od_kind (di_descriptor i) = OpcStreamNext) \<and>
     (\<forall>t. rs_end_resume_pc s = Some t \<longrightarrow> t \<in> set (vf_header_pcs v) \<and> t \<noteq> rs_resume_pc s) \<and>
     rs_expected_stack_height s + length (rs_result_type_refs s) \<le> bf_max_operand_depth (vf_function v) \<and>
     (rs_emit_stream_item_shape_ref s \<noteq> None \<longleftrightarrow> od_kind (di_descriptor i) = OpcEmitStream)"

lemma resume_site_of:
  assumes "resume_site_at v i n r = Inr s" "word_of i RoleResumeRef = Some n" "n < length (bp_resume pools)" "bp_resume pools ! n = EntryResume r"
  shows "site_of pools v i s" "rs_descriptor_index s = n"
proof -
  let ?next = "di_pc i + instruction_word_count (di_descriptor i)"
  have s: "s = \<lparr>rs_function_key = bf_function_key (vf_function v), rs_descriptor_index = n, rs_site_pc = di_pc i, rs_resume_pc = ?next,
      rs_end_resume_pc = rd_end_resume_pc r, rs_expected_stack_height = rd_expected_stack_height r,
      rs_result_type_refs = rd_result_type_refs r, rs_emit_stream_item_shape_ref = rd_emit_stream_item_shape_ref r\<rparr>"
    and bound: "rd_function_key r = bf_function_key (vf_function v)" "rd_site_pc r = di_pc i" "rd_resume_pc r = ?next" "?next \<in> set (vf_header_pcs v)"
    and fin: "end_resume_checks (vf_header_pcs v) (od_kind (di_descriptor i)) (di_pc i) ?next (rd_end_resume_pc r) = Checked"
    and arity: "resume_arity_checks v i r = Checked" and emit: "emit_stream_checks v i r = Checked"
    using assms(1) by (auto simp: resume_site_at_def checked_add_u32_def split: option.splits if_splits)
  have fin': "(rd_end_resume_pc r \<noteq> None \<longleftrightarrow> od_kind (di_descriptor i) = OpcStreamNext) \<and>
      (\<forall>t. rd_end_resume_pc r = Some t \<longrightarrow> t \<in> set (vf_header_pcs v) \<and> t \<noteq> ?next)"
    using fin by (auto simp: end_resume_checks_def split: option.splits if_splits)
  have height: "rd_expected_stack_height r + length (rd_result_type_refs r) \<le> bf_max_operand_depth (vf_function v)"
    using arity arity_sound [of "od_stack_out (di_descriptor i)" i "fr_result_count (bf_frame_layout (vf_function v))" 0]
    by (auto simp: resume_arity_checks_def checked_add_u32_def sound_result_def split: sum.splits option.splits if_splits)
  have shape: "rd_emit_stream_item_shape_ref r \<noteq> None \<longleftrightarrow> od_kind (di_descriptor i) = OpcEmitStream"
    using emit by (auto simp: emit_stream_checks_def)
  show "site_of pools v i s" unfolding site_of_def using assms(2-4) bound fin' height shape by (simp add: s next_pc_def)
  show "rs_descriptor_index s = n" by (simp add: s)
qed

lemma resume_loop_exact:
  assumes "resume_sites_loop pools counts ps = Inr (counts', sites)"
  shows "length counts' = length counts"
    "n < length counts \<Longrightarrow> capped (counts' ! n) = capped (count_list (map rs_descriptor_index sites) n + counts ! n)"
    "\<forall>s \<in> set sites. \<exists>(v, i) \<in> set ps. site_of pools v i s"
    "\<forall>(v, i) \<in> set ps. \<forall>n. word_of i RoleResumeRef = Some n \<longrightarrow> (\<exists>s \<in> set sites. site_of pools v i s \<and> rs_descriptor_index s = n)"
proof -
  have "length counts' = length counts \<and>
    (\<forall>n < length counts. capped (counts' ! n) = capped (count_list (map rs_descriptor_index sites) n + counts ! n)) \<and>
    (\<forall>s \<in> set sites. \<exists>(v, i) \<in> set ps. site_of pools v i s) \<and>
    (\<forall>(v, i) \<in> set ps. \<forall>n. word_of i RoleResumeRef = Some n \<longrightarrow> (\<exists>s \<in> set sites. site_of pools v i s \<and> rs_descriptor_index s = n))"
    using assms
  proof (induction ps arbitrary: counts sites)
    case (Cons p ps)
    obtain v i where p: "p = (v, i)" by (cases p)
    show ?case
    proof (cases "word_of i RoleResumeRef")
      case None
      then show ?thesis using Cons by (auto simp: p)
    next
      case (Some n)
      then obtain r s rest where r: "n < length (bp_resume pools)" "bp_resume pools ! n = EntryResume r" "n < length counts" "resume_site_at v i n r = Inr s"
          "resume_sites_loop pools (counts[n := saturating_inc (counts ! n)]) ps = Inr (counts', rest)" "sites = s # rest"
        using Cons.prems by (auto simp: p get_def split: option.splits pool_entry.splits if_splits)
      note s = resume_site_of [OF r(4) Some r(1,2)]
      from Cons.IH [OF r(5)] have ih: "length counts' = length counts"
          "\<forall>m < length counts. capped (counts' ! m) = capped (count_list (map rs_descriptor_index rest) m + counts[n := saturating_inc (counts ! n)] ! m)"
          "\<forall>s \<in> set rest. \<exists>(v, i) \<in> set ps. site_of pools v i s"
          "\<forall>(v, i) \<in> set ps. \<forall>n. word_of i RoleResumeRef = Some n \<longrightarrow> (\<exists>s \<in> set rest. site_of pools v i s \<and> rs_descriptor_index s = n)"
        by auto
      have "\<forall>m < length counts. capped (counts' ! m) = capped (count_list (map rs_descriptor_index sites) m + counts ! m)"
        using ih(2) r(3) by (auto simp: r(6) s(2) nth_list_update saturating_capped)
      then show ?thesis using ih(1,3,4) s Some by (auto simp: p r(6))
    qed
  qed auto
  then show "length counts' = length counts" "n < length counts \<Longrightarrow> capped (counts' ! n) = capped (count_list (map rs_descriptor_index sites) n + counts ! n)"
    "\<forall>s \<in> set sites. \<exists>(v, i) \<in> set ps. site_of pools v i s"
    "\<forall>(v, i) \<in> set ps. \<forall>n. word_of i RoleResumeRef = Some n \<longrightarrow> (\<exists>s \<in> set sites. site_of pools v i s \<and> rs_descriptor_index s = n)" by blast+
qed

lemma distinct_count_one: "(\<And>x. x \<in> set xs \<Longrightarrow> count_list xs x = 1) \<Longrightarrow> distinct xs"
proof (induction xs)
  case (Cons a xs)
  have "a \<notin> set xs" using Cons.prems [of a] by (simp add: count_list_0_iff)
  then show ?case using Cons.IH Cons.prems by (metis count_list.simps(2) distinct.simps(2) list.set_intros(2))
qed simp

section \<open>Accepted images\<close>

lemma functions_accepted:
  "validate_functions env img fs = Inr vs \<Longrightarrow>
   map (\<lambda>v. bf_function_key (vf_function v)) vs = map fst fs \<and> (\<forall>v \<in> set vs. \<exists>key. validate_function env img key (vf_function v) = Inr v)"
proof (induction fs arbitrary: vs)
  case (Cons kf fs)
  obtain key f where kf: "kf = (key, f)" by (cases kf)
  obtain v rest where v: "validate_function env img key f = Inr v" "validate_functions env img fs = Inr rest" "vs = v # rest"
    using Cons.prems by (auto simp: kf)
  have "vf_function v = f" "bf_function_key f = key" by (rule function_accepted [OF v(1)], assumption)+
  then show ?case using v Cons.IH [OF v(2)] by (auto simp: kf)
qed simp

lemma code_accepted:
  assumes "validate_code env img = Inr (fs, sites)"
  shows "validate_functions env img (bi_functions img) = Inr fs" "validate_resume_sites img fs = Inr sites"
  using assms by (auto simp: validate_code_def)

lemma sites_accepted:
  assumes "validate_resume_sites img fs = Inr sites"
  shows "distinct (map rs_descriptor_index sites)" "set (map rs_descriptor_index sites) = {..<length (bp_resume (bi_pools img))}"
    "\<forall>s \<in> set sites. \<exists>v \<in> set fs. \<exists>i \<in> set (vf_instructions v). site_of (bi_pools img) v i s"
    "\<forall>v \<in> set fs. \<forall>i \<in> set (vf_instructions v). \<forall>n. word_of i RoleResumeRef = Some n \<longrightarrow>
       (\<exists>s \<in> set sites. site_of (bi_pools img) v i s \<and> rs_descriptor_index s = n)"
proof -
  let ?m = "length (bp_resume (bi_pools img))"
  obtain counts where counts: "resume_sites_loop (bi_pools img) (replicate ?m 0) (site_pairs fs) = Inr (counts, sites)" "\<forall>c \<in> set counts. c = 1"
    using assms by (auto simp: validate_resume_sites_def)
  note loop = resume_loop_exact [OF counts(1)]
  have len: "length counts = ?m" using loop(1) by simp
  have one: "count_list (map rs_descriptor_index sites) n = 1" if "n < ?m" for n
    using loop(2) [of n] that counts(2) len capped_same [of "counts ! n" "count_list (map rs_descriptor_index sites) n"] by simp
  show sites: "\<forall>s \<in> set sites. \<exists>v \<in> set fs. \<exists>i \<in> set (vf_instructions v). site_of (bi_pools img) v i s"
    using loop(3) by (fastforce simp: site_pairs_def)
  then have bound: "\<forall>n \<in> set (map rs_descriptor_index sites). n < ?m" by (auto simp: site_of_def)
  then show "distinct (map rs_descriptor_index sites)" using one by (intro distinct_count_one) blast
  have "n \<in> set (map rs_descriptor_index sites)" if "n < ?m" for n using one [OF that] count_list_0_iff by (metis zero_neq_one)
  then show "set (map rs_descriptor_index sites) = {..<?m}" using bound by blast
  show "\<forall>v \<in> set fs. \<forall>i \<in> set (vf_instructions v). \<forall>n. word_of i RoleResumeRef = Some n \<longrightarrow>
       (\<exists>s \<in> set sites. site_of (bi_pools img) v i s \<and> rs_descriptor_index s = n)"
    using loop(4) by (fastforce simp: site_pairs_def)
qed

section \<open>Reachable program counters\<close>

text \<open>
  The counters control can reach in a function: its entry, the successors of an instruction by its
  contract, the handlers of the regions over an instruction that can raise, and where a suspended
  instruction is resumed.
\<close>

inductive reaches :: "'n validated_function \<Rightarrow> validated_resume_site list \<Rightarrow> nat \<Rightarrow> bool" for v sites where
  entry: "reaches v sites 0"
| flow: "reaches v sites (di_pc i) \<Longrightarrow> i \<in> set (vf_instructions v) \<Longrightarrow> t \<in> set (successors (vf_function v) i) \<Longrightarrow> reaches v sites t"
| raised: "reaches v sites (di_pc i) \<Longrightarrow> i \<in> set (vf_instructions v) \<Longrightarrow> t \<in> set (handlers (vf_function v) i) \<Longrightarrow> reaches v sites t"
| resumed: "reaches v sites (di_pc i) \<Longrightarrow> i \<in> set (vf_instructions v) \<Longrightarrow> s \<in> set sites \<Longrightarrow>
    rs_function_key s = bf_function_key (vf_function v) \<Longrightarrow> rs_site_pc s = di_pc i \<Longrightarrow> t = rs_resume_pc s \<or> rs_end_resume_pc s = Some t \<Longrightarrow>
    reaches v sites t"

lemma same_key:
  assumes "distinct (map f xs)" "x \<in> set xs" "y \<in> set xs" "f x = f y"
  shows "x = y"
  using assms by (auto simp: distinct_map dest: inj_onD)

lemma reaches_boundary:
  assumes code: "validate_code env img = Inr (fs, sites)" and keys: "distinct (map fst (bi_functions img))" and v: "v \<in> set fs"
    and "reaches v sites pc"
  shows "pc \<in> set (vf_header_pcs v) \<or> pc = length (bf_words (vf_function v))"
proof -
  obtain key where ok: "validate_function env img key (vf_function v) = Inr v"
    using functions_accepted [OF code_accepted(1) [OF code]] v by blast
  have distinct: "distinct (map (\<lambda>v. bf_function_key (vf_function v)) fs)"
    using functions_accepted [OF code_accepted(1) [OF code]] keys by simp
  show ?thesis using assms(4)
  proof (induction rule: reaches.induct)
    case entry
    obtain d where d: "decode_function (bf_words (vf_function v)) = Inr d" "length (bf_words (vf_function v)) < u32_size" "vf_header_pcs v = df_header_pcs d"
      by (rule function_accepted [OF ok])
    show ?case using decoded_layout [OF d(1,2)] d(3) by (cases "df_instructions d") auto
  next
    case (flow i t)
    then show ?case using instruction_flow(1,3) [OF ok flow(2)] by auto
  next
    case (raised i t)
    then show ?case using instruction_flow(2) [OF ok raised(2)] by auto
  next
    case (resumed i s t)
    obtain v' i' where s: "v' \<in> set fs" "site_of (bi_pools img) v' i' s" using sites_accepted(3) [OF code_accepted(2) [OF code]] resumed(3) by blast
    have "v' = v" using s resumed(4) v by (intro same_key [OF distinct]) (auto simp: site_of_def)
    then show ?case using s(2) resumed(6) by (auto simp: site_of_def)
  qed
qed

section \<open>An example\<close>

text \<open>A function that drains a stream: checkpoint, read with a handler, drop the item, jump back, return.\<close>

definition drain_function :: "string bytecode_function" where
  "drain_function =
     \<lparr>bf_function_key = ''drain'', bf_type_parameters = [], bf_words = [20, 96, 0, 0, 8, 16, 4294967289, 37], bf_relocations = [],
      bf_call_loan_layouts = [],
      bf_frame_layout =
        \<lparr>fr_slot_count = 1, fr_slot_type_refs = [0], fr_parameter_slots = [], fr_writable_local_slots = [], fr_result_count = 0,
         fr_result_type_refs = [], fr_result_plans = [], fr_stream_result_type_ref = None, fr_slot_plans = [SnapshotShare DropTrivial]\<rparr>,
      bf_max_operand_depth = 2, bf_effect_summary_ref = ''effects'',
      bf_exception_regions =
        [\<lparr>er_start_pc = 1, er_end_pc = 4, er_handler_pc = 7, er_handler_stack_height = 0, er_catch_matchers = [CatchAll],
          er_catch_slot = 0, er_catch_slot_type_ref = 0, er_cleanup_depth = 0\<rparr>],
      bf_active_regions = [], bf_switch_tables = [],
      bf_statement_entries = [\<lparr>st_pc = 0, st_sequence_ordinal = 0, st_attribution_id = AttrGenerated 0, st_site = SiteSynthetic\<rparr>],
      bf_source_map =
        [\<lparr>sm_start_pc = 0, sm_end_pc = 1, sm_site = SiteSynthetic\<rparr>, \<lparr>sm_start_pc = 1, sm_end_pc = 4, sm_site = SiteSource\<rparr>]\<rparr>"

definition drain_image :: "(string, unit) bytecode_image" where
  "drain_image =
     \<lparr>bi_functions = [(''drain'', drain_function)],
      bi_pools =
        \<lparr>bp_constants = [], bp_types = [EntryType (TyBuiltin ''Stream'' [TyBuiltin ''int'' []]) (SnapshotShare DropTrivial)],
         bp_shapes = [], bp_effects = [],
         bp_resume =
           [EntryResume \<lparr>rd_function_key = ''drain'', rd_site_pc = 1, rd_resume_pc = 4, rd_end_resume_pc = Some 7, rd_expected_stack_height = 0,
              rd_result_type_refs = [0], rd_result_plans = [SnapshotShare DropTrivial], rd_emit_stream_item_shape_ref = None\<rparr>],
         bp_callback_capture = [], bp_writable_paths = []\<rparr>,
      bi_debug_table = None\<rparr>"

definition drain_env :: "(string, unit) validation_env" where
  "drain_env = \<lparr>ve_adapter = (\<lambda>_. None), ve_composite = (\<lambda>_. None), ve_relocation_facts = (\<lambda>_ _ _. Checked)\<rparr>"

definition drain_fs :: "string validated_function list" where
  "drain_fs = fst (projr (validate_code drain_env drain_image))"

definition drain_sites :: "validated_resume_site list" where
  "drain_sites = snd (projr (validate_code drain_env drain_image))"

definition drain_decoded :: decoded_function where
  "drain_decoded = projr (decode_function (bf_words drain_function))"

lemma drain_accepted: "validate_code drain_env drain_image = Inr (drain_fs, drain_sites)"
proof -
  have "\<not> isl (validate_code drain_env drain_image)" by code_simp
  then show ?thesis unfolding drain_fs_def drain_sites_def by (cases "validate_code drain_env drain_image") simp_all
qed

lemma drain_decodes: "decode_function (bf_words drain_function) = Inr drain_decoded"
proof -
  have "\<not> isl (decode_function (bf_words drain_function))" by code_simp
  then show ?thesis unfolding drain_decoded_def by (cases "decode_function (bf_words drain_function)") simp_all
qed

lemma drain_reaches: "reaches (hd drain_fs) drain_sites 7"
proof -
  let ?v = "hd drain_fs"
  have facts: "di_pc (vf_instructions ?v ! 0) = 0" "di_pc (vf_instructions ?v ! 1) = 1" "successors (vf_function ?v) (vf_instructions ?v ! 0) = [1]"
      "handlers (vf_function ?v) (vf_instructions ?v ! 1) = [7]" "length (vf_instructions ?v) = 5"
    by code_simp+
  have "reaches ?v drain_sites 1"
    by (rule reaches.flow [of _ _ "vf_instructions ?v ! 0"]) (use facts reaches.entry in \<open>simp_all add: nth_mem\<close>)
  then have "reaches ?v drain_sites (di_pc (vf_instructions ?v ! 1))" using facts(2) by simp
  then show ?thesis by (rule reaches.raised) (use facts(4,5) in \<open>simp_all add: nth_mem\<close>)
qed

lemma drain_head: "hd drain_fs \<in> set drain_fs"
proof -
  have "drain_fs \<noteq> []" by code_simp
  then show ?thesis by simp
qed

text \<open>C9: 
  Control in an accepted function stays on instruction headers. Every program counter that can be reached
  by falling through, branching, switching, raising into a handler or resuming a suspended instruction,
  from the entry on, is the counter of exactly one decoded instruction or the end of the function's words;
  control never lands inside an instruction. A jump, branch or switch always has a target on a header.
\<close>

theorem control_stays_on_headers:
  assumes "validate_code env img = Inr (fs, sites)" "distinct (map fst (bi_functions img))" "v \<in> set fs" "reaches v sites pc"
  shows "((\<exists>!i. i \<in> set (vf_instructions v) \<and> di_pc i = pc) \<or> pc = length (bf_words (vf_function v))) \<and>
    (\<forall>i \<in> set (vf_instructions v). control_roles (oc_control (contract_of i)) \<noteq> [] \<longrightarrow>
       (\<exists>t \<in> set (successors (vf_function v) i). t \<in> set (vf_header_pcs v)))"
proof -
  obtain key where ok: "validate_function env img key (vf_function v) = Inr v"
    using functions_accepted [OF code_accepted(1) [OF assms(1)]] assms(3) by blast
  obtain d where d: "decode_function (bf_words (vf_function v)) = Inr d" "length (bf_words (vf_function v)) < u32_size"
      "vf_header_pcs v = df_header_pcs d" "vf_instructions v = df_instructions d"
    by (rule function_accepted [OF ok])
  have headers: "vf_header_pcs v = map di_pc (vf_instructions v)" using decoded_layout(2) [OF d(1,2)] d(3,4) by simp
  have "distinct (map di_pc (vf_instructions v))" using decoded_layout(3) [OF d(1,2)] d(4) by (simp add: strict_sorted_iff)
  then have "\<exists>!i. i \<in> set (vf_instructions v) \<and> di_pc i = pc" if "pc \<in> set (vf_header_pcs v)"
    using that unfolding headers by (auto intro: same_key)
  then show ?thesis using reaches_boundary [OF assms] instruction_flow(4) [OF ok] by blast
qed

theorem control_stays_on_headers_witness:
  "reaches (hd drain_fs) drain_sites 7 \<and> (\<exists>i. i \<in> set (vf_instructions (hd drain_fs)) \<and> di_pc i = 7)"
proof -
  have "distinct (map fst (bi_functions drain_image))" by (simp add: drain_image_def)
  note stays = control_stays_on_headers [OF drain_accepted this drain_head drain_reaches]
  have "length (bf_words (vf_function (hd drain_fs))) \<noteq> 7" by code_simp
  then have "\<exists>i. i \<in> set (vf_instructions (hd drain_fs)) \<and> di_pc i = 7" using conjunct1 [OF stays] by fastforce
  then show ?thesis using drain_reaches by blast
qed

text \<open>C10: 
  Suspension sites and resume descriptors of an accepted image correspond one to one: every descriptor of
  the pool is bound to exactly one site, every instruction with a resume operand has its site, and a site
  resumes at the header right after its instruction (a stream read also at a second header, when the
  stream ends), with room for its results on the operand stack.
\<close>

theorem resume_sites_bijective:
  assumes "validate_code env img = Inr (fs, sites)"
  shows "distinct (map rs_descriptor_index sites) \<and> set (map rs_descriptor_index sites) = {..<length (bp_resume (bi_pools img))} \<and>
    (\<forall>s \<in> set sites. \<exists>v \<in> set fs. \<exists>i \<in> set (vf_instructions v). site_of (bi_pools img) v i s) \<and>
    (\<forall>v \<in> set fs. \<forall>i \<in> set (vf_instructions v). \<forall>n. word_of i RoleResumeRef = Some n \<longrightarrow>
       (\<exists>s \<in> set sites. site_of (bi_pools img) v i s \<and> rs_descriptor_index s = n))"
  using sites_accepted [OF code_accepted(2) [OF assms]] by blast

theorem resume_sites_bijective_witness:
  "length drain_sites = 1 \<and> map rs_end_resume_pc drain_sites = [Some 7] \<and> set (map rs_descriptor_index drain_sites) = {..<length (bp_resume (bi_pools drain_image))}"
proof -
  have "length drain_sites = 1" "map rs_end_resume_pc drain_sites = [Some 7]" by code_simp+
  then show ?thesis using resume_sites_bijective [OF drain_accepted] by blast
qed

theorem validation_no_panic_witness:
  "\<exists>e. validate_code drain_env (drain_image\<lparr>bi_debug_table := Some [\<lparr>db_function_key = ''drain'', db_pc = 2, db_slot = 0\<rparr>]\<rparr>) = Inl (Rejected e)"
proof -
  let ?img = "drain_image\<lparr>bi_debug_table := Some [\<lparr>db_function_key = ''drain'', db_pc = 2, db_slot = 0\<rparr>]\<rparr>"
  have "isl (validate_code drain_env ?img)" by code_simp
  then show ?thesis
    using validation_no_panic [of ?img drain_env] by (auto simp: drain_env_def isl_def split: sum.splits check.splits)
qed

theorem assemble_decode_roundtrip_witness:
  "\<exists>df. decode_function [16, 0, 37] = Inr df \<and>
     map instruction_code (df_instructions df) = [\<lparr>ei_opcode = 16, ei_operands = [0]\<rparr>, \<lparr>ei_opcode = 37, ei_operands = []\<rparr>]"
proof -
  let ?is = "[\<lparr>ei_opcode = 16, ei_operands = [0]\<rparr>, \<lparr>ei_opcode = 37, ei_operands = []\<rparr>]"
  have "assemble_function ?is = Inr [16, 0, 37] \<and> length ?is \<le> MAX_WORDS_PER_FUNCTION" by code_simp
  from mp [OF conjunct1 [OF assemble_decode_roundtrip] this] show ?thesis by (elim exE conjE) (intro exI conjI)
qed

theorem exception_regions_exact_witness:
  "well_nested (map region_range (bf_exception_regions drain_function)) \<and> bf_exception_regions drain_function \<noteq> []"
proof -
  have "validate_exception_regions drain_function (df_header_pcs drain_decoded) (bi_pools drain_image) = Checked" by code_simp
  then have "well_nested (map region_range (bf_exception_regions drain_function))" unfolding exception_regions_exact by (elim conjE)
  moreover have "bf_exception_regions drain_function \<noteq> []" by (simp add: drain_function_def)
  ultimately show ?thesis by (rule conjI)
qed

lemma drain_lengths: "length (bf_words drain_function) < u32_size" "length (bf_statement_entries drain_function) < u32_size"
  by (simp_all add: drain_function_def u32_size_def)

theorem statement_entries_exact_witness:
  "canonical_entries (bf_statement_entries drain_function) \<and> length (bf_statement_entries drain_function) = 1"
proof -
  have "validate_statement_entries drain_function (df_instructions drain_decoded) = Checked" by code_simp
  then have "canonical_entries (bf_statement_entries drain_function)" unfolding statement_entries_exact [OF drain_decodes drain_lengths] by (elim conjE)
  moreover have "length (bf_statement_entries drain_function) = 1" by (simp add: drain_function_def)
  ultimately show ?thesis by (rule conjI)
qed

theorem source_map_exact_witness:
  "source_covered (bf_source_map drain_function) (df_instructions drain_decoded ! 1) \<and> di_pc (df_instructions drain_decoded ! 1) = 1"
proof -
  have "validate_source_map drain_function drain_decoded = Checked" "di_pc (df_instructions drain_decoded ! 1) = 1" "1 < length (df_instructions drain_decoded)"
    by code_simp+
  then show ?thesis using source_map_exact [OF drain_decodes drain_lengths(1)] nth_mem by blast
qed

end
