(* ===== verification/Stream_Channel.thy ===== *)
theory Stream_Channel
  imports Skiff_Prelude "HOL-Library.Sublist"
begin

text \<open>
  The bounded stream between a producer and a consumer unit (\<open>runtime/scheduler/src/stream.rs\<close>): a buffer of one
  item, one blocked item for backpressure, one waiting consumer and the terminal state, shared by a
  producer, a consumer and a supervisor handle. Every operation is one critical section of the state's lock;
  a wake signal only enqueues work after the lock is released, so a step yields the signals it sends.
  Handles are affine: a call needs the handle, and a drop takes it away.
\<close>

section \<open>State and results\<close>

datatype stream_error = ConsumerPollAlreadyPending | ProducerEmitAlreadyPending | ProducerHasPendingEmit | AlreadyTerminal

datatype ('t, 'e) stream_event = EventItem 't | EventEnd | EventError 'e | EventCancelled

datatype ('t, 'e) stream_poll = PollReady "('t, 'e) stream_event" | PollPending | PollRejected stream_error

datatype 't stream_emit = EmitReady | EmitPending | EmitRejected 't stream_error

datatype 'e stream_terminal = TermOpen | TermEnd | TermError 'e | TermCancelled | TermExhausted

record ('t, 'w) blocked_emit =
  be_item :: 't
  be_wake :: 'w

record ('t, 'e, 'w) stream_state =
  ss_buffer :: "'t list"
  ss_consumer_waiter :: "'w option"
  ss_blocked_emit :: "('t, 'w) blocked_emit option"
  ss_terminal :: "'e stream_terminal"

definition STREAM_BUFFER_CAPACITY :: nat where
  "STREAM_BUFFER_CAPACITY = 1"

definition stream_open :: "('t, 'e, 'w) stream_state" where
  "stream_open = \<lparr>ss_buffer = [], ss_consumer_waiter = None, ss_blocked_emit = None, ss_terminal = TermOpen\<rparr>"

section \<open>Operations\<close>

text \<open>Each operation returns its result, the signal it wakes and the new state.\<close>

definition emit :: "'t \<Rightarrow> 'w \<Rightarrow> ('t, 'e, 'w) stream_state \<Rightarrow> 't stream_emit \<times> 'w option \<times> ('t, 'e, 'w) stream_state" where
  "emit item wake s =
     (if ss_terminal s \<noteq> TermOpen then (EmitRejected item AlreadyTerminal, None, s)
      else if ss_blocked_emit s \<noteq> None then (EmitRejected item ProducerEmitAlreadyPending, None, s)
      else (case ss_consumer_waiter s of
              Some consumer \<Rightarrow> (EmitReady, Some consumer, s\<lparr>ss_consumer_waiter := None, ss_buffer := ss_buffer s @ [item]\<rparr>)
            | None \<Rightarrow>
                if length (ss_buffer s) < STREAM_BUFFER_CAPACITY then (EmitReady, None, s\<lparr>ss_buffer := ss_buffer s @ [item]\<rparr>)
                else (EmitPending, None, s\<lparr>ss_blocked_emit := Some \<lparr>be_item = item, be_wake = wake\<rparr>\<rparr>)))"

definition finish :: "'e stream_terminal \<Rightarrow> ('t, 'e, 'w) stream_state \<Rightarrow> (stream_error + unit) \<times> 'w option \<times> ('t, 'e, 'w) stream_state" where
  "finish terminal s =
     (if ss_blocked_emit s \<noteq> None then (Inl ProducerHasPendingEmit, None, s)
      else if ss_terminal s \<noteq> TermOpen then (Inl AlreadyTerminal, None, s)
      else (Inr (), ss_consumer_waiter s, s\<lparr>ss_terminal := terminal, ss_consumer_waiter := None\<rparr>))"

definition finish_end :: "('t, 'e, 'w) stream_state \<Rightarrow> (stream_error + unit) \<times> 'w option \<times> ('t, 'e, 'w) stream_state" where
  "finish_end s = finish TermEnd s"

definition finish_error :: "'e \<Rightarrow> ('t, 'e, 'w) stream_state \<Rightarrow> (stream_error \<times> 'e + unit) \<times> 'w option \<times> ('t, 'e, 'w) stream_state" where
  "finish_error e s = (case finish (TermError e) s of (r, wake, s') \<Rightarrow> (map_sum (\<lambda>reason. (reason, e)) id r, wake, s'))"

definition refill_from_blocked :: "('t, 'e, 'w) stream_state \<Rightarrow> 'w option \<times> ('t, 'e, 'w) stream_state" where
  "refill_from_blocked s =
     (case ss_blocked_emit s of
        None \<Rightarrow> (None, s)
      | Some b \<Rightarrow> (Some (be_wake b), s\<lparr>ss_blocked_emit := None, ss_buffer := ss_buffer s @ [be_item b]\<rparr>))"

text \<open>What both polls do without a waiter: the event at hand with the producer to wake and whether it is terminal, or nothing.\<close>

definition take_available :: "('t, 'e, 'w) stream_state \<Rightarrow> (('t, 'e) stream_event \<times> 'w option \<times> bool \<times> ('t, 'e, 'w) stream_state) option" where
  "take_available s =
     (case ss_buffer s of
        item # rest \<Rightarrow> (case refill_from_blocked (s\<lparr>ss_buffer := rest\<rparr>) of (wake, s') \<Rightarrow> Some (EventItem item, wake, False, s'))
      | [] \<Rightarrow>
          (case ss_blocked_emit s of
             Some b \<Rightarrow> Some (EventItem (be_item b), Some (be_wake b), False, s\<lparr>ss_blocked_emit := None\<rparr>)
           | None \<Rightarrow>
               (case ss_terminal s of
                  TermOpen \<Rightarrow> None
                | TermEnd \<Rightarrow> Some (EventEnd, None, True, s\<lparr>ss_terminal := TermExhausted\<rparr>)
                | TermExhausted \<Rightarrow> Some (EventEnd, None, True, s\<lparr>ss_terminal := TermExhausted\<rparr>)
                | TermError e \<Rightarrow> Some (EventError e, None, True, s\<lparr>ss_terminal := TermExhausted\<rparr>)
                | TermCancelled \<Rightarrow> Some (EventCancelled, None, True, s\<lparr>ss_terminal := TermExhausted\<rparr>))))"

definition poll_next :: "'w \<Rightarrow> ('t, 'e, 'w) stream_state \<Rightarrow> ('t, 'e) stream_poll \<times> 'w option \<times> bool \<times> ('t, 'e, 'w) stream_state" where
  "poll_next wake s =
     (if ss_consumer_waiter s \<noteq> None then (PollRejected ConsumerPollAlreadyPending, None, False, s)
      else (case take_available s of
              Some (event, producer, terminal, s') \<Rightarrow> (PollReady event, producer, terminal, s')
            | None \<Rightarrow> (PollPending, None, False, s\<lparr>ss_consumer_waiter := Some wake\<rparr>)))"

definition poll_next_ready :: "('t, 'e, 'w) stream_state \<Rightarrow> ('t, 'e) stream_poll option \<times> 'w option \<times> bool \<times> ('t, 'e, 'w) stream_state" where
  "poll_next_ready s =
     (if ss_consumer_waiter s \<noteq> None then (None, None, False, s)
      else (case take_available s of
              Some (event, producer, terminal, s') \<Rightarrow> (Some (PollReady event), producer, terminal, s')
            | None \<Rightarrow> (None, None, False, s)))"

text \<open>Cancelling wakes the consumer, then the producer.\<close>

definition cancel_stream :: "('t, 'e, 'w) stream_state \<Rightarrow> 'w option \<times> 'w option \<times> ('t, 'e, 'w) stream_state" where
  "cancel_stream s =
     (ss_consumer_waiter s, map_option be_wake (ss_blocked_emit s),
      s\<lparr>ss_buffer := [], ss_blocked_emit := None, ss_consumer_waiter := None, ss_terminal := TermCancelled\<rparr>)"

definition stream_roots :: "('t, 'e, 'w) stream_state \<Rightarrow> ('t + 'e) list" where
  "stream_roots s =
     map Inl (ss_buffer s) @ (case ss_blocked_emit s of None \<Rightarrow> [] | Some b \<Rightarrow> [Inl (be_item b)]) @
     (case ss_terminal s of TermError e \<Rightarrow> [Inr e] | _ \<Rightarrow> [])"

definition buffered_len :: "('t, 'e, 'w) stream_state \<Rightarrow> nat" where
  "buffered_len s = length (ss_buffer s)"

definition is_backpressured :: "('t, 'e, 'w) stream_state \<Rightarrow> bool" where
  "is_backpressured s \<longleftrightarrow> ss_blocked_emit s \<noteq> None"

section \<open>Handles and steps\<close>

text \<open>The producer's \<open>terminal_sent\<close> and the consumer's \<open>terminal_seen\<close>; a handle that was dropped is \<open>None\<close>.\<close>

record ('t, 'e, 'w) stream_world =
  sw_state :: "('t, 'e, 'w) stream_state"
  sw_producer :: "bool option"
  sw_consumer :: "bool option"
  sw_supervisor :: bool

definition world_open :: "('t, 'e, 'w) stream_world" where
  "world_open = \<lparr>sw_state = stream_open, sw_producer = Some False, sw_consumer = Some False, sw_supervisor = True\<rparr>"

datatype ('t, 'e, 'w) stream_label =
    DidEmit 't 'w "'t stream_emit" "'w option"
  | DidFinishEnd "stream_error + unit" "'w option"
  | DidFinishError 'e "stream_error \<times> 'e + unit" "'w option"
  | DidPoll 'w "('t, 'e) stream_poll" "'w option"
  | DidPollReady "('t, 'e) stream_poll option" "'w option"
  | DidCancel "'w option" "'w option"
  | DidDrop

inductive stream_step :: "('t, 'e, 'w) stream_world \<Rightarrow> ('t, 'e, 'w) stream_label \<Rightarrow> ('t, 'e, 'w) stream_world \<Rightarrow> bool" where
  step_emit: "sw_producer x = Some sent \<Longrightarrow> emit item w (sw_state x) = (r, woken, s) \<Longrightarrow>
    stream_step x (DidEmit item w r woken) (x\<lparr>sw_state := s\<rparr>)"
| step_finish_end: "sw_producer x = Some sent \<Longrightarrow> finish_end (sw_state x) = (r, woken, s) \<Longrightarrow>
    stream_step x (DidFinishEnd r woken) (x\<lparr>sw_state := s, sw_producer := Some (sent \<or> \<not> isl r)\<rparr>)"
| step_finish_error: "sw_producer x = Some sent \<Longrightarrow> finish_error e (sw_state x) = (r, woken, s) \<Longrightarrow>
    stream_step x (DidFinishError e r woken) (x\<lparr>sw_state := s, sw_producer := Some (sent \<or> \<not> isl r)\<rparr>)"
| step_poll: "sw_consumer x = Some seen \<Longrightarrow> poll_next w (sw_state x) = (r, woken, terminal, s) \<Longrightarrow>
    stream_step x (DidPoll w r woken) (x\<lparr>sw_state := s, sw_consumer := Some (seen \<or> terminal)\<rparr>)"
| step_poll_ready: "sw_consumer x = Some seen \<Longrightarrow> poll_next_ready (sw_state x) = (r, woken, terminal, s) \<Longrightarrow>
    stream_step x (DidPollReady r woken) (x\<lparr>sw_state := s, sw_consumer := Some (seen \<or> terminal)\<rparr>)"
| step_cancel: "sw_consumer x = Some seen \<Longrightarrow> cancel_stream (sw_state x) = (consumer, producer, s) \<Longrightarrow>
    stream_step x (DidCancel consumer producer) (x\<lparr>sw_state := s, sw_consumer := None\<rparr>)"
| step_drop_producer: "sw_producer x = Some False \<Longrightarrow> cancel_stream (sw_state x) = (consumer, producer, s) \<Longrightarrow>
    stream_step x (DidCancel consumer producer) (x\<lparr>sw_state := s, sw_producer := None\<rparr>)"
| step_drop_producer_sent: "sw_producer x = Some True \<Longrightarrow> stream_step x DidDrop (x\<lparr>sw_producer := None\<rparr>)"
| step_drop_consumer: "sw_consumer x = Some False \<Longrightarrow> cancel_stream (sw_state x) = (consumer, producer, s) \<Longrightarrow>
    stream_step x (DidCancel consumer producer) (x\<lparr>sw_state := s, sw_consumer := None\<rparr>)"
| step_drop_consumer_seen: "sw_consumer x = Some True \<Longrightarrow> stream_step x DidDrop (x\<lparr>sw_consumer := None\<rparr>)"
| step_drop_supervisor: "sw_supervisor x \<Longrightarrow> cancel_stream (sw_state x) = (consumer, producer, s) \<Longrightarrow>
    stream_step x (DidCancel consumer producer) (x\<lparr>sw_state := s, sw_supervisor := False\<rparr>)"

inductive stream_run :: "('t, 'e, 'w) stream_label list \<Rightarrow> ('t, 'e, 'w) stream_world \<Rightarrow> bool" where
  run_open: "stream_run [] world_open"
| run_step: "stream_run ls x \<Longrightarrow> stream_step x l y \<Longrightarrow> stream_run (ls @ [l]) y"

section \<open>What a run did\<close>

text \<open>The items a run accepted from the producer and delivered to the consumer, in order.\<close>

fun label_accepted :: "('t, 'e, 'w) stream_label \<Rightarrow> 't list" where
  "label_accepted (DidEmit t w (EmitRejected _ _) _) = []"
| "label_accepted (DidEmit t w _ _) = [t]"
| "label_accepted _ = []"

fun label_event :: "('t, 'e, 'w) stream_label \<Rightarrow> ('t, 'e) stream_event option" where
  "label_event (DidPoll _ (PollReady ev) _) = Some ev"
| "label_event (DidPollReady (Some (PollReady ev)) _) = Some ev"
| "label_event _ = None"

definition label_delivered :: "('t, 'e, 'w) stream_label \<Rightarrow> 't list" where
  "label_delivered l = (case label_event l of Some (EventItem t) \<Rightarrow> [t] | _ \<Rightarrow> [])"

definition accepted :: "('t, 'e, 'w) stream_label list \<Rightarrow> 't list" where
  "accepted ls = concat (map label_accepted ls)"

definition delivered :: "('t, 'e, 'w) stream_label list \<Rightarrow> 't list" where
  "delivered ls = concat (map label_delivered ls)"

definition stream_cancelled :: "('t, 'e, 'w) stream_label list \<Rightarrow> bool" where
  "stream_cancelled ls \<longleftrightarrow> (\<exists>l \<in> set ls. case l of DidCancel _ _ \<Rightarrow> True | _ \<Rightarrow> False)"

text \<open>Whether the consumer has seen a terminal event: an end, an error or a cancellation.\<close>

definition terminal_delivered :: "('t, 'e, 'w) stream_label list \<Rightarrow> bool" where
  "terminal_delivered ls \<longleftrightarrow>
     (\<exists>l \<in> set ls. case label_event l of None \<Rightarrow> False | Some (EventItem _) \<Rightarrow> False | Some _ \<Rightarrow> True)"

text \<open>The wake signals a run parked and the ones it fired, for each side.\<close>

fun parked_consumer :: "('t, 'e, 'w) stream_label \<Rightarrow> 'w list" where
  "parked_consumer (DidPoll w PollPending _) = [w]"
| "parked_consumer _ = []"

fun parked_producer :: "('t, 'e, 'w) stream_label \<Rightarrow> 'w list" where
  "parked_producer (DidEmit _ w EmitPending _) = [w]"
| "parked_producer _ = []"

fun woken_consumer :: "('t, 'e, 'w) stream_label \<Rightarrow> 'w option" where
  "woken_consumer (DidEmit _ _ _ woken) = woken"
| "woken_consumer (DidFinishEnd _ woken) = woken"
| "woken_consumer (DidFinishError _ _ woken) = woken"
| "woken_consumer (DidCancel consumer _) = consumer"
| "woken_consumer _ = None"

fun woken_producer :: "('t, 'e, 'w) stream_label \<Rightarrow> 'w option" where
  "woken_producer (DidPoll _ _ woken) = woken"
| "woken_producer (DidPollReady _ woken) = woken"
| "woken_producer (DidCancel _ producer) = producer"
| "woken_producer _ = None"

text \<open>The items the stream still owns, oldest first.\<close>

definition pending_items :: "('t, 'e, 'w) stream_state \<Rightarrow> 't list" where
  "pending_items s = ss_buffer s @ (case ss_blocked_emit s of None \<Rightarrow> [] | Some b \<Rightarrow> [be_item b])"

fun option_list :: "'a option \<Rightarrow> 'a list" where
  "option_list None = []"
| "option_list (Some x) = [x]"

section \<open>Invariant\<close>

text \<open>
  The buffer holds at most one item; an item is blocked only behind a full buffer of an open stream; a
  consumer waits only when nothing at all is available.
\<close>

definition stream_inv :: "('t, 'e, 'w) stream_state \<Rightarrow> bool" where
  "stream_inv s \<longleftrightarrow>
     length (ss_buffer s) \<le> STREAM_BUFFER_CAPACITY \<and>
     (ss_blocked_emit s \<noteq> None \<longrightarrow> length (ss_buffer s) = STREAM_BUFFER_CAPACITY \<and> ss_terminal s = TermOpen) \<and>
     (ss_consumer_waiter s \<noteq> None \<longrightarrow> pending_items s = [] \<and> ss_terminal s = TermOpen)"

definition drained :: "('t, 'e, 'w) stream_state \<Rightarrow> bool" where
  "drained s \<longleftrightarrow> pending_items s = [] \<and> ss_terminal s \<in> {TermCancelled, TermExhausted}"

text \<open>
  How one step changes the stream and what it records: the invariant is kept, items move through the queue,
  each signal is parked or fired, and nothing leaves the terminal states.
\<close>

definition step_ok :: "('t, 'e, 'w) stream_state \<Rightarrow> ('t, 'e, 'w) stream_label \<Rightarrow> ('t, 'e, 'w) stream_state \<Rightarrow> bool" where
  "step_ok s l s' \<longleftrightarrow>
     stream_inv s' \<and>
     (if stream_cancelled [l] then label_accepted l = [] \<and> label_delivered l = [] \<and> pending_items s' = [] \<and> ss_terminal s' = TermCancelled
      else pending_items s @ label_accepted l = label_delivered l @ pending_items s' \<and>
           (ss_terminal s \<noteq> TermOpen \<longrightarrow> label_accepted l = [] \<and> ss_terminal s' \<noteq> TermOpen)) \<and>
     (terminal_delivered [l] \<or> drained s \<longrightarrow> drained s') \<and>
     option_list (ss_consumer_waiter s) @ parked_consumer l = option_list (woken_consumer l) @ option_list (ss_consumer_waiter s') \<and>
     option_list (map_option be_wake (ss_blocked_emit s)) @ parked_producer l =
       option_list (woken_producer l) @ option_list (map_option be_wake (ss_blocked_emit s'))"

lemmas stream_defs = stream_inv_def pending_items_def drained_def step_ok_def stream_cancelled_def terminal_delivered_def
  label_delivered_def STREAM_BUFFER_CAPACITY_def

lemma emit_ok:
  assumes "stream_inv s" "emit item w s = (r, woken, s')"
  shows "step_ok s (DidEmit item w r woken) s'"
  using assms unfolding emit_def
  by (auto simp: stream_defs le_Suc_eq split: if_splits option.splits)

lemma finish_ok:
  assumes "stream_inv s" "finish t s = (r, woken, s')" "t \<noteq> TermOpen"
  shows "step_ok s (DidFinishEnd r' woken) s'"
  using assms unfolding finish_def
  by (auto simp: stream_defs split: if_splits option.splits)

lemma finish_end_ok:
  assumes "stream_inv s" "finish_end s = (r, woken, s')"
  shows "step_ok s (DidFinishEnd r woken) s'"
  using finish_ok [OF assms(1), of TermEnd] assms(2) by (simp add: finish_end_def)

lemma finish_error_ok:
  assumes "stream_inv s" "finish_error e s = (r, woken, s')"
  shows "step_ok s (DidFinishError e r woken) s'"
proof -
  obtain q where "finish (TermError e) s = (q, woken, s')"
    using assms(2) by (auto simp: finish_error_def split: prod.splits)
  from finish_ok [OF assms(1) this] show ?thesis
    by (simp add: step_ok_def stream_cancelled_def terminal_delivered_def label_delivered_def)
qed

lemma take_available_ok:
  assumes "stream_inv s" "ss_consumer_waiter s = None" "take_available s = Some (ev, producer, terminal, s')"
  shows "step_ok s (DidPoll w (PollReady ev) producer) s'"
  using assms unfolding take_available_def refill_from_blocked_def
  by (auto simp: stream_defs split: list.splits option.splits stream_terminal.splits prod.splits)

lemma poll_next_ok:
  assumes "stream_inv s" "poll_next w s = (r, woken, terminal, s')"
  shows "step_ok s (DidPoll w r woken) s'"
proof (cases "ss_consumer_waiter s = None \<and> take_available s \<noteq> None")
  case True
  then show ?thesis
    using assms take_available_ok [OF assms(1)] by (auto simp: poll_next_def split: prod.splits)
next
  case False
  then show ?thesis
    using assms
    by (auto simp: poll_next_def take_available_def refill_from_blocked_def stream_defs
        split: if_splits list.splits option.splits stream_terminal.splits)
qed

lemma poll_next_ready_ok:
  assumes "stream_inv s" "poll_next_ready s = (r, woken, terminal, s')"
  shows "step_ok s (DidPollReady r woken) s'"
proof (cases "ss_consumer_waiter s = None \<and> take_available s \<noteq> None")
  case True
  then obtain ev where take: "take_available s = Some (ev, woken, terminal, s')" and r: "r = Some (PollReady ev)"
    using assms(2) by (auto simp: poll_next_ready_def)
  have "step_ok s (DidPoll w (PollReady ev) woken) s'" for w
    using take_available_ok [OF assms(1) _ take] True by simp
  then show ?thesis
    unfolding r by (simp add: step_ok_def stream_cancelled_def terminal_delivered_def label_delivered_def)
next
  case False
  then have "r = None \<and> woken = None \<and> s' = s"
    using assms(2) by (cases "take_available s") (auto simp: poll_next_ready_def split: if_splits)
  then show ?thesis
    using assms(1) by (simp add: stream_defs)
qed

lemma cancel_stream_ok:
  assumes "cancel_stream s = (consumer, producer, s')"
  shows "step_ok s (DidCancel consumer producer) s'"
  using assms by (auto simp: cancel_stream_def stream_defs split: option.splits)

lemma stream_step_ok:
  assumes "stream_step x l y" "stream_inv (sw_state x)"
  shows "step_ok (sw_state x) l (sw_state y)"
  using assms
proof (induction rule: stream_step.induct)
  case (step_drop_producer_sent x)
  then show ?case by (simp add: stream_defs)
next
  case (step_drop_consumer_seen x)
  then show ?case by (simp add: stream_defs)
qed (auto intro: emit_ok finish_end_ok finish_error_ok poll_next_ok poll_next_ready_ok cancel_stream_ok)

section \<open>Properties of runs\<close>

lemma run_view_append [simp]:
  "accepted (ls @ [l]) = accepted ls @ label_accepted l"
  "delivered (ls @ [l]) = delivered ls @ label_delivered l"
  "stream_cancelled (ls @ [l]) \<longleftrightarrow> stream_cancelled ls \<or> stream_cancelled [l]"
  "terminal_delivered (ls @ [l]) \<longleftrightarrow> terminal_delivered ls \<or> terminal_delivered [l]"
  by (auto simp: accepted_def delivered_def stream_cancelled_def terminal_delivered_def)

lemma stream_run_inv: "stream_run ls x \<Longrightarrow> stream_inv (sw_state x)"
proof (induction rule: stream_run.induct)
  case run_open
  show ?case by (simp add: world_open_def stream_open_def stream_defs)
next
  case (run_step ls x l y)
  show ?case using stream_step_ok [OF run_step(2,3)] by (simp add: step_ok_def)
qed

lemmas run_step_ok = stream_step_ok [OF _ stream_run_inv]

lemma run_queue:
  "stream_run ls x \<Longrightarrow>
     (if stream_cancelled ls then ss_terminal (sw_state x) \<noteq> TermOpen \<and> prefix (delivered ls @ pending_items (sw_state x)) (accepted ls)
      else accepted ls = delivered ls @ pending_items (sw_state x)) \<and>
     (terminal_delivered ls \<longrightarrow> drained (sw_state x))"
proof (induction rule: stream_run.induct)
  case run_open
  show ?case by (simp add: world_open_def stream_open_def stream_defs accepted_def delivered_def)
next
  case (run_step ls x l y)
  have ok: "step_ok (sw_state x) l (sw_state y)" by (rule run_step_ok [OF run_step(2,1)])
  have drain: "terminal_delivered (ls @ [l]) \<longrightarrow> drained (sw_state y)"
    using ok run_step.IH by (auto simp: step_ok_def)
  show ?case
  proof (cases "stream_cancelled [l]")
    case True
    then have "label_accepted l = []" "label_delivered l = []" "pending_items (sw_state y) = []" "ss_terminal (sw_state y) = TermCancelled"
      using ok by (simp_all add: step_ok_def)
    moreover have "prefix (delivered ls) (accepted ls)"
      using run_step.IH by (auto split: if_splits dest: append_prefixD)
    ultimately show ?thesis using True drain by simp
  next
    case False
    then have moved: "pending_items (sw_state x) @ label_accepted l = label_delivered l @ pending_items (sw_state y)"
      and closed: "ss_terminal (sw_state x) \<noteq> TermOpen \<longrightarrow> label_accepted l = [] \<and> ss_terminal (sw_state y) \<noteq> TermOpen"
      using ok by (simp_all add: step_ok_def)
    show ?thesis
    proof (cases "stream_cancelled ls")
      case True
      then have "label_accepted l = []" "ss_terminal (sw_state y) \<noteq> TermOpen"
        using run_step.IH closed by simp_all
      then show ?thesis using run_step.IH moved drain True by simp
    next
      case open_: False
      have "accepted ls @ label_accepted l = delivered ls @ label_delivered l @ pending_items (sw_state y)"
        using run_step.IH moved open_ by simp
      then show ?thesis using drain open_ False by simp
    qed
  qed
qed

text \<open>C33: 
  Items reach the consumer in the order the producer emitted them. In every history of calls on the three
  handles the delivered items are a prefix of the accepted ones; as long as nobody cancelled, the rest is
  exactly what the stream still holds, so nothing is lost, duplicated or reordered, and once the consumer saw
  a terminal event it has received every accepted item.
\<close>

theorem stream_fifo_exact:
  assumes "stream_run ls x"
  shows "prefix (delivered ls) (accepted ls) \<and>
    (\<not> stream_cancelled ls \<longrightarrow> accepted ls = delivered ls @ pending_items (sw_state x)) \<and>
    (\<not> stream_cancelled ls \<and> terminal_delivered ls \<longrightarrow> delivered ls = accepted ls)"
proof -
  note q = run_queue [OF assms]
  have "prefix (delivered ls) (accepted ls)"
    using q by (auto split: if_splits dest: append_prefixD)
  moreover have "terminal_delivered ls \<longrightarrow> pending_items (sw_state x) = []"
    using q by (simp add: drained_def)
  ultimately show ?thesis using q by auto
qed

text \<open>C34: 
  No wake signal is lost or fired twice. The consumer signals that were parked are the ones fired so far, in
  order, followed by the one still waiting; likewise for the producer. A consumer waits only while the stream
  is open and holds nothing, a producer only behind a full buffer of an open stream, and the stream never
  holds more than one buffered and one blocked item.
\<close>

theorem stream_wakes_exact:
  assumes "stream_run ls x"
  shows "concat (map parked_consumer ls) =
           concat (map (option_list \<circ> woken_consumer) ls) @ option_list (ss_consumer_waiter (sw_state x)) \<and>
    concat (map parked_producer ls) =
           concat (map (option_list \<circ> woken_producer) ls) @ option_list (map_option be_wake (ss_blocked_emit (sw_state x))) \<and>
    stream_inv (sw_state x)"
  using assms
proof (induction rule: stream_run.induct)
  case run_open
  show ?case by (simp add: world_open_def stream_open_def stream_defs)
next
  case (run_step ls x l y)
  show ?case using run_step.IH run_step_ok [OF run_step(2,1)] by (simp add: step_ok_def)
qed

section \<open>A run\<close>

text \<open>
  A consumer waits, the producer's first item wakes it, the second blocks behind it, and a poll delivers the
  first, moves the second into the buffer and wakes the producer.
\<close>

definition demo_waiting :: "(nat, nat, nat) stream_world" where
  "demo_waiting = world_open\<lparr>sw_state := stream_open\<lparr>ss_consumer_waiter := Some 7\<rparr>\<rparr>"

definition demo_item :: "nat \<Rightarrow> (nat, nat, nat) stream_world" where
  "demo_item t = world_open\<lparr>sw_state := stream_open\<lparr>ss_buffer := [t]\<rparr>\<rparr>"

definition demo_blocked :: "(nat, nat, nat) stream_world" where
  "demo_blocked = world_open\<lparr>sw_state := stream_open\<lparr>ss_buffer := [11], ss_blocked_emit := Some \<lparr>be_item = 12, be_wake = 9\<rparr>\<rparr>\<rparr>"

definition demo_trace :: "(nat, nat, nat) stream_label list" where
  "demo_trace = [DidPoll 7 PollPending None, DidEmit 11 8 EmitReady (Some 7), DidEmit 12 9 EmitPending None,
     DidPoll 7 (PollReady (EventItem 11)) (Some 9)]"

lemmas stream_demo_defs = demo_waiting_def demo_item_def demo_blocked_def world_open_def stream_open_def

lemma demo_step_wait: "stream_step world_open (DidPoll 7 PollPending None) demo_waiting"
  using step_poll [where x = "world_open :: (nat, nat, nat) stream_world" and seen = False and w = 7 and terminal = False] by (simp add: stream_demo_defs poll_next_def take_available_def)

lemma demo_step_emit: "stream_step demo_waiting (DidEmit 11 8 EmitReady (Some 7)) (demo_item 11)"
  using step_emit [of demo_waiting False 11 8] by (simp add: stream_demo_defs emit_def)

lemma demo_step_block: "stream_step (demo_item 11) (DidEmit 12 9 EmitPending None) demo_blocked"
  using step_emit [of "demo_item 11" False 12 9] by (simp add: stream_demo_defs emit_def STREAM_BUFFER_CAPACITY_def)

lemma demo_step_poll: "stream_step demo_blocked (DidPoll 7 (PollReady (EventItem 11)) (Some 9)) (demo_item 12)"
  using step_poll [where x = demo_blocked and seen = False and w = 7 and terminal = False] by (simp add: stream_demo_defs poll_next_def take_available_def refill_from_blocked_def)

lemma demo_stream_run: "stream_run demo_trace (demo_item 12)"
  using run_step [OF run_step [OF run_step [OF run_step [OF run_open demo_step_wait] demo_step_emit] demo_step_block] demo_step_poll]
  by (simp add: demo_trace_def)

theorem stream_fifo_exact_witness:
  "stream_run demo_trace (demo_item 12) \<and> delivered demo_trace = [11] \<and> accepted demo_trace = [11, 12] \<and>
   accepted demo_trace = delivered demo_trace @ pending_items (sw_state (demo_item 12))"
proof -
  have "\<not> stream_cancelled demo_trace" by (simp add: stream_cancelled_def demo_trace_def)
  then show ?thesis
    using stream_fifo_exact [OF demo_stream_run] demo_stream_run
    by (simp add: delivered_def accepted_def label_delivered_def demo_trace_def)
qed

theorem stream_wakes_exact_witness:
  "stream_run demo_trace (demo_item 12) \<and> concat (map parked_consumer demo_trace) = [7] \<and>
   concat (map (option_list \<circ> woken_producer) demo_trace) = [9] \<and> stream_inv (sw_state (demo_item 12))"
  using stream_wakes_exact [OF demo_stream_run] demo_stream_run by (simp add: demo_trace_def)

end
