(* ===== verification/Router_Session.thy ===== *)
theory Router_Session
  imports Skiff_Prelude "HOL-Library.AList" "HOL-Library.Product_Lexorder" "HOL-Library.Code_Target_Nat"
begin

text \<open>
  The router's session owners (\<open>router/src/session\<close>): session identities (\<open>identity.rs\<close>), the consumer manifest
  (\<open>consumer.rs\<close>), the handshake state machine (\<open>handshake.rs\<close>), the pool of connections before registration
  (\<open>pre_auth.rs\<close>), the budget of the outbound queue (\<open>budget.rs\<close>), and the registration directory
  (\<open>directory.rs\<close>) with the facts the session layer keeps beside it (\<open>layer.rs\<close>). A \<open>HashMap\<close> is an association
  list: the code reads it by key, counts it or sorts what it collects.

  Two debug assertions are left out, that the directory is not changed after a fail stop and that a handshake
  sets one terminal: release builds do not check them, and the model gives what the code then does.
\<close>

section \<open>Identities and consumers\<close>

record runtime_session_epoch =
  replica_id :: string
  connection_generation :: u64

datatype consumer_kind = AdmissionPool | HealthLedger | RequestDispatcherConsumer | WebSocketRequestBroker | ActorSessionOwner

definition consumer_kinds :: "consumer_kind list" where
  "consumer_kinds = [AdmissionPool, HealthLedger, RequestDispatcherConsumer, WebSocketRequestBroker, ActorSessionOwner]"

type_synonym consumer_manifest = "consumer_kind set"

definition default_installed :: consumer_manifest where
  "default_installed = {HealthLedger}"

section \<open>Handshake\<close>

datatype handshake_phase = PhaseAccepted | PhaseBootstrapSent | PhaseCapabilitiesBound | PhaseRegistered | PhaseClosed

datatype terminal_kind = WrongOrder | IdentityChange | BootstrapWriteFail | AckLoss | BootstrapTimeout | CapabilitiesTimeout
  | TermDisconnect | PreAuthLimitRejected | MalformedFrame | UnimplementedFamily | IngressBudgetExceeded
  | OutboundBudgetExceeded | RegistrationRefused

datatype capabilities_event = CapBound | CapRefreshed | CapTerminal terminal_kind

datatype health_event = HealthObserved | HealthTerminal terminal_kind

datatype timeout_kind = BootstrapDeadline | CapabilitiesDeadline

record handshake_state =
  hs_phase :: handshake_phase
  hs_terminal :: "terminal_kind option"
  hs_replica :: "string option"

definition handshake_new :: handshake_state where
  "handshake_new = \<lparr>hs_phase = PhaseAccepted, hs_terminal = None, hs_replica = None\<rparr>"

definition set_terminal :: "terminal_kind \<Rightarrow> handshake_state \<Rightarrow> handshake_state" where
  "set_terminal kind h = h\<lparr>hs_terminal := Some kind, hs_phase := PhaseClosed\<rparr>"

definition on_bootstrap_written :: "handshake_state \<Rightarrow> (terminal_kind + unit) \<times> handshake_state" where
  "on_bootstrap_written h =
     (if hs_phase h \<noteq> PhaseAccepted then (Inl WrongOrder, h) else (Inr (), h\<lparr>hs_phase := PhaseBootstrapSent\<rparr>))"

definition on_bootstrap_write_failed :: "handshake_state \<Rightarrow> terminal_kind \<times> handshake_state" where
  "on_bootstrap_write_failed h = (BootstrapWriteFail, set_terminal BootstrapWriteFail h)"

definition on_capabilities :: "string \<Rightarrow> handshake_state \<Rightarrow> capabilities_event \<times> handshake_state" where
  "on_capabilities runtime_id h =
     (case hs_phase h of
        PhaseAccepted \<Rightarrow> (CapTerminal WrongOrder, set_terminal WrongOrder h)
      | PhaseBootstrapSent \<Rightarrow> (CapBound, h\<lparr>hs_replica := Some runtime_id, hs_phase := PhaseCapabilitiesBound\<rparr>)
      | PhaseClosed \<Rightarrow> (CapTerminal WrongOrder, set_terminal WrongOrder h)
      | _ \<Rightarrow>
          if hs_replica h = Some runtime_id then (CapRefreshed, h)
          else (CapTerminal IdentityChange, set_terminal IdentityChange h))"

definition on_health :: "string \<Rightarrow> handshake_state \<Rightarrow> health_event \<times> handshake_state" where
  "on_health runtime_id h =
     (case hs_phase h of
        PhaseRegistered \<Rightarrow>
          if hs_replica h \<noteq> Some runtime_id then (HealthTerminal IdentityChange, set_terminal IdentityChange h)
          else (HealthObserved, h)
      | _ \<Rightarrow> (HealthTerminal WrongOrder, set_terminal WrongOrder h))"

definition on_ack_written :: "handshake_state \<Rightarrow> (terminal_kind + unit) \<times> handshake_state" where
  "on_ack_written h =
     (case hs_phase h of
        PhaseCapabilitiesBound \<Rightarrow> (Inr (), h\<lparr>hs_phase := PhaseRegistered\<rparr>)
      | PhaseRegistered \<Rightarrow> (Inr (), h)
      | _ \<Rightarrow> (Inl WrongOrder, h))"

definition on_ack_write_failed :: "handshake_state \<Rightarrow> terminal_kind \<times> handshake_state" where
  "on_ack_write_failed h = (AckLoss, set_terminal AckLoss h)"

definition on_timeout :: "timeout_kind \<Rightarrow> handshake_state \<Rightarrow> terminal_kind \<times> handshake_state" where
  "on_timeout kind h =
     (let terminal =
        (case (kind, hs_phase h) of
           (BootstrapDeadline, PhaseAccepted) \<Rightarrow> BootstrapTimeout
         | (CapabilitiesDeadline, PhaseBootstrapSent) \<Rightarrow> CapabilitiesTimeout
         | _ \<Rightarrow> TermDisconnect)
      in (terminal, set_terminal terminal h))"

definition on_disconnect :: "handshake_state \<Rightarrow> terminal_kind \<times> handshake_state" where
  "on_disconnect h = (TermDisconnect, set_terminal TermDisconnect h)"

definition terminal_with :: "terminal_kind \<Rightarrow> handshake_state \<Rightarrow> terminal_kind \<times> handshake_state" where
  "terminal_with kind h = (kind, set_terminal kind h)"

text \<open>The calls a session task makes, with their answers.\<close>

datatype handshake_call =
    CallBootstrapWritten "terminal_kind + unit"
  | CallCapabilities string capabilities_event
  | CallHealth string health_event
  | CallAckWritten "terminal_kind + unit"
  | CallTerminal terminal_kind

inductive handshake_step :: "handshake_state \<Rightarrow> handshake_call \<Rightarrow> handshake_state \<Rightarrow> bool" where
  hs_bootstrap_written: "on_bootstrap_written h = (r, h') \<Longrightarrow> handshake_step h (CallBootstrapWritten r) h'"
| hs_bootstrap_failed: "on_bootstrap_write_failed h = (k, h') \<Longrightarrow> handshake_step h (CallTerminal k) h'"
| hs_capabilities: "on_capabilities rid h = (e, h') \<Longrightarrow> handshake_step h (CallCapabilities rid e) h'"
| hs_health: "on_health rid h = (e, h') \<Longrightarrow> handshake_step h (CallHealth rid e) h'"
| hs_ack_written: "on_ack_written h = (r, h') \<Longrightarrow> handshake_step h (CallAckWritten r) h'"
| hs_ack_failed: "on_ack_write_failed h = (k, h') \<Longrightarrow> handshake_step h (CallTerminal k) h'"
| hs_timeout: "on_timeout t h = (k, h') \<Longrightarrow> handshake_step h (CallTerminal k) h'"
| hs_disconnect: "on_disconnect h = (k, h') \<Longrightarrow> handshake_step h (CallTerminal k) h'"
| hs_terminal_with: "terminal_with k h = (k, h') \<Longrightarrow> handshake_step h (CallTerminal k) h'"

inductive handshake_run :: "handshake_call list \<Rightarrow> handshake_state \<Rightarrow> bool" where
  hs_new: "handshake_run [] handshake_new"
| hs_step: "handshake_run cs h \<Longrightarrow> handshake_step h c h' \<Longrightarrow> handshake_run (cs @ [c]) h'"

section \<open>Connections before registration\<close>

record pre_auth_pool =
  pa_limit :: usize
  pa_occupied :: "string set"
  pa_refused :: u64

definition pre_auth_new :: "usize \<Rightarrow> pre_auth_pool" where
  "pre_auth_new limit = \<lparr>pa_limit = limit, pa_occupied = {}, pa_refused = 0\<rparr>"

definition pa_try_acquire :: "string \<Rightarrow> pre_auth_pool \<Rightarrow> bool \<times> pre_auth_pool" where
  "pa_try_acquire cid p =
     (if pa_limit p \<le> card (pa_occupied p) then (False, p\<lparr>pa_refused := inc_u64 (pa_refused p)\<rparr>)
      else (cid \<notin> pa_occupied p, p\<lparr>pa_occupied := insert cid (pa_occupied p)\<rparr>))"

definition pa_release :: "string \<Rightarrow> pre_auth_pool \<Rightarrow> pre_auth_pool" where
  "pa_release cid p = p\<lparr>pa_occupied := pa_occupied p - {cid}\<rparr>"

section \<open>Outbound budget\<close>

text \<open>
  The channel holds the frames the writer has not taken yet; the counters hold the frames it has not marked as
  written. Once the writer has gone, the channel refuses a send.
\<close>

record session_budgets =
  sb_outbound_frames :: usize
  sb_outbound_bytes :: usize

definition default_budgets :: session_budgets where
  "default_budgets = \<lparr>sb_outbound_frames = 256, sb_outbound_bytes = 4 * 1024 * 1024\<rparr>"

datatype outbound_frame_id = FrameBootstrap | FrameRegisteredAck | FrameClose | FrameBusiness

record queued_frame =
  qf_id :: outbound_frame_id
  qf_bytes :: "nat list"

record outbound_queue =
  oq_budgets :: session_budgets
  oq_frames :: usize
  oq_bytes :: usize
  oq_channel :: "queued_frame list"
  oq_writer_alive :: bool

definition outbound_new :: "session_budgets \<Rightarrow> outbound_queue" where
  "outbound_new b = \<lparr>oq_budgets = b, oq_frames = 0, oq_bytes = 0, oq_channel = [], oq_writer_alive = True\<rparr>"

definition oq_try_send :: "outbound_frame_id \<Rightarrow> nat list \<Rightarrow> outbound_queue \<Rightarrow> (outbound_frame_id + unit) \<times> outbound_queue" where
  "oq_try_send fid bytes q =
     (if oq_frames q + 1 > sb_outbound_frames (oq_budgets q) \<or> oq_bytes q + length bytes > sb_outbound_bytes (oq_budgets q) then (Inl fid, q)
      else if \<not> oq_writer_alive q \<or> max 1 (sb_outbound_frames (oq_budgets q)) \<le> length (oq_channel q) then (Inl fid, q)
      else (Inr (), q\<lparr>oq_channel := oq_channel q @ [\<lparr>qf_id = fid, qf_bytes = bytes\<rparr>],
                      oq_frames := oq_frames q + 1, oq_bytes := oq_bytes q + length bytes\<rparr>))"

definition oq_mark_written :: "usize \<Rightarrow> outbound_queue \<Rightarrow> outbound_queue" where
  "oq_mark_written frame_bytes q = q\<lparr>oq_frames := oq_frames q - 1, oq_bytes := oq_bytes q - frame_bytes\<rparr>"

text \<open>The writer task takes a frame, writes it, and marks it as written before it takes the next.\<close>

definition oq_recv :: "outbound_queue \<Rightarrow> (queued_frame \<times> outbound_queue) option" where
  "oq_recv q = (case oq_channel q of [] \<Rightarrow> None | f # fs \<Rightarrow> Some (f, q\<lparr>oq_channel := fs\<rparr>))"

section \<open>Registration directory\<close>

record registration_facts =
  rf_registered_build_ids :: "string list"
  rf_lazy_load :: bool
  rf_artifact_root :: "string option"

definition default_facts :: registration_facts where
  "default_facts = \<lparr>rf_registered_build_ids = [], rf_lazy_load = False, rf_artifact_root = None\<rparr>"

record session_record =
  sr_revision :: u64
  sr_routable :: bool
  sr_cancelled :: bool
  sr_permits :: "consumer_kind list"
  sr_barrier_acked :: "consumer_kind set"
  sr_facts :: registration_facts

definition session_record_new :: "u64 \<Rightarrow> consumer_kind list \<Rightarrow> session_record" where
  "session_record_new revision permits =
     \<lparr>sr_revision = revision, sr_routable = False, sr_cancelled = False, sr_permits = permits,
      sr_barrier_acked = {}, sr_facts = default_facts\<rparr>"

definition barrier_complete :: "session_record \<Rightarrow> bool" where
  "barrier_complete r \<longleftrightarrow> list_all (\<lambda>c. c \<in> sr_barrier_acked r) (sr_permits r)"

record publish_pending =
  pp_revision :: u64
  pp_cancelled_old :: "runtime_session_epoch option"

datatype publish_error = PermitUnavailable | DuplicateSession

record close_start =
  cs_permits :: "consumer_kind list"
  cs_routable :: bool

datatype close_progress = CloseComplete | ClosePending usize usize

type_synonym ('k, 'v) hash_map = "('k \<times> 'v) list"

record directory =
  rd_current_by_replica :: "(string, runtime_session_epoch) hash_map"
  rd_sessions :: "(runtime_session_epoch, session_record) hash_map"
  rd_next_revision :: u64
  rd_installed_consumers :: "consumer_kind set"
  rd_fail_stop :: bool

definition dir_current :: "directory \<Rightarrow> string \<Rightarrow> runtime_session_epoch option" where
  "dir_current d r = map_of (rd_current_by_replica d) r"

text \<open>\<open>record\<close> of the source.\<close>

definition dir_record :: "directory \<Rightarrow> runtime_session_epoch \<Rightarrow> session_record option" where
  "dir_record d e = map_of (rd_sessions d) e"

definition dir_new :: "consumer_manifest \<Rightarrow> directory" where
  "dir_new manifest =
     \<lparr>rd_current_by_replica = [], rd_sessions = [], rd_next_revision = 0, rd_installed_consumers = manifest, rd_fail_stop = False\<rparr>"

text \<open>An update of the record at a key that is present (\<open>get_mut\<close>).\<close>

definition modify_record :: "runtime_session_epoch \<Rightarrow> (session_record \<Rightarrow> session_record) \<Rightarrow> directory \<Rightarrow> directory" where
  "modify_record e f d =
     (case dir_record d e of None \<Rightarrow> d | Some r \<Rightarrow> d\<lparr>rd_sessions := AList.update e (f r) (rd_sessions d)\<rparr>)"

definition dir_publish_pending ::
  "runtime_session_epoch \<Rightarrow> consumer_kind list \<Rightarrow> directory \<Rightarrow> (publish_error + publish_pending) \<times> directory" where
  "dir_publish_pending e permits d =
     (if \<not> list_all (\<lambda>c. c \<in> rd_installed_consumers d) permits then (Inl PermitUnavailable, d)
      else if dir_record d e \<noteq> None then (Inl DuplicateSession, d)
      else
        let cancelled_old = (case dir_current d (replica_id e) of Some old \<Rightarrow> if old \<noteq> e then Some old else None | None \<Rightarrow> None);
            d1 = (case cancelled_old of Some old \<Rightarrow> modify_record old (\<lambda>r. r\<lparr>sr_cancelled := True\<rparr>) d | None \<Rightarrow> d);
            revision = inc_u64 (rd_next_revision d1)
        in (Inr \<lparr>pp_revision = revision, pp_cancelled_old = cancelled_old\<rparr>,
            d1\<lparr>rd_next_revision := revision,
               rd_sessions := AList.update e (session_record_new revision permits) (rd_sessions d1),
               rd_current_by_replica := AList.update (replica_id e) e (rd_current_by_replica d1)\<rparr>))"

definition dir_mark_registered :: "runtime_session_epoch \<Rightarrow> directory \<Rightarrow> bool \<times> directory" where
  "dir_mark_registered e d =
     (case dir_record d e of
        None \<Rightarrow> (False, d)
      | Some r \<Rightarrow> if sr_cancelled r then (False, d) else (True, modify_record e (\<lambda>r. r\<lparr>sr_routable := True\<rparr>) d))"

definition dir_begin_close :: "runtime_session_epoch \<Rightarrow> directory \<Rightarrow> close_start option \<times> directory" where
  "dir_begin_close e d =
     (case dir_record d e of
        None \<Rightarrow> (None, d)
      | Some r \<Rightarrow> (Some \<lparr>cs_permits = sr_permits r, cs_routable = sr_routable r\<rparr>, modify_record e (\<lambda>r. r\<lparr>sr_cancelled := True\<rparr>) d))"

definition dir_ack_close :: "runtime_session_epoch \<Rightarrow> consumer_kind \<Rightarrow> directory \<Rightarrow> close_progress \<times> directory" where
  "dir_ack_close e consumer d =
     (case dir_record d e of
        None \<Rightarrow> (CloseComplete, d)
      | Some r \<Rightarrow>
          let r' = r\<lparr>sr_barrier_acked := insert consumer (sr_barrier_acked r)\<rparr>;
              d1 = modify_record e (\<lambda>_. r') d
          in if \<not> barrier_complete r' then (ClosePending (card (sr_barrier_acked r')) (length (sr_permits r')), d1)
             else (CloseComplete,
                   d1\<lparr>rd_sessions := AList.delete e (rd_sessions d1),
                      rd_current_by_replica :=
                        (if dir_current d1 (replica_id e) = Some e then AList.delete (replica_id e) (rd_current_by_replica d1)
                         else rd_current_by_replica d1)\<rparr>))"

definition dir_mark_fail_stop :: "directory \<Rightarrow> directory" where
  "dir_mark_fail_stop d = d\<lparr>rd_fail_stop := True\<rparr>"

definition update_registration_facts :: "registration_facts \<Rightarrow> session_record \<Rightarrow> session_record" where
  "update_registration_facts facts r = r\<lparr>sr_facts := facts\<rparr>"

definition epoch_order :: "runtime_session_epoch \<Rightarrow> string \<times> u64" where
  "epoch_order e = (replica_id e, connection_generation e)"

definition dir_candidates :: "directory \<Rightarrow> runtime_session_epoch list" where
  "dir_candidates d =
     sort_key epoch_order (map fst (filter (\<lambda>(e, r). sr_routable r \<and> \<not> sr_cancelled r \<and> dir_current d (replica_id e) = Some e) (rd_sessions d)))"

definition dir_candidates_by_build_id :: "string \<Rightarrow> string option \<Rightarrow> directory \<Rightarrow> runtime_session_epoch list" where
  "dir_candidates_by_build_id build_id router_root d =
     sort_key epoch_order (map fst (filter (\<lambda>(e, r).
       sr_routable r \<and> \<not> sr_cancelled r \<and> dir_current d (replica_id e) = Some e \<and>
       (list_ex (\<lambda>b. b = build_id) (rf_registered_build_ids (sr_facts r)) \<or>
        (rf_lazy_load (sr_facts r) \<and> rf_artifact_root (sr_facts r) = router_root))) (rd_sessions d)))"

definition dir_session_count :: "directory \<Rightarrow> usize" where
  "dir_session_count d = length (rd_sessions d)"

definition dir_routable_count :: "directory \<Rightarrow> usize" where
  "dir_routable_count d = length (filter (\<lambda>r. sr_routable r) (map snd (rd_sessions d)))"

definition dir_pending_count :: "directory \<Rightarrow> usize" where
  "dir_pending_count d = length (filter (\<lambda>r. \<not> sr_routable r) (map snd (rd_sessions d)))"

definition dir_cancelled_count :: "directory \<Rightarrow> usize" where
  "dir_cancelled_count d = length (filter (\<lambda>r. sr_cancelled r) (map snd (rd_sessions d)))"

definition dir_barrier_pending_count :: "directory \<Rightarrow> usize" where
  "dir_barrier_pending_count d = length (filter (\<lambda>r. sr_cancelled r \<and> \<not> barrier_complete r) (map snd (rd_sessions d)))"

definition dir_permits_held :: "directory \<Rightarrow> usize" where
  "dir_permits_held d = sum_list (map (\<lambda>r. length (sr_permits r)) (map snd (rd_sessions d)))"

text \<open>The calls on the directory; a refresh of facts reaches the record of a session that is registered.\<close>

inductive directory_step :: "directory \<Rightarrow> directory \<Rightarrow> bool" where
  dir_step_publish: "dir_publish_pending e permits d = (r, d') \<Longrightarrow> directory_step d d'"
| dir_step_mark: "dir_mark_registered e d = (ok, d') \<Longrightarrow> directory_step d d'"
| dir_step_close: "dir_begin_close e d = (c, d') \<Longrightarrow> directory_step d d'"
| dir_step_ack: "dir_ack_close e k d = (p, d') \<Longrightarrow> directory_step d d'"
| dir_step_facts: "directory_step d (modify_record e (update_registration_facts facts) d)"
| dir_step_fail_stop: "directory_step d (dir_mark_fail_stop d)"

section \<open>Directory invariant\<close>

text \<open>
  A replica's current session has a record and names that replica; every session that is not cancelled is the
  current one of its replica.
\<close>

definition slots_ok :: "(string \<Rightarrow> runtime_session_epoch option) \<Rightarrow> (runtime_session_epoch \<Rightarrow> session_record option) \<Rightarrow> bool" where
  "slots_ok current recs \<longleftrightarrow>
     (\<forall>r e. current r = Some e \<longrightarrow> replica_id e = r \<and> recs e \<noteq> None) \<and>
     (\<forall>e s. recs e = Some s \<longrightarrow> \<not> sr_cancelled s \<longrightarrow> current (replica_id e) = Some e)"

definition directory_inv :: "directory \<Rightarrow> bool" where
  "directory_inv d \<longleftrightarrow>
     distinct (map fst (rd_sessions d)) \<and> distinct (map fst (rd_current_by_replica d)) \<and> slots_ok (dir_current d) (dir_record d)"

lemma slots_ok_modify:
  assumes "slots_ok current recs" "recs e = Some s" "sr_cancelled s \<longrightarrow> sr_cancelled s'"
  shows "slots_ok current (recs(e \<mapsto> s'))"
  using assms by (auto simp: slots_ok_def)

lemma slots_ok_publish:
  assumes "slots_ok current recs" "recs e = None"
    and "\<And>x s. recs x = Some s \<Longrightarrow> replica_id x = replica_id e \<Longrightarrow> sr_cancelled s"
  shows "slots_ok (current(replica_id e \<mapsto> e)) (recs(e \<mapsto> s'))"
  using assms by (auto simp: slots_ok_def)

lemma slots_ok_delete:
  assumes "slots_ok current recs"
  shows "slots_ok (if current (replica_id e) = Some e then current(replica_id e := None) else current) (recs(e := None))"
    (is "slots_ok ?cur ?recs")
proof -
  have named: "replica_id x = r \<and> recs x \<noteq> None" if "current r = Some x" for r x
    using assms that unfolding slots_ok_def by blast
  have live: "current (replica_id x) = Some x" if "recs x = Some s" "\<not> sr_cancelled s" for x s
    using assms that unfolding slots_ok_def by blast
  have other: "current r = Some x \<and> x \<noteq> e" if "?cur r = Some x" for r x
    using that named [of r x] by (cases "x = e") (auto split: if_splits)
  have kept: "?cur (replica_id x) = Some x" if "recs x = Some s" "\<not> sr_cancelled s" "x \<noteq> e" for x s
    using live [OF that(1,2)] that(3) by (cases "replica_id x = replica_id e") auto
  show ?thesis
    unfolding slots_ok_def
  proof (intro conjI allI impI)
    fix r x
    assume "?cur r = Some x"
    from other [OF this] show "replica_id x = r" "?recs x \<noteq> None" using named [of r x] by simp_all
  next
    fix x s
    assume rec: "?recs x = Some s" and "\<not> sr_cancelled s"
    have "recs x = Some s" "x \<noteq> e" using rec by (auto split: if_splits)
    then show "?cur (replica_id x) = Some x" using kept \<open>\<not> sr_cancelled s\<close> by blast
  qed
qed

lemma dir_record_update: "dir_record (d\<lparr>rd_sessions := AList.update e r m\<rparr>) = (map_of m)(e \<mapsto> r)"
  by (rule ext) (simp add: dir_record_def update_conv')

lemma dir_record_modify: "dir_record (modify_record e f d) = (dir_record d)(e := map_option f (dir_record d e))"
  by (rule ext) (auto simp: modify_record_def dir_record_def update_conv' split: option.splits)

lemma modify_record_frame [simp]:
  "rd_current_by_replica (modify_record e f d) = rd_current_by_replica d"
  "dir_current (modify_record e f d) = dir_current d"
  "rd_next_revision (modify_record e f d) = rd_next_revision d"
  "rd_installed_consumers (modify_record e f d) = rd_installed_consumers d"
  by (auto simp: modify_record_def fun_eq_iff dir_current_def split: option.splits)

lemma modify_inv:
  assumes "directory_inv d" "\<And>r. sr_cancelled r \<longrightarrow> sr_cancelled (f r)"
  shows "directory_inv (modify_record e f d)"
proof (cases "dir_record d e")
  case None
  then show ?thesis using assms(1) by (simp add: modify_record_def)
next
  case (Some r)
  then have "slots_ok (dir_current d) ((dir_record d)(e \<mapsto> f r))"
    using assms by (auto simp: directory_inv_def intro: slots_ok_modify)
  moreover have "distinct (map fst (rd_sessions (modify_record e f d)))"
    using assms(1) by (simp add: modify_record_def Some directory_inv_def distinct_update)
  ultimately show ?thesis
    using assms(1) Some by (simp add: directory_inv_def dir_record_modify)
qed

text \<open>The directory in which the current session of a replica has been cancelled.\<close>

definition cancel_current :: "runtime_session_epoch \<Rightarrow> directory \<Rightarrow> directory" where
  "cancel_current e d =
     (case dir_current d (replica_id e) of
        Some old \<Rightarrow> if old \<noteq> e then modify_record old (\<lambda>r. r\<lparr>sr_cancelled := True\<rparr>) d else d
      | None \<Rightarrow> d)"

lemma cancel_current_inv: "directory_inv d \<Longrightarrow> directory_inv (cancel_current e d)"
  by (auto simp: cancel_current_def intro!: modify_inv split: option.splits)

lemma cancel_current_frame [simp]:
  "dir_current (cancel_current e d) = dir_current d"
  "rd_current_by_replica (cancel_current e d) = rd_current_by_replica d"
  by (auto simp: cancel_current_def split: option.splits)

lemma cancel_current_record: "dir_record d e = None \<Longrightarrow> dir_record (cancel_current e d) e = None"
  by (auto simp: cancel_current_def dir_record_modify split: option.splits)

lemma cancel_current_cancels:
  assumes "directory_inv d" "dir_record d e = None" "dir_record (cancel_current e d) x = Some s" "replica_id x = replica_id e"
  shows "sr_cancelled s"
proof (rule ccontr)
  assume open_: "\<not> sr_cancelled s"
  have "slots_ok (dir_current d) (dir_record (cancel_current e d))"
    using cancel_current_inv [OF assms(1), of e] by (simp add: directory_inv_def)
  then have "dir_current d (replica_id e) = Some x"
    using assms(3,4) open_ unfolding slots_ok_def by metis
  moreover have "x \<noteq> e" using assms(2,3) cancel_current_record by force
  ultimately show False
    using assms(3) open_ by (auto simp: cancel_current_def dir_record_modify)
qed

lemma publish_new:
  assumes "dir_publish_pending e permits d = (Inr p, d')"
  shows "dir_record d e = None"
    and "d' = (cancel_current e d)\<lparr>rd_next_revision := pp_revision p,
       rd_sessions := AList.update e (session_record_new (pp_revision p) permits) (rd_sessions (cancel_current e d)),
       rd_current_by_replica := AList.update (replica_id e) e (rd_current_by_replica (cancel_current e d))\<rparr>"
  using assms by (auto simp: dir_publish_pending_def cancel_current_def Let_def split: option.splits if_splits)

lemma publish_inv:
  assumes inv: "directory_inv d" and pub: "dir_publish_pending e permits d = (r, d')"
  shows "directory_inv d'"
proof (cases r)
  case (Inl err)
  then show ?thesis using inv pub by (auto simp: dir_publish_pending_def Let_def split: if_splits)
next
  case (Inr p)
  note new = publish_new [OF pub [unfolded Inr]]
  let ?d = "cancel_current e d"
  have inv1: "directory_inv ?d" by (rule cancel_current_inv [OF inv])
  have "slots_ok ((dir_current ?d)(replica_id e \<mapsto> e)) ((dir_record ?d)(e \<mapsto> session_record_new (pp_revision p) permits))"
  proof (rule slots_ok_publish)
    show "slots_ok (dir_current ?d) (dir_record ?d)" using inv1 by (simp add: directory_inv_def)
    show "dir_record ?d e = None" by (rule cancel_current_record [OF new(1)])
    show "sr_cancelled s" if "dir_record ?d x = Some s" "replica_id x = replica_id e" for x s
      by (rule cancel_current_cancels [OF inv new(1) that])
  qed
  moreover have "dir_current d' = (dir_current ?d)(replica_id e \<mapsto> e)"
    "dir_record d' = (dir_record ?d)(e \<mapsto> session_record_new (pp_revision p) permits)"
    by (auto simp: new(2) fun_eq_iff dir_current_def dir_record_def update_conv')
  ultimately show ?thesis
    using inv1 by (simp add: directory_inv_def new(2) distinct_update)
qed

text \<open>What an acknowledgement does to a session that has a record.\<close>

lemma ack_step:
  assumes "dir_record d e = Some r"
  shows "dir_ack_close e k d =
    (let r' = r\<lparr>sr_barrier_acked := insert k (sr_barrier_acked r)\<rparr>; d1 = modify_record e (\<lambda>_. r') d
     in if \<not> barrier_complete r' then (ClosePending (card (sr_barrier_acked r')) (length (sr_permits r')), d1)
        else (CloseComplete, d1\<lparr>rd_sessions := AList.delete e (rd_sessions d1), rd_current_by_replica :=
          (if dir_current d1 (replica_id e) = Some e then AList.delete (replica_id e) (rd_current_by_replica d1) else rd_current_by_replica d1)\<rparr>))"
  unfolding dir_ack_close_def assms option.case by (rule refl)

lemma ack_inv:
  assumes inv: "directory_inv d" and ack: "dir_ack_close e k d = (p, d')"
  shows "directory_inv d'"
proof (cases "dir_record d e")
  case None
  then show ?thesis using inv ack by (simp add: dir_ack_close_def)
next
  case (Some r)
  define r' where "r' = r\<lparr>sr_barrier_acked := insert k (sr_barrier_acked r)\<rparr>"
  define d1 where "d1 = modify_record e (\<lambda>_. r') d"
  have "d1 = modify_record e (\<lambda>r. r\<lparr>sr_barrier_acked := insert k (sr_barrier_acked r)\<rparr>) d"
    using Some by (simp add: d1_def modify_record_def r'_def)
  then have inv1: "directory_inv d1"
    using modify_inv [OF inv, of "\<lambda>r. r\<lparr>sr_barrier_acked := insert k (sr_barrier_acked r)\<rparr>" e] by simp
  show ?thesis
  proof (cases "barrier_complete r'")
    case False
    then show ?thesis using ack inv1 by (simp add: ack_step [OF Some] Let_def r'_def [symmetric] d1_def [symmetric])
  next
    case True
    define cur where "cur = (if dir_current d1 (replica_id e) = Some e then AList.delete (replica_id e) (rd_current_by_replica d1)
      else rd_current_by_replica d1)"
    have d': "d' = d1\<lparr>rd_sessions := AList.delete e (rd_sessions d1), rd_current_by_replica := cur\<rparr>"
      using ack True by (auto simp: ack_step [OF Some] Let_def r'_def [symmetric] d1_def [symmetric] cur_def split: if_splits)
    have "dir_record d' = (dir_record d1)(e := None)"
      "dir_current d' = (if dir_current d1 (replica_id e) = Some e then (dir_current d1)(replica_id e := None) else dir_current d1)"
      by (auto simp: d' cur_def fun_eq_iff dir_record_def dir_current_def delete_conv')
    then show ?thesis
      using inv1 slots_ok_delete [of "dir_current d1" "dir_record d1" e]
      by (auto simp: directory_inv_def d' cur_def distinct_delete)
  qed
qed

lemma directory_step_inv: "directory_step d d' \<Longrightarrow> directory_inv d \<Longrightarrow> directory_inv d'"
proof (induction rule: directory_step.induct)
  case (dir_step_publish e permits d r d')
  then show ?case using publish_inv by blast
next
  case (dir_step_mark e d ok d')
  then show ?case by (auto simp: dir_mark_registered_def intro!: modify_inv split: option.splits if_splits)
next
  case (dir_step_close e d c d')
  then show ?case by (auto simp: dir_begin_close_def intro!: modify_inv split: option.splits if_splits)
next
  case (dir_step_ack e k d p d')
  then show ?case using ack_inv by blast
next
  case (dir_step_facts d e facts)
  then show ?case by (auto simp: update_registration_facts_def intro!: modify_inv)
next
  case (dir_step_fail_stop d)
  have "dir_current (dir_mark_fail_stop d) = dir_current d" "dir_record (dir_mark_fail_stop d) = dir_record d"
    by (auto simp: dir_mark_fail_stop_def fun_eq_iff dir_current_def dir_record_def)
  then show ?case using dir_step_fail_stop by (simp add: directory_inv_def) (simp add: dir_mark_fail_stop_def)
qed

lemma directory_new_inv: "directory_inv (dir_new manifest)"
  by (simp add: directory_inv_def slots_ok_def dir_new_def dir_record_def dir_current_def)

lemma directory_reachable_inv: "directory_step\<^sup>*\<^sup>* (dir_new manifest) d \<Longrightarrow> directory_inv d"
  by (induction rule: rtranclp_induct) (auto intro: directory_new_inv directory_step_inv)

lemma sessions_get: "distinct (map fst (rd_sessions d)) \<Longrightarrow> (e, r) \<in> set (rd_sessions d) \<longleftrightarrow> dir_record d e = Some r"
  by (simp add: dir_record_def)

lemma candidates_iff:
  assumes "directory_inv d"
  shows "e \<in> set (dir_candidates d) \<longleftrightarrow> (\<exists>r. dir_record d e = Some r \<and> sr_routable r \<and> \<not> sr_cancelled r)"
proof -
  have "e \<in> set (dir_candidates d) \<longleftrightarrow>
      (\<exists>r. dir_record d e = Some r \<and> sr_routable r \<and> \<not> sr_cancelled r \<and> dir_current d (replica_id e) = Some e)"
    using assms by (force simp: dir_candidates_def directory_inv_def sessions_get)
  then show ?thesis
    using assms unfolding directory_inv_def slots_ok_def by blast
qed

lemma candidates_current: "directory_inv d \<Longrightarrow> e \<in> set (dir_candidates d) \<Longrightarrow> dir_current d (replica_id e) = Some e"
  by (auto simp: dir_candidates_def)

lemma current_has_record:
  assumes "directory_inv d" "dir_current d r = Some e"
  shows "replica_id e = r" "dir_record d e \<noteq> None"
  using assms unfolding directory_inv_def slots_ok_def by blast+

lemma distinct_fst_filter: "distinct (map fst xs) \<Longrightarrow> distinct (map fst (filter P xs))"
  by (induction xs) auto

lemma candidates_distinct:
  assumes "directory_inv d"
  shows "distinct (map replica_id (dir_candidates d))"
proof -
  have "distinct (dir_candidates d)"
    using assms by (simp add: dir_candidates_def directory_inv_def distinct_fst_filter)
  moreover have "inj_on replica_id (set (dir_candidates d))"
    using candidates_current [OF assms] by (intro inj_onI) (metis option.inject)
  ultimately show ?thesis by (simp add: distinct_map)
qed

text \<open>C30: 
  In every state the registration directory can reach, the candidates are exactly the routable sessions that
  are not cancelled, in the order of replica and generation, with at most one session of a replica, which is
  that replica's current session; a current session always has its record.
\<close>

theorem directory_candidates_exact:
  assumes "directory_step\<^sup>*\<^sup>* (dir_new manifest) d"
  shows "(\<forall>e. e \<in> set (dir_candidates d) \<longleftrightarrow> (\<exists>r. dir_record d e = Some r \<and> sr_routable r \<and> \<not> sr_cancelled r)) \<and>
    sorted (map epoch_order (dir_candidates d)) \<and> distinct (map replica_id (dir_candidates d)) \<and>
    (\<forall>r e. dir_current d r = Some e \<longrightarrow> replica_id e = r \<and> dir_record d e \<noteq> None) \<and>
    (\<forall>e s. dir_record d e = Some s \<longrightarrow> \<not> sr_cancelled s \<longrightarrow> dir_current d (replica_id e) = Some e)"
proof -
  have inv: "directory_inv d" by (rule directory_reachable_inv [OF assms])
  then have "slots_ok (dir_current d) (dir_record d)" by (simp add: directory_inv_def)
  moreover have "sorted (map epoch_order (dir_candidates d))" by (simp add: dir_candidates_def)
  ultimately show ?thesis
    using candidates_iff [OF inv] candidates_distinct [OF inv] unfolding slots_ok_def by blast
qed

text \<open>C31: 
  An acknowledgement of a closing session touches no other session. The record goes only when every consumer
  that held a permit has acknowledged, the call reports completion exactly then, and the replica's current
  entry is removed only while it still names the closing session, so a replacement survives.
\<close>

theorem close_barrier_exact:
  assumes "directory_step\<^sup>*\<^sup>* (dir_new manifest) d" "dir_ack_close e k d = (p, d')"
  shows "(\<forall>x. x \<noteq> e \<longrightarrow> dir_record d' x = dir_record d x) \<and>
    (dir_record d' e = None \<longleftrightarrow>
       (case dir_record d e of None \<Rightarrow> True | Some r \<Rightarrow> set (sr_permits r) \<subseteq> insert k (sr_barrier_acked r))) \<and>
    (p = CloseComplete \<longleftrightarrow> dir_record d' e = None) \<and>
    (\<forall>r. dir_current d' r = (if dir_record d' e = None \<and> dir_current d r = Some e then None else dir_current d r))"
proof (cases "dir_record d e")
  case None
  have "dir_current d r \<noteq> Some e" for r
    using current_has_record(2) [OF directory_reachable_inv [OF assms(1)]] None by blast
  then show ?thesis using assms(2) None by (auto simp: dir_ack_close_def)
next
  case (Some r)
  have named: "replica_id e = q" if "dir_current d q = Some e" for q
    by (rule current_has_record(1) [OF directory_reachable_inv [OF assms(1)] that])
  define r' where "r' = r\<lparr>sr_barrier_acked := insert k (sr_barrier_acked r)\<rparr>"
  have complete: "barrier_complete r' \<longleftrightarrow> set (sr_permits r) \<subseteq> insert k (sr_barrier_acked r)"
    by (auto simp: barrier_complete_def r'_def list_all_iff)
  show ?thesis
  proof (cases "barrier_complete r'")
    case False
    then have "p \<noteq> CloseComplete" "d' = modify_record e (\<lambda>_. r') d"
      using assms(2) by (auto simp: ack_step [OF Some] Let_def r'_def [symmetric])
    then show ?thesis
      using False complete Some by (simp add: dir_record_modify)
  next
    case True
    define d1 where "d1 = modify_record e (\<lambda>_. r') d"
    have d': "p = CloseComplete" "d' = d1\<lparr>rd_sessions := AList.delete e (rd_sessions d1), rd_current_by_replica :=
        (if dir_current d1 (replica_id e) = Some e then AList.delete (replica_id e) (rd_current_by_replica d1)
         else rd_current_by_replica d1)\<rparr>"
      using assms(2) True by (auto simp: ack_step [OF Some] Let_def r'_def [symmetric] d1_def [symmetric] split: if_splits)
    have "dir_record d' = (dir_record d)(e := None)"
      by (rule ext) (simp add: d' dir_record_def delete_conv' d1_def modify_record_def Some [unfolded dir_record_def] update_conv')
    moreover have "dir_current d' q = (if dir_current d q = Some e then None else dir_current d q)" for q
    proof -
      have "dir_current d' q = (if dir_current d (replica_id e) = Some e \<and> q = replica_id e then None else dir_current d q)"
        by (simp add: d' d1_def dir_current_def delete_conv')
      then show ?thesis by (metis named)
    qed
    ultimately show ?thesis
      using True complete Some d'(1) by simp
  qed
qed

section \<open>A replaced session\<close>

definition demo_epoch :: "nat \<Rightarrow> runtime_session_epoch" where
  "demo_epoch g = \<lparr>replica_id = ''a'', connection_generation = g\<rparr>"

definition demo_dirs :: "directory list" where
  "demo_dirs =
     (let d0 = dir_new default_installed;
          d1 = snd (dir_publish_pending (demo_epoch 1) [HealthLedger] d0);
          d2 = snd (dir_mark_registered (demo_epoch 1) d1);
          d3 = snd (dir_publish_pending (demo_epoch 2) [HealthLedger] d2);
          d4 = snd (dir_mark_registered (demo_epoch 2) d3)
      in [d1, d2, d3, d4])"

definition demo_dir :: directory where
  "demo_dir = demo_dirs ! 3"

lemma demo_dir_reachable: "directory_step\<^sup>*\<^sup>* (dir_new default_installed) demo_dir"
proof -
  define d0 where "d0 = dir_new default_installed"
  define d1 where "d1 = snd (dir_publish_pending (demo_epoch 1) [HealthLedger] d0)"
  define d2 where "d2 = snd (dir_mark_registered (demo_epoch 1) d1)"
  define d3 where "d3 = snd (dir_publish_pending (demo_epoch 2) [HealthLedger] d2)"
  have "directory_step d0 d1" unfolding d1_def by (rule dir_step_publish [OF prod.collapse [symmetric]])
  moreover have "directory_step d1 d2" unfolding d2_def by (rule dir_step_mark [OF prod.collapse [symmetric]])
  moreover have "directory_step d2 d3" unfolding d3_def by (rule dir_step_publish [OF prod.collapse [symmetric]])
  moreover have "directory_step d3 demo_dir"
    unfolding demo_dir_def demo_dirs_def d3_def d2_def d1_def d0_def
    by (simp add: Let_def) (rule dir_step_mark [OF prod.collapse [symmetric]])
  ultimately show ?thesis unfolding d0_def [symmetric]
    by (metis converse_rtranclp_into_rtranclp rtranclp.rtrancl_refl)
qed

lemma demo_dir_candidates: "dir_candidates demo_dir = [demo_epoch 2]"
  by code_simp

theorem directory_candidates_exact_witness:
  "directory_step\<^sup>*\<^sup>* (dir_new default_installed) demo_dir \<and> dir_candidates demo_dir = [demo_epoch 2] \<and>
   distinct (map replica_id (dir_candidates demo_dir))"
  using directory_candidates_exact [OF demo_dir_reachable] demo_dir_reachable demo_dir_candidates by blast

lemma demo_close: "fst (dir_ack_close (demo_epoch 1) HealthLedger demo_dir) = CloseComplete"
  "dir_current demo_dir ''a'' = Some (demo_epoch 2)" "demo_epoch 2 \<noteq> demo_epoch 1"
  by code_simp+

theorem close_barrier_exact_witness:
  "directory_step\<^sup>*\<^sup>* (dir_new default_installed) demo_dir \<and>
   dir_record (snd (dir_ack_close (demo_epoch 1) HealthLedger demo_dir)) (demo_epoch 1) = None \<and>
   dir_current (snd (dir_ack_close (demo_epoch 1) HealthLedger demo_dir)) ''a'' = Some (demo_epoch 2)"
proof -
  note closed = close_barrier_exact [OF demo_dir_reachable prod.collapse [symmetric], of "demo_epoch 1" HealthLedger]
  have "dir_record (snd (dir_ack_close (demo_epoch 1) HealthLedger demo_dir)) (demo_epoch 1) = None"
    using closed demo_close(1) by (elim conjE) simp
  moreover have "dir_current (snd (dir_ack_close (demo_epoch 1) HealthLedger demo_dir)) ''a'' = Some (demo_epoch 2)"
    using closed demo_close(2,3) by (elim conjE) simp
  ultimately show ?thesis using demo_dir_reachable by simp
qed

section \<open>Handshake order\<close>

text \<open>The milestones a run passed, and the replicas named by the frames it accepted.\<close>

fun milestone :: "handshake_call \<Rightarrow> handshake_phase list" where
  "milestone (CallBootstrapWritten (Inr _)) = [PhaseBootstrapSent]"
| "milestone (CallCapabilities _ CapBound) = [PhaseCapabilitiesBound]"
| "milestone (CallAckWritten (Inr _)) = [PhaseRegistered]"
| "milestone _ = []"

fun named_replica :: "handshake_call \<Rightarrow> string list" where
  "named_replica (CallCapabilities rid CapBound) = [rid]"
| "named_replica (CallCapabilities rid CapRefreshed) = [rid]"
| "named_replica (CallHealth rid HealthObserved) = [rid]"
| "named_replica _ = []"

definition milestones :: "handshake_call list \<Rightarrow> handshake_phase list" where
  "milestones cs = concat (map milestone cs)"

definition open_milestones :: "handshake_phase \<Rightarrow> nat \<Rightarrow> handshake_phase list" where
  "open_milestones p n =
     (case p of
        PhaseAccepted \<Rightarrow> []
      | PhaseBootstrapSent \<Rightarrow> [PhaseBootstrapSent]
      | PhaseCapabilitiesBound \<Rightarrow> [PhaseBootstrapSent, PhaseCapabilitiesBound]
      | _ \<Rightarrow> [PhaseBootstrapSent, PhaseCapabilitiesBound] @ replicate (Suc n) PhaseRegistered)"

definition handshake_inv :: "handshake_call list \<Rightarrow> handshake_state \<Rightarrow> bool" where
  "handshake_inv cs h \<longleftrightarrow>
     (\<exists>p n. milestones cs = open_milestones p n \<and> (hs_phase h = PhaseClosed \<or> p = hs_phase h)) \<and>
     list_all (\<lambda>r. hs_replica h = Some r) (concat (map named_replica cs)) \<and>
     (hs_phase h = PhaseClosed \<longleftrightarrow> hs_terminal h \<noteq> None) \<and>
     (hs_phase h \<in> {PhaseAccepted, PhaseBootstrapSent} \<longrightarrow> hs_replica h = None)"

lemmas handshake_ops = on_bootstrap_written_def on_bootstrap_write_failed_def on_capabilities_def on_health_def on_ack_written_def
  on_ack_write_failed_def on_timeout_def on_disconnect_def terminal_with_def set_terminal_def

lemma milestones_snoc [simp]: "milestones (cs @ [c]) = milestones cs @ milestone c"
  by (simp add: milestones_def)

lemma handshake_inv_silent:
  assumes "handshake_inv cs h" "milestone c = []" "list_all (\<lambda>r. hs_replica h = Some r) (named_replica c)"
    and "h' = h \<or> (\<exists>k. h' = set_terminal k h)"
  shows "handshake_inv (cs @ [c]) h'"
  using assms by (auto simp: handshake_inv_def set_terminal_def)

lemma handshake_step_inv:
  assumes "handshake_step h c h'" "handshake_inv cs h"
  shows "handshake_inv (cs @ [c]) h'"
  using assms
proof (induction rule: handshake_step.induct)
  case (hs_bootstrap_written h r h')
  show ?case
  proof (cases "hs_phase h = PhaseAccepted")
    case True
    then have "milestones cs = []" using hs_bootstrap_written(2) by (auto simp: handshake_inv_def open_milestones_def)
    then have "milestones (cs @ [CallBootstrapWritten r]) = open_milestones PhaseBootstrapSent 0"
      using hs_bootstrap_written(1) True by (auto simp: on_bootstrap_written_def open_milestones_def)
    then show ?thesis
      using hs_bootstrap_written True by (auto simp: handshake_inv_def on_bootstrap_written_def)
  next
    case False
    then show ?thesis
      using hs_bootstrap_written by (auto simp: on_bootstrap_written_def intro!: handshake_inv_silent)
  qed
next
  case (hs_capabilities rid h e h')
  show ?case
  proof (cases "hs_phase h = PhaseBootstrapSent")
    case True
    then have "milestones cs = [PhaseBootstrapSent]" "concat (map named_replica cs) = []"
      using hs_capabilities(2) by (auto simp: handshake_inv_def open_milestones_def list_all_iff)
    then show ?thesis
      using hs_capabilities True
      by (auto simp: handshake_inv_def on_capabilities_def open_milestones_def list_all_iff intro!: exI [of _ PhaseCapabilitiesBound])
  next
    case False
    then show ?thesis
      using hs_capabilities
      by (auto simp: on_capabilities_def intro!: handshake_inv_silent split: handshake_phase.splits if_splits)
  qed
next
  case (hs_ack_written h r h')
  consider (bound) "hs_phase h = PhaseCapabilitiesBound" | (again) "hs_phase h = PhaseRegistered" | (no) "hs_phase h \<notin> {PhaseCapabilitiesBound, PhaseRegistered}"
    by auto
  then show ?case
  proof cases
    case bound
    then have "milestones cs = [PhaseBootstrapSent, PhaseCapabilitiesBound]"
      using hs_ack_written(2) by (auto simp: handshake_inv_def open_milestones_def)
    then show ?thesis
      using hs_ack_written bound
      by (auto simp: handshake_inv_def on_ack_written_def open_milestones_def intro!: exI [of _ PhaseRegistered] exI [of _ 0])
  next
    case again
    then obtain n where "milestones cs = [PhaseBootstrapSent, PhaseCapabilitiesBound] @ replicate (Suc n) PhaseRegistered"
      using hs_ack_written(2) by (auto simp: handshake_inv_def open_milestones_def)
    then show ?thesis
      using hs_ack_written again
      by (auto simp: handshake_inv_def on_ack_written_def open_milestones_def replicate_append_same intro!: exI [of _ PhaseRegistered] exI [of _ "Suc n"])
  next
    case no
    then show ?thesis
      using hs_ack_written by (cases "hs_phase h") (auto simp: on_ack_written_def intro!: handshake_inv_silent)
  qed
next
  case (hs_health rid h e h')
  then show ?case
    by (auto simp: on_health_def intro!: handshake_inv_silent split: handshake_phase.splits if_splits)
qed (auto simp: on_bootstrap_write_failed_def on_ack_write_failed_def on_timeout_def on_disconnect_def terminal_with_def Let_def
    intro!: handshake_inv_silent)

lemma handshake_run_inv: "handshake_run cs h \<Longrightarrow> handshake_inv cs h"
proof (induction rule: handshake_run.induct)
  case hs_new
  show ?case by (auto simp: handshake_inv_def milestones_def handshake_new_def open_milestones_def intro!: exI [of _ PhaseAccepted])
next
  case (hs_step cs h c h')
  then show ?case using handshake_step_inv by blast
qed

text \<open>
  The handshake runs in order. Bootstrap and capabilities are passed once each and in this order, and the
  acknowledgement after both, whatever the session task reports; every capabilities and health frame that was accepted names one
  replica, the one bound first; and a connection is closed exactly when it has a terminal.
\<close>

theorem handshake_in_order:
  assumes "handshake_run cs h"
  shows "(\<exists>p n. milestones cs = open_milestones p n \<and> (hs_phase h = PhaseClosed \<or> p = hs_phase h)) \<and>
    set (concat (map named_replica cs)) \<subseteq> set_option (hs_replica h) \<and>
    (hs_phase h = PhaseClosed \<longleftrightarrow> hs_terminal h \<noteq> None)"
  using handshake_run_inv [OF assms] by (auto simp: handshake_inv_def list_all_iff)

definition demo_handshake :: "handshake_call list" where
  "demo_handshake = [CallBootstrapWritten (Inr ()), CallCapabilities ''a'' CapBound, CallAckWritten (Inr ()),
     CallHealth ''a'' HealthObserved, CallCapabilities ''b'' (CapTerminal IdentityChange)]"

definition demo_handshake_state :: "handshake_phase \<Rightarrow> handshake_state" where
  "demo_handshake_state p = \<lparr>hs_phase = p, hs_terminal = None, hs_replica = Some ''a''\<rparr>"

lemma demo_handshake_run: "handshake_run demo_handshake (set_terminal IdentityChange (demo_handshake_state PhaseRegistered))"
proof -
  have 1: "handshake_step handshake_new (CallBootstrapWritten (Inr ())) (handshake_new\<lparr>hs_phase := PhaseBootstrapSent\<rparr>)"
    by (rule hs_bootstrap_written) (simp add: on_bootstrap_written_def handshake_new_def)
  have 2: "handshake_step (handshake_new\<lparr>hs_phase := PhaseBootstrapSent\<rparr>) (CallCapabilities ''a'' CapBound) (demo_handshake_state PhaseCapabilitiesBound)"
    by (rule hs_capabilities) (simp add: on_capabilities_def handshake_new_def demo_handshake_state_def)
  have 3: "handshake_step (demo_handshake_state PhaseCapabilitiesBound) (CallAckWritten (Inr ())) (demo_handshake_state PhaseRegistered)"
    by (rule hs_ack_written) (simp add: on_ack_written_def demo_handshake_state_def)
  have 4: "handshake_step (demo_handshake_state PhaseRegistered) (CallHealth ''a'' HealthObserved) (demo_handshake_state PhaseRegistered)"
    by (rule hs_health) (simp add: on_health_def demo_handshake_state_def)
  have 5: "handshake_step (demo_handshake_state PhaseRegistered) (CallCapabilities ''b'' (CapTerminal IdentityChange))
      (set_terminal IdentityChange (demo_handshake_state PhaseRegistered))"
    by (rule hs_capabilities) (simp add: on_capabilities_def demo_handshake_state_def)
  show ?thesis
    using hs_step [OF hs_step [OF hs_step [OF hs_step [OF hs_step [OF hs_new 1] 2] 3] 4] 5] by (simp add: demo_handshake_def)
qed

theorem handshake_in_order_witness:
  "handshake_run demo_handshake (set_terminal IdentityChange (demo_handshake_state PhaseRegistered)) \<and>
   (\<exists>p n. milestones demo_handshake = open_milestones p n) \<and>
   set (concat (map named_replica demo_handshake)) \<subseteq> {''a''}"
  using handshake_in_order [OF demo_handshake_run] demo_handshake_run
  by (auto simp: set_terminal_def demo_handshake_state_def)

section \<open>Bounds of the pools\<close>

lemma pre_auth_acquire_bound:
  "finite (pa_occupied p) \<Longrightarrow> card (pa_occupied p) \<le> pa_limit p \<Longrightarrow>
   card (pa_occupied (snd (pa_try_acquire cid p))) \<le> pa_limit (snd (pa_try_acquire cid p))"
  by (simp add: pa_try_acquire_def card_insert_if)

text \<open>
  The queue together with its writer: the frame it has taken and not yet marked is in hand. Closing the writer
  abandons what is queued.
\<close>

inductive outbound_step :: "outbound_queue \<times> queued_frame option \<Rightarrow> outbound_queue \<times> queued_frame option \<Rightarrow> bool" where
  out_send: "oq_try_send fid bytes q = (r, q') \<Longrightarrow> outbound_step (q, hand) (q', hand)"
| out_take: "oq_writer_alive q \<Longrightarrow> oq_recv q = Some (f, q') \<Longrightarrow> outbound_step (q, None) (q', Some f)"
| out_written: "outbound_step (q, Some f) (oq_mark_written (length (qf_bytes f)) q, None)"
| out_gone: "outbound_step (q, hand) (q\<lparr>oq_writer_alive := False\<rparr>, hand)"

definition outbound_frames :: "outbound_queue \<times> queued_frame option \<Rightarrow> queued_frame list" where
  "outbound_frames w = (case w of (q, hand) \<Rightarrow> (case hand of None \<Rightarrow> [] | Some f \<Rightarrow> [f]) @ oq_channel q)"

definition outbound_inv :: "session_budgets \<Rightarrow> outbound_queue \<times> queued_frame option \<Rightarrow> bool" where
  "outbound_inv b w \<longleftrightarrow>
     oq_budgets (fst w) = b \<and> oq_frames (fst w) = length (outbound_frames w) \<and>
     oq_bytes (fst w) = sum_list (map (length \<circ> qf_bytes) (outbound_frames w)) \<and>
     oq_frames (fst w) \<le> sb_outbound_frames b \<and> oq_bytes (fst w) \<le> sb_outbound_bytes b"

lemma outbound_step_inv: "outbound_step w w' \<Longrightarrow> outbound_inv b w \<Longrightarrow> outbound_inv b w'"
  by (induction rule: outbound_step.induct)
    (auto simp: outbound_inv_def outbound_frames_def oq_try_send_def oq_recv_def oq_mark_written_def
      split: if_splits option.splits list.splits)

lemma outbound_reachable_inv: "outbound_step\<^sup>*\<^sup>* (outbound_new b, None) w \<Longrightarrow> outbound_inv b w"
proof (induction rule: rtranclp_induct)
  case base
  show ?case by (simp add: outbound_inv_def outbound_new_def outbound_frames_def)
qed (rule outbound_step_inv)

text \<open>
  A session's outbound queue never holds more frames or bytes than its budget, counts both exactly, frames in the
  writer's hand included, and refuses a frame exactly when a budget would be exceeded or the writer has gone:
  the channel behind it is never full on its own.
\<close>

theorem outbound_budget_exact:
  assumes "outbound_step\<^sup>*\<^sup>* (outbound_new b, None) (q, hand)"
  shows "oq_frames q = length (outbound_frames (q, hand)) \<and> oq_frames q \<le> sb_outbound_frames b \<and>
    oq_bytes q = sum_list (map (length \<circ> qf_bytes) (outbound_frames (q, hand))) \<and> oq_bytes q \<le> sb_outbound_bytes b \<and>
    (isl (fst (oq_try_send fid bytes q)) \<longleftrightarrow>
       oq_frames q = sb_outbound_frames b \<or> sb_outbound_bytes b < oq_bytes q + length bytes \<or> \<not> oq_writer_alive q)"
proof -
  have inv: "outbound_inv b (q, hand)" by (rule outbound_reachable_inv [OF assms])
  have "length (oq_channel q) \<le> oq_frames q"
    using inv by (simp add: outbound_inv_def outbound_frames_def)
  then show ?thesis
    using inv by (auto simp: outbound_inv_def oq_try_send_def)
qed

definition demo_budgets :: session_budgets where
  "demo_budgets = \<lparr>sb_outbound_frames = 1, sb_outbound_bytes = 8\<rparr>"

definition demo_outbound :: outbound_queue where
  "demo_outbound = snd (oq_try_send FrameBusiness [1, 2] (outbound_new demo_budgets))"

theorem outbound_budget_exact_witness:
  "outbound_step\<^sup>*\<^sup>* (outbound_new demo_budgets, None) (demo_outbound, None) \<and> oq_frames demo_outbound \<le> 1 \<and>
   isl (fst (oq_try_send FrameClose [] demo_outbound))"
proof -
  have run: "outbound_step\<^sup>*\<^sup>* (outbound_new demo_budgets, None) (demo_outbound, None)"
    unfolding demo_outbound_def by (rule r_into_rtranclp, rule out_send [OF prod.collapse [symmetric]])
  have "oq_frames demo_outbound = sb_outbound_frames demo_budgets" by code_simp
  then show ?thesis
    using outbound_budget_exact [OF run, of FrameClose "[]"] run by (simp add: demo_budgets_def)
qed

end
