(* ===== verification/Router_Routing.thy ===== *)
theory Router_Routing
  imports Router_Session
begin

text \<open>
  The candidate query of the router (\<open>router/src/routing/query.rs\<close>), its adapter to the wire names
  (\<open>router/src/dispatch/candidate.rs\<close>) and the session layer's side of it: the registration facts
  (\<open>router/src/session/layer.rs\<close>), the view and the revalidation read from the directory
  (\<open>router/src/supervisor/session_ports.rs\<close>).
\<close>

section \<open>Types\<close>

datatype dispatch_mode = Unary | ServerStream

record dispatch_capabilities =
  dc_unary :: bool
  dc_server_stream :: bool

definition default_capabilities :: dispatch_capabilities where
  "default_capabilities = \<lparr>dc_unary = False, dc_server_stream = False\<rparr>"

text \<open>The wire's dispatch mode capability has the same two values.\<close>

definition from_dispatch_modes :: "dispatch_mode list \<Rightarrow> dispatch_capabilities" where
  "from_dispatch_modes modes =
     fold (\<lambda>m c. case m of Unary \<Rightarrow> c\<lparr>dc_unary := True\<rparr> | ServerStream \<Rightarrow> c\<lparr>dc_server_stream := True\<rparr>) modes default_capabilities"

definition supports :: "dispatch_capabilities \<Rightarrow> dispatch_mode \<Rightarrow> bool" where
  "supports c mode = (case mode of Unary \<Rightarrow> dc_unary c | ServerStream \<Rightarrow> dc_server_stream c)"

record candidate_session =
  cse_session_epoch :: runtime_session_epoch
  cse_registered :: bool
  cse_registration_revision :: u64
  cse_cancelled :: bool
  cse_capabilities :: dispatch_capabilities
  cse_registered_build_ids :: "string list"
  cse_lazy_load :: bool
  cse_artifact_root :: "string option"

record candidate_directory_view =
  cv_revision :: "u64 option"
  cv_router_artifact_root :: "string option"
  cv_sessions :: "candidate_session list"

record candidate_query =
  cq_mode :: dispatch_mode
  cq_build_id :: string

record registered_session_lease =
  rl_session_epoch :: runtime_session_epoch
  rl_registration_revision :: u64
  rl_cancelled :: bool
  rl_capabilities :: dispatch_capabilities
  rl_registered_build_ids :: "string list"
  rl_lazy_load :: bool
  rl_artifact_root :: "string option"

record routing_query_counters =
  qc_queries :: u64
  qc_candidates_returned :: u64
  qc_excluded_cancelled :: u64
  qc_excluded_stale_revision :: u64
  qc_excluded_capability :: u64
  qc_excluded_build_id :: u64

definition default_query_counters :: routing_query_counters where
  "default_query_counters =
     \<lparr>qc_queries = 0, qc_candidates_returned = 0, qc_excluded_cancelled = 0, qc_excluded_stale_revision = 0,
      qc_excluded_capability = 0, qc_excluded_build_id = 0\<rparr>"

section \<open>Wire names\<close>

definition dispatch_mode_from_wire :: "string \<Rightarrow> dispatch_mode option" where
  "dispatch_mode_from_wire mode =
     (if mode = ''unary'' then Some Unary else if mode = ''serverStream'' then Some ServerStream else None)"

definition dispatch_mode_as_str :: "dispatch_mode \<Rightarrow> string" where
  "dispatch_mode_as_str mode = (case mode of Unary \<Rightarrow> ''unary'' | ServerStream \<Rightarrow> ''serverStream'')"

definition capabilities_from_wire_names :: "string list \<Rightarrow> dispatch_capabilities" where
  "capabilities_from_wire_names names = from_dispatch_modes (List.map_filter dispatch_mode_from_wire names)"

definition candidate_query_from_build_id :: "dispatch_mode \<Rightarrow> string option \<Rightarrow> candidate_query option" where
  "candidate_query_from_build_id mode build_id = map_option (\<lambda>b. \<lparr>cq_mode = mode, cq_build_id = b\<rparr>) build_id"

section \<open>The query\<close>

definition build_lease :: "candidate_session \<Rightarrow> registered_session_lease" where
  "build_lease s =
     \<lparr>rl_session_epoch = cse_session_epoch s, rl_registration_revision = cse_registration_revision s, rl_cancelled = False,
      rl_capabilities = cse_capabilities s, rl_registered_build_ids = cse_registered_build_ids s,
      rl_lazy_load = cse_lazy_load s, rl_artifact_root = cse_artifact_root s\<rparr>"

definition build_id_eligible :: "string option \<Rightarrow> candidate_query \<Rightarrow> candidate_session \<Rightarrow> bool" where
  "build_id_eligible router_root query s \<longleftrightarrow>
     list_ex (\<lambda>b. b = cq_build_id query) (cse_registered_build_ids s) \<or> (cse_lazy_load s \<and> cse_artifact_root s = router_root)"

definition project_session_with_capability ::
  "u64 option \<Rightarrow> string option \<Rightarrow> candidate_query \<Rightarrow> candidate_session \<Rightarrow> routing_query_counters \<Rightarrow> bool \<Rightarrow>
   registered_session_lease option \<times> routing_query_counters" where
  "project_session_with_capability view_revision router_root query s counters require_capability =
     (if \<not> cse_registered s then (None, counters)
      else if (case view_revision of Some v \<Rightarrow> cse_registration_revision s \<noteq> v | None \<Rightarrow> False) then
        (None, counters\<lparr>qc_excluded_stale_revision := inc_u64 (qc_excluded_stale_revision counters)\<rparr>)
      else if cse_cancelled s then (None, counters\<lparr>qc_excluded_cancelled := inc_u64 (qc_excluded_cancelled counters)\<rparr>)
      else if \<not> build_id_eligible router_root query s then
        (None, counters\<lparr>qc_excluded_build_id := inc_u64 (qc_excluded_build_id counters)\<rparr>)
      else if require_capability \<and> \<not> supports (cse_capabilities s) (cq_mode query) then
        (None, counters\<lparr>qc_excluded_capability := inc_u64 (qc_excluded_capability counters)\<rparr>)
      else (Some (build_lease s), counters))"

text \<open>One round of the loop over the view: the epochs seen, the leases pushed and the counters.\<close>

definition project_round ::
  "candidate_directory_view \<Rightarrow> candidate_query \<Rightarrow> bool \<Rightarrow> candidate_session \<Rightarrow>
   runtime_session_epoch set \<times> registered_session_lease list \<times> routing_query_counters \<Rightarrow>
   runtime_session_epoch set \<times> registered_session_lease list \<times> routing_query_counters" where
  "project_round view query require_capability s acc =
     (case acc of (seen, leases, counters) \<Rightarrow>
        if cse_session_epoch s \<in> seen then (seen, leases, counters)
        else
          (case project_session_with_capability (cv_revision view) (cv_router_artifact_root view) query s counters require_capability of
             (Some lease, c) \<Rightarrow>
               (insert (cse_session_epoch s) seen, leases @ [lease], c\<lparr>qc_candidates_returned := inc_u64 (qc_candidates_returned c)\<rparr>)
           | (None, c) \<Rightarrow> (insert (cse_session_epoch s) seen, leases, c)))"

definition project_sessions ::
  "candidate_directory_view \<Rightarrow> candidate_query \<Rightarrow> routing_query_counters \<Rightarrow> bool \<Rightarrow>
   registered_session_lease list \<times> routing_query_counters" where
  "project_sessions view query counters require_capability =
     snd (fold (project_round view query require_capability) (cv_sessions view) ({}, [], counters))"

definition query_with_counters ::
  "candidate_directory_view \<Rightarrow> candidate_query \<Rightarrow> registered_session_lease list \<times> routing_query_counters" where
  "query_with_counters view query = project_sessions view query (default_query_counters\<lparr>qc_queries := 1\<rparr>) True"

definition query_leases :: "candidate_directory_view \<Rightarrow> candidate_query \<Rightarrow> registered_session_lease list" where
  "query_leases view query = fst (query_with_counters view query)"

section \<open>The session layer's facts and views\<close>

record session_registration_facts =
  srf_dispatch :: dispatch_capabilities
  srf_registration :: registration_facts

definition default_session_facts :: session_registration_facts where
  "default_session_facts = \<lparr>srf_dispatch = default_capabilities, srf_registration = default_facts\<rparr>"

text \<open>The part of the session layer behind the query: the directory and the cached facts, each under its own lock.\<close>

record session_layer =
  sl_directory :: directory
  sl_registration_facts :: "(runtime_session_epoch, session_registration_facts) hash_map"
  sl_router_artifact_root :: "string option"

text \<open>
  The lock sections on the facts: the cache entry, the write to the record of the directory, and the read of
  the cache. Another call can come between two sections, so a snapshot may see a cached entry whose record is
  not written yet.
\<close>

definition cache_registration_facts :: "runtime_session_epoch \<Rightarrow> session_registration_facts \<Rightarrow> session_layer \<Rightarrow> session_layer" where
  "cache_registration_facts e facts l = l\<lparr>sl_registration_facts := AList.update e facts (sl_registration_facts l)\<rparr>"

definition write_registration_facts :: "runtime_session_epoch \<Rightarrow> session_registration_facts \<Rightarrow> session_layer \<Rightarrow> session_layer" where
  "write_registration_facts e facts l =
     l\<lparr>sl_directory := modify_record e (update_registration_facts (srf_registration facts)) (sl_directory l)\<rparr>"

definition cached_registration_facts :: "runtime_session_epoch \<Rightarrow> session_layer \<Rightarrow> session_registration_facts option" where
  "cached_registration_facts e l = map_of (sl_registration_facts l) e"

definition record_registration_facts :: "runtime_session_epoch \<Rightarrow> session_registration_facts \<Rightarrow> session_layer \<Rightarrow> session_layer" where
  "record_registration_facts e facts l = write_registration_facts e facts (cache_registration_facts e facts l)"

definition sync_registration_facts :: "runtime_session_epoch \<Rightarrow> session_layer \<Rightarrow> session_layer" where
  "sync_registration_facts e l =
     (case cached_registration_facts e l of
        None \<Rightarrow> l
      | Some facts \<Rightarrow> write_registration_facts e facts l)"

lemmas lock_section_defs = cache_registration_facts_def write_registration_facts_def cached_registration_facts_def

definition remove_registration_facts :: "runtime_session_epoch \<Rightarrow> session_layer \<Rightarrow> session_layer" where
  "remove_registration_facts e l = l\<lparr>sl_registration_facts := AList.delete e (sl_registration_facts l)\<rparr>"

definition layer_candidates_by_build_id :: "string \<Rightarrow> session_layer \<Rightarrow> runtime_session_epoch list" where
  "layer_candidates_by_build_id build_id l = dir_candidates_by_build_id build_id (sl_router_artifact_root l) (sl_directory l)"

definition candidate_of ::
  "(runtime_session_epoch, session_registration_facts) hash_map \<Rightarrow> directory \<Rightarrow> runtime_session_epoch \<Rightarrow> candidate_session option" where
  "candidate_of registration_facts d e =
     (case dir_record d e of
        None \<Rightarrow> None
      | Some r \<Rightarrow>
          let facts = (case map_of registration_facts e of Some f \<Rightarrow> f | None \<Rightarrow> default_session_facts)
          in Some \<lparr>cse_session_epoch = e, cse_registered = sr_routable r, cse_registration_revision = sr_revision r,
                   cse_cancelled = sr_cancelled r, cse_capabilities = srf_dispatch facts,
                   cse_registered_build_ids = rf_registered_build_ids (srf_registration facts),
                   cse_lazy_load = rf_lazy_load (srf_registration facts),
                   cse_artifact_root = rf_artifact_root (srf_registration facts)\<rparr>)"

definition snapshot_directory_view ::
  "directory \<Rightarrow> (runtime_session_epoch, session_registration_facts) hash_map \<Rightarrow> string option \<Rightarrow> candidate_directory_view" where
  "snapshot_directory_view d registration_facts router_root =
     \<lparr>cv_revision = None, cv_router_artifact_root = router_root,
      cv_sessions = sort_key (\<lambda>s. epoch_order (cse_session_epoch s))
        (List.map_filter (candidate_of registration_facts d) (map snd (rd_current_by_replica d)))\<rparr>"

datatype revalidate_outcome = RevalOk | RevalCancelled | RevalStaleRevision | RevalTupleMismatch

text \<open>Without a session layer the view is empty and the revalidation fails.\<close>

definition session_view :: "session_layer option \<Rightarrow> string option \<Rightarrow> candidate_directory_view" where
  "session_view layer router_root =
     (case layer of
        None \<Rightarrow> \<lparr>cv_revision = None, cv_router_artifact_root = router_root, cv_sessions = []\<rparr>
      | Some l \<Rightarrow> snapshot_directory_view (sl_directory l) (sl_registration_facts l) router_root)"

definition directory_revalidate :: "session_layer option \<Rightarrow> registered_session_lease \<Rightarrow> revalidate_outcome" where
  "directory_revalidate layer lease =
     (case layer of
        None \<Rightarrow> RevalStaleRevision
      | Some l \<Rightarrow>
          (case dir_record (sl_directory l) (rl_session_epoch lease) of
             None \<Rightarrow> RevalStaleRevision
           | Some r \<Rightarrow>
               if sr_cancelled r then RevalCancelled
               else if sr_revision r \<noteq> rl_registration_revision lease then RevalStaleRevision else RevalOk))"

section \<open>What a query returns\<close>

text \<open>The sessions of a view with only the first of each epoch, and the rule a candidate meets.\<close>

fun first_sessions :: "runtime_session_epoch set \<Rightarrow> candidate_session list \<Rightarrow> candidate_session list" where
  "first_sessions seen [] = []"
| "first_sessions seen (s # ss) =
     (if cse_session_epoch s \<in> seen then first_sessions seen ss
      else s # first_sessions (insert (cse_session_epoch s) seen) ss)"

definition revision_current :: "candidate_directory_view \<Rightarrow> candidate_session \<Rightarrow> bool" where
  "revision_current view s \<longleftrightarrow> (case cv_revision view of Some v \<Rightarrow> cse_registration_revision s = v | None \<Rightarrow> True)"

definition eligible :: "candidate_directory_view \<Rightarrow> candidate_query \<Rightarrow> candidate_session \<Rightarrow> bool" where
  "eligible view query s \<longleftrightarrow>
     cse_registered s \<and> revision_current view s \<and> \<not> cse_cancelled s \<and>
     build_id_eligible (cv_router_artifact_root view) query s \<and> supports (cse_capabilities s) (cq_mode query)"

definition counted :: "routing_query_counters \<Rightarrow> nat" where
  "counted c = qc_candidates_returned c + qc_excluded_cancelled c + qc_excluded_stale_revision c + qc_excluded_capability c + qc_excluded_build_id c"

lemma project_session_lease:
  "fst (project_session_with_capability (cv_revision view) (cv_router_artifact_root view) query s c True) =
     (if eligible view query s then Some (build_lease s) else None)"
  by (simp add: project_session_with_capability_def eligible_def revision_current_def split: option.splits)

lemma project_session_counters:
  assumes "counted c < u64_max"
    and "project_session_with_capability (cv_revision view) (cv_router_artifact_root view) query s c True = (l, c')"
  shows "counted c' = counted c + (if cse_registered s \<and> l = None then 1 else 0)"
    and "qc_candidates_returned c' = qc_candidates_returned c" "qc_queries c' = qc_queries c"
  using assms
  by (auto simp: project_session_with_capability_def counted_def split: if_splits option.splits)

lemma project_round_apply:
  "project_round view query req s (seen, leases, c) =
     (if cse_session_epoch s \<in> seen then (seen, leases, c)
      else
        (case project_session_with_capability (cv_revision view) (cv_router_artifact_root view) query s c req of
           (Some lease, c) \<Rightarrow>
             (insert (cse_session_epoch s) seen, leases @ [lease], c\<lparr>qc_candidates_returned := inc_u64 (qc_candidates_returned c)\<rparr>)
         | (None, c) \<Rightarrow> (insert (cse_session_epoch s) seen, leases, c)))"
  by (simp add: project_round_def)

lemma project_fold_leases:
  "fst (snd (fold (project_round view query True) ss (seen, leases, c))) =
     leases @ map build_lease (filter (eligible view query) (first_sessions seen ss))"
proof (induction ss arbitrary: seen leases c)
  case (Cons s ss)
  show ?case
    using project_session_lease [of view query s c]
    by (cases "project_session_with_capability (cv_revision view) (cv_router_artifact_root view) query s c True")
      (auto simp: project_round_apply Cons.IH split: option.splits)
qed simp

lemma project_fold_counters:
  assumes "counted c + length ss \<le> u64_max"
  shows "let c' = snd (snd (fold (project_round view query True) ss (seen, leases, c)))
    in qc_candidates_returned c' = qc_candidates_returned c + length (filter (eligible view query) (first_sessions seen ss)) \<and>
       counted c' = counted c + length (filter cse_registered (first_sessions seen ss)) \<and> qc_queries c' = qc_queries c"
  using assms
proof (induction ss arbitrary: seen leases c)
  case (Cons s ss)
  let ?p = "project_session_with_capability (cv_revision view) (cv_router_artifact_root view) query s c True"
  obtain l c1 where p: "?p = (l, c1)" by (cases ?p)
  have l: "l = (if eligible view query s then Some (build_lease s) else None)"
    using project_session_lease [of view query s c] p by simp
  have c1: "counted c1 = counted c + (if cse_registered s \<and> l = None then 1 else 0)"
    "qc_candidates_returned c1 = qc_candidates_returned c" "qc_queries c1 = qc_queries c"
    using project_session_counters [OF _ p] Cons.prems by auto
  have reg: "eligible view query s \<Longrightarrow> cse_registered s" by (simp add: eligible_def)
  define c2 where "c2 = (if l = None then c1 else c1\<lparr>qc_candidates_returned := inc_u64 (qc_candidates_returned c1)\<rparr>)"
  have small: "qc_candidates_returned c1 < u64_max" using Cons.prems c1(2) by (simp add: counted_def)
  have c2: "counted c2 = counted c + (if cse_registered s then 1 else 0)" "qc_queries c2 = qc_queries c"
    "qc_candidates_returned c2 = qc_candidates_returned c + (if eligible view query s then 1 else 0)"
    using c1 l reg small by (auto simp: c2_def counted_def)
  show ?case
  proof (cases "cse_session_epoch s \<in> seen")
    case True
    then show ?thesis using Cons.IH [of c seen leases] Cons.prems by (simp add: project_round_apply)
  next
    case False
    then have "project_round view query True s (seen, leases, c) =
        (insert (cse_session_epoch s) seen, if l = None then leases else leases @ [the l], c2)"
      by (auto simp: project_round_apply p c2_def split: option.splits)
    then show ?thesis
      using Cons.IH [of c2 "insert (cse_session_epoch s) seen" "if l = None then leases else leases @ [the l]"] Cons.prems c2 False
      by (simp add: Let_def)
  qed
qed simp

text \<open>
  A candidate query returns exactly one lease for each session of the view that is registered, at the view's
  revision, not cancelled, able to run the build and capable of the mode, in the view's order and never twice;
  its counters account for every registered session exactly once.
\<close>

theorem query_returns_exact:
  assumes "length (cv_sessions view) \<le> u64_max"
  shows "query_leases view query = map build_lease (filter (eligible view query) (first_sessions {} (cv_sessions view))) \<and>
    distinct (map rl_session_epoch (query_leases view query)) \<and>
    (let c = snd (query_with_counters view query)
     in qc_queries c = 1 \<and> qc_candidates_returned c = length (query_leases view query) \<and>
        counted c = length (filter cse_registered (first_sessions {} (cv_sessions view))))"
proof -
  have leases: "query_leases view query = map build_lease (filter (eligible view query) (first_sessions {} (cv_sessions view)))"
    by (simp add: query_leases_def query_with_counters_def project_sessions_def project_fold_leases)
  have "distinct (map cse_session_epoch (first_sessions seen ss)) \<and> cse_session_epoch ` set (first_sessions seen ss) \<inter> seen = {}" for seen ss
    by (induction seen ss rule: first_sessions.induct) auto
  then have "distinct (map cse_session_epoch (filter (eligible view query) (first_sessions {} (cv_sessions view))))"
    by (simp add: distinct_map_filter)
  then have "distinct (map rl_session_epoch (query_leases view query))"
    by (simp add: leases build_lease_def o_def)
  moreover define c0 where "c0 = default_query_counters\<lparr>qc_queries := 1\<rparr>"
  have c0: "counted c0 = 0" "qc_candidates_returned c0 = 0" "qc_queries c0 = 1"
    by (simp_all add: c0_def counted_def default_query_counters_def)
  have "snd (query_with_counters view query) = snd (snd (fold (project_round view query True) (cv_sessions view) ({}, [], c0)))"
    by (simp add: query_with_counters_def project_sessions_def c0_def)
  moreover note project_fold_counters [of c0 "cv_sessions view" view query "{}" "[]"]
  ultimately show ?thesis
    using assms by (simp add: leases c0 Let_def)
qed

section \<open>The query and the directory agree\<close>

lemma epoch_order_inj: "epoch_order x = epoch_order y \<longleftrightarrow> x = y"
  by (cases x; cases y) (simp add: epoch_order_def)

lemma epoch_lists_equal:
  assumes "sorted (map epoch_order xs)" "distinct xs" "sorted (map epoch_order ys)" "distinct ys" "set xs = set ys"
  shows "xs = ys"
proof -
  have inj: "inj epoch_order" by (rule injI) (simp add: epoch_order_inj)
  have "map epoch_order xs = map epoch_order ys"
    using assms inj by (intro sorted_distinct_set_unique) (simp_all add: distinct_map inj_on_subset [OF inj])
  then show ?thesis using inj by (simp add: inj_map_eq_map)
qed

text \<open>The cached facts of a routable session are those of its record.\<close>

definition facts_agree :: "(runtime_session_epoch, session_registration_facts) hash_map \<Rightarrow> directory \<Rightarrow> bool" where
  "facts_agree F d \<longleftrightarrow>
     (\<forall>e f r. map_of F e = Some f \<longrightarrow> dir_record d e = Some r \<longrightarrow> sr_routable r \<longrightarrow> sr_facts r = srf_registration f)"

definition facts_of :: "(runtime_session_epoch, session_registration_facts) hash_map \<Rightarrow> runtime_session_epoch \<Rightarrow> session_registration_facts" where
  "facts_of F e = (case map_of F e of Some f \<Rightarrow> f | None \<Rightarrow> default_session_facts)"

lemma facts_agree_record:
  "facts_agree (sl_registration_facts l) (sl_directory l) \<Longrightarrow>
   facts_agree (sl_registration_facts (record_registration_facts e f l)) (sl_directory (record_registration_facts e f l))"
  by (auto simp: facts_agree_def record_registration_facts_def lock_section_defs update_conv' dir_record_modify update_registration_facts_def split: if_splits)

lemma facts_agree_remove:
  "facts_agree (sl_registration_facts l) (sl_directory l) \<Longrightarrow>
   facts_agree (sl_registration_facts (remove_registration_facts e l)) (sl_directory (remove_registration_facts e l))"
  by (auto simp: facts_agree_def remove_registration_facts_def delete_conv' split: if_splits)

lemma facts_agree_publish:
  assumes "facts_agree F d" "dir_publish_pending e permits d = (r, d')"
  shows "facts_agree F d'"
proof (cases r)
  case (Inl err)
  then show ?thesis using assms by (auto simp: dir_publish_pending_def Let_def split: if_splits)
next
  case (Inr p)
  note new = publish_new [OF assms(2) [unfolded Inr]]
  have "dir_record d' x = (if x = e then Some (session_record_new (pp_revision p) permits) else dir_record (cancel_current e d) x)" for x
    by (simp add: new(2) dir_record_def update_conv')
  moreover have "facts_agree F (cancel_current e d)"
    using assms(1) by (auto simp: facts_agree_def cancel_current_def dir_record_modify split: option.splits if_splits)
  ultimately show ?thesis
    by (auto simp: facts_agree_def session_record_new_def split: if_splits)
qed

text \<open>After a publication the synchronised record carries the cached facts, so marking it as registered keeps the agreement.\<close>

lemma facts_agree_register:
  assumes "facts_agree (sl_registration_facts l) (sl_directory l)"
  shows "facts_agree (sl_registration_facts l) (snd (dir_mark_registered e (sl_directory (sync_registration_facts e l))))"
proof (cases "map_of (sl_registration_facts l) e")
  case None
  then show ?thesis
    using assms by (auto simp: facts_agree_def sync_registration_facts_def lock_section_defs dir_mark_registered_def dir_record_modify split: option.splits if_splits)
next
  case (Some f)
  then show ?thesis
    using assms
    by (auto simp: facts_agree_def sync_registration_facts_def lock_section_defs dir_mark_registered_def dir_record_modify update_registration_facts_def
        split: option.splits if_splits)
qed

lemma set_map_filter_iff: "y \<in> set (List.map_filter f xs) \<longleftrightarrow> (\<exists>x \<in> set xs. f x = Some y)"
  by (induction xs) (auto simp: List.map_filter_simps split: option.splits)

lemma current_session_iff:
  assumes "directory_inv d"
  shows "e \<in> set (map snd (rd_current_by_replica d)) \<longleftrightarrow> dir_current d (replica_id e) = Some e"
proof
  assume "e \<in> set (map snd (rd_current_by_replica d))"
  then obtain r where "dir_current d r = Some e"
    using assms by (auto simp: directory_inv_def dir_current_def)
  then show "dir_current d (replica_id e) = Some e" using current_has_record(1) [OF assms] by blast
next
  assume "dir_current d (replica_id e) = Some e"
  then have "(replica_id e, e) \<in> set (rd_current_by_replica d)" by (auto simp: dir_current_def dest: map_of_SomeD)
  then show "e \<in> set (map snd (rd_current_by_replica d))" by force
qed

lemma view_sessions:
  assumes "directory_inv d"
  shows "s \<in> set (cv_sessions (snapshot_directory_view d F root)) \<longleftrightarrow>
    (\<exists>e. dir_current d (replica_id e) = Some e \<and> candidate_of F d e = Some s)"
proof -
  have "s \<in> set (cv_sessions (snapshot_directory_view d F root)) \<longleftrightarrow>
      (\<exists>e \<in> set (map snd (rd_current_by_replica d)). candidate_of F d e = Some s)"
    by (simp add: snapshot_directory_view_def set_map_filter_iff del: set_map)
  then show ?thesis using current_session_iff [OF assms] by blast
qed

lemma candidate_of_epoch: "candidate_of F d e = Some s \<Longrightarrow> cse_session_epoch s = e"
  by (auto simp: candidate_of_def Let_def split: option.splits)

lemma map_filter_epochs:
  "distinct es \<Longrightarrow> distinct (map cse_session_epoch (List.map_filter (candidate_of F d) es)) \<and>
     cse_session_epoch ` set (List.map_filter (candidate_of F d) es) \<subseteq> set es"
proof (induction es)
  case (Cons e es)
  show ?case
  proof (cases "candidate_of F d e")
    case (Some s)
    then show ?thesis using Cons candidate_of_epoch [OF Some] by (auto simp: List.map_filter_simps)
  qed (use Cons in \<open>auto simp: List.map_filter_simps\<close>)
qed (simp add: List.map_filter_simps)

lemma current_sessions_distinct:
  assumes "directory_inv d"
  shows "distinct (map snd (rd_current_by_replica d))"
proof -
  have "inj_on snd (set (rd_current_by_replica d))"
  proof (rule inj_onI)
    fix x y
    assume xy: "x \<in> set (rd_current_by_replica d)" "y \<in> set (rd_current_by_replica d)" "snd x = snd y"
    have mem: "dir_current d r = Some e" if "(r, e) \<in> set (rd_current_by_replica d)" for r e
      using assms that by (simp add: directory_inv_def dir_current_def)
    have "dir_current d (fst x) = Some (snd x)" "dir_current d (fst y) = Some (snd y)"
      using xy(1,2) by (auto intro: mem)
    then have "fst x = fst y" using current_has_record(1) [OF assms] xy(3) by metis
    then show "x = y" using xy(3) by (simp add: prod_eq_iff)
  qed
  moreover have "distinct (rd_current_by_replica d)"
    using assms by (simp add: directory_inv_def distinct_map)
  ultimately show ?thesis by (simp add: distinct_map)
qed

lemma view_distinct:
  assumes "directory_inv d"
  shows "distinct (map cse_session_epoch (cv_sessions (snapshot_directory_view d F root)))"
  using map_filter_epochs [OF current_sessions_distinct [OF assms], of F d]
  by (simp add: snapshot_directory_view_def distinct_map)

lemma first_sessions_distinct: "distinct (map cse_session_epoch ss) \<Longrightarrow> cse_session_epoch ` set ss \<inter> seen = {} \<Longrightarrow> first_sessions seen ss = ss"
  by (induction ss arbitrary: seen) auto

text \<open>What the cached facts of a session admit: the build, by registration or by lazy loading from the same root, and the mode.\<close>

definition facts_admit :: "string option \<Rightarrow> candidate_query \<Rightarrow> session_registration_facts \<Rightarrow> bool" where
  "facts_admit root query f \<longleftrightarrow>
     (list_ex (\<lambda>b. b = cq_build_id query) (rf_registered_build_ids (srf_registration f)) \<or>
      (rf_lazy_load (srf_registration f) \<and> rf_artifact_root (srf_registration f) = root)) \<and>
     supports (srf_dispatch f) (cq_mode query)"

lemma eligible_candidate:
  assumes "candidate_of F d e = Some s" "cv_revision view = None"
  shows "eligible view query s \<longleftrightarrow>
    (\<exists>r. dir_record d e = Some r \<and> sr_routable r \<and> \<not> sr_cancelled r) \<and> facts_admit (cv_router_artifact_root view) query (facts_of F e)"
  using assms
  by (auto simp: candidate_of_def eligible_def facts_of_def Let_def revision_current_def build_id_eligible_def facts_admit_def split: option.splits)

lemma query_epochs:
  assumes inv: "directory_inv d"
  shows "map rl_session_epoch (query_leases (snapshot_directory_view d F root) query) =
    filter (\<lambda>e. facts_admit root query (facts_of F e)) (dir_candidates d)"
proof -
  let ?view = "snapshot_directory_view d F root"
  let ?ss = "filter (eligible ?view query) (cv_sessions ?view)"
  have view: "cv_revision ?view = None" "cv_router_artifact_root ?view = root" by (simp_all add: snapshot_directory_view_def)
  have epochs: "map rl_session_epoch (query_leases ?view query) = map cse_session_epoch ?ss"
    using first_sessions_distinct [OF view_distinct [OF inv, of F root], of "{}"]
    by (simp add: query_leases_def query_with_counters_def project_sessions_def project_fold_leases build_lease_def o_def)
  have "map cse_session_epoch ?ss = filter (\<lambda>e. facts_admit root query (facts_of F e)) (dir_candidates d)" (is "_ = ?cs")
  proof (rule epoch_lists_equal)
    have "sorted (map (\<lambda>s. epoch_order (cse_session_epoch s)) (cv_sessions ?view))" by (simp add: snapshot_directory_view_def)
    then show "sorted (map epoch_order (map cse_session_epoch ?ss))"
      using sorted_filter [of "\<lambda>s. epoch_order (cse_session_epoch s)"] by (simp add: o_def)
    show "distinct (map cse_session_epoch ?ss)" using view_distinct [OF inv] by (rule distinct_map_filter)
    show "sorted (map epoch_order ?cs)" by (rule sorted_filter) (simp add: dir_candidates_def)
    show "distinct ?cs" using candidates_distinct [OF inv] by (simp add: distinct_map)
    show "set (map cse_session_epoch ?ss) = set ?cs"
    proof (rule set_eqI)
      fix e
      have left: "e \<in> set (map cse_session_epoch ?ss) \<longleftrightarrow>
          (\<exists>s. dir_current d (replica_id e) = Some e \<and> candidate_of F d e = Some s \<and> eligible ?view query s)"
        using view_sessions [OF inv, of _ F root] candidate_of_epoch [of F d] by (force simp: image_iff)
      have right: "e \<in> set ?cs \<longleftrightarrow>
          dir_current d (replica_id e) = Some e \<and> (\<exists>r. dir_record d e = Some r \<and> sr_routable r \<and> \<not> sr_cancelled r) \<and> facts_admit root query (facts_of F e)"
        using candidates_iff [OF inv] candidates_current [OF inv] by auto
      show "e \<in> set (map cse_session_epoch ?ss) \<longleftrightarrow> e \<in> set ?cs"
      proof (cases "candidate_of F d e")
        case None
        then have "dir_record d e = None" by (simp add: candidate_of_def Let_def split: option.splits)
        then show ?thesis unfolding left right using None by simp
      next
        case (Some s)
        show ?thesis
          unfolding left right Some using eligible_candidate [OF Some view(1), of query] view(2) by simp
      qed
    qed
  qed
  then show ?thesis using epochs by simp
qed

text \<open>Where the cache agrees with the records, the directory's own selection by build picks the same sessions.\<close>

lemma candidates_by_build:
  assumes inv: "directory_inv d" and agree: "facts_agree F d"
  shows "filter (\<lambda>e. supports (srf_dispatch (facts_of F e)) (cq_mode query)) (dir_candidates_by_build_id (cq_build_id query) root d) =
    filter (\<lambda>e. facts_admit root query (facts_of F e)) (dir_candidates d)" (is "?L = ?R")
proof (rule epoch_lists_equal)
  show "sorted (map epoch_order ?L)" by (rule sorted_filter) (simp add: dir_candidates_by_build_id_def)
  show "distinct ?L" using inv by (simp add: dir_candidates_by_build_id_def directory_inv_def distinct_fst_filter)
  show "sorted (map epoch_order ?R)" by (rule sorted_filter) (simp add: dir_candidates_def)
  show "distinct ?R" using candidates_distinct [OF inv] by (simp add: distinct_map)
  show "set ?L = set ?R"
  proof (rule set_eqI)
    fix e
    have left: "e \<in> set ?L \<longleftrightarrow>
        (\<exists>r. dir_record d e = Some r \<and> sr_routable r \<and> \<not> sr_cancelled r \<and> dir_current d (replica_id e) = Some e \<and>
         (list_ex (\<lambda>b. b = cq_build_id query) (rf_registered_build_ids (sr_facts r)) \<or>
          (rf_lazy_load (sr_facts r) \<and> rf_artifact_root (sr_facts r) = root)) \<and> supports (srf_dispatch (facts_of F e)) (cq_mode query))"
      using inv by (force simp: dir_candidates_by_build_id_def directory_inv_def sessions_get)
    have right: "e \<in> set ?R \<longleftrightarrow> dir_current d (replica_id e) = Some e \<and> (\<exists>r. dir_record d e = Some r \<and> sr_routable r \<and> \<not> sr_cancelled r) \<and>
        facts_admit root query (facts_of F e)"
      using candidates_iff [OF inv] candidates_current [OF inv] by auto
    show "e \<in> set ?L \<longleftrightarrow> e \<in> set ?R"
    proof (cases "map_of F e")
      case None
      then have "\<not> supports (srf_dispatch (facts_of F e)) (cq_mode query)"
        by (simp add: facts_of_def default_session_facts_def default_capabilities_def supports_def split: dispatch_mode.split)
      then show ?thesis unfolding left right by (simp add: facts_admit_def)
    next
      case (Some f)
      show ?thesis
      proof (cases "\<exists>r. dir_record d e = Some r \<and> sr_routable r")
        case True
        then obtain r where r: "dir_record d e = Some r" "sr_routable r" by blast
        then have "sr_facts r = srf_registration (facts_of F e)"
          using agree Some by (simp add: facts_agree_def facts_of_def)
        then show ?thesis unfolding left right using r by (auto simp: facts_admit_def)
      next
        case False
        then show ?thesis unfolding left right by auto
      qed
    qed
  qed
qed

text \<open>C32: 
  A dispatcher query of a snapshot of any reachable directory with any cached facts returns, in order, exactly
  the directory's candidates whose cached facts admit the build and the mode: every routable session that is
  not cancelled, whose facts list the build or allow it to be loaded lazily from the router's artifact root,
  and whose dispatch capabilities cover the mode. Where moreover the routable records carry the cached facts
  (the two are under two locks, so a view taken in the middle of a refresh may see them differ), these are exactly the sessions that the
  directory's own selection by build gives and that support the mode.
\<close>

theorem query_agrees_with_directory:
  assumes "directory_step\<^sup>*\<^sup>* (dir_new manifest) d"
  shows "map rl_session_epoch (query_leases (snapshot_directory_view d F root) query) =
      filter (\<lambda>e. facts_admit root query (facts_of F e)) (dir_candidates d) \<and>
    (facts_agree F d \<longrightarrow>
     map rl_session_epoch (query_leases (snapshot_directory_view d F root) query) =
       filter (\<lambda>e. supports (srf_dispatch (facts_of F e)) (cq_mode query)) (dir_candidates_by_build_id (cq_build_id query) root d))"
  using query_epochs [OF directory_reachable_inv [OF assms], of F root query]
    candidates_by_build [OF directory_reachable_inv [OF assms], of F query root] by simp

section \<open>A query\<close>

definition demo_session_facts :: session_registration_facts where
  "demo_session_facts =
     \<lparr>srf_dispatch = \<lparr>dc_unary = True, dc_server_stream = False\<rparr>,
      srf_registration = \<lparr>rf_registered_build_ids = [''b1''], rf_lazy_load = False, rf_artifact_root = None\<rparr>\<rparr>"

definition demo_layer :: session_layer where
  "demo_layer = record_registration_facts (demo_epoch 2) demo_session_facts
     \<lparr>sl_directory = demo_dir, sl_registration_facts = [], sl_router_artifact_root = Some ''root''\<rparr>"

definition demo_query :: "dispatch_mode \<Rightarrow> candidate_query" where
  "demo_query mode = \<lparr>cq_mode = mode, cq_build_id = ''b1''\<rparr>"

definition demo_view :: candidate_directory_view where
  "demo_view = session_view (Some demo_layer) (Some ''root'')"

lemma demo_layer_reachable: "directory_step\<^sup>*\<^sup>* (dir_new default_installed) (sl_directory demo_layer)"
  using rtranclp.rtrancl_into_rtrancl [OF demo_dir_reachable dir_step_facts, of "demo_epoch 2" "srf_registration demo_session_facts"]
  by (simp add: demo_layer_def record_registration_facts_def lock_section_defs)

lemma demo_layer_agrees: "facts_agree (sl_registration_facts demo_layer) (sl_directory demo_layer)"
  unfolding demo_layer_def by (rule facts_agree_record) (simp add: facts_agree_def)

theorem query_returns_exact_witness:
  "length (cv_sessions demo_view) = 1 \<and> map rl_session_epoch (query_leases demo_view (demo_query Unary)) = [demo_epoch 2] \<and>
   counted (snd (query_with_counters demo_view (demo_query ServerStream))) = 1"
proof -
  have len: "length (cv_sessions demo_view) = 1" by code_simp
  then have "length (cv_sessions demo_view) \<le> u64_max" by (simp add: u64_max_def)
  note exact = query_returns_exact [OF this]
  have "length (filter cse_registered (first_sessions {} (cv_sessions demo_view))) = 1"
    "map rl_session_epoch (map build_lease (filter (eligible demo_view (demo_query Unary)) (first_sessions {} (cv_sessions demo_view)))) = [demo_epoch 2]"
    by code_simp+
  then show ?thesis
    using exact [of "demo_query Unary"] exact [of "demo_query ServerStream"] len by (simp add: Let_def)
qed

text \<open>The second directory is the state between the two lock sections of a refresh: the cache is ahead of the record.\<close>

theorem query_agrees_with_directory_witness:
  "directory_step\<^sup>*\<^sup>* (dir_new default_installed) (sl_directory demo_layer) \<and>
   facts_agree (sl_registration_facts demo_layer) (sl_directory demo_layer) \<and>
   map rl_session_epoch (query_leases (snapshot_directory_view (sl_directory demo_layer) (sl_registration_facts demo_layer) (Some ''root'')) (demo_query Unary)) =
     [demo_epoch 2] \<and>
   dir_candidates_by_build_id ''b1'' (Some ''root'') demo_dir = [] \<and>
   map rl_session_epoch (query_leases (snapshot_directory_view demo_dir (sl_registration_facts demo_layer) (Some ''root'')) (demo_query Unary)) =
     [demo_epoch 2]"
proof -
  have "filter (\<lambda>e. supports (srf_dispatch (facts_of (sl_registration_facts demo_layer) e)) (cq_mode (demo_query Unary)))
      (dir_candidates_by_build_id (cq_build_id (demo_query Unary)) (Some ''root'') (sl_directory demo_layer)) = [demo_epoch 2]"
    by code_simp
  then have first: "map rl_session_epoch (query_leases (snapshot_directory_view (sl_directory demo_layer) (sl_registration_facts demo_layer)
      (Some ''root'')) (demo_query Unary)) = [demo_epoch 2]"
    using query_agrees_with_directory [OF demo_layer_reachable, of "sl_registration_facts demo_layer" "Some ''root''" "demo_query Unary"]
      demo_layer_agrees by (elim conjE) (simp only: simp_thms)
  have "filter (\<lambda>e. facts_admit (Some ''root'') (demo_query Unary) (facts_of (sl_registration_facts demo_layer) e)) (dir_candidates demo_dir) =
      [demo_epoch 2]"
    by code_simp
  then have "map rl_session_epoch (query_leases (snapshot_directory_view demo_dir (sl_registration_facts demo_layer)
      (Some ''root'')) (demo_query Unary)) = [demo_epoch 2]"
    using query_agrees_with_directory [OF demo_dir_reachable, of "sl_registration_facts demo_layer" "Some ''root''" "demo_query Unary"] by simp
  moreover have "dir_candidates_by_build_id ''b1'' (Some ''root'') demo_dir = []" by code_simp
  ultimately show ?thesis using first demo_layer_reachable demo_layer_agrees by simp
qed

end
