(* ===== verification/Router_Admission.thy ===== *)
theory Router_Admission
  imports Router_Routing Owner_Inventory
begin

text \<open>
  The router's admission pool (\<open>router/src/dispatch/admission.rs\<close>): the capacity of each runtime session, the
  round-robin cursor, and the affine reservations and permits that give capacity back. A call that would
  panic returns \<open>None\<close>.
\<close>

section \<open>Pool\<close>

record admission_counters =
  ac_releases :: u64
  ac_queue_full_rejects :: u64
  ac_revalidate_failures :: u64
  ac_reselects :: u64
  ac_no_candidate_rejects :: u64
  ac_duplicate_request_id_rejects :: u64

definition default_admission_counters :: admission_counters where
  "default_admission_counters =
     \<lparr>ac_releases = 0, ac_queue_full_rejects = 0, ac_revalidate_failures = 0, ac_reselects = 0,
      ac_no_candidate_rejects = 0, ac_duplicate_request_id_rejects = 0\<rparr>"

record admission_pool =
  ap_max_concurrency :: usize
  ap_in_flight :: "(runtime_session_epoch, usize) hash_map"
  ap_cursor :: usize
  ap_counters :: admission_counters

definition pool_in_flight :: "admission_pool \<Rightarrow> runtime_session_epoch \<Rightarrow> usize" where
  "pool_in_flight p e = (case map_of (ap_in_flight p) e of Some n \<Rightarrow> n | None \<Rightarrow> 0)"

definition capacity_available_for :: "admission_pool \<Rightarrow> runtime_session_epoch \<Rightarrow> bool" where
  "capacity_available_for p e \<longleftrightarrow> pool_in_flight p e < ap_max_concurrency p"

definition capacity_available :: "admission_pool \<Rightarrow> registered_session_lease \<Rightarrow> bool" where
  "capacity_available p lease \<longleftrightarrow> pool_in_flight p (rl_session_epoch lease) < ap_max_concurrency p"

definition pool_new :: "usize \<Rightarrow> admission_pool option" where
  "pool_new max_concurrency =
     (if 1 \<le> max_concurrency then
        Some \<lparr>ap_max_concurrency = max_concurrency, ap_in_flight = [], ap_cursor = 0, ap_counters = default_admission_counters\<rparr>
      else None)"

definition permits_held :: "admission_pool \<Rightarrow> usize" where
  "permits_held p = sum_list (map snd (ap_in_flight p))"

section \<open>Reservations and permits\<close>

record reservation =
  rv_session :: runtime_session_epoch
  rv_released :: bool

record permit =
  pm_session :: runtime_session_epoch
  pm_released :: bool

record selected_lease =
  sel_lease :: registered_session_lease
  sel_reservation :: reservation

definition count_in_flight :: "runtime_session_epoch \<Rightarrow> admission_pool \<Rightarrow> admission_pool" where
  "count_in_flight e p = p\<lparr>ap_in_flight := AList.update e (pool_in_flight p e + 1) (ap_in_flight p)\<rparr>"

definition reserve_locked :: "registered_session_lease \<Rightarrow> admission_pool \<Rightarrow> reservation \<times> admission_pool" where
  "reserve_locked lease p =
     (\<lparr>rv_session = rl_session_epoch lease, rv_released = False\<rparr>, count_in_flight (rl_session_epoch lease) p)"

text \<open>A missing entry fails the \<open>expect\<close>; an entry of zero, which the subtraction could not take, fails as well.\<close>

definition release_permit :: "runtime_session_epoch \<Rightarrow> admission_pool \<Rightarrow> admission_pool option" where
  "release_permit e p =
     (case map_of (ap_in_flight p) e of
        None \<Rightarrow> None
      | Some n \<Rightarrow>
          if n = 0 then None
          else Some (p\<lparr>ap_in_flight := (if n - 1 = 0 then AList.delete e (ap_in_flight p) else AList.update e (n - 1) (ap_in_flight p)),
                       ap_counters := (ap_counters p)\<lparr>ac_releases := inc_u64 (ac_releases (ap_counters p))\<rparr>\<rparr>))"

definition drop_reservation :: "reservation \<Rightarrow> admission_pool \<Rightarrow> admission_pool option" where
  "drop_reservation r p = (if \<not> rv_released r then release_permit (rv_session r) p else Some p)"

text \<open>\<open>commit\<close> and \<open>release\<close> consume the reservation, which is dropped at their end.\<close>

definition commit_reservation :: "reservation \<Rightarrow> admission_pool \<Rightarrow> (permit \<times> admission_pool) option" where
  "commit_reservation r p =
     map_option (\<lambda>p'. (\<lparr>pm_session = rv_session r, pm_released = False\<rparr>, p')) (drop_reservation (r\<lparr>rv_released := True\<rparr>) p)"

definition release_reservation :: "reservation \<Rightarrow> admission_pool \<Rightarrow> admission_pool option" where
  "release_reservation r p =
     (if rv_released r then drop_reservation r p
      else Option.bind (release_permit (rv_session r) p) (drop_reservation (r\<lparr>rv_released := True\<rparr>)))"

definition drop_permit :: "permit \<Rightarrow> admission_pool \<Rightarrow> admission_pool option" where
  "drop_permit m p = (if \<not> pm_released m then release_permit (pm_session m) p else Some p)"

definition release_held_permit :: "permit \<Rightarrow> admission_pool \<Rightarrow> admission_pool option" where
  "release_held_permit m p =
     (if pm_released m then drop_permit m p
      else Option.bind (release_permit (pm_session m) p) (drop_permit (m\<lparr>pm_released := True\<rparr>)))"

section \<open>Selection\<close>

definition select_at :: "registered_session_lease list \<Rightarrow> nat \<Rightarrow> admission_pool \<Rightarrow> selected_lease option \<times> admission_pool" where
  "select_at leases index p =
     (case reserve_locked (leases ! index) (p\<lparr>ap_cursor := (index + 1) mod length leases\<rparr>) of
        (reservation, p') \<Rightarrow> (Some \<lparr>sel_lease = leases ! index, sel_reservation = reservation\<rparr>, p'))"

definition preferred_index :: "registered_session_lease list \<Rightarrow> runtime_session_epoch option \<Rightarrow> nat option" where
  "preferred_index leases preferred =
     Option.bind preferred (\<lambda>e. List.find (\<lambda>i. rl_session_epoch (leases ! i) = e) [0..<length leases])"

definition select_scan :: "registered_session_lease list \<Rightarrow> admission_pool \<Rightarrow> selected_lease option \<times> admission_pool" where
  "select_scan leases p =
     (case List.find (\<lambda>k. capacity_available p (leases ! ((ap_cursor p + k) mod length leases))) [0..<length leases] of
        Some k \<Rightarrow> select_at leases ((ap_cursor p + k) mod length leases) p
      | None \<Rightarrow> (None, p))"

definition select_lease ::
  "registered_session_lease list \<Rightarrow> runtime_session_epoch option \<Rightarrow> admission_pool \<Rightarrow> selected_lease option \<times> admission_pool" where
  "select_lease leases preferred p =
     (if leases = [] then (None, p)
      else
        (case preferred_index leases preferred of
           Some index \<Rightarrow> if capacity_available p (leases ! index) then select_at leases index p else select_scan leases p
         | None \<Rightarrow> select_scan leases p))"

definition select_after_revalidate_failure ::
  "registered_session_lease list \<Rightarrow> runtime_session_epoch \<Rightarrow> admission_pool \<Rightarrow> selected_lease option \<times> admission_pool" where
  "select_after_revalidate_failure leases excluded p =
     (case List.find (\<lambda>lease. rl_session_epoch lease \<noteq> excluded \<and> capacity_available p lease) leases of
        None \<Rightarrow> (None, p)
      | Some lease \<Rightarrow> (case reserve_locked lease p of (reservation, p') \<Rightarrow> (Some \<lparr>sel_lease = lease, sel_reservation = reservation\<rparr>, p')))"

definition reserve_exact :: "runtime_session_epoch \<Rightarrow> admission_pool \<Rightarrow> reservation option \<times> admission_pool" where
  "reserve_exact e p =
     (if \<not> capacity_available_for p e then (None, p)
      else (Some \<lparr>rv_session = e, rv_released = False\<rparr>, count_in_flight e p))"

definition record_queue_full :: "admission_pool \<Rightarrow> admission_pool" where
  "record_queue_full p = p\<lparr>ap_counters := (ap_counters p)\<lparr>ac_queue_full_rejects := inc_u64 (ac_queue_full_rejects (ap_counters p))\<rparr>\<rparr>"

definition record_revalidate_failure :: "admission_pool \<Rightarrow> admission_pool" where
  "record_revalidate_failure p = p\<lparr>ap_counters := (ap_counters p)\<lparr>ac_revalidate_failures := inc_u64 (ac_revalidate_failures (ap_counters p))\<rparr>\<rparr>"

definition record_reselect :: "admission_pool \<Rightarrow> admission_pool" where
  "record_reselect p = p\<lparr>ap_counters := (ap_counters p)\<lparr>ac_reselects := inc_u64 (ac_reselects (ap_counters p))\<rparr>\<rparr>"

definition record_no_candidate :: "admission_pool \<Rightarrow> admission_pool" where
  "record_no_candidate p = p\<lparr>ap_counters := (ap_counters p)\<lparr>ac_no_candidate_rejects := inc_u64 (ac_no_candidate_rejects (ap_counters p))\<rparr>\<rparr>"

definition record_duplicate_request_id :: "admission_pool \<Rightarrow> admission_pool" where
  "record_duplicate_request_id p =
     p\<lparr>ap_counters := (ap_counters p)\<lparr>ac_duplicate_request_id_rejects := inc_u64 (ac_duplicate_request_id_rejects (ap_counters p))\<rparr>\<rparr>"

section \<open>Counting\<close>

lemma record_frames [simp]:
  "ap_in_flight (record_queue_full p) = ap_in_flight p" "ap_max_concurrency (record_queue_full p) = ap_max_concurrency p"
  "ap_in_flight (record_revalidate_failure p) = ap_in_flight p" "ap_max_concurrency (record_revalidate_failure p) = ap_max_concurrency p"
  "ap_in_flight (record_reselect p) = ap_in_flight p" "ap_max_concurrency (record_reselect p) = ap_max_concurrency p"
  "ap_in_flight (record_no_candidate p) = ap_in_flight p" "ap_max_concurrency (record_no_candidate p) = ap_max_concurrency p"
  "ap_in_flight (record_duplicate_request_id p) = ap_in_flight p" "ap_max_concurrency (record_duplicate_request_id p) = ap_max_concurrency p"
  by (simp_all add: record_queue_full_def record_revalidate_failure_def record_reselect_def record_no_candidate_def record_duplicate_request_id_def)

lemma pool_in_flight_cong: "ap_in_flight p = ap_in_flight q \<Longrightarrow> pool_in_flight p = pool_in_flight q"
  by (simp add: fun_eq_iff pool_in_flight_def)

lemma count_in_flight_counts [simp]:
  "pool_in_flight (count_in_flight e p) x = pool_in_flight p x + (if x = e then 1 else 0)"
  "ap_max_concurrency (count_in_flight e p) = ap_max_concurrency p"
  by (simp_all add: count_in_flight_def pool_in_flight_def update_conv')

lemma pool_in_flight_cursor [simp]: "pool_in_flight (p\<lparr>ap_cursor := c\<rparr>) = pool_in_flight p"
  by (simp add: fun_eq_iff pool_in_flight_def)

lemma release_permit_exact:
  assumes "0 < pool_in_flight p e"
  shows "\<exists>p'. release_permit e p = Some p' \<and> ap_max_concurrency p' = ap_max_concurrency p \<and>
    (\<forall>x. pool_in_flight p' x = pool_in_flight p x - (if x = e then 1 else 0))"
proof -
  obtain n where n: "map_of (ap_in_flight p) e = Some n" "0 < n"
    using assms by (auto simp: pool_in_flight_def split: option.splits)
  have "pool_in_flight (the (release_permit e p)) x = pool_in_flight p x - (if x = e then 1 else 0)" for x
    using n by (auto simp: release_permit_def pool_in_flight_def update_conv' delete_conv' split: option.splits)
  then show ?thesis using n by (auto simp: release_permit_def)
qed

text \<open>
  The pool hands out leases on the capacity of one session: reserving counts one more, releasing a counted permit
  succeeds and counts one less, and what happens to other sessions does not matter.
\<close>

definition reserve_result :: "runtime_session_epoch \<Rightarrow> admission_pool \<Rightarrow> unit + admission_pool" where
  "reserve_result e p = (case reserve_exact e p of (None, _) \<Rightarrow> Inl () | (Some _, p') \<Rightarrow> Inr p')"

definition pool_aside :: "runtime_session_epoch \<Rightarrow> admission_pool \<Rightarrow> admission_pool \<Rightarrow> bool" where
  "pool_aside e p p' \<longleftrightarrow>
     (\<exists>x. x \<noteq> e \<and> (reserve_result x p = Inr p' \<or> release_permit x p = Some p')) \<or>
     (\<exists>f \<in> {record_queue_full, record_revalidate_failure, record_reselect, record_no_candidate, record_duplicate_request_id}. p' = f p)"

interpretation admission: lease_counter "\<lambda>p. pool_in_flight p e" "reserve_result e" "release_permit e" "pool_aside e" for e
proof
  fix s s'
  assume "reserve_result e s = Inr s'"
  then show "pool_in_flight s' e = Suc (pool_in_flight s e)"
    by (auto simp: reserve_result_def reserve_exact_def split: if_splits)
next
  fix s
  assume "0 < pool_in_flight s e"
  then show "\<exists>s'. release_permit e s = Some s' \<and> Suc (pool_in_flight s' e) = pool_in_flight s e"
    using release_permit_exact [of s e] by auto
next
  fix s s'
  assume "pool_aside e s s'"
  then consider (reserve) x where "x \<noteq> e" "reserve_result x s = Inr s'" | (release) x where "x \<noteq> e" "release_permit x s = Some s'"
    | (recorded) "ap_in_flight s' = ap_in_flight s"
    by (auto simp: pool_aside_def)
  then show "pool_in_flight s' e = pool_in_flight s e"
  proof cases
    case reserve
    then show ?thesis by (auto simp: reserve_result_def reserve_exact_def split: if_splits)
  next
    case release
    then have "0 < pool_in_flight s x" by (auto simp: release_permit_def pool_in_flight_def split: option.splits if_splits)
    then show ?thesis using release release_permit_exact [of s x] by auto
  next
    case recorded
    then show ?thesis by (metis pool_in_flight_cong)
  qed
qed

text \<open>Whatever other sessions do, the permits out on a session are exactly its count, and none of their releases fails.\<close>

lemma permits_of_session_exact:
  "pool_in_flight p e = n \<Longrightarrow> admission.lease_run e n (Some p) k p' \<Longrightarrow> \<exists>q. p' = Some q \<and> pool_in_flight q e = k"
  using admission.lease_run_exact [of e n "Some p" k p' p] by blast

section \<open>Selection is exact and fair\<close>

lemma find_upt_None: "List.find P [0..<n] = None \<longleftrightarrow> (\<forall>k<n. \<not> P k)"
  by (auto simp: find_None_iff)

lemma find_upt_Some: "List.find P [0..<n] = Some k \<longleftrightarrow> k < n \<and> P k \<and> (\<forall>j<k. \<not> P j)"
  by (auto simp: find_Some_iff)

lemma rotation_covers:
  assumes "i < (n::nat)"
  shows "\<exists>k<n. (c + k) mod n = i"
proof (intro exI conjI)
  let ?k = "(i + n - c mod n) mod n"
  have "c mod n < n" using assms by simp
  then have "(c + ?k) mod n = (c mod n + (i + n - c mod n)) mod n" by (metis mod_add_eq mod_mod_trivial)
  also have "\<dots> = (i + n) mod n" using \<open>c mod n < n\<close> by simp
  finally show "(c + ?k) mod n = i" using assms by simp
qed (use assms in simp)

lemma select_at_result:
  assumes "select_at leases i p = (r, p')"
  shows "r = Some \<lparr>sel_lease = leases ! i, sel_reservation = \<lparr>rv_session = rl_session_epoch (leases ! i), rv_released = False\<rparr>\<rparr>"
    and "ap_cursor p' = (i + 1) mod length leases" "ap_max_concurrency p' = ap_max_concurrency p"
    and "pool_in_flight p' x = pool_in_flight p x + (if x = rl_session_epoch (leases ! i) then 1 else 0)"
  using assms by (auto simp: select_at_def reserve_locked_def count_in_flight_def pool_in_flight_def update_conv')

lemma select_scan_none:
  assumes "leases \<noteq> []"
  shows "fst (select_scan leases p) = None \<longleftrightarrow> (\<forall>l \<in> set leases. \<not> capacity_available p l)"
proof -
  let ?n = "length leases"
  have "fst (select_scan leases p) = None \<longleftrightarrow> (\<forall>k<?n. \<not> capacity_available p (leases ! ((ap_cursor p + k) mod ?n)))"
    using select_at_result(1)
    by (auto simp: select_scan_def find_upt_None find_upt_Some select_at_def reserve_locked_def split: option.splits)
  also have "\<dots> \<longleftrightarrow> (\<forall>i<?n. \<not> capacity_available p (leases ! i))"
    using rotation_covers [of _ ?n "ap_cursor p"] assms by (metis length_greater_0_conv mod_less_divisor)
  finally show ?thesis by (simp add: all_set_conv_all_nth)
qed

text \<open>The index a selection takes.\<close>

definition select_index :: "registered_session_lease list \<Rightarrow> runtime_session_epoch option \<Rightarrow> admission_pool \<Rightarrow> nat option" where
  "select_index leases preferred p =
     (case preferred_index leases preferred of
        Some i \<Rightarrow> if capacity_available p (leases ! i) then Some i
                  else map_option (\<lambda>k. (ap_cursor p + k) mod length leases)
                    (List.find (\<lambda>k. capacity_available p (leases ! ((ap_cursor p + k) mod length leases))) [0..<length leases])
      | None \<Rightarrow> map_option (\<lambda>k. (ap_cursor p + k) mod length leases)
          (List.find (\<lambda>k. capacity_available p (leases ! ((ap_cursor p + k) mod length leases))) [0..<length leases]))"

lemma select_lease_index:
  "leases \<noteq> [] \<Longrightarrow> select_lease leases preferred p =
     (case select_index leases preferred p of None \<Rightarrow> (None, p) | Some i \<Rightarrow> select_at leases i p)"
  by (auto simp: select_lease_def select_index_def select_scan_def split: option.splits)

lemma preferred_index_lt: "preferred_index leases preferred = Some i \<Longrightarrow> i < length leases"
  by (auto simp: preferred_index_def find_upt_Some bind_eq_Some_conv)

lemma select_index_Some:
  assumes "leases \<noteq> []" "select_index leases preferred p = Some i"
  shows "i < length leases" "capacity_available p (leases ! i)"
  using assms preferred_index_lt [of leases preferred]
  by (auto simp: select_index_def find_upt_Some split: option.splits if_splits)

text \<open>Index \<open>i\<close> is the first with capacity, counting from the cursor and around.\<close>

definition first_from_cursor :: "registered_session_lease list \<Rightarrow> admission_pool \<Rightarrow> nat \<Rightarrow> bool" where
  "first_from_cursor leases p i \<longleftrightarrow>
     (\<exists>k<length leases. i = (ap_cursor p + k) mod length leases \<and>
        (\<forall>j<k. \<not> capacity_available p (leases ! ((ap_cursor p + j) mod length leases))))"

lemma capacity_epoch: "rl_session_epoch l = rl_session_epoch l' \<Longrightarrow> capacity_available p l = capacity_available p l'"
  by (simp add: capacity_available_def)

lemma preferred_index_cases:
  "preferred_index leases preferred = None \<longleftrightarrow> (\<forall>e. preferred = Some e \<longrightarrow> (\<forall>l \<in> set leases. rl_session_epoch l \<noteq> e))"
  "preferred_index leases preferred = Some i \<Longrightarrow> \<exists>e. preferred = Some e \<and> i < length leases \<and> rl_session_epoch (leases ! i) = e"
  by (cases preferred; force simp: preferred_index_def find_upt_None find_upt_Some all_set_conv_all_nth)+

lemma select_index_choice:
  assumes "select_index leases preferred p = Some i"
  shows "case preferred of
      None \<Rightarrow> first_from_cursor leases p i
    | Some e \<Rightarrow>
        if \<exists>l \<in> set leases. rl_session_epoch l = e \<and> capacity_available p l then rl_session_epoch (leases ! i) = e
        else first_from_cursor leases p i"
proof -
  have scan: "first_from_cursor leases p i"
    if "map_option (\<lambda>k. (ap_cursor p + k) mod length leases)
      (List.find (\<lambda>k. capacity_available p (leases ! ((ap_cursor p + k) mod length leases))) [0..<length leases]) = Some i"
    using that by (auto simp: find_upt_Some first_from_cursor_def)
  show ?thesis
  proof (cases "preferred_index leases preferred")
    case None
    then show ?thesis
      using assms scan preferred_index_cases(1) [of leases preferred] by (auto simp: select_index_def split: option.splits)
  next
    case (Some j)
    then obtain e where e: "preferred = Some e" "j < length leases" "rl_session_epoch (leases ! j) = e"
      using preferred_index_cases(2) by blast
    have "(\<exists>l \<in> set leases. rl_session_epoch l = e \<and> capacity_available p l) \<longleftrightarrow> capacity_available p (leases ! j)"
      using e(2,3) capacity_epoch nth_mem by metis
    then show ?thesis using assms scan Some e by (auto simp: select_index_def split: if_splits)
  qed
qed

text \<open>C26: 
  Selection finds capacity whenever there is some and never exceeds it. It fails, leaving the pool as it was,
  exactly when every candidate is full; otherwise it takes a candidate with capacity, counts one permit for
  that session and for no other, and moves the cursor behind it. The preferred candidate is taken when it is
  among the candidates and has capacity; when it is not, or is full, the first candidate with capacity from
  the cursor on is taken.
\<close>

theorem select_lease_exact:
  assumes "select_lease leases preferred p = (r, p')"
  shows "(r = None \<longleftrightarrow> (\<forall>l \<in> set leases. \<not> capacity_available p l)) \<and> (r = None \<longrightarrow> p' = p) \<and>
    (\<forall>sel. r = Some sel \<longrightarrow>
       (\<exists>i<length leases. sel_lease sel = leases ! i \<and> capacity_available p (leases ! i) \<and> ap_cursor p' = (i + 1) mod length leases \<and>
         sel_reservation sel = \<lparr>rv_session = rl_session_epoch (leases ! i), rv_released = False\<rparr> \<and>
         (\<forall>x. pool_in_flight p' x = pool_in_flight p x + (if x = rl_session_epoch (leases ! i) then 1 else 0)) \<and>
         (case preferred of
            None \<Rightarrow> first_from_cursor leases p i
          | Some e \<Rightarrow>
              if \<exists>l \<in> set leases. rl_session_epoch l = e \<and> capacity_available p l then rl_session_epoch (leases ! i) = e
              else first_from_cursor leases p i)))"
proof (cases "leases = []")
  case True
  then show ?thesis using assms by (simp add: select_lease_def)
next
  case False
  note idx = select_lease_index [OF False, of preferred p]
  have none: "select_index leases preferred p = None \<longleftrightarrow> (\<forall>l \<in> set leases. \<not> capacity_available p l)"
  proof -
    have "select_index leases preferred p = None \<longleftrightarrow>
        (case preferred_index leases preferred of Some i \<Rightarrow> \<not> capacity_available p (leases ! i) | None \<Rightarrow> True) \<and> fst (select_scan leases p) = None"
      by (auto simp: select_index_def select_scan_def select_at_def reserve_locked_def split: option.splits)
    then show ?thesis
      unfolding select_scan_none [OF False] using preferred_index_lt [of leases preferred]
      by (auto split: option.splits)
  qed
  show ?thesis
  proof (cases "select_index leases preferred p")
    case None
    then have "r = None" "p' = p" using assms idx by simp_all
    then show ?thesis using None none by simp
  next
    case (Some i)
    then have sel: "select_at leases i p = (r, p')" using assms idx by simp
    note choice = select_index_choice [OF Some]
    have some: "r \<noteq> None" by (simp add: select_at_result(1) [OF sel])
    have full: "\<not> (\<forall>l \<in> set leases. \<not> capacity_available p l)" using none Some by simp
    show ?thesis
    proof (intro conjI allI impI)
      show "r = None \<longleftrightarrow> (\<forall>l \<in> set leases. \<not> capacity_available p l)" using some full by blast
      show "p' = p" if "r = None" using some that by contradiction
      fix s assume "r = Some s"
      then have s: "s = \<lparr>sel_lease = leases ! i, sel_reservation = \<lparr>rv_session = rl_session_epoch (leases ! i), rv_released = False\<rparr>\<rparr>"
        using select_at_result(1) [OF sel] by simp
      show "\<exists>i<length leases. sel_lease s = leases ! i \<and> capacity_available p (leases ! i) \<and> ap_cursor p' = (i + 1) mod length leases \<and>
          sel_reservation s = \<lparr>rv_session = rl_session_epoch (leases ! i), rv_released = False\<rparr> \<and>
          (\<forall>x. pool_in_flight p' x = pool_in_flight p x + (if x = rl_session_epoch (leases ! i) then 1 else 0)) \<and>
          (case preferred of
             None \<Rightarrow> first_from_cursor leases p i
           | Some e \<Rightarrow>
               if \<exists>l \<in> set leases. rl_session_epoch l = e \<and> capacity_available p l then rl_session_epoch (leases ! i) = e
               else first_from_cursor leases p i)"
        by (intro exI [of _ i] conjI allI choice select_index_Some [OF False Some] select_at_result(2,4) [OF sel]) (simp_all add: s)
    qed
  qed
qed

text \<open>A round of selections without preference.\<close>

fun select_many :: "nat \<Rightarrow> registered_session_lease list \<Rightarrow> admission_pool \<Rightarrow> registered_session_lease option list" where
  "select_many 0 leases p = []"
| "select_many (Suc n) leases p =
     (case select_lease leases None p of (r, p') \<Rightarrow> map_option sel_lease r # select_many n leases p')"

lemma rotate_split:
  assumes "rotate c xs = us @ y # vs"
  shows "xs ! ((c + length us) mod length xs) = y" "rotate (Suc (c + length us)) xs = vs @ us @ [y]"
    "\<And>k. k < length us \<Longrightarrow> xs ! ((c + k) mod length xs) = us ! k" "length us < length xs"
proof -
  have len: "length xs = Suc (length us + length vs)" using arg_cong [OF assms, of length] by simp
  then show "length us < length xs" by simp
  show "xs ! ((c + length us) mod length xs) = y"
    using nth_rotate [of "length us" xs c] len by (simp add: assms)
  show "xs ! ((c + k) mod length xs) = us ! k" if "k < length us" for k
    using nth_rotate [of k xs c] that len by (simp add: assms nth_append)
  have "rotate (Suc (c + length us)) xs = rotate (Suc (length us)) (rotate c xs)" by (simp add: rotate_rotate add.commute)
  also have "\<dots> = rotate (length (us @ [y])) ((us @ [y]) @ vs)" by (simp add: assms)
  also have "\<dots> = vs @ us @ [y]" by (subst rotate_append) (rule refl)
  finally show "rotate (Suc (c + length us)) xs = vs @ us @ [y]" .
qed

lemma rotate_mod: "rotate (c mod length xs) xs = rotate c xs"
  by (rule rotate_conv_mod [symmetric])

lemma select_first:
  assumes "rotate (ap_cursor p) leases = us @ y # vs" "\<forall>l \<in> set us. \<not> capacity_available p l" "capacity_available p y"
  shows "select_lease leases None p = select_at leases ((ap_cursor p + length us) mod length leases) p"
proof -
  note split = rotate_split [OF assms(1)]
  have "List.find (\<lambda>k. capacity_available p (leases ! ((ap_cursor p + k) mod length leases))) [0..<length leases] = Some (length us)"
    using split assms(2,3) by (auto simp: find_upt_Some)
  moreover have "leases \<noteq> []" using split(4) by auto
  ultimately show ?thesis by (simp add: select_lease_index select_index_def preferred_index_def)
qed

text \<open>Selections serve, in order, the candidates with capacity of any stretch from the cursor on.\<close>

lemma select_many_stretch:
  assumes "distinct (map rl_session_epoch leases)"
  shows "rotate (ap_cursor p) leases = ys @ zs \<Longrightarrow>
    select_many (length (filter (capacity_available p) ys)) leases p = map Some (filter (capacity_available p) ys)"
proof (induction "length ys" arbitrary: ys zs p rule: less_induct)
  case less
  show ?case
  proof (cases "\<exists>l \<in> set ys. capacity_available p l")
    case False
    then have "filter (capacity_available p) ys = []" by (simp add: filter_empty_conv)
    then show ?thesis by (simp only: list.size select_many.simps list.map)
  next
    case True
    then obtain us y vs where ys: "ys = us @ y # vs" "capacity_available p y" "\<forall>l \<in> set us. \<not> capacity_available p l"
      using split_list_first_prop by metis
    have rot: "rotate (ap_cursor p) leases = us @ y # (vs @ zs)" using less.prems ys(1) by simp
    note split = rotate_split [OF rot]
    let ?i = "(ap_cursor p + length us) mod length leases"
    obtain r q where sel: "select_at leases ?i p = (r, q)" by (cases "select_at leases ?i p")
    note q = select_at_result [OF sel, unfolded split(1)]
    have next_: "select_lease leases None p = (r, q)" using select_first [OF rot ys(3,2)] sel by simp
    have cursor: "rotate (ap_cursor q) leases = vs @ zs @ us @ [y]"
      unfolding q(2) using split(2) rotate_mod [of "Suc (ap_cursor p + length us)" leases]
      by (simp add: mod_Suc_eq)
    have "distinct (map rl_session_epoch (us @ y # vs @ zs))"
      using assms rot by (metis distinct_rotate rotate_map)
    then have other: "rl_session_epoch l \<noteq> rl_session_epoch y" if "l \<in> set vs" for l using that by (simp add: image_iff) metis
    have "capacity_available q l = capacity_available p l" if "l \<in> set vs" for l
      using other [OF that] by (simp add: capacity_available_def q(3) q(4))
    then have same: "filter (capacity_available q) vs = filter (capacity_available p) vs" by (simp cong: filter_cong)
    have "select_many (length (filter (capacity_available q) vs)) leases q = map Some (filter (capacity_available q) vs)"
      by (rule less.hyps [OF _ cursor]) (simp add: ys(1))
    moreover have "filter (capacity_available p) ys = y # filter (capacity_available p) vs" using ys by simp
    ultimately show ?thesis by (simp add: next_ q(1) same)
  qed
qed

text \<open>C28: 
  The rotation is fair. For candidates of different sessions, of which any may be full, as many selections
  without a preference as there are candidates with a free permit serve each of these exactly once, in the
  order of the rotation from the cursor on; full sessions are passed over.
\<close>

theorem round_robin_fair:
  assumes "distinct (map rl_session_epoch leases)"
  shows "select_many (length (filter (capacity_available p) leases)) leases p =
    map Some (filter (capacity_available p) (rotate (ap_cursor p) leases))"
proof -
  let ?n = "ap_cursor p mod length leases"
  have "length (filter (capacity_available p) (take ?n leases @ drop ?n leases)) = length (filter (capacity_available p) leases)"
    by (simp only: append_take_drop_id)
  then have len: "length (filter (capacity_available p) (rotate (ap_cursor p) leases)) = length (filter (capacity_available p) leases)"
    by (simp only: rotate_drop_take filter_append length_append add.commute)
  show ?thesis using select_many_stretch [OF assms, of p "rotate (ap_cursor p) leases" "[]"] unfolding len by simp
qed

section \<open>Three candidates\<close>

definition demo_lease :: "string \<Rightarrow> registered_session_lease" where
  "demo_lease r = \<lparr>rl_session_epoch = \<lparr>replica_id = r, connection_generation = 1\<rparr>, rl_registration_revision = 1, rl_cancelled = False,
     rl_capabilities = default_capabilities, rl_registered_build_ids = [], rl_lazy_load = False, rl_artifact_root = None\<rparr>"

definition demo_leases :: "registered_session_lease list" where
  "demo_leases = [demo_lease ''a'', demo_lease ''b'', demo_lease ''c'']"

text \<open>One permit each; the first session is busy.\<close>

definition demo_pool :: admission_pool where
  "demo_pool = count_in_flight (rl_session_epoch (demo_lease ''a'')) (the (pool_new 1))"

theorem select_lease_exact_witness:
  "capacity_available demo_pool (demo_lease ''b'') \<and> fst (select_lease demo_leases None demo_pool) \<noteq> None \<and>
   map_option sel_lease (fst (select_lease demo_leases None demo_pool)) = Some (demo_lease ''b'')"
proof -
  have cap: "capacity_available demo_pool (demo_lease ''b'')" "demo_lease ''b'' \<in> set demo_leases" by code_simp+
  have "(fst (select_lease demo_leases None demo_pool) = None) = (\<forall>l \<in> set demo_leases. \<not> capacity_available demo_pool l)"
    using select_lease_exact [OF prod.collapse [symmetric], of demo_leases None demo_pool] by (elim conjE)
  then have "fst (select_lease demo_leases None demo_pool) \<noteq> None" using cap by auto
  moreover have "map_option sel_lease (fst (select_lease demo_leases None demo_pool)) = Some (demo_lease ''b'')" by code_simp
  ultimately show ?thesis using cap by simp
qed

theorem round_robin_fair_witness:
  "select_many 2 demo_leases (demo_pool\<lparr>ap_cursor := 2\<rparr>) = map Some [demo_lease ''c'', demo_lease ''b'']"
proof -
  let ?p = "demo_pool\<lparr>ap_cursor := 2\<rparr>"
  have "distinct (map rl_session_epoch demo_leases)" by (simp add: demo_leases_def demo_lease_def)
  then have "select_many (length (filter (capacity_available ?p) demo_leases)) demo_leases ?p =
      map Some (filter (capacity_available ?p) (rotate (ap_cursor ?p) demo_leases))"
    by (rule round_robin_fair)
  moreover have "length (filter (capacity_available ?p) demo_leases) = 2"
    "filter (capacity_available ?p) (rotate (ap_cursor ?p) demo_leases) = [demo_lease ''c'', demo_lease ''b'']" by code_simp+
  ultimately show ?thesis by simp
qed

end
