(* ===== verification/Router_Dispatcher.thy ===== *)
theory Router_Dispatcher
  imports Router_Admission
begin

text \<open>
  The router's request dispatcher (\<open>router/src/dispatch/dispatcher.rs\<close> with \<open>types.rs\<close>, \<open>frame.rs\<close>, \<open>health.rs\<close> and
  the cancel reasons of \<open>runtime/transport/src/cancel_reason.rs\<close>): a synchronous reducer that admits requests and
  task attempts, correlates response frames with them and ends each with a terminal. Every method holds the
  state lock for its whole body and is one function here; what the ports answer during a call is an argument,
  what goes out through them is the log \<open>dsp_effects\<close>. A call that would panic returns \<open>None\<close>.
\<close>

section \<open>Requests\<close>

record request_deadline =
  dl_timeout_ms :: u64
  dl_expires_at :: string

text \<open>The fields of the validated start headers that the dispatcher reads.\<close>

record start_header =
  sh_request_id :: string
  sh_mode :: string
  sh_build_id :: "string option"
  sh_deadline :: "request_deadline option"
  sh_test_case_capability :: "string option"

record dispatch_submit =
  ds_header :: start_header
  ds_prefer_session :: "runtime_session_epoch option"

record attempt_submit =
  ta_header :: start_header
  ta_task_id :: string
  ta_attempt_id :: string
  ta_lease_id :: string
  ta_prefer_session :: "runtime_session_epoch option"

definition wire_is_expired :: "request_deadline \<Rightarrow> bool" where
  "wire_is_expired deadline \<longleftrightarrow> dl_timeout_ms deadline = 0"

section \<open>Vocabulary\<close>

datatype request_cancel_reason = CancelTimeout | CancelCallerCancel | CancelRuntimeDisconnect | CancelGatewayDisconnect | CancelDrain
  | CancelRetire | CancelClientDisconnect | CancelRouterShutdown | CancelBackpressure | CancelDeadlineExceeded | CancelProtocolError
  | CancelStreamDropped

definition CONTRACT_H :: "request_cancel_reason list" where
  "CONTRACT_H = [CancelCallerCancel, CancelClientDisconnect, CancelTimeout, CancelDeadlineExceeded, CancelBackpressure,
     CancelProtocolError, CancelStreamDropped, CancelRuntimeDisconnect, CancelRouterShutdown]"

definition cancel_reason_as_str :: "request_cancel_reason \<Rightarrow> string" where
  "cancel_reason_as_str r =
     (case r of
        CancelTimeout \<Rightarrow> ''timeout'' | CancelCallerCancel \<Rightarrow> ''caller_cancel'' | CancelRuntimeDisconnect \<Rightarrow> ''runtime_disconnect''
      | CancelGatewayDisconnect \<Rightarrow> ''gateway_disconnect'' | CancelDrain \<Rightarrow> ''drain'' | CancelRetire \<Rightarrow> ''retire''
      | CancelClientDisconnect \<Rightarrow> ''client_disconnect'' | CancelRouterShutdown \<Rightarrow> ''router_shutdown''
      | CancelBackpressure \<Rightarrow> ''backpressure'' | CancelDeadlineExceeded \<Rightarrow> ''deadline_exceeded''
      | CancelProtocolError \<Rightarrow> ''protocol_error'' | CancelStreamDropped \<Rightarrow> ''stream_dropped'')"

definition cancel_reason_from_wire :: "string \<Rightarrow> request_cancel_reason option" where
  "cancel_reason_from_wire s =
     (if s = ''timeout'' then Some CancelTimeout
      else if s = ''caller_cancel'' then Some CancelCallerCancel
      else if s = ''runtime_disconnect'' then Some CancelRuntimeDisconnect
      else if s = ''gateway_disconnect'' then Some CancelGatewayDisconnect
      else if s = ''drain'' then Some CancelDrain
      else if s = ''retire'' then Some CancelRetire
      else if s = ''client_disconnect'' then Some CancelClientDisconnect
      else if s = ''router_shutdown'' then Some CancelRouterShutdown
      else if s = ''backpressure'' then Some CancelBackpressure
      else if s = ''deadline_exceeded'' then Some CancelDeadlineExceeded
      else if s = ''protocol_error'' then Some CancelProtocolError
      else if s = ''stream_dropped'' then Some CancelStreamDropped
      else None)"

datatype terminal_source = RuntimeResponseEnd | RuntimeResponseError | RuntimeRequestCancel | SourceTimeout | CallerAbort
  | SourceClientDisconnect | SourceBackpressure | SourceProtocolError | CallbackError | RuntimeDisconnect | RouterShutdown

definition terminal_source_as_str :: "terminal_source \<Rightarrow> string" where
  "terminal_source_as_str s =
     (case s of
        RuntimeResponseEnd \<Rightarrow> ''runtime_response_end'' | RuntimeResponseError \<Rightarrow> ''runtime_response_error''
      | RuntimeRequestCancel \<Rightarrow> ''runtime_request_cancel'' | SourceTimeout \<Rightarrow> ''timeout'' | CallerAbort \<Rightarrow> ''caller_abort''
      | SourceClientDisconnect \<Rightarrow> ''client_disconnect'' | SourceBackpressure \<Rightarrow> ''backpressure''
      | SourceProtocolError \<Rightarrow> ''protocol_error'' | CallbackError \<Rightarrow> ''callback_error''
      | RuntimeDisconnect \<Rightarrow> ''runtime_disconnect'' | RouterShutdown \<Rightarrow> ''router_shutdown'')"

text \<open>The order of the declaration, by which the terminal counters are kept.\<close>

definition source_index :: "terminal_source \<Rightarrow> nat" where
  "source_index s =
     (case s of
        RuntimeResponseEnd \<Rightarrow> 0 | RuntimeResponseError \<Rightarrow> 1 | RuntimeRequestCancel \<Rightarrow> 2 | SourceTimeout \<Rightarrow> 3 | CallerAbort \<Rightarrow> 4
      | SourceClientDisconnect \<Rightarrow> 5 | SourceBackpressure \<Rightarrow> 6 | SourceProtocolError \<Rightarrow> 7 | CallbackError \<Rightarrow> 8
      | RuntimeDisconnect \<Rightarrow> 9 | RouterShutdown \<Rightarrow> 10)"

lemma source_index_inj: "source_index a = source_index b \<longleftrightarrow> a = b"
  by (cases a; cases b) (simp_all add: source_index_def)

instantiation terminal_source :: linorder
begin

definition less_eq_terminal_source :: "terminal_source \<Rightarrow> terminal_source \<Rightarrow> bool" where
  "less_eq_terminal_source a b \<longleftrightarrow> source_index a \<le> source_index b"

definition less_terminal_source :: "terminal_source \<Rightarrow> terminal_source \<Rightarrow> bool" where
  "less_terminal_source a b \<longleftrightarrow> source_index a < source_index b"

instance
  by standard (auto simp: less_eq_terminal_source_def less_terminal_source_def source_index_inj)

end

datatype request_outcome = Completed | OutcomeFailed | OutcomeCancelled | OutcomeProtocolError

datatype task_attempt_outcome = AttemptSucceeded | AttemptFailed string | AttemptUncertain string

datatype submit_reject_reason = RejectDuplicate | RejectQueueFull | RejectNoCandidate | RejectRevalidateFailClosed | RejectShutdown
  | RejectDeadlineExpired | RejectInvalidMode | RejectCallbackError

datatype submit_result = SubmitAccepted string runtime_session_epoch | SubmitRejected string submit_reject_reason

datatype 'err response_frame =
    FrameStart string
  | FrameChunk string u64 "nat list"
  | FrameEnd string bool "nat list"
  | FrameError string 'err
  | FrameCancel string string

fun frame_request_id :: "'err response_frame \<Rightarrow> string" where
  "frame_request_id (FrameStart rid) = rid"
| "frame_request_id (FrameChunk rid _ _) = rid"
| "frame_request_id (FrameEnd rid _ _) = rid"
| "frame_request_id (FrameError rid _) = rid"
| "frame_request_id (FrameCancel rid _) = rid"

datatype 'err dispatched_frame =
    DispStart string
  | DispChunk string u64 "nat list"
  | DispEnd string "nat list"
  | DispError string 'err

record cancel_frame =
  cf_request_id :: string
  cf_reason :: string

record pending_terminal =
  pt_request_id :: string
  pt_outcome :: request_outcome
  pt_source :: terminal_source
  pt_cancel_frame :: "cancel_frame option"

record 'err frame_outcome =
  fo_frames :: "'err dispatched_frame list"
  fo_terminals :: "pending_terminal list"

definition default_frame_outcome :: "'err frame_outcome" where
  "default_frame_outcome = \<lparr>fo_frames = [], fo_terminals = []\<rparr>"

section \<open>State\<close>

datatype pending_kind = KindUnary | KindStream | KindTaskAttempt

datatype stream_phase = WaitingStart | Streaming

record task_attempt_facts =
  tf_task_id :: string
  tf_attempt_id :: string
  tf_lease_id :: string

record pending_request =
  pn_kind :: pending_kind
  pn_session_epoch :: runtime_session_epoch
  pn_lease :: registered_session_lease
  pn_permit :: permit
  pn_stream_phase :: "stream_phase option"
  pn_next_seq :: u64
  pn_deadline :: "request_deadline option"
  pn_task_attempt :: "task_attempt_facts option"
  pn_test_case_capability :: "string option"

text \<open>What a call sends: starts and cancels with whether the write was accepted, session aborts, and task terminals.\<close>

datatype dispatch_effect =
    SentStart runtime_session_epoch string bool
  | SentTaskStart runtime_session_epoch string bool
  | SentCancel runtime_session_epoch string string bool
  | AbortedSession runtime_session_epoch
  | AttemptTerminal string task_attempt_facts task_attempt_outcome

record dispatcher =
  dsp_pool :: admission_pool
  dsp_pending :: "(string, pending_request) btree"
  dsp_closed_sessions :: "runtime_session_epoch set"
  dsp_stopped :: bool
  dsp_terminal_by_source :: "(terminal_source, u64) btree"
  dsp_task_attempt_accepted :: u64
  dsp_task_attempt_rejected :: u64
  dsp_effects :: "dispatch_effect list"

text \<open>The answers of the ports during one call; the deadline is asked about twice.\<close>

record 'err dispatch_ports =
  dp_is_expired :: "request_deadline \<Rightarrow> bool"
  dp_is_expired_recheck :: "request_deadline \<Rightarrow> bool"
  dp_view :: candidate_directory_view
  dp_revalidate :: "string \<Rightarrow> registered_session_lease \<Rightarrow> revalidate_outcome"
  dp_send_start :: "runtime_session_epoch \<Rightarrow> string \<Rightarrow> bool"
  dp_send_cancel :: "runtime_session_epoch \<Rightarrow> string \<Rightarrow> string \<Rightarrow> bool"
  dp_debug_error :: "'err \<Rightarrow> string"

definition dispatcher_new :: "usize \<Rightarrow> dispatcher option" where
  "dispatcher_new max_concurrency =
     map_option (\<lambda>pool.
       \<lparr>dsp_pool = pool, dsp_pending = [], dsp_closed_sessions = {}, dsp_stopped = False, dsp_terminal_by_source = [],
        dsp_task_attempt_accepted = 0, dsp_task_attempt_rejected = 0, dsp_effects = []\<rparr>) (pool_new max_concurrency)"

definition emit_effect :: "dispatch_effect \<Rightarrow> dispatcher \<Rightarrow> dispatcher" where
  "emit_effect eff d = d\<lparr>dsp_effects := dsp_effects d @ [eff]\<rparr>"

definition count_source :: "terminal_source \<Rightarrow> dispatcher \<Rightarrow> dispatcher" where
  "count_source s d =
     d\<lparr>dsp_terminal_by_source :=
         bt_insert s (inc_u64 (case bt_get (dsp_terminal_by_source d) s of Some n \<Rightarrow> n | None \<Rightarrow> 0)) (dsp_terminal_by_source d)\<rparr>"

definition count_attempt_rejected :: "dispatcher \<Rightarrow> dispatcher" where
  "count_attempt_rejected d = d\<lparr>dsp_task_attempt_rejected := inc_u64 (dsp_task_attempt_rejected d)\<rparr>"

section \<open>Terminals\<close>

definition task_attempt_outcome_of :: "request_outcome \<Rightarrow> terminal_source \<Rightarrow> string option \<Rightarrow> task_attempt_outcome" where
  "task_attempt_outcome_of outcome source error_message =
     (case outcome of
        Completed \<Rightarrow> AttemptSucceeded
      | OutcomeFailed \<Rightarrow> AttemptFailed (case error_message of Some m \<Rightarrow> m | None \<Rightarrow> ''target failed'')
      | OutcomeCancelled \<Rightarrow>
          if source = SourceTimeout \<or> source = RuntimeRequestCancel then
            AttemptFailed (case error_message of Some m \<Rightarrow> m | None \<Rightarrow> ''request canceled: '' @ terminal_source_as_str source)
          else AttemptUncertain (terminal_source_as_str source)
      | OutcomeProtocolError \<Rightarrow> AttemptUncertain ''protocol_error'')"

definition dispatch_terminal_locked ::
  "'err dispatch_ports \<Rightarrow> string \<Rightarrow> request_outcome \<Rightarrow> terminal_source \<Rightarrow> string option \<Rightarrow> string option \<Rightarrow> dispatcher \<Rightarrow>
   (pending_terminal option \<times> dispatcher) option" where
  "dispatch_terminal_locked ports rid outcome source cancel_reason error_message d =
     (case bt_get (dsp_pending d) rid of
        None \<Rightarrow> Some (None, d)
      | Some pn \<Rightarrow>
          (case release_held_permit (pn_permit pn) (dsp_pool d) of
             None \<Rightarrow> None
           | Some pool \<Rightarrow>
               let d1 = d\<lparr>dsp_pending := bt_remove rid (dsp_pending d), dsp_pool := pool\<rparr>;
                   d2 = (case pn_task_attempt pn of
                           None \<Rightarrow> d1
                         | Some facts \<Rightarrow> emit_effect (AttemptTerminal rid facts (task_attempt_outcome_of outcome source error_message)) d1);
                   (effective_source, cancel_frame, d3) =
                     (case cancel_reason of
                        None \<Rightarrow> (source, None, d2)
                      | Some reason \<Rightarrow>
                          if dp_send_cancel ports (pn_session_epoch pn) rid reason then
                            (source, Some \<lparr>cf_request_id = rid, cf_reason = reason\<rparr>, emit_effect (SentCancel (pn_session_epoch pn) rid reason True) d2)
                          else
                            (CallbackError, None,
                             emit_effect (AbortedSession (pn_session_epoch pn)) (emit_effect (SentCancel (pn_session_epoch pn) rid reason False) d2)))
               in Some (Some \<lparr>pt_request_id = rid, pt_outcome = outcome, pt_source = effective_source, pt_cancel_frame = cancel_frame\<rparr>,
                        count_source effective_source d3)))"

section \<open>Admission\<close>

definition admission_leases :: "'err dispatch_ports \<Rightarrow> candidate_query \<Rightarrow> dispatcher \<Rightarrow> registered_session_lease list" where
  "admission_leases ports query d =
     filter (\<lambda>l. \<not> rl_cancelled l \<and> rl_session_epoch l \<notin> dsp_closed_sessions d) (query_leases (dp_view ports) query)"

datatype admit_result = AdmitRefused submit_reject_reason | Admitted selected_lease

text \<open>
  The part both admissions share: selection, the second look at the deadline, the revalidation and, unless the
  request is tied to one session, one other candidate after a failed revalidation.
\<close>

definition admit ::
  "'err dispatch_ports \<Rightarrow> string \<Rightarrow> request_deadline option \<Rightarrow> registered_session_lease list \<Rightarrow> runtime_session_epoch option \<Rightarrow> bool \<Rightarrow>
   admission_pool \<Rightarrow> (admit_result \<times> admission_pool) option" where
  "admit ports rid deadline leases preferred tied pool =
     (if leases = [] then Some (AdmitRefused RejectNoCandidate, record_no_candidate pool)
      else
        (case select_lease leases preferred pool of
           (None, p1) \<Rightarrow> Some (AdmitRefused RejectQueueFull, record_queue_full p1)
         | (Some sel, p1) \<Rightarrow>
             if (case deadline of Some dl \<Rightarrow> dp_is_expired_recheck ports dl | None \<Rightarrow> False) then
               map_option (\<lambda>p2. (AdmitRefused RejectDeadlineExpired, p2)) (release_reservation (sel_reservation sel) p1)
             else if dp_revalidate ports rid (sel_lease sel) \<noteq> RevalOk then
               Option.bind (release_reservation (sel_reservation sel) (record_revalidate_failure p1))
                 (\<lambda>p2. if tied then Some (AdmitRefused RejectRevalidateFailClosed, p2)
                        else
                          (case select_after_revalidate_failure leases (rl_session_epoch (sel_lease sel)) p2 of
                             (None, p3) \<Rightarrow> Some (AdmitRefused RejectRevalidateFailClosed, p3)
                           | (Some reselected, p3) \<Rightarrow> Some (Admitted reselected, record_reselect p3)))
             else Some (Admitted sel, p1)))"

definition write_failed :: "'err dispatch_ports \<Rightarrow> runtime_session_epoch \<Rightarrow> string \<Rightarrow> permit \<Rightarrow> dispatcher \<Rightarrow> dispatcher option" where
  "write_failed ports e rid permit d =
     map_option (\<lambda>pool.
        emit_effect (AbortedSession e)
          (emit_effect (SentCancel e rid ''protocol_error'' (dp_send_cancel ports e rid ''protocol_error''))
            (count_source CallbackError (d\<lparr>dsp_pool := pool\<rparr>))))
       (release_held_permit permit (dsp_pool d))"

definition enqueue_locked ::
  "'err dispatch_ports \<Rightarrow> dispatch_submit \<Rightarrow> selected_lease \<Rightarrow> dispatcher \<Rightarrow> (submit_result \<times> dispatcher) option" where
  "enqueue_locked ports request selected d =
     (let rid = sh_request_id (ds_header request); e = rl_session_epoch (sel_lease selected)
      in Option.bind (commit_reservation (sel_reservation selected) (dsp_pool d)) (\<lambda>(permit, pool).
           let ok = dp_send_start ports e rid;
               d1 = emit_effect (SentStart e rid ok) (d\<lparr>dsp_pool := pool\<rparr>)
           in if \<not> ok then map_option (\<lambda>d2. (SubmitRejected rid RejectCallbackError, d2)) (write_failed ports e rid permit d1)
              else
                (case dispatch_mode_from_wire (sh_mode (ds_header request)) of
                   None \<Rightarrow> None
                 | Some mode \<Rightarrow>
                     let kind = (case mode of Unary \<Rightarrow> KindUnary | ServerStream \<Rightarrow> KindStream)
                     in Some (SubmitAccepted rid e,
                          d1\<lparr>dsp_pending := bt_insert rid
                            \<lparr>pn_kind = kind, pn_session_epoch = e, pn_lease = sel_lease selected, pn_permit = permit,
                             pn_stream_phase = (if kind = KindStream then Some WaitingStart else None), pn_next_seq = 0,
                             pn_deadline = sh_deadline (ds_header request), pn_task_attempt = None,
                             pn_test_case_capability = sh_test_case_capability (ds_header request)\<rparr> (dsp_pending d1)\<rparr>))))"

definition submit :: "'err dispatch_ports \<Rightarrow> dispatch_submit \<Rightarrow> dispatcher \<Rightarrow> (submit_result \<times> dispatcher) option" where
  "submit ports request d =
     (let h = ds_header request; rid = sh_request_id h
      in if dsp_stopped d then Some (SubmitRejected rid RejectShutdown, d)
         else if bt_get (dsp_pending d) rid \<noteq> None then
           Some (SubmitRejected rid RejectDuplicate, d\<lparr>dsp_pool := record_duplicate_request_id (dsp_pool d)\<rparr>)
         else if (case sh_deadline h of Some dl \<Rightarrow> dp_is_expired ports dl | None \<Rightarrow> False) then
           Some (SubmitRejected rid RejectDeadlineExpired, d)
         else
           (case dispatch_mode_from_wire (sh_mode h) of
              None \<Rightarrow> Some (SubmitRejected rid RejectInvalidMode, d)
            | Some mode \<Rightarrow>
                (case candidate_query_from_build_id mode (sh_build_id h) of
                   None \<Rightarrow> Some (SubmitRejected rid RejectNoCandidate, d\<lparr>dsp_pool := record_no_candidate (dsp_pool d)\<rparr>)
                 | Some query \<Rightarrow>
                     Option.bind (admit ports rid (sh_deadline h) (admission_leases ports query d) (ds_prefer_session request) False (dsp_pool d))
                       (\<lambda>(r, pool). case r of
                          AdmitRefused reason \<Rightarrow> Some (SubmitRejected rid reason, d\<lparr>dsp_pool := pool\<rparr>)
                        | Admitted selected \<Rightarrow> enqueue_locked ports request selected (d\<lparr>dsp_pool := pool\<rparr>)))))"

definition enqueue_task_attempt_locked ::
  "'err dispatch_ports \<Rightarrow> attempt_submit \<Rightarrow> selected_lease \<Rightarrow> dispatcher \<Rightarrow> (submit_result \<times> dispatcher) option" where
  "enqueue_task_attempt_locked ports attempt selected d =
     (let rid = sh_request_id (ta_header attempt); e = rl_session_epoch (sel_lease selected)
      in Option.bind (commit_reservation (sel_reservation selected) (dsp_pool d)) (\<lambda>(permit, pool).
           let ok = dp_send_start ports e rid;
               d1 = emit_effect (SentTaskStart e rid ok) (d\<lparr>dsp_pool := pool\<rparr>)
           in if \<not> ok then map_option (\<lambda>d2. (SubmitRejected rid RejectCallbackError, count_attempt_rejected d2)) (write_failed ports e rid permit d1)
              else
                Some (SubmitAccepted rid e,
                  d1\<lparr>dsp_pending := bt_insert rid
                       \<lparr>pn_kind = KindTaskAttempt, pn_session_epoch = e, pn_lease = sel_lease selected, pn_permit = permit,
                        pn_stream_phase = None, pn_next_seq = 0, pn_deadline = sh_deadline (ta_header attempt),
                        pn_task_attempt = Some \<lparr>tf_task_id = ta_task_id attempt, tf_attempt_id = ta_attempt_id attempt, tf_lease_id = ta_lease_id attempt\<rparr>,
                        pn_test_case_capability = sh_test_case_capability (ta_header attempt)\<rparr> (dsp_pending d1),
                     dsp_task_attempt_accepted := inc_u64 (dsp_task_attempt_accepted d1)\<rparr>)))"

definition task_attempt_submit ::
  "'err dispatch_ports \<Rightarrow> attempt_submit \<Rightarrow> dispatcher \<Rightarrow> (submit_result \<times> dispatcher) option" where
  "task_attempt_submit ports attempt d =
     (let h = ta_header attempt; rid = sh_request_id h
      in if dsp_stopped d then Some (SubmitRejected rid RejectShutdown, count_attempt_rejected d)
         else if bt_get (dsp_pending d) rid \<noteq> None then
           Some (SubmitRejected rid RejectDuplicate, count_attempt_rejected (d\<lparr>dsp_pool := record_duplicate_request_id (dsp_pool d)\<rparr>))
         else if (case sh_deadline h of Some dl \<Rightarrow> dp_is_expired ports dl | None \<Rightarrow> False) then
           Some (SubmitRejected rid RejectDeadlineExpired, count_attempt_rejected d)
         else if dispatch_mode_from_wire (sh_mode h) = None then Some (SubmitRejected rid RejectInvalidMode, count_attempt_rejected d)
         else
           (case candidate_query_from_build_id Unary (sh_build_id h) of
              None \<Rightarrow> Some (SubmitRejected rid RejectNoCandidate, count_attempt_rejected (d\<lparr>dsp_pool := record_no_candidate (dsp_pool d)\<rparr>))
            | Some query \<Rightarrow>
                let leases = (case ta_prefer_session attempt of
                                None \<Rightarrow> admission_leases ports query d
                              | Some prefer \<Rightarrow> filter (\<lambda>l. rl_session_epoch l = prefer) (admission_leases ports query d))
                in Option.bind (admit ports rid (sh_deadline h) leases (ta_prefer_session attempt) (ta_prefer_session attempt \<noteq> None) (dsp_pool d))
                     (\<lambda>(r, pool). case r of
                        AdmitRefused reason \<Rightarrow> Some (SubmitRejected rid reason, count_attempt_rejected (d\<lparr>dsp_pool := pool\<rparr>))
                      | Admitted selected \<Rightarrow> enqueue_task_attempt_locked ports attempt selected (d\<lparr>dsp_pool := pool\<rparr>))))"

section \<open>Response frames\<close>

definition is_stale :: "dispatcher \<Rightarrow> runtime_session_epoch \<Rightarrow> string \<Rightarrow> bool" where
  "is_stale d e rid \<longleftrightarrow> (case bt_get (dsp_pending d) rid of None \<Rightarrow> True | Some pn \<Rightarrow> pn_session_epoch pn \<noteq> e)"

text \<open>A terminal that the code unwraps: without a pending request the call would panic.\<close>

definition terminal_outcome ::
  "'err dispatched_frame list \<Rightarrow> (pending_terminal option \<times> dispatcher) option \<Rightarrow> ('err frame_outcome \<times> dispatcher) option" where
  "terminal_outcome frames r =
     Option.bind r (\<lambda>(t, d). map_option (\<lambda>t. (\<lparr>fo_frames = frames, fo_terminals = [t]\<rparr>, d)) t)"

definition protocol_error_terminal :: "'err dispatch_ports \<Rightarrow> string \<Rightarrow> dispatcher \<Rightarrow> ('err frame_outcome \<times> dispatcher) option" where
  "protocol_error_terminal ports rid d =
     terminal_outcome [] (dispatch_terminal_locked ports rid OutcomeProtocolError SourceProtocolError (Some ''protocol_error'') None d)"

definition update_pending :: "string \<Rightarrow> (pending_request \<Rightarrow> pending_request) \<Rightarrow> dispatcher \<Rightarrow> dispatcher" where
  "update_pending rid f d =
     (case bt_get (dsp_pending d) rid of None \<Rightarrow> d | Some pn \<Rightarrow> d\<lparr>dsp_pending := bt_insert rid (f pn) (dsp_pending d)\<rparr>)"

definition on_start :: "'err dispatch_ports \<Rightarrow> string \<Rightarrow> dispatcher \<Rightarrow> ('err frame_outcome \<times> dispatcher) option" where
  "on_start ports rid d =
     (if (case bt_get (dsp_pending d) rid of None \<Rightarrow> False | Some pn \<Rightarrow> pn_kind pn = KindStream \<and> pn_stream_phase pn = Some WaitingStart) then
        Some (\<lparr>fo_frames = [DispStart rid], fo_terminals = []\<rparr>, update_pending rid (\<lambda>pn. pn\<lparr>pn_stream_phase := Some Streaming\<rparr>) d)
      else protocol_error_terminal ports rid d)"

definition on_chunk :: "'err dispatch_ports \<Rightarrow> string \<Rightarrow> u64 \<Rightarrow> nat list \<Rightarrow> dispatcher \<Rightarrow> ('err frame_outcome \<times> dispatcher) option" where
  "on_chunk ports rid seq payload d =
     (if (case bt_get (dsp_pending d) rid of
            None \<Rightarrow> False
          | Some pn \<Rightarrow> pn_kind pn = KindStream \<and> pn_stream_phase pn = Some Streaming \<and> seq = pn_next_seq pn) then
        Some (\<lparr>fo_frames = [DispChunk rid seq payload], fo_terminals = []\<rparr>,
              update_pending rid (\<lambda>pn. pn\<lparr>pn_next_seq := inc_u64 (pn_next_seq pn)\<rparr>) d)
      else protocol_error_terminal ports rid d)"

definition on_end :: "'err dispatch_ports \<Rightarrow> string \<Rightarrow> bool \<Rightarrow> nat list \<Rightarrow> dispatcher \<Rightarrow> ('err frame_outcome \<times> dispatcher) option" where
  "on_end ports rid payload_present payload d =
     (let completes =
        (case bt_get (dsp_pending d) rid of
           None \<Rightarrow> False
         | Some pn \<Rightarrow>
             (case pn_kind pn of
                KindUnary \<Rightarrow> True
              | KindStream \<Rightarrow> pn_stream_phase pn = Some Streaming \<and> \<not> payload_present
              | KindTaskAttempt \<Rightarrow> \<not> payload_present))
      in if \<not> completes then protocol_error_terminal ports rid d
         else terminal_outcome [DispEnd rid payload] (dispatch_terminal_locked ports rid Completed RuntimeResponseEnd None None d))"

definition on_error :: "'err dispatch_ports \<Rightarrow> string \<Rightarrow> 'err \<Rightarrow> dispatcher \<Rightarrow> ('err frame_outcome \<times> dispatcher) option" where
  "on_error ports rid error d =
     terminal_outcome [DispError rid error]
       (dispatch_terminal_locked ports rid OutcomeFailed RuntimeResponseError None (Some (dp_debug_error ports error)) d)"

definition on_runtime_cancel :: "'err dispatch_ports \<Rightarrow> string \<Rightarrow> string \<Rightarrow> dispatcher \<Rightarrow> ('err frame_outcome \<times> dispatcher) option" where
  "on_runtime_cancel ports rid reason d =
     (if \<not> (case cancel_reason_from_wire reason of None \<Rightarrow> False | Some parsed \<Rightarrow> parsed \<in> set CONTRACT_H) then
        protocol_error_terminal ports rid d
      else terminal_outcome [] (dispatch_terminal_locked ports rid OutcomeCancelled RuntimeRequestCancel None (Some reason) d))"

definition on_frame ::
  "'err dispatch_ports \<Rightarrow> runtime_session_epoch \<Rightarrow> 'err response_frame \<Rightarrow> dispatcher \<Rightarrow> ('err frame_outcome \<times> dispatcher) option" where
  "on_frame ports e frame d =
     (let rid = frame_request_id frame
      in if is_stale d e rid then Some (default_frame_outcome, d)
         else
           (case frame of
              FrameStart _ \<Rightarrow> on_start ports rid d
            | FrameChunk _ seq payload \<Rightarrow> on_chunk ports rid seq payload d
            | FrameEnd _ payload_present payload \<Rightarrow> on_end ports rid payload_present payload d
            | FrameError _ error \<Rightarrow> on_error ports rid error d
            | FrameCancel _ reason \<Rightarrow> on_runtime_cancel ports rid reason d))"

section \<open>Ends from outside\<close>

fun terminate_all ::
  "'err dispatch_ports \<Rightarrow> string list \<Rightarrow> terminal_source \<Rightarrow> string option \<Rightarrow> dispatcher \<Rightarrow> (pending_terminal list \<times> dispatcher) option" where
  "terminate_all ports [] source reason d = Some ([], d)"
| "terminate_all ports (rid # rids) source reason d =
     Option.bind (dispatch_terminal_locked ports rid OutcomeCancelled source reason None d) (\<lambda>(t, d1).
       map_option (\<lambda>(ts, d2). ((case t of None \<Rightarrow> ts | Some t \<Rightarrow> t # ts), d2)) (terminate_all ports rids source reason d1))"

definition on_session_closed :: "'err dispatch_ports \<Rightarrow> runtime_session_epoch \<Rightarrow> dispatcher \<Rightarrow> (pending_terminal list \<times> dispatcher) option" where
  "on_session_closed ports e d =
     (let d1 = d\<lparr>dsp_closed_sessions := insert e (dsp_closed_sessions d)\<rparr>;
          rids = map fst (filter (\<lambda>(_, pn). pn_session_epoch pn = e) (dsp_pending d1))
      in terminate_all ports rids RuntimeDisconnect None d1)"

definition dispatcher_shutdown :: "'err dispatch_ports \<Rightarrow> dispatcher \<Rightarrow> (pending_terminal list \<times> dispatcher) option" where
  "dispatcher_shutdown ports d =
     (let d1 = d\<lparr>dsp_stopped := True\<rparr>
      in terminate_all ports (bt_keys (dsp_pending d1)) RouterShutdown (Some ''router_shutdown'') d1)"

definition request_timeout :: "'err dispatch_ports \<Rightarrow> string \<Rightarrow> dispatcher \<Rightarrow> (pending_terminal option \<times> dispatcher) option" where
  "request_timeout ports rid d = dispatch_terminal_locked ports rid OutcomeCancelled SourceTimeout (Some ''timeout'') None d"

definition caller_abort :: "'err dispatch_ports \<Rightarrow> string \<Rightarrow> string option \<Rightarrow> dispatcher \<Rightarrow> (pending_terminal option \<times> dispatcher) option" where
  "caller_abort ports rid wire_reason d =
     (let reason = (case wire_reason of Some r \<Rightarrow> if r \<noteq> [] then r else ''caller_cancel'' | None \<Rightarrow> ''caller_cancel'')
      in dispatch_terminal_locked ports rid OutcomeCancelled CallerAbort (Some reason) None d)"

definition client_disconnect :: "'err dispatch_ports \<Rightarrow> string \<Rightarrow> dispatcher \<Rightarrow> (pending_terminal option \<times> dispatcher) option" where
  "client_disconnect ports rid d = dispatch_terminal_locked ports rid OutcomeCancelled SourceClientDisconnect (Some ''client_disconnect'') None d"

definition backpressure :: "'err dispatch_ports \<Rightarrow> string \<Rightarrow> dispatcher \<Rightarrow> (pending_terminal option \<times> dispatcher) option" where
  "backpressure ports rid d = dispatch_terminal_locked ports rid OutcomeCancelled SourceBackpressure (Some ''backpressure'') None d"

section \<open>Queries\<close>

definition pending_count :: "dispatcher \<Rightarrow> usize" where
  "pending_count d = length (dsp_pending d)"

definition dispatch_parent_test_capability :: "dispatcher \<Rightarrow> runtime_session_epoch \<Rightarrow> string \<Rightarrow> string option" where
  "dispatch_parent_test_capability d e rid =
     Option.bind (bt_get (dsp_pending d) rid) (\<lambda>pn. if pn_session_epoch pn = e then pn_test_case_capability pn else None)"

definition pending_lease :: "dispatcher \<Rightarrow> string \<Rightarrow> registered_session_lease option" where
  "pending_lease d rid = map_option pn_lease (bt_get (dsp_pending d) rid)"

definition is_task_attempt :: "dispatcher \<Rightarrow> string \<Rightarrow> bool" where
  "is_task_attempt d rid \<longleftrightarrow> (case bt_get (dsp_pending d) rid of None \<Rightarrow> False | Some pn \<Rightarrow> pn_kind pn = KindTaskAttempt)"

definition pending_deadline :: "dispatcher \<Rightarrow> string \<Rightarrow> request_deadline option" where
  "pending_deadline d rid = Option.bind (bt_get (dsp_pending d) rid) pn_deadline"

record pending_health =
  ph_unary :: u64
  ph_stream :: u64
  ph_task_attempt :: u64

definition pending_health_of :: "dispatcher \<Rightarrow> pending_health" where
  "pending_health_of d =
     fold (\<lambda>pn h. case pn_kind pn of
             KindUnary \<Rightarrow> h\<lparr>ph_unary := inc_u64 (ph_unary h)\<rparr>
           | KindStream \<Rightarrow> h\<lparr>ph_stream := inc_u64 (ph_stream h)\<rparr>
           | KindTaskAttempt \<Rightarrow> h\<lparr>ph_task_attempt := inc_u64 (ph_task_attempt h)\<rparr>)
       (bt_values (dsp_pending d)) \<lparr>ph_unary = 0, ph_stream = 0, ph_task_attempt = 0\<rparr>"

end
