(* ===== verification/Router_Dispatcher_Properties.thy ===== *)
theory Router_Dispatcher_Properties
  imports Router_Dispatcher "HOL-Library.Multiset"
begin

text \<open>
  What the request dispatcher guarantees over any sequence of calls and any answers of its ports: permits match
  the pending requests and no call panics, every admitted request ends exactly once, streams are forwarded in
  order, task attempts are reported once, and a closed session receives nothing more.
\<close>

section \<open>The pool against a count\<close>

definition pool_matches :: "admission_pool \<Rightarrow> (runtime_session_epoch \<Rightarrow> nat) \<Rightarrow> nat \<Rightarrow> bool" where
  "pool_matches p f n \<longleftrightarrow>
     distinct (map fst (ap_in_flight p)) \<and> (\<forall>e. pool_in_flight p e = f e) \<and> permits_held p = n \<and> (\<forall>e. f e \<le> ap_max_concurrency p)"

lemma sum_update:
  "sum_list (map snd (AList.update k v al)) + (case map_of al k of Some n \<Rightarrow> n | None \<Rightarrow> 0) = sum_list (map snd al) + (v :: nat)"
  by (induction al) auto

lemma sum_delete:
  "distinct (map fst al) \<Longrightarrow>
   sum_list (map snd (AList.delete k al)) + (case map_of al k of Some n \<Rightarrow> n | None \<Rightarrow> 0) = sum_list (map snd (al :: ('a \<times> nat) list))"
proof (induction al)
  case (Cons x al)
  then show ?case by (cases "fst x = k") (auto simp: AList.delete_eq filter_id_conv image_iff split: option.splits)
qed simp

lemma matches_frame:
  "pool_matches p f n \<Longrightarrow> ap_in_flight q = ap_in_flight p \<Longrightarrow> ap_max_concurrency q = ap_max_concurrency p \<Longrightarrow> pool_matches q f n"
  by (simp add: pool_matches_def permits_held_def pool_in_flight_def)

lemma matches_count:
  assumes "pool_matches p f n" "f e < ap_max_concurrency p"
  shows "pool_matches (count_in_flight e p) (f(e := f e + 1)) (n + 1)"
proof -
  have "permits_held (count_in_flight e p) = permits_held p + 1"
    using sum_update [of e "pool_in_flight p e + 1" "ap_in_flight p"]
    by (simp add: count_in_flight_def permits_held_def pool_in_flight_def)
  moreover have "distinct (map fst (ap_in_flight (count_in_flight e p)))"
    using assms(1) by (simp add: count_in_flight_def pool_matches_def distinct_update)
  ultimately show ?thesis using assms by (simp add: pool_matches_def)
qed

lemma matches_release:
  assumes "pool_matches p f n" "0 < f e"
  shows "\<exists>p'. release_permit e p = Some p' \<and> ap_max_concurrency p' = ap_max_concurrency p \<and> pool_matches p' (f(e := f e - 1)) (n - 1)"
proof -
  have dist: "distinct (map fst (ap_in_flight p))" using assms(1) by (simp add: pool_matches_def)
  have pos: "0 < pool_in_flight p e" using assms by (simp add: pool_matches_def)
  then obtain k where k: "map_of (ap_in_flight p) e = Some k" "0 < k" by (auto simp: pool_in_flight_def split: option.splits)
  obtain p' where p': "release_permit e p = Some p'" "ap_max_concurrency p' = ap_max_concurrency p"
    "\<forall>x. pool_in_flight p' x = pool_in_flight p x - (if x = e then 1 else 0)"
    using release_permit_exact [OF pos] by blast
  have flight: "ap_in_flight p' = (if k - 1 = 0 then AList.delete e (ap_in_flight p) else AList.update e (k - 1) (ap_in_flight p))"
    using p'(1) k by (auto simp: release_permit_def)
  have "permits_held p' = permits_held p - 1"
    using sum_update [of e "k - 1" "ap_in_flight p"] sum_delete [OF dist, of e] k by (auto simp: permits_held_def flight)
  moreover have "distinct (map fst (ap_in_flight p'))"
    using dist by (simp add: flight distinct_update distinct_delete)
  ultimately show ?thesis
    using assms(1) p' by (auto simp: pool_matches_def intro: le_trans [OF diff_le_self])
qed

lemma matches_release_again:
  assumes "pool_matches p (f(e := f e + 1)) (n + 1)"
  shows "\<exists>p'. release_permit e p = Some p' \<and> ap_max_concurrency p' = ap_max_concurrency p \<and> pool_matches p' f n"
  using matches_release [OF assms, of e] by simp

lemma permit_life [simp]:
  "commit_reservation \<lparr>rv_session = e, rv_released = False\<rparr> p = Some (\<lparr>pm_session = e, pm_released = False\<rparr>, p)"
  "release_reservation \<lparr>rv_session = e, rv_released = False\<rparr> p = release_permit e p"
  "release_held_permit \<lparr>pm_session = e, pm_released = False\<rparr> p = release_permit e p"
  by (simp_all add: commit_reservation_def release_reservation_def release_held_permit_def drop_reservation_def drop_permit_def split: bind_split)

text \<open>A selection that takes a lease from a list and reserves its session.\<close>

definition took_lease :: "registered_session_lease list \<Rightarrow> (runtime_session_epoch \<Rightarrow> nat) \<Rightarrow> nat \<Rightarrow> selected_lease \<Rightarrow> admission_pool \<Rightarrow> bool" where
  "took_lease leases f n sel p \<longleftrightarrow>
     sel_lease sel \<in> set leases \<and> sel_reservation sel = \<lparr>rv_session = rl_session_epoch (sel_lease sel), rv_released = False\<rparr> \<and>
     pool_matches p (f(rl_session_epoch (sel_lease sel) := f (rl_session_epoch (sel_lease sel)) + 1)) (n + 1)"

lemma reserve_took:
  assumes "pool_matches p f n" "lease \<in> set leases" "capacity_available p lease" "reserve_locked lease p = (rv, p')"
  shows "took_lease leases f n \<lparr>sel_lease = lease, sel_reservation = rv\<rparr> p' \<and> ap_max_concurrency p' = ap_max_concurrency p"
  using assms matches_count [OF assms(1), of "rl_session_epoch lease"]
  by (auto simp: took_lease_def reserve_locked_def capacity_available_def pool_matches_def)

lemma select_took:
  assumes "pool_matches p f n" "select_lease leases preferred p = (Some sel, p')"
  shows "took_lease leases f n sel p' \<and> ap_max_concurrency p' = ap_max_concurrency p"
proof -
  have ne: "leases \<noteq> []" using assms(2) by (auto simp: select_lease_def)
  obtain i where i: "select_index leases preferred p = Some i" "select_at leases i p = (Some sel, p')"
    using assms(2) by (auto simp: select_lease_index [OF ne] split: option.splits)
  let ?q = "p\<lparr>ap_cursor := (i + 1) mod length leases\<rparr>"
  have "pool_matches ?q f n" using assms(1) by (rule matches_frame) simp_all
  moreover have "leases ! i \<in> set leases" "capacity_available ?q (leases ! i)"
    using select_index_Some [OF ne i(1)] by (simp_all add: capacity_available_def)
  moreover obtain rv where "reserve_locked (leases ! i) ?q = (rv, p')" "sel = \<lparr>sel_lease = leases ! i, sel_reservation = rv\<rparr>"
    using i(2) by (auto simp: select_at_def split: prod.splits)
  ultimately show ?thesis using reserve_took [of ?q f n "leases ! i" leases rv p'] by simp
qed

lemma select_none: "select_lease leases preferred p = (None, p') \<Longrightarrow> p' = p"
  by (auto simp: select_lease_def select_scan_def select_at_def split: if_splits option.splits prod.splits)

lemma reselect_took:
  assumes "pool_matches p f n" "select_after_revalidate_failure leases excluded p = (r, p')"
  shows "case r of None \<Rightarrow> p' = p | Some sel \<Rightarrow> took_lease leases f n sel p' \<and> ap_max_concurrency p' = ap_max_concurrency p"
proof (cases "List.find (\<lambda>lease. rl_session_epoch lease \<noteq> excluded \<and> capacity_available p lease) leases")
  case None
  then show ?thesis using assms(2) by (auto simp: select_after_revalidate_failure_def)
next
  case (Some lease)
  then have lease: "lease \<in> set leases" "capacity_available p lease" by (auto simp: find_Some_iff)
  obtain rv q where rv: "reserve_locked lease p = (rv, q)" by (cases "reserve_locked lease p")
  have "r = Some \<lparr>sel_lease = lease, sel_reservation = rv\<rparr>" "p' = q"
    using assms(2) Some rv by (simp_all add: select_after_revalidate_failure_def)
  then show ?thesis using reserve_took [OF assms(1) lease rv] by simp
qed

lemma admit_ok:
  assumes "pool_matches p f n"
  shows "\<exists>r p'. admit ports rid deadline leases preferred tied p = Some (r, p') \<and> ap_max_concurrency p' = ap_max_concurrency p \<and>
    (case r of AdmitRefused _ \<Rightarrow> pool_matches p' f n | Admitted sel \<Rightarrow> took_lease leases f n sel p')"
proof (cases "leases = []")
  case True
  then show ?thesis using matches_frame [OF assms, of "record_no_candidate p"] by (simp add: admit_def)
next
  case ne: False
  obtain s p1 where sel: "select_lease leases preferred p = (s, p1)" by (cases "select_lease leases preferred p")
  show ?thesis
  proof (cases s)
    case None
    then show ?thesis
      using sel select_none [of leases preferred p p1] matches_frame [OF assms, of "record_queue_full p"] ne by (simp add: admit_def)
  next
    case (Some sl)
    let ?e = "rl_session_epoch (sel_lease sl)"
    have took_lease: "took_lease leases f n sl p1" "ap_max_concurrency p1 = ap_max_concurrency p"
      using select_took [OF assms] sel Some by auto
    then have p1: "pool_matches p1 (f(?e := f ?e + 1)) (n + 1)" and rv: "sel_reservation sl = \<lparr>rv_session = ?e, rv_released = False\<rparr>"
      by (simp_all add: took_lease_def)
    obtain p2 where p2: "release_permit ?e p1 = Some p2" "ap_max_concurrency p2 = ap_max_concurrency p" "pool_matches p2 f n"
      using matches_release_again [OF p1] took_lease(2) by auto
    have p1': "pool_matches (record_revalidate_failure p1) (f(?e := f ?e + 1)) (n + 1)"
      by (rule matches_frame [OF p1]) simp_all
    obtain p3 where p3: "release_permit ?e (record_revalidate_failure p1) = Some p3" "ap_max_concurrency p3 = ap_max_concurrency p" "pool_matches p3 f n"
      using matches_release_again [OF p1'] took_lease(2) by auto
    obtain r4 p4 where re: "select_after_revalidate_failure leases ?e p3 = (r4, p4)" by (cases "select_after_revalidate_failure leases ?e p3")
    have p4: "case r4 of None \<Rightarrow> p4 = p3 | Some s \<Rightarrow> took_lease leases f n s p4 \<and> ap_max_concurrency p4 = ap_max_concurrency p3"
      by (rule reselect_took [OF p3(3) re])
    have p4': "took_lease leases f n s (record_reselect p4)" if "took_lease leases f n s p4" for s
      using that matches_frame [of p4 _ _ "record_reselect p4"] by (simp add: took_lease_def)
    show ?thesis
      using ne sel Some rv p2 p3 re p4 p4' took_lease by (auto simp: admit_def split: option.splits)
  qed
qed

section \<open>The pending table\<close>

definition pending_on :: "(string, pending_request) btree \<Rightarrow> runtime_session_epoch \<Rightarrow> nat" where
  "pending_on m e = length (filter (\<lambda>pn. pn_session_epoch pn = e) (bt_values m))"

lemma bt_values_insert_new: "bt_ok m \<Longrightarrow> bt_get m k = None \<Longrightarrow> mset (bt_values (bt_insert k v m)) = add_mset v (mset (bt_values m))"
  by (induction k v m rule: bt_insert.induct) (auto simp: bt_values_def bt_get_def bt_ok_Cons split: if_splits)

lemma bt_values_insert_old:
  "bt_ok m \<Longrightarrow> bt_get m k = Some w \<Longrightarrow> add_mset w (mset (bt_values (bt_insert k v m))) = add_mset v (mset (bt_values m))"
proof (induction k v m rule: bt_insert.induct)
  case (2 k v k' v' m)
  show ?case
  proof (cases "k = k'")
    case True
    then show ?thesis using 2 by (auto simp: bt_values_def bt_get_def)
  next
    case ne: False
    then have "bt_get m k = Some w" using 2 by (simp add: bt_get_def)
    moreover have "k' < k" using 2(2) bt_get_in_set [OF calculation] by (force simp: bt_ok_Cons)
    ultimately show ?thesis using 2 ne by (auto simp: bt_values_def bt_ok_Cons add_mset_commute)
  qed
qed (simp add: bt_get_def)

lemma bt_remove_absent: "bt_get m k = None \<Longrightarrow> bt_remove k m = m"
  by (induction m) (auto simp: bt_remove_def bt_get_def split: if_splits)

lemma bt_values_remove:
  "bt_ok m \<Longrightarrow> bt_get m k = Some v \<Longrightarrow> add_mset v (mset (bt_values (bt_remove k m))) = mset (bt_values m)"
proof (induction m)
  case (Cons x m)
  show ?case
  proof (cases "fst x = k")
    case True
    then have "bt_get m k = None" using Cons by (auto simp: bt_ok_Cons bt_get_def map_of_eq_None_iff)
    then have "bt_remove k m = m" by (rule bt_remove_absent)
    then show ?thesis using Cons True by (cases x) (auto simp: bt_values_def bt_remove_def bt_get_def)
  next
    case False
    then have "bt_remove k (x # m) = x # bt_remove k m" "bt_get m k = Some v"
      using Cons by (auto simp: bt_remove_def bt_get_def split: if_splits)
    then show ?thesis using Cons by (simp add: bt_values_def bt_ok_Cons)
  qed
qed (simp add: bt_get_def)

lemma pending_on_mset: "pending_on m e = size (filter_mset (\<lambda>pn. pn_session_epoch pn = e) (mset (bt_values m)))"
  by (metis pending_on_def mset_filter size_mset)

lemma length_mset: "length m = size (mset (bt_values m))"
  by (simp add: bt_values_def)

lemma pending_insert:
  assumes "bt_ok m" "bt_get m rid = None"
  shows "pending_on (bt_insert rid pn m) = (pending_on m)(pn_session_epoch pn := pending_on m (pn_session_epoch pn) + 1)"
    and "length (bt_insert rid pn m) = length m + 1"
  using bt_values_insert_new [OF assms, of pn] by (auto simp: fun_eq_iff pending_on_mset length_mset)

lemma pending_remove:
  assumes "bt_ok m" "bt_get m rid = Some pn"
  shows "pending_on m = (pending_on (bt_remove rid m))(pn_session_epoch pn := pending_on (bt_remove rid m) (pn_session_epoch pn) + 1)"
    and "length m = length (bt_remove rid m) + 1"
  using bt_values_remove [OF assms, symmetric] by (auto simp: fun_eq_iff pending_on_mset length_mset)

lemma pending_update:
  assumes "bt_ok m" "bt_get m rid = Some pn" "pn_session_epoch pn' = pn_session_epoch pn"
  shows "pending_on (bt_insert rid pn' m) = pending_on m" "length (bt_insert rid pn' m) = length m"
proof -
  note ms = bt_values_insert_old [OF assms(1,2), of pn']
  have "size (add_mset pn (mset (bt_values (bt_insert rid pn' m)))) = size (add_mset pn' (mset (bt_values m)))" using ms by simp
  then show "length (bt_insert rid pn' m) = length m" by (simp add: length_mset)
  have filtered: "size (filter_mset (\<lambda>x. pn_session_epoch x = e) (add_mset pn (mset (bt_values (bt_insert rid pn' m))))) =
      size (filter_mset (\<lambda>x. pn_session_epoch x = e) (add_mset pn' (mset (bt_values m))))" for e
    using ms by simp
  show "pending_on (bt_insert rid pn' m) = pending_on m"
  proof (rule ext)
    fix e
    show "pending_on (bt_insert rid pn' m) e = pending_on m e"
      using filtered [of e] assms(3) by (cases "pn_session_epoch pn = e") (simp_all add: pending_on_mset)
  qed
qed

section \<open>Invariant\<close>

text \<open>A pending request owns one permit of its session, which is not closed; only streams have a phase, only task attempts have facts.\<close>

definition pending_ok :: "runtime_session_epoch set \<Rightarrow> pending_request \<Rightarrow> bool" where
  "pending_ok closed pn \<longleftrightarrow>
     pn_permit pn = \<lparr>pm_session = pn_session_epoch pn, pm_released = False\<rparr> \<and> rl_session_epoch (pn_lease pn) = pn_session_epoch pn \<and>
     pn_session_epoch pn \<notin> closed \<and> (pn_stream_phase pn \<noteq> None \<longleftrightarrow> pn_kind pn = KindStream) \<and>
     (pn_task_attempt pn \<noteq> None \<longleftrightarrow> pn_kind pn = KindTaskAttempt)"

definition dispatcher_core :: "runtime_session_epoch set \<Rightarrow> dispatcher \<Rightarrow> bool" where
  "dispatcher_core closed d \<longleftrightarrow>
     bt_ok (dsp_pending d) \<and> pool_matches (dsp_pool d) (pending_on (dsp_pending d)) (length (dsp_pending d)) \<and>
     (\<forall>rid pn. bt_get (dsp_pending d) rid = Some pn \<longrightarrow> pending_ok closed pn)"

definition dispatcher_inv :: "dispatcher \<Rightarrow> bool" where
  "dispatcher_inv d \<longleftrightarrow> dispatcher_core (dsp_closed_sessions d) d \<and> (dsp_stopped d \<longrightarrow> dsp_pending d = [])"

lemma effect_frames [simp]:
  "dsp_pool (emit_effect x d) = dsp_pool d" "dsp_pending (emit_effect x d) = dsp_pending d"
  "dsp_closed_sessions (emit_effect x d) = dsp_closed_sessions d" "dsp_stopped (emit_effect x d) = dsp_stopped d"
  "dsp_effects (emit_effect x d) = dsp_effects d @ [x]"
  "dsp_pool (count_source s d) = dsp_pool d" "dsp_pending (count_source s d) = dsp_pending d"
  "dsp_closed_sessions (count_source s d) = dsp_closed_sessions d" "dsp_stopped (count_source s d) = dsp_stopped d"
  "dsp_effects (count_source s d) = dsp_effects d"
  "dsp_pool (count_attempt_rejected d) = dsp_pool d" "dsp_pending (count_attempt_rejected d) = dsp_pending d"
  "dsp_closed_sessions (count_attempt_rejected d) = dsp_closed_sessions d" "dsp_stopped (count_attempt_rejected d) = dsp_stopped d"
  "dsp_effects (count_attempt_rejected d) = dsp_effects d"
  by (simp_all add: emit_effect_def count_source_def count_attempt_rejected_def)

text \<open>
  What every call keeps: the bound, the closed sessions and whether the dispatcher is stopped, and the log only
  grows by effects of a given kind.
\<close>

definition quiet_effect :: "dispatch_effect \<Rightarrow> bool" where
  "quiet_effect x = (case x of SentStart _ _ _ \<Rightarrow> False | SentTaskStart _ _ _ \<Rightarrow> False | _ \<Rightarrow> True)"

definition keeps :: "dispatcher \<Rightarrow> dispatcher \<Rightarrow> bool" where
  "keeps d d' \<longleftrightarrow>
     ap_max_concurrency (dsp_pool d') = ap_max_concurrency (dsp_pool d) \<and> dsp_closed_sessions d' = dsp_closed_sessions d \<and>
     dsp_stopped d' = dsp_stopped d"

definition attempt_reports :: "string \<Rightarrow> dispatch_effect list \<Rightarrow> nat" where
  "attempt_reports rid es = length (filter (\<lambda>x. case x of AttemptTerminal r _ _ \<Rightarrow> r = rid | _ \<Rightarrow> False) es)"

text \<open>The end of a request: it leaves the table, its permit returns, and a task attempt is reported.\<close>

lemma dispatch_terminal_locked_ok:
  assumes "dispatcher_core closed d"
  shows "\<exists>t d' es. dispatch_terminal_locked ports rid outcome source reason msg d = Some (t, d') \<and> dispatcher_core closed d' \<and> keeps d d' \<and>
    dsp_pending d' = bt_remove rid (dsp_pending d) \<and> dsp_effects d' = dsp_effects d @ es \<and> list_all quiet_effect es \<and>
    (case bt_get (dsp_pending d) rid of
       None \<Rightarrow> t = None \<and> es = []
     | Some pn \<Rightarrow> (\<exists>x. t = Some x \<and> pt_request_id x = rid) \<and>
         (\<forall>r. attempt_reports r es = (if r = rid \<and> pn_kind pn = KindTaskAttempt then 1 else 0)))"
proof (cases "bt_get (dsp_pending d) rid")
  case None
  then show ?thesis
    using assms by (simp add: dispatch_terminal_locked_def keeps_def bt_remove_absent)
next
  case (Some pn)
  have ok: "bt_ok (dsp_pending d)" "pool_matches (dsp_pool d) (pending_on (dsp_pending d)) (length (dsp_pending d))" "pending_ok closed pn"
    using assms Some by (auto simp: dispatcher_core_def)
  let ?m = "bt_remove rid (dsp_pending d)" and ?e = "pn_session_epoch pn"
  note removed = pending_remove [OF ok(1) Some]
  have "pool_matches (dsp_pool d) ((pending_on ?m)(?e := pending_on ?m ?e + 1)) (length ?m + 1)"
    using ok(2) removed by simp
  then obtain pool where pool: "release_permit ?e (dsp_pool d) = Some pool" "ap_max_concurrency pool = ap_max_concurrency (dsp_pool d)"
    "pool_matches pool (pending_on ?m) (length ?m)"
    using matches_release_again by blast
  have permit: "release_held_permit (pn_permit pn) (dsp_pool d) = Some pool"
    using ok(3) pool(1) by (simp add: pending_ok_def)
  have kind: "pn_task_attempt pn = None \<longleftrightarrow> pn_kind pn \<noteq> KindTaskAttempt" using ok(3) by (auto simp: pending_ok_def)
  have core: "dispatcher_core closed x" if "dsp_pending x = ?m" "dsp_pool x = pool" for x
    using that assms pool(3) ok(1) by (auto simp: dispatcher_core_def bt_ok_remove bt_get_remove split: if_splits)
  show ?thesis
    using Some permit pool(2) kind
    by (auto simp: dispatch_terminal_locked_def Let_def keeps_def quiet_effect_def attempt_reports_def intro!: core split: option.splits if_splits)
qed

section \<open>Calls\<close>

datatype 'err dispatch_call =
    CallSubmit dispatch_submit
  | CallAttempt attempt_submit
  | CallFrame runtime_session_epoch "'err response_frame"
  | CallClosed runtime_session_epoch
  | CallShutdown
  | CallTimeout string
  | CallAbort string "string option"
  | CallClientDisconnect string
  | CallBackpressure string

text \<open>What a call reports: the request it admitted, the frames it forwards, and the terminals.\<close>

record 'err dispatch_event =
  ev_admitted :: "(string \<times> runtime_session_epoch \<times> pending_kind) option"
  ev_frames :: "'err dispatched_frame list"
  ev_terminals :: "pending_terminal list"

definition quiet_event :: "'err dispatch_event" where
  "quiet_event = \<lparr>ev_admitted = None, ev_frames = [], ev_terminals = []\<rparr>"

definition admission_event :: "pending_kind \<Rightarrow> submit_result \<Rightarrow> 'err dispatch_event" where
  "admission_event kind r =
     (case r of SubmitAccepted rid e \<Rightarrow> quiet_event\<lparr>ev_admitted := Some (rid, e, kind)\<rparr> | SubmitRejected _ _ \<Rightarrow> quiet_event)"

definition end_event :: "pending_terminal option \<Rightarrow> 'err dispatch_event" where
  "end_event t = quiet_event\<lparr>ev_terminals := (case t of None \<Rightarrow> [] | Some t \<Rightarrow> [t])\<rparr>"

definition submit_kind :: "dispatch_submit \<Rightarrow> pending_kind" where
  "submit_kind request = (if dispatch_mode_from_wire (sh_mode (ds_header request)) = Some ServerStream then KindStream else KindUnary)"

definition perform :: "'err dispatch_ports \<Rightarrow> 'err dispatch_call \<Rightarrow> dispatcher \<Rightarrow> ('err dispatch_event \<times> dispatcher) option" where
  "perform ports call d =
     (case call of
        CallSubmit request \<Rightarrow> map_option (apfst (admission_event (submit_kind request))) (submit ports request d)
      | CallAttempt attempt \<Rightarrow> map_option (apfst (admission_event KindTaskAttempt)) (task_attempt_submit ports attempt d)
      | CallFrame e frame \<Rightarrow>
          map_option (apfst (\<lambda>o'. \<lparr>ev_admitted = None, ev_frames = fo_frames o', ev_terminals = fo_terminals o'\<rparr>)) (on_frame ports e frame d)
      | CallClosed e \<Rightarrow> map_option (apfst (\<lambda>ts. quiet_event\<lparr>ev_terminals := ts\<rparr>)) (on_session_closed ports e d)
      | CallShutdown \<Rightarrow> map_option (apfst (\<lambda>ts. quiet_event\<lparr>ev_terminals := ts\<rparr>)) (dispatcher_shutdown ports d)
      | CallTimeout rid \<Rightarrow> map_option (apfst end_event) (request_timeout ports rid d)
      | CallAbort rid reason \<Rightarrow> map_option (apfst end_event) (caller_abort ports rid reason d)
      | CallClientDisconnect rid \<Rightarrow> map_option (apfst end_event) (client_disconnect ports rid d)
      | CallBackpressure rid \<Rightarrow> map_option (apfst end_event) (backpressure ports rid d))"

fun dispatch_run :: "('err dispatch_ports \<times> 'err dispatch_call) list \<Rightarrow> dispatcher \<Rightarrow> ('err dispatch_event list \<times> dispatcher) option" where
  "dispatch_run [] d = Some ([], d)"
| "dispatch_run ((ports, c) # cs) d =
     Option.bind (perform ports c d) (\<lambda>(ev, d1). map_option (apfst ((#) ev)) (dispatch_run cs d1))"

section \<open>What a call does\<close>

definition admits :: "string \<Rightarrow> 'err dispatch_event \<Rightarrow> nat" where
  "admits rid ev = (case ev_admitted ev of Some (r, _, _) \<Rightarrow> if r = rid then 1 else 0 | None \<Rightarrow> 0)"

definition ends :: "string \<Rightarrow> 'err dispatch_event \<Rightarrow> nat" where
  "ends rid ev = length (filter (\<lambda>t. pt_request_id t = rid) (ev_terminals ev))"

definition pending_flag :: "(string, pending_request) btree \<Rightarrow> string \<Rightarrow> nat" where
  "pending_flag m rid = (if bt_get m rid = None then 0 else 1)"

definition task_admits :: "string \<Rightarrow> 'err dispatch_event \<Rightarrow> nat" where
  "task_admits rid ev = (case ev_admitted ev of Some (r, _, k) \<Rightarrow> if r = rid \<and> k = KindTaskAttempt then 1 else 0 | None \<Rightarrow> 0)"

definition task_flag :: "(string, pending_request) btree \<Rightarrow> string \<Rightarrow> nat" where
  "task_flag m rid = (case bt_get m rid of None \<Rightarrow> 0 | Some pn \<Rightarrow> if pn_kind pn = KindTaskAttempt then 1 else 0)"

text \<open>The frames forwarded for a request since it was admitted, with its kind.\<close>

fun disp_request_id :: "'err dispatched_frame \<Rightarrow> string" where
  "disp_request_id (DispStart rid) = rid"
| "disp_request_id (DispChunk rid _ _) = rid"
| "disp_request_id (DispEnd rid _) = rid"
| "disp_request_id (DispError rid _) = rid"

type_synonym 'err response = "(pending_kind \<times> 'err dispatched_frame list) option"

definition extend_response :: "string \<Rightarrow> 'err dispatch_event \<Rightarrow> 'err response \<Rightarrow> 'err response" where
  "extend_response rid ev resp =
     (case ev_admitted ev of
        Some (r, _, k) \<Rightarrow> if r = rid then Some (k, []) else resp
      | None \<Rightarrow> map_option (\<lambda>(k, fs). (k, fs @ filter (\<lambda>f. disp_request_id f = rid) (ev_frames ev))) resp)"

definition response_of :: "string \<Rightarrow> 'err dispatch_event list \<Rightarrow> 'err response" where
  "response_of rid evs = fold (extend_response rid) evs None"

text \<open>Chunks are numbered from zero; a response is complete with an end, failed with an error, or cut short.\<close>

definition chunks :: "string \<Rightarrow> nat list list \<Rightarrow> 'err dispatched_frame list" where
  "chunks rid ps = map (\<lambda>(i, p). DispChunk rid ((inc_u64 ^^ i) 0) p) (enumerate 0 ps)"

definition response_shape :: "string \<Rightarrow> pending_kind \<Rightarrow> 'err dispatched_frame list \<Rightarrow> bool" where
  "response_shape rid k fs \<longleftrightarrow>
     fs = [] \<or> (\<exists>err. fs = [DispError rid err]) \<or>
     (if k = KindStream then
        \<exists>ps tail. fs = DispStart rid # chunks rid ps @ tail \<and> (tail = [] \<or> (\<exists>p. tail = [DispEnd rid p]) \<or> (\<exists>err. tail = [DispError rid err]))
      else \<exists>p. fs = [DispEnd rid p])"

definition response_ok :: "string \<Rightarrow> 'err response \<Rightarrow> pending_request option \<Rightarrow> bool" where
  "response_ok rid resp pn =
     (case (resp, pn) of
        (None, None) \<Rightarrow> True
      | (None, Some _) \<Rightarrow> False
      | (Some (k, fs), None) \<Rightarrow> response_shape rid k fs
      | (Some (k, fs), Some pn) \<Rightarrow>
          pn_kind pn = k \<and>
          (if pn_stream_phase pn = Some Streaming then
             \<exists>ps. fs = DispStart rid # chunks rid ps \<and> pn_next_seq pn = (inc_u64 ^^ length ps) 0
           else fs = [] \<and> pn_next_seq pn = 0))"

definition event_ok ::
  "runtime_session_epoch set \<Rightarrow> (string, pending_request) btree \<Rightarrow> 'err dispatch_event \<Rightarrow> dispatch_effect list \<Rightarrow> (string, pending_request) btree \<Rightarrow> bool" where
  "event_ok closed m ev es m' \<longleftrightarrow>
     (\<forall>rid. admits rid ev + pending_flag m rid = ends rid ev + pending_flag m' rid) \<and>
     (\<forall>rid. attempt_reports rid es + task_flag m' rid = task_admits rid ev + task_flag m rid) \<and>
     (\<forall>e rid ok. SentStart e rid ok \<in> set es \<or> SentTaskStart e rid ok \<in> set es \<longrightarrow> e \<notin> closed) \<and>
     (\<forall>rid e k. ev_admitted ev = Some (rid, e, k) \<longrightarrow> e \<notin> closed) \<and>
     (\<forall>rid resp. response_ok rid resp (bt_get m rid) \<longrightarrow> response_ok rid (extend_response rid ev resp) (bt_get m' rid))"

lemmas event_defs = event_ok_def admits_def ends_def pending_flag_def task_admits_def task_flag_def extend_response_def
  attempt_reports_def quiet_event_def

lemma extend_quiet: "ev_admitted ev = None \<Longrightarrow> ev_frames ev = [] \<Longrightarrow> extend_response rid ev resp = resp"
  by (cases resp) (auto simp: extend_response_def)

text \<open>A call that leaves the table alone.\<close>

lemma event_quiet:
  assumes "\<And>rid. attempt_reports rid es = 0" "\<And>e rid ok. SentStart e rid ok \<in> set es \<or> SentTaskStart e rid ok \<in> set es \<Longrightarrow> e \<notin> closed"
  shows "event_ok closed m quiet_event es m"
  using assms unfolding event_ok_def
  by (auto simp: admits_def ends_def task_admits_def quiet_event_def extend_quiet)

text \<open>A call that admits a request.\<close>

lemma event_admit:
  assumes "bt_ok m" "bt_get m rid = None" "\<And>r. attempt_reports r es = 0"
    and "\<And>e rid ok. SentStart e rid ok \<in> set es \<or> SentTaskStart e rid ok \<in> set es \<Longrightarrow> e \<notin> closed" "e \<notin> closed"
    and "pn_stream_phase pn \<noteq> Some Streaming" "pn_next_seq pn = 0" "pn_kind pn = k"
  shows "event_ok closed m (quiet_event\<lparr>ev_admitted := Some (rid, e, k)\<rparr>) es (bt_insert rid pn m)"
  using assms unfolding event_ok_def
  by (auto simp: admits_def ends_def pending_flag_def task_admits_def task_flag_def extend_response_def quiet_event_def
      bt_get_insert response_ok_def split: option.splits)

text \<open>A call that ends a request and forwards its last frame.\<close>

definition last_frames :: "string \<Rightarrow> pending_request \<Rightarrow> 'err dispatched_frame list \<Rightarrow> bool" where
  "last_frames rid pn fs \<longleftrightarrow>
     fs = [] \<or> (\<exists>err. fs = [DispError rid err]) \<or>
     ((pn_kind pn = KindStream \<longrightarrow> pn_stream_phase pn = Some Streaming) \<and> (\<exists>p. fs = [DispEnd rid p]))"

lemma response_last:
  assumes "response_ok rid resp (Some pn)" "last_frames rid pn fs" "pn_stream_phase pn \<noteq> None \<longleftrightarrow> pn_kind pn = KindStream"
  shows "response_ok rid (map_option (\<lambda>(k, gs). (k, gs @ fs)) resp) None"
  using assms by (fastforce simp: response_ok_def response_shape_def last_frames_def split: option.splits if_splits)

lemma last_frames_id: "last_frames rid pn fs \<Longrightarrow> filter (\<lambda>f. disp_request_id f = r) fs = (if r = rid then fs else [])"
  by (auto simp: last_frames_def)

lemma event_end:
  assumes "bt_get m rid = Some pn" "last_frames rid pn fs" "pt_request_id t = rid" "list_all quiet_effect es"
    and "\<And>r. attempt_reports r es = (if r = rid \<and> pn_kind pn = KindTaskAttempt then 1 else 0)"
    and "pn_stream_phase pn \<noteq> None \<longleftrightarrow> pn_kind pn = KindStream"
  shows "event_ok closed m \<lparr>ev_admitted = None, ev_frames = fs, ev_terminals = [t]\<rparr> es (bt_remove rid m)"
proof -
  have starts: "\<not> (SentStart e r ok \<in> set es \<or> SentTaskStart e r ok \<in> set es)" for e r ok
    using assms(4) by (auto simp: list_all_iff quiet_effect_def)
  have "response_ok r (extend_response r \<lparr>ev_admitted = None, ev_frames = fs, ev_terminals = [t]\<rparr> resp) (bt_get (bt_remove rid m) r)"
    if "response_ok r resp (bt_get m r)" for r resp
    using that response_last [of rid resp pn fs] assms(1,2,6)
    by (cases "r = rid") (auto simp: extend_response_def last_frames_id [OF assms(2)] bt_get_remove option.map_id split: prod.splits)
  then show ?thesis
    using assms starts unfolding event_ok_def
    by (auto simp: admits_def ends_def pending_flag_def task_admits_def task_flag_def bt_get_remove)
qed

definition dispatch_call_ok :: "dispatcher \<Rightarrow> 'err dispatch_event \<Rightarrow> dispatcher \<Rightarrow> bool" where
  "dispatch_call_ok d ev d' \<longleftrightarrow>
     dispatcher_inv d' \<and> ap_max_concurrency (dsp_pool d') = ap_max_concurrency (dsp_pool d) \<and>
     dsp_closed_sessions d \<subseteq> dsp_closed_sessions d' \<and> (dsp_stopped d \<longrightarrow> dsp_stopped d') \<and>
     (\<exists>es. dsp_effects d' = dsp_effects d @ es \<and> event_ok (dsp_closed_sessions d) (dsp_pending d) ev es (dsp_pending d'))"

lemma inv_get: "dispatcher_inv d \<Longrightarrow> bt_get (dsp_pending d) rid = Some pn \<Longrightarrow> pending_ok (dsp_closed_sessions d) pn"
  by (simp add: dispatcher_inv_def dispatcher_core_def)

lemma terminal_inv:
  assumes "dispatcher_inv d" "dispatcher_core (dsp_closed_sessions d) d'" "keeps d d'" "dsp_pending d' = bt_remove rid (dsp_pending d)"
  shows "dispatcher_inv d'"
  using assms by (auto simp: dispatcher_inv_def keeps_def bt_remove_def)

lemma end_event_ok:
  assumes "dispatcher_core closed d" "m' = bt_remove rid (dsp_pending d)" "list_all quiet_effect es"
    and t: "case bt_get (dsp_pending d) rid of
       None \<Rightarrow> t = None \<and> es = []
     | Some pn \<Rightarrow> (\<exists>x. t = Some x \<and> pt_request_id x = rid) \<and>
         (\<forall>r. attempt_reports r es = (if r = rid \<and> pn_kind pn = KindTaskAttempt then 1 else 0))"
  shows "event_ok c (dsp_pending d) (end_event t :: 'err dispatch_event) es m'"
proof (cases "bt_get (dsp_pending d) rid")
  case None
  then show ?thesis
    using t assms(2) event_quiet [of "[]"] by (simp add: end_event_def bt_remove_absent attempt_reports_def) (simp add: quiet_event_def)
next
  case (Some pn)
  then obtain x where x: "t = Some x" "pt_request_id x = rid"
    "\<And>r. attempt_reports r es = (if r = rid \<and> pn_kind pn = KindTaskAttempt then 1 else 0)"
    using t by auto
  have "pn_stream_phase pn \<noteq> None \<longleftrightarrow> pn_kind pn = KindStream" using assms(1) Some by (auto simp: dispatcher_core_def pending_ok_def)
  then show ?thesis
    using event_end [OF Some _ x(2) assms(3) x(3), of "[]"] by (simp add: assms(2) x(1) end_event_def quiet_event_def last_frames_def)
qed

lemma terminal_call:
  fixes ports :: "'err dispatch_ports"
  assumes "dispatcher_inv d"
  shows "\<exists>t d'. dispatch_terminal_locked ports rid outcome source reason msg d = Some (t, d') \<and> dispatch_call_ok d (end_event t :: 'err dispatch_event) d'"
proof -
  have core: "dispatcher_core (dsp_closed_sessions d) d" using assms by (simp add: dispatcher_inv_def)
  obtain t d' es where t: "dispatch_terminal_locked ports rid outcome source reason msg d = Some (t, d')" "dispatcher_core (dsp_closed_sessions d) d'"
    "keeps d d'" "dsp_pending d' = bt_remove rid (dsp_pending d)" "dsp_effects d' = dsp_effects d @ es" "list_all quiet_effect es"
    "case bt_get (dsp_pending d) rid of
       None \<Rightarrow> t = None \<and> es = []
     | Some pn \<Rightarrow> (\<exists>x. t = Some x \<and> pt_request_id x = rid) \<and>
         (\<forall>r. attempt_reports r es = (if r = rid \<and> pn_kind pn = KindTaskAttempt then 1 else 0))"
    using dispatch_terminal_locked_ok [OF core, of ports rid outcome source reason msg] by blast
  have "event_ok (dsp_closed_sessions d) (dsp_pending d) (end_event t :: 'err dispatch_event) es (dsp_pending d')"
    by (rule end_event_ok [OF core t(4,6,7)])
  then show ?thesis
    using t terminal_inv [OF assms t(2,3,4)] unfolding dispatch_call_ok_def keeps_def by blast
qed

text \<open>A terminal with the frame that is forwarded before it.\<close>

definition frame_event :: "'err frame_outcome \<Rightarrow> 'err dispatch_event" where
  "frame_event o' = \<lparr>ev_admitted = None, ev_frames = fo_frames o', ev_terminals = fo_terminals o'\<rparr>"

lemma terminal_frame_call:
  fixes fs :: "'err dispatched_frame list"
  assumes "dispatcher_inv d" "bt_get (dsp_pending d) rid = Some pn" "last_frames rid pn fs"
  shows "\<exists>o' d'. terminal_outcome fs (dispatch_terminal_locked ports rid outcome source reason msg d) = Some (o', d') \<and> dispatch_call_ok d (frame_event o') d'"
proof -
  have core: "dispatcher_core (dsp_closed_sessions d) d" using assms(1) by (simp add: dispatcher_inv_def)
  obtain x d' es where t: "dispatch_terminal_locked ports rid outcome source reason msg d = Some (Some x, d')" "dispatcher_core (dsp_closed_sessions d) d'"
    "keeps d d'" "dsp_pending d' = bt_remove rid (dsp_pending d)" "dsp_effects d' = dsp_effects d @ es" "list_all quiet_effect es" "pt_request_id x = rid"
    "\<And>r. attempt_reports r es = (if r = rid \<and> pn_kind pn = KindTaskAttempt then 1 else 0)"
    using dispatch_terminal_locked_ok [OF core, of ports rid outcome source reason msg] assms(2) by auto
  have "pn_stream_phase pn \<noteq> None \<longleftrightarrow> pn_kind pn = KindStream" using inv_get [OF assms(1,2)] by (simp add: pending_ok_def)
  note ev = event_end [OF assms(2,3) t(7,6,8) this, of "dsp_closed_sessions d"]
  have "dispatch_call_ok d \<lparr>ev_admitted = None, ev_frames = fs, ev_terminals = [x]\<rparr> d'"
    using t(3,5) ev terminal_inv [OF assms(1) t(2,3,4)] unfolding dispatch_call_ok_def keeps_def t(4) by blast
  then show ?thesis by (simp add: terminal_outcome_def t(1) frame_event_def)
qed

text \<open>A frame that only advances its request.\<close>

lemma advance_call:
  fixes g :: "'err dispatched_frame"
  assumes inv: "dispatcher_inv d" and get: "bt_get (dsp_pending d) rid = Some pn"
    and kept: "pn_session_epoch (f pn) = pn_session_epoch pn" "pn_permit (f pn) = pn_permit pn" "pn_lease (f pn) = pn_lease pn"
      "pn_kind (f pn) = pn_kind pn" "pn_task_attempt (f pn) = pn_task_attempt pn"
      "pn_stream_phase (f pn) \<noteq> None \<longleftrightarrow> pn_stream_phase pn \<noteq> None"
    and frame: "disp_request_id g = rid"
    and step: "\<And>resp :: 'err response. response_ok rid resp (Some pn) \<Longrightarrow> response_ok rid (map_option (\<lambda>(k, gs). (k, gs @ [g])) resp) (Some (f pn))"
  shows "dispatch_call_ok d (frame_event \<lparr>fo_frames = [g], fo_terminals = []\<rparr>) (update_pending rid f d)"
proof -
  let ?m = "dsp_pending d" and ?m' = "bt_insert rid (f pn) (dsp_pending d)"
  have ok: "bt_ok ?m" using inv by (simp add: dispatcher_inv_def dispatcher_core_def)
  have upd: "update_pending rid f d = d\<lparr>dsp_pending := ?m'\<rparr>" by (simp add: update_pending_def get)
  have "?m \<noteq> []" using get by auto
  then have "\<not> dsp_stopped d" using inv by (auto simp: dispatcher_inv_def)
  moreover have "dispatcher_core (dsp_closed_sessions d) (d\<lparr>dsp_pending := ?m'\<rparr>)"
    using inv inv_get [OF inv get] kept pending_update [OF ok get kept(1)]
    by (auto simp: dispatcher_inv_def dispatcher_core_def bt_ok_insert bt_get_insert pending_ok_def split: if_splits)
  ultimately have "dispatcher_inv (update_pending rid f d)" by (simp add: upd dispatcher_inv_def)
  moreover have "event_ok (dsp_closed_sessions d) ?m (frame_event \<lparr>fo_frames = [g], fo_terminals = []\<rparr>) [] ?m'"
    unfolding event_ok_def
  proof (intro conjI allI impI)
    fix r and resp :: "'err response"
    assume "response_ok r resp (bt_get ?m r)"
    then show "response_ok r (extend_response r (frame_event \<lparr>fo_frames = [g], fo_terminals = []\<rparr>) resp) (bt_get ?m' r)"
      using step [of resp] get frame by (auto simp: extend_response_def frame_event_def bt_get_insert [OF ok] option.map_id)
  qed (auto simp: event_defs frame_event_def bt_get_insert [OF ok] get kept)
  ultimately show ?thesis by (auto simp: dispatch_call_ok_def upd intro!: exI [of _ "[]"])
qed

lemma response_start:
  assumes "response_ok rid resp (Some pn)" "pn_kind pn = KindStream" "pn_stream_phase pn = Some WaitingStart"
  shows "response_ok rid (map_option (\<lambda>(k, gs). (k, gs @ [DispStart rid])) resp) (Some (pn\<lparr>pn_stream_phase := Some Streaming\<rparr>))"
  using assms by (auto simp: response_ok_def chunks_def intro!: exI [of _ "[]"] split: option.splits)

lemma chunks_snoc: "chunks rid (ps @ [p]) = chunks rid ps @ [DispChunk rid ((inc_u64 ^^ length ps) 0) p]"
  by (simp add: chunks_def enumerate_append_eq)

lemma response_chunk:
  assumes "response_ok rid resp (Some pn)" "pn_stream_phase pn = Some Streaming"
  shows "response_ok rid (map_option (\<lambda>(k, gs). (k, gs @ [DispChunk rid (pn_next_seq pn) p])) resp) (Some (pn\<lparr>pn_next_seq := inc_u64 (pn_next_seq pn)\<rparr>))"
proof (cases resp)
  case (Some kg)
  obtain k gs where kg: "kg = (k, gs)" by (cases kg)
  obtain ps where ps: "gs = DispStart rid # chunks rid ps" "pn_next_seq pn = (inc_u64 ^^ length ps) 0" "pn_kind pn = k"
    using assms Some kg by (auto simp: response_ok_def)
  then have "gs @ [DispChunk rid (pn_next_seq pn) p] = DispStart rid # chunks rid (ps @ [p])" "inc_u64 (pn_next_seq pn) = (inc_u64 ^^ length (ps @ [p])) 0"
    by (simp_all add: chunks_snoc)
  then show ?thesis using Some kg ps(3) assms(2) by (auto simp: response_ok_def)
qed (use assms in \<open>simp add: response_ok_def\<close>)

section \<open>Every call\<close>

lemma call_quiet: "dispatcher_inv d \<Longrightarrow> dispatch_call_ok d (quiet_event :: 'err dispatch_event) d"
  using event_quiet [of "[]"] by (auto simp: dispatch_call_ok_def attempt_reports_def intro!: exI [of _ "[]"])

lemma protocol_error_call:
  fixes ports :: "'err dispatch_ports"
  assumes "dispatcher_inv d" "bt_get (dsp_pending d) rid = Some pn"
  shows "\<exists>o' d'. protocol_error_terminal ports rid d = Some (o', d') \<and> dispatch_call_ok d (frame_event o') d'"
  unfolding protocol_error_terminal_def by (rule terminal_frame_call [OF assms]) (simp add: last_frames_def)

lemma frame_call:
  fixes ports :: "'err dispatch_ports"
  assumes inv: "dispatcher_inv d"
  shows "\<exists>o' d'. on_frame ports e frame d = Some (o', d') \<and> dispatch_call_ok d (frame_event o') d'"
proof (cases "is_stale d e (frame_request_id frame)")
  case True
  then show ?thesis
    using call_quiet [OF inv, where 'err = 'err] by (simp add: on_frame_def default_frame_outcome_def frame_event_def quiet_event_def)
next
  case False
  let ?rid = "frame_request_id frame"
  obtain pn where pn: "bt_get (dsp_pending d) ?rid = Some pn" using False by (auto simp: is_stale_def split: option.splits)
  note err = protocol_error_call [OF inv pn, of ports]
  have phase: "pn_stream_phase pn \<noteq> None \<longleftrightarrow> pn_kind pn = KindStream" using inv_get [OF inv pn] by (simp add: pending_ok_def)
  show ?thesis
  proof (cases frame)
    case (FrameStart r)
    show ?thesis
    proof (cases "pn_kind pn = KindStream \<and> pn_stream_phase pn = Some WaitingStart")
      case True
      have "dispatch_call_ok d (frame_event \<lparr>fo_frames = [DispStart ?rid], fo_terminals = []\<rparr> :: 'err dispatch_event)
          (update_pending ?rid (\<lambda>pn. pn\<lparr>pn_stream_phase := Some Streaming\<rparr>) d)"
        by (rule advance_call [OF inv pn]) (use True response_start in auto)
      then show ?thesis using False FrameStart pn True by (simp add: on_frame_def on_start_def)
    qed (use False FrameStart pn err in \<open>auto simp: on_frame_def on_start_def\<close>)
  next
    case (FrameChunk r seq payload)
    show ?thesis
    proof (cases "pn_kind pn = KindStream \<and> pn_stream_phase pn = Some Streaming \<and> seq = pn_next_seq pn")
      case True
      have "dispatch_call_ok d (frame_event \<lparr>fo_frames = [DispChunk ?rid seq payload], fo_terminals = []\<rparr> :: 'err dispatch_event)
          (update_pending ?rid (\<lambda>pn. pn\<lparr>pn_next_seq := inc_u64 (pn_next_seq pn)\<rparr>) d)"
        by (rule advance_call [OF inv pn]) (use True response_chunk in auto)
      then show ?thesis using False FrameChunk pn True by (simp add: on_frame_def on_chunk_def)
    qed (use False FrameChunk pn err in \<open>auto simp: on_frame_def on_chunk_def\<close>)
  next
    case (FrameEnd r present payload)
    define completes where "completes \<longleftrightarrow> (case pn_kind pn of KindUnary \<Rightarrow> True | KindStream \<Rightarrow> pn_stream_phase pn = Some Streaming \<and> \<not> present
      | KindTaskAttempt \<Rightarrow> \<not> present)"
    show ?thesis
    proof (cases completes)
      case True
      then have "last_frames ?rid pn [DispEnd ?rid payload :: 'err dispatched_frame]"
        by (auto simp: completes_def last_frames_def split: pending_kind.splits)
      from terminal_frame_call [OF inv pn this, of ports Completed RuntimeResponseEnd None None] show ?thesis
        using False FrameEnd pn True by (simp add: on_frame_def on_end_def completes_def [symmetric])
    qed (use False FrameEnd pn err in \<open>simp add: on_frame_def on_end_def completes_def [symmetric]\<close>)
  next
    case (FrameError r error)
    have "last_frames ?rid pn [DispError ?rid error]" by (simp add: last_frames_def)
    from terminal_frame_call [OF inv pn this, of ports OutcomeFailed RuntimeResponseError None "Some (dp_debug_error ports error)"] show ?thesis
      using False FrameError by (simp add: on_frame_def on_error_def)
  next
    case (FrameCancel r reason)
    have "last_frames ?rid pn ([] :: 'err dispatched_frame list)" by (simp add: last_frames_def)
    from terminal_frame_call [OF inv pn this, of ports OutcomeCancelled RuntimeRequestCancel None "Some reason"] show ?thesis
      using False FrameCancel err by (simp add: on_frame_def on_runtime_cancel_def)
  qed
qed

text \<open>Ending several requests is ending them one after the other.\<close>

lemma event_seq:
  fixes ev1 ev2 :: "'err dispatch_event"
  assumes "event_ok closed m ev1 es1 m1" "event_ok closed' m1 ev2 es2 m2" "closed \<subseteq> closed'"
    and "ev_admitted ev1 = None" "ev_admitted ev2 = None" "ev_frames ev1 = []" "ev_frames ev2 = []"
  shows "event_ok closed m (quiet_event\<lparr>ev_terminals := ev_terminals ev1 @ ev_terminals ev2\<rparr> :: 'err dispatch_event) (es1 @ es2) m2"
proof -
  let ?ev = "quiet_event\<lparr>ev_terminals := ev_terminals ev1 @ ev_terminals ev2\<rparr> :: 'err dispatch_event"
  have "extend_response rid ?ev resp = resp" for rid resp
    by (rule extend_quiet) (simp_all add: quiet_event_def)
  moreover have "admits rid ?ev = 0" "task_admits rid ?ev = 0" "ev_admitted ?ev = None" for rid
    by (simp_all add: admits_def task_admits_def quiet_event_def)
  moreover have "admits rid ev1 = 0" "task_admits rid ev1 = 0" "admits rid ev2 = 0" "task_admits rid ev2 = 0" for rid
    using assms(4,5) by (simp_all add: admits_def task_admits_def)
  moreover have "ends rid ?ev = ends rid ev1 + ends rid ev2" for rid
    by (simp add: ends_def)
  moreover have "attempt_reports rid (es1 @ es2) = attempt_reports rid es1 + attempt_reports rid es2" for rid
    by (simp add: attempt_reports_def)
  moreover have "extend_response rid ev1 resp = resp" "extend_response rid ev2 resp = resp" for rid resp
    using assms(4-7) by (simp_all add: extend_quiet)
  ultimately show ?thesis
    using assms(1-3) unfolding event_ok_def by (auto simp: add.assoc)
qed

lemma terminate_all_call:
  fixes ports :: "'err dispatch_ports"
  assumes "dispatcher_core closed d" "closed \<subseteq> dsp_closed_sessions d"
  shows "\<exists>ts d' es. terminate_all ports rids source reason d = Some (ts, d') \<and> dispatcher_core closed d' \<and> keeps d d' \<and>
    dsp_pending d' = fold bt_remove rids (dsp_pending d) \<and> dsp_effects d' = dsp_effects d @ es \<and>
    event_ok closed (dsp_pending d) (quiet_event\<lparr>ev_terminals := ts\<rparr> :: 'err dispatch_event) es (dsp_pending d')"
  using assms
proof (induction rids arbitrary: d)
  case Nil
  then show ?case using event_quiet [of "[]"] by (auto simp: keeps_def attempt_reports_def quiet_event_def intro!: exI [of _ "[]"])
next
  case (Cons rid rids)
  obtain t d1 es1 where t: "dispatch_terminal_locked ports rid OutcomeCancelled source reason None d = Some (t, d1)" "dispatcher_core closed d1"
    "keeps d d1" "dsp_pending d1 = bt_remove rid (dsp_pending d)" "dsp_effects d1 = dsp_effects d @ es1" "list_all quiet_effect es1"
    "case bt_get (dsp_pending d) rid of
       None \<Rightarrow> t = None \<and> es1 = []
     | Some pn \<Rightarrow> (\<exists>x. t = Some x \<and> pt_request_id x = rid) \<and>
         (\<forall>r. attempt_reports r es1 = (if r = rid \<and> pn_kind pn = KindTaskAttempt then 1 else 0))"
    using dispatch_terminal_locked_ok [OF Cons.prems(1), of ports rid OutcomeCancelled source reason None] by blast
  have ev1: "event_ok closed (dsp_pending d) (end_event t :: 'err dispatch_event) es1 (dsp_pending d1)"
    by (rule end_event_ok [OF Cons.prems(1) t(4,6,7)])
  have "closed \<subseteq> dsp_closed_sessions d1" using Cons.prems(2) t(3) by (simp add: keeps_def)
  then obtain ts d2 es2 where r: "terminate_all ports rids source reason d1 = Some (ts, d2)" "dispatcher_core closed d2" "keeps d1 d2"
    "dsp_pending d2 = fold bt_remove rids (dsp_pending d1)" "dsp_effects d2 = dsp_effects d1 @ es2"
    "event_ok closed (dsp_pending d1) (quiet_event\<lparr>ev_terminals := ts\<rparr> :: 'err dispatch_event) es2 (dsp_pending d2)"
    using Cons.IH [OF t(2)] by blast
  have "event_ok closed (dsp_pending d) (quiet_event\<lparr>ev_terminals := (case t of None \<Rightarrow> ts | Some t \<Rightarrow> t # ts)\<rparr> :: 'err dispatch_event)
      (es1 @ es2) (dsp_pending d2)"
    using event_seq [OF ev1 r(6) order_refl] by (cases t) (simp_all add: end_event_def quiet_event_def)
  moreover have "terminate_all ports (rid # rids) source reason d = Some (case t of None \<Rightarrow> ts | Some t \<Rightarrow> t # ts, d2)"
    using t(1) r(1) by simp
  moreover have "keeps d d2" using t(3) r(3) by (simp add: keeps_def)
  ultimately show ?case using r(2,4,5) t(4,5) by (auto intro!: exI [of _ "es1 @ es2"])
qed

lemma fold_remove_get: "bt_get (fold bt_remove rids m) k = (if k \<in> set rids then None else bt_get m k)"
  by (induction rids arbitrary: m) (auto simp: bt_get_remove)

lemma bt_empty: "(\<And>k. bt_get m k = None) \<Longrightarrow> m = []"
proof (cases m)
  case (Cons x xs)
  assume "\<And>k. bt_get m k = None"
  from this [of "fst x"] show ?thesis using Cons by (simp add: bt_get_def)
qed

lemma closed_call:
  fixes ports :: "'err dispatch_ports"
  assumes inv: "dispatcher_inv d"
  shows "\<exists>ts d'. on_session_closed ports e d = Some (ts, d') \<and> dispatch_call_ok d (quiet_event\<lparr>ev_terminals := ts\<rparr> :: 'err dispatch_event) d' \<and>
    e \<in> dsp_closed_sessions d'"
proof -
  define d1 where "d1 = d\<lparr>dsp_closed_sessions := insert e (dsp_closed_sessions d)\<rparr>"
  define rids where "rids = map fst (filter (\<lambda>(_, pn). pn_session_epoch pn = e) (dsp_pending d1))"
  have core: "dispatcher_core (dsp_closed_sessions d) d1" using inv by (simp add: d1_def dispatcher_inv_def dispatcher_core_def)
  have "dsp_closed_sessions d \<subseteq> dsp_closed_sessions d1" by (auto simp: d1_def)
  then obtain ts d' es where r: "terminate_all ports rids RuntimeDisconnect None d1 = Some (ts, d')" "dispatcher_core (dsp_closed_sessions d) d'" "keeps d1 d'"
    "dsp_pending d' = fold bt_remove rids (dsp_pending d1)" "dsp_effects d' = dsp_effects d1 @ es"
    "event_ok (dsp_closed_sessions d) (dsp_pending d1) (quiet_event\<lparr>ev_terminals := ts\<rparr> :: 'err dispatch_event) es (dsp_pending d')"
    using terminate_all_call [OF core] by blast
  have gone: "pn_session_epoch pn \<noteq> e" if "bt_get (dsp_pending d') k = Some pn" for k pn
  proof
    assume "pn_session_epoch pn = e"
    moreover have "bt_get (dsp_pending d1) k = Some pn" "k \<notin> set rids" using that by (auto simp: r(4) fold_remove_get split: if_splits)
    moreover have "(k, pn) \<in> set (dsp_pending d1)" using calculation(2) by (rule bt_get_in_set)
    ultimately show False by (force simp: rids_def)
  qed
  have closed: "dsp_closed_sessions d' = insert e (dsp_closed_sessions d)" using r(3) by (simp add: keeps_def d1_def)
  have "dispatcher_core (dsp_closed_sessions d') d'"
    using r(2) gone by (auto simp: dispatcher_core_def closed pending_ok_def)
  moreover have "dsp_pending d' = []" if "dsp_stopped d'"
  proof (rule bt_empty)
    have "dsp_pending d = []" using that r(3) inv by (simp add: keeps_def d1_def dispatcher_inv_def)
    then show "bt_get (dsp_pending d') k = None" for k by (simp add: r(4) fold_remove_get d1_def)
  qed
  ultimately have "dispatcher_inv d'" by (simp add: dispatcher_inv_def)
  then have "dispatch_call_ok d (quiet_event\<lparr>ev_terminals := ts\<rparr> :: 'err dispatch_event) d'"
    using r(3,5,6) closed by (auto simp: dispatch_call_ok_def keeps_def d1_def)
  then show ?thesis using r(1) closed by (simp add: on_session_closed_def Let_def d1_def rids_def)
qed

lemma shutdown_call:
  fixes ports :: "'err dispatch_ports"
  assumes inv: "dispatcher_inv d"
  shows "\<exists>ts d'. dispatcher_shutdown ports d = Some (ts, d') \<and> dispatch_call_ok d (quiet_event\<lparr>ev_terminals := ts\<rparr> :: 'err dispatch_event) d' \<and> dsp_stopped d'"
proof -
  define d1 where "d1 = d\<lparr>dsp_stopped := True\<rparr>"
  have core: "dispatcher_core (dsp_closed_sessions d) d1" using inv by (simp add: d1_def dispatcher_inv_def dispatcher_core_def)
  have "dsp_closed_sessions d \<subseteq> dsp_closed_sessions d1" by (simp add: d1_def)
  then obtain ts d' es where r: "terminate_all ports (bt_keys (dsp_pending d1)) RouterShutdown (Some ''router_shutdown'') d1 = Some (ts, d')"
    "dispatcher_core (dsp_closed_sessions d) d'" "keeps d1 d'" "dsp_pending d' = fold bt_remove (bt_keys (dsp_pending d1)) (dsp_pending d1)"
    "dsp_effects d' = dsp_effects d1 @ es"
    "event_ok (dsp_closed_sessions d) (dsp_pending d1) (quiet_event\<lparr>ev_terminals := ts\<rparr> :: 'err dispatch_event) es (dsp_pending d')"
    using terminate_all_call [OF core] by blast
  have "dsp_pending d' = []"
    by (rule bt_empty) (auto simp: r(4) fold_remove_get bt_dom)
  then have "dispatcher_inv d'" using r(2,3) by (simp add: dispatcher_inv_def keeps_def d1_def)
  then have "dispatch_call_ok d (quiet_event\<lparr>ev_terminals := ts\<rparr> :: 'err dispatch_event) d'"
    using r(3,5,6) by (auto simp: dispatch_call_ok_def keeps_def d1_def)
  then show ?thesis using r(1,3) by (simp add: dispatcher_shutdown_def Let_def d1_def keeps_def)
qed

text \<open>An admission that takes a lease ends with the request pending or, after a failed write, with the permit returned.\<close>

lemma accepted_call:
  assumes inv: "dispatcher_inv d" and absent: "bt_get (dsp_pending d) rid = None" and open_: "\<not> dsp_stopped d"
    and took_lease: "pool_matches pool ((pending_on (dsp_pending d))(e := pending_on (dsp_pending d) e + 1)) (length (dsp_pending d) + 1)"
      "ap_max_concurrency pool = ap_max_concurrency (dsp_pool d)"
    and pn: "pn_session_epoch pn = e" "pending_ok (dsp_closed_sessions d) pn" "pn_stream_phase pn \<noteq> Some Streaming" "pn_next_seq pn = 0" "pn_kind pn = k"
    and d': "dsp_pool d' = pool" "dsp_pending d' = bt_insert rid pn (dsp_pending d)" "dsp_closed_sessions d' = dsp_closed_sessions d"
      "dsp_stopped d' = dsp_stopped d" "dsp_effects d' = dsp_effects d @ [x]"
    and x: "x = SentStart e rid ok \<or> x = SentTaskStart e rid ok"
  shows "dispatch_call_ok d (quiet_event\<lparr>ev_admitted := Some (rid, e, k)\<rparr> :: 'err dispatch_event) d'"
proof -
  have ok: "bt_ok (dsp_pending d)" using inv by (simp add: dispatcher_inv_def dispatcher_core_def)
  have closed: "e \<notin> dsp_closed_sessions d" using pn(1,2) by (auto simp: pending_ok_def)
  have "dispatcher_core (dsp_closed_sessions d) d'"
    using inv took_lease pn pending_insert [OF ok absent, of pn] d'
    by (auto simp: dispatcher_inv_def dispatcher_core_def bt_ok_insert bt_get_insert split: if_splits)
  then have "dispatcher_inv d'" using open_ d' by (simp add: dispatcher_inv_def)
  moreover have "event_ok (dsp_closed_sessions d) (dsp_pending d) (quiet_event\<lparr>ev_admitted := Some (rid, e, k)\<rparr> :: 'err dispatch_event) [x] (dsp_pending d')"
    unfolding d'(2)
  proof (rule event_admit [OF ok absent])
    show "attempt_reports r [x] = 0" for r using x by (auto simp: attempt_reports_def)
  qed (use x closed pn in auto)
  ultimately show ?thesis using took_lease d' by (auto simp: dispatch_call_ok_def)
qed

lemma failed_write_call:
  assumes inv: "dispatcher_inv d" and open_: "e \<notin> dsp_closed_sessions d"
    and took_lease: "pool_matches pool ((pending_on (dsp_pending d))(e := pending_on (dsp_pending d) e + 1)) (length (dsp_pending d) + 1)"
      "ap_max_concurrency pool = ap_max_concurrency (dsp_pool d)"
    and d1: "dsp_pool d1 = pool" "dsp_pending d1 = dsp_pending d" "dsp_closed_sessions d1 = dsp_closed_sessions d" "dsp_stopped d1 = dsp_stopped d"
      "dsp_effects d1 = dsp_effects d @ [x]"
    and x: "x = SentStart e rid False \<or> x = SentTaskStart e rid False"
  shows "\<exists>d2. write_failed ports e rid \<lparr>pm_session = e, pm_released = False\<rparr> d1 = Some d2 \<and>
    dispatch_call_ok d (quiet_event :: 'err dispatch_event) d2 \<and> dispatch_call_ok d (quiet_event :: 'err dispatch_event) (count_attempt_rejected d2)"
proof -
  obtain p where p: "release_permit e pool = Some p" "ap_max_concurrency p = ap_max_concurrency pool"
    "pool_matches p (pending_on (dsp_pending d)) (length (dsp_pending d))"
    using matches_release_again [OF took_lease(1)] by blast
  define d2 where "d2 = emit_effect (AbortedSession e)
          (emit_effect (SentCancel e rid ''protocol_error'' (dp_send_cancel ports e rid ''protocol_error''))
            (count_source CallbackError (d1\<lparr>dsp_pool := p\<rparr>)))"
  have fields: "dsp_pool d2 = p" "dsp_pending d2 = dsp_pending d" "dsp_closed_sessions d2 = dsp_closed_sessions d" "dsp_stopped d2 = dsp_stopped d"
    "dsp_effects d2 = dsp_effects d @ [x, SentCancel e rid ''protocol_error'' (dp_send_cancel ports e rid ''protocol_error''), AbortedSession e]"
    by (simp_all add: d2_def d1)
  have "write_failed ports e rid \<lparr>pm_session = e, pm_released = False\<rparr> d1 = Some d2"
    by (simp add: write_failed_def d1(1) p(1) d2_def)
  moreover have "dispatch_call_ok d (quiet_event :: 'err dispatch_event) y"
    if "dsp_pool y = dsp_pool d2" "dsp_pending y = dsp_pending d2" "dsp_closed_sessions y = dsp_closed_sessions d2" "dsp_stopped y = dsp_stopped d2"
      "dsp_effects y = dsp_effects d2" for y
  proof -
    have "dispatcher_inv y" using inv p(3) that fields by (simp add: dispatcher_inv_def dispatcher_core_def)
    moreover have "event_ok (dsp_closed_sessions d) (dsp_pending d) (quiet_event :: 'err dispatch_event)
        [x, SentCancel e rid ''protocol_error'' (dp_send_cancel ports e rid ''protocol_error''), AbortedSession e] (dsp_pending d)"
    proof (rule event_quiet)
      show "attempt_reports r [x, SentCancel e rid ''protocol_error'' (dp_send_cancel ports e rid ''protocol_error''), AbortedSession e] = 0" for r
        using x by (auto simp: attempt_reports_def)
    qed (use x open_ in auto)
    ultimately show ?thesis using that fields p(2) took_lease(2) by (auto simp: dispatch_call_ok_def)
  qed
  ultimately show ?thesis by auto
qed

lemma refused_call:
  assumes "dispatcher_inv d" "pool_matches (dsp_pool d') (pending_on (dsp_pending d)) (length (dsp_pending d))"
    and "ap_max_concurrency (dsp_pool d') = ap_max_concurrency (dsp_pool d)"
    and "dsp_pending d' = dsp_pending d" "dsp_closed_sessions d' = dsp_closed_sessions d" "dsp_stopped d' = dsp_stopped d" "dsp_effects d' = dsp_effects d"
  shows "dispatch_call_ok d (quiet_event :: 'err dispatch_event) d'"
  using assms event_quiet [of "[]" "dsp_closed_sessions d" "dsp_pending d"]
  by (auto simp: dispatch_call_ok_def dispatcher_inv_def dispatcher_core_def attempt_reports_def intro!: exI [of _ "[]"])

lemma took_core:
  assumes "took_lease leases f n sel p" "set leases \<subseteq> {l. rl_session_epoch l \<notin> closed}"
  shows "sel_reservation sel = \<lparr>rv_session = rl_session_epoch (sel_lease sel), rv_released = False\<rparr>"
    "pool_matches p (f(rl_session_epoch (sel_lease sel) := f (rl_session_epoch (sel_lease sel)) + 1)) (n + 1)"
    "rl_session_epoch (sel_lease sel) \<notin> closed"
  using assms by (auto simp: took_lease_def)

lemma admission_leases_open: "set (admission_leases ports query d) \<subseteq> {l. rl_session_epoch l \<notin> dsp_closed_sessions d}"
  by (auto simp: admission_leases_def)

lemma enqueue_call:
  fixes ports :: "'err dispatch_ports"
  assumes inv: "dispatcher_inv d" and absent: "bt_get (dsp_pending d) (sh_request_id (ds_header request)) = None" and open_: "\<not> dsp_stopped d"
    and mode: "dispatch_mode_from_wire (sh_mode (ds_header request)) = Some mode"
    and took_lease: "took_lease leases (pending_on (dsp_pending d)) (length (dsp_pending d)) sel pool" "ap_max_concurrency pool = ap_max_concurrency (dsp_pool d)"
      "set leases \<subseteq> {l. rl_session_epoch l \<notin> dsp_closed_sessions d}"
  shows "\<exists>r d'. enqueue_locked ports request sel (d\<lparr>dsp_pool := pool\<rparr>) = Some (r, d') \<and>
    dispatch_call_ok d (admission_event (submit_kind request) r :: 'err dispatch_event) d'"
proof -
  let ?e = "rl_session_epoch (sel_lease sel)" and ?rid = "sh_request_id (ds_header request)"
  note tc = took_core [OF took_lease(1,3)]
  define d1 where "d1 = emit_effect (SentStart ?e ?rid (dp_send_start ports ?e ?rid)) (d\<lparr>dsp_pool := pool\<rparr>)"
  have d1: "dsp_pool d1 = pool" "dsp_pending d1 = dsp_pending d" "dsp_closed_sessions d1 = dsp_closed_sessions d" "dsp_stopped d1 = dsp_stopped d"
    "dsp_effects d1 = dsp_effects d @ [SentStart ?e ?rid (dp_send_start ports ?e ?rid)]"
    by (simp_all add: d1_def)
  show ?thesis
  proof (cases "dp_send_start ports ?e ?rid")
    case False
    obtain d2 where "write_failed ports ?e ?rid \<lparr>pm_session = ?e, pm_released = False\<rparr> d1 = Some d2" "dispatch_call_ok d (quiet_event :: 'err dispatch_event) d2"
      using failed_write_call [OF inv tc(3,2) took_lease(2) d1, of ?rid ports] False by auto
    moreover have "d1 = emit_effect (SentStart ?e ?rid False) (d\<lparr>dsp_pool := pool\<rparr>)" using False by (simp add: d1_def)
    ultimately show ?thesis
      using False by (simp add: enqueue_locked_def Let_def tc(1) admission_event_def)
  next
    case True
    define k where "k = (case mode of Unary \<Rightarrow> KindUnary | ServerStream \<Rightarrow> KindStream)"
    have k: "submit_kind request = k" by (simp add: submit_kind_def mode k_def split: dispatch_mode.splits)
    define pn where "pn = \<lparr>pn_kind = k, pn_session_epoch = ?e, pn_lease = sel_lease sel, pn_permit = \<lparr>pm_session = ?e, pm_released = False\<rparr>,
       pn_stream_phase = (if k = KindStream then Some WaitingStart else None), pn_next_seq = 0, pn_deadline = sh_deadline (ds_header request),
       pn_task_attempt = None, pn_test_case_capability = sh_test_case_capability (ds_header request)\<rparr>"
    have "k \<noteq> KindTaskAttempt" by (simp add: k_def split: dispatch_mode.splits)
    then have pn: "pn_session_epoch pn = ?e" "pending_ok (dsp_closed_sessions d) pn" "pn_stream_phase pn \<noteq> Some Streaming" "pn_next_seq pn = 0" "pn_kind pn = k"
      using tc(3) by (auto simp: pn_def pending_ok_def)
    have "dispatch_call_ok d (quiet_event\<lparr>ev_admitted := Some (?rid, ?e, k)\<rparr> :: 'err dispatch_event) (d1\<lparr>dsp_pending := bt_insert ?rid pn (dsp_pending d1)\<rparr>)"
      by (rule accepted_call [OF inv absent open_ tc(2) took_lease(2) pn, where ok = "dp_send_start ports ?e ?rid" and x = "SentStart ?e ?rid (dp_send_start ports ?e ?rid)"]) (simp_all add: d1)
    moreover have "enqueue_locked ports request sel (d\<lparr>dsp_pool := pool\<rparr>) = Some (SubmitAccepted ?rid ?e, d1\<lparr>dsp_pending := bt_insert ?rid pn (dsp_pending d1)\<rparr>)"
      using True mode by (simp add: enqueue_locked_def Let_def tc(1) d1_def pn_def k_def)
    ultimately show ?thesis by (simp add: admission_event_def k)
  qed
qed

lemma submit_call:
  fixes ports :: "'err dispatch_ports"
  assumes inv: "dispatcher_inv d"
  shows "\<exists>r d'. submit ports request d = Some (r, d') \<and> dispatch_call_ok d (admission_event (submit_kind request) r :: 'err dispatch_event) d'"
proof -
  let ?h = "ds_header request" and ?rid = "sh_request_id (ds_header request)"
  let ?f = "pending_on (dsp_pending d)" and ?n = "length (dsp_pending d)"
  have pool: "pool_matches (dsp_pool d) ?f ?n" using inv by (simp add: dispatcher_inv_def dispatcher_core_def)
  have refused: "dispatch_call_ok d (quiet_event :: 'err dispatch_event) (d\<lparr>dsp_pool := p\<rparr>)"
    if "pool_matches p ?f ?n" "ap_max_concurrency p = ap_max_concurrency (dsp_pool d)" for p
    using refused_call [OF inv, of "d\<lparr>dsp_pool := p\<rparr>", where 'err = 'err] that by simp
  have same: "dispatch_call_ok d (quiet_event :: 'err dispatch_event) d" by (rule call_quiet [OF inv])
  have dup: "dispatch_call_ok d (quiet_event :: 'err dispatch_event) (d\<lparr>dsp_pool := record_duplicate_request_id (dsp_pool d)\<rparr>)"
    and nocand: "dispatch_call_ok d (quiet_event :: 'err dispatch_event) (d\<lparr>dsp_pool := record_no_candidate (dsp_pool d)\<rparr>)"
    by (auto intro!: refused matches_frame [OF pool])
  show ?thesis
  proof (cases "dsp_stopped d \<or> bt_get (dsp_pending d) ?rid \<noteq> None \<or> (case sh_deadline ?h of Some dl \<Rightarrow> dp_is_expired ports dl | None \<Rightarrow> False) \<or>
      dispatch_mode_from_wire (sh_mode ?h) = None \<or> sh_build_id ?h = None")
    case True
    then show ?thesis
      using same dup nocand by (auto simp: submit_def Let_def admission_event_def candidate_query_from_build_id_def split: option.splits)
  next
    case False
    then obtain mode build where mode: "dispatch_mode_from_wire (sh_mode ?h) = Some mode" and build: "sh_build_id ?h = Some build" by auto
    define query where "query = \<lparr>cq_mode = mode, cq_build_id = build\<rparr>"
    define leases where "leases = admission_leases ports query d"
    obtain r p where adm: "admit ports ?rid (sh_deadline ?h) leases (ds_prefer_session request) False (dsp_pool d) = Some (r, p)"
      "ap_max_concurrency p = ap_max_concurrency (dsp_pool d)" "case r of AdmitRefused _ \<Rightarrow> pool_matches p ?f ?n | Admitted sel \<Rightarrow> took_lease leases ?f ?n sel p"
      using admit_ok [OF pool] by blast
    have sub: "submit ports request d = (case r of AdmitRefused reason \<Rightarrow> Some (SubmitRejected ?rid reason, d\<lparr>dsp_pool := p\<rparr>)
        | Admitted selected \<Rightarrow> enqueue_locked ports request selected (d\<lparr>dsp_pool := p\<rparr>))"
      using False mode build adm(1) by (simp add: submit_def Let_def candidate_query_from_build_id_def query_def leases_def split: option.splits)
    show ?thesis
    proof (cases r)
      case (AdmitRefused reason)
      then show ?thesis using sub adm refused by (simp add: admission_event_def)
    next
      case (Admitted sel)
      then have "took_lease leases ?f ?n sel p" using adm(3) by simp
      then show ?thesis
        using enqueue_call [OF inv _ _ mode _ adm(2), of leases sel ports] False sub Admitted admission_leases_open [of ports query d]
        by (simp add: leases_def)
    qed
  qed
qed

lemma enqueue_attempt_call:
  fixes ports :: "'err dispatch_ports"
  assumes inv: "dispatcher_inv d" and absent: "bt_get (dsp_pending d) (sh_request_id (ta_header attempt)) = None" and open_: "\<not> dsp_stopped d"
    and took_lease: "took_lease leases (pending_on (dsp_pending d)) (length (dsp_pending d)) sel pool" "ap_max_concurrency pool = ap_max_concurrency (dsp_pool d)"
      "set leases \<subseteq> {l. rl_session_epoch l \<notin> dsp_closed_sessions d}"
  shows "\<exists>r d'. enqueue_task_attempt_locked ports attempt sel (d\<lparr>dsp_pool := pool\<rparr>) = Some (r, d') \<and>
    dispatch_call_ok d (admission_event KindTaskAttempt r :: 'err dispatch_event) d'"
proof -
  let ?e = "rl_session_epoch (sel_lease sel)" and ?rid = "sh_request_id (ta_header attempt)"
  note tc = took_core [OF took_lease(1,3)]
  define d1 where "d1 = emit_effect (SentTaskStart ?e ?rid (dp_send_start ports ?e ?rid)) (d\<lparr>dsp_pool := pool\<rparr>)"
  have d1: "dsp_pool d1 = pool" "dsp_pending d1 = dsp_pending d" "dsp_closed_sessions d1 = dsp_closed_sessions d" "dsp_stopped d1 = dsp_stopped d"
    "dsp_effects d1 = dsp_effects d @ [SentTaskStart ?e ?rid (dp_send_start ports ?e ?rid)]"
    by (simp_all add: d1_def)
  show ?thesis
  proof (cases "dp_send_start ports ?e ?rid")
    case False
    obtain d2 where "write_failed ports ?e ?rid \<lparr>pm_session = ?e, pm_released = False\<rparr> d1 = Some d2"
      "dispatch_call_ok d (quiet_event :: 'err dispatch_event) (count_attempt_rejected d2)"
      using failed_write_call [OF inv tc(3,2) took_lease(2) d1, of ?rid ports] False by auto
    moreover have "d1 = emit_effect (SentTaskStart ?e ?rid False) (d\<lparr>dsp_pool := pool\<rparr>)" using False by (simp add: d1_def)
    ultimately show ?thesis
      using False by (simp add: enqueue_task_attempt_locked_def Let_def tc(1) admission_event_def)
  next
    case True
    define pn where "pn = \<lparr>pn_kind = KindTaskAttempt, pn_session_epoch = ?e, pn_lease = sel_lease sel, pn_permit = \<lparr>pm_session = ?e, pm_released = False\<rparr>,
       pn_stream_phase = None, pn_next_seq = 0, pn_deadline = sh_deadline (ta_header attempt),
       pn_task_attempt = Some \<lparr>tf_task_id = ta_task_id attempt, tf_attempt_id = ta_attempt_id attempt, tf_lease_id = ta_lease_id attempt\<rparr>,
       pn_test_case_capability = sh_test_case_capability (ta_header attempt)\<rparr>"
    have pn: "pn_session_epoch pn = ?e" "pending_ok (dsp_closed_sessions d) pn" "pn_stream_phase pn \<noteq> Some Streaming" "pn_next_seq pn = 0"
      "pn_kind pn = KindTaskAttempt"
      using tc(3) by (auto simp: pn_def pending_ok_def)
    define d2 where "d2 = d1\<lparr>dsp_pending := bt_insert ?rid pn (dsp_pending d1), dsp_task_attempt_accepted := inc_u64 (dsp_task_attempt_accepted d1)\<rparr>"
    have "dispatch_call_ok d (quiet_event\<lparr>ev_admitted := Some (?rid, ?e, KindTaskAttempt)\<rparr> :: 'err dispatch_event) d2"
      by (rule accepted_call [OF inv absent open_ tc(2) took_lease(2) pn, where ok = "dp_send_start ports ?e ?rid" and x = "SentTaskStart ?e ?rid (dp_send_start ports ?e ?rid)"]) (simp_all add: d1 d2_def)
    moreover have "enqueue_task_attempt_locked ports attempt sel (d\<lparr>dsp_pool := pool\<rparr>) = Some (SubmitAccepted ?rid ?e, d2)"
      using True by (simp add: enqueue_task_attempt_locked_def Let_def tc(1) d1_def pn_def d2_def)
    ultimately show ?thesis by (simp add: admission_event_def)
  qed
qed

lemma attempt_call:
  fixes ports :: "'err dispatch_ports"
  assumes inv: "dispatcher_inv d"
  shows "\<exists>r d'. task_attempt_submit ports attempt d = Some (r, d') \<and> dispatch_call_ok d (admission_event KindTaskAttempt r :: 'err dispatch_event) d'"
proof -
  let ?h = "ta_header attempt" and ?rid = "sh_request_id (ta_header attempt)"
  let ?f = "pending_on (dsp_pending d)" and ?n = "length (dsp_pending d)"
  have pool: "pool_matches (dsp_pool d) ?f ?n" using inv by (simp add: dispatcher_inv_def dispatcher_core_def)
  have refused: "dispatch_call_ok d (quiet_event :: 'err dispatch_event) (count_attempt_rejected (d\<lparr>dsp_pool := p\<rparr>))"
    if "pool_matches p ?f ?n" "ap_max_concurrency p = ap_max_concurrency (dsp_pool d)" for p
    using refused_call [OF inv, of "count_attempt_rejected (d\<lparr>dsp_pool := p\<rparr>)", where 'err = 'err] that by simp
  have same: "dispatch_call_ok d (quiet_event :: 'err dispatch_event) (count_attempt_rejected d)"
    using refused [OF pool refl] by simp
  have dup: "dispatch_call_ok d (quiet_event :: 'err dispatch_event) (count_attempt_rejected (d\<lparr>dsp_pool := record_duplicate_request_id (dsp_pool d)\<rparr>))"
    and nocand: "dispatch_call_ok d (quiet_event :: 'err dispatch_event) (count_attempt_rejected (d\<lparr>dsp_pool := record_no_candidate (dsp_pool d)\<rparr>))"
    by (auto intro!: refused matches_frame [OF pool])
  show ?thesis
  proof (cases "dsp_stopped d \<or> bt_get (dsp_pending d) ?rid \<noteq> None \<or> (case sh_deadline ?h of Some dl \<Rightarrow> dp_is_expired ports dl | None \<Rightarrow> False) \<or>
      dispatch_mode_from_wire (sh_mode ?h) = None \<or> sh_build_id ?h = None")
    case True
    then show ?thesis
      using same dup nocand by (auto simp: task_attempt_submit_def Let_def admission_event_def candidate_query_from_build_id_def split: option.splits)
  next
    case False
    then obtain mode build where mode: "dispatch_mode_from_wire (sh_mode ?h) = Some mode" and build: "sh_build_id ?h = Some build" by auto
    define query where "query = \<lparr>cq_mode = Unary, cq_build_id = build\<rparr>"
    define leases where "leases = (case ta_prefer_session attempt of None \<Rightarrow> admission_leases ports query d
      | Some prefer \<Rightarrow> filter (\<lambda>l. rl_session_epoch l = prefer) (admission_leases ports query d))"
    have open_: "set leases \<subseteq> {l. rl_session_epoch l \<notin> dsp_closed_sessions d}"
      using admission_leases_open [of ports query d] by (auto simp: leases_def split: option.splits)
    obtain r p where adm: "admit ports ?rid (sh_deadline ?h) leases (ta_prefer_session attempt) (ta_prefer_session attempt \<noteq> None) (dsp_pool d) = Some (r, p)"
      "ap_max_concurrency p = ap_max_concurrency (dsp_pool d)" "case r of AdmitRefused _ \<Rightarrow> pool_matches p ?f ?n | Admitted sel \<Rightarrow> took_lease leases ?f ?n sel p"
      using admit_ok [OF pool] by blast
    have sub: "task_attempt_submit ports attempt d = (case r of AdmitRefused reason \<Rightarrow> Some (SubmitRejected ?rid reason, count_attempt_rejected (d\<lparr>dsp_pool := p\<rparr>))
        | Admitted selected \<Rightarrow> enqueue_task_attempt_locked ports attempt selected (d\<lparr>dsp_pool := p\<rparr>))"
      using False mode build adm(1)
      by (simp add: task_attempt_submit_def Let_def candidate_query_from_build_id_def query_def [symmetric] leases_def [symmetric] split: option.splits)
    show ?thesis
    proof (cases r)
      case (AdmitRefused reason)
      then show ?thesis using sub adm refused by (simp add: admission_event_def)
    next
      case (Admitted sel)
      then have "took_lease leases ?f ?n sel p" using adm(3) by simp
      then show ?thesis using enqueue_attempt_call [OF inv _ _ _ adm(2) open_, of attempt sel ports] False sub Admitted by simp
    qed
  qed
qed

lemma end_call:
  fixes ports :: "'err dispatch_ports"
  assumes "dispatcher_inv d"
  shows "\<exists>ev d'. map_option (apfst end_event) (dispatch_terminal_locked ports rid outcome source reason msg d) = Some (ev :: 'err dispatch_event, d') \<and> dispatch_call_ok d ev d'"
  using terminal_call [OF assms, of ports rid outcome source reason msg] by auto

text \<open>Every call returns and keeps the invariant.\<close>

lemma perform_ok:
  fixes ports :: "'err dispatch_ports"
  assumes inv: "dispatcher_inv d"
  shows "\<exists>ev d'. perform ports c d = Some (ev, d') \<and> dispatch_call_ok d ev d'"
proof (cases c)
  case (CallSubmit request)
  then show ?thesis using submit_call [OF inv, of ports request] by (auto simp: perform_def)
next
  case (CallAttempt attempt)
  then show ?thesis using attempt_call [OF inv, of ports attempt] by (auto simp: perform_def)
next
  case (CallFrame e frame)
  then show ?thesis using frame_call [OF inv, of ports e frame] by (auto simp: perform_def frame_event_def)
next
  case (CallClosed e)
  then show ?thesis using closed_call [OF inv, of ports e] by (auto simp: perform_def)
next
  case CallShutdown
  then show ?thesis using shutdown_call [OF inv, of ports] by (auto simp: perform_def)
next
  case (CallTimeout rid)
  show ?thesis unfolding perform_def CallTimeout dispatch_call.case request_timeout_def by (rule end_call [OF inv])
next
  case (CallAbort rid reason)
  show ?thesis unfolding perform_def CallAbort dispatch_call.case caller_abort_def Let_def by (rule end_call [OF inv])
next
  case (CallClientDisconnect rid)
  show ?thesis unfolding perform_def CallClientDisconnect dispatch_call.case client_disconnect_def by (rule end_call [OF inv])
next
  case (CallBackpressure rid)
  show ?thesis unfolding perform_def CallBackpressure dispatch_call.case backpressure_def by (rule end_call [OF inv])
qed

section \<open>Runs\<close>

definition admissions :: "string \<Rightarrow> 'err dispatch_event list \<Rightarrow> nat" where
  "admissions rid evs = sum_list (map (admits rid) evs)"

definition terminals :: "string \<Rightarrow> 'err dispatch_event list \<Rightarrow> nat" where
  "terminals rid evs = sum_list (map (ends rid) evs)"

definition task_admissions :: "string \<Rightarrow> 'err dispatch_event list \<Rightarrow> nat" where
  "task_admissions rid evs = sum_list (map (task_admits rid) evs)"

definition run_ok :: "dispatcher \<Rightarrow> 'err dispatch_event list \<Rightarrow> dispatch_effect list \<Rightarrow> dispatcher \<Rightarrow> bool" where
  "run_ok d evs es d' \<longleftrightarrow>
     dispatcher_inv d' \<and> ap_max_concurrency (dsp_pool d') = ap_max_concurrency (dsp_pool d) \<and> dsp_effects d' = dsp_effects d @ es \<and>
     dsp_closed_sessions d \<subseteq> dsp_closed_sessions d' \<and>
     (\<forall>rid. admissions rid evs + pending_flag (dsp_pending d) rid = terminals rid evs + pending_flag (dsp_pending d') rid) \<and>
     (\<forall>rid. attempt_reports rid es + task_flag (dsp_pending d') rid = task_admissions rid evs + task_flag (dsp_pending d) rid) \<and>
     (\<forall>e rid ok. SentStart e rid ok \<in> set es \<or> SentTaskStart e rid ok \<in> set es \<longrightarrow> e \<notin> dsp_closed_sessions d) \<and>
     (\<forall>ev rid e k. ev \<in> set evs \<longrightarrow> ev_admitted ev = Some (rid, e, k) \<longrightarrow> e \<notin> dsp_closed_sessions d) \<and>
     (\<forall>rid resp. response_ok rid resp (bt_get (dsp_pending d) rid) \<longrightarrow>
        response_ok rid (fold (extend_response rid) evs resp) (bt_get (dsp_pending d') rid))"

lemma run_ok_Cons:
  assumes "dispatch_call_ok d ev d1" "run_ok d1 evs es d2"
  shows "\<exists>es'. run_ok d (ev # evs) es' d2"
proof -
  obtain es1 where c: "dispatcher_inv d1" "ap_max_concurrency (dsp_pool d1) = ap_max_concurrency (dsp_pool d)"
    "dsp_closed_sessions d \<subseteq> dsp_closed_sessions d1" "dsp_effects d1 = dsp_effects d @ es1"
    "event_ok (dsp_closed_sessions d) (dsp_pending d) ev es1 (dsp_pending d1)"
    using assms(1) by (auto simp: dispatch_call_ok_def)
  have "admissions rid (ev # evs) + pending_flag (dsp_pending d) rid = terminals rid (ev # evs) + pending_flag (dsp_pending d2) rid" for rid
  proof -
    have "admits rid ev + pending_flag (dsp_pending d) rid = ends rid ev + pending_flag (dsp_pending d1) rid"
      using c(5) by (simp add: event_ok_def)
    moreover have "admissions rid evs + pending_flag (dsp_pending d1) rid = terminals rid evs + pending_flag (dsp_pending d2) rid"
      using assms(2) by (simp add: run_ok_def)
    ultimately show ?thesis by (simp add: admissions_def terminals_def)
  qed
  moreover have "attempt_reports rid (es1 @ es) + task_flag (dsp_pending d2) rid = task_admissions rid (ev # evs) + task_flag (dsp_pending d) rid" for rid
  proof -
    have "attempt_reports rid es1 + task_flag (dsp_pending d1) rid = task_admits rid ev + task_flag (dsp_pending d) rid"
      using c(5) by (simp add: event_ok_def)
    moreover have "attempt_reports rid es + task_flag (dsp_pending d2) rid = task_admissions rid evs + task_flag (dsp_pending d1) rid"
      using assms(2) by (simp add: run_ok_def)
    ultimately show ?thesis by (simp add: task_admissions_def attempt_reports_def)
  qed
  moreover have "e \<notin> dsp_closed_sessions d" if "SentStart e rid ok \<in> set (es1 @ es) \<or> SentTaskStart e rid ok \<in> set (es1 @ es)" for e rid ok
  proof -
    have "\<forall>e rid ok. SentStart e rid ok \<in> set es1 \<or> SentTaskStart e rid ok \<in> set es1 \<longrightarrow> e \<notin> dsp_closed_sessions d"
      using c(5) unfolding event_ok_def by (elim conjE)
    moreover have "\<forall>e rid ok. SentStart e rid ok \<in> set es \<or> SentTaskStart e rid ok \<in> set es \<longrightarrow> e \<notin> dsp_closed_sessions d1"
      using assms(2) unfolding run_ok_def by (elim conjE)
    ultimately show ?thesis using that c(3) by auto
  qed
  moreover have "e \<notin> dsp_closed_sessions d" if "x \<in> set (ev # evs)" "ev_admitted x = Some (rid, e, k)" for x rid e k
  proof -
    have "\<forall>rid e k. ev_admitted ev = Some (rid, e, k) \<longrightarrow> e \<notin> dsp_closed_sessions d"
      using c(5) unfolding event_ok_def by (elim conjE)
    moreover have "\<forall>ev rid e k. ev \<in> set evs \<longrightarrow> ev_admitted ev = Some (rid, e, k) \<longrightarrow> e \<notin> dsp_closed_sessions d1"
      using assms(2) unfolding run_ok_def by (elim conjE)
    ultimately show ?thesis using that c(3) by auto
  qed
  moreover have "response_ok rid (fold (extend_response rid) (ev # evs) resp) (bt_get (dsp_pending d2) rid)"
    if "response_ok rid resp (bt_get (dsp_pending d) rid)" for rid resp
    using that c(5) assms(2) unfolding event_ok_def run_ok_def by simp
  ultimately have "run_ok d (ev # evs) (es1 @ es) d2"
    using c(2,3,4) assms(2) unfolding run_ok_def by auto
  then show ?thesis ..
qed

lemma dispatch_run_ok:
  fixes cs :: "('err dispatch_ports \<times> 'err dispatch_call) list"
  assumes "dispatcher_inv d"
  shows "\<exists>evs es d'. dispatch_run cs d = Some (evs, d') \<and> run_ok d evs es d'"
  using assms
proof (induction cs arbitrary: d)
  case Nil
  then show ?case
    by (auto simp: run_ok_def admissions_def terminals_def task_admissions_def attempt_reports_def intro!: exI [of _ "[]"])
next
  case (Cons pc cs)
  obtain ports c where pc: "pc = (ports, c)" by (cases pc)
  obtain ev d1 where p: "perform ports c d = Some (ev, d1)" "dispatch_call_ok d ev d1" using perform_ok [OF Cons.prems, of ports c] by blast
  then have "dispatcher_inv d1" by (simp add: dispatch_call_ok_def)
  then obtain evs es d2 where r: "dispatch_run cs d1 = Some (evs, d2)" "run_ok d1 evs es d2" using Cons.IH by blast
  obtain es' where "run_ok d (ev # evs) es' d2" using run_ok_Cons [OF p(2) r(2)] by blast
  then show ?case using p(1) r(1) by (auto simp: pc)
qed

lemma dispatch_run_append:
  "dispatch_run (xs @ ys) d = Option.bind (dispatch_run xs d) (\<lambda>(evs, d1). map_option (apfst ((@) evs)) (dispatch_run ys d1))"
proof (induction xs arbitrary: d)
  case Nil
  then show ?case by (cases "dispatch_run ys d") (auto simp: apfst_def map_prod_def)
next
  case (Cons pc xs)
  obtain ports c where pc: "pc = (ports, c)" by (cases pc)
  show ?case
  proof (cases "perform ports c d")
    case (Some r)
    then show ?thesis
      using Cons.IH [of "snd r"] by (cases r; cases "dispatch_run xs (snd r)") (auto simp: pc option.map_comp o_def apfst_def map_prod_def case_prod_unfold)
  qed (simp add: pc)
qed

lemma new_inv: "dispatcher_new m = Some d \<Longrightarrow> dispatcher_inv d \<and> ap_max_concurrency (dsp_pool d) = m \<and> dsp_pending d = [] \<and> dsp_effects d = []"
  by (auto simp: dispatcher_new_def pool_new_def dispatcher_inv_def dispatcher_core_def pool_matches_def pending_on_def bt_values_def
      permits_held_def pool_in_flight_def split: if_splits)

lemma new_run:
  fixes cs :: "('err dispatch_ports \<times> 'err dispatch_call) list"
  assumes "dispatcher_new m = Some d" "dispatch_run cs d = Some (evs, d')"
  shows "run_ok d evs (dsp_effects d') d'" "dsp_pending d = []"
  using dispatch_run_ok [of d cs] new_inv [OF assms(1)] assms(2) by (auto simp: run_ok_def)

lemma pending_on_closed:
  assumes "dispatcher_inv d" "e \<in> dsp_closed_sessions d"
  shows "pending_on (dsp_pending d) e = 0"
proof -
  have "bt_ok (dsp_pending d)" using assms(1) by (simp add: dispatcher_inv_def dispatcher_core_def)
  then have "pn_session_epoch pn \<noteq> e" if "pn \<in> set (bt_values (dsp_pending d))" for pn
    using that assms(2) inv_get [OF assms(1)] by (auto simp: bt.in_values_iff pending_ok_def)
  then show ?thesis by (auto simp: pending_on_def filter_empty_conv)
qed

section \<open>Properties\<close>

text \<open>C3: 
  No sequence of dispatcher calls panics, whatever the ports answer, and capacity is exact throughout: each
  session's permits are its pending requests, never more than the bound, their sum is the number of pending
  requests, and after a shutdown nothing is pending and no permit is held.
\<close>

theorem dispatcher_permits_exact:
  assumes "dispatcher_new m = Some d"
  shows "\<exists>evs d'. dispatch_run cs d = Some (evs, d') \<and>
    (\<forall>e. pool_in_flight (dsp_pool d') e = pending_on (dsp_pending d') e \<and> pending_on (dsp_pending d') e \<le> m) \<and>
    permits_held (dsp_pool d') = pending_count d' \<and> (dsp_stopped d' \<longrightarrow> permits_held (dsp_pool d') = 0)"
proof -
  obtain evs es d' where r: "dispatch_run cs d = Some (evs, d')" "run_ok d evs es d'"
    using dispatch_run_ok [of d cs] new_inv [OF assms] by blast
  then have "dispatcher_inv d'" "ap_max_concurrency (dsp_pool d') = m" using new_inv [OF assms] by (simp_all add: run_ok_def)
  then show ?thesis
    using r(1) by (auto simp: dispatcher_inv_def dispatcher_core_def pool_matches_def pending_count_def)
qed

text \<open>C4: 
  Every admitted request ends exactly once. At every point of every run, for each request id, the number of
  admissions is the number of terminals reported, plus one while the request is pending; so a request never
  ends without having been admitted, never twice, and an id is admitted again only after its end.
\<close>

theorem request_ends_once:
  assumes "dispatcher_new m = Some d" "dispatch_run cs d = Some (evs, d')"
  shows "admissions rid evs = terminals rid evs + (if bt_get (dsp_pending d') rid = None then 0 else 1)"
  using new_run [OF assms] by (simp add: run_ok_def pending_flag_def)

text \<open>C14: 
  Responses are forwarded in order. The frames forwarded for a request since its admission are, for a stream, a
  start, then chunks numbered from zero without a gap, then at most one end or error; for other requests at
  most one end or error; and nothing after it. While the stream is pending no end or error has been forwarded.
\<close>

theorem response_in_order:
  assumes "dispatcher_new m = Some d" "dispatch_run cs d = Some (evs, d')"
  shows "response_ok rid (response_of rid evs) (bt_get (dsp_pending d') rid)"
proof -
  have "response_ok rid (None :: 'a response) (bt_get (dsp_pending d) rid)"
    using new_run(2) [OF assms] by (simp add: response_ok_def)
  then show ?thesis
    using new_run(1) [OF assms] unfolding run_ok_def response_of_def by blast
qed

text \<open>
  A task attempt is reported to the task control plane exactly once. For each request id the terminals handed to
  the sink are the admitted attempts of that id, less the one that is still pending, and ordinary requests
  report nothing.
\<close>

theorem task_attempt_reported_once:
  assumes "dispatcher_new m = Some d" "dispatch_run cs d = Some (evs, d')"
  shows "task_admissions rid evs = attempt_reports rid (dsp_effects d') + (if is_task_attempt d' rid then 1 else 0)"
proof -
  have "\<forall>rid. attempt_reports rid (dsp_effects d') + task_flag (dsp_pending d') rid = task_admissions rid evs + task_flag (dsp_pending d) rid"
    using new_run(1) [OF assms] unfolding run_ok_def by (elim conjE)
  from this [rule_format, of rid] show ?thesis
    using new_run(2) [OF assms] by (auto simp: task_flag_def is_task_attempt_def split: option.splits if_splits)
qed

text \<open>C17: 
  A closed session receives nothing more. Once a session's close has been processed no later call, however stale
  its view of the candidates, admits a request to it or even tries to send it a start frame, and none of its
  requests is pending.
\<close>

theorem closed_session_unused:
  fixes ports :: "'err dispatch_ports"
  assumes "dispatcher_new m = Some d" "dispatch_run (before @ [(ports, CallClosed e)] @ after) d = Some (evs, d')"
    and "dispatch_run (before @ [(ports, CallClosed e)]) d = Some (evs1, d1)"
  shows "pending_on (dsp_pending d') e = 0 \<and>
    (\<exists>evs2 es2. evs = evs1 @ evs2 \<and> dsp_effects d' = dsp_effects d1 @ es2 \<and>
       (\<forall>ev \<in> set evs2. \<forall>rid k. ev_admitted ev \<noteq> Some (rid, e, k)) \<and>
       (\<forall>rid ok. SentStart e rid ok \<notin> set es2 \<and> SentTaskStart e rid ok \<notin> set es2))"
proof -
  have inv: "dispatcher_inv d" using new_inv [OF assms(1)] by blast
  obtain evs0 es0 d0 where r0: "dispatch_run before d = Some (evs0, d0)" "run_ok d evs0 es0 d0" using dispatch_run_ok [OF inv] by blast
  have inv0: "dispatcher_inv d0" using r0(2) by (simp add: run_ok_def)
  obtain ts dc where cl: "on_session_closed ports e d0 = Some (ts, dc)" "dispatch_call_ok d0 (quiet_event\<lparr>ev_terminals := ts\<rparr> :: 'err dispatch_event) dc" "e \<in> dsp_closed_sessions dc"
    using closed_call [OF inv0] by blast
  have d1: "d1 = dc" "evs1 = evs0 @ [quiet_event\<lparr>ev_terminals := ts\<rparr>]"
    using assms(3) r0(1) cl(1) by (auto simp: dispatch_run_append perform_def)
  have invc: "dispatcher_inv d1" using cl(2) d1 by (simp add: dispatch_call_ok_def)
  obtain evs2 es2 d2 where r2: "dispatch_run after d1 = Some (evs2, d2)" "run_ok d1 evs2 es2 d2" using dispatch_run_ok [OF invc] by blast
  have run: "dispatch_run ((before @ [(ports, CallClosed e)]) @ after) d = Some (evs, d')" using assms(2) by simp
  have fin: "d' = d2" "evs = evs1 @ evs2"
    using run [unfolded dispatch_run_append [of "before @ [(ports, CallClosed e)]" after] assms(3)] r2(1) by simp_all
  have "e \<in> dsp_closed_sessions d1" using cl(3) d1 by simp
  moreover have "dispatcher_inv d2" "dsp_closed_sessions d1 \<subseteq> dsp_closed_sessions d2" using r2(2) by (simp_all add: run_ok_def)
  ultimately have "pending_on (dsp_pending d') e = 0" using pending_on_closed [of d2 e] fin by auto
  then show ?thesis
    using r2(2) fin \<open>e \<in> dsp_closed_sessions d1\<close> unfolding run_ok_def by auto
qed

section \<open>A run\<close>

text \<open>
  One runtime session that takes both modes: a stream is admitted, starts, delivers a chunk and ends; a task attempt is
  admitted and loses its session; a later request finds no candidate although the stale view still lists it.
\<close>

definition demo_session :: candidate_session where
  "demo_session = \<lparr>cse_session_epoch = demo_epoch 1, cse_registered = True, cse_registration_revision = 1, cse_cancelled = False,
     cse_capabilities = \<lparr>dc_unary = True, dc_server_stream = True\<rparr>, cse_registered_build_ids = [''b1''], cse_lazy_load = False, cse_artifact_root = None\<rparr>"

definition demo_ports :: "unit dispatch_ports" where
  "demo_ports = \<lparr>dp_is_expired = wire_is_expired, dp_is_expired_recheck = wire_is_expired,
     dp_view = \<lparr>cv_revision = None, cv_router_artifact_root = None, cv_sessions = [demo_session]\<rparr>,
     dp_revalidate = (\<lambda>_ _. RevalOk), dp_send_start = (\<lambda>_ _. True), dp_send_cancel = (\<lambda>_ _ _. True), dp_debug_error = (\<lambda>_. ''error'')\<rparr>"

definition demo_header :: "string \<Rightarrow> string \<Rightarrow> start_header" where
  "demo_header rid mode = \<lparr>sh_request_id = rid, sh_mode = mode, sh_build_id = Some ''b1'', sh_deadline = None, sh_test_case_capability = None\<rparr>"

definition demo_before :: "(unit dispatch_ports \<times> unit dispatch_call) list" where
  "demo_before = map (Pair demo_ports)
     [CallSubmit \<lparr>ds_header = demo_header ''r1'' ''serverStream'', ds_prefer_session = None\<rparr>,
      CallFrame (demo_epoch 1) (FrameStart ''r1''), CallFrame (demo_epoch 1) (FrameChunk ''r1'' 0 [7]),
      CallAttempt \<lparr>ta_header = demo_header ''t1'' ''unary'', ta_task_id = ''task'', ta_attempt_id = ''attempt'', ta_lease_id = ''lease'', ta_prefer_session = None\<rparr>,
      CallFrame (demo_epoch 1) (FrameEnd ''r1'' False [])]"

definition demo_after :: "(unit dispatch_ports \<times> unit dispatch_call) list" where
  "demo_after = [(demo_ports, CallSubmit \<lparr>ds_header = demo_header ''r2'' ''unary'', ds_prefer_session = Some (demo_epoch 1)\<rparr>)]"

definition demo_calls :: "(unit dispatch_ports \<times> unit dispatch_call) list" where
  "demo_calls = demo_before @ [(demo_ports, CallClosed (demo_epoch 1))] @ demo_after"

definition demo_dispatcher :: dispatcher where
  "demo_dispatcher = the (dispatcher_new 2)"

lemma demo_new: "dispatcher_new 2 = Some demo_dispatcher"
  by (simp add: demo_dispatcher_def dispatcher_new_def pool_new_def)

lemma demo_returns: "\<exists>evs d. dispatch_run cs demo_dispatcher = Some (evs, d)"
  using dispatch_run_ok [of demo_dispatcher cs] new_inv [OF demo_new] by blast

definition demo_events :: "unit dispatch_event list" where
  "demo_events = fst (the (dispatch_run demo_calls demo_dispatcher))"

definition demo_final :: dispatcher where
  "demo_final = snd (the (dispatch_run demo_calls demo_dispatcher))"

lemma dispatch_demo_run: "dispatch_run demo_calls demo_dispatcher = Some (demo_events, demo_final)"
  using demo_returns [of demo_calls] by (auto simp: demo_events_def demo_final_def)

lemma demo_final_facts:
  "bt_get (dsp_pending demo_final) ''r1'' = None" "admissions ''r1'' demo_events = 1" "is_task_attempt demo_final ''t1'' = False"
  "task_admissions ''t1'' demo_events = 1"
  "response_of ''r1'' demo_events = Some (KindStream, [DispStart ''r1'', DispChunk ''r1'' 0 [7], DispEnd ''r1'' []])"
  by code_simp+

theorem dispatcher_permits_exact_witness:
  "dispatcher_new 2 = Some demo_dispatcher \<and>
   (\<exists>evs d'. dispatch_run demo_calls demo_dispatcher = Some (evs, d') \<and> permits_held (dsp_pool d') = pending_count d')"
  using dispatcher_permits_exact [OF demo_new, of demo_calls] demo_new by blast

theorem request_ends_once_witness:
  "dispatcher_new 2 = Some demo_dispatcher \<and> dispatch_run demo_calls demo_dispatcher = Some (demo_events, demo_final) \<and> terminals ''r1'' demo_events = 1"
  using request_ends_once [OF demo_new dispatch_demo_run, of "''r1''"] demo_new dispatch_demo_run demo_final_facts(1,2) by simp

theorem response_in_order_witness:
  "dispatcher_new 2 = Some demo_dispatcher \<and> dispatch_run demo_calls demo_dispatcher = Some (demo_events, demo_final) \<and>
   response_shape ''r1'' KindStream [DispStart ''r1'', DispChunk ''r1'' 0 [7], DispEnd ''r1'' ([] :: nat list) :: unit dispatched_frame]"
  using response_in_order [OF demo_new dispatch_demo_run, of "''r1''"] demo_new dispatch_demo_run demo_final_facts(1,5) by (simp add: response_ok_def)

theorem task_attempt_reported_once_witness:
  "dispatcher_new 2 = Some demo_dispatcher \<and> dispatch_run demo_calls demo_dispatcher = Some (demo_events, demo_final) \<and>
   attempt_reports ''t1'' (dsp_effects demo_final) = 1"
  using task_attempt_reported_once [OF demo_new dispatch_demo_run, of "''t1''"] demo_new dispatch_demo_run demo_final_facts(3,4) by simp

theorem closed_session_unused_witness:
  "dispatcher_new 2 = Some demo_dispatcher \<and> dispatch_run demo_calls demo_dispatcher = Some (demo_events, demo_final) \<and>
   pending_on (dsp_pending demo_final) (demo_epoch 1) = 0"
proof -
  obtain evs1 d1 where before: "dispatch_run (demo_before @ [(demo_ports, CallClosed (demo_epoch 1))]) demo_dispatcher = Some (evs1, d1)"
    using demo_returns by blast
  show ?thesis
    using closed_session_unused [OF demo_new dispatch_demo_run [unfolded demo_calls_def] before] demo_new dispatch_demo_run by simp
qed

end
