(* ===== verification/Spec2Isabelle.thy ===== *)
theory Spec2Isabelle
  imports Task_Scheduler_Properties Actor_Lease Actor_Activation Actor_Control Actor_Invocation Actor_Catalog Memory_Ledger Execution_Budget Request_Pending_Properties Syntax_Type_Grammar Bytecode_Flow Stream_Channel Router_Dispatcher_Properties
begin

text \<open>
  Verification of the Skiff language implementation.

  Skiff compiles services to bytecode, runs them in a runtime host and connects the hosts through a
  router. The development covers the parts that keep state under concurrency and the front of the
  compiler, translated from the Rust sources:

  \<^item> \<^bold>\<open>Durable tasks\<close> (\<open>task-control/src\<close>). \<open>Task_Model\<close> has the task record, its errors and the
    validation of new records (\<open>model.rs\<close>, \<open>error.rs\<close>); \<open>Task_Reducer\<close> the pure transitions of
    \<open>reducer.rs\<close> (claim, renew, settle, cancel, recover, release), where a transition whose source
    panics returns \<open>None\<close>; \<open>Task_Store_Spec\<close> the contract of the \<open>TaskStore\<close> port (\<open>store.rs\<close>) as the
    locales \<open>task_store_contract\<close> and \<open>task_store_fencing\<close>; \<open>Task_Memory_Store\<close> the operations of
    \<open>memory.rs\<close> with their bodies as atomic steps, and the interpretation of the contract on them.
    \<open>Task_Store_Properties\<close> states what runs of any length guarantee: records stay well-formed and
    nothing panics, terminal tasks are final, a lost lease is dead for ever, settlement and recovery
    exclude each other, a due scan returns what its documentation says.
    \<open>Task_Backoff\<close> is \<open>scheduler/backoff.rs\<close> and \<open>retry.rs\<close> (delay bounds, bounded retries);
    \<open>Task_Scheduler\<close> and \<open>Task_Scheduler_Properties\<close> are \<open>scheduler/mod.rs\<close> and \<open>admission.rs\<close>: a
    cycle runs over any store that meets the contract, with other replicas acting between its calls, and a scan
    on the memory store carries out exactly what the admission seam decided.

  \<^item> \<^bold>\<open>Router actors\<close> (\<open>router/src/actor\<close>). \<open>Actor_Types\<close> has identities and fences (\<open>types.rs\<close>);
    \<open>Actor_Ownership\<close> the ownership registry (\<open>ownership.rs\<close>): reservation, commit, renewal, release,
    eviction, expiry, with exclusivity during eviction, single use of claim tokens and fencing of
    earlier incarnations; \<open>Actor_Lease\<close> the lease and idle eviction scheduler (\<open>lease.rs\<close>) on top of
    the registry; \<open>Actor_Activation\<close> the activation broker (\<open>activation.rs\<close>): deduplicated
    get-or-create calls, acknowledgements, deadlines, shutdown, and that no waiter is ever lost.
    \<open>Actor_Correlation\<close> is the table of pending requests both remaining services keep (locale
    \<open>pending_table\<close>): \<open>Actor_Control\<close> the owner-control broker (\<open>control.rs\<close>) and \<open>Actor_Invocation\<close> the
    invocation relay (\<open>invocation.rs\<close>), where every admission ends exactly once;
    \<open>Actor_Catalog\<close> the method catalog view and the choice of an owner (\<open>catalog.rs\<close>,
    \<open>owner_candidate.rs\<close>).

  \<^item> \<^bold>\<open>Requests in the runtime\<close> (\<open>runtime/request/src\<close>). \<open>Memory_Ledger\<close> is \<open>memory_ledger.rs\<close> with
    the affine lease of \<open>runtime/model/src/memory_ledger.rs\<close> (locale \<open>memory_lease_host\<close>) and the
    transaction ledger; its accounts are exact and within the cap in every reachable state, up to what the public
    direct \<open>release\<close> takes without a lease, after which the drop of a lease can fail its assertion.
    \<open>Execution_Budget\<close> is \<open>execution_budget.rs\<close> with the port of \<open>runtime/vm/src/budget.rs\<close> (locale
    \<open>vm_budget_port\<close>): one winner, exact instruction counts, deadlines within one poll interval, and
    what happens to pending sinks. \<open>Owner_Inventory\<close>, \<open>Request_Pending\<close> and \<open>Request_Pending_Runs\<close> are
    the pending operations of the request scheduler (\<open>runtime/scheduler/src\<close>: \<open>owner_inventory.rs\<close>,
    \<open>pending.rs\<close>, \<open>root_escrow.rs\<close>; locale \<open>lease_counter\<close>): completions, deadlines, cancellations,
    publication, abandonment and the loss of any owner as interleaved steps. \<open>Request_Pending_Properties\<close>
    shows that the only step which can panic is a second resume of a guard whose first one failed, that every
    escrow of roots ends exactly once, that each cell has one winner whose wake is queued once, that whole
    calls leave no ticket of a finished operation behind, and that the root walk sees exactly what the cells hold.
    \<open>Stream_Channel\<close> is the bounded stream between a producer and a consumer (\<open>stream.rs\<close>): items arrive in
    order without loss or repetition, and every parked signal is fired once or still waits.

  \<^item> \<^bold>\<open>Router sessions and dispatch\<close> (\<open>router/src/session\<close>, \<open>routing\<close>, \<open>dispatch\<close>). \<open>Router_Session\<close> has the
    session identities, the handshake state machine, the pool of unauthenticated connections, the budget of
    the outbound queue and the registration directory with its close barrier; \<open>Router_Routing\<close> the query for
    the sessions that can serve a build (\<open>query.rs\<close>, \<open>candidate.rs\<close>), which is exact for any cached
    registration facts and agrees with the directory's own list where the records carry them (facts and
    directory are under two locks, each update of them two sections), and the revalidation of a lease; \<open>Router_Admission\<close> the pool of permits (\<open>admission.rs\<close>), an
    interpretation of \<open>lease_counter\<close>, with the exact outcome and the fairness of a selection.
    \<open>Router_Dispatcher\<close> is the request dispatcher (\<open>dispatcher.rs\<close>) with the cancel reasons of
    \<open>runtime/transport/src/cancel_reason.rs\<close>; \<open>Router_Dispatcher_Properties\<close> shows over all sequences of its
    calls that the permits held are the pending requests, that every admitted request and task attempt is
    reported exactly once, that response frames are forwarded in order and that a closed session is not used.

  \<^item> \<^bold>\<open>Syntax\<close> (\<open>syntax/src\<close>). \<open>Syntax_Lexer\<close> is \<open>lexer.rs\<close> with the positions of \<open>error.rs\<close> and the
    duration literals of \<open>ast.rs\<close>: the tokens are a tokenization of the source with exact spans, and
    printed tokens are read back. \<open>Syntax_Type_Expr\<close> is \<open>type_syntax.rs\<close> and \<open>type_expr.rs\<close>: the
    bracket-aware splitters, the type parser, printer and traversals; \<open>Syntax_Type_Roundtrip\<close> proves
    that an unambiguous type is read back from its text, and shows the text for which it is not.
    \<open>Syntax_Cursor\<close> is the parser's token cursor (\<open>parser/cursor.rs\<close>) and \<open>Syntax_Type_Parser\<close> its
    type grammar (\<open>parser/type.rs\<close>), which returns on every input (locale \<open>nested_parser\<close>) but for the
    end token alone, where it panics;
    \<open>Syntax_Type_Grammar\<close> proves that a type written as tokens with any spacing is parsed to the text of that
    type (locale \<open>nested_reader\<close>), from the source characters through the lexer. That text is the parser's:
    it quotes string literals with \<open>quote_string_type\<close>, which differs from the printer of \<open>type_expr.rs\<close> on
    control characters.

  \<^item> \<^bold>\<open>Bytecode\<close> (\<open>artifact-model/src/bytecode\<close>). \<open>Bytecode_Opcodes\<close> is the instruction table with its contracts
    (\<open>opcodes\<close>), shown consistent; \<open>Bytecode_Codec\<close> the bounded decoder and the assembler (\<open>decode.rs\<close>,
    \<open>encode.rs\<close>), inverse to each other; \<open>Bytecode_Function\<close> the functions, pools and tables of an image
    (\<open>dto.rs\<close>) and the nesting depth of types; \<open>Bytecode_Tables\<close> the checks of exception and active regions,
    statement entries, source maps and switch tables (\<open>validate/control_flow\<close>), each proved to accept exactly
    the tables its specification describes; \<open>Bytecode_Validate\<close> the validation of functions, resume sites and
    debug bindings (\<open>validate.rs\<close> and its modules). \<open>Bytecode_Flow\<close> shows that validation does not panic
    (outside \<open>validate_relocation_facts\<close>, which is a parameter), that control in an accepted function never leaves the instruction headers, and that resume descriptors and
    suspension sites correspond one to one.

  \<open>Skiff_Prelude\<close> holds what the theories share: fixed-width integers with the checked, saturating and
  wrapping operations of the sources, \<open>BTreeMap\<close> as an ordered association list behind the locale
  \<open>ordered_map\<close>, and the locale \<open>fresh_ids\<close> for identifiers that are never reissued, from which lease
  fencing and claim tokens both follow.

  \<^bold>\<open>Conventions.\<close> \<open>i64\<close> values are \<open>int\<close> and \<open>u64\<close>, \<open>usize\<close> values \<open>nat\<close>, with overflow written out where
  the code can reach it. A panic (\<open>expect\<close>, \<open>assert\<close>, a debug assertion) is the value \<open>None\<close> of an
  operation, so that its absence is a theorem (two debug assertions of the session code are left out,
  see \<open>Router_Session\<close>). A \<open>HashMap\<close> is an association list or a function, whose order nothing observes. A critical section under one lock is one step;
  operations that release the lock are several steps, and invariants are proved over the step
  relations, for every interleaving; only the activation broker's calls, which take the registry's lock more
  than once, are one step each (see \<open>Actor_Activation\<close>). Clock readings are arguments of the steps and may go backwards
  unless a statement says otherwise. All loops of the sources are total functions here: the recursion
  is structural or comes with a measure (remaining characters, remaining attempts, length of the
  text), and the retry loop takes its number of attempts from the policy. Two exceptions: the type
  grammar counts nested calls and loop iterations down from one more than the tokens left, which is
  proved to be enough on every input; the loop that skips a block can run for ever, and its value is
  then \<open>None\<close>.

  \<^bold>\<open>Parameters.\<close> Code outside the repository is an argument: the float parser of the lexer, the JSON
  string codec of type expressions (with the hypothesis \<open>json_string_codec\<close>), the admission seam and
  the payload types of tasks, send functions of the broker. The pinned lifecycle registry of the bytecode
  validation is an argument too, and so is \<open>validate_relocation_facts\<close> of \<open>validate.rs\<close> (the check of a
  relocation's own facts, which rests on the service, database and receiver contracts that are not modelled): the
  properties of the validation hold for every such check, and \<open>validation_no_panic\<close> says that a panic can come only from it. The ports of the dispatcher
  (candidate view, revalidation, timeout check, frame writers) are arguments whose answers are arbitrary, a
  fresh choice at every call.

  \<^bold>\<open>Not modelled.\<close> The Mongo implementation of the task store (a database protocol), the run loop
  around a scheduler cycle and the system clock; the event loop, mailboxes, timers and frame
  demultiplexing of a router session; HTTP and WebSockets; deadline admission from JSON headers; the parser's expressions, statements and
  declarations, the compiler's analyses, lowering and emission; the header, pool, origin and constant checks of a
  bytecode artifact; linker, virtual machine and the scheduler's unit trampoline and resources;
  codecs, native library and transport; artifact identity and deployment; tooling.
\<close>

end
